(* ===== verification/Prelude.thy ===== *)
theory Prelude
  imports Main "HOL-Library.Word" "HOL-Library.Sublist"
begin

text \<open>
  Shared vocabulary of the development: machine integers as words, byte buffers with
  bounds-checked access, the result type of code that throws or corrupts memory, and the
  containers of the C++ standard library that the servers iterate over (\<open>hash_map\<close> and
  \<open>std::map\<close>) behind one locale, so that every component reasons about lookups,
  insertions and removals with the same lemmas.
\<close>

unbundle bit_operations_syntax

section \<open>Collections of simplification rules\<close>

named_theorems result_simps \<open>equations for code that throws\<close>
named_theorems buffer_simps \<open>buffer contents after an operation\<close>
named_theorems stream_simps \<open>byte stream operations\<close>
named_theorems handler_defs \<open>definitions of message handlers\<close>

section \<open>Machine integers\<close>

type_synonym byte = "8 word"
type_synonym u16 = "16 word"
type_synonym u32 = "32 word"
type_synonym u64 = "64 word"
type_synonym bytes = "byte list"

lemma unat_of_nat_u32: "n < 2 ^ 32 \<Longrightarrow> unat (of_nat n :: u32) = n"
  by (simp add: unat_of_nat take_bit_nat_eq_self)

lemma unat_add_u32: "unat a + unat b < 2 ^ 32 \<Longrightarrow> unat (a + b :: u32) = unat a + unat b"
  by (simp add: unat_word_ariths)

lemma unat_sub_u32: "unat b \<le> unat a \<Longrightarrow> unat (a - b :: u32) = unat a - unat b"
  by (simp add: unat_sub word_le_nat_alt)

lemma unat_lt_u32: "unat (a :: u32) < 2 ^ 32"
  using unsigned_less [of a] by simp

lemma unat_drop_bit_u32: "unat (drop_bit n (a :: u32)) = unat a div 2 ^ n"
  using unat_lt_u32 [of a]
  by (simp add: unsigned_drop_bit_eq take_bit_nat_eq_self flip: drop_bit_eq_div)

section \<open>Results of code that may throw or fault\<close>

text \<open>
  \<open>PduException\<close> carries the four fields of \<open>CPduException\<close>. \<open>MemFault\<close> stands for an
  access outside an allocated block: the C++ program has undefined behaviour there, and a
  theorem that an operation returns \<open>Inr\<close> says that it stays inside its memory. \<open>NotReturned\<close>
  is the result of a call that is still in its loop when the random numbers given to it are used up.
\<close>

datatype err = PduException u32 u32 u32 string | MemFault | NotReturned

fun thrown :: "err \<Rightarrow> bool" where
  "thrown (PduException s c e m) = True"
| "thrown MemFault = False"
| "thrown NotReturned = False"

type_synonym 'a res = "err + 'a"

definition bindR :: "'e + 'a \<Rightarrow> ('a \<Rightarrow> 'e + 'b) \<Rightarrow> 'e + 'b" where
  "bindR m f = (case m of Inl e \<Rightarrow> Inl e | Inr x \<Rightarrow> f x)"

lemma bindR_simps [simp, result_simps]:
  "bindR (Inl e) f = Inl e" "bindR (Inr x) f = f x"
  by (simp_all add: bindR_def)

lemma bindR_Inr_iff [result_simps]: "bindR m f = Inr y \<longleftrightarrow> (\<exists>x. m = Inr x \<and> f x = Inr y)"
  by (cases m) auto

lemma bindR_assoc: "bindR (bindR m f) g = bindR m (\<lambda>x. bindR (f x) g)"
  by (cases m) auto

section \<open>Hexadecimal\<close>

definition hex_digit :: "nat \<Rightarrow> char" where
  "hex_digit n = (if n < 10 then char_of (48 + n) else char_of (87 + n))"

text \<open>\<open>%02x\<close> of every byte.\<close>

definition hex_string :: "bytes \<Rightarrow> string" where
  "hex_string bs = concat (map (\<lambda>b. [hex_digit (unat b div 16), hex_digit (unat b mod 16)]) bs)"

section \<open>Bounds-checked access to byte blocks\<close>

definition slice :: "'a list \<Rightarrow> nat \<Rightarrow> nat \<Rightarrow> err + 'a list" where
  "slice xs off n = (if off + n \<le> length xs then Inr (take n (drop off xs)) else Inl MemFault)"

definition memcpy_at :: "'a list \<Rightarrow> nat \<Rightarrow> 'a list \<Rightarrow> err + 'a list" where
  "memcpy_at xs off ys =
     (if off + length ys \<le> length xs then Inr (take off xs @ ys @ drop (off + length ys) xs)
      else Inl MemFault)"

lemma slice_Inr [simp]: "off + n \<le> length xs \<Longrightarrow> slice xs off n = Inr (take n (drop off xs))"
  by (simp add: slice_def)

lemma slice_eq_Inr_iff: "slice xs off n = Inr ys \<longleftrightarrow> off + n \<le> length xs \<and> ys = take n (drop off xs)"
  by (auto simp: slice_def)

lemma memcpy_at_Inr [simp]:
  "off + length ys \<le> length xs \<Longrightarrow>
   memcpy_at xs off ys = Inr (take off xs @ ys @ drop (off + length ys) xs)"
  by (simp add: memcpy_at_def)

lemma memcpy_at_length: "memcpy_at xs off ys = Inr zs \<Longrightarrow> length zs = length xs"
  by (auto simp: memcpy_at_def split: if_splits)

lemma memcpy_at_append_mid:
  "length a = off \<Longrightarrow> length b = length ys \<Longrightarrow> memcpy_at (a @ b @ c) off ys = Inr (a @ ys @ c)"
  by (simp add: memcpy_at_def)

text \<open>Consecutive copies are one copy of the concatenation.\<close>

fun memcpy_seq :: "'a list \<Rightarrow> nat \<Rightarrow> 'a list list \<Rightarrow> err + 'a list" where
  "memcpy_seq xs off [] = Inr xs"
| "memcpy_seq xs off (y # ys) = bindR (memcpy_at xs off y) (\<lambda>xs'. memcpy_seq xs' (off + length y) ys)"

lemma memcpy_at_twice:
  "off + length y + length z \<le> length xs \<Longrightarrow>
   bindR (memcpy_at xs off y) (\<lambda>xs'. memcpy_at xs' (off + length y) z) = memcpy_at xs off (y @ z)"
  by (simp add: add.commute add.left_commute)

lemma memcpy_seq_concat:
  "off + length (concat ys) \<le> length xs \<Longrightarrow> memcpy_seq xs off ys = memcpy_at xs off (concat ys)"
proof (induction ys arbitrary: xs off)
  case Nil
  then show ?case by simp
next
  case (Cons y ys)
  let ?xs = "take off xs @ y @ drop (off + length y) xs"
  have "memcpy_seq xs off (y # ys) = memcpy_seq ?xs (off + length y) ys"
    using Cons.prems by simp
  also have "\<dots> = memcpy_at ?xs (off + length y) (concat ys)"
    using Cons.prems by (intro Cons.IH) simp
  also have "\<dots> = bindR (memcpy_at xs off y) (\<lambda>xs'. memcpy_at xs' (off + length y) (concat ys))"
    using Cons.prems by simp
  also have "\<dots> = memcpy_at xs off (concat (y # ys))"
    using Cons.prems memcpy_at_twice [of off y "concat ys" xs] by simp
  finally show ?case .
qed

section \<open>Containers\<close>

text \<open>
  Both map types of the sources are association lists with distinct keys; the list order is
  the order in which an iterator visits the entries. A \<open>hash_map\<close> visits its entries in an
  order the program cannot rely on: its model adds a fresh entry in front, and no theorem
  depends on that. A \<open>std::map\<close> visits its entries by increasing key.
\<close>

type_synonym ('k, 'v) assoc = "('k \<times> 'v) list"

abbreviation keys :: "('k, 'v) assoc \<Rightarrow> 'k set" where
  "keys m \<equiv> fst ` set m"

definition hm_insert :: "'k \<Rightarrow> 'v \<Rightarrow> ('k, 'v) assoc \<Rightarrow> ('k, 'v) assoc" where
  "hm_insert k v m = (if k \<in> keys m then m else (k, v) # m)"

fun hm_assign :: "'k \<Rightarrow> 'v \<Rightarrow> ('k, 'v) assoc \<Rightarrow> ('k, 'v) assoc" where
  "hm_assign k v [] = [(k, v)]"
| "hm_assign k v (p # m) = (if fst p = k then (k, v) # m else p # hm_assign k v m)"

definition map_erase :: "'k \<Rightarrow> ('k, 'v) assoc \<Rightarrow> ('k, 'v) assoc" where
  "map_erase k m = filter (\<lambda>p. fst p \<noteq> k) m"

fun om_assign :: "'k::linorder \<Rightarrow> 'v \<Rightarrow> ('k, 'v) assoc \<Rightarrow> ('k, 'v) assoc" where
  "om_assign k v [] = [(k, v)]"
| "om_assign k v (p # m) =
     (if k < fst p then (k, v) # p # m
      else if k = fst p then (k, v) # m
      else p # om_assign k v m)"

definition om_insert :: "'k::linorder \<Rightarrow> 'v \<Rightarrow> ('k, 'v) assoc \<Rightarrow> ('k, 'v) assoc" where
  "om_insert k v m = (if k \<in> keys m then m else om_assign k v m)"

definition hm_ok :: "('k, 'v) assoc \<Rightarrow> bool" where
  "hm_ok m \<longleftrightarrow> distinct (map fst m)"

definition om_ok :: "('k::linorder, 'v) assoc \<Rightarrow> bool" where
  "om_ok m \<longleftrightarrow> sorted_wrt (<) (map fst m)"

text \<open>
  The interface of the map containers: what \<open>find\<close> returns after \<open>insert\<close> (which never
  replaces an entry), \<open>operator[]\<close> (which does) and \<open>erase\<close>, and that each keeps the
  representation invariant.
\<close>

locale finite_map_container =
  fixes ok :: "('k \<times> 'v) list \<Rightarrow> bool"
    and assign :: "'k \<Rightarrow> 'v \<Rightarrow> ('k \<times> 'v) list \<Rightarrow> ('k \<times> 'v) list"
    and insert :: "'k \<Rightarrow> 'v \<Rightarrow> ('k \<times> 'v) list \<Rightarrow> ('k \<times> 'v) list"
    and erase :: "'k \<Rightarrow> ('k \<times> 'v) list \<Rightarrow> ('k \<times> 'v) list"
  assumes ok_Nil: "ok []"
    and ok_distinct: "ok m \<Longrightarrow> distinct (map fst m)"
    and find_assign: "ok m \<Longrightarrow> map_of (assign k v m) = (map_of m)(k \<mapsto> v)"
    and find_insert: "ok m \<Longrightarrow> map_of (insert k v m) = (if k \<in> fst ` set m then map_of m else (map_of m)(k \<mapsto> v))"
    and find_erase: "ok m \<Longrightarrow> map_of (erase k m) = (map_of m)(k := None)"
    and ok_assign: "ok m \<Longrightarrow> ok (assign k v m)"
    and ok_insert: "ok m \<Longrightarrow> ok (insert k v m)"
    and ok_erase: "ok m \<Longrightarrow> ok (erase k m)"
begin

lemma set_eq_graph: "ok m \<Longrightarrow> (k, v) \<in> set m \<longleftrightarrow> map_of m k = Some v"
  using ok_distinct [of m] by (auto dest: map_of_SomeD)

lemma keys_eq_dom: "fst ` set m = dom (map_of m)"
  by (simp add: dom_map_of_conv_image_fst)

lemma keys_assign: "ok m \<Longrightarrow> fst ` set (assign k v m) = Set.insert k (fst ` set m)"
  by (simp add: keys_eq_dom find_assign)

lemma keys_insert: "ok m \<Longrightarrow> fst ` set (insert k v m) = Set.insert k (fst ` set m)"
  by (auto simp add: keys_eq_dom find_insert)

lemma keys_erase: "ok m \<Longrightarrow> fst ` set (erase k m) = fst ` set m - {k}"
  by (simp add: keys_eq_dom find_erase)

lemma set_assign: "ok m \<Longrightarrow> set (assign k v m) = Set.insert (k, v) {p \<in> set m. fst p \<noteq> k}"
  by (auto simp add: set_eq_graph ok_assign find_assign split: if_splits)

lemma set_insert_new: "ok m \<Longrightarrow> k \<notin> fst ` set m \<Longrightarrow> set (insert k v m) = Set.insert (k, v) (set m)"
  by (auto simp add: set_eq_graph ok_insert find_insert split: if_splits)
     (auto simp add: set_eq_graph [symmetric] image_iff)

lemma set_insert_old: "ok m \<Longrightarrow> k \<in> fst ` set m \<Longrightarrow> set (insert k v m) = set m"
  by (simp only: set_eq_iff split_paired_All set_eq_graph ok_insert find_insert if_True) simp

lemma set_erase: "ok m \<Longrightarrow> set (erase k m) = {p \<in> set m. fst p \<noteq> k}"
  by (auto simp add: set_eq_graph ok_erase find_erase split: if_splits)

lemma erase_absent: "ok m \<Longrightarrow> k \<notin> fst ` set m \<Longrightarrow> map_of (erase k m) = map_of m"
  by (simp add: find_erase keys_eq_dom fun_upd_idem_iff domIff)

lemma find_assign_erase: "ok m \<Longrightarrow> map_of (erase k (assign k v m)) = (map_of m)(k := None)"
  by (simp add: find_erase find_assign ok_assign)

end

lemma keys_hm_assign: "keys (hm_assign k v m) = insert k (keys m)"
  by (induction m) auto

lemma map_of_hm_assign: "map_of (hm_assign k v m) = (map_of m)(k \<mapsto> v)"
  by (induction m) auto

lemma map_of_map_erase: "map_of (map_erase k m) = (map_of m)(k := None)"
  by (induction m) (auto simp: map_erase_def)

lemma distinct_hm_assign: "distinct (map fst m) \<Longrightarrow> distinct (map fst (hm_assign k v m))"
  by (induction m) (auto simp: keys_hm_assign)

interpretation hm: finite_map_container hm_ok hm_assign hm_insert map_erase
proof
  fix m :: "('a, 'b) assoc" and k v
  assume ok: "hm_ok m"
  show "hm_ok (map_erase k m)"
    using ok by (induction m) (auto simp: hm_ok_def map_erase_def)
qed (auto simp: hm_ok_def hm_insert_def map_of_hm_assign map_of_map_erase distinct_hm_assign)

lemma keys_om_assign: "keys (om_assign k v m) = insert k (keys m)"
  by (induction m) auto

lemma map_of_om_assign: "om_ok m \<Longrightarrow> map_of (om_assign k v m) = (map_of m)(k \<mapsto> v)"
  by (induction m) (auto simp: om_ok_def fun_eq_iff)

lemma om_ok_assign: "om_ok m \<Longrightarrow> om_ok (om_assign k v m)"
  by (induction m) (auto simp: om_ok_def keys_om_assign)

lemma om_ok_erase: "om_ok m \<Longrightarrow> om_ok (map_erase k m)"
  by (induction m) (auto simp: om_ok_def map_erase_def)

interpretation om: finite_map_container om_ok om_assign om_insert map_erase
proof
  fix m :: "('a::linorder, 'b) assoc"
  assume "om_ok m"
  then show "distinct (map fst m)"
    by (auto simp: om_ok_def strict_sorted_iff)
qed (auto simp: om_insert_def map_of_om_assign map_of_map_erase om_ok_assign om_ok_erase,
     simp add: om_ok_def)

lemma map_erase_absent: "map_of m k = None \<Longrightarrow> map_erase k m = m"
  by (auto simp: map_erase_def map_of_eq_None_iff filter_id_conv rev_image_eqI)

text \<open>Sums over the entries of a map, after the operations.\<close>

lemma sum_map_erase:
  fixes f :: "'k \<times> 'v \<Rightarrow> 'a::ab_group_add"
  assumes "distinct (map fst m)" "map_of m k = Some v"
  shows "sum_list (map f (map_erase k m)) = sum_list (map f m) - f (k, v)"
  using assms
proof (induction m)
  case (Cons p m)
  show ?case
  proof (cases "fst p = k")
    case True
    then have "map_erase k m = m" using Cons.prems(1) by (auto simp: map_erase_def filter_id_conv rev_image_eqI)
    then show ?thesis using True Cons.prems(2) by (cases p) (simp add: map_erase_def)
  qed (use Cons in \<open>auto simp: map_erase_def\<close>)
qed simp

lemma sum_om_assign:
  fixes f :: "'k::linorder \<times> 'v \<Rightarrow> 'a::ab_group_add"
  assumes "om_ok m"
  shows "sum_list (map f (om_assign k v m)) =
    sum_list (map f m) + f (k, v) - (case map_of m k of None \<Rightarrow> 0 | Some w \<Rightarrow> f (k, w))"
  using assms
proof (induction m)
  case (Cons p m)
  then have "k < fst p \<Longrightarrow> map_of m k = None"
    by (auto simp: om_ok_def map_of_eq_None_iff)
  then show ?case using Cons
    by (cases p) (auto simp: om_ok_def algebra_simps split: option.splits)
qed simp

section \<open>Sets of object addresses\<close>

text \<open>A \<open>std::set\<close> of pointers is a strictly sorted list of addresses.\<close>

definition pset_insert :: "'a::linorder \<Rightarrow> 'a list \<Rightarrow> 'a list" where
  "pset_insert x xs = (if x \<in> set xs then xs else insort x xs)"

definition pset_erase :: "'a \<Rightarrow> 'a list \<Rightarrow> 'a list" where
  "pset_erase x xs = filter (\<lambda>y. y \<noteq> x) xs"

lemma set_pset_insert [simp]: "set (pset_insert x xs) = insert x (set xs)"
  by (auto simp: pset_insert_def set_insort_key)

lemma set_pset_erase [simp]: "set (pset_erase x xs) = set xs - {x}"
  by (auto simp: pset_erase_def)

lemma distinct_pset_insert [simp]: "distinct xs \<Longrightarrow> distinct (pset_insert x xs)"
  by (simp add: pset_insert_def distinct_insort)

lemma distinct_pset_erase [simp]: "distinct xs \<Longrightarrow> distinct (pset_erase x xs)"
  by (simp add: pset_erase_def)

lemma pset_erase_absent: "x \<notin> set xs \<Longrightarrow> pset_erase x xs = xs"
  by (auto simp: pset_erase_def filter_id_conv)

section \<open>Decimal numbers\<close>

text \<open>\<open>int2string\<close> and \<open>%u\<close>.\<close>

fun decimal :: "nat \<Rightarrow> string" where
  "decimal n = (if n < 10 then [char_of (48 + n)] else decimal (n div 10) @ [char_of (48 + n mod 10)])"

declare decimal.simps [simp del]

end
