(* ===== verification/SimpleBuffer.thy ===== *)
theory SimpleBuffer
  imports Prelude
begin

text \<open>
  \<open>CSimpleBuffer\<close> (\<open>base/UtilPdu.h\<close>, \<open>base/UtilPdu.cpp\<close>): the growable byte buffer under
  every PDU and every connection. The record holds the heap block, its recorded size and
  the write offset, the sizes as 32-bit words so that their arithmetic wraps as in the
  code. The field \<open>m_fresh\<close> is what newly allocated memory happens to contain. The
  abstract view of a buffer is the list of its first \<open>m_write_offset\<close> bytes; the locale
  \<open>byte_fifo\<close> states the contract its clients rely on.
\<close>

record simple_buffer =
  m_buffer :: bytes
  m_alloc_size :: u32
  m_write_offset :: u32
  m_fresh :: "nat \<Rightarrow> byte"

definition CSimpleBuffer :: "(nat \<Rightarrow> byte) \<Rightarrow> simple_buffer" where
  "CSimpleBuffer fresh =
     \<lparr>m_buffer = [], m_alloc_size = 0, m_write_offset = 0, m_fresh = fresh\<rparr>"

definition realloc :: "(nat \<Rightarrow> byte) \<Rightarrow> bytes \<Rightarrow> nat \<Rightarrow> bytes" where
  "realloc fresh xs n = take n xs @ map fresh [length xs..<n]"

definition IncWriteOffset :: "u32 \<Rightarrow> simple_buffer \<Rightarrow> simple_buffer" where
  "IncWriteOffset len b = b\<lparr>m_write_offset := m_write_offset b + len\<rparr>"

definition Extend :: "u32 \<Rightarrow> simple_buffer \<Rightarrow> simple_buffer" where
  "Extend len b =
     (let size0 = m_write_offset b + len;
          size = size0 + drop_bit 2 size0
      in b\<lparr>m_alloc_size := size, m_buffer := realloc (m_fresh b) (m_buffer b) (unat size)\<rparr>)"

text \<open>The source pointer of a write is \<open>None\<close> for \<open>NULL\<close>: the offset moves, nothing is copied.\<close>

definition Write :: "bytes option \<Rightarrow> u32 \<Rightarrow> simple_buffer \<Rightarrow> (u32 \<times> simple_buffer) res" where
  "Write buf len b =
     (let b1 = (if m_write_offset b + len > m_alloc_size b then Extend len b else b)
      in bindR
           (case buf of
              None \<Rightarrow> Inr b1
            | Some src \<Rightarrow>
                bindR (slice src 0 (unat len)) (\<lambda>xs.
                bindR (memcpy_at (m_buffer b1) (unat (m_write_offset b1)) xs) (\<lambda>block.
                Inr (b1\<lparr>m_buffer := block\<rparr>))))
           (\<lambda>b2. Inr (len, b2\<lparr>m_write_offset := m_write_offset b2 + len\<rparr>)))"

text \<open>
  \<open>Read\<close> copies to the destination unless it is \<open>NULL\<close> (\<open>copy\<close> is false), then moves the
  rest of the contents to the front. The result is the bytes copied, the length returned
  and the buffer.
\<close>

definition Read :: "bool \<Rightarrow> u32 \<Rightarrow> simple_buffer \<Rightarrow> (bytes \<times> u32 \<times> simple_buffer) res" where
  "Read copy len0 b =
     (let len = (if len0 > m_write_offset b then m_write_offset b else len0)
      in bindR (if copy then slice (m_buffer b) 0 (unat len) else Inr []) (\<lambda>out.
         let rest = m_write_offset b - len
         in bindR (slice (m_buffer b) (unat len) (unat rest)) (\<lambda>tail.
            bindR (memcpy_at (m_buffer b) 0 tail) (\<lambda>block.
            Inr (out, len, b\<lparr>m_write_offset := rest, m_buffer := block\<rparr>)))))"

section \<open>Invariant and abstract view\<close>

definition buffer_ok :: "simple_buffer \<Rightarrow> bool" where
  "buffer_ok b \<longleftrightarrow> length (m_buffer b) = unat (m_alloc_size b)
     \<and> unat (m_write_offset b) \<le> unat (m_alloc_size b)"

definition content :: "simple_buffer \<Rightarrow> bytes" where
  "content b = take (unat (m_write_offset b)) (m_buffer b)"

text \<open>The sizes \<open>Extend\<close> can allocate: the requested size plus a quarter fits in 32 bits.\<close>

definition growable :: "nat \<Rightarrow> bool" where
  "growable n \<longleftrightarrow> n + n div 4 < 2 ^ 32"

lemma buffer_ok_new [simp]: "buffer_ok (CSimpleBuffer f)"
  by (simp add: buffer_ok_def CSimpleBuffer_def)

lemma content_new [simp]: "content (CSimpleBuffer f) = []"
  by (simp add: content_def CSimpleBuffer_def)

lemma length_content: "buffer_ok b \<Longrightarrow> length (content b) = unat (m_write_offset b)"
  by (simp add: content_def buffer_ok_def)

lemma growable_mono: "growable n \<Longrightarrow> m \<le> n \<Longrightarrow> growable m"
  by (auto simp: growable_def dest: div_le_mono [of m n 4])

lemma growable_lt: "growable n \<Longrightarrow> n < 2 ^ 32"
  by (simp add: growable_def)

lemma length_realloc [simp]: "length (realloc f xs n) = n"
  by (simp add: realloc_def)

lemma take_realloc: "k \<le> n \<Longrightarrow> k \<le> length xs \<Longrightarrow> take k (realloc f xs n) = take k xs"
  by (simp add: realloc_def)

lemma Extend_frame [simp]:
  "m_write_offset (Extend len b) = m_write_offset b" "m_fresh (Extend len b) = m_fresh b"
  by (simp_all add: Extend_def Let_def)

lemma Extend_block: "length (m_buffer (Extend len b)) = unat (m_alloc_size (Extend len b))"
  by (simp add: Extend_def Let_def)

lemma Extend_size:
  assumes "growable (unat (m_write_offset b) + unat len)"
  shows "unat (m_alloc_size (Extend len b)) =
    (unat (m_write_offset b) + unat len) + (unat (m_write_offset b) + unat len) div 4"
proof -
  have n: "unat (m_write_offset b + len) = unat (m_write_offset b) + unat len"
    using assms growable_lt unat_add_u32 by blast
  have "unat (m_write_offset b + len) + unat (drop_bit 2 (m_write_offset b + len)) < 2 ^ 32"
    using assms by (simp add: n unat_drop_bit_u32 growable_def)
  then show ?thesis
    by (simp add: Extend_def Let_def unat_add_u32 n unat_drop_bit_u32)
qed

lemma content_Extend:
  assumes "buffer_ok b" "growable (unat (m_write_offset b) + unat len)"
  shows "content (Extend len b) = content b"
proof -
  have "unat (m_write_offset b) \<le> unat (m_alloc_size (Extend len b))"
    using Extend_size [OF assms(2)] by simp
  then show ?thesis using assms(1)
    by (simp add: content_def Extend_def Let_def take_realloc buffer_ok_def)
qed

lemma buffer_ok_Extend:
  assumes "growable (unat (m_write_offset b) + unat len)"
  shows "buffer_ok (Extend len b)"
  using Extend_size [OF assms] by (simp add: buffer_ok_def Extend_block)

text \<open>The block into which \<open>Write\<close> copies: large enough exactly when the sizes do not wrap.\<close>

definition write_target :: "u32 \<Rightarrow> simple_buffer \<Rightarrow> simple_buffer" where
  "write_target len b = (if m_write_offset b + len > m_alloc_size b then Extend len b else b)"

definition write_fits :: "u32 \<Rightarrow> simple_buffer \<Rightarrow> bool" where
  "write_fits len b \<longleftrightarrow>
     unat (m_write_offset b) + unat len \<le> unat (m_alloc_size b)
     \<or> growable (unat (m_write_offset b) + unat len)"

lemma write_target_fits:
  assumes ok: "buffer_ok b" and fits: "write_fits len b"
  shows "buffer_ok (write_target len b)"
    and "content (write_target len b) = content b"
    and "unat (m_write_offset b) + unat len \<le> length (m_buffer (write_target len b))"
    and "m_write_offset (write_target len b) = m_write_offset b"
proof -
  let ?n = "unat (m_write_offset b) + unat len"
  have lt: "?n < 2 ^ 32"
    using fits unat_lt_u32 [of "m_alloc_size b"] by (auto simp: write_fits_def dest: growable_lt)
  then have n: "unat (m_write_offset b + len) = ?n" by (rule unat_add_u32)
  consider (keep) "?n \<le> unat (m_alloc_size b)" "write_target len b = b"
    | (grow) "growable ?n" "write_target len b = Extend len b"
    using fits n
    by (cases "?n \<le> unat (m_alloc_size b)")
       (auto simp: write_fits_def write_target_def word_less_nat_alt)
  then show "buffer_ok (write_target len b)"
    and "content (write_target len b) = content b"
    and "?n \<le> length (m_buffer (write_target len b))"
    and "m_write_offset (write_target len b) = m_write_offset b"
    using ok Extend_size [of b len]
    by (cases; simp add: buffer_ok_Extend content_Extend Extend_block buffer_ok_def)+
qed

lemma write_target_overflow:
  assumes ok: "buffer_ok b" and fits: "\<not> write_fits len b"
  shows "length (m_buffer (write_target len b)) < unat (m_write_offset b) + unat len"
proof (cases "m_write_offset b + len > m_alloc_size b")
  case False
  then show ?thesis using ok fits by (simp add: write_target_def buffer_ok_def write_fits_def)
next
  case grow: True
  let ?n = "unat (m_write_offset b) + unat len"
  have big: "\<not> ?n + ?n div 4 < 2 ^ 32" using fits by (simp add: write_fits_def growable_def)
  have "unat (m_alloc_size (Extend len b)) < ?n"
  proof (cases "?n < 2 ^ 32")
    case False
    then show ?thesis using unat_lt_u32 [of "m_alloc_size (Extend len b)"] by simp
  next
    case True
    then have n: "unat (m_write_offset b + len) = ?n" by (rule unat_add_u32)
    have "unat (m_alloc_size (Extend len b)) = (?n + ?n div 4) mod 2 ^ 32"
      using True by (simp add: Extend_def Let_def unat_word_ariths(1) unat_drop_bit_u32)
    also have "\<dots> = ?n + ?n div 4 - 2 ^ 32"
      using True big by (simp add: mod_if)
    also have "\<dots> < ?n" using True big by linarith
    finally show ?thesis .
  qed
  then show ?thesis using grow by (simp add: write_target_def Extend_block)
qed

lemma Write_alt:
  "Write (Some src) len b =
     bindR (slice src 0 (unat len)) (\<lambda>xs.
     bindR (memcpy_at (m_buffer (write_target len b)) (unat (m_write_offset (write_target len b))) xs)
       (\<lambda>block. Inr (len, (write_target len b)\<lparr>m_buffer := block,
           m_write_offset := m_write_offset (write_target len b) + len\<rparr>)))"
  by (simp add: Write_def write_target_def Let_def bindR_assoc)

lemma Write_None_alt:
  "Write None len b =
     Inr (len, (write_target len b)\<lparr>m_write_offset := m_write_offset (write_target len b) + len\<rparr>)"
  by (simp add: Write_def write_target_def Let_def)

lemma write_target_frame [simp]:
  "m_write_offset (write_target len b) = m_write_offset b"
  by (simp add: write_target_def)

lemma Write_Some_spec:
  assumes ok: "buffer_ok b" and fits: "write_fits len b" and src: "unat len \<le> length src"
  shows "\<exists>b'. Write (Some src) len b = Inr (len, b') \<and> buffer_ok b'
    \<and> content b' = content b @ take (unat len) src"
proof -
  let ?t = "write_target len b" and ?o = "unat (m_write_offset b)" and ?n = "unat len"
  note t = write_target_fits [OF ok fits]
  let ?block = "take ?o (m_buffer ?t) @ take ?n src @ drop (?o + ?n) (m_buffer ?t)"
  let ?b = "?t\<lparr>m_buffer := ?block, m_write_offset := m_write_offset b + len\<rparr>"
  have w: "Write (Some src) len b = Inr (len, ?b)"
    using src t(3) by (simp add: Write_alt min_absorb2)
  have lt: "?o + ?n < 2 ^ 32"
    using t(1,3) unat_lt_u32 [of "m_alloc_size ?t"] by (simp add: buffer_ok_def)
  then have off: "unat (m_write_offset b + len) = ?o + ?n" by (rule unat_add_u32)
  have "buffer_ok ?b"
    using t(1,3) src by (simp add: buffer_ok_def off)
  moreover have "content ?b = take ?o (m_buffer ?t) @ take ?n src"
    using t(3) src by (simp add: content_def off)
  moreover have "take ?o (m_buffer ?t) = content b"
    using t(2) by (simp add: content_def)
  ultimately show ?thesis using w by (intro exI [of _ ?b]) simp
qed

lemma Write_None_spec:
  assumes ok: "buffer_ok b" and fits: "write_fits len b"
  shows "\<exists>b' junk. Write None len b = Inr (len, b') \<and> buffer_ok b'
    \<and> content b' = content b @ junk \<and> length junk = unat len"
proof -
  let ?t = "write_target len b" and ?o = "unat (m_write_offset b)" and ?n = "unat len"
  note t = write_target_fits [OF ok fits]
  let ?b = "?t\<lparr>m_write_offset := m_write_offset b + len\<rparr>"
  have lt: "?o + ?n < 2 ^ 32"
    using t(1,3) unat_lt_u32 [of "m_alloc_size ?t"] by (simp add: buffer_ok_def)
  then have off: "unat (m_write_offset b + len) = ?o + ?n" by (rule unat_add_u32)
  have "content ?b = take ?o (m_buffer ?t) @ take ?n (drop ?o (m_buffer ?t))"
    by (simp add: content_def off take_add)
  moreover have "take ?o (m_buffer ?t) = content b"
    using t(2) by (simp add: content_def)
  moreover have "buffer_ok ?b"
    using t(1,3) by (simp add: buffer_ok_def off)
  ultimately show ?thesis using t(3)
    by (intro exI [of _ ?b] exI [of _ "take ?n (drop ?o (m_buffer ?t))"])
       (simp add: Write_None_alt)
qed

lemma Write_Some_fault:
  assumes "buffer_ok b" "\<not> write_fits len b" "unat len \<le> length src"
  shows "Write (Some src) len b = Inl MemFault"
  using write_target_overflow [OF assms(1,2)] assms(3)
  by (simp add: Write_alt memcpy_at_def)

lemma Read_spec:
  assumes ok: "buffer_ok b"
  shows "\<exists>b'. Read copy len b =
      Inr (if copy then take (unat len) (content b) else [],
           if len > m_write_offset b then m_write_offset b else len, b')
    \<and> buffer_ok b' \<and> content b' = drop (unat len) (content b)
    \<and> m_alloc_size b' = m_alloc_size b"
proof -
  define cut where "cut = (if len > m_write_offset b then m_write_offset b else len)"
  let ?o = "unat (m_write_offset b)" and ?l = "unat cut" and ?m = "m_buffer b"
  have l: "?l = min (unat len) ?o"
    by (auto simp: cut_def word_less_nat_alt min_def)
  then have le: "?l \<le> ?o" by simp
  then have rest: "unat (m_write_offset b - cut) = ?o - ?l" by (rule unat_sub_u32)
  have om: "?o \<le> length ?m" using ok by (simp add: buffer_ok_def)
  let ?block = "take (?o - ?l) (drop ?l ?m) @ drop (?o - ?l) ?m"
  let ?b = "b\<lparr>m_write_offset := m_write_offset b - cut, m_buffer := ?block\<rparr>"
  have "memcpy_at ?m 0 (take (?o - ?l) (drop ?l ?m)) = Inr ?block"
    using om le by (simp add: memcpy_at_def)
  moreover have "slice ?m ?l (?o - ?l) = Inr (take (?o - ?l) (drop ?l ?m))"
    using om le by simp
  moreover have "slice ?m 0 ?l = Inr (take ?l ?m)"
    using om le by simp
  ultimately have r: "Read copy len b = Inr (if copy then take ?l ?m else [], cut, ?b)"
    by (simp add: Read_def Let_def rest flip: cut_def)
  have tk: "take ?l ?m = take (unat len) (content b)"
    by (simp add: content_def l)
  have "content ?b = drop ?l (content b)"
    using om le by (simp add: content_def rest drop_take)
  also have "\<dots> = drop (unat len) (content b)"
    using length_content [OF ok] by (simp add: l min_def)
  finally have "content ?b = drop (unat len) (content b)" .
  moreover have "buffer_ok ?b"
    using ok om le by (auto simp add: buffer_ok_def rest min_def)
  ultimately show ?thesis using r tk by (intro exI [of _ ?b]) (simp add: cut_def)
qed

section \<open>The queue contract\<close>

text \<open>
  What the connection code needs of a buffer: bytes are appended at the end and taken from
  the front. \<open>room\<close> is the condition under which an append cannot run out of memory.
\<close>

locale byte_fifo =
  fixes inv :: "'q \<Rightarrow> bool"
    and contents :: "'q \<Rightarrow> bytes"
    and room :: "nat \<Rightarrow> 'q \<Rightarrow> bool"
    and put :: "bytes \<Rightarrow> 'q \<Rightarrow> err + 'q"
    and get :: "nat \<Rightarrow> 'q \<Rightarrow> err + 'q"
  assumes put_spec: "inv q \<Longrightarrow> room (length xs) q \<Longrightarrow>
      \<exists>q'. put xs q = Inr q' \<and> inv q' \<and> contents q' = contents q @ xs"
    and get_spec: "inv q \<Longrightarrow> \<exists>q'. get n q = Inr q' \<and> inv q' \<and> contents q' = drop n (contents q)"
begin

lemma put_get: "inv q \<Longrightarrow> room (length xs) q \<Longrightarrow>
    \<exists>q'. bindR (put xs q) (get n) = Inr q' \<and> inv q' \<and> contents q' = drop n (contents q @ xs)"
  using put_spec [of q xs] get_spec [of _ n] by fastforce

lemma get_get: "inv q \<Longrightarrow>
    \<exists>q'. bindR (get m q) (get n) = Inr q' \<and> inv q' \<and> contents q' = drop (m + n) (contents q)"
  using get_spec [of q m] get_spec [of _ n] by (fastforce simp: add.commute)

lemma get_all: "inv q \<Longrightarrow> \<exists>q'. get (length (contents q)) q = Inr q' \<and> inv q' \<and> contents q' = []"
  using get_spec [of q "length (contents q)"] by simp

end

definition put_bytes :: "bytes \<Rightarrow> simple_buffer \<Rightarrow> simple_buffer res" where
  "put_bytes xs b = bindR (Write (Some xs) (of_nat (length xs)) b) (\<lambda>r. Inr (snd r))"

definition drop_bytes :: "nat \<Rightarrow> simple_buffer \<Rightarrow> simple_buffer res" where
  "drop_bytes n b = bindR (Read False (of_nat (min n (2 ^ 32 - 1))) b) (\<lambda>r. Inr (snd (snd r)))"

definition buffer_room :: "nat \<Rightarrow> simple_buffer \<Rightarrow> bool" where
  "buffer_room n b \<longleftrightarrow> growable (length (content b) + n)"

interpretation simple_fifo: byte_fifo buffer_ok content buffer_room put_bytes drop_bytes
proof
  fix q :: simple_buffer and xs :: bytes
  assume ok: "buffer_ok q" and room: "buffer_room (length xs) q"
  have "length xs < 2 ^ 32"
    using room growable_lt [of "length (content q) + length xs"] by (simp add: buffer_room_def)
  then have len: "unat (of_nat (length xs) :: u32) = length xs" by (rule unat_of_nat_u32)
  have "write_fits (of_nat (length xs)) q"
    using room ok by (simp add: buffer_room_def write_fits_def length_content len)
  from Write_Some_spec [OF ok this, of xs] len
  show "\<exists>q'. put_bytes xs q = Inr q' \<and> buffer_ok q' \<and> content q' = content q @ xs"
    by (auto simp: put_bytes_def)
next
  fix q :: simple_buffer and n :: nat
  assume ok: "buffer_ok q"
  let ?n = "min n (2 ^ 32 - 1)"
  have len: "unat (of_nat ?n :: u32) = ?n" by (rule unat_of_nat_u32) simp
  have "length (content q) \<le> 2 ^ 32 - 1"
    using length_content [OF ok] unat_lt_u32 [of "m_write_offset q"] by simp
  then have "drop ?n (content q) = drop n (content q)"
    by (simp add: min_def)
  with Read_spec [OF ok, of False "of_nat ?n"] len
  show "\<exists>q'. drop_bytes n q = Inr q' \<and> buffer_ok q' \<and> content q' = drop n (content q)"
    by (auto simp: drop_bytes_def)
qed

section \<open>Properties\<close>

text \<open>
  \<open>CSimpleBuffer::Write\<close> on a well-formed buffer appends exactly the given bytes, keeps the buffer
  well-formed and returns the length, when the new size fits in the allocation or, with the quarter that
  \<open>Extend\<close> adds, in 32 bits; otherwise the size computations wrap around and the copy leaves the block.
\<close>

theorem write_appends_or_overruns:
  assumes "buffer_ok b" "unat len \<le> length src"
  shows "if write_fits len b
    then \<exists>b'. Write (Some src) len b = Inr (len, b') \<and> buffer_ok b' \<and> content b' = content b @ take (unat len) src
    else Write (Some src) len b = Inl MemFault"
  using Write_Some_spec [OF assms(1) _ assms(2)] Write_Some_fault [OF assms(1) _ assms(2)] by simp

theorem write_appends_or_overruns_witness:
  "\<exists>b'. Write (Some [1, 2, 3]) 2 (CSimpleBuffer (\<lambda>_. 0)) = Inr (2, b') \<and> content b' = [1, 2]"
  using write_appends_or_overruns [of "CSimpleBuffer (\<lambda>_. 0)" 2 "[1, 2, 3]"]
    buffer_ok_new [of "\<lambda>_. 0"]
  by (auto simp: write_fits_def growable_def CSimpleBuffer_def content_def)

text \<open>
  what is written is read back first in, first out: after \<open>xs\<close> is appended to a well-formed buffer, reading
  any number of bytes returns that many bytes (or all) of the old content followed by \<open>xs\<close>, and keeps the rest.
\<close>

theorem write_read_fifo:
  assumes "buffer_ok b" "growable (length (content b) + length xs)"
  shows "\<exists>b1 b2. Write (Some xs) (of_nat (length xs)) b = Inr (of_nat (length xs), b1)
    \<and> Read True len b1 = Inr (take (unat len) (content b @ xs), of_nat (length (take (unat len) (content b @ xs))), b2)
    \<and> buffer_ok b2 \<and> content b2 = drop (unat len) (content b @ xs)"
proof -
  have n: "unat (of_nat (length xs) :: u32) = length xs"
    using growable_lt [OF assms(2)] by (intro unat_of_nat_u32) simp
  then have "write_fits (of_nat (length xs)) b"
    using assms length_content [OF assms(1)] by (simp add: write_fits_def)
  from Write_Some_spec [OF assms(1) this, of xs] n obtain b1 where
    b1: "Write (Some xs) (of_nat (length xs)) b = Inr (of_nat (length xs), b1)" "buffer_ok b1" "content b1 = content b @ xs"
    by auto
  have "(if len > m_write_offset b1 then m_write_offset b1 else len) = of_nat (length (take (unat len) (content b1)))"
    using length_content [OF b1(2)] by (auto simp: word_less_nat_alt min_def word_unat_eq_iff [symmetric])
  then show ?thesis using Read_spec [OF b1(2), of True len] b1 by auto
qed

theorem write_read_fifo_witness:
  "\<exists>b1 b2. Write (Some [5, 6]) 2 (CSimpleBuffer (\<lambda>_. 0)) = Inr (2, b1) \<and> Read True 1 b1 = Inr ([5], 1, b2) \<and> content b2 = [6]"
  using write_read_fifo [of "CSimpleBuffer (\<lambda>_. 0)" "[5, 6]" 1] by (auto simp: growable_def)

end
