(* ===== verification/ByteStream.thy ===== *)
theory ByteStream
  imports SimpleBuffer
begin

text \<open>
  \<open>CByteStream\<close> (\<open>base/UtilPdu.h\<close>, \<open>base/UtilPdu.cpp\<close>): big-endian integers in a raw byte
  block or in a \<open>CSimpleBuffer\<close>, with the exception thrown on truncated input. A pointer
  argument \<open>buf + off\<close> of the static accessors is the pair of the block and the offset.
\<close>

section \<open>Integers in a byte block\<close>

definition be16 :: "bytes \<Rightarrow> u16" where
  "be16 xs = ucast (push_bit 8 (ucast (xs ! 0) :: u32) OR ucast (xs ! 1))"

definition be32 :: "bytes \<Rightarrow> u32" where
  "be32 xs = push_bit 24 (ucast (xs ! 0)) OR push_bit 16 (ucast (xs ! 1))
     OR push_bit 8 (ucast (xs ! 2)) OR ucast (xs ! 3)"

definition enc16 :: "u16 \<Rightarrow> bytes" where
  "enc16 d = [ucast (drop_bit 8 d), ucast (d AND 0xFF)]"

definition enc32 :: "u32 \<Rightarrow> bytes" where
  "enc32 d = [ucast (drop_bit 24 d), ucast (drop_bit 16 d AND 0xFF),
     ucast (drop_bit 8 d AND 0xFF), ucast (d AND 0xFF)]"

lemma length_enc [simp]: "length (enc16 d) = 2" "length (enc32 e) = 4"
  by (simp_all add: enc16_def enc32_def)

lemma and_FF: "(w :: 'a::len word) AND 0xFF = take_bit 8 w" "(i :: int) AND 0xFF = take_bit 8 i"
proof -
  have "(0xFF :: 'a word) = mask 8" "(0xFF :: int) = mask 8"
    by (simp_all add: mask_eq_exp_minus_1)
  then show "w AND 0xFF = take_bit 8 w" "i AND 0xFF = take_bit 8 i"
    by (simp_all only: take_bit_eq_mask)
qed

lemmas byte_bits = and_FF bit_simps

lemma be16_enc16 [simp]: "be16 (enc16 d @ xs) = d"
  by (rule bit_word_eqI) (auto simp: be16_def enc16_def byte_bits)

lemma be32_enc32 [simp]: "be32 (enc32 d @ xs) = d"
proof (rule bit_word_eqI)
  fix n assume "n < LENGTH(32)"
  then consider "n < 8" | "8 \<le> n" "n < 16" | "16 \<le> n" "n < 24" | "24 \<le> n" "n < 32"
    by fastforce
  then show "bit (be32 (enc32 d @ xs)) n = bit d n"
    by cases (auto simp: be32_def enc32_def byte_bits)
qed

lemma be16_enc16_Nil [simp]: "be16 (enc16 d) = d"
  using be16_enc16 [of d "[]"] by simp

lemma be32_enc32_Nil [simp]: "be32 (enc32 d) = d"
  using be32_enc32 [of d "[]"] by simp

lemma enc16_be16_two: "enc16 (be16 [a, b]) = [a, b]"
  by (simp add: enc16_def be16_def and_FF, intro conjI; rule bit_word_eqI;
      auto simp add: bit_simps dest: bit_imp_le_length)

lemma enc16_be16: "length xs = 2 \<Longrightarrow> enc16 (be16 xs) = xs"
  by (auto simp: enc16_be16_two numeral_eq_Suc length_Suc_conv)

lemma enc32_be32_four: "enc32 (be32 [a, b, c, d]) = [a, b, c, d]"
  by (simp add: enc32_def be32_def and_FF, intro conjI; rule bit_word_eqI;
      auto simp add: bit_simps dest: bit_imp_le_length)

lemma enc32_be32: "length xs = 4 \<Longrightarrow> enc32 (be32 xs) = xs"
  by (auto simp: enc32_be32_four numeral_eq_Suc length_Suc_conv)

definition ReadUint16 :: "bytes \<Rightarrow> nat \<Rightarrow> u16 res" where
  "ReadUint16 buf off = bindR (slice buf off 2) (\<lambda>xs. Inr (be16 xs))"

definition ReadInt16 :: "bytes \<Rightarrow> nat \<Rightarrow> int res" where
  "ReadInt16 buf off = bindR (slice buf off 2) (\<lambda>xs. Inr (sint (be16 xs)))"

definition ReadUint32 :: "bytes \<Rightarrow> nat \<Rightarrow> u32 res" where
  "ReadUint32 buf off = bindR (slice buf off 4) (\<lambda>xs. Inr (be32 xs))"

definition ReadInt32 :: "bytes \<Rightarrow> nat \<Rightarrow> int res" where
  "ReadInt32 buf off = bindR (slice buf off 4) (\<lambda>xs. Inr (sint (be32 xs)))"

definition WriteUint16 :: "bytes \<Rightarrow> nat \<Rightarrow> u16 \<Rightarrow> bytes res" where
  "WriteUint16 buf off d = memcpy_at buf off (enc16 d)"

definition WriteUint32 :: "bytes \<Rightarrow> nat \<Rightarrow> u32 \<Rightarrow> bytes res" where
  "WriteUint32 buf off d = memcpy_at buf off (enc32 d)"

definition WriteInt16 :: "bytes \<Rightarrow> nat \<Rightarrow> int \<Rightarrow> bytes res" where
  "WriteInt16 buf off d =
     memcpy_at buf off [word_of_int (drop_bit 8 d), word_of_int (d AND 0xFF)]"

definition WriteInt32 :: "bytes \<Rightarrow> nat \<Rightarrow> int \<Rightarrow> bytes res" where
  "WriteInt32 buf off d =
     memcpy_at buf off [word_of_int (drop_bit 24 d), word_of_int (drop_bit 16 d AND 0xFF),
       word_of_int (drop_bit 8 d AND 0xFF), word_of_int (d AND 0xFF)]"

lemma WriteInt16_enc: "WriteInt16 buf off d = WriteUint16 buf off (word_of_int d)"
  unfolding WriteInt16_def WriteUint16_def enc16_def
  by (intro arg_cong [where f = "memcpy_at buf off"])
     (simp, intro conjI; rule bit_word_eqI; simp add: byte_bits)

lemma WriteInt32_enc: "WriteInt32 buf off d = WriteUint32 buf off (word_of_int d)"
  unfolding WriteInt32_def WriteUint32_def enc32_def
  by (intro arg_cong [where f = "memcpy_at buf off"])
     (simp, intro conjI; rule bit_word_eqI; simp add: byte_bits)

section \<open>The stream\<close>

text \<open>
  \<open>m_pSimpBuf\<close> and \<open>m_pBuf\<close> are pointers of which the two constructors leave one \<open>NULL\<close>.
  The stream is the only user of the buffer while it lives, so the record holds the buffer
  itself.
\<close>

record byte_stream =
  m_pSimpBuf :: "simple_buffer option"
  m_pBuf :: "bytes option"
  m_len :: u32
  m_pos :: u32

definition CByteStream_raw :: "bytes option \<Rightarrow> u32 \<Rightarrow> byte_stream" where
  "CByteStream_raw buf len = \<lparr>m_pSimpBuf = None, m_pBuf = buf, m_len = len, m_pos = 0\<rparr>"

definition CByteStream_buf :: "simple_buffer \<Rightarrow> u32 \<Rightarrow> byte_stream" where
  "CByteStream_buf b pos = \<lparr>m_pSimpBuf = Some b, m_pBuf = None, m_len = 0, m_pos = pos\<rparr>"

definition parse_failed :: err where
  "parse_failed = PduException 0 0 1 ''parase packet failed!''"

definition Skip :: "u32 \<Rightarrow> byte_stream \<Rightarrow> byte_stream res" where
  "Skip len s =
     (let s1 = s\<lparr>m_pos := m_pos s + len\<rparr>
      in if m_pos s1 > m_len s1 then Inl parse_failed else Inr s1)"

definition ReadByte :: "u32 \<Rightarrow> byte_stream \<Rightarrow> (bytes \<times> byte_stream) res" where
  "ReadByte len s =
     (if m_pos s + len > m_len s then Inl parse_failed
      else bindR
        (case m_pSimpBuf s of
           Some b \<Rightarrow> bindR (Read True len b) (\<lambda>(out, _, b'). Inr (out, s\<lparr>m_pSimpBuf := Some b'\<rparr>))
         | None \<Rightarrow>
             (case m_pBuf s of
                None \<Rightarrow> Inl MemFault
              | Some p \<Rightarrow> bindR (slice p (unat (m_pos s)) (unat len)) (\<lambda>out. Inr (out, s))))
        (\<lambda>(out, s1). Inr (out, s1\<lparr>m_pos := m_pos s1 + len\<rparr>)))"

definition WriteByte :: "bytes option \<Rightarrow> u32 \<Rightarrow> byte_stream \<Rightarrow> byte_stream res" where
  "WriteByte buf len s =
     (if m_pBuf s \<noteq> None \<and> m_pos s + len > m_len s then Inr s
      else bindR
        (case m_pSimpBuf s of
           Some b \<Rightarrow> bindR (Write buf len b) (\<lambda>(_, b'). Inr (s\<lparr>m_pSimpBuf := Some b'\<rparr>))
         | None \<Rightarrow>
             (case (m_pBuf s, buf) of
                (Some p, Some src) \<Rightarrow>
                  bindR (slice src 0 (unat len)) (\<lambda>xs.
                  bindR (memcpy_at p (unat (m_pos s)) xs) (\<lambda>p'. Inr (s\<lparr>m_pBuf := Some p'\<rparr>)))
              | _ \<Rightarrow> if len = 0 then Inr s else Inl MemFault))
        (\<lambda>s1. Inr (s1\<lparr>m_pos := m_pos s1 + len\<rparr>)))"

definition put_u8 :: "byte \<Rightarrow> byte_stream \<Rightarrow> byte_stream res" where
  "put_u8 d = WriteByte (Some [d]) 1"

definition put_i8 :: "int \<Rightarrow> byte_stream \<Rightarrow> byte_stream res" where
  "put_i8 d = WriteByte (Some [word_of_int d]) 1"

definition put_u16 :: "u16 \<Rightarrow> byte_stream \<Rightarrow> byte_stream res" where
  "put_u16 d = WriteByte (Some (enc16 d)) 2"

definition put_i16 :: "int \<Rightarrow> byte_stream \<Rightarrow> byte_stream res" where
  "put_i16 d = WriteByte (Some [word_of_int (drop_bit 8 d), word_of_int (d AND 0xFF)]) 2"

definition put_u32 :: "u32 \<Rightarrow> byte_stream \<Rightarrow> byte_stream res" where
  "put_u32 d = WriteByte (Some (enc32 d)) 4"

definition put_i32 :: "int \<Rightarrow> byte_stream \<Rightarrow> byte_stream res" where
  "put_i32 d = WriteByte (Some [word_of_int (drop_bit 24 d), word_of_int (drop_bit 16 d AND 0xFF),
     word_of_int (drop_bit 8 d AND 0xFF), word_of_int (d AND 0xFF)]) 4"

definition get_u8 :: "byte_stream \<Rightarrow> (byte \<times> byte_stream) res" where
  "get_u8 s = bindR (ReadByte 1 s) (\<lambda>(xs, s'). Inr (xs ! 0, s'))"

definition get_i8 :: "byte_stream \<Rightarrow> (int \<times> byte_stream) res" where
  "get_i8 s = bindR (ReadByte 1 s) (\<lambda>(xs, s'). Inr (sint (xs ! 0), s'))"

definition get_u16 :: "byte_stream \<Rightarrow> (u16 \<times> byte_stream) res" where
  "get_u16 s = bindR (ReadByte 2 s) (\<lambda>(xs, s'). Inr (be16 xs, s'))"

definition get_i16 :: "byte_stream \<Rightarrow> (int \<times> byte_stream) res" where
  "get_i16 s = bindR (ReadByte 2 s) (\<lambda>(xs, s'). Inr (sint (be16 xs), s'))"

definition get_u32 :: "byte_stream \<Rightarrow> (u32 \<times> byte_stream) res" where
  "get_u32 s = bindR (ReadByte 4 s) (\<lambda>(xs, s'). Inr (be32 xs, s'))"

definition get_i32 :: "byte_stream \<Rightarrow> (int \<times> byte_stream) res" where
  "get_i32 s = bindR (ReadByte 4 s) (\<lambda>(xs, s'). Inr (sint (be32 xs), s'))"

definition WriteData :: "bytes option \<Rightarrow> u32 \<Rightarrow> byte_stream \<Rightarrow> byte_stream res" where
  "WriteData data len s = bindR (put_u32 len s) (WriteByte data len)"

definition WriteString_len :: "bytes option \<Rightarrow> u32 \<Rightarrow> byte_stream \<Rightarrow> byte_stream res" where
  "WriteString_len str len s = bindR (put_u32 len s) (WriteByte str len)"

definition strlen :: "bytes \<Rightarrow> nat" where
  "strlen str = length (takeWhile (\<lambda>c. c \<noteq> 0) str)"

definition WriteString :: "bytes option \<Rightarrow> byte_stream \<Rightarrow> byte_stream res" where
  "WriteString str s =
     (let size = (case str of None \<Rightarrow> 0 | Some cs \<Rightarrow> of_nat (strlen cs))
      in bindR (put_u32 size s) (WriteByte str size))"

text \<open>
  \<open>ReadData\<close> and \<open>ReadString\<close> return a pointer into the block and a length; the pointer is
  its offset.
\<close>

definition ReadData :: "byte_stream \<Rightarrow> (u32 \<times> u32 \<times> byte_stream) res" where
  "ReadData s =
     bindR (get_u32 s) (\<lambda>(len, s1).
       let pData = m_pos s1 in bindR (Skip len s1) (\<lambda>s2. Inr (pData, len, s2)))"

definition ReadString :: "byte_stream \<Rightarrow> (u32 \<times> u32 \<times> byte_stream) res" where
  "ReadString s =
     bindR (get_u32 s) (\<lambda>(len, s1).
       let pStr = m_pos s1 in bindR (Skip len s1) (\<lambda>s2. Inr (pStr, len, s2)))"

section \<open>Reading a raw block\<close>

text \<open>A reader at position \<open>pos\<close> of the first \<open>lim\<close> bytes of the block \<open>data\<close>.\<close>

definition reader :: "bytes \<Rightarrow> nat \<Rightarrow> nat \<Rightarrow> byte_stream" where
  "reader data lim pos =
     \<lparr>m_pSimpBuf = None, m_pBuf = Some data, m_len = of_nat lim, m_pos = of_nat pos\<rparr>"

lemma CByteStream_raw_reader: "CByteStream_raw (Some data) (of_nat lim) = reader data lim 0"
  by (simp add: CByteStream_raw_def reader_def)

lemma ReadByte_reader:
  assumes "lim \<le> length data" "lim < 2 ^ 32" "pos \<le> lim" "pos + n < 2 ^ 32"
  shows "ReadByte (of_nat n) (reader data lim pos) =
    (if pos + n \<le> lim then Inr (take n (drop pos data), reader data lim (pos + n))
     else Inl parse_failed)"
proof -
  have le: "(of_nat pos + of_nat n :: u32) > of_nat lim \<longleftrightarrow> lim < pos + n"
    using assms by (simp add: word_less_nat_alt unat_of_nat_u32 flip: of_nat_add)
  show ?thesis
  proof (cases "pos + n \<le> lim")
    case True
    then have "unat (of_nat pos :: u32) = pos" "unat (of_nat n :: u32) = n"
      using assms(2) by (simp_all add: unat_of_nat_u32)
    then show ?thesis using True le assms(1)
      by (simp add: ReadByte_def reader_def)
  next
    case False
    then show ?thesis using le by (simp add: ReadByte_def reader_def)
  qed
qed

lemma get_u32_reader:
  assumes "lim \<le> length data" "lim < 2 ^ 32" "pos \<le> lim" "pos + 4 < 2 ^ 32"
  shows "get_u32 (reader data lim pos) =
    (if pos + 4 \<le> lim then Inr (be32 (take 4 (drop pos data)), reader data lim (pos + 4))
     else Inl parse_failed)"
  using ReadByte_reader [OF assms] by (simp add: get_u32_def)

lemma get_u16_reader:
  assumes "lim \<le> length data" "lim < 2 ^ 32" "pos \<le> lim" "pos + 2 < 2 ^ 32"
  shows "get_u16 (reader data lim pos) =
    (if pos + 2 \<le> lim then Inr (be16 (take 2 (drop pos data)), reader data lim (pos + 2))
     else Inl parse_failed)"
  using ReadByte_reader [OF assms] by (simp add: get_u16_def)

section \<open>Writing into a buffer\<close>

text \<open>A writer over a buffer whose contents it has produced so far.\<close>

definition writes :: "bytes \<Rightarrow> byte_stream \<Rightarrow> bool" where
  "writes out s \<longleftrightarrow> m_pBuf s = None \<and>
     (\<exists>b. m_pSimpBuf s = Some b \<and> buffer_ok b \<and> content b = out)"

lemma writes_new: "writes [] (CByteStream_buf (CSimpleBuffer f) pos)"
  by (simp add: writes_def CByteStream_buf_def)

lemma WriteByte_writes:
  assumes "writes out s" "unat len \<le> length src" "growable (length out + unat len)"
  shows "\<exists>s'. WriteByte (Some src) len s = Inr s' \<and> writes (out @ take (unat len) src) s'"
proof -
  from assms(1) obtain b where b: "m_pBuf s = None" "m_pSimpBuf s = Some b" "buffer_ok b"
    "content b = out" by (auto simp: writes_def)
  have "write_fits len b"
    using assms(3) length_content [OF b(3)] b(4) by (simp add: write_fits_def)
  from Write_Some_spec [OF b(3) this assms(2)] obtain b' where
    "Write (Some src) len b = Inr (len, b')" "buffer_ok b'"
    "content b' = content b @ take (unat len) src" by blast
  then show ?thesis using b by (simp add: WriteByte_def writes_def)
qed

lemma WriteByte_writes_null:
  assumes "writes out s"
  shows "\<exists>s'. WriteByte None 0 s = Inr s' \<and> writes out s'"
proof -
  from assms obtain b where b: "m_pBuf s = None" "m_pSimpBuf s = Some b" "buffer_ok b"
    "content b = out" by (auto simp: writes_def)
  have "write_fits 0 b" using b(3) by (simp add: write_fits_def buffer_ok_def)
  from Write_None_spec [OF b(3) this] obtain b' where
    "Write None 0 b = Inr (0, b')" "buffer_ok b'" "content b' = content b" by auto
  then show ?thesis using b by (simp add: WriteByte_def writes_def)
qed

lemma put_u32_writes:
  "writes out s \<Longrightarrow> growable (length out + 4) \<Longrightarrow>
   \<exists>s'. put_u32 d s = Inr s' \<and> writes (out @ enc32 d) s'"
  using WriteByte_writes [of out s 4 "enc32 d"] by (simp add: put_u32_def)

lemma WriteData_writes:
  assumes "writes out s" "unat len \<le> length src" "growable (length out + 4 + unat len)"
  shows "\<exists>s'. WriteData (Some src) len s = Inr s'
    \<and> writes (out @ enc32 len @ take (unat len) src) s'"
proof -
  have "growable (length out + 4)" using assms(3) growable_mono by force
  then obtain s1 where "put_u32 len s = Inr s1" "writes (out @ enc32 len) s1"
    using put_u32_writes [OF assms(1)] by blast
  with WriteByte_writes [of "out @ enc32 len" s1 len src] assms(2,3) show ?thesis
    by (simp add: WriteData_def add.assoc)
qed

end
