(* ===== verification/Protocol.thy ===== *)
theory Protocol
  imports Prelude
begin

text \<open>
  The identifiers of the protocol (\<open>pb/IM.BaseDefine.proto\<close>, \<open>base/public_define.h\<close>): service and
  command ids are the 16-bit fields of a PDU header, the other enumerations are 32-bit
  values of protocol buffer fields. The timeouts are those of \<open>base/imconn.h\<close>.
\<close>

abbreviation (input) SID_LOGIN :: u16 where "SID_LOGIN \<equiv> 1"
abbreviation (input) SID_BUDDY_LIST :: u16 where "SID_BUDDY_LIST \<equiv> 2"
abbreviation (input) SID_MSG :: u16 where "SID_MSG \<equiv> 3"
abbreviation (input) SID_GROUP :: u16 where "SID_GROUP \<equiv> 4"
abbreviation (input) SID_FILE :: u16 where "SID_FILE \<equiv> 5"
abbreviation (input) SID_SWITCH_SERVICE :: u16 where "SID_SWITCH_SERVICE \<equiv> 6"
abbreviation (input) SID_OTHER :: u16 where "SID_OTHER \<equiv> 7"
abbreviation (input) SID_INTERNAL :: u16 where "SID_INTERNAL \<equiv> 8"
abbreviation (input) CID_LOGIN_REQ_MSGSERVER :: u16 where "CID_LOGIN_REQ_MSGSERVER \<equiv> 257"
abbreviation (input) CID_LOGIN_RES_MSGSERVER :: u16 where "CID_LOGIN_RES_MSGSERVER \<equiv> 258"
abbreviation (input) CID_LOGIN_REQ_USERLOGIN :: u16 where "CID_LOGIN_REQ_USERLOGIN \<equiv> 259"
abbreviation (input) CID_LOGIN_RES_USERLOGIN :: u16 where "CID_LOGIN_RES_USERLOGIN \<equiv> 260"
abbreviation (input) CID_LOGIN_REQ_LOGINOUT :: u16 where "CID_LOGIN_REQ_LOGINOUT \<equiv> 261"
abbreviation (input) CID_LOGIN_RES_LOGINOUT :: u16 where "CID_LOGIN_RES_LOGINOUT \<equiv> 262"
abbreviation (input) CID_LOGIN_KICK_USER :: u16 where "CID_LOGIN_KICK_USER \<equiv> 263"
abbreviation (input) CID_LOGIN_REQ_DEVICETOKEN :: u16 where "CID_LOGIN_REQ_DEVICETOKEN \<equiv> 264"
abbreviation (input) CID_LOGIN_RES_DEVICETOKEN :: u16 where "CID_LOGIN_RES_DEVICETOKEN \<equiv> 265"
abbreviation (input) CID_LOGIN_REQ_KICKPCCLIENT :: u16 where "CID_LOGIN_REQ_KICKPCCLIENT \<equiv> 266"
abbreviation (input) CID_LOGIN_RES_KICKPCCLIENT :: u16 where "CID_LOGIN_RES_KICKPCCLIENT \<equiv> 267"
abbreviation (input) CID_LOGIN_REQ_PUSH_SHIELD :: u16 where "CID_LOGIN_REQ_PUSH_SHIELD \<equiv> 268"
abbreviation (input) CID_LOGIN_RES_PUSH_SHIELD :: u16 where "CID_LOGIN_RES_PUSH_SHIELD \<equiv> 269"
abbreviation (input) CID_LOGIN_REQ_QUERY_PUSH_SHIELD :: u16 where "CID_LOGIN_REQ_QUERY_PUSH_SHIELD \<equiv> 270"
abbreviation (input) CID_LOGIN_RES_QUERY_PUSH_SHIELD :: u16 where "CID_LOGIN_RES_QUERY_PUSH_SHIELD \<equiv> 271"
abbreviation (input) CID_LOGIN_REQ_VISIBLE_RANGE :: u16 where "CID_LOGIN_REQ_VISIBLE_RANGE \<equiv> 272"
abbreviation (input) CID_BUDDY_LIST_RECENT_CONTACT_SESSION_REQUEST :: u16 where "CID_BUDDY_LIST_RECENT_CONTACT_SESSION_REQUEST \<equiv> 513"
abbreviation (input) CID_BUDDY_LIST_RECENT_CONTACT_SESSION_RESPONSE :: u16 where "CID_BUDDY_LIST_RECENT_CONTACT_SESSION_RESPONSE \<equiv> 514"
abbreviation (input) CID_BUDDY_LIST_STATUS_NOTIFY :: u16 where "CID_BUDDY_LIST_STATUS_NOTIFY \<equiv> 515"
abbreviation (input) CID_BUDDY_LIST_USER_INFO_REQUEST :: u16 where "CID_BUDDY_LIST_USER_INFO_REQUEST \<equiv> 516"
abbreviation (input) CID_BUDDY_LIST_USER_INFO_RESPONSE :: u16 where "CID_BUDDY_LIST_USER_INFO_RESPONSE \<equiv> 517"
abbreviation (input) CID_BUDDY_LIST_REMOVE_SESSION_REQ :: u16 where "CID_BUDDY_LIST_REMOVE_SESSION_REQ \<equiv> 518"
abbreviation (input) CID_BUDDY_LIST_REMOVE_SESSION_RES :: u16 where "CID_BUDDY_LIST_REMOVE_SESSION_RES \<equiv> 519"
abbreviation (input) CID_BUDDY_LIST_ALL_USER_REQUEST :: u16 where "CID_BUDDY_LIST_ALL_USER_REQUEST \<equiv> 520"
abbreviation (input) CID_BUDDY_LIST_ALL_USER_RESPONSE :: u16 where "CID_BUDDY_LIST_ALL_USER_RESPONSE \<equiv> 521"
abbreviation (input) CID_BUDDY_LIST_USERS_STATUS_REQUEST :: u16 where "CID_BUDDY_LIST_USERS_STATUS_REQUEST \<equiv> 522"
abbreviation (input) CID_BUDDY_LIST_USERS_STATUS_RESPONSE :: u16 where "CID_BUDDY_LIST_USERS_STATUS_RESPONSE \<equiv> 523"
abbreviation (input) CID_BUDDY_LIST_CHANGE_AVATAR_REQUEST :: u16 where "CID_BUDDY_LIST_CHANGE_AVATAR_REQUEST \<equiv> 524"
abbreviation (input) CID_BUDDY_LIST_CHANGE_AVATAR_RESPONSE :: u16 where "CID_BUDDY_LIST_CHANGE_AVATAR_RESPONSE \<equiv> 525"
abbreviation (input) CID_BUDDY_LIST_PC_LOGIN_STATUS_NOTIFY :: u16 where "CID_BUDDY_LIST_PC_LOGIN_STATUS_NOTIFY \<equiv> 526"
abbreviation (input) CID_BUDDY_LIST_REMOVE_SESSION_NOTIFY :: u16 where "CID_BUDDY_LIST_REMOVE_SESSION_NOTIFY \<equiv> 527"
abbreviation (input) CID_BUDDY_LIST_DEPARTMENT_REQUEST :: u16 where "CID_BUDDY_LIST_DEPARTMENT_REQUEST \<equiv> 528"
abbreviation (input) CID_BUDDY_LIST_DEPARTMENT_RESPONSE :: u16 where "CID_BUDDY_LIST_DEPARTMENT_RESPONSE \<equiv> 529"
abbreviation (input) CID_BUDDY_LIST_AVATAR_CHANGED_NOTIFY :: u16 where "CID_BUDDY_LIST_AVATAR_CHANGED_NOTIFY \<equiv> 530"
abbreviation (input) CID_BUDDY_LIST_CHANGE_SIGN_INFO_REQUEST :: u16 where "CID_BUDDY_LIST_CHANGE_SIGN_INFO_REQUEST \<equiv> 531"
abbreviation (input) CID_BUDDY_LIST_CHANGE_SIGN_INFO_RESPONSE :: u16 where "CID_BUDDY_LIST_CHANGE_SIGN_INFO_RESPONSE \<equiv> 532"
abbreviation (input) CID_BUDDY_LIST_SIGN_INFO_CHANGED_NOTIFY :: u16 where "CID_BUDDY_LIST_SIGN_INFO_CHANGED_NOTIFY \<equiv> 533"
abbreviation (input) CID_MSG_DATA :: u16 where "CID_MSG_DATA \<equiv> 769"
abbreviation (input) CID_MSG_DATA_ACK :: u16 where "CID_MSG_DATA_ACK \<equiv> 770"
abbreviation (input) CID_MSG_READ_ACK :: u16 where "CID_MSG_READ_ACK \<equiv> 771"
abbreviation (input) CID_MSG_READ_NOTIFY :: u16 where "CID_MSG_READ_NOTIFY \<equiv> 772"
abbreviation (input) CID_MSG_TIME_REQUEST :: u16 where "CID_MSG_TIME_REQUEST \<equiv> 773"
abbreviation (input) CID_MSG_TIME_RESPONSE :: u16 where "CID_MSG_TIME_RESPONSE \<equiv> 774"
abbreviation (input) CID_MSG_UNREAD_CNT_REQUEST :: u16 where "CID_MSG_UNREAD_CNT_REQUEST \<equiv> 775"
abbreviation (input) CID_MSG_UNREAD_CNT_RESPONSE :: u16 where "CID_MSG_UNREAD_CNT_RESPONSE \<equiv> 776"
abbreviation (input) CID_MSG_LIST_REQUEST :: u16 where "CID_MSG_LIST_REQUEST \<equiv> 777"
abbreviation (input) CID_MSG_LIST_RESPONSE :: u16 where "CID_MSG_LIST_RESPONSE \<equiv> 778"
abbreviation (input) CID_MSG_GET_LATEST_MSG_ID_REQ :: u16 where "CID_MSG_GET_LATEST_MSG_ID_REQ \<equiv> 779"
abbreviation (input) CID_MSG_GET_LATEST_MSG_ID_RSP :: u16 where "CID_MSG_GET_LATEST_MSG_ID_RSP \<equiv> 780"
abbreviation (input) CID_MSG_GET_BY_MSG_ID_REQ :: u16 where "CID_MSG_GET_BY_MSG_ID_REQ \<equiv> 781"
abbreviation (input) CID_MSG_GET_BY_MSG_ID_RES :: u16 where "CID_MSG_GET_BY_MSG_ID_RES \<equiv> 782"
abbreviation (input) CID_GROUP_NORMAL_LIST_REQUEST :: u16 where "CID_GROUP_NORMAL_LIST_REQUEST \<equiv> 1025"
abbreviation (input) CID_GROUP_NORMAL_LIST_RESPONSE :: u16 where "CID_GROUP_NORMAL_LIST_RESPONSE \<equiv> 1026"
abbreviation (input) CID_GROUP_INFO_REQUEST :: u16 where "CID_GROUP_INFO_REQUEST \<equiv> 1027"
abbreviation (input) CID_GROUP_INFO_RESPONSE :: u16 where "CID_GROUP_INFO_RESPONSE \<equiv> 1028"
abbreviation (input) CID_GROUP_CREATE_REQUEST :: u16 where "CID_GROUP_CREATE_REQUEST \<equiv> 1029"
abbreviation (input) CID_GROUP_CREATE_RESPONSE :: u16 where "CID_GROUP_CREATE_RESPONSE \<equiv> 1030"
abbreviation (input) CID_GROUP_CHANGE_MEMBER_REQUEST :: u16 where "CID_GROUP_CHANGE_MEMBER_REQUEST \<equiv> 1031"
abbreviation (input) CID_GROUP_CHANGE_MEMBER_RESPONSE :: u16 where "CID_GROUP_CHANGE_MEMBER_RESPONSE \<equiv> 1032"
abbreviation (input) CID_GROUP_SHIELD_GROUP_REQUEST :: u16 where "CID_GROUP_SHIELD_GROUP_REQUEST \<equiv> 1033"
abbreviation (input) CID_GROUP_SHIELD_GROUP_RESPONSE :: u16 where "CID_GROUP_SHIELD_GROUP_RESPONSE \<equiv> 1034"
abbreviation (input) CID_GROUP_CHANGE_MEMBER_NOTIFY :: u16 where "CID_GROUP_CHANGE_MEMBER_NOTIFY \<equiv> 1035"
abbreviation (input) CID_FILE_LOGIN_REQ :: u16 where "CID_FILE_LOGIN_REQ \<equiv> 1281"
abbreviation (input) CID_FILE_LOGIN_RES :: u16 where "CID_FILE_LOGIN_RES \<equiv> 1282"
abbreviation (input) CID_FILE_STATE :: u16 where "CID_FILE_STATE \<equiv> 1283"
abbreviation (input) CID_FILE_PULL_DATA_REQ :: u16 where "CID_FILE_PULL_DATA_REQ \<equiv> 1284"
abbreviation (input) CID_FILE_PULL_DATA_RSP :: u16 where "CID_FILE_PULL_DATA_RSP \<equiv> 1285"
abbreviation (input) CID_FILE_REQUEST :: u16 where "CID_FILE_REQUEST \<equiv> 1286"
abbreviation (input) CID_FILE_RESPONSE :: u16 where "CID_FILE_RESPONSE \<equiv> 1287"
abbreviation (input) CID_FILE_NOTIFY :: u16 where "CID_FILE_NOTIFY \<equiv> 1288"
abbreviation (input) CID_FILE_HAS_OFFLINE_REQ :: u16 where "CID_FILE_HAS_OFFLINE_REQ \<equiv> 1289"
abbreviation (input) CID_FILE_HAS_OFFLINE_RES :: u16 where "CID_FILE_HAS_OFFLINE_RES \<equiv> 1290"
abbreviation (input) CID_FILE_ADD_OFFLINE_REQ :: u16 where "CID_FILE_ADD_OFFLINE_REQ \<equiv> 1291"
abbreviation (input) CID_FILE_DEL_OFFLINE_REQ :: u16 where "CID_FILE_DEL_OFFLINE_REQ \<equiv> 1292"
abbreviation (input) CID_SWITCH_P2P_CMD :: u16 where "CID_SWITCH_P2P_CMD \<equiv> 1537"
abbreviation (input) CID_OTHER_HEARTBEAT :: u16 where "CID_OTHER_HEARTBEAT \<equiv> 1793"
abbreviation (input) CID_OTHER_STOP_RECV_PACKET :: u16 where "CID_OTHER_STOP_RECV_PACKET \<equiv> 1794"
abbreviation (input) CID_OTHER_VALIDATE_REQ :: u16 where "CID_OTHER_VALIDATE_REQ \<equiv> 1795"
abbreviation (input) CID_OTHER_VALIDATE_RSP :: u16 where "CID_OTHER_VALIDATE_RSP \<equiv> 1796"
abbreviation (input) CID_OTHER_GET_DEVICE_TOKEN_REQ :: u16 where "CID_OTHER_GET_DEVICE_TOKEN_REQ \<equiv> 1797"
abbreviation (input) CID_OTHER_GET_DEVICE_TOKEN_RSP :: u16 where "CID_OTHER_GET_DEVICE_TOKEN_RSP \<equiv> 1798"
abbreviation (input) CID_OTHER_ROLE_SET :: u16 where "CID_OTHER_ROLE_SET \<equiv> 1799"
abbreviation (input) CID_OTHER_ONLINE_USER_INFO :: u16 where "CID_OTHER_ONLINE_USER_INFO \<equiv> 1800"
abbreviation (input) CID_OTHER_MSG_SERV_INFO :: u16 where "CID_OTHER_MSG_SERV_INFO \<equiv> 1801"
abbreviation (input) CID_OTHER_USER_STATUS_UPDATE :: u16 where "CID_OTHER_USER_STATUS_UPDATE \<equiv> 1802"
abbreviation (input) CID_OTHER_USER_CNT_UPDATE :: u16 where "CID_OTHER_USER_CNT_UPDATE \<equiv> 1803"
abbreviation (input) CID_OTHER_SERVER_KICK_USER :: u16 where "CID_OTHER_SERVER_KICK_USER \<equiv> 1805"
abbreviation (input) CID_OTHER_LOGIN_STATUS_NOTIFY :: u16 where "CID_OTHER_LOGIN_STATUS_NOTIFY \<equiv> 1806"
abbreviation (input) CID_OTHER_PUSH_TO_USER_REQ :: u16 where "CID_OTHER_PUSH_TO_USER_REQ \<equiv> 1807"
abbreviation (input) CID_OTHER_PUSH_TO_USER_RSP :: u16 where "CID_OTHER_PUSH_TO_USER_RSP \<equiv> 1808"
abbreviation (input) CID_OTHER_GET_SHIELD_REQ :: u16 where "CID_OTHER_GET_SHIELD_REQ \<equiv> 1809"
abbreviation (input) CID_OTHER_GET_SHIELD_RSP :: u16 where "CID_OTHER_GET_SHIELD_RSP \<equiv> 1810"
abbreviation (input) CID_OTHER_FILE_TRANSFER_REQ :: u16 where "CID_OTHER_FILE_TRANSFER_REQ \<equiv> 1841"
abbreviation (input) CID_OTHER_FILE_TRANSFER_RSP :: u16 where "CID_OTHER_FILE_TRANSFER_RSP \<equiv> 1842"
abbreviation (input) CID_OTHER_FILE_SERVER_IP_REQ :: u16 where "CID_OTHER_FILE_SERVER_IP_REQ \<equiv> 1843"
abbreviation (input) CID_OTHER_FILE_SERVER_IP_RSP :: u16 where "CID_OTHER_FILE_SERVER_IP_RSP \<equiv> 1844"
abbreviation (input) CID_OTHER_FILE_DOWNLOAD_NOTIFY :: u16 where "CID_OTHER_FILE_DOWNLOAD_NOTIFY \<equiv> 1845"
abbreviation (input) REFUSE_REASON_NONE :: u32 where "REFUSE_REASON_NONE \<equiv> 0"
abbreviation (input) REFUSE_REASON_NO_MSG_SERVER :: u32 where "REFUSE_REASON_NO_MSG_SERVER \<equiv> 1"
abbreviation (input) REFUSE_REASON_MSG_SERVER_FULL :: u32 where "REFUSE_REASON_MSG_SERVER_FULL \<equiv> 2"
abbreviation (input) REFUSE_REASON_NO_DB_SERVER :: u32 where "REFUSE_REASON_NO_DB_SERVER \<equiv> 3"
abbreviation (input) REFUSE_REASON_NO_LOGIN_SERVER :: u32 where "REFUSE_REASON_NO_LOGIN_SERVER \<equiv> 4"
abbreviation (input) REFUSE_REASON_NO_ROUTE_SERVER :: u32 where "REFUSE_REASON_NO_ROUTE_SERVER \<equiv> 5"
abbreviation (input) REFUSE_REASON_DB_VALIDATE_FAILED :: u32 where "REFUSE_REASON_DB_VALIDATE_FAILED \<equiv> 6"
abbreviation (input) REFUSE_REASON_VERSION_TOO_OLD :: u32 where "REFUSE_REASON_VERSION_TOO_OLD \<equiv> 7"
abbreviation (input) KICK_REASON_DUPLICATE_USER :: u32 where "KICK_REASON_DUPLICATE_USER \<equiv> 1"
abbreviation (input) KICK_REASON_MOBILE_KICK :: u32 where "KICK_REASON_MOBILE_KICK \<equiv> 2"
abbreviation (input) USER_STATUS_ONLINE :: u32 where "USER_STATUS_ONLINE \<equiv> 1"
abbreviation (input) USER_STATUS_OFFLINE :: u32 where "USER_STATUS_OFFLINE \<equiv> 2"
abbreviation (input) USER_STATUS_LEAVE :: u32 where "USER_STATUS_LEAVE \<equiv> 3"
abbreviation (input) SESSION_TYPE_SINGLE :: u32 where "SESSION_TYPE_SINGLE \<equiv> 1"
abbreviation (input) SESSION_TYPE_GROUP :: u32 where "SESSION_TYPE_GROUP \<equiv> 2"
abbreviation (input) MSG_TYPE_SINGLE_TEXT :: u32 where "MSG_TYPE_SINGLE_TEXT \<equiv> 1"
abbreviation (input) MSG_TYPE_SINGLE_AUDIO :: u32 where "MSG_TYPE_SINGLE_AUDIO \<equiv> 2"
abbreviation (input) MSG_TYPE_GROUP_TEXT :: u32 where "MSG_TYPE_GROUP_TEXT \<equiv> 17"
abbreviation (input) MSG_TYPE_GROUP_AUDIO :: u32 where "MSG_TYPE_GROUP_AUDIO \<equiv> 18"
abbreviation (input) CLIENT_TYPE_WINDOWS :: u32 where "CLIENT_TYPE_WINDOWS \<equiv> 1"
abbreviation (input) CLIENT_TYPE_MAC :: u32 where "CLIENT_TYPE_MAC \<equiv> 2"
abbreviation (input) CLIENT_TYPE_IOS :: u32 where "CLIENT_TYPE_IOS \<equiv> 17"
abbreviation (input) CLIENT_TYPE_ANDROID :: u32 where "CLIENT_TYPE_ANDROID \<equiv> 18"
abbreviation (input) FILE_TYPE_ONLINE :: u32 where "FILE_TYPE_ONLINE \<equiv> 1"
abbreviation (input) FILE_TYPE_OFFLINE :: u32 where "FILE_TYPE_OFFLINE \<equiv> 2"
abbreviation (input) FILE_TYPE_OFFLINE_MOBILE :: u32 where "FILE_TYPE_OFFLINE_MOBILE \<equiv> 3"
abbreviation (input) CLIENT_FILE_PEER_READY :: u32 where "CLIENT_FILE_PEER_READY \<equiv> 0"
abbreviation (input) CLIENT_FILE_CANCEL :: u32 where "CLIENT_FILE_CANCEL \<equiv> 1"
abbreviation (input) CLIENT_FILE_REFUSE :: u32 where "CLIENT_FILE_REFUSE \<equiv> 2"
abbreviation (input) CLIENT_FILE_DONE :: u32 where "CLIENT_FILE_DONE \<equiv> 3"
abbreviation (input) USER_CNT_INC :: u32 where "USER_CNT_INC \<equiv> 1"
abbreviation (input) USER_CNT_DEC :: u32 where "USER_CNT_DEC \<equiv> 2"
abbreviation (input) IM_PC_LOGIN_STATUS_ON :: u32 where "IM_PC_LOGIN_STATUS_ON \<equiv> 1"
abbreviation (input) IM_PC_LOGIN_STATUS_OFF :: u32 where "IM_PC_LOGIN_STATUS_OFF \<equiv> 0"
abbreviation (input) SERVER_HEARTBEAT_INTERVAL :: u64 where "SERVER_HEARTBEAT_INTERVAL \<equiv> 5000"
abbreviation (input) SERVER_TIMEOUT :: u64 where "SERVER_TIMEOUT \<equiv> 30000"
abbreviation (input) CLIENT_HEARTBEAT_INTERVAL :: u64 where "CLIENT_HEARTBEAT_INTERVAL \<equiv> 30000"
abbreviation (input) CLIENT_TIMEOUT :: u64 where "CLIENT_TIMEOUT \<equiv> 120000"
abbreviation (input) MOBILE_CLIENT_TIMEOUT :: u64 where "MOBILE_CLIENT_TIMEOUT \<equiv> 300000"

abbreviation (input) CID_FILE_Notify_Ack :: u16 where "CID_FILE_Notify_Ack \<equiv> 1293"
abbreviation (input) CID_FILE_Notify_dbserver :: u16 where "CID_FILE_Notify_dbserver \<equiv> 1294"
abbreviation (input) IM_PUSH_TYPE_NORMAL :: u32 where "IM_PUSH_TYPE_NORMAL \<equiv> 1"
abbreviation (input) IM_PUSH_TYPE_SILENT :: u32 where "IM_PUSH_TYPE_SILENT \<equiv> 2"
abbreviation (input) CLIENT_TYPE_FLAG_NONE :: u32 where "CLIENT_TYPE_FLAG_NONE \<equiv> 0"
abbreviation (input) CLIENT_TYPE_FLAG_PC :: u32 where "CLIENT_TYPE_FLAG_PC \<equiv> 1"
abbreviation (input) CLIENT_TYPE_FLAG_MOBILE :: u32 where "CLIENT_TYPE_FLAG_MOBILE \<equiv> 2"
abbreviation (input) CLIENT_TYPE_FLAG_BOTH :: u32 where "CLIENT_TYPE_FLAG_BOTH \<equiv> 3"
abbreviation (input) GROUP_TYPE_NORMAL :: u32 where "GROUP_TYPE_NORMAL \<equiv> 1"
abbreviation (input) FILE_NEED_DISPLAY :: u32 where "FILE_NEED_DISPLAY \<equiv> 0"
abbreviation (input) ERROR_CODE_WRONG_SERVICE_ID :: u32 where "ERROR_CODE_WRONG_SERVICE_ID \<equiv> 2"
abbreviation (input) ATTACH_TYPE_HANDLE :: u32 where "ATTACH_TYPE_HANDLE \<equiv> 1"
abbreviation (input) ATTACH_TYPE_HANDLE_AND_PDU :: u32 where "ATTACH_TYPE_HANDLE_AND_PDU \<equiv> 3"
abbreviation (input) ATTACH_TYPE_PDU_FOR_PUSH :: u32 where "ATTACH_TYPE_PDU_FOR_PUSH \<equiv> 4"
abbreviation (input) ATTACH_TYPE_HANDLE_AND_PDU_FOR_FILE :: u32 where "ATTACH_TYPE_HANDLE_AND_PDU_FOR_FILE \<equiv> 5"

definition CHECK_CLIENT_TYPE_PC :: "u32 \<Rightarrow> bool" where
  "CHECK_CLIENT_TYPE_PC t \<longleftrightarrow> t AND 0x10 = 0"

definition CHECK_CLIENT_TYPE_MOBILE :: "u32 \<Rightarrow> bool" where
  "CHECK_CLIENT_TYPE_MOBILE t \<longleftrightarrow> t AND 0x10 = 0x10"

definition CHECK_MSG_TYPE_SINGLE :: "u32 \<Rightarrow> bool" where
  "CHECK_MSG_TYPE_SINGLE t \<longleftrightarrow> MSG_TYPE_SINGLE_TEXT = t \<or> MSG_TYPE_SINGLE_AUDIO = t"

definition CHECK_MSG_TYPE_GROUP :: "u32 \<Rightarrow> bool" where
  "CHECK_MSG_TYPE_GROUP t \<longleftrightarrow> MSG_TYPE_GROUP_TEXT = t \<or> MSG_TYPE_GROUP_AUDIO = t"

text \<open>Every client type is of exactly one of the two kinds.\<close>

lemma client_kind: "CHECK_CLIENT_TYPE_MOBILE t \<longleftrightarrow> \<not> CHECK_CLIENT_TYPE_PC t"
proof -
  have "t AND 2 ^ n = (if bit t n then 2 ^ n else 0)" for n
    by (rule bit_word_eqI) (auto simp: bit_simps)
  from this [of 4] show ?thesis by (simp add: CHECK_CLIENT_TYPE_PC_def CHECK_CLIENT_TYPE_MOBILE_def)
qed

end
