(* ===== verification/ImPdu.thy ===== *)
theory ImPdu
  imports ByteStream Protocol
begin

text \<open>
  \<open>CImPdu\<close> (\<open>base/ImPduBase.h\<close>, \<open>base/ImPduBase.cpp\<close>): a protocol data unit is a 16-byte
  big-endian header and a body. The record pairs the raw buffer with the parsed header,
  which the getters read and the setters do not touch. The wire format is stated
  separately as \<open>pdu_bytes\<close> of an abstract PDU, and the operations are shown to produce
  and to parse it.
\<close>

record pdu_header =
  h_length :: u32
  h_version :: u16
  h_flag :: u16
  h_service_id :: u16
  h_command_id :: u16
  h_seq_num :: u16
  h_reversed :: u16

record im_pdu =
  m_buf :: simple_buffer
  m_pdu_header :: pdu_header

abbreviation (input) IM_PDU_HEADER_LEN :: nat where "IM_PDU_HEADER_LEN \<equiv> 16"

definition CImPdu :: "(nat \<Rightarrow> byte) \<Rightarrow> im_pdu" where
  "CImPdu fresh =
     \<lparr>m_buf = CSimpleBuffer fresh,
      m_pdu_header = \<lparr>h_length = be32 (map fresh [0, 1, 2, 3]), h_version = 1, h_flag = 0,
        h_service_id = SID_OTHER, h_command_id = 0, h_seq_num = 0, h_reversed = 0\<rparr>\<rparr>"

definition GetBuffer :: "im_pdu \<Rightarrow> bytes" where
  "GetBuffer p = m_buffer (m_buf p)"

definition GetLength :: "im_pdu \<Rightarrow> u32" where
  "GetLength p = m_write_offset (m_buf p)"

definition GetBodyData :: "im_pdu \<Rightarrow> bytes" where
  "GetBodyData p = drop 16 (m_buffer (m_buf p))"

definition GetBodyLength :: "im_pdu \<Rightarrow> u32" where
  "GetBodyLength p = m_write_offset (m_buf p) - 16"

definition on_buffer :: "(bytes \<Rightarrow> bytes res) \<Rightarrow> im_pdu \<Rightarrow> im_pdu res" where
  "on_buffer f p = bindR (f (GetBuffer p)) (\<lambda>block. Inr (p\<lparr>m_buf := (m_buf p)\<lparr>m_buffer := block\<rparr>\<rparr>))"

definition WriteHeader :: "im_pdu \<Rightarrow> im_pdu res" where
  "WriteHeader p =
     (let h = m_pdu_header p
      in on_buffer (\<lambda>buf.
           bindR (WriteInt32 buf 0 (sint (GetLength p))) (\<lambda>buf.
           bindR (WriteUint16 buf 4 (h_version h)) (\<lambda>buf.
           bindR (WriteUint16 buf 6 (h_flag h)) (\<lambda>buf.
           bindR (WriteUint16 buf 8 (h_service_id h)) (\<lambda>buf.
           bindR (WriteUint16 buf 10 (h_command_id h)) (\<lambda>buf.
           bindR (WriteUint16 buf 12 (h_seq_num h)) (\<lambda>buf.
           WriteUint16 buf 14 (h_reversed h)))))))) p)"

definition SetVersion :: "u16 \<Rightarrow> im_pdu \<Rightarrow> im_pdu res" where
  "SetVersion v = on_buffer (\<lambda>buf. WriteUint16 buf 4 v)"

definition SetFlag :: "u16 \<Rightarrow> im_pdu \<Rightarrow> im_pdu res" where
  "SetFlag v = on_buffer (\<lambda>buf. WriteUint16 buf 6 v)"

definition SetServiceId :: "u16 \<Rightarrow> im_pdu \<Rightarrow> im_pdu res" where
  "SetServiceId v = on_buffer (\<lambda>buf. WriteUint16 buf 8 v)"

definition SetCommandId :: "u16 \<Rightarrow> im_pdu \<Rightarrow> im_pdu res" where
  "SetCommandId v = on_buffer (\<lambda>buf. WriteUint16 buf 10 v)"

definition SetError :: "u16 \<Rightarrow> im_pdu \<Rightarrow> im_pdu res" where
  "SetError v = on_buffer (\<lambda>buf. WriteUint16 buf 12 v)"

definition SetSeqNum :: "u16 \<Rightarrow> im_pdu \<Rightarrow> im_pdu res" where
  "SetSeqNum v = on_buffer (\<lambda>buf. WriteUint16 buf 12 v)"

definition SetReversed :: "u32 \<Rightarrow> im_pdu \<Rightarrow> im_pdu res" where
  "SetReversed v = on_buffer (\<lambda>buf. WriteUint16 buf 14 (ucast v))"

definition ReadPduHeader :: "bytes option \<Rightarrow> u32 \<Rightarrow> im_pdu \<Rightarrow> (int \<times> im_pdu) res" where
  "ReadPduHeader buf len p =
     (if len \<ge> 16 \<and> buf \<noteq> None then
        bindR (get_u32 (CByteStream_raw buf len)) (\<lambda>(l, is).
        bindR (get_u16 is) (\<lambda>(v, is).
        bindR (get_u16 is) (\<lambda>(f, is).
        bindR (get_u16 is) (\<lambda>(s, is).
        bindR (get_u16 is) (\<lambda>(c, is).
        bindR (get_u16 is) (\<lambda>(n, is).
        bindR (get_u16 is) (\<lambda>(r, is).
          Inr (0, p\<lparr>m_pdu_header := \<lparr>h_length = l, h_version = v, h_flag = f, h_service_id = s,
            h_command_id = c, h_seq_num = n, h_reversed = r\<rparr>\<rparr>))))))))
      else Inr (-1, p))"

text \<open>The out-parameter \<open>pdu_len\<close> keeps its value on the first early return.\<close>

definition IsPduAvailable :: "bytes \<Rightarrow> u32 \<Rightarrow> u32 \<Rightarrow> (bool \<times> u32) res" where
  "IsPduAvailable buf len pdu_len0 =
     (if len < 16 then Inr (False, pdu_len0)
      else bindR (ReadUint32 buf 0) (\<lambda>pdu_len.
        if pdu_len > len then Inr (False, pdu_len)
        else if pdu_len = 0 then Inl (PduException 0 0 1 ''pdu_len is 0'')
        else Inr (True, pdu_len)))"

definition ReadPdu :: "(nat \<Rightarrow> byte) \<Rightarrow> bytes \<Rightarrow> u32 \<Rightarrow> im_pdu option res" where
  "ReadPdu fresh buf len =
     bindR (IsPduAvailable buf len 0) (\<lambda>(avail, pdu_len).
       if \<not> avail then Inr None
       else bindR (ReadUint16 buf 8) (\<lambda>service_id.
            bindR (ReadUint16 buf 10) (\<lambda>command_id.
            let p = CImPdu fresh
            in bindR (Write (Some buf) pdu_len (m_buf p)) (\<lambda>(_, b).
               bindR (ReadPduHeader (Some buf) 16 (p\<lparr>m_buf := b\<rparr>)) (\<lambda>(_, p').
               Inr (Some p'))))))"

text \<open>
  \<open>szData\<close> is the array that \<open>SerializeToArray\<close> has filled, \<open>ByteSize()\<close> bytes long; a
  message with missing required fields is sent all the same.
\<close>

definition SetPBMsg :: "bytes \<Rightarrow> im_pdu \<Rightarrow> im_pdu res" where
  "SetPBMsg szData p =
     bindR (Read False (m_write_offset (m_buf p)) (m_buf p)) (\<lambda>(_, _, b0).
     bindR (Write None 16 b0) (\<lambda>(_, b1).
     bindR (Write (Some szData) (of_nat (length szData)) b1) (\<lambda>(_, b2).
     WriteHeader (p\<lparr>m_buf := b2\<rparr>))))"

section \<open>The wire format\<close>

record pdu =
  p_version :: u16
  p_flag :: u16
  p_service_id :: u16
  p_command_id :: u16
  p_seq_num :: u16
  p_reversed :: u16
  p_body :: bytes

definition header_bytes :: "nat \<Rightarrow> pdu \<Rightarrow> bytes" where
  "header_bytes n w = enc32 (of_nat n) @ enc16 (p_version w) @ enc16 (p_flag w) @
     enc16 (p_service_id w) @ enc16 (p_command_id w) @ enc16 (p_seq_num w) @ enc16 (p_reversed w)"

definition pdu_bytes :: "pdu \<Rightarrow> bytes" where
  "pdu_bytes w = header_bytes (16 + length (p_body w)) w @ p_body w"

lemma length_header_bytes [simp]: "length (header_bytes n w) = 16"
  by (simp add: header_bytes_def)

lemma length_pdu_bytes [simp]: "length (pdu_bytes w) = 16 + length (p_body w)"
  by (simp add: pdu_bytes_def)

definition pdu_of :: "pdu_header \<Rightarrow> bytes \<Rightarrow> pdu" where
  "pdu_of h body = \<lparr>p_version = h_version h, p_flag = h_flag h, p_service_id = h_service_id h,
     p_command_id = h_command_id h, p_seq_num = h_seq_num h, p_reversed = h_reversed h,
     p_body = body\<rparr>"

lemma pdu_of_body [simp]: "p_body (pdu_of h body) = body"
  by (simp add: pdu_of_def)

section \<open>Writing\<close>

lemma WriteHeader_seq:
  assumes "16 \<le> length (GetBuffer p)"
  shows "WriteHeader p = Inr (p\<lparr>m_buf := (m_buf p)\<lparr>m_buffer :=
    header_bytes (unat (GetLength p)) (pdu_of (m_pdu_header p) []) @ drop 16 (GetBuffer p)\<rparr>\<rparr>)"
proof -
  let ?h = "m_pdu_header p"
  let ?fields = "[enc32 (GetLength p), enc16 (h_version ?h), enc16 (h_flag ?h), enc16 (h_service_id ?h),
    enc16 (h_command_id ?h), enc16 (h_seq_num ?h), enc16 (h_reversed ?h)]"
  have "WriteHeader p = on_buffer (\<lambda>buf. memcpy_seq buf 0 ?fields) p"
    by (simp add: WriteHeader_def Let_def WriteInt32_enc WriteUint16_def WriteUint32_def bindR_def
        split: sum.splits) (simp add: on_buffer_def bindR_def split: sum.splits)
  moreover have "memcpy_seq (GetBuffer p) 0 ?fields =
    Inr (header_bytes (unat (GetLength p)) (pdu_of ?h []) @ drop 16 (GetBuffer p))"
    using assms by (subst memcpy_seq_concat) (simp_all add: header_bytes_def pdu_of_def)
  ultimately show ?thesis by (simp add: on_buffer_def)
qed

text \<open>The bytes of a PDU object as they go to the socket.\<close>

definition pdu_ok :: "im_pdu \<Rightarrow> bool" where
  "pdu_ok p \<longleftrightarrow> buffer_ok (m_buf p)"

abbreviation image :: "im_pdu \<Rightarrow> bytes" where
  "image p \<equiv> content (m_buf p)"

lemma GetLength_image: "pdu_ok p \<Longrightarrow> unat (GetLength p) = length (image p)"
  by (simp add: pdu_ok_def GetLength_def length_content)

lemma SetPBMsg_spec:
  assumes ok: "pdu_ok p" and size: "growable (16 + length data)"
  shows "\<exists>p'. SetPBMsg data p = Inr p' \<and> pdu_ok p' \<and> m_pdu_header p' = m_pdu_header p
    \<and> image p' = pdu_bytes (pdu_of (m_pdu_header p) data)"
proof -
  obtain b0 where b0: "Read False (m_write_offset (m_buf p)) (m_buf p) =
      Inr ([], m_write_offset (m_buf p), b0)" "buffer_ok b0" "content b0 = []"
    using Read_spec [of "m_buf p" False "m_write_offset (m_buf p)"] ok length_content [of "m_buf p"]
    by (auto simp: pdu_ok_def)
  have o0: "m_write_offset b0 = 0"
    using length_content [OF b0(2)] b0(3) by (simp add: unat_eq_0)
  have "growable 16" using size by (rule growable_mono) simp
  then have "write_fits 16 b0" by (simp add: write_fits_def o0)
  from Write_None_spec [OF b0(2) this] b0(3) obtain b1 where
    b1: "Write None 16 b0 = Inr (16, b1)" "buffer_ok b1" "length (content b1) = 16" by auto
  have dl: "unat (of_nat (length data) :: u32) = length data"
    using growable_lt [OF size] by (intro unat_of_nat_u32) simp
  have "write_fits (of_nat (length data)) b1"
    using size length_content [OF b1(2)] b1(3) by (simp add: write_fits_def dl)
  from Write_Some_spec [OF b1(2) this, of data] dl obtain b2 where
    b2: "Write (Some data) (of_nat (length data)) b1 = Inr (of_nat (length data), b2)"
        "buffer_ok b2" "content b2 = content b1 @ data" by auto
  let ?p = "p\<lparr>m_buf := b2\<rparr>"
  have len: "unat (m_write_offset b2) = 16 + length data"
    using length_content [OF b2(2)] b1(3) b2(3) by simp
  then have blk: "16 \<le> length (m_buffer b2)" using b2(2) by (simp add: buffer_ok_def)
  let ?hd = "header_bytes (16 + length data) (pdu_of (m_pdu_header p) [])"
  have hd_eq: "?hd = header_bytes (16 + length data) (pdu_of (m_pdu_header p) data)"
    by (simp add: header_bytes_def pdu_of_def)
  let ?q = "p\<lparr>m_buf := b2\<lparr>m_buffer := ?hd @ drop 16 (m_buffer b2)\<rparr>\<rparr>"
  have set: "SetPBMsg data p = Inr ?q"
    using WriteHeader_seq [of ?p] blk len
    by (simp add: SetPBMsg_def b0(1) b1(1) b2(1) GetBuffer_def GetLength_def)
  have "take (length data) (drop 16 (m_buffer b2)) = drop 16 (content b2)"
    by (simp add: content_def len drop_take)
  also have "\<dots> = data" using b1(3) b2(3) by simp
  finally have "image ?q = pdu_bytes (pdu_of (m_pdu_header p) data)"
    by (simp add: content_def len pdu_bytes_def hd_eq)
  moreover have "pdu_ok ?q"
    using b2(2) blk by (simp add: pdu_ok_def buffer_ok_def)
  ultimately show ?thesis using set by (intro exI [of _ ?q]) simp
qed

text \<open>A setter overwrites one header field of the image.\<close>

lemma on_buffer_field:
  assumes "pdu_ok p" "off + 2 \<le> length (image p)"
  shows "\<exists>p'. on_buffer (\<lambda>buf. WriteUint16 buf off v) p = Inr p' \<and> pdu_ok p'
    \<and> m_pdu_header p' = m_pdu_header p
    \<and> image p' = take off (image p) @ enc16 v @ drop (off + 2) (image p)"
proof -
  let ?m = "m_buffer (m_buf p)" and ?o = "unat (m_write_offset (m_buf p))"
  have o: "?o \<le> length ?m" "off + 2 \<le> ?o"
    using assms length_content [of "m_buf p"] by (auto simp: pdu_ok_def buffer_ok_def)
  let ?block = "take off ?m @ enc16 v @ drop (off + 2) ?m"
  let ?p = "p\<lparr>m_buf := (m_buf p)\<lparr>m_buffer := ?block\<rparr>\<rparr>"
  have "on_buffer (\<lambda>buf. WriteUint16 buf off v) p = Inr ?p"
    using o by (simp add: on_buffer_def WriteUint16_def GetBuffer_def)
  moreover have "pdu_ok ?p" using assms(1) o by (auto simp: pdu_ok_def buffer_ok_def)
  moreover have "image ?p = take off (image p) @ enc16 v @ drop (off + 2) (image p)"
    using o by (simp add: content_def drop_take min_def add.commute)
  ultimately show ?thesis by (intro exI [of _ ?p]) simp
qed

lemmas pdu_layout = pdu_bytes_def header_bytes_def

lemma set_field_image:
  "take 8 (pdu_bytes w) @ enc16 v @ drop 10 (pdu_bytes w) = pdu_bytes (w\<lparr>p_service_id := v\<rparr>)"
  "take 10 (pdu_bytes w) @ enc16 v @ drop 12 (pdu_bytes w) = pdu_bytes (w\<lparr>p_command_id := v\<rparr>)"
  "take 12 (pdu_bytes w) @ enc16 v @ drop 14 (pdu_bytes w) = pdu_bytes (w\<lparr>p_seq_num := v\<rparr>)"
  "take 4 (pdu_bytes w) @ enc16 v @ drop 6 (pdu_bytes w) = pdu_bytes (w\<lparr>p_version := v\<rparr>)"
  "take 6 (pdu_bytes w) @ enc16 v @ drop 8 (pdu_bytes w) = pdu_bytes (w\<lparr>p_flag := v\<rparr>)"
  "take 14 (pdu_bytes w) @ enc16 v @ drop 16 (pdu_bytes w) = pdu_bytes (w\<lparr>p_reversed := v\<rparr>)"
  by (simp_all add: pdu_layout)

section \<open>Reading\<close>

definition parse_header :: "bytes \<Rightarrow> pdu_header" where
  "parse_header xs = \<lparr>h_length = be32 (take 4 xs), h_version = be16 (take 2 (drop 4 xs)),
     h_flag = be16 (take 2 (drop 6 xs)), h_service_id = be16 (take 2 (drop 8 xs)),
     h_command_id = be16 (take 2 (drop 10 xs)), h_seq_num = be16 (take 2 (drop 12 xs)),
     h_reversed = be16 (take 2 (drop 14 xs))\<rparr>"

lemma ReadPduHeader_spec:
  assumes "16 \<le> length buf"
  shows "ReadPduHeader (Some buf) 16 p = Inr (0, p\<lparr>m_pdu_header := parse_header buf\<rparr>)"
proof -
  have "CByteStream_raw (Some buf) 16 = reader buf 16 0"
    using CByteStream_raw_reader [of buf 16] by simp
  then show ?thesis using assms
    by (simp add: ReadPduHeader_def get_u32_reader get_u16_reader parse_header_def)
qed

lemma parse_header_pdu_bytes:
  "parse_header (pdu_bytes w @ rest) =
     \<lparr>h_length = of_nat (16 + length (p_body w)), h_version = p_version w, h_flag = p_flag w,
      h_service_id = p_service_id w, h_command_id = p_command_id w, h_seq_num = p_seq_num w,
      h_reversed = p_reversed w\<rparr>"
  by (simp add: parse_header_def pdu_layout)

lemma parse_header_take: "16 \<le> n \<Longrightarrow> parse_header (take n xs) = parse_header xs"
  by (simp add: parse_header_def drop_take min_def)

text \<open>What \<open>ReadPdu\<close> does with the first \<open>len\<close> bytes of a block.\<close>

datatype read_outcome = NeedMore | BadLength | GotPdu nat

definition read_outcome :: "bytes \<Rightarrow> read_outcome" where
  "read_outcome xs =
     (if length xs < 16 then NeedMore
      else let n = unat (be32 (take 4 xs))
           in if length xs < n then NeedMore else if n = 0 then BadLength else GotPdu n)"

lemma IsPduAvailable_outcome:
  assumes "unat len \<le> length buf"
  shows "IsPduAvailable buf len 0 =
    (case read_outcome (take (unat len) buf) of
       NeedMore \<Rightarrow> Inr (False, if len < 16 then 0 else be32 (take 4 buf))
     | BadLength \<Rightarrow> Inl (PduException 0 0 1 ''pdu_len is 0'')
     | GotPdu n \<Rightarrow> Inr (True, be32 (take 4 buf)))"
  using assms
  by (auto simp: IsPduAvailable_def read_outcome_def ReadUint32_def word_less_nat_alt
      Let_def min_def unat_eq_0)

lemma ReadPdu_spec:
  assumes len: "unat len \<le> length buf" and size: "growable (unat len)"
  shows "case read_outcome (take (unat len) buf) of
      NeedMore \<Rightarrow> ReadPdu fresh buf len = Inr None
    | BadLength \<Rightarrow> ReadPdu fresh buf len = Inl (PduException 0 0 1 ''pdu_len is 0'')
    | GotPdu n \<Rightarrow> \<exists>p. ReadPdu fresh buf len = Inr (Some p) \<and> pdu_ok p \<and> image p = take n buf
        \<and> m_pdu_header p = parse_header buf"
proof (cases "read_outcome (take (unat len) buf)")
  case NeedMore
  then show ?thesis using IsPduAvailable_outcome [OF len] by (simp add: ReadPdu_def)
next
  case BadLength
  then show ?thesis using IsPduAvailable_outcome [OF len] by (simp add: ReadPdu_def)
next
  case (GotPdu n)
  let ?n = "be32 (take 4 buf)"
  have n: "16 \<le> unat len" "n = unat ?n" "n \<le> unat len"
    using GotPdu len by (auto simp: read_outcome_def Let_def min_def split: if_splits)
  have "write_fits ?n (m_buf (CImPdu fresh))"
    using growable_mono [OF size] n by (simp add: write_fits_def CImPdu_def CSimpleBuffer_def)
  moreover have "buffer_ok (m_buf (CImPdu fresh))" "content (m_buf (CImPdu fresh)) = []"
    by (simp_all add: CImPdu_def)
  ultimately obtain b where b: "Write (Some buf) ?n (m_buf (CImPdu fresh)) = Inr (?n, b)"
    "buffer_ok b" "content b = take n buf"
    using Write_Some_spec [of "m_buf (CImPdu fresh)" ?n buf] n len by fastforce
  show ?thesis
    using GotPdu IsPduAvailable_outcome [OF len] b n len
    by (simp add: ReadPdu_def ReadUint16_def ReadPduHeader_spec pdu_ok_def)
qed

lemma read_outcome_pdu_bytes:
  assumes "16 + length (p_body w) < 2 ^ 32"
  shows "read_outcome (pdu_bytes w @ rest) = GotPdu (16 + length (p_body w))"
proof -
  have "be32 (take 4 (pdu_bytes w @ rest)) = of_nat (16 + length (p_body w))"
    by (simp add: pdu_layout)
  then have "unat (be32 (take 4 (pdu_bytes w @ rest))) = 16 + length (p_body w)"
    using unat_of_nat_u32 [OF assms] by simp
  then show ?thesis by (simp add: read_outcome_def Let_def)
qed

section \<open>Properties\<close>

text \<open>
  \<open>IsPduAvailable\<close> accepts a length field between 1 and 15. The PDU object then holds fewer bytes than
  a header and \<open>GetBodyLength\<close> wraps around to almost \<open>2 ^ 32\<close>.
\<close>

theorem short_length_accepted:
  assumes "unat len \<le> length buf" "16 \<le> unat len" "growable (unat len)"
    and "0 < be32 (take 4 buf)" "be32 (take 4 buf) < 16"
  shows "\<exists>p. ReadPdu fresh buf len = Inr (Some p) \<and> length (image p) < 16 \<and> 2 ^ 32 - 16 < unat (GetBodyLength p)"
proof -
  let ?n = "be32 (take 4 buf)"
  have "read_outcome (take (unat len) buf) = GotPdu (unat ?n)"
    using assms by (auto simp: read_outcome_def Let_def word_less_nat_alt min_def unat_eq_0)
  with ReadPdu_spec [OF assms(1,3), of fresh] obtain p where
    p: "ReadPdu fresh buf len = Inr (Some p)" "pdu_ok p" "image p = take (unat ?n) buf" by auto
  have n: "0 < unat ?n" "unat ?n < 16" using assms(4,5) by (auto simp: word_less_nat_alt unat_gt_0)
  have len: "unat (m_write_offset (m_buf p)) = unat ?n"
    using length_content [of "m_buf p"] p n assms(1,2) by (simp add: pdu_ok_def)
  have "GetBodyLength p = ?n - 16"
    using len unfolding GetBodyLength_def word_unat_eq_iff [symmetric] by simp
  moreover have "unat (?n - 16) = 2 ^ 32 - 16 + unat ?n"
    using n by (simp add: unat_sub_if_size word_size)
  ultimately show ?thesis using p len n length_content [of "m_buf p"] by (auto simp: pdu_ok_def)
qed

theorem short_length_accepted_witness:
  "\<exists>p. ReadPdu (\<lambda>_. 0) ([0, 0, 0, 4] @ replicate 12 0) 16 = Inr (Some p) \<and> 2 ^ 32 - 16 < unat (GetBodyLength p)"
proof -
  have "be32 (take 4 ([0, 0, 0, 4] @ replicate 12 0)) = 4" by code_simp
  then show ?thesis
    using short_length_accepted [of 16 "[0, 0, 0, 4] @ replicate 12 0" "\<lambda>_. 0"] by (auto simp: growable_def)
qed

end
