(* ===== verification/ImConn.thy ===== *)
theory ImConn
  imports ImPdu
begin

text \<open>
  \<open>CImConn\<close> (\<open>base/imconn.h\<close>, \<open>base/imconn.cpp\<close>): buffered sending and PDU framing over a
  non-blocking socket. The operating system's side of the socket is the record \<open>sock\<close>:
  the results its future \<open>send(2)\<close> calls will give, the bytes it has taken so far, and the
  segments \<open>recv(2)\<close> will hand out. Every theorem holds for all such sockets, hence for
  every pattern of short writes, refused writes and segmentation.
\<close>

record sock =
  s_accept :: "int list"
  s_wire :: bytes
  s_inbox :: "bytes list"

definition net_send :: "bytes \<Rightarrow> sock \<Rightarrow> int \<times> sock" where
  "net_send data s =
     (case s_accept s of
        [] \<Rightarrow> (-1, s)
      | r # rs \<Rightarrow>
          if r \<le> 0 then (r, s\<lparr>s_accept := rs\<rparr>)
          else let n = min (nat r) (length data)
               in (int n, s\<lparr>s_accept := rs, s_wire := s_wire s @ take n data\<rparr>))"

definition net_recv :: "nat \<Rightarrow> sock \<Rightarrow> int \<times> bytes \<times> sock" where
  "net_recv n s =
     (case s_inbox s of
        [] \<Rightarrow> (-1, [], s)
      | c # cs \<Rightarrow>
          (int (length (take n c)), take n c,
           s\<lparr>s_inbox := (if drop n c = [] then cs else drop n c # cs)\<rparr>))"

record im_conn =
  m_busy :: bool
  m_in_buf :: simple_buffer
  m_out_buf :: simple_buffer
  m_recv_bytes :: u32
  m_last_send_tick :: u64
  m_last_recv_tick :: u64
  c_sock :: sock

abbreviation NETLIB_MAX_SOCKET_BUF_SIZE :: int where "NETLIB_MAX_SOCKET_BUF_SIZE \<equiv> 131072"
abbreviation READ_BUF_SIZE :: u32 where "READ_BUF_SIZE \<equiv> 2048"

definition CImConn :: "(nat \<Rightarrow> byte) \<Rightarrow> u64 \<Rightarrow> sock \<Rightarrow> im_conn" where
  "CImConn fresh now s =
     \<lparr>m_busy = False, m_in_buf = CSimpleBuffer fresh, m_out_buf = CSimpleBuffer fresh,
      m_recv_bytes = 0, m_last_send_tick = now, m_last_recv_tick = now, c_sock = s\<rparr>"

section \<open>Sending\<close>

definition cap_send :: "int \<Rightarrow> int" where
  "cap_send n = (if n > NETLIB_MAX_SOCKET_BUF_SIZE then NETLIB_MAX_SOCKET_BUF_SIZE else n)"

text \<open>The send loop: what is left of the data when it stops, and the socket.\<close>

function send_loop :: "bytes \<Rightarrow> sock \<Rightarrow> bytes \<times> sock" where
  "send_loop data s =
     (if data = [] then (data, s)
      else
        let send_size = cap_send (int (length data));
            (ret, s') = net_send (take (nat send_size) data) s
        in if ret \<le> 0 then (data, s') else send_loop (drop (nat ret) data) s')"
  by pat_completeness auto
termination
  by (relation "measure (\<lambda>(data, s). length data)") auto

declare send_loop.simps [simp del]

definition Send :: "u64 \<Rightarrow> bytes \<Rightarrow> im_conn \<Rightarrow> (int \<times> im_conn) res" where
  "Send now data c0 =
     (let c = c0\<lparr>m_last_send_tick := now\<rparr>; len = int (length data)
      in if m_busy c then
           bindR (Write (Some data) (of_nat (length data)) (m_out_buf c)) (\<lambda>(_, b).
             Inr (len, c\<lparr>m_out_buf := b\<rparr>))
         else
           let (remain, s) = send_loop data (c_sock c); c1 = c\<lparr>c_sock := s\<rparr>
           in if remain \<noteq> [] then
                bindR (Write (Some remain) (of_nat (length remain)) (m_out_buf c1)) (\<lambda>(_, b).
                  Inr (len, c1\<lparr>m_out_buf := b, m_busy := True\<rparr>))
              else Inr (len, c1))"

text \<open>
  \<open>send_size\<close> of \<open>OnWrite\<close> is a signed integer: a buffer of 2 GB or more makes it negative
  and \<open>send(2)\<close> refuses it.
\<close>

function flush_loop :: "simple_buffer \<Rightarrow> sock \<Rightarrow> (simple_buffer \<times> sock) res" where
  "flush_loop b s =
     (if m_write_offset b = 0 then Inr (b, s)
      else
        let send_size = cap_send (sint (m_write_offset b));
            (ret, s') = (if send_size < 0 then (-1, s)
                         else net_send (take (nat send_size) (m_buffer b)) s)
        in if ret \<le> 0 then Inr (b, s')
           else case Read False (of_int ret) b of
                  Inl e \<Rightarrow> Inl e
                | Inr (_, _, b') \<Rightarrow> flush_loop b' s')"
  by pat_completeness auto
termination
  by (relation "measure (\<lambda>(b, s). length (s_accept s))")
     (auto simp: net_send_def Let_def split: list.splits if_splits)

declare flush_loop.simps [simp del]

definition OnWrite :: "im_conn \<Rightarrow> im_conn res" where
  "OnWrite c =
     (if \<not> m_busy c then Inr c
      else bindR (flush_loop (m_out_buf c) (c_sock c)) (\<lambda>(b, s).
        let c1 = c\<lparr>m_out_buf := b, c_sock := s\<rparr>
        in Inr (if m_write_offset b = 0 then c1\<lparr>m_busy := False\<rparr> else c1)))"

definition conn_ok :: "im_conn \<Rightarrow> bool" where
  "conn_ok c \<longleftrightarrow> buffer_ok (m_in_buf c) \<and> buffer_ok (m_out_buf c)
     \<and> (m_busy c \<longleftrightarrow> content (m_out_buf c) \<noteq> [])"

text \<open>Everything accepted for sending, in order: on the wire or still pending.\<close>

definition sent_stream :: "im_conn \<Rightarrow> bytes" where
  "sent_stream c = s_wire (c_sock c) @ content (m_out_buf c)"

lemma net_send_pos:
  "net_send data s = (ret, s') \<Longrightarrow> ret > 0 \<Longrightarrow>
   nat ret \<le> length data \<and> s_wire s' = s_wire s @ take (nat ret) data"
  by (auto simp: net_send_def Let_def split: list.splits if_splits)

lemma net_send_refused: "net_send data s = (ret, s') \<Longrightarrow> ret \<le> 0 \<Longrightarrow> s_wire s' = s_wire s"
  by (auto simp: net_send_def Let_def split: list.splits if_splits)

lemma net_send_inbox: "net_send data s = (ret, s') \<Longrightarrow> s_inbox s' = s_inbox s"
  by (auto simp: net_send_def Let_def split: list.splits if_splits)

lemma send_loop_spec:
  "send_loop data s = (rest, s') \<Longrightarrow>
   \<exists>k. rest = drop k data \<and> s_wire s' = s_wire s @ take k data"
proof (induction data s rule: send_loop.induct)
  case (1 data s)
  obtain ret s1 where n: "net_send (take (nat (cap_send (int (length data)))) data) s = (ret, s1)"
    by fastforce
  show ?case
  proof (cases "data = [] \<or> ret \<le> 0")
    case True
    then show ?thesis using "1.prems" n net_send_refused [OF n]
      by (intro exI [of _ 0]) (auto simp: send_loop.simps [of data s] Let_def split: if_splits)
  next
    case False
    then have "send_loop (drop (nat ret) data) s1 = (rest, s')"
      using "1.prems" n by (simp add: send_loop.simps [of data s] Let_def)
    then obtain k where "rest = drop k (drop (nat ret) data)"
      "s_wire s' = s_wire s1 @ take k (drop (nat ret) data)"
      using "1.IH" False n by fastforce
    moreover have "s_wire s1 = s_wire s @ take (nat ret) data"
      using net_send_pos [OF n] False by (auto simp: min_def split: if_splits)
    ultimately show ?thesis using take_add [of "nat ret" k data]
      by (intro exI [of _ "nat ret + k"]) (simp add: add.commute [of k])
  qed
qed

lemma send_loop_inbox: "send_loop data s = (rest, s') \<Longrightarrow> s_inbox s' = s_inbox s"
proof (induction data s rule: send_loop.induct)
  case (1 data s)
  obtain ret s1 where n: "net_send (take (nat (cap_send (int (length data)))) data) s = (ret, s1)"
    by fastforce
  show ?case
    using "1.prems" "1.IH" [OF _ refl refl] n net_send_inbox [OF n]
    by (auto simp: send_loop.simps [of data s] Let_def split: if_splits)
qed

lemma put_out_buf:
  assumes "buffer_ok b" "growable (length (content b) + length xs)"
  obtains b' where "Write (Some xs) (of_nat (length xs)) b = Inr (of_nat (length xs), b')"
    "buffer_ok b'" "content b' = content b @ xs"
proof -
  have len: "unat (of_nat (length xs) :: u32) = length xs"
    using growable_lt [OF assms(2)] by (intro unat_of_nat_u32) simp
  have "write_fits (of_nat (length xs)) b"
    using assms by (simp add: write_fits_def length_content len)
  from Write_Some_spec [OF assms(1) this, of xs] that len show ?thesis by auto
qed

text \<open>One \<open>Send\<close> appends its data to the stream, whatever the socket accepts.\<close>

lemma Send_spec:
  assumes ok: "conn_ok c" and room: "growable (length (content (m_out_buf c)) + length data)"
  shows "\<exists>c'. Send now data c = Inr (int (length data), c') \<and> conn_ok c'
    \<and> sent_stream c' = sent_stream c @ data \<and> m_last_send_tick c' = now
    \<and> m_in_buf c' = m_in_buf c \<and> s_inbox (c_sock c') = s_inbox (c_sock c)"
proof (cases "m_busy c")
  case True
  obtain b where b: "Write (Some data) (of_nat (length data)) (m_out_buf c) = Inr (of_nat (length data), b)"
    "buffer_ok b" "content b = content (m_out_buf c) @ data"
    using put_out_buf [of "m_out_buf c" data] ok room by (auto simp: conn_ok_def)
  let ?c = "c\<lparr>m_last_send_tick := now, m_out_buf := b\<rparr>"
  have "Send now data c = Inr (int (length data), ?c)"
    using True b(1) by (simp add: Send_def)
  moreover have "conn_ok ?c" "sent_stream ?c = sent_stream c @ data"
    using ok True b by (auto simp: conn_ok_def sent_stream_def)
  ultimately show ?thesis by (intro exI [of _ ?c]) simp
next
  case False
  then have empty: "content (m_out_buf c) = []" using ok by (simp add: conn_ok_def)
  obtain rest s where l: "send_loop data (c_sock c) = (rest, s)" by fastforce
  then obtain k where k: "rest = drop k data" "s_wire s = s_wire (c_sock c) @ take k data"
    using send_loop_spec by blast
  have inbox: "s_inbox s = s_inbox (c_sock c)" using l by (rule send_loop_inbox)
  have gr: "growable (length (content (m_out_buf c)) + length rest)"
    using room k(1) by (auto elim: growable_mono)
  obtain b where b: "Write (Some rest) (of_nat (length rest)) (m_out_buf c) = Inr (of_nat (length rest), b)"
    "buffer_ok b" "content b = rest"
    using put_out_buf [OF _ gr] ok empty by (auto simp: conn_ok_def)
  let ?c = "if rest = [] then c\<lparr>m_last_send_tick := now, c_sock := s\<rparr>
    else c\<lparr>m_last_send_tick := now, c_sock := s, m_out_buf := b, m_busy := True\<rparr>"
  have "Send now data c = Inr (int (length data), ?c)"
    using False l b(1) by (simp add: Send_def)
  moreover have "conn_ok ?c" "sent_stream ?c = sent_stream c @ data"
    using ok False b k empty by (auto simp: conn_ok_def sent_stream_def)
  ultimately show ?thesis using inbox by (intro exI [of _ ?c]) simp
qed

lemma Read_front:
  assumes "buffer_ok b" "nat ret \<le> length (content b)" "ret \<ge> 0"
  obtains r b' where "Read False (of_int ret) b = Inr ([], r, b')" "buffer_ok b'"
    "content b' = drop (nat ret) (content b)"
proof -
  have "nat ret < 2 ^ 32"
    using assms(2) length_content [OF assms(1)] unat_lt_u32 [of "m_write_offset b"] by linarith
  moreover have "(of_int ret :: u32) = of_nat (nat ret)" using assms(3) by simp
  ultimately have "unat (of_int ret :: u32) = nat ret"
    using unat_of_nat_u32 [of "nat ret"] by simp
  with Read_spec [OF assms(1), of False "of_int ret"] that show ?thesis by auto
qed

lemma cap_send_le: "cap_send n \<le> n" "0 < n \<Longrightarrow> 0 < cap_send n"
  by (auto simp: cap_send_def)

lemma nat_sint_le_unat: "0 \<le> sint (w :: u32) \<Longrightarrow> nat (sint w) \<le> unat w"
  by (simp add: sint_uint signed_take_bit_int_eq_self_iff signed_take_bit_eq_if_positive
      not_le signed_take_bit_nonnegative_iff take_bit_int_less_eq_self_iff nat_le_iff)

lemma flush_loop_spec:
  "buffer_ok b \<Longrightarrow> \<exists>b' s'. flush_loop b s = Inr (b', s') \<and> buffer_ok b'
     \<and> s_wire s' @ content b' = s_wire s @ content b \<and> s_inbox s' = s_inbox s
     \<and> (\<exists>k. content b' = drop k (content b))"
proof (induction "length (s_accept s)" arbitrary: b s rule: less_induct)
  case less
  show ?case
  proof (cases "m_write_offset b = 0")
    case True
    then show ?thesis using less.prems
      by (auto simp: flush_loop.simps [of b s] intro: exI [of _ 0])
  next
    case False
    let ?n = "cap_send (sint (m_write_offset b))"
    obtain ret s1 where n: "(if ?n < 0 then (-1, s) else net_send (take (nat ?n) (m_buffer b)) s) = (ret, s1)"
      by fastforce
    show ?thesis
    proof (cases "ret \<le> 0")
      case True
      then have "flush_loop b s = Inr (b, s1)"
        using False n by (simp add: flush_loop.simps [of b s] Let_def)
      moreover have "s_wire s1 = s_wire s" "s_inbox s1 = s_inbox s"
        using n True by (auto split: if_splits dest: net_send_refused net_send_inbox)
      ultimately show ?thesis using less.prems by (auto intro: exI [of _ 0])
    next
      case pos: False
      then have n': "net_send (take (nat ?n) (m_buffer b)) s = (ret, s1)" "?n \<ge> 0"
        using n by (auto split: if_splits)
      have "nat ?n \<le> unat (m_write_offset b)"
        using cap_send_le(1) [of "sint (m_write_offset b)"] nat_sint_le_unat [of "m_write_offset b"]
          n'(2) by linarith
      then have tk: "take (nat ?n) (m_buffer b) = take (nat ?n) (content b)"
        by (simp add: content_def min_def)
      with net_send_pos [OF n'(1)] pos have
        r: "nat ret \<le> length (content b)" "s_wire s1 = s_wire s @ take (nat ret) (content b)"
        by (auto simp: min_def split: if_splits)
      obtain x b1 where b1: "Read False (of_int ret) b = Inr ([], x, b1)" "buffer_ok b1"
        "content b1 = drop (nat ret) (content b)"
        using Read_front [OF less.prems r(1)] pos by auto
      have eq: "flush_loop b s = flush_loop b1 s1"
        using False n pos b1(1) by (simp add: flush_loop.simps [of b s] Let_def)
      have "length (s_accept s1) < length (s_accept s)"
        using n'(1) pos by (auto simp: net_send_def Let_def split: list.splits if_splits)
      from less.hyps [OF this b1(2)] obtain b' s' where
        IH: "flush_loop b1 s1 = Inr (b', s')" "buffer_ok b'"
          "s_wire s' @ content b' = s_wire s1 @ content b1" "s_inbox s' = s_inbox s1"
          "\<exists>k. content b' = drop k (content b1)" by blast
      have "\<exists>k. content b' = drop k (content b)" using IH(5) b1(3) by auto
      with IH eq r(2) b1(3) net_send_inbox [OF n'(1)] show ?thesis by simp
    qed
  qed
qed

text \<open>\<open>OnWrite\<close> moves pending bytes to the wire and never touches the stream.\<close>

lemma OnWrite_spec:
  assumes ok: "conn_ok c"
  shows "\<exists>c'. OnWrite c = Inr c' \<and> conn_ok c' \<and> sent_stream c' = sent_stream c
    \<and> m_in_buf c' = m_in_buf c \<and> s_inbox (c_sock c') = s_inbox (c_sock c)
    \<and> length (content (m_out_buf c')) \<le> length (content (m_out_buf c))"
proof (cases "m_busy c")
  case False
  then show ?thesis using ok by (simp add: OnWrite_def)
next
  case True
  obtain b s k where f: "flush_loop (m_out_buf c) (c_sock c) = Inr (b, s)" "buffer_ok b"
    "s_wire s @ content b = s_wire (c_sock c) @ content (m_out_buf c)"
    "s_inbox s = s_inbox (c_sock c)" "content b = drop k (content (m_out_buf c))"
    using flush_loop_spec [of "m_out_buf c" "c_sock c"] ok by (auto simp: conn_ok_def)
  have z: "m_write_offset b = 0 \<longleftrightarrow> content b = []"
    using length_content [OF f(2)] by (metis length_0_conv unat_eq_0)
  show ?thesis using True f ok z
    by (auto simp: OnWrite_def Let_def conn_ok_def sent_stream_def)
qed

section \<open>Receiving\<close>

text \<open>
  The first loop of \<open>OnRead\<close> drains the socket into \<open>m_in_buf\<close>, at most \<open>READ_BUF_SIZE\<close>
  bytes at a time and directly at the write offset; \<open>now\<close> is the clock of the call.
\<close>

function recv_loop :: "u64 \<Rightarrow> im_conn \<Rightarrow> im_conn res" where
  "recv_loop now c =
     (let free_buf_len = m_alloc_size (m_in_buf c) - m_write_offset (m_in_buf c);
          b = (if free_buf_len < READ_BUF_SIZE then Extend READ_BUF_SIZE (m_in_buf c) else m_in_buf c);
          (ret, xs, s) = net_recv (unat READ_BUF_SIZE) (c_sock c);
          c1 = c\<lparr>m_in_buf := b, c_sock := s\<rparr>
      in if ret \<le> 0 then Inr c1
         else case memcpy_at (m_buffer b) (unat (m_write_offset b)) xs of
                Inl e \<Rightarrow> Inl e
              | Inr block \<Rightarrow>
                  recv_loop now (c1\<lparr>m_recv_bytes := m_recv_bytes c1 + of_int ret,
                    m_in_buf := IncWriteOffset (of_int ret) (b\<lparr>m_buffer := block\<rparr>),
                    m_last_recv_tick := now\<rparr>))"
  by pat_completeness auto
termination
  by (relation "measure (\<lambda>(now, c). length (concat (s_inbox (c_sock c))))")
     (auto simp: net_recv_def split: list.splits if_splits)

declare recv_loop.simps [simp del]

text \<open>
  The second loop cuts PDUs off the front of \<open>m_in_buf\<close>. A handler sees the parsed header
  and the bytes of its PDU, works on the connection and the server's state \<open>'s\<close>, and ends
  normally or with an exception; what it did before throwing stays. \<open>m_in_buf\<close> belongs to
  \<open>CImConn\<close> alone.
\<close>

type_synonym 's handler = "pdu_header \<Rightarrow> bytes \<Rightarrow> im_conn \<times> 's \<Rightarrow> (im_conn \<times> 's) \<times> err option"

lemma ReadPdu_length:
  assumes "ReadPdu fresh buf len = Inr (Some p)"
  shows "0 < GetLength p \<and> GetLength p \<le> len"
  using assms
  by (auto simp: ReadPdu_def IsPduAvailable_def result_simps GetLength_def Let_def Write_alt
      ReadPduHeader_def CImPdu_def CSimpleBuffer_def word_gt_0 not_less split: if_splits)

lemma Read_shrinks:
  assumes "Read copy n b = Inr (out, k, b')" "0 < n" "n \<le> m_write_offset b"
  shows "m_write_offset b' < m_write_offset b"
proof -
  have "m_write_offset b' = m_write_offset b - n"
    using assms by (auto simp: Read_def result_simps Let_def split: if_splits)
  then show ?thesis using assms(2,3) unat_sub_u32 [of n "m_write_offset b"]
    by (simp add: word_less_nat_alt word_le_nat_alt)
qed

function parse_loop :: "'s handler \<Rightarrow> (nat \<Rightarrow> byte) \<Rightarrow> im_conn \<times> 's \<Rightarrow> (im_conn \<times> 's) \<times> err option" where
  "parse_loop HandlePdu fresh (c, st) =
     (case ReadPdu fresh (m_buffer (m_in_buf c)) (m_write_offset (m_in_buf c)) of
        Inl e \<Rightarrow> ((c, st), Some e)
      | Inr None \<Rightarrow> ((c, st), None)
      | Inr (Some p) \<Rightarrow>
          let pdu_len = GetLength p;
              ((c1, st1), ex) = HandlePdu (m_pdu_header p) (image p) (c, st);
              c2 = c1\<lparr>m_in_buf := m_in_buf c\<rparr>
          in if ex \<noteq> None then ((c2, st1), ex)
             else case Read False pdu_len (m_in_buf c2) of
                    Inl e \<Rightarrow> ((c2, st1), Some e)
                  | Inr (_, _, b) \<Rightarrow> parse_loop HandlePdu fresh (c2\<lparr>m_in_buf := b\<rparr>, st1))"
  by pat_completeness auto
termination
proof (relation "measure (\<lambda>(h, f, c, st). unat (m_write_offset (m_in_buf c)))", goal_cases)
  case (2 h fresh c st o1 p n x cst ex c1 st1 c2 r o2 k b)
  then show ?case
    using ReadPdu_length [of fresh "m_buffer (m_in_buf c)" "m_write_offset (m_in_buf c)" p]
      Read_shrinks [of False "GetLength p" "m_in_buf c"]
    by (auto simp: word_less_nat_alt)
qed auto

declare parse_loop.simps [simp del]

definition OnRead :: "'s handler \<Rightarrow> (im_conn \<times> 's \<Rightarrow> im_conn \<times> 's) \<Rightarrow> (nat \<Rightarrow> byte) \<Rightarrow> u64 \<Rightarrow>
    im_conn \<times> 's \<Rightarrow> (im_conn \<times> 's) res" where
  "OnRead HandlePdu OnClose fresh now cs =
     bindR (recv_loop now (fst cs)) (\<lambda>c.
       case parse_loop HandlePdu fresh (c, snd cs) of
         (cs', None) \<Rightarrow> Inr cs'
       | (cs', Some e) \<Rightarrow> if thrown e then Inr (OnClose cs') else Inl e)"

section \<open>Framing\<close>

text \<open>
  The specification of framing: the PDUs a byte stream holds, the incomplete rest, and
  whether the stream broke at a PDU of length 0.
\<close>

function frames :: "bytes \<Rightarrow> (pdu_header \<times> bytes) list \<times> bytes \<times> bool" where
  "frames xs =
     (case read_outcome xs of
        NeedMore \<Rightarrow> ([], xs, False)
      | BadLength \<Rightarrow> ([], xs, True)
      | GotPdu n \<Rightarrow> let (fs, rest, bad) = frames (drop n xs) in ((parse_header xs, take n xs) # fs, rest, bad))"
  by pat_completeness auto
termination
  by (relation "measure length") (auto simp: read_outcome_def Let_def split: if_splits)

declare frames.simps [simp del]

lemma read_outcome_append:
  "read_outcome xs \<noteq> NeedMore \<Longrightarrow> read_outcome (xs @ ys) = read_outcome xs"
  by (auto simp: read_outcome_def Let_def split: if_splits)

lemma GotPdu_bounds: "read_outcome xs = GotPdu n \<Longrightarrow> 0 < n \<and> n \<le> length xs \<and> 16 \<le> length xs"
  by (auto simp: read_outcome_def Let_def split: if_splits)

lemma parse_header_append: "16 \<le> length xs \<Longrightarrow> parse_header (xs @ ys) = parse_header xs"
  using parse_header_take [of 16 "xs @ ys"] parse_header_take [of 16 xs] by simp

text \<open>Framing does not depend on how the stream is cut.\<close>

lemma frames_append:
  "frames (xs @ ys) =
     (let (fs, rest, bad) = frames xs
      in if bad then (fs, rest @ ys, True)
         else let (gs, rest', bad') = frames (rest @ ys) in (fs @ gs, rest', bad'))"
proof (induction xs rule: frames.induct)
  case (1 xs)
  show ?case
  proof (cases "read_outcome xs")
    case NeedMore
    then show ?thesis by (simp add: frames.simps [of xs] split_beta)
  next
    case BadLength
    then show ?thesis
      by (simp add: frames.simps [of xs] frames.simps [of "xs @ ys"] read_outcome_append)
  next
    case (GotPdu n)
    note b = GotPdu_bounds [OF GotPdu]
    have "frames (xs @ ys) =
      (let (fs, rest, bad) = frames (drop n xs @ ys) in ((parse_header xs, take n xs) # fs, rest, bad))"
      using GotPdu b
      by (simp add: frames.simps [of "xs @ ys"] read_outcome_append parse_header_append)
    then show ?thesis using "1.IH" [OF GotPdu] GotPdu
      by (simp add: frames.simps [of xs] split_beta Let_def)
  qed
qed

lemma frames_pdu_bytes:
  assumes "\<forall>w\<in>set ws. 16 + length (p_body w) < 2 ^ 32"
  shows "frames (concat (map pdu_bytes ws)) = (map (\<lambda>w. (parse_header (pdu_bytes w), pdu_bytes w)) ws, [], False)"
  using assms
proof (induction ws)
  case Nil
  then show ?case by (simp add: frames.simps [of "[]"] read_outcome_def)
next
  case (Cons w ws)
  then show ?case
    by (simp add: frames.simps [of "pdu_bytes w @ _"] read_outcome_pdu_bytes parse_header_append)
qed

text \<open>Nothing is lost: the frames and the rest are the stream.\<close>

lemma frames_concat: "frames xs = (fs, rest, bad) \<Longrightarrow> concat (map snd fs) @ rest = xs"
proof (induction xs arbitrary: fs rest bad rule: frames.induct)
  case (1 xs)
  show ?case
  proof (cases "read_outcome xs")
    case (GotPdu n)
    obtain gs r b where g: "frames (drop n xs) = (gs, r, b)" by (cases "frames (drop n xs)") auto
    then have "fs = (parse_header xs, take n xs) # gs" "rest = r"
      using "1.prems" GotPdu by (auto simp: frames.simps [of xs])
    then show ?thesis using "1.IH" [OF GotPdu g] by simp
  qed (use "1.prems" in \<open>auto simp: frames.simps [of xs]\<close>)
qed

text \<open>What is left has no complete PDU.\<close>

lemma frames_rest: "frames xs = (fs, rest, bad) \<Longrightarrow> frames rest = ([], rest, bad)"
proof (induction xs arbitrary: fs rule: frames.induct)
  case (1 xs)
  show ?case
  proof (cases "read_outcome xs")
    case (GotPdu n)
    obtain gs r b where g: "frames (drop n xs) = (gs, r, b)" by (cases "frames (drop n xs)") auto
    then have "rest = r" "bad = b" using "1.prems" GotPdu by (auto simp: frames.simps [of xs])
    then show ?thesis using "1.IH" [OF GotPdu] g by simp
  next
    case NeedMore
    then show ?thesis using "1.prems" by (auto simp: frames.simps)
  next
    case BadLength
    then show ?thesis using "1.prems" by (auto simp: frames.simps)
  qed
qed

section \<open>What one \<open>OnRead\<close> does\<close>

definition arrived :: "bytes list \<Rightarrow> bytes" where
  "arrived segs = concat (takeWhile (\<lambda>seg. seg \<noteq> []) segs)"

lemma arrived_simps [simp]: "arrived [] = []" "arrived ([] # segs) = []"
    "seg \<noteq> [] \<Longrightarrow> arrived (seg # segs) = seg @ arrived segs"
  by (simp_all add: arrived_def)

text \<open>The connection as seen by everything but the receiving half.\<close>

definition send_half :: "im_conn \<Rightarrow> bool \<times> simple_buffer \<times> u64 \<times> bytes" where
  "send_half c = (m_busy c, m_out_buf c, m_last_send_tick c, s_wire (c_sock c))"

lemma net_recv_arrived:
  assumes "net_recv n s = (ret, xs, s')" "0 < n"
  shows "if 0 < ret then ret = int (length xs) \<and> xs \<noteq> [] \<and> length xs \<le> n
           \<and> arrived (s_inbox s) = xs @ arrived (s_inbox s') \<and> s_wire s' = s_wire s
         else arrived (s_inbox s) = [] \<and> s_wire s' = s_wire s"
  using assms
  by (auto simp: net_recv_def arrived_def split: list.splits if_splits)

lemma IncWriteOffset_copy:
  assumes ok: "buffer_ok b" and room: "unat (m_write_offset b) + length xs \<le> unat (m_alloc_size b)"
  obtains block where "memcpy_at (m_buffer b) (unat (m_write_offset b)) xs = Inr block"
    "buffer_ok (IncWriteOffset (of_nat (length xs)) (b\<lparr>m_buffer := block\<rparr>))"
    "content (IncWriteOffset (of_nat (length xs)) (b\<lparr>m_buffer := block\<rparr>)) = content b @ xs"
proof -
  let ?o = "unat (m_write_offset b)"
  let ?block = "take ?o (m_buffer b) @ xs @ drop (?o + length xs) (m_buffer b)"
  have lt: "?o + length xs < 2 ^ 32" using room unat_lt_u32 [of "m_alloc_size b"] by simp
  then have "unat (m_write_offset b + of_nat (length xs)) = ?o + length xs"
    using unat_add_u32 [of "m_write_offset b" "of_nat (length xs)"] unat_of_nat_u32 [of "length xs"] by simp
  then show ?thesis using that [of ?block] ok room
    by (simp add: buffer_ok_def IncWriteOffset_def content_def)
qed

lemma make_room:
  assumes ok: "buffer_ok b" and gr: "growable (length (content b) + unat READ_BUF_SIZE)"
  defines "b' \<equiv> (if m_alloc_size b - m_write_offset b < READ_BUF_SIZE then Extend READ_BUF_SIZE b else b)"
  shows "buffer_ok b' \<and> content b' = content b \<and> m_write_offset b' = m_write_offset b
    \<and> unat (m_write_offset b') + 2048 \<le> unat (m_alloc_size b')"
proof (cases "m_alloc_size b - m_write_offset b < READ_BUF_SIZE")
  case True
  then show ?thesis
    using ok gr Extend_size [of b READ_BUF_SIZE]
    by (simp add: b'_def buffer_ok_Extend content_Extend length_content)
next
  case False
  have "unat (m_alloc_size b - m_write_offset b) = unat (m_alloc_size b) - unat (m_write_offset b)"
    using ok by (intro unat_sub_u32) (simp add: buffer_ok_def)
  then show ?thesis using False ok by (simp add: b'_def word_less_nat_alt buffer_ok_def)
qed

lemma recv_loop_spec:
  assumes "buffer_ok (m_in_buf c)"
    "growable (length (content (m_in_buf c)) + length (arrived (s_inbox (c_sock c))) + 2048)"
  shows "\<exists>c'. recv_loop now c = Inr c' \<and> buffer_ok (m_in_buf c')
    \<and> content (m_in_buf c') = content (m_in_buf c) @ arrived (s_inbox (c_sock c))
    \<and> send_half c' = send_half c"
  using assms
proof (induction "length (concat (s_inbox (c_sock c)))" arbitrary: c rule: less_induct)
  case less
  define b where "b = (if m_alloc_size (m_in_buf c) - m_write_offset (m_in_buf c) < READ_BUF_SIZE
    then Extend READ_BUF_SIZE (m_in_buf c) else m_in_buf c)"
  obtain ret xs s where n: "net_recv 2048 (c_sock c) = (ret, xs, s)" by (cases "net_recv 2048 (c_sock c)")
  note a = net_recv_arrived [OF n]
  have "growable (length (content (m_in_buf c)) + unat READ_BUF_SIZE)"
    using less.prems(2) by (rule growable_mono) simp
  note b = make_room [OF less.prems(1) this, folded b_def]
  show ?case
  proof (cases "ret \<le> 0")
    case True
    then have "recv_loop now c = Inr (c\<lparr>m_in_buf := b, c_sock := s\<rparr>)"
      by (simp add: recv_loop.simps [of now c] n Let_def flip: b_def)
    then show ?thesis using b a True by (simp add: send_half_def)
  next
    case False
    with a have x: "ret = int (length xs)" "length xs \<le> 2048" "s_wire s = s_wire (c_sock c)"
      "arrived (s_inbox (c_sock c)) = xs @ arrived (s_inbox s)" by auto
    have room: "unat (m_write_offset b) + length xs \<le> unat (m_alloc_size b)" using b x(2) by linarith
    obtain block where k: "memcpy_at (m_buffer b) (unat (m_write_offset b)) xs = Inr block"
      "buffer_ok (IncWriteOffset (of_nat (length xs)) (b\<lparr>m_buffer := block\<rparr>))"
      "content (IncWriteOffset (of_nat (length xs)) (b\<lparr>m_buffer := block\<rparr>)) = content (m_in_buf c) @ xs"
      using IncWriteOffset_copy [OF _ room] b by metis
    let ?c = "c\<lparr>c_sock := s, m_recv_bytes := m_recv_bytes c + of_int ret,
      m_in_buf := IncWriteOffset (of_int ret) (b\<lparr>m_buffer := block\<rparr>), m_last_recv_tick := now\<rparr>"
    have eq: "recv_loop now c = recv_loop now ?c"
      using False k(1) by (simp add: recv_loop.simps [of now c] n Let_def flip: b_def)
    have "length (concat (s_inbox s)) < length (concat (s_inbox (c_sock c)))"
      using n False by (auto simp: net_recv_def split: list.splits if_splits)
    with less.hyps [of ?c] k x less.prems(2) have
      "\<exists>c'. recv_loop now ?c = Inr c' \<and> buffer_ok (m_in_buf c')
      \<and> content (m_in_buf c') = content (m_in_buf ?c) @ arrived (s_inbox (c_sock ?c))
      \<and> send_half c' = send_half ?c" by (simp add: add.assoc)
    then show ?thesis using eq k(3) x by (simp add: send_half_def)
  qed
qed

text \<open>Handling a list of PDUs one after the other, until one throws.\<close>

fun run_frames :: "'s handler \<Rightarrow> (pdu_header \<times> bytes) list \<Rightarrow> im_conn \<times> 's \<Rightarrow> (im_conn \<times> 's) \<times> err option" where
  "run_frames h [] cs = (cs, None)"
| "run_frames h ((hdr, img) # fs) cs =
     (case h hdr img cs of (cs', None) \<Rightarrow> run_frames h fs cs' | (cs', Some e) \<Rightarrow> (cs', Some e))"

lemma run_frames_append:
  "run_frames h (fs @ gs) cs =
     (case run_frames h fs cs of (cs', None) \<Rightarrow> run_frames h gs cs' | (cs', Some e) \<Rightarrow> (cs', Some e))"
  by (induction h fs cs rule: run_frames.induct) (auto split: prod.splits option.splits)

definition set_in_buf :: "simple_buffer \<Rightarrow> (im_conn \<times> 's) \<times> err option \<Rightarrow> (im_conn \<times> 's) \<times> err option" where
  "set_in_buf b r = ((fst (fst r)\<lparr>m_in_buf := b\<rparr>, snd (fst r)), snd r)"

text \<open>
  The contract of a handler: it does its work without looking at the connection's input
  buffer. Under it, one \<open>OnRead\<close> is the abstract run over the frames of the stream.
\<close>

locale pdu_handler =
  fixes HandlePdu :: "'s handler"
  assumes ignores_in_buf:
    "HandlePdu hdr img (c\<lparr>m_in_buf := b\<rparr>, st) = set_in_buf b (HandlePdu hdr img (c, st))"
begin

lemma run_frames_in_buf:
  "run_frames HandlePdu fs (c\<lparr>m_in_buf := b\<rparr>, st) = set_in_buf b (run_frames HandlePdu fs (c, st))"
proof (induction fs arbitrary: c st)
  case Nil
  then show ?case by (simp add: set_in_buf_def)
next
  case (Cons f fs)
  obtain hdr img where f: "f = (hdr, img)" by (cases f)
  obtain c' st' e where "HandlePdu hdr img (c, st) = ((c', st'), e)" by (metis surj_pair)
  then show ?case using Cons.IH ignores_in_buf [where hdr = hdr and img = img and c = c and b = b and st = st]
    by (cases e) (simp_all add: f set_in_buf_def)
qed

lemma parse_loop_frames:
  assumes "buffer_ok (m_in_buf c)" "growable (length (content (m_in_buf c)))"
    and "frames (content (m_in_buf c)) = (fs, rest, bad)"
    and "run_frames HandlePdu fs (c, st) = ((c', st'), ex)"
  shows "\<exists>b. buffer_ok b \<and> (ex = None \<longrightarrow> content b = rest)
    \<and> parse_loop HandlePdu fresh (c, st) = ((c'\<lparr>m_in_buf := b\<rparr>, st'),
        if ex = None \<and> bad then Some (PduException 0 0 1 ''pdu_len is 0'') else ex)"
  using assms
proof (induction "length (content (m_in_buf c))" arbitrary: c st fs c' rule: less_induct)
  case less
  let ?b = "m_in_buf c" and ?xs = "content (m_in_buf c)"
  have len: "unat (m_write_offset ?b) \<le> length (m_buffer ?b)" "growable (unat (m_write_offset ?b))"
    using less.prems(1,2) by (auto simp: buffer_ok_def length_content)
  note R = ReadPdu_spec [OF len, of fresh, folded content_def]
  note defs = parse_loop.simps [of HandlePdu fresh c st] frames.simps [of ?xs]
  show ?case
  proof (cases "read_outcome ?xs")
    case NeedMore
    then show ?thesis using R less.prems by (intro exI [of _ ?b]) (auto simp: parse_loop.simps frames.simps [of ?xs])
  next
    case BadLength
    then show ?thesis using R less.prems by (intro exI [of _ ?b]) (auto simp: parse_loop.simps frames.simps [of ?xs])
  next
    case (GotPdu n)
    note bnd = GotPdu_bounds [OF GotPdu]
    obtain p where p: "ReadPdu fresh (m_buffer ?b) (m_write_offset ?b) = Inr (Some p)" "pdu_ok p"
      "image p = take n ?xs" "m_pdu_header p = parse_header ?xs"
      using R GotPdu bnd length_content [OF less.prems(1)]
      by (auto simp: content_def parse_header_take min_def split: if_splits)
    obtain gs where g: "frames (drop n ?xs) = (gs, rest, bad)" "fs = (parse_header ?xs, take n ?xs) # gs"
      using less.prems(3) GotPdu by (auto simp: frames.simps [of ?xs] split: prod.splits)
    obtain c1 st1 ex1 where h: "HandlePdu (parse_header ?xs) (take n ?xs) (c, st) = ((c1, st1), ex1)"
      by (metis surj_pair)
    have pl: "unat (GetLength p) = n" using GetLength_image [OF p(2)] p(3) bnd by simp
    obtain k b1 where b1: "Read False (GetLength p) ?b = Inr ([], k, b1)" "buffer_ok b1"
      "content b1 = drop n ?xs"
      using Read_spec [OF less.prems(1), of False "GetLength p"] pl by auto
    show ?thesis
    proof (cases ex1)
      case (Some e)
      then show ?thesis using less.prems(1,4) g(2) h p
        by (intro exI [of _ ?b]) (auto simp: defs)
    next
      case None
      let ?c = "c1\<lparr>m_in_buf := b1\<rparr>"
      have run: "run_frames HandlePdu gs (?c, st1) = ((c'\<lparr>m_in_buf := b1\<rparr>, st'), ex)"
        using run_frames_in_buf [where fs = gs and c = c1 and b = b1 and st = st1] less.prems(4) g(2) h None by (simp add: set_in_buf_def)
      have "parse_loop HandlePdu fresh (c, st) = parse_loop HandlePdu fresh (?c, st1)"
        using p h None b1(1) by (simp add: parse_loop.simps [of HandlePdu fresh c st])
      moreover have "growable (length (content b1))"
        using less.prems(2) b1(3) by (auto elim: growable_mono)
      moreover have "length (content (m_in_buf ?c)) < length ?xs"
        using bnd by (simp add: b1(3)) linarith
      ultimately show ?thesis using less.hyps [OF _ _ _ _ run] b1 g(1) by simp
    qed
  qed
qed

text \<open>\<open>OnRead\<close>: everything the socket holds is read, framed and handled.\<close>

lemma OnRead_frames:
  assumes ok: "buffer_ok (m_in_buf c)"
    and room: "growable (length (content (m_in_buf c)) + length (arrived (s_inbox (c_sock c))) + 2048)"
    and fr: "frames (content (m_in_buf c) @ arrived (s_inbox (c_sock c))) = (fs, rest, bad)"
  shows "\<exists>c0 b. send_half c0 = send_half c \<and> buffer_ok b \<and>
    (let ((c', st'), ex) = run_frames HandlePdu fs (c0, st)
     in OnRead HandlePdu OnClose fresh now (c, st) =
          (if ex \<noteq> None \<and> \<not> thrown (the ex) then Inl (the ex)
           else if ex = None \<and> \<not> bad then Inr (c'\<lparr>m_in_buf := b\<rparr>, st')
           else Inr (OnClose (c'\<lparr>m_in_buf := b\<rparr>, st')))
        \<and> (ex = None \<longrightarrow> content b = rest))"
proof -
  obtain c0 where c0: "recv_loop now c = Inr c0" "buffer_ok (m_in_buf c0)" "send_half c0 = send_half c"
    "content (m_in_buf c0) = content (m_in_buf c) @ arrived (s_inbox (c_sock c))"
    using recv_loop_spec [OF ok room] by blast
  obtain c' st' ex where run: "run_frames HandlePdu fs (c0, st) = ((c', st'), ex)" by (metis surj_pair)
  have "growable (length (content (m_in_buf c0)))"
    using room by (rule growable_mono) (simp add: c0(4))
  from parse_loop_frames [OF c0(2) this _ run] fr c0(4) obtain b where
    b: "buffer_ok b" "ex = None \<longrightarrow> content b = rest"
      "parse_loop HandlePdu fresh (c0, st) = ((c'\<lparr>m_in_buf := b\<rparr>, st'),
        if ex = None \<and> bad then Some (PduException 0 0 1 ''pdu_len is 0'') else ex)" by auto
  show ?thesis
    using b c0 run by (intro exI [of _ c0] exI [of _ b])
      (auto simp: OnRead_def split: option.splits)
qed

end

end
