(* ===== verification/ImLink.thy ===== *)
theory ImLink
  imports ImConn
begin

text \<open>
  Two connections back to back: what a peer's \<open>OnRead\<close> calls deliver of what a sender's
  \<open>Send\<close> and \<open>OnWrite\<close> calls put on the wire, for every pattern of short writes on one
  side and every segmentation on the other.
\<close>

datatype send_event = EvSend bytes | EvWritable

fun run_sender :: "u64 \<Rightarrow> send_event list \<Rightarrow> im_conn \<Rightarrow> im_conn res" where
  "run_sender now [] c = Inr c"
| "run_sender now (EvSend data # es) c = bindR (Send now data c) (\<lambda>(_, c'). run_sender now es c')"
| "run_sender now (EvWritable # es) c = bindR (OnWrite c) (run_sender now es)"

fun sent_data :: "send_event list \<Rightarrow> bytes list" where
  "sent_data [] = []"
| "sent_data (EvSend data # es) = data # sent_data es"
| "sent_data (EvWritable # es) = sent_data es"

lemma run_sender_stream:
  assumes "conn_ok c" "growable (length (sent_stream c) + length (concat (sent_data es)))"
  shows "\<exists>c'. run_sender now es c = Inr c' \<and> conn_ok c'
    \<and> sent_stream c' = sent_stream c @ concat (sent_data es)"
  using assms
proof (induction now es c rule: run_sender.induct)
  case (2 now data es c)
  have "growable (length (content (m_out_buf c)) + length data)"
    using "2.prems"(2) by (rule growable_mono) (simp add: sent_stream_def)
  then obtain c1 where c1: "Send now data c = Inr (int (length data), c1)" "conn_ok c1"
    "sent_stream c1 = sent_stream c @ data" using Send_spec [OF "2.prems"(1)] by blast
  show ?case using "2.IH" [of c1] c1 "2.prems"(2) by (simp add: add.assoc)
next
  case (3 now es c)
  obtain c1 where "OnWrite c = Inr c1" "conn_ok c1" "sent_stream c1 = sent_stream c"
    using OnWrite_spec [OF "3.prems"(1)] by blast
  then show ?case using "3.IH" [of c1] "3.prems"(2) by simp
qed simp

text \<open>
  The receiving side: the socket holds the segments that have arrived since the last
  \<open>OnRead\<close>. The handler \<open>deliver\<close> hands every PDU to a function on the server's state.
\<close>

definition deliver :: "(pdu_header \<Rightarrow> bytes \<Rightarrow> 's \<Rightarrow> 's) \<Rightarrow> 's handler" where
  "deliver f hdr img cs = ((fst cs, f hdr img (snd cs)), None)"

definition feed :: "bytes list \<Rightarrow> im_conn \<Rightarrow> im_conn" where
  "feed segs c = c\<lparr>c_sock := (c_sock c)\<lparr>s_inbox := segs\<rparr>\<rparr>"

fun run_receiver :: "'s handler \<Rightarrow> (im_conn \<times> 's \<Rightarrow> im_conn \<times> 's) \<Rightarrow> (nat \<Rightarrow> byte) \<Rightarrow> u64 \<Rightarrow>
    bytes list list \<Rightarrow> im_conn \<times> 's \<Rightarrow> (im_conn \<times> 's) res" where
  "run_receiver h oc fresh now [] cs = Inr cs"
| "run_receiver h oc fresh now (segs # bs) cs =
     bindR (OnRead h oc fresh now (feed segs (fst cs), snd cs)) (run_receiver h oc fresh now bs)"

interpretation delivery: pdu_handler "deliver f" for f :: "pdu_header \<Rightarrow> bytes \<Rightarrow> 's \<Rightarrow> 's"
  by unfold_locales (simp add: deliver_def set_in_buf_def)

lemma run_frames_deliver:
  "run_frames (deliver f) fs (c, st) = ((c, fold (\<lambda>(hdr, img). f hdr img) fs st), None)"
  by (induction fs arbitrary: st) (auto simp: deliver_def)

lemma arrived_segments: "[] \<notin> set segs \<Longrightarrow> arrived segs = concat segs"
  by (induction segs) auto

lemma OnRead_deliver:
  assumes "buffer_ok (m_in_buf c)" "[] \<notin> set segs"
    "growable (length (content (m_in_buf c)) + length (concat segs) + 2048)"
    "frames (content (m_in_buf c) @ concat segs) = (fs, rest, False)"
  shows "\<exists>c'. OnRead (deliver f) oc fresh now (feed segs c, st) =
      Inr (c', fold (\<lambda>(hdr, img). f hdr img) fs st)
    \<and> buffer_ok (m_in_buf c') \<and> content (m_in_buf c') = rest"
  using delivery.OnRead_frames [of "feed segs c" fs rest False f st oc fresh now] assms
  by (auto simp: feed_def arrived_segments run_frames_deliver)

lemma run_receiver_frames:
  assumes "buffer_ok (m_in_buf c)" "\<forall>segs\<in>set bs. [] \<notin> set segs"
    "growable (length (content (m_in_buf c)) + length (concat (concat bs)) + 2048)"
    "frames (content (m_in_buf c)) = ([], content (m_in_buf c), False)"
    "frames (content (m_in_buf c) @ concat (concat bs)) = (fs, rest, False)"
  shows "\<exists>c'. run_receiver (deliver f) oc fresh now bs (c, st) =
      Inr (c', fold (\<lambda>(hdr, img). f hdr img) fs st)
    \<and> buffer_ok (m_in_buf c') \<and> content (m_in_buf c') = rest"
  using assms
proof (induction bs arbitrary: c st fs)
  case Nil
  then show ?case by simp
next
  case (Cons segs bs)
  let ?xs = "content (m_in_buf c) @ concat segs"
  obtain f1 r1 b1 where f1: "frames ?xs = (f1, r1, b1)" by (metis surj_pair)
  with Cons.prems(5) frames_append [of ?xs "concat (concat bs)"] obtain f2 where
    f2: "b1 = False" "frames (r1 @ concat (concat bs)) = (f2, rest, False)" "fs = f1 @ f2"
    by (auto simp: split_beta prod_eq_iff split: if_splits)
  have r1: "frames r1 = ([], r1, False)"
    using frames_rest [OF f1] f2(1) by simp
  have "length r1 \<le> length ?xs" using frames_concat [OF f1] by (metis length_append le_add2)
  then have len: "length r1 + length (concat (concat bs)) + 2048
      \<le> length (content (m_in_buf c)) + length (concat (concat (segs # bs))) + 2048" by simp
  have g1: "growable (length (content (m_in_buf c)) + length (concat segs) + 2048)"
    using Cons.prems(3) by (rule growable_mono) simp
  obtain c1 where c1: "OnRead (deliver f) oc fresh now (feed segs c, st) =
      Inr (c1, fold (\<lambda>(hdr, img). f hdr img) f1 st)" "buffer_ok (m_in_buf c1)" "content (m_in_buf c1) = r1"
    using OnRead_deliver [OF Cons.prems(1) _ g1] f1 f2(1) Cons.prems(2) by fastforce
  show ?case
    using Cons.IH [OF c1(2), of f2] Cons.prems(2) growable_mono [OF Cons.prems(3) len] c1 r1 f2
    by simp
qed

section \<open>Building and sending a message\<close>

text \<open>
  \<open>SendMessageLite\<close> (\<open>base/im_conn_util.cpp\<close>): the three overloads. \<open>message\<close> is the
  serialised protocol buffer.
\<close>

definition SendPdu :: "u64 \<Rightarrow> im_pdu \<Rightarrow> im_conn \<Rightarrow> (int \<times> im_conn) res" where
  "SendPdu now p c = bindR (slice (GetBuffer p) 0 (unat (GetLength p))) (\<lambda>data. Send now data c)"

definition build_pdu :: "(nat \<Rightarrow> byte) \<Rightarrow> u16 \<Rightarrow> u16 \<Rightarrow> bytes \<Rightarrow> im_pdu res" where
  "build_pdu fresh sid cid message =
     bindR (SetPBMsg message (CImPdu fresh)) (\<lambda>p.
     bindR (SetServiceId sid p) (\<lambda>p. SetCommandId cid p))"

definition SendMessageLite :: "(nat \<Rightarrow> byte) \<Rightarrow> u64 \<Rightarrow> u16 \<Rightarrow> u16 \<Rightarrow> bytes \<Rightarrow> im_conn \<Rightarrow> (int \<times> im_conn) res" where
  "SendMessageLite fresh now sid cid message conn =
     bindR (build_pdu fresh sid cid message) (\<lambda>p. SendPdu now p conn)"

definition SendMessageLite_seq :: "(nat \<Rightarrow> byte) \<Rightarrow> u64 \<Rightarrow> u16 \<Rightarrow> u16 \<Rightarrow> u16 \<Rightarrow> bytes \<Rightarrow> im_conn \<Rightarrow>
    (int \<times> im_conn) res" where
  "SendMessageLite_seq fresh now sid cid seq_num message conn =
     bindR (build_pdu fresh sid cid message) (\<lambda>p.
     bindR (SetSeqNum seq_num p) (\<lambda>p. SendPdu now p conn))"

definition SendMessageLite_err :: "(nat \<Rightarrow> byte) \<Rightarrow> u64 \<Rightarrow> u16 \<Rightarrow> u16 \<Rightarrow> u16 \<Rightarrow> u16 \<Rightarrow> bytes \<Rightarrow> im_conn \<Rightarrow>
    (int \<times> im_conn) res" where
  "SendMessageLite_err fresh now sid cid seq_num error message conn =
     bindR (build_pdu fresh sid cid message) (\<lambda>p.
     bindR (SetSeqNum seq_num p) (\<lambda>p.
     bindR (SetError error p) (\<lambda>p. SendPdu now p conn)))"

text \<open>A PDU with the default header of \<open>CImPdu::CImPdu\<close>.\<close>

definition plain_pdu :: "u16 \<Rightarrow> u16 \<Rightarrow> u16 \<Rightarrow> bytes \<Rightarrow> pdu" where
  "plain_pdu sid cid seq body = \<lparr>p_version = 1, p_flag = 0, p_service_id = sid, p_command_id = cid,
     p_seq_num = seq, p_reversed = 0, p_body = body\<rparr>"

text \<open>An object that holds the image of a PDU, and the effect of one setter on it.\<close>

definition holds :: "im_pdu \<Rightarrow> pdu \<Rightarrow> bool" where
  "holds p w \<longleftrightarrow> pdu_ok p \<and> image p = pdu_bytes w"

lemma set_holds:
  assumes "holds p w" "off + 2 \<le> 16"
    "take off (pdu_bytes w) @ enc16 v @ drop (off + 2) (pdu_bytes w) = pdu_bytes w'"
  shows "\<exists>p'. on_buffer (\<lambda>buf. WriteUint16 buf off v) p = Inr p' \<and> holds p' w'"
  using on_buffer_field [of p off v] assms by (auto simp: holds_def)

lemma setters_hold:
  assumes "holds p w"
  shows "\<exists>p'. SetServiceId v p = Inr p' \<and> holds p' (w\<lparr>p_service_id := v\<rparr>)"
    and "\<exists>p'. SetCommandId v p = Inr p' \<and> holds p' (w\<lparr>p_command_id := v\<rparr>)"
    and "\<exists>p'. SetSeqNum v p = Inr p' \<and> holds p' (w\<lparr>p_seq_num := v\<rparr>)"
    and "\<exists>p'. SetError v p = Inr p' \<and> holds p' (w\<lparr>p_seq_num := v\<rparr>)"
    and "\<exists>p'. SetVersion v p = Inr p' \<and> holds p' (w\<lparr>p_version := v\<rparr>)"
    and "\<exists>p'. SetFlag v p = Inr p' \<and> holds p' (w\<lparr>p_flag := v\<rparr>)"
  using set_holds [OF assms, of 8 v] set_holds [OF assms, of 10 v] set_holds [OF assms, of 12 v]
    set_holds [OF assms, of 4 v] set_holds [OF assms, of 6 v]
  by (simp_all add: SetServiceId_def SetCommandId_def SetSeqNum_def SetError_def SetVersion_def
      SetFlag_def set_field_image)

lemma build_pdu_holds:
  assumes "growable (16 + length message)"
  shows "\<exists>p. build_pdu fresh sid cid message = Inr p \<and> holds p (plain_pdu sid cid 0 message)"
proof -
  have "pdu_ok (CImPdu fresh)" by (simp add: pdu_ok_def CImPdu_def)
  from SetPBMsg_spec [OF this assms] obtain p where p: "SetPBMsg message (CImPdu fresh) = Inr p"
    "holds p (plain_pdu SID_OTHER 0 0 message)"
    by (auto simp: holds_def plain_pdu_def pdu_of_def CImPdu_def)
  from setters_hold(1) [OF p(2), of sid] obtain p1 where p1: "SetServiceId sid p = Inr p1"
    "holds p1 (plain_pdu sid 0 0 message)" by (auto simp: plain_pdu_def)
  from setters_hold(2) [OF p1(2), of cid] p p1 show ?thesis
    by (auto simp: build_pdu_def plain_pdu_def)
qed

lemma SendPdu_holds: "holds p w \<Longrightarrow> SendPdu now p c = Send now (pdu_bytes w) c"
  by (auto simp: SendPdu_def holds_def pdu_ok_def GetBuffer_def GetLength_def buffer_ok_def content_def)

text \<open>
  The wire image of the three overloads. In the third the error code takes the place of
  the sequence number: \<open>SetError\<close> and \<open>SetSeqNum\<close> write the same field.
\<close>

lemma SendMessageLite_wire:
  assumes "growable (16 + length message)"
  shows "SendMessageLite fresh now sid cid message c = Send now (pdu_bytes (plain_pdu sid cid 0 message)) c"
    and "SendMessageLite_seq fresh now sid cid seq message c =
      Send now (pdu_bytes (plain_pdu sid cid seq message)) c"
    and "SendMessageLite_err fresh now sid cid seq error message c =
      Send now (pdu_bytes (plain_pdu sid cid error message)) c"
proof -
  obtain p where p: "build_pdu fresh sid cid message = Inr p" "holds p (plain_pdu sid cid 0 message)"
    using build_pdu_holds [OF assms] by blast
  obtain q where q: "SetSeqNum seq p = Inr q" "holds q (plain_pdu sid cid seq message)"
    using setters_hold(3) [OF p(2), of seq] by (auto simp: plain_pdu_def)
  obtain r where r: "SetError error q = Inr r" "holds r (plain_pdu sid cid error message)"
    using setters_hold(4) [OF q(2), of error] by (auto simp: plain_pdu_def)
  show "SendMessageLite fresh now sid cid message c = Send now (pdu_bytes (plain_pdu sid cid 0 message)) c"
    "SendMessageLite_seq fresh now sid cid seq message c =
      Send now (pdu_bytes (plain_pdu sid cid seq message)) c"
    "SendMessageLite_err fresh now sid cid seq error message c =
      Send now (pdu_bytes (plain_pdu sid cid error message)) c"
    using p q r by (simp_all add: SendMessageLite_def SendMessageLite_seq_def SendMessageLite_err_def
        SendPdu_holds)
qed

text \<open>
  a PDU built with \<open>SetPBMsg\<close>, \<open>SetServiceId\<close>, \<open>SetCommandId\<close> and \<open>SetSeqNum\<close> is read back by \<open>ReadPdu\<close>
  from any block that starts with its bytes: the header has the fields that were set, the length and the
  defaults of the constructor, and the object holds exactly the bytes of the PDU, the message after the header.
\<close>

theorem pdu_build_read_roundtrip:
  assumes "growable (16 + length message + length rest)"
  shows "\<exists>p p1 q. build_pdu fresh sid cid message = Inr p \<and> SetSeqNum seq p = Inr p1
    \<and> ReadPdu fresh (image p1 @ rest) (of_nat (length (image p1 @ rest))) = Inr (Some q)
    \<and> drop 16 (image q) = message \<and> image q = image p1
    \<and> m_pdu_header q = \<lparr>h_length = of_nat (16 + length message), h_version = 1, h_flag = 0, h_service_id = sid,
        h_command_id = cid, h_seq_num = seq, h_reversed = 0\<rparr>"
proof -
  have small: "growable (16 + length message)" using assms by (rule growable_mono) simp
  obtain p p1 where p: "build_pdu fresh sid cid message = Inr p" "SetSeqNum seq p = Inr p1"
    "holds p1 (plain_pdu sid cid seq message)"
    using build_pdu_holds [OF small, of fresh sid cid] setters_hold(3) [of _ "plain_pdu sid cid 0 message" seq]
    by (fastforce simp: plain_pdu_def)
  let ?w = "plain_pdu sid cid seq message" and ?img = "image p1 @ rest"
  have w: "image p1 = pdu_bytes ?w" "p_body ?w = message" using p(3) by (simp_all add: holds_def plain_pdu_def)
  then have len: "length ?img = 16 + length message + length rest" by simp
  have u: "unat (of_nat (length ?img) :: u32) = length ?img"
    using growable_lt [OF assms] len by (intro unat_of_nat_u32) simp
  have "read_outcome ?img = GotPdu (16 + length message)"
    using read_outcome_pdu_bytes [of ?w rest] growable_lt [OF small] w by simp
  with ReadPdu_spec [of "of_nat (length ?img)" ?img fresh] obtain q where
    "ReadPdu fresh ?img (of_nat (length ?img)) = Inr (Some q)" "image q = take (16 + length message) ?img"
    "m_pdu_header q = parse_header ?img"
    using assms u len by auto
  then show ?thesis using p(1,2) w parse_header_pdu_bytes [of ?w rest]
    by (intro exI [of _ p] exI [of _ p1] exI [of _ q]) (simp add: plain_pdu_def pdu_layout)
qed

theorem pdu_build_read_roundtrip_witness:
  "\<exists>p p1 q. build_pdu (\<lambda>_. 0) 3 769 [9, 8, 7] = Inr p \<and> SetSeqNum 5 p = Inr p1
    \<and> ReadPdu (\<lambda>_. 0) (image p1 @ [1]) (of_nat (length (image p1 @ [1]))) = Inr (Some q)
    \<and> drop 16 (image q) = [9, 8, 7] \<and> h_seq_num (m_pdu_header q) = 5"
  using pdu_build_read_roundtrip [of "[9, 8, 7]" "[1]" "\<lambda>_. 0" 3 769 5] by (force simp: growable_def)

text \<open>
  the overload of \<open>SendMessageLite\<close> that takes a sequence number and an error code sends what the overload without
  error code sends when the error code is given as sequence number: the sequence number is lost, because
  \<open>SetError\<close> and \<open>SetSeqNum\<close> write the same two bytes of the header.
\<close>

theorem error_overwrites_seq:
  assumes "growable (16 + length message)"
  shows "SendMessageLite_err fresh now sid cid seq error message c = SendMessageLite_seq fresh now sid cid error message c"
  using SendMessageLite_wire [OF assms] by simp

theorem error_overwrites_seq_witness:
  "SendMessageLite_err (\<lambda>_. 0) 0 1 257 42 3 [1] (CImConn (\<lambda>_. 0) 0 \<lparr>s_accept = [100], s_wire = [], s_inbox = []\<rparr>)
    = SendMessageLite_seq (\<lambda>_. 0) 0 1 257 3 [1] (CImConn (\<lambda>_. 0) 0 \<lparr>s_accept = [100], s_wire = [], s_inbox = []\<rparr>)"
  by (rule error_overwrites_seq) (simp add: growable_def)

section \<open>End to end\<close>

lemma concat_prefix_frames:
  assumes "\<forall>w\<in>set ws. 16 + length (p_body w) < 2 ^ 32"
    "prefix xs (concat (map pdu_bytes ws))"
  shows "\<exists>n rest. frames xs = (map (\<lambda>w. (parse_header (pdu_bytes w), pdu_bytes w)) (take n ws), rest, False)
    \<and> (xs = concat (map pdu_bytes ws) \<longrightarrow> n \<ge> length ws)"
proof -
  obtain ys where ys: "concat (map pdu_bytes ws) = xs @ ys" using assms(2) by (auto simp: prefix_def)
  obtain fs rest bad where f: "frames xs = (fs, rest, bad)" by (metis surj_pair)
  note all = frames_pdu_bytes [OF assms(1)] frames_append [of xs ys]
  have "bad = False" using all f ys by (auto split: prod.splits if_splits)
  moreover obtain gs where gs: "fs @ gs = map (\<lambda>w. (parse_header (pdu_bytes w), pdu_bytes w)) ws"
    using all f ys \<open>bad = False\<close> by (auto split: prod.splits)
  have "take (length fs) (fs @ gs) = fs" by simp
  then have "fs = map (\<lambda>w. (parse_header (pdu_bytes w), pdu_bytes w)) (take (length fs) ws)"
    by (simp only: gs take_map)
  moreover have "xs = concat (map pdu_bytes ws) \<Longrightarrow> length fs \<ge> length ws"
    using f frames_pdu_bytes [OF assms(1)] by auto
  ultimately show ?thesis using f by (intro exI [of _ "length fs"] exI [of _ rest]) simp
qed

text \<open>Reading any prefix of a stream of PDUs, cut in any way.\<close>

lemma receive_prefix:
  fixes f :: "pdu_header \<Rightarrow> bytes \<Rightarrow> 's \<Rightarrow> 's"
  assumes room: "growable (length (concat (map pdu_bytes ws)) + 2048)"
    and segs: "\<forall>segs\<in>set bs. [] \<notin> set segs" and pre: "prefix (concat (concat bs)) (concat (map pdu_bytes ws))"
  shows "\<exists>n rcv. run_receiver (deliver f) oc fresh now bs (CImConn fresh tick s', st) =
      Inr (rcv, fold (\<lambda>w. f (parse_header (pdu_bytes w)) (pdu_bytes w)) (take n ws) st)
    \<and> (concat (concat bs) = concat (map pdu_bytes ws) \<longrightarrow> n \<ge> length ws)"
proof -
  have "16 + length (p_body w) < 2 ^ 32" if "w \<in> set ws" for w
  proof -
    have "length (pdu_bytes w) \<le> length (concat (map pdu_bytes ws))"
      using that by (simp add: length_concat member_le_sum_list comp_def)
    then show ?thesis using growable_lt [OF room] by simp
  qed
  then obtain n rest where n:
    "frames (concat (concat bs)) = (map (\<lambda>w. (parse_header (pdu_bytes w), pdu_bytes w)) (take n ws), rest, False)"
    "concat (concat bs) = concat (map pdu_bytes ws) \<longrightarrow> n \<ge> length ws"
    using concat_prefix_frames [OF _ pre] by blast
  have "growable (length (concat (concat bs)) + 2048)"
    using room by (rule growable_mono) (use prefix_length_le [OF pre] in simp)
  then obtain rcv where "run_receiver (deliver f) oc fresh now bs (CImConn fresh tick s', st) =
      Inr (rcv, fold (\<lambda>w. f (parse_header (pdu_bytes w)) (pdu_bytes w)) (take n ws) st)"
    using run_receiver_frames [of "CImConn fresh tick s'" bs _ rest f oc fresh now st] segs n(1)
    by (auto simp: CImConn_def frames.simps [of "[]"] read_outcome_def fold_map comp_def)
  then show ?thesis using n(2) by auto
qed

text \<open>
  C1: Transport correctness, end to end. A connection sends the PDUs \<open>ws\<close> with \<open>Send\<close>, interleaved with
  \<open>OnWrite\<close> events, over a socket that may take any part of each write; the peer reads any prefix of
  what reached the wire, cut into segments and read events in any way. Then neither side
  faults, the peer hands to its handler exactly a prefix of the PDUs sent, in order and unchanged,
  and all of them when everything has been transmitted and read.
\<close>

theorem pdus_delivered_in_order:
  fixes f :: "pdu_header \<Rightarrow> bytes \<Rightarrow> 's \<Rightarrow> 's"
  assumes send: "sent_data es = map pdu_bytes ws" "s_wire s = []"
    and room: "growable (length (concat (map pdu_bytes ws)) + 2048)"
  shows "\<exists>snd_conn. run_sender now es (CImConn fresh tick s) = Inr snd_conn \<and>
    (\<forall>bs oc st s'. (\<forall>segs\<in>set bs. [] \<notin> set segs) \<and> prefix (concat (concat bs)) (s_wire (c_sock snd_conn)) \<longrightarrow>
      (\<exists>n rcv. run_receiver (deliver f) oc fresh now bs (CImConn fresh tick s', st) =
          Inr (rcv, fold (\<lambda>w. f (parse_header (pdu_bytes w)) (pdu_bytes w)) (take n ws) st)
        \<and> (concat (concat bs) = concat (map pdu_bytes ws) \<longrightarrow> n \<ge> length ws)))"
proof -
  have ok: "conn_ok (CImConn fresh tick s)" "sent_stream (CImConn fresh tick s) = []"
    using send(2) by (simp_all add: conn_ok_def sent_stream_def CImConn_def)
  have "growable (length (concat (sent_data es)))"
    using room by (rule growable_mono) (simp add: send(1))
  then obtain snd_conn where sender: "run_sender now es (CImConn fresh tick s) = Inr snd_conn"
    and str: "sent_stream snd_conn = concat (map pdu_bytes ws)"
    using run_sender_stream [OF ok(1), of es now] ok(2) send(1) by auto
  then have wire: "prefix (s_wire (c_sock snd_conn)) (concat (map pdu_bytes ws))"
    by (metis prefixI sent_stream_def)
  have "\<exists>n rcv. run_receiver (deliver f) oc fresh now bs (CImConn fresh tick s', st) =
      Inr (rcv, fold (\<lambda>w. f (parse_header (pdu_bytes w)) (pdu_bytes w)) (take n ws) st)
    \<and> (concat (concat bs) = concat (map pdu_bytes ws) \<longrightarrow> n \<ge> length ws)"
    if segs: "\<forall>segs\<in>set bs. [] \<notin> set segs" "prefix (concat (concat bs)) (s_wire (c_sock snd_conn))" for bs oc st s'
    using segs(1) prefix_order.trans [OF segs(2) wire] by (rule receive_prefix [OF room])
  then show ?thesis using sender by blast
qed

text \<open>A PDU of 18 bytes, of which the first write takes 5; the peer reads it in segments of 3 and 15 bytes.\<close>

theorem pdus_delivered_in_order_witness:
  "\<exists>rcv. run_receiver (deliver (\<lambda>hdr img st. st @ [(h_command_id hdr, drop 16 img)])) (\<lambda>cs. cs) (\<lambda>_. 0) 9
      [[take 3 (pdu_bytes (plain_pdu 1 257 0 [7, 8]))], [drop 3 (pdu_bytes (plain_pdu 1 257 0 [7, 8]))]]
      (CImConn (\<lambda>_. 0) 0 \<lparr>s_accept = [], s_wire = [], s_inbox = []\<rparr>, []) = Inr (rcv, [(257, [7, 8])])"
proof -
  let ?w = "plain_pdu 1 257 0 [7, 8]"
  let ?es = "[EvSend (pdu_bytes ?w), EvWritable]"
  let ?s = "\<lparr>s_accept = [5, 0, 100], s_wire = [], s_inbox = []\<rparr>"
  let ?bs = "[[take 3 (pdu_bytes ?w)], [drop 3 (pdu_bytes ?w)]]"
  let ?f = "\<lambda>hdr img st. st @ [(h_command_id hdr, drop 16 img)]"
  have wire: "map_sum id (\<lambda>c. s_wire (c_sock c)) (run_sender 9 ?es (CImConn (\<lambda>_. 0) 0 ?s)) = Inr (pdu_bytes ?w)"
    by code_simp
  obtain snd_conn where snd: "run_sender 9 ?es (CImConn (\<lambda>_. 0) 0 ?s) = Inr snd_conn"
    "\<forall>bs oc st s'. (\<forall>segs\<in>set bs. [] \<notin> set segs) \<and> prefix (concat (concat bs)) (s_wire (c_sock snd_conn)) \<longrightarrow>
      (\<exists>n rcv. run_receiver (deliver ?f) oc (\<lambda>_. 0) 9 bs (CImConn (\<lambda>_. 0) 0 s', st) =
          Inr (rcv, fold (\<lambda>w. ?f (parse_header (pdu_bytes w)) (pdu_bytes w)) (take n [?w]) st)
        \<and> (concat (concat bs) = concat (map pdu_bytes [?w]) \<longrightarrow> n \<ge> length [?w]))"
    using pdus_delivered_in_order [of ?es "[?w]" ?s 9 "\<lambda>_. 0" 0 ?f] by (auto simp: growable_def plain_pdu_def)
  have "(\<forall>segs\<in>set ?bs. [] \<notin> set segs) \<and> prefix (concat (concat ?bs)) (s_wire (c_sock snd_conn))"
    using wire snd(1) by (auto dest: arg_cong [of _ _ length])
  then obtain n rcv where n: "run_receiver (deliver ?f) (\<lambda>cs. cs) (\<lambda>_. 0) 9 ?bs
      (CImConn (\<lambda>_. 0) 0 \<lparr>s_accept = [], s_wire = [], s_inbox = []\<rparr>, []) =
      Inr (rcv, fold (\<lambda>w. ?f (parse_header (pdu_bytes w)) (pdu_bytes w)) (take n [?w]) [])"
    "n \<ge> 1" using snd(2) [rule_format, of ?bs "\<lambda>cs. cs" _ "[]"] by fastforce
  have "take n [?w] = [?w]" using n(2) by (simp add: take_Cons')
  moreover have "fold (\<lambda>w. ?f (parse_header (pdu_bytes w)) (pdu_bytes w)) [?w] [] = [(257, [7, 8])]" by code_simp
  ultimately show ?thesis using n(1) by (intro exI [of _ rcv]) (simp only:)
qed

end
