(* ===== verification/ServerBase.thy ===== *)
theory ServerBase
  imports ImLink
begin

text \<open>
  What the servers share: reference-counted objects (\<open>CRefObject\<close> in \<open>base/util.cpp\<close>) in a
  heap of addresses, the dispatch of socket events to connection objects
  (\<open>imconn_callback\<close>), the protocol's identifiers, and protocol buffers as parameters.
  A server's calls into the network library are recorded in a trace, which is what its
  peers observe.
\<close>

section \<open>Reference counting\<close>

text \<open>The lock of an object is absent in the single-threaded servers; the flag says whether it is held.\<close>

record ref_object =
  m_refCount :: int
  m_lock :: "bool option"

definition CRefObject :: ref_object where
  "CRefObject = \<lparr>m_refCount = 1, m_lock = None\<rparr>"

definition SetLock :: "ref_object \<Rightarrow> ref_object" where
  "SetLock r = r\<lparr>m_lock := Some False\<rparr>"

definition AddRef :: "ref_object \<Rightarrow> ref_object" where
  "AddRef r =
     (case m_lock r of
        Some _ \<Rightarrow> r\<lparr>m_refCount := m_refCount r + 1, m_lock := Some False\<rparr>
      | None \<Rightarrow> r\<lparr>m_refCount := m_refCount r + 1\<rparr>)"

text \<open>The first component says whether the object is deleted. The early return leaves the lock held.\<close>

definition ReleaseRef :: "ref_object \<Rightarrow> bool \<times> ref_object" where
  "ReleaseRef r =
     (case m_lock r of
        Some _ \<Rightarrow>
          (let r1 = r\<lparr>m_lock := Some True, m_refCount := m_refCount r - 1\<rparr>
           in if m_refCount r1 = 0 then (True, r1) else (False, r1\<lparr>m_lock := Some False\<rparr>))
      | None \<Rightarrow>
          (let r1 = r\<lparr>m_refCount := m_refCount r - 1\<rparr>
           in if m_refCount r1 = 0 then (True, r1) else (False, r1)))"

section \<open>Heaps of counted objects\<close>

text \<open>
  Addresses are natural numbers and are not reused, so that an access through a pointer to
  a deleted object is an error of the model as it is undefined behaviour of the program.
\<close>

record 'o heap =
  hp_objs :: "(nat, ref_object \<times> 'o) assoc"
  hp_next :: nat

definition empty_heap :: "'o heap" where
  "empty_heap = \<lparr>hp_objs = [], hp_next = 0\<rparr>"

definition new_obj :: "'o \<Rightarrow> 'o heap \<Rightarrow> nat \<times> 'o heap" where
  "new_obj x h = (hp_next h, \<lparr>hp_objs = (hp_next h, (CRefObject, x)) # hp_objs h, hp_next = hp_next h + 1\<rparr>)"

definition live :: "nat \<Rightarrow> 'o heap \<Rightarrow> bool" where
  "live a h \<longleftrightarrow> map_of (hp_objs h) a \<noteq> None"

definition deref :: "nat \<Rightarrow> 'o heap \<Rightarrow> 'o res" where
  "deref a h = (case map_of (hp_objs h) a of None \<Rightarrow> Inl MemFault | Some ro \<Rightarrow> Inr (snd ro))"

definition set_obj :: "nat \<Rightarrow> 'o \<Rightarrow> 'o heap \<Rightarrow> 'o heap" where
  "set_obj a x h =
     (case map_of (hp_objs h) a of
        None \<Rightarrow> h
      | Some ro \<Rightarrow> h\<lparr>hp_objs := hm_assign a (fst ro, x) (hp_objs h)\<rparr>)"

definition add_ref :: "nat \<Rightarrow> 'o heap \<Rightarrow> 'o heap res" where
  "add_ref a h =
     (case map_of (hp_objs h) a of
        None \<Rightarrow> Inl MemFault
      | Some ro \<Rightarrow> Inr (h\<lparr>hp_objs := hm_assign a (AddRef (fst ro), snd ro) (hp_objs h)\<rparr>))"

definition release_ref :: "nat \<Rightarrow> 'o heap \<Rightarrow> 'o heap res" where
  "release_ref a h =
     (case map_of (hp_objs h) a of
        None \<Rightarrow> Inl MemFault
      | Some ro \<Rightarrow>
          let (dead, r) = ReleaseRef (fst ro)
          in Inr (h\<lparr>hp_objs := (if dead then map_erase a (hp_objs h)
                                else hm_assign a (r, snd ro) (hp_objs h))\<rparr>))"

text \<open>\<open>delete\<close> of an object that is not counted.\<close>

definition delete_obj :: "nat \<Rightarrow> 'o heap \<Rightarrow> 'o heap res" where
  "delete_obj a h =
     (if live a h then Inr (h\<lparr>hp_objs := map_erase a (hp_objs h)\<rparr>) else Inl MemFault)"

definition refs :: "nat \<Rightarrow> 'o heap \<Rightarrow> int" where
  "refs a h = (case map_of (hp_objs h) a of None \<Rightarrow> 0 | Some ro \<Rightarrow> m_refCount (fst ro))"

definition heap_ok :: "'o heap \<Rightarrow> bool" where
  "heap_ok h \<longleftrightarrow> hm_ok (hp_objs h)
     \<and> (\<forall>p\<in>set (hp_objs h). fst p < hp_next h \<and> 0 < m_refCount (fst (snd p)) \<and> m_lock (fst (snd p)) = None)"

lemma heap_okD:
  assumes "heap_ok h" "map_of (hp_objs h) a = Some (r, x)"
  shows "a < hp_next h" "0 < m_refCount r" "m_lock r = None"
  using assms by (auto simp: heap_ok_def dest!: map_of_SomeD)

lemma heap_ok_empty [simp]: "heap_ok empty_heap"
  by (simp add: heap_ok_def empty_heap_def hm_ok_def)

lemma heap_ok_new:
  assumes "heap_ok h"
  shows "heap_ok (snd (new_obj x h))" "deref (hp_next h) (snd (new_obj x h)) = Inr x"
    "refs (hp_next h) (snd (new_obj x h)) = 1"
  using assms by (auto simp: heap_ok_def new_obj_def hm_ok_def CRefObject_def deref_def refs_def)

lemma deref_new_other:
  "a \<noteq> hp_next h \<Longrightarrow> deref a (snd (new_obj x h)) = deref a h"
  "a \<noteq> hp_next h \<Longrightarrow> refs a (snd (new_obj x h)) = refs a h"
  by (simp_all add: deref_def new_obj_def refs_def)

lemma deref_fresh: "heap_ok h \<Longrightarrow> deref a h = Inr x \<Longrightarrow> a < hp_next h"
  by (auto simp: deref_def dest: heap_okD split: option.splits prod.splits)

lemma heap_ok_assign:
  assumes "heap_ok h" "a < hp_next h" "0 < m_refCount r" "m_lock r = None"
  shows "heap_ok (h\<lparr>hp_objs := hm_assign a (r, x) (hp_objs h)\<rparr>)"
  using assms by (auto simp: heap_ok_def hm.ok_assign hm.set_assign)

lemma heap_ok_erase: "heap_ok h \<Longrightarrow> heap_ok (h\<lparr>hp_objs := map_erase a (hp_objs h)\<rparr>)"
  by (auto simp: heap_ok_def hm.ok_erase hm.set_erase)

lemma heap_ok_set_obj:
  assumes "heap_ok h"
  shows "heap_ok (set_obj a x h)"
  using assms heap_okD [OF assms]
  by (auto simp: set_obj_def split: option.splits intro!: heap_ok_assign)

lemma deref_set_obj:
  "deref b (set_obj a x h) = (if b = a \<and> live a h then Inr x else deref b h)"
  by (auto simp: deref_def set_obj_def live_def map_of_hm_assign split: option.splits)

lemma refs_set_obj [simp]: "refs b (set_obj a x h) = refs b h"
  by (auto simp: refs_def set_obj_def map_of_hm_assign split: option.splits)

lemma hp_next_set_obj [simp]: "hp_next (set_obj a x h) = hp_next h"
  by (simp add: set_obj_def split: option.splits)

lemma deref_live: "deref a h = Inr x \<Longrightarrow> live a h"
  by (auto simp: deref_def live_def split: option.splits)

lemma live_deref: "live a h \<Longrightarrow> \<exists>x. deref a h = Inr x"
  by (auto simp: deref_def live_def)

lemma add_ref_spec:
  assumes "heap_ok h" "live a h"
  shows "\<exists>h'. add_ref a h = Inr h' \<and> heap_ok h' \<and> (\<forall>b. deref b h' = deref b h)
    \<and> (\<forall>b. refs b h' = refs b h + (if b = a then 1 else 0)) \<and> hp_next h' = hp_next h"
proof -
  obtain r x where m: "map_of (hp_objs h) a = Some (r, x)" using assms(2) by (auto simp: live_def)
  note r = heap_okD [OF assms(1) m]
  let ?h = "h\<lparr>hp_objs := hm_assign a (AddRef r, x) (hp_objs h)\<rparr>"
  have "heap_ok ?h"
    using assms(1) r by (intro heap_ok_assign) (simp_all add: AddRef_def)
  moreover have "add_ref a h = Inr ?h" using m by (simp add: add_ref_def)
  ultimately show ?thesis using m r
    by (intro exI [of _ ?h]) (simp add: deref_def refs_def map_of_hm_assign AddRef_def)
qed

text \<open>Releasing the last reference deletes the object, releasing another one keeps it.\<close>

lemma release_ref_spec:
  assumes "heap_ok h" "live a h"
  shows "\<exists>h'. release_ref a h = Inr h' \<and> heap_ok h'
    \<and> (\<forall>b. deref b h' = (if b = a \<and> refs a h = 1 then Inl MemFault else deref b h))
    \<and> (\<forall>b. refs b h' = refs b h - (if b = a then 1 else 0)) \<and> hp_next h' = hp_next h"
proof -
  obtain r x where m: "map_of (hp_objs h) a = Some (r, x)" using assms(2) by (auto simp: live_def)
  note r = heap_okD [OF assms(1) m]
  let ?r = "r\<lparr>m_refCount := m_refCount r - 1\<rparr>"
  let ?h = "h\<lparr>hp_objs := (if m_refCount r = 1 then map_erase a (hp_objs h)
    else hm_assign a (?r, x) (hp_objs h))\<rparr>"
  have "release_ref a h = Inr ?h" using m r by (simp add: release_ref_def ReleaseRef_def)
  moreover have "heap_ok ?h"
    using assms(1) r heap_ok_erase [OF assms(1)] heap_ok_assign [OF assms(1), of a ?r x] by simp
  ultimately show ?thesis using m r
    by (intro exI [of _ ?h]) (simp add: deref_def refs_def map_of_hm_assign map_of_map_erase)
qed

lemma delete_obj_spec:
  assumes "heap_ok h" "live a h"
  shows "\<exists>h'. delete_obj a h = Inr h' \<and> heap_ok h' \<and> (\<forall>b. deref b h' = (if b = a then Inl MemFault else deref b h))
    \<and> hp_next h' = hp_next h"
  using assms heap_ok_erase [OF assms(1)] by (simp add: delete_obj_def deref_def map_of_map_erase)

section \<open>Dispatch of socket events\<close>

datatype netlib_msg = NETLIB_MSG_CONFIRM | NETLIB_MSG_READ | NETLIB_MSG_WRITE | NETLIB_MSG_CLOSE | NETLIB_MSG_OTHER

type_synonym conn_map = "(u32, nat) assoc"

text \<open>
  \<open>imconn_callback\<close>: the object of the handle is found in the map that the callback data
  points to and held by a reference while its method runs. \<open>on\<close> is the method of the event
  and works on the server's state \<open>'s\<close>; \<open>AddRef\<close> and \<open>ReleaseRef\<close> of the object are
  passed as \<open>add\<close> and \<open>release\<close>.
\<close>

definition FindImConn :: "(nat \<Rightarrow> 's \<Rightarrow> 's res) \<Rightarrow> conn_map \<Rightarrow> u32 \<Rightarrow> 's \<Rightarrow> (nat option \<times> 's) res" where
  "FindImConn add imconn_map handle st =
     (case map_of imconn_map handle of
        None \<Rightarrow> Inr (None, st)
      | Some a \<Rightarrow> bindR (add a st) (\<lambda>st'. Inr (Some a, st')))"

definition imconn_callback :: "(nat \<Rightarrow> 's \<Rightarrow> 's res) \<Rightarrow> (nat \<Rightarrow> 's \<Rightarrow> 's res) \<Rightarrow>
    (netlib_msg \<Rightarrow> nat \<Rightarrow> 's \<Rightarrow> 's res) \<Rightarrow> conn_map option \<Rightarrow> netlib_msg \<Rightarrow> u32 \<Rightarrow> 's \<Rightarrow> 's res" where
  "imconn_callback add release on callback_data msg handle st =
     (case callback_data of
        None \<Rightarrow> Inr st
      | Some conn_map \<Rightarrow>
          bindR (FindImConn add conn_map handle st) (\<lambda>(pConn, st1).
            case pConn of
              None \<Rightarrow> Inr st1
            | Some a \<Rightarrow>
                bindR (if msg = NETLIB_MSG_OTHER then Inr st1 else on msg a st1) (release a)))"

text \<open>
  What the dispatch needs of a server: its invariant \<open>inv k\<close>, where \<open>k a\<close> counts the
  references that running callbacks hold to object \<open>a\<close>, is kept by taking and releasing
  such a reference; \<open>same\<close> relates the states before and after taking one. Under it, a
  callback keeps the invariant when the method it calls does.
\<close>

abbreviation idle :: "nat \<Rightarrow> int" where
  "idle \<equiv> (\<lambda>_. 0)"

abbreviation held :: "nat \<Rightarrow> nat \<Rightarrow> int" where
  "held a \<equiv> idle(a := 1)"

locale conn_server =
  fixes inv :: "(nat \<Rightarrow> int) \<Rightarrow> 's \<Rightarrow> bool"
    and heap_of :: "'s \<Rightarrow> 'o heap"
    and add :: "nat \<Rightarrow> 's \<Rightarrow> err + 's"
    and release :: "nat \<Rightarrow> 's \<Rightarrow> err + 's"
    and same :: "'s \<Rightarrow> 's \<Rightarrow> bool"
  assumes hold: "inv idle st \<Longrightarrow> live a (heap_of st) \<Longrightarrow>
      \<exists>st'. add a st = Inr st' \<and> inv (held a) st' \<and> same st st'"
    and drop_hold: "inv (held a) st \<Longrightarrow> live a (heap_of st) \<Longrightarrow> \<exists>st'. release a st = Inr st' \<and> inv idle st'"
begin

lemma callback_inv:
  assumes inv: "inv idle st" and msg: "msg \<noteq> NETLIB_MSG_OTHER"
    and live: "\<And>m a. data = Some m \<Longrightarrow> map_of m h = Some a \<Longrightarrow> live a (heap_of st)"
    and run: "\<And>m a st1. data = Some m \<Longrightarrow> map_of m h = Some a \<Longrightarrow> inv (held a) st1 \<Longrightarrow> same st st1 \<Longrightarrow>
      \<exists>st2. on msg a st1 = Inr st2 \<and> inv (held a) st2 \<and> live a (heap_of st2)"
  shows "\<exists>st'. imconn_callback add release on data msg h st = Inr st' \<and> inv idle st'"
proof (cases data)
  case None
  then show ?thesis using inv by (simp add: imconn_callback_def)
next
  case (Some m)
  show ?thesis
  proof (cases "map_of m h")
    case None
    then show ?thesis using Some inv by (simp add: imconn_callback_def FindImConn_def)
  next
    case a: (Some a)
    obtain st1 where s1: "add a st = Inr st1" "inv (held a) st1" "same st st1"
      using hold [OF inv live [OF Some a]] by blast
    obtain st2 where s2: "on msg a st1 = Inr st2" "inv (held a) st2" "live a (heap_of st2)"
      using run [OF Some a s1(2,3)] by blast
    obtain st3 where "release a st2 = Inr st3" "inv idle st3" using drop_hold [OF s2(2,3)] by blast
    then show ?thesis using Some a s1(1) s2(1) msg by (simp add: imconn_callback_def FindImConn_def)
  qed
qed

end

section \<open>Network output\<close>

abbreviation NETLIB_INVALID_HANDLE :: u32 where "NETLIB_INVALID_HANDLE \<equiv> - 1"

datatype net_out = NetSend u32 bytes | NetClose u32

text \<open>The bytes of a PDU that a server builds with \<open>SetPBMsg\<close> and the setters.\<close>

abbreviation wire_pdu :: "u16 \<Rightarrow> u16 \<Rightarrow> u16 \<Rightarrow> bytes \<Rightarrow> bytes" where
  "wire_pdu sid cid seq body \<equiv> pdu_bytes (plain_pdu sid cid seq body)"

section \<open>Protocol\<close>

text \<open>
  The body of a received PDU as \<open>ParseFromArray\<close> gets it. A PDU shorter than its header has
  a body length that wrapped around: parsing reads outside the PDU.
\<close>

definition body_of :: "bytes \<Rightarrow> bytes res" where
  "body_of img = (if length img < 16 then Inl MemFault else Inr (drop 16 img))"

text \<open>
  A protocol buffer message type, compiled by \<open>protoc\<close> and not part of the sources: how a
  message is serialised, and what \<open>ParseFromArray\<close> returns and leaves in the message.
\<close>

record 'm pb =
  pb_ser :: "'m \<Rightarrow> bytes"
  pb_par :: "bytes \<Rightarrow> bool \<times> 'm"

text \<open>The documented law of protocol buffers: a serialised message parses to itself.\<close>

definition pb_roundtrips :: "'m pb \<Rightarrow> bool" where
  "pb_roundtrips p \<longleftrightarrow> (\<forall>m. pb_par p (pb_ser p m) = (True, m))"


text \<open>Parsing with \<open>CHECK_PB_PARSE_MSG\<close>: a body that does not parse ends the handler.\<close>

definition parsed :: "'m pb \<Rightarrow> bytes \<Rightarrow> ('m \<Rightarrow> 's res) \<Rightarrow> 's \<Rightarrow> 's res" where
  "parsed p img f st =
     bindR (body_of img) (\<lambda>body. case pb_par p body of (ok, m) \<Rightarrow> if ok then f m else Inr st)"

lemma parsed_keeps:
  assumes "16 \<le> length img" "P st" "\<And>m. pb_par p (drop 16 img) = (True, m) \<Longrightarrow> \<exists>st'. f m = Inr st' \<and> P st'"
  shows "\<exists>st'. parsed p img f st = Inr st' \<and> P st'"
  using assms by (cases "pb_par p (drop 16 img)") (auto simp: parsed_def body_of_def)

lemma parsed_accepts: "16 \<le> length img \<Longrightarrow> pb_par p (drop 16 img) = (True, m) \<Longrightarrow> parsed p img f st = f m"
  by (simp add: parsed_def body_of_def)

end
