(* ===== verification/LoginServer.thy ===== *)
theory LoginServer
  imports ServerBase
begin

text \<open>
  The login server (\<open>login_server/LoginConn.cpp\<close>, \<open>login_server/login_server.cpp\<close>): message
  servers report their load here, clients ask for the least loaded one. The state holds
  the file's globals, the heap of \<open>CLoginConn\<close> objects, the callback data that the network
  library keeps per socket, and the trace of network calls.
\<close>

datatype conn_type = LOGIN_CONN_TYPE_CLIENT | LOGIN_CONN_TYPE_MSG_SERV

record msg_serv_info_t =
  ip_addr1 :: string
  ip_addr2 :: string
  port :: u16
  max_conn_cnt :: u32
  cur_conn_cnt :: u32
  hostname :: string

record login_conn =
  lc_handle :: u32
  lc_conn_type :: conn_type
  lc_last_send_tick :: u64
  lc_last_recv_tick :: u64

record login_server =
  g_client_conn_map :: conn_map
  g_msg_serv_conn_map :: conn_map
  g_total_online_user_cnt :: u32
  g_msg_serv_info :: "(u32, msg_serv_info_t) assoc"
  ls_heap :: "login_conn heap"
  ls_callback :: "(u32, conn_type) assoc"
  ls_trace :: "net_out list"

definition login_init :: login_server where
  "login_init = \<lparr>g_client_conn_map = [], g_msg_serv_conn_map = [], g_total_online_user_cnt = 0,
     g_msg_serv_info = [], ls_heap = empty_heap, ls_callback = [], ls_trace = []\<rparr>"

section \<open>Messages\<close>

record IMMsgServInfo =
  ip1 :: string
  ip2 :: string
  si_port :: u32
  si_max_conn_cnt :: u32
  si_cur_conn_cnt :: u32
  host_name :: string

record IMUserCntUpdate =
  user_action :: u32
  uc_user_id :: u32

record IMMsgServRsp =
  result_code :: u32
  prior_ip :: "string option"
  backip_ip :: "string option"
  rsp_port :: "u32 option"

record login_codec =
  pb_MsgServInfo :: "IMMsgServInfo pb"
  pb_UserCntUpdate :: "IMUserCntUpdate pb"
  pb_MsgServRsp :: "IMMsgServRsp pb"
  pb_HeartBeat :: "unit pb"


section \<open>Operations of a connection\<close>

text \<open>\<open>SendPdu\<close> of a connection object: the tick is updated, the PDU goes to its socket.\<close>

definition login_SendPdu :: "u64 \<Rightarrow> nat \<Rightarrow> bytes \<Rightarrow> login_server \<Rightarrow> login_server res" where
  "login_SendPdu now a p st =
     bindR (deref a (ls_heap st)) (\<lambda>c.
       Inr (st\<lparr>ls_heap := set_obj a (c\<lparr>lc_last_send_tick := now\<rparr>) (ls_heap st),
               ls_trace := ls_trace st @ [NetSend (lc_handle c) p]\<rparr>))"

definition netlib_close :: "u32 \<Rightarrow> login_server \<Rightarrow> login_server" where
  "netlib_close h st = st\<lparr>ls_callback := map_erase h (ls_callback st), ls_trace := ls_trace st @ [NetClose h]\<rparr>"

definition Close :: "nat \<Rightarrow> login_server \<Rightarrow> login_server res" where
  "Close a st =
     bindR (deref a (ls_heap st)) (\<lambda>c.
       let m_handle = lc_handle c;
           st1 = (if m_handle \<noteq> NETLIB_INVALID_HANDLE then
                    let st0 = netlib_close m_handle st
                    in if lc_conn_type c = LOGIN_CONN_TYPE_CLIENT then
                         st0\<lparr>g_client_conn_map := map_erase m_handle (g_client_conn_map st0)\<rparr>
                       else
                         let st2 = st0\<lparr>g_msg_serv_conn_map := map_erase m_handle (g_msg_serv_conn_map st0)\<rparr>
                         in case map_of (g_msg_serv_info st2) m_handle of
                              None \<Rightarrow> st2
                            | Some info \<Rightarrow>
                                st2\<lparr>g_total_online_user_cnt := g_total_online_user_cnt st2 - cur_conn_cnt info,
                                    g_msg_serv_info := map_erase m_handle (g_msg_serv_info st2)\<rparr>
                  else st)
       in bindR (release_ref a (ls_heap st1)) (\<lambda>h. Inr (st1\<lparr>ls_heap := h\<rparr>)))"

text \<open>
  \<open>OnConnect2\<close> as compiled: the \<open>else\<close> before the \<open>insert\<close> makes the insertion its branch,
  so a client's connection is not entered into any map. The callback data of the socket
  is the address of the map chosen by the connection's type.
\<close>

definition OnConnect2 :: "nat \<Rightarrow> u32 \<Rightarrow> conn_type \<Rightarrow> login_server \<Rightarrow> login_server res" where
  "OnConnect2 a handle conn_type st =
     bindR (deref a (ls_heap st)) (\<lambda>c.
       let st1 = st\<lparr>ls_heap := set_obj a (c\<lparr>lc_handle := handle, lc_conn_type := conn_type\<rparr>) (ls_heap st)\<rparr>;
           st2 = (if conn_type = LOGIN_CONN_TYPE_CLIENT then st1
                  else st1\<lparr>g_msg_serv_conn_map := hm_insert handle a (g_msg_serv_conn_map st1)\<rparr>)
       in Inr (st2\<lparr>ls_callback := hm_assign handle conn_type (ls_callback st2)\<rparr>))"

definition OnClose :: "nat \<Rightarrow> login_server \<Rightarrow> login_server res" where
  "OnClose a st = Close a st"

definition OnTimer :: "login_codec \<Rightarrow> u64 \<Rightarrow> u64 \<Rightarrow> nat \<Rightarrow> login_server \<Rightarrow> login_server res" where
  "OnTimer pb now curr_tick a st =
     bindR (deref a (ls_heap st)) (\<lambda>c.
       if lc_conn_type c = LOGIN_CONN_TYPE_CLIENT then
         (if curr_tick > lc_last_recv_tick c + CLIENT_TIMEOUT then Close a st else Inr st)
       else
         bindR (if curr_tick > lc_last_send_tick c + SERVER_HEARTBEAT_INTERVAL then
                  login_SendPdu now a (wire_pdu SID_OTHER CID_OTHER_HEARTBEAT 0 (pb_ser (pb_HeartBeat pb) ())) st
                else Inr st) (\<lambda>st1.
           if curr_tick > lc_last_recv_tick c + SERVER_TIMEOUT then Close a st1 else Inr st1))"

definition HandleMsgServInfo :: "login_codec \<Rightarrow> nat \<Rightarrow> bytes \<Rightarrow> login_server \<Rightarrow> login_server res" where
  "HandleMsgServInfo pb a img st =
     bindR (deref a (ls_heap st)) (\<lambda>c.
     bindR (body_of img) (\<lambda>body.
       let msg = snd (pb_par (pb_MsgServInfo pb) body);
           pMsgServInfo = \<lparr>ip_addr1 = ip1 msg, ip_addr2 = ip2 msg, port = ucast (si_port msg),
             max_conn_cnt = si_max_conn_cnt msg, cur_conn_cnt = si_cur_conn_cnt msg, hostname = host_name msg\<rparr>
       in Inr (st\<lparr>g_msg_serv_info := om_insert (lc_handle c) pMsgServInfo (g_msg_serv_info st),
                  g_total_online_user_cnt := g_total_online_user_cnt st + cur_conn_cnt pMsgServInfo\<rparr>)))"

definition HandleUserCntUpdate :: "login_codec \<Rightarrow> nat \<Rightarrow> bytes \<Rightarrow> login_server \<Rightarrow> login_server res" where
  "HandleUserCntUpdate pb a img st =
     bindR (deref a (ls_heap st)) (\<lambda>c.
       case map_of (g_msg_serv_info st) (lc_handle c) of
         None \<Rightarrow> Inr st
       | Some info \<Rightarrow>
           bindR (body_of img) (\<lambda>body.
             let d = (if user_action (snd (pb_par (pb_UserCntUpdate pb) body)) = USER_CNT_INC then 1 else - 1)
             in Inr (st\<lparr>g_msg_serv_info := om_assign (lc_handle c) (info\<lparr>cur_conn_cnt := cur_conn_cnt info + d\<rparr>)
                          (g_msg_serv_info st),
                        g_total_online_user_cnt := g_total_online_user_cnt st + d\<rparr>)))"

text \<open>The loop that looks for the message server with the fewest connections.\<close>

fun min_conn_loop :: "(u32, msg_serv_info_t) assoc \<Rightarrow> (u32 \<times> msg_serv_info_t) option \<Rightarrow> u32 \<Rightarrow>
    (u32 \<times> msg_serv_info_t) option" where
  "min_conn_loop [] it_min_conn min_user_cnt = it_min_conn"
| "min_conn_loop (it # rest) it_min_conn min_user_cnt =
     (if cur_conn_cnt (snd it) < max_conn_cnt (snd it) \<and> cur_conn_cnt (snd it) < min_user_cnt
      then min_conn_loop rest (Some it) (cur_conn_cnt (snd it))
      else min_conn_loop rest it_min_conn min_user_cnt)"

definition select_msg_server :: "(u32, msg_serv_info_t) assoc \<Rightarrow> (u32 \<times> msg_serv_info_t) option" where
  "select_msg_server infos = min_conn_loop infos None (- 1)"

definition msg_serv_rsp :: "(u32, msg_serv_info_t) assoc \<Rightarrow> IMMsgServRsp" where
  "msg_serv_rsp infos =
     (if infos = [] then
        \<lparr>result_code = REFUSE_REASON_NO_MSG_SERVER, prior_ip = None, backip_ip = None, rsp_port = None\<rparr>
      else case select_msg_server infos of
             None \<Rightarrow> \<lparr>result_code = REFUSE_REASON_MSG_SERVER_FULL, prior_ip = None, backip_ip = None, rsp_port = None\<rparr>
           | Some (_, info) \<Rightarrow> \<lparr>result_code = REFUSE_REASON_NONE, prior_ip = Some (ip_addr1 info),
               backip_ip = Some (ip_addr2 info), rsp_port = Some (ucast (port info))\<rparr>)"

definition HandleMsgServRequest :: "login_codec \<Rightarrow> u64 \<Rightarrow> nat \<Rightarrow> pdu_header \<Rightarrow> bytes \<Rightarrow> login_server \<Rightarrow>
    login_server res" where
  "HandleMsgServRequest pb now a hdr img st =
     bindR (body_of img) (\<lambda>_.
     bindR (login_SendPdu now a (wire_pdu SID_LOGIN CID_LOGIN_RES_MSGSERVER (h_seq_num hdr)
              (pb_ser (pb_MsgServRsp pb) (msg_serv_rsp (g_msg_serv_info st)))) st) (\<lambda>st1.
     Close a st1))"

definition HandlePdu :: "login_codec \<Rightarrow> u64 \<Rightarrow> nat \<Rightarrow> pdu_header \<Rightarrow> bytes \<Rightarrow> login_server \<Rightarrow> login_server res" where
  "HandlePdu pb now a hdr img st =
     (if h_command_id hdr = CID_OTHER_HEARTBEAT then Inr st
      else if h_command_id hdr = CID_OTHER_MSG_SERV_INFO then HandleMsgServInfo pb a img st
      else if h_command_id hdr = CID_OTHER_USER_CNT_UPDATE then HandleUserCntUpdate pb a img st
      else if h_command_id hdr = CID_LOGIN_REQ_MSGSERVER then HandleMsgServRequest pb now a hdr img st
      else Inr st)"

section \<open>Events\<close>

text \<open>
  \<open>OnRead\<close> of a connection object on the PDUs it finds in its buffer (the framing is the
  subject of the connection theory): each is handled, then cut off the buffer, which
  touches the object again; a broken stream closes the connection.
\<close>

fun handle_frames :: "login_codec \<Rightarrow> u64 \<Rightarrow> nat \<Rightarrow> (pdu_header \<times> bytes) list \<Rightarrow> login_server \<Rightarrow> login_server res" where
  "handle_frames pb now a [] st = Inr st"
| "handle_frames pb now a (f # fs) st =
     bindR (HandlePdu pb now a (fst f) (snd f) st) (\<lambda>st1.
     bindR (deref a (ls_heap st1)) (\<lambda>_. handle_frames pb now a fs st1))"

definition login_OnRead :: "login_codec \<Rightarrow> u64 \<Rightarrow> (pdu_header \<times> bytes) list \<Rightarrow> bool \<Rightarrow> nat \<Rightarrow> login_server \<Rightarrow>
    login_server res" where
  "login_OnRead pb now fs bad a st =
     bindR (deref a (ls_heap st)) (\<lambda>c.
     bindR (handle_frames pb now a fs
              (st\<lparr>ls_heap := set_obj a (c\<lparr>lc_last_recv_tick := now\<rparr>) (ls_heap st)\<rparr>)) (\<lambda>st1.
       if bad then OnClose a st1 else Inr st1))"

datatype login_event =
    Connected u32 conn_type
  | Readable u32 "(pdu_header \<times> bytes) list" bool
  | HungUp u32
  | TimerTick u64

definition ls_add_ref :: "nat \<Rightarrow> login_server \<Rightarrow> login_server res" where
  "ls_add_ref a st = bindR (add_ref a (ls_heap st)) (\<lambda>h. Inr (st\<lparr>ls_heap := h\<rparr>))"

definition ls_release_ref :: "nat \<Rightarrow> login_server \<Rightarrow> login_server res" where
  "ls_release_ref a st = bindR (release_ref a (ls_heap st)) (\<lambda>h. Inr (st\<lparr>ls_heap := h\<rparr>))"

definition callback_map :: "u32 \<Rightarrow> login_server \<Rightarrow> conn_map option" where
  "callback_map h st =
     (case map_of (ls_callback st) h of
        None \<Rightarrow> None
      | Some LOGIN_CONN_TYPE_CLIENT \<Rightarrow> Some (g_client_conn_map st)
      | Some LOGIN_CONN_TYPE_MSG_SERV \<Rightarrow> Some (g_msg_serv_conn_map st))"

definition dispatch :: "(nat \<Rightarrow> login_server \<Rightarrow> login_server res) \<Rightarrow> netlib_msg \<Rightarrow> u32 \<Rightarrow> login_server \<Rightarrow>
    login_server res" where
  "dispatch method msg h st =
     imconn_callback ls_add_ref ls_release_ref (\<lambda>_. method) (callback_map h st) msg h st"

fun timer_loop :: "login_codec \<Rightarrow> u64 \<Rightarrow> u64 \<Rightarrow> conn_map \<Rightarrow> login_server \<Rightarrow> login_server res" where
  "timer_loop pb now cur_time [] st = Inr st"
| "timer_loop pb now cur_time (it # its) st =
     bindR (OnTimer pb now cur_time (snd it) st) (timer_loop pb now cur_time its)"

definition login_conn_timer_callback :: "login_codec \<Rightarrow> u64 \<Rightarrow> u64 \<Rightarrow> login_server \<Rightarrow> login_server res" where
  "login_conn_timer_callback pb now cur_time st =
     bindR (timer_loop pb now cur_time (g_client_conn_map st) st) (\<lambda>st1.
       timer_loop pb now cur_time (g_msg_serv_conn_map st1) st1)"

text \<open>\<open>client_callback\<close> and \<open>msg_serv_callback\<close> of \<open>login_server.cpp\<close>.\<close>

definition accept_conn :: "u64 \<Rightarrow> u32 \<Rightarrow> conn_type \<Rightarrow> login_server \<Rightarrow> login_server res" where
  "accept_conn now handle t st =
     (let (a, h) = new_obj \<lparr>lc_handle = NETLIB_INVALID_HANDLE, lc_conn_type = t,
                            lc_last_send_tick = now, lc_last_recv_tick = now\<rparr> (ls_heap st)
      in OnConnect2 a handle t (st\<lparr>ls_heap := h\<rparr>))"

fun login_step :: "login_codec \<Rightarrow> u64 \<Rightarrow> login_event \<Rightarrow> login_server \<Rightarrow> login_server res" where
  "login_step pb now (Connected h t) st = accept_conn now h t st"
| "login_step pb now (Readable h fs bad) st = dispatch (login_OnRead pb now fs bad) NETLIB_MSG_READ h st"
| "login_step pb now (HungUp h) st = dispatch OnClose NETLIB_MSG_CLOSE h st"
| "login_step pb now (TimerTick cur_time) st = login_conn_timer_callback pb now cur_time st"

section \<open>Choosing a message server\<close>

definition available :: "msg_serv_info_t \<Rightarrow> bool" where
  "available i \<longleftrightarrow> cur_conn_cnt i < max_conn_cnt i"

lemma available_bound: "available i \<Longrightarrow> cur_conn_cnt i < - 1"
  by (metis available_def word_n1_ge order_less_le_trans)

lemma min_conn_loop_spec:
  assumes "best = None \<Longrightarrow> bound = - 1"
    "\<And>b. best = Some b \<Longrightarrow> available (snd b) \<and> cur_conn_cnt (snd b) = bound"
  shows "case min_conn_loop infos best bound of
      None \<Rightarrow> best = None \<and> (\<forall>p\<in>set infos. \<not> available (snd p))
    | Some b \<Rightarrow> (best = Some b \<or> b \<in> set infos) \<and> available (snd b) \<and> cur_conn_cnt (snd b) \<le> bound
        \<and> (\<forall>p\<in>set infos. available (snd p) \<longrightarrow> cur_conn_cnt (snd b) \<le> cur_conn_cnt (snd p))"
  using assms
proof (induction infos best bound rule: min_conn_loop.induct)
  case (1 best bound)
  then show ?case by (auto split: option.splits)
next
  case (2 it rest best bound)
  let ?take = "cur_conn_cnt (snd it) < max_conn_cnt (snd it) \<and> cur_conn_cnt (snd it) < bound"
  show ?case
  proof (cases ?take)
    case True
    have start: "Some it = None \<Longrightarrow> cur_conn_cnt (snd it) = - 1"
      "\<And>b. Some it = Some b \<Longrightarrow> available (snd b) \<and> cur_conn_cnt (snd b) = cur_conn_cnt (snd it)"
      using True by (simp_all add: available_def)
    note IH = "2.IH"(1) [OF True start]
    show ?thesis
    proof (cases "min_conn_loop rest (Some it) (cur_conn_cnt (snd it))")
      case None
      then show ?thesis using IH True by simp
    next
      case (Some b)
      then have "cur_conn_cnt (snd b) \<le> cur_conn_cnt (snd it)" using IH True by simp
      then show ?thesis using Some IH True by (auto simp: available_def)
    qed
  next
    case False
    have low: "available (snd it) \<Longrightarrow> bound \<le> cur_conn_cnt (snd it)"
      using False by (auto simp: available_def)
    have none: "best = None \<Longrightarrow> \<not> available (snd it)"
      using "2.prems"(1) low available_bound by (metis leD)
    note IH = "2.IH"(2) [OF False "2.prems"]
    show ?thesis
    proof (cases "min_conn_loop rest best bound")
      case None
      then show ?thesis using IH False none by auto
    next
      case (Some b)
      then have "available (snd it) \<Longrightarrow> cur_conn_cnt (snd b) \<le> cur_conn_cnt (snd it)"
        using IH low by auto
      then show ?thesis using Some IH False by auto
    qed
  qed
qed

lemma select_msg_server_spec:
  "case select_msg_server infos of
     None \<Rightarrow> \<forall>p\<in>set infos. \<not> available (snd p)
   | Some b \<Rightarrow> b \<in> set infos \<and> available (snd b)
       \<and> (\<forall>p\<in>set infos. available (snd p) \<longrightarrow> cur_conn_cnt (snd b) \<le> cur_conn_cnt (snd p))"
  using min_conn_loop_spec [of None "- 1" infos]
  by (auto simp: select_msg_server_def split: option.splits)

section \<open>Invariant\<close>

text \<open>
  \<open>k a\<close> is the number of references to object \<open>a\<close> held by running callbacks. Between
  events it is 0 everywhere.
\<close>

definition registered :: "(nat \<Rightarrow> int) \<Rightarrow> login_server \<Rightarrow> u32 \<Rightarrow> nat \<Rightarrow> bool" where
  "registered k st h a \<longleftrightarrow> h \<noteq> NETLIB_INVALID_HANDLE \<and> refs a (ls_heap st) = 1 + k a
     \<and> map_of (ls_callback st) h = Some LOGIN_CONN_TYPE_MSG_SERV
     \<and> (\<exists>c. deref a (ls_heap st) = Inr c \<and> lc_handle c = h \<and> lc_conn_type c = LOGIN_CONN_TYPE_MSG_SERV)"

definition online :: "(u32, msg_serv_info_t) assoc \<Rightarrow> u32" where
  "online infos = sum_list (map (\<lambda>p. cur_conn_cnt (snd p)) infos)"

definition conn_inv :: "(nat \<Rightarrow> int) \<Rightarrow> login_server \<Rightarrow> bool" where
  "conn_inv k st \<longleftrightarrow> heap_ok (ls_heap st) \<and> hm_ok (g_msg_serv_conn_map st) \<and> om_ok (g_msg_serv_info st)
     \<and> g_client_conn_map st = []
     \<and> (\<forall>h a. map_of (g_msg_serv_conn_map st) h = Some a \<longrightarrow> registered k st h a)
     \<and> (\<forall>h. h \<in> keys (g_msg_serv_info st) \<longrightarrow> h \<in> keys (g_msg_serv_conn_map st))
     \<and> g_total_online_user_cnt st = online (g_msg_serv_info st)"

abbreviation login_inv :: "login_server \<Rightarrow> bool" where
  "login_inv \<equiv> conn_inv (\<lambda>_. 0)"

lemma conn_invD:
  assumes "conn_inv k st"
  shows "heap_ok (ls_heap st)" "hm_ok (g_msg_serv_conn_map st)" "om_ok (g_msg_serv_info st)"
    "g_client_conn_map st = []" "g_total_online_user_cnt st = online (g_msg_serv_info st)"
    "\<And>h a. map_of (g_msg_serv_conn_map st) h = Some a \<Longrightarrow> registered k st h a"
    "\<And>h. h \<in> keys (g_msg_serv_info st) \<Longrightarrow> h \<in> keys (g_msg_serv_conn_map st)"
  using assms by (simp_all add: conn_inv_def)

lemma online_erase:
  "om_ok m \<Longrightarrow> map_of m h = Some i \<Longrightarrow> online (map_erase h m) = online m - cur_conn_cnt i"
  using sum_map_erase [of m h i "\<lambda>p. cur_conn_cnt (snd p)"] om.ok_distinct [of m] by (simp add: online_def)

lemma online_assign:
  "om_ok m \<Longrightarrow> online (om_assign h i m) =
     online m + cur_conn_cnt i - (case map_of m h of None \<Rightarrow> 0 | Some j \<Rightarrow> cur_conn_cnt j)"
  using sum_om_assign [of m "\<lambda>p. cur_conn_cnt (snd p)" h i]
  by (simp add: online_def split: option.splits)

text \<open>Updating an object in place, keeping its handle and type, keeps the invariant.\<close>

lemma conn_inv_set_obj:
  assumes inv: "conn_inv k st" and d: "deref a (ls_heap st) = Inr c"
    and same: "lc_handle c' = lc_handle c" "lc_conn_type c' = lc_conn_type c"
  shows "conn_inv k (st\<lparr>ls_heap := set_obj a c' (ls_heap st), ls_trace := t\<rparr>)"
proof -
  have "registered k (st\<lparr>ls_heap := set_obj a c' (ls_heap st), ls_trace := t\<rparr>) h b"
    if "registered k st h b" for h b
    using that d same deref_live [OF d] by (auto simp: registered_def deref_set_obj)
  then show ?thesis using inv by (simp add: conn_inv_def heap_ok_set_obj)
qed

lemma login_SendPdu_inv:
  assumes inv: "conn_inv k st" and d: "deref a (ls_heap st) = Inr c"
  shows "\<exists>st'. login_SendPdu now a p st = Inr st' \<and> conn_inv k st'
    \<and> deref a (ls_heap st') = Inr (c\<lparr>lc_last_send_tick := now\<rparr>)
    \<and> ls_trace st' = ls_trace st @ [NetSend (lc_handle c) p]
    \<and> g_msg_serv_info st' = g_msg_serv_info st \<and> g_msg_serv_conn_map st' = g_msg_serv_conn_map st"
  using conn_inv_set_obj [OF inv d, of "c\<lparr>lc_last_send_tick := now\<rparr>"] d deref_live [OF d]
  by (simp add: login_SendPdu_def deref_set_obj)

text \<open>
  Closing a registered connection: it leaves every map, its users leave the total, the
  socket is closed once, and the object lives on only as long as a callback holds it.
\<close>

lemma Close_inv:
  assumes inv: "conn_inv k st" and m: "map_of (g_msg_serv_conn_map st) h = Some a" and k: "0 \<le> k a"
  shows "\<exists>st'. Close a st = Inr st' \<and> conn_inv k st'
    \<and> g_msg_serv_conn_map st' = map_erase h (g_msg_serv_conn_map st)
    \<and> g_msg_serv_info st' = map_erase h (g_msg_serv_info st)
    \<and> ls_trace st' = ls_trace st @ [NetClose h]
    \<and> (\<forall>b. b \<noteq> a \<longrightarrow> deref b (ls_heap st') = deref b (ls_heap st)) \<and> refs a (ls_heap st') = k a
    \<and> deref a (ls_heap st') = (if k a = 0 then Inl MemFault else deref a (ls_heap st))"
proof -
  note I = conn_invD [OF inv]
  obtain c where c: "deref a (ls_heap st) = Inr c" "lc_handle c = h" "lc_conn_type c = LOGIN_CONN_TYPE_MSG_SERV"
    and h: "h \<noteq> NETLIB_INVALID_HANDLE" "refs a (ls_heap st) = 1 + k a"
    using I(6) [OF m] by (auto simp: registered_def)
  obtain hp where hp: "release_ref a (ls_heap st) = Inr hp" "heap_ok hp" "hp_next hp = hp_next (ls_heap st)"
    "\<forall>b. deref b hp = (if b = a \<and> refs a (ls_heap st) = 1 then Inl MemFault else deref b (ls_heap st))"
    "\<forall>b. refs b hp = refs b (ls_heap st) - (if b = a then 1 else 0)"
    using release_ref_spec [OF I(1) deref_live [OF c(1)]] by blast
  let ?infos = "map_erase h (g_msg_serv_info st)"
  let ?st = "st\<lparr>ls_callback := map_erase h (ls_callback st), ls_trace := ls_trace st @ [NetClose h],
    g_msg_serv_conn_map := map_erase h (g_msg_serv_conn_map st),
    g_total_online_user_cnt := online ?infos, g_msg_serv_info := ?infos, ls_heap := hp\<rparr>"
  have "Close a st = Inr ?st"
    using c h hp(1) I(5) online_erase [OF I(3)] map_erase_absent [of "g_msg_serv_info st" h]
    by (cases "map_of (g_msg_serv_info st) h") (simp_all add: Close_def netlib_close_def Let_def)
  moreover have "registered k ?st h' b" if "map_of (map_erase h (g_msg_serv_conn_map st)) h' = Some b" for h' b
  proof -
    have "h' \<noteq> h" "registered k st h' b"
      using that I(6) by (auto simp: map_of_map_erase split: if_splits)
    moreover have "b \<noteq> a" using calculation c by (auto simp: registered_def)
    ultimately show ?thesis using hp(4,5) by (simp add: registered_def map_of_map_erase)
  qed
  then have "conn_inv k ?st"
    using I hp(2) unfolding conn_inv_def
    by (auto simp: hm.ok_erase om.ok_erase hm.keys_erase om.keys_erase)
  ultimately show ?thesis using hp h(2) k by (intro exI [of _ ?st]) auto
qed

section \<open>Events keep the invariant\<close>

lemma hold_inv:
  assumes inv: "login_inv st" and l: "live a (ls_heap st)"
  shows "\<exists>st'. ls_add_ref a st = Inr st' \<and> conn_inv (held a) st'
    \<and> g_msg_serv_conn_map st' = g_msg_serv_conn_map st \<and> g_msg_serv_info st' = g_msg_serv_info st
    \<and> (\<forall>b. deref b (ls_heap st') = deref b (ls_heap st))"
proof -
  note I = conn_invD [OF inv]
  obtain hp where hp: "add_ref a (ls_heap st) = Inr hp" "heap_ok hp"
    "\<forall>b. deref b hp = deref b (ls_heap st)"
    "\<forall>b. refs b hp = refs b (ls_heap st) + (if b = a then 1 else 0)"
    using add_ref_spec [OF I(1) l] by blast
  have "registered (held a) (st\<lparr>ls_heap := hp\<rparr>) h b" if "registered (\<lambda>_. 0) st h b" for h b
    using that hp(3,4) by (simp add: registered_def)
  then have "conn_inv (held a) (st\<lparr>ls_heap := hp\<rparr>)" using inv hp(2) by (simp add: conn_inv_def)
  then show ?thesis using hp by (simp add: ls_add_ref_def)
qed

lemma release_inv:
  assumes inv: "conn_inv (held a) st" and l: "live a (ls_heap st)"
  shows "\<exists>st'. ls_release_ref a st = Inr st' \<and> login_inv st'
    \<and> g_msg_serv_conn_map st' = g_msg_serv_conn_map st \<and> g_msg_serv_info st' = g_msg_serv_info st
    \<and> ls_trace st' = ls_trace st"
proof -
  note I = conn_invD [OF inv]
  obtain hp where hp: "release_ref a (ls_heap st) = Inr hp" "heap_ok hp"
    "\<forall>b. deref b hp = (if b = a \<and> refs a (ls_heap st) = 1 then Inl MemFault else deref b (ls_heap st))"
    "\<forall>b. refs b hp = refs b (ls_heap st) - (if b = a then 1 else 0)"
    using release_ref_spec [OF I(1) l] by blast
  have "registered (\<lambda>_. 0) (st\<lparr>ls_heap := hp\<rparr>) h b" if "registered (held a) st h b" for h b
    using that hp(3,4) by (auto simp: registered_def split: if_splits)
  then have "login_inv (st\<lparr>ls_heap := hp\<rparr>)" using inv hp(2) by (simp add: conn_inv_def)
  then show ?thesis using hp by (simp add: ls_release_ref_def)
qed

lemma HandleMsgServInfo_inv:
  assumes inv: "conn_inv k st" and m: "map_of (g_msg_serv_conn_map st) h = Some a"
    and new: "h \<notin> keys (g_msg_serv_info st)" and img: "16 \<le> length img"
  shows "\<exists>st'. HandleMsgServInfo pb a img st = Inr st' \<and> conn_inv k st'
    \<and> g_msg_serv_conn_map st' = g_msg_serv_conn_map st \<and> keys (g_msg_serv_info st') = insert h (keys (g_msg_serv_info st))"
proof -
  note I = conn_invD [OF inv]
  obtain c where c: "deref a (ls_heap st) = Inr c" "lc_handle c = h"
    using I(6) [OF m] by (auto simp: registered_def)
  have hk: "h \<in> keys (g_msg_serv_conn_map st)" using m by (force dest: map_of_SomeD)
  let ?m = "snd (pb_par (pb_MsgServInfo pb) (drop 16 img))"
  let ?i = "\<lparr>ip_addr1 = ip1 ?m, ip_addr2 = ip2 ?m, port = ucast (si_port ?m),
    max_conn_cnt = si_max_conn_cnt ?m, cur_conn_cnt = si_cur_conn_cnt ?m, hostname = host_name ?m\<rparr>"
  let ?st = "st\<lparr>g_msg_serv_info := om_insert h ?i (g_msg_serv_info st),
    g_total_online_user_cnt := g_total_online_user_cnt st + cur_conn_cnt ?i\<rparr>"
  have "HandleMsgServInfo pb a img st = Inr ?st"
    using c img by (simp add: HandleMsgServInfo_def body_of_def Let_def)
  moreover have "online (om_insert h ?i (g_msg_serv_info st)) = online (g_msg_serv_info st) + cur_conn_cnt ?i"
    using new online_assign [OF I(3), of h ?i] by (simp add: om_insert_def split: option.splits) (force dest: map_of_SomeD)
  moreover have "registered k ?st h' b" if "registered k st h' b" for h' b
    using that by (simp add: registered_def)
  ultimately show ?thesis
    using I hk by (intro exI [of _ ?st]) (auto simp: conn_inv_def om.ok_insert om.keys_insert)
qed

lemma HandleUserCntUpdate_inv:
  assumes inv: "conn_inv k st" and m: "map_of (g_msg_serv_conn_map st) h = Some a" and img: "16 \<le> length img"
  shows "\<exists>st'. HandleUserCntUpdate pb a img st = Inr st' \<and> conn_inv k st'
    \<and> g_msg_serv_conn_map st' = g_msg_serv_conn_map st \<and> keys (g_msg_serv_info st') = keys (g_msg_serv_info st)"
proof -
  note I = conn_invD [OF inv]
  obtain c where c: "deref a (ls_heap st) = Inr c" "lc_handle c = h"
    using I(6) [OF m] by (auto simp: registered_def)
  show ?thesis
  proof (cases "map_of (g_msg_serv_info st) h")
    case None
    then show ?thesis using c inv by (simp add: HandleUserCntUpdate_def)
  next
    case (Some i)
    define d :: u32 where "d = (if user_action (snd (pb_par (pb_UserCntUpdate pb) (drop 16 img))) = USER_CNT_INC then 1 else - 1)"
    let ?infos = "om_assign h (i\<lparr>cur_conn_cnt := cur_conn_cnt i + d\<rparr>) (g_msg_serv_info st)"
    let ?st = "st\<lparr>g_msg_serv_info := ?infos, g_total_online_user_cnt := g_total_online_user_cnt st + d\<rparr>"
    have "HandleUserCntUpdate pb a img st = Inr ?st"
      using c img Some by (simp add: HandleUserCntUpdate_def body_of_def Let_def d_def)
    moreover have "online ?infos = online (g_msg_serv_info st) + d"
      using online_assign [OF I(3)] Some by simp
    moreover have "keys ?infos = keys (g_msg_serv_info st)"
      using om.keys_assign [OF I(3)] Some by (force dest: map_of_SomeD)
    moreover have "registered k ?st h' b" if "registered k st h' b" for h' b
      using that by (simp add: registered_def)
    ultimately show ?thesis using I by (intro exI [of _ ?st]) (auto simp: conn_inv_def om.ok_assign)
  qed
qed

lemma HandleMsgServRequest_inv:
  assumes inv: "conn_inv k st" and m: "map_of (g_msg_serv_conn_map st) h = Some a"
    and k: "0 < k a" and img: "16 \<le> length img"
  shows "\<exists>st'. HandleMsgServRequest pb now a hdr img st = Inr st' \<and> conn_inv k st'
    \<and> live a (ls_heap st') \<and> h \<notin> keys (g_msg_serv_conn_map st')
    \<and> ls_trace st' = ls_trace st @ [NetSend h (wire_pdu SID_LOGIN CID_LOGIN_RES_MSGSERVER (h_seq_num hdr)
        (pb_ser (pb_MsgServRsp pb) (msg_serv_rsp (g_msg_serv_info st)))), NetClose h]"
proof -
  note I = conn_invD [OF inv]
  obtain c where c: "deref a (ls_heap st) = Inr c" "lc_handle c = h"
    using I(6) [OF m] by (auto simp: registered_def)
  let ?p = "wire_pdu SID_LOGIN CID_LOGIN_RES_MSGSERVER (h_seq_num hdr)
    (pb_ser (pb_MsgServRsp pb) (msg_serv_rsp (g_msg_serv_info st)))"
  obtain st1 where s1: "login_SendPdu now a ?p st = Inr st1" "conn_inv k st1"
    "deref a (ls_heap st1) = Inr (c\<lparr>lc_last_send_tick := now\<rparr>)"
    "ls_trace st1 = ls_trace st @ [NetSend h ?p]" "g_msg_serv_conn_map st1 = g_msg_serv_conn_map st"
    using login_SendPdu_inv [OF inv c(1), of now ?p] c(2) by blast
  from Close_inv [OF s1(2), of h a] s1(5) m k obtain st2 where
    s2: "Close a st1 = Inr st2" "conn_inv k st2" "deref a (ls_heap st2) = deref a (ls_heap st1)"
      "g_msg_serv_conn_map st2 = map_erase h (g_msg_serv_conn_map st1)"
      "ls_trace st2 = ls_trace st1 @ [NetClose h]" by auto
  have "HandleMsgServRequest pb now a hdr img st = Inr st2"
    using s1(1) s2(1) img by (simp add: HandleMsgServRequest_def body_of_def)
  then show ?thesis using s1 s2 deref_live [of a "ls_heap st2"] by (auto simp: map_erase_def)
qed

text \<open>
  What the peers are trusted with: a PDU is at least a header long, a message server
  reports itself once (\<open>known\<close>: it already has), and a request for a message server is the last
  thing in a read, since it closes the connection.
\<close>

fun batch_ok :: "bool \<Rightarrow> (pdu_header \<times> bytes) list \<Rightarrow> bool \<Rightarrow> bool" where
  "batch_ok known [] bad \<longleftrightarrow> True"
| "batch_ok known (f # fs) bad \<longleftrightarrow> 16 \<le> length (snd f) \<and>
     (if h_command_id (fst f) = CID_OTHER_MSG_SERV_INFO then \<not> known \<and> batch_ok True fs bad
      else if h_command_id (fst f) = CID_LOGIN_REQ_MSGSERVER then fs = [] \<and> \<not> bad
      else batch_ok known fs bad)"

lemma registered_live: "registered k st h a \<Longrightarrow> live a (ls_heap st)"
  by (auto simp: registered_def dest: deref_live)

lemma handle_frames_inv:
  assumes "conn_inv k st" "map_of (g_msg_serv_conn_map st) h = Some a" "k a = 1"
    "batch_ok (h \<in> keys (g_msg_serv_info st)) fs bad"
  shows "\<exists>st'. handle_frames pb now a fs st = Inr st' \<and> conn_inv k st' \<and> live a (ls_heap st')
    \<and> (bad \<longrightarrow> map_of (g_msg_serv_conn_map st') h = Some a)"
  using assms
proof (induction fs arbitrary: st)
  case Nil
  then show ?case using conn_invD(6) [OF Nil.prems(1,2)] by (auto dest: registered_live)
next
  case (Cons f fs)
  note inv = Cons.prems(1) and m = Cons.prems(2)
  obtain c where c: "deref a (ls_heap st) = Inr c"
    using conn_invD(6) [OF inv m] by (auto simp: registered_def)
  have img: "16 \<le> length (snd f)" using Cons.prems(4) by simp
  have next_frame: ?case
    if st1: "HandlePdu pb now a (fst f) (snd f) st = Inr st1" "conn_inv k st1"
      "g_msg_serv_conn_map st1 = g_msg_serv_conn_map st" "batch_ok (h \<in> keys (g_msg_serv_info st1)) fs bad" for st1
  proof -
    have m1: "map_of (g_msg_serv_conn_map st1) h = Some a" using m st1(3) by simp
    then obtain c1 where "deref a (ls_heap st1) = Inr c1"
      using conn_invD(6) [OF st1(2)] by (auto simp: registered_def)
    then show ?thesis using Cons.IH [OF st1(2) m1 Cons.prems(3) st1(4)] st1(1) by simp
  qed
  consider (info) "h_command_id (fst f) = CID_OTHER_MSG_SERV_INFO"
    | (cnt) "h_command_id (fst f) = CID_OTHER_USER_CNT_UPDATE"
    | (req) "h_command_id (fst f) = CID_LOGIN_REQ_MSGSERVER"
    | (other) "h_command_id (fst f) \<notin> {CID_OTHER_MSG_SERV_INFO, CID_OTHER_USER_CNT_UPDATE, CID_LOGIN_REQ_MSGSERVER}"
    by auto
  then show ?case
  proof cases
    case info
    then obtain st1 where "HandleMsgServInfo pb a (snd f) st = Inr st1" "conn_inv k st1"
      "g_msg_serv_conn_map st1 = g_msg_serv_conn_map st" "h \<in> keys (g_msg_serv_info st1)"
      using HandleMsgServInfo_inv [OF inv m _ img, of pb] Cons.prems(4) by auto
    then show ?thesis using info Cons.prems(4) by (intro next_frame [of st1]) (simp_all add: HandlePdu_def)
  next
    case cnt
    obtain st1 where "HandleUserCntUpdate pb a (snd f) st = Inr st1" "conn_inv k st1"
      "g_msg_serv_conn_map st1 = g_msg_serv_conn_map st" "keys (g_msg_serv_info st1) = keys (g_msg_serv_info st)"
      using HandleUserCntUpdate_inv [OF inv m img, of pb] by auto
    then show ?thesis using cnt Cons.prems(4) by (intro next_frame [of st1]) (simp_all add: HandlePdu_def)
  next
    case req
    then have last: "fs = []" "\<not> bad" using Cons.prems(4) by simp_all
    obtain st1 where "HandleMsgServRequest pb now a (fst f) (snd f) st = Inr st1" "conn_inv k st1"
      "live a (ls_heap st1)"
      using HandleMsgServRequest_inv [OF inv m _ img, of pb now "fst f"] Cons.prems(3) by auto
    then show ?thesis using req last live_deref [of a "ls_heap st1"] by (auto simp: HandlePdu_def)
  next
    case other
    then show ?thesis using inv Cons.prems(4) by (intro next_frame [of st]) (simp_all add: HandlePdu_def)
  qed
qed

lemma login_OnRead_inv:
  assumes inv: "conn_inv k st" and m: "map_of (g_msg_serv_conn_map st) h = Some a" and k: "k a = 1"
    and b: "batch_ok (h \<in> keys (g_msg_serv_info st)) fs bad"
  shows "\<exists>st'. login_OnRead pb now fs bad a st = Inr st' \<and> conn_inv k st' \<and> live a (ls_heap st')"
proof -
  obtain c where c: "deref a (ls_heap st) = Inr c"
    using conn_invD(6) [OF inv m] by (auto simp: registered_def)
  let ?st = "st\<lparr>ls_heap := set_obj a (c\<lparr>lc_last_recv_tick := now\<rparr>) (ls_heap st)\<rparr>"
  have "conn_inv k ?st"
    using conn_inv_set_obj [OF inv c, of "c\<lparr>lc_last_recv_tick := now\<rparr>" "ls_trace st"] by simp
  then obtain st1 where s1: "handle_frames pb now a fs ?st = Inr st1" "conn_inv k st1" "live a (ls_heap st1)"
    "bad \<Longrightarrow> map_of (g_msg_serv_conn_map st1) h = Some a"
    using handle_frames_inv [of k ?st h a fs bad pb now] m k b by auto
  show ?thesis
  proof (cases bad)
    case True
    from Close_inv [OF s1(2) s1(4) [OF True]] k obtain st2 where
      "Close a st1 = Inr st2" "conn_inv k st2" "deref a (ls_heap st2) = deref a (ls_heap st1)" by auto
    then show ?thesis using True c s1(1,3) live_deref [OF s1(3)] deref_live [of a "ls_heap st2"]
      by (auto simp: login_OnRead_def OnClose_def)
  qed (use c s1 in \<open>simp add: login_OnRead_def\<close>)
qed

text \<open>A callback on a registered connection: hold, run, release.\<close>

definition same_maps :: "login_server \<Rightarrow> login_server \<Rightarrow> bool" where
  "same_maps st st' \<longleftrightarrow> g_msg_serv_conn_map st' = g_msg_serv_conn_map st \<and> g_msg_serv_info st' = g_msg_serv_info st"

interpretation login_callbacks: conn_server conn_inv ls_heap ls_add_ref ls_release_ref same_maps
proof
  fix st a
  show "login_inv st \<Longrightarrow> live a (ls_heap st) \<Longrightarrow>
      \<exists>st'. ls_add_ref a st = Inr st' \<and> conn_inv (held a) st' \<and> same_maps st st'"
    using hold_inv [of st a] by (auto simp: same_maps_def)
  show "conn_inv (held a) st \<Longrightarrow> live a (ls_heap st) \<Longrightarrow> \<exists>st'. ls_release_ref a st = Inr st' \<and> login_inv st'"
    using release_inv [of a st] by auto
qed

lemma dispatch_inv:
  assumes inv: "login_inv st" and msg: "msg \<noteq> NETLIB_MSG_OTHER"
    and run: "\<And>a st1. map_of (g_msg_serv_conn_map st) h = Some a \<Longrightarrow> conn_inv (held a) st1 \<Longrightarrow>
      g_msg_serv_conn_map st1 = g_msg_serv_conn_map st \<Longrightarrow> g_msg_serv_info st1 = g_msg_serv_info st \<Longrightarrow>
      \<exists>st2. method a st1 = Inr st2 \<and> conn_inv (held a) st2 \<and> live a (ls_heap st2)"
  shows "\<exists>st'. dispatch method msg h st = Inr st' \<and> login_inv st'"
proof -
  have m: "m = [] \<or> m = g_msg_serv_conn_map st" if "callback_map h st = Some m" for m
    using that conn_invD(4) [OF inv] by (auto simp: callback_map_def split: option.splits conn_type.splits)
  have "live a (ls_heap st)" if "callback_map h st = Some m" "map_of m h = Some a" for m a
    using m [OF that(1)] that(2) conn_invD(6) [OF inv] registered_live by fastforce
  then show ?thesis
    unfolding dispatch_def
    using m by (intro login_callbacks.callback_inv [OF inv msg] run) (auto simp: same_maps_def)
qed

lemma OnTimer_inv:
  assumes inv: "login_inv st" and m: "map_of (g_msg_serv_conn_map st) h = Some a"
  shows "\<exists>st'. OnTimer pb now t a st = Inr st' \<and> login_inv st'
    \<and> (\<forall>h'. h' \<noteq> h \<longrightarrow> map_of (g_msg_serv_conn_map st') h' = map_of (g_msg_serv_conn_map st) h')"
proof -
  obtain c where c: "deref a (ls_heap st) = Inr c" "lc_handle c = h" "lc_conn_type c = LOGIN_CONN_TYPE_MSG_SERV"
    using conn_invD(6) [OF inv m] by (auto simp: registered_def)
  let ?beat = "wire_pdu SID_OTHER CID_OTHER_HEARTBEAT 0 (pb_ser (pb_HeartBeat pb) ())"
  obtain st1 where s1: "login_SendPdu now a ?beat st = Inr st1" "login_inv st1"
    "g_msg_serv_conn_map st1 = g_msg_serv_conn_map st"
    using login_SendPdu_inv [OF inv c(1), of now ?beat] by blast
  define st2 where "st2 = (if t > lc_last_send_tick c + SERVER_HEARTBEAT_INTERVAL then st1 else st)"
  have s2: "login_inv st2" "g_msg_serv_conn_map st2 = g_msg_serv_conn_map st"
    using s1 inv by (simp_all add: st2_def)
  have eq: "OnTimer pb now t a st =
      (if t > lc_last_recv_tick c + SERVER_TIMEOUT then Close a st2 else Inr st2)"
    using c s1(1) by (simp add: OnTimer_def st2_def)
  obtain st3 where "Close a st2 = Inr st3" "login_inv st3"
    "g_msg_serv_conn_map st3 = map_erase h (g_msg_serv_conn_map st2)"
    using Close_inv [OF s2(1), of h a] s2(2) m by auto
  then show ?thesis using eq s2 by (simp add: map_of_map_erase)
qed

lemma timer_loop_inv:
  assumes "login_inv st" "distinct (map fst its)" "\<forall>(h, a)\<in>set its. map_of (g_msg_serv_conn_map st) h = Some a"
  shows "\<exists>st'. timer_loop pb now t its st = Inr st' \<and> login_inv st'"
  using assms
proof (induction its arbitrary: st)
  case (Cons it its)
  obtain h a where it: "it = (h, a)" by (cases it)
  then obtain st1 where s1: "OnTimer pb now t a st = Inr st1" "login_inv st1"
    "\<forall>h'. h' \<noteq> h \<longrightarrow> map_of (g_msg_serv_conn_map st1) h' = map_of (g_msg_serv_conn_map st) h'"
    using OnTimer_inv [OF Cons.prems(1), of h a pb now t] Cons.prems(3) by auto
  have "\<forall>(h, a)\<in>set its. map_of (g_msg_serv_conn_map st1) h = Some a"
    using s1(3) Cons.prems(2,3) it by force
  then show ?case using Cons.IH [OF s1(2)] s1(1) Cons.prems(2) it by simp
qed simp

lemma accept_conn_inv:
  assumes inv: "login_inv st" and new: "h \<notin> keys (ls_callback st)" "h \<noteq> NETLIB_INVALID_HANDLE"
  shows "\<exists>st'. accept_conn now h t st = Inr st' \<and> login_inv st'"
proof -
  note I = conn_invD [OF inv]
  let ?x = "\<lparr>lc_handle = NETLIB_INVALID_HANDLE, lc_conn_type = t, lc_last_send_tick = now, lc_last_recv_tick = now\<rparr>"
  let ?y = "?x\<lparr>lc_handle := h\<rparr>"
  let ?n = "hp_next (ls_heap st)"
  define hp where "hp = snd (new_obj ?x (ls_heap st))"
  define hp' where "hp' = set_obj ?n ?y hp"
  note N = heap_ok_new [OF I(1), of ?x, folded hp_def]
  have hp': "heap_ok hp'" "deref ?n hp' = Inr ?y" "refs ?n hp' = 1"
    "\<And>b. b \<noteq> ?n \<Longrightarrow> deref b hp' = deref b (ls_heap st) \<and> refs b hp' = refs b (ls_heap st)"
    using N deref_live [OF N(2)] deref_new_other [of _ "ls_heap st" ?x, folded hp_def]
    by (auto simp: hp'_def deref_set_obj heap_ok_set_obj)
  have fresh: "b \<noteq> ?n" if "registered (\<lambda>_. 0) st h' b" for h' b
    using that deref_fresh [OF I(1)] by (auto simp: registered_def)
  have other: "h' \<noteq> h" if "registered (\<lambda>_. 0) st h' b" for h' b
    using that new(1) by (force simp: registered_def dest: map_of_SomeD)
  let ?maps = "if t = LOGIN_CONN_TYPE_CLIENT then g_msg_serv_conn_map st else hm_insert h ?n (g_msg_serv_conn_map st)"
  let ?st = "st\<lparr>ls_heap := hp', g_msg_serv_conn_map := ?maps, ls_callback := hm_assign h t (ls_callback st)\<rparr>"
  have "new_obj ?x (ls_heap st) = (?n, hp)" by (simp add: hp_def new_obj_def)
  then have "accept_conn now h t st = Inr ?st"
    using N(2) by (simp add: accept_conn_def OnConnect2_def hp'_def Let_def)
  moreover have old: "registered (\<lambda>_. 0) ?st h' b" if "registered (\<lambda>_. 0) st h' b" for h' b
    using fresh [OF that] other [OF that] that hp'(4) by (auto simp: registered_def map_of_hm_assign)
  moreover have hk: "h \<notin> keys (g_msg_serv_conn_map st)"
    using other I(6) by (auto simp: hm.keys_eq_dom)
  have "registered (\<lambda>_. 0) ?st h ?n" if "t = LOGIN_CONN_TYPE_MSG_SERV"
    using that hp'(2,3) new(2) by (simp add: registered_def map_of_hm_assign)
  then have "registered (\<lambda>_. 0) ?st h' b" if "map_of ?maps h' = Some b" for h' b
    using that old I(6) hk by (cases t) (auto simp: hm.find_insert [OF I(2)] split: if_splits)
  then have "login_inv ?st"
    using I hp'(1) by (cases t) (simp_all add: conn_inv_def hm.ok_insert hm.keys_insert)
  ultimately show ?thesis by blast
qed

definition good_event :: "login_server \<Rightarrow> login_event \<Rightarrow> bool" where
  "good_event st e =
     (case e of
        Connected h t \<Rightarrow> h \<notin> keys (ls_callback st) \<and> h \<noteq> NETLIB_INVALID_HANDLE
      | Readable h fs bad \<Rightarrow> batch_ok (h \<in> keys (g_msg_serv_info st)) fs bad
      | _ \<Rightarrow> True)"

lemma login_step_inv:
  assumes inv: "login_inv st" and good: "good_event st e"
  shows "\<exists>st'. login_step pb now e st = Inr st' \<and> login_inv st'"
proof (cases e)
  case (Connected h t)
  then show ?thesis using accept_conn_inv [OF inv] good by (simp add: good_event_def)
next
  case (Readable h fs bad)
  have "\<exists>st'. dispatch (login_OnRead pb now fs bad) NETLIB_MSG_READ h st = Inr st' \<and> login_inv st'"
    using good Readable by (intro dispatch_inv [OF inv] login_OnRead_inv) (auto simp: good_event_def)
  then show ?thesis using Readable by simp
next
  case (HungUp h)
  have "\<exists>st2. OnClose a st1 = Inr st2 \<and> conn_inv (held a) st2 \<and> live a (ls_heap st2)"
    if a: "map_of (g_msg_serv_conn_map st) h = Some a" and i: "conn_inv (held a) st1"
      and m: "g_msg_serv_conn_map st1 = g_msg_serv_conn_map st" for a st1
  proof -
    have ma: "map_of (g_msg_serv_conn_map st1) h = Some a" using a m by simp
    obtain c where c: "deref a (ls_heap st1) = Inr c"
      using conn_invD(6) [OF i ma] by (auto simp: registered_def)
    with Close_inv [OF i ma] show ?thesis by (auto simp: OnClose_def dest: deref_live)
  qed
  then show ?thesis using HungUp dispatch_inv [OF inv, of NETLIB_MSG_CLOSE h OnClose] by simp
next
  case (TimerTick t)
  note I = conn_invD [OF inv]
  have "\<forall>(h, a)\<in>set (g_msg_serv_conn_map st). map_of (g_msg_serv_conn_map st) h = Some a"
    using hm.set_eq_graph [OF I(2)] by auto
  then show ?thesis
    using timer_loop_inv [OF inv hm.ok_distinct [OF I(2)], of pb now t] TimerTick I(4)
    by (simp add: login_conn_timer_callback_def)
qed

inductive login_reachable :: "login_codec \<Rightarrow> login_server \<Rightarrow> bool" for pb where
  init: "login_reachable pb login_init"
| step: "login_reachable pb st \<Longrightarrow> good_event st e \<Longrightarrow> login_step pb now e st = Inr st' \<Longrightarrow> login_reachable pb st'"

lemma login_inv_init: "login_inv login_init"
  by (simp add: conn_inv_def login_init_def hm_ok_def om_ok_def online_def)

lemma login_reachable_inv: "login_reachable pb st \<Longrightarrow> login_inv st"
proof (induction rule: login_reachable.induct)
  case (step st e now st')
  then show ?case using login_step_inv [of st e pb now] by auto
qed (rule login_inv_init)

text \<open>Runs as lists of timed events, for evaluation.\<close>

fun login_run :: "login_codec \<Rightarrow> (u64 \<times> login_event) list \<Rightarrow> login_server \<Rightarrow> login_server res" where
  "login_run pb [] st = Inr st"
| "login_run pb (e # es) st = bindR (login_step pb (fst e) (snd e) st) (login_run pb es)"

fun good_run :: "login_codec \<Rightarrow> (u64 \<times> login_event) list \<Rightarrow> login_server \<Rightarrow> bool" where
  "good_run pb [] st \<longleftrightarrow> True"
| "good_run pb (e # es) st \<longleftrightarrow> good_event st (snd e) \<and>
     (case login_step pb (fst e) (snd e) st of Inl _ \<Rightarrow> False | Inr st' \<Rightarrow> good_run pb es st')"

lemma good_run_reachable:
  "good_run pb es st \<Longrightarrow> login_reachable pb st \<Longrightarrow> login_run pb es st = Inr st' \<Longrightarrow> login_reachable pb st'"
proof (induction es arbitrary: st)
  case (Cons e es)
  then obtain st1 where "login_step pb (fst e) (snd e) st = Inr st1" by (auto split: sum.splits)
  then show ?case using Cons login_reachable.step [OF Cons.prems(2)] by simp blast
qed simp

section \<open>Properties\<close>

text \<open>A codec for the concrete runs below: the messages are told apart by the first byte of the body.\<close>

definition sample_codec :: login_codec where
  "sample_codec =
     \<lparr>pb_MsgServInfo = \<lparr>pb_ser = (\<lambda>m. [ucast (si_cur_conn_cnt m), ucast (si_max_conn_cnt m)]),
        pb_par = (\<lambda>b. (True, \<lparr>ip1 = ''10.0.0.1'', ip2 = ''10.0.0.2'', si_port = 8000,
          si_max_conn_cnt = ucast (b ! 1), si_cur_conn_cnt = ucast (b ! 0), host_name = ''msg''\<rparr>))\<rparr>,
      pb_UserCntUpdate = \<lparr>pb_ser = (\<lambda>m. [ucast (user_action m)]),
        pb_par = (\<lambda>b. (True, \<lparr>user_action = ucast (b ! 0), uc_user_id = 0\<rparr>))\<rparr>,
      pb_MsgServRsp = \<lparr>pb_ser = (\<lambda>m. [ucast (result_code m)]),
        pb_par = (\<lambda>b. (True, \<lparr>result_code = ucast (b ! 0), prior_ip = None, backip_ip = None, rsp_port = None\<rparr>))\<rparr>,
      pb_HeartBeat = \<lparr>pb_ser = (\<lambda>_. []), pb_par = (\<lambda>_. (True, ()))\<rparr>\<rparr>"

definition sample_frame :: "u16 \<Rightarrow> bytes \<Rightarrow> pdu_header \<times> bytes" where
  "sample_frame cid body = (let w = plain_pdu SID_OTHER cid 0 body in (parse_header (pdu_bytes w), pdu_bytes w))"

lemma sample_frame_simps [simp]:
  "h_command_id (fst (sample_frame cid body)) = cid" "16 \<le> length (snd (sample_frame cid body))"
  "body_of (snd (sample_frame cid body)) = Inr body"
  using parse_header_pdu_bytes [of "plain_pdu SID_OTHER cid 0 body" "[]"]
  by (simp_all add: sample_frame_def Let_def plain_pdu_def body_of_def pdu_bytes_def)

text \<open>
  C2: Safety of the login server. In every state that it reaches by events of well-behaved
  peers (fresh descriptors; PDUs at least a header long; each message server reports itself once; a
  request for a message server ends a read), the global user count is the sum of the
  counts of the known message servers, and every further such event is processed without
  touching freed memory.
\<close>

theorem login_server_safe:
  assumes "login_reachable pb st"
  shows "g_total_online_user_cnt st = online (g_msg_serv_info st)
    \<and> (\<forall>e now. good_event st e \<longrightarrow> (\<exists>st'. login_step pb now e st = Inr st'))"
  using login_reachable_inv [OF assms] conn_invD(5) login_step_inv [of st _ pb] by blast

theorem login_server_safe_witness:
  "\<exists>st. login_run sample_codec
      [(1, Connected 5 LOGIN_CONN_TYPE_MSG_SERV), (2, Readable 5 [sample_frame CID_OTHER_MSG_SERV_INFO [3, 10]] False),
       (3, Readable 5 [sample_frame CID_OTHER_USER_CNT_UPDATE [1]] False)] login_init = Inr st
    \<and> online (g_msg_serv_info st) = 4 \<and> g_total_online_user_cnt st = 4
    \<and> (\<exists>st'. login_step sample_codec 4 (HungUp 5) st = Inr st')"
proof -
  let ?es = "[(1, Connected 5 LOGIN_CONN_TYPE_MSG_SERV), (2, Readable 5 [sample_frame CID_OTHER_MSG_SERV_INFO [3, 10]] False),
       (3, Readable 5 [sample_frame CID_OTHER_USER_CNT_UPDATE [1]] False)]"
  have good: "good_run sample_codec ?es login_init" by code_simp
  have run: "case login_run sample_codec ?es login_init of Inl _ \<Rightarrow> False
      | Inr st \<Rightarrow> online (g_msg_serv_info st) = 4 \<and> good_event st (HungUp 5)" by code_simp
  show ?thesis using login_server_safe [OF good_run_reachable [OF good login_reachable.init]] run
    by (auto split: sum.splits)
qed

text \<open>
  C8: Load balancing. A request for a message server is answered with exactly one PDU, which
  carries the request's sequence number and refuses when no message server is registered or all
  are full, and otherwise names an available message server that no available one undercuts;
  then the connection is closed and forgotten.
\<close>

theorem msg_server_request_answer:
  assumes "conn_inv k st" "map_of (g_msg_serv_conn_map st) h = Some a" "0 < k a" "16 \<le> length img"
  shows "\<exists>st' rsp. HandleMsgServRequest pb now a hdr img st = Inr st'
    \<and> ls_trace st' = ls_trace st @
        [NetSend h (wire_pdu SID_LOGIN CID_LOGIN_RES_MSGSERVER (h_seq_num hdr) (pb_ser (pb_MsgServRsp pb) rsp)), NetClose h]
    \<and> h \<notin> keys (g_msg_serv_conn_map st')
    \<and> (if g_msg_serv_info st = [] then result_code rsp = REFUSE_REASON_NO_MSG_SERVER
       else if \<forall>p\<in>set (g_msg_serv_info st). \<not> available (snd p)
       then result_code rsp = REFUSE_REASON_MSG_SERVER_FULL
       else \<exists>p\<in>set (g_msg_serv_info st). available (snd p)
         \<and> rsp = \<lparr>result_code = REFUSE_REASON_NONE, prior_ip = Some (ip_addr1 (snd p)),
             backip_ip = Some (ip_addr2 (snd p)), rsp_port = Some (ucast (port (snd p)))\<rparr>
         \<and> (\<forall>q\<in>set (g_msg_serv_info st). available (snd q) \<longrightarrow> cur_conn_cnt (snd p) \<le> cur_conn_cnt (snd q)))"
proof -
  let ?rsp = "msg_serv_rsp (g_msg_serv_info st)"
  obtain st' where st': "HandleMsgServRequest pb now a hdr img st = Inr st'" "h \<notin> keys (g_msg_serv_conn_map st')"
    "ls_trace st' = ls_trace st @ [NetSend h (wire_pdu SID_LOGIN CID_LOGIN_RES_MSGSERVER (h_seq_num hdr)
        (pb_ser (pb_MsgServRsp pb) ?rsp)), NetClose h]"
    using HandleMsgServRequest_inv [OF assms, of pb now hdr] by blast
  show ?thesis
    using select_msg_server_spec [of "g_msg_serv_info st"]
    by (intro exI [of _ st'] exI [of _ ?rsp])
       (auto simp: st' msg_serv_rsp_def split: option.splits)
qed

theorem msg_server_request_answer_witness:
  "\<exists>st st' rsp. conn_inv (held 0) st \<and> HandleMsgServRequest sample_codec 4 0 (fst (sample_frame CID_LOGIN_REQ_MSGSERVER []))
      (snd (sample_frame CID_LOGIN_REQ_MSGSERVER [])) st = Inr st' \<and> result_code rsp = REFUSE_REASON_NO_MSG_SERVER
    \<and> ls_trace st' = [NetSend 5 (wire_pdu SID_LOGIN CID_LOGIN_RES_MSGSERVER 0 (pb_ser (pb_MsgServRsp sample_codec) rsp)), NetClose 5]"
proof -
  let ?c = "\<lparr>lc_handle = 5, lc_conn_type = LOGIN_CONN_TYPE_MSG_SERV, lc_last_send_tick = 1, lc_last_recv_tick = 1\<rparr>"
  define st where "st = \<lparr>g_client_conn_map = [], g_msg_serv_conn_map = [(5, 0)], g_total_online_user_cnt = 0,
     g_msg_serv_info = [], ls_heap = \<lparr>hp_objs = [(0, (\<lparr>m_refCount = 2, m_lock = None\<rparr>, ?c))], hp_next = 1\<rparr>,
     ls_callback = [(5, LOGIN_CONN_TYPE_MSG_SERV)], ls_trace = []\<rparr>"
  have inv: "conn_inv (held 0) st"
    by (simp add: st_def conn_inv_def registered_def heap_ok_def hm_ok_def om_ok_def online_def refs_def deref_def)
  have seq: "h_seq_num (fst (sample_frame CID_LOGIN_REQ_MSGSERVER [])) = 0" by code_simp
  show ?thesis
    using msg_server_request_answer [OF inv, of 5 0 "snd (sample_frame CID_LOGIN_REQ_MSGSERVER [])" sample_codec 4
        "fst (sample_frame CID_LOGIN_REQ_MSGSERVER [])"] inv
    by (auto simp: st_def seq)
qed

text \<open>
  A client that connects to the login server's client port is never served: its connection is in no
  connection map, so whatever it sends and even its hang-up leaves the server's state as it is.
\<close>

theorem client_connection_ignored:
  assumes "login_inv st" "h \<notin> keys (ls_callback st)" "h \<noteq> NETLIB_INVALID_HANDLE"
  shows "\<exists>st1. login_step pb now (Connected h LOGIN_CONN_TYPE_CLIENT) st = Inr st1
    \<and> login_step pb now (Readable h fs bad) st1 = Inr st1 \<and> login_step pb now (HungUp h) st1 = Inr st1"
proof -
  obtain st1 where st1: "accept_conn now h LOGIN_CONN_TYPE_CLIENT st = Inr st1" "login_inv st1"
    using accept_conn_inv [OF assms] by blast
  then have "map_of (ls_callback st1) h = Some LOGIN_CONN_TYPE_CLIENT"
    by (auto simp: accept_conn_def OnConnect2_def Let_def result_simps map_of_hm_assign split: prod.splits)
  then have "callback_map h st1 = Some []" using conn_invD(4) [OF st1(2)] by (simp add: callback_map_def)
  then show ?thesis using st1(1) by (simp add: dispatch_def imconn_callback_def FindImConn_def)
qed

theorem client_connection_ignored_witness:
  "\<exists>st1. login_step sample_codec 1 (Connected 7 LOGIN_CONN_TYPE_CLIENT) login_init = Inr st1
    \<and> login_step sample_codec 1 (Readable 7 [sample_frame CID_LOGIN_REQ_MSGSERVER []] False) st1 = Inr st1"
  using client_connection_ignored [OF login_inv_init, of 7 sample_codec 1 "[sample_frame CID_LOGIN_REQ_MSGSERVER []]" False]
  by (auto simp: login_init_def)

text \<open>
  A message server that reports itself again is counted again: the recorded entry stays the old one, and the
  global user count moves away from the sum of the recorded counts by the reported number.
\<close>

theorem repeated_report_drifts:
  assumes "conn_inv k st" "map_of (g_msg_serv_conn_map st) h = Some a" "h \<in> keys (g_msg_serv_info st)" "16 \<le> length img"
  shows "\<exists>st'. HandleMsgServInfo pb a img st = Inr st' \<and> g_msg_serv_info st' = g_msg_serv_info st
    \<and> g_total_online_user_cnt st' = online (g_msg_serv_info st')
        + si_cur_conn_cnt (snd (pb_par (pb_MsgServInfo pb) (drop 16 img)))"
proof -
  obtain c where "deref a (ls_heap st) = Inr c" "lc_handle c = h"
    using conn_invD(6) [OF assms(1,2)] by (auto simp: registered_def)
  then show ?thesis using assms(3,4) conn_invD(5) [OF assms(1)]
    by (simp add: HandleMsgServInfo_def body_of_def om_insert_def Let_def)
qed

theorem repeated_report_drifts_witness:
  "case login_run sample_codec
      [(1, Connected 5 LOGIN_CONN_TYPE_MSG_SERV), (2, Readable 5 [sample_frame CID_OTHER_MSG_SERV_INFO [3, 10]] False)]
      login_init of
    Inl _ \<Rightarrow> False
  | Inr st \<Rightarrow> \<exists>st'. HandleMsgServInfo sample_codec 0 (snd (sample_frame CID_OTHER_MSG_SERV_INFO [4, 10])) st = Inr st'
      \<and> g_total_online_user_cnt st' = online (g_msg_serv_info st') + 4"
proof -
  let ?es = "[(1, Connected 5 LOGIN_CONN_TYPE_MSG_SERV), (2, Readable 5 [sample_frame CID_OTHER_MSG_SERV_INFO [3, 10]] False)]"
  have good: "good_run sample_codec ?es login_init" by code_simp
  have run: "case login_run sample_codec ?es login_init of Inl _ \<Rightarrow> False
      | Inr st \<Rightarrow> map_of (g_msg_serv_conn_map st) 5 = Some 0 \<and> 5 \<in> set (map fst (g_msg_serv_info st))" by code_simp
  have four: "si_cur_conn_cnt (snd (pb_par (pb_MsgServInfo sample_codec)
      (drop 16 (snd (sample_frame CID_OTHER_MSG_SERV_INFO [4, 10]))))) = 4" by code_simp
  show ?thesis
  proof (cases "login_run sample_codec ?es login_init")
    case (Inr st)
    then have st: "map_of (g_msg_serv_conn_map st) 5 = Some 0" "5 \<in> keys (g_msg_serv_info st)" using run by simp_all
    have inv: "login_inv st"
      using good_run_reachable [OF good login_reachable.init Inr] by (rule login_reachable_inv)
    show ?thesis using repeated_report_drifts [OF inv st, of "snd (sample_frame CID_OTHER_MSG_SERV_INFO [4, 10])" sample_codec]
      Inr four by auto
  qed (use run in simp)
qed

text \<open>
  Two requests for a message server in one read make the server use a deleted object: the first closes
  the connection, the second closes it again and releases the reference that keeps the object alive.
\<close>

theorem double_request_faults:
  "login_run sample_codec
     [(1, Connected 5 LOGIN_CONN_TYPE_MSG_SERV),
      (2, Readable 5 [sample_frame CID_LOGIN_REQ_MSGSERVER [], sample_frame CID_LOGIN_REQ_MSGSERVER []] False)]
     login_init = Inl MemFault"
  by code_simp

end
