(* ===== verification/UserInfo.thy ===== *)
theory UserInfo
  imports ServerBase
begin

text \<open>
  \<open>CUserInfo\<close> (\<open>route_server/UserInfo.h\<close>, \<open>route_server/UserInfo.cpp\<close>): what the route server
  knows of one user, the message servers he is logged in on and how often with each
  type of client.
\<close>

record user_info =
  m_RouteConnSet :: "nat list"
  m_ClientTypeList :: "(u32, u32) assoc"

definition CUserInfo :: user_info where
  "CUserInfo = \<lparr>m_RouteConnSet = [], m_ClientTypeList = []\<rparr>"

definition AddRouteConn :: "nat \<Rightarrow> user_info \<Rightarrow> user_info" where
  "AddRouteConn pConn u = u\<lparr>m_RouteConnSet := pset_insert pConn (m_RouteConnSet u)\<rparr>"

definition RemoveRouteConn :: "nat \<Rightarrow> user_info \<Rightarrow> user_info" where
  "RemoveRouteConn pConn u = u\<lparr>m_RouteConnSet := pset_erase pConn (m_RouteConnSet u)\<rparr>"

definition ClearRouteConn :: "user_info \<Rightarrow> user_info" where
  "ClearRouteConn u = u\<lparr>m_RouteConnSet := []\<rparr>"

definition FindRouteConn :: "nat \<Rightarrow> user_info \<Rightarrow> bool" where
  "FindRouteConn pConn u \<longleftrightarrow> pConn \<in> set (m_RouteConnSet u)"

definition GetRouteConnCount :: "user_info \<Rightarrow> nat" where
  "GetRouteConnCount u = length (m_RouteConnSet u)"

definition AddClientType :: "u32 \<Rightarrow> user_info \<Rightarrow> user_info" where
  "AddClientType client_type u =
     u\<lparr>m_ClientTypeList := om_assign client_type
        (case map_of (m_ClientTypeList u) client_type of Some n \<Rightarrow> n + 1 | None \<Rightarrow> 1) (m_ClientTypeList u)\<rparr>"

definition RemoveClientType :: "u32 \<Rightarrow> user_info \<Rightarrow> user_info" where
  "RemoveClientType client_type u =
     (case map_of (m_ClientTypeList u) client_type of
        None \<Rightarrow> u
      | Some n \<Rightarrow>
          let count = n - 1
          in if count > 0 then u\<lparr>m_ClientTypeList := om_assign client_type count (m_ClientTypeList u)\<rparr>
             else u\<lparr>m_ClientTypeList := map_erase client_type (m_ClientTypeList u)\<rparr>)"

definition GetCountByClientType :: "u32 \<Rightarrow> user_info \<Rightarrow> u32" where
  "GetCountByClientType client_type u =
     (case map_of (m_ClientTypeList u) client_type of Some n \<Rightarrow> n | None \<Rightarrow> 0)"

definition IsMsgConnNULL :: "user_info \<Rightarrow> bool" where
  "IsMsgConnNULL u \<longleftrightarrow> m_ClientTypeList u = []"

definition ClearClientType :: "user_info \<Rightarrow> user_info" where
  "ClearClientType u = u\<lparr>m_ClientTypeList := []\<rparr>"

definition IsPCClientLogin :: "user_info \<Rightarrow> bool" where
  "IsPCClientLogin u \<longleftrightarrow> list_ex (\<lambda>p. CHECK_CLIENT_TYPE_PC (fst p)) (m_ClientTypeList u)"

definition IsClientLoginNULL :: "user_info \<Rightarrow> bool" where
  "IsClientLoginNULL u \<longleftrightarrow> m_ClientTypeList u = []"

definition IsMobileClientLogin :: "user_info \<Rightarrow> bool" where
  "IsMobileClientLogin u \<longleftrightarrow> list_ex (\<lambda>p. CHECK_CLIENT_TYPE_MOBILE (fst p)) (m_ClientTypeList u)"

definition GetStatus :: "user_info \<Rightarrow> u32" where
  "GetStatus u =
     (if list_ex (\<lambda>p. CHECK_CLIENT_TYPE_PC (fst p)) (m_ClientTypeList u) then USER_STATUS_ONLINE
      else USER_STATUS_OFFLINE)"

section \<open>Invariant and counts\<close>

definition user_ok :: "user_info \<Rightarrow> bool" where
  "user_ok u \<longleftrightarrow> distinct (m_RouteConnSet u) \<and> om_ok (m_ClientTypeList u)
     \<and> (\<forall>p\<in>set (m_ClientTypeList u). 0 < snd p)"

lemma user_ok_new [simp]: "user_ok CUserInfo"
  by (simp add: user_ok_def CUserInfo_def om_ok_def)

lemma user_ok_conns [simp]:
  "user_ok u \<Longrightarrow> user_ok (AddRouteConn a u)" "user_ok u \<Longrightarrow> user_ok (RemoveRouteConn a u)"
  by (simp_all add: user_ok_def AddRouteConn_def RemoveRouteConn_def)

lemma RouteConnSet_simps [simp]:
  "set (m_RouteConnSet (AddRouteConn a u)) = insert a (set (m_RouteConnSet u))"
  "set (m_RouteConnSet (RemoveRouteConn a u)) = set (m_RouteConnSet u) - {a}"
  "m_RouteConnSet (AddClientType t u) = m_RouteConnSet u"
  "m_RouteConnSet (RemoveClientType t u) = m_RouteConnSet u"
  "m_ClientTypeList (AddRouteConn a u) = m_ClientTypeList u"
  "m_ClientTypeList (RemoveRouteConn a u) = m_ClientTypeList u"
  by (simp_all add: AddRouteConn_def RemoveRouteConn_def AddClientType_def RemoveClientType_def Let_def
      split: option.splits)

lemma count_conns [simp]:
  "GetCountByClientType t (AddRouteConn a u) = GetCountByClientType t u"
  "GetCountByClientType t (RemoveRouteConn a u) = GetCountByClientType t u"
  "GetCountByClientType t CUserInfo = 0"
  by (simp_all add: GetCountByClientType_def CUserInfo_def)

text \<open>A type that would overflow its counter gets the count 0; below that a login adds one.\<close>

lemma count_AddClientType:
  "user_ok u \<Longrightarrow> GetCountByClientType s (AddClientType t u) = GetCountByClientType s u + (if s = t then 1 else 0)"
  by (auto simp: user_ok_def GetCountByClientType_def AddClientType_def om.find_assign split: option.splits)

lemma user_ok_AddClientType:
  assumes "user_ok u" "GetCountByClientType t u \<noteq> - 1"
  shows "user_ok (AddClientType t u)"
proof -
  let ?n = "case map_of (m_ClientTypeList u) t of Some n \<Rightarrow> n + 1 | None \<Rightarrow> 1"
  have "?n \<noteq> 0" using assms(2)
    by (auto simp: GetCountByClientType_def add_eq_0_iff2 split: option.splits)
  then show ?thesis using assms(1)
    by (auto simp: user_ok_def AddClientType_def om.ok_assign om.set_assign word_gt_0)
qed

lemma count_pos:
  assumes "user_ok u"
  shows "0 < GetCountByClientType t u \<longleftrightarrow> t \<in> fst ` set (m_ClientTypeList u)"
  using assms by (force simp: user_ok_def GetCountByClientType_def split: option.splits
      dest: map_of_SomeD simp: map_of_eq_None_iff)

lemma count_RemoveClientType:
  assumes "user_ok u"
  shows "GetCountByClientType s (RemoveClientType t u) =
    (if s = t \<and> 0 < GetCountByClientType t u then GetCountByClientType t u - 1 else GetCountByClientType s u)"
proof (cases "map_of (m_ClientTypeList u) t")
  case None
  then show ?thesis by (auto simp: RemoveClientType_def GetCountByClientType_def)
next
  case (Some n)
  have "0 < n" using assms Some by (force simp: user_ok_def dest: map_of_SomeD)
  then show ?thesis using assms Some
    by (auto simp: RemoveClientType_def GetCountByClientType_def Let_def user_ok_def om.find_assign
        om.find_erase word_gt_0)
qed

lemma user_ok_RemoveClientType: "user_ok u \<Longrightarrow> user_ok (RemoveClientType t u)"
  by (auto simp: user_ok_def RemoveClientType_def Let_def om.ok_assign om.set_assign om.ok_erase om.set_erase
      split: option.splits)

text \<open>The queries in terms of the counts.\<close>

lemma queries_by_count:
  assumes "user_ok u"
  shows "IsPCClientLogin u \<longleftrightarrow> (\<exists>t. CHECK_CLIENT_TYPE_PC t \<and> 0 < GetCountByClientType t u)"
    and "IsMobileClientLogin u \<longleftrightarrow> (\<exists>t. CHECK_CLIENT_TYPE_MOBILE t \<and> 0 < GetCountByClientType t u)"
    and "IsMsgConnNULL u \<longleftrightarrow> (\<forall>t. GetCountByClientType t u = 0)"
    and "GetStatus u = (if IsPCClientLogin u then USER_STATUS_ONLINE else USER_STATUS_OFFLINE)"
proof -
  have "IsMsgConnNULL u \<longleftrightarrow> (\<forall>t. t \<notin> fst ` set (m_ClientTypeList u))"
    by (cases "m_ClientTypeList u") (auto simp: IsMsgConnNULL_def)
  then show "IsMsgConnNULL u \<longleftrightarrow> (\<forall>t. GetCountByClientType t u = 0)"
    by (simp add: count_pos [OF assms, symmetric] word_gt_0)
qed (auto simp: IsPCClientLogin_def IsMobileClientLogin_def GetStatus_def list_ex_iff count_pos [OF assms])

end
