(* ===== verification/RouteServer.thy ===== *)
theory RouteServer
  imports UserInfo
begin

text \<open>
  The route server (\<open>route_server/RouteConn.cpp\<close>, \<open>route_server/route_server.cpp\<close>): every message
  server keeps a connection here; the route server tracks which users are online where
  and forwards messages between message servers. A \<open>CUserInfo\<close> is owned by its entry in
  \<open>g_user_map\<close>, so the map holds the objects themselves.
\<close>

record route_conn =
  rc_handle :: u32
  rc_last_send_tick :: u64
  rc_last_recv_tick :: u64
  m_bMaster :: bool

record route_server =
  g_route_conn_map :: conn_map
  g_user_map :: "(u32, user_info) assoc"
  rs_heap :: "route_conn heap"
  rs_sockets :: "u32 list"
  rs_trace :: "net_out list"

definition route_init :: route_server where
  "route_init = \<lparr>g_route_conn_map = [], g_user_map = [], rs_heap = empty_heap, rs_sockets = [], rs_trace = []\<rparr>"

section \<open>Messages\<close>

record ServerUserStat =
  us_user_id :: u32
  us_status :: u32
  us_client_type :: u32

record IMUsersStatReq =
  sr_user_id :: u32
  sr_user_id_list :: "u32 list"
  sr_attach_data :: bytes

record IMUsersStatRsp =
  sp_user_id :: u32
  sp_user_stat_list :: "(u32 \<times> u32) list"
  sp_attach_data :: bytes

record route_codec =
  pb_HeartBeat :: "unit pb"
  pb_OnlineUserInfo :: "ServerUserStat list pb"
  pb_UserStatusUpdate :: "ServerUserStat pb"
  pb_RoleSet :: "u32 pb"
  pb_UsersStatReq :: "IMUsersStatReq pb"
  pb_UsersStatRsp :: "IMUsersStatRsp pb"
  pb_PCLoginStatusNotify :: "(u32 \<times> u32) pb"
  pb_UserStatNotify :: "(u32 \<times> u32) pb"

section \<open>Operations\<close>

definition GetUserInfo :: "u32 \<Rightarrow> route_server \<Rightarrow> user_info option" where
  "GetUserInfo user_id st = map_of (g_user_map st) user_id"

definition route_SendPdu :: "u64 \<Rightarrow> nat \<Rightarrow> bytes \<Rightarrow> route_server \<Rightarrow> route_server res" where
  "route_SendPdu now a data st =
     bindR (deref a (rs_heap st)) (\<lambda>c.
       Inr (st\<lparr>rs_heap := set_obj a (c\<lparr>rc_last_send_tick := now\<rparr>) (rs_heap st),
               rs_trace := rs_trace st @ [NetSend (rc_handle c) data]\<rparr>))"

text \<open>The loop of \<open>Close\<close> over the users: the connection leaves each set, users without connections are deleted.\<close>

fun close_users :: "nat \<Rightarrow> (u32, user_info) assoc \<Rightarrow> (u32, user_info) assoc" where
  "close_users a [] = []"
| "close_users a (it # its) =
     (let pUser = RemoveRouteConn a (snd it)
      in if GetRouteConnCount pUser = 0 then close_users a its
         else (fst it, pUser) # close_users a its)"

definition Close :: "nat \<Rightarrow> route_server \<Rightarrow> route_server res" where
  "Close a st =
     bindR (deref a (rs_heap st)) (\<lambda>c.
       let st1 = (if rc_handle c \<noteq> NETLIB_INVALID_HANDLE then
                    st\<lparr>rs_sockets := removeAll (rc_handle c) (rs_sockets st),
                       rs_trace := rs_trace st @ [NetClose (rc_handle c)],
                       g_route_conn_map := map_erase (rc_handle c) (g_route_conn_map st)\<rparr>
                  else st);
           st2 = st1\<lparr>g_user_map := close_users a (g_user_map st1)\<rparr>
       in bindR (release_ref a (rs_heap st2)) (\<lambda>h. Inr (st2\<lparr>rs_heap := h\<rparr>)))"

definition OnConnect :: "nat \<Rightarrow> u32 \<Rightarrow> route_server \<Rightarrow> route_server res" where
  "OnConnect a handle st =
     bindR (deref a (rs_heap st)) (\<lambda>c.
       Inr (st\<lparr>rs_heap := set_obj a (c\<lparr>rc_handle := handle\<rparr>) (rs_heap st),
               g_route_conn_map := hm_insert handle a (g_route_conn_map st),
               rs_sockets := handle # rs_sockets st\<rparr>))"

definition OnClose :: "nat \<Rightarrow> route_server \<Rightarrow> route_server res" where
  "OnClose a st = Close a st"

definition OnTimer :: "route_codec \<Rightarrow> u64 \<Rightarrow> u64 \<Rightarrow> nat \<Rightarrow> route_server \<Rightarrow> route_server res" where
  "OnTimer pb now curr_tick a st =
     bindR (deref a (rs_heap st)) (\<lambda>c.
     bindR (if curr_tick > rc_last_send_tick c + SERVER_HEARTBEAT_INTERVAL then
              route_SendPdu now a (wire_pdu SID_OTHER CID_OTHER_HEARTBEAT 0 (pb_ser (pb_HeartBeat pb) ())) st
            else Inr st) (\<lambda>st1.
       if curr_tick > rc_last_recv_tick c + SERVER_TIMEOUT then Close a st1 else Inr st1))"

definition UpdateUserStatus :: "nat \<Rightarrow> u32 \<Rightarrow> u32 \<Rightarrow> u32 \<Rightarrow> route_server \<Rightarrow> route_server" where
  "UpdateUserStatus a user_id status client_type st =
     (case GetUserInfo user_id st of
        Some pUser \<Rightarrow>
          if FindRouteConn a pUser then
            if status = USER_STATUS_OFFLINE then
              let u1 = RemoveClientType client_type pUser
              in if IsMsgConnNULL u1 then
                   let u2 = RemoveRouteConn a u1
                   in if GetRouteConnCount u2 = 0 then st\<lparr>g_user_map := map_erase user_id (g_user_map st)\<rparr>
                      else st\<lparr>g_user_map := hm_assign user_id u2 (g_user_map st)\<rparr>
                 else st\<lparr>g_user_map := hm_assign user_id u1 (g_user_map st)\<rparr>
            else st\<lparr>g_user_map := hm_assign user_id (AddClientType client_type pUser) (g_user_map st)\<rparr>
          else
            if status \<noteq> USER_STATUS_OFFLINE then
              st\<lparr>g_user_map := hm_assign user_id (AddClientType client_type (AddRouteConn a pUser)) (g_user_map st)\<rparr>
            else st
      | None \<Rightarrow>
          if status \<noteq> USER_STATUS_OFFLINE then
            st\<lparr>g_user_map := hm_insert user_id (AddClientType client_type (AddRouteConn a CUserInfo)) (g_user_map st)\<rparr>
          else st)"

fun broadcast_loop :: "u64 \<Rightarrow> bytes \<Rightarrow> nat option \<Rightarrow> conn_map \<Rightarrow> route_server \<Rightarrow> route_server res" where
  "broadcast_loop now data pFromConn [] st = Inr st"
| "broadcast_loop now data pFromConn (it # its) st =
     bindR (if Some (snd it) \<noteq> pFromConn then route_SendPdu now (snd it) data st else Inr st)
       (broadcast_loop now data pFromConn its)"

definition BroadcastMsg :: "u64 \<Rightarrow> bytes \<Rightarrow> nat option \<Rightarrow> route_server \<Rightarrow> route_server res" where
  "BroadcastMsg now data pFromConn st = broadcast_loop now data pFromConn (g_route_conn_map st) st"

fun send_to_conns :: "u64 \<Rightarrow> nat \<Rightarrow> bool \<Rightarrow> bytes \<Rightarrow> nat list \<Rightarrow> route_server \<Rightarrow> route_server res" where
  "send_to_conns now a bAll data [] st = Inr st"
| "send_to_conns now a bAll data (pToConn # rest) st =
     bindR (if bAll \<or> pToConn \<noteq> a then route_SendPdu now pToConn data st else Inr st)
       (send_to_conns now a bAll data rest)"

definition SendPduToUser :: "u64 \<Rightarrow> nat \<Rightarrow> u32 \<Rightarrow> bytes \<Rightarrow> bool \<Rightarrow> route_server \<Rightarrow> route_server res" where
  "SendPduToUser now a user_id data bAll st =
     (case GetUserInfo user_id st of
        None \<Rightarrow> Inr st
      | Some pUser \<Rightarrow> send_to_conns now a bAll data (m_RouteConnSet pUser) st)"

section \<open>Handlers\<close>

definition HandleOnlineUserInfo :: "route_codec \<Rightarrow> nat \<Rightarrow> bytes \<Rightarrow> route_server \<Rightarrow> route_server res" where
  "HandleOnlineUserInfo pb a img st =
     parsed (pb_OnlineUserInfo pb) img (\<lambda>msg.
       Inr (fold (\<lambda>s. UpdateUserStatus a (us_user_id s) (us_status s) (us_client_type s)) msg st)) st"

definition HandleUserStatusUpdate :: "route_codec \<Rightarrow> u64 \<Rightarrow> nat \<Rightarrow> bytes \<Rightarrow> route_server \<Rightarrow> route_server res" where
  "HandleUserStatusUpdate pb now a img st =
     parsed (pb_UserStatusUpdate pb) img (\<lambda>msg.
       let user_status = us_status msg; user_id = us_user_id msg; client_type = us_client_type msg;
           st1 = UpdateUserStatus a user_id user_status client_type st;
           pUser = GetUserInfo user_id st1;
           pdu = wire_pdu SID_OTHER CID_OTHER_LOGIN_STATUS_NOTIFY 0 (pb_ser (pb_PCLoginStatusNotify pb)
             (user_id, if user_status = USER_STATUS_OFFLINE then IM_PC_LOGIN_STATUS_OFF else IM_PC_LOGIN_STATUS_ON));
           pdu2 = wire_pdu SID_BUDDY_LIST CID_BUDDY_LIST_STATUS_NOTIFY 0 (pb_ser (pb_UserStatNotify pb)
             (user_id, user_status))
       in bindR
            (case pUser of
               None \<Rightarrow> Inr st1
             | Some u \<Rightarrow>
                 if user_status = USER_STATUS_OFFLINE then
                   (if CHECK_CLIENT_TYPE_PC client_type \<and> \<not> IsPCClientLogin u then BroadcastMsg now pdu None st1
                    else Inr st1)
                 else
                   (if IsPCClientLogin u then BroadcastMsg now pdu None st1 else Inr st1))
            (\<lambda>st2.
               if CHECK_CLIENT_TYPE_PC client_type then
                 case pUser of
                   Some u \<Rightarrow>
                     if user_status = USER_STATUS_OFFLINE \<and> IsPCClientLogin u then Inr st2
                     else BroadcastMsg now pdu2 None st2
                 | None \<Rightarrow> BroadcastMsg now pdu2 None st2
               else Inr st2)) st"

definition HandleRoleSet :: "route_codec \<Rightarrow> nat \<Rightarrow> bytes \<Rightarrow> route_server \<Rightarrow> route_server res" where
  "HandleRoleSet pb a img st =
     parsed (pb_RoleSet pb) img (\<lambda>master.
       bindR (deref a (rs_heap st)) (\<lambda>c.
         Inr (st\<lparr>rs_heap := set_obj a (c\<lparr>m_bMaster := (master = 1)\<rparr>) (rs_heap st)\<rparr>))) st"

definition HandleUsersStatusRequest :: "route_codec \<Rightarrow> u64 \<Rightarrow> nat \<Rightarrow> pdu_header \<Rightarrow> bytes \<Rightarrow> route_server \<Rightarrow>
    route_server res" where
  "HandleUsersStatusRequest pb now a hdr img st =
     parsed (pb_UsersStatReq pb) img (\<lambda>msg.
       let stat = (\<lambda>user_id. case GetUserInfo user_id st of
                     Some pUser \<Rightarrow> GetStatus pUser | None \<Rightarrow> USER_STATUS_OFFLINE);
           msg2 = \<lparr>sp_user_id = sr_user_id msg,
                   sp_user_stat_list = map (\<lambda>user_id. (user_id, stat user_id)) (sr_user_id_list msg),
                   sp_attach_data = sr_attach_data msg\<rparr>
       in route_SendPdu now a (wire_pdu SID_BUDDY_LIST CID_BUDDY_LIST_USERS_STATUS_RESPONSE (h_seq_num hdr)
            (pb_ser (pb_UsersStatRsp pb) msg2)) st) st"

definition forwarded :: "u16 list" where
  "forwarded = [CID_MSG_DATA, CID_SWITCH_P2P_CMD, CID_MSG_READ_NOTIFY, CID_OTHER_SERVER_KICK_USER,
     CID_GROUP_CHANGE_MEMBER_NOTIFY, CID_FILE_NOTIFY, CID_BUDDY_LIST_REMOVE_SESSION_NOTIFY]"

definition HandlePdu :: "route_codec \<Rightarrow> u64 \<Rightarrow> nat \<Rightarrow> pdu_header \<Rightarrow> bytes \<Rightarrow> route_server \<Rightarrow> route_server res" where
  "HandlePdu pb now a hdr img st =
     (let cid = h_command_id hdr
      in if cid = CID_OTHER_HEARTBEAT then Inr st
         else if cid = CID_OTHER_ONLINE_USER_INFO then HandleOnlineUserInfo pb a img st
         else if cid = CID_OTHER_USER_STATUS_UPDATE then HandleUserStatusUpdate pb now a img st
         else if cid = CID_OTHER_ROLE_SET then HandleRoleSet pb a img st
         else if cid = CID_BUDDY_LIST_USERS_STATUS_REQUEST then HandleUsersStatusRequest pb now a hdr img st
         else if cid \<in> set forwarded then BroadcastMsg now img (Some a) st
         else if cid = CID_BUDDY_LIST_SIGN_INFO_CHANGED_NOTIFY then BroadcastMsg now img None st
         else Inr st)"

section \<open>Events\<close>

fun handle_frames :: "route_codec \<Rightarrow> u64 \<Rightarrow> nat \<Rightarrow> (pdu_header \<times> bytes) list \<Rightarrow> route_server \<Rightarrow> route_server res" where
  "handle_frames pb now a [] st = Inr st"
| "handle_frames pb now a (f # fs) st =
     bindR (HandlePdu pb now a (fst f) (snd f) st) (\<lambda>st1.
     bindR (deref a (rs_heap st1)) (\<lambda>_. handle_frames pb now a fs st1))"

definition route_OnRead :: "route_codec \<Rightarrow> u64 \<Rightarrow> (pdu_header \<times> bytes) list \<Rightarrow> bool \<Rightarrow> nat \<Rightarrow> route_server \<Rightarrow>
    route_server res" where
  "route_OnRead pb now fs bad a st =
     bindR (deref a (rs_heap st)) (\<lambda>c.
     bindR (handle_frames pb now a fs
              (st\<lparr>rs_heap := set_obj a (c\<lparr>rc_last_recv_tick := now\<rparr>) (rs_heap st)\<rparr>)) (\<lambda>st1.
       if bad then OnClose a st1 else Inr st1))"

definition rs_add_ref :: "nat \<Rightarrow> route_server \<Rightarrow> route_server res" where
  "rs_add_ref a st = bindR (add_ref a (rs_heap st)) (\<lambda>h. Inr (st\<lparr>rs_heap := h\<rparr>))"

definition rs_release_ref :: "nat \<Rightarrow> route_server \<Rightarrow> route_server res" where
  "rs_release_ref a st = bindR (release_ref a (rs_heap st)) (\<lambda>h. Inr (st\<lparr>rs_heap := h\<rparr>))"

definition dispatch :: "(nat \<Rightarrow> route_server \<Rightarrow> route_server res) \<Rightarrow> netlib_msg \<Rightarrow> u32 \<Rightarrow> route_server \<Rightarrow>
    route_server res" where
  "dispatch method msg h st =
     imconn_callback rs_add_ref rs_release_ref (\<lambda>_. method)
       (if h \<in> set (rs_sockets st) then Some (g_route_conn_map st) else None) msg h st"

fun timer_loop :: "route_codec \<Rightarrow> u64 \<Rightarrow> u64 \<Rightarrow> conn_map \<Rightarrow> route_server \<Rightarrow> route_server res" where
  "timer_loop pb now cur_time [] st = Inr st"
| "timer_loop pb now cur_time (it # its) st =
     bindR (OnTimer pb now cur_time (snd it) st) (timer_loop pb now cur_time its)"

definition route_serv_timer_callback :: "route_codec \<Rightarrow> u64 \<Rightarrow> u64 \<Rightarrow> route_server \<Rightarrow> route_server res" where
  "route_serv_timer_callback pb now cur_time st = timer_loop pb now cur_time (g_route_conn_map st) st"

definition route_serv_callback :: "u64 \<Rightarrow> u32 \<Rightarrow> route_server \<Rightarrow> route_server res" where
  "route_serv_callback now handle st =
     (let (a, h) = new_obj \<lparr>rc_handle = NETLIB_INVALID_HANDLE, rc_last_send_tick = now,
                            rc_last_recv_tick = now, m_bMaster = False\<rparr> (rs_heap st)
      in OnConnect a handle (st\<lparr>rs_heap := h\<rparr>))"

datatype route_event =
    Connected u32
  | Readable u32 "(pdu_header \<times> bytes) list" bool
  | HungUp u32
  | TimerTick u64

fun route_step :: "route_codec \<Rightarrow> u64 \<Rightarrow> route_event \<Rightarrow> route_server \<Rightarrow> route_server res" where
  "route_step pb now (Connected h) st = route_serv_callback now h st"
| "route_step pb now (Readable h fs bad) st = dispatch (route_OnRead pb now fs bad) NETLIB_MSG_READ h st"
| "route_step pb now (HungUp h) st = dispatch OnClose NETLIB_MSG_CLOSE h st"
| "route_step pb now (TimerTick cur_time) st = route_serv_timer_callback pb now cur_time st"

section \<open>Invariant\<close>

definition route_registered :: "(nat \<Rightarrow> int) \<Rightarrow> route_server \<Rightarrow> u32 \<Rightarrow> nat \<Rightarrow> bool" where
  "route_registered k st h a \<longleftrightarrow> h \<noteq> NETLIB_INVALID_HANDLE \<and> h \<in> set (rs_sockets st)
     \<and> refs a (rs_heap st) = 1 + k a \<and> (\<exists>c. deref a (rs_heap st) = Inr c \<and> rc_handle c = h)"

definition user_wf :: "nat set \<Rightarrow> user_info \<Rightarrow> bool" where
  "user_wf conns u \<longleftrightarrow> distinct (m_RouteConnSet u) \<and> om_ok (m_ClientTypeList u)
     \<and> m_RouteConnSet u \<noteq> [] \<and> set (m_RouteConnSet u) \<subseteq> conns"

definition route_inv :: "(nat \<Rightarrow> int) \<Rightarrow> route_server \<Rightarrow> bool" where
  "route_inv k st \<longleftrightarrow> heap_ok (rs_heap st) \<and> hm_ok (g_route_conn_map st) \<and> hm_ok (g_user_map st)
     \<and> (\<forall>h a. map_of (g_route_conn_map st) h = Some a \<longrightarrow> route_registered k st h a)
     \<and> (\<forall>i u. map_of (g_user_map st) i = Some u \<longrightarrow> user_wf (ran (map_of (g_route_conn_map st))) u)"

lemma route_invD:
  assumes "route_inv k st"
  shows "heap_ok (rs_heap st)" "hm_ok (g_route_conn_map st)" "hm_ok (g_user_map st)"
    "\<And>h a. map_of (g_route_conn_map st) h = Some a \<Longrightarrow> route_registered k st h a"
    "\<And>i u. map_of (g_user_map st) i = Some u \<Longrightarrow> user_wf (ran (map_of (g_route_conn_map st))) u"
  using assms by (simp_all add: route_inv_def)

lemma route_registered_live: "route_registered k st h a \<Longrightarrow> live a (rs_heap st)"
  by (auto simp: route_registered_def dest: deref_live)

text \<open>An address is registered under its own handle only.\<close>

lemma route_registered_handle:
  assumes "route_inv k st" "map_of (g_route_conn_map st) h = Some a" "map_of (g_route_conn_map st) h' = Some a"
  shows "h' = h"
  using route_invD(4) [OF assms(1,2)] route_invD(4) [OF assms(1,3)] by (auto simp: route_registered_def)

text \<open>Changing ticks or the role of an object, and the trace, keeps the invariant.\<close>

lemma route_inv_set_obj:
  assumes inv: "route_inv k st" and d: "deref a (rs_heap st) = Inr c" and same: "rc_handle c' = rc_handle c"
  shows "route_inv k (st\<lparr>rs_heap := set_obj a c' (rs_heap st), rs_trace := t\<rparr>)"
proof -
  have "route_registered k (st\<lparr>rs_heap := set_obj a c' (rs_heap st), rs_trace := t\<rparr>) h b"
    if "route_registered k st h b" for h b
    using that d same deref_live [OF d] by (auto simp: route_registered_def deref_set_obj)
  then show ?thesis using inv by (simp add: route_inv_def heap_ok_set_obj)
qed

definition route_frame :: "route_server \<Rightarrow> route_server \<Rightarrow> bool" where
  "route_frame st st' \<longleftrightarrow> g_route_conn_map st' = g_route_conn_map st \<and> g_user_map st' = g_user_map st
     \<and> (\<forall>a. map_sum id rc_handle (deref a (rs_heap st')) = map_sum id rc_handle (deref a (rs_heap st)))"

lemma route_frame_refl [simp]: "route_frame st st"
  by (simp add: route_frame_def)

lemma route_frame_trans [trans]: "route_frame st st1 \<Longrightarrow> route_frame st1 st2 \<Longrightarrow> route_frame st st2"
  by (simp add: route_frame_def)

lemma route_SendPdu_spec:
  assumes inv: "route_inv k st" and d: "deref a (rs_heap st) = Inr c"
  shows "\<exists>st'. route_SendPdu now a data st = Inr st' \<and> route_inv k st' \<and> route_frame st st'
    \<and> rs_trace st' = rs_trace st @ [NetSend (rc_handle c) data]"
  using route_inv_set_obj [OF inv d, of "c\<lparr>rc_last_send_tick := now\<rparr>"] d deref_live [OF d]
  by (simp add: route_SendPdu_def route_frame_def deref_set_obj)

lemma broadcast_loop_spec:
  assumes "route_inv k st" "\<forall>(h, a)\<in>set its. map_of (g_route_conn_map st) h = Some a"
  shows "\<exists>st'. broadcast_loop now data src its st = Inr st' \<and> route_inv k st' \<and> route_frame st st'
    \<and> rs_trace st' = rs_trace st @ map (\<lambda>(h, a). NetSend h data) (filter (\<lambda>(h, a). Some a \<noteq> src) its)"
  using assms
proof (induction its arbitrary: st)
  case (Cons it its)
  obtain h a where it: "it = (h, a)" by (cases it)
  show ?case
  proof (cases "Some a = src")
    case True
    then show ?thesis using Cons it by auto
  next
    case False
    obtain c where c: "deref a (rs_heap st) = Inr c" "rc_handle c = h"
      using route_invD(4) [OF Cons.prems(1)] Cons.prems(2) it by (auto simp: route_registered_def)
    then obtain st1 where s1: "route_SendPdu now a data st = Inr st1" "route_inv k st1" "route_frame st st1"
      "rs_trace st1 = rs_trace st @ [NetSend h data]"
      using route_SendPdu_spec [OF Cons.prems(1) c(1)] by auto
    have "\<forall>(h, a)\<in>set its. map_of (g_route_conn_map st1) h = Some a"
      using Cons.prems(2) s1(3) by (simp add: route_frame_def)
    from Cons.IH [OF s1(2) this] show ?thesis
      using False it s1 route_frame_trans [OF s1(3)] by auto
  qed
qed simp

lemma BroadcastMsg_spec:
  assumes inv: "route_inv k st"
  shows "\<exists>st'. BroadcastMsg now data src st = Inr st' \<and> route_inv k st' \<and> route_frame st st'
    \<and> rs_trace st' = rs_trace st @
        map (\<lambda>(h, a). NetSend h data) (filter (\<lambda>(h, a). Some a \<noteq> src) (g_route_conn_map st))"
  unfolding BroadcastMsg_def
  using hm.set_eq_graph [OF route_invD(2) [OF inv]] by (intro broadcast_loop_spec [OF inv]) auto

section \<open>Status updates\<close>

lemma user_wf_ops:
  assumes "user_wf conns u"
  shows "user_wf conns (AddClientType t u)" "user_wf conns (RemoveClientType t u)"
    "a \<in> conns \<Longrightarrow> user_wf conns (AddRouteConn a u)"
    "m_RouteConnSet (RemoveRouteConn a u) \<noteq> [] \<Longrightarrow> user_wf conns (RemoveRouteConn a u)"
  using assms set_pset_insert [of a "m_RouteConnSet u"]
  by (auto simp: user_wf_def AddClientType_def RemoveClientType_def AddRouteConn_def RemoveRouteConn_def Let_def
      om.ok_assign om.ok_erase simp del: set_pset_insert split: option.splits)

lemma route_inv_users:
  assumes inv: "route_inv k st" and ok: "hm_ok m"
    and wf: "\<And>i u. map_of m i = Some u \<Longrightarrow> user_wf (ran (map_of (g_route_conn_map st))) u"
  shows "route_inv k (st\<lparr>g_user_map := m\<rparr>)"
proof -
  have "route_registered k (st\<lparr>g_user_map := m\<rparr>) h a" if "route_registered k st h a" for h a
    using that by (simp add: route_registered_def)
  then show ?thesis using inv ok wf by (simp add: route_inv_def)
qed

lemma route_inv_assign:
  assumes "route_inv k st" "user_wf (ran (map_of (g_route_conn_map st))) u"
  shows "route_inv k (st\<lparr>g_user_map := hm_assign i u (g_user_map st)\<rparr>)"
  using assms route_invD(3,5) [OF assms(1)]
  by (intro route_inv_users) (auto simp: hm.ok_assign hm.find_assign split: if_splits)

lemma UpdateUserStatus_inv:
  assumes inv: "route_inv k st" and a: "a \<in> ran (map_of (g_route_conn_map st))"
  shows "route_inv k (UpdateUserStatus a i s t st)"
    and "g_route_conn_map (UpdateUserStatus a i s t st) = g_route_conn_map st"
    and "rs_heap (UpdateUserStatus a i s t st) = rs_heap st"
    and "rs_trace (UpdateUserStatus a i s t st) = rs_trace st"
proof -
  let ?A = "ran (map_of (g_route_conn_map st))"
  have new: "user_wf ?A (AddClientType t (AddRouteConn a CUserInfo))"
    using a by (simp add: user_wf_def AddClientType_def AddRouteConn_def CUserInfo_def om_ok_def pset_insert_def)
  have ins: "route_inv k (st\<lparr>g_user_map := hm_insert i (AddClientType t (AddRouteConn a CUserInfo)) (g_user_map st)\<rparr>)"
    if "map_of (g_user_map st) i = None"
    using that new route_invD(3,5) [OF inv]
    by (intro route_inv_users [OF inv]) (auto simp: hm.ok_insert hm.find_insert map_of_eq_None_iff split: if_splits)
  have er: "route_inv k (st\<lparr>g_user_map := map_erase i (g_user_map st)\<rparr>)"
    using route_invD(3,5) [OF inv]
    by (intro route_inv_users [OF inv]) (auto simp: hm.ok_erase hm.find_erase split: if_splits)
  show "route_inv k (UpdateUserStatus a i s t st)"
  proof (cases "map_of (g_user_map st) i")
    case None
    then show ?thesis using inv ins by (simp add: UpdateUserStatus_def GetUserInfo_def)
  next
    case (Some u)
    note wf = user_wf_ops [OF route_invD(5) [OF inv Some]]
    have add: "user_wf ?A (AddClientType t (AddRouteConn a u))" using wf(3) [OF a] user_wf_ops(1) by blast
    have rem: "user_wf ?A (RemoveRouteConn a (RemoveClientType t u))"
      if "GetRouteConnCount (RemoveRouteConn a (RemoveClientType t u)) \<noteq> 0"
      using user_wf_ops(4) [OF wf(2)] that by (simp add: GetRouteConnCount_def)
    show ?thesis using inv Some er wf add rem
      by (simp add: UpdateUserStatus_def GetUserInfo_def Let_def route_inv_assign)
  qed
qed (simp_all add: UpdateUserStatus_def Let_def split: option.splits)

definition logins :: "route_server \<Rightarrow> u32 \<Rightarrow> u32 \<Rightarrow> u32" where
  "logins st i t = (case GetUserInfo i st of None \<Rightarrow> 0 | Some u \<Rightarrow> GetCountByClientType t u)"

definition online_at :: "route_server \<Rightarrow> u32 \<Rightarrow> nat set" where
  "online_at st i = (case GetUserInfo i st of None \<Rightarrow> {} | Some u \<Rightarrow> set (m_RouteConnSet u))"

definition users_ok :: "route_server \<Rightarrow> bool" where
  "users_ok st \<longleftrightarrow> hm_ok (g_user_map st) \<and> (\<forall>i u. map_of (g_user_map st) i = Some u \<longrightarrow> user_ok u)"

lemma logins_update:
  assumes "hm_ok (g_user_map st)"
  shows "logins (st\<lparr>g_user_map := hm_assign i u (g_user_map st)\<rparr>) j t =
      (if j = i then GetCountByClientType t u else logins st j t)"
    "logins (st\<lparr>g_user_map := map_erase i (g_user_map st)\<rparr>) j t = (if j = i then 0 else logins st j t)"
    "map_of (g_user_map st) i = None \<Longrightarrow> logins (st\<lparr>g_user_map := hm_insert i u (g_user_map st)\<rparr>) j t =
      (if j = i then GetCountByClientType t u else logins st j t)"
  using assms by (simp_all add: logins_def GetUserInfo_def hm.find_assign hm.find_erase hm.find_insert map_of_eq_None_iff)

lemma online_at_update:
  assumes "hm_ok (g_user_map st)"
  shows "online_at (st\<lparr>g_user_map := hm_assign i u (g_user_map st)\<rparr>) j =
      (if j = i then set (m_RouteConnSet u) else online_at st j)"
    "online_at (st\<lparr>g_user_map := map_erase i (g_user_map st)\<rparr>) j = (if j = i then {} else online_at st j)"
    "map_of (g_user_map st) i = None \<Longrightarrow> online_at (st\<lparr>g_user_map := hm_insert i u (g_user_map st)\<rparr>) j =
      (if j = i then set (m_RouteConnSet u) else online_at st j)"
  using assms by (simp_all add: online_at_def GetUserInfo_def hm.find_assign hm.find_erase hm.find_insert map_of_eq_None_iff)

text \<open>The effect of a status update on the counts and on the message servers of every user.\<close>

lemma UpdateUserStatus_counts:
  fixes i t :: u32
  assumes ok: "users_ok st"
  defines "n \<equiv> logins st i t"
  shows "logins (UpdateUserStatus a i s t st) j t' =
    (if j = i \<and> t' = t then
       (if s \<noteq> USER_STATUS_OFFLINE then n + 1
        else if a \<in> online_at st i \<and> 0 < n then n - 1 else n)
     else logins st j t')"
proof (cases "map_of (g_user_map st) i")
  case None
  then show ?thesis using ok
    by (auto simp: UpdateUserStatus_def GetUserInfo_def users_ok_def logins_update count_AddClientType n_def)
       (auto simp: logins_def online_at_def GetUserInfo_def)
next
  case (Some u)
  then have u: "user_ok u" "hm_ok (g_user_map st)" using ok by (auto simp: users_ok_def)
  have n: "n = GetCountByClientType t u" "logins st i t' = GetCountByClientType t' u"
    "a \<in> online_at st i \<longleftrightarrow> FindRouteConn a u"
    using Some by (simp_all add: n_def logins_def GetUserInfo_def online_at_def FindRouteConn_def)
  note gone = queries_by_count(3) [OF user_ok_RemoveClientType [OF u(1), of t]]
  consider (on) "s \<noteq> USER_STATUS_OFFLINE" | (off) "s = USER_STATUS_OFFLINE" "FindRouteConn a u"
    | (stranger) "s = USER_STATUS_OFFLINE" "\<not> FindRouteConn a u" by blast
  then show ?thesis
  proof cases
    case on
    then show ?thesis using Some u n
      by (simp add: UpdateUserStatus_def GetUserInfo_def logins_update count_AddClientType)
  next
    case off
    let ?u = "RemoveClientType t u"
    have "logins (UpdateUserStatus a i s t st) j t' = (if j = i then GetCountByClientType t' ?u else logins st j t')"
      using off Some u(2) gone by (simp add: UpdateUserStatus_def GetUserInfo_def Let_def logins_update)
    then show ?thesis using off n count_RemoveClientType [OF u(1)] by simp
  next
    case stranger
    then show ?thesis using Some n by (auto simp: UpdateUserStatus_def GetUserInfo_def)
  qed
qed

lemma UpdateUserStatus_conns:
  fixes i :: u32
  assumes ok: "users_ok st"
  shows "online_at (UpdateUserStatus a i s t st) j =
    (if j = i then
       (if s \<noteq> USER_STATUS_OFFLINE then insert a (online_at st i)
        else if \<forall>t'. logins (UpdateUserStatus a i s t st) i t' = 0 then online_at st i - {a}
        else online_at st i)
     else online_at st j)"
proof (cases "map_of (g_user_map st) i")
  case None
  then show ?thesis using ok
    by (auto simp: UpdateUserStatus_def GetUserInfo_def users_ok_def online_at_update)
       (auto simp: online_at_def GetUserInfo_def CUserInfo_def)
next
  case (Some u)
  then have u: "user_ok u" "hm_ok (g_user_map st)" using ok by (auto simp: users_ok_def)
  have n: "online_at st i = set (m_RouteConnSet u)" "FindRouteConn a u \<longleftrightarrow> a \<in> online_at st i"
    using Some by (simp_all add: GetUserInfo_def online_at_def FindRouteConn_def)
  consider (on) "s \<noteq> USER_STATUS_OFFLINE" | (off) "s = USER_STATUS_OFFLINE" "FindRouteConn a u"
    | (stranger) "s = USER_STATUS_OFFLINE" "\<not> FindRouteConn a u" by blast
  then show ?thesis
  proof cases
    case on
    then show ?thesis using Some u n
      by (auto simp: UpdateUserStatus_def GetUserInfo_def online_at_update)
  next
    case off
    let ?u = "RemoveClientType t u"
    note gone = queries_by_count(3) [OF user_ok_RemoveClientType [OF u(1), of t]]
    have "(\<forall>t'. logins (UpdateUserStatus a i s t st) i t' = 0) \<longleftrightarrow> IsMsgConnNULL ?u"
      using off Some u(2) gone by (simp add: UpdateUserStatus_def GetUserInfo_def Let_def logins_update)
    moreover have "m_RouteConnSet (RemoveRouteConn a ?u) = [] \<longleftrightarrow> online_at st i - {a} = {}"
      using RouteConnSet_simps(2) [of a ?u] n(1) by (metis RouteConnSet_simps(4) set_empty)
    ultimately show ?thesis using off Some u(2) n
      by (auto simp: UpdateUserStatus_def GetUserInfo_def Let_def online_at_update GetRouteConnCount_def)
  next
    case stranger
    then show ?thesis using Some n by (auto simp: UpdateUserStatus_def GetUserInfo_def)
  qed
qed

section \<open>Closing a connection\<close>

lemma keys_close_users: "keys (close_users a m) \<subseteq> keys m"
  by (induction m) (auto simp: Let_def)

lemma close_users_ok: "distinct (map fst m) \<Longrightarrow> distinct (map fst (close_users a m))"
proof (induction m)
  case (Cons it m)
  then show ?case using keys_close_users [of a m] by (auto simp: Let_def)
qed simp

lemma find_close_users:
  assumes "distinct (map fst m)"
  shows "map_of (close_users a m) i =
    (case map_of m i of
       None \<Rightarrow> None
     | Some u \<Rightarrow> if set (m_RouteConnSet u) \<subseteq> {a} then None else Some (RemoveRouteConn a u))"
  using assms
proof (induction m)
  case (Cons it m)
  have e: "GetRouteConnCount (RemoveRouteConn a (snd it)) = 0 \<longleftrightarrow> set (m_RouteConnSet (snd it)) \<subseteq> {a}"
    using RouteConnSet_simps(2) [of a "snd it"]
    by (simp add: GetRouteConnCount_def flip: set_empty)
  have none: "map_of m (fst it) = None" using Cons.prems by (simp add: map_of_eq_None_iff)
  show ?case
  proof (cases "i = fst it")
    case True
    then show ?thesis using Cons e none by (cases it) (simp add: Let_def)
  next
    case False
    then show ?thesis using Cons by (cases it) (simp add: Let_def)
  qed
qed simp

lemma user_wf_remove:
  assumes "user_wf conns u" "\<not> set (m_RouteConnSet u) \<subseteq> {a}"
  shows "user_wf (conns - {a}) (RemoveRouteConn a u)"
proof -
  have "m_RouteConnSet (RemoveRouteConn a u) \<noteq> []"
    using assms(2) RouteConnSet_simps(2) [of a u] by (metis Diff_eq_empty_iff list.set(1))
  then show ?thesis using assms by (auto simp: user_wf_def RemoveRouteConn_def)
qed

lemma route_Close_inv:
  assumes inv: "route_inv k st" and m: "map_of (g_route_conn_map st) h = Some a" and k: "0 \<le> k a"
  shows "\<exists>st'. Close a st = Inr st' \<and> route_inv k st'
    \<and> g_route_conn_map st' = map_erase h (g_route_conn_map st)
    \<and> g_user_map st' = close_users a (g_user_map st)
    \<and> rs_trace st' = rs_trace st @ [NetClose h]
    \<and> deref a (rs_heap st') = (if k a = 0 then Inl MemFault else deref a (rs_heap st))"
proof -
  note I = route_invD [OF inv]
  obtain c where c: "deref a (rs_heap st) = Inr c" "rc_handle c = h"
    and h: "h \<noteq> NETLIB_INVALID_HANDLE" "refs a (rs_heap st) = 1 + k a"
    using I(4) [OF m] by (auto simp: route_registered_def)
  obtain hp where hp: "release_ref a (rs_heap st) = Inr hp" "heap_ok hp"
    "\<forall>b. deref b hp = (if b = a \<and> refs a (rs_heap st) = 1 then Inl MemFault else deref b (rs_heap st))"
    "\<forall>b. refs b hp = refs b (rs_heap st) - (if b = a then 1 else 0)"
    using release_ref_spec [OF I(1) deref_live [OF c(1)]] by blast
  let ?conns = "map_erase h (g_route_conn_map st)"
  let ?st = "st\<lparr>rs_sockets := removeAll h (rs_sockets st), rs_trace := rs_trace st @ [NetClose h],
    g_route_conn_map := ?conns, g_user_map := close_users a (g_user_map st), rs_heap := hp\<rparr>"
  have "Close a st = Inr ?st" using c h hp(1) by (simp add: Close_def Let_def)
  moreover have "route_registered k ?st h' b" if "map_of ?conns h' = Some b" for h' b
  proof -
    have "h' \<noteq> h" "route_registered k st h' b"
      using that I(4) by (auto simp: map_of_map_erase split: if_splits)
    moreover have "b \<noteq> a" using calculation c by (auto simp: route_registered_def)
    ultimately show ?thesis using hp(3,4) by (simp add: route_registered_def)
  qed
  moreover have ran: "ran (map_of (g_route_conn_map st)) - {a} \<subseteq> ran (map_of ?conns)"
  proof
    fix b assume "b \<in> ran (map_of (g_route_conn_map st)) - {a}"
    then obtain h' where "map_of (g_route_conn_map st) h' = Some b" "b \<noteq> a" by (auto simp: ran_def)
    moreover have "h' \<noteq> h" using calculation m by auto
    ultimately show "b \<in> ran (map_of ?conns)" by (intro ranI [of _ h']) (simp add: map_of_map_erase)
  qed
  have "user_wf (ran (map_of ?conns)) u" if found: "map_of (close_users a (g_user_map st)) i = Some u" for i u
  proof -
    obtain v where "map_of (g_user_map st) i = Some v" "u = RemoveRouteConn a v" "\<not> set (m_RouteConnSet v) \<subseteq> {a}"
      using found find_close_users [OF hm.ok_distinct [OF I(3)], of a i] by (auto split: option.splits if_splits)
    then show ?thesis using user_wf_remove [OF I(5), of i v a] ran by (auto simp: user_wf_def)
  qed
  ultimately have "route_inv k ?st"
    using I(2,3) hp(2) by (simp add: route_inv_def hm.ok_erase) (simp add: hm_ok_def close_users_ok)
  then show ?thesis using \<open>Close a st = Inr ?st\<close> hp(3) h(2) by (intro exI [of _ ?st]) auto
qed

section \<open>Handlers and events\<close>

lemma fold_UpdateUserStatus:
  assumes "route_inv k st" "a \<in> ran (map_of (g_route_conn_map st))"
  shows "route_inv k (fold (\<lambda>s. UpdateUserStatus a (us_user_id s) (us_status s) (us_client_type s)) ss st)
    \<and> g_route_conn_map (fold (\<lambda>s. UpdateUserStatus a (us_user_id s) (us_status s) (us_client_type s)) ss st)
      = g_route_conn_map st"
  using assms by (induction ss arbitrary: st) (simp_all add: UpdateUserStatus_inv)

text \<open>A status update in two steps: the update of the table, then up to two broadcasts.\<close>

definition notify_login :: "u32 \<Rightarrow> u32 \<Rightarrow> user_info option \<Rightarrow> bool" where
  "notify_login user_status client_type pUser =
     (case pUser of
        None \<Rightarrow> False
      | Some u \<Rightarrow> if user_status = USER_STATUS_OFFLINE then CHECK_CLIENT_TYPE_PC client_type \<and> \<not> IsPCClientLogin u
                  else IsPCClientLogin u)"

definition notify_status :: "u32 \<Rightarrow> u32 \<Rightarrow> user_info option \<Rightarrow> bool" where
  "notify_status user_status client_type pUser \<longleftrightarrow> CHECK_CLIENT_TYPE_PC client_type \<and>
     (case pUser of None \<Rightarrow> True | Some u \<Rightarrow> \<not> (user_status = USER_STATUS_OFFLINE \<and> IsPCClientLogin u))"

lemma HandleUserStatusUpdate_split:
  "HandleUserStatusUpdate pb now a img st =
     parsed (pb_UserStatusUpdate pb) img (\<lambda>msg.
       let st1 = UpdateUserStatus a (us_user_id msg) (us_status msg) (us_client_type msg) st;
           pUser = GetUserInfo (us_user_id msg) st1
       in bindR
            (if notify_login (us_status msg) (us_client_type msg) pUser
             then BroadcastMsg now (wire_pdu SID_OTHER CID_OTHER_LOGIN_STATUS_NOTIFY 0 (pb_ser (pb_PCLoginStatusNotify pb)
               (us_user_id msg, if us_status msg = USER_STATUS_OFFLINE then IM_PC_LOGIN_STATUS_OFF else IM_PC_LOGIN_STATUS_ON)))
               None st1
             else Inr st1)
            (\<lambda>st2. if notify_status (us_status msg) (us_client_type msg) pUser
              then BroadcastMsg now (wire_pdu SID_BUDDY_LIST CID_BUDDY_LIST_STATUS_NOTIFY 0 (pb_ser (pb_UserStatNotify pb)
                (us_user_id msg, us_status msg))) None st2
              else Inr st2)) st"
  unfolding HandleUserStatusUpdate_def
  by (rule arg_cong [where f = "\<lambda>f. parsed _ img f st"], rule ext)
     (auto simp: Let_def notify_login_def notify_status_def split: option.splits)

text \<open>Every handler keeps the invariant and the connections, whatever the PDU says.\<close>

lemma route_HandlePdu_inv:
  assumes inv: "route_inv k st" and m: "map_of (g_route_conn_map st) h = Some a" and img: "16 \<le> length img"
  shows "\<exists>st'. HandlePdu pb now a hdr img st = Inr st' \<and> route_inv k st'
    \<and> g_route_conn_map st' = g_route_conn_map st"
proof -
  obtain c where c: "deref a (rs_heap st) = Inr c"
    using route_invD(4) [OF inv m] by (auto simp: route_registered_def)
  have a: "a \<in> ran (map_of (g_route_conn_map st))" using m by (rule ranI)
  let ?P = "\<lambda>st'. route_inv k st' \<and> g_route_conn_map st' = g_route_conn_map st"
  have P: "?P st" using inv by simp
  have bc: "\<exists>st'. BroadcastMsg now data src st1 = Inr st' \<and> ?P st'" if "?P st1" for data src st1
    using BroadcastMsg_spec [of k st1 now data src] that by (auto simp: route_frame_def)
  have sent: "\<exists>st'. route_SendPdu now a data st = Inr st' \<and> ?P st'" for data
    using route_SendPdu_spec [OF inv c, of now data] by (auto simp: route_frame_def)
  have on: "\<exists>st'. HandleOnlineUserInfo pb a img st = Inr st' \<and> ?P st'"
    unfolding HandleOnlineUserInfo_def
    by (rule parsed_keeps [OF img, of ?P, OF P]) (use fold_UpdateUserStatus [OF inv a] in simp)
  have role: "\<exists>st'. HandleRoleSet pb a img st = Inr st' \<and> ?P st'"
    unfolding HandleRoleSet_def
    by (rule parsed_keeps [OF img, of ?P, OF P])
       (use c route_inv_set_obj [OF inv c, of "c\<lparr>m_bMaster := _\<rparr>" "rs_trace st"] in simp)
  have req: "\<exists>st'. HandleUsersStatusRequest pb now a hdr img st = Inr st' \<and> ?P st'"
    unfolding HandleUsersStatusRequest_def
    by (rule parsed_keeps [OF img, of ?P, OF P]) (simp add: Let_def sent)
  have two: "\<exists>st'. bindR (if A then BroadcastMsg now d None st1 else Inr st1)
      (\<lambda>st2. if B then BroadcastMsg now e None st2 else Inr st2) = Inr st' \<and> ?P st'" if st1: "?P st1" for A B d e st1
  proof -
    obtain st2 where "(if A then BroadcastMsg now d None st1 else Inr st1) = Inr st2" "?P st2"
      using bc [OF st1, of d None] st1 by (cases A) auto
    then show ?thesis using bc [of st2 e None] by (cases B) auto
  qed
  have upd: "\<exists>st'. HandleUserStatusUpdate pb now a img st = Inr st' \<and> ?P st'"
    unfolding HandleUserStatusUpdate_split
    by (rule parsed_keeps [OF img, of ?P, OF P]) (simp add: Let_def two UpdateUserStatus_inv [OF inv a])
  show ?thesis
    using on role req upd P bc [OF P] by (simp add: HandlePdu_def Let_def)
qed

lemma route_handle_frames_inv:
  assumes "route_inv k st" "map_of (g_route_conn_map st) h = Some a" "\<forall>f\<in>set fs. 16 \<le> length (snd f)"
  shows "\<exists>st'. handle_frames pb now a fs st = Inr st' \<and> route_inv k st'
    \<and> g_route_conn_map st' = g_route_conn_map st"
  using assms
proof (induction fs arbitrary: st)
  case (Cons f fs)
  obtain st1 where s1: "HandlePdu pb now a (fst f) (snd f) st = Inr st1" "route_inv k st1"
    "g_route_conn_map st1 = g_route_conn_map st"
    using route_HandlePdu_inv [OF Cons.prems(1,2)] Cons.prems(3) by (metis list.set_intros(1))
  then have m1: "map_of (g_route_conn_map st1) h = Some a" using Cons.prems(2) by simp
  then obtain c where "deref a (rs_heap st1) = Inr c"
    using route_invD(4) [OF s1(2)] by (auto simp: route_registered_def)
  then show ?case using Cons.IH [OF s1(2) m1] Cons.prems(3) s1 by simp
qed simp

lemma route_OnRead_inv:
  assumes inv: "route_inv k st" and m: "map_of (g_route_conn_map st) h = Some a" and k: "k a = 1"
    and b: "\<forall>f\<in>set fs. 16 \<le> length (snd f)"
  shows "\<exists>st'. route_OnRead pb now fs bad a st = Inr st' \<and> route_inv k st' \<and> live a (rs_heap st')"
proof -
  obtain c where c: "deref a (rs_heap st) = Inr c"
    using route_invD(4) [OF inv m] by (auto simp: route_registered_def)
  let ?st = "st\<lparr>rs_heap := set_obj a (c\<lparr>rc_last_recv_tick := now\<rparr>) (rs_heap st)\<rparr>"
  have "route_inv k ?st"
    using route_inv_set_obj [OF inv c, of "c\<lparr>rc_last_recv_tick := now\<rparr>" "rs_trace st"] by simp
  then obtain st1 where s1: "handle_frames pb now a fs ?st = Inr st1" "route_inv k st1"
    "map_of (g_route_conn_map st1) h = Some a"
    using route_handle_frames_inv [of k ?st h a fs pb now] m b by auto
  have l: "live a (rs_heap st1)" using route_invD(4) [OF s1(2,3)] by (rule route_registered_live)
  obtain st2 where "Close a st1 = Inr st2" "route_inv k st2" "deref a (rs_heap st2) = deref a (rs_heap st1)"
    using route_Close_inv [OF s1(2,3)] k by auto
  then show ?thesis using c s1(1,2) l live_deref [OF l] deref_live [of a "rs_heap st2"]
    by (cases bad) (auto simp: route_OnRead_def OnClose_def)
qed

interpretation route_callbacks: conn_server route_inv rs_heap rs_add_ref rs_release_ref route_frame
proof
  fix st a
  assume inv: "route_inv idle st" and l: "live a (rs_heap st)"
  obtain hp where hp: "add_ref a (rs_heap st) = Inr hp" "heap_ok hp" "\<forall>b. deref b hp = deref b (rs_heap st)"
    "\<forall>b. refs b hp = refs b (rs_heap st) + (if b = a then 1 else 0)"
    using add_ref_spec [OF route_invD(1) [OF inv] l] by blast
  have "route_registered (held a) (st\<lparr>rs_heap := hp\<rparr>) h b" if "route_registered idle st h b" for h b
    using that hp(3,4) by (simp add: route_registered_def)
  then have "route_inv (held a) (st\<lparr>rs_heap := hp\<rparr>)" using inv hp(2) by (simp add: route_inv_def)
  then show "\<exists>st'. rs_add_ref a st = Inr st' \<and> route_inv (held a) st' \<and> route_frame st st'"
    using hp by (simp add: rs_add_ref_def route_frame_def)
next
  fix st a
  assume inv: "route_inv (held a) st" and l: "live a (rs_heap st)"
  obtain hp where hp: "release_ref a (rs_heap st) = Inr hp" "heap_ok hp"
    "\<forall>b. deref b hp = (if b = a \<and> refs a (rs_heap st) = 1 then Inl MemFault else deref b (rs_heap st))"
    "\<forall>b. refs b hp = refs b (rs_heap st) - (if b = a then 1 else 0)"
    using release_ref_spec [OF route_invD(1) [OF inv] l] by blast
  have "route_registered idle (st\<lparr>rs_heap := hp\<rparr>) h b" if "route_registered (held a) st h b" for h b
    using that hp(3,4) by (auto simp: route_registered_def split: if_splits)
  then have "route_inv idle (st\<lparr>rs_heap := hp\<rparr>)" using inv hp(2) by (simp add: route_inv_def)
  then show "\<exists>st'. rs_release_ref a st = Inr st' \<and> route_inv idle st'"
    using hp by (simp add: rs_release_ref_def)
qed

lemma route_dispatch_inv:
  assumes inv: "route_inv idle st" and msg: "msg \<noteq> NETLIB_MSG_OTHER"
    and run: "\<And>a st1. route_inv (held a) st1 \<Longrightarrow> map_of (g_route_conn_map st1) h = Some a \<Longrightarrow>
      \<exists>st2. method a st1 = Inr st2 \<and> route_inv (held a) st2 \<and> live a (rs_heap st2)"
  shows "\<exists>st'. dispatch method msg h st = Inr st' \<and> route_inv idle st'"
  unfolding dispatch_def
  using route_registered_live [OF route_invD(4) [OF inv]]
  by (intro route_callbacks.callback_inv [OF inv msg] run) (auto simp: route_frame_def split: if_splits)

lemma route_OnTimer_inv:
  assumes inv: "route_inv idle st" and m: "map_of (g_route_conn_map st) h = Some a"
  shows "\<exists>st'. OnTimer pb now t a st = Inr st' \<and> route_inv idle st'
    \<and> (\<forall>h'. h' \<noteq> h \<longrightarrow> map_of (g_route_conn_map st') h' = map_of (g_route_conn_map st) h')"
proof -
  obtain c where c: "deref a (rs_heap st) = Inr c"
    using route_invD(4) [OF inv m] by (auto simp: route_registered_def)
  let ?beat = "wire_pdu SID_OTHER CID_OTHER_HEARTBEAT 0 (pb_ser (pb_HeartBeat pb) ())"
  obtain st1 where s1: "route_SendPdu now a ?beat st = Inr st1" "route_inv idle st1"
    "g_route_conn_map st1 = g_route_conn_map st"
    using route_SendPdu_spec [OF inv c, of now ?beat] by (auto simp: route_frame_def)
  define st2 where "st2 = (if t > rc_last_send_tick c + SERVER_HEARTBEAT_INTERVAL then st1 else st)"
  have s2: "route_inv idle st2" "g_route_conn_map st2 = g_route_conn_map st"
    using s1 inv by (simp_all add: st2_def)
  have eq: "OnTimer pb now t a st = (if t > rc_last_recv_tick c + SERVER_TIMEOUT then Close a st2 else Inr st2)"
    using c s1(1) by (simp add: OnTimer_def st2_def)
  obtain st3 where "Close a st2 = Inr st3" "route_inv idle st3"
    "g_route_conn_map st3 = map_erase h (g_route_conn_map st2)"
    using route_Close_inv [OF s2(1), of h a] s2(2) m by auto
  then show ?thesis using eq s2 by (simp add: map_of_map_erase)
qed

lemma route_timer_loop_inv:
  assumes "route_inv idle st" "distinct (map fst its)" "\<forall>(h, a)\<in>set its. map_of (g_route_conn_map st) h = Some a"
  shows "\<exists>st'. timer_loop pb now t its st = Inr st' \<and> route_inv idle st'"
  using assms
proof (induction its arbitrary: st)
  case (Cons it its)
  obtain h a where it: "it = (h, a)" by (cases it)
  then obtain st1 where s1: "OnTimer pb now t a st = Inr st1" "route_inv idle st1"
    "\<forall>h'. h' \<noteq> h \<longrightarrow> map_of (g_route_conn_map st1) h' = map_of (g_route_conn_map st) h'"
    using route_OnTimer_inv [OF Cons.prems(1), of h a pb now t] Cons.prems(3) by auto
  have "\<forall>(h, a)\<in>set its. map_of (g_route_conn_map st1) h = Some a"
    using s1(3) Cons.prems(2,3) it by force
  then show ?case using Cons.IH [OF s1(2)] s1(1) Cons.prems(2) it by simp
qed simp

lemma route_connect_inv:
  assumes inv: "route_inv idle st" and new: "h \<notin> set (rs_sockets st)" "h \<noteq> NETLIB_INVALID_HANDLE"
  shows "\<exists>st'. route_serv_callback now h st = Inr st' \<and> route_inv idle st'"
proof -
  note I = route_invD [OF inv]
  let ?x = "\<lparr>rc_handle = NETLIB_INVALID_HANDLE, rc_last_send_tick = now, rc_last_recv_tick = now, m_bMaster = False\<rparr>"
  let ?y = "?x\<lparr>rc_handle := h\<rparr>"
  let ?n = "hp_next (rs_heap st)"
  define hp where "hp = snd (new_obj ?x (rs_heap st))"
  define hp' where "hp' = set_obj ?n ?y hp"
  note N = heap_ok_new [OF I(1), of ?x, folded hp_def]
  have hp': "heap_ok hp'" "deref ?n hp' = Inr ?y" "refs ?n hp' = 1"
    "\<And>b. b \<noteq> ?n \<Longrightarrow> deref b hp' = deref b (rs_heap st) \<and> refs b hp' = refs b (rs_heap st)"
    using N deref_live [OF N(2)] deref_new_other [of _ "rs_heap st" ?x, folded hp_def]
    by (auto simp: hp'_def deref_set_obj heap_ok_set_obj)
  let ?st = "st\<lparr>rs_heap := hp', g_route_conn_map := hm_insert h ?n (g_route_conn_map st), rs_sockets := h # rs_sockets st\<rparr>"
  have "new_obj ?x (rs_heap st) = (?n, hp)" by (simp add: hp_def new_obj_def)
  then have "route_serv_callback now h st = Inr ?st"
    using N(2) by (simp add: route_serv_callback_def OnConnect_def hp'_def)
  moreover have old: "route_registered idle ?st h' b" if "route_registered idle st h' b" for h' b
  proof -
    have "b \<noteq> ?n" using that deref_fresh [OF I(1)] by (auto simp: route_registered_def)
    then show ?thesis using that hp'(4) by (simp add: route_registered_def)
  qed
  moreover have hk: "h \<notin> keys (g_route_conn_map st)"
    using I(4) new(1) by (auto simp: hm.keys_eq_dom route_registered_def)
  moreover have nw: "route_registered idle ?st h ?n"
    using hp'(2,3) new(2) by (simp add: route_registered_def)
  have find: "map_of (hm_insert h ?n (g_route_conn_map st)) = (map_of (g_route_conn_map st))(h \<mapsto> ?n)"
    using hk by (simp add: hm.find_insert [OF I(2)])
  have "ran (map_of (g_route_conn_map st)) \<subseteq> ran (map_of (hm_insert h ?n (g_route_conn_map st)))"
    using hk unfolding find by (simp add: map_of_eq_None_iff ran_map_upd subset_insertI)
  then have "user_wf (ran (map_of (hm_insert h ?n (g_route_conn_map st)))) u" if "map_of (g_user_map st) i = Some u" for i u
    using I(5) [OF that] by (auto simp: user_wf_def)
  moreover have "route_registered idle ?st h' b" if "map_of (hm_insert h ?n (g_route_conn_map st)) h' = Some b" for h' b
    using that nw old I(4) by (auto simp: find split: if_splits)
  ultimately show ?thesis
    using I(2,3) hp'(1) by (auto simp: route_inv_def hm.ok_insert)
qed

definition good_route_event :: "route_server \<Rightarrow> route_event \<Rightarrow> bool" where
  "good_route_event st e =
     (case e of
        Connected h \<Rightarrow> h \<notin> set (rs_sockets st) \<and> h \<noteq> NETLIB_INVALID_HANDLE
      | Readable h fs bad \<Rightarrow> \<forall>f\<in>set fs. 16 \<le> length (snd f)
      | _ \<Rightarrow> True)"

lemma route_step_inv:
  assumes inv: "route_inv idle st" and good: "good_route_event st e"
  shows "\<exists>st'. route_step pb now e st = Inr st' \<and> route_inv idle st'"
proof (cases e)
  case (Connected h)
  then show ?thesis using route_connect_inv [OF inv] good by (simp add: good_route_event_def)
next
  case (Readable h fs bad)
  then have "\<exists>st'. dispatch (route_OnRead pb now fs bad) NETLIB_MSG_READ h st = Inr st' \<and> route_inv idle st'"
    using good by (intro route_dispatch_inv [OF inv] route_OnRead_inv) (auto simp: good_route_event_def)
  then show ?thesis using Readable by simp
next
  case (HungUp h)
  have "\<exists>st2. OnClose a st1 = Inr st2 \<and> route_inv (held a) st2 \<and> live a (rs_heap st2)"
    if i: "route_inv (held a) st1" and m: "map_of (g_route_conn_map st1) h = Some a" for a st1
    using route_Close_inv [OF i m] live_deref [OF route_registered_live [OF route_invD(4) [OF i m]]]
    by (auto simp: OnClose_def dest: deref_live)
  then show ?thesis using HungUp route_dispatch_inv [OF inv, of NETLIB_MSG_CLOSE h OnClose] by simp
next
  case (TimerTick t)
  note I = route_invD [OF inv]
  have "\<forall>(h, a)\<in>set (g_route_conn_map st). map_of (g_route_conn_map st) h = Some a"
    using hm.set_eq_graph [OF I(2)] by auto
  then show ?thesis
    using route_timer_loop_inv [OF inv hm.ok_distinct [OF I(2)], of pb now t] TimerTick
    by (simp add: route_serv_timer_callback_def)
qed

inductive route_reachable :: "route_codec \<Rightarrow> route_server \<Rightarrow> bool" for pb where
  init: "route_reachable pb route_init"
| step: "route_reachable pb st \<Longrightarrow> good_route_event st e \<Longrightarrow> route_step pb now e st = Inr st' \<Longrightarrow>
    route_reachable pb st'"

lemma route_inv_init: "route_inv idle route_init"
  by (simp add: route_inv_def route_init_def hm_ok_def)

lemma route_reachable_inv: "route_reachable pb st \<Longrightarrow> route_inv idle st"
proof (induction rule: route_reachable.induct)
  case (step st e now st')
  then show ?case using route_step_inv [of st e pb now] by auto
qed (rule route_inv_init)

fun route_run :: "route_codec \<Rightarrow> (u64 \<times> route_event) list \<Rightarrow> route_server \<Rightarrow> route_server res" where
  "route_run pb [] st = Inr st"
| "route_run pb (e # es) st = bindR (route_step pb (fst e) (snd e) st) (route_run pb es)"

fun good_route_run :: "route_codec \<Rightarrow> (u64 \<times> route_event) list \<Rightarrow> route_server \<Rightarrow> bool" where
  "good_route_run pb [] st \<longleftrightarrow> True"
| "good_route_run pb (e # es) st \<longleftrightarrow> good_route_event st (snd e) \<and>
     (case route_step pb (fst e) (snd e) st of Inl _ \<Rightarrow> False | Inr st' \<Rightarrow> good_route_run pb es st')"

lemma good_route_run_reachable:
  "good_route_run pb es st \<Longrightarrow> route_reachable pb st \<Longrightarrow> route_run pb es st = Inr st' \<Longrightarrow> route_reachable pb st'"
proof (induction es arbitrary: st)
  case (Cons e es)
  then obtain st1 where "route_step pb (fst e) (snd e) st = Inr st1" by (auto split: sum.splits)
  then show ?case using Cons route_reachable.step [OF Cons.prems(2)] by simp blast
qed simp

section \<open>Properties\<close>

definition route_sample_codec :: route_codec where
  "route_sample_codec =
     \<lparr>pb_HeartBeat = \<lparr>pb_ser = (\<lambda>_. []), pb_par = (\<lambda>_. (True, ()))\<rparr>,
      pb_OnlineUserInfo = \<lparr>pb_ser = (\<lambda>_. []), pb_par = (\<lambda>_. (True, []))\<rparr>,
      pb_UserStatusUpdate = \<lparr>pb_ser = (\<lambda>m. [ucast (us_user_id m), ucast (us_status m), ucast (us_client_type m)]),
        pb_par = (\<lambda>b. (length b = 3, \<lparr>us_user_id = ucast (b ! 0), us_status = ucast (b ! 1), us_client_type = ucast (b ! 2)\<rparr>))\<rparr>,
      pb_RoleSet = \<lparr>pb_ser = (\<lambda>m. [ucast m]), pb_par = (\<lambda>b. (True, ucast (b ! 0)))\<rparr>,
      pb_UsersStatReq = \<lparr>pb_ser = (\<lambda>m. map ucast (sr_user_id_list m)),
        pb_par = (\<lambda>b. (True, \<lparr>sr_user_id = 0, sr_user_id_list = map ucast b, sr_attach_data = []\<rparr>))\<rparr>,
      pb_UsersStatRsp = \<lparr>pb_ser = (\<lambda>m. concat (map (\<lambda>p. [ucast (fst p), ucast (snd p)]) (sp_user_stat_list m))),
        pb_par = (\<lambda>_. (False, \<lparr>sp_user_id = 0, sp_user_stat_list = [], sp_attach_data = []\<rparr>))\<rparr>,
      pb_PCLoginStatusNotify = \<lparr>pb_ser = (\<lambda>m. [ucast (fst m), ucast (snd m)]), pb_par = (\<lambda>_. (False, (0, 0)))\<rparr>,
      pb_UserStatNotify = \<lparr>pb_ser = (\<lambda>m. [ucast (fst m), ucast (snd m)]), pb_par = (\<lambda>_. (False, (0, 0)))\<rparr>\<rparr>"

definition route_frame_of :: "u16 \<Rightarrow> bytes \<Rightarrow> pdu_header \<times> bytes" where
  "route_frame_of cid body = (let w = plain_pdu SID_OTHER cid 0 body in (parse_header (pdu_bytes w), pdu_bytes w))"

text \<open>
  C7: Safety of the route server. In every state it reaches, every user in its table is attached to at least one
  message server and to registered connections only, and every event is processed without touching
  freed memory: connections on fresh descriptors, reads of any PDUs that are at least a header
  long, hang-ups and timer ticks.
\<close>

theorem route_server_safe:
  assumes "route_reachable pb st"
  shows "(\<forall>i u. GetUserInfo i st = Some u \<longrightarrow> m_RouteConnSet u \<noteq> []
      \<and> set (m_RouteConnSet u) \<subseteq> snd ` set (g_route_conn_map st))
    \<and> (\<forall>e now. good_route_event st e \<longrightarrow> (\<exists>st'. route_step pb now e st = Inr st'))"
proof -
  note inv = route_reachable_inv [OF assms]
  have "ran (map_of (g_route_conn_map st)) = snd ` set (g_route_conn_map st)"
    using hm.ok_distinct [OF route_invD(2) [OF inv]] by (simp add: ran_distinct)
  then show ?thesis
    using route_invD(5) [OF inv] route_step_inv [OF inv, of _ pb] by (fastforce simp: GetUserInfo_def user_wf_def)
qed

theorem route_server_safe_witness:
  "\<exists>st u. route_run route_sample_codec
      [(1, Connected 5), (2, Connected 6), (3, Readable 5 [route_frame_of CID_OTHER_USER_STATUS_UPDATE [9, 1, 1]] False)]
      route_init = Inr st
    \<and> GetUserInfo 9 st = Some u \<and> m_RouteConnSet u \<noteq> [] \<and> set (m_RouteConnSet u) \<subseteq> snd ` set (g_route_conn_map st)
    \<and> (\<exists>st'. route_step route_sample_codec 4 (HungUp 5) st = Inr st')"
proof -
  let ?es = "[(1, Connected 5), (2, Connected 6), (3, Readable 5 [route_frame_of CID_OTHER_USER_STATUS_UPDATE [9, 1, 1]] False)]"
  have good: "good_route_run route_sample_codec ?es route_init" by code_simp
  have run: "case route_run route_sample_codec ?es route_init of Inl _ \<Rightarrow> False
      | Inr st \<Rightarrow> GetUserInfo 9 st \<noteq> None \<and> good_route_event st (HungUp 5)" by code_simp
  show ?thesis
  proof (cases "route_run route_sample_codec ?es route_init")
    case (Inr st)
    then show ?thesis
      using route_server_safe [OF good_route_run_reachable [OF good route_reachable.init Inr]] run by force
  qed (use run in simp)
qed

text \<open>
  C14: Forwarding. A PDU of one of the forwarded commands goes, byte for byte, exactly once to every other
  message server and not back to the sender; nothing else changes but the send ticks.
\<close>

theorem route_forwards_once:
  assumes inv: "route_inv k st" and m: "map_of (g_route_conn_map st) h = Some a" and cid: "h_command_id hdr \<in> set forwarded"
  shows "\<exists>st' sent. HandlePdu pb now a hdr img st = Inr st' \<and> g_user_map st' = g_user_map st
    \<and> rs_trace st' = rs_trace st @ map (\<lambda>h'. NetSend h' img) sent
    \<and> distinct sent \<and> set sent = keys (g_route_conn_map st) - {h}"
proof -
  let ?sent = "map fst (filter (\<lambda>(h, b). Some b \<noteq> Some a) (g_route_conn_map st))"
  note I = route_invD [OF inv]
  obtain st' where st': "BroadcastMsg now img (Some a) st = Inr st'" "route_frame st st'"
    "rs_trace st' = rs_trace st @ map (\<lambda>h'. NetSend h' img) ?sent"
    using BroadcastMsg_spec [OF inv, of now img "Some a"] by (auto simp: case_prod_beta comp_def)
  have "HandlePdu pb now a hdr img st = Inr st'"
    using cid st'(1) by (auto simp: HandlePdu_def forwarded_def Let_def)
  moreover have "distinct ?sent" using hm.ok_distinct [OF I(2)] by (rule distinct_map_filter)
  moreover have "b = a \<longleftrightarrow> h' = h" if "(h', b) \<in> set (g_route_conn_map st)" for h' b
  proof -
    have e: "map_of (g_route_conn_map st) h' = Some b" using that hm.set_eq_graph [OF I(2)] by blast
    then show ?thesis using m route_registered_handle [OF inv m, of h'] by auto
  qed
  then have "set ?sent = keys (g_route_conn_map st) - {h}" by force
  ultimately show ?thesis using st'
    by (intro exI [of _ st'] exI [of _ ?sent]) (simp add: route_frame_def)
qed

theorem route_forwards_once_witness:
  "\<exists>st st' sent. route_run route_sample_codec [(1, Connected 5), (2, Connected 6), (3, Connected 7)] route_init = Inr st
    \<and> HandlePdu route_sample_codec 4 0 (fst (route_frame_of CID_MSG_DATA [1, 2])) (snd (route_frame_of CID_MSG_DATA [1, 2])) st
        = Inr st'
    \<and> rs_trace st' = map (\<lambda>h'. NetSend h' (snd (route_frame_of CID_MSG_DATA [1, 2]))) sent \<and> set sent = {6, 7}"
proof -
  let ?es = "[(1, Connected 5), (2, Connected 6), (3, Connected 7)]"
  have good: "good_route_run route_sample_codec ?es route_init" by code_simp
  have run: "case route_run route_sample_codec ?es route_init of Inl _ \<Rightarrow> False
      | Inr st \<Rightarrow> map_of (g_route_conn_map st) 5 = Some 0 \<and> map fst (g_route_conn_map st) = [7, 6, 5] \<and> rs_trace st = []"
    by code_simp
  have cid: "h_command_id (fst (route_frame_of CID_MSG_DATA [1, 2])) \<in> set forwarded" by code_simp
  show ?thesis
  proof (cases "route_run route_sample_codec ?es route_init")
    case (Inr st)
    then have st: "map_of (g_route_conn_map st) 5 = Some 0" "map fst (g_route_conn_map st) = [7, 6, 5]" "rs_trace st = []"
      using run by simp_all
    have k: "keys (g_route_conn_map st) - {5} = {6, 7}"
      unfolding image_set st(2) by (auto simp del: set_map)
    have inv: "route_inv idle st"
      using good_route_run_reachable [OF good route_reachable.init Inr] by (rule route_reachable_inv)
    show ?thesis
      using route_forwards_once [OF inv st(1) cid, of route_sample_codec 4 "snd (route_frame_of CID_MSG_DATA [1, 2])"]
        Inr st(3) k by auto
  qed (use run in simp)
qed

text \<open>
  C20: Presence bookkeeping. A status update from a message server changes nothing but the record of that user and
  client type: a login adds one (in 32-bit arithmetic) and attaches the message server, a logoff from an attached message
  server takes one away and detaches the message server when no client is left, any other logoff is ignored.
\<close>

theorem status_update_spec:
  fixes i t :: u32
  assumes ok: "users_ok st"
  shows "let st' = UpdateUserStatus a i s t st; n = logins st i t
    in (\<forall>j t'. logins st' j t' =
          (if j = i \<and> t' = t then
             (if s \<noteq> USER_STATUS_OFFLINE then n + 1
              else if a \<in> online_at st i \<and> 0 < n then n - 1 else n)
           else logins st j t'))
      \<and> (\<forall>j. online_at st' j =
          (if j = i then
             (if s \<noteq> USER_STATUS_OFFLINE then insert a (online_at st i)
              else if \<forall>t'. logins st' i t' = 0 then online_at st i - {a} else online_at st i)
           else online_at st j))"
  using UpdateUserStatus_counts [OF ok] UpdateUserStatus_conns [OF ok] unfolding Let_def by blast

theorem status_update_spec_witness:
  "users_ok route_init \<and> logins (UpdateUserStatus 3 9 USER_STATUS_ONLINE 1 route_init) 9 1 = 1
    \<and> online_at (UpdateUserStatus 3 9 USER_STATUS_ONLINE 1 route_init) 9 = {3}"
proof -
  have ok: "users_ok route_init" by (simp add: users_ok_def route_init_def hm_ok_def)
  show ?thesis using status_update_spec [OF ok, of 3 9 USER_STATUS_ONLINE 1] ok
    by (simp add: Let_def logins_def online_at_def GetUserInfo_def route_init_def)
qed

text \<open>
  C29: Presence queries. The answer to a status request lists the requested users in the order of the request, each with
  the status online exactly when the route server counts a login of a PC client of that user, and
  carries the request's sequence number, requester and attachment.
\<close>

theorem status_query_answer:
  assumes inv: "route_inv k st" and ok: "users_ok st" and m: "map_of (g_route_conn_map st) h = Some a"
    and img: "16 \<le> length img" and req: "pb_par (pb_UsersStatReq pb) (drop 16 img) = (True, msg)"
  shows "\<exists>st' rsp. HandleUsersStatusRequest pb now a hdr img st = Inr st' \<and> g_user_map st' = g_user_map st
    \<and> rs_trace st' = rs_trace st @ [NetSend h (wire_pdu SID_BUDDY_LIST CID_BUDDY_LIST_USERS_STATUS_RESPONSE (h_seq_num hdr)
        (pb_ser (pb_UsersStatRsp pb) rsp))]
    \<and> sp_user_id rsp = sr_user_id msg \<and> sp_attach_data rsp = sr_attach_data msg
    \<and> map fst (sp_user_stat_list rsp) = sr_user_id_list msg
    \<and> (\<forall>(i, s)\<in>set (sp_user_stat_list rsp).
        s = (if \<exists>t. CHECK_CLIENT_TYPE_PC t \<and> 0 < logins st i t then USER_STATUS_ONLINE else USER_STATUS_OFFLINE))"
proof -
  obtain c where c: "deref a (rs_heap st) = Inr c" "rc_handle c = h"
    using route_invD(4) [OF inv m] by (auto simp: route_registered_def)
  define stat where "stat = (\<lambda>i. case GetUserInfo i st of Some u \<Rightarrow> GetStatus u | None \<Rightarrow> USER_STATUS_OFFLINE)"
  let ?rsp = "\<lparr>sp_user_id = sr_user_id msg, sp_user_stat_list = map (\<lambda>i. (i, stat i)) (sr_user_id_list msg),
    sp_attach_data = sr_attach_data msg\<rparr>"
  let ?p = "wire_pdu SID_BUDDY_LIST CID_BUDDY_LIST_USERS_STATUS_RESPONSE (h_seq_num hdr) (pb_ser (pb_UsersStatRsp pb) ?rsp)"
  have s: "stat i = (if \<exists>t. CHECK_CLIENT_TYPE_PC t \<and> 0 < logins st i t then USER_STATUS_ONLINE else USER_STATUS_OFFLINE)" for i
  proof (cases "GetUserInfo i st")
    case (Some u)
    then have "user_ok u" using ok by (simp add: users_ok_def GetUserInfo_def)
    from queries_by_count(1,4) [OF this] Some show ?thesis by (simp add: stat_def logins_def)
  qed (simp add: stat_def logins_def)
  obtain st' where st': "route_SendPdu now a ?p st = Inr st'" "route_frame st st'" "rs_trace st' = rs_trace st @ [NetSend h ?p]"
    using route_SendPdu_spec [OF inv c(1), of now ?p] c(2) by blast
  have "HandleUsersStatusRequest pb now a hdr img st = Inr st'"
    using st'(1) by (simp add: HandleUsersStatusRequest_def parsed_accepts [OF img req] Let_def stat_def)
  then show ?thesis using st'(2,3) s
    by (intro exI [of _ st'] exI [of _ ?rsp]) (auto simp: route_frame_def comp_def)
qed

theorem status_query_answer_witness:
  "\<exists>st st' (rsp :: IMUsersStatRsp). route_run route_sample_codec
      [(1, Connected 5), (2, Readable 5 [route_frame_of CID_OTHER_USER_STATUS_UPDATE [9, 1, 1]] False)] route_init = Inr st
    \<and> HandleUsersStatusRequest route_sample_codec 3 0 (fst (route_frame_of CID_BUDDY_LIST_USERS_STATUS_REQUEST [9, 8]))
        (snd (route_frame_of CID_BUDDY_LIST_USERS_STATUS_REQUEST [9, 8])) st = Inr st'
    \<and> map fst (sp_user_stat_list rsp) = [9, 8]
    \<and> (\<forall>(i, s)\<in>set (sp_user_stat_list rsp).
        s = (if \<exists>t. CHECK_CLIENT_TYPE_PC t \<and> 0 < logins st i t then USER_STATUS_ONLINE else USER_STATUS_OFFLINE))"
proof -
  let ?es = "[(1, Connected 5), (2, Readable 5 [route_frame_of CID_OTHER_USER_STATUS_UPDATE [9, 1, 1]] False)]"
  let ?q = "route_frame_of CID_BUDDY_LIST_USERS_STATUS_REQUEST [9, 8]"
  have good: "good_route_run route_sample_codec ?es route_init" by code_simp
  have run: "case route_run route_sample_codec ?es route_init of Inl _ \<Rightarrow> False
      | Inr st \<Rightarrow> map_of (g_route_conn_map st) 5 = Some 0 \<and> hm_ok (g_user_map st)
        \<and> list_all (\<lambda>p. user_ok (snd p)) (g_user_map st)" by code_simp
  have img: "16 \<le> length (snd ?q)"
    and req: "pb_par (pb_UsersStatReq route_sample_codec) (drop 16 (snd ?q)) =
      (True, \<lparr>sr_user_id = 0, sr_user_id_list = [9, 8], sr_attach_data = []\<rparr>)" by code_simp+
  show ?thesis
  proof (cases "route_run route_sample_codec ?es route_init")
    case (Inr st)
    then have m: "map_of (g_route_conn_map st) 5 = Some 0" and "users_ok st"
      using run by (force simp: users_ok_def list_all_iff dest: map_of_SomeD)+
    have inv: "route_inv idle st"
      using good_route_run_reachable [OF good route_reachable.init Inr] by (rule route_reachable_inv)
    obtain st' and rsp :: IMUsersStatRsp where
      "HandleUsersStatusRequest route_sample_codec 3 0 (fst ?q) (snd ?q) st = Inr st'"
      "map fst (sp_user_stat_list rsp) = [9, 8]"
      "\<forall>(i, s)\<in>set (sp_user_stat_list rsp).
        s = (if \<exists>t. CHECK_CLIENT_TYPE_PC t \<and> 0 < logins st i t then USER_STATUS_ONLINE else USER_STATUS_OFFLINE)"
      using status_query_answer [OF inv \<open>users_ok st\<close> m img req, of 3 "fst ?q"]
      unfolding IMUsersStatReq.select_convs by (elim exE conjE) (rule that; assumption)
    then show ?thesis using Inr by (intro exI [of _ st] exI [of _ st'] exI [of _ rsp] conjI)
  qed (use run in simp)
qed

text \<open>
  When a message server disconnects, its users who are also attached elsewhere keep all login counts, those of
  the clients that were logged in through it included: such a user stays online after his last PC client is gone.
\<close>

theorem close_keeps_stale_logins:
  assumes inv: "route_inv k st" and m: "map_of (g_route_conn_map st) h = Some a" and k: "0 \<le> k a"
    and two: "b \<in> online_at st i" "b \<noteq> a"
  shows "\<exists>st'. Close a st = Inr st' \<and> online_at st' i = online_at st i - {a} \<and> (\<forall>t. logins st' i t = logins st i t)"
proof -
  obtain st' where st': "Close a st = Inr st'" "g_user_map st' = close_users a (g_user_map st)"
    using route_Close_inv [OF inv m k] by blast
  obtain u where u: "map_of (g_user_map st) i = Some u" "b \<in> set (m_RouteConnSet u)"
    using two(1) by (auto simp: online_at_def GetUserInfo_def split: option.splits)
  then have "map_of (g_user_map st') i = Some (RemoveRouteConn a u)"
    using find_close_users [OF hm.ok_distinct [OF route_invD(3) [OF inv]], of a i] st'(2) two(2) by auto
  then show ?thesis using st'(1) u(1) by (simp add: online_at_def logins_def GetUserInfo_def)
qed

theorem close_keeps_stale_logins_witness:
  "\<exists>st st'. route_run route_sample_codec
      [(1, Connected 5), (2, Connected 6), (3, Readable 5 [route_frame_of CID_OTHER_USER_STATUS_UPDATE [9, 1, 1]] False),
       (4, Readable 6 [route_frame_of CID_OTHER_USER_STATUS_UPDATE [9, 1, 17]] False)] route_init = Inr st
    \<and> Close 0 st = Inr st' \<and> online_at st' 9 = {1} \<and> logins st' 9 CLIENT_TYPE_WINDOWS = 1"
proof -
  let ?es = "[(1, Connected 5), (2, Connected 6), (3, Readable 5 [route_frame_of CID_OTHER_USER_STATUS_UPDATE [9, 1, 1]] False),
       (4, Readable 6 [route_frame_of CID_OTHER_USER_STATUS_UPDATE [9, 1, 17]] False)]"
  have good: "good_route_run route_sample_codec ?es route_init" by code_simp
  have run: "case route_run route_sample_codec ?es route_init of Inl _ \<Rightarrow> False
      | Inr st \<Rightarrow> map_of (g_route_conn_map st) 5 = Some 0 \<and> online_at st 9 = set [0, 1] \<and> logins st 9 1 = 1" by code_simp
  show ?thesis
  proof (cases "route_run route_sample_codec ?es route_init")
    case (Inr st)
    then have st: "map_of (g_route_conn_map st) 5 = Some 0" "online_at st 9 = set [0, 1]" "logins st 9 1 = 1"
      using run by simp_all
    have inv: "route_inv idle st"
      using good_route_run_reachable [OF good route_reachable.init Inr] by (rule route_reachable_inv)
    have "online_at st 9 - {0} = {1}" using st(2) by auto
    then show ?thesis using close_keeps_stale_logins [OF inv st(1), of 1 9] st Inr by auto
  qed (use run in simp)
qed

end
