(* ===== verification/AttachData.thy ===== *)
theory AttachData
  imports ImPdu "HOL-Library.Char_ord"
begin

text \<open>
  Attachments and short ids. \<open>CDbAttachData\<close> and \<open>CPduAttachData\<close> (\<open>msg_server/AttachData.cpp\<close>) travel
  with a request to the database proxy and come back with its answer, so that the message
  server finds the connection that asked. \<open>idtourl\<close> and \<open>urltoid\<close> (\<open>base/UtilPdu.cpp\<close>) turn user ids
  into base-36 strings.
\<close>

section \<open>Attachments\<close>

record db_attach =
  da_type :: u32
  da_handle :: u32
  da_service_type :: u32

record pdu_attach = db_attach +
  da_pdu :: bytes

definition CDbAttachData_ser :: "(nat \<Rightarrow> byte) \<Rightarrow> u32 \<Rightarrow> u32 \<Rightarrow> u32 \<Rightarrow> bytes res" where
  "CDbAttachData_ser fresh t h service_type =
     bindR (put_u32 t (CByteStream_buf (CSimpleBuffer fresh) 0)) (\<lambda>os.
     bindR (put_u32 h os) (\<lambda>os.
     bindR (put_u32 service_type os) (\<lambda>os.
       case m_pSimpBuf os of None \<Rightarrow> Inl MemFault | Some b \<Rightarrow> slice (m_buffer b) 0 (unat (m_write_offset b)))))"

definition CDbAttachData_par :: "bytes \<Rightarrow> u32 \<Rightarrow> db_attach res" where
  "CDbAttachData_par attach_data attach_len =
     bindR (get_u32 (CByteStream_raw (Some attach_data) attach_len)) (\<lambda>(t, is).
     bindR (get_u32 is) (\<lambda>(h, is).
     bindR (get_u32 is) (\<lambda>(s, is).
       Inr \<lparr>da_type = t, da_handle = h, da_service_type = s\<rparr>)))"

definition CPduAttachData_ser :: "(nat \<Rightarrow> byte) \<Rightarrow> u32 \<Rightarrow> u32 \<Rightarrow> u32 \<Rightarrow> bytes option \<Rightarrow> u32 \<Rightarrow> bytes res" where
  "CPduAttachData_ser fresh t h pduLength pdu service_type =
     bindR (put_u32 t (CByteStream_buf (CSimpleBuffer fresh) 0)) (\<lambda>os.
     bindR (put_u32 h os) (\<lambda>os.
     bindR (put_u32 service_type os) (\<lambda>os.
     bindR (WriteData pdu pduLength os) (\<lambda>os.
       case m_pSimpBuf os of None \<Rightarrow> Inl MemFault | Some b \<Rightarrow> slice (m_buffer b) 0 (unat (m_write_offset b))))))"

text \<open>
  The reading constructor keeps a pointer into the attachment: \<open>pdu\<close> is its offset, and the
  length is the one of the field.
\<close>

definition CPduAttachData_par :: "bytes \<Rightarrow> u32 \<Rightarrow> (db_attach \<times> u32 \<times> u32) res" where
  "CPduAttachData_par attach_data attach_len =
     bindR (get_u32 (CByteStream_raw (Some attach_data) attach_len)) (\<lambda>(t, is).
     bindR (get_u32 is) (\<lambda>(h, is).
     bindR (get_u32 is) (\<lambda>(s, is).
     bindR (ReadData is) (\<lambda>(pdu, pduLength, is).
       Inr (\<lparr>da_type = t, da_handle = h, da_service_type = s\<rparr>, pdu, pduLength)))))"

text \<open>The PDU a caller reads through \<open>GetPdu\<close> and \<open>GetPduLength\<close>.\<close>

definition attached_pdu :: "bytes \<Rightarrow> db_attach \<times> u32 \<times> u32 \<Rightarrow> bytes res" where
  "attached_pdu attach_data r = slice attach_data (unat (fst (snd r))) (unat (snd (snd r)))"

lemma three_fields:
  assumes "writes [] s"
  obtains s' where "bindR (put_u32 a s) (\<lambda>os. bindR (put_u32 b os) (put_u32 c)) = Inr s'"
    "writes (enc32 a @ enc32 b @ enc32 c) s'"
proof -
  have g: "growable 12" by (simp add: growable_def)
  obtain s1 where s1: "put_u32 a s = Inr s1" "writes (enc32 a) s1"
    using put_u32_writes [OF assms, of a] growable_mono [OF g, of 4] by auto
  obtain s2 where s2: "put_u32 b s1 = Inr s2" "writes (enc32 a @ enc32 b) s2"
    using put_u32_writes [OF s1(2), of b] growable_mono [OF g, of 8] by auto
  obtain s3 where s3: "put_u32 c s2 = Inr s3" "writes ((enc32 a @ enc32 b) @ enc32 c) s3"
    using put_u32_writes [OF s2(2), of c] g by auto
  show ?thesis using that s1(1) s2(1) s3 by simp
qed

lemma writes_out:
  "writes out s \<Longrightarrow>
   (case m_pSimpBuf s of None \<Rightarrow> Inl MemFault | Some b \<Rightarrow> slice (m_buffer b) 0 (unat (m_write_offset b))) = Inr out"
  by (auto simp: writes_def content_def buffer_ok_def)

lemma CDbAttachData_ser_bytes:
  "CDbAttachData_ser fresh t h s = Inr (enc32 t @ enc32 h @ enc32 s)"
  by (rule three_fields [OF writes_new [of fresh 0], of t h s])
     (simp add: CDbAttachData_ser_def writes_out flip: bindR_assoc)

lemma CPduAttachData_ser_bytes:
  assumes "unat n \<le> length pdu" "growable (16 + unat n)"
  shows "CPduAttachData_ser fresh t h n (Some pdu) s = Inr (enc32 t @ enc32 h @ enc32 s @ enc32 n @ take (unat n) pdu)"
proof -
  obtain s1 where s1: "bindR (put_u32 t (CByteStream_buf (CSimpleBuffer fresh) 0)) (\<lambda>os. bindR (put_u32 h os) (put_u32 s)) = Inr s1"
    "writes (enc32 t @ enc32 h @ enc32 s) s1"
    using three_fields [OF writes_new [of fresh 0], of t h s] by blast
  obtain s2 where s2: "WriteData (Some pdu) n s1 = Inr s2"
    "writes ((enc32 t @ enc32 h @ enc32 s) @ enc32 n @ take (unat n) pdu) s2"
    using WriteData_writes [OF s1(2) assms(1)] assms(2) by auto
  then show ?thesis using s1(1)
    by (simp add: CPduAttachData_ser_def writes_out flip: bindR_assoc)
qed

lemma CPduAttachData_ser_null:
  "CPduAttachData_ser fresh t h 0 None s = Inr (enc32 t @ enc32 h @ enc32 s @ enc32 0)"
proof -
  obtain s1 where s1: "bindR (put_u32 t (CByteStream_buf (CSimpleBuffer fresh) 0)) (\<lambda>os. bindR (put_u32 h os) (put_u32 s)) = Inr s1"
    "writes (enc32 t @ enc32 h @ enc32 s) s1"
    using three_fields [OF writes_new [of fresh 0], of t h s] by blast
  obtain s2 where s2: "put_u32 0 s1 = Inr s2" "writes ((enc32 t @ enc32 h @ enc32 s) @ enc32 0) s2"
    using put_u32_writes [OF s1(2), of 0] by (auto simp: growable_def)
  obtain s3 where s3: "WriteByte None 0 s2 = Inr s3" "writes ((enc32 t @ enc32 h @ enc32 s) @ enc32 0) s3"
    using WriteByte_writes_null [OF s2(2)] by blast
  then show ?thesis using s1(1) s2(1)
    by (simp add: CPduAttachData_ser_def WriteData_def writes_out flip: bindR_assoc)
qed

lemma CDbAttachData_par_spec:
  assumes "n < 2 ^ 32 - 16" "n \<le> length data"
  shows "CDbAttachData_par data (of_nat n) =
    (if 12 \<le> n then Inr \<lparr>da_type = be32 (take 4 data), da_handle = be32 (take 4 (drop 4 data)),
       da_service_type = be32 (take 4 (drop 8 data))\<rparr> else Inl parse_failed)"
  using assms
  by (simp add: CDbAttachData_par_def CByteStream_raw_reader get_u32_reader)

text \<open>Reading back: the length field is checked with 32-bit arithmetic.\<close>

lemma CPduAttachData_par_spec:
  assumes "n < 2 ^ 32 - 16" "n \<le> length data"
  shows "CPduAttachData_par data (of_nat n) =
    (if n < 16 then Inl parse_failed
     else let len = be32 (take 4 (drop 12 data))
          in if 16 + len > of_nat n then Inl parse_failed
             else Inr (\<lparr>da_type = be32 (take 4 data), da_handle = be32 (take 4 (drop 4 data)),
                        da_service_type = be32 (take 4 (drop 8 data))\<rparr>, 16, len))"
proof -
  have le: "4 \<le> n" "8 \<le> n" "12 \<le> n" if "16 \<le> n" using that by simp_all
  show ?thesis
    using assms le
    by (simp add: CPduAttachData_par_def CByteStream_raw_reader get_u32_reader ReadData_def)
       (simp add: reader_def Skip_def Let_def)
qed

section \<open>Short ids\<close>

definition digits :: string where
  "digits = ''0123456789abcdefghijklmnopqrstuvwxyz''"

text \<open>The loop that writes digits backwards; \<open>n\<close> is the room left in front of \<open>ptr\<close>.\<close>

fun idtourl_loop :: "nat \<Rightarrow> u32 \<Rightarrow> string \<Rightarrow> nat \<times> string" where
  "idtourl_loop 0 v out = (0, out)"
| "idtourl_loop (Suc n) v out =
     (let out' = digits ! unat (v mod 36) # out; v' = v div 36
      in if 0 < n \<and> v' \<noteq> 0 then idtourl_loop n v' out' else (n, out'))"

definition idtourl :: "u32 \<Rightarrow> string res" where
  "idtourl uid =
     (case idtourl_loop 63 (uid * 2 + 56) [] of
        (0, _) \<Rightarrow> Inl MemFault
      | (Suc n, out) \<Rightarrow> Inr (CHR ''1'' # out))"

definition url_digit :: "char \<Rightarrow> u32 option" where
  "url_digit c =
     (if CHR ''0'' \<le> c \<and> c \<le> CHR ''9'' then Some (of_char c - 48)
      else if CHR ''a'' \<le> c \<and> c \<le> CHR ''z'' then Some (of_char c - 87)
      else if CHR ''A'' \<le> c \<and> c \<le> CHR ''Z'' then Some (of_char c - 55)
      else None)"

definition url_step :: "char \<Rightarrow> u32 \<Rightarrow> u32" where
  "url_step c number = (case url_digit c of None \<Rightarrow> number | Some d \<Rightarrow> number * 36 + d)"

definition urltoid :: "string \<Rightarrow> u32" where
  "urltoid url = drop_bit 1 (fold url_step (drop 1 url) 0 - 56)"

lemma url_digit_digits:
  assumes "n < 36"
  shows "url_digit (digits ! n) = Some (of_nat n)"
proof -
  have "\<forall>n\<in>set [0..<36]. url_digit (digits ! n) = Some (of_nat n)" by code_simp
  then show ?thesis using assms by simp
qed

lemma url_step_digits: "n < 36 \<Longrightarrow> url_step (digits ! n) x = x * 36 + of_nat n"
  by (simp add: url_step_def url_digit_digits)

text \<open>Reading the digits that the loop wrote gives the number back, and the loop never runs out of room.\<close>

lemma idtourl_loop_spec:
  assumes "unat v < 36 ^ k" "k \<le> n" "0 < k"
  shows "\<exists>m ds. idtourl_loop n v out = (m, ds @ out) \<and> n - k \<le> m \<and> fold url_step ds 0 = v"
  using assms
proof (induction k arbitrary: n v out)
  case (Suc k)
  then obtain n' where n: "n = Suc n'" by (cases n) auto
  have m36: "unat (v mod 36) = unat v mod 36" "unat (v div 36) = unat v div 36"
    by (simp_all add: unat_mod unat_div)
  have v: "v div 36 * 36 + v mod 36 = v" by (rule div_mult_mod_eq)
  have d: "unat (v mod 36) < 36" by (simp add: m36)
  have one: "fold url_step [digits ! unat (v mod 36)] x = x * 36 + v mod 36" for x
    using url_step_digits [OF d] by simp
  show ?case
  proof (cases "0 < n' \<and> v div 36 \<noteq> 0")
    case True
    have "unat (v div 36) < 36 ^ k" using Suc.prems(1) by (simp add: m36 less_mult_imp_div_less mult.commute)
    moreover have "0 < k"
    proof (rule ccontr)
      assume "\<not> 0 < k"
      with Suc.prems(1) have "unat (v div 36) = 0" by (simp add: m36)
      then show False using True by (simp add: unat_eq_0)
    qed
    ultimately obtain m ds where
      "idtourl_loop n' (v div 36) (digits ! unat (v mod 36) # out) = (m, ds @ digits ! unat (v mod 36) # out)"
      "n' - k \<le> m" "fold url_step ds 0 = v div 36"
      using Suc.IH [of "v div 36" n' "digits ! unat (v mod 36) # out"] Suc.prems(2) n by auto
    then show ?thesis using True n one v
      by (intro exI [of _ m] exI [of _ "ds @ [digits ! unat (v mod 36)]"]) (simp add: Let_def)
  next
    case False
    have "k = 0 \<or> 0 < n'" using Suc.prems(2) n by auto
    then have "v div 36 = 0"
      using False Suc.prems(1) by (auto simp: m36 unat_eq_0 [symmetric])
    then show ?thesis using False n one [of 0] v
      by (intro exI [of _ n'] exI [of _ "[digits ! unat (v mod 36)]"]) (auto simp: Let_def)
  qed
qed simp

section \<open>Properties\<close>

text \<open>
  Attachments survive the round trip through the database proxy: what the serialising constructor of \<open>CPduAttachData\<close> wrote, the
  reading constructor returns, the enclosed PDU included, and it needs no more than the bytes written.
\<close>

theorem pdu_attach_roundtrip:
  assumes "growable (16 + length pdu)"
  shows "\<exists>bs. CPduAttachData_ser fresh t h (of_nat (length pdu)) (Some pdu) s = Inr bs
    \<and> CPduAttachData_par bs (of_nat (length bs)) =
        Inr (\<lparr>da_type = t, da_handle = h, da_service_type = s\<rparr>, 16, of_nat (length pdu))
    \<and> attached_pdu bs (\<lparr>da_type = t, da_handle = h, da_service_type = s\<rparr>, 16, of_nat (length pdu)) = Inr pdu"
proof -
  have n: "unat (of_nat (length pdu) :: u32) = length pdu"
    using growable_lt [OF assms] by (intro unat_of_nat_u32) simp
  let ?bs = "enc32 t @ enc32 h @ enc32 s @ enc32 (of_nat (length pdu)) @ pdu"
  have ser: "CPduAttachData_ser fresh t h (of_nat (length pdu)) (Some pdu) s = Inr ?bs"
    using CPduAttachData_ser_bytes [of "of_nat (length pdu)" pdu] assms n by simp
  have "length ?bs < 2 ^ 32 - 16" using assms by (simp add: growable_def)
  from CPduAttachData_par_spec [OF this order_refl]
  have par: "CPduAttachData_par ?bs (of_nat (length ?bs)) =
      Inr (\<lparr>da_type = t, da_handle = h, da_service_type = s\<rparr>, 16, of_nat (length pdu))"
    by (simp add: Let_def)
  have "unat (16 :: u32) = 16" by simp
  then have "attached_pdu ?bs (\<lparr>da_type = t, da_handle = h, da_service_type = s\<rparr>, 16, of_nat (length pdu)) = Inr pdu"
    unfolding attached_pdu_def fst_conv snd_conv n by (simp add: slice_def)
  then show ?thesis using ser par by blast
qed

theorem pdu_attach_roundtrip_witness:
  "\<exists>bs. CPduAttachData_ser (\<lambda>_. 0) 3 77 2 (Some [9, 8]) 0 = Inr bs
    \<and> attached_pdu bs (\<lparr>da_type = 3, da_handle = 77, da_service_type = 0\<rparr>, 16, 2) = Inr [9, 8]"
  using pdu_attach_roundtrip [of "[9, 8]" "\<lambda>_. 0" 3 77 0] by (auto simp: growable_def)

text \<open>
  The same for \<open>CDbAttachData\<close>, and an attachment that is cut off is rejected with an exception instead of being read past its end.
\<close>

theorem db_attach_roundtrip:
  "\<exists>bs. CDbAttachData_ser fresh t h s = Inr bs
    \<and> CDbAttachData_par bs (of_nat (length bs)) = Inr \<lparr>da_type = t, da_handle = h, da_service_type = s\<rparr>
    \<and> (\<forall>k\<in>{..<length bs}. CDbAttachData_par (take k bs) (of_nat k) = Inl parse_failed)"
proof -
  let ?bs = "enc32 t @ enc32 h @ enc32 s"
  have "CDbAttachData_par (take k ?bs) (of_nat k) = Inl parse_failed" if "k < length ?bs" for k
    using CDbAttachData_par_spec [of k "take k ?bs"] that by simp
  then show ?thesis using CDbAttachData_par_spec [of "length ?bs" ?bs]
    by (intro exI [of _ ?bs]) (simp add: CDbAttachData_ser_bytes)
qed

theorem db_attach_roundtrip_witness:
  "CDbAttachData_par (take 5 (enc32 1 @ enc32 2 @ enc32 0)) 5 = Inl parse_failed"
proof -
  obtain bs where bs: "CDbAttachData_ser (\<lambda>_. 0) 1 2 0 = Inr bs"
    "\<forall>k\<in>{..<length bs}. CDbAttachData_par (take k bs) (of_nat k) = Inl parse_failed"
    using db_attach_roundtrip [of "\<lambda>_. 0" 1 2 0] by blast
  then have "bs = enc32 1 @ enc32 2 @ enc32 0" by (simp add: CDbAttachData_ser_bytes)
  then show ?thesis using bs(2) by (auto dest: bspec [of _ _ 5])
qed

text \<open>
  The length check of \<open>ReadData\<close> wraps around: an attachment whose PDU length field is close to \<open>2 ^ 32\<close> is accepted with that
  length, far beyond the bytes that are there, and reading the PDU leaves the attachment.
\<close>

theorem attach_length_wraps:
  assumes "16 \<le> n" "n < 2 ^ 32 - 16" "n \<le> length data" "be32 (take 4 (drop 12 data)) = len" "2 ^ 32 - 16 \<le> unat len"
  shows "\<exists>r. CPduAttachData_par data (of_nat n) = Inr r \<and> snd (snd r) = len
    \<and> (length data < 2 ^ 32 \<longrightarrow> attached_pdu data r = Inl MemFault)"
proof -
  have "unat (16 + len) = unat len - (2 ^ 32 - 16)"
    using assms(5) unat_lt_u32 [of len] by (simp add: unat_word_ariths(1) mod_if)
  then have "unat (16 + len) < 16" using unat_lt_u32 [of len] assms(5) by simp
  then have "\<not> 16 + len > of_nat n"
    using assms(1,2) unat_of_nat_u32 [of n] by (simp add: word_less_nat_alt)
  then show ?thesis
    using CPduAttachData_par_spec [OF assms(2,3)] assms(1,4,5)
    by (auto simp: Let_def attached_pdu_def slice_def)
qed

theorem attach_length_wraps_witness:
  "\<exists>r. CPduAttachData_par (enc32 3 @ enc32 1 @ enc32 0 @ enc32 0xFFFFFFF8) 16 = Inr r
    \<and> attached_pdu (enc32 3 @ enc32 1 @ enc32 0 @ enc32 0xFFFFFFF8) r = Inl MemFault"
  using attach_length_wraps [of 16 "enc32 3 @ enc32 1 @ enc32 0 @ enc32 0xFFFFFFF8" "0xFFFFFFF8"] by auto

text \<open>
  \<open>urltoid\<close> inverts \<open>idtourl\<close> up to the top bit: every id below \<open>2 ^ 31\<close> comes back, and \<open>idtourl\<close> never leaves its buffer.
\<close>

theorem urltoid_idtourl:
  "\<exists>url. idtourl uid = Inr url \<and> urltoid url = take_bit 31 uid"
proof -
  let ?v = "uid * 2 + 56"
  have "unat ?v < 36 ^ 7" using unat_lt_u32 [of ?v] by simp
  then obtain m ds where l: "idtourl_loop 63 ?v [] = (m, ds)" "56 \<le> m" "fold url_step ds 0 = ?v"
    using idtourl_loop_spec [of ?v 7 63 "[]"] by auto
  have "drop_bit 1 (?v - 56) = take_bit 31 uid"
    by (rule bit_word_eqI) (auto simp: bit_simps mult.commute [of uid] simp flip: push_bit_eq_mult [of 1, simplified])
  then show ?thesis using l
    by (intro exI [of _ "CHR ''1'' # ds"]) (simp add: idtourl_def urltoid_def split: nat.splits)
qed

end
