(* ===== verification/ServInfo.thy ===== *)
theory ServInfo
  imports ServerBase
begin

text \<open>
  The message server's connections to its back ends (\<open>base/ServInfo.h\<close>, and what
  \<open>LoginServConn.cpp\<close>, \<open>RouteServConn.cpp\<close> and \<open>DBServConn.cpp\<close> of \<open>msg_server/\<close> share): a fixed list of
  servers, each with its current connection object and a reconnect counter, the map from
  handles to connection objects, and the objects. Network calls are returned as a list of
  outputs, which the server appends to its trace.
\<close>

text \<open>
  The members that the classes \<open>CLoginServConn\<close>, \<open>CRouteServConn\<close>, \<open>CDBServConn\<close>, \<open>CPushServConn\<close> and
  \<open>CFileServConn\<close> declare; \<open>m_connect_time\<close> is used by the route servers' class, \<open>m_ip_list\<close> by the file servers' class.
\<close>

record serv_conn =
  sv_handle :: u32
  sv_open :: bool
  sv_serv_idx :: nat
  sv_connect_time :: u64
  sv_last_send_tick :: u64
  sv_last_recv_tick :: u64
  sv_ip_list :: "(string \<times> u32) list"

record serv_info_t =
  server_ip :: string
  server_port :: u16
  idle_cnt :: u32
  reconnect_cnt :: u32
  si_serv_conn :: "nat option"

record backend =
  b_server_list :: "serv_info_t list"
  b_conn_map :: conn_map
  b_heap :: "serv_conn heap"

abbreviation (input) MAX_RECONNECT_CNT :: u32 where "MAX_RECONNECT_CNT \<equiv> 64"
abbreviation (input) MIN_RECONNECT_CNT :: u32 where "MIN_RECONNECT_CNT \<equiv> 4"

section \<open>Connecting and reconnecting\<close>

text \<open>
  \<open>T::Connect\<close> of the three classes. \<open>h\<close> is what \<open>netlib_connect\<close> returns for the server's
  address.
\<close>

definition serv_Connect :: "u32 \<Rightarrow> nat \<Rightarrow> nat \<Rightarrow> backend \<Rightarrow> backend res" where
  "serv_Connect h a idx b =
     bindR (deref a (b_heap b)) (\<lambda>c.
       let b1 = b\<lparr>b_heap := set_obj a (c\<lparr>sv_serv_idx := idx, sv_handle := h\<rparr>) (b_heap b)\<rparr>
       in Inr (if h \<noteq> NETLIB_INVALID_HANDLE then b1\<lparr>b_conn_map := hm_insert h a (b_conn_map b1)\<rparr> else b1))"

definition new_serv_conn :: "u64 \<Rightarrow> backend \<Rightarrow> nat \<times> backend" where
  "new_serv_conn now b =
     (let (a, h) = new_obj \<lparr>sv_handle = NETLIB_INVALID_HANDLE, sv_open = False, sv_serv_idx = 0, sv_connect_time = 0,
                            sv_last_send_tick = now, sv_last_recv_tick = now, sv_ip_list = []\<rparr> (b_heap b)
      in (a, b\<lparr>b_heap := h\<rparr>))"

text \<open>The entry of one server gets a new connection object; \<open>connect\<close> gives the handles.\<close>

definition serv_connect_at :: "(nat \<Rightarrow> u32) \<Rightarrow> u64 \<Rightarrow> nat \<Rightarrow> (serv_info_t \<Rightarrow> serv_info_t) \<Rightarrow> backend \<Rightarrow> backend res" where
  "serv_connect_at connect now i reset b =
     (let (a, b1) = new_serv_conn now b
      in bindR (serv_Connect (connect i) a i b1) (\<lambda>b2.
           Inr (b2\<lparr>b_server_list := (b_server_list b2)[i := reset ((b_server_list b2 ! i)\<lparr>si_serv_conn := Some a\<rparr>)]\<rparr>)))"

fun serv_init_loop :: "(nat \<Rightarrow> u32) \<Rightarrow> u64 \<Rightarrow> nat list \<Rightarrow> backend \<Rightarrow> backend res" where
  "serv_init_loop connect now [] b = Inr b"
| "serv_init_loop connect now (i # is) b =
     bindR (serv_connect_at connect now i (\<lambda>s. s\<lparr>idle_cnt := 0, reconnect_cnt := MIN_RECONNECT_CNT div 2\<rparr>) b)
       (serv_init_loop connect now is)"

definition serv_init :: "(nat \<Rightarrow> u32) \<Rightarrow> u64 \<Rightarrow> backend \<Rightarrow> backend res" where
  "serv_init connect now b = serv_init_loop connect now [0..<length (b_server_list b)] b"

definition serv_reconnect_at :: "(nat \<Rightarrow> u32) \<Rightarrow> u64 \<Rightarrow> nat \<Rightarrow> backend \<Rightarrow> backend res" where
  "serv_reconnect_at connect now i b =
     (let s = b_server_list b ! i
      in if si_serv_conn s \<noteq> None then Inr b
         else let s1 = s\<lparr>idle_cnt := idle_cnt s + 1\<rparr>; b1 = b\<lparr>b_server_list := (b_server_list b)[i := s1]\<rparr>
              in if idle_cnt s1 \<ge> reconnect_cnt s1 then serv_connect_at connect now i (\<lambda>s. s) b1 else Inr b1)"

fun serv_reconnect_loop :: "(nat \<Rightarrow> u32) \<Rightarrow> u64 \<Rightarrow> nat list \<Rightarrow> backend \<Rightarrow> backend res" where
  "serv_reconnect_loop connect now [] b = Inr b"
| "serv_reconnect_loop connect now (i # is) b =
     bindR (serv_reconnect_at connect now i b) (serv_reconnect_loop connect now is)"

definition serv_check_reconnect :: "(nat \<Rightarrow> u32) \<Rightarrow> u64 \<Rightarrow> backend \<Rightarrow> backend res" where
  "serv_check_reconnect connect now b = serv_reconnect_loop connect now [0..<length (b_server_list b)] b"

definition reset_info :: "serv_info_t \<Rightarrow> serv_info_t" where
  "reset_info s =
     (let s1 = s\<lparr>si_serv_conn := None, idle_cnt := 0, reconnect_cnt := reconnect_cnt s * 2\<rparr>
      in if reconnect_cnt s1 > MAX_RECONNECT_CNT then s1\<lparr>reconnect_cnt := MIN_RECONNECT_CNT\<rparr> else s1)"

definition serv_reset :: "nat \<Rightarrow> backend \<Rightarrow> backend" where
  "serv_reset serv_idx b =
     (if serv_idx \<ge> length (b_server_list b) then b
      else b\<lparr>b_server_list := (b_server_list b)[serv_idx := reset_info (b_server_list b ! serv_idx)]\<rparr>)"

section \<open>Connection objects\<close>

definition serv_SendPdu :: "u64 \<Rightarrow> nat \<Rightarrow> bytes \<Rightarrow> backend \<Rightarrow> (backend \<times> net_out list) res" where
  "serv_SendPdu now a data b =
     bindR (deref a (b_heap b)) (\<lambda>c.
       Inr (b\<lparr>b_heap := set_obj a (c\<lparr>sv_last_send_tick := now\<rparr>) (b_heap b)\<rparr>, [NetSend (sv_handle c) data]))"

text \<open>\<open>Close\<close> of \<open>CLoginServConn\<close> and \<open>CDBServConn\<close>; \<open>CRouteServConn\<close> clears \<open>m_bOpen\<close> as well.\<close>

definition serv_Close :: "bool \<Rightarrow> nat \<Rightarrow> backend \<Rightarrow> (backend \<times> net_out list) res" where
  "serv_Close clear_open a b =
     bindR (deref a (b_heap b)) (\<lambda>c.
       let b1 = serv_reset (sv_serv_idx c) b;
           b2 = (if clear_open then b1\<lparr>b_heap := set_obj a (c\<lparr>sv_open := False\<rparr>) (b_heap b1)\<rparr> else b1);
           (b3, out) = (if sv_handle c \<noteq> NETLIB_INVALID_HANDLE
                        then (b2\<lparr>b_conn_map := map_erase (sv_handle c) (b_conn_map b2)\<rparr>, [NetClose (sv_handle c)])
                        else (b2, []))
       in bindR (release_ref a (b_heap b3)) (\<lambda>h. Inr (b3\<lparr>b_heap := h\<rparr>, out)))"

text \<open>
  The common part of \<open>OnConfirm\<close>: the connection is open, the back-off starts anew. \<open>stamp\<close> is
  what the class records of the time: \<open>CRouteServConn\<close> sets \<open>m_connect_time\<close>, the others have no such field.
\<close>

definition serv_confirmed :: "(serv_conn \<Rightarrow> serv_conn) \<Rightarrow> nat \<Rightarrow> backend \<Rightarrow> backend res" where
  "serv_confirmed stamp a b =
     bindR (deref a (b_heap b)) (\<lambda>c.
       if sv_serv_idx c < length (b_server_list b) then
         Inr (b\<lparr>b_heap := set_obj a (stamp (c\<lparr>sv_open := True\<rparr>)) (b_heap b),
                b_server_list := (b_server_list b)[sv_serv_idx c :=
                  (b_server_list b ! sv_serv_idx c)\<lparr>reconnect_cnt := MIN_RECONNECT_CNT div 2\<rparr>]\<rparr>)
       else Inl MemFault)"

definition serv_OnTimer :: "bool \<Rightarrow> bytes \<Rightarrow> u64 \<Rightarrow> u64 \<Rightarrow> nat \<Rightarrow> backend \<Rightarrow> (backend \<times> net_out list) res" where
  "serv_OnTimer clear_open heartbeat now curr_tick a b =
     bindR (deref a (b_heap b)) (\<lambda>c.
     bindR (if curr_tick > sv_last_send_tick c + SERVER_HEARTBEAT_INTERVAL
            then serv_SendPdu now a heartbeat b else Inr (b, [])) (\<lambda>(b1, out1).
       if curr_tick > sv_last_recv_tick c + SERVER_TIMEOUT
       then bindR (serv_Close clear_open a b1) (\<lambda>(b2, out2). Inr (b2, out1 @ out2))
       else Inr (b1, out1)))"

section \<open>Choosing a connection\<close>

text \<open>\<open>pConn \<and> pConn->IsOpen()\<close> for the entry of one server.\<close>

definition open_conn :: "backend \<Rightarrow> serv_info_t \<Rightarrow> nat option res" where
  "open_conn b s =
     (case si_serv_conn s of
        None \<Rightarrow> Inr None
      | Some a \<Rightarrow> bindR (deref a (b_heap b)) (\<lambda>c. Inr (if sv_open c then Some a else None)))"

fun first_open :: "backend \<Rightarrow> serv_info_t list \<Rightarrow> nat option res" where
  "first_open b [] = Inr None"
| "first_open b (s # ss) =
     bindR (open_conn b s) (\<lambda>r. if r \<noteq> None then Inr r else first_open b ss)"

definition server_available :: "backend \<Rightarrow> bool res" where
  "server_available b = bindR (first_open b (b_server_list b)) (\<lambda>r. Inr (r \<noteq> None))"

fun send_to_all :: "u64 \<Rightarrow> bytes \<Rightarrow> serv_info_t list \<Rightarrow> backend \<Rightarrow> (backend \<times> net_out list) res" where
  "send_to_all now data [] b = Inr (b, [])"
| "send_to_all now data (s # ss) b =
     bindR (open_conn b s) (\<lambda>r.
     bindR (case r of None \<Rightarrow> Inr (b, []) | Some a \<Rightarrow> serv_SendPdu now a data b) (\<lambda>(b1, out1).
     bindR (send_to_all now data ss b1) (\<lambda>(b2, out2). Inr (b2, out1 @ out2))))"

text \<open>
  \<open>get_db_server_conn_in_range\<close>: after a scan that stops at the first open connection of the range, random
  entries are tried until one is open. The array is not checked: an entry that is not there cannot be read. \<open>rands\<close> are the values of
  the calls to \<open>rand()\<close>; when they are used up the loop is still running, which the second constructor of the result says.
\<close>

datatype 'a loop_result = Returned 'a | Running

definition db_entry :: "backend \<Rightarrow> nat \<Rightarrow> nat option res" where
  "db_entry b i = (if i < length (b_server_list b) then open_conn b (b_server_list b ! i) else Inl MemFault)"

text \<open>The position at which the first loop stops.\<close>

function db_scan :: "backend \<Rightarrow> nat \<Rightarrow> nat \<Rightarrow> nat res" where
  "db_scan b i stop_pos =
     (if i < stop_pos then bindR (db_entry b i) (\<lambda>c. if c \<noteq> None then Inr i else db_scan b (i + 1) stop_pos) else Inr i)"
  by auto
termination by (relation "measure (\<lambda>(_, i, n). n - i)") auto

declare db_scan.simps [simp del]

text \<open>
  \<open>rand() % (stop_pos - start_pos) + start_pos\<close>, where the difference is a 32-bit number; positions and random numbers are below \<open>2 ^ 31\<close>, so the sum does not
  wrap around.
\<close>

definition db_draw :: "nat \<Rightarrow> nat \<Rightarrow> nat \<Rightarrow> nat" where
  "db_draw start_pos stop_pos r = r mod (if start_pos \<le> stop_pos then stop_pos - start_pos else 2 ^ 32 + stop_pos - start_pos) + start_pos"

fun random_open :: "nat list \<Rightarrow> nat \<Rightarrow> nat \<Rightarrow> backend \<Rightarrow> nat option loop_result res" where
  "random_open [] start_pos stop_pos b = Inr Running"
| "random_open (r # rs) start_pos stop_pos b =
     bindR (db_entry b (db_draw start_pos stop_pos r)) (\<lambda>c.
       if c \<noteq> None then Inr (Returned c) else random_open rs start_pos stop_pos b)"

definition get_db_server_conn_in_range :: "nat list \<Rightarrow> nat \<Rightarrow> nat \<Rightarrow> backend \<Rightarrow> nat option loop_result res" where
  "get_db_server_conn_in_range rands start_pos stop_pos b =
     bindR (db_scan b start_pos stop_pos) (\<lambda>i.
       if i = stop_pos then Inr (Returned None) else random_open rands start_pos stop_pos b)"

text \<open>The scan for the connection that has been open for the longest time.\<close>

fun oldest_open :: "backend \<Rightarrow> serv_info_t list \<Rightarrow> nat option \<Rightarrow> u64 \<Rightarrow> nat option res" where
  "oldest_open b [] best oldest = Inr best"
| "oldest_open b (s # ss) best oldest =
     bindR (open_conn b s) (\<lambda>r.
       case r of
         None \<Rightarrow> oldest_open b ss best oldest
       | Some a \<Rightarrow>
           bindR (deref a (b_heap b)) (\<lambda>c.
             if sv_connect_time c < oldest then oldest_open b ss (Some a) (sv_connect_time c)
             else oldest_open b ss best oldest))"

section \<open>Well-formed back ends\<close>

definition backend_ok :: "backend \<Rightarrow> bool" where
  "backend_ok b \<longleftrightarrow> heap_ok (b_heap b) \<and> hm_ok (b_conn_map b)
     \<and> (\<forall>s\<in>set (b_server_list b). \<forall>a. si_serv_conn s = Some a \<longrightarrow> live a (b_heap b))"

definition is_open :: "backend \<Rightarrow> nat \<Rightarrow> bool" where
  "is_open b a \<longleftrightarrow> (\<exists>c. deref a (b_heap b) = Inr c \<and> sv_open c)"

definition open_set :: "backend \<Rightarrow> serv_info_t list \<Rightarrow> nat set" where
  "open_set b ss = {a. \<exists>s\<in>set ss. si_serv_conn s = Some a \<and> is_open b a}"

abbreviation conns_live :: "backend \<Rightarrow> serv_info_t list \<Rightarrow> bool" where
  "conns_live b ss \<equiv> \<forall>s\<in>set ss. \<forall>a. si_serv_conn s = Some a \<longrightarrow> live a (b_heap b)"

lemma open_conn_spec:
  assumes "\<forall>a. si_serv_conn s = Some a \<longrightarrow> live a (b_heap b)"
  shows "open_conn b s = Inr (case si_serv_conn s of None \<Rightarrow> None | Some a \<Rightarrow> if is_open b a then Some a else None)"
  using assms live_deref [of "the (si_serv_conn s)" "b_heap b"]
  by (cases "si_serv_conn s") (auto simp: open_conn_def is_open_def)

lemma first_open_spec:
  assumes "conns_live b ss"
  shows "\<exists>r. first_open b ss = Inr r \<and> (r = None \<longleftrightarrow> open_set b ss = {}) \<and> (\<forall>a. r = Some a \<longrightarrow> a \<in> open_set b ss)"
  using assms
proof (induction ss)
  case (Cons s ss)
  then obtain r where r: "first_open b ss = Inr r" "r = None \<longleftrightarrow> open_set b ss = {}" "\<forall>a. r = Some a \<longrightarrow> a \<in> open_set b ss"
    by auto
  have "open_set b (s # ss) = open_set b ss \<union> {a. si_serv_conn s = Some a \<and> is_open b a}"
    by (auto simp: open_set_def)
  then show ?case using r Cons.prems open_conn_spec [of s b]
    by (cases "si_serv_conn s") auto
qed (simp add: open_set_def)

text \<open>The entries of a range that lies in the list.\<close>

abbreviation db_range :: "nat \<Rightarrow> nat \<Rightarrow> backend \<Rightarrow> serv_info_t list" where
  "db_range lo hi b \<equiv> drop lo (take hi (b_server_list b))"

lemma db_entry_spec:
  assumes "conns_live b (b_server_list b)" "i < length (b_server_list b)"
  shows "db_entry b i = Inr (case si_serv_conn (b_server_list b ! i) of None \<Rightarrow> None | Some a \<Rightarrow> if is_open b a then Some a else None)"
  unfolding db_entry_def using assms(2) open_conn_spec [of "b_server_list b ! i" b] assms(1) nth_mem [OF assms(2)] by simp

lemma db_range_Cons: "i < hi \<Longrightarrow> hi \<le> length (b_server_list b) \<Longrightarrow> db_range i hi b = b_server_list b ! i # db_range (i + 1) hi b"
  using Cons_nth_drop_Suc [of i "take hi (b_server_list b)"] by simp

lemma db_scan_spec:
  assumes "conns_live b (b_server_list b)" "hi \<le> length (b_server_list b)" "lo \<le> hi"
  shows "\<exists>i. db_scan b lo hi = Inr i \<and> (i = hi \<longleftrightarrow> open_set b (db_range lo hi b) = {})"
  using assms(3)
proof (induction "hi - lo" arbitrary: lo)
  case 0
  then show ?case by (subst db_scan.simps) (simp add: open_set_def)
next
  case (Suc n)
  then have lo: "lo < hi" by simp
  then obtain i where i: "db_scan b (lo + 1) hi = Inr i" "i = hi \<longleftrightarrow> open_set b (db_range (lo + 1) hi b) = {}"
    using Suc.hyps(1) [of "lo + 1"] Suc.hyps(2) by fastforce
  have "open_set b (db_range lo hi b) = open_set b (db_range (lo + 1) hi b) \<union> {a. si_serv_conn (b_server_list b ! lo) = Some a \<and> is_open b a}"
    unfolding db_range_Cons [OF lo assms(2)] by (auto simp: open_set_def)
  then show ?case
    using i lo assms(2) db_entry_spec [OF assms(1), of lo] by (subst db_scan.simps) (auto split: option.splits)
qed

lemma db_draw_range:
  assumes "lo < hi" "hi \<le> length (b_server_list b)"
  shows "db_draw lo hi r < length (b_server_list b)" "b_server_list b ! db_draw lo hi r = db_range lo hi b ! (r mod length (db_range lo hi b))"
    "db_range lo hi b ! (r mod length (db_range lo hi b)) \<in> set (db_range lo hi b)"
proof -
  have m: "r mod (hi - lo) < hi - lo" using assms(1) by simp
  then have i: "r mod (hi - lo) + lo < hi" by arith
  then show "db_draw lo hi r < length (b_server_list b)" using assms by (simp add: db_draw_def)
  have len: "length (db_range lo hi b) = hi - lo" using assms by simp
  show "b_server_list b ! db_draw lo hi r = db_range lo hi b ! (r mod length (db_range lo hi b))"
    unfolding len using i assms by (simp add: db_draw_def add.commute)
  show "db_range lo hi b ! (r mod length (db_range lo hi b)) \<in> set (db_range lo hi b)" using m len by (intro nth_mem) simp
qed

lemma random_open_spec:
  assumes "conns_live b (b_server_list b)" "lo < hi" "hi \<le> length (b_server_list b)"
  shows "case random_open rs lo hi b of
      Inl e \<Rightarrow> False
    | Inr Running \<Rightarrow> \<forall>r\<in>set rs. \<forall>a. si_serv_conn (db_range lo hi b ! (r mod length (db_range lo hi b))) = Some a \<longrightarrow> \<not> is_open b a
    | Inr (Returned c) \<Rightarrow> \<exists>a\<in>open_set b (db_range lo hi b). c = Some a"
proof (induction rs)
  case (Cons r rs)
  let ?s = "db_range lo hi b ! (r mod length (db_range lo hi b))"
  note d = db_draw_range [OF assms(2,3), of r]
  have "db_entry b (db_draw lo hi r) = Inr (case si_serv_conn ?s of None \<Rightarrow> None | Some a \<Rightarrow> if is_open b a then Some a else None)"
    using db_entry_spec [OF assms(1) d(1)] unfolding d(2) .
  moreover have "a \<in> open_set b (db_range lo hi b)" if "si_serv_conn ?s = Some a" "is_open b a" for a
    using that d(3) unfolding open_set_def by blast
  ultimately show ?case using Cons
    by (auto simp del: length_drop length_take split: option.splits if_splits sum.splits loop_result.splits)
qed simp

section \<open>Reconnecting after a lost connection\<close>

lemma serv_connect_at_spec:
  "\<exists>b'. serv_connect_at connect now i upd b = Inr b'
    \<and> b_server_list b' = (b_server_list b)[i := upd ((b_server_list b ! i)\<lparr>si_serv_conn := Some (hp_next (b_heap b))\<rparr>)]"
  by (simp add: serv_connect_at_def new_serv_conn_def new_obj_def serv_Connect_def deref_def Let_def)

text \<open>One second of an entry without connection: it waits, or its time is up and it gets one.\<close>

definition waited :: "serv_info_t \<Rightarrow> serv_info_t \<Rightarrow> bool" where
  "waited s s' \<longleftrightarrow>
     (if si_serv_conn s \<noteq> None then s' = s
      else idle_cnt s' = idle_cnt s + 1 \<and> reconnect_cnt s' = reconnect_cnt s
        \<and> (si_serv_conn s' = None \<longleftrightarrow> idle_cnt s + 1 < reconnect_cnt s))"

lemma serv_reconnect_at_spec:
  assumes "i < length (b_server_list b)"
  shows "\<exists>b'. serv_reconnect_at connect now i b = Inr b' \<and> length (b_server_list b') = length (b_server_list b)
    \<and> waited (b_server_list b ! i) (b_server_list b' ! i) \<and> (\<forall>j. j \<noteq> i \<longrightarrow> b_server_list b' ! j = b_server_list b ! j)"
proof -
  let ?s = "(b_server_list b ! i)\<lparr>idle_cnt := idle_cnt (b_server_list b ! i) + 1\<rparr>"
  let ?b = "b\<lparr>b_server_list := (b_server_list b)[i := ?s]\<rparr>"
  obtain b' where "serv_connect_at connect now i (\<lambda>s. s) ?b = Inr b'"
    "b_server_list b' = (b_server_list ?b)[i := (b_server_list ?b ! i)\<lparr>si_serv_conn := Some (hp_next (b_heap ?b))\<rparr>]"
    using serv_connect_at_spec [of connect now i "\<lambda>s. s" ?b] by blast
  then show ?thesis using assms
    by (cases "si_serv_conn (b_server_list b ! i)")
       (auto simp: serv_reconnect_at_def Let_def waited_def not_le nth_list_update)
qed

lemma serv_reconnect_loop_spec:
  assumes "distinct is" "set is \<subseteq> {..<length (b_server_list b)}"
  shows "\<exists>b'. serv_reconnect_loop connect now is b = Inr b' \<and> length (b_server_list b') = length (b_server_list b)
    \<and> (\<forall>j. if j \<in> set is then waited (b_server_list b ! j) (b_server_list b' ! j) else b_server_list b' ! j = b_server_list b ! j)"
  using assms
proof (induction "is" arbitrary: b)
  case (Cons i "is")
  obtain b1 where b1: "serv_reconnect_at connect now i b = Inr b1" "length (b_server_list b1) = length (b_server_list b)"
    "waited (b_server_list b ! i) (b_server_list b1 ! i)" "\<forall>j. j \<noteq> i \<longrightarrow> b_server_list b1 ! j = b_server_list b ! j"
    using serv_reconnect_at_spec [of i b connect now] Cons.prems by auto
  obtain b2 where "serv_reconnect_loop connect now is b1 = Inr b2" "length (b_server_list b2) = length (b_server_list b1)"
    "\<forall>j. if j \<in> set is then waited (b_server_list b1 ! j) (b_server_list b2 ! j) else b_server_list b2 ! j = b_server_list b1 ! j"
    using Cons.IH [of b1] Cons.prems b1(2) by auto
  then show ?case using b1 Cons.prems by (auto split: if_splits) metis
qed simp

lemma serv_check_reconnect_spec:
  "\<exists>b'. serv_check_reconnect connect now b = Inr b' \<and> length (b_server_list b') = length (b_server_list b)
    \<and> (\<forall>j<length (b_server_list b). waited (b_server_list b ! j) (b_server_list b' ! j))"
proof -
  have ids: "set [0..<length (b_server_list b)] \<subseteq> {..<length (b_server_list b)}" by auto
  obtain b' where b': "serv_reconnect_loop connect now [0..<length (b_server_list b)] b = Inr b'"
    "length (b_server_list b') = length (b_server_list b)"
    "\<forall>j. if j \<in> set [0..<length (b_server_list b)] then waited (b_server_list b ! j) (b_server_list b' ! j)
      else b_server_list b' ! j = b_server_list b ! j"
    using serv_reconnect_loop_spec [OF distinct_upt ids, of connect now] by (elim exE conjE)
  have "waited (b_server_list b ! j) (b_server_list b' ! j)" if "j < length (b_server_list b)" for j
    using spec [OF b'(3), of j] that by simp
  then show ?thesis using b'(1,2) by (simp add: serv_check_reconnect_def)
qed

text \<open>The timer runs once a second.\<close>

fun serv_rounds :: "(nat \<Rightarrow> u32) \<Rightarrow> u64 \<Rightarrow> nat \<Rightarrow> backend \<Rightarrow> backend res" where
  "serv_rounds connect now 0 b = Inr b"
| "serv_rounds connect now (Suc n) b = bindR (serv_rounds connect now n b) (serv_check_reconnect connect now)"

lemma serv_rounds_spec:
  assumes "i < length (b_server_list b)" "si_serv_conn (b_server_list b ! i) = None"
    "idle_cnt (b_server_list b ! i) = 0" "0 < reconnect_cnt (b_server_list b ! i)"
  shows "\<exists>b'. serv_rounds connect now n b = Inr b' \<and> length (b_server_list b') = length (b_server_list b)
    \<and> reconnect_cnt (b_server_list b' ! i) = reconnect_cnt (b_server_list b ! i)
    \<and> (si_serv_conn (b_server_list b' ! i) = None \<longleftrightarrow> n < unat (reconnect_cnt (b_server_list b ! i)))
    \<and> (n < unat (reconnect_cnt (b_server_list b ! i)) \<longrightarrow> idle_cnt (b_server_list b' ! i) = of_nat n)"
proof (induction n)
  case 0
  then show ?case using assms by (simp add: word_less_nat_alt)
next
  case (Suc n)
  let ?r = "reconnect_cnt (b_server_list b ! i)"
  obtain b1 where b1: "serv_rounds connect now n b = Inr b1" "length (b_server_list b1) = length (b_server_list b)"
    "reconnect_cnt (b_server_list b1 ! i) = ?r" "si_serv_conn (b_server_list b1 ! i) = None \<longleftrightarrow> n < unat ?r"
    "n < unat ?r \<longrightarrow> idle_cnt (b_server_list b1 ! i) = of_nat n"
    using Suc.IH by (elim exE conjE)
  obtain b2 where b2: "serv_check_reconnect connect now b1 = Inr b2" "length (b_server_list b2) = length (b_server_list b1)"
    "\<forall>j<length (b_server_list b1). waited (b_server_list b1 ! j) (b_server_list b2 ! j)"
    using serv_check_reconnect_spec [of connect now b1] by (elim exE conjE)
  have w: "waited (b_server_list b1 ! i) (b_server_list b2 ! i)" using b2(3) b1(2) assms(1) by simp
  have "(of_nat n + 1 :: u32) < ?r \<longleftrightarrow> Suc n < unat ?r" if n: "n < unat ?r"
  proof -
    have "unat (of_nat (Suc n) :: u32) = Suc n"
      using n unat_lt_u32 [of ?r] by (intro unat_of_nat_u32) linarith
    then show ?thesis by (simp add: word_less_nat_alt add.commute)
  qed
  then show ?case using b1 b2(1,2) w by (cases "n < unat ?r") (auto simp: waited_def add.commute)
qed

text \<open>The entry after \<open>n\<close> losses of its connection.\<close>

fun lost :: "nat \<Rightarrow> serv_info_t \<Rightarrow> serv_info_t" where
  "lost 0 s = s"
| "lost (Suc n) s = reset_info (lost n s)"

lemma lost_Suc:
  assumes "reconnect_cnt s = MIN_RECONNECT_CNT div 2"
  shows "si_serv_conn (lost (Suc n) s) = None \<and> idle_cnt (lost (Suc n) s) = 0 \<and> reconnect_cnt (lost (Suc n) s) = 2 ^ (n mod 5 + 2)"
proof (induction n)
  case 0
  then show ?case using assms by (simp add: reset_info_def Let_def)
next
  case (Suc n)
  have "n mod 5 \<in> {0, 1, 2, 3, 4}" by auto
  then show ?case using Suc by (auto simp: reset_info_def Let_def mod_Suc)
qed

lemma small_power:
  assumes "m < 5"
  shows "unat ((2 :: u32) ^ (m + 2)) = 2 ^ (m + 2)" "0 < (2 :: u32) ^ (m + 2)"
proof -
  have "m \<in> {0, 1, 2, 3, 4}" using assms by auto
  then show "unat ((2 :: u32) ^ (m + 2)) = 2 ^ (m + 2)" "0 < (2 :: u32) ^ (m + 2)" by auto
qed

text \<open>
  C39: the back-off of every back end. From the state a successful connection leaves
  (\<open>reconnect_cnt\<close> 2), when the connection is lost \<open>n + 1\<close> times without being confirmed in between, the next
  attempt is made on exactly the second \<open>2 ^ (n mod 5 + 2)\<close> of the timer: after 4, 8, 16, 32,
  64, 4, 8, \<open>\<dots>\<close> seconds, as the comments of the timers announce.
\<close>

theorem reconnect_backoff:
  assumes "i < length (b_server_list b)" "reconnect_cnt s = MIN_RECONNECT_CNT div 2" "b_server_list b ! i = lost (Suc n) s"
  shows "\<exists>b'. serv_rounds connect now k b = Inr b' \<and>
    (si_serv_conn (b_server_list b' ! i) = None \<longleftrightarrow> k < 2 ^ (n mod 5 + 2))"
proof -
  let ?r = "reconnect_cnt (b_server_list b ! i)"
  have r: "si_serv_conn (b_server_list b ! i) = None" "idle_cnt (b_server_list b ! i) = 0" "?r = 2 ^ (n mod 5 + 2)"
    using lost_Suc [OF assms(2), of n] unfolding assms(3) by blast+
  have u: "unat ?r = 2 ^ (n mod 5 + 2)" "0 < ?r" unfolding r(3) by (rule small_power, simp)+
  show ?thesis using serv_rounds_spec [OF assms(1) r(1,2) u(2), of connect now k]
    unfolding u(1) by (elim exE conjE) (rule exI, rule conjI)
qed

theorem reconnect_backoff_witness:
  "\<exists>b'. serv_rounds (\<lambda>_. 9) 0 8 \<lparr>b_server_list = [lost (Suc 1) \<lparr>server_ip = ''10.0.0.1'', server_port = 8600, idle_cnt = 0,
      reconnect_cnt = 2, si_serv_conn = Some 0\<rparr>], b_conn_map = [], b_heap = empty_heap\<rparr> = Inr b'
    \<and> si_serv_conn (b_server_list b' ! 0) \<noteq> None"
  using reconnect_backoff [of 0 "\<lparr>b_server_list = [lost (Suc 1) \<lparr>server_ip = ''10.0.0.1'', server_port = 8600, idle_cnt = 0,
      reconnect_cnt = 2, si_serv_conn = Some 0\<rparr>], b_conn_map = [], b_heap = empty_heap\<rparr>"
      "\<lparr>server_ip = ''10.0.0.1'', server_port = 8600, idle_cnt = 0, reconnect_cnt = 2, si_serv_conn = Some 0\<rparr>" 1 "\<lambda>_. 9" 0 8]
  by (simp del: lost.simps serv_rounds.simps)

lemma conn_in_range_spec:
  assumes "conns_live b (b_server_list b)" "lo \<le> hi" "hi \<le> length (b_server_list b)"
  shows "case get_db_server_conn_in_range rands lo hi b of
      Inl e \<Rightarrow> False
    | Inr (Returned None) \<Rightarrow> open_set b (db_range lo hi b) = {}
    | Inr (Returned (Some a)) \<Rightarrow> a \<in> open_set b (db_range lo hi b)
    | Inr Running \<Rightarrow> open_set b (db_range lo hi b) \<noteq> {} \<and>
        (\<forall>r\<in>set rands. \<forall>a. si_serv_conn (db_range lo hi b ! (r mod length (db_range lo hi b))) = Some a \<longrightarrow> \<not> is_open b a)"
proof -
  obtain i where i: "db_scan b lo hi = Inr i" "i = hi \<longleftrightarrow> open_set b (db_range lo hi b) = {}"
    using db_scan_spec [OF assms(1,3,2)] by blast
  show ?thesis
  proof (cases "i = hi")
    case True
    then show ?thesis using i by (simp add: get_db_server_conn_in_range_def)
  next
    case False
    then have ne: "open_set b (db_range lo hi b) \<noteq> {}" using i by simp
    then have "lo < hi" using assms(2) by (cases "lo = hi") (auto simp: open_set_def)
    note spec = random_open_spec [OF assms(1) this assms(3), of rands]
    have eq: "get_db_server_conn_in_range rands lo hi b = random_open rands lo hi b"
      using i False by (simp add: get_db_server_conn_in_range_def)
    show ?thesis unfolding eq using spec ne
      by (cases "random_open rands lo hi b") (auto simp del: length_drop length_take split: loop_result.splits)
  qed
qed

text \<open>
  C40: For a range of positions in the list of servers, as both callers pass it, \<open>get_db_server_conn_in_range\<close> never faults, reports no connection
  exactly when none of the range is open, never returns a closed one, and goes on drawing only as long as \<open>rand()\<close> has not hit the
  entry of an open connection.
\<close>

theorem db_conn_choice:
  assumes "backend_ok b" "lo \<le> hi" "hi \<le> length (b_server_list b)"
  shows "case get_db_server_conn_in_range rands lo hi b of
      Inl e \<Rightarrow> False
    | Inr (Returned None) \<Rightarrow> open_set b (db_range lo hi b) = {}
    | Inr (Returned (Some a)) \<Rightarrow> a \<in> open_set b (db_range lo hi b)
    | Inr Running \<Rightarrow> open_set b (db_range lo hi b) \<noteq> {} \<and>
        (\<forall>r\<in>set rands. \<forall>a. si_serv_conn (db_range lo hi b ! (r mod length (db_range lo hi b))) = Some a \<longrightarrow> \<not> is_open b a)"
  using assms(1) by (intro conn_in_range_spec [OF _ assms(2,3)]) (simp add: backend_ok_def)

text \<open>Of two servers the second is connected, and the second draw hits it.\<close>

definition two_backends :: backend where
  "two_backends = \<lparr>b_server_list =
     [\<lparr>server_ip = ''10.0.0.1'', server_port = 10600, idle_cnt = 1, reconnect_cnt = 4, si_serv_conn = None\<rparr>,
      \<lparr>server_ip = ''10.0.0.2'', server_port = 10600, idle_cnt = 0, reconnect_cnt = 2, si_serv_conn = Some 0\<rparr>],
     b_conn_map = [(7, 0)],
     b_heap = \<lparr>hp_objs = [(0, (CRefObject, \<lparr>sv_handle = 7, sv_open = True, sv_serv_idx = 1, sv_connect_time = 0,
        sv_last_send_tick = 0, sv_last_recv_tick = 0, sv_ip_list = []\<rparr>))], hp_next = 1\<rparr>\<rparr>"

theorem db_conn_choice_witness:
  "backend_ok two_backends \<and> get_db_server_conn_in_range [4, 3] 0 2 two_backends = Inr (Returned (Some 0))
    \<and> 0 \<in> open_set two_backends (b_server_list two_backends)"
proof -
  have ok: "backend_ok two_backends"
    by (simp add: backend_ok_def two_backends_def heap_ok_def hm_ok_def CRefObject_def live_def)
  have "get_db_server_conn_in_range [4, 3] 0 2 two_backends = Inr (Returned (Some 0))" by code_simp
  then show ?thesis using db_conn_choice [OF ok, where rands = "[4, 3]" and lo = 0 and hi = 2] ok
    by (simp add: two_backends_def)
qed

text \<open>A range that goes on behind the list is read past its end, unless an open connection comes first; and one that is turned round is not empty.\<close>

lemma range_past_end_faults:
  assumes "conns_live b (b_server_list b)" "lo \<le> length (b_server_list b)" "length (b_server_list b) < hi"
    and none: "\<forall>s\<in>set (drop lo (b_server_list b)). \<forall>a. si_serv_conn s = Some a \<longrightarrow> \<not> is_open b a"
  shows "get_db_server_conn_in_range rands lo hi b = Inl MemFault"
proof -
  have "db_scan b lo hi = Inl MemFault"
    using assms(2) none
  proof (induction "length (b_server_list b) - lo" arbitrary: lo)
    case 0
    then show ?case using assms(3) by (subst db_scan.simps) (simp add: db_entry_def)
  next
    case (Suc n)
    then have lo: "lo < length (b_server_list b)" by simp
    have "drop lo (b_server_list b) = b_server_list b ! lo # drop (lo + 1) (b_server_list b)" using lo by (simp add: Cons_nth_drop_Suc)
    then have "db_scan b (lo + 1) hi = Inl MemFault" "\<forall>a. si_serv_conn (b_server_list b ! lo) = Some a \<longrightarrow> \<not> is_open b a"
      using Suc.hyps(1) [of "lo + 1"] Suc.hyps(2) Suc.prems(2) lo by auto
    then show ?case using lo assms(3) db_entry_spec [OF assms(1) lo] by (subst db_scan.simps) (auto split: option.splits)
  qed
  then show ?thesis by (simp add: get_db_server_conn_in_range_def)
qed

lemma turned_range_draws: "hi < lo \<Longrightarrow> get_db_server_conn_in_range rands lo hi b = random_open rands lo hi b"
  by (simp add: get_db_server_conn_in_range_def db_scan.simps)

end
