(* ===== verification/Messages.thy ===== *)
theory Messages
  imports LoginServer RouteServer
begin

text \<open>
  The protocol buffer messages that the message server builds or takes apart
  (\<open>pb/IM.*.proto\<close>), with the fields its code reads or writes. The code that \<open>protoc\<close> generates is
  not part of the sources: each message type has a codec \<open>'m pb\<close>, grouped by the package that declares it.
  \<open>None\<close> is an optional field that is not set.
\<close>

section \<open>Messages that are passed on\<close>

text \<open>
  Most requests and responses only get or lose their user id and attachment on the way; the
  other fields are opaque.
\<close>

record req_msg =
  rq_user_id :: u32
  rq_attach_data :: "bytes option"
  rq_rest :: bytes

record rsp_msg =
  rp_user_id :: u32
  rp_result_code :: u32
  rp_attach_data :: "bytes option"
  rp_rest :: bytes

section \<open>Login\<close>

record UserInfo =
  ui_user_id :: u32
  ui_user_nick_name :: bytes
  ui_rest :: bytes

record IMLoginReq =
  lr_user_name :: string
  lr_password :: string
  lr_online_status :: u32
  lr_client_type :: u32
  lr_client_version :: string

record IMLoginRes =
  ls_server_time :: u32
  ls_result_code :: u32
  ls_result_string :: bytes
  ls_online_status :: "u32 option"
  ls_user_info :: "UserInfo option"

record IMKickUser =
  ku_user_id :: u32
  ku_kick_reason :: u32

record IMDeviceTokenReq =
  dt_user_id :: u32
  dt_device_token :: bytes
  dt_client_type :: "u32 option"
  dt_attach_data :: "bytes option"

record IMKickPCClientRsp =
  kp_user_id :: u32
  kp_result_code :: u32

record login_pb =
  pb_LoginReq :: "IMLoginReq pb"
  pb_LoginRes :: "IMLoginRes pb"
  pb_LogoutRsp :: "u32 pb"
  pb_KickUser :: "IMKickUser pb"
  pb_DeviceTokenReq :: "IMDeviceTokenReq pb"
  pb_DeviceTokenRsp :: "rsp_msg pb"
  pb_KickPCClientReq :: "bytes pb"
  pb_KickPCClientRsp :: "IMKickPCClientRsp pb"
  pb_PushShieldReq :: "req_msg pb"
  pb_PushShieldRsp :: "rsp_msg pb"
  pb_QueryPushShieldReq :: "req_msg pb"
  pb_QueryPushShieldRsp :: "rsp_msg pb"
  pb_RelationListREQ :: "req_msg pb"

section \<open>Messages of a conversation\<close>

record IMMsgData =
  md_from_user_id :: u32
  md_to_session_id :: u32
  md_msg_id :: u32
  md_create_time :: u32
  md_msg_type :: u32
  md_msg_data :: bytes
  md_attach_data :: "bytes option"

text \<open>\<open>IMMsgDataAck\<close>, \<open>IMMsgDataReadAck\<close> and \<open>IMMsgDataReadNotify\<close> have the same fields.\<close>

record msg_mark =
  mm_user_id :: u32
  mm_session_id :: u32
  mm_msg_id :: u32
  mm_session_type :: u32

record IMP2PCmdMsg =
  pc_from_user_id :: u32
  pc_to_user_id :: u32
  pc_cmd_msg_data :: bytes

record message_pb =
  pb_MsgData :: "IMMsgData pb"
  pb_MsgDataAck :: "msg_mark pb"
  pb_MsgDataReadAck :: "msg_mark pb"
  pb_MsgDataReadNotify :: "msg_mark pb"
  pb_ClientTimeRsp :: "u32 pb"
  pb_UnreadMsgCntReq :: "req_msg pb"
  pb_UnreadMsgCntRsp :: "rsp_msg pb"
  pb_GetMsgListReq :: "req_msg pb"
  pb_GetMsgListRsp :: "rsp_msg pb"
  pb_GetLatestMsgIdReq :: "req_msg pb"
  pb_GetLatestMsgIdRsp :: "rsp_msg pb"
  pb_GetMsgByIdReq :: "req_msg pb"
  pb_GetMsgByIdRsp :: "rsp_msg pb"
  pb_P2PCmdMsg :: "IMP2PCmdMsg pb"

section \<open>Contacts\<close>

record session_req = req_msg +
  sn_session_id :: u32
  sn_session_type :: u32

record IMRemoveSessionNotify =
  rn_user_id :: u32
  rn_session_id :: u32
  rn_session_type :: u32

record IMChangeSignInfoRsp = rsp_msg +
  cs_sign_info :: bytes

record buddy_pb =
  pb_RecentContactSessionReq :: "req_msg pb"
  pb_RecentContactSessionRsp :: "rsp_msg pb"
  pb_UsersInfoReq :: "req_msg pb"
  pb_UsersInfoRsp :: "rsp_msg pb"
  pb_RemoveSessionReq :: "session_req pb"
  pb_RemoveSessionRsp :: "rsp_msg pb"
  pb_RemoveSessionNotify :: "IMRemoveSessionNotify pb"
  pb_AllUserReq :: "req_msg pb"
  pb_AllUserRsp :: "rsp_msg pb"
  pb_BuddyUsersStatReq :: "IMUsersStatReq pb"
  pb_BuddyUsersStatRsp :: "IMUsersStatRsp pb"
  pb_ChangeAvatarReq :: "req_msg pb"
  pb_ChangeAvatarRsp :: "rsp_msg pb"
  pb_DepartmentReq :: "req_msg pb"
  pb_DepartmentRsp :: "rsp_msg pb"
  pb_ChangeSignInfoReq :: "req_msg pb"
  pb_ChangeSignInfoRsp :: "IMChangeSignInfoRsp pb"
  pb_SignInfoChangedNotify :: "(u32 \<times> bytes) pb"
  pb_BuddyUserStatNotify :: "(u32 \<times> u32) pb"
  pb_BuddyPCLoginStatusNotify :: "(u32 \<times> u32) pb"

section \<open>Groups\<close>

record GroupInfo =
  gi_group_id :: u32
  gi_group_member_list :: "u32 list"
  gi_rest :: bytes

record IMGroupInfoListReq =
  gq_user_id :: u32
  gq_group_version_list :: "(u32 \<times> u32) list"
  gq_attach_data :: "bytes option"

record IMGroupInfoListRsp =
  gp_user_id :: u32
  gp_group_info_list :: "GroupInfo list"
  gp_attach_data :: "bytes option"

record IMGroupCreateReq = req_msg +
  gc_group_name :: bytes
  gc_group_type :: u32

record IMGroupCreateRsp = rsp_msg +
  gr_group_name :: bytes

record IMGroupChangeMemberReq = req_msg +
  gm_change_type :: u32
  gm_group_id :: u32

record IMGroupChangeMemberRsp = rsp_msg +
  gs_change_type :: u32
  gs_group_id :: u32
  gs_chg_user_id_list :: "u32 list"
  gs_cur_user_id_list :: "u32 list"

record IMGroupChangeMemberNotify =
  gn_user_id :: u32
  gn_change_type :: u32
  gn_group_id :: u32
  gn_chg_user_id_list :: "u32 list"
  gn_cur_user_id_list :: "u32 list"

record group_pb =
  pb_NormalGroupListReq :: "req_msg pb"
  pb_NormalGroupListRsp :: "rsp_msg pb"
  pb_GroupInfoListReq :: "IMGroupInfoListReq pb"
  pb_GroupInfoListRsp :: "IMGroupInfoListRsp pb"
  pb_GroupCreateReq :: "IMGroupCreateReq pb"
  pb_GroupCreateRsp :: "IMGroupCreateRsp pb"
  pb_GroupChangeMemberReq :: "IMGroupChangeMemberReq pb"
  pb_GroupChangeMemberRsp :: "IMGroupChangeMemberRsp pb"
  pb_GroupChangeMemberNotify :: "IMGroupChangeMemberNotify pb"
  pb_GroupShieldReq :: "req_msg pb"
  pb_GroupShieldRsp :: "rsp_msg pb"

section \<open>Files\<close>

record IMFileReq =
  fq_to_user_id :: u32
  fq_file_name :: string
  fq_file_size :: u32
  fq_trans_mode :: u32
  fq_file_md5 :: string

record IMFileRsp =
  fr_result_code :: u32
  fr_from_user_id :: u32
  fr_to_user_id :: u32
  fr_file_name :: string
  fr_task_id :: string
  fr_ip_addr_list :: "(string \<times> u32) list"
  fr_trans_mode :: u32

record IMFileNotify =
  fn_from_user_id :: u32
  fn_to_user_id :: u32
  fn_file_name :: string
  fn_file_size :: u32
  fn_task_id :: string
  fn_ip_addr_list :: "(string \<times> u32) list"
  fn_trans_mode :: u32
  fn_offline_ready :: u32

record OfflineFileInfo =
  of_from_user_id :: u32
  of_task_id :: string
  of_file_name :: string
  of_file_size :: u32
  of_file_md5 :: string
  of_status :: u32

record IMFileHasOfflineRsp =
  fh_user_id :: u32
  fh_offline_file_list :: "OfflineFileInfo list"
  fh_ip_addr_list :: "(string \<times> u32) list"
  fh_attach_data :: "bytes option"

record IMFileAddOfflineReq =
  fa_from_user_id :: u32
  fa_to_user_id :: u32
  fa_task_id :: string
  fa_file_name :: string
  fa_file_size :: u32
  fa_file_md5 :: string
  fa_status :: u32

record IMFileDelOfflineReq =
  fd_from_user_id :: u32
  fd_to_user_id :: u32
  fd_task_id :: string
  fd_file_name :: string
  fd_file_size :: u32

record file_pb =
  pb_FileReq :: "IMFileReq pb"
  pb_FileRsp :: "IMFileRsp pb"
  pb_FileNotify :: "IMFileNotify pb"
  pb_FileHasOfflineReq :: "req_msg pb"
  pb_FileHasOfflineRsp :: "IMFileHasOfflineRsp pb"
  pb_FileAddOfflineReq :: "IMFileAddOfflineReq pb"
  pb_FileDelOfflineReq :: "IMFileDelOfflineReq pb"
  pb_InfoNotify :: "OfflineFileInfo list pb"

section \<open>Messages between servers\<close>

record IMValidateReq =
  vq_user_name :: string
  vq_password :: string
  vq_attach_data :: "bytes option"

record IMValidateRsp =
  vr_user_name :: string
  vr_result_code :: u32
  vr_result_string :: bytes
  vr_user_info :: UserInfo
  vr_attach_data :: "bytes option"

record IMServerKickUser =
  sk_user_id :: u32
  sk_client_type :: u32
  sk_reason :: u32

record UserTokenInfo =
  ut_user_id :: u32
  ut_user_type :: u32
  ut_token :: bytes
  ut_push_count :: u32
  ut_push_type :: u32

record IMGetDeviceTokenReq =
  tq_user_id :: "u32 list"
  tq_attach_data :: "bytes option"

record IMGetDeviceTokenRsp =
  tr_user_token_info :: "UserTokenInfo list"
  tr_attach_data :: "bytes option"

record IMPushToUserReq =
  pu_flash :: bytes
  pu_data :: bytes
  pu_user_token_list :: "UserTokenInfo list"

record IMGroupGetShieldReq =
  hq_group_id :: u32
  hq_user_id :: "u32 list"
  hq_attach_data :: "bytes option"

record ShieldStatus =
  ss_user_id :: u32
  ss_group_id :: u32
  ss_shield_status :: u32

record IMGroupGetShieldRsp =
  hr_shield_status_list :: "ShieldStatus list"
  hr_attach_data :: "bytes option"

record IMFileTransferReq =
  ft_from_user_id :: u32
  ft_to_user_id :: u32
  ft_file_name :: string
  ft_file_size :: u64
  ft_trans_mode :: u32
  ft_file_md5 :: string
  ft_attach_data :: "bytes option"

record IMFileTransferRsp =
  fp_result_code :: u32
  fp_from_user_id :: u32
  fp_to_user_id :: u32
  fp_file_name :: string
  fp_file_size :: u32
  fp_task_id :: string
  fp_trans_mode :: u32
  fp_attach_data :: "bytes option"

record server_pb =
  pb_SrvHeartBeat :: "unit pb"
  pb_ValidateReq :: "IMValidateReq pb"
  pb_ValidateRsp :: "IMValidateRsp pb"
  pb_ServerKickUser :: "IMServerKickUser pb"
  pb_SrvUserCntUpdate :: "IMUserCntUpdate pb"
  pb_SrvUserStatusUpdate :: "ServerUserStat pb"
  pb_SrvOnlineUserInfo :: "ServerUserStat list pb"
  pb_SrvRoleSet :: "u32 pb"
  pb_SrvMsgServInfo :: "IMMsgServInfo pb"
  pb_ServerPCLoginStatusNotify :: "(u32 \<times> u32) pb"
  pb_GetDeviceTokenReq :: "IMGetDeviceTokenReq pb"
  pb_GetDeviceTokenRsp :: "IMGetDeviceTokenRsp pb"
  pb_PushToUserReq :: "IMPushToUserReq pb"
  pb_GroupGetShieldReq :: "IMGroupGetShieldReq pb"
  pb_GroupGetShieldRsp :: "IMGroupGetShieldRsp pb"
  pb_FileTransferReq :: "IMFileTransferReq pb"
  pb_FileTransferRsp :: "IMFileTransferRsp pb"
  pb_FileServerIPReq :: "unit pb"
  pb_FileServerIPRsp :: "(string \<times> u32) list pb"

text \<open>A codec that accepts nothing, for the message types a run does not use.\<close>

definition no_pb :: "'m pb" where
  "no_pb = \<lparr>pb_ser = (\<lambda>_. []), pb_par = (\<lambda>_. (False, undefined))\<rparr>"

text \<open>The value of an optional field.\<close>

abbreviation opt_bytes :: "bytes option \<Rightarrow> bytes" where
  "opt_bytes x \<equiv> (case x of None \<Rightarrow> [] | Some b \<Rightarrow> b)"

end
