(* ===== verification/MsgState.thy ===== *)
theory MsgState
  imports Messages AttachData ServInfo "HOL-Library.List_Lexorder"
begin

text \<open>
  The state of the message server (\<open>msg_server/\<close>): the client connections (\<open>CMsgConn\<close>) and the users
  (\<open>CImUser\<close>) as heaps of objects, the maps of \<open>MsgConn.cpp\<close> and \<open>ImUser.cpp\<close> that point into them, the back
  ends with their connections, and the trace of network calls. The operations here are the ones every
  component uses: sending to a client or a back end, and choosing a back-end connection.
\<close>

section \<open>State\<close>

record msg_ack_t =
  ak_msg_id :: u32
  ak_from_id :: u32
  ak_timestamp :: u64

record msg_conn =
  mc_handle :: u32
  mc_login_name :: string
  mc_user_id :: u32
  mc_open :: bool
  mc_kick_off :: bool
  mc_login_time :: u64
  mc_client_version :: string
  mc_send_msg_list :: "msg_ack_t list"
  mc_msg_cnt_per_sec :: u32
  mc_client_type :: u32
  mc_online_status :: u32
  mc_last_send_tick :: u64
  mc_last_recv_tick :: u64

record im_user =
  iu_user_id :: u32
  iu_login_name :: string
  iu_nick_name :: bytes
  iu_user_updated :: bool
  iu_pc_login_status :: u32
  iu_validate :: bool
  iu_conn_map :: "(u32, nat) assoc"
  iu_unvalidate_conn_set :: "nat list"

record msg_server =
  g_msg_conn_map :: conn_map
  ms_conns :: "msg_conn heap"
  ms_users :: "im_user heap"
  m_im_user_map :: "(u32, nat) assoc"
  m_im_user_map_by_name :: "(string, nat) assoc"
  ms_db :: backend
  ms_login :: backend
  ms_route :: backend
  ms_push :: backend
  ms_file :: backend
  g_db_server_login_count :: nat
  g_master_rs_conn :: "nat option"
  g_master_push_conn :: "nat option"
  g_down_msg_total_cnt :: u32
  g_down_msg_miss_cnt :: u32
  g_last_stat_tick :: u64
  ms_rand_calls :: nat
  ms_trace :: "net_out list"

text \<open>
  What an event handler is given besides the state: the clock, the time of day, the contents of fresh memory, what
  the \<open>k\<close>-th group of calls to \<open>rand()\<close> returns, the AES decryption and the JSON serialisation of libraries, the name and
  configuration of the server, and the codecs. \<open>e_junk\<close> is what \<open>m_client_type\<close> of a new object holds, which no constructor sets.
\<close>

record env =
  e_now :: u64
  e_time :: u32
  e_fresh :: "nat \<Rightarrow> byte"
  e_draws :: "nat \<Rightarrow> nat list"
  e_junk :: u32
  e_decrypt :: "bytes \<Rightarrow> bytes option"
  e_json :: "u32 \<Rightarrow> u32 \<Rightarrow> u32 option \<Rightarrow> bytes"
  e_self :: IMMsgServInfo
  e_login :: login_pb
  e_message :: message_pb
  e_buddy :: buddy_pb
  e_group :: group_pb
  e_file :: file_pb
  e_server :: server_pb

text \<open>Operations on the state, and operations that return a value as well.\<close>

type_synonym msg_op = "msg_server \<Rightarrow> msg_server res"
type_synonym 'a msg_get = "msg_server \<Rightarrow> ('a \<times> msg_server) res"

text \<open>
  \<open>pPdu->SetPBMsg(&msg)\<close> on a received PDU writes the header that was read and the new body.
\<close>

abbreviation rebuilt :: "pdu_header \<Rightarrow> bytes \<Rightarrow> bytes" where
  "rebuilt hdr body \<equiv> pdu_bytes (pdu_of hdr body)"

section \<open>Sending\<close>

text \<open>\<open>SendPdu\<close> and \<open>Send\<close> of a client connection.\<close>

definition to_client :: "env \<Rightarrow> nat \<Rightarrow> bytes \<Rightarrow> msg_op" where
  "to_client e a data st =
     bindR (deref a (ms_conns st)) (\<lambda>c.
       Inr (st\<lparr>ms_conns := set_obj a (c\<lparr>mc_last_send_tick := e_now e\<rparr>) (ms_conns st),
               ms_trace := ms_trace st @ [NetSend (mc_handle c) data]\<rparr>))"

text \<open>An operation on one of the back ends.\<close>

definition on_db :: "(backend \<Rightarrow> (backend \<times> net_out list) res) \<Rightarrow> msg_op" where
  "on_db f st = bindR (f (ms_db st)) (\<lambda>(b, out). Inr (st\<lparr>ms_db := b, ms_trace := ms_trace st @ out\<rparr>))"

definition on_login :: "(backend \<Rightarrow> (backend \<times> net_out list) res) \<Rightarrow> msg_op" where
  "on_login f st = bindR (f (ms_login st)) (\<lambda>(b, out). Inr (st\<lparr>ms_login := b, ms_trace := ms_trace st @ out\<rparr>))"

definition on_route :: "(backend \<Rightarrow> (backend \<times> net_out list) res) \<Rightarrow> msg_op" where
  "on_route f st = bindR (f (ms_route st)) (\<lambda>(b, out). Inr (st\<lparr>ms_route := b, ms_trace := ms_trace st @ out\<rparr>))"

definition on_push :: "(backend \<Rightarrow> (backend \<times> net_out list) res) \<Rightarrow> msg_op" where
  "on_push f st = bindR (f (ms_push st)) (\<lambda>(b, out). Inr (st\<lparr>ms_push := b, ms_trace := ms_trace st @ out\<rparr>))"

definition on_file :: "(backend \<Rightarrow> (backend \<times> net_out list) res) \<Rightarrow> msg_op" where
  "on_file f st = bindR (f (ms_file st)) (\<lambda>(b, out). Inr (st\<lparr>ms_file := b, ms_trace := ms_trace st @ out\<rparr>))"

definition to_db :: "env \<Rightarrow> nat \<Rightarrow> bytes \<Rightarrow> msg_op" where
  "to_db e d data = on_db (serv_SendPdu (e_now e) d data)"

definition to_route :: "env \<Rightarrow> nat \<Rightarrow> bytes \<Rightarrow> msg_op" where
  "to_route e r data = on_route (serv_SendPdu (e_now e) r data)"

definition to_push :: "env \<Rightarrow> nat \<Rightarrow> bytes \<Rightarrow> msg_op" where
  "to_push e p data = on_push (serv_SendPdu (e_now e) p data)"

definition to_file :: "env \<Rightarrow> nat \<Rightarrow> bytes \<Rightarrow> msg_op" where
  "to_file e f data = on_file (serv_SendPdu (e_now e) f data)"

definition send_to_all_login_server :: "env \<Rightarrow> bytes \<Rightarrow> msg_op" where
  "send_to_all_login_server e data = on_login (\<lambda>b. send_to_all (e_now e) data (b_server_list b) b)"

definition send_to_all_route_server :: "env \<Rightarrow> bytes \<Rightarrow> msg_op" where
  "send_to_all_route_server e data = on_route (\<lambda>b. send_to_all (e_now e) data (b_server_list b) b)"

definition is_login_server_available :: "msg_server \<Rightarrow> bool res" where
  "is_login_server_available st = server_available (ms_login st)"

definition is_route_server_available :: "msg_server \<Rightarrow> bool res" where
  "is_route_server_available st = server_available (ms_route st)"

section \<open>Choosing a connection\<close>

definition draw_db :: "env \<Rightarrow> nat \<Rightarrow> nat \<Rightarrow> nat option msg_get" where
  "draw_db e lo hi st =
     bindR (get_db_server_conn_in_range (e_draws e (ms_rand_calls st)) lo hi (ms_db st)) (\<lambda>r.
       case r of
         Running \<Rightarrow> Inl NotReturned
       | Returned c \<Rightarrow> Inr (c, st\<lparr>ms_rand_calls := Suc (ms_rand_calls st)\<rparr>))"

definition get_db_serv_conn_for_login :: "env \<Rightarrow> nat option msg_get" where
  "get_db_serv_conn_for_login e st =
     bindR (draw_db e 0 (g_db_server_login_count st) st) (\<lambda>(c, st1).
       if c \<noteq> None then Inr (c, st1)
       else draw_db e (g_db_server_login_count st1) (length (b_server_list (ms_db st1))) st1)"

definition get_db_serv_conn :: "env \<Rightarrow> nat option msg_get" where
  "get_db_serv_conn e st =
     bindR (draw_db e (g_db_server_login_count st) (length (b_server_list (ms_db st))) st) (\<lambda>(c, st1).
       if c \<noteq> None then Inr (c, st1)
       else draw_db e 0 (g_db_server_login_count st1) st1)"

text \<open>\<open>pConn\<close> is tested: without a connection \<open>no\<close> is done.\<close>

definition with_conn :: "nat option msg_get \<Rightarrow> msg_op \<Rightarrow> (nat \<Rightarrow> msg_op) \<Rightarrow> msg_op" where
  "with_conn get no yes st =
     bindR (get st) (\<lambda>(c, st1). case c of None \<Rightarrow> no st1 | Some d \<Rightarrow> yes d st1)"

abbreviation if_db :: "env \<Rightarrow> (nat \<Rightarrow> msg_op) \<Rightarrow> msg_op" where
  "if_db e yes \<equiv> with_conn (get_db_serv_conn e) Inr yes"

definition get_route_serv_conn :: "msg_server \<Rightarrow> nat option" where
  "get_route_serv_conn st = g_master_rs_conn st"

definition if_route :: "env \<Rightarrow> bytes \<Rightarrow> msg_op" where
  "if_route e data st =
     (case get_route_serv_conn st of None \<Rightarrow> Inr st | Some r \<Rightarrow> to_route e r data st)"

definition get_push_serv_conn :: "msg_server \<Rightarrow> nat option res" where
  "get_push_serv_conn st =
     (case g_master_push_conn st of
        None \<Rightarrow> Inr None
      | Some p \<Rightarrow> bindR (deref p (b_heap (ms_push st))) (\<lambda>c. Inr (if sv_open c then Some p else None)))"

text \<open>
  \<open>get_random_file_serv_conn\<close>: a random entry, and from there all entries in turn.
\<close>

definition get_random_file_serv_conn :: "env \<Rightarrow> nat option msg_get" where
  "get_random_file_serv_conn e st =
     (let ss = b_server_list (ms_file st)
      in if ss = [] then Inr (None, st)
         else case e_draws e (ms_rand_calls st) of
                [] \<Rightarrow> Inl NotReturned
              | r # _ \<Rightarrow>
                  let n = r mod length ss
                  in bindR (open_conn (ms_file st) (ss ! n)) (\<lambda>c.
                     bindR (if c \<noteq> None then Inr c
                            else first_open (ms_file st) (map (\<lambda>i. ss ! ((n + i + 1) mod length ss)) [0..<length ss])) (\<lambda>c.
                       Inr (c, st\<lparr>ms_rand_calls := Suc (ms_rand_calls st)\<rparr>))))"

section \<open>Attachments\<close>

text \<open>\<open>CDbAttachData attach(ATTACH_TYPE_HANDLE, m_handle, 0)\<close> and \<open>CPduAttachData attach(ATTACH_TYPE_HANDLE, m_handle, 0, NULL)\<close>.\<close>

definition handle_attach :: "env \<Rightarrow> u32 \<Rightarrow> bytes res" where
  "handle_attach e h = CDbAttachData_ser (e_fresh e) ATTACH_TYPE_HANDLE h 0"

definition pdu_handle_attach :: "env \<Rightarrow> u32 \<Rightarrow> bytes res" where
  "pdu_handle_attach e h = CPduAttachData_ser (e_fresh e) ATTACH_TYPE_HANDLE h 0 None 0"

text \<open>\<open>CDbAttachData attach_data((uchar_t*)msg.attach_data().c_str(), msg.attach_data().length())\<close>\<close>

definition attach_handle :: "bytes option \<Rightarrow> u32 res" where
  "attach_handle x = bindR (CDbAttachData_par (opt_bytes x) (of_nat (length (opt_bytes x)))) (\<lambda>d. Inr (da_handle d))"

section \<open>A request on its way to the database\<close>

text \<open>
  The form of most client requests: the message gets the user id and, as attachment, the handle of
  the connection, and goes on to a database connection. \<open>stamp\<close> sets the two fields.
\<close>

definition forward_request :: "env \<Rightarrow> (env \<Rightarrow> u32 \<Rightarrow> bytes res) \<Rightarrow> nat \<Rightarrow> pdu_header \<Rightarrow> 'm pb \<Rightarrow> (u32 \<Rightarrow> bytes \<Rightarrow> 'm) \<Rightarrow> nat \<Rightarrow> msg_op" where
  "forward_request e attach a hdr p stamp d st =
     bindR (deref a (ms_conns st)) (\<lambda>c.
     bindR (attach e (mc_handle c)) (\<lambda>att.
       to_db e d (rebuilt hdr (pb_ser p (stamp (mc_user_id c) att))) st))"

definition stamped :: "'x req_msg_scheme \<Rightarrow> u32 \<Rightarrow> bytes \<Rightarrow> 'x req_msg_scheme" where
  "stamped m uid att = m\<lparr>rq_user_id := uid, rq_attach_data := Some att\<rparr>"

section \<open>Messages waiting for an acknowledgement\<close>

definition AddToSendList :: "env \<Rightarrow> nat \<Rightarrow> u32 \<Rightarrow> u32 \<Rightarrow> msg_op" where
  "AddToSendList e a msg_id from_id st =
     bindR (deref a (ms_conns st)) (\<lambda>c.
       Inr (st\<lparr>ms_conns := set_obj a (c\<lparr>mc_send_msg_list := mc_send_msg_list c @
                 [\<lparr>ak_msg_id = msg_id, ak_from_id = from_id, ak_timestamp = e_now e\<rparr>]\<rparr>) (ms_conns st),
               g_down_msg_total_cnt := g_down_msg_total_cnt st + 1\<rparr>))"

fun del_first_ack :: "u32 \<Rightarrow> u32 \<Rightarrow> msg_ack_t list \<Rightarrow> msg_ack_t list" where
  "del_first_ack msg_id from_id [] = []"
| "del_first_ack msg_id from_id (m # ms) =
     (if ak_msg_id m = msg_id \<and> ak_from_id m = from_id then ms else m # del_first_ack msg_id from_id ms)"

definition DelFromSendList :: "nat \<Rightarrow> u32 \<Rightarrow> u32 \<Rightarrow> msg_op" where
  "DelFromSendList a msg_id from_id st =
     bindR (deref a (ms_conns st)) (\<lambda>c.
       Inr (st\<lparr>ms_conns := set_obj a (c\<lparr>mc_send_msg_list := del_first_ack msg_id from_id (mc_send_msg_list c)\<rparr>) (ms_conns st)\<rparr>))"

end
