(* ===== verification/ImUser.thy ===== *)
theory ImUser
  imports MsgState
begin

text \<open>
  Users of a message server and their registry (\<open>msg_server/ImUser.cpp\<close>, \<open>ImUser.h\<close>): a \<open>CImUser\<close> holds the
  connections of one user, validated ones by handle and pending ones in a set; \<open>CImUserManager\<close> finds
  users by id and by login name. The objects are created and deleted by hand, so the registry's maps can
  dangle: looking at a deleted user or connection is a fault of the model.
\<close>

section \<open>CImUser\<close>

definition CImUser :: "string \<Rightarrow> im_user" where
  "CImUser user_name = \<lparr>iu_user_id = 0, iu_login_name = user_name, iu_nick_name = [], iu_user_updated = False,
     iu_pc_login_status = USER_STATUS_OFFLINE, iu_validate = False, iu_conn_map = [], iu_unvalidate_conn_set = []\<rparr>"

definition IsMsgConnEmpty :: "im_user \<Rightarrow> bool" where
  "IsMsgConnEmpty u \<longleftrightarrow> iu_conn_map u = []"

definition AddMsgConn :: "u32 \<Rightarrow> nat \<Rightarrow> im_user \<Rightarrow> im_user" where
  "AddMsgConn handle pMsgConn u = u\<lparr>iu_conn_map := om_assign handle pMsgConn (iu_conn_map u)\<rparr>"

definition DelMsgConn :: "u32 \<Rightarrow> im_user \<Rightarrow> im_user" where
  "DelMsgConn handle u = u\<lparr>iu_conn_map := map_erase handle (iu_conn_map u)\<rparr>"

definition AddUnValidateMsgConn :: "nat \<Rightarrow> im_user \<Rightarrow> im_user" where
  "AddUnValidateMsgConn pMsgConn u = u\<lparr>iu_unvalidate_conn_set := pset_insert pMsgConn (iu_unvalidate_conn_set u)\<rparr>"

definition DelUnValidateMsgConn :: "nat \<Rightarrow> im_user \<Rightarrow> im_user" where
  "DelUnValidateMsgConn pMsgConn u = u\<lparr>iu_unvalidate_conn_set := pset_erase pMsgConn (iu_unvalidate_conn_set u)\<rparr>"

definition ValidateMsgConn :: "u32 \<Rightarrow> nat \<Rightarrow> im_user \<Rightarrow> im_user" where
  "ValidateMsgConn handle pMsgConn u = DelUnValidateMsgConn pMsgConn (AddMsgConn handle pMsgConn u)"

definition GetMsgConn :: "u32 \<Rightarrow> im_user \<Rightarrow> nat option" where
  "GetMsgConn handle u = map_of (iu_conn_map u) handle"

fun find_handle :: "msg_conn heap \<Rightarrow> u32 \<Rightarrow> nat list \<Rightarrow> nat option res" where
  "find_handle h handle [] = Inr None"
| "find_handle h handle (a # as) =
     bindR (deref a h) (\<lambda>c. if mc_handle c = handle then Inr (Some a) else find_handle h handle as)"

definition GetUnValidateMsgConn :: "u32 \<Rightarrow> im_user \<Rightarrow> msg_server \<Rightarrow> nat option res" where
  "GetUnValidateMsgConn handle u st = find_handle (ms_conns st) handle (iu_unvalidate_conn_set u)"

fun count_open :: "msg_conn heap \<Rightarrow> (u32 \<times> nat) list \<Rightarrow> u32 res" where
  "count_open h [] = Inr 0"
| "count_open h (p # ps) =
     bindR (deref (snd p) h) (\<lambda>c. bindR (count_open h ps) (\<lambda>n. Inr (if mc_open c then n + 1 else n)))"

definition GetUserConn :: "im_user \<Rightarrow> msg_server \<Rightarrow> (u32 \<times> u32) res" where
  "GetUserConn u st = bindR (count_open (ms_conns st) (iu_conn_map u)) (\<lambda>n. Inr (iu_user_id u, n))"

fun flag_loop :: "msg_conn heap \<Rightarrow> (u32 \<times> nat) list \<Rightarrow> u32 \<Rightarrow> u32 res" where
  "flag_loop h [] flag = Inr flag"
| "flag_loop h (p # ps) flag =
     bindR (deref (snd p) h) (\<lambda>c.
       flag_loop h ps (if CHECK_CLIENT_TYPE_PC (mc_client_type c) then flag OR CLIENT_TYPE_FLAG_PC
                       else if CHECK_CLIENT_TYPE_MOBILE (mc_client_type c) then flag OR CLIENT_TYPE_FLAG_MOBILE
                       else flag))"

definition GetClientTypeFlag :: "im_user \<Rightarrow> msg_server \<Rightarrow> u32 res" where
  "GetClientTypeFlag u st = flag_loop (ms_conns st) (iu_conn_map u) CLIENT_TYPE_FLAG_NONE"

section \<open>Broadcasts\<close>

text \<open>
  The loops of the broadcasts over the validated connections: every connection but \<open>frm\<close> that \<open>sel\<close> selects is sent
  the data, then \<open>after\<close> is done for it.
\<close>

fun broadcast_conns :: "env \<Rightarrow> (msg_conn \<Rightarrow> bool) \<Rightarrow> (nat \<Rightarrow> msg_op) \<Rightarrow> bytes \<Rightarrow> nat option \<Rightarrow> (u32 \<times> nat) list \<Rightarrow> msg_op" where
  "broadcast_conns e sel after data frm [] st = Inr st"
| "broadcast_conns e sel after data frm (p # ps) st =
     bindR (if frm = Some (snd p) then Inr st
            else bindR (deref (snd p) (ms_conns st)) (\<lambda>c.
                   if sel c then bindR (to_client e (snd p) data st) (after (snd p)) else Inr st))
       (broadcast_conns e sel after data frm ps)"

definition broadcast :: "env \<Rightarrow> (msg_conn \<Rightarrow> bool) \<Rightarrow> (nat \<Rightarrow> msg_op) \<Rightarrow> nat \<Rightarrow> bytes \<Rightarrow> nat option \<Rightarrow> msg_op" where
  "broadcast e sel after u data frm st =
     bindR (deref u (ms_users st)) (\<lambda>x. broadcast_conns e sel after data frm (iu_conn_map x) st)"

definition BroadcastPdu :: "env \<Rightarrow> nat \<Rightarrow> bytes \<Rightarrow> nat option \<Rightarrow> msg_op" where
  "BroadcastPdu e u pPdu pFromConn = broadcast e (\<lambda>_. True) (\<lambda>_. Inr) u pPdu pFromConn"

definition BroadcastPduWithOutMobile :: "env \<Rightarrow> nat \<Rightarrow> bytes \<Rightarrow> nat option \<Rightarrow> msg_op" where
  "BroadcastPduWithOutMobile e u pPdu pFromConn =
     broadcast e (\<lambda>c. CHECK_CLIENT_TYPE_PC (mc_client_type c)) (\<lambda>_. Inr) u pPdu pFromConn"

definition BroadcastPduToMobile :: "env \<Rightarrow> nat \<Rightarrow> bytes \<Rightarrow> nat option \<Rightarrow> msg_op" where
  "BroadcastPduToMobile e u pPdu pFromConn =
     broadcast e (\<lambda>c. CHECK_CLIENT_TYPE_MOBILE (mc_client_type c)) (\<lambda>_. Inr) u pPdu pFromConn"

definition BroadcastClientMsgData :: "env \<Rightarrow> nat \<Rightarrow> bytes \<Rightarrow> u32 \<Rightarrow> nat option \<Rightarrow> u32 \<Rightarrow> msg_op" where
  "BroadcastClientMsgData e u pPdu msg_id pFromConn from_id =
     broadcast e (\<lambda>_. True) (\<lambda>a. AddToSendList e a msg_id from_id) u pPdu pFromConn"

definition BroadcastData :: "env \<Rightarrow> nat \<Rightarrow> bytes \<Rightarrow> nat option \<Rightarrow> msg_op" where
  "BroadcastData e u buff pFromConn = broadcast e (\<lambda>_. True) (\<lambda>_. Inr) u buff pFromConn"

section \<open>Kicking\<close>

definition HandleKickUser :: "env \<Rightarrow> nat \<Rightarrow> nat \<Rightarrow> u32 \<Rightarrow> msg_op" where
  "HandleKickUser e u pConn reason st =
     bindR (deref u (ms_users st)) (\<lambda>x.
     bindR (deref pConn (ms_conns st)) (\<lambda>c.
       case map_of (iu_conn_map x) (mc_handle c) of
         None \<Rightarrow> Inr st
       | Some a \<Rightarrow>
           bindR (to_client e a (wire_pdu SID_LOGIN CID_LOGIN_KICK_USER 0
                    (pb_ser (pb_KickUser (e_login e)) \<lparr>ku_user_id = iu_user_id x, ku_kick_reason = reason\<rparr>)) st) (\<lambda>st1.
           bindR (deref a (ms_conns st1)) (\<lambda>c1.
             Inr (st1\<lparr>ms_conns := set_obj a (c1\<lparr>mc_kick_off := True\<rparr>) (ms_conns st1)\<rparr>)))))"

text \<open>The first connection of the same kind of client, other than \<open>frm\<close>.\<close>

fun same_client_type :: "msg_conn heap \<Rightarrow> u32 \<Rightarrow> nat option \<Rightarrow> (u32 \<times> nat) list \<Rightarrow> nat option res" where
  "same_client_type h client_type frm [] = Inr None"
| "same_client_type h client_type frm (p # ps) =
     bindR (deref (snd p) h) (\<lambda>c.
       if drop_bit 4 (mc_client_type c XOR client_type) = 0 \<and> frm \<noteq> Some (snd p) then Inr (Some (snd p))
       else same_client_type h client_type frm ps)"

definition KickOutSameClientType :: "env \<Rightarrow> nat \<Rightarrow> u32 \<Rightarrow> u32 \<Rightarrow> nat option \<Rightarrow> msg_op" where
  "KickOutSameClientType e u client_type reason pFromConn st =
     bindR (deref u (ms_users st)) (\<lambda>x.
     bindR (same_client_type (ms_conns st) client_type pFromConn (iu_conn_map x)) (\<lambda>r.
       case r of None \<Rightarrow> Inr st | Some a \<Rightarrow> HandleKickUser e u a reason st))"

section \<open>CImUserManager\<close>

definition GetImUserByLoginName :: "string \<Rightarrow> msg_server \<Rightarrow> nat option" where
  "GetImUserByLoginName login_name st = map_of (m_im_user_map_by_name st) login_name"

definition GetImUserById :: "u32 \<Rightarrow> msg_server \<Rightarrow> nat option" where
  "GetImUserById user_id st = map_of (m_im_user_map st) user_id"

definition GetMsgConnByHandle :: "u32 \<Rightarrow> u32 \<Rightarrow> msg_server \<Rightarrow> nat option res" where
  "GetMsgConnByHandle user_id handle st =
     (case GetImUserById user_id st of
        None \<Rightarrow> Inr None
      | Some u \<Rightarrow> bindR (deref u (ms_users st)) (\<lambda>x. Inr (GetMsgConn handle x)))"

definition AddImUserByLoginName :: "string \<Rightarrow> nat \<Rightarrow> msg_server \<Rightarrow> msg_server" where
  "AddImUserByLoginName login_name u st =
     (if GetImUserByLoginName login_name st = None
      then st\<lparr>m_im_user_map_by_name := om_assign login_name u (m_im_user_map_by_name st)\<rparr> else st)"

definition RemoveImUserByLoginName :: "string \<Rightarrow> msg_server \<Rightarrow> msg_server" where
  "RemoveImUserByLoginName login_name st = st\<lparr>m_im_user_map_by_name := map_erase login_name (m_im_user_map_by_name st)\<rparr>"

definition AddImUserById :: "u32 \<Rightarrow> nat \<Rightarrow> msg_server \<Rightarrow> msg_server" where
  "AddImUserById user_id u st =
     (if GetImUserById user_id st = None
      then st\<lparr>m_im_user_map := om_assign user_id u (m_im_user_map st)\<rparr> else st)"

definition RemoveImUserById :: "u32 \<Rightarrow> msg_server \<Rightarrow> msg_server" where
  "RemoveImUserById user_id st = st\<lparr>m_im_user_map := map_erase user_id (m_im_user_map st)\<rparr>"

definition delete_user :: "nat \<Rightarrow> msg_op" where
  "delete_user u st = bindR (delete_obj u (ms_users st)) (\<lambda>h. Inr (st\<lparr>ms_users := h\<rparr>))"

definition RemoveImUser :: "nat \<Rightarrow> msg_op" where
  "RemoveImUser u st =
     bindR (deref u (ms_users st)) (\<lambda>x.
       delete_user u (RemoveImUserByLoginName (iu_login_name x) (RemoveImUserById (iu_user_id x) st)))"

fun delete_users :: "(string \<times> nat) list \<Rightarrow> msg_op" where
  "delete_users [] st = Inr st"
| "delete_users (p # ps) st = bindR (delete_user (snd p) st) (delete_users ps)"

definition RemoveAll :: msg_op where
  "RemoveAll st =
     bindR (delete_users (m_im_user_map_by_name st) st) (\<lambda>st1. Inr (st1\<lparr>m_im_user_map_by_name := [], m_im_user_map := []\<rparr>))"

text \<open>A change to one user object.\<close>

definition on_user :: "nat \<Rightarrow> (im_user \<Rightarrow> im_user) \<Rightarrow> msg_op" where
  "on_user u f st = bindR (deref u (ms_users st)) (\<lambda>x. Inr (st\<lparr>ms_users := set_obj u (f x) (ms_users st)\<rparr>))"

text \<open>A change to one connection object.\<close>

definition on_conn :: "nat \<Rightarrow> (msg_conn \<Rightarrow> msg_conn) \<Rightarrow> msg_op" where
  "on_conn a f st = bindR (deref a (ms_conns st)) (\<lambda>c. Inr (st\<lparr>ms_conns := set_obj a (f c) (ms_conns st)\<rparr>))"

fun online_conns :: "u32 \<Rightarrow> msg_conn heap \<Rightarrow> (u32 \<times> nat) list \<Rightarrow> ServerUserStat list res" where
  "online_conns user_id h [] = Inr []"
| "online_conns user_id h (p # ps) =
     bindR (deref (snd p) h) (\<lambda>c.
     bindR (online_conns user_id h ps) (\<lambda>l.
       Inr (if mc_open c then \<lparr>us_user_id = user_id, us_status = mc_online_status c, us_client_type = mc_client_type c\<rparr> # l else l)))"

fun online_users :: "msg_server \<Rightarrow> (u32 \<times> nat) list \<Rightarrow> ServerUserStat list res" where
  "online_users st [] = Inr []"
| "online_users st (p # ps) =
     bindR (deref (snd p) (ms_users st)) (\<lambda>x.
     bindR (if iu_validate x then online_conns (iu_user_id x) (ms_conns st) (iu_conn_map x) else Inr []) (\<lambda>l1.
     bindR (online_users st ps) (\<lambda>l2. Inr (l1 @ l2))))"

definition GetOnlineUserInfo :: "msg_server \<Rightarrow> ServerUserStat list res" where
  "GetOnlineUserInfo st = online_users st (m_im_user_map st)"

fun user_conn_cnt :: "msg_server \<Rightarrow> (u32 \<times> nat) list \<Rightarrow> ((u32 \<times> u32) list \<times> u32) res" where
  "user_conn_cnt st [] = Inr ([], 0)"
| "user_conn_cnt st (p # ps) =
     bindR (deref (snd p) (ms_users st)) (\<lambda>x.
     bindR (if iu_validate x then bindR (GetUserConn x st) (\<lambda>n. Inr ([n], snd n)) else Inr ([], 0)) (\<lambda>(l1, n1).
     bindR (user_conn_cnt st ps) (\<lambda>(l2, n2). Inr (l1 @ l2, n1 + n2))))"

definition GetUserConnCnt :: "msg_server \<Rightarrow> ((u32 \<times> u32) list \<times> u32) res" where
  "GetUserConnCnt st = user_conn_cnt st (m_im_user_map st)"

fun broadcast_users :: "env \<Rightarrow> bytes \<Rightarrow> u32 \<Rightarrow> (u32 \<times> nat) list \<Rightarrow> msg_op" where
  "broadcast_users e pdu client_type_flag [] st = Inr st"
| "broadcast_users e pdu client_type_flag (p # ps) st =
     bindR (deref (snd p) (ms_users st)) (\<lambda>x.
     bindR (if \<not> iu_validate x then Inr st
            else if client_type_flag = CLIENT_TYPE_FLAG_PC then BroadcastPduWithOutMobile e (snd p) pdu None st
            else if client_type_flag = CLIENT_TYPE_FLAG_MOBILE then BroadcastPduToMobile e (snd p) pdu None st
            else if client_type_flag = CLIENT_TYPE_FLAG_BOTH then BroadcastPdu e (snd p) pdu None st
            else Inr st)
       (broadcast_users e pdu client_type_flag ps))"

definition manager_BroadcastPdu :: "env \<Rightarrow> bytes \<Rightarrow> u32 \<Rightarrow> msg_op" where
  "manager_BroadcastPdu e pdu client_type_flag st = broadcast_users e pdu client_type_flag (m_im_user_map st) st"

text \<open>A broadcast to the user with an id, when there is one.\<close>

definition to_user :: "u32 \<Rightarrow> (nat \<Rightarrow> msg_op) \<Rightarrow> msg_op" where
  "to_user user_id send st = (case GetImUserById user_id st of None \<Rightarrow> Inr st | Some u \<Rightarrow> send u st)"

text \<open>A PDU for the connection with an id and handle, when there is one (and, for \<open>need_open\<close>, it is open).\<close>

definition to_handle :: "env \<Rightarrow> bool \<Rightarrow> u32 \<Rightarrow> u32 \<Rightarrow> bytes \<Rightarrow> msg_op" where
  "to_handle e need_open user_id handle data st =
     bindR (GetMsgConnByHandle user_id handle st) (\<lambda>r.
       case r of
         None \<Rightarrow> Inr st
       | Some a \<Rightarrow> bindR (deref a (ms_conns st)) (\<lambda>c.
           if need_open \<and> \<not> mc_open c then Inr st else to_client e a data st))"

end
