(* ===== verification/GroupChat.thy ===== *)
theory GroupChat
  imports ImUser
begin

text \<open>
  Group chats on the message server (\<open>msg_server/GroupChat.cpp\<close>). The server keeps no group state: requests go to the
  database, a group message travels to the database and back as the attachment of a query for the group's
  members, and is then delivered to the members that are connected here.
\<close>

abbreviation answer :: "pdu_header \<Rightarrow> u16 \<Rightarrow> u16 \<Rightarrow> bytes \<Rightarrow> bytes" where
  "answer hdr sid cid body \<equiv> wire_pdu sid cid (h_seq_num hdr) body"

text \<open>A request for the database, with an answer to the client when there is no connection to it.\<close>

definition request_or_refuse :: "env \<Rightarrow> (env \<Rightarrow> u32 \<Rightarrow> bytes res) \<Rightarrow> nat \<Rightarrow> pdu_header \<Rightarrow> 'm pb \<Rightarrow> (u32 \<Rightarrow> bytes \<Rightarrow> 'm) \<Rightarrow> u16 \<Rightarrow>
    (u32 \<Rightarrow> bytes) \<Rightarrow> msg_op" where
  "request_or_refuse e attach a hdr p stamp cid refusal =
     with_conn (get_db_serv_conn e)
       (\<lambda>st. bindR (deref a (ms_conns st)) (\<lambda>c. to_client e a (answer hdr SID_GROUP cid (refusal (mc_user_id c))) st))
       (forward_request e attach a hdr p stamp)"

text \<open>In the refusal the user id is set in the request instead of the response, which stays empty.\<close>

definition HandleClientGroupNormalRequest :: "env \<Rightarrow> pdu_header \<Rightarrow> bytes \<Rightarrow> nat \<Rightarrow> msg_op" where
  "HandleClientGroupNormalRequest e hdr img pFromConn st =
     parsed (pb_NormalGroupListReq (e_group e)) img (\<lambda>msg.
       request_or_refuse e handle_attach pFromConn hdr (pb_NormalGroupListReq (e_group e)) (stamped msg)
         CID_GROUP_NORMAL_LIST_RESPONSE (\<lambda>_. []) st) st"

text \<open>A response that goes to the connection its attachment names, without the attachment.\<close>

definition answer_client :: "env \<Rightarrow> bool \<Rightarrow> pdu_header \<Rightarrow> 'x rsp_msg_scheme pb \<Rightarrow> 'x rsp_msg_scheme \<Rightarrow> msg_op" where
  "answer_client e need_open hdr p msg st =
     bindR (attach_handle (rp_attach_data msg)) (\<lambda>handle.
       to_handle e need_open (rp_user_id msg) handle (rebuilt hdr (pb_ser p (msg\<lparr>rp_attach_data := None\<rparr>))) st)"

definition HandleGroupNormalResponse :: "env \<Rightarrow> pdu_header \<Rightarrow> bytes \<Rightarrow> msg_op" where
  "HandleGroupNormalResponse e hdr img st =
     parsed (pb_NormalGroupListRsp (e_group e)) img (\<lambda>msg.
       answer_client e False hdr (pb_NormalGroupListRsp (e_group e)) msg st) st"

definition HandleClientGroupInfoRequest :: "env \<Rightarrow> pdu_header \<Rightarrow> bytes \<Rightarrow> nat \<Rightarrow> msg_op" where
  "HandleClientGroupInfoRequest e hdr img pFromConn st =
     parsed (pb_GroupInfoListReq (e_group e)) img (\<lambda>msg.
       request_or_refuse e pdu_handle_attach pFromConn hdr (pb_GroupInfoListReq (e_group e))
         (\<lambda>user_id att. msg\<lparr>gq_user_id := user_id, gq_attach_data := Some att\<rparr>)
         CID_GROUP_INFO_RESPONSE
         (\<lambda>user_id. pb_ser (pb_GroupInfoListRsp (e_group e))
            \<lparr>gp_user_id = user_id, gp_group_info_list = [], gp_attach_data = None\<rparr>) st) st"

text \<open>The delivery of a group message to the members connected here; the sender's own connection is left out.\<close>

fun deliver_members :: "env \<Rightarrow> bytes \<Rightarrow> u32 \<Rightarrow> u32 \<Rightarrow> u32 list \<Rightarrow> msg_op" where
  "deliver_members e pdu user_id reqHandle [] st = Inr st"
| "deliver_members e pdu user_id reqHandle (m # ms) st =
     bindR (case GetImUserById m st of
              None \<Rightarrow> Inr st
            | Some u \<Rightarrow>
                bindR (if m = user_id \<and> reqHandle \<noteq> 0 then GetMsgConnByHandle user_id reqHandle st else Inr None)
                  (\<lambda>pFromConn. BroadcastData e u pdu pFromConn st))
       (deliver_members e pdu user_id reqHandle ms)"

definition HandleGroupInfoResponse :: "env \<Rightarrow> pdu_header \<Rightarrow> bytes \<Rightarrow> msg_op" where
  "HandleGroupInfoResponse e hdr img st =
     parsed (pb_GroupInfoListRsp (e_group e)) img (\<lambda>msg.
       let user_id = gp_user_id msg; att = opt_bytes (gp_attach_data msg)
       in bindR (CPduAttachData_par att (of_nat (length att))) (\<lambda>pduAttachData.
          case (0 < snd (snd pduAttachData), gp_group_info_list msg) of
            (True, group_info # _) \<Rightarrow>
              if user_id \<notin> set (gi_group_member_list group_info) then Inr st
              else bindR (attached_pdu att pduAttachData) (\<lambda>body.
                case pb_par (pb_MsgData (e_message e)) body of
                  (False, _) \<Rightarrow> Inr st
                | (True, msg2) \<Rightarrow>
                    let body2 = pb_ser (pb_MsgData (e_message e)) msg2
                    in bindR (deliver_members e (wire_pdu SID_MSG CID_MSG_DATA 0 body2) user_id
                                (da_handle (fst pduAttachData)) (gi_group_member_list group_info) st)
                         (if_db e (\<lambda>d. to_db e d (wire_pdu SID_OTHER CID_OTHER_GET_SHIELD_REQ 0
                            (pb_ser (pb_GroupGetShieldReq (e_server e))
                               \<lparr>hq_group_id = gi_group_id group_info, hq_user_id = gi_group_member_list group_info,
                                hq_attach_data = Some body2\<rparr>)))))
          | (True, []) \<Rightarrow> Inr st
          | (False, _) \<Rightarrow>
              to_handle e False user_id (da_handle (fst pduAttachData))
                (rebuilt hdr (pb_ser (pb_GroupInfoListRsp (e_group e)) (msg\<lparr>gp_attach_data := None\<rparr>))) st)) st"

text \<open>The query for the members, with the message and the sender's handle as attachment.\<close>

definition query_group :: "env \<Rightarrow> u32 \<Rightarrow> bytes \<Rightarrow> IMMsgData \<Rightarrow> msg_op" where
  "query_group e handle body msg st =
     bindR (CPduAttachData_ser (e_fresh e) ATTACH_TYPE_HANDLE_AND_PDU handle (of_nat (length body)) (Some body) 0) (\<lambda>att.
       if_db e (\<lambda>d. to_db e d (wire_pdu SID_GROUP CID_GROUP_INFO_REQUEST 0
         (pb_ser (pb_GroupInfoListReq (e_group e))
            \<lparr>gq_user_id = md_from_user_id msg, gq_group_version_list = [(md_to_session_id msg, 0)],
             gq_attach_data = Some att\<rparr>))) st)"

definition HandleGroupMessage :: "env \<Rightarrow> pdu_header \<Rightarrow> bytes \<Rightarrow> msg_op" where
  "HandleGroupMessage e hdr img st =
     parsed (pb_MsgData (e_message e)) img (\<lambda>msg.
       if md_msg_id msg = 0 then Inr st
       else bindR (attach_handle (md_attach_data msg)) (\<lambda>handle.
            bindR (to_handle e False (md_from_user_id msg) handle
                     (answer hdr SID_MSG CID_MSG_DATA_ACK (pb_ser (pb_MsgDataAck (e_message e))
                        \<lparr>mm_user_id = md_from_user_id msg, mm_session_id = md_to_session_id msg,
                         mm_msg_id = md_msg_id msg, mm_session_type = SESSION_TYPE_GROUP\<rparr>)) st) (\<lambda>st1.
            bindR (if_route e img st1) (query_group e handle (drop 16 img) msg)))) st"

definition HandleGroupMessageBroadcast :: "env \<Rightarrow> pdu_header \<Rightarrow> bytes \<Rightarrow> msg_op" where
  "HandleGroupMessageBroadcast e hdr img st =
     parsed (pb_MsgData (e_message e)) img (\<lambda>msg. query_group e 0 (drop 16 img) msg st) st"

definition HandleClientGroupCreateRequest :: "env \<Rightarrow> pdu_header \<Rightarrow> bytes \<Rightarrow> nat \<Rightarrow> msg_op" where
  "HandleClientGroupCreateRequest e hdr img pFromConn st =
     parsed (pb_GroupCreateReq (e_group e)) img (\<lambda>msg.
       if gc_group_type msg = GROUP_TYPE_NORMAL then Inr st
       else request_or_refuse e handle_attach pFromConn hdr (pb_GroupCreateReq (e_group e)) (stamped msg)
              CID_GROUP_CREATE_RESPONSE
              (\<lambda>user_id. pb_ser (pb_GroupCreateRsp (e_group e))
                 \<lparr>rp_user_id = user_id, rp_result_code = 1, rp_attach_data = None, rp_rest = [], gr_group_name = gc_group_name msg\<rparr>) st) st"

definition HandleGroupCreateResponse :: "env \<Rightarrow> pdu_header \<Rightarrow> bytes \<Rightarrow> msg_op" where
  "HandleGroupCreateResponse e hdr img st =
     parsed (pb_GroupCreateRsp (e_group e)) img (\<lambda>msg.
       answer_client e False hdr (pb_GroupCreateRsp (e_group e)) msg st) st"

definition HandleClientGroupChangeMemberRequest :: "env \<Rightarrow> pdu_header \<Rightarrow> bytes \<Rightarrow> nat \<Rightarrow> msg_op" where
  "HandleClientGroupChangeMemberRequest e hdr img pFromConn st =
     parsed (pb_GroupChangeMemberReq (e_group e)) img (\<lambda>msg.
       request_or_refuse e handle_attach pFromConn hdr (pb_GroupChangeMemberReq (e_group e)) (stamped msg)
         CID_GROUP_CHANGE_MEMBER_RESPONSE
         (\<lambda>user_id. pb_ser (pb_GroupChangeMemberRsp (e_group e))
            \<lparr>rp_user_id = user_id, rp_result_code = 1, rp_attach_data = None, rp_rest = [], gs_change_type = gm_change_type msg,
             gs_group_id = gm_group_id msg, gs_chg_user_id_list = [], gs_cur_user_id_list = []\<rparr>) st) st"

definition SendPduToUser :: "env \<Rightarrow> bytes \<Rightarrow> u32 \<Rightarrow> nat option \<Rightarrow> msg_op" where
  "SendPduToUser e pPdu user_id pReqConn = to_user user_id (\<lambda>u. BroadcastPdu e u pPdu pReqConn)"

fun send_to_users :: "env \<Rightarrow> bytes \<Rightarrow> nat option \<Rightarrow> u32 list \<Rightarrow> msg_op" where
  "send_to_users e pPdu pReqConn [] st = Inr st"
| "send_to_users e pPdu pReqConn (u # us) st =
     bindR (SendPduToUser e pPdu u pReqConn st) (send_to_users e pPdu pReqConn us)"

definition HandleGroupChangeMemberResponse :: "env \<Rightarrow> pdu_header \<Rightarrow> bytes \<Rightarrow> msg_op" where
  "HandleGroupChangeMemberResponse e hdr img st =
     parsed (pb_GroupChangeMemberRsp (e_group e)) img (\<lambda>msg.
       bindR (attach_handle (rp_attach_data msg)) (\<lambda>handle.
       bindR (GetMsgConnByHandle (rp_user_id msg) handle st) (\<lambda>pFromConn.
       bindR (case pFromConn of
                None \<Rightarrow> Inr st
              | Some a \<Rightarrow> to_client e a (rebuilt hdr (pb_ser (pb_GroupChangeMemberRsp (e_group e)) (msg\<lparr>rp_attach_data := None\<rparr>))) st) (\<lambda>st1.
         if rp_result_code msg \<noteq> 0 then Inr st1
         else let pdu = wire_pdu SID_GROUP CID_GROUP_CHANGE_MEMBER_NOTIFY 0 (pb_ser (pb_GroupChangeMemberNotify (e_group e))
                    \<lparr>gn_user_id = rp_user_id msg, gn_change_type = gs_change_type msg, gn_group_id = gs_group_id msg,
                     gn_chg_user_id_list = gs_chg_user_id_list msg, gn_cur_user_id_list = gs_cur_user_id_list msg\<rparr>)
              in bindR (if_route e pdu st1)
                   (send_to_users e pdu pFromConn (gs_chg_user_id_list msg @ gs_cur_user_id_list msg)))))) st"

definition HandleGroupChangeMemberBroadcast :: "env \<Rightarrow> pdu_header \<Rightarrow> bytes \<Rightarrow> msg_op" where
  "HandleGroupChangeMemberBroadcast e hdr img st =
     parsed (pb_GroupChangeMemberNotify (e_group e)) img (\<lambda>msg.
       send_to_users e img None (gn_chg_user_id_list msg @ gn_cur_user_id_list msg) st) st"

definition HandleClientGroupShieldGroupRequest :: "env \<Rightarrow> pdu_header \<Rightarrow> bytes \<Rightarrow> nat \<Rightarrow> msg_op" where
  "HandleClientGroupShieldGroupRequest e hdr img pFromConn st =
     parsed (pb_GroupShieldReq (e_group e)) img (\<lambda>msg.
       request_or_refuse e handle_attach pFromConn hdr (pb_GroupShieldReq (e_group e)) (stamped msg)
         CID_GROUP_SHIELD_GROUP_RESPONSE
         (\<lambda>user_id. pb_ser (pb_GroupShieldRsp (e_group e))
            \<lparr>rp_user_id = user_id, rp_result_code = 1, rp_attach_data = None, rp_rest = []\<rparr>) st) st"

definition HandleGroupShieldGroupResponse :: "env \<Rightarrow> pdu_header \<Rightarrow> bytes \<Rightarrow> msg_op" where
  "HandleGroupShieldGroupResponse e hdr img st =
     parsed (pb_GroupShieldRsp (e_group e)) img (\<lambda>msg.
       answer_client e False hdr (pb_GroupShieldRsp (e_group e)) msg st) st"

definition HandleGroupGetShieldByGroupResponse :: "env \<Rightarrow> pdu_header \<Rightarrow> bytes \<Rightarrow> msg_op" where
  "HandleGroupGetShieldByGroupResponse e hdr img st =
     parsed (pb_GroupGetShieldRsp (e_server e)) img (\<lambda>msg.
       if_db e (\<lambda>d. to_db e d (wire_pdu SID_OTHER CID_OTHER_GET_DEVICE_TOKEN_REQ 0
         (pb_ser (pb_GetDeviceTokenReq (e_server e))
            \<lparr>tq_user_id = map ss_user_id (filter (\<lambda>s. ss_shield_status s = 0) (hr_shield_status_list msg)),
             tq_attach_data = Some (opt_bytes (hr_attach_data msg))\<rparr>))) st) st"

end
