(* ===== verification/FileHandler.thy ===== *)
theory FileHandler
  imports GroupChat
begin

text \<open>
  File transfer requests on the message server (\<open>msg_server/FileHandler.cpp\<close>, \<open>FileServConn.cpp\<close>). Transfers themselves run over
  the file servers; here a transfer is requested from a file server, and offline files are recorded in
  the database and announced to their receivers.
\<close>

text \<open>A pointer that is used without a test for \<open>NULL\<close>.\<close>

definition must :: "nat option \<Rightarrow> nat res" where
  "must p = (case p of None \<Rightarrow> Inl MemFault | Some a \<Rightarrow> Inr a)"

text \<open>\<open>pFileConn->GetFileServerIPList()\<close>\<close>

definition file_ips :: "nat \<Rightarrow> msg_server \<Rightarrow> (string \<times> u32) list res" where
  "file_ips f st = bindR (deref f (b_heap (ms_file st))) (\<lambda>c. Inr (sv_ip_list c))"

definition HandleClientFileRequest :: "env \<Rightarrow> pdu_header \<Rightarrow> bytes \<Rightarrow> nat \<Rightarrow> msg_op" where
  "HandleClientFileRequest e hdr img pMsgConn st =
     parsed (pb_FileReq (e_file e)) img (\<lambda>msg.
       bindR (deref pMsgConn (ms_conns st)) (\<lambda>c.
       bindR (handle_attach e (mc_handle c)) (\<lambda>att.
         with_conn (get_random_file_serv_conn e)
           (to_client e pMsgConn (answer hdr SID_FILE CID_FILE_RESPONSE (pb_ser (pb_FileRsp (e_file e))
              \<lparr>fr_result_code = 1, fr_from_user_id = mc_user_id c, fr_to_user_id = fq_to_user_id msg,
               fr_file_name = fq_file_name msg, fr_task_id = [], fr_ip_addr_list = [], fr_trans_mode = fq_trans_mode msg\<rparr>)))
           (\<lambda>pFileConn st1.
              let body = pb_ser (pb_FileTransferReq (e_server e))
                    \<lparr>ft_from_user_id = mc_user_id c, ft_to_user_id = fq_to_user_id msg, ft_file_name = fq_file_name msg,
                     ft_file_size = ucast (fq_file_size msg), ft_trans_mode = fq_trans_mode msg,
                     ft_file_md5 = fq_file_md5 msg, ft_attach_data = Some att\<rparr>;
                  pdu = answer hdr SID_OTHER CID_OTHER_FILE_TRANSFER_REQ body
              in if fq_trans_mode msg = FILE_TYPE_OFFLINE then to_file e pFileConn pdu st1
                 else bindR (case GetImUserById (fq_to_user_id msg) st1 of
                               None \<Rightarrow> Inr False
                             | Some u \<Rightarrow> bindR (deref u (ms_users st1)) (\<lambda>x. Inr (iu_pc_login_status x \<noteq> 0))) (\<lambda>pc.
                      if pc then to_file e pFileConn pdu st1
                      else bindR (CPduAttachData_ser (e_fresh e) ATTACH_TYPE_HANDLE_AND_PDU_FOR_FILE (mc_handle c)
                                    (of_nat (length body)) (Some body) 0) (\<lambda>att2.
                           if_route e (answer hdr SID_BUDDY_LIST CID_BUDDY_LIST_USERS_STATUS_REQUEST
                             (pb_ser (pb_BuddyUsersStatReq (e_buddy e))
                                \<lparr>sr_user_id = mc_user_id c, sr_user_id_list = [fq_to_user_id msg], sr_attach_data = att2\<rparr>)) st1)))
           st))) st"

definition HandleClientFileHasOfflineReq :: "env \<Rightarrow> pdu_header \<Rightarrow> bytes \<Rightarrow> nat \<Rightarrow> msg_op" where
  "HandleClientFileHasOfflineReq e hdr img pMsgConn =
     with_conn (get_db_serv_conn e)
       (\<lambda>st. bindR (deref pMsgConn (ms_conns st)) (\<lambda>c.
          to_client e pMsgConn (answer hdr SID_FILE CID_FILE_HAS_OFFLINE_RES (pb_ser (pb_FileHasOfflineRsp (e_file e))
            \<lparr>fh_user_id = mc_user_id c, fh_offline_file_list = [], fh_ip_addr_list = [], fh_attach_data = None\<rparr>)) st))
       (\<lambda>d st. parsed (pb_FileHasOfflineReq (e_file e)) img (\<lambda>msg.
          forward_request e handle_attach pMsgConn hdr (pb_FileHasOfflineReq (e_file e)) (stamped msg) d st) st)"

text \<open>
  The file is announced to the receiver when a file server is known and the receiver is here; the status in
  the database record says whether it was. The new record replaces the client's message.
\<close>

definition announce_file :: "env \<Rightarrow> pdu_header \<Rightarrow> u32 \<Rightarrow> IMFileAddOfflineReq \<Rightarrow> nat \<Rightarrow> bool msg_get" where
  "announce_file e hdr from_id msg pFileConn st =
     bindR (file_ips pFileConn st) (\<lambda>ips.
       case GetImUserById (fa_to_user_id msg) st of
         None \<Rightarrow> Inr (False, st)
       | Some u \<Rightarrow>
           bindR (BroadcastPdu e u (answer hdr SID_FILE CID_FILE_HAS_OFFLINE_RES (pb_ser (pb_FileHasOfflineRsp (e_file e))
                    \<lparr>fh_user_id = fa_to_user_id msg,
                     fh_offline_file_list = [\<lparr>of_from_user_id = from_id, of_task_id = fa_task_id msg, of_file_name = fa_file_name msg,
                       of_file_size = fa_file_size msg, of_file_md5 = fa_file_md5 msg, of_status = 1\<rparr>],
                     fh_ip_addr_list = ips, fh_attach_data = Some (map of_char ''offline transfer '')\<rparr>)) None st) (\<lambda>st1. Inr (True, st1)))"

definition HandleClientFileAddOfflineReq :: "env \<Rightarrow> pdu_header \<Rightarrow> bytes \<Rightarrow> nat \<Rightarrow> msg_op" where
  "HandleClientFileAddOfflineReq e hdr img pMsgConn st =
     parsed (pb_FileAddOfflineReq (e_file e)) img (\<lambda>msg.
       bindR (deref pMsgConn (ms_conns st)) (\<lambda>c.
       bindR (get_random_file_serv_conn e st) (\<lambda>(pFileConn, st1).
       bindR (case pFileConn of None \<Rightarrow> Inr (False, st1) | Some f \<Rightarrow> announce_file e hdr (mc_user_id c) msg f st1) (\<lambda>(pushed, st2).
         if_db e (\<lambda>d. to_db e d (rebuilt hdr (pb_ser (pb_FileAddOfflineReq (e_file e))
           (msg\<lparr>fa_from_user_id := mc_user_id c, fa_status := (if pushed then 2 else 1)\<rparr>)))) st2)))) st"

text \<open>
  The sender is told that the file was downloaded. The list of file servers is read through the result of
  \<open>get_random_file_serv_conn\<close>, and the record is sent through the result of \<open>get_db_serv_conn\<close>, whether there is one or not.
\<close>

definition tell_sender :: "env \<Rightarrow> IMFileDelOfflineReq \<Rightarrow> nat option \<Rightarrow> u32 msg_get" where
  "tell_sender e msg pFileConn st =
     (case GetImUserById (fd_from_user_id msg) st of
        None \<Rightarrow> Inr (4, st)
      | Some u \<Rightarrow>
          bindR (must pFileConn) (\<lambda>f.
          bindR (file_ips f st) (\<lambda>ips.
          bindR (BroadcastPdu e u (wire_pdu SID_FILE CID_FILE_HAS_OFFLINE_RES 0 (pb_ser (pb_FileHasOfflineRsp (e_file e))
                   \<lparr>fh_user_id = fd_to_user_id msg,
                    fh_offline_file_list = [\<lparr>of_from_user_id = fd_from_user_id msg, of_task_id = fd_task_id msg,
                      of_file_name = fd_file_name msg, of_file_size = fd_file_size msg, of_file_md5 = ''1'',
                      of_status = FILE_NEED_DISPLAY\<rparr>],
                    fh_ip_addr_list = ips, fh_attach_data = None\<rparr>)) None st) (\<lambda>st1. Inr (5, st1)))))"

definition HandleClientFileDelOfflineReq :: "env \<Rightarrow> pdu_header \<Rightarrow> bytes \<Rightarrow> nat \<Rightarrow> msg_op" where
  "HandleClientFileDelOfflineReq e hdr img pMsgConn st =
     parsed (pb_FileDelOfflineReq (e_file e)) img (\<lambda>msg.
       bindR (get_db_serv_conn e st) (\<lambda>(pDbConn, st1).
       bindR (get_random_file_serv_conn e st1) (\<lambda>(pFileConn, st2).
       bindR (tell_sender e msg pFileConn st2) (\<lambda>(status, st3).
       bindR (must pDbConn) (\<lambda>d.
         to_db e d (wire_pdu SID_OTHER CID_FILE_Notify_dbserver 0 (pb_ser (pb_InfoNotify (e_file e))
           [\<lparr>of_from_user_id = fd_from_user_id msg, of_task_id = fd_task_id msg, of_file_name = fd_file_name msg,
             of_file_size = fd_file_size msg, of_file_md5 = '' '', of_status = status\<rparr>])) st3))))) st"

definition HandleFileHasOfflineRes :: "env \<Rightarrow> pdu_header \<Rightarrow> bytes \<Rightarrow> msg_op" where
  "HandleFileHasOfflineRes e hdr img st =
     parsed (pb_FileHasOfflineRsp (e_file e)) img (\<lambda>msg.
       bindR (attach_handle (fh_attach_data msg)) (\<lambda>handle.
       bindR (get_random_file_serv_conn e st) (\<lambda>(pFileConn, st1).
       bindR (case pFileConn of None \<Rightarrow> Inr [] | Some f \<Rightarrow> file_ips f st1) (\<lambda>ips.
         to_handle e False (fh_user_id msg) handle
           (rebuilt hdr (pb_ser (pb_FileHasOfflineRsp (e_file e)) (msg\<lparr>fh_ip_addr_list := fh_ip_addr_list msg @ ips\<rparr>))) st1)))) st"

definition HandleFileNotify :: "env \<Rightarrow> pdu_header \<Rightarrow> bytes \<Rightarrow> msg_op" where
  "HandleFileNotify e hdr img st =
     parsed (pb_FileNotify (e_file e)) img (\<lambda>msg.
       to_user (fn_to_user_id msg) (\<lambda>u. BroadcastPdu e u img None) st) st"

definition HandleNotifyAck :: "env \<Rightarrow> pdu_header \<Rightarrow> bytes \<Rightarrow> msg_op" where
  "HandleNotifyAck e hdr img st =
     parsed (pb_InfoNotify (e_file e)) img (\<lambda>_. if_db e (\<lambda>d. to_db e d img) st) st"

section \<open>CFileServConn\<close>

definition HandleFileMsgTransRsp :: "env \<Rightarrow> nat \<Rightarrow> pdu_header \<Rightarrow> bytes \<Rightarrow> msg_op" where
  "HandleFileMsgTransRsp e f hdr img st =
     parsed (pb_FileTransferRsp (e_server e)) img (\<lambda>msg.
       bindR (attach_handle (fp_attach_data msg)) (\<lambda>handle.
       bindR (file_ips f st) (\<lambda>ips.
       bindR (to_handle e False (fp_from_user_id msg) handle
                (answer hdr SID_FILE CID_FILE_RESPONSE (pb_ser (pb_FileRsp (e_file e))
                   \<lparr>fr_result_code = fp_result_code msg, fr_from_user_id = fp_from_user_id msg, fr_to_user_id = fp_to_user_id msg,
                    fr_file_name = fp_file_name msg, fr_task_id = fp_task_id msg, fr_ip_addr_list = ips,
                    fr_trans_mode = fp_trans_mode msg\<rparr>)) st) (\<lambda>st1.
         if fp_result_code msg = 0 \<and> fp_trans_mode msg = FILE_TYPE_ONLINE
         then let pdu2 = wire_pdu SID_FILE CID_FILE_NOTIFY 0 (pb_ser (pb_FileNotify (e_file e))
                    \<lparr>fn_from_user_id = fp_from_user_id msg, fn_to_user_id = fp_to_user_id msg, fn_file_name = fp_file_name msg,
                     fn_file_size = fp_file_size msg, fn_task_id = fp_task_id msg, fn_ip_addr_list = ips,
                     fn_trans_mode = fp_trans_mode msg, fn_offline_ready = 0\<rparr>)
              in bindR (to_user (fp_to_user_id msg) (\<lambda>u. BroadcastPduWithOutMobile e u pdu2 None) st1) (if_route e pdu2)
         else Inr st1)))) st"

definition HandleFileServerIPRsp :: "env \<Rightarrow> nat \<Rightarrow> pdu_header \<Rightarrow> bytes \<Rightarrow> msg_op" where
  "HandleFileServerIPRsp e f hdr img st =
     parsed (pb_FileServerIPRsp (e_server e)) img (\<lambda>ips.
       on_file (\<lambda>b. bindR (deref f (b_heap b)) (\<lambda>c.
         Inr (b\<lparr>b_heap := set_obj f (c\<lparr>sv_ip_list := sv_ip_list c @ ips\<rparr>) (b_heap b)\<rparr>, []))) st) st"

definition HandleFileNotify_dbserver :: "env \<Rightarrow> pdu_header \<Rightarrow> bytes \<Rightarrow> msg_op" where
  "HandleFileNotify_dbserver e hdr img st =
     parsed (pb_InfoNotify (e_file e)) img (\<lambda>_. if_db e (\<lambda>d. to_db e d img) st) st"

definition file_HandlePdu :: "env \<Rightarrow> nat \<Rightarrow> pdu_header \<Rightarrow> bytes \<Rightarrow> msg_op" where
  "file_HandlePdu e f hdr img st =
     (let cid = h_command_id hdr
      in if cid = CID_OTHER_HEARTBEAT then Inr st
         else if cid = CID_OTHER_FILE_TRANSFER_RSP then HandleFileMsgTransRsp e f hdr img st
         else if cid = CID_OTHER_FILE_SERVER_IP_RSP then HandleFileServerIPRsp e f hdr img st
         else if cid = CID_FILE_Notify_dbserver then HandleFileNotify_dbserver e hdr img st
         else Inr st)"

end
