(* ===== verification/MsgConn.thy ===== *)
theory MsgConn
  imports FileHandler
begin

text \<open>
  Client connections of the message server (\<open>msg_server/MsgConn.cpp\<close>): login, logout, time-outs, the handlers of all client
  requests and the dispatch of \<open>HandlePdu\<close>. One definition per method of \<open>CMsgConn\<close>, with the object's address as argument.
\<close>

abbreviation (input) TIMEOUT_WATI_LOGIN_RESPONSE :: u64 where "TIMEOUT_WATI_LOGIN_RESPONSE \<equiv> 15000"
abbreviation (input) TIMEOUT_WAITING_MSG_DATA_ACK :: u64 where "TIMEOUT_WAITING_MSG_DATA_ACK \<equiv> 15000"
abbreviation (input) LOG_MSG_STAT_INTERVAL :: u64 where "LOG_MSG_STAT_INTERVAL \<equiv> 300000"
abbreviation (input) MAX_MSG_CNT_PER_SECOND :: u32 where "MAX_MSG_CNT_PER_SECOND \<equiv> 20"

section \<open>Life of a connection\<close>

definition CMsgConn :: "env \<Rightarrow> msg_conn" where
  "CMsgConn e = \<lparr>mc_handle = NETLIB_INVALID_HANDLE, mc_login_name = [], mc_user_id = 0, mc_open = False, mc_kick_off = False,
     mc_login_time = 0, mc_client_version = [], mc_send_msg_list = [], mc_msg_cnt_per_sec = 0, mc_client_type = e_junk e,
     mc_online_status = USER_STATUS_OFFLINE, mc_last_send_tick = e_now e, mc_last_recv_tick = e_now e\<rparr>"

text \<open>The two PDUs of a status change: the user count for the login servers, the status for the route servers.\<close>

definition send_status :: "env \<Rightarrow> u32 \<Rightarrow> u32 \<Rightarrow> u32 \<Rightarrow> u32 \<Rightarrow> msg_op" where
  "send_status e action user_status user_id client_type st =
     bindR (send_to_all_login_server e (wire_pdu SID_OTHER CID_OTHER_USER_CNT_UPDATE 0
              (pb_ser (pb_SrvUserCntUpdate (e_server e)) \<lparr>user_action = action, uc_user_id = user_id\<rparr>)) st)
       (send_to_all_route_server e (wire_pdu SID_OTHER CID_OTHER_USER_STATUS_UPDATE 0
              (pb_ser (pb_SrvUserStatusUpdate (e_server e))
                 \<lparr>us_user_id = user_id, us_status = user_status, us_client_type = client_type\<rparr>)))"

definition SendUserStatusUpdate :: "env \<Rightarrow> nat \<Rightarrow> u32 \<Rightarrow> msg_op" where
  "SendUserStatusUpdate e a user_status st =
     bindR (deref a (ms_conns st)) (\<lambda>c.
       if \<not> mc_open c then Inr st
       else case GetImUserById (mc_user_id c) st of
              None \<Rightarrow> Inr st
            | Some u \<Rightarrow>
                bindR (deref u (ms_users st)) (\<lambda>x.
                  if user_status = USER_STATUS_ONLINE
                  then send_status e USER_CNT_INC USER_STATUS_ONLINE (iu_user_id x) (mc_client_type c) st
                  else if user_status = USER_STATUS_OFFLINE
                  then send_status e USER_CNT_DEC USER_STATUS_OFFLINE (iu_user_id x) (mc_client_type c) st
                  else Inr st))"

definition conn_release :: "nat \<Rightarrow> msg_op" where
  "conn_release a st = bindR (release_ref a (ms_conns st)) (\<lambda>h. Inr (st\<lparr>ms_conns := h\<rparr>))"

definition conn_add_ref :: "nat \<Rightarrow> msg_op" where
  "conn_add_ref a st = bindR (add_ref a (ms_conns st)) (\<lambda>h. Inr (st\<lparr>ms_conns := h\<rparr>))"

text \<open>The parts of \<open>Close\<close>: the socket, the user by id, the user by login name, the notice to the database.\<close>

definition close_socket :: "nat \<Rightarrow> msg_op" where
  "close_socket a st =
     bindR (deref a (ms_conns st)) (\<lambda>c.
       Inr (if mc_handle c \<noteq> NETLIB_INVALID_HANDLE
            then st\<lparr>g_msg_conn_map := map_erase (mc_handle c) (g_msg_conn_map st), ms_trace := ms_trace st @ [NetClose (mc_handle c)]\<rparr>
            else st))"

text \<open>\<open>if (pImUser->IsMsgConnEmpty()) RemoveImUser(pImUser)\<close>\<close>

definition remove_if_empty :: "nat \<Rightarrow> msg_op" where
  "remove_if_empty u st =
     bindR (deref u (ms_users st)) (\<lambda>x. if IsMsgConnEmpty x then RemoveImUser u st else Inr st)"

definition leave_by_id :: "env \<Rightarrow> nat \<Rightarrow> msg_op" where
  "leave_by_id e a st =
     bindR (deref a (ms_conns st)) (\<lambda>c.
       case GetImUserById (mc_user_id c) st of
         None \<Rightarrow> Inr st
       | Some u \<Rightarrow>
           bindR (on_user u (\<lambda>x. DelUnValidateMsgConn a (DelMsgConn (mc_handle c) x)) st) (\<lambda>st1.
           bindR (SendUserStatusUpdate e a USER_STATUS_OFFLINE st1) (remove_if_empty u)))"

definition leave_by_name :: "nat \<Rightarrow> msg_op" where
  "leave_by_name a st =
     bindR (deref a (ms_conns st)) (\<lambda>c.
       case GetImUserByLoginName (mc_login_name c) st of
         None \<Rightarrow> Inr st
       | Some u \<Rightarrow> bindR (on_user u (DelUnValidateMsgConn a) st) (remove_if_empty u))"

definition notify_offline :: "env \<Rightarrow> nat \<Rightarrow> msg_op" where
  "notify_offline e a st =
     bindR (deref a (ms_conns st)) (\<lambda>c.
       case GetImUserById (mc_user_id c) st of
         Some _ \<Rightarrow> Inr st
       | None \<Rightarrow> if_db e (\<lambda>d. to_db e d (wire_pdu SID_OTHER CID_FILE_Notify_dbserver 0 (pb_ser (pb_InfoNotify (e_file e))
           [\<lparr>of_from_user_id = mc_user_id c, of_task_id = decimal (unat (mc_user_id c)), of_file_name = ''0'',
             of_file_size = 0, of_file_md5 = ''0'', of_status = - 1\<rparr>]))) st)"

definition Close :: "env \<Rightarrow> nat \<Rightarrow> msg_op" where
  "Close e a st =
     bindR (close_socket a st) (\<lambda>st1.
     bindR (leave_by_id e a st1) (\<lambda>st2.
     bindR (leave_by_name a st2) (\<lambda>st3.
     bindR (notify_offline e a st3) (conn_release a))))"

definition OnConnect :: "env \<Rightarrow> nat \<Rightarrow> u32 \<Rightarrow> msg_op" where
  "OnConnect e a handle st =
     bindR (on_conn a (\<lambda>c. c\<lparr>mc_handle := handle, mc_login_time := e_now e\<rparr>) st) (\<lambda>st1.
       Inr (st1\<lparr>g_msg_conn_map := hm_insert handle a (g_msg_conn_map st1)\<rparr>))"

definition OnClose :: "env \<Rightarrow> nat \<Rightarrow> msg_op" where
  "OnClose e a = Close e a"

text \<open>The unacknowledged messages that are too old, from the front of the list.\<close>

fun expire_acks :: "u64 \<Rightarrow> msg_ack_t list \<Rightarrow> nat \<times> msg_ack_t list" where
  "expire_acks curr_tick [] = (0, [])"
| "expire_acks curr_tick (m # ms) =
     (if curr_tick \<ge> ak_timestamp m + TIMEOUT_WAITING_MSG_DATA_ACK
      then (let (n, rest) = expire_acks curr_tick ms in (Suc n, rest)) else (0, m # ms))"

definition OnTimer :: "env \<Rightarrow> u64 \<Rightarrow> nat \<Rightarrow> msg_op" where
  "OnTimer e curr_tick a st =
     bindR (on_conn a (\<lambda>c. c\<lparr>mc_msg_cnt_per_sec := 0\<rparr>) st) (\<lambda>st1.
     bindR (deref a (ms_conns st1)) (\<lambda>c.
       let timeout = (if CHECK_CLIENT_TYPE_MOBILE (mc_client_type c) then MOBILE_CLIENT_TIMEOUT else CLIENT_TIMEOUT)
       in if curr_tick > mc_last_recv_tick c + timeout then Close e a st1
          else if \<not> mc_open c \<and> curr_tick > mc_login_time c + TIMEOUT_WATI_LOGIN_RESPONSE then Close e a st1
          else let (n, rest) = expire_acks curr_tick (mc_send_msg_list c)
               in Inr (st1\<lparr>ms_conns := set_obj a (c\<lparr>mc_send_msg_list := rest\<rparr>) (ms_conns st1),
                          g_down_msg_miss_cnt := g_down_msg_miss_cnt st1 + of_nat n\<rparr>)))"

definition conn_GetClientTypeFlag :: "msg_conn \<Rightarrow> u32" where
  "conn_GetClientTypeFlag c =
     (if CHECK_CLIENT_TYPE_PC (mc_client_type c) then CLIENT_TYPE_FLAG_PC
      else if CHECK_CLIENT_TYPE_MOBILE (mc_client_type c) then CLIENT_TYPE_FLAG_MOBILE
      else CLIENT_TYPE_FLAG_NONE)"

section \<open>Logging in and out\<close>

definition HandleHeartBeat :: "env \<Rightarrow> nat \<Rightarrow> bytes \<Rightarrow> msg_op" where
  "HandleHeartBeat e a img = to_client e a img"

text \<open>The text of a refusal, in the encoding of the source file.\<close>

abbreviation (input) server_error_text :: bytes where
  "server_error_text \<equiv> [0xE6, 0x9C, 0x8D, 0xE5, 0x8A, 0xA1, 0xE7, 0xAB, 0xAF, 0xE5, 0xBC, 0x82, 0xE5, 0xB8, 0xB8]"

definition login_res :: "env \<Rightarrow> pdu_header \<Rightarrow> u32 \<Rightarrow> bytes \<Rightarrow> u32 option \<Rightarrow> UserInfo option \<Rightarrow> bytes" where
  "login_res e hdr result text status info =
     answer hdr SID_LOGIN CID_LOGIN_RES_USERLOGIN (pb_ser (pb_LoginRes (e_login e))
       \<lparr>ls_server_time = e_time e, ls_result_code = result, ls_result_string = text, ls_online_status = status, ls_user_info = info\<rparr>)"

definition login_result :: "env \<Rightarrow> (nat option \<times> u32) msg_get" where
  "login_result e st =
     bindR (get_db_serv_conn_for_login e st) (\<lambda>(pDbConn, st1).
       if pDbConn = None then Inr ((pDbConn, REFUSE_REASON_NO_DB_SERVER), st1)
       else bindR (is_login_server_available st1) (\<lambda>login_ok.
              if \<not> login_ok then Inr ((pDbConn, REFUSE_REASON_NO_LOGIN_SERVER), st1)
              else bindR (is_route_server_available st1) (\<lambda>route_ok.
                     Inr ((pDbConn, if \<not> route_ok then REFUSE_REASON_NO_ROUTE_SERVER else 0), st1))))"

text \<open>The user of a login name, created when there is none.\<close>

definition user_for_login :: "string \<Rightarrow> msg_server \<Rightarrow> nat \<times> msg_server" where
  "user_for_login login_name st =
     (case GetImUserByLoginName login_name st of
        Some u \<Rightarrow> (u, st)
      | None \<Rightarrow> let (u, h) = new_obj (CImUser login_name) (ms_users st)
                in (u, AddImUserByLoginName login_name u (st\<lparr>ms_users := h\<rparr>)))"

definition start_validation :: "env \<Rightarrow> nat \<Rightarrow> pdu_header \<Rightarrow> nat \<Rightarrow> IMLoginReq \<Rightarrow> msg_op" where
  "start_validation e a hdr d msg st =
     (let status = lr_online_status msg;
          online_status = (if status < USER_STATUS_ONLINE \<or> status > USER_STATUS_LEAVE then USER_STATUS_ONLINE else status)
      in bindR (on_conn a (\<lambda>c. c\<lparr>mc_login_name := lr_user_name msg, mc_client_version := lr_client_version msg,
                  mc_client_type := lr_client_type msg, mc_online_status := online_status\<rparr>) st) (\<lambda>st1.
         let (u, st2) = user_for_login (lr_user_name msg) st1
         in bindR (on_user u (AddUnValidateMsgConn a) st2) (\<lambda>st3.
            bindR (deref a (ms_conns st3)) (\<lambda>c.
            bindR (handle_attach e (mc_handle c)) (\<lambda>att.
              to_db e d (answer hdr SID_OTHER CID_OTHER_VALIDATE_REQ (pb_ser (pb_ValidateReq (e_server e))
                \<lparr>vq_user_name = lr_user_name msg, vq_password = lr_password msg, vq_attach_data = Some att\<rparr>)) st3)))))"

definition HandleLoginRequest :: "env \<Rightarrow> nat \<Rightarrow> pdu_header \<Rightarrow> bytes \<Rightarrow> msg_op" where
  "HandleLoginRequest e a hdr img st =
     bindR (deref a (ms_conns st)) (\<lambda>c.
       if mc_login_name c \<noteq> [] then Inr st
       else bindR (login_result e st) (\<lambda>((pDbConn, result), st1).
         if result \<noteq> 0 then
           bindR (to_client e a (login_res e hdr result server_error_text None None) st1) (Close e a)
         else case pDbConn of
                None \<Rightarrow> Inl MemFault
              | Some d \<Rightarrow> parsed (pb_LoginReq (e_login e)) img (\<lambda>msg. start_validation e a hdr d msg st1) st1))"

definition HandleLoginOutRequest :: "env \<Rightarrow> nat \<Rightarrow> pdu_header \<Rightarrow> msg_op" where
  "HandleLoginOutRequest e a hdr st =
     bindR (deref a (ms_conns st)) (\<lambda>c.
     bindR (if_db e (\<lambda>d. to_db e d (answer hdr SID_LOGIN CID_LOGIN_REQ_DEVICETOKEN (pb_ser (pb_DeviceTokenReq (e_login e))
              \<lparr>dt_user_id = mc_user_id c, dt_device_token = [], dt_client_type = None, dt_attach_data = None\<rparr>))) st) (\<lambda>st1.
     bindR (to_client e a (answer hdr SID_LOGIN CID_LOGIN_RES_LOGINOUT (pb_ser (pb_LogoutRsp (e_login e)) 0)) st1)
       (Close e a)))"

definition HandleKickPCClient :: "env \<Rightarrow> nat \<Rightarrow> pdu_header \<Rightarrow> bytes \<Rightarrow> msg_op" where
  "HandleKickPCClient e a hdr img st =
     parsed (pb_KickPCClientReq (e_login e)) img (\<lambda>_.
       bindR (deref a (ms_conns st)) (\<lambda>c.
         let user_id = mc_user_id c
         in if \<not> CHECK_CLIENT_TYPE_MOBILE (mc_client_type c) then Inr st
            else bindR (to_user user_id (\<lambda>u. KickOutSameClientType e u CLIENT_TYPE_MAC KICK_REASON_MOBILE_KICK (Some a)) st) (\<lambda>st1.
                 bindR (if_route e (wire_pdu SID_OTHER CID_OTHER_SERVER_KICK_USER 0 (pb_ser (pb_ServerKickUser (e_server e))
                          \<lparr>sk_user_id = user_id, sk_client_type = CLIENT_TYPE_MAC, sk_reason = KICK_REASON_MOBILE_KICK\<rparr>)) st1)
                   (to_client e a (answer hdr SID_LOGIN CID_LOGIN_RES_KICKPCCLIENT
                      (pb_ser (pb_KickPCClientRsp (e_login e)) \<lparr>kp_user_id = user_id, kp_result_code = 0\<rparr>)))))) st"

text \<open>\<open>CID_LOGIN_RES_DEVICETOKEN\<close> is sent without any field, because the fields are set in the request.\<close>

definition HandleClientDeviceToken :: "env \<Rightarrow> nat \<Rightarrow> pdu_header \<Rightarrow> bytes \<Rightarrow> msg_op" where
  "HandleClientDeviceToken e a hdr img st =
     bindR (deref a (ms_conns st)) (\<lambda>c.
       if \<not> CHECK_CLIENT_TYPE_MOBILE (mc_client_type c) then Inr st
       else parsed (pb_DeviceTokenReq (e_login e)) img (\<lambda>msg.
         bindR (to_client e a (answer hdr SID_LOGIN CID_LOGIN_RES_DEVICETOKEN []) st)
           (if_db e (\<lambda>d. to_db e d (rebuilt hdr (pb_ser (pb_DeviceTokenReq (e_login e))
              (msg\<lparr>dt_user_id := mc_user_id c, dt_client_type := Some (mc_client_type c)\<rparr>)))))) st)"

section \<open>Messages\<close>

definition HandleClientMsgData :: "env \<Rightarrow> nat \<Rightarrow> pdu_header \<Rightarrow> bytes \<Rightarrow> msg_op" where
  "HandleClientMsgData e a hdr img st =
     parsed (pb_MsgData (e_message e)) img (\<lambda>msg.
       bindR (deref a (ms_conns st)) (\<lambda>c.
         if md_msg_data msg = [] then Inr st
         else if mc_msg_cnt_per_sec c \<ge> MAX_MSG_CNT_PER_SECOND then Inr st
         else if md_from_user_id msg = md_to_session_id msg \<and> CHECK_MSG_TYPE_SINGLE (md_msg_type msg) then Inr st
         else bindR (on_conn a (\<lambda>c. c\<lparr>mc_msg_cnt_per_sec := mc_msg_cnt_per_sec c + 1\<rparr>) st) (\<lambda>st1.
              bindR (handle_attach e (mc_handle c)) (\<lambda>att.
                if_db e (\<lambda>d. to_db e d (rebuilt hdr (pb_ser (pb_MsgData (e_message e))
                  (msg\<lparr>md_from_user_id := mc_user_id c, md_create_time := e_time e, md_attach_data := Some att\<rparr>)))) st1)))) st"

definition HandleClientMsgDataAck :: "env \<Rightarrow> nat \<Rightarrow> bytes \<Rightarrow> msg_op" where
  "HandleClientMsgDataAck e a img st =
     parsed (pb_MsgDataAck (e_message e)) img (\<lambda>msg.
       if mm_session_type msg = SESSION_TYPE_SINGLE then DelFromSendList a (mm_msg_id msg) (mm_session_id msg) st
       else Inr st) st"

definition HandleClientTimeRequest :: "env \<Rightarrow> nat \<Rightarrow> pdu_header \<Rightarrow> msg_op" where
  "HandleClientTimeRequest e a hdr =
     to_client e a (answer hdr SID_MSG CID_MSG_TIME_RESPONSE (pb_ser (pb_ClientTimeRsp (e_message e)) (e_time e)))"

text \<open>A request that is stamped with user id and handle and goes to a database connection, if there is one.\<close>

definition db_request :: "env \<Rightarrow> nat option msg_get \<Rightarrow> (env \<Rightarrow> u32 \<Rightarrow> bytes res) \<Rightarrow> 'x req_msg_scheme pb \<Rightarrow> nat \<Rightarrow> pdu_header \<Rightarrow> bytes \<Rightarrow> msg_op" where
  "db_request e get attach p a hdr img st =
     parsed p img (\<lambda>msg. with_conn get Inr (forward_request e attach a hdr p (stamped msg)) st) st"

text \<open>The same without an attachment.\<close>

definition db_request_plain :: "env \<Rightarrow> 'x req_msg_scheme pb \<Rightarrow> nat \<Rightarrow> pdu_header \<Rightarrow> bytes \<Rightarrow> msg_op" where
  "db_request_plain e p a hdr img st =
     parsed p img (\<lambda>msg. if_db e (forward_request e handle_attach a hdr p (\<lambda>user_id _. msg\<lparr>rq_user_id := user_id\<rparr>)) st) st"

definition HandleClientGetMsgListRequest :: "env \<Rightarrow> nat \<Rightarrow> pdu_header \<Rightarrow> bytes \<Rightarrow> msg_op" where
  "HandleClientGetMsgListRequest e = db_request e (get_db_serv_conn_for_login e) handle_attach (pb_GetMsgListReq (e_message e))"

definition HandleClientGetMsgByMsgIdRequest :: "env \<Rightarrow> nat \<Rightarrow> pdu_header \<Rightarrow> bytes \<Rightarrow> msg_op" where
  "HandleClientGetMsgByMsgIdRequest e = db_request e (get_db_serv_conn_for_login e) handle_attach (pb_GetMsgByIdReq (e_message e))"

definition HandleClientUnreadMsgCntRequest :: "env \<Rightarrow> nat \<Rightarrow> pdu_header \<Rightarrow> bytes \<Rightarrow> msg_op" where
  "HandleClientUnreadMsgCntRequest e = db_request e (get_db_serv_conn_for_login e) handle_attach (pb_UnreadMsgCntReq (e_message e))"

definition HandleClientGetLatestMsgIDReq :: "env \<Rightarrow> nat \<Rightarrow> pdu_header \<Rightarrow> bytes \<Rightarrow> msg_op" where
  "HandleClientGetLatestMsgIDReq e = db_request e (get_db_serv_conn e) handle_attach (pb_GetLatestMsgIdReq (e_message e))"

definition HandleClientMsgReadAck :: "env \<Rightarrow> nat \<Rightarrow> pdu_header \<Rightarrow> bytes \<Rightarrow> msg_op" where
  "HandleClientMsgReadAck e a hdr img st =
     parsed (pb_MsgDataReadAck (e_message e)) img (\<lambda>msg.
       bindR (deref a (ms_conns st)) (\<lambda>c.
         let user_id = mc_user_id c;
             pdu = wire_pdu SID_MSG CID_MSG_READ_NOTIFY 0 (pb_ser (pb_MsgDataReadNotify (e_message e))
               \<lparr>mm_user_id = user_id, mm_session_id = mm_session_id msg, mm_msg_id = mm_msg_id msg, mm_session_type = mm_session_type msg\<rparr>)
         in bindR (if_db e (\<lambda>d. to_db e d (rebuilt hdr (pb_ser (pb_MsgDataReadAck (e_message e)) (msg\<lparr>mm_user_id := user_id\<rparr>)))) st) (\<lambda>st1.
            bindR (to_user user_id (\<lambda>u. BroadcastPdu e u pdu (Some a)) st1) (\<lambda>st2.
            bindR (if_route e pdu st2) (\<lambda>st3.
              if mm_session_type msg = SESSION_TYPE_SINGLE then DelFromSendList a (mm_msg_id msg) (mm_session_id msg) st3
              else Inr st3))))) st"

definition HandleClientP2PCmdMsg :: "env \<Rightarrow> nat \<Rightarrow> bytes \<Rightarrow> msg_op" where
  "HandleClientP2PCmdMsg e a img st =
     parsed (pb_P2PCmdMsg (e_message e)) img (\<lambda>msg.
       bindR (deref a (ms_conns st)) (\<lambda>c.
       bindR (to_user (mc_user_id c) (\<lambda>u. BroadcastPdu e u img (Some a)) st) (\<lambda>st1.
       bindR (to_user (pc_to_user_id msg) (\<lambda>u. BroadcastPdu e u img None) st1) (if_route e img)))) st"

section \<open>Contacts\<close>

text \<open>Here the connection is chosen before the message is parsed.\<close>

definition HandleClientRecentContactSessionRequest :: "env \<Rightarrow> nat \<Rightarrow> pdu_header \<Rightarrow> bytes \<Rightarrow> msg_op" where
  "HandleClientRecentContactSessionRequest e a hdr img =
     with_conn (get_db_serv_conn_for_login e) Inr (\<lambda>d st.
       parsed (pb_RecentContactSessionReq (e_buddy e)) img (\<lambda>msg.
         forward_request e handle_attach a hdr (pb_RecentContactSessionReq (e_buddy e)) (stamped msg) d st) st)"

definition HandleClientUserInfoRequest :: "env \<Rightarrow> nat \<Rightarrow> pdu_header \<Rightarrow> bytes \<Rightarrow> msg_op" where
  "HandleClientUserInfoRequest e = db_request e (get_db_serv_conn_for_login e) handle_attach (pb_UsersInfoReq (e_buddy e))"

definition HandleClientRemoveSessionRequest :: "env \<Rightarrow> nat \<Rightarrow> pdu_header \<Rightarrow> bytes \<Rightarrow> msg_op" where
  "HandleClientRemoveSessionRequest e a hdr img st =
     parsed (pb_RemoveSessionReq (e_buddy e)) img (\<lambda>msg.
       bindR (if_db e (forward_request e handle_attach a hdr (pb_RemoveSessionReq (e_buddy e)) (stamped msg)) st) (\<lambda>st1.
         if sn_session_type msg \<noteq> SESSION_TYPE_SINGLE then Inr st1
         else bindR (deref a (ms_conns st1)) (\<lambda>c.
                let pdu = wire_pdu SID_BUDDY_LIST CID_BUDDY_LIST_REMOVE_SESSION_NOTIFY 0 (pb_ser (pb_RemoveSessionNotify (e_buddy e))
                      \<lparr>rn_user_id = mc_user_id c, rn_session_id = sn_session_id msg, rn_session_type = sn_session_type msg\<rparr>)
                in bindR (to_user (mc_user_id c) (\<lambda>u. BroadcastPdu e u pdu (Some a)) st1) (if_route e pdu)))) st"

definition HandleClientAllUserRequest :: "env \<Rightarrow> nat \<Rightarrow> pdu_header \<Rightarrow> bytes \<Rightarrow> msg_op" where
  "HandleClientAllUserRequest e = db_request e (get_db_serv_conn e) handle_attach (pb_AllUserReq (e_buddy e))"

definition HandleChangeAvatarRequest :: "env \<Rightarrow> nat \<Rightarrow> pdu_header \<Rightarrow> bytes \<Rightarrow> msg_op" where
  "HandleChangeAvatarRequest e = db_request_plain e (pb_ChangeAvatarReq (e_buddy e))"

definition HandleClientUsersStatusRequest :: "env \<Rightarrow> nat \<Rightarrow> pdu_header \<Rightarrow> bytes \<Rightarrow> msg_op" where
  "HandleClientUsersStatusRequest e a hdr img st =
     parsed (pb_BuddyUsersStatReq (e_buddy e)) img (\<lambda>msg.
       bindR (deref a (ms_conns st)) (\<lambda>c.
       bindR (pdu_handle_attach e (mc_handle c)) (\<lambda>att.
         if_route e (rebuilt hdr (pb_ser (pb_BuddyUsersStatReq (e_buddy e))
           (msg\<lparr>sr_user_id := mc_user_id c, sr_attach_data := att\<rparr>))) st))) st"

definition HandleClientDepartmentRequest :: "env \<Rightarrow> nat \<Rightarrow> pdu_header \<Rightarrow> bytes \<Rightarrow> msg_op" where
  "HandleClientDepartmentRequest e = db_request e (get_db_serv_conn e) handle_attach (pb_DepartmentReq (e_buddy e))"

definition HandleChangeSignInfoRequest :: "env \<Rightarrow> nat \<Rightarrow> pdu_header \<Rightarrow> bytes \<Rightarrow> msg_op" where
  "HandleChangeSignInfoRequest e = db_request e (get_db_serv_conn e) pdu_handle_attach (pb_ChangeSignInfoReq (e_buddy e))"

definition HandlePushShieldRequest :: "env \<Rightarrow> nat \<Rightarrow> pdu_header \<Rightarrow> bytes \<Rightarrow> msg_op" where
  "HandlePushShieldRequest e = db_request e (get_db_serv_conn e) pdu_handle_attach (pb_PushShieldReq (e_login e))"

definition HandleQueryPushShieldRequest :: "env \<Rightarrow> nat \<Rightarrow> pdu_header \<Rightarrow> bytes \<Rightarrow> msg_op" where
  "HandleQueryPushShieldRequest e = db_request e (get_db_serv_conn e) pdu_handle_attach (pb_QueryPushShieldReq (e_login e))"

definition HandleReqVisibleRange :: "env \<Rightarrow> nat \<Rightarrow> pdu_header \<Rightarrow> bytes \<Rightarrow> msg_op" where
  "HandleReqVisibleRange e = db_request_plain e (pb_RelationListREQ (e_login e))"

section \<open>Dispatch\<close>

text \<open>The \<open>switch\<close> of \<open>HandlePdu\<close> as a table from command ids to handlers.\<close>

definition client_handlers :: "env \<Rightarrow> nat \<Rightarrow> pdu_header \<Rightarrow> bytes \<Rightarrow> (u16, msg_op) assoc" where
  "client_handlers e a hdr img =
     [(CID_OTHER_HEARTBEAT, HandleHeartBeat e a img),
      (CID_LOGIN_REQ_USERLOGIN, HandleLoginRequest e a hdr img),
      (CID_LOGIN_REQ_LOGINOUT, HandleLoginOutRequest e a hdr),
      (CID_LOGIN_REQ_DEVICETOKEN, HandleClientDeviceToken e a hdr img),
      (CID_LOGIN_REQ_KICKPCCLIENT, HandleKickPCClient e a hdr img),
      (CID_LOGIN_REQ_PUSH_SHIELD, HandlePushShieldRequest e a hdr img),
      (CID_LOGIN_REQ_QUERY_PUSH_SHIELD, HandleQueryPushShieldRequest e a hdr img),
      (CID_LOGIN_REQ_VISIBLE_RANGE, HandleReqVisibleRange e a hdr img),
      (CID_MSG_DATA, HandleClientMsgData e a hdr img),
      (CID_MSG_DATA_ACK, HandleClientMsgDataAck e a img),
      (CID_MSG_TIME_REQUEST, HandleClientTimeRequest e a hdr),
      (CID_MSG_LIST_REQUEST, HandleClientGetMsgListRequest e a hdr img),
      (CID_MSG_GET_BY_MSG_ID_REQ, HandleClientGetMsgByMsgIdRequest e a hdr img),
      (CID_MSG_UNREAD_CNT_REQUEST, HandleClientUnreadMsgCntRequest e a hdr img),
      (CID_MSG_READ_ACK, HandleClientMsgReadAck e a hdr img),
      (CID_MSG_GET_LATEST_MSG_ID_REQ, HandleClientGetLatestMsgIDReq e a hdr img),
      (CID_SWITCH_P2P_CMD, HandleClientP2PCmdMsg e a img),
      (CID_BUDDY_LIST_RECENT_CONTACT_SESSION_REQUEST, HandleClientRecentContactSessionRequest e a hdr img),
      (CID_BUDDY_LIST_USER_INFO_REQUEST, HandleClientUserInfoRequest e a hdr img),
      (CID_BUDDY_LIST_REMOVE_SESSION_REQ, HandleClientRemoveSessionRequest e a hdr img),
      (CID_BUDDY_LIST_ALL_USER_REQUEST, HandleClientAllUserRequest e a hdr img),
      (CID_BUDDY_LIST_CHANGE_AVATAR_REQUEST, HandleChangeAvatarRequest e a hdr img),
      (CID_BUDDY_LIST_CHANGE_SIGN_INFO_REQUEST, HandleChangeSignInfoRequest e a hdr img),
      (CID_BUDDY_LIST_USERS_STATUS_REQUEST, HandleClientUsersStatusRequest e a hdr img),
      (CID_BUDDY_LIST_DEPARTMENT_REQUEST, HandleClientDepartmentRequest e a hdr img),
      (CID_GROUP_NORMAL_LIST_REQUEST, HandleClientGroupNormalRequest e hdr img a),
      (CID_GROUP_INFO_REQUEST, HandleClientGroupInfoRequest e hdr img a),
      (CID_GROUP_CREATE_REQUEST, HandleClientGroupCreateRequest e hdr img a),
      (CID_GROUP_CHANGE_MEMBER_REQUEST, HandleClientGroupChangeMemberRequest e hdr img a),
      (CID_GROUP_SHIELD_GROUP_REQUEST, HandleClientGroupShieldGroupRequest e hdr img a),
      (CID_FILE_REQUEST, HandleClientFileRequest e hdr img a),
      (CID_FILE_HAS_OFFLINE_REQ, HandleClientFileHasOfflineReq e hdr img a),
      (CID_FILE_ADD_OFFLINE_REQ, HandleClientFileAddOfflineReq e hdr img a),
      (CID_FILE_DEL_OFFLINE_REQ, HandleClientFileDelOfflineReq e hdr img a),
      (CID_FILE_Notify_Ack, HandleNotifyAck e hdr img)]"

text \<open>The method that runs for a command; an unknown command is only logged.\<close>

definition run_handler :: "(u16, msg_op) assoc \<Rightarrow> u16 \<Rightarrow> msg_op" where
  "run_handler table cid st = (case map_of table cid of None \<Rightarrow> Inr st | Some h \<Rightarrow> h st)"

definition HandlePdu :: "env \<Rightarrow> nat \<Rightarrow> pdu_header \<Rightarrow> bytes \<Rightarrow> msg_op" where
  "HandlePdu e a hdr img st =
     bindR (deref a (ms_conns st)) (\<lambda>c.
       if h_command_id hdr \<noteq> CID_LOGIN_REQ_USERLOGIN \<and> \<not> mc_open c \<and> mc_kick_off c
       then Inl (PduException (ucast (h_service_id hdr)) (ucast (h_command_id hdr)) ERROR_CODE_WRONG_SERVICE_ID
                   ''HandlePdu error, user not login. '')
       else run_handler (client_handlers e a hdr img) (h_command_id hdr) st)"

text \<open>
  \<open>CImConn::OnRead\<close> once the received bytes are framed: the PDUs are handled in turn; an exception ends the loop and
  closes the connection, as a broken frame does. Every handler throws before it has changed anything, so the state of an
  exception is the one before the handler.
\<close>

fun run_pdus :: "(pdu_header \<Rightarrow> bytes \<Rightarrow> msg_op) \<Rightarrow> (pdu_header \<times> bytes) list \<Rightarrow> msg_server \<Rightarrow> msg_server \<times> err option" where
  "run_pdus h [] st = (st, None)"
| "run_pdus h (f # fs) st =
     (case h (fst f) (snd f) st of Inl ex \<Rightarrow> (st, Some ex) | Inr st' \<Rightarrow> run_pdus h fs st')"

definition read_pdus :: "(pdu_header \<Rightarrow> bytes \<Rightarrow> msg_op) \<Rightarrow> msg_op \<Rightarrow> (pdu_header \<times> bytes) list \<Rightarrow> bool \<Rightarrow> msg_op" where
  "read_pdus h close fs bad st =
     (case run_pdus h fs st of
        (st1, None) \<Rightarrow> if bad then close st1 else Inr st1
      | (st1, Some ex) \<Rightarrow> if thrown ex then close st1 else Inl ex)"

definition msg_OnRead :: "env \<Rightarrow> (pdu_header \<times> bytes) list \<Rightarrow> bool \<Rightarrow> nat \<Rightarrow> msg_op" where
  "msg_OnRead e fs bad a st =
     bindR (on_conn a (\<lambda>c. c\<lparr>mc_last_recv_tick := e_now e\<rparr>) st)
       (read_pdus (HandlePdu e a) (OnClose e a) fs bad)"

section \<open>Callbacks\<close>

fun timer_loop :: "env \<Rightarrow> u64 \<Rightarrow> conn_map \<Rightarrow> msg_op" where
  "timer_loop e cur_time [] st = Inr st"
| "timer_loop e cur_time (p # ps) st = bindR (OnTimer e cur_time (snd p) st) (timer_loop e cur_time ps)"

definition msg_conn_timer_callback :: "env \<Rightarrow> msg_op" where
  "msg_conn_timer_callback e st =
     bindR (timer_loop e (e_now e) (g_msg_conn_map st) st) (\<lambda>st1.
       Inr (if e_now e > g_last_stat_tick st1 + LOG_MSG_STAT_INTERVAL then st1\<lparr>g_last_stat_tick := e_now e\<rparr> else st1))"

definition signal_handler_usr1 :: "msg_server \<Rightarrow> msg_server" where
  "signal_handler_usr1 st = st\<lparr>g_down_msg_total_cnt := 0, g_down_msg_miss_cnt := 0\<rparr>"

definition msg_serv_callback :: "env \<Rightarrow> u32 \<Rightarrow> msg_op" where
  "msg_serv_callback e handle st =
     (let (a, h) = new_obj (CMsgConn e) (ms_conns st) in OnConnect e a handle (st\<lparr>ms_conns := h\<rparr>))"

text \<open>\<open>imconn_callback\<close> on the clients' map.\<close>

definition client_dispatch :: "(netlib_msg \<Rightarrow> nat \<Rightarrow> msg_op) \<Rightarrow> netlib_msg \<Rightarrow> u32 \<Rightarrow> msg_op" where
  "client_dispatch on msg handle st =
     imconn_callback conn_add_ref conn_release on (Some (g_msg_conn_map st)) msg handle st"

end
