(* ===== verification/DBServConn.thy ===== *)
theory DBServConn
  imports MsgConn
begin

text \<open>
  Connections to the database proxies (\<open>msg_server/DBServConn.cpp\<close>): the result of a login, the responses that go back to
  the client that asked, messages that have been stored and are now delivered, and push notifications
  (\<open>PushServConn.cpp\<close>).
\<close>

section \<open>The result of a login\<close>

definition admit_conn :: "env \<Rightarrow> nat \<Rightarrow> pdu_header \<Rightarrow> IMValidateRsp \<Rightarrow> nat \<Rightarrow> msg_op" where
  "admit_conn e u hdr msg a st =
     (let info = vr_user_info msg; user_id = ui_user_id info
      in bindR (on_user u (\<lambda>x. x\<lparr>iu_user_id := user_id, iu_nick_name := ui_user_nick_name info, iu_validate := True\<rparr>) st) (\<lambda>st1.
         let st2 = AddImUserById user_id u st1
         in bindR (deref a (ms_conns st2)) (\<lambda>c.
            bindR (KickOutSameClientType e u (mc_client_type c) KICK_REASON_DUPLICATE_USER (Some a) st2) (\<lambda>st3.
            bindR (if_route e (wire_pdu SID_OTHER CID_OTHER_SERVER_KICK_USER 0 (pb_ser (pb_ServerKickUser (e_server e))
                     \<lparr>sk_user_id = user_id, sk_client_type = mc_client_type c, sk_reason = 1\<rparr>)) st3) (\<lambda>st4.
            bindR (on_conn a (\<lambda>c. c\<lparr>mc_user_id := user_id, mc_open := True\<rparr>) st4) (\<lambda>st5.
            bindR (SendUserStatusUpdate e a USER_STATUS_ONLINE st5) (\<lambda>st6.
            bindR (on_user u (ValidateMsgConn (mc_handle c) a) st6)
              (to_client e a (login_res e hdr REFUSE_REASON_NONE (vr_result_string msg) (Some (mc_online_status c)) (Some info))))))))))"

text \<open>
  The connection may belong to a user object that was made for another login name of the same user: it moves to the
  object registered under the user id, and the object of the login name is deleted when it has no connection.
\<close>

definition merge_user :: "nat \<Rightarrow> nat \<Rightarrow> string \<Rightarrow> u32 \<Rightarrow> nat msg_get" where
  "merge_user pImUser a login_name user_id st =
     (case GetImUserById user_id st of
        None \<Rightarrow> Inr (pImUser, st)
      | Some pUser \<Rightarrow>
          bindR (on_user pUser (AddUnValidateMsgConn a) st) (\<lambda>st1.
          bindR (on_user pImUser (DelUnValidateMsgConn a) st1) (\<lambda>st2.
          bindR (deref pImUser (ms_users st2)) (\<lambda>x.
            if IsMsgConnEmpty x
            then bindR (delete_user pImUser (RemoveImUserByLoginName login_name st2)) (\<lambda>st3. Inr (pUser, st3))
            else Inr (pUser, st2)))))"

definition HandleValidateResponse :: "env \<Rightarrow> pdu_header \<Rightarrow> bytes \<Rightarrow> msg_op" where
  "HandleValidateResponse e hdr img st =
     parsed (pb_ValidateRsp (e_server e)) img (\<lambda>msg.
       bindR (attach_handle (vr_attach_data msg)) (\<lambda>handle.
         case GetImUserByLoginName (vr_user_name msg) st of
           None \<Rightarrow> Inr st
         | Some pImUser \<Rightarrow>
             bindR (deref pImUser (ms_users st)) (\<lambda>x.
             bindR (GetUnValidateMsgConn handle x st) (\<lambda>r.
               case r of
                 None \<Rightarrow> Inr st
               | Some a \<Rightarrow>
                   bindR (deref a (ms_conns st)) (\<lambda>c.
                     if mc_open c then Inr st
                     else if vr_result_code msg = 0
                     then bindR (merge_user pImUser a (vr_user_name msg) (ui_user_id (vr_user_info msg)) st) (\<lambda>(pUser, st1).
                            admit_conn e pUser hdr msg a st1)
                     else bindR (to_client e a (login_res e hdr REFUSE_REASON_DB_VALIDATE_FAILED (vr_result_string msg) None None) st)
                            (Close e a)))))) st"

section \<open>Responses\<close>

text \<open>A response for one connection: it is sent when the connection is still there and open.\<close>

definition db_response :: "env \<Rightarrow> 'x rsp_msg_scheme pb \<Rightarrow> pdu_header \<Rightarrow> bytes \<Rightarrow> msg_op" where
  "db_response e p hdr img st = parsed p img (\<lambda>msg. answer_client e True hdr p msg st) st"

definition HandleRecentSessionResponse :: "env \<Rightarrow> pdu_header \<Rightarrow> bytes \<Rightarrow> msg_op" where
  "HandleRecentSessionResponse e = db_response e (pb_RecentContactSessionRsp (e_buddy e))"

definition HandleAllUserResponse :: "env \<Rightarrow> pdu_header \<Rightarrow> bytes \<Rightarrow> msg_op" where
  "HandleAllUserResponse e = db_response e (pb_AllUserRsp (e_buddy e))"

definition HandleGetMsgListResponse :: "env \<Rightarrow> pdu_header \<Rightarrow> bytes \<Rightarrow> msg_op" where
  "HandleGetMsgListResponse e = db_response e (pb_GetMsgListRsp (e_message e))"

definition HandleGetMsgByIdResponse :: "env \<Rightarrow> pdu_header \<Rightarrow> bytes \<Rightarrow> msg_op" where
  "HandleGetMsgByIdResponse e = db_response e (pb_GetMsgByIdRsp (e_message e))"

definition HandleGetLatestMsgIDRsp :: "env \<Rightarrow> pdu_header \<Rightarrow> bytes \<Rightarrow> msg_op" where
  "HandleGetLatestMsgIDRsp e = db_response e (pb_GetLatestMsgIdRsp (e_message e))"

definition HandleUnreadMsgCountResponse :: "env \<Rightarrow> pdu_header \<Rightarrow> bytes \<Rightarrow> msg_op" where
  "HandleUnreadMsgCountResponse e = db_response e (pb_UnreadMsgCntRsp (e_message e))"

definition HandleUsersInfoResponse :: "env \<Rightarrow> pdu_header \<Rightarrow> bytes \<Rightarrow> msg_op" where
  "HandleUsersInfoResponse e = db_response e (pb_UsersInfoRsp (e_buddy e))"

definition HandleRemoveSessionResponse :: "env \<Rightarrow> pdu_header \<Rightarrow> bytes \<Rightarrow> msg_op" where
  "HandleRemoveSessionResponse e = db_response e (pb_RemoveSessionRsp (e_buddy e))"

definition HandleDepartmentResponse :: "env \<Rightarrow> pdu_header \<Rightarrow> bytes \<Rightarrow> msg_op" where
  "HandleDepartmentResponse e = db_response e (pb_DepartmentRsp (e_buddy e))"

definition HandlePushShieldResponse :: "env \<Rightarrow> pdu_header \<Rightarrow> bytes \<Rightarrow> msg_op" where
  "HandlePushShieldResponse e = db_response e (pb_PushShieldRsp (e_login e))"

definition HandleQueryPushShieldResponse :: "env \<Rightarrow> pdu_header \<Rightarrow> bytes \<Rightarrow> msg_op" where
  "HandleQueryPushShieldResponse e = db_response e (pb_QueryPushShieldRsp (e_login e))"

definition HandleChangeSignInfoResponse :: "env \<Rightarrow> pdu_header \<Rightarrow> bytes \<Rightarrow> msg_op" where
  "HandleChangeSignInfoResponse e hdr img st =
     parsed (pb_ChangeSignInfoRsp (e_buddy e)) img (\<lambda>msg.
       bindR (answer_client e True hdr (pb_ChangeSignInfoRsp (e_buddy e)) msg st) (\<lambda>st1.
         if rp_result_code msg = 0
         then if_route e (wire_pdu SID_BUDDY_LIST CID_BUDDY_LIST_SIGN_INFO_CHANGED_NOTIFY 0
                (pb_ser (pb_SignInfoChangedNotify (e_buddy e)) (rp_user_id msg, cs_sign_info msg))) st1
         else Inr st1)) st"

definition HandleChangeAvatarResponse :: "env \<Rightarrow> pdu_header \<Rightarrow> bytes \<Rightarrow> msg_op" where
  "HandleChangeAvatarResponse e hdr img st =
     parsed (pb_ChangeAvatarRsp (e_buddy e)) img (\<lambda>msg.
       to_user (rp_user_id msg) (\<lambda>u. BroadcastPdu e u
         (rebuilt hdr (pb_ser (pb_ChangeAvatarRsp (e_buddy e)) (msg\<lparr>rp_attach_data := None\<rparr>))) None) st) st"

definition HandleSetDeviceTokenResponse :: "env \<Rightarrow> bytes \<Rightarrow> msg_op" where
  "HandleSetDeviceTokenResponse e img st = parsed (pb_DeviceTokenRsp (e_login e)) img (\<lambda>_. Inr st) st"

definition HandleStopReceivePacket :: "nat \<Rightarrow> msg_op" where
  "HandleStopReceivePacket d =
     on_db (\<lambda>b. bindR (deref d (b_heap b)) (\<lambda>c.
       if sv_serv_idx c < length (b_server_list b)
       then Inr (b\<lparr>b_heap := set_obj d (c\<lparr>sv_open := False\<rparr>) (b_heap b)\<rparr>, []) else Inl MemFault))"

section \<open>Delivery of a stored message\<close>

definition HandleMsgData :: "env \<Rightarrow> nat \<Rightarrow> pdu_header \<Rightarrow> bytes \<Rightarrow> msg_op" where
  "HandleMsgData e d hdr img st =
     parsed (pb_MsgData (e_message e)) img (\<lambda>msg.
       if CHECK_MSG_TYPE_GROUP (md_msg_type msg) then HandleGroupMessage e hdr img st
       else let from_id = md_from_user_id msg; to_id = md_to_session_id msg; msg_id = md_msg_id msg
            in if msg_id = 0 then Inr st
               else bindR (attach_handle (md_attach_data msg)) (\<lambda>handle.
                    bindR (GetMsgConnByHandle from_id handle st) (\<lambda>pMsgConn.
                    bindR (case pMsgConn of
                             None \<Rightarrow> Inr st
                           | Some a \<Rightarrow> to_client e a (answer hdr SID_MSG CID_MSG_DATA_ACK (pb_ser (pb_MsgDataAck (e_message e))
                               \<lparr>mm_user_id = from_id, mm_session_id = to_id, mm_msg_id = msg_id, mm_session_type = SESSION_TYPE_SINGLE\<rparr>)) st) (\<lambda>st1.
                    bindR (if_route e img st1) (\<lambda>st2.
                      let body = pb_ser (pb_MsgData (e_message e)) (msg\<lparr>md_attach_data := None\<rparr>);
                          pdu = pdu_bytes ((pdu_of hdr body)\<lparr>p_seq_num := 0\<rparr>)
                      in bindR (to_user from_id (\<lambda>u. BroadcastClientMsgData e u pdu msg_id pMsgConn from_id) st2) (\<lambda>st3.
                         bindR (to_user to_id (\<lambda>u. BroadcastClientMsgData e u pdu msg_id None from_id) st3)
                           (to_db e d (wire_pdu SID_OTHER CID_OTHER_GET_DEVICE_TOKEN_REQ 0 (pb_ser (pb_GetDeviceTokenReq (e_server e))
                              \<lparr>tq_user_id = [to_id], tq_attach_data = Some body\<rparr>))))))))) st"

section \<open>Push notifications\<close>

text \<open>\<open>string::find\<close>: the first position of a substring.\<close>

fun find_sub :: "'a list \<Rightarrow> 'a list \<Rightarrow> nat option" where
  "find_sub s sub =
     (if take (length sub) s = sub then Some 0
      else case s of [] \<Rightarrow> None | _ # s' \<Rightarrow> map_option Suc (find_sub s' sub))"

declare find_sub.simps [simp del]

abbreviation (input) utf8_got_message :: bytes where
  "utf8_got_message \<equiv> [0xE6, 0x82, 0xA8, 0xE6, 0x94, 0xB6, 0xE5, 0x88, 0xB0, 0xE4, 0xBA, 0x86, 0xE4, 0xB8, 0x80, 0xE6, 0x9D, 0xA1,
     0xE6, 0xB6, 0x88, 0xE6, 0x81, 0xAF]"
abbreviation (input) utf8_group_voice :: bytes where
  "utf8_group_voice \<equiv> [0xE5, 0x9C, 0xA8, 0xE7, 0xBE, 0xA4, 0xE8, 0x81, 0x8A, 0xE4, 0xB8, 0xAD, 0xE5, 0x8F, 0x91, 0xE9, 0x80, 0x81,
     0xE4, 0xBA, 0x86, 0xE4, 0xB8, 0x80, 0xE6, 0x9D, 0xA1, 0xE8, 0xAF, 0xAD, 0xE9, 0x9F, 0xB3, 0xE6, 0xB6, 0x88, 0xE6, 0x81, 0xAF]"
abbreviation (input) utf8_single_voice :: bytes where
  "utf8_single_voice \<equiv> [0xE7, 0xBB, 0x99, 0xE6, 0x82, 0xA8, 0xE5, 0x8F, 0x91, 0xE9, 0x80, 0x81,
     0xE4, 0xBA, 0x86, 0xE4, 0xB8, 0x80, 0xE6, 0x9D, 0xA1, 0xE8, 0xAF, 0xAD, 0xE9, 0x9F, 0xB3, 0xE6, 0xB6, 0x88, 0xE6, 0x81, 0xAF]"

abbreviation (input) IOS_PUSH_FLASH_MAX_LENGTH :: nat where "IOS_PUSH_FLASH_MAX_LENGTH \<equiv> 40"

definition build_ios_push_flash :: "bytes \<Rightarrow> u32 \<Rightarrow> u32 \<Rightarrow> msg_server \<Rightarrow> bytes res" where
  "build_ios_push_flash flash msg_type from_id st =
     (let picture = (case (find_sub flash (map of_char ''&$#@~^@[{:''), find_sub flash (map of_char '':}]&$~@#@'')) of
                       (Some p, Some s) \<Rightarrow> p < s | _ \<Rightarrow> False)
      in if picture then Inr utf8_got_message
         else case GetImUserById from_id st of
                None \<Rightarrow> Inr utf8_got_message
              | Some u \<Rightarrow>
                  bindR (deref u (ms_users st)) (\<lambda>x.
                    let text = (if msg_type = MSG_TYPE_GROUP_AUDIO then iu_nick_name x @ utf8_group_voice
                                else if msg_type = MSG_TYPE_SINGLE_AUDIO then iu_nick_name x @ utf8_single_voice
                                else iu_nick_name x @ map of_char '':'' @ flash)
                    in Inr (if length text > IOS_PUSH_FLASH_MAX_LENGTH - 3
                            then take (IOS_PUSH_FLASH_MAX_LENGTH - 3) text @ map of_char ''...'' else text)))"

text \<open>
  The loop over the device tokens. Tokens of users known here are collected for one push request; for the others the route server is
  asked first, with the push request as attachment.
\<close>

fun push_tokens :: "env \<Rightarrow> bytes \<Rightarrow> bytes \<Rightarrow> u32 \<Rightarrow> UserTokenInfo list \<Rightarrow> UserTokenInfo list msg_get" where
  "push_tokens e flash data from_id [] st = Inr ([], st)"
| "push_tokens e flash data from_id (t # ts) st =
     (if ut_user_id t = from_id then push_tokens e flash data from_id ts st
      else case GetImUserById (ut_user_id t) st of
             Some u \<Rightarrow>
               bindR (deref u (ms_users st)) (\<lambda>x.
               bindR (push_tokens e flash data from_id ts st) (\<lambda>(l, st1).
                 Inr (t\<lparr>ut_push_type := (if iu_pc_login_status x = IM_PC_LOGIN_STATUS_ON then IM_PUSH_TYPE_SILENT
                                        else IM_PUSH_TYPE_NORMAL)\<rparr> # l, st1)))
           | None \<Rightarrow>
               let body = pb_ser (pb_PushToUserReq (e_server e))
                     \<lparr>pu_flash = flash, pu_data = data, pu_user_token_list = [t\<lparr>ut_push_type := IM_PUSH_TYPE_NORMAL\<rparr>]\<rparr>
               in bindR (CPduAttachData_ser (e_fresh e) ATTACH_TYPE_PDU_FOR_PUSH 0 (of_nat (length body)) (Some body) 0) (\<lambda>att.
                  bindR (if_route e (wire_pdu SID_BUDDY_LIST CID_BUDDY_LIST_USERS_STATUS_REQUEST 0
                           (pb_ser (pb_BuddyUsersStatReq (e_buddy e))
                              \<lparr>sr_user_id = 0, sr_user_id_list = [ut_user_id t], sr_attach_data = att\<rparr>)) st)
                    (push_tokens e flash data from_id ts)))"

definition HandleGetDeviceTokenResponse :: "env \<Rightarrow> bytes \<Rightarrow> msg_op" where
  "HandleGetDeviceTokenResponse e img st =
     parsed (pb_GetDeviceTokenRsp (e_server e)) img (\<lambda>msg.
       case pb_par (pb_MsgData (e_message e)) (opt_bytes (tr_attach_data msg)) of
         (False, _) \<Rightarrow> Inr st
       | (True, msg2) \<Rightarrow>
           let msg_type = md_msg_type msg2; from_id = md_from_user_id msg2;
               text = (if msg_type = MSG_TYPE_SINGLE_TEXT \<or> msg_type = MSG_TYPE_GROUP_TEXT
                       then e_decrypt e (md_msg_data msg2) else Some (md_msg_data msg2))
           in case text of
                None \<Rightarrow> Inr st
              | Some msg_data \<Rightarrow>
                  bindR (build_ios_push_flash msg_data msg_type from_id st) (\<lambda>flash.
                    let data = e_json e msg_type from_id
                          (if CHECK_MSG_TYPE_GROUP msg_type then Some (md_to_session_id msg2) else None)
                    in bindR (push_tokens e flash data from_id (tr_user_token_info msg) st) (\<lambda>(tokens, st1).
                         if tokens = [] then Inr st1
                         else bindR (get_push_serv_conn st1) (\<lambda>p.
                           case p of
                             None \<Rightarrow> Inr st1
                           | Some p \<Rightarrow> to_push e p (wire_pdu SID_OTHER CID_OTHER_PUSH_TO_USER_REQ 0
                               (pb_ser (pb_PushToUserReq (e_server e))
                                  \<lparr>pu_flash = flash, pu_data = data, pu_user_token_list = tokens\<rparr>)) st1)))) st"

section \<open>Dispatch\<close>

definition db_handlers :: "env \<Rightarrow> nat \<Rightarrow> pdu_header \<Rightarrow> bytes \<Rightarrow> (u16, msg_op) assoc" where
  "db_handlers e d hdr img =
     [(CID_OTHER_HEARTBEAT, Inr),
      (CID_OTHER_VALIDATE_RSP, HandleValidateResponse e hdr img),
      (CID_LOGIN_RES_DEVICETOKEN, HandleSetDeviceTokenResponse e img),
      (CID_LOGIN_RES_PUSH_SHIELD, HandlePushShieldResponse e hdr img),
      (CID_LOGIN_RES_QUERY_PUSH_SHIELD, HandleQueryPushShieldResponse e hdr img),
      (CID_MSG_UNREAD_CNT_RESPONSE, HandleUnreadMsgCountResponse e hdr img),
      (CID_MSG_LIST_RESPONSE, HandleGetMsgListResponse e hdr img),
      (CID_MSG_GET_BY_MSG_ID_RES, HandleGetMsgByIdResponse e hdr img),
      (CID_MSG_DATA, HandleMsgData e d hdr img),
      (CID_MSG_GET_LATEST_MSG_ID_RSP, HandleGetLatestMsgIDRsp e hdr img),
      (CID_BUDDY_LIST_RECENT_CONTACT_SESSION_RESPONSE, HandleRecentSessionResponse e hdr img),
      (CID_BUDDY_LIST_ALL_USER_RESPONSE, HandleAllUserResponse e hdr img),
      (CID_BUDDY_LIST_USER_INFO_RESPONSE, HandleUsersInfoResponse e hdr img),
      (CID_BUDDY_LIST_REMOVE_SESSION_RES, HandleRemoveSessionResponse e hdr img),
      (CID_BUDDY_LIST_CHANGE_AVATAR_RESPONSE, HandleChangeAvatarResponse e hdr img),
      (CID_BUDDY_LIST_CHANGE_SIGN_INFO_RESPONSE, HandleChangeSignInfoResponse e hdr img),
      (CID_BUDDY_LIST_DEPARTMENT_RESPONSE, HandleDepartmentResponse e hdr img),
      (CID_OTHER_GET_DEVICE_TOKEN_RSP, HandleGetDeviceTokenResponse e img),
      (CID_OTHER_GET_SHIELD_RSP, HandleGroupGetShieldByGroupResponse e hdr img),
      (CID_OTHER_STOP_RECV_PACKET, HandleStopReceivePacket d),
      (CID_GROUP_NORMAL_LIST_RESPONSE, HandleGroupNormalResponse e hdr img),
      (CID_GROUP_INFO_RESPONSE, HandleGroupInfoResponse e hdr img),
      (CID_GROUP_CREATE_RESPONSE, HandleGroupCreateResponse e hdr img),
      (CID_GROUP_CHANGE_MEMBER_RESPONSE, HandleGroupChangeMemberResponse e hdr img),
      (CID_GROUP_SHIELD_GROUP_RESPONSE, HandleGroupShieldGroupResponse e hdr img),
      (CID_FILE_HAS_OFFLINE_RES, HandleFileHasOfflineRes e hdr img)]"

definition db_HandlePdu :: "env \<Rightarrow> nat \<Rightarrow> pdu_header \<Rightarrow> bytes \<Rightarrow> msg_op" where
  "db_HandlePdu e d hdr img = run_handler (db_handlers e d hdr img) (h_command_id hdr)"

definition db_Close :: "nat \<Rightarrow> msg_op" where
  "db_Close d = on_db (serv_Close False d)"

definition db_OnConfirm :: "nat \<Rightarrow> msg_op" where
  "db_OnConfirm d = on_db (\<lambda>b. bindR (serv_confirmed (\<lambda>c. c) d b) (\<lambda>b. Inr (b, [])))"

definition heartbeat :: "env \<Rightarrow> bytes" where
  "heartbeat e = wire_pdu SID_OTHER CID_OTHER_HEARTBEAT 0 (pb_ser (pb_SrvHeartBeat (e_server e)) ())"

definition db_OnTimer :: "env \<Rightarrow> u64 \<Rightarrow> nat \<Rightarrow> msg_op" where
  "db_OnTimer e curr_tick d = on_db (serv_OnTimer False (heartbeat e) (e_now e) curr_tick d)"

text \<open>What a back-end connection's \<open>OnRead\<close> records of the time.\<close>

definition serv_touch :: "u64 \<Rightarrow> nat \<Rightarrow> backend \<Rightarrow> (backend \<times> net_out list) res" where
  "serv_touch now a b =
     bindR (deref a (b_heap b)) (\<lambda>c. Inr (b\<lparr>b_heap := set_obj a (c\<lparr>sv_last_recv_tick := now\<rparr>) (b_heap b)\<rparr>, []))"

definition db_OnRead :: "env \<Rightarrow> (pdu_header \<times> bytes) list \<Rightarrow> bool \<Rightarrow> nat \<Rightarrow> msg_op" where
  "db_OnRead e fs bad d st =
     bindR (on_db (serv_touch (e_now e) d) st) (read_pdus (db_HandlePdu e d) (db_Close d) fs bad)"

text \<open>The timer skips connections that are not open.\<close>

fun db_timer_loop :: "env \<Rightarrow> u64 \<Rightarrow> conn_map \<Rightarrow> msg_op" where
  "db_timer_loop e cur_time [] st = Inr st"
| "db_timer_loop e cur_time (p # ps) st =
     bindR (deref (snd p) (b_heap (ms_db st))) (\<lambda>c.
     bindR (if sv_open c then db_OnTimer e cur_time (snd p) st else Inr st) (db_timer_loop e cur_time ps))"

definition db_server_conn_timer_callback :: "env \<Rightarrow> (nat \<Rightarrow> u32) \<Rightarrow> msg_op" where
  "db_server_conn_timer_callback e connect st =
     bindR (db_timer_loop e (e_now e) (b_conn_map (ms_db st)) st)
       (on_db (\<lambda>b. bindR (serv_check_reconnect connect (e_now e) b) (\<lambda>b. Inr (b, []))))"

text \<open>A division by zero ends the program like an access outside its memory.\<close>

definition init_db_serv_conn :: "env \<Rightarrow> (nat \<Rightarrow> u32) \<Rightarrow> serv_info_t list \<Rightarrow> nat \<Rightarrow> msg_op" where
  "init_db_serv_conn e connect server_list concur_conn_cnt st =
     bindR (if concur_conn_cnt = 0 then Inl MemFault
            else serv_init connect (e_now e) ((ms_db st)\<lparr>b_server_list := server_list\<rparr>)) (\<lambda>b.
       Inr (st\<lparr>ms_db := b, g_db_server_login_count := (length server_list div concur_conn_cnt div 2) * concur_conn_cnt\<rparr>))"

end
