(* ===== verification/RouteServConn.thy ===== *)
theory RouteServConn
  imports DBServConn
begin

text \<open>
  Connections to the route servers (\<open>msg_server/RouteServConn.cpp\<close>), of which one is the master, and the life cycle of the
  connections to login servers (\<open>LoginServConn.cpp\<close>), push servers (\<open>PushServConn.cpp\<close>) and file servers (\<open>FileServConn.cpp\<close>).
\<close>

section \<open>The master route server\<close>

text \<open>The connection that has been open for the longest time becomes the master and is told so.\<close>

definition update_master_route_serv_conn :: "env \<Rightarrow> msg_op" where
  "update_master_route_serv_conn e st =
     bindR (oldest_open (ms_route st) (b_server_list (ms_route st)) None (- 1)) (\<lambda>r.
       let st1 = st\<lparr>g_master_rs_conn := r\<rparr>
       in if_route e (wire_pdu SID_OTHER CID_OTHER_ROLE_SET 0 (pb_ser (pb_SrvRoleSet (e_server e)) 1)) st1)"

definition route_Close :: "env \<Rightarrow> nat \<Rightarrow> msg_op" where
  "route_Close e r st =
     bindR (on_route (serv_Close True r) st) (\<lambda>st1.
       if g_master_rs_conn st1 = Some r then update_master_route_serv_conn e st1 else Inr st1)"

definition route_OnConfirm :: "env \<Rightarrow> nat \<Rightarrow> msg_op" where
  "route_OnConfirm e r st =
     bindR (on_route (\<lambda>b. bindR (serv_confirmed (\<lambda>c. c\<lparr>sv_connect_time := e_now e\<rparr>) r b) (\<lambda>b. Inr (b, []))) st) (\<lambda>st1.
     bindR (if g_master_rs_conn st1 = None then update_master_route_serv_conn e st1 else Inr st1) (\<lambda>st2.
     bindR (GetOnlineUserInfo st2) (\<lambda>online_user_list.
       to_route e r (wire_pdu SID_OTHER CID_OTHER_ONLINE_USER_INFO 0 (pb_ser (pb_SrvOnlineUserInfo (e_server e)) online_user_list)) st2)))"

definition route_OnTimer :: "env \<Rightarrow> u64 \<Rightarrow> nat \<Rightarrow> msg_op" where
  "route_OnTimer e curr_tick r st =
     bindR (deref r (b_heap (ms_route st))) (\<lambda>c.
     bindR (if curr_tick > sv_last_send_tick c + SERVER_HEARTBEAT_INTERVAL then to_route e r (heartbeat e) st else Inr st) (\<lambda>st1.
       if curr_tick > sv_last_recv_tick c + SERVER_TIMEOUT then route_Close e r st1 else Inr st1))"

section \<open>Notifications from other message servers\<close>

definition HandleKickUser_route :: "env \<Rightarrow> bytes \<Rightarrow> msg_op" where
  "HandleKickUser_route e img st =
     parsed (pb_ServerKickUser (e_server e)) img (\<lambda>msg.
       to_user (sk_user_id msg) (\<lambda>u. KickOutSameClientType e u (sk_client_type msg) (sk_reason msg) None) st) st"

definition HandleStatusNotify :: "env \<Rightarrow> bytes \<Rightarrow> msg_op" where
  "HandleStatusNotify e img st =
     parsed (pb_BuddyUserStatNotify (e_buddy e)) img (\<lambda>_. manager_BroadcastPdu e img CLIENT_TYPE_FLAG_PC st) st"

definition HandleMsgData_route :: "env \<Rightarrow> pdu_header \<Rightarrow> bytes \<Rightarrow> msg_op" where
  "HandleMsgData_route e hdr img st =
     parsed (pb_MsgData (e_message e)) img (\<lambda>msg.
       if CHECK_MSG_TYPE_GROUP (md_msg_type msg) then HandleGroupMessageBroadcast e hdr img st
       else let from_id = md_from_user_id msg
            in bindR (to_user from_id (\<lambda>u. BroadcastClientMsgData e u img (md_msg_id msg) None from_id) st)
                 (to_user (md_to_session_id msg) (\<lambda>u. BroadcastClientMsgData e u img (md_msg_id msg) None from_id))) st"

definition HandleMsgReadNotify :: "env \<Rightarrow> bytes \<Rightarrow> msg_op" where
  "HandleMsgReadNotify e img st =
     parsed (pb_MsgDataReadNotify (e_message e)) img (\<lambda>msg. to_user (mm_user_id msg) (\<lambda>u. BroadcastPdu e u img None) st) st"

definition HandleP2PMsg :: "env \<Rightarrow> bytes \<Rightarrow> msg_op" where
  "HandleP2PMsg e img st =
     parsed (pb_P2PCmdMsg (e_message e)) img (\<lambda>msg.
       bindR (to_user (pc_from_user_id msg) (\<lambda>u. BroadcastPdu e u img None) st)
         (to_user (pc_to_user_id msg) (\<lambda>u. BroadcastPdu e u img None))) st"

text \<open>
  The answer to a status query, with three uses of its attachment: a client's own query, a push notification and a file transfer.
  The first entry of the list is read unconditionally in the last two.
\<close>

definition first_stat :: "IMUsersStatRsp \<Rightarrow> (u32 \<times> u32) res" where
  "first_stat msg = (case sp_user_stat_list msg of [] \<Rightarrow> Inl MemFault | s # _ \<Rightarrow> Inr s)"

definition push_after_query :: "env \<Rightarrow> u32 \<Rightarrow> bytes \<Rightarrow> msg_op" where
  "push_after_query e status body st =
     (case pb_par (pb_PushToUserReq (e_server e)) body of
        (False, _) \<Rightarrow> Inr st
      | (True, msg2) \<Rightarrow>
          (case pu_user_token_list msg2 of
             [] \<Rightarrow> Inl MemFault
           | t # ts \<Rightarrow>
               let msg2' = msg2\<lparr>pu_user_token_list := t\<lparr>ut_push_type := (if status = USER_STATUS_ONLINE then IM_PUSH_TYPE_SILENT
                                                           else IM_PUSH_TYPE_NORMAL)\<rparr> # ts\<rparr>
               in bindR (get_push_serv_conn st) (\<lambda>p.
                    case p of
                      None \<Rightarrow> Inr st
                    | Some p \<Rightarrow> to_push e p (wire_pdu SID_OTHER CID_OTHER_PUSH_TO_USER_REQ 0 (pb_ser (pb_PushToUserReq (e_server e)) msg2')) st)))"

definition file_after_query :: "env \<Rightarrow> pdu_header \<Rightarrow> u32 \<Rightarrow> u32 \<Rightarrow> bytes \<Rightarrow> msg_op" where
  "file_after_query e hdr status handle body st =
     (case pb_par (pb_FileTransferReq (e_server e)) body of
        (False, _) \<Rightarrow> Inr st
      | (True, msg3) \<Rightarrow>
          let trans_mode = (if status = USER_STATUS_ONLINE then FILE_TYPE_ONLINE else FILE_TYPE_OFFLINE)
          in with_conn (get_random_file_serv_conn e)
               (to_handle e False (ft_from_user_id msg3) handle (answer hdr SID_FILE CID_FILE_RESPONSE (pb_ser (pb_FileRsp (e_file e))
                  \<lparr>fr_result_code = 1, fr_from_user_id = ft_from_user_id msg3, fr_to_user_id = ft_to_user_id msg3,
                   fr_file_name = ft_file_name msg3, fr_task_id = [], fr_ip_addr_list = [], fr_trans_mode = trans_mode\<rparr>)))
               (\<lambda>f. to_file e f (answer hdr SID_OTHER CID_OTHER_FILE_TRANSFER_REQ
                  (pb_ser (pb_FileTransferReq (e_server e)) (msg3\<lparr>ft_trans_mode := trans_mode\<rparr>)))) st)"

definition HandleUsersStatusResponse :: "env \<Rightarrow> pdu_header \<Rightarrow> bytes \<Rightarrow> msg_op" where
  "HandleUsersStatusResponse e hdr img st =
     parsed (pb_BuddyUsersStatRsp (e_buddy e)) img (\<lambda>msg.
       let att = sp_attach_data msg
       in bindR (CPduAttachData_par att (of_nat (length att))) (\<lambda>attach_data.
            let t = da_type (fst attach_data); handle = da_handle (fst attach_data)
            in if t = ATTACH_TYPE_HANDLE
               then to_handle e False (sp_user_id msg) handle
                      (rebuilt hdr (pb_ser (pb_BuddyUsersStatRsp (e_buddy e)) (msg\<lparr>sp_attach_data := []\<rparr>))) st
               else if t = ATTACH_TYPE_PDU_FOR_PUSH
               then bindR (first_stat msg) (\<lambda>s. bindR (attached_pdu att attach_data) (\<lambda>body. push_after_query e (snd s) body st))
               else if t = ATTACH_TYPE_HANDLE_AND_PDU_FOR_FILE
               then bindR (first_stat msg) (\<lambda>s. bindR (attached_pdu att attach_data) (\<lambda>body. file_after_query e hdr (snd s) handle body st))
               else Inr st)) st"

definition HandleRemoveSessionNotify :: "env \<Rightarrow> bytes \<Rightarrow> msg_op" where
  "HandleRemoveSessionNotify e img st =
     parsed (pb_RemoveSessionNotify (e_buddy e)) img (\<lambda>msg. to_user (rn_user_id msg) (\<lambda>u. BroadcastPdu e u img None) st) st"

definition HandlePCLoginStatusNotify :: "env \<Rightarrow> bytes \<Rightarrow> msg_op" where
  "HandlePCLoginStatusNotify e img st =
     parsed (pb_ServerPCLoginStatusNotify (e_server e)) img (\<lambda>(user_id, login_status).
       to_user user_id (\<lambda>u st.
         bindR (on_user u (\<lambda>x. x\<lparr>iu_pc_login_status := login_status\<rparr>) st)
           (BroadcastPduToMobile e u (wire_pdu SID_BUDDY_LIST CID_BUDDY_LIST_PC_LOGIN_STATUS_NOTIFY 0
              (pb_ser (pb_BuddyPCLoginStatusNotify (e_buddy e))
                 (user_id, if login_status = IM_PC_LOGIN_STATUS_ON then USER_STATUS_ONLINE else USER_STATUS_OFFLINE))) None)) st) st"

definition HandleSignInfoChangedNotify :: "env \<Rightarrow> bytes \<Rightarrow> msg_op" where
  "HandleSignInfoChangedNotify e img st =
     parsed (pb_SignInfoChangedNotify (e_buddy e)) img (\<lambda>_. manager_BroadcastPdu e img CLIENT_TYPE_FLAG_BOTH st) st"

text \<open>The case of a changed sign info has no \<open>break\<close>: the group handler runs as well.\<close>

definition route_handlers :: "env \<Rightarrow> pdu_header \<Rightarrow> bytes \<Rightarrow> (u16, msg_op) assoc" where
  "route_handlers e hdr img =
     [(CID_OTHER_HEARTBEAT, Inr),
      (CID_OTHER_SERVER_KICK_USER, HandleKickUser_route e img),
      (CID_BUDDY_LIST_STATUS_NOTIFY, HandleStatusNotify e img),
      (CID_BUDDY_LIST_USERS_STATUS_RESPONSE, HandleUsersStatusResponse e hdr img),
      (CID_MSG_READ_NOTIFY, HandleMsgReadNotify e img),
      (CID_MSG_DATA, HandleMsgData_route e hdr img),
      (CID_SWITCH_P2P_CMD, HandleP2PMsg e img),
      (CID_OTHER_LOGIN_STATUS_NOTIFY, HandlePCLoginStatusNotify e img),
      (CID_BUDDY_LIST_REMOVE_SESSION_NOTIFY, HandleRemoveSessionNotify e img),
      (CID_BUDDY_LIST_SIGN_INFO_CHANGED_NOTIFY,
         \<lambda>st. bindR (HandleSignInfoChangedNotify e img st) (HandleGroupChangeMemberBroadcast e hdr img)),
      (CID_GROUP_CHANGE_MEMBER_NOTIFY, HandleGroupChangeMemberBroadcast e hdr img),
      (CID_FILE_NOTIFY, HandleFileNotify e hdr img)]"

definition route_HandlePdu :: "env \<Rightarrow> pdu_header \<Rightarrow> bytes \<Rightarrow> msg_op" where
  "route_HandlePdu e hdr img = run_handler (route_handlers e hdr img) (h_command_id hdr)"

definition route_OnRead_msg :: "env \<Rightarrow> (pdu_header \<times> bytes) list \<Rightarrow> bool \<Rightarrow> nat \<Rightarrow> msg_op" where
  "route_OnRead_msg e fs bad r st =
     bindR (on_route (serv_touch (e_now e) r) st) (read_pdus (route_HandlePdu e) (route_Close e r) fs bad)"

fun route_timer_loop :: "env \<Rightarrow> u64 \<Rightarrow> conn_map \<Rightarrow> msg_op" where
  "route_timer_loop e cur_time [] st = Inr st"
| "route_timer_loop e cur_time (p # ps) st = bindR (route_OnTimer e cur_time (snd p) st) (route_timer_loop e cur_time ps)"

definition route_server_conn_timer_callback :: "env \<Rightarrow> (nat \<Rightarrow> u32) \<Rightarrow> msg_op" where
  "route_server_conn_timer_callback e connect st =
     bindR (route_timer_loop e (e_now e) (b_conn_map (ms_route st)) st)
       (on_route (\<lambda>b. bindR (serv_check_reconnect connect (e_now e) b) (\<lambda>b. Inr (b, []))))"

definition init_route_serv_conn :: "env \<Rightarrow> (nat \<Rightarrow> u32) \<Rightarrow> serv_info_t list \<Rightarrow> msg_op" where
  "init_route_serv_conn e connect server_list st =
     bindR (serv_init connect (e_now e) ((ms_route st)\<lparr>b_server_list := server_list\<rparr>)) (\<lambda>b. Inr (st\<lparr>ms_route := b\<rparr>))"

section \<open>Login servers\<close>

definition login_Close :: "nat \<Rightarrow> msg_op" where
  "login_Close l = on_login (serv_Close False l)"

text \<open>The message server reports its addresses and the number of open connections.\<close>

definition login_OnConfirm :: "env \<Rightarrow> nat \<Rightarrow> msg_op" where
  "login_OnConfirm e l st =
     bindR (on_login (\<lambda>b. bindR (serv_confirmed (\<lambda>c. c) l b) (\<lambda>b. Inr (b, []))) st) (\<lambda>st1.
     bindR (GetUserConnCnt st1) (\<lambda>(_, cur_conn_cnt).
       on_login (serv_SendPdu (e_now e) l (wire_pdu SID_OTHER CID_OTHER_MSG_SERV_INFO 0
         (pb_ser (pb_SrvMsgServInfo (e_server e)) ((e_self e)\<lparr>si_cur_conn_cnt := cur_conn_cnt\<rparr>)))) st1))"

definition login_OnTimer :: "env \<Rightarrow> u64 \<Rightarrow> nat \<Rightarrow> msg_op" where
  "login_OnTimer e curr_tick l = on_login (serv_OnTimer False (heartbeat e) (e_now e) curr_tick l)"

definition login_HandlePdu :: "pdu_header \<Rightarrow> bytes \<Rightarrow> msg_op" where
  "login_HandlePdu hdr img st = Inr st"

definition login_OnRead_msg :: "env \<Rightarrow> (pdu_header \<times> bytes) list \<Rightarrow> bool \<Rightarrow> nat \<Rightarrow> msg_op" where
  "login_OnRead_msg e fs bad l st =
     bindR (on_login (serv_touch (e_now e) l) st) (read_pdus login_HandlePdu (login_Close l) fs bad)"

fun login_timer_loop :: "env \<Rightarrow> u64 \<Rightarrow> conn_map \<Rightarrow> msg_op" where
  "login_timer_loop e cur_time [] st = Inr st"
| "login_timer_loop e cur_time (p # ps) st = bindR (login_OnTimer e cur_time (snd p) st) (login_timer_loop e cur_time ps)"

definition login_server_conn_timer_callback :: "env \<Rightarrow> (nat \<Rightarrow> u32) \<Rightarrow> msg_op" where
  "login_server_conn_timer_callback e connect st =
     bindR (login_timer_loop e (e_now e) (b_conn_map (ms_login st)) st)
       (on_login (\<lambda>b. bindR (serv_check_reconnect connect (e_now e) b) (\<lambda>b. Inr (b, []))))"

definition init_login_serv_conn :: "env \<Rightarrow> (nat \<Rightarrow> u32) \<Rightarrow> serv_info_t list \<Rightarrow> msg_op" where
  "init_login_serv_conn e connect server_list st =
     bindR (serv_init connect (e_now e) ((ms_login st)\<lparr>b_server_list := server_list\<rparr>)) (\<lambda>b. Inr (st\<lparr>ms_login := b\<rparr>))"

section \<open>Push servers\<close>

text \<open>Closing any push server connection leaves the server without a master.\<close>

definition push_Close :: "nat \<Rightarrow> msg_op" where
  "push_Close p st = bindR (on_push (serv_Close True p) st) (\<lambda>st1. Inr (st1\<lparr>g_master_push_conn := None\<rparr>))"

definition push_OnConfirm :: "nat \<Rightarrow> msg_op" where
  "push_OnConfirm p st =
     bindR (on_push (\<lambda>b. bindR (serv_confirmed (\<lambda>c. c) p b) (\<lambda>b. Inr (b, []))) st) (\<lambda>st1. Inr (st1\<lparr>g_master_push_conn := Some p\<rparr>))"

definition push_OnTimer :: "env \<Rightarrow> u64 \<Rightarrow> nat \<Rightarrow> msg_op" where
  "push_OnTimer e curr_tick p st =
     bindR (deref p (b_heap (ms_push st))) (\<lambda>c.
     bindR (if curr_tick > sv_last_send_tick c + SERVER_HEARTBEAT_INTERVAL then to_push e p (heartbeat e) st else Inr st) (\<lambda>st1.
       if curr_tick > sv_last_recv_tick c + SERVER_TIMEOUT then push_Close p st1 else Inr st1))"

definition push_HandlePdu :: "pdu_header \<Rightarrow> bytes \<Rightarrow> msg_op" where
  "push_HandlePdu hdr img st = Inr st"

fun push_timer_loop :: "env \<Rightarrow> u64 \<Rightarrow> conn_map \<Rightarrow> msg_op" where
  "push_timer_loop e cur_time [] st = Inr st"
| "push_timer_loop e cur_time (q # qs) st =
     bindR (deref (snd q) (b_heap (ms_push st))) (\<lambda>c.
     bindR (if sv_open c then push_OnTimer e cur_time (snd q) st else Inr st) (push_timer_loop e cur_time qs))"

definition push_server_conn_timer_callback :: "env \<Rightarrow> (nat \<Rightarrow> u32) \<Rightarrow> msg_op" where
  "push_server_conn_timer_callback e connect st =
     bindR (push_timer_loop e (e_now e) (b_conn_map (ms_push st)) st)
       (on_push (\<lambda>b. bindR (serv_check_reconnect connect (e_now e) b) (\<lambda>b. Inr (b, []))))"

definition init_push_serv_conn :: "env \<Rightarrow> (nat \<Rightarrow> u32) \<Rightarrow> serv_info_t list \<Rightarrow> msg_op" where
  "init_push_serv_conn e connect server_list st =
     bindR (serv_init connect (e_now e) ((ms_push st)\<lparr>b_server_list := server_list\<rparr>)) (\<lambda>b. Inr (st\<lparr>ms_push := b\<rparr>))"

section \<open>File servers\<close>

definition file_Close :: "nat \<Rightarrow> msg_op" where
  "file_Close f = on_file (serv_Close True f)"

definition file_OnConfirm :: "env \<Rightarrow> nat \<Rightarrow> msg_op" where
  "file_OnConfirm e f st =
     bindR (on_file (\<lambda>b. bindR (serv_confirmed (\<lambda>c. c\<lparr>sv_connect_time := e_now e\<rparr>) f b) (\<lambda>b. Inr (b, []))) st)
       (to_file e f (wire_pdu SID_OTHER CID_OTHER_FILE_SERVER_IP_REQ 0 (pb_ser (pb_FileServerIPReq (e_server e)) ())))"

definition file_OnTimer :: "env \<Rightarrow> u64 \<Rightarrow> nat \<Rightarrow> msg_op" where
  "file_OnTimer e curr_tick f = on_file (serv_OnTimer True (heartbeat e) (e_now e) curr_tick f)"

definition file_OnRead_msg :: "env \<Rightarrow> (pdu_header \<times> bytes) list \<Rightarrow> bool \<Rightarrow> nat \<Rightarrow> msg_op" where
  "file_OnRead_msg e fs bad f st =
     bindR (on_file (serv_touch (e_now e) f) st) (read_pdus (file_HandlePdu e f) (file_Close f) fs bad)"

fun file_timer_loop :: "env \<Rightarrow> u64 \<Rightarrow> conn_map \<Rightarrow> msg_op" where
  "file_timer_loop e cur_time [] st = Inr st"
| "file_timer_loop e cur_time (p # ps) st = bindR (file_OnTimer e cur_time (snd p) st) (file_timer_loop e cur_time ps)"

definition file_server_conn_timer_callback :: "env \<Rightarrow> (nat \<Rightarrow> u32) \<Rightarrow> msg_op" where
  "file_server_conn_timer_callback e connect st =
     bindR (file_timer_loop e (e_now e) (b_conn_map (ms_file st)) st)
       (on_file (\<lambda>b. bindR (serv_check_reconnect connect (e_now e) b) (\<lambda>b. Inr (b, []))))"

definition init_file_serv_conn :: "env \<Rightarrow> (nat \<Rightarrow> u32) \<Rightarrow> serv_info_t list \<Rightarrow> msg_op" where
  "init_file_serv_conn e connect server_list st =
     bindR (serv_init connect (e_now e) ((ms_file st)\<lparr>b_server_list := server_list\<rparr>)) (\<lambda>b. Inr (st\<lparr>ms_file := b\<rparr>))"

end
