(* ===== verification/MsgCalm.thy ===== *)
theory MsgCalm
  imports RouteServConn
begin

text \<open>
  Most operations of the message server only send: they leave the registry of users, the maps of connections and the
  objects' identities as they are. This theory says what "as they are" means (\<open>calm\<close>), gives a rule per basic operation and
  proves the handlers that only send calm, under what they need of the state (\<open>wired\<close>): no pointer dangles.
\<close>

named_theorems calm_intros \<open>rules that show an operation calm\<close>

section \<open>Results of operations that may throw\<close>

text \<open>A result is fine when it is an exception, or a value that satisfies \<open>Q\<close>; a fault is not.\<close>

definition okR :: "('a \<Rightarrow> bool) \<Rightarrow> 'a res \<Rightarrow> bool" where
  "okR Q r \<longleftrightarrow> (case r of Inl ex \<Rightarrow> thrown ex | Inr x \<Rightarrow> Q x)"

lemma okR_simps [simp]: "okR Q (Inr x) \<longleftrightarrow> Q x" "okR Q (Inl ex) \<longleftrightarrow> thrown ex"
  by (simp_all add: okR_def)

lemma okR_bind: "okR Q m \<Longrightarrow> (\<And>x. Q x \<Longrightarrow> okR R (f x)) \<Longrightarrow> okR R (bindR m f)"
  by (cases m) auto

lemma okR_mono: "okR Q m \<Longrightarrow> (\<And>x. Q x \<Longrightarrow> R x) \<Longrightarrow> okR R m"
  by (cases m) auto

lemma okR_parsed:
  assumes "16 \<le> length img" "Q st" "\<And>m. pb_par p (drop 16 img) = (True, m) \<Longrightarrow> okR Q (f m)"
  shows "okR Q (parsed p img f st)"
  using assms by (cases "pb_par p (drop 16 img)") (auto simp: parsed_def body_of_def)

lemma okR_Inr [calm_intros]: "Q x \<Longrightarrow> okR Q (Inr x)"
  by simp

lemma okR_if [calm_intros]: "(b \<Longrightarrow> okR Q x) \<Longrightarrow> (\<not> b \<Longrightarrow> okR Q y) \<Longrightarrow> okR Q (if b then x else y)"
  by simp

lemma okR_option [calm_intros]:
  "(r = None \<Longrightarrow> okR Q x) \<Longrightarrow> (\<And>a. r = Some a \<Longrightarrow> okR Q (y a)) \<Longrightarrow> okR Q (case r of None \<Rightarrow> x | Some a \<Rightarrow> y a)"
  by (simp split: option.split)

lemma okR_list [calm_intros]:
  "(r = [] \<Longrightarrow> okR Q x) \<Longrightarrow> (\<And>a as. r = a # as \<Longrightarrow> okR Q (y a as)) \<Longrightarrow> okR Q (case r of [] \<Rightarrow> x | a # as \<Rightarrow> y a as)"
  by (simp split: list.split)

lemma okR_prod [calm_intros]: "(\<And>a b. r = (a, b) \<Longrightarrow> okR Q (f a b)) \<Longrightarrow> okR Q (case r of (a, b) \<Rightarrow> f a b)"
  by (simp split: prod.split)

lemma okR_let [calm_intros]: "okR Q (f x) \<Longrightarrow> okR Q (Let x f)"
  by simp

lemma okR_bool [calm_intros]: "(b \<Longrightarrow> okR Q x) \<Longrightarrow> (\<not> b \<Longrightarrow> okR Q y) \<Longrightarrow> okR Q (case b of True \<Rightarrow> x | False \<Rightarrow> y)"
  by (cases b) simp_all

section \<open>Heaps with the same objects\<close>

definition same_heap :: "('o \<Rightarrow> 'c) \<Rightarrow> 'o heap \<Rightarrow> 'o heap \<Rightarrow> bool" where
  "same_heap core h h' \<longleftrightarrow> (heap_ok h \<longrightarrow> heap_ok h') \<and> hp_next h' = hp_next h \<and> (\<forall>a. refs a h' = refs a h)
     \<and> (\<forall>a. map_sum id core (deref a h') = map_sum id core (deref a h))"

lemma same_heap_refl [simp]: "same_heap core h h"
  by (simp add: same_heap_def)

lemma same_heap_trans: "same_heap core h h' \<Longrightarrow> same_heap core h' h'' \<Longrightarrow> same_heap core h h''"
  by (simp add: same_heap_def)

lemma same_heap_deref:
  assumes "same_heap core h h'" "deref a h = Inr x"
  shows "\<exists>x'. deref a h' = Inr x' \<and> core x' = core x"
proof -
  have "map_sum id core (deref a h') = Inr (core x)" using assms by (simp add: same_heap_def)
  then show ?thesis by (cases "deref a h'") auto
qed

lemma same_heap_deref_back:
  assumes "same_heap core h h'" "deref a h' = Inr x'"
  shows "\<exists>x. deref a h = Inr x \<and> core x' = core x"
proof -
  have "map_sum id core (deref a h) = map_sum id core (deref a h')" using assms(1) by (simp add: same_heap_def)
  then have "map_sum id core (deref a h) = Inr (core x')" using assms(2) by simp
  then show ?thesis by (cases "deref a h") auto
qed

lemma same_heap_set_obj:
  assumes "deref a h = Inr x" "core x' = core x"
  shows "same_heap core h (set_obj a x' h)"
  using assms by (auto simp: same_heap_def heap_ok_set_obj deref_set_obj)

lemma same_heap_live: "same_heap core h h' \<Longrightarrow> live a h \<longleftrightarrow> live a h'"
  using same_heap_deref [of core h h' a] same_heap_deref_back [of core h h' a]
  by (metis deref_live live_deref)

section \<open>Calm changes\<close>

definition conn_core :: "msg_conn \<Rightarrow> u32 \<times> string \<times> u32 \<times> bool" where
  "conn_core c = (mc_handle c, mc_login_name c, mc_user_id c, mc_open c)"

definition user_core :: "im_user \<Rightarrow> u32 \<times> string \<times> bool \<times> (u32, nat) assoc \<times> nat list" where
  "user_core x = (iu_user_id x, iu_login_name x, iu_validate x, iu_conn_map x, iu_unvalidate_conn_set x)"

definition serv_core :: "serv_conn \<Rightarrow> u32 \<times> nat \<times> bool" where
  "serv_core c = (sv_handle c, sv_serv_idx c, sv_open c)"

definition same_bk :: "backend \<Rightarrow> backend \<Rightarrow> bool" where
  "same_bk b b' \<longleftrightarrow> b_server_list b' = b_server_list b \<and> b_conn_map b' = b_conn_map b \<and> same_heap serv_core (b_heap b) (b_heap b')"

datatype part = Db | Login | Route | Push | File

fun bk :: "part \<Rightarrow> msg_server \<Rightarrow> backend" where
  "bk Db st = ms_db st"
| "bk Login st = ms_login st"
| "bk Route st = ms_route st"
| "bk Push st = ms_push st"
| "bk File st = ms_file st"

text \<open>The back ends and the choice among them are as before.\<close>

definition steady :: "msg_server \<Rightarrow> msg_server \<Rightarrow> bool" where
  "steady st st' \<longleftrightarrow> (\<forall>p. same_bk (bk p st) (bk p st')) \<and> g_db_server_login_count st' = g_db_server_login_count st
     \<and> g_master_rs_conn st' = g_master_rs_conn st \<and> g_master_push_conn st' = g_master_push_conn st"

definition calm :: "msg_server \<Rightarrow> msg_server \<Rightarrow> bool" where
  "calm st st' \<longleftrightarrow> steady st st' \<and> g_msg_conn_map st' = g_msg_conn_map st \<and> m_im_user_map st' = m_im_user_map st
     \<and> m_im_user_map_by_name st' = m_im_user_map_by_name st
     \<and> same_heap conn_core (ms_conns st) (ms_conns st') \<and> same_heap user_core (ms_users st) (ms_users st')"

lemma same_bk_refl [simp]: "same_bk b b"
  by (simp add: same_bk_def)

lemma same_bk_trans: "same_bk b b' \<Longrightarrow> same_bk b' b'' \<Longrightarrow> same_bk b b''"
  by (auto simp: same_bk_def intro: same_heap_trans)

lemma steady_refl [simp]: "steady st st"
  by (simp add: steady_def)

lemma steady_trans: "steady st st' \<Longrightarrow> steady st' st'' \<Longrightarrow> steady st st''"
  by (auto simp: steady_def intro: same_bk_trans)

lemma calm_refl [simp]: "calm st st"
  by (simp add: calm_def)

lemma calm_trans: "calm st st' \<Longrightarrow> calm st' st'' \<Longrightarrow> calm st st''"
  by (auto simp: calm_def intro: steady_trans same_heap_trans)

section \<open>States in which no pointer dangles\<close>

text \<open>
  What sending needs: the entries of the server lists and the master connections are live; users found by id and the connections
  they hold are live.
\<close>

definition bk_live :: "backend \<Rightarrow> bool" where
  "bk_live b \<longleftrightarrow> (\<forall>s\<in>set (b_server_list b). \<forall>a. si_serv_conn s = Some a \<longrightarrow> live a (b_heap b))"

definition user_live :: "msg_server \<Rightarrow> nat \<Rightarrow> bool" where
  "user_live st u \<longleftrightarrow> (\<exists>x. deref u (ms_users st) = Inr x \<and> (\<forall>a\<in>snd ` set (iu_conn_map x). live a (ms_conns st)))"

definition wired :: "msg_server \<Rightarrow> bool" where
  "wired st \<longleftrightarrow> (\<forall>p. bk_live (bk p st)) \<and> (\<forall>u\<in>snd ` set (m_im_user_map st). user_live st u)
     \<and> (\<forall>r. g_master_rs_conn st = Some r \<longrightarrow> live r (b_heap (ms_route st)))
     \<and> (\<forall>r. g_master_push_conn st = Some r \<longrightarrow> live r (b_heap (ms_push st)))
     \<and> g_db_server_login_count st \<le> length (b_server_list (ms_db st))"

text \<open>Draws that hit every entry of every range, so that no choice goes on forever.\<close>

definition fair :: "env \<Rightarrow> msg_server \<Rightarrow> bool" where
  "fair e st \<longleftrightarrow> (\<forall>k. e_draws e k \<noteq> [] \<and> (\<forall>n\<le>length (b_server_list (ms_db st)). \<forall>i<n. \<exists>r\<in>set (e_draws e k). r mod n = i))"

lemma same_bk_live: "same_bk b b' \<Longrightarrow> bk_live b \<Longrightarrow> bk_live b'"
  by (auto simp: same_bk_def bk_live_def same_heap_live)

lemma calm_user_live:
  assumes "calm st st'" "user_live st u"
  shows "user_live st' u"
proof -
  obtain x where x: "deref u (ms_users st) = Inr x" "\<forall>a\<in>snd ` set (iu_conn_map x). live a (ms_conns st)"
    using assms(2) by (auto simp: user_live_def)
  obtain x' where "deref u (ms_users st') = Inr x'" "user_core x' = user_core x"
    using assms(1) x(1) same_heap_deref [of user_core] by (fastforce simp: calm_def)
  moreover have "live a (ms_conns st) \<longleftrightarrow> live a (ms_conns st')" for a
    using assms(1) by (auto simp: calm_def same_heap_live)
  ultimately show ?thesis using x(2) by (auto simp: user_live_def user_core_def)
qed

lemma calm_wired:
  assumes "calm st st'" "wired st"
  shows "wired st'"
proof -
  have bks: "same_bk (bk p st) (bk p st')" for p using assms(1) by (simp add: calm_def steady_def)
  have "live r (b_heap (bk p st')) \<longleftrightarrow> live r (b_heap (bk p st))" for p r
    using bks [of p] by (auto simp: same_bk_def same_heap_live)
  from this [of _ Route] this [of _ Push] show ?thesis
    using assms calm_user_live [OF assms(1)] same_bk_live [OF bks] bks [of Db]
    by (auto simp: wired_def calm_def steady_def same_bk_def)
qed

lemma calm_fair: "calm st st' \<Longrightarrow> fair e st \<Longrightarrow> fair e st'"
  unfolding calm_def steady_def same_bk_def fair_def by (metis bk.simps(1))

lemma calm_live: "calm st st' \<Longrightarrow> live a (ms_conns st) \<Longrightarrow> live a (ms_conns st')"
  by (auto simp: calm_def same_heap_live)

text \<open>The state of an event handler that has only sent since \<open>st0\<close>.\<close>

definition at_rest :: "env \<Rightarrow> msg_server \<Rightarrow> msg_server \<Rightarrow> bool" where
  "at_rest e st0 st \<longleftrightarrow> calm st0 st \<and> wired st0 \<and> fair e st0"

lemma at_rest_iff: "at_rest e st0 st \<longleftrightarrow> calm st0 st \<and> wired st0 \<and> fair e st0 \<and> wired st \<and> fair e st"
  by (auto simp: at_rest_def intro: calm_wired calm_fair)

lemma at_rest_refl: "wired st \<Longrightarrow> fair e st \<Longrightarrow> at_rest e st st"
  by (simp add: at_rest_def)

lemma at_rest_step: "at_rest e st0 st \<Longrightarrow> calm st st' \<Longrightarrow> at_rest e st0 st'"
  by (auto simp: at_rest_def intro: calm_trans)

lemma calm_bind:
  "okR (at_rest e st0) m \<Longrightarrow> (\<And>st. at_rest e st0 st \<Longrightarrow> okR R (f st)) \<Longrightarrow> okR R (bindR m f)"
  by (rule okR_bind)

lemma calm_parsed:
  "16 \<le> length img \<Longrightarrow> at_rest e st0 st \<Longrightarrow> (\<And>m. pb_par p (drop 16 img) = (True, m) \<Longrightarrow> okR (at_rest e st0) (f m))
    \<Longrightarrow> okR (at_rest e st0) (parsed p img f st)"
  by (rule okR_parsed)

lemmas calm_steps = calm_bind okR_bind calm_parsed

section \<open>Basic operations\<close>

lemma calm_deref [calm_intros]:
  "at_rest e st0 st \<Longrightarrow> live a (ms_conns st0) \<Longrightarrow> okR (\<lambda>c. deref a (ms_conns st) = Inr c) (deref a (ms_conns st))"
  by (cases "deref a (ms_conns st)") (auto simp: at_rest_iff dest!: calm_live dest: live_deref)

text \<open>Counters and the trace are not part of what is kept; a heap or a back end may be replaced by one with the same objects.\<close>

lemma bk_upd [simp]:
  "bk p (st\<lparr>ms_conns := h\<rparr>) = bk p st" "bk p (st\<lparr>ms_users := g\<rparr>) = bk p st" "bk p (st\<lparr>ms_trace := t\<rparr>) = bk p st"
  "bk p (st\<lparr>g_down_msg_total_cnt := n\<rparr>) = bk p st" "bk p (st\<lparr>g_down_msg_miss_cnt := n\<rparr>) = bk p st"
  "bk p (st\<lparr>g_last_stat_tick := w\<rparr>) = bk p st" "bk p (st\<lparr>ms_rand_calls := k\<rparr>) = bk p st"
  by (cases p; simp)+

lemma calm_upd:
  "calm st (st\<lparr>ms_trace := t\<rparr>)" "calm st (st\<lparr>g_down_msg_total_cnt := n\<rparr>)" "calm st (st\<lparr>g_down_msg_miss_cnt := n\<rparr>)"
  "calm st (st\<lparr>g_last_stat_tick := w\<rparr>)" "calm st (st\<lparr>ms_rand_calls := k\<rparr>)"
  by (simp_all add: calm_def steady_def)

lemmas at_rest_upd = calm_upd [THEN at_rest_step [rotated]]

lemma at_rest_heap:
  "at_rest e st0 st \<Longrightarrow> same_heap conn_core (ms_conns st) h \<Longrightarrow> at_rest e st0 (st\<lparr>ms_conns := h\<rparr>)"
  "at_rest e st0 st \<Longrightarrow> same_heap user_core (ms_users st) g \<Longrightarrow> at_rest e st0 (st\<lparr>ms_users := g\<rparr>)"
  by (erule at_rest_step, simp add: calm_def steady_def)+

lemma same_bk_upd:
  "same_bk (ms_db st) b \<Longrightarrow> same_bk (bk p st) (bk p (st\<lparr>ms_db := b\<rparr>))"
  "same_bk (ms_login st) b \<Longrightarrow> same_bk (bk p st) (bk p (st\<lparr>ms_login := b\<rparr>))"
  "same_bk (ms_route st) b \<Longrightarrow> same_bk (bk p st) (bk p (st\<lparr>ms_route := b\<rparr>))"
  "same_bk (ms_push st) b \<Longrightarrow> same_bk (bk p st) (bk p (st\<lparr>ms_push := b\<rparr>))"
  "same_bk (ms_file st) b \<Longrightarrow> same_bk (bk p st) (bk p (st\<lparr>ms_file := b\<rparr>))"
  by (cases p; simp)+

lemma at_rest_bk:
  "at_rest e st0 st \<Longrightarrow> same_bk (ms_db st) b \<Longrightarrow> at_rest e st0 (st\<lparr>ms_db := b\<rparr>)"
  "at_rest e st0 st \<Longrightarrow> same_bk (ms_login st) b \<Longrightarrow> at_rest e st0 (st\<lparr>ms_login := b\<rparr>)"
  "at_rest e st0 st \<Longrightarrow> same_bk (ms_route st) b \<Longrightarrow> at_rest e st0 (st\<lparr>ms_route := b\<rparr>)"
  "at_rest e st0 st \<Longrightarrow> same_bk (ms_push st) b \<Longrightarrow> at_rest e st0 (st\<lparr>ms_push := b\<rparr>)"
  "at_rest e st0 st \<Longrightarrow> same_bk (ms_file st) b \<Longrightarrow> at_rest e st0 (st\<lparr>ms_file := b\<rparr>)"
  by (erule at_rest_step, simp add: calm_def steady_def same_bk_upd)+

lemma calm_set_conn:
  assumes "at_rest e st0 st" "deref a (ms_conns st) = Inr c" "conn_core c' = conn_core c"
  shows "at_rest e st0 (st\<lparr>ms_conns := set_obj a c' (ms_conns st)\<rparr>)"
  using assms by (intro at_rest_heap same_heap_set_obj)

lemma calm_to_client [calm_intros]:
  assumes "at_rest e st0 st" "live a (ms_conns st0)"
  shows "okR (at_rest e st0) (to_client e a data st)"
  unfolding to_client_def
  by (rule okR_bind [OF calm_deref [OF assms]]) (simp add: calm_set_conn [OF assms(1)] at_rest_upd conn_core_def)

lemma calm_AddToSendList [calm_intros]:
  assumes "at_rest e st0 st" "live a (ms_conns st0)"
  shows "okR (at_rest e st0) (AddToSendList e a msg_id from_id st)"
  unfolding AddToSendList_def
  by (rule okR_bind [OF calm_deref [OF assms]]) (simp add: calm_set_conn [OF assms(1)] at_rest_upd conn_core_def)

lemma calm_DelFromSendList [calm_intros]:
  assumes "at_rest e st0 st" "live a (ms_conns st0)"
  shows "okR (at_rest e st0) (DelFromSendList a msg_id from_id st)"
  unfolding DelFromSendList_def
  by (rule okR_bind [OF calm_deref [OF assms]]) (simp add: calm_set_conn [OF assms(1)] at_rest_upd conn_core_def)

lemma calm_on_conn:
  assumes "at_rest e st0 st" "live a (ms_conns st0)" "\<And>c. conn_core (f c) = conn_core c"
  shows "okR (at_rest e st0) (on_conn a f st)"
  unfolding on_conn_def
  by (rule okR_bind [OF calm_deref [OF assms(1,2)]]) (simp add: calm_set_conn [OF assms(1)] assms(3))

lemma at_rest_user_live: "at_rest e st0 st \<Longrightarrow> live u (ms_users st0) \<Longrightarrow> live u (ms_users st)"
  by (simp add: at_rest_iff calm_def same_heap_live [of user_core "ms_users st0" "ms_users st"])

lemma calm_on_user:
  assumes "at_rest e st0 st" "live u (ms_users st0)" "\<And>x. user_core (f x) = user_core x"
  shows "okR (at_rest e st0) (on_user u f st)"
proof -
  obtain x where x: "deref u (ms_users st) = Inr x"
    using at_rest_user_live [OF assms(1,2)] live_deref by blast
  show ?thesis
    using x assms(1,3) by (simp add: on_user_def at_rest_heap same_heap_set_obj)
qed

subsection \<open>Back ends\<close>

lemma same_bk_send:
  assumes "live a (b_heap b)"
  shows "\<exists>b' out. serv_SendPdu now a data b = Inr (b', out) \<and> same_bk b b'"
proof -
  obtain c where c: "deref a (b_heap b) = Inr c" using assms live_deref by blast
  have "same_heap serv_core (b_heap b) (set_obj a (c\<lparr>sv_last_send_tick := now\<rparr>) (b_heap b))"
    using c by (intro same_heap_set_obj) (simp_all add: serv_core_def)
  then show ?thesis using c by (simp add: serv_SendPdu_def same_bk_def)
qed

lemma same_bk_send_to_all:
  assumes "conns_live b ss"
  shows "\<exists>b' out. send_to_all now data ss b = Inr (b', out) \<and> same_bk b b'"
  using assms
proof (induction ss arbitrary: b)
  case (Cons s ss)
  define r where "r = (case si_serv_conn s of None \<Rightarrow> None | Some a \<Rightarrow> if is_open b a then Some a else None)"
  have o: "open_conn b s = Inr r"
    unfolding r_def using Cons.prems by (intro open_conn_spec) simp
  have "\<exists>b1 out1. (case r of None \<Rightarrow> Inr (b, []) | Some a \<Rightarrow> serv_SendPdu now a data b) = Inr (b1, out1) \<and> same_bk b b1"
  proof (cases r)
    case (Some a)
    then have "live a (b_heap b)" using Cons.prems by (auto simp: r_def split: option.splits if_splits)
    then show ?thesis using Some same_bk_send by simp
  qed simp
  then obtain b1 out1 where b1: "(case r of None \<Rightarrow> Inr (b, []) | Some a \<Rightarrow> serv_SendPdu now a data b) = Inr (b1, out1)"
    "same_bk b b1" by (elim exE conjE)
  have "conns_live b1 ss"
    using Cons.prems b1(2) by (auto simp: same_bk_def same_heap_live)
  then obtain b2 out2 where "send_to_all now data ss b1 = Inr (b2, out2)" "same_bk b1 b2" using Cons.IH by blast
  then show ?case using o b1 by (simp add: same_bk_trans [of b b1])
qed simp

lemma calm_on_bk:
  assumes "at_rest e st0 st"
  shows "\<exists>b' out. f (ms_db st) = Inr (b', out) \<and> same_bk (ms_db st) b' \<Longrightarrow> okR (at_rest e st0) (on_db f st)"
    and "\<exists>b' out. f (ms_login st) = Inr (b', out) \<and> same_bk (ms_login st) b' \<Longrightarrow> okR (at_rest e st0) (on_login f st)"
    and "\<exists>b' out. f (ms_route st) = Inr (b', out) \<and> same_bk (ms_route st) b' \<Longrightarrow> okR (at_rest e st0) (on_route f st)"
    and "\<exists>b' out. f (ms_push st) = Inr (b', out) \<and> same_bk (ms_push st) b' \<Longrightarrow> okR (at_rest e st0) (on_push f st)"
    and "\<exists>b' out. f (ms_file st) = Inr (b', out) \<and> same_bk (ms_file st) b' \<Longrightarrow> okR (at_rest e st0) (on_file f st)"
  using assms
  by (auto simp: on_db_def on_login_def on_route_def on_push_def on_file_def intro!: at_rest_upd at_rest_bk)

lemma at_rest_bk_live: "at_rest e st0 st \<Longrightarrow> live d (b_heap (bk p st)) \<longleftrightarrow> live d (b_heap (bk p st0))"
  by (simp add: at_rest_iff calm_def steady_def same_bk_def same_heap_live [of serv_core "b_heap (bk p st0)" "b_heap (bk p st)"])

lemmas at_rest_bk_lives = at_rest_bk_live [where p = Db, simplified] at_rest_bk_live [where p = Login, simplified]
  at_rest_bk_live [where p = Route, simplified] at_rest_bk_live [where p = Push, simplified] at_rest_bk_live [where p = File, simplified]

lemma calm_to_bk [calm_intros]:
  assumes "at_rest e st0 st"
  shows "live d (b_heap (ms_db st0)) \<Longrightarrow> okR (at_rest e st0) (to_db e d data st)"
    and "live d (b_heap (ms_route st0)) \<Longrightarrow> okR (at_rest e st0) (to_route e d data st)"
    and "live d (b_heap (ms_push st0)) \<Longrightarrow> okR (at_rest e st0) (to_push e d data st)"
    and "live d (b_heap (ms_file st0)) \<Longrightarrow> okR (at_rest e st0) (to_file e d data st)"
  unfolding to_db_def to_route_def to_push_def to_file_def
  by (rule calm_on_bk [OF assms], rule same_bk_send, simp add: at_rest_bk_lives [OF assms])+

lemma calm_send_to_all [calm_intros]:
  assumes "at_rest e st0 st"
  shows "okR (at_rest e st0) (send_to_all_login_server e data st)"
    and "okR (at_rest e st0) (send_to_all_route_server e data st)"
proof -
  have live: "bk_live (bk p st)" for p using assms by (simp add: at_rest_iff wired_def)
  show "okR (at_rest e st0) (send_to_all_login_server e data st)"
    unfolding send_to_all_login_server_def using live [of Login]
    by (intro calm_on_bk [OF assms] same_bk_send_to_all) (simp add: bk_live_def)
  show "okR (at_rest e st0) (send_to_all_route_server e data st)"
    unfolding send_to_all_route_server_def using live [of Route]
    by (intro calm_on_bk [OF assms] same_bk_send_to_all) (simp add: bk_live_def)
qed

lemma calm_send_status [calm_intros]:
  "at_rest e st0 st \<Longrightarrow> okR (at_rest e st0) (send_status e action status user_id client_type st)"
  unfolding send_status_def 
  by (rule okR_bind [OF calm_send_to_all(1)]) (assumption, rule calm_send_to_all(2))

lemma calm_if_route [calm_intros]:
  assumes "at_rest e st0 st"
  shows "okR (at_rest e st0) (if_route e data st)"
proof (cases "g_master_rs_conn st")
  case None
  then show ?thesis using assms by (simp add: if_route_def get_route_serv_conn_def)
next
  case (Some r)
  then have "live r (b_heap (ms_route st0))"
    using assms at_rest_bk_lives(3) [OF assms] by (simp add: at_rest_iff wired_def)
  then show ?thesis using assms Some by (simp add: if_route_def get_route_serv_conn_def calm_to_bk)
qed

subsection \<open>Choosing a connection\<close>

text \<open>A chosen connection, if there is one, is live.\<close>

definition picked :: "env \<Rightarrow> part \<Rightarrow> msg_server \<Rightarrow> nat option \<times> msg_server \<Rightarrow> bool" where
  "picked e p st0 r \<longleftrightarrow> at_rest e st0 (snd r) \<and> (\<forall>d. fst r = Some d \<longrightarrow> live d (b_heap (bk p st0)))"

lemma open_set_live: "a \<in> open_set b ss \<Longrightarrow> live a (b_heap b)"
  by (auto simp: open_set_def is_open_def intro: deref_live)

lemma fair_draw:
  assumes "fair e st" "a \<in> open_set b ss" "length ss \<le> length (b_server_list (ms_db st))"
  shows "\<exists>r\<in>set (e_draws e k). \<exists>a. si_serv_conn (ss ! (r mod length ss)) = Some a \<and> is_open b a"
proof -
  obtain i where i: "i < length ss" "si_serv_conn (ss ! i) = Some a" "is_open b a"
    using assms(2) by (auto simp: open_set_def in_set_conv_nth)
  then obtain r where "r \<in> set (e_draws e k)" "r mod length ss = i"
    using assms(1,3) unfolding fair_def by blast
  then show ?thesis using i by blast
qed

lemma calm_draw_db:
  assumes "at_rest e st0 st" "lo \<le> hi" "hi \<le> length (b_server_list (ms_db st))"
  shows "okR (\<lambda>r. picked e Db st0 r \<and> calm st (snd r) \<and> (fst r = None \<longrightarrow> open_set (ms_db st) (drop lo (take hi (b_server_list (ms_db st)))) = {}))
    (draw_db e lo hi st)"
proof -
  let ?ss = "drop lo (take hi (b_server_list (ms_db st)))" and ?rs = "e_draws e (ms_rand_calls st)"
  have live: "conns_live (ms_db st) (b_server_list (ms_db st))"
    using assms by (auto simp: at_rest_iff wired_def bk_live_def dest: spec [of _ Db])
  have hit: "\<exists>r\<in>set ?rs. \<exists>a. si_serv_conn (?ss ! (r mod length ?ss)) = Some a \<and> is_open (ms_db st) a"
    if "open_set (ms_db st) ?ss \<noteq> {}"
    using that assms fair_draw [of e st _ "ms_db st" ?ss] by (auto simp: at_rest_iff)
  have "at_rest e st0 (st\<lparr>ms_rand_calls := Suc (ms_rand_calls st)\<rparr>)" "calm st (st\<lparr>ms_rand_calls := Suc (ms_rand_calls st)\<rparr>)"
    by (rule at_rest_upd(5) [OF assms(1)], rule calm_upd(5))
  moreover note conn_in_range_spec [OF live assms(2,3), where rands = ?rs]
  ultimately show ?thesis
    using hit at_rest_bk_lives(1) [OF assms(1)]
    by (cases "get_db_server_conn_in_range ?rs lo hi (ms_db st)")
       (fastforce simp: draw_db_def picked_def dest: open_set_live split: loop_result.splits option.splits)+
qed

text \<open>The two ranges that the callers draw from.\<close>

lemma db_ranges: "at_rest e st0 st \<Longrightarrow> g_db_server_login_count st \<le> length (b_server_list (ms_db st))"
  by (simp add: at_rest_iff wired_def)

lemmas calm_draw_login = calm_draw_db [OF _ le0 db_ranges]
  and calm_draw_other = calm_draw_db [OF _ db_ranges order_refl]

lemma calm_get_db [calm_intros]:
  assumes "at_rest e st0 st"
  shows "okR (picked e Db st0) (get_db_serv_conn e st)" "okR (picked e Db st0) (get_db_serv_conn_for_login e st)"
  unfolding get_db_serv_conn_def get_db_serv_conn_for_login_def
  by (rule okR_bind [OF calm_draw_other [OF assms assms]], auto simp: picked_def intro!: okR_mono [OF calm_draw_login])
     (rule okR_bind [OF calm_draw_login [OF assms assms]], auto simp: picked_def intro!: okR_mono [OF calm_draw_other])

lemma calm_with_conn:
  assumes "okR (picked e p st0) (get st)"
    "\<And>st1. at_rest e st0 st1 \<Longrightarrow> okR Q (no st1)"
    "\<And>d st1. at_rest e st0 st1 \<Longrightarrow> live d (b_heap (bk p st0)) \<Longrightarrow> okR Q (yes d st1)"
  shows "okR Q (with_conn get no yes st)"
  unfolding with_conn_def
  by (rule okR_bind [OF assms(1)]) (clarsimp simp: picked_def split: option.split, intro conjI allI impI assms(2,3); simp)

lemma calm_with_db [calm_intros]:
  assumes "at_rest e st0 st"
    "\<And>st1. at_rest e st0 st1 \<Longrightarrow> okR (at_rest e st0) (no st1)"
    "\<And>d st1. at_rest e st0 st1 \<Longrightarrow> live d (b_heap (ms_db st0)) \<Longrightarrow> okR (at_rest e st0) (yes d st1)"
  shows "okR (at_rest e st0) (with_conn (get_db_serv_conn e) no yes st)"
    "okR (at_rest e st0) (with_conn (get_db_serv_conn_for_login e) no yes st)"
  by (rule calm_with_conn [where get = "get_db_serv_conn e", OF calm_get_db(1) [OF assms(1)]], erule assms(2), erule assms(3), simp)
     (rule calm_with_conn [where get = "get_db_serv_conn_for_login e", OF calm_get_db(2) [OF assms(1)]], erule assms(2), erule assms(3), simp)

lemma first_open_ok:
  assumes "conns_live b ss"
  shows "\<exists>r. first_open b ss = Inr r \<and> (\<forall>a. r = Some a \<longrightarrow> live a (b_heap b))"
  using first_open_spec [OF assms] open_set_live [of _ b ss] by blast

lemma calm_get_file [calm_intros]:
  assumes "at_rest e st0 st"
  shows "okR (picked e File st0) (get_random_file_serv_conn e st)"
proof -
  let ?ss = "b_server_list (ms_file st)" and ?rs = "e_draws e (ms_rand_calls st)"
  have live: "conns_live (ms_file st) ?ss"
    using assms by (auto simp: at_rest_iff wired_def bk_live_def dest: spec [of _ File])
  have rest: "at_rest e st0 (st\<lparr>ms_rand_calls := Suc (ms_rand_calls st)\<rparr>)"
    using assms by (intro at_rest_upd)
  have "?rs \<noteq> []" using assms unfolding at_rest_iff fair_def by blast
  then obtain r rs where rs: "?rs = r # rs" by (cases ?rs) simp_all
  show ?thesis
  proof (cases "?ss = []")
    case False
    then have in_ss: "?ss ! (i mod length ?ss) \<in> set ?ss" for i by simp
    have turn: "conns_live (ms_file st) (map (\<lambda>i. ?ss ! ((r mod length ?ss + i + 1) mod length ?ss)) [0..<length ?ss])"
      using live in_ss by fastforce
    have "open_conn (ms_file st) (?ss ! (r mod length ?ss)) = Inr (case si_serv_conn (?ss ! (r mod length ?ss)) of
        None \<Rightarrow> None | Some a \<Rightarrow> if is_open (ms_file st) a then Some a else None)"
      using live in_ss by (intro open_conn_spec) blast
    then show ?thesis
      using False rest first_open_ok [OF turn] live in_ss [of r] at_rest_bk_lives(5) [OF assms]
      by (auto simp: get_random_file_serv_conn_def rs Let_def picked_def split: option.splits if_splits)
  qed (use assms in \<open>simp add: get_random_file_serv_conn_def picked_def\<close>)
qed

lemma calm_with_file [calm_intros]:
  assumes "at_rest e st0 st"
    "\<And>st1. at_rest e st0 st1 \<Longrightarrow> okR (at_rest e st0) (no st1)"
    "\<And>f st1. at_rest e st0 st1 \<Longrightarrow> live f (b_heap (ms_file st0)) \<Longrightarrow> okR (at_rest e st0) (yes f st1)"
  shows "okR (at_rest e st0) (with_conn (get_random_file_serv_conn e) no yes st)"
  by (rule calm_with_conn [where get = "get_random_file_serv_conn e", OF calm_get_file [OF assms(1)]], erule assms(2), erule assms(3), simp)

lemma calm_get_push [calm_intros]:
  assumes "at_rest e st0 st"
  shows "okR (\<lambda>p. \<forall>q. p = Some q \<longrightarrow> live q (b_heap (ms_push st0))) (get_push_serv_conn st)"
  using assms at_rest_bk_lives(4) [OF assms] live_deref [of "the (g_master_push_conn st)" "b_heap (ms_push st)"]
  by (cases "g_master_push_conn st") (auto simp: get_push_serv_conn_def at_rest_iff wired_def)

section \<open>Attachments\<close>

text \<open>Byte strings of protocol buffers are shorter than 2 GB.\<close>

abbreviation short :: "bytes \<Rightarrow> bool" where
  "short b \<equiv> length b < 0x80000000"

lemma handle_attach_ok [simp]: "handle_attach e h = Inr (enc32 ATTACH_TYPE_HANDLE @ enc32 h @ enc32 0)"
  by (simp add: handle_attach_def CDbAttachData_ser_bytes)

lemma pdu_handle_attach_ok [simp]:
  "pdu_handle_attach e h = Inr (enc32 ATTACH_TYPE_HANDLE @ enc32 h @ enc32 0 @ enc32 0)"
  by (simp add: pdu_handle_attach_def CPduAttachData_ser_null)

lemma short_growable: "short b \<Longrightarrow> growable (16 + length b)"
  by (simp add: growable_def)

lemma attach_pdu_ok:
  assumes "short b"
  shows "CPduAttachData_ser fresh t h (of_nat (length b)) (Some b) 0 = Inr (enc32 t @ enc32 h @ enc32 0 @ enc32 (of_nat (length b)) @ b)"
  using CPduAttachData_ser_bytes [of "of_nat (length b)" b fresh t h 0] assms short_growable [OF assms]
  by (simp add: unat_of_nat_u32)

lemma calm_attach_handle [calm_intros]:
  assumes "short (opt_bytes x)"
  shows "okR (\<lambda>_. True) (attach_handle x)"
  using CDbAttachData_par_spec [of "length (opt_bytes x)" "opt_bytes x"] assms
  by (simp add: attach_handle_def parse_failed_def)

text \<open>The length field of an attached PDU does not make the check of the attachment wrap around.\<close>

definition pdu_in_range :: "bytes \<Rightarrow> bool" where
  "pdu_in_range att \<longleftrightarrow> short att \<and> unat (be32 (take 4 (drop 12 att))) < 2 ^ 32 - 16"

lemma calm_attach_par [calm_intros]:
  assumes "pdu_in_range att"
  shows "okR (\<lambda>r. \<exists>body. attached_pdu att r = Inr body \<and> length body \<le> length att) (CPduAttachData_par att (of_nat (length att)))"
proof -
  let ?len = "be32 (take 4 (drop 12 att))"
  have n: "length att < 2 ^ 32 - 16" using assms by (simp add: pdu_in_range_def)
  have "unat (16 + ?len) = 16 + unat ?len"
    using assms by (subst unat_add_u32) (simp_all add: pdu_in_range_def)
  moreover have "unat (of_nat (length att) :: u32) = length att" using n by (intro unat_of_nat_u32) simp
  ultimately have "16 + ?len \<le> of_nat (length att) \<longleftrightarrow> 16 + unat ?len \<le> length att"
    by (simp add: word_le_nat_alt)
  then show ?thesis using CPduAttachData_par_spec [OF n order_refl]
    by (auto simp: Let_def parse_failed_def not_less attached_pdu_def slice_def)
qed

section \<open>Users\<close>

lemma at_rest_conn_live: "at_rest e st0 st \<Longrightarrow> live a (ms_conns st0) \<Longrightarrow> live a (ms_conns st)"
  by (auto simp: at_rest_def dest: calm_live)

lemma calm_deref_user:
  assumes "at_rest e st0 st" "user_live st0 u"
  shows "okR (\<lambda>x. deref u (ms_users st) = Inr x \<and> (\<forall>p\<in>set (iu_conn_map x). live (snd p) (ms_conns st0))) (deref u (ms_users st))"
proof -
  obtain x where x: "deref u (ms_users st0) = Inr x" "\<forall>a\<in>snd ` set (iu_conn_map x). live a (ms_conns st0)"
    using assms(2) by (auto simp: user_live_def)
  obtain x' where "deref u (ms_users st) = Inr x'" "user_core x' = user_core x"
    using assms(1) x(1) same_heap_deref [of user_core] by (fastforce simp: at_rest_def calm_def)
  then show ?thesis using x(2) by (auto simp: user_core_def)
qed

lemma found_user_live:
  assumes "at_rest e st0 st" "GetImUserById user_id st = Some u"
  shows "user_live st0 u"
  using assms by (auto simp: at_rest_def calm_def wired_def GetImUserById_def dest!: map_of_SomeD)

lemma calm_to_user [calm_intros]:
  assumes "at_rest e st0 st" "\<And>u. user_live st0 u \<Longrightarrow> okR (at_rest e st0) (send u st)"
  shows "okR (at_rest e st0) (to_user user_id send st)"
  using assms by (auto simp: to_user_def dest: found_user_live split: option.split)

lemma calm_broadcast_conns:
  assumes "at_rest e st0 st" "\<forall>p\<in>set ps. live (snd p) (ms_conns st0)"
    "\<And>a st1. at_rest e st0 st1 \<Longrightarrow> live a (ms_conns st0) \<Longrightarrow> okR (at_rest e st0) (after a st1)"
  shows "okR (at_rest e st0) (broadcast_conns e sel after data frm ps st)"
  using assms(1,2)
proof (induction ps arbitrary: st)
  case (Cons p ps)
  have live: "live (snd p) (ms_conns st0)" using Cons.prems(2) by simp
  have "okR (at_rest e st0) (if frm = Some (snd p) then Inr st
      else bindR (deref (snd p) (ms_conns st)) (\<lambda>c.
        if sel c then bindR (to_client e (snd p) data st) (after (snd p)) else Inr st))"
  proof (cases "frm = Some (snd p)")
    case False
    have "okR (at_rest e st0) (bindR (to_client e (snd p) data st) (after (snd p)))"
      by (rule okR_bind [OF calm_to_client [OF Cons.prems(1) live]], rule assms(3) [OF _ live])
    then show ?thesis using False Cons.prems(1)
      by (auto intro!: okR_bind [OF calm_deref [OF Cons.prems(1) live]])
  qed (use Cons.prems(1) in simp)
  then show ?case unfolding broadcast_conns.simps
    by (rule okR_bind) (rule Cons.IH, assumption, use Cons.prems(2) in simp)
qed simp

lemma calm_broadcast:
  assumes "at_rest e st0 st" "user_live st0 u"
    "\<And>a st1. at_rest e st0 st1 \<Longrightarrow> live a (ms_conns st0) \<Longrightarrow> okR (at_rest e st0) (after a st1)"
  shows "okR (at_rest e st0) (broadcast e sel after u data frm st)"
  unfolding broadcast_def
  by (rule okR_bind [OF calm_deref_user [OF assms(1,2)]], rule calm_broadcast_conns [OF assms(1)]) (auto intro: assms(3))

lemma calm_broadcasts [calm_intros]:
  assumes "at_rest e st0 st" "user_live st0 u"
  shows "okR (at_rest e st0) (BroadcastPdu e u data frm st)"
    "okR (at_rest e st0) (BroadcastPduWithOutMobile e u data frm st)"
    "okR (at_rest e st0) (BroadcastPduToMobile e u data frm st)"
    "okR (at_rest e st0) (BroadcastData e u data frm st)"
    "okR (at_rest e st0) (BroadcastClientMsgData e u data msg_id frm from_id st)"
  unfolding BroadcastPdu_def BroadcastPduWithOutMobile_def BroadcastPduToMobile_def BroadcastData_def BroadcastClientMsgData_def
  by (rule calm_broadcast [OF assms], simp)+ (rule calm_broadcast [OF assms], rule calm_AddToSendList)

lemma calm_broadcast_users:
  assumes "at_rest e st0 st" "\<forall>p\<in>set ps. user_live st0 (snd p)"
  shows "okR (at_rest e st0) (broadcast_users e data flag ps st)"
  using assms
proof (induction ps arbitrary: st)
  case (Cons p ps)
  have live: "user_live st0 (snd p)" using Cons.prems(2) by simp
  have "okR (at_rest e st0) (if \<not> iu_validate x then Inr st
      else if flag = CLIENT_TYPE_FLAG_PC then BroadcastPduWithOutMobile e (snd p) data None st
      else if flag = CLIENT_TYPE_FLAG_MOBILE then BroadcastPduToMobile e (snd p) data None st
      else if flag = CLIENT_TYPE_FLAG_BOTH then BroadcastPdu e (snd p) data None st
      else Inr st)" for x
    using Cons.prems(1) calm_broadcasts [OF Cons.prems(1) live] by simp
  from okR_bind [OF this] show ?case unfolding broadcast_users.simps
    by (rule okR_bind [OF calm_deref_user [OF Cons.prems(1) live]]) (rule Cons.IH, assumption, use Cons.prems(2) in simp)
qed simp

lemma calm_manager_BroadcastPdu [calm_intros]:
  assumes "at_rest e st0 st"
  shows "okR (at_rest e st0) (manager_BroadcastPdu e data flag st)"
  unfolding manager_BroadcastPdu_def
  using assms by (intro calm_broadcast_users) (auto simp: at_rest_def calm_def wired_def)

lemma calm_GetMsgConnByHandle [calm_intros]:
  assumes "at_rest e st0 st"
  shows "okR (\<lambda>r. \<forall>a. r = Some a \<longrightarrow> live a (ms_conns st0)) (GetMsgConnByHandle user_id handle st)"
proof (cases "GetImUserById user_id st")
  case (Some u)
  show ?thesis unfolding GetMsgConnByHandle_def Some option.case
    by (rule okR_bind [OF calm_deref_user [OF assms found_user_live [OF assms Some]]])
       (fastforce simp: GetMsgConn_def dest: map_of_SomeD)
qed (simp add: GetMsgConnByHandle_def)

lemma calm_to_handle [calm_intros]:
  assumes "at_rest e st0 st"
  shows "okR (at_rest e st0) (to_handle e need_open user_id handle data st)"
  unfolding to_handle_def
proof (rule okR_bind [OF calm_GetMsgConnByHandle [OF assms]])
  fix r
  assume r: "\<forall>a. r = Some a \<longrightarrow> live a (ms_conns st0)"
  show "okR (at_rest e st0) (case r of None \<Rightarrow> Inr st
      | Some a \<Rightarrow> bindR (deref a (ms_conns st)) (\<lambda>c. if need_open \<and> \<not> mc_open c then Inr st else to_client e a data st))"
    using r assms by (cases r) (auto intro!: okR_bind [OF calm_deref] calm_to_client)
qed

lemma calm_HandleKickUser [calm_intros]:
  assumes "at_rest e st0 st" "user_live st0 u" "live a (ms_conns st0)"
  shows "okR (at_rest e st0) (HandleKickUser e u a reason st)"
  unfolding HandleKickUser_def
proof (rule okR_bind [OF calm_deref_user [OF assms(1,2)]], rule okR_bind [OF calm_deref [OF assms(1,3)]])
  fix x c
  assume x: "deref u (ms_users st) = Inr x \<and> (\<forall>p\<in>set (iu_conn_map x). live (snd p) (ms_conns st0))"
  have set: "okR (at_rest e st0) (bindR (deref b (ms_conns st1)) (\<lambda>c1.
      Inr (st1\<lparr>ms_conns := set_obj b (c1\<lparr>mc_kick_off := True\<rparr>) (ms_conns st1)\<rparr>)))"
    if "at_rest e st0 st1" "live b (ms_conns st0)" for b st1
    using calm_on_conn [OF that, of "\<lambda>c. c\<lparr>mc_kick_off := True\<rparr>"] by (simp add: on_conn_def conn_core_def)
  show "okR (at_rest e st0) (case map_of (iu_conn_map x) (mc_handle c) of None \<Rightarrow> Inr st
      | Some a \<Rightarrow> bindR (to_client e a (wire_pdu SID_LOGIN CID_LOGIN_KICK_USER 0
          (pb_ser (pb_KickUser (e_login e)) \<lparr>ku_user_id = iu_user_id x, ku_kick_reason = reason\<rparr>)) st) (\<lambda>st1.
          bindR (deref a (ms_conns st1)) (\<lambda>c1. Inr (st1\<lparr>ms_conns := set_obj a (c1\<lparr>mc_kick_off := True\<rparr>) (ms_conns st1)\<rparr>))))"
  proof (cases "map_of (iu_conn_map x) (mc_handle c)")
    case (Some b)
    then have b: "live b (ms_conns st0)" using x by (fastforce dest: map_of_SomeD)
    show ?thesis unfolding Some option.case
      by (rule okR_bind [OF calm_to_client [OF assms(1) b]], rule set [OF _ b])
  qed (use assms(1) in simp)
qed

lemma calm_same_client_type:
  assumes "at_rest e st0 st" "\<forall>p\<in>set ps. live (snd p) (ms_conns st0)"
  shows "okR (\<lambda>r. \<forall>a. r = Some a \<longrightarrow> live a (ms_conns st0)) (same_client_type (ms_conns st) client_type frm ps)"
  using assms(2)
proof (induction ps)
  case (Cons p ps)
  then have live: "live (snd p) (ms_conns st0)" by simp
  show ?case unfolding same_client_type.simps
    by (rule okR_bind [OF calm_deref [OF assms(1) live]]) (use Cons live in auto)
qed simp

lemma calm_KickOutSameClientType [calm_intros]:
  assumes "at_rest e st0 st" "user_live st0 u"
  shows "okR (at_rest e st0) (KickOutSameClientType e u client_type reason frm st)"
  unfolding KickOutSameClientType_def
proof (rule okR_bind [OF calm_deref_user [OF assms]])
  fix x
  assume x: "deref u (ms_users st) = Inr x \<and> (\<forall>p\<in>set (iu_conn_map x). live (snd p) (ms_conns st0))"
  show "okR (at_rest e st0) (bindR (same_client_type (ms_conns st) client_type frm (iu_conn_map x))
      (\<lambda>r. case r of None \<Rightarrow> Inr st | Some a \<Rightarrow> HandleKickUser e u a reason st))"
    by (rule okR_bind [OF calm_same_client_type [OF assms(1)]], use x in blast)
       (use assms in \<open>auto intro: calm_HandleKickUser split: option.split\<close>)
qed

lemma calm_forward_request [calm_intros]:
  assumes "at_rest e st0 st" "live a (ms_conns st0)" "live d (b_heap (ms_db st0))" "\<And>h. okR (\<lambda>_. True) (att e h)"
  shows "okR (at_rest e st0) (forward_request e att a hdr p stamp d st)"
  unfolding forward_request_def
  by (rule okR_bind [OF calm_deref [OF assms(1,2)]], rule okR_bind [OF assms(4)], rule calm_to_bk(1) [OF assms(1,3)])

lemma calm_handle_attach [calm_intros]: "okR (\<lambda>_. True) (handle_attach e h)" "okR (\<lambda>_. True) (pdu_handle_attach e h)"
  by simp_all

lemma calm_file_ips [calm_intros]:
  assumes "at_rest e st0 st" "live f (b_heap (ms_file st0))"
  shows "okR (\<lambda>_. True) (file_ips f st)"
  using assms at_rest_bk_lives(5) [OF assms(1), of f] live_deref [of f "b_heap (ms_file st)"] by (auto simp: file_ips_def)

end
