(* ===== verification/MsgHandlers.thy ===== *)
theory MsgHandlers
  imports MsgCalm
begin

text \<open>
  The handlers of the message server that only send, each shown calm: from a state in which no pointer dangles the handler
  returns, with an exception or normally, and in the state after it the users, connections and back ends are the same.
\<close>

section \<open>Requests of clients\<close>

lemma calm_request_or_refuse [calm_intros]:
  assumes "at_rest e st0 st" "live a (ms_conns st0)" "\<And>h. okR (\<lambda>_. True) (att e h)"
  shows "okR (at_rest e st0) (request_or_refuse e att a hdr p stamp cid refusal st)"
  unfolding request_or_refuse_def
  by (rule calm_intros calm_steps assms | assumption)+

lemma calm_db_request [calm_intros]:
  assumes "at_rest e st0 st" "live a (ms_conns st0)" "16 \<le> length img" "\<And>h. okR (\<lambda>_. True) (att e h)"
  shows "okR (at_rest e st0) (db_request e (get_db_serv_conn e) att p a hdr img st)"
    "okR (at_rest e st0) (db_request e (get_db_serv_conn_for_login e) att p a hdr img st)"
    "okR (at_rest e st0) (db_request_plain e q a hdr img st)"
  unfolding db_request_def db_request_plain_def
  by (rule calm_intros calm_steps assms | assumption)+

text \<open>The requests that become one request to the database.\<close>

lemmas request_defs = HandleClientGetMsgListRequest_def HandleClientGetMsgByMsgIdRequest_def HandleClientUnreadMsgCntRequest_def
  HandleClientGetLatestMsgIDReq_def HandleClientUserInfoRequest_def HandleClientAllUserRequest_def HandleChangeAvatarRequest_def
  HandleClientDepartmentRequest_def HandleChangeSignInfoRequest_def HandlePushShieldRequest_def HandleQueryPushShieldRequest_def
  HandleReqVisibleRange_def

lemma calm_requests [calm_intros]:
  assumes "at_rest e st0 st" "live a (ms_conns st0)" "16 \<le> length img"
  shows "okR (at_rest e st0) (HandleClientGetMsgListRequest e a hdr img st)"
    "okR (at_rest e st0) (HandleClientGetMsgByMsgIdRequest e a hdr img st)"
    "okR (at_rest e st0) (HandleClientUnreadMsgCntRequest e a hdr img st)"
    "okR (at_rest e st0) (HandleClientGetLatestMsgIDReq e a hdr img st)"
    "okR (at_rest e st0) (HandleClientUserInfoRequest e a hdr img st)"
    "okR (at_rest e st0) (HandleClientAllUserRequest e a hdr img st)"
    "okR (at_rest e st0) (HandleChangeAvatarRequest e a hdr img st)"
    "okR (at_rest e st0) (HandleClientDepartmentRequest e a hdr img st)"
    "okR (at_rest e st0) (HandleChangeSignInfoRequest e a hdr img st)"
    "okR (at_rest e st0) (HandlePushShieldRequest e a hdr img st)"
    "okR (at_rest e st0) (HandleQueryPushShieldRequest e a hdr img st)"
    "okR (at_rest e st0) (HandleReqVisibleRange e a hdr img st)"
  unfolding request_defs by (rule calm_db_request [OF assms] calm_handle_attach)+

text \<open>The requests that also send to clients and to the route server.\<close>

lemmas client_defs = HandleHeartBeat_def HandleKickPCClient_def HandleClientDeviceToken_def HandleClientMsgDataAck_def
  HandleClientTimeRequest_def HandleClientMsgReadAck_def HandleClientP2PCmdMsg_def HandleClientRecentContactSessionRequest_def
  HandleClientRemoveSessionRequest_def HandleClientUsersStatusRequest_def HandleClientGroupNormalRequest_def HandleClientGroupInfoRequest_def
  HandleClientGroupCreateRequest_def HandleClientGroupChangeMemberRequest_def HandleClientGroupShieldGroupRequest_def
  HandleClientFileHasOfflineReq_def HandleNotifyAck_def

lemma calm_count_message:
  assumes "at_rest e st0 st" "live a (ms_conns st0)"
  shows "okR (at_rest e st0) (on_conn a (\<lambda>c. c\<lparr>mc_msg_cnt_per_sec := mc_msg_cnt_per_sec c + 1\<rparr>) st)"
  by (rule calm_on_conn [OF assms]) (simp add: conn_core_def)

lemma calm_clients [calm_intros]:
  assumes "at_rest e st0 st" "live a (ms_conns st0)" "16 \<le> length img"
  shows "okR (at_rest e st0) (HandleHeartBeat e a img st)"
    "okR (at_rest e st0) (HandleKickPCClient e a hdr img st)"
    "okR (at_rest e st0) (HandleClientDeviceToken e a hdr img st)"
    "okR (at_rest e st0) (HandleClientMsgDataAck e a img st)"
    "okR (at_rest e st0) (HandleClientTimeRequest e a hdr st)"
    "okR (at_rest e st0) (HandleClientMsgReadAck e a hdr img st)"
    "okR (at_rest e st0) (HandleClientP2PCmdMsg e a img st)"
    "okR (at_rest e st0) (HandleClientRecentContactSessionRequest e a hdr img st)"
    "okR (at_rest e st0) (HandleClientRemoveSessionRequest e a hdr img st)"
    "okR (at_rest e st0) (HandleClientUsersStatusRequest e a hdr img st)"
    "okR (at_rest e st0) (HandleClientGroupNormalRequest e hdr img a st)"
    "okR (at_rest e st0) (HandleClientGroupInfoRequest e hdr img a st)"
    "okR (at_rest e st0) (HandleClientGroupCreateRequest e hdr img a st)"
    "okR (at_rest e st0) (HandleClientGroupChangeMemberRequest e hdr img a st)"
    "okR (at_rest e st0) (HandleClientGroupShieldGroupRequest e hdr img a st)"
    "okR (at_rest e st0) (HandleClientFileHasOfflineReq e hdr img a st)"
    "okR (at_rest e st0) (HandleNotifyAck e hdr img st)"
  unfolding client_defs by (rule calm_intros calm_steps assms | assumption)+

lemma calm_HandleClientMsgData [calm_intros]:
  assumes "at_rest e st0 st" "live a (ms_conns st0)" "16 \<le> length img"
  shows "okR (at_rest e st0) (HandleClientMsgData e a hdr img st)"
  unfolding HandleClientMsgData_def by (rule calm_intros calm_steps calm_count_message assms | assumption)+

section \<open>What is relied on of the codecs\<close>

text \<open>
  Protocol buffers are limited to 2 GB: a serialised message is shorter, and a byte field of a message parsed from fewer
  bytes is shorter as well. The first is needed where a message becomes the attachment of another one,
  the second where an attachment is read.
\<close>

definition short_ser :: "'m pb \<Rightarrow> bool" where
  "short_ser p \<longleftrightarrow> (\<forall>m. short (pb_ser p m))"

definition short_field :: "'m pb \<Rightarrow> ('m \<Rightarrow> bytes option) \<Rightarrow> bool" where
  "short_field p f \<longleftrightarrow> (\<forall>b m. pb_par p b = (True, m) \<longrightarrow> short b \<longrightarrow> short (opt_bytes (f m)))"

definition codecs_short :: "env \<Rightarrow> bool" where
  "codecs_short e \<longleftrightarrow> short_ser (pb_FileTransferReq (e_server e)) \<and> short_ser (pb_PushToUserReq (e_server e))
     \<and> short_field (pb_NormalGroupListRsp (e_group e)) rp_attach_data \<and> short_field (pb_GroupCreateRsp (e_group e)) rp_attach_data
     \<and> short_field (pb_GroupChangeMemberRsp (e_group e)) rp_attach_data \<and> short_field (pb_GroupShieldRsp (e_group e)) rp_attach_data
     \<and> short_field (pb_RecentContactSessionRsp (e_buddy e)) rp_attach_data \<and> short_field (pb_AllUserRsp (e_buddy e)) rp_attach_data
     \<and> short_field (pb_UsersInfoRsp (e_buddy e)) rp_attach_data \<and> short_field (pb_RemoveSessionRsp (e_buddy e)) rp_attach_data
     \<and> short_field (pb_DepartmentRsp (e_buddy e)) rp_attach_data \<and> short_field (pb_ChangeSignInfoRsp (e_buddy e)) rp_attach_data
     \<and> short_field (pb_GetMsgListRsp (e_message e)) rp_attach_data \<and> short_field (pb_GetMsgByIdRsp (e_message e)) rp_attach_data
     \<and> short_field (pb_GetLatestMsgIdRsp (e_message e)) rp_attach_data \<and> short_field (pb_UnreadMsgCntRsp (e_message e)) rp_attach_data
     \<and> short_field (pb_PushShieldRsp (e_login e)) rp_attach_data \<and> short_field (pb_QueryPushShieldRsp (e_login e)) rp_attach_data
     \<and> short_field (pb_MsgData (e_message e)) md_attach_data \<and> short_field (pb_FileHasOfflineRsp (e_file e)) fh_attach_data
     \<and> short_field (pb_FileTransferRsp (e_server e)) fp_attach_data \<and> short_field (pb_ValidateRsp (e_server e)) vr_attach_data"

lemma short_fieldD: "short_field p f \<Longrightarrow> pb_par p (drop 16 img) = (True, m) \<Longrightarrow> short img \<Longrightarrow> short (opt_bytes (f m))"
  by (auto simp: short_field_def)

section \<open>Files\<close>

text \<open>A field of the user with an id, when there is one.\<close>

lemma calm_peek_user:
  assumes "at_rest e st0 st"
  shows "okR (\<lambda>_. True) (case GetImUserById user_id st of None \<Rightarrow> Inr b | Some u \<Rightarrow> bindR (deref u (ms_users st)) (\<lambda>x. Inr (f x)))"
proof (cases "GetImUserById user_id st")
  case (Some u)
  show ?thesis unfolding Some option.case
    by (rule okR_bind [OF calm_deref_user [OF assms found_user_live [OF assms Some]]]) simp
qed simp

lemma calm_attach_pdu:
  assumes "short_ser p"
  shows "okR (\<lambda>_. True) (CPduAttachData_ser fresh t h (of_nat (length (pb_ser p m))) (Some (pb_ser p m)) 0)"
  using assms by (simp add: attach_pdu_ok short_ser_def)

lemma calm_HandleClientFileRequest [calm_intros]:
  assumes "at_rest e st0 st" "live a (ms_conns st0)" "16 \<le> length img" "short_ser (pb_FileTransferReq (e_server e))"
  shows "okR (at_rest e st0) (HandleClientFileRequest e hdr img a st)"
  unfolding HandleClientFileRequest_def
  by (rule calm_peek_user calm_attach_pdu [OF assms(4)] calm_intros calm_steps assms | assumption)+

lemma calm_get_pair:
  assumes "okR (picked e p st0) m"
    "\<And>st1. at_rest e st0 st1 \<Longrightarrow> okR R (f (None, st1))"
    "\<And>d st1. at_rest e st0 st1 \<Longrightarrow> live d (b_heap (bk p st0)) \<Longrightarrow> okR R (f (Some d, st1))"
  shows "okR R (bindR m f)"
proof (rule okR_bind [OF assms(1)])
  fix x
  assume "picked e p st0 x"
  then show "okR R (f x)" using assms(2,3) by (cases x; cases "fst x") (auto simp: picked_def)
qed

lemma calm_announce_file:
  assumes "at_rest e st0 st" "live f (b_heap (ms_file st0))"
  shows "okR (\<lambda>r. at_rest e st0 (snd r)) (announce_file e hdr from_id msg f st)"
  unfolding announce_file_def
proof (rule okR_bind [OF calm_file_ips [OF assms]], rule okR_option)
  fix ips u
  assume "GetImUserById (fa_to_user_id msg) st = Some u"
  from calm_broadcasts(1) [OF assms(1) found_user_live [OF assms(1) this]]
  show "okR (\<lambda>r. at_rest e st0 (snd r)) (bindR (BroadcastPdu e u data None st) (\<lambda>st1. Inr (True, st1)))" for data
    by (rule okR_bind) simp
qed (use assms(1) in simp)

lemma calm_HandleClientFileAddOfflineReq [calm_intros]:
  assumes "at_rest e st0 st" "live a (ms_conns st0)" "16 \<le> length img"
  shows "okR (at_rest e st0) (HandleClientFileAddOfflineReq e hdr img a st)"
  unfolding HandleClientFileAddOfflineReq_def
proof (rule calm_parsed [OF assms(3,1)], rule okR_bind [OF calm_deref [OF assms(1,2)]], rule calm_get_pair [OF calm_get_file [OF assms(1)]];
    unfold prod.case option.case bindR_simps)
  fix msg c st1
  assume "at_rest e st0 st1"
  then show "okR (at_rest e st0) (if_db e (\<lambda>d. to_db e d (data1 d)) st1)" for data1
    by (intro calm_intros)
next
  fix msg c f st1
  assume "at_rest e st0 st1" "live f (b_heap (bk File st0))"
  then show "okR (at_rest e st0) (bindR (announce_file e hdr (mc_user_id c) msg f st1) (\<lambda>(pushed, st2). if_db e (\<lambda>d. to_db e d (data2 pushed)) st2))" for data2
    by (intro okR_bind [OF calm_announce_file]) (auto intro!: calm_intros)
qed

text \<open>When both servers are connected, the two pointers that \<open>HandleClientFileDelOfflineReq\<close> does not test are not \<open>NULL\<close>.\<close>

definition servers_open :: "msg_server \<Rightarrow> bool" where
  "servers_open st \<longleftrightarrow> open_set (ms_db st) (b_server_list (ms_db st)) \<noteq> {} \<and> open_set (ms_file st) (b_server_list (ms_file st)) \<noteq> {}"

lemma same_bk_open_set:
  assumes "same_bk b b'"
  shows "open_set b' ss = open_set b ss"
proof -
  have "is_open b' a = is_open b a" for a
    using assms same_heap_deref [of serv_core "b_heap b" "b_heap b'" a] same_heap_deref_back [of serv_core "b_heap b" "b_heap b'" a]
    unfolding same_bk_def is_open_def by (auto simp: serv_core_def)
  then show ?thesis by (simp add: open_set_def)
qed

lemma calm_servers_open:
  assumes "calm st st'"
  shows "servers_open st' \<longleftrightarrow> servers_open st"
proof -
  have "same_bk (ms_db st) (ms_db st')" "same_bk (ms_file st) (ms_file st')"
    using assms unfolding calm_def steady_def by (metis bk.simps)+
  then show ?thesis by (simp add: servers_open_def same_bk_open_set) (simp add: same_bk_def)
qed

lemma open_set_append: "open_set b (xs @ ys) = open_set b xs \<union> open_set b ys"
  by (auto simp: open_set_def)

lemma calm_get_db_open:
  assumes "at_rest e st0 st" "servers_open st"
  shows "okR (\<lambda>r. picked e Db st0 r \<and> servers_open (snd r) \<and> fst r \<noteq> None) (get_db_serv_conn e st)"
  unfolding get_db_serv_conn_def
proof (rule okR_bind [OF calm_draw_other [OF assms(1) assms(1)]], clarify)
  let ?n = "g_db_server_login_count st" and ?ss = "b_server_list (ms_db st)"
  fix c st1
  assume c: "picked e Db st0 (c, st1)" "calm st (snd (c, st1))"
    "fst (c, st1) = None \<longrightarrow> open_set (ms_db st) (drop ?n (take (length ?ss) ?ss)) = {}"
  have same: "same_bk (ms_db st) (ms_db st1)" "g_db_server_login_count st1 = ?n"
    using c(2) unfolding calm_def steady_def snd_conv by (metis bk.simps)+
  have "open_set (ms_db st) ?ss \<noteq> {}" using assms(2) by (simp add: servers_open_def)
  then have some: "open_set (ms_db st) (take ?n ?ss) \<noteq> {}" if "c = None"
    using that c(3) open_set_append [of "ms_db st" "take ?n ?ss" "drop ?n ?ss"] by simp
  have open1: "servers_open st1" using c(2) assms(2) calm_servers_open by simp
  show "okR (\<lambda>r. picked e Db st0 r \<and> servers_open (snd r) \<and> fst r \<noteq> None)
      (if c \<noteq> None then Inr (c, st1) else draw_db e 0 (g_db_server_login_count st1) st1)"
  proof (cases c)
    case None
    have "at_rest e st0 st1" using c(1) by (simp add: picked_def)
    from calm_draw_login [OF this this] show ?thesis
      unfolding same(2) using None some same(1) open1
      by (auto simp: same_bk_open_set same_bk_def calm_servers_open elim!: okR_mono)
  qed (use c(1) open1 in simp)
qed

lemma rotation_all:
  assumes "ss \<noteq> []"
  shows "set (map (\<lambda>i. ss ! ((n + i + 1) mod length ss)) [0..<length ss]) = set ss"
proof -
  let ?l = "length ss"
  have "\<exists>i<?l. (n + i + 1) mod ?l = j" if "j < ?l" for j
  proof -
    let ?i = "(j + (?l - (n + 1) mod ?l)) mod ?l"
    have "(n + ?i + 1) mod ?l = ((n + 1) + ?i) mod ?l" by (simp only: ac_simps)
    also have "\<dots> = ((n + 1) + (j + (?l - (n + 1) mod ?l))) mod ?l" by (simp only: mod_add_right_eq)
    also have "\<dots> = ((n + 1) mod ?l + (j + (?l - (n + 1) mod ?l))) mod ?l" by (simp only: mod_add_left_eq)
    also have "(n + 1) mod ?l + (j + (?l - (n + 1) mod ?l)) = j + ?l"
      using mod_less_divisor [of ?l "n + 1"] assms by (simp del: mod_less_divisor)
    finally show ?thesis using that assms by (intro exI [of _ ?i]) simp
  qed
  then have im: "(\<lambda>i. (n + i + 1) mod ?l) ` {0..<?l} = {0..<?l}"
    using assms by (fastforce simp: image_iff)
  have "set (map (\<lambda>i. ss ! ((n + i + 1) mod ?l)) [0..<?l]) = (!) ss ` ((\<lambda>i. (n + i + 1) mod ?l) ` {0..<?l})"
    by (simp add: image_image)
  then show ?thesis unfolding im by (simp add: nth_image)
qed

lemma calm_get_file_open:
  assumes "at_rest e st0 st" "servers_open st"
  shows "okR (\<lambda>r. picked e File st0 r \<and> True \<and> fst r \<noteq> None) (get_random_file_serv_conn e st)"
proof -
  let ?ss = "b_server_list (ms_file st)"
  have live: "conns_live (ms_file st) ?ss"
    using assms by (auto simp: at_rest_iff wired_def bk_live_def dest: spec [of _ File])
  have ne: "?ss \<noteq> []" using assms(2) by (auto simp: servers_open_def open_set_def)
  let ?rot = "\<lambda>n. map (\<lambda>i. ?ss ! ((n + i + 1) mod length ?ss)) [0..<length ?ss]"
  have "\<exists>a. first_open (ms_file st) (?rot n) = Inr (Some a)" for n
  proof -
    have rot: "conns_live (ms_file st) (?rot n)" using live unfolding rotation_all [OF ne] .
    have "open_set (ms_file st) (?rot n) \<noteq> {}"
      using assms(2) unfolding open_set_def rotation_all [OF ne] servers_open_def by blast
    then show ?thesis using first_open_spec [OF rot] by blast
  qed
  then obtain g where "first_open (ms_file st) (?rot n) = Inr (Some (g n))" for n by metis
  then have "get_random_file_serv_conn e st = Inr r \<Longrightarrow> fst r \<noteq> None" for r
    using ne by (auto simp: get_random_file_serv_conn_def Let_def bindR_Inr_iff split: list.splits if_splits)
  then show ?thesis using calm_get_file [OF assms(1)]
    by (cases "get_random_file_serv_conn e st") auto
qed

lemma calm_tell_sender:
  assumes "at_rest e st0 st" "live f (b_heap (ms_file st0))"
  shows "okR (\<lambda>r. at_rest e st0 (snd r)) (tell_sender e msg (Some f) st)"
proof (cases "GetImUserById (fd_from_user_id msg) st")
  case (Some u)
  show ?thesis unfolding tell_sender_def Some option.case must_def bindR_simps
    by (rule okR_bind [OF calm_file_ips [OF assms]], rule okR_bind [OF calm_broadcasts(1) [OF assms(1) found_user_live [OF assms(1) Some]]]) simp
qed (use assms(1) in \<open>simp add: tell_sender_def\<close>)

lemma calm_get_some:
  assumes "okR (\<lambda>r. picked e p st0 r \<and> S (snd r) \<and> fst r \<noteq> None) m"
    "\<And>d st1. at_rest e st0 st1 \<Longrightarrow> live d (b_heap (bk p st0)) \<Longrightarrow> S st1 \<Longrightarrow> okR R (f (Some d, st1))"
  shows "okR R (bindR m f)"
proof (rule okR_bind [OF assms(1)])
  fix x
  assume "picked e p st0 x \<and> S (snd x) \<and> fst x \<noteq> None"
  then show "okR R (f x)" using assms(2) by (cases x) (auto simp: picked_def)
qed

lemma calm_HandleClientFileDelOfflineReq [calm_intros]:
  assumes "at_rest e st0 st" "16 \<le> length img" "servers_open st"
  shows "okR (at_rest e st0) (HandleClientFileDelOfflineReq e hdr img a st)"
  unfolding HandleClientFileDelOfflineReq_def
  apply (rule calm_parsed [OF assms(2,1)])
  apply (rule calm_get_some [OF calm_get_db_open [OF assms(1,3)]])
  apply (unfold prod.case)
  apply (rule calm_get_some [where S = "\<lambda>_. True", OF calm_get_file_open], assumption+)
  apply (unfold prod.case)
  apply (rule okR_bind [OF calm_tell_sender])
  apply (auto simp: must_def intro: calm_intros)
  done

lemma calm_ips_or_none:
  assumes "at_rest e st0 st"
  shows "okR (at_rest e st0) (bindR (get_random_file_serv_conn e st) (\<lambda>(pFileConn, st1).
    bindR (case pFileConn of None \<Rightarrow> Inr [] | Some f \<Rightarrow> file_ips f st1) (\<lambda>ips. to_handle e b user_id handle (data ips) st1)))"
  apply (rule calm_get_pair [OF calm_get_file [OF assms]])
   apply (unfold prod.case option.case bindR_simps)
   apply (rule calm_intros calm_steps | assumption | (simp; fail))+
  done

lemma calm_HandleFileHasOfflineRes [calm_intros]:
  assumes "at_rest e st0 st" "16 \<le> length img" "short img" "short_field (pb_FileHasOfflineRsp (e_file e)) fh_attach_data"
  shows "okR (at_rest e st0) (HandleFileHasOfflineRes e hdr img st)"
  unfolding HandleFileHasOfflineRes_def
  by (rule calm_parsed [OF assms(2,1)], rule okR_bind [OF calm_attach_handle], erule short_fieldD [OF assms(4) _ assms(3)])
     (rule calm_ips_or_none [OF assms(1)])

lemma calm_HandleFileServerIPRsp [calm_intros]:
  assumes "at_rest e st0 st" "16 \<le> length img" "live f (b_heap (ms_file st0))"
  shows "okR (at_rest e st0) (HandleFileServerIPRsp e f hdr img st)"
  unfolding HandleFileServerIPRsp_def
proof (rule calm_parsed [OF assms(2,1)], rule calm_on_bk(5) [OF assms(1)])
  fix ips
  obtain c where c: "deref f (b_heap (ms_file st)) = Inr c"
    using assms at_rest_bk_lives(5) [OF assms(1), of f] live_deref by blast
  have "same_heap serv_core (b_heap (ms_file st)) (set_obj f (c\<lparr>sv_ip_list := sv_ip_list c @ ips\<rparr>) (b_heap (ms_file st)))"
    using c by (intro same_heap_set_obj) (simp_all add: serv_core_def)
  then show "\<exists>b' out. bindR (deref f (b_heap (ms_file st))) (\<lambda>c. Inr ((ms_file st)\<lparr>b_heap :=
      set_obj f (c\<lparr>sv_ip_list := sv_ip_list c @ ips\<rparr>) (b_heap (ms_file st))\<rparr>, [])) = Inr (b', out) \<and> same_bk (ms_file st) b'"
    using c by (simp add: same_bk_def)
qed

lemma calm_file_handlers [calm_intros]:
  assumes "at_rest e st0 st" "16 \<le> length img" "short img" "short_field (pb_FileTransferRsp (e_server e)) fp_attach_data"
    "live f (b_heap (ms_file st0))"
  shows "okR (at_rest e st0) (HandleFileMsgTransRsp e f hdr img st)"
    "okR (at_rest e st0) (HandleFileNotify_dbserver e hdr img st)"
  unfolding HandleFileMsgTransRsp_def HandleFileNotify_dbserver_def
  by (rule calm_intros calm_steps assms | erule short_fieldD [OF assms(4) _ assms(3)] | assumption)+

text \<open>All that a file server can send.\<close>

lemma calm_file_HandlePdu:
  assumes "at_rest e st0 st" "16 \<le> length img" "short img" "codecs_short e" "live f (b_heap (ms_file st0))"
  shows "okR (at_rest e st0) (file_HandlePdu e f hdr img st)"
  using assms unfolding file_HandlePdu_def codecs_short_def Let_def by (simp add: calm_intros)

section \<open>Groups\<close>

lemma calm_answer_client [calm_intros]:
  assumes "at_rest e st0 st" "short (opt_bytes (rp_attach_data msg))"
  shows "okR (at_rest e st0) (answer_client e need_open hdr p msg st)"
  unfolding answer_client_def by (rule calm_intros calm_steps assms | assumption)+

lemma calm_rsp:
  assumes "at_rest e st0 st" "16 \<le> length img" "short img" "short_field p rp_attach_data"
  shows "okR (at_rest e st0) (parsed p img (\<lambda>msg. answer_client e need_open hdr p msg st) st)"
  by (rule calm_parsed [OF assms(2,1)], rule calm_answer_client [OF assms(1)], erule short_fieldD [OF assms(4) _ assms(3)])

lemma calm_group_responses [calm_intros]:
  assumes "at_rest e st0 st" "16 \<le> length img" "short img" "codecs_short e"
  shows "okR (at_rest e st0) (HandleGroupNormalResponse e hdr img st)"
    "okR (at_rest e st0) (HandleGroupCreateResponse e hdr img st)"
    "okR (at_rest e st0) (HandleGroupShieldGroupResponse e hdr img st)"
  unfolding HandleGroupNormalResponse_def HandleGroupCreateResponse_def HandleGroupShieldGroupResponse_def
  using assms(4) by (intro calm_rsp [OF assms(1-3)]; simp add: codecs_short_def)+

lemma calm_HandleGroupGetShieldByGroupResponse [calm_intros]:
  assumes "at_rest e st0 st" "16 \<le> length img"
  shows "okR (at_rest e st0) (HandleGroupGetShieldByGroupResponse e hdr img st)"
  unfolding HandleGroupGetShieldByGroupResponse_def by (rule calm_intros calm_steps assms | assumption)+

lemma calm_deliver_members:
  assumes "at_rest e st0 st"
  shows "okR (at_rest e st0) (deliver_members e pdu user_id h ms st)"
  using assms
proof (induction ms arbitrary: st)
  case (Cons m ms)
  have frm: "okR (\<lambda>_. True) (if m = user_id \<and> h \<noteq> 0 then GetMsgConnByHandle user_id h st else Inr None)"
    using okR_mono [OF calm_GetMsgConnByHandle [OF Cons.prems], of "\<lambda>_. True"] by simp
  have "okR (at_rest e st0) (case GetImUserById m st of None \<Rightarrow> Inr st
      | Some u \<Rightarrow> bindR (if m = user_id \<and> h \<noteq> 0 then GetMsgConnByHandle user_id h st else Inr None)
          (\<lambda>pFromConn. BroadcastData e u pdu pFromConn st))"
    by (rule okR_option, simp add: Cons.prems, rule okR_bind [OF frm])
       (rule calm_broadcasts(4) [OF Cons.prems], erule found_user_live [OF Cons.prems])
  then show ?case unfolding deliver_members.simps by (rule okR_bind) (rule Cons.IH)
qed simp

text \<open>The attachment of the members' list is one the server wrote.\<close>

definition info_in_range :: "env \<Rightarrow> bytes \<Rightarrow> bool" where
  "info_in_range e img \<longleftrightarrow> (\<forall>m. pb_par (pb_GroupInfoListRsp (e_group e)) (drop 16 img) = (True, m)
     \<longrightarrow> pdu_in_range (opt_bytes (gp_attach_data m)))"

lemma calm_HandleGroupInfoResponse [calm_intros]:
  assumes "at_rest e st0 st" "16 \<le> length img" "info_in_range e img"
  shows "okR (at_rest e st0) (HandleGroupInfoResponse e hdr img st)"
  unfolding HandleGroupInfoResponse_def
proof (rule calm_parsed [OF assms(2,1)], unfold Let_def, rule okR_bind [OF calm_attach_par])
  fix m r
  assume m: "pb_par (pb_GroupInfoListRsp (e_group e)) (drop 16 img) = (True, m)"
  then show "pdu_in_range (opt_bytes (gp_attach_data m))" using assms(3) by (simp add: info_in_range_def)
  assume r: "\<exists>body. attached_pdu (opt_bytes (gp_attach_data m)) r = Inr body \<and> length body \<le> length (opt_bytes (gp_attach_data m))"
  then obtain body where body: "attached_pdu (opt_bytes (gp_attach_data m)) r = Inr body" by blast
  show "okR (at_rest e st0) (case (0 < snd (snd r), gp_group_info_list m) of
      (True, group_info # _) \<Rightarrow> if gp_user_id m \<notin> set (gi_group_member_list group_info) then Inr st
        else bindR (attached_pdu (opt_bytes (gp_attach_data m)) r) (\<lambda>body. case pb_par (pb_MsgData (e_message e)) body of
            (False, _) \<Rightarrow> Inr st
          | (True, msg2) \<Rightarrow> bindR (deliver_members e (pdu msg2) (gp_user_id m) (da_handle (fst r)) (gi_group_member_list group_info) st)
              (if_db e (\<lambda>d. to_db e d (data group_info msg2))))
    | (True, []) \<Rightarrow> Inr st
    | (False, _) \<Rightarrow> to_handle e False (gp_user_id m) (da_handle (fst r)) rsp st)" for pdu data rsp
    unfolding body bindR_simps
    by (rule okR_prod okR_bool okR_list okR_if okR_Inr assms(1) calm_to_handle calm_bind calm_deliver_members calm_with_db calm_to_bk | assumption)+
qed

lemma calm_query_group [calm_intros]:
  assumes "at_rest e st0 st" "short body"
  shows "okR (at_rest e st0) (query_group e handle body msg st)"
  unfolding query_group_def attach_pdu_ok [OF assms(2)] bindR_simps by (rule calm_intros calm_steps assms | assumption)+

lemma calm_group_messages [calm_intros]:
  assumes "at_rest e st0 st" "16 \<le> length img" "short img" "short_field (pb_MsgData (e_message e)) md_attach_data"
  shows "okR (at_rest e st0) (HandleGroupMessage e hdr img st)"
    "okR (at_rest e st0) (HandleGroupMessageBroadcast e hdr img st)"
  unfolding HandleGroupMessage_def HandleGroupMessageBroadcast_def
  by (rule calm_intros calm_steps assms(1,2) | erule short_fieldD [OF assms(4) _ assms(3)] | assumption | (use assms(3) in simp; fail))+

lemma calm_send_to_users [calm_intros]:
  assumes "at_rest e st0 st"
  shows "okR (at_rest e st0) (send_to_users e data frm us st)"
  using assms
proof (induction us arbitrary: st)
  case (Cons u us)
  have "okR (at_rest e st0) (SendPduToUser e data u frm st)"
    unfolding SendPduToUser_def by (rule calm_to_user [OF Cons.prems], rule calm_broadcasts(1) [OF Cons.prems])
  then show ?case unfolding send_to_users.simps by (rule okR_bind) (rule Cons.IH)
qed simp

text \<open>A send to a connection that was looked up.\<close>

lemma calm_to_found:
  assumes "at_rest e st0 st" "\<forall>a. r = Some a \<longrightarrow> live a (ms_conns st0)"
  shows "okR (at_rest e st0) (case r of None \<Rightarrow> Inr st | Some a \<Rightarrow> to_client e a data st)"
  using assms by (auto intro: calm_to_client split: option.split)

lemma calm_group_change [calm_intros]:
  assumes "at_rest e st0 st" "16 \<le> length img" "short img" "short_field (pb_GroupChangeMemberRsp (e_group e)) rp_attach_data"
  shows "okR (at_rest e st0) (HandleGroupChangeMemberResponse e hdr img st)"
    "okR (at_rest e st0) (HandleGroupChangeMemberBroadcast e hdr img st)"
  unfolding HandleGroupChangeMemberResponse_def HandleGroupChangeMemberBroadcast_def
  by (rule calm_to_found calm_intros calm_steps assms(1,2) | erule short_fieldD [OF assms(4) _ assms(3)] | assumption)+

section \<open>Responses of the database\<close>

lemmas response_defs = HandleRecentSessionResponse_def HandleAllUserResponse_def HandleGetMsgListResponse_def HandleGetMsgByIdResponse_def
  HandleGetLatestMsgIDRsp_def HandleUnreadMsgCountResponse_def HandleUsersInfoResponse_def HandleRemoveSessionResponse_def
  HandleDepartmentResponse_def HandlePushShieldResponse_def HandleQueryPushShieldResponse_def db_response_def

lemma calm_responses [calm_intros]:
  assumes "at_rest e st0 st" "16 \<le> length img" "short img" "codecs_short e"
  shows "okR (at_rest e st0) (HandleRecentSessionResponse e hdr img st)"
    "okR (at_rest e st0) (HandleAllUserResponse e hdr img st)"
    "okR (at_rest e st0) (HandleGetMsgListResponse e hdr img st)"
    "okR (at_rest e st0) (HandleGetMsgByIdResponse e hdr img st)"
    "okR (at_rest e st0) (HandleGetLatestMsgIDRsp e hdr img st)"
    "okR (at_rest e st0) (HandleUnreadMsgCountResponse e hdr img st)"
    "okR (at_rest e st0) (HandleUsersInfoResponse e hdr img st)"
    "okR (at_rest e st0) (HandleRemoveSessionResponse e hdr img st)"
    "okR (at_rest e st0) (HandleDepartmentResponse e hdr img st)"
    "okR (at_rest e st0) (HandlePushShieldResponse e hdr img st)"
    "okR (at_rest e st0) (HandleQueryPushShieldResponse e hdr img st)"
  unfolding response_defs using assms(4) by (intro calm_rsp [OF assms(1-3)]; simp add: codecs_short_def)+

lemma calm_changes [calm_intros]:
  assumes "at_rest e st0 st" "16 \<le> length img" "short img" "short_field (pb_ChangeSignInfoRsp (e_buddy e)) rp_attach_data"
  shows "okR (at_rest e st0) (HandleChangeSignInfoResponse e hdr img st)"
    "okR (at_rest e st0) (HandleChangeAvatarResponse e hdr img st)"
    "okR (at_rest e st0) (HandleSetDeviceTokenResponse e img st)"
  unfolding HandleChangeSignInfoResponse_def HandleChangeAvatarResponse_def HandleSetDeviceTokenResponse_def
  by (rule calm_intros calm_steps assms(1,2) | erule short_fieldD [OF assms(4) _ assms(3)] | assumption)+

lemma calm_HandleMsgData [calm_intros]:
  assumes "at_rest e st0 st" "16 \<le> length img" "short img" "short_field (pb_MsgData (e_message e)) md_attach_data"
    "live d (b_heap (ms_db st0))"
  shows "okR (at_rest e st0) (HandleMsgData e d hdr img st)"
  unfolding HandleMsgData_def
  by (rule calm_to_found calm_intros calm_steps assms | erule short_fieldD [OF assms(4) _ assms(3)] | assumption)+

lemma calm_build_ios_push_flash:
  assumes "at_rest e st0 st"
  shows "okR (\<lambda>_. True) (build_ios_push_flash flash msg_type from_id st)"
  unfolding build_ios_push_flash_def Let_def
  by (rule okR_if, simp, rule calm_peek_user [OF assms])

lemma calm_push_tokens:
  assumes "at_rest e st0 st" "short_ser (pb_PushToUserReq (e_server e))"
  shows "okR (\<lambda>r. at_rest e st0 (snd r)) (push_tokens e flash data from_id ts st)"
  using assms(1)
proof (induction ts arbitrary: st)
  case (Cons t ts)
  have here: "okR (\<lambda>r. at_rest e st0 (snd r)) (bindR (deref u (ms_users st)) (\<lambda>x.
      bindR (push_tokens e flash data from_id ts st) (\<lambda>(l, st1). Inr (f x # l, st1))))"
    if "GetImUserById (ut_user_id t) st = Some u" for u f
    by (rule okR_bind [OF calm_deref_user [OF Cons.prems found_user_live [OF Cons.prems that]]], rule okR_bind [OF Cons.IH [OF Cons.prems]])
       (auto split: prod.split)
  have ask: "okR (\<lambda>r. at_rest e st0 (snd r)) (let body = pb_ser (pb_PushToUserReq (e_server e)) m in
      bindR (CPduAttachData_ser (e_fresh e) ATTACH_TYPE_PDU_FOR_PUSH 0 (of_nat (length body)) (Some body) 0) (\<lambda>att.
      bindR (if_route e (g att) st) (push_tokens e flash data from_id ts)))" for m g
    unfolding Let_def
    by (rule okR_bind [OF calm_attach_pdu [OF assms(2)]], rule calm_bind [OF calm_if_route [OF Cons.prems]], rule Cons.IH)
  show ?case unfolding push_tokens.simps
    by (rule okR_if, rule Cons.IH [OF Cons.prems], rule okR_option, rule ask, erule here)
qed simp

lemma calm_HandleGetDeviceTokenResponse [calm_intros]:
  assumes "at_rest e st0 st" "16 \<le> length img" "short_ser (pb_PushToUserReq (e_server e))"
  shows "okR (at_rest e st0) (HandleGetDeviceTokenResponse e img st)"
proof -
  have push: "okR (at_rest e st0) (bindR (push_tokens e flash data from_id ts st) (\<lambda>(tokens, st1).
      if tokens = [] then Inr st1 else bindR (get_push_serv_conn st1) (\<lambda>p. case p of None \<Rightarrow> Inr st1 | Some p \<Rightarrow> to_push e p (h tokens) st1)))"
    for flash data from_id ts h
    by (rule okR_bind [OF calm_push_tokens [OF assms(1,3)]])
       (auto split: prod.split option.split intro!: okR_bind [OF calm_get_push] calm_to_bk)
  show ?thesis unfolding HandleGetDeviceTokenResponse_def Let_def
    by (rule calm_parsed [OF assms(2,1)], rule okR_prod, rule okR_bool)
       (rule okR_option okR_Inr assms(1) okR_bind [OF calm_build_ios_push_flash [OF assms(1)]] push)+
qed

section \<open>Notifications of the route server\<close>

lemmas notify_defs = HandleFileNotify_def HandleKickUser_route_def HandleStatusNotify_def HandleMsgReadNotify_def HandleP2PMsg_def HandleRemoveSessionNotify_def
  HandleSignInfoChangedNotify_def

lemma calm_notifications [calm_intros]:
  assumes "at_rest e st0 st" "16 \<le> length img"
  shows "okR (at_rest e st0) (HandleKickUser_route e img st)"
    "okR (at_rest e st0) (HandleStatusNotify e img st)"
    "okR (at_rest e st0) (HandleMsgReadNotify e img st)"
    "okR (at_rest e st0) (HandleP2PMsg e img st)"
    "okR (at_rest e st0) (HandleRemoveSessionNotify e img st)"
    "okR (at_rest e st0) (HandleSignInfoChangedNotify e img st)"
    "okR (at_rest e st0) (HandleFileNotify e hdr img st)"
  unfolding notify_defs by (rule calm_intros calm_steps assms | assumption)+

lemma user_live_heap: "user_live st u \<Longrightarrow> live u (ms_users st)"
  by (auto simp: user_live_def intro: deref_live)

lemma calm_HandlePCLoginStatusNotify [calm_intros]:
  assumes "at_rest e st0 st" "16 \<le> length img"
  shows "okR (at_rest e st0) (HandlePCLoginStatusNotify e img st)"
  unfolding HandlePCLoginStatusNotify_def
proof (rule calm_parsed [OF assms(2,1)], rule okR_prod, rule calm_to_user [OF assms(1)])
  fix u and s :: u32
  assume u: "user_live st0 u"
  have "okR (at_rest e st0) (on_user u (\<lambda>x. x\<lparr>iu_pc_login_status := s\<rparr>) st)"
    by (rule calm_on_user [OF assms(1) user_live_heap [OF u]]) (simp add: user_core_def)
  then show "okR (at_rest e st0) (bindR (on_user u (\<lambda>x. x\<lparr>iu_pc_login_status := s\<rparr>) st) (BroadcastPduToMobile e u data None))" for data
    by (rule calm_bind) (rule calm_broadcasts(3) [OF _ u])
qed

lemma calm_HandleMsgData_route [calm_intros]:
  assumes "at_rest e st0 st" "16 \<le> length img" "short img" "short_field (pb_MsgData (e_message e)) md_attach_data"
  shows "okR (at_rest e st0) (HandleMsgData_route e hdr img st)"
  unfolding HandleMsgData_route_def by (rule calm_intros calm_steps assms | assumption)+

text \<open>
  What is relied on of an answer to a status query: its attachment is one the server wrote, it has an entry for the user
  asked about, and an attached push request has a token.
\<close>

definition stat_in_range :: "env \<Rightarrow> bytes \<Rightarrow> bool" where
  "stat_in_range e img \<longleftrightarrow> (\<forall>m. pb_par (pb_BuddyUsersStatRsp (e_buddy e)) (drop 16 img) = (True, m) \<longrightarrow>
     pdu_in_range (sp_attach_data m) \<and> sp_user_stat_list m \<noteq> [] \<and>
     (\<forall>r body m2. attached_pdu (sp_attach_data m) r = Inr body \<longrightarrow> pb_par (pb_PushToUserReq (e_server e)) body = (True, m2)
        \<longrightarrow> pu_user_token_list m2 \<noteq> []))"

lemma calm_push_after_query:
  assumes "at_rest e st0 st" "\<And>m2. pb_par (pb_PushToUserReq (e_server e)) body = (True, m2) \<Longrightarrow> pu_user_token_list m2 \<noteq> []"
  shows "okR (at_rest e st0) (push_after_query e status body st)"
  unfolding push_after_query_def Let_def
  by (rule okR_prod, rule okR_bool, rule okR_list)
     (use assms in \<open>auto split: option.split intro!: okR_bind [OF calm_get_push] calm_to_bk\<close>)

lemma calm_file_after_query:
  assumes "at_rest e st0 st"
  shows "okR (at_rest e st0) (file_after_query e hdr status handle body st)"
  unfolding file_after_query_def by (rule calm_intros calm_steps assms | assumption)+

lemma calm_HandleUsersStatusResponse [calm_intros]:
  assumes "at_rest e st0 st" "16 \<le> length img" "stat_in_range e img"
  shows "okR (at_rest e st0) (HandleUsersStatusResponse e hdr img st)"
  unfolding HandleUsersStatusResponse_def
proof (rule calm_parsed [OF assms(2,1)], unfold Let_def, rule okR_bind [OF calm_attach_par])
  fix m r
  assume m: "pb_par (pb_BuddyUsersStatRsp (e_buddy e)) (drop 16 img) = (True, m)"
  then show "pdu_in_range (sp_attach_data m)" using assms(3) by (simp add: stat_in_range_def)
  assume "\<exists>body. attached_pdu (sp_attach_data m) r = Inr body \<and> length body \<le> length (sp_attach_data m)"
  then obtain body where body: "attached_pdu (sp_attach_data m) r = Inr body" by blast
  have tok: "pu_user_token_list m2 \<noteq> []" if "pb_par (pb_PushToUserReq (e_server e)) body = (True, m2)" for m2
    using assms(3) m body that unfolding stat_in_range_def by blast
  have "sp_user_stat_list m \<noteq> []" using assms(3) m by (simp add: stat_in_range_def)
  then obtain s where "first_stat m = Inr s" by (cases "sp_user_stat_list m") (auto simp: first_stat_def)
  then show "okR (at_rest e st0) (if da_type (fst r) = ATTACH_TYPE_HANDLE then to_handle e False (sp_user_id m) (da_handle (fst r)) rsp st
      else if da_type (fst r) = ATTACH_TYPE_PDU_FOR_PUSH
      then bindR (first_stat m) (\<lambda>s. bindR (attached_pdu (sp_attach_data m) r) (\<lambda>body. push_after_query e (snd s) body st))
      else if da_type (fst r) = ATTACH_TYPE_HANDLE_AND_PDU_FOR_FILE
      then bindR (first_stat m) (\<lambda>s. bindR (attached_pdu (sp_attach_data m) r) (\<lambda>body. file_after_query e hdr (snd s) (da_handle (fst r)) body st))
      else Inr st)" for rsp
    using assms(1) by (simp add: body calm_to_handle calm_push_after_query [OF _ tok] calm_file_after_query)
qed

section \<open>Whole dispatch tables\<close>

lemma calm_run_handler:
  assumes "at_rest e st0 st" "\<And>h. (cid, h) \<in> set table \<Longrightarrow> okR (at_rest e st0) (h st)"
  shows "okR (at_rest e st0) (run_handler table cid st)"
  using assms by (auto simp: run_handler_def dest: map_of_SomeD split: option.split)

lemma calm_route_HandlePdu:
  assumes "at_rest e st0 st" "16 \<le> length img" "short img" "codecs_short e"
    "h_command_id hdr = CID_BUDDY_LIST_USERS_STATUS_RESPONSE \<Longrightarrow> stat_in_range e img"
  shows "okR (at_rest e st0) (route_HandlePdu e hdr img st)"
proof -
  have sign: "okR (at_rest e st0) (bindR (HandleSignInfoChangedNotify e img st) (HandleGroupChangeMemberBroadcast e hdr img))"
    using assms(4) by (intro calm_bind [OF calm_notifications(6) [OF assms(1,2)]] calm_group_change(2)) (simp_all add: assms codecs_short_def)
  show ?thesis unfolding route_HandlePdu_def
  proof (rule calm_run_handler [OF assms(1)])
    fix h
    assume "(h_command_id hdr, h) \<in> set (route_handlers e hdr img)"
    then show "okR (at_rest e st0) (h st)"
      using assms sign by (auto simp: route_handlers_def codecs_short_def intro!: calm_intros)
  qed
qed

text \<open>What a client may send without changing the registry: everything but a login, a logout, and the report of a download while a server is missing.\<close>

lemma calm_client_HandlePdu:
  assumes "at_rest e st0 st" "live a (ms_conns st0)" "16 \<le> length img" "codecs_short e"
    "h_command_id hdr \<notin> {CID_LOGIN_REQ_USERLOGIN, CID_LOGIN_REQ_LOGINOUT}"
    "h_command_id hdr = CID_FILE_DEL_OFFLINE_REQ \<Longrightarrow> servers_open st"
  shows "okR (at_rest e st0) (HandlePdu e a hdr img st)"
proof -
  have run: "okR (at_rest e st0) (run_handler (client_handlers e a hdr img) (h_command_id hdr) st)"
  proof (rule calm_run_handler [OF assms(1)])
    fix h
    assume "(h_command_id hdr, h) \<in> set (client_handlers e a hdr img)"
    then show "okR (at_rest e st0) (h st)"
      using assms by (auto simp: client_handlers_def codecs_short_def intro!: calm_requests calm_clients calm_HandleClientMsgData
        calm_HandleClientFileRequest calm_HandleClientFileAddOfflineReq calm_HandleClientFileDelOfflineReq)
  qed
  show ?thesis unfolding HandlePdu_def
    by (rule okR_bind [OF calm_deref [OF assms(1,2)]]) (use run in simp)
qed

lemma calm_db_HandlePdu:
  assumes "at_rest e st0 st" "16 \<le> length img" "short img" "codecs_short e" "live d (b_heap (ms_db st0))"
    "h_command_id hdr \<notin> {CID_OTHER_VALIDATE_RSP, CID_OTHER_STOP_RECV_PACKET}"
    "h_command_id hdr = CID_GROUP_INFO_RESPONSE \<Longrightarrow> info_in_range e img"
  shows "okR (at_rest e st0) (db_HandlePdu e d hdr img st)"
  unfolding db_HandlePdu_def
proof (rule calm_run_handler [OF assms(1)])
  fix h
  assume "(h_command_id hdr, h) \<in> set (db_handlers e d hdr img)"
  then show "okR (at_rest e st0) (h st)"
    using assms by (auto simp: db_handlers_def codecs_short_def intro!: calm_responses calm_changes calm_HandleMsgData
      calm_HandleGetDeviceTokenResponse calm_group_responses calm_HandleGroupGetShieldByGroupResponse calm_HandleGroupInfoResponse
      calm_group_change calm_HandleFileHasOfflineRes)
qed

end
