(* ===== verification/Backends.thy ===== *)
theory Backends
  imports MsgHandlers
begin

text \<open>
  The invariant of a back end of the message server (\<open>ServInfo.h\<close> and the connection classes): every connection object in the server
  list knows its place there, every object in the map of handles is in the server list, and the references to an object are the
  one of the list and the ones of running callbacks. Closing, confirming, reconnecting and the timers keep it, so no
  pointer in the list or the map ever dangles.
\<close>

section \<open>Invariant\<close>

definition owned :: "backend \<Rightarrow> nat \<Rightarrow> bool" where
  "owned b a \<longleftrightarrow> (\<exists>i<length (b_server_list b). si_serv_conn (b_server_list b ! i) = Some a)"

definition slot_ok :: "backend \<Rightarrow> nat \<Rightarrow> bool" where
  "slot_ok b i \<longleftrightarrow> (\<forall>a. si_serv_conn (b_server_list b ! i) = Some a \<longrightarrow> (\<exists>c. deref a (b_heap b) = Inr c \<and> sv_serv_idx c = i))"

definition handle_ok :: "backend \<Rightarrow> u32 \<Rightarrow> nat \<Rightarrow> bool" where
  "handle_ok b h a \<longleftrightarrow> h \<noteq> NETLIB_INVALID_HANDLE \<and> (\<exists>c. deref a (b_heap b) = Inr c \<and> sv_handle c = h
     \<and> sv_serv_idx c < length (b_server_list b) \<and> si_serv_conn (b_server_list b ! sv_serv_idx c) = Some a)"

definition bk_inv :: "(nat \<Rightarrow> int) \<Rightarrow> backend \<Rightarrow> bool" where
  "bk_inv k b \<longleftrightarrow> heap_ok (b_heap b) \<and> hm_ok (b_conn_map b)
     \<and> (\<forall>i<length (b_server_list b). slot_ok b i)
     \<and> (\<forall>h a. map_of (b_conn_map b) h = Some a \<longrightarrow> handle_ok b h a)
     \<and> (\<forall>a. refs a (b_heap b) = k a + (if owned b a then 1 else 0))"

lemma bk_invI:
  assumes "heap_ok (b_heap b)" "hm_ok (b_conn_map b)" "\<And>i. i < length (b_server_list b) \<Longrightarrow> slot_ok b i"
    "\<And>h a. map_of (b_conn_map b) h = Some a \<Longrightarrow> handle_ok b h a"
    "\<And>a. refs a (b_heap b) = k a + (if owned b a then 1 else 0)"
  shows "bk_inv k b"
  using assms by (simp add: bk_inv_def)

lemma bk_invD:
  assumes "bk_inv k b"
  shows "heap_ok (b_heap b)" "hm_ok (b_conn_map b)" "i < length (b_server_list b) \<Longrightarrow> slot_ok b i"
    "map_of (b_conn_map b) h = Some a \<Longrightarrow> handle_ok b h a"
    "refs a (b_heap b) = k a + (if owned b a then 1 else 0)"
  using assms by (simp_all add: bk_inv_def)

lemma owned_live: "bk_inv k b \<Longrightarrow> owned b a \<Longrightarrow> live a (b_heap b)"
  using deref_live by (fastforce simp: owned_def slot_ok_def dest: bk_invD(3))

lemma owned_idx: "bk_inv k b \<Longrightarrow> deref a (b_heap b) = Inr c \<Longrightarrow> owned b a \<Longrightarrow>
    sv_serv_idx c < length (b_server_list b) \<and> si_serv_conn (b_server_list b ! sv_serv_idx c) = Some a"
  using bk_invD(3) [of k b] by (fastforce simp: owned_def slot_ok_def)

lemma refs_live: "refs a h \<noteq> 0 \<Longrightarrow> live a h"
  by (auto simp: refs_def live_def split: option.splits)

lemma bk_inv_held: "bk_inv k b \<Longrightarrow> 0 < k a \<Longrightarrow> live a (b_heap b)"
  using bk_invD(5) [of k b a] by (intro refs_live) auto

lemma handle_okE:
  assumes "handle_ok b h a"
  obtains c where "h \<noteq> NETLIB_INVALID_HANDLE" "deref a (b_heap b) = Inr c" "sv_handle c = h"
    "sv_serv_idx c < length (b_server_list b)" "si_serv_conn (b_server_list b ! sv_serv_idx c) = Some a"
  using assms by (auto simp: handle_ok_def)

lemma handle_ok_owned: "handle_ok b h a \<Longrightarrow> owned b a"
  by (auto simp: handle_ok_def owned_def)

lemma bk_inv_live: "bk_inv k b \<Longrightarrow> bk_live b"
  using owned_live by (fastforce simp: bk_live_def owned_def in_set_conv_nth)

lemma same_bk_inv:
  assumes "same_bk b b'" "bk_inv k b"
  shows "bk_inv k b'"
proof -
  have s: "b_server_list b' = b_server_list b" "b_conn_map b' = b_conn_map b" "same_heap serv_core (b_heap b) (b_heap b')"
    using assms(1) by (auto simp: same_bk_def)
  have "\<exists>c'. deref a (b_heap b') = Inr c' \<and> serv_core c' = serv_core c" if "deref a (b_heap b) = Inr c" for a c
    using same_heap_deref [OF s(3) that] .
  then have "slot_ok b i \<Longrightarrow> slot_ok b' i" "handle_ok b h a \<Longrightarrow> handle_ok b' h a" for i h a
    unfolding slot_ok_def handle_ok_def s(1) serv_core_def by (metis prod.inject)+
  moreover have "refs a (b_heap b') = refs a (b_heap b)" "live a (b_heap b') = live a (b_heap b)" "owned b' a = owned b a" for a
    using s(3) same_heap_live [OF s(3), of a] by (auto simp: same_heap_def owned_def s(1))
  ultimately show ?thesis using assms(2) s(3) unfolding bk_inv_def s(1,2) by (auto simp: same_heap_def)
qed

section \<open>Closing a connection\<close>

lemma live_set_obj [simp]: "live x (set_obj a y h) \<longleftrightarrow> live x h"
  by (auto simp: live_def set_obj_def map_of_hm_assign split: option.split)

lemma bk_inv_reset:
  assumes inv: "bk_inv k b" and c: "deref a (b_heap b) = Inr c" "sv_serv_idx c < length (b_server_list b)"
    "si_serv_conn (b_server_list b ! sv_serv_idx c) = Some a"
  shows "b_heap (serv_reset (sv_serv_idx c) b) = b_heap b" "b_conn_map (serv_reset (sv_serv_idx c) b) = b_conn_map b"
    "length (b_server_list (serv_reset (sv_serv_idx c) b)) = length (b_server_list b)"
    "\<And>i. i < length (b_server_list b) \<Longrightarrow> si_serv_conn (b_server_list (serv_reset (sv_serv_idx c) b) ! i) =
      (if i = sv_serv_idx c then None else si_serv_conn (b_server_list b ! i))"
    "owned (serv_reset (sv_serv_idx c) b) x \<longleftrightarrow> owned b x \<and> x \<noteq> a"
proof -
  let ?b = "serv_reset (sv_serv_idx c) b"
  show "b_heap ?b = b_heap b" "b_conn_map ?b = b_conn_map b" and len: "length (b_server_list ?b) = length (b_server_list b)"
    by (simp_all add: serv_reset_def)
  show s: "si_serv_conn (b_server_list ?b ! i) = (if i = sv_serv_idx c then None else si_serv_conn (b_server_list b ! i))"
    if "i < length (b_server_list b)" for i
    using that c(2) by (simp add: serv_reset_def reset_info_def Let_def nth_list_update)
  have "i = sv_serv_idx c" if "i < length (b_server_list b)" "si_serv_conn (b_server_list b ! i) = Some a" for i
    using bk_invD(3) [OF inv that(1)] that(2) c(1) by (auto simp: slot_ok_def)
  then show "owned ?b x \<longleftrightarrow> owned b x \<and> x \<noteq> a"
    using s c(2,3) unfolding owned_def len by (metis option.inject option.simps(3))
qed

lemma bk_inv_Close:
  assumes inv: "bk_inv k b" and h: "map_of (b_conn_map b) h = Some a"
  shows "\<exists>b' out. serv_Close clear a b = Inr (b', out) \<and> bk_inv k b' \<and> b_conn_map b' = map_erase h (b_conn_map b)
    \<and> length (b_server_list b') = length (b_server_list b) \<and> (\<forall>x. owned b' x \<longleftrightarrow> owned b x \<and> x \<noteq> a) \<and> (0 < k a \<longrightarrow> live a (b_heap b'))"
proof -
  obtain c where c: "h \<noteq> NETLIB_INVALID_HANDLE" "deref a (b_heap b) = Inr c" "sv_handle c = h"
    "sv_serv_idx c < length (b_server_list b)" "si_serv_conn (b_server_list b ! sv_serv_idx c) = Some a"
    using bk_invD(4) [OF inv h] by (rule handle_okE)
  note reset = bk_inv_reset [OF inv c(2,4,5)]
  let ?r = "serv_reset (sv_serv_idx c) b"
  define hp where "hp = (if clear then set_obj a (c\<lparr>sv_open := False\<rparr>) (b_heap b) else b_heap b)"
  have hp: "heap_ok hp" "live a hp" "refs x hp = refs x (b_heap b)" "live x hp = live x (b_heap b)" for x
    using bk_invD(1) [OF inv] deref_live [OF c(2)]
    by (simp_all add: hp_def heap_ok_set_obj)
  have hd: "\<exists>d'. deref x hp = Inr d' \<and> sv_handle d' = sv_handle d \<and> sv_serv_idx d' = sv_serv_idx d" if "deref x (b_heap b) = Inr d" for x d
    using that c(2) by (auto simp: hp_def deref_set_obj)
  obtain h' where h': "release_ref a hp = Inr h'" "heap_ok h'"
    "\<And>x. deref x h' = (if x = a \<and> refs a hp = 1 then Inl MemFault else deref x hp)"
    "\<And>x. refs x h' = refs x hp - (if x = a then 1 else 0)"
    using release_ref_spec [OF hp(1,2)] by blast
  let ?b = "\<lparr>b_server_list = b_server_list ?r, b_conn_map = map_erase h (b_conn_map b), b_heap = h'\<rparr>"
  have "refs a (b_heap b) = k a + 1"
    using bk_invD(5) [OF inv, of a] c(4,5) by (auto simp: owned_def)
  then have refs_a: "refs a hp = k a + 1" using hp(3) by simp
  have close: "serv_Close clear a b = Inr (?b, [NetClose h])"
    using c(1,2,3) h'(1) reset(1,2) by (cases ?r) (auto simp: serv_Close_def Let_def hp_def)
  have other: "\<exists>d'. deref x h' = Inr d' \<and> sv_handle d' = sv_handle d \<and> sv_serv_idx d' = sv_serv_idx d"
    if "deref x (b_heap b) = Inr d" "x \<noteq> a" for x d using hd [OF that(1)] h'(3) [of x] that(2) by simp
  have inv': "bk_inv k ?b"
  proof (rule bk_invI)
    show "heap_ok (b_heap ?b)" "hm_ok (b_conn_map ?b)" using h'(2) hm.ok_erase bk_invD(2) [OF inv] by simp_all
  next
    fix i
    assume i: "i < length (b_server_list ?b)"
    have "x \<noteq> a" if "si_serv_conn (b_server_list ?r ! i) = Some x" for x
    proof -
      have "si_serv_conn (b_server_list b ! i) = Some x" "i \<noteq> sv_serv_idx c"
        using that reset(4) [of i] i by (auto simp: reset(3) split: if_splits)
      then show ?thesis using bk_invD(3) [OF inv, of i] i c(2) by (auto simp: reset(3) slot_ok_def)
    qed
    then show "slot_ok ?b i"
      using bk_invD(3) [OF inv, of i] i reset(4) [of i] other by (fastforce simp: slot_ok_def reset(3) split: if_splits)
  next
    fix g x
    assume "map_of (b_conn_map ?b) g = Some x"
    then have g: "map_of (b_conn_map b) g = Some x" "g \<noteq> h" by (auto simp: map_of_map_erase split: if_splits)
    obtain d where d: "g \<noteq> NETLIB_INVALID_HANDLE" "deref x (b_heap b) = Inr d" "sv_handle d = g"
      "sv_serv_idx d < length (b_server_list b)" "si_serv_conn (b_server_list b ! sv_serv_idx d) = Some x"
      using bk_invD(4) [OF inv g(1)] by (rule handle_okE)
    have "x \<noteq> a" using d(2,3) c(2,3) g(2) by auto
    then show "handle_ok ?b g x"
      using other [OF d(2)] d reset(4) [OF d(4)] c(5) by (auto simp: handle_ok_def reset(3))
  next
    fix x
    have "owned ?b x \<longleftrightarrow> owned b x \<and> x \<noteq> a" using reset(5) [of x] by (simp add: owned_def)
    moreover have "refs x (b_heap b) = k x + (if owned b x then 1 else 0)"
      using bk_invD(5) [OF inv] by simp
    ultimately show "refs x (b_heap ?b) = k x + (if owned ?b x then 1 else 0)"
      using h'(4) [of x] refs_a hp(3) [of x] by auto
  qed
  have "0 < k a \<longrightarrow> live a h'" using h'(3) [of a] refs_a hd [OF c(2)] by (auto intro: deref_live)
  moreover have "owned ?b x \<longleftrightarrow> owned b x \<and> x \<noteq> a" for x using reset(5) [of x] by (simp add: owned_def)
  ultimately show ?thesis using close inv' reset(3) by auto
qed

section \<open>Changes that keep the list and the map\<close>

text \<open>One object changes, but not its handle and its place.\<close>

lemma bk_inv_set_obj:
  assumes inv: "bk_inv k b" and c: "deref a (b_heap b) = Inr c" "sv_handle c' = sv_handle c" "sv_serv_idx c' = sv_serv_idx c"
    and ss: "length ss = length (b_server_list b)" "\<And>i. i < length ss \<Longrightarrow> si_serv_conn (ss ! i) = si_serv_conn (b_server_list b ! i)"
  shows "bk_inv k (b\<lparr>b_heap := set_obj a c' (b_heap b), b_server_list := ss\<rparr>)" (is "bk_inv k ?b")
    "owned (b\<lparr>b_heap := set_obj a c' (b_heap b), b_server_list := ss\<rparr>) x \<longleftrightarrow> owned b x"
proof -
  show own: "owned ?b x \<longleftrightarrow> owned b x" for x using ss by (auto simp: owned_def)
  have d: "\<exists>d'. deref x (b_heap ?b) = Inr d' \<and> sv_handle d' = sv_handle d \<and> sv_serv_idx d' = sv_serv_idx d"
    if "deref x (b_heap b) = Inr d" for x d
    using that c by (auto simp: deref_set_obj)
  show "bk_inv k ?b"
  proof (rule bk_invI)
    fix i
    assume "i < length (b_server_list ?b)"
    then show "slot_ok ?b i" using bk_invD(3) [OF inv, of i] d ss by (fastforce simp: slot_ok_def)
  next
    fix h x
    assume "map_of (b_conn_map ?b) h = Some x"
    then have "handle_ok b h x" using bk_invD(4) [OF inv] by simp
    then show "handle_ok ?b h x" using d ss by (fastforce simp: handle_ok_def)
  next
    fix x
    show "refs x (b_heap ?b) = k x + (if owned ?b x then 1 else 0)"
      using bk_invD(5) [OF inv, of x] own by simp
  qed (use bk_invD(1,2) [OF inv] in \<open>simp_all add: heap_ok_set_obj\<close>)
qed

lemma bk_inv_confirmed:
  assumes inv: "bk_inv k b" and own: "owned b a"
    and stamp: "\<And>c. sv_handle (stamp c) = sv_handle c" "\<And>c. sv_serv_idx (stamp c) = sv_serv_idx c"
  shows "\<exists>b'. serv_confirmed stamp a b = Inr b' \<and> bk_inv k b' \<and> b_conn_map b' = b_conn_map b
    \<and> length (b_server_list b') = length (b_server_list b) \<and> (\<forall>x. owned b' x \<longleftrightarrow> owned b x)"
proof -
  obtain c where c: "deref a (b_heap b) = Inr c" using owned_live [OF inv own] live_deref by blast
  note idx = owned_idx [OF inv c own]
  let ?ss = "(b_server_list b)[sv_serv_idx c := (b_server_list b ! sv_serv_idx c)\<lparr>reconnect_cnt := MIN_RECONNECT_CNT div 2\<rparr>]"
  let ?b = "b\<lparr>b_heap := set_obj a (stamp (c\<lparr>sv_open := True\<rparr>)) (b_heap b), b_server_list := ?ss\<rparr>"
  have "serv_confirmed stamp a b = Inr ?b" using c idx by (simp add: serv_confirmed_def)
  moreover have "si_serv_conn (?ss ! i) = si_serv_conn (b_server_list b ! i)" if "i < length ?ss" for i
    using that by (cases "i = sv_serv_idx c") simp_all
  ultimately show ?thesis
    using bk_inv_set_obj [OF inv c, of "stamp (c\<lparr>sv_open := True\<rparr>)" ?ss] stamp by simp
qed

section \<open>Holding a connection during a callback\<close>

definition serv_add_ref :: "nat \<Rightarrow> backend \<Rightarrow> (backend \<times> net_out list) res" where
  "serv_add_ref a b = bindR (add_ref a (b_heap b)) (\<lambda>h. Inr (b\<lparr>b_heap := h\<rparr>, []))"

definition serv_release :: "nat \<Rightarrow> backend \<Rightarrow> (backend \<times> net_out list) res" where
  "serv_release a b = bindR (release_ref a (b_heap b)) (\<lambda>h. Inr (b\<lparr>b_heap := h\<rparr>, []))"

lemma bk_inv_hold:
  assumes inv: "bk_inv k b" and a: "live a (b_heap b)"
  shows "\<exists>b'. serv_add_ref a b = Inr (b', []) \<and> bk_inv (k(a := k a + 1)) b' \<and> b_conn_map b' = b_conn_map b
    \<and> b_server_list b' = b_server_list b \<and> (\<forall>x. deref x (b_heap b') = deref x (b_heap b))"
proof -
  obtain h where h: "add_ref a (b_heap b) = Inr h" "heap_ok h" "\<And>x. deref x h = deref x (b_heap b)"
    "\<And>x. refs x h = refs x (b_heap b) + (if x = a then 1 else 0)"
    using add_ref_spec [OF bk_invD(1) [OF inv] a] by blast
  let ?b = "b\<lparr>b_heap := h\<rparr>"
  have live: "live x h \<longleftrightarrow> live x (b_heap b)" for x using h(3) by (metis deref_live live_deref)
  have own: "owned ?b x \<longleftrightarrow> owned b x" for x by (simp add: owned_def)
  have "bk_inv (k(a := k a + 1)) ?b"
  proof (rule bk_invI)
    fix x
    show "refs x (b_heap ?b) = (k(a := k a + 1)) x + (if owned ?b x then 1 else 0)"
      using bk_invD(5) [OF inv, of x] h(4) [of x] by (simp add: own live)
  qed (use bk_invD [OF inv] h in \<open>auto simp: slot_ok_def handle_ok_def\<close>)
  then show ?thesis using h(1,3) by (simp add: serv_add_ref_def)
qed

lemma bk_inv_drop:
  assumes inv: "bk_inv k b" and a: "live a (b_heap b)" "0 < k a"
  shows "\<exists>b'. serv_release a b = Inr (b', []) \<and> bk_inv (k(a := k a - 1)) b' \<and> b_conn_map b' = b_conn_map b
    \<and> b_server_list b' = b_server_list b"
proof -
  obtain h where h: "release_ref a (b_heap b) = Inr h" "heap_ok h"
    "\<And>x. deref x h = (if x = a \<and> refs a (b_heap b) = 1 then Inl MemFault else deref x (b_heap b))"
    "\<And>x. refs x h = refs x (b_heap b) - (if x = a then 1 else 0)"
    using release_ref_spec [OF bk_invD(1) [OF inv] a(1)] by blast
  let ?b = "b\<lparr>b_heap := h\<rparr>"
  have refs: "refs a (b_heap b) = k a + (if owned b a then 1 else 0)" using bk_invD(5) [OF inv] .
  have keep: "deref x h = deref x (b_heap b)" if "owned b x" for x
    using h(3) [of x] refs that a(2) by auto
  have own: "owned ?b x \<longleftrightarrow> owned b x" for x by (simp add: owned_def)
  have "bk_inv (k(a := k a - 1)) ?b"
  proof (rule bk_invI)
    fix i
    assume i: "i < length (b_server_list ?b)"
    have "deref x h = deref x (b_heap b)" if "si_serv_conn (b_server_list b ! i) = Some x" for x
      using keep [of x] i that by (auto simp: owned_def)
    then show "slot_ok ?b i" using bk_invD(3) [OF inv, of i] i by (auto simp: slot_ok_def)
  next
    fix g x
    assume "map_of (b_conn_map ?b) g = Some x"
    then have "handle_ok b g x" using bk_invD(4) [OF inv] by simp
    then show "handle_ok ?b g x" using keep [OF handle_ok_owned] by (auto simp: handle_ok_def)
  next
    fix x
    show "refs x (b_heap ?b) = (k(a := k a - 1)) x + (if owned ?b x then 1 else 0)"
      using bk_invD(5) [OF inv, of x] h(4) [of x] by (simp add: own)
  qed (use bk_invD(1,2) [OF inv] h in simp_all)
  then show ?thesis using h(1) by (simp add: serv_release_def)
qed

end
