(* ===== verification/Registry.thy ===== *)
theory Registry
  imports Main
begin

text \<open>
  The specification of the message server's registry: who is connected, and through which connections. It abstracts from
  heaps, containers and messages: connections and users are partial functions on addresses, the registry finds connections by handle
  and users by id and by login name. The operations are the ones that clients, the database and time-outs cause. The
  invariant says that the four maps agree; \<open>idof\<close> is the id that the database has for a login name.
\<close>

section \<open>State\<close>

record ('h, 'n, 'i) conn_info =
  ci_handle :: 'h
  ci_name :: "'n list"
  ci_uid :: 'i
  ci_open :: bool

record ('h, 'n, 'i) person =
  pe_id :: 'i
  pe_name :: "'n list"
  pe_conns :: "'h \<rightharpoonup> nat"
  pe_pending :: "nat set"

record ('h, 'n, 'i) registry =
  rg_handles :: "'h \<rightharpoonup> nat"
  rg_conn :: "nat \<rightharpoonup> ('h, 'n, 'i) conn_info"
  rg_user :: "nat \<rightharpoonup> ('h, 'n, 'i) person"
  rg_by_id :: "'i \<rightharpoonup> nat"
  rg_by_name :: "'n list \<rightharpoonup> nat"

section \<open>Operations\<close>

text \<open>A new connection.\<close>

definition reg_accept :: "'h \<Rightarrow> nat \<Rightarrow> ('h, 'n, 'i::zero) registry \<Rightarrow> ('h, 'n, 'i) registry" where
  "reg_accept h a r = r\<lparr>rg_handles := (rg_handles r)(h \<mapsto> a),
     rg_conn := (rg_conn r)(a \<mapsto> \<lparr>ci_handle = h, ci_name = [], ci_uid = 0, ci_open = False\<rparr>)\<rparr>"

text \<open>A login: the connection waits with the user of its login name, made at address \<open>u\<close> when there is none.\<close>

definition pend :: "nat \<Rightarrow> ('h, 'n, 'i) person \<Rightarrow> ('h, 'n, 'i) person" where
  "pend a p = p\<lparr>pe_pending := insert a (pe_pending p)\<rparr>"

definition unpend :: "nat \<Rightarrow> ('h, 'n, 'i) person \<Rightarrow> ('h, 'n, 'i) person" where
  "unpend a p = p\<lparr>pe_pending := pe_pending p - {a}\<rparr>"

definition upd_user :: "nat \<Rightarrow> (('h, 'n, 'i) person \<Rightarrow> ('h, 'n, 'i) person) \<Rightarrow> ('h, 'n, 'i) registry \<Rightarrow> ('h, 'n, 'i) registry" where
  "upd_user u f r = r\<lparr>rg_user := (rg_user r)(u := map_option f (rg_user r u))\<rparr>"

definition upd_conn :: "nat \<Rightarrow> (('h, 'n, 'i) conn_info \<Rightarrow> ('h, 'n, 'i) conn_info) \<Rightarrow> ('h, 'n, 'i) registry \<Rightarrow> ('h, 'n, 'i) registry" where
  "upd_conn a f r = r\<lparr>rg_conn := (rg_conn r)(a := map_option f (rg_conn r a))\<rparr>"

definition reg_user_for :: "'n list \<Rightarrow> nat \<Rightarrow> ('h, 'n, 'i::zero) registry \<Rightarrow> nat \<times> ('h, 'n, 'i) registry" where
  "reg_user_for name u r =
     (case rg_by_name r name of
        Some u' \<Rightarrow> (u', r)
      | None \<Rightarrow> (u, r\<lparr>rg_by_name := (rg_by_name r)(name \<mapsto> u),
          rg_user := (rg_user r)(u \<mapsto> \<lparr>pe_id = 0, pe_name = name, pe_conns = Map.empty, pe_pending = {}\<rparr>)\<rparr>))"

definition reg_login :: "nat \<Rightarrow> 'n list \<Rightarrow> nat \<Rightarrow> ('h, 'n, 'i::zero) registry \<Rightarrow> ('h, 'n, 'i) registry" where
  "reg_login a name u r =
     (let (u', r1) = reg_user_for name u (upd_conn a (\<lambda>c. c\<lparr>ci_name := name\<rparr>) r) in upd_user u' (pend a) r1)"

text \<open>
  A login that the database confirms. A user already registered under the id takes the connection over; the user of the login name
  is then dropped, when it is another one and has no connection.
\<close>

definition drop_user :: "nat \<Rightarrow> ('h, 'n, 'i) registry \<Rightarrow> ('h, 'n, 'i) registry" where
  "drop_user u r =
     (case rg_user r u of
        None \<Rightarrow> r
      | Some p \<Rightarrow> r\<lparr>rg_user := (rg_user r)(u := None), rg_by_id := (rg_by_id r)(pe_id p := None),
                     rg_by_name := (rg_by_name r)(pe_name p := None)\<rparr>)"

definition reg_merge :: "nat \<Rightarrow> nat \<Rightarrow> 'i \<Rightarrow> ('h, 'n, 'i) registry \<Rightarrow> nat \<times> ('h, 'n, 'i) registry" where
  "reg_merge u a i r =
     (case rg_by_id r i of
        None \<Rightarrow> (u, r)
      | Some u' \<Rightarrow>
          let r1 = upd_user u (unpend a) (upd_user u' (pend a) r)
          in (u', if u = u' then r1 else drop_user u r1))"

definition admit :: "'h \<Rightarrow> nat \<Rightarrow> 'i \<Rightarrow> ('h, 'n, 'i) person \<Rightarrow> ('h, 'n, 'i) person" where
  "admit h a i p = p\<lparr>pe_id := i, pe_conns := (pe_conns p)(h \<mapsto> a), pe_pending := pe_pending p - {a}\<rparr>"

definition reg_admit :: "nat \<Rightarrow> 'h \<Rightarrow> nat \<Rightarrow> 'i \<Rightarrow> ('h, 'n, 'i) registry \<Rightarrow> ('h, 'n, 'i) registry" where
  "reg_admit u h a i r =
     (upd_user u (admit h a i) (upd_conn a (\<lambda>c. c\<lparr>ci_uid := i, ci_open := True\<rparr>) r))\<lparr>rg_by_id := (rg_by_id r)(i \<mapsto> u)\<rparr>"

text \<open>A closed connection: it leaves the user of its id and the user of its login name, which go when no connection is left.\<close>

definition drop_if_empty :: "nat \<Rightarrow> ('h, 'n, 'i) registry \<Rightarrow> ('h, 'n, 'i) registry" where
  "drop_if_empty u r = (case rg_user r u of None \<Rightarrow> r | Some p \<Rightarrow> if pe_conns p = Map.empty then drop_user u r else r)"

definition leave :: "'h \<Rightarrow> nat \<Rightarrow> ('h, 'n, 'i) person \<Rightarrow> ('h, 'n, 'i) person" where
  "leave h a p = p\<lparr>pe_conns := (pe_conns p)(h := None), pe_pending := pe_pending p - {a}\<rparr>"

definition reg_leave_id :: "'h \<Rightarrow> nat \<Rightarrow> 'i \<Rightarrow> ('h, 'n, 'i) registry \<Rightarrow> ('h, 'n, 'i) registry" where
  "reg_leave_id h a i r =
     (case rg_by_id r i of None \<Rightarrow> r | Some u \<Rightarrow> drop_if_empty u (upd_user u (leave h a) r))"

definition reg_leave_name :: "nat \<Rightarrow> 'n list \<Rightarrow> ('h, 'n, 'i) registry \<Rightarrow> ('h, 'n, 'i) registry" where
  "reg_leave_name a name r =
     (case rg_by_name r name of None \<Rightarrow> r | Some u \<Rightarrow> drop_if_empty u (upd_user u (unpend a) r))"

definition reg_close :: "nat \<Rightarrow> ('h, 'n, 'i) registry \<Rightarrow> ('h, 'n, 'i) registry" where
  "reg_close a r =
     (case rg_conn r a of
        None \<Rightarrow> r
      | Some c \<Rightarrow> reg_leave_name a (ci_name c) (reg_leave_id (ci_handle c) a (ci_uid c)
                    (r\<lparr>rg_handles := (rg_handles r)(ci_handle c := None)\<rparr>)))"

section \<open>Invariant\<close>

text \<open>A registered connection that is open has a login name and is a connection of the user with its id; one that is not open has no id yet.\<close>

definition conn_ok :: "('h, 'n, 'i::zero) registry \<Rightarrow> 'h \<Rightarrow> nat \<Rightarrow> bool" where
  "conn_ok r h a \<longleftrightarrow> (\<exists>c. rg_conn r a = Some c \<and> ci_handle c = h \<and>
     (if ci_open c then ci_name c \<noteq> [] \<and> (\<exists>u p. rg_by_id r (ci_uid c) = Some u \<and> rg_user r u = Some p \<and> pe_conns p h = Some a) else ci_uid c = 0))"

definition user_ok :: "('n list \<Rightarrow> 'i) \<Rightarrow> ('h, 'n, 'i::zero) registry \<Rightarrow> nat \<Rightarrow> ('h, 'n, 'i) person \<Rightarrow> bool" where
  "user_ok idof r u p \<longleftrightarrow> pe_name p \<noteq> [] \<and> rg_by_name r (pe_name p) = Some u
     \<and> (if pe_id p = 0 then pe_conns p = Map.empty
        else pe_id p = idof (pe_name p) \<and> rg_by_id r (pe_id p) = Some u \<and> pe_conns p \<noteq> Map.empty)
     \<and> (\<forall>h a. pe_conns p h = Some a \<longrightarrow> rg_handles r h = Some a \<and> (\<exists>c. rg_conn r a = Some c \<and> ci_open c \<and> ci_uid c = pe_id p))
     \<and> (\<forall>a\<in>pe_pending p. \<exists>c. rg_conn r a = Some c \<and> rg_handles r (ci_handle c) = Some a \<and> \<not> ci_open c \<and> ci_name c = pe_name p)"

definition reg_inv :: "('n list \<Rightarrow> 'i) \<Rightarrow> ('h, 'n, 'i::zero) registry \<Rightarrow> bool" where
  "reg_inv idof r \<longleftrightarrow> (\<forall>h a. rg_handles r h = Some a \<longrightarrow> conn_ok r h a)
     \<and> (\<forall>u p. rg_user r u = Some p \<longrightarrow> user_ok idof r u p)
     \<and> (\<forall>i u. rg_by_id r i = Some u \<longrightarrow> i \<noteq> 0 \<and> (\<exists>p. rg_user r u = Some p \<and> pe_id p = i))
     \<and> (\<forall>n u. rg_by_name r n = Some u \<longrightarrow> (\<exists>p. rg_user r u = Some p \<and> pe_name p = n))"

lemma reg_invI:
  assumes "\<And>h a. rg_handles r h = Some a \<Longrightarrow> conn_ok r h a"
    "\<And>u p. rg_user r u = Some p \<Longrightarrow> user_ok idof r u p"
    "\<And>i u. rg_by_id r i = Some u \<Longrightarrow> i \<noteq> 0 \<and> (\<exists>p. rg_user r u = Some p \<and> pe_id p = i)"
    "\<And>n u. rg_by_name r n = Some u \<Longrightarrow> \<exists>p. rg_user r u = Some p \<and> pe_name p = n"
  shows "reg_inv idof r"
  using assms by (simp add: reg_inv_def)

lemma reg_invD:
  assumes "reg_inv idof r"
  shows "rg_handles r h = Some a \<Longrightarrow> conn_ok r h a"
    "rg_user r u = Some p \<Longrightarrow> user_ok idof r u p"
    "rg_by_id r i = Some u \<Longrightarrow> i \<noteq> 0 \<and> (\<exists>p. rg_user r u = Some p \<and> pe_id p = i)"
    "rg_by_name r n = Some u \<Longrightarrow> \<exists>p. rg_user r u = Some p \<and> pe_name p = n"
  using assms by (simp_all add: reg_inv_def)

lemma user_okD:
  assumes "user_ok idof r u p"
  shows "pe_name p \<noteq> []" "rg_by_name r (pe_name p) = Some u"
    "pe_id p = 0 \<Longrightarrow> pe_conns p = Map.empty"
    "pe_id p \<noteq> 0 \<Longrightarrow> pe_id p = idof (pe_name p) \<and> rg_by_id r (pe_id p) = Some u \<and> pe_conns p \<noteq> Map.empty"
    "pe_conns p h = Some a \<Longrightarrow> rg_handles r h = Some a \<and> (\<exists>c. rg_conn r a = Some c \<and> ci_open c \<and> ci_uid c = pe_id p)"
    "a \<in> pe_pending p \<Longrightarrow> \<exists>c. rg_conn r a = Some c \<and> rg_handles r (ci_handle c) = Some a \<and> \<not> ci_open c \<and> ci_name c = pe_name p"
  using assms by (auto simp: user_ok_def split: if_splits)

lemma conn_okE:
  assumes "conn_ok r h a"
  obtains c where "rg_conn r a = Some c" "ci_handle c = h" "\<not> ci_open c" "ci_uid c = 0"
    | c u p where "rg_conn r a = Some c" "ci_handle c = h" "ci_open c" "ci_name c \<noteq> []"
      "rg_by_id r (ci_uid c) = Some u" "rg_user r u = Some p" "pe_conns p h = Some a"
  using assms unfolding conn_ok_def by (auto split: if_splits)

lemma user_ok_upd_user [simp]: "user_ok idof (upd_user v f r) u p \<longleftrightarrow> user_ok idof r u p"
  by (simp add: user_ok_def upd_user_def)

lemma upd_user_simps [simp]:
  "rg_handles (upd_user u f r) = rg_handles r" "rg_conn (upd_user u f r) = rg_conn r"
  "rg_by_id (upd_user u f r) = rg_by_id r" "rg_by_name (upd_user u f r) = rg_by_name r"
  by (simp_all add: upd_user_def)

lemma rg_user_upd_user: "rg_user (upd_user u f r) v = (if v = u then map_option f (rg_user r u) else rg_user r v)"
  by (simp add: upd_user_def)

lemma user_ok_pend:
  assumes "user_ok idof r u p" "rg_conn r a = Some c" "rg_handles r (ci_handle c) = Some a" "\<not> ci_open c" "ci_name c = pe_name p"
  shows "user_ok idof r u (pend a p)"
  using assms by (auto simp: user_ok_def pend_def)

text \<open>A change of one user that keeps its connections keeps the connections well-formed.\<close>

lemma conn_ok_upd_user:
  assumes "conn_ok r h a" "\<And>p. pe_conns (f p) h = pe_conns p h"
  shows "conn_ok (upd_user u f r) h a"
  using assms(1)
proof (cases rule: conn_okE)
  case (2 c v p)
  then have "rg_user (upd_user u f r) v = Some (if v = u then f p else p)" by (auto simp: upd_user_def)
  moreover have "pe_conns (if v = u then f p else p) h = Some a" using 2(7) assms(2) by simp
  ultimately show ?thesis using 2 unfolding conn_ok_def by (auto simp: upd_user_def)
qed (auto simp: conn_ok_def upd_user_def)

lemma reg_inv_empty: "reg_inv idof \<lparr>rg_handles = Map.empty, rg_conn = Map.empty, rg_user = Map.empty, rg_by_id = Map.empty, rg_by_name = Map.empty\<rparr>"
  by (simp add: reg_inv_def)

section \<open>The operations keep the invariant\<close>

lemma reg_inv_accept:
  assumes inv: "reg_inv idof r" and "rg_handles r h = None" "rg_conn r a = None"
  shows "reg_inv idof (reg_accept h a r)"
proof -
  have ne: "b \<noteq> a" if "rg_conn r b = Some c" for b c using that assms(3) by auto
  have conn: "conn_ok (reg_accept h a r) h' b" if "rg_handles r h' = Some b" "h' \<noteq> h" for h' b
    using reg_invD(1) [OF inv that(1)] ne by (auto simp: conn_ok_def reg_accept_def)
  have user: "user_ok idof (reg_accept h a r) u p" if "rg_user r u = Some p" for u p
    using reg_invD(2) [OF inv that] assms(2) ne unfolding user_ok_def reg_accept_def by (auto split: if_splits) (metis option.simps(3))+
  show ?thesis
  proof (rule reg_invI)
    fix h' b
    assume "rg_handles (reg_accept h a r) h' = Some b"
    then show "conn_ok (reg_accept h a r) h' b"
      using conn by (cases "h' = h") (auto simp: conn_ok_def reg_accept_def)
  qed (use reg_invD(3,4) [OF inv] user in \<open>auto simp: reg_accept_def\<close>)
qed

text \<open>Users without a connection can go; what refers to them goes with them.\<close>

lemma reg_inv_drop_user:
  assumes inv: "reg_inv idof r" and u: "rg_user r u = Some p" "pe_conns p = Map.empty"
  shows "reg_inv idof (drop_user u r)"
proof -
  let ?r = "drop_user u r"
  note up = reg_invD(2) [OF inv u(1)]
  have id0: "pe_id p = 0" using up u(2) by (auto simp: user_ok_def split: if_splits)
  then have by_id: "rg_by_id r (pe_id p) = None" using reg_invD(3) [OF inv, of "pe_id p"] by (cases "rg_by_id r (pe_id p)") auto
  then have "(rg_by_id r)(pe_id p := None) = rg_by_id r" by (simp add: fun_upd_idem)
  then have r: "?r = r\<lparr>rg_user := (rg_user r)(u := None), rg_by_name := (rg_by_name r)(pe_name p := None)\<rparr>"
    using u by (simp add: drop_user_def)
  have not_u: "v \<noteq> u" if "rg_by_id r i = Some v" for i v
    using reg_invD(3) [OF inv that] u(1) id0 by auto
  have name: "pe_name q \<noteq> pe_name p" if "rg_user r v = Some q" "v \<noteq> u" for v q
    using reg_invD(2) [OF inv that(1)] up that(2) by (auto simp: user_ok_def)
  show ?thesis
  proof (rule reg_invI)
    fix h a
    assume "rg_handles ?r h = Some a"
    then have "conn_ok r h a" using reg_invD(1) [OF inv] by (simp add: r)
    then show "conn_ok ?r h a" by (cases rule: conn_okE) (use not_u in \<open>auto simp: r conn_ok_def\<close>)
  next
    fix v q
    assume "rg_user ?r v = Some q"
    then have v: "rg_user r v = Some q" "v \<noteq> u" by (auto simp: r split: if_splits)
    then show "user_ok idof ?r v q"
      using reg_invD(2) [OF inv v(1)] name [OF v] by (auto simp: r user_ok_def)
  qed (use reg_invD(3,4) [OF inv] not_u u(1) in \<open>fastforce simp: r split: if_splits\<close>)+
qed

lemma reg_inv_login:
  assumes inv: "reg_inv idof r" and a: "rg_conn r a = Some c" "rg_handles r (ci_handle c) = Some a" "ci_name c = []"
    and "name \<noteq> []" "rg_user r u = None"
  shows "reg_inv idof (reg_login a name u r)"
proof -
  have c: "\<not> ci_open c" "ci_uid c = 0" using reg_invD(1) [OF inv a(2)] a by (auto simp: conn_ok_def split: if_splits)
  have npend: "a \<notin> pe_pending p" if "rg_user r v = Some p" for v p
    using user_okD(1,6) [OF reg_invD(2) [OF inv that]] a(1,3) by fastforce
  have nconn: "pe_conns p h \<noteq> Some a" if "rg_user r v = Some p" for v p h
    using user_okD(5) [OF reg_invD(2) [OF inv that]] a(1) c by fastforce
  let ?r1 = "upd_conn a (\<lambda>c. c\<lparr>ci_name := name\<rparr>) r"
  have inv1: "reg_inv idof ?r1"
  proof (rule reg_invI)
    fix h b
    assume "rg_handles ?r1 h = Some b"
    then show "conn_ok ?r1 h b"
      using reg_invD(1) [OF inv, of h b] a c by (cases "b = a") (auto simp: conn_ok_def upd_conn_def)
  next
    fix v p
    assume "rg_user ?r1 v = Some p"
    then show "user_ok idof ?r1 v p"
      using reg_invD(2) [OF inv, of v p] npend [of v p] nconn [of v p] unfolding user_ok_def upd_conn_def by fastforce
  qed (use reg_invD(3,4) [OF inv] in \<open>auto simp: upd_conn_def\<close>)
  define v where "v = fst (reg_user_for name u ?r1)"
  define r2 where "r2 = snd (reg_user_for name u ?r1)"
  have u1: "rg_user ?r1 u = None" using assms(6) by (simp add: upd_conn_def)
  have inv2: "reg_inv idof r2" "\<exists>p. rg_user r2 v = Some p \<and> pe_name p = name" "rg_conn r2 = rg_conn ?r1" "rg_handles r2 = rg_handles ?r1"
  proof -
    have nu: "w \<noteq> u" if "rg_by_id ?r1 i = Some w" for i w using reg_invD(3) [OF inv1 that] u1 by auto
    have nn: "w \<noteq> u" if "rg_by_name ?r1 n = Some w" for n w using reg_invD(4) [OF inv1 that] u1 by auto
    have "reg_inv idof r2" if new: "rg_by_name ?r1 name = None"
    proof -
      have r2: "r2 = ?r1\<lparr>rg_by_name := (rg_by_name ?r1)(name \<mapsto> u),
          rg_user := (rg_user ?r1)(u \<mapsto> \<lparr>pe_id = 0, pe_name = name, pe_conns = Map.empty, pe_pending = {}\<rparr>)\<rparr>"
        using new by (simp add: r2_def reg_user_for_def)
      have name: "pe_name q \<noteq> name" if "rg_user ?r1 w = Some q" for w q
        using reg_invD(2) [OF inv1 that] new by (auto simp: user_ok_def)
      show ?thesis
      proof (rule reg_invI)
        fix h b
        assume "rg_handles r2 h = Some b"
        then show "conn_ok r2 h b" using reg_invD(1) [OF inv1, of h b] nu by (fastforce simp: r2 conn_ok_def)
      next
        fix w q
        assume "rg_user r2 w = Some q"
        then show "user_ok idof r2 w q"
          using reg_invD(2) [OF inv1, of w q] name [of w q] assms(5) by (cases "w = u") (auto simp: r2 user_ok_def)
      next
        fix i w
        assume "rg_by_id r2 i = Some w"
        then show "i \<noteq> 0 \<and> (\<exists>q. rg_user r2 w = Some q \<and> pe_id q = i)"
          using reg_invD(3) [OF inv1, of i w] nu [of i w] by (simp add: r2)
      next
        fix n w
        assume "rg_by_name r2 n = Some w"
        then show "\<exists>q. rg_user r2 w = Some q \<and> pe_name q = n"
          using reg_invD(4) [OF inv1, of n w] nn [of n w] by (cases "n = name") (simp_all add: r2)
      qed
    qed
    then show "reg_inv idof r2" using inv1 by (cases "rg_by_name ?r1 name") (auto simp: r2_def reg_user_for_def)
    show "\<exists>p. rg_user r2 v = Some p \<and> pe_name p = name" "rg_conn r2 = rg_conn ?r1" "rg_handles r2 = rg_handles ?r1"
      using reg_invD(4) [OF inv1, of name] by (auto simp: r2_def v_def reg_user_for_def split: option.split)
  qed
  then obtain p where p: "rg_user r2 v = Some p" "pe_name p = name" by blast
  have "reg_login a name u r = upd_user v (pend a) r2" by (simp add: reg_login_def Let_def v_def r2_def split: prod.split)
  moreover have "reg_inv idof (upd_user v (pend a) r2)"
  proof (rule reg_invI)
    fix h b
    assume "rg_handles (upd_user v (pend a) r2) h = Some b"
    then have "conn_ok r2 h b" using reg_invD(1) [OF inv2(1)] by (simp add: upd_user_def)
    then show "conn_ok (upd_user v (pend a) r2) h b" by (rule conn_ok_upd_user) (simp add: pend_def)
  next
    fix w q
    assume "rg_user (upd_user v (pend a) r2) w = Some q"
    moreover have "user_ok idof r2 v (pend a p)"
      using reg_invD(2) [OF inv2(1) p(1)] a c p(2)
      by (intro user_ok_pend [of _ _ _ _ _ "c\<lparr>ci_name := name\<rparr>"]) (simp_all add: inv2(3,4) upd_conn_def)
    ultimately show "user_ok idof (upd_user v (pend a) r2) w q"
      using reg_invD(2) [OF inv2(1), of w q] p(1) by (auto simp: rg_user_upd_user split: if_splits)
  qed (use reg_invD(3,4) [OF inv2(1)] p(1) in \<open>fastforce simp: rg_user_upd_user pend_def\<close>)+
  ultimately show ?thesis by simp
qed

lemma reg_inv_admit:
  assumes inv: "reg_inv idof r" and u: "rg_user r u = Some p" "idof (pe_name p) = i" "i \<noteq> 0"
    and by_id: "rg_by_id r i = None \<or> rg_by_id r i = Some u"
    and a: "rg_conn r a = Some c" "rg_handles r (ci_handle c) = Some a" "\<not> ci_open c" "ci_name c \<noteq> []"
    and pending: "\<And>v q. rg_user r v = Some q \<Longrightarrow> a \<in> pe_pending q \<Longrightarrow> v = u"
  shows "reg_inv idof (reg_admit u (ci_handle c) a i r)"
proof -
  let ?h = "ci_handle c" and ?r = "reg_admit u (ci_handle c) a i r" and ?p = "admit (ci_handle c) a i p"
  have r: "rg_handles ?r = rg_handles r" "rg_conn ?r = (rg_conn r)(a \<mapsto> c\<lparr>ci_uid := i, ci_open := True\<rparr>)"
    "rg_user ?r = (rg_user r)(u \<mapsto> ?p)" "rg_by_id ?r = (rg_by_id r)(i \<mapsto> u)" "rg_by_name ?r = rg_by_name r"
    using u(1) a(1) by (simp_all add: reg_admit_def upd_user_def upd_conn_def)
  note ok = reg_invD(2) [OF inv u(1)]
  have id: "pe_id p = 0 \<or> pe_id p = i" using user_okD(4) [OF ok] u(2) by auto
  have old: "b \<noteq> a \<and> pe_id p = i" if "pe_conns p h = Some b" for h b
    using user_okD(3,5) [OF ok] that a id by fastforce
  show ?thesis
  proof (rule reg_invI)
    fix h b
    assume "rg_handles ?r h = Some b"
    then have b: "rg_handles r h = Some b" by (simp add: r)
    from reg_invD(1) [OF inv this] show "conn_ok ?r h b"
    proof (cases rule: conn_okE)
      case (1 c')
      show ?thesis
      proof (cases "b = a")
        case True
        then have "rg_conn ?r b = Some (c\<lparr>ci_uid := i, ci_open := True\<rparr>)" by (simp add: r)
        moreover have "h = ?h" using True 1 a(1) by simp
        ultimately show ?thesis using True a(4) unfolding conn_ok_def by (simp add: r admit_def)
      qed (use 1 in \<open>simp add: conn_ok_def r\<close>)
    next
      case (2 c' v q)
      then have ne: "b \<noteq> a" "h \<noteq> ?h" using a b by auto
      have "rg_by_id ?r (ci_uid c') = Some v" using 2(5) by_id by (auto simp: r)
      moreover have "\<exists>q'. rg_user ?r v = Some q' \<and> pe_conns q' h = Some b"
        using 2(6,7) ne u(1) by (cases "v = u") (auto simp: r admit_def)
      ultimately show ?thesis using 2 ne unfolding conn_ok_def by (auto simp: r(2))
    qed
  next
    fix v q
    assume "rg_user ?r v = Some q"
    then consider "v = u" "q = ?p" | "v \<noteq> u" "rg_user r v = Some q" by (auto simp: r split: if_splits)
    then show "user_ok idof ?r v q"
    proof cases
      case 1
      have "rg_handles r h = Some b \<and> (\<exists>c'. rg_conn ?r b = Some c' \<and> ci_open c' \<and> ci_uid c' = i)" if "pe_conns ?p h = Some b" for h b
        using that a user_okD(5) [OF ok, of h b] old [of h b] by (auto simp: r admit_def split: if_splits)
      moreover have "\<exists>c'. rg_conn ?r b = Some c' \<and> rg_handles r (ci_handle c') = Some b \<and> \<not> ci_open c' \<and> ci_name c' = pe_name p"
        if "b \<in> pe_pending ?p" for b using that user_okD(6) [OF ok, of b] by (auto simp: r admit_def)
      ultimately show ?thesis using 1 u(2,3) user_okD(1,2) [OF ok]
        unfolding user_ok_def by (auto simp: r(1,4,5) admit_def)
    next
      case 2
      note okv = reg_invD(2) [OF inv 2(2)]
      have "pe_id q \<noteq> i" using user_okD(4) [OF okv] by_id 2(1) u(3) by auto
      moreover have "pe_conns q h \<noteq> Some a" for h using user_okD(5) [OF okv, of h a] a by auto
      moreover have "a \<notin> pe_pending q" using pending [OF 2(2)] 2(1) by blast
      ultimately show ?thesis using okv unfolding user_ok_def by (auto simp: r split: if_splits)
    qed
  next
    fix j v
    assume "rg_by_id ?r j = Some v"
    then show "j \<noteq> 0 \<and> (\<exists>q. rg_user ?r v = Some q \<and> pe_id q = j)"
      using reg_invD(3) [OF inv, of j v] u id by (cases "j = i"; cases "v = u") (auto simp: r admit_def)
  next
    fix n v
    assume "rg_by_name ?r n = Some v"
    then show "\<exists>q. rg_user ?r v = Some q \<and> pe_name q = n"
      using reg_invD(4) [OF inv, of n v] u by (cases "v = u") (auto simp: r admit_def)
  qed
qed

text \<open>The whole answer of the database: the user of the login name may be another object than the user of the id.\<close>

definition reg_validate :: "nat \<Rightarrow> 'h \<Rightarrow> nat \<Rightarrow> 'i \<Rightarrow> ('h, 'n, 'i) registry \<Rightarrow> ('h, 'n, 'i) registry" where
  "reg_validate u h a i r = (let (u', r1) = reg_merge u a i r in reg_admit u' h a i r1)"

lemma reg_admit_pend: "reg_admit u h a i (upd_user u (pend a) r) = reg_admit u h a i r"
  by (cases "rg_user r u") (simp_all add: reg_admit_def upd_user_def upd_conn_def admit_def pend_def)

lemma reg_admit_unpend: "reg_admit u h a i (upd_user u (unpend a) r) = reg_admit u h a i r"
  by (cases "rg_user r u") (simp_all add: reg_admit_def upd_user_def upd_conn_def admit_def unpend_def)

lemma reg_inv_validate:
  assumes inv: "reg_inv idof r" and u: "rg_user r u = Some p" "a \<in> pe_pending p" "idof (pe_name p) = i" "i \<noteq> 0"
    and a: "rg_conn r a = Some c"
  shows "reg_inv idof (reg_validate u (ci_handle c) a i r)"
proof -
  note ok = reg_invD(2) [OF inv u(1)]
  have c: "rg_handles r (ci_handle c) = Some a" "\<not> ci_open c" "ci_name c = pe_name p" "ci_name c \<noteq> []"
    using user_okD(1) [OF ok] user_okD(6) [OF ok u(2)] a by auto
  have pending: "v = u" if "rg_user r v = Some q" "a \<in> pe_pending q" for v q
    using user_okD(2,6) [OF reg_invD(2) [OF inv that(1)]] that(2) user_okD(2) [OF ok] a c(3) by force
  have own: "rg_by_id r i = Some u" if "pe_id p \<noteq> 0" using user_okD(4) [OF ok that] u(3) by auto
  consider "rg_by_id r i = None" | "rg_by_id r i = Some u" | v where "rg_by_id r i = Some v" "v \<noteq> u" by auto
  then show ?thesis
  proof cases
    case 1
    then show ?thesis using reg_inv_admit [OF inv u(1,3,4) _ a c(1,2,4) pending]
      by (simp add: reg_validate_def reg_merge_def)
  next
    case 2
    then show ?thesis using reg_inv_admit [OF inv u(1,3,4) _ a c(1,2,4) pending]
      by (simp add: reg_validate_def reg_merge_def Let_def reg_admit_pend reg_admit_unpend)
  next
    case (3 v)
    have p0: "pe_conns p = Map.empty" using own 3 user_okD(3) [OF ok] by auto
    obtain q where q: "rg_user r v = Some q" "pe_id q = i" using reg_invD(3) [OF inv 3(1)] by blast
    have name: "idof (pe_name q) = i" using user_okD(4) [OF reg_invD(2) [OF inv q(1)]] q(2) u(4) by simp
    let ?d = "drop_user u r"
    have d: "rg_user ?d = (rg_user r)(u := None)" "rg_conn ?d = rg_conn r" "rg_handles ?d = rg_handles r"
      "rg_by_id ?d i = Some v"
      using u(1) 3 own user_okD(3) [OF ok] u(4) by (auto simp: drop_user_def)
    have "upd_user v (pend a) ?d = drop_user u (upd_user u (unpend a) (upd_user v (pend a) r))"
      using 3(2) u(1) by (auto simp: drop_user_def upd_user_def unpend_def fun_upd_twist)
    then have eq: "reg_validate u (ci_handle c) a i r = reg_admit v (ci_handle c) a i ?d"
      using 3 reg_admit_pend [of v "ci_handle c" a i ?d] by (simp add: reg_validate_def reg_merge_def Let_def)
    show ?thesis unfolding eq
    proof (rule reg_inv_admit [OF reg_inv_drop_user [OF inv u(1) p0]])
      show "rg_user ?d v = Some q" using q(1) 3(2) by (simp add: d)
      show "w = v" if "rg_user ?d w = Some q'" "a \<in> pe_pending q'" for w q'
        using pending that by (auto simp: d split: if_splits)
    qed (use name u(4) a c d in simp_all)
  qed
qed

lemma conn_ok_handles: "conn_ok (r\<lparr>rg_handles := g\<rparr>) h a \<longleftrightarrow> conn_ok r h a"
  by (simp add: conn_ok_def)

text \<open>A connection that no user has may be removed from the handles; a connection without a handle may be deleted.\<close>

lemma reg_inv_unregister:
  assumes inv: "reg_inv idof r"
    and free: "\<And>u p. rg_user r u = Some p \<Longrightarrow> pe_conns p h \<noteq> Some a \<and> a \<notin> pe_pending p" "rg_handles r h = Some a"
  shows "reg_inv idof (r\<lparr>rg_handles := (rg_handles r)(h := None)\<rparr>)"
proof (rule reg_invI)
  fix h' b
  assume "rg_handles (r\<lparr>rg_handles := (rg_handles r)(h := None)\<rparr>) h' = Some b"
  then show "conn_ok (r\<lparr>rg_handles := (rg_handles r)(h := None)\<rparr>) h' b"
    using reg_invD(1) [OF inv, of h' b] by (simp add: conn_ok_handles split: if_splits)
next
  fix u p
  assume "rg_user (r\<lparr>rg_handles := (rg_handles r)(h := None)\<rparr>) u = Some p"
  then have u: "rg_user r u = Some p" by simp
  note ok = reg_invD(2) [OF inv u]
  have "h' \<noteq> h" if "pe_conns p h' = Some b" for h' b using that user_okD(5) [OF ok that] free(1) [OF u] free(2) by auto
  moreover have "ci_handle c \<noteq> h" if "b \<in> pe_pending p" "rg_conn r b = Some c" for b c
    using that user_okD(6) [OF ok that(1)] free(1) [OF u] free(2) by auto
  ultimately show "user_ok idof (r\<lparr>rg_handles := (rg_handles r)(h := None)\<rparr>) u p"
    using ok unfolding user_ok_def by (auto split: if_splits) fastforce+
qed (use reg_invD(3,4) [OF inv] in auto)

lemma reg_inv_delete_conn:
  assumes inv: "reg_inv idof r" and a: "\<And>h. rg_handles r h \<noteq> Some a"
  shows "reg_inv idof (r\<lparr>rg_conn := (rg_conn r)(a := None)\<rparr>)"
proof (rule reg_invI)
  let ?r = "r\<lparr>rg_conn := (rg_conn r)(a := None)\<rparr>"
  fix h b
  assume "rg_handles ?r h = Some b"
  then show "conn_ok ?r h b" using reg_invD(1) [OF inv, of h b] a by (auto simp: conn_ok_def)
next
  fix u p
  assume "rg_user (r\<lparr>rg_conn := (rg_conn r)(a := None)\<rparr>) u = Some p"
  then show "user_ok idof (r\<lparr>rg_conn := (rg_conn r)(a := None)\<rparr>) u p"
    using reg_invD(2) [OF inv, of u p] a by (auto simp: user_ok_def)
qed (use reg_invD(3,4) [OF inv] in auto)

lemma reg_inv_unpend:
  assumes inv: "reg_inv idof r"
  shows "reg_inv idof (upd_user u (unpend a) r)"
proof (rule reg_invI)
  fix h b
  assume "rg_handles (upd_user u (unpend a) r) h = Some b"
  then show "conn_ok (upd_user u (unpend a) r) h b"
    using reg_invD(1) [OF inv] by (intro conn_ok_upd_user) (simp_all add: unpend_def)
next
  fix v p
  assume "rg_user (upd_user u (unpend a) r) v = Some p"
  then show "user_ok idof (upd_user u (unpend a) r) v p"
    using reg_invD(2) [OF inv, of v] by (auto simp: rg_user_upd_user user_ok_def unpend_def split: if_splits)
qed (use reg_invD(3,4) [OF inv] in \<open>fastforce simp: rg_user_upd_user unpend_def\<close>)+

lemma reg_inv_drop_if_empty: "reg_inv idof r \<Longrightarrow> reg_inv idof (drop_if_empty u r)"
  by (auto simp: drop_if_empty_def intro: reg_inv_drop_user split: option.split)

lemma reg_inv_leave_name: "reg_inv idof r \<Longrightarrow> reg_inv idof (reg_leave_name a name r)"
  by (auto simp: reg_leave_name_def intro!: reg_inv_drop_if_empty reg_inv_unpend split: option.split)

lemma reg_inv_leave_open:
  assumes inv: "reg_inv idof r" and a: "rg_conn r a = Some c" "rg_handles r h = Some a" "ci_open c"
    and u: "rg_by_id r (ci_uid c) = Some u" "rg_user r u = Some p" "pe_conns p h = Some a"
  shows "reg_inv idof (reg_leave_id h a (ci_uid c) (r\<lparr>rg_handles := (rg_handles r)(h := None)\<rparr>))"
proof -
  let ?q = "leave h a p" and ?g = "(rg_handles r)(h := None)"
  note ok = reg_invD(2) [OF inv u(2)]
  have id: "pe_id p = ci_uid c" "ci_uid c \<noteq> 0" using reg_invD(3) [OF inv u(1)] u(2) by auto
  have other: "v \<noteq> u \<Longrightarrow> pe_id q \<noteq> pe_id p \<and> pe_name q \<noteq> pe_name p" if "rg_user r v = Some q" for v q
    using user_okD(2,4) [OF reg_invD(2) [OF inv that]] user_okD(2,4) [OF ok] id by auto
  have conns: "h' \<noteq> h" if "rg_user r v = Some q" "pe_conns q h' = Some b" "v \<noteq> u" for v q h' b
    using user_okD(5) [OF reg_invD(2) [OF inv that(1)] that(2)] other [OF that(1)] that(3) a(1,2) id(1) by auto
  have pend: "ci_handle d \<noteq> h" if "rg_user r v = Some q" "b \<in> pe_pending q" "rg_conn r b = Some d" for v q b d
    using user_okD(6) [OF reg_invD(2) [OF inv that(1)] that(2)] that(3) a by auto
  have stay: "reg_inv idof (upd_user u (leave h a) (r\<lparr>rg_handles := ?g\<rparr>))" (is "reg_inv idof ?r") if ne: "pe_conns ?q \<noteq> Map.empty"
  proof (rule reg_invI)
    fix h' b
    assume "rg_handles ?r h' = Some b"
    then have b: "rg_handles r h' = Some b" "h' \<noteq> h" by (auto split: if_splits)
    have "conn_ok (r\<lparr>rg_handles := ?g\<rparr>) h' b" using reg_invD(1) [OF inv b(1)] by (simp add: conn_ok_handles)
    then show "conn_ok ?r h' b" by (rule conn_ok_upd_user) (simp add: leave_def b(2))
  next
    fix v q
    assume "rg_user ?r v = Some q"
    then consider "v = u" "q = ?q" | "v \<noteq> u" "rg_user r v = Some q" using u(2) by (auto simp: rg_user_upd_user split: if_splits)
    then show "user_ok idof ?r v q"
    proof cases
      case 1
      then show ?thesis using ok ne id pend [OF u(2)] unfolding user_ok_upd_user by (auto simp: user_ok_def leave_def) fastforce
    next
      case 2
      then show ?thesis using reg_invD(2) [OF inv 2(2)] conns [OF 2(2)] pend [OF 2(2)]
        unfolding user_ok_upd_user user_ok_def by fastforce
    qed
  qed (use reg_invD(3,4) [OF inv] u(2) in \<open>fastforce simp: rg_user_upd_user leave_def\<close>)+
  have go: "reg_inv idof (drop_user u (upd_user u (leave h a) (r\<lparr>rg_handles := ?g\<rparr>)))" (is "reg_inv idof ?r") if e: "pe_conns ?q = Map.empty"
  proof -
    have r: "rg_handles ?r = ?g" "rg_conn ?r = rg_conn r" "rg_user ?r = (rg_user r)(u := None)"
      "rg_by_id ?r = (rg_by_id r)(pe_id p := None)" "rg_by_name ?r = (rg_by_name r)(pe_name p := None)"
      using u(2) by (simp_all add: drop_user_def rg_user_upd_user leave_def upd_user_def)
    have last: "v \<noteq> u \<and> i \<noteq> pe_id p" if "rg_by_id r i = Some v" "rg_user r v = Some q" "pe_conns q h' = Some b" "h' \<noteq> h" for i v q h' b
      using that e u id by (auto simp: leave_def dest: fun_cong [of _ _ h'])
    show ?thesis
    proof (rule reg_invI)
      fix h' b
      assume "rg_handles ?r h' = Some b"
      then have b: "rg_handles r h' = Some b" "h' \<noteq> h" by (auto simp: r split: if_splits)
      from reg_invD(1) [OF inv b(1)] show "conn_ok ?r h' b"
      proof (cases rule: conn_okE)
        case (2 c' v q)
        then show ?thesis using last [OF 2(5,6,7) b(2)] by (auto simp: conn_ok_def r)
      qed (auto simp: conn_ok_def r)
    next
      fix v q
      assume "rg_user ?r v = Some q"
      then have v: "rg_user r v = Some q" "v \<noteq> u" by (auto simp: r split: if_splits)
      then show "user_ok idof ?r v q"
        using reg_invD(2) [OF inv v(1)] other [OF v] conns [OF v(1) _ v(2)] pend [OF v(1)] unfolding user_ok_def r by fastforce
    next
      fix i v
      assume "rg_by_id ?r i = Some v"
      then have i: "rg_by_id r i = Some v" "i \<noteq> pe_id p" by (auto simp: r split: if_splits)
      then show "i \<noteq> 0 \<and> (\<exists>q. rg_user ?r v = Some q \<and> pe_id q = i)" using reg_invD(3) [OF inv i(1)] u(2) by (auto simp: r)
    next
      fix n v
      assume "rg_by_name ?r n = Some v"
      then have n: "rg_by_name r n = Some v" "n \<noteq> pe_name p" by (auto simp: r split: if_splits)
      then show "\<exists>q. rg_user ?r v = Some q \<and> pe_name q = n" using reg_invD(4) [OF inv n(1)] u(2) by (auto simp: r)
    qed
  qed
  have q: "rg_user (upd_user u (leave h a) (r\<lparr>rg_handles := ?g\<rparr>)) u = Some ?q" using u(2) by (simp add: rg_user_upd_user)
  show ?thesis using stay go u(1) by (simp add: reg_leave_id_def drop_if_empty_def q)
qed

text \<open>Closing a registered connection keeps the invariant, and afterwards nothing refers to the connection.\<close>

lemma reg_inv_close:
  assumes inv: "reg_inv idof r" and a: "rg_handles r h = Some a"
  shows "reg_inv idof (reg_close a r)"
proof -
  from reg_invD(1) [OF inv a] show ?thesis
  proof (cases rule: conn_okE)
    case (1 c)
    let ?u = "r\<lparr>rg_handles := (rg_handles r)(h := None)\<rparr>"
    have no_id: "rg_by_id ?u (ci_uid c) = None" using reg_invD(3) [OF inv, of 0] 1(4) by (cases "rg_by_id r 0") auto
    have eq: "reg_close a r = reg_leave_name a (ci_name c) ?u"
      using 1 no_id by (simp add: reg_close_def reg_leave_id_def)
    have nconn: "pe_conns p h \<noteq> Some a" if "rg_user r u = Some p" for u p
      using user_okD(5) [OF reg_invD(2) [OF inv that], of h a] 1 by auto
    have pend: "rg_by_name r (ci_name c) = Some u" if "rg_user r u = Some p" "a \<in> pe_pending p" for u p
      using user_okD(2,6) [OF reg_invD(2) [OF inv that(1)]] that(2) 1(1) by force
    let ?w = "case rg_by_name r (ci_name c) of None \<Rightarrow> r | Some u \<Rightarrow> upd_user u (unpend a) r"
    have w: "reg_inv idof ?w" using reg_inv_unpend [OF inv] inv by (auto split: option.split)
    have "reg_inv idof (?w\<lparr>rg_handles := (rg_handles ?w)(h := None)\<rparr>)"
    proof (rule reg_inv_unregister [OF w])
      show "rg_handles ?w h = Some a" using a by (auto split: option.split)
      show "pe_conns p h \<noteq> Some a \<and> a \<notin> pe_pending p" if "rg_user ?w u = Some p" for u p
        using that nconn pend [of u] nconn [of u]
        by (auto simp: rg_user_upd_user unpend_def split: option.splits if_splits)
    qed
    moreover have "reg_leave_name a (ci_name c) ?u = (case rg_by_name r (ci_name c) of None \<Rightarrow> ?u
        | Some u \<Rightarrow> drop_if_empty u (?w\<lparr>rg_handles := (rg_handles ?w)(h := None)\<rparr>))"
      by (cases r) (auto simp: reg_leave_name_def upd_user_def split: option.split)
    ultimately show ?thesis unfolding eq by (auto intro: reg_inv_drop_if_empty split: option.splits)
  next
    case (2 c u p)
    from reg_inv_leave_open [OF inv 2(1) a 2(3,5,6,7)] show ?thesis
      using 2(1,2) by (simp add: reg_close_def reg_inv_leave_name)
  qed
qed

section \<open>Transitions\<close>

text \<open>
  The steps that the outside world causes. The database answers a login with the id that it has for the login name; a connection object goes when
  nothing refers to it any more.
\<close>

inductive reg_step :: "('n list \<Rightarrow> 'i::zero) \<Rightarrow> ('h, 'n, 'i) registry \<Rightarrow> ('h, 'n, 'i) registry \<Rightarrow> bool" for idof where
  accept: "rg_handles r h = None \<Longrightarrow> rg_conn r a = None \<Longrightarrow> reg_step idof r (reg_accept h a r)"
| login: "rg_conn r a = Some c \<Longrightarrow> rg_handles r (ci_handle c) = Some a \<Longrightarrow> ci_name c = [] \<Longrightarrow> name \<noteq> [] \<Longrightarrow> rg_user r u = None \<Longrightarrow>
    reg_step idof r (reg_login a name u r)"
| validate: "rg_user r u = Some p \<Longrightarrow> a \<in> pe_pending p \<Longrightarrow> idof (pe_name p) \<noteq> 0 \<Longrightarrow> rg_conn r a = Some c \<Longrightarrow>
    reg_step idof r (reg_validate u (ci_handle c) a (idof (pe_name p)) r)"
| close: "rg_handles r h = Some a \<Longrightarrow> reg_step idof r (reg_close a r)"
| free: "(\<And>h. rg_handles r h \<noteq> Some a) \<Longrightarrow> reg_step idof r (r\<lparr>rg_conn := (rg_conn r)(a := None)\<rparr>)"

lemma reg_inv_step: "reg_step idof r r' \<Longrightarrow> reg_inv idof r \<Longrightarrow> reg_inv idof r'"
  by (induction rule: reg_step.induct)
     (auto intro: reg_inv_accept reg_inv_login reg_inv_validate reg_inv_close reg_inv_delete_conn)

lemma reg_inv_steps: "(reg_step idof)\<^sup>*\<^sup>* r r' \<Longrightarrow> reg_inv idof r \<Longrightarrow> reg_inv idof r'"
  by (induction rule: rtranclp_induct) (auto intro: reg_inv_step)

end
