(* ===== verification/MsgRefine.thy ===== *)
theory MsgRefine
  imports Backends Registry
begin

text \<open>
  The message server implements the registry of the specification: \<open>registry_of\<close> reads the abstract registry off the objects and maps
  of the server, and each operation on clients and users changes it as the operation of the specification does, faults nowhere
  and leaves the rest of the state sound.
\<close>

section \<open>Results without exceptions\<close>

definition runs :: "'a res \<Rightarrow> ('a \<Rightarrow> bool) \<Rightarrow> bool" where
  "runs m Q \<longleftrightarrow> (case m of Inl _ \<Rightarrow> False | Inr x \<Rightarrow> Q x)"

definition no_throw :: "'a res \<Rightarrow> bool" where
  "no_throw m \<longleftrightarrow> (case m of Inl ex \<Rightarrow> \<not> thrown ex | Inr _ \<Rightarrow> True)"

named_theorems no_throw_intros \<open>rules that show that an operation throws nothing\<close>

lemma runs_Inr [simp]: "runs (Inr x) Q \<longleftrightarrow> Q x" "\<not> runs (Inl ex) Q"
  by (simp_all add: runs_def)

lemma runs_iff: "runs m Q \<longleftrightarrow> (\<exists>x. m = Inr x \<and> Q x)"
  by (cases m) simp_all

lemma runs_bind: "runs m Q \<Longrightarrow> (\<And>x. Q x \<Longrightarrow> runs (f x) R) \<Longrightarrow> runs (bindR m f) R"
  by (cases m) simp_all

lemma runs_mono: "runs m Q \<Longrightarrow> (\<And>x. Q x \<Longrightarrow> R x) \<Longrightarrow> runs m R"
  by (cases m) simp_all

lemma runs_okR: "runs m Q \<Longrightarrow> okR Q m"
  by (cases m) simp_all

lemma okR_runs: "okR Q m \<Longrightarrow> no_throw m \<Longrightarrow> runs m Q"
  by (cases m) (simp_all add: no_throw_def)

lemma no_throw_simps [simp]: "no_throw (Inr x)" "no_throw (Inl ex) \<longleftrightarrow> \<not> thrown ex"
  by (simp_all add: no_throw_def)

lemma no_throw_bind [no_throw_intros]: "no_throw m \<Longrightarrow> (\<And>x. no_throw (f x)) \<Longrightarrow> no_throw (bindR m f)"
  by (cases m) simp_all

lemma no_throw_if [no_throw_intros]: "no_throw x \<Longrightarrow> no_throw y \<Longrightarrow> no_throw (if b then x else y)"
  by simp

lemma no_throw_cases [no_throw_intros]:
  "no_throw x \<Longrightarrow> (\<And>a. no_throw (y a)) \<Longrightarrow> no_throw (case r of None \<Rightarrow> x | Some a \<Rightarrow> y a)"
  "(\<And>a b. no_throw (f a b)) \<Longrightarrow> no_throw (case p of (a, b) \<Rightarrow> f a b)"
  "(\<And>c. no_throw (g c)) \<Longrightarrow> no_throw v \<Longrightarrow> no_throw (case l of Returned c \<Rightarrow> g c | Running \<Rightarrow> v)"
  by (simp_all split: option.split prod.split loop_result.split)

lemma no_throw_let [no_throw_intros]: "no_throw (f x) \<Longrightarrow> no_throw (Let x f)"
  by simp

lemma no_throw_deref [no_throw_intros]: "no_throw (deref a h)"
  by (simp add: deref_def split: option.split)

lemma no_throw_Inr [no_throw_intros]: "no_throw (Inr x)"
  by simp

subsection \<open>Sending throws nothing\<close>

lemma no_throw_on_bk [no_throw_intros]:
  "no_throw (f (ms_db st)) \<Longrightarrow> no_throw (on_db f st)" "no_throw (f (ms_login st)) \<Longrightarrow> no_throw (on_login f st)"
  "no_throw (f (ms_route st)) \<Longrightarrow> no_throw (on_route f st)" "no_throw (f (ms_push st)) \<Longrightarrow> no_throw (on_push f st)"
  "no_throw (f (ms_file st)) \<Longrightarrow> no_throw (on_file f st)"
  unfolding on_db_def on_login_def on_route_def on_push_def on_file_def by (rule no_throw_intros | assumption)+

lemma no_throw_send [no_throw_intros]: "no_throw (serv_SendPdu now a data b)" "no_throw (to_client e a data st)"
  "no_throw (to_db e d data st)" "no_throw (to_route e d data st)"
  unfolding serv_SendPdu_def to_client_def to_db_def to_route_def by (rule no_throw_intros)+

lemma no_throw_open_conn [no_throw_intros]: "no_throw (open_conn b s)"
  unfolding open_conn_def by (rule no_throw_intros)+

lemma no_throw_send_to_all [no_throw_intros]: "no_throw (send_to_all now data ss b)"
  by (induction ss arbitrary: b) (simp_all add: no_throw_intros)

lemma no_throw_first_open [no_throw_intros]: "no_throw (first_open b ss)"
  by (induction ss) (simp_all add: no_throw_intros)

lemma no_throw_db_entry [no_throw_intros]: "no_throw (db_entry b i)"
  unfolding db_entry_def by (simp add: no_throw_intros)

lemma no_throw_db_scan [no_throw_intros]: "no_throw (db_scan b i n)"
  by (induction b i n rule: db_scan.induct) (subst db_scan.simps, simp add: no_throw_intros)

lemma no_throw_random_open [no_throw_intros]: "no_throw (random_open rs lo hi b)"
  by (induction rs) (simp_all add: no_throw_intros)

lemma no_throw_available [no_throw_intros]: "no_throw (is_login_server_available st)" "no_throw (is_route_server_available st)"
  unfolding is_login_server_available_def is_route_server_available_def server_available_def by (rule no_throw_intros)+

lemma no_throw_draw_db [no_throw_intros]: "no_throw (draw_db e lo hi st)"
  unfolding draw_db_def get_db_server_conn_in_range_def Let_def by (rule no_throw_intros)+ simp

lemma no_throw_get_db [no_throw_intros]: "no_throw (get_db_serv_conn e st)" "no_throw (get_db_serv_conn_for_login e st)"
  unfolding get_db_serv_conn_def get_db_serv_conn_for_login_def by (rule no_throw_intros)+

lemma no_throw_with_conn [no_throw_intros]:
  "no_throw (get st) \<Longrightarrow> (\<And>st. no_throw (no st)) \<Longrightarrow> (\<And>d st. no_throw (yes d st)) \<Longrightarrow> no_throw (with_conn get no yes st)"
  unfolding with_conn_def by (rule no_throw_intros | assumption)+

lemma no_throw_if_route [no_throw_intros]: "no_throw (if_route e data st)"
  unfolding if_route_def by (rule no_throw_intros)+

lemma no_throw_status [no_throw_intros]: "no_throw (send_status e action status user_id client_type st)"
    "no_throw (SendUserStatusUpdate e a status st)"
  unfolding send_status_def SendUserStatusUpdate_def send_to_all_login_server_def send_to_all_route_server_def
  by (rule no_throw_intros)+

lemma no_throw_same_client_type [no_throw_intros]: "no_throw (same_client_type h t frm ps)"
  by (induction ps) (simp_all add: no_throw_intros)

lemma no_throw_kick [no_throw_intros]: "no_throw (HandleKickUser e u a reason st)" "no_throw (KickOutSameClientType e u t reason frm st)"
  unfolding HandleKickUser_def KickOutSameClientType_def by (rule no_throw_intros)+

section \<open>The abstraction\<close>

definition conn_view :: "msg_conn \<Rightarrow> (u32, char, u32) conn_info" where
  "conn_view c = \<lparr>ci_handle = mc_handle c, ci_name = mc_login_name c, ci_uid = mc_user_id c, ci_open = mc_open c\<rparr>"

definition user_view :: "im_user \<Rightarrow> (u32, char, u32) person" where
  "user_view x = \<lparr>pe_id = iu_user_id x, pe_name = iu_login_name x, pe_conns = map_of (iu_conn_map x), pe_pending = set (iu_unvalidate_conn_set x)\<rparr>"

definition view :: "('o \<Rightarrow> 'v) \<Rightarrow> 'o heap \<Rightarrow> nat \<Rightarrow> 'v option" where
  "view f h a = (case deref a h of Inl _ \<Rightarrow> None | Inr x \<Rightarrow> Some (f x))"

definition registry_of :: "msg_server \<Rightarrow> (u32, char, u32) registry" where
  "registry_of st = \<lparr>rg_handles = map_of (g_msg_conn_map st), rg_conn = view conn_view (ms_conns st), rg_user = view user_view (ms_users st),
     rg_by_id = map_of (m_im_user_map st), rg_by_name = map_of (m_im_user_map_by_name st)\<rparr>"

lemma registry_of_simps [simp]:
  "rg_handles (registry_of st) = map_of (g_msg_conn_map st)" "rg_conn (registry_of st) = view conn_view (ms_conns st)"
  "rg_user (registry_of st) = view user_view (ms_users st)" "rg_by_id (registry_of st) = map_of (m_im_user_map st)"
  "rg_by_name (registry_of st) = map_of (m_im_user_map_by_name st)"
  by (simp_all add: registry_of_def)

lemma user_view_simps [simp]:
  "pe_id (user_view x) = iu_user_id x" "pe_name (user_view x) = iu_login_name x" "pe_conns (user_view x) = map_of (iu_conn_map x)"
  "pe_pending (user_view x) = set (iu_unvalidate_conn_set x)"
  by (simp_all add: user_view_def)

lemma conn_view_simps [simp]:
  "ci_handle (conn_view c) = mc_handle c" "ci_name (conn_view c) = mc_login_name c" "ci_uid (conn_view c) = mc_user_id c"
  "ci_open (conn_view c) = mc_open c"
  by (simp_all add: conn_view_def)

lemma view_deref: "deref a h = Inr x \<Longrightarrow> view f h a = Some (f x)"
  by (simp add: view_def)

lemma view_SomeE:
  assumes "view f h a = Some y"
  obtains x where "deref a h = Inr x" "y = f x" "live a h"
  using assms deref_live [of a h] by (auto simp: view_def split: sum.splits)

lemma view_live: "view f h a \<noteq> None \<longleftrightarrow> live a h"
  using live_deref [of a h] deref_live [of a h] by (auto simp: view_def split: sum.splits)

lemma view_set_obj: "live a h \<Longrightarrow> view f (set_obj a x h) = (view f h)(a \<mapsto> f x)"
  by (auto simp: view_def deref_set_obj fun_eq_iff)

lemma view_new: "heap_ok h \<Longrightarrow> view f (snd (new_obj x h)) = (view f h)(hp_next h \<mapsto> f x)"
  by (auto simp: view_def heap_ok_new deref_new_other fun_eq_iff)

lemma view_fresh: "heap_ok h \<Longrightarrow> view f h (hp_next h) = None"
  using deref_fresh [of h "hp_next h"] by (auto simp: view_def split: sum.splits)

lemma view_cong: "(\<And>a. map_sum id f (deref a h') = map_sum id f (deref a h)) \<Longrightarrow> view f h' = view f h"
proof
  fix a
  assume "\<And>a. map_sum id f (deref a h') = map_sum id f (deref a h)"
  from this [of a] show "view f h' a = view f h a" by (cases "deref a h"; cases "deref a h'") (simp_all add: view_def)
qed

lemma view_same_heap:
  assumes "same_heap core h h'" "\<And>x y. core x = core y \<Longrightarrow> f x = f y"
  shows "view f h' = view f h"
proof (rule view_cong)
  fix a
  have "map_sum id core (deref a h') = map_sum id core (deref a h)" using assms(1) by (simp add: same_heap_def)
  then show "map_sum id f (deref a h') = map_sum id f (deref a h)"
    by (cases "deref a h"; cases "deref a h'") (auto intro: assms(2))
qed

lemma calm_registry:
  assumes "calm st st'"
  shows "registry_of st' = registry_of st"
proof -
  have "view conn_view (ms_conns st') = view conn_view (ms_conns st)"
    using assms by (intro view_same_heap [of conn_core]) (auto simp: calm_def conn_core_def conn_view_def)
  moreover have "view user_view (ms_users st') = view user_view (ms_users st)"
    using assms by (intro view_same_heap [of user_core]) (auto simp: calm_def user_core_def user_view_def)
  ultimately show ?thesis using assms by (simp add: calm_def registry_of_def)
qed

section \<open>Sound states\<close>

text \<open>
  What holds besides the agreement of the registry's maps: the containers are well-formed; a connection object has one
  reference for the map of handles and \<open>kc\<close> for running callbacks; the back ends are sound, with \<open>kb\<close> for their callbacks and their maps of
  handles, and the master connections are in the server lists.
\<close>

type_synonym held_backs = "part \<Rightarrow> (nat \<Rightarrow> int) \<times> conn_map"

definition backs :: "held_backs \<Rightarrow> msg_server \<Rightarrow> bool" where
  "backs kb st \<longleftrightarrow> (\<forall>p. bk_inv (fst (kb p)) (bk p st) \<and> b_conn_map (bk p st) = snd (kb p))
     \<and> (\<forall>r. g_master_rs_conn st = Some r \<longrightarrow> owned (ms_route st) r) \<and> (\<forall>r. g_master_push_conn st = Some r \<longrightarrow> owned (ms_push st) r)
     \<and> g_db_server_login_count st \<le> length (b_server_list (ms_db st))"

definition in_conn_map :: "msg_server \<Rightarrow> nat \<Rightarrow> bool" where
  "in_conn_map st a \<longleftrightarrow> (\<exists>h. map_of (g_msg_conn_map st) h = Some a)"

definition boxes :: "msg_server \<Rightarrow> bool" where
  "boxes st \<longleftrightarrow> heap_ok (ms_conns st) \<and> heap_ok (ms_users st) \<and> hm_ok (g_msg_conn_map st) \<and> om_ok (m_im_user_map st)
     \<and> om_ok (m_im_user_map_by_name st) \<and> map_of (g_msg_conn_map st) NETLIB_INVALID_HANDLE = None
     \<and> (\<forall>u x. deref u (ms_users st) = Inr x \<longrightarrow> om_ok (iu_conn_map x))"

definition counted :: "(nat \<Rightarrow> int) \<Rightarrow> msg_server \<Rightarrow> bool" where
  "counted kc st \<longleftrightarrow> (\<forall>a. refs a (ms_conns st) = kc a + (if in_conn_map st a then 1 else 0))"

definition at_reg :: "env \<Rightarrow> (nat \<Rightarrow> int) \<Rightarrow> held_backs \<Rightarrow> (u32, char, u32) registry \<Rightarrow> msg_server \<Rightarrow> bool" where
  "at_reg e kc kb r st \<longleftrightarrow> registry_of st = r \<and> boxes st \<and> counted kc st \<and> backs kb st \<and> fair e st"

lemma at_regI: "registry_of st = r \<Longrightarrow> boxes st \<Longrightarrow> counted kc st \<Longrightarrow> backs kb st \<Longrightarrow> fair e st \<Longrightarrow> at_reg e kc kb r st"
  by (simp add: at_reg_def)

lemma at_regD:
  assumes "at_reg e kc kb r st"
  shows "registry_of st = r" "boxes st" "counted kc st" "backs kb st" "fair e st"
  using assms by (simp_all add: at_reg_def)

lemma at_reg_maps:
  assumes "at_reg e kc kb r st"
  shows "map_of (g_msg_conn_map st) = rg_handles r" "view conn_view (ms_conns st) = rg_conn r" "view user_view (ms_users st) = rg_user r"
    "map_of (m_im_user_map st) = rg_by_id r" "map_of (m_im_user_map_by_name st) = rg_by_name r"
  using at_regD(1) [OF assms] by auto

lemma at_reg_conn:
  assumes "at_reg e kc kb r st" "rg_conn r a \<noteq> None"
  obtains c where "deref a (ms_conns st) = Inr c" "rg_conn r a = Some (conn_view c)" "live a (ms_conns st)"
proof -
  obtain y where y: "rg_conn r a = Some y" using assms(2) by blast
  then have "view conn_view (ms_conns st) a = Some y" using at_reg_maps(2) [OF assms(1)] by simp
  then show ?thesis using that y by (metis view_SomeE)
qed

lemma at_reg_user:
  assumes "at_reg e kc kb r st" "rg_user r u \<noteq> None"
  obtains x where "deref u (ms_users st) = Inr x" "rg_user r u = Some (user_view x)" "live u (ms_users st)" "om_ok (iu_conn_map x)"
proof -
  obtain y where y: "rg_user r u = Some y" using assms(2) by blast
  then have "view user_view (ms_users st) u = Some y" using at_reg_maps(3) [OF assms(1)] by simp
  then obtain x where x: "deref u (ms_users st) = Inr x" "y = user_view x" "live u (ms_users st)" by (rule view_SomeE)
  moreover have "om_ok (iu_conn_map x)" using at_regD(2) [OF assms(1)] x(1) by (simp add: boxes_def)
  ultimately show ?thesis using that y by simp
qed

text \<open>No pointer that sending follows dangles.\<close>

definition reg_live :: "('h, 'n, 'i) registry \<Rightarrow> bool" where
  "reg_live r \<longleftrightarrow> (\<forall>i u. rg_by_id r i = Some u \<longrightarrow> rg_user r u \<noteq> None)
     \<and> (\<forall>u p h a. rg_user r u = Some p \<longrightarrow> pe_conns p h = Some a \<longrightarrow> rg_conn r a \<noteq> None)"

lemma reg_liveD:
  assumes "reg_live r"
  shows "rg_by_id r i = Some u \<Longrightarrow> rg_user r u \<noteq> None"
    "rg_user r u = Some p \<Longrightarrow> pe_conns p h = Some a \<Longrightarrow> rg_conn r a \<noteq> None"
  using assms by (auto simp: reg_live_def)

lemma reg_liveI:
  assumes "\<And>i u. rg_by_id r i = Some u \<Longrightarrow> rg_user r u \<noteq> None"
    "\<And>u p h a. rg_user r u = Some p \<Longrightarrow> pe_conns p h = Some a \<Longrightarrow> rg_conn r a \<noteq> None"
  shows "reg_live r"
  using assms unfolding reg_live_def by blast

lemma reg_inv_live: "reg_inv idof r \<Longrightarrow> reg_live r"
  by (rule reg_liveI) (use reg_invD(2,3) user_okD(5) in fastforce)+

lemma reg_live_upd_user:
  assumes "reg_live r" "\<And>p h. pe_conns (f p) h = None \<or> pe_conns (f p) h = pe_conns p h"
  shows "reg_live (upd_user u f r)"
proof (rule reg_liveI)
  fix v p h a
  assume "rg_user (upd_user u f r) v = Some p" "pe_conns p h = Some a"
  then obtain q where "rg_user r v = Some q" "pe_conns q h = Some a"
    using assms(2) by (auto simp: rg_user_upd_user split: if_splits) (metis option.distinct(1))
  then show "rg_conn (upd_user u f r) a \<noteq> None" using reg_liveD(2) [OF assms(1)] by simp
qed (use reg_liveD(1) [OF assms(1)] in \<open>auto simp: rg_user_upd_user\<close>)

lemma reg_live_upd_conn: "reg_live r \<Longrightarrow> reg_live (upd_conn a f r)"
  unfolding reg_live_def upd_conn_def by fastforce

lemma at_reg_wired:
  assumes at: "at_reg e kc kb r st" and live: "reg_live r"
  shows "wired st"
proof -
  note maps = at_reg_maps [OF at]
  have user: "user_live st u" if "(i, u) \<in> set (m_im_user_map st)" for i u
  proof -
    have "map_of (m_im_user_map st) i = Some u"
      using that at_regD(2) [OF at] by (auto simp: boxes_def om_ok_def strict_sorted_iff)
    then obtain p where p: "rg_user r u = Some p" "\<And>h a. pe_conns p h = Some a \<Longrightarrow> rg_conn r a \<noteq> None"
      using reg_liveD [OF live] maps(4) by (metis option.exhaust_sel)
    obtain x where x: "deref u (ms_users st) = Inr x" "rg_user r u = Some (user_view x)" "om_ok (iu_conn_map x)"
      using at_reg_user [OF at, of u] p(1) by auto
    have "live a (ms_conns st)" if "(h, a) \<in> set (iu_conn_map x)" for h a
    proof -
      have "map_of (iu_conn_map x) h = Some a" using that x(3) by (auto simp: om_ok_def strict_sorted_iff)
      then have "view conn_view (ms_conns st) a \<noteq> None" using p(2) [of h a] p(1) x(2) maps(2) by auto
      then show ?thesis by (simp only: view_live)
    qed
    then show ?thesis using x(1) by (fastforce simp: user_live_def)
  qed
  have bks: "bk_inv (fst (kb p)) (bk p st)" for p using at_regD(4) [OF at] by (simp add: backs_def)
  have "g_master_rs_conn st = Some x \<Longrightarrow> live x (b_heap (ms_route st))" "g_master_push_conn st = Some x \<Longrightarrow> live x (b_heap (ms_push st))" for x
    using at_regD(4) [OF at] owned_live [OF bks [of Route]] owned_live [OF bks [of Push]] by (auto simp: backs_def)
  then show ?thesis
    using user bk_inv_live [OF bks] at_regD(4) [OF at] by (auto simp: wired_def backs_def)
qed

lemma at_reg_rest: "at_reg e kc kb r st \<Longrightarrow> reg_live r \<Longrightarrow> at_rest e st st"
  by (simp add: at_rest_refl at_reg_wired at_regD)

text \<open>Sending leaves it all as it is.\<close>

lemma same_owned: "same_bk b b' \<Longrightarrow> owned b' = owned b"
  by (simp add: fun_eq_iff same_bk_def owned_def)

lemma calm_backs:
  assumes "steady st st'" "backs kb st"
  shows "backs kb st'"
proof -
  have bk: "same_bk (bk p st) (bk p st')" for p using assms(1) by (simp add: steady_def)
  have "bk_inv (fst (kb p)) (bk p st')" "b_conn_map (bk p st') = snd (kb p)" for p
    using same_bk_inv [OF bk] bk [of p] assms(2) by (simp_all add: backs_def same_bk_def)
  then show ?thesis
    using assms same_owned [OF bk [of Route]] same_owned [OF bk [of Push]] bk [of Db] by (auto simp: backs_def steady_def same_bk_def)
qed

lemma calm_boxes: "calm st st' \<Longrightarrow> boxes st \<Longrightarrow> boxes st'"
  unfolding boxes_def calm_def using same_heap_deref_back [of user_core "ms_users st" "ms_users st'"]
  by (fastforce simp: same_heap_def user_core_def)

lemma calm_counted: "calm st st' \<Longrightarrow> counted kc st \<Longrightarrow> counted kc st'"
  unfolding counted_def calm_def in_conn_map_def by (metis same_heap_def)

lemma calm_at_reg:
  assumes "calm st st'" "at_reg e kc kb r st"
  shows "at_reg e kc kb r st'"
  using assms calm_registry [OF assms(1)] calm_boxes [OF assms(1)] calm_counted [OF assms(1)] calm_fair [OF assms(1)]
    calm_backs [of st st' kb]
  by (auto simp: at_reg_def calm_def)

lemma at_rest_at_reg: "at_rest e st st' \<Longrightarrow> at_reg e kc kb r st \<Longrightarrow> at_reg e kc kb r st'"
  by (auto simp: at_rest_def intro: calm_at_reg)

lemma runs_calm:
  assumes "at_reg e kc kb r st" "reg_live r" "at_rest e st st \<Longrightarrow> okR (at_rest e st) (f st)" "no_throw (f st)"
  shows "runs (f st) (at_reg e kc kb r)"
  using okR_runs [OF assms(3) assms(4)] at_reg_rest [OF assms(1,2)] by (auto intro: runs_mono at_rest_at_reg [OF _ assms(1)])

section \<open>Basic operations\<close>

lemma bk_maps_upd [simp]:
  "bk p (st\<lparr>g_msg_conn_map := m\<rparr>) = bk p st" "bk p (st\<lparr>m_im_user_map := im\<rparr>) = bk p st" "bk p (st\<lparr>m_im_user_map_by_name := nm\<rparr>) = bk p st"
  "bk p (st\<lparr>g_master_rs_conn := x\<rparr>) = bk p st" "bk p (st\<lparr>g_master_push_conn := x\<rparr>) = bk p st"
  by (cases p; simp)+

lemma backs_upd [simp]:
  "backs kb (st\<lparr>ms_conns := h\<rparr>) = backs kb st" "backs kb (st\<lparr>ms_users := g\<rparr>) = backs kb st" "backs kb (st\<lparr>ms_trace := t\<rparr>) = backs kb st"
  "backs kb (st\<lparr>g_msg_conn_map := m\<rparr>) = backs kb st" "backs kb (st\<lparr>m_im_user_map := im\<rparr>) = backs kb st"
  "backs kb (st\<lparr>m_im_user_map_by_name := nm\<rparr>) = backs kb st" "backs kb (st\<lparr>g_down_msg_miss_cnt := n\<rparr>) = backs kb st"
  "backs kb (st\<lparr>g_down_msg_total_cnt := n\<rparr>) = backs kb st" "backs kb (st\<lparr>g_last_stat_tick := w\<rparr>) = backs kb st"
  by (simp_all add: backs_def)

lemma fair_upd [simp]:
  "fair e (st\<lparr>ms_conns := h\<rparr>) = fair e st" "fair e (st\<lparr>ms_users := g\<rparr>) = fair e st" "fair e (st\<lparr>ms_trace := t\<rparr>) = fair e st"
  "fair e (st\<lparr>g_msg_conn_map := m\<rparr>) = fair e st" "fair e (st\<lparr>m_im_user_map := im\<rparr>) = fair e st"
  "fair e (st\<lparr>m_im_user_map_by_name := nm\<rparr>) = fair e st"
  by (simp_all add: fair_def)

lemma live_irrelevant [simp]:
  "in_conn_map (st\<lparr>ms_conns := h\<rparr>) a = in_conn_map st a" "in_conn_map (st\<lparr>ms_users := g\<rparr>) a = in_conn_map st a"
  "in_conn_map (st\<lparr>ms_trace := t\<rparr>) a = in_conn_map st a" "in_conn_map (st\<lparr>m_im_user_map := im\<rparr>) a = in_conn_map st a"
  "in_conn_map (st\<lparr>m_im_user_map_by_name := nm\<rparr>) a = in_conn_map st a"
  by (simp_all add: in_conn_map_def)

lemma runs_on_conn:
  assumes at: "at_reg e kc kb r st" and a: "rg_conn r a \<noteq> None" and g: "\<And>c. conn_view (g c) = f (conn_view c)"
  shows "runs (on_conn a g st) (at_reg e kc kb (upd_conn a f r))"
proof -
  obtain c where c: "deref a (ms_conns st) = Inr c" "rg_conn r a = Some (conn_view c)" "live a (ms_conns st)"
    using at_reg_conn [OF at a] .
  let ?st = "st\<lparr>ms_conns := set_obj a (g c) (ms_conns st)\<rparr>"
  have "registry_of ?st = upd_conn a f r"
    using at_regD(1) [OF at] c by (auto simp: registry_of_def upd_conn_def view_set_obj g)
  moreover have "boxes ?st" using at_regD(2) [OF at] by (simp add: boxes_def heap_ok_set_obj)
  moreover have "counted kc ?st" using at_regD(3) [OF at] by (simp add: counted_def)
  ultimately show ?thesis using at_regD(4,5) [OF at] c(1) by (simp add: on_conn_def at_reg_def)
qed

lemma runs_on_user:
  assumes at: "at_reg e kc kb r st" and u: "rg_user r u \<noteq> None"
    and g: "\<And>x. om_ok (iu_conn_map x) \<Longrightarrow> user_view (g x) = f (user_view x)"
    and ok: "\<And>x. om_ok (iu_conn_map x) \<Longrightarrow> om_ok (iu_conn_map (g x))"
  shows "runs (on_user u g st) (at_reg e kc kb (upd_user u f r))"
proof -
  obtain x where x: "deref u (ms_users st) = Inr x" "rg_user r u = Some (user_view x)" "live u (ms_users st)" "om_ok (iu_conn_map x)"
    using at_reg_user [OF at u] .
  let ?st = "st\<lparr>ms_users := set_obj u (g x) (ms_users st)\<rparr>"
  have "registry_of ?st = upd_user u f r"
    using at_regD(1) [OF at] x by (auto simp: registry_of_def upd_user_def view_set_obj g [OF x(4)])
  moreover have "boxes ?st" using at_regD(2) [OF at] x ok [OF x(4)] by (auto simp: boxes_def heap_ok_set_obj deref_set_obj)
  moreover have "counted kc ?st" using at_regD(3) [OF at] by (simp add: counted_def)
  ultimately show ?thesis using at_regD(4,5) [OF at] x(1) by (simp add: on_user_def at_reg_def)
qed

lemma runs_close_socket:
  assumes at: "at_reg e kc kb r st" and a: "rg_handles r h = Some a" "rg_conn r a = Some c" "ci_handle c = h"
    and uniq: "\<And>g. rg_handles r g = Some a \<Longrightarrow> g = h"
  shows "runs (close_socket a st) (at_reg e (kc(a := kc a + 1)) kb (r\<lparr>rg_handles := (rg_handles r)(h := None)\<rparr>))"
proof -
  note maps = at_reg_maps [OF at]
  obtain x where x: "deref a (ms_conns st) = Inr x" "c = conn_view x" using at_reg_conn [OF at, of a] a(2) by auto
  have ne: "h \<noteq> NETLIB_INVALID_HANDLE" using a(1) maps(1) at_regD(2) [OF at] by (auto simp: boxes_def)
  let ?st = "st\<lparr>g_msg_conn_map := map_erase h (g_msg_conn_map st), ms_trace := ms_trace st @ [NetClose h]\<rparr>"
  have run: "close_socket a st = Inr ?st" using x a(3) ne by (simp add: close_socket_def)
  have reg: "registry_of ?st = r\<lparr>rg_handles := (rg_handles r)(h := None)\<rparr>"
    using at_regD(1) [OF at] by (auto simp: registry_of_def map_of_map_erase)
  have box: "boxes ?st" using at_regD(2) [OF at] by (simp add: boxes_def hm.ok_erase map_of_map_erase)
  have st: "in_conn_map st b \<longleftrightarrow> (\<exists>g. rg_handles r g = Some b)" for b by (simp add: in_conn_map_def maps(1))
  have "in_conn_map ?st b \<longleftrightarrow> (\<exists>g. g \<noteq> h \<and> rg_handles r g = Some b)" for b
    by (auto simp: in_conn_map_def map_of_map_erase maps(1))
  then have "in_conn_map ?st b \<longleftrightarrow> in_conn_map st b \<and> b \<noteq> a" for b
    unfolding st using uniq a(1) by (metis option.inject)
  moreover have "in_conn_map st a" using a(1) st by blast
  ultimately have "counted (kc(a := kc a + 1)) ?st" using at_regD(3) [OF at] by (auto simp: counted_def)
  then show ?thesis using run reg box at_regD(4,5) [OF at] by (simp add: at_reg_def)
qed

lemma runs_conn_add_ref:
  assumes at: "at_reg e kc kb r st" and a: "rg_conn r a \<noteq> None"
  shows "runs (conn_add_ref a st) (at_reg e (kc(a := kc a + 1)) kb r)"
proof -
  have live: "live a (ms_conns st)" using a at_reg_maps(2) [OF at] view_live by metis
  obtain h where h: "add_ref a (ms_conns st) = Inr h" "heap_ok h" "\<And>b. deref b h = deref b (ms_conns st)"
    "\<And>b. refs b h = refs b (ms_conns st) + (if b = a then 1 else 0)"
    using add_ref_spec [OF _ live] at_regD(2) [OF at] unfolding boxes_def by metis
  have "view conn_view h = view conn_view (ms_conns st)" by (rule view_cong) (simp add: h(3))
  then have "registry_of (st\<lparr>ms_conns := h\<rparr>) = r" using at_regD(1) [OF at] by (simp add: registry_of_def)
  moreover have "counted (kc(a := kc a + 1)) (st\<lparr>ms_conns := h\<rparr>)" using at_regD(3) [OF at] h(4) by (simp add: counted_def)
  ultimately show ?thesis using at_regD [OF at] h(1,2) by (simp add: conn_add_ref_def at_reg_def boxes_def)
qed

lemma at_reg_conn_live: "at_reg e kc kb r st \<Longrightarrow> rg_conn r a \<noteq> None \<Longrightarrow> live a (ms_conns st)"
  using at_reg_conn by blast

lemma runs_conn_release:
  assumes at: "at_reg e kc kb r st" and a: "rg_conn r a \<noteq> None" "0 < kc a"
  shows "runs (conn_release a st) (at_reg e (kc(a := kc a - 1)) kb
    (if kc a = 1 \<and> a \<notin> ran (rg_handles r) then r\<lparr>rg_conn := (rg_conn r)(a := None)\<rparr> else r))"
proof -
  have live: "live a (ms_conns st)" using at_reg_conn_live [OF at a(1)] .
  have box: "heap_ok (ms_conns st)" using at_regD(2) [OF at] by (simp add: boxes_def)
  obtain h where h: "release_ref a (ms_conns st) = Inr h" "heap_ok h"
    "\<And>b. deref b h = (if b = a \<and> refs a (ms_conns st) = 1 then Inl MemFault else deref b (ms_conns st))"
    "\<And>b. refs b h = refs b (ms_conns st) - (if b = a then 1 else 0)"
    using release_ref_spec [OF box live] by blast
  have reg: "in_conn_map st a \<longleftrightarrow> a \<in> ran (rg_handles r)"
    using at_reg_maps(1) [OF at] by (auto simp: in_conn_map_def ran_def)
  have "refs a (ms_conns st) = kc a + (if a \<in> ran (rg_handles r) then 1 else 0)"
    using at_regD(3) [OF at] live reg by (simp add: counted_def)
  then have one: "refs a (ms_conns st) = 1 \<longleftrightarrow> kc a = 1 \<and> a \<notin> ran (rg_handles r)" using a(2) by auto
  let ?st = "st\<lparr>ms_conns := h\<rparr>"
  have "view conn_view h = (if kc a = 1 \<and> a \<notin> ran (rg_handles r) then (view conn_view (ms_conns st))(a := None) else view conn_view (ms_conns st))"
    using h(3) one by (auto simp: view_def fun_eq_iff)
  then have "registry_of ?st = (if kc a = 1 \<and> a \<notin> ran (rg_handles r) then r\<lparr>rg_conn := (rg_conn r)(a := None)\<rparr> else r)"
    using at_regD(1) [OF at] by (auto simp: registry_of_def)
  moreover have "counted (kc(a := kc a - 1)) ?st" using at_regD(3) [OF at] h(4) by (auto simp: counted_def)
  ultimately show ?thesis using at_regD [OF at] h(1,2) by (simp add: conn_release_def at_reg_def boxes_def)
qed

text \<open>Deleting a user also removes the entries of its id and its login name.\<close>

lemma runs_RemoveImUser:
  assumes at: "at_reg e kc kb r st" and u: "rg_user r u \<noteq> None"
  shows "runs (RemoveImUser u st) (at_reg e kc kb (drop_user u r))"
proof -
  obtain x where x: "deref u (ms_users st) = Inr x" "rg_user r u = Some (user_view x)" "live u (ms_users st)" "om_ok (iu_conn_map x)"
    using at_reg_user [OF at u] .
  have box: "heap_ok (ms_users st)" using at_regD(2) [OF at] by (simp add: boxes_def)
  obtain h where h: "delete_obj u (ms_users st) = Inr h" "heap_ok h"
    "\<And>b. deref b h = (if b = u then Inl MemFault else deref b (ms_users st))"
    using delete_obj_spec [OF box x(3)] by blast
  let ?st = "st\<lparr>m_im_user_map := map_erase (iu_user_id x) (m_im_user_map st),
    m_im_user_map_by_name := map_erase (iu_login_name x) (m_im_user_map_by_name st), ms_users := h\<rparr>"
  have run: "RemoveImUser u st = Inr ?st"
    using x h(1) by (simp add: RemoveImUser_def delete_user_def RemoveImUserByLoginName_def RemoveImUserById_def)
  have "view user_view h = (view user_view (ms_users st))(u := None)" using h(3) by (auto simp: view_def fun_eq_iff)
  then have "registry_of ?st = drop_user u r"
    using at_regD(1) [OF at] x(2) by (auto simp: registry_of_def drop_user_def map_of_map_erase)
  moreover have "boxes ?st" using at_regD(2) [OF at] h by (auto simp: boxes_def om_ok_erase split: if_splits)
  moreover have "counted kc ?st" using at_regD(3) [OF at] by (simp add: counted_def)
  ultimately show ?thesis using run at_regD(4,5) [OF at] by (simp add: at_reg_def)
qed

lemma runs_remove_if_empty:
  assumes at: "at_reg e kc kb r st" and u: "rg_user r u \<noteq> None"
  shows "runs (remove_if_empty u st) (at_reg e kc kb (drop_if_empty u r))"
proof -
  obtain x where x: "deref u (ms_users st) = Inr x" "rg_user r u = Some (user_view x)" using at_reg_user [OF at u] by blast
  have "iu_conn_map x = [] \<longleftrightarrow> map_of (iu_conn_map x) = Map.empty" by simp
  then show ?thesis using x at runs_RemoveImUser [OF at u] by (simp add: remove_if_empty_def drop_if_empty_def IsMsgConnEmpty_def)
qed

end
