(* ===== verification/MsgLife.thy ===== *)
theory MsgLife
  imports MsgRefine
begin

text \<open>
  The life of a client connection refines the registry: accepting, starting a login, the answer of the database, and closing
  are \<open>reg_accept\<close>, \<open>reg_login\<close>, \<open>reg_validate\<close> and \<open>reg_close\<close> of the specification.
\<close>

section \<open>Accepting\<close>

lemma in_conn_map_ran: "in_conn_map st a \<longleftrightarrow> a \<in> ran (map_of (g_msg_conn_map st))"
  by (auto simp: in_conn_map_def ran_def)

lemma runs_msg_serv_callback:
  assumes at: "at_reg e kc kb r st" and h: "rg_handles r h = None" "h \<noteq> NETLIB_INVALID_HANDLE" and kc: "kc (hp_next (ms_conns st)) = 0"
  shows "runs (msg_serv_callback e h st) (at_reg e kc kb (reg_accept h (hp_next (ms_conns st)) r))"
proof -
  let ?a = "hp_next (ms_conns st)" and ?c = "(CMsgConn e)\<lparr>mc_handle := h, mc_login_time := e_now e\<rparr>"
  let ?hp = "snd (new_obj (CMsgConn e) (ms_conns st))"
  note maps = at_reg_maps [OF at]
  have box: "heap_ok (ms_conns st)" using at_regD(2) [OF at] by (simp add: boxes_def)
  note new = heap_ok_new [OF box, of "CMsgConn e"]
  let ?st = "st\<lparr>ms_conns := set_obj ?a ?c ?hp, g_msg_conn_map := hm_insert h ?a (g_msg_conn_map st)\<rparr>"
  have free: "map_of (g_msg_conn_map st) h = None" using h(1) maps(1) by simp
  then have ins: "map_of (hm_insert h ?a (g_msg_conn_map st)) = (map_of (g_msg_conn_map st))(h \<mapsto> ?a)"
    by (auto simp: hm_insert_def dom_map_of_conv_image_fst [symmetric])
  have run: "msg_serv_callback e h st = Inr ?st"
    using new(2) by (simp add: msg_serv_callback_def OnConnect_def on_conn_def Let_def new_obj_def)
  have "view conn_view (set_obj ?a ?c ?hp) = (view conn_view (ms_conns st))(?a \<mapsto> conn_view ?c)"
    using deref_live [OF new(2)] by (simp add: view_set_obj view_new [OF box])
  then have reg: "registry_of ?st = reg_accept h ?a r"
    using at_regD(1) [OF at] ins by (auto simp: registry_of_def reg_accept_def conn_view_def CMsgConn_def)
  have box': "boxes ?st"
    using at_regD(2) [OF at] h(2) new(1) ins by (simp add: boxes_def heap_ok_set_obj hm.ok_insert)
  have "in_conn_map ?st b \<longleftrightarrow> in_conn_map st b \<or> b = ?a" for b
    using free by (auto simp: in_conn_map_ran ins)
  moreover have "refs ?a (ms_conns st) = 0"
    using view_fresh [OF box, of conn_view] view_live [of conn_view "ms_conns st" ?a] refs_live [of ?a "ms_conns st"] by auto
  moreover have "refs b (ms_conns st) = kc b + (if in_conn_map st b then 1 else 0)" for b
    using at_regD(3) [OF at] by (simp add: counted_def)
  ultimately have "refs b ?hp = kc b + (if in_conn_map ?st b then 1 else 0)" for b
    using new(3) deref_new_other(2) [of b "ms_conns st" "CMsgConn e"] kc by (cases "b = ?a") auto
  then have "counted kc ?st" by (simp add: counted_def)
  then show ?thesis using run reg box' at_regD(4,5) [OF at] by (simp add: at_reg_def)
qed

section \<open>Closing\<close>

lemma calm_SendUserStatusUpdate [calm_intros]:
  assumes "at_rest e st0 st" "live a (ms_conns st0)"
  shows "okR (at_rest e st0) (SendUserStatusUpdate e a status st)"
  unfolding SendUserStatusUpdate_def
proof (rule okR_bind [OF calm_deref [OF assms]])
  fix c
  show "okR (at_rest e st0) (if \<not> mc_open c then Inr st
      else case GetImUserById (mc_user_id c) st of None \<Rightarrow> Inr st
      | Some u \<Rightarrow> bindR (deref u (ms_users st)) (\<lambda>x.
          if status = USER_STATUS_ONLINE then send_status e USER_CNT_INC USER_STATUS_ONLINE (iu_user_id x) (mc_client_type c) st
          else if status = USER_STATUS_OFFLINE then send_status e USER_CNT_DEC USER_STATUS_OFFLINE (iu_user_id x) (mc_client_type c) st
          else Inr st))"
  proof (cases "GetImUserById (mc_user_id c) st")
    case (Some u)
    show ?thesis unfolding Some option.case
      using assms(1) by (auto intro!: okR_bind [OF calm_deref_user [OF assms(1) found_user_live [OF assms(1) Some]]] calm_send_status)
  qed (use assms(1) in simp)
qed

lemma runs_leave_by_id:
  assumes at: "at_reg e kc kb r st" and live: "reg_live r" and a: "rg_conn r a = Some c"
  shows "runs (leave_by_id e a st) (at_reg e kc kb (reg_leave_id (ci_handle c) a (ci_uid c) r))"
proof -
  obtain x where x: "deref a (ms_conns st) = Inr x" "c = conn_view x" "live a (ms_conns st)" using at_reg_conn [OF at, of a] a by auto
  note maps = at_reg_maps [OF at]
  show ?thesis
  proof (cases "rg_by_id r (ci_uid c)")
    case None
    then show ?thesis using x at maps(4) by (simp add: leave_by_id_def GetImUserById_def reg_leave_id_def)
  next
    case (Some u)
    then obtain p where p: "rg_user r u = Some p" using reg_liveD(1) [OF live] by blast
    let ?g = "\<lambda>x'. DelUnValidateMsgConn a (DelMsgConn (mc_handle x) x')" and ?r = "upd_user u (leave (ci_handle c) a) r"
    have "runs (bindR (on_user u ?g st) (\<lambda>st1. bindR (SendUserStatusUpdate e a USER_STATUS_OFFLINE st1) (remove_if_empty u)))
      (at_reg e kc kb (drop_if_empty u ?r))"
    proof (rule runs_bind [OF runs_on_user [OF at]])
      fix st1
      assume at1: "at_reg e kc kb ?r st1"
      have live1: "reg_live ?r" using live by (rule reg_live_upd_user) (auto simp: leave_def)
      have "runs (SendUserStatusUpdate e a USER_STATUS_OFFLINE st1) (at_reg e kc kb ?r)"
        by (rule runs_calm [OF at1 live1 calm_SendUserStatusUpdate no_throw_status(2)]) (use at_reg_conn_live [OF at1, of a] a in simp_all)
      then show "runs (bindR (SendUserStatusUpdate e a USER_STATUS_OFFLINE st1) (remove_if_empty u)) (at_reg e kc kb (drop_if_empty u ?r))"
        by (rule runs_bind) (rule runs_remove_if_empty, use p in \<open>auto simp: rg_user_upd_user\<close>)
    qed (use p x(2) in \<open>auto simp: user_view_def leave_def DelUnValidateMsgConn_def DelMsgConn_def map_of_map_erase om_ok_erase\<close>)
    moreover have "map_of (m_im_user_map st) (mc_user_id x) = Some u" using Some x(2) maps(4) by simp
    ultimately show ?thesis using x Some by (simp add: leave_by_id_def GetImUserById_def reg_leave_id_def)
  qed
qed

lemma runs_leave_by_name:
  assumes at: "at_reg e kc kb r st" and a: "rg_conn r a = Some c" and u: "\<And>u. rg_by_name r (ci_name c) = Some u \<Longrightarrow> rg_user r u \<noteq> None"
  shows "runs (leave_by_name a st) (at_reg e kc kb (reg_leave_name a (ci_name c) r))"
proof -
  obtain x where x: "deref a (ms_conns st) = Inr x" "c = conn_view x" using at_reg_conn [OF at, of a] a by auto
  note maps = at_reg_maps [OF at]
  show ?thesis
  proof (cases "rg_by_name r (ci_name c)")
    case None
    then show ?thesis using x at maps(5) by (simp add: leave_by_name_def GetImUserByLoginName_def reg_leave_name_def)
  next
    case (Some v)
    have v: "rg_user (upd_user v (unpend a) r) v \<noteq> None" using u [OF Some] by (auto simp: rg_user_upd_user)
    have "runs (bindR (on_user v (DelUnValidateMsgConn a) st) (remove_if_empty v)) (at_reg e kc kb (drop_if_empty v (upd_user v (unpend a) r)))"
      by (rule runs_bind [OF runs_on_user [OF at u [OF Some], where f = "unpend a"]])
         (simp_all add: user_view_def unpend_def DelUnValidateMsgConn_def runs_remove_if_empty [OF _ v])
    moreover have "map_of (m_im_user_map_by_name st) (mc_login_name x) = Some v" using Some x(2) maps(5) by simp
    ultimately show ?thesis using x Some by (simp add: leave_by_name_def GetImUserByLoginName_def reg_leave_name_def)
  qed
qed

lemma runs_notify_offline:
  assumes at: "at_reg e kc kb r st" and live: "reg_live r" and a: "rg_conn r a \<noteq> None"
  shows "runs (notify_offline e a st) (at_reg e kc kb r)"
proof (rule runs_calm [OF at live])
  assume rest: "at_rest e st st"
  show "okR (at_rest e st) (notify_offline e a st)"
    unfolding notify_offline_def
    by (rule okR_bind [OF calm_deref [OF rest at_reg_conn_live [OF at a]]], rule okR_option, rule calm_with_db(1) [OF rest])
       (simp_all add: rest calm_to_bk)
next
  show "no_throw (notify_offline e a st)" unfolding notify_offline_def by (rule no_throw_intros)+
qed


definition conn_freed :: "(nat \<Rightarrow> int) \<Rightarrow> nat \<Rightarrow> ('h, 'n, 'i) registry \<Rightarrow> ('h, 'n, 'i) registry" where
  "conn_freed kc a r = (if kc a = 0 then r\<lparr>rg_conn := (rg_conn r)(a := None)\<rparr> else r)"

lemma reg_close_simps [simp]:
  "rg_conn (drop_user u r) = rg_conn r" "rg_handles (drop_user u r) = rg_handles r"
  "rg_conn (drop_if_empty u r) = rg_conn r" "rg_handles (drop_if_empty u r) = rg_handles r"
  "rg_conn (reg_leave_id h a i r) = rg_conn r" "rg_handles (reg_leave_id h a i r) = rg_handles r"
  "rg_conn (reg_leave_name a n r) = rg_conn r" "rg_handles (reg_leave_name a n r) = rg_handles r"
  "rg_conn (reg_close a r) = rg_conn r"
  by (simp_all add: drop_user_def drop_if_empty_def reg_leave_id_def reg_leave_name_def reg_close_def split: option.split)

lemma rg_handles_close: "rg_conn r a = Some c \<Longrightarrow> rg_handles (reg_close a r) = (rg_handles r)(ci_handle c := None)"
  by (simp add: reg_close_def)

text \<open>The user found by the login name is still there once the connection has left the user of its id.\<close>

lemma leave_id_names:
  assumes inv: "reg_inv idof r" and h: "rg_handles r h = Some a" and c: "rg_conn r a = Some c"
    and n: "rg_by_name (reg_leave_id h a (ci_uid c) (r\<lparr>rg_handles := (rg_handles r)(h := None)\<rparr>)) n = Some u"
  shows "rg_user (reg_leave_id h a (ci_uid c) (r\<lparr>rg_handles := (rg_handles r)(h := None)\<rparr>)) u \<noteq> None"
proof -
  let ?r = "r\<lparr>rg_handles := (rg_handles r)(h := None)\<rparr>"
  show ?thesis
  proof (cases "ci_open c")
    case True
    with reg_invD(1) [OF inv h] c obtain v p where v: "rg_by_id r (ci_uid c) = Some v" "rg_user r v = Some p" "pe_conns p h = Some a"
      by (auto elim: conn_okE)
    show ?thesis using reg_invD(4) [OF reg_inv_leave_open [OF inv c h True v] n] by auto
  next
    case False
    then have "ci_uid c = 0" using reg_invD(1) [OF inv h] c by (auto elim: conn_okE)
    then have "reg_leave_id h a (ci_uid c) ?r = ?r" using reg_invD(3) [OF inv, of 0] by (cases "rg_by_id r 0") (auto simp: reg_leave_id_def)
    then show ?thesis using n reg_invD(4) [OF inv, of n u] by auto
  qed
qed

lemma runs_Close:
  assumes at: "at_reg e kc kb r st" and inv: "reg_inv idof r" and h: "rg_handles r h = Some a" and kc: "0 \<le> kc a"
  shows "runs (Close e a st) (at_reg e kc kb (conn_freed kc a (reg_close a r)))"
proof -
  obtain c where c: "rg_conn r a = Some c" "ci_handle c = h" using reg_invD(1) [OF inv h] by (auto elim: conn_okE)
  have uniq: "g = h" if "rg_handles r g = Some a" for g using reg_invD(1) [OF inv that] c by (auto elim: conn_okE)
  let ?k = "kc(a := kc a + 1)" and ?r1 = "r\<lparr>rg_handles := (rg_handles r)(h := None)\<rparr>"
  let ?r2 = "reg_leave_id h a (ci_uid c) ?r1"
  have close: "reg_close a r = reg_leave_name a (ci_name c) ?r2" using c by (simp add: reg_close_def)
  have live1: "reg_live ?r1" using reg_inv_live [OF inv] by (simp add: reg_live_def)
  have live3: "reg_live (reg_close a r)" using reg_inv_live [OF reg_inv_close [OF inv h]] .
  have conn: "rg_conn ?r1 a = Some c" "rg_conn ?r2 a = Some c" "rg_conn (reg_close a r) a \<noteq> None" using c by simp_all
  have gone: "a \<notin> ran (rg_handles (reg_close a r))" using rg_handles_close [OF c(1)] uniq c(2) by (auto simp: ran_def)
  show ?thesis unfolding Close_def
  proof (rule runs_bind [OF runs_close_socket [OF at h c uniq]], assumption)
    fix st1
    assume "at_reg e ?k kb ?r1 st1"
    from runs_leave_by_id [OF this live1 conn(1)]
    show "runs (bindR (leave_by_id e a st1) (\<lambda>st2. bindR (leave_by_name a st2) (\<lambda>st3. bindR (notify_offline e a st3) (conn_release a))))
      (at_reg e kc kb (conn_freed kc a (reg_close a r)))" unfolding c(2)
    proof (rule runs_bind)
      fix st2
      assume "at_reg e ?k kb ?r2 st2"
      from runs_leave_by_name [OF this conn(2) leave_id_names [OF inv h c(1)], folded close]
      show "runs (bindR (leave_by_name a st2) (\<lambda>st3. bindR (notify_offline e a st3) (conn_release a)))
        (at_reg e kc kb (conn_freed kc a (reg_close a r)))"
      proof (rule runs_bind)
        fix st3
        assume "at_reg e ?k kb (reg_close a r) st3"
        from runs_notify_offline [OF this live3 conn(3)]
        show "runs (bindR (notify_offline e a st3) (conn_release a)) (at_reg e kc kb (conn_freed kc a (reg_close a r)))"
        proof (rule runs_bind)
          fix st4
          assume "at_reg e ?k kb (reg_close a r) st4"
          from runs_conn_release [OF this conn(3)] kc gone
          show "runs (conn_release a st4) (at_reg e kc kb (conn_freed kc a (reg_close a r)))" by (simp add: conn_freed_def)
        qed
      qed
    qed
  qed
qed

section \<open>Starting a login\<close>

lemma user_for_login_reg:
  assumes at: "at_reg e kc kb r st"
  shows "at_reg e kc kb (snd (reg_user_for name (hp_next (ms_users st)) r)) (snd (user_for_login name st))"
    and "fst (user_for_login name st) = fst (reg_user_for name (hp_next (ms_users st)) r)"
    and "bk p (snd (user_for_login name st)) = bk p st"
proof -
  note maps = at_reg_maps [OF at]
  let ?u = "hp_next (ms_users st)" and ?x = "CImUser name"
  have box: "heap_ok (ms_users st)" using at_regD(2) [OF at] by (simp add: boxes_def)
  show "at_reg e kc kb (snd (reg_user_for name ?u r)) (snd (user_for_login name st))"
  proof (cases "rg_by_name r name")
    case None
    then have free: "map_of (m_im_user_map_by_name st) name = None" using maps(5) by simp
    let ?h = "snd (new_obj ?x (ms_users st))"
    let ?st = "st\<lparr>ms_users := ?h, m_im_user_map_by_name := om_assign name ?u (m_im_user_map_by_name st)\<rparr>"
    have st: "snd (user_for_login name st) = ?st"
      using free by (simp add: user_for_login_def GetImUserByLoginName_def AddImUserByLoginName_def new_obj_def)
    have "registry_of ?st = snd (reg_user_for name ?u r)"
      using at_regD(1,2) [OF at] None
      by (auto simp: registry_of_def reg_user_for_def view_new [OF box] boxes_def map_of_om_assign user_view_def CImUser_def)
    moreover have "deref v ?h = Inr x \<Longrightarrow> x = ?x \<or> deref v (ms_users st) = Inr x" for v x
      using heap_ok_new(2) [OF box, of ?x] deref_new_other(1) [of v "ms_users st" ?x] by (cases "v = ?u") auto
    then have "boxes ?st"
      using at_regD(2) [OF at] heap_ok_new(1) [OF box, of ?x] om_ok_assign
      by (fastforce simp: boxes_def CImUser_def om_ok_def)
    moreover have "counted kc ?st" using at_regD(3) [OF at] by (simp add: counted_def)
    ultimately show ?thesis unfolding st using at_regD(4,5) [OF at] by (simp add: at_reg_def)
  next
    case (Some u)
    then have "map_of (m_im_user_map_by_name st) name = Some u" using maps(5) by simp
    then show ?thesis using Some at by (simp add: user_for_login_def GetImUserByLoginName_def reg_user_for_def)
  qed
  show "fst (user_for_login name st) = fst (reg_user_for name ?u r)" "bk p (snd (user_for_login name st)) = bk p st"
    using maps(5) by (auto simp: user_for_login_def reg_user_for_def GetImUserByLoginName_def AddImUserByLoginName_def new_obj_def split: option.split)
qed

lemma on_obj_bk: "on_conn a f st = Inr st' \<Longrightarrow> bk p st' = bk p st" "on_user u g st = Inr st' \<Longrightarrow> bk p st' = bk p st"
  by (auto simp: on_conn_def on_user_def bindR_Inr_iff)

lemma runs_to_db:
  assumes "at_reg e kc kb r st" "reg_live r" "live d (b_heap (ms_db st))"
  shows "runs (to_db e d data st) (at_reg e kc kb r)"
  by (rule runs_calm [OF assms(1,2) _ no_throw_send(3)]) (rule calm_to_bk(1) [OF _ assms(3)])

lemma runs_to_client:
  assumes "at_reg e kc kb r st" "reg_live r" "rg_conn r a \<noteq> None"
  shows "runs (to_client e a data st) (at_reg e kc kb r)"
  by (rule runs_calm [OF assms(1,2) _ no_throw_send(2)]) (rule calm_to_client [OF _ at_reg_conn_live [OF assms(1,3)]])

lemma hp_next_on_conn: "on_conn a f st = Inr st' \<Longrightarrow> ms_users st' = ms_users st"
  by (auto simp: on_conn_def bindR_Inr_iff)

lemma runs_start_validation:
  assumes at: "at_reg e kc kb r st" and inv: "reg_inv idof r" and a: "rg_handles r h = Some a" "rg_conn r a = Some c" "ci_name c = []"
    and name: "lr_user_name msg \<noteq> []" and d: "live d (b_heap (ms_db st))"
  shows "runs (start_validation e a hdr d msg st) (at_reg e kc kb (reg_login a (lr_user_name msg) (hp_next (ms_users st)) r))"
    and "reg_inv idof (reg_login a (lr_user_name msg) (hp_next (ms_users st)) r)"
proof -
  let ?n = "lr_user_name msg" and ?u = "hp_next (ms_users st)"
  let ?r1 = "upd_conn a (\<lambda>c. c\<lparr>ci_name := ?n\<rparr>) r"
  have h: "ci_handle c = h" using reg_invD(1) [OF inv a(1)] a(2) by (auto elim: conn_okE)
  have fresh: "rg_user r ?u = None"
    using at_reg_maps(3) [OF at] view_fresh [of "ms_users st" user_view] at_regD(2) [OF at] by (auto simp: boxes_def)
  show inv': "reg_inv idof (reg_login a ?n ?u r)"
    using reg_inv_login [OF inv a(2) _ a(3) name fresh] a(1) h by simp
  define status where "status = (if lr_online_status msg < USER_STATUS_ONLINE \<or> lr_online_status msg > USER_STATUS_LEAVE
    then USER_STATUS_ONLINE else lr_online_status msg)"
  let ?g = "\<lambda>c. c\<lparr>mc_login_name := ?n, mc_client_version := lr_client_version msg, mc_client_type := lr_client_type msg, mc_online_status := status\<rparr>"
  have "runs (on_conn a ?g st) (at_reg e kc kb ?r1)"
    by (rule runs_on_conn [OF at]) (use a in \<open>simp_all add: conn_view_def\<close>)
  then obtain st1 where st1: "on_conn a ?g st = Inr st1" "at_reg e kc kb ?r1 st1" by (auto simp: runs_iff)
  obtain v st2 where u: "user_for_login ?n st1 = (v, st2)" by fastforce
  have nx: "hp_next (ms_users st1) = ?u" using hp_next_on_conn [OF st1(1)] by simp
  obtain w r2 where ru: "reg_user_for ?n ?u ?r1 = (w, r2)" by fastforce
  from user_for_login_reg [OF st1(2), where name = ?n] have st2: "at_reg e kc kb r2 st2" "v = w" "bk p st2 = bk p st" for p
    using on_obj_bk(1) [OF st1(1)] by (simp_all add: u ru nx)
  have login: "reg_login a ?n ?u r = upd_user v (pend a) r2" by (simp add: reg_login_def ru st2(2))
  have user: "rg_user r2 v \<noteq> None"
  proof (cases "rg_by_name r ?n")
    case None
    then show ?thesis using ru st2(2) by (auto simp: reg_user_for_def upd_conn_def)
  next
    case (Some z)
    then show ?thesis using ru st2(2) reg_invD(4) [OF inv Some] by (auto simp: reg_user_for_def upd_conn_def)
  qed
  have "runs (on_user v (AddUnValidateMsgConn a) st2) (at_reg e kc kb (upd_user v (pend a) r2))"
    by (rule runs_on_user [OF st2(1) user]) (simp_all add: user_view_def pend_def AddUnValidateMsgConn_def)
  then obtain st3 where st3: "on_user v (AddUnValidateMsgConn a) st2 = Inr st3" "at_reg e kc kb (reg_login a ?n ?u r) st3"
    by (auto simp: runs_iff login)
  have "rg_conn (reg_login a ?n ?u r) a \<noteq> None"
    using a(2) ru by (auto simp: login reg_user_for_def upd_conn_def split: option.splits)
  then obtain x where x: "deref a (ms_conns st3) = Inr x" using at_reg_conn [OF st3(2)] by blast
  have "live d (b_heap (ms_db st3))" using d on_obj_bk(2) [OF st3(1), of Db] st2(3) [of Db] by simp
  from runs_to_db [OF st3(2) reg_inv_live [OF inv'] this] show "runs (start_validation e a hdr d msg st) (at_reg e kc kb (reg_login a ?n ?u r))"
    using st1(1) u st3(1) x by (simp add: start_validation_def Let_def status_def)
qed

section \<open>The answer of the database\<close>

lemma at_reg_user_deref: "at_reg e kc kb r st \<Longrightarrow> deref u (ms_users st) = Inr x \<Longrightarrow> rg_user r u = Some (user_view x)"
  using at_reg_maps(3) by (metis view_deref)

lemma runs_delete_named:
  assumes at: "at_reg e kc kb r st" and u: "rg_user r u = Some p" "pe_id p = 0" "rg_by_id r 0 = None"
  shows "runs (delete_user u (RemoveImUserByLoginName (pe_name p) st)) (at_reg e kc kb (drop_user u r))"
proof -
  obtain x where x: "deref u (ms_users st) = Inr x" "p = user_view x" using at_reg_user [OF at, of u] u(1) by auto
  have "map_of (m_im_user_map st) 0 = None" using at_reg_maps(4) [OF at] u(3) by simp
  then have "RemoveImUserById 0 st = st" by (simp add: RemoveImUserById_def map_erase_absent)
  then have "RemoveImUser u st = delete_user u (RemoveImUserByLoginName (pe_name p) st)"
    using x u(2) by (simp add: RemoveImUser_def)
  then show ?thesis using runs_RemoveImUser [OF at] u(1) by (metis option.simps(3))
qed

text \<open>The two states of the users that \<open>merge_user\<close> leads to are those of \<open>reg_merge\<close>.\<close>

lemma runs_merge_user:
  assumes at: "at_reg e kc kb r st" and inv: "reg_inv idof r" and u: "rg_user r u = Some p" "idof (pe_name p) = i" "i \<noteq> 0"
  shows "runs (merge_user u a (pe_name p) i st) (\<lambda>(v, st'). v = fst (reg_merge u a i r) \<and> at_reg e kc kb (snd (reg_merge u a i r)) st')"
proof (cases "rg_by_id r i")
  case None
  then have "map_of (m_im_user_map st) i = None" using at_reg_maps(4) [OF at] by simp
  then show ?thesis using at None by (simp add: merge_user_def GetImUserById_def reg_merge_def)
next
  case (Some v)
  note ok = reg_invD(2) [OF inv u(1)]
  have by_id: "map_of (m_im_user_map st) i = Some v" using at_reg_maps(4) [OF at] Some by simp
  obtain q where q: "rg_user r v = Some q" using reg_invD(3) [OF inv Some] by blast
  let ?r1 = "upd_user v (pend a) r" let ?r2 = "upd_user u (unpend a) ?r1"
  have "runs (on_user v (AddUnValidateMsgConn a) st) (at_reg e kc kb ?r1)"
    by (rule runs_on_user [OF at]) (use q in \<open>simp_all add: user_view_def pend_def AddUnValidateMsgConn_def\<close>)
  then obtain st1 where st1: "on_user v (AddUnValidateMsgConn a) st = Inr st1" "at_reg e kc kb ?r1 st1" by (auto simp: runs_iff)
  have "runs (on_user u (DelUnValidateMsgConn a) st1) (at_reg e kc kb ?r2)"
    by (rule runs_on_user [OF st1(2)]) (use u(1) in \<open>auto simp: user_view_def unpend_def DelUnValidateMsgConn_def rg_user_upd_user\<close>)
  then obtain st2 where st2: "on_user u (DelUnValidateMsgConn a) st1 = Inr st2" "at_reg e kc kb ?r2 st2" by (auto simp: runs_iff)
  obtain p2 where p2: "rg_user ?r2 u = Some p2" "pe_conns p2 = pe_conns p" "pe_name p2 = pe_name p" "pe_id p2 = pe_id p"
    using u(1) by (cases "u = v") (auto simp: rg_user_upd_user unpend_def pend_def)
  obtain x where x: "deref u (ms_users st2) = Inr x" "p2 = user_view x" using at_reg_user [OF st2(2), of u] p2(1) by auto
  have eq: "merge_user u a (pe_name p) i st = (if IsMsgConnEmpty x
      then bindR (delete_user u (RemoveImUserByLoginName (pe_name p) st2)) (\<lambda>st3. Inr (v, st3)) else Inr (v, st2))"
    using by_id st1(1) st2(1) x(1) by (simp add: merge_user_def GetImUserById_def)
  have empty: "IsMsgConnEmpty x \<longleftrightarrow> pe_conns p = Map.empty" using x(2) p2(2) by (auto simp: IsMsgConnEmpty_def)
  show ?thesis
  proof (cases "pe_id p = 0")
    case True
    then have "v \<noteq> u" using reg_invD(3) [OF inv Some] u(1,3) by auto
    moreover have "rg_by_id ?r2 0 = None" using reg_invD(3) [OF inv, of 0] by (cases "rg_by_id r 0") auto
    moreover have "IsMsgConnEmpty x" using empty user_okD(3) [OF ok True] by simp
    moreover note runs_delete_named [OF st2(2) p2(1)]
    ultimately show ?thesis unfolding eq using True p2(3,4) Some
      by (auto simp: reg_merge_def Let_def intro!: runs_bind)
  next
    case False
    then have "v = u" "pe_conns p \<noteq> Map.empty" using user_okD(4) [OF ok False] Some u(2) by auto
    then show ?thesis unfolding eq using empty st2(2) Some by (simp add: reg_merge_def Let_def)
  qed
qed

lemma reg_live_drop_user:
  assumes "reg_live r" "\<And>p i. rg_user r u = Some p \<Longrightarrow> rg_by_id r i = Some u \<Longrightarrow> pe_id p = i"
  shows "reg_live (drop_user u r)"
proof (cases "rg_user r u")
  case (Some p)
  then have "rg_by_id (drop_user u r) i = Some v \<Longrightarrow> rg_user (drop_user u r) v \<noteq> None" for i v
    using reg_liveD(1) [OF assms(1), of i v] assms(2) [OF Some, of i] by (auto simp: drop_user_def split: if_splits)
  then show ?thesis
    by (rule reg_liveI) (use Some reg_liveD(2) [OF assms(1)] in \<open>auto simp: drop_user_def split: if_splits\<close>)
qed (use assms(1) in \<open>simp add: drop_user_def\<close>)

text \<open>What is needed of the users before a connection is admitted.\<close>

lemma reg_merge_ready:
  fixes a :: nat
  assumes inv: "reg_inv idof r" and u: "rg_user r u = Some p" "idof (pe_name p) = i" "i \<noteq> 0"
  defines "v \<equiv> fst (reg_merge u a i r)" and "r1 \<equiv> snd (reg_merge u a i r)"
  shows "reg_live r1" "rg_conn r1 = rg_conn r" "rg_user r1 v \<noteq> None" "rg_by_id r1 i = None \<or> rg_by_id r1 i = Some v"
proof -
  note ok = reg_invD(2) [OF inv u(1)]
  show "rg_conn r1 = rg_conn r" by (simp add: r1_def reg_merge_def Let_def split: option.split)
  consider "rg_by_id r i = None" | w where "rg_by_id r i = Some w" "w = u" | w where "rg_by_id r i = Some w" "w \<noteq> u" by blast
  then have "reg_live r1 \<and> rg_user r1 v \<noteq> None \<and> (rg_by_id r1 i = None \<or> rg_by_id r1 i = Some v)"
  proof cases
    case 1
    then show ?thesis using u(1) reg_inv_live [OF inv] by (simp add: r1_def v_def reg_merge_def)
  next
    case 2
    have "reg_live (upd_user u (unpend a) (upd_user u (pend a) r))"
      using reg_inv_live [OF inv] by (intro reg_live_upd_user) (simp_all add: pend_def unpend_def)
    then show ?thesis using 2 u(1) by (simp add: r1_def v_def reg_merge_def Let_def rg_user_upd_user)
  next
    case (3 w)
    obtain q where q: "rg_user r w = Some q" using reg_invD(3) [OF inv 3(1)] by blast
    have id: "pe_id p \<noteq> i" using user_okD(4) [OF ok] 3 u(2,3) by auto
    let ?r = "upd_user u (unpend a) (upd_user w (pend a) r)"
    have "reg_live ?r" using reg_inv_live [OF inv] by (intro reg_live_upd_user) (simp_all add: pend_def unpend_def)
    moreover have "rg_user ?r u = Some p' \<Longrightarrow> rg_by_id ?r j = Some u \<Longrightarrow> pe_id p' = j" for p' j
      using reg_invD(3) [OF inv, of j u] u(1) 3(2) by (auto simp: rg_user_upd_user unpend_def)
    ultimately have "reg_live (drop_user u ?r)" by (rule reg_live_drop_user)
    moreover have "rg_user (drop_user u ?r) w \<noteq> None" "rg_by_id (drop_user u ?r) i = Some w"
      using q u(1) 3 id by (auto simp: drop_user_def rg_user_upd_user unpend_def)
    ultimately show ?thesis using 3 by (simp add: r1_def v_def reg_merge_def Let_def)
  qed
  then show "reg_live r1" "rg_user r1 v \<noteq> None" "rg_by_id r1 i = None \<or> rg_by_id r1 i = Some v" by auto
qed

lemma runs_AddImUserById:
  assumes at: "at_reg e kc kb r st" and "rg_by_id r i = None \<or> rg_by_id r i = Some u"
  shows "at_reg e kc kb (r\<lparr>rg_by_id := (rg_by_id r)(i \<mapsto> u)\<rparr>) (AddImUserById i u st)"
proof (cases "rg_by_id r i")
  case None
  then have free: "map_of (m_im_user_map st) i = None" using at_reg_maps(4) [OF at] by simp
  let ?st = "st\<lparr>m_im_user_map := om_assign i u (m_im_user_map st)\<rparr>"
  have "registry_of ?st = r\<lparr>rg_by_id := (rg_by_id r)(i \<mapsto> u)\<rparr>"
    using at_regD(1,2) [OF at] by (auto simp: registry_of_def map_of_om_assign boxes_def)
  moreover have "boxes ?st" using at_regD(2) [OF at] by (simp add: boxes_def om_ok_assign)
  moreover have "counted kc ?st" using at_regD(3) [OF at] by (simp add: counted_def)
  ultimately show ?thesis using free at_regD(4,5) [OF at] by (simp add: AddImUserById_def GetImUserById_def at_reg_def)
next
  case (Some v)
  then have "map_of (m_im_user_map st) i = Some u" "(rg_by_id r)(i \<mapsto> u) = rg_by_id r"
    using at_reg_maps(4) [OF at] assms(2) by auto
  then show ?thesis using at by (simp add: AddImUserById_def GetImUserById_def)
qed

lemma runs_admit_conn:
  assumes at: "at_reg e kc kb r st" and live: "reg_live r" and u: "rg_user r u \<noteq> None"
    and by_id: "rg_by_id r i = None \<or> rg_by_id r i = Some u" and a: "rg_conn r a = Some c"
    and i: "i = ui_user_id (vr_user_info msg)" and live': "reg_live (reg_admit u (ci_handle c) a i r)"
  shows "runs (admit_conn e u hdr msg a st) (at_reg e kc kb (reg_admit u (ci_handle c) a i r))"
proof -
  let ?info = "vr_user_info msg" and ?h = "ci_handle c"
  let ?r1 = "upd_user u (\<lambda>p. p\<lparr>pe_id := i\<rparr>) r" let ?r2 = "?r1\<lparr>rg_by_id := (rg_by_id r)(i \<mapsto> u)\<rparr>"
  let ?r3 = "upd_conn a (\<lambda>c. c\<lparr>ci_uid := i, ci_open := True\<rparr>) ?r2"
  let ?v = "\<lambda>p. p\<lparr>pe_conns := (pe_conns p)(?h \<mapsto> a), pe_pending := pe_pending p - {a}\<rparr>"
  have final: "upd_user u ?v ?r3 = reg_admit u ?h a i r"
    using u by (auto simp: reg_admit_def upd_user_def upd_conn_def admit_def)
  have live1: "reg_live ?r1" using live by (rule reg_live_upd_user) simp
  have live2: "reg_live ?r2"
  proof (rule reg_liveI)
    fix j v
    assume "rg_by_id ?r2 j = Some v"
    then have "v = u \<or> rg_by_id r j = Some v" by (auto split: if_splits)
    then show "rg_user ?r2 v \<noteq> None" using u reg_liveD(1) [OF live, of j v] by (auto simp: rg_user_upd_user)
  qed (use reg_liveD(2) [OF live1] in simp)
  have live3: "reg_live ?r3" using live2 by (rule reg_live_upd_conn)
  have conn: "rg_conn ?r2 a \<noteq> None" "rg_conn ?r3 a \<noteq> None" "rg_conn (reg_admit u ?h a i r) a \<noteq> None"
    using a by (simp_all add: upd_conn_def reg_admit_def)
  have user: "rg_user ?r3 u \<noteq> None" using u by (auto simp: upd_conn_def rg_user_upd_user)
  let ?g1 = "\<lambda>x. x\<lparr>iu_user_id := ui_user_id ?info, iu_nick_name := ui_user_nick_name ?info, iu_validate := True\<rparr>"
  have "runs (on_user u ?g1 st) (at_reg e kc kb ?r1)"
    by (rule runs_on_user [OF at u]) (simp_all add: user_view_def i)
  then obtain st1 where st1: "on_user u ?g1 st = Inr st1" "at_reg e kc kb ?r1 st1" by (auto simp: runs_iff)
  let ?st2 = "AddImUserById (ui_user_id ?info) u st1"
  have at2: "at_reg e kc kb ?r2 ?st2" using runs_AddImUserById [OF st1(2), of i u] by_id by (simp add: i)
  obtain c2 where c2': "deref a (ms_conns ?st2) = Inr c2" "c = conn_view c2" using at_reg_conn [OF at2 conn(1)] a by auto
  then have c2: "deref a (ms_conns ?st2) = Inr c2" "mc_handle c2 = ?h" by simp_all
  have found: "GetImUserById (ui_user_id ?info) ?st2 = Some u" using at_reg_maps(4) [OF at2] by (simp add: GetImUserById_def i)
  have kick: "runs (KickOutSameClientType e u t KICK_REASON_DUPLICATE_USER (Some a) ?st2) (at_reg e kc kb ?r2)" for t
    by (rule runs_calm [OF at2 live2 _ no_throw_kick(2)]) (rule calm_KickOutSameClientType, assumption, rule found_user_live [OF _ found], assumption)
  have route: "runs (if_route e data st3) (at_reg e kc kb ?r2)" if "at_reg e kc kb ?r2 st3" for data st3
    by (rule runs_calm [OF that live2 _ no_throw_if_route]) (rule calm_if_route)
  have conn_upd: "runs (on_conn a (\<lambda>c. c\<lparr>mc_user_id := ui_user_id ?info, mc_open := True\<rparr>) st4) (at_reg e kc kb ?r3)"
    if "at_reg e kc kb ?r2 st4" for st4
    by (rule runs_on_conn [OF that conn(1)]) (simp add: conn_view_def i)
  have status: "runs (SendUserStatusUpdate e a USER_STATUS_ONLINE st5) (at_reg e kc kb ?r3)" if "at_reg e kc kb ?r3 st5" for st5
    by (rule runs_calm [OF that live3 _ no_throw_status(2)]) (rule calm_SendUserStatusUpdate, assumption, rule at_reg_conn_live [OF that conn(2)])
  have valid: "runs (on_user u (ValidateMsgConn (mc_handle c2) a) st6) (at_reg e kc kb (reg_admit u ?h a i r))"
    if "at_reg e kc kb ?r3 st6" for st6
    unfolding final [symmetric]
    by (rule runs_on_user [OF that user])
      (simp_all add: user_view_def ValidateMsgConn_def AddMsgConn_def DelUnValidateMsgConn_def map_of_om_assign om_ok_assign c2(2))
  show ?thesis unfolding admit_conn_def Let_def st1(1) bindR_simps c2(1)
    by (rule runs_bind [OF kick], rule runs_bind [OF route], assumption, rule runs_bind [OF conn_upd], assumption,
        rule runs_bind [OF status], assumption, rule runs_bind [OF valid], assumption, rule runs_to_client [OF _ live' conn(3)], assumption)
qed

lemma find_handle_spec:
  assumes "\<And>b. b \<in> set as \<Longrightarrow> live b h"
  shows "\<exists>o'. find_handle h handle as = Inr o' \<and> (\<forall>a. o' = Some a \<longrightarrow> a \<in> set as \<and> (\<exists>c. deref a h = Inr c \<and> mc_handle c = handle))"
  using assms
proof (induction as)
  case (Cons b as)
  obtain c where c: "deref b h = Inr c" using live_deref Cons.prems by fastforce
  have "\<exists>o'. find_handle h handle as = Inr o' \<and> (\<forall>a. o' = Some a \<longrightarrow> a \<in> set as \<and> (\<exists>c. deref a h = Inr c \<and> mc_handle c = handle))"
    using Cons.prems by (intro Cons.IH) simp
  then show ?case using c by auto
qed simp

text \<open>The database answers with the id that it has for the login name.\<close>

definition validates :: "(string \<Rightarrow> u32) \<Rightarrow> string \<Rightarrow> u32 \<Rightarrow> bool" where
  "validates idof name i \<longleftrightarrow> idof name = i \<and> i \<noteq> 0"

text \<open>The server is sound and its registry has made steps of the specification since \<open>r\<close>.\<close>

definition follows :: "(string \<Rightarrow> u32) \<Rightarrow> env \<Rightarrow> (nat \<Rightarrow> int) \<Rightarrow> held_backs \<Rightarrow> (u32, char, u32) registry \<Rightarrow> msg_server \<Rightarrow> bool" where
  "follows idof e kc kb r st \<longleftrightarrow> at_reg e kc kb (registry_of st) st \<and> (reg_step idof)\<^sup>*\<^sup>* r (registry_of st)"

lemma followsI: "at_reg e kc kb r' st \<Longrightarrow> (reg_step idof)\<^sup>*\<^sup>* r r' \<Longrightarrow> follows idof e kc kb r st"
  unfolding follows_def using at_regD(1) by blast

lemma follows_refl: "at_reg e kc kb r st \<Longrightarrow> follows idof e kc kb r st"
  by (rule followsI [OF _ rtranclp.rtrancl_refl])

lemma follows_inv: "follows idof e kc kb r st \<Longrightarrow> reg_inv idof r \<Longrightarrow> reg_inv idof (registry_of st)"
  by (auto simp: follows_def intro: reg_inv_steps)

lemma follows_at: "follows idof e kc kb r st \<Longrightarrow> at_reg e kc kb (registry_of st) st"
  by (simp add: follows_def)

lemma follows_trans: "(reg_step idof)\<^sup>*\<^sup>* r r' \<Longrightarrow> follows idof e kc kb r' st \<Longrightarrow> follows idof e kc kb r st"
  by (auto simp: follows_def)

lemma steps_freed:
  assumes inv: "reg_inv idof r" and h: "rg_handles r h = Some a"
  shows "(reg_step idof)\<^sup>*\<^sup>* r (conn_freed kc a (reg_close a r))"
proof -
  obtain c where c: "rg_conn r a = Some c" "ci_handle c = h" using reg_invD(1) [OF inv h] by (auto elim: conn_okE)
  have "g = h" if "rg_handles r g = Some a" for g using reg_invD(1) [OF inv that] c by (auto elim: conn_okE)
  then have "rg_handles (reg_close a r) g \<noteq> Some a" for g using c(2) by (auto simp: rg_handles_close [OF c(1)])
  then have "(reg_step idof)\<^sup>*\<^sup>* (reg_close a r) (conn_freed kc a (reg_close a r))"
    using reg_step.free [of "reg_close a r" a idof] by (auto simp: conn_freed_def)
  then show ?thesis using reg_step.close [OF h, of idof] by (simp add: converse_rtranclp_into_rtranclp)
qed

lemma follows_Close:
  assumes at: "at_reg e kc kb r st" and inv: "reg_inv idof r" and h: "rg_handles r h = Some a" and kc: "0 \<le> kc a"
  shows "runs (Close e a st) (follows idof e kc kb r)"
  by (rule runs_mono [OF runs_Close [OF assms]]) (rule followsI, assumption, rule steps_freed [OF inv h])

lemma okR_HandleValidateResponse:
  assumes at: "at_reg e idle kb r st" and inv: "reg_inv idof r" and img: "16 \<le> length img" "short img"
    and codec: "short_field (pb_ValidateRsp (e_server e)) vr_attach_data"
    and db: "\<And>msg. pb_par (pb_ValidateRsp (e_server e)) (drop 16 img) = (True, msg) \<Longrightarrow> vr_result_code msg = 0 \<Longrightarrow>
      validates idof (vr_user_name msg) (ui_user_id (vr_user_info msg))"
  shows "okR (follows idof e idle kb r) (HandleValidateResponse e hdr img st)"
  unfolding HandleValidateResponse_def
proof (rule okR_parsed [OF img(1)])
  show "follows idof e idle kb r st" using at by (rule follows_refl)
next
  fix msg
  assume m: "pb_par (pb_ValidateRsp (e_server e)) (drop 16 img) = (True, msg)"
  let ?Q = "follows idof e idle kb r"
  let ?n = "vr_user_name msg" and ?i = "ui_user_id (vr_user_info msg)"
  show "okR ?Q (bindR (attach_handle (vr_attach_data msg)) (\<lambda>handle. case GetImUserByLoginName ?n st of None \<Rightarrow> Inr st
      | Some u \<Rightarrow> bindR (deref u (ms_users st)) (\<lambda>x. bindR (GetUnValidateMsgConn handle x st) (\<lambda>r. case r of None \<Rightarrow> Inr st
      | Some a \<Rightarrow> bindR (deref a (ms_conns st)) (\<lambda>c. if mc_open c then Inr st
          else if vr_result_code msg = 0 then bindR (merge_user u a ?n ?i st) (\<lambda>(v, st1). admit_conn e v hdr msg a st1)
          else bindR (to_client e a (login_res e hdr REFUSE_REASON_DB_VALIDATE_FAILED (vr_result_string msg) None None) st) (Close e a))))))"
  proof (rule okR_bind [OF calm_attach_handle], rule short_fieldD [OF codec m img(2)], cases "GetImUserByLoginName ?n st")
    case None
    then show "okR ?Q (case GetImUserByLoginName ?n st of None \<Rightarrow> Inr st | Some u \<Rightarrow> f u)" for f using follows_refl [OF at] by simp
  next
    case (Some u)
    fix handle
    have by_name: "rg_by_name r ?n = Some u" using Some at_reg_maps(5) [OF at] by (simp add: GetImUserByLoginName_def)
    then obtain p where p: "rg_user r u = Some p" "pe_name p = ?n" using reg_invD(4) [OF inv] by blast
    obtain x where x: "deref u (ms_users st) = Inr x" "p = user_view x" using at_reg_user [OF at, of u] p(1) by auto
    note ok = reg_invD(2) [OF inv p(1)]
    have "live b (ms_conns st)" if "b \<in> set (iu_unvalidate_conn_set x)" for b
      using user_okD(6) [OF ok, of b] that x(2) at_reg_conn_live [OF at, of b] by auto
    then obtain o' where o': "GetUnValidateMsgConn handle x st = Inr o'"
      "\<And>a. o' = Some a \<Longrightarrow> a \<in> pe_pending p \<and> (\<exists>c. deref a (ms_conns st) = Inr c \<and> mc_handle c = handle)"
      using find_handle_spec [of "iu_unvalidate_conn_set x" "ms_conns st" handle] x(2) by (auto simp: GetUnValidateMsgConn_def)
    have "runs (case o' of None \<Rightarrow> Inr st | Some a \<Rightarrow> bindR (deref a (ms_conns st)) (\<lambda>c. if mc_open c then Inr st
        else if vr_result_code msg = 0 then bindR (merge_user u a ?n ?i st) (\<lambda>(v, st1). admit_conn e v hdr msg a st1)
        else bindR (to_client e a (login_res e hdr REFUSE_REASON_DB_VALIDATE_FAILED (vr_result_string msg) None None) st) (Close e a))) ?Q"
    proof (cases o')
      case None
      then show ?thesis using follows_refl [OF at] by simp
    next
      case a: (Some a)
      obtain c where c: "deref a (ms_conns st) = Inr c" "mc_handle c = handle" "a \<in> pe_pending p" using o'(2) [OF a] by blast
      have rc: "rg_conn r a = Some (conn_view c)" using at_reg_maps(2) [OF at] view_deref [OF c(1)] by metis
      have hc: "rg_handles r (mc_handle c) = Some a" "\<not> mc_open c" using user_okD(6) [OF ok c(3)] rc by auto
      show ?thesis
      proof (cases "vr_result_code msg = 0")
        case True
        have id: "idof (pe_name p) = ?i" "?i \<noteq> 0" using db [OF m True] p(2) by (simp_all add: validates_def)
        have inv': "reg_inv idof (reg_validate u (ci_handle (conn_view c)) a ?i r)"
          by (rule reg_inv_validate [OF inv p(1) c(3) id rc])
        obtain v r1 where merge: "reg_merge u a ?i r = (v, r1)" by fastforce
        have val: "reg_validate u (ci_handle (conn_view c)) a ?i r = reg_admit v (ci_handle (conn_view c)) a ?i r1"
          by (simp add: reg_validate_def merge)
        note ready = reg_merge_ready [OF inv p(1) id, of a, unfolded merge fst_conv snd_conv]
        have "runs (merge_user u a ?n ?i st) (\<lambda>(v', st'). v' = v \<and> at_reg e idle kb r1 st')"
          using runs_merge_user [OF at inv p(1) id, of a] p(2) merge by simp
        then have "runs (bindR (merge_user u a ?n ?i st) (\<lambda>(v, st1). admit_conn e v hdr msg a st1))
          (at_reg e idle kb (reg_admit v (ci_handle (conn_view c)) a ?i r1))"
        proof (rule runs_bind, clarify)
          fix st1
          assume "at_reg e idle kb r1 st1"
          then show "runs (admit_conn e v hdr msg a st1) (at_reg e idle kb (reg_admit v (ci_handle (conn_view c)) a ?i r1))"
            by (rule runs_admit_conn [OF _ ready(1,3,4) _ refl]) (use ready(2) rc reg_inv_live [OF inv', unfolded val] in simp_all)
        qed
        moreover have "(reg_step idof)\<^sup>*\<^sup>* r (reg_admit v (ci_handle (conn_view c)) a ?i r1)"
          using reg_step.validate [OF p(1) c(3) _ rc, of idof] id val by simp
        ultimately have "runs (bindR (merge_user u a ?n ?i st) (\<lambda>(v, st1). admit_conn e v hdr msg a st1)) ?Q"
          by (auto intro: followsI elim: runs_mono)
        then show ?thesis using a c(1) hc(2) True by simp
      next
        case False
        let ?data = "login_res e hdr REFUSE_REASON_DB_VALIDATE_FAILED (vr_result_string msg) None None"
        have "runs (bindR (to_client e a ?data st) (Close e a)) ?Q"
          by (rule runs_bind [OF runs_to_client [OF at reg_inv_live [OF inv]]]) (use rc follows_Close [OF _ inv hc(1)] in auto)
        then show ?thesis using a c(1) hc(2) False by simp
      qed
    qed
    then show "okR ?Q (case GetImUserByLoginName ?n st of None \<Rightarrow> Inr st
      | Some u \<Rightarrow> bindR (deref u (ms_users st)) (\<lambda>x. bindR (GetUnValidateMsgConn handle x st) (\<lambda>r. case r of None \<Rightarrow> Inr st
      | Some a \<Rightarrow> bindR (deref a (ms_conns st)) (\<lambda>c. if mc_open c then Inr st
          else if vr_result_code msg = 0 then bindR (merge_user u a ?n ?i st) (\<lambda>(v, st1). admit_conn e v hdr msg a st1)
          else bindR (to_client e a (login_res e hdr REFUSE_REASON_DB_VALIDATE_FAILED (vr_result_string msg) None None) st) (Close e a)))))"
      using Some x(1) o'(1) runs_okR by auto
  qed
qed

end
