(* ===== verification/MsgRequests.thy ===== *)
theory MsgRequests
  imports MsgLife
begin

text \<open>
  What a client can do to the message server, over whole reads: PDUs that only send, then at most one that logs in or out. The
  server faults nowhere and its registry makes steps of the specification. The same for the clients' timer.
\<close>

section \<open>Logging in and out\<close>

lemma calm_available:
  assumes "at_rest e st0 st"
  shows "okR (\<lambda>_. True) (is_login_server_available st)" "okR (\<lambda>_. True) (is_route_server_available st)"
proof -
  have live: "conns_live (bk p st) (b_server_list (bk p st))" for p
    using assms by (auto simp: at_rest_iff wired_def bk_live_def)
  show "okR (\<lambda>_. True) (is_login_server_available st)"
    using first_open_ok [OF live [of Login, simplified]] by (auto simp: is_login_server_available_def server_available_def)
  show "okR (\<lambda>_. True) (is_route_server_available st)"
    using first_open_ok [OF live [of Route, simplified]] by (auto simp: is_route_server_available_def server_available_def)
qed

definition login_picked :: "env \<Rightarrow> msg_server \<Rightarrow> (nat option \<times> u32) \<times> msg_server \<Rightarrow> bool" where
  "login_picked e st0 x \<longleftrightarrow> picked e Db st0 (fst (fst x), snd x) \<and> (snd (fst x) = 0 \<longrightarrow> fst (fst x) \<noteq> None)"

lemma calm_login_result:
  assumes "at_rest e st0 st"
  shows "okR (login_picked e st0) (login_result e st)"
  unfolding login_result_def
proof (rule okR_bind [OF calm_get_db(2) [OF assms]], rule okR_prod)
  fix p c st1
  assume p: "picked e Db st0 p" "p = (c, st1)"
  then have rest: "at_rest e st0 st1" by (simp add: picked_def)
  show "okR (login_picked e st0) (if c = None then Inr ((c, REFUSE_REASON_NO_DB_SERVER), st1)
      else bindR (is_login_server_available st1) (\<lambda>login_ok. if \<not> login_ok then Inr ((c, REFUSE_REASON_NO_LOGIN_SERVER), st1)
        else bindR (is_route_server_available st1) (\<lambda>route_ok. Inr ((c, if \<not> route_ok then REFUSE_REASON_NO_ROUTE_SERVER else 0), st1))))"
    using p by (auto simp: login_picked_def intro!: okR_bind [OF calm_available(1) [OF rest]] okR_bind [OF calm_available(2) [OF rest]])
qed

lemma okR_HandleLoginRequest:
  assumes at: "at_reg e kc kb r st" and inv: "reg_inv idof r" and h: "rg_handles r h = Some a" and kc: "0 \<le> kc a"
    and img: "16 \<le> length img"
    and name: "\<And>msg. pb_par (pb_LoginReq (e_login e)) (drop 16 img) = (True, msg) \<Longrightarrow> lr_user_name msg \<noteq> []"
  shows "okR (follows idof e kc kb r) (HandleLoginRequest e a hdr img st)"
proof -
  obtain ci where rc: "rg_conn r a = Some ci" using reg_invD(1) [OF inv h] by (auto elim: conn_okE)
  then obtain c where c: "deref a (ms_conns st) = Inr c" "ci = conn_view c" using at_reg_conn [OF at, of a] by auto
  have live: "reg_live r" using reg_inv_live [OF inv] .
  show ?thesis
  proof (cases "mc_login_name c = []")
    case True
    have "okR (follows idof e kc kb r) (bindR (login_result e st) (\<lambda>((pDbConn, result), st1).
         if result \<noteq> 0 then bindR (to_client e a (login_res e hdr result server_error_text None None) st1) (Close e a)
         else case pDbConn of None \<Rightarrow> Inl MemFault
              | Some d \<Rightarrow> parsed (pb_LoginReq (e_login e)) img (\<lambda>msg. start_validation e a hdr d msg st1) st1))"
    proof (rule okR_bind [OF calm_login_result [OF at_reg_rest [OF at live]]], clarify)
      fix pDb st1 and result :: u32
      assume p: "login_picked e st ((pDb, result), st1)"
      then have rest: "at_rest e st st1" and d: "\<And>d. pDb = Some d \<Longrightarrow> live d (b_heap (ms_db st))"
        by (auto simp: login_picked_def picked_def)
      have at1: "at_reg e kc kb r st1" using at_rest_at_reg [OF rest at] .
      show "okR (follows idof e kc kb r) (if result \<noteq> 0 then bindR (to_client e a (login_res e hdr result server_error_text None None) st1) (Close e a)
         else case pDb of None \<Rightarrow> Inl MemFault
              | Some d \<Rightarrow> parsed (pb_LoginReq (e_login e)) img (\<lambda>msg. start_validation e a hdr d msg st1) st1)"
      proof (cases "result = 0")
        case True
        then obtain d where D: "pDb = Some d" using p by (auto simp: login_picked_def)
        have live_d: "live d (b_heap (ms_db st1))" using d [OF D] at_rest_bk_lives(1) [OF rest] by simp
        have "okR (follows idof e kc kb r) (parsed (pb_LoginReq (e_login e)) img (\<lambda>msg. start_validation e a hdr d msg st1) st1)"
        proof (rule okR_parsed [OF img])
          show "follows idof e kc kb r st1" using at1 by (rule follows_refl)
        next
          fix msg
          assume "pb_par (pb_LoginReq (e_login e)) (drop 16 img) = (True, msg)"
          then have n: "lr_user_name msg \<noteq> []" by (rule name)
          have ci: "ci_name ci = []" using c(2) \<open>mc_login_name c = []\<close> by simp
          have fresh: "rg_user r (hp_next (ms_users st1)) = None"
            using at_reg_maps(3) [OF at1] view_fresh [of "ms_users st1" user_view] at_regD(2) [OF at1] by (auto simp: boxes_def)
          have "ci_handle ci = h" using reg_invD(1) [OF inv h] rc by (auto elim: conn_okE)
          then have "reg_step idof r (reg_login a (lr_user_name msg) (hp_next (ms_users st1)) r)"
            using reg_step.login [OF rc _ ci n fresh] h by simp
          then have "runs (start_validation e a hdr d msg st1) (follows idof e kc kb r)"
            by (intro runs_mono [OF runs_start_validation(1) [OF at1 inv h rc ci n live_d]]) (auto intro: followsI)
          then show "okR (follows idof e kc kb r) (start_validation e a hdr d msg st1)" by (rule runs_okR)
        qed
        then show ?thesis using True D by simp
      next
        case False
        have "runs (bindR (to_client e a (login_res e hdr result server_error_text None None) st1) (Close e a)) (follows idof e kc kb r)"
          by (rule runs_bind [OF runs_to_client [OF at1 live]]) (use rc follows_Close [where kc = kc, OF _ inv h kc] in auto)
        then show ?thesis using False runs_okR by auto
      qed
    qed
    then show ?thesis using c(1) True by (simp add: HandleLoginRequest_def)
  qed (use c(1) follows_refl [OF at] in \<open>simp add: HandleLoginRequest_def\<close>)
qed

lemma runs_if_db:
  assumes at: "at_reg e kc kb r st" and live: "reg_live r"
  shows "runs (if_db e (\<lambda>d. to_db e d data) st) (at_reg e kc kb r)"
proof (rule runs_calm [OF at live])
  show "no_throw (if_db e (\<lambda>d. to_db e d data) st)" by (rule no_throw_intros)+
  show "at_rest e st st \<Longrightarrow> okR (at_rest e st) (if_db e (\<lambda>d. to_db e d data) st)"
    by (rule calm_with_db(1)) (simp_all add: calm_to_bk)
qed

lemma runs_HandleLoginOutRequest:
  assumes at: "at_reg e kc kb r st" and inv: "reg_inv idof r" and h: "rg_handles r h = Some a" and kc: "0 \<le> kc a"
  shows "runs (HandleLoginOutRequest e a hdr st) (follows idof e kc kb r)"
proof -
  obtain ci where rc: "rg_conn r a = Some ci" using reg_invD(1) [OF inv h] by (auto elim: conn_okE)
  then obtain c where c: "deref a (ms_conns st) = Inr c" using at_reg_conn [OF at, of a] by auto
  note live = reg_inv_live [OF inv]
  show ?thesis unfolding HandleLoginOutRequest_def c bindR_simps
    by (rule runs_bind [OF runs_if_db [OF at live]], rule runs_bind [OF runs_to_client [OF _ live]], assumption)
       (use rc follows_Close [where kc = kc, OF _ inv h kc] in auto)
qed

section \<open>Reads\<close>

text \<open>
  What is relied on of a client: its PDUs are at least as long as a header, it reports a download only while both servers are
  connected, and a PDU that may close the connection is the last one of a read.
\<close>

definition quiet_pdu :: "msg_server \<Rightarrow> pdu_header \<times> bytes \<Rightarrow> bool" where
  "quiet_pdu st f \<longleftrightarrow> 16 \<le> length (snd f) \<and> h_command_id (fst f) \<notin> {CID_LOGIN_REQ_USERLOGIN, CID_LOGIN_REQ_LOGINOUT}
     \<and> (h_command_id (fst f) = CID_FILE_DEL_OFFLINE_REQ \<longrightarrow> servers_open st)"

definition session_pdu :: "env \<Rightarrow> pdu_header \<times> bytes \<Rightarrow> bool" where
  "session_pdu e f \<longleftrightarrow> 16 \<le> length (snd f) \<and> h_command_id (fst f) \<in> {CID_LOGIN_REQ_USERLOGIN, CID_LOGIN_REQ_LOGINOUT}
     \<and> (h_command_id (fst f) = CID_LOGIN_REQ_USERLOGIN \<longrightarrow>
         (\<forall>msg. pb_par (pb_LoginReq (e_login e)) (drop 16 (snd f)) = (True, msg) \<longrightarrow> lr_user_name msg \<noteq> []))"

definition client_read_ok :: "env \<Rightarrow> msg_server \<Rightarrow> (pdu_header \<times> bytes) list \<Rightarrow> bool \<Rightarrow> bool" where
  "client_read_ok e st fs bad \<longleftrightarrow> (\<forall>f\<in>set fs. quiet_pdu st f) \<or> (fs \<noteq> [] \<and> \<not> bad \<and> session_pdu e (last fs) \<and> (\<forall>f\<in>set (butlast fs). quiet_pdu st f))"

lemma run_pdus_append:
  "run_pdus h (fs @ gs) st = (case run_pdus h fs st of (st1, None) \<Rightarrow> run_pdus h gs st1 | (st1, Some ex) \<Rightarrow> (st1, Some ex))"
  by (induction fs arbitrary: st) (simp_all split: sum.split)

lemma quiet_servers: "servers_open st' = servers_open st \<Longrightarrow> quiet_pdu st' f = quiet_pdu st f"
  by (simp add: quiet_pdu_def)

lemma calm_run_pdus:
  assumes "at_rest e st0 st" "live a (ms_conns st0)" "codecs_short e" "\<forall>f\<in>set fs. quiet_pdu st0 f"
  shows "case run_pdus (HandlePdu e a) fs st of (st', ex) \<Rightarrow> at_rest e st0 st' \<and> (\<forall>x. ex = Some x \<longrightarrow> thrown x)"
  using assms(1,4)
proof (induction fs arbitrary: st)
  case (Cons f fs)
  have so: "servers_open st = servers_open st0" using Cons.prems(1) calm_servers_open by (auto simp: at_rest_def)
  have "okR (at_rest e st0) (HandlePdu e a (fst f) (snd f) st)"
    using Cons.prems(2) so by (intro calm_client_HandlePdu [OF Cons.prems(1) assms(2) _ assms(3)]) (auto simp: quiet_pdu_def)
  then show ?case using Cons.IH Cons.prems by (cases "HandlePdu e a (fst f) (snd f) st") auto
qed simp

lemma okR_session_pdu:
  assumes at: "at_reg e kc kb r st" and inv: "reg_inv idof r" and h: "rg_handles r h = Some a" and kc: "0 \<le> kc a"
    and f: "session_pdu e (hdr, img)"
  shows "okR (follows idof e kc kb r) (HandlePdu e a hdr img st)"
proof -
  obtain ci where rc: "rg_conn r a = Some ci" using reg_invD(1) [OF inv h] by (auto elim: conn_okE)
  then obtain c where c: "deref a (ms_conns st) = Inr c" using at_reg_conn [OF at, of a] by auto
  have "okR (follows idof e kc kb r) (run_handler (client_handlers e a hdr img) (h_command_id hdr) st)"
  proof (cases "h_command_id hdr = CID_LOGIN_REQ_USERLOGIN")
    case True
    then have "run_handler (client_handlers e a hdr img) (h_command_id hdr) st = HandleLoginRequest e a hdr img st"
      by (simp add: run_handler_def client_handlers_def)
    then show ?thesis using okR_HandleLoginRequest [OF at inv h kc] f True by (simp add: session_pdu_def)
  next
    case False
    then have "h_command_id hdr = CID_LOGIN_REQ_LOGINOUT" using f by (simp add: session_pdu_def)
    then have "run_handler (client_handlers e a hdr img) (h_command_id hdr) st = HandleLoginOutRequest e a hdr st"
      by (simp add: run_handler_def client_handlers_def)
    then show ?thesis using runs_okR [OF runs_HandleLoginOutRequest [OF at inv h kc]] by simp
  qed
  then show ?thesis using c by (simp add: HandlePdu_def)
qed

lemma runs_msg_OnRead:
  assumes at: "at_reg e kc kb r st" and inv: "reg_inv idof r" and h: "rg_handles r h = Some a" and kc: "0 \<le> kc a"
    and cs: "codecs_short e" and fs: "client_read_ok e st fs bad"
  shows "runs (msg_OnRead e fs bad a st) (follows idof e kc kb r)"
proof -
  obtain ci where rc: "rg_conn r a = Some ci" using reg_invD(1) [OF inv h] by (auto elim: conn_okE)
  have live: "live a (ms_conns st)" using at_reg_conn_live [OF at, of a] rc by simp
  note rest = at_reg_rest [OF at reg_inv_live [OF inv]]
  have "no_throw (on_conn a g st)" for g unfolding on_conn_def by (rule no_throw_intros)+
  from okR_runs [OF calm_on_conn [OF rest live] this, of "\<lambda>c. c\<lparr>mc_last_recv_tick := e_now e\<rparr>"]
  have touch: "runs (on_conn a (\<lambda>c. c\<lparr>mc_last_recv_tick := e_now e\<rparr>) st) (at_rest e st)" by (simp add: conn_core_def)
  have close: "runs (OnClose e a st1) (follows idof e kc kb r)" if "at_rest e st st1" for st1
    unfolding OnClose_def by (rule follows_Close [OF at_rest_at_reg [OF that at] inv h kc])
  have quiet: "case run_pdus (HandlePdu e a) gs st1 of (st', ex) \<Rightarrow> at_rest e st st' \<and> (\<forall>x. ex = Some x \<longrightarrow> thrown x)"
    if "at_rest e st st1" "\<forall>f\<in>set gs. quiet_pdu st f" for st1 gs
    by (rule calm_run_pdus [OF that(1) live cs that(2)])
  have "runs (read_pdus (HandlePdu e a) (OnClose e a) fs bad st1) (follows idof e kc kb r)" if st1: "at_rest e st st1" for st1
  proof (cases "\<forall>f\<in>set fs. quiet_pdu st f")
    case True
    obtain st2 ex where run: "run_pdus (HandlePdu e a) fs st1 = (st2, ex)" by fastforce
    with quiet [OF st1 True] have "at_rest e st st2" "\<And>x. ex = Some x \<Longrightarrow> thrown x" by auto
    then show ?thesis using close [of st2] follows_refl [OF at_rest_at_reg [OF _ at]]
      by (cases ex) (simp_all add: read_pdus_def run)
  next
    case False
    then obtain gs hdr img where fs': "fs = gs @ [(hdr, img)]" "\<not> bad" "session_pdu e (hdr, img)" "\<forall>f\<in>set gs. quiet_pdu st f"
      using fs unfolding client_read_ok_def by (metis append_butlast_last_id surj_pair)
    obtain st2 ex where run: "run_pdus (HandlePdu e a) gs st1 = (st2, ex)" by fastforce
    with quiet [OF st1 fs'(4)] have st2: "at_rest e st st2" "\<And>x. ex = Some x \<Longrightarrow> thrown x" by auto
    show ?thesis
    proof (cases ex)
      case None
      note last = okR_session_pdu [OF at_rest_at_reg [OF st2(1) at] inv h kc fs'(3)]
      show ?thesis
        using last close [OF st2(1)] fs'(2) None
        by (cases "HandlePdu e a hdr img st2") (auto simp: read_pdus_def fs'(1) run_pdus_append run)
    qed (use st2 close in \<open>simp add: read_pdus_def fs'(1) run_pdus_append run\<close>)
  qed
  then show ?thesis unfolding msg_OnRead_def by (rule runs_bind [OF touch])
qed

end
