(* ===== verification/BackTimers.thy ===== *)
theory BackTimers
  imports Backends
begin

text \<open>
  Time-outs and reconnecting of a back end (\<open>ServInfo.h\<close> and the classes' \<open>OnTimer\<close>) keep the invariant of \<open>Backends\<close>: a
  time-out closes at most the connection it is called for, reconnecting gives a new object to an entry without one.
\<close>

text \<open>What may have become of a back end in which at most the connection with handle \<open>h\<close> was closed.\<close>

definition bk_closed :: "u32 \<Rightarrow> nat \<Rightarrow> backend \<Rightarrow> backend \<Rightarrow> bool" where
  "bk_closed h a b b' \<longleftrightarrow> length (b_server_list b') = length (b_server_list b)
     \<and> (\<forall>g. g \<noteq> h \<longrightarrow> map_of (b_conn_map b') g = map_of (b_conn_map b) g) \<and> (\<forall>x. x \<noteq> a \<longrightarrow> owned b' x = owned b x)"

lemma same_bk_closed: "same_bk b b' \<Longrightarrow> bk_closed h a b b'"
  by (simp add: bk_closed_def same_bk_def owned_def)

lemma bk_closed_trans: "bk_closed h a b b' \<Longrightarrow> bk_closed h a b' b'' \<Longrightarrow> bk_closed h a b b''"
  by (simp add: bk_closed_def)

lemma bk_closed_Close:
  assumes "bk_inv k b" "map_of (b_conn_map b) h = Some a"
  shows "\<exists>b' out. serv_Close clear a b = Inr (b', out) \<and> bk_inv k b' \<and> bk_closed h a b b' \<and> \<not> owned b' a"
proof -
  obtain b' out where "serv_Close clear a b = Inr (b', out)" "bk_inv k b'" "b_conn_map b' = map_erase h (b_conn_map b)"
    "length (b_server_list b') = length (b_server_list b)" "\<And>x. owned b' x \<longleftrightarrow> owned b x \<and> x \<noteq> a"
    using bk_inv_Close [OF assms] by blast
  then show ?thesis by (auto simp: bk_closed_def map_of_map_erase)
qed

lemma bk_closed_OnTimer:
  assumes inv: "bk_inv k b" and h: "map_of (b_conn_map b) h = Some a"
  shows "\<exists>b' out. serv_OnTimer clear data now t a b = Inr (b', out) \<and> bk_inv k b' \<and> bk_closed h a b b'"
proof -
  obtain c where c: "deref a (b_heap b) = Inr c" using bk_invD(4) [OF inv h] by (auto simp: handle_ok_def)
  have "\<exists>b1 out1. (if sv_last_send_tick c + SERVER_HEARTBEAT_INTERVAL < t then serv_SendPdu now a data b else Inr (b, [])) = Inr (b1, out1) \<and> same_bk b b1"
    using same_bk_send [of a b now data] deref_live [OF c] by auto
  then obtain b1 out1 where b1: "(if sv_last_send_tick c + SERVER_HEARTBEAT_INTERVAL < t then serv_SendPdu now a data b else Inr (b, [])) = Inr (b1, out1)"
    "same_bk b b1" by blast
  have inv1: "bk_inv k b1" "map_of (b_conn_map b1) h = Some a" using same_bk_inv [OF b1(2) inv] b1(2) h by (simp_all add: same_bk_def)
  obtain b2 out2 where "serv_Close clear a b1 = Inr (b2, out2)" "bk_inv k b2" "bk_closed h a b1 b2"
    using bk_closed_Close [OF inv1] by blast
  then show ?thesis using c b1(1) inv1(1) same_bk_closed [OF b1(2), of h a] bk_closed_trans [of h a b b1 b2]
    by (auto simp: serv_OnTimer_def)
qed

section \<open>Reconnecting\<close>

lemma owned_new:
  assumes i: "i < length (b_server_list b)" "si_serv_conn (b_server_list b ! i) = None"
    and ss: "length ss = length (b_server_list b)" "si_serv_conn (ss ! i) = Some a"
      "\<And>j. j < length ss \<Longrightarrow> j \<noteq> i \<Longrightarrow> si_serv_conn (ss ! j) = si_serv_conn (b_server_list b ! j)"
    and b': "b_server_list b' = ss"
  shows "owned b' x \<longleftrightarrow> owned b x \<or> x = a"
proof -
  have "owned b' x \<longleftrightarrow> (\<exists>j<length ss. if j = i then a = x else si_serv_conn (b_server_list b ! j) = Some x)"
    unfolding owned_def b' using ss(2,3) by (metis option.inject)
  also have "\<dots> \<longleftrightarrow> owned b x \<or> x = a"
    unfolding owned_def ss(1) using i by (metis option.distinct(1))
  finally show ?thesis .
qed

lemma hm_insert_cases: "map_of (hm_insert k v m) h = Some x \<Longrightarrow> h = k \<and> x = v \<or> map_of m h = Some x"
  by (simp add: hm_insert_def split: if_splits)

text \<open>An entry without connection gets a new one.\<close>

lemma bk_inv_connect_at:
  assumes inv: "bk_inv k b" and i: "i < length (b_server_list b)" "si_serv_conn (b_server_list b ! i) = None"
    and upd: "\<And>s. si_serv_conn (upd s) = si_serv_conn s" and k: "k (hp_next (b_heap b)) = 0"
  shows "\<exists>b'. serv_connect_at connect now i upd b = Inr b' \<and> bk_inv k b' \<and> length (b_server_list b') = length (b_server_list b)
    \<and> hp_next (b_heap b') = Suc (hp_next (b_heap b)) \<and> (\<forall>x. owned b x \<longrightarrow> owned b' x)
    \<and> (\<forall>j. j \<noteq> i \<longrightarrow> si_serv_conn (b_server_list b' ! j) = si_serv_conn (b_server_list b ! j))"
proof -
  let ?a = "hp_next (b_heap b)" and ?h = "connect i"
  define c where "c = \<lparr>sv_handle = NETLIB_INVALID_HANDLE, sv_open = False, sv_serv_idx = 0, sv_connect_time = 0,
    sv_last_send_tick = now, sv_last_recv_tick = now, sv_ip_list = []\<rparr>"
  let ?c = "c\<lparr>sv_serv_idx := i, sv_handle := ?h\<rparr>"
  let ?hp = "set_obj ?a ?c (snd (new_obj c (b_heap b)))"
  let ?m = "if ?h \<noteq> NETLIB_INVALID_HANDLE then hm_insert ?h ?a (b_conn_map b) else b_conn_map b"
  let ?ss = "(b_server_list b)[i := upd ((b_server_list b ! i)\<lparr>si_serv_conn := Some ?a\<rparr>)]"
  define b' where "b' = \<lparr>b_server_list = ?ss, b_conn_map = ?m, b_heap = ?hp\<rparr>"
  note ok = bk_invD(1) [OF inv]
  note new = heap_ok_new [OF ok, of c]
  have run: "serv_connect_at connect now i upd b = Inr b'"
    using new(2) by (cases b) (simp add: serv_connect_at_def new_serv_conn_def serv_Connect_def Let_def new_obj_def b'_def c_def)
  have ne: "x \<noteq> ?a" if "live x (b_heap b)" for x using that deref_fresh [OF ok] live_deref [OF that] by fastforce
  have keep: "deref x ?hp = deref x (b_heap b)" "refs x ?hp = refs x (b_heap b)" if "x \<noteq> ?a" for x
    using that deref_new_other [OF that, of c] by (simp_all add: deref_set_obj)
  have at_a: "deref ?a ?hp = Inr ?c" "refs ?a ?hp = 1" using new(2,3) deref_live [OF new(2)] by (simp_all add: deref_set_obj)
  have ss: "si_serv_conn (?ss ! i) = Some ?a" "\<And>j. j \<noteq> i \<Longrightarrow> ?ss ! j = b_server_list b ! j" using i upd by simp_all
  have own: "owned b' x \<longleftrightarrow> owned b x \<or> x = ?a" for x
    using owned_new [OF i, of ?ss ?a b'] ss by (simp add: b'_def)
  have inv': "bk_inv k b'"
  proof (rule bk_invI)
    show "heap_ok (b_heap b')" using new(1) by (simp add: b'_def heap_ok_set_obj)
    show "hm_ok (b_conn_map b')" using bk_invD(2) [OF inv] by (simp add: b'_def hm.ok_insert)
  next
    fix j
    assume "j < length (b_server_list b')"
    then have j: "j < length (b_server_list b)" by (simp add: b'_def)
    show "slot_ok b' j"
    proof (cases "j = i")
      case False
      have "deref x ?hp = deref x (b_heap b)" if "si_serv_conn (b_server_list b ! j) = Some x" for x
        using keep(1) ne owned_live [OF inv, of x] j that by (auto simp: owned_def)
      then show ?thesis using bk_invD(3) [OF inv j] ss(2) [OF False] by (auto simp: slot_ok_def b'_def)
    qed (use ss(1) at_a(1) in \<open>simp add: slot_ok_def b'_def\<close>)
  next
    fix h x
    assume "map_of (b_conn_map b') h = Some x"
    then have "map_of ?m h = Some x" by (simp add: b'_def)
    then consider "h = ?h" "x = ?a" "?h \<noteq> NETLIB_INVALID_HANDLE" | "map_of (b_conn_map b) h = Some x"
      using hm_insert_cases by (cases "?h = NETLIB_INVALID_HANDLE") fastforce+
    then show "handle_ok b' h x"
    proof cases
      case 1
      then show ?thesis using at_a(1) i(1) ss(1) by (simp add: handle_ok_def b'_def)
    next
      case 2
      then obtain d where d: "h \<noteq> NETLIB_INVALID_HANDLE" "deref x (b_heap b) = Inr d" "sv_handle d = h"
        "sv_serv_idx d < length (b_server_list b)" "si_serv_conn (b_server_list b ! sv_serv_idx d) = Some x"
        using bk_invD(4) [OF inv 2] by (auto elim: handle_okE)
      moreover have "sv_serv_idx d \<noteq> i" using d(5) i(2) by auto
      ultimately show ?thesis using keep(1) [OF ne [OF deref_live [OF d(2)]]] ss(2) by (simp add: handle_ok_def b'_def)
    qed
  next
    fix x
    show "refs x (b_heap b') = k x + (if owned b' x then 1 else 0)"
    proof (cases "x = ?a")
      case False
      then show ?thesis using bk_invD(5) [OF inv, of x] keep(2) [OF False] False own [of x] by (simp add: b'_def)
    qed (use at_a(2) k own [of ?a] in \<open>simp add: b'_def\<close>)
  qed
  have "hp_next ?hp = Suc ?a" by (simp add: new_obj_def)
  then show ?thesis using run inv' own ss(2) by (auto simp: b'_def)
qed

lemma bk_inv_reconnect_at:
  assumes inv: "bk_inv idle b" and i: "i < length (b_server_list b)"
  shows "\<exists>b'. serv_reconnect_at connect now i b = Inr b' \<and> bk_inv idle b' \<and> length (b_server_list b') = length (b_server_list b)
    \<and> (\<forall>x. owned b x \<longrightarrow> owned b' x)"
proof (cases "si_serv_conn (b_server_list b ! i) = None")
  case True
  let ?s = "(b_server_list b ! i)\<lparr>idle_cnt := idle_cnt (b_server_list b ! i) + 1\<rparr>"
  let ?b = "b\<lparr>b_server_list := (b_server_list b)[i := ?s]\<rparr>"
  have same: "si_serv_conn ((b_server_list b)[i := ?s] ! j) = si_serv_conn (b_server_list b ! j)" for j
    by (cases "j = i") (simp_all add: i)
  have own: "owned ?b x = owned b x" for x by (simp add: owned_def same)
  have "bk_inv idle ?b"
    using bk_invD [OF inv] same by (intro bk_invI) (simp_all add: slot_ok_def handle_ok_def own)
  from bk_inv_connect_at [OF this, of i "\<lambda>s. s" connect now] show ?thesis
    using \<open>bk_inv idle ?b\<close> True i own same by (auto simp: serv_reconnect_at_def Let_def)
qed (use inv in \<open>simp add: serv_reconnect_at_def\<close>)

lemma bk_inv_reconnect_loop:
  "bk_inv idle b \<Longrightarrow> \<forall>i\<in>set is. i < length (b_server_list b) \<Longrightarrow>
    \<exists>b'. serv_reconnect_loop connect now is b = Inr b' \<and> bk_inv idle b' \<and> length (b_server_list b') = length (b_server_list b)
    \<and> (\<forall>x. owned b x \<longrightarrow> owned b' x)"
proof (induction "is" arbitrary: b)
  case (Cons i "is")
  obtain b1 where b1: "serv_reconnect_at connect now i b = Inr b1" "bk_inv idle b1"
    "length (b_server_list b1) = length (b_server_list b)" "\<And>x. owned b x \<Longrightarrow> owned b1 x"
    using bk_inv_reconnect_at [OF Cons.prems(1), of i connect now] Cons.prems(2) by auto
  show ?case using Cons.IH [OF b1(2)] Cons.prems(2) b1 by auto
qed simp

lemma bk_inv_check_reconnect:
  "bk_inv idle b \<Longrightarrow> \<exists>b'. serv_check_reconnect connect now b = Inr b' \<and> bk_inv idle b' \<and> length (b_server_list b') = length (b_server_list b)
    \<and> (\<forall>x. owned b x \<longrightarrow> owned b' x)"
  unfolding serv_check_reconnect_def by (rule bk_inv_reconnect_loop) auto

section \<open>Start\<close>

text \<open>A back end that has been configured but not started.\<close>

definition bk_fresh :: "backend \<Rightarrow> bool" where
  "bk_fresh b \<longleftrightarrow> b_conn_map b = [] \<and> b_heap b = empty_heap \<and> (\<forall>s\<in>set (b_server_list b). si_serv_conn s = None)"

lemma bk_inv_fresh: "bk_fresh b \<Longrightarrow> bk_inv idle b"
  by (rule bk_invI) (auto simp: bk_fresh_def hm_ok_def slot_ok_def live_def empty_heap_def heap_ok_def refs_def owned_def)

lemma bk_inv_init_loop:
  "bk_inv idle b \<Longrightarrow> distinct is \<Longrightarrow> \<forall>i\<in>set is. i < length (b_server_list b) \<and> si_serv_conn (b_server_list b ! i) = None \<Longrightarrow>
    \<exists>b'. serv_init_loop connect now is b = Inr b' \<and> bk_inv idle b' \<and> length (b_server_list b') = length (b_server_list b)"
proof (induction "is" arbitrary: b)
  case (Cons i "is")
  let ?upd = "\<lambda>s. s\<lparr>idle_cnt := 0, reconnect_cnt := MIN_RECONNECT_CNT div 2\<rparr>"
  obtain b1 where b1: "serv_connect_at connect now i ?upd b = Inr b1" "bk_inv idle b1"
    "length (b_server_list b1) = length (b_server_list b)"
    "\<And>j. j \<noteq> i \<Longrightarrow> si_serv_conn (b_server_list b1 ! j) = si_serv_conn (b_server_list b ! j)"
    using bk_inv_connect_at [OF Cons.prems(1), of i ?upd connect now] Cons.prems(3) by auto
  have "\<forall>j\<in>set is. j < length (b_server_list b1) \<and> si_serv_conn (b_server_list b1 ! j) = None"
  proof
    fix j
    assume "j \<in> set is"
    moreover from this have "j \<noteq> i" using Cons.prems(2) by auto
    ultimately show "j < length (b_server_list b1) \<and> si_serv_conn (b_server_list b1 ! j) = None"
      using Cons.prems(3) b1(3,4) by simp
  qed
  from Cons.IH [OF b1(2) _ this] show ?case using Cons.prems(2) b1(1,3) by auto
qed simp

lemma bk_inv_init:
  assumes "bk_fresh b"
  shows "\<exists>b'. serv_init connect now b = Inr b' \<and> bk_inv idle b' \<and> length (b_server_list b') = length (b_server_list b)"
  unfolding serv_init_def using assms by (intro bk_inv_init_loop bk_inv_fresh) (auto simp: bk_fresh_def)

end
