(* ===== verification/MsgBacks.thy ===== *)
theory MsgBacks
  imports MsgRequests BackTimers
begin

text \<open>
  Events of the message server's timers and back ends: the clients' timer, and what a connection to another server may do to the
  state. The registry is not touched by them; a callback closes at most its own connection.
\<close>

section \<open>The timer of the clients\<close>

lemma runs_OnTimer:
  assumes at: "at_reg e kc kb r st" and inv: "reg_inv idof r" and h: "rg_handles r h = Some a" and kc: "0 \<le> kc a"
  shows "runs (OnTimer e t a st) (\<lambda>st'. follows idof e kc kb r st' \<and> (\<forall>g. g \<noteq> h \<longrightarrow> map_of (g_msg_conn_map st') g = rg_handles r g))"
proof -
  let ?Q = "\<lambda>st'. follows idof e kc kb r st' \<and> (\<forall>g. g \<noteq> h \<longrightarrow> map_of (g_msg_conn_map st') g = rg_handles r g)"
  obtain ci where rc: "rg_conn r a = Some ci" "ci_handle ci = h" using reg_invD(1) [OF inv h] by (auto elim: conn_okE)
  have keep: "at_reg e kc kb r st1 \<Longrightarrow> ?Q st1" for st1 using at_reg_maps(1) by (auto intro: follows_refl)
  have close: "runs (Close e a st1) ?Q" if "at_reg e kc kb r st1" for st1
  proof (rule runs_mono [OF runs_Close [OF that inv h kc]])
    fix st2
    assume at2: "at_reg e kc kb (conn_freed kc a (reg_close a r)) st2"
    have "rg_handles (conn_freed kc a (reg_close a r)) = (rg_handles r)(h := None)"
      using rg_handles_close [OF rc(1)] rc(2) by (simp add: conn_freed_def)
    then show "?Q st2" using at_reg_maps(1) [OF at2] followsI [OF at2 steps_freed [OF inv h]] by auto
  qed
  show ?thesis unfolding OnTimer_def
  proof (rule runs_bind)
    show "runs (on_conn a (\<lambda>c. c\<lparr>mc_msg_cnt_per_sec := 0\<rparr>) st) (at_reg e kc kb (upd_conn a (\<lambda>c. c) r))"
      by (rule runs_on_conn [OF at]) (simp_all add: rc conn_view_def)
  next
    fix st1
    assume "at_reg e kc kb (upd_conn a (\<lambda>c. c) r) st1"
    moreover have "upd_conn a (\<lambda>c. c) r = r" by (simp add: upd_conn_def option.map_ident fun_upd_idem)
    ultimately have at1: "at_reg e kc kb r st1" by simp
    obtain c where c: "deref a (ms_conns st1) = Inr c" using at_reg_conn [OF at1, of a] rc(1) by auto
    have "runs (on_conn a (\<lambda>c. c\<lparr>mc_send_msg_list := l\<rparr>) st1) (at_reg e kc kb (upd_conn a (\<lambda>c. c) r))" for l
      by (rule runs_on_conn [OF at1]) (simp_all add: rc conn_view_def)
    then have set: "at_reg e kc kb r (st1\<lparr>ms_conns := set_obj a (c\<lparr>mc_send_msg_list := l\<rparr>) (ms_conns st1)\<rparr>)" for l
      using c by (simp add: on_conn_def \<open>upd_conn a (\<lambda>c. c) r = r\<close>)
    have miss: "at_reg e kc kb r (st2\<lparr>g_down_msg_miss_cnt := n\<rparr>)" if "at_reg e kc kb r st2" for st2 n
      by (rule calm_at_reg [OF calm_upd(3) that])
    show "runs (bindR (deref a (ms_conns st1)) (\<lambda>c.
       let timeout = (if CHECK_CLIENT_TYPE_MOBILE (mc_client_type c) then MOBILE_CLIENT_TIMEOUT else CLIENT_TIMEOUT)
       in if t > mc_last_recv_tick c + timeout then Close e a st1
          else if \<not> mc_open c \<and> t > mc_login_time c + TIMEOUT_WATI_LOGIN_RESPONSE then Close e a st1
          else let (n, rest) = expire_acks t (mc_send_msg_list c)
               in Inr (st1\<lparr>ms_conns := set_obj a (c\<lparr>mc_send_msg_list := rest\<rparr>) (ms_conns st1),
                          g_down_msg_miss_cnt := g_down_msg_miss_cnt st1 + of_nat n\<rparr>))) ?Q"
      unfolding c bindR_simps Let_def
      using close [OF at1] keep [OF miss [OF set]] by (simp split: prod.split)
  qed
qed

lemma runs_timer_loop:
  assumes "at_reg e kc kb r st" "reg_inv idof r" "\<And>a. kc a = 0" "\<forall>p\<in>set ps. rg_handles r (fst p) = Some (snd p)" "distinct (map fst ps)"
  shows "runs (timer_loop e t ps st) (\<lambda>st'. follows idof e kc kb r st' \<and> (\<forall>g. g \<notin> fst ` set ps \<longrightarrow> map_of (g_msg_conn_map st') g = rg_handles r g))"
  using assms(1,2,4,5)
proof (induction ps arbitrary: r st)
  case Nil
  then show ?case using at_reg_maps(1) [OF Nil.prems(1)] by (simp add: follows_refl)
next
  case (Cons p ps)
  have h: "rg_handles r (fst p) = Some (snd p)" using Cons.prems(3) by simp
  show ?case unfolding timer_loop.simps
  proof (rule runs_bind [OF runs_OnTimer [OF Cons.prems(1,2) h]])
    fix st1
    assume st1: "follows idof e kc kb r st1 \<and> (\<forall>g. g \<noteq> fst p \<longrightarrow> map_of (g_msg_conn_map st1) g = rg_handles r g)"
    have "fst q \<noteq> fst p" if "q \<in> set ps" for q using Cons.prems(4) that by (auto simp: rev_image_eqI)
    then have "\<forall>q\<in>set ps. rg_handles (registry_of st1) (fst q) = Some (snd q)" using Cons.prems(3) st1 by simp
    from Cons.IH [OF follows_at follows_inv [OF _ Cons.prems(2)] this] st1 Cons.prems(4)
    have "runs (timer_loop e t ps st1) (\<lambda>st'. follows idof e kc kb (registry_of st1) st'
        \<and> (\<forall>g. g \<notin> fst ` set ps \<longrightarrow> map_of (g_msg_conn_map st') g = map_of (g_msg_conn_map st1) g))" by auto
    then show "runs (timer_loop e t ps st1) (\<lambda>st'. follows idof e kc kb r st'
        \<and> (\<forall>g. g \<notin> fst ` set (p # ps) \<longrightarrow> map_of (g_msg_conn_map st') g = rg_handles r g))"
      by (rule runs_mono) (use st1 in \<open>auto simp: follows_def\<close>)
  qed (simp add: assms(3))
qed

lemma runs_msg_conn_timer_callback:
  assumes at: "at_reg e idle kb r st" and inv: "reg_inv idof r"
  shows "runs (msg_conn_timer_callback e st) (follows idof e idle kb r)"
proof -
  have ok: "distinct (map fst (g_msg_conn_map st))" using at_regD(2) [OF at] by (simp add: boxes_def hm_ok_def)
  then have "\<forall>p\<in>set (g_msg_conn_map st). rg_handles r (fst p) = Some (snd p)"
    using at_reg_maps(1) [OF at] by auto (metis map_of_eq_Some_iff)
  from runs_timer_loop [OF at inv refl this ok] show ?thesis unfolding msg_conn_timer_callback_def
    by (rule runs_bind) (auto simp: follows_def calm_registry [OF calm_upd(4)] intro: calm_at_reg [OF calm_upd(4)])
qed

section \<open>Operations on one back end\<close>

fun put_bk :: "part \<Rightarrow> backend \<Rightarrow> msg_server \<Rightarrow> msg_server" where
  "put_bk Db b st = st\<lparr>ms_db := b\<rparr>"
| "put_bk Login b st = st\<lparr>ms_login := b\<rparr>"
| "put_bk Route b st = st\<lparr>ms_route := b\<rparr>"
| "put_bk Push b st = st\<lparr>ms_push := b\<rparr>"
| "put_bk File b st = st\<lparr>ms_file := b\<rparr>"

fun on_bk :: "part \<Rightarrow> (backend \<Rightarrow> (backend \<times> net_out list) res) \<Rightarrow> msg_op" where
  "on_bk Db = on_db"
| "on_bk Login = on_login"
| "on_bk Route = on_route"
| "on_bk Push = on_push"
| "on_bk File = on_file"

lemma on_bk_run: "f (bk p st) = Inr (b, out) \<Longrightarrow> on_bk p f st = Inr ((put_bk p b st)\<lparr>ms_trace := ms_trace st @ out\<rparr>)"
  by (cases p) (simp_all add: on_db_def on_login_def on_route_def on_push_def on_file_def)

lemma put_bk_simps [simp]:
  "bk q (put_bk p b st) = (if q = p then b else bk q st)" "g_master_rs_conn (put_bk p b st) = g_master_rs_conn st"
  "g_master_push_conn (put_bk p b st) = g_master_push_conn st" "g_db_server_login_count (put_bk p b st) = g_db_server_login_count st"
  "ms_conns (put_bk p b st) = ms_conns st" "ms_users (put_bk p b st) = ms_users st" "g_msg_conn_map (put_bk p b st) = g_msg_conn_map st"
  "m_im_user_map (put_bk p b st) = m_im_user_map st" "m_im_user_map_by_name (put_bk p b st) = m_im_user_map_by_name st"
  by (cases p; cases q; simp)+

text \<open>
  One back end is replaced by another sound one, and with it the masters. \<open>mr\<close> and \<open>mp\<close> are the masters afterwards.
\<close>

definition masters_owned :: "nat option \<Rightarrow> nat option \<Rightarrow> msg_server \<Rightarrow> bool" where
  "masters_owned mr mp st \<longleftrightarrow> (\<forall>r. mr = Some r \<longrightarrow> owned (bk Route st) r) \<and> (\<forall>r. mp = Some r \<longrightarrow> owned (bk Push st) r)"

lemma fair_iff: "length (b_server_list (ms_db st')) = length (b_server_list (ms_db st)) \<Longrightarrow> fair e st' = fair e st"
  by (simp add: fair_def)

lemma at_reg_put_bk:
  assumes at: "at_reg e kc kb r st" and b: "bk_inv k b" "length (b_server_list b) = length (b_server_list (bk p st))"
    and m: "masters_owned mr mp (put_bk p b st)"
  shows "at_reg e kc (kb(p := (k, b_conn_map b))) r ((put_bk p b st)\<lparr>ms_trace := t, g_master_rs_conn := mr, g_master_push_conn := mp\<rparr>)"
    (is "at_reg e kc ?kb r ?st")
proof -
  have bks: "bk q ?st = (if q = p then b else bk q st)" for q by simp
  have "registry_of ?st = r" using at_regD(1) [OF at] by (simp add: registry_of_def)
  moreover have "boxes ?st" using at_regD(2) [OF at] by (simp add: boxes_def)
  moreover have "counted kc ?st" using at_regD(3) [OF at] by (simp add: counted_def in_conn_map_def)
  moreover have "ms_route ?st = bk Route (put_bk p b st)" "ms_push ?st = bk Push (put_bk p b st)"
    "ms_db ?st = bk Db (put_bk p b st)" by (simp_all add: bk.simps [symmetric] del: bk.simps)
  moreover have len: "length (b_server_list (bk Db (put_bk p b st))) = length (b_server_list (ms_db st))"
    using b(2) by (cases p) simp_all
  ultimately show ?thesis
    using at_regD(4,5) [OF at] b(1) m bks fair_iff [of ?st st e]
    by (simp add: at_reg_def backs_def masters_owned_def)
qed

lemma at_reg_bk:
  assumes "at_reg e kc kb r st"
  shows "bk_inv (fst (kb p)) (bk p st)" "b_conn_map (bk p st) = snd (kb p)"
    "masters_owned (g_master_rs_conn st) (g_master_push_conn st) st"
  using at_regD(4) [OF assms] by (simp_all add: backs_def masters_owned_def)

lemma at_reg_masters:
  assumes at: "at_reg e kc kb r st" and m: "masters_owned mr mp st"
  shows "at_reg e kc kb r (st\<lparr>g_master_rs_conn := mr, g_master_push_conn := mp\<rparr>)"
proof -
  have "put_bk Db (ms_db st) st = st" "kb(Db := (fst (kb Db), b_conn_map (ms_db st))) = kb"
    using at_reg_bk(2) [OF at, of Db] by simp_all
  then show ?thesis
    using at_reg_put_bk [OF at, of "fst (kb Db)" "ms_db st" Db mr mp "ms_trace st"] at_reg_bk(1) [OF at, of Db] m by simp
qed

lemma put_bk_same_masters:
  "(put_bk p b st)\<lparr>ms_trace := t, g_master_rs_conn := g_master_rs_conn st, g_master_push_conn := g_master_push_conn st\<rparr> = (put_bk p b st)\<lparr>ms_trace := t\<rparr>"
  by (cases p) simp_all

lemma runs_on_bk:
  assumes at: "at_reg e kc kb r st" and f: "f (bk p st) = Inr (b, out)"
    and b: "bk_inv k b" "length (b_server_list b) = length (b_server_list (bk p st))" "\<And>x. owned (bk p st) x \<Longrightarrow> owned b x"
  shows "runs (on_bk p f st) (at_reg e kc (kb(p := (k, b_conn_map b))) r)"
proof -
  have "masters_owned (g_master_rs_conn st) (g_master_push_conn st) (put_bk p b st)"
    using at_reg_bk(3) [OF at] b(3) by (auto simp: masters_owned_def simp del: bk.simps)
  from at_reg_put_bk [OF at b(1,2) this, of "ms_trace st @ out"] show ?thesis
    unfolding on_bk_run [where f = f, OF f] by (simp add: put_bk_same_masters)
qed

text \<open>
  At most the connection with handle \<open>h\<close> to a server of part \<open>p\<close> was closed; and the same after steps of the registry.
\<close>

definition closed_one :: "env \<Rightarrow> part \<Rightarrow> u32 \<Rightarrow> held_backs \<Rightarrow> (u32, char, u32) registry \<Rightarrow> msg_server \<Rightarrow> bool" where
  "closed_one e p h kb r st \<longleftrightarrow> (\<exists>M. at_reg e idle (kb(p := (fst (kb p), M))) r st
     \<and> (\<forall>g. g \<noteq> h \<longrightarrow> map_of M g = map_of (snd (kb p)) g))"

definition served :: "(string \<Rightarrow> u32) \<Rightarrow> env \<Rightarrow> part \<Rightarrow> u32 \<Rightarrow> held_backs \<Rightarrow> (u32, char, u32) registry \<Rightarrow> msg_server \<Rightarrow> bool" where
  "served idof e p h kb r st \<longleftrightarrow> (\<exists>r'. closed_one e p h kb r' st \<and> (reg_step idof)\<^sup>*\<^sup>* r r')"

lemma closed_one_refl: "at_reg e idle kb r st \<Longrightarrow> closed_one e p h kb r st"
  unfolding closed_one_def by (rule exI [of _ "snd (kb p)"]) simp

lemma served_follows: "follows idof e idle kb r st \<Longrightarrow> served idof e p h kb r st"
  unfolding served_def follows_def using closed_one_refl by blast

lemma closed_oneI:
  "at_reg e idle (kb(p := (fst (kb p), M))) r st \<Longrightarrow> (\<And>g. g \<noteq> h \<Longrightarrow> map_of M g = map_of (snd (kb p)) g) \<Longrightarrow> closed_one e p h kb r st"
  unfolding closed_one_def by blast

lemma served_closed_one: "closed_one e p h kb r st \<Longrightarrow> (reg_step idof)\<^sup>*\<^sup>* r0 r \<Longrightarrow> served idof e p h kb r0 st"
  unfolding served_def by blast

section \<open>Closing a back-end connection\<close>

lemma oldest_open_spec:
  assumes "conns_live b ss"
  shows "\<exists>m. oldest_open b ss best t = Inr m \<and> (\<forall>a. m = Some a \<longrightarrow> best = Some a \<or> a \<in> open_set b ss)"
  using assms
proof (induction ss arbitrary: best t)
  case (Cons s ss)
  have IH: "\<exists>m. oldest_open b ss best' t' = Inr m \<and> (\<forall>a. m = Some a \<longrightarrow> best' = Some a \<or> a \<in> open_set b ss)" for best' t'
    using Cons by simp
  show ?case
  proof (cases "si_serv_conn s")
    case None
    then show ?thesis using IH [of best t] by (auto simp: open_conn_def open_set_def)
  next
    case (Some a)
    then obtain c where c: "deref a (b_heap b) = Inr c" using Cons.prems live_deref by fastforce
    then show ?thesis
      using Some IH [of best t] IH [of "Some a" "sv_connect_time c"] by (auto simp: open_conn_def open_set_def is_open_def)
  qed
qed simp

lemma open_set_owned: "a \<in> open_set b (b_server_list b) \<Longrightarrow> owned b a"
  by (auto simp: open_set_def owned_def in_set_conv_nth)

lemma runs_update_master:
  assumes at: "at_reg e kc kb r st" and live: "reg_live r"
  shows "runs (update_master_route_serv_conn e st) (\<lambda>st'. at_reg e kc kb r st' \<and> owned (ms_route st') = owned (ms_route st))"
proof -
  let ?b = "ms_route st"
  have "conns_live ?b (b_server_list ?b)" using bk_inv_live [OF at_reg_bk(1) [OF at, of Route]] by (auto simp: bk_live_def)
  then obtain m where m: "oldest_open ?b (b_server_list ?b) None (- 1) = Inr m" "\<And>a. m = Some a \<Longrightarrow> owned ?b a"
    using oldest_open_spec [where b = ?b and ss = "b_server_list ?b" and best = None and t = "- 1"] open_set_owned by fastforce
  have "masters_owned m (g_master_push_conn st) st" using m(2) at_reg_bk(3) [OF at] by (simp add: masters_owned_def)
  from at_reg_masters [OF at this] have at1: "at_reg e kc kb r (st\<lparr>g_master_rs_conn := m\<rparr>)" by simp
  let ?st = "st\<lparr>g_master_rs_conn := m\<rparr>"
  have "runs (if_route e data ?st) (at_rest e ?st)" for data
    by (rule okR_runs [OF calm_if_route [OF at_reg_rest [OF at1 live]] no_throw_if_route])
  moreover have "at_reg e kc kb r st' \<and> owned (ms_route st') = owned (ms_route st)" if "at_rest e ?st st'" for st'
  proof -
    have "same_bk (bk Route ?st) (bk Route st')" using that unfolding at_rest_def calm_def steady_def by blast
    then show ?thesis using at_rest_at_reg [OF that at1] same_owned [of "bk Route ?st" "bk Route st'"] by simp
  qed
  ultimately have "runs (if_route e data ?st) (\<lambda>st'. at_reg e kc kb r st' \<and> owned (ms_route st') = owned (ms_route st))" for data
    by (rule runs_mono)
  then show ?thesis by (simp add: update_master_route_serv_conn_def m(1) Let_def)
qed

definition serv_Close_of :: "env \<Rightarrow> part \<Rightarrow> nat \<Rightarrow> msg_op" where
  "serv_Close_of e p a = (case p of Db \<Rightarrow> db_Close a | Login \<Rightarrow> login_Close a | Route \<Rightarrow> route_Close e a | Push \<Rightarrow> push_Close a | File \<Rightarrow> file_Close a)"

lemma runs_serv_Close_of:
  assumes at: "at_reg e idle kb r st" and live: "reg_live r" and h: "map_of (snd (kb p)) h = Some a"
  shows "runs (serv_Close_of e p a st) (closed_one e p h kb r)"
proof -
  define cl where "cl = (p \<in> {Route, Push, File})"
  note bk = at_reg_bk [OF at]
  obtain b out where b: "serv_Close cl a (bk p st) = Inr (b, out)" "bk_inv (fst (kb p)) b" "bk_closed h a (bk p st) b" "\<not> owned b a"
    using bk_closed_Close [OF bk(1), of p h a cl] h bk(2) [of p] by auto
  have len: "length (b_server_list b) = length (b_server_list (bk p st))" using b(3) by (simp add: bk_closed_def)
  have map: "g \<noteq> h \<Longrightarrow> map_of (b_conn_map b) g = map_of (snd (kb p)) g" for g using b(3) bk(2) [of p] by (simp add: bk_closed_def)
  let ?st = "(put_bk p b st)\<lparr>ms_trace := ms_trace st @ out\<rparr>" and ?kb = "kb(p := (fst (kb p), b_conn_map b))"
  note run = on_bk_run [where f = "serv_Close cl a", OF b(1)]
  have put: "at_reg e idle ?kb r (?st\<lparr>g_master_rs_conn := mr, g_master_push_conn := mp\<rparr>)" if "masters_owned mr mp (put_bk p b st)" for mr mp
    using at_reg_put_bk [OF at b(2) len that] .
  have other: "x \<noteq> a \<Longrightarrow> owned b x = owned (bk p st) x" for x using b(3) by (simp add: bk_closed_def)
  have fin: "closed_one e p h kb r st'" if "at_reg e idle ?kb r st'" for st' using that map by (rule closed_oneI)
  have same: "at_reg e idle ?kb r ?st" if "masters_owned (g_master_rs_conn st) (g_master_push_conn st) (put_bk p b st)"
    using put [OF that] by (simp add: put_bk_same_masters)
  show ?thesis
  proof (cases p)
    case Route
    show ?thesis
    proof (cases "g_master_rs_conn st = Some a")
      case True
      have "masters_owned None (g_master_push_conn st) (put_bk p b st)" using bk(3) Route by (simp add: masters_owned_def)
      from runs_update_master [OF put [OF this] live]
      have "runs (update_master_route_serv_conn e ?st) (\<lambda>st'. at_reg e idle ?kb r st' \<and> owned (ms_route st') = owned b)"
        using Route by (simp add: update_master_route_serv_conn_def)
      then have "runs (update_master_route_serv_conn e ?st) (closed_one e p h kb r)" by (rule runs_mono) (blast intro: fin)
      then show ?thesis using run Route True by (simp add: serv_Close_of_def route_Close_def cl_def)
    next
      case False
      have "owned b x" if "g_master_rs_conn st = Some x" for x
      proof -
        have "x \<noteq> a" using that False by auto
        then show ?thesis using other [of x] bk(3) Route that by (simp add: masters_owned_def)
      qed
      then have "masters_owned (g_master_rs_conn st) (g_master_push_conn st) (put_bk p b st)"
        using bk(3) Route by (simp add: masters_owned_def)
      then show ?thesis using run Route False fin [OF same] by (simp add: serv_Close_of_def route_Close_def cl_def)
    qed
  next
    case Push
    have "masters_owned (g_master_rs_conn st) None (put_bk p b st)" using bk(3) Push by (simp add: masters_owned_def)
    from fin [OF put [OF this]] show ?thesis using run Push by (simp add: serv_Close_of_def push_Close_def cl_def put_bk_same_masters)
  next
    case Db
    have "masters_owned (g_master_rs_conn st) (g_master_push_conn st) (put_bk p b st)" using bk(3) Db by (simp add: masters_owned_def)
    from fin [OF same [OF this]] show ?thesis using run Db by (simp add: serv_Close_of_def db_Close_def cl_def)
  next
    case Login
    have "masters_owned (g_master_rs_conn st) (g_master_push_conn st) (put_bk p b st)" using bk(3) Login by (simp add: masters_owned_def)
    from fin [OF same [OF this]] show ?thesis using run Login by (simp add: serv_Close_of_def login_Close_def cl_def)
  next
    case File
    have "masters_owned (g_master_rs_conn st) (g_master_push_conn st) (put_bk p b st)" using bk(3) File by (simp add: masters_owned_def)
    from fin [OF same [OF this]] show ?thesis using run File by (simp add: serv_Close_of_def file_Close_def cl_def)
  qed
qed

end
