(* ===== verification/MsgPeers.thy ===== *)
theory MsgPeers
  imports MsgBacks
begin

text \<open>
  The events of the message server's connections to other servers, for all five kinds of them at once: confirmation, time-outs with
  reconnecting, and reads. \<open>serv_OnTimer_of\<close> and its like select the method by the part; each is shown to fault nowhere and to keep the state sound.
\<close>

section \<open>Confirmed connections\<close>

lemma users_online:
  assumes "at_rest e st st" "\<forall>p\<in>set ps. user_live st (snd p)"
  shows "runs (online_users st ps) (\<lambda>_. True)" "runs (user_conn_cnt st ps) (\<lambda>_. True)"
proof -
  have conns: "runs (online_conns i (ms_conns st) cs) (\<lambda>_. True)" "runs (count_open (ms_conns st) cs) (\<lambda>_. True)"
    if "\<forall>q\<in>set cs. live (snd q) (ms_conns st)" for i cs
    using that by (induction cs) (auto simp: runs_iff dest!: live_deref)
  have user: "\<exists>x. deref u (ms_users st) = Inr x \<and> (\<forall>q\<in>set (iu_conn_map x). live (snd q) (ms_conns st))" if "user_live st u" for u
    using that by (auto simp: user_live_def)
  show "runs (online_users st ps) (\<lambda>_. True)" using assms(2)
  proof (induction ps)
    case (Cons p ps)
    then obtain x where x: "deref (snd p) (ms_users st) = Inr x" "\<forall>q\<in>set (iu_conn_map x). live (snd q) (ms_conns st)" using user [of "snd p"] by auto
    have "runs (online_users st ps) (\<lambda>_. True)" using Cons by simp
    then show ?case using x conns(1) [OF x(2), of "iu_user_id x"] by (auto simp: runs_iff)
  qed simp
  show "runs (user_conn_cnt st ps) (\<lambda>_. True)" using assms(2)
  proof (induction ps)
    case (Cons p ps)
    then obtain x where x: "deref (snd p) (ms_users st) = Inr x" "\<forall>q\<in>set (iu_conn_map x). live (snd q) (ms_conns st)" using user [of "snd p"] by auto
    have "runs (user_conn_cnt st ps) (\<lambda>_. True)" using Cons by simp
    then show ?case using x conns(2) [OF x(2)] by (auto simp: runs_iff GetUserConn_def split: prod.split)
  qed simp
qed

lemma runs_online:
  assumes at: "at_reg e kc kb r st" and live: "reg_live r"
  shows "runs (GetOnlineUserInfo st) (\<lambda>_. True)" "runs (GetUserConnCnt st) (\<lambda>_. True)"
proof -
  have "\<forall>p\<in>set (m_im_user_map st). user_live st (snd p)" using at_reg_wired [OF at live] by (auto simp: wired_def)
  from users_online [OF at_reg_rest [OF at live] this]
  show "runs (GetOnlineUserInfo st) (\<lambda>_. True)" "runs (GetUserConnCnt st) (\<lambda>_. True)" by (simp_all add: GetOnlineUserInfo_def GetUserConnCnt_def)
qed

definition serv_OnConfirm_of :: "env \<Rightarrow> part \<Rightarrow> nat \<Rightarrow> msg_op" where
  "serv_OnConfirm_of e p a = (case p of Db \<Rightarrow> db_OnConfirm a | Login \<Rightarrow> login_OnConfirm e a | Route \<Rightarrow> route_OnConfirm e a
     | Push \<Rightarrow> push_OnConfirm a | File \<Rightarrow> file_OnConfirm e a)"

text \<open>The connection's part of a confirmation: it is open, and everything else is as before.\<close>

definition confirming :: "part \<Rightarrow> env \<Rightarrow> nat \<Rightarrow> msg_op" where
  "confirming p e a = on_bk p (\<lambda>b. bindR (serv_confirmed
     (if p \<in> {Route, File} then (\<lambda>c. c\<lparr>sv_connect_time := e_now e\<rparr>) else (\<lambda>c. c)) a b) (\<lambda>b. Inr (b, [])))"

lemma runs_confirming:
  assumes at: "at_reg e kc kb r st" and h: "map_of (snd (kb p)) h = Some a"
  shows "runs (confirming p e a st) (\<lambda>st'. at_reg e kc kb r st' \<and> owned (bk p st') a)"
proof -
  note bk = at_reg_bk [OF at]
  have own: "owned (bk p st) a" using bk_invD(4) [OF bk(1), of p h a] h bk(2) [of p] handle_ok_owned by simp
  define stamp :: "serv_conn \<Rightarrow> serv_conn" where "stamp = (if p \<in> {Route, File} then (\<lambda>c. c\<lparr>sv_connect_time := e_now e\<rparr>) else (\<lambda>c. c))"
  have "sv_handle (stamp c) = sv_handle c" "sv_serv_idx (stamp c) = sv_serv_idx c" for c by (simp_all add: stamp_def)
  then obtain b where b: "serv_confirmed stamp a (bk p st) = Inr b" "bk_inv (fst (kb p)) b" "b_conn_map b = b_conn_map (bk p st)"
    "length (b_server_list b) = length (b_server_list (bk p st))" "\<And>x. owned b x \<longleftrightarrow> owned (bk p st) x"
    using bk_inv_confirmed [OF bk(1) own, of stamp] by blast
  let ?f = "\<lambda>b. bindR (serv_confirmed stamp a b) (\<lambda>b. Inr (b, []))"
  have f: "?f (bk p st) = Inr (b, [])" using b(1) by simp
  have "kb(p := (fst (kb p), b_conn_map b)) = kb" using b(3) bk(2) [of p] by (simp add: fun_upd_idem_iff prod_eq_iff)
  then have "runs (on_bk p ?f st) (at_reg e kc kb r)" using runs_on_bk [where f = ?f, OF at f b(2,4)] b(5) by simp
  moreover have "owned (bk p st') a" if "on_bk p ?f st = Inr st'" for st'
    using that own b(5) on_bk_run [where f = ?f, OF f] by (cases p) auto
  ultimately show ?thesis unfolding confirming_def stamp_def [symmetric] by (auto simp: runs_iff)
qed

lemma runs_serv_OnConfirm_of:
  assumes at: "at_reg e kc kb r st" and live: "reg_live r" and h: "map_of (snd (kb p)) h = Some a"
  shows "runs (serv_OnConfirm_of e p a st) (at_reg e kc kb r)"
proof -
  note conf = runs_confirming [OF at h]
  have liv: "live a (b_heap (bk p st1))" if "at_reg e kc kb r st1" "owned (bk p st1) a" for st1
    using owned_live [OF at_reg_bk(1) [OF that(1)] that(2)] .
  show ?thesis
  proof (cases p)
    case Db
    then show ?thesis using conf by (auto simp: serv_OnConfirm_of_def db_OnConfirm_def confirming_def runs_iff)
  next
    case Push
    have "at_reg e kc kb r (st1\<lparr>g_master_push_conn := Some a\<rparr>)" if "at_reg e kc kb r st1" "owned (bk Push st1) a" for st1
      using at_reg_masters [OF that(1), of "g_master_rs_conn st1" "Some a"] at_reg_bk(3) [OF that(1)] that(2) by (simp add: masters_owned_def)
    then show ?thesis using conf Push by (auto simp: serv_OnConfirm_of_def push_OnConfirm_def confirming_def runs_iff)
  next
    case File
    have send: "runs (to_file e a data st1) (at_reg e kc kb r)" if "at_reg e kc kb r st1" "owned (bk File st1) a" for data st1
    proof (rule runs_calm [OF that(1) live])
      show "at_rest e st1 st1 \<Longrightarrow> okR (at_rest e st1) (to_file e a data st1)" using liv [of st1] that File by (auto intro: calm_to_bk(4))
      show "no_throw (to_file e a data st1)" unfolding to_file_def by (rule no_throw_intros)+
    qed
    show ?thesis
      using conf File send by (auto simp: serv_OnConfirm_of_def file_OnConfirm_def confirming_def runs_iff)
  next
    case Login
    have send: "runs (on_login (serv_SendPdu (e_now e) a data) st1) (at_reg e kc kb r)"
      if "at_reg e kc kb r st1" "owned (bk Login st1) a" for data st1
    proof (rule runs_calm [OF that(1) live])
      show "at_rest e st1 st1 \<Longrightarrow> okR (at_rest e st1) (on_login (serv_SendPdu (e_now e) a data) st1)"
        using liv [of st1] that Login by (intro calm_on_bk(2) same_bk_send) auto
      show "no_throw (on_login (serv_SendPdu (e_now e) a data) st1)" by (rule no_throw_intros)+
    qed
    have rest: "runs (bindR (GetUserConnCnt st1) (\<lambda>(_, n). on_login (serv_SendPdu (e_now e) a (data n)) st1)) (at_reg e kc kb r)"
      if "at_reg e kc kb r st1" "owned (bk Login st1) a" for data st1
      by (rule runs_bind [OF runs_online(2) [OF that(1) live]]) (auto intro: send [OF that])
    show ?thesis
      using conf Login rest by (auto simp: serv_OnConfirm_of_def login_OnConfirm_def confirming_def runs_iff)
  next
    case Route
    have send: "runs (to_route e a data st1) (at_reg e kc kb r)" if "at_reg e kc kb r st1" "owned (bk Route st1) a" for data st1
      by (rule runs_calm [OF that(1) live _ no_throw_send(4)]) (use liv [of st1] that Route in \<open>auto intro: calm_to_bk(2)\<close>)
    have master: "runs (update_master_route_serv_conn e st1) (\<lambda>st2. at_reg e kc kb r st2 \<and> owned (bk Route st2) a)"
      if "at_reg e kc kb r st1" "owned (bk Route st1) a" for st1
      by (rule runs_mono [OF runs_update_master [OF that(1) live]]) (use that(2) in simp)
    have tail: "runs (bindR (GetOnlineUserInfo st2) (\<lambda>l. to_route e a (data l) st2)) (at_reg e kc kb r)"
      if "at_reg e kc kb r st2" "owned (bk Route st2) a" for data st2
      by (rule runs_bind [OF runs_online(1) [OF that(1) live]]) (rule send [OF that])
    have all: "runs (bindR (if g_master_rs_conn st1 = None then update_master_route_serv_conn e st1 else Inr st1) (\<lambda>st2.
        bindR (GetOnlineUserInfo st2) (\<lambda>l. to_route e a (data l) st2))) (at_reg e kc kb r)"
      if "at_reg e kc kb r st1" "owned (bk Route st1) a" for data st1
    proof (rule runs_bind)
      show "runs (if g_master_rs_conn st1 = None then update_master_route_serv_conn e st1 else Inr st1)
        (\<lambda>st2. at_reg e kc kb r st2 \<and> owned (bk Route st2) a)" using master [OF that] that by simp
    qed (blast intro: tail)
    have "runs (on_route (\<lambda>b. bindR (serv_confirmed (\<lambda>c. c\<lparr>sv_connect_time := e_now e\<rparr>) a b) (\<lambda>b. Inr (b, []))) st)
      (\<lambda>st'. at_reg e kc kb r st' \<and> owned (bk Route st') a)" using conf Route by (simp add: confirming_def)
    then show ?thesis unfolding serv_OnConfirm_of_def Route part.case route_OnConfirm_def
      by (rule runs_bind) (erule conjE, rule all)
  qed
qed

section \<open>Timers of the back ends\<close>

definition serv_OnTimer_of :: "env \<Rightarrow> part \<Rightarrow> u64 \<Rightarrow> nat \<Rightarrow> msg_op" where
  "serv_OnTimer_of e p t a = (case p of Db \<Rightarrow> db_OnTimer e t a | Login \<Rightarrow> login_OnTimer e t a | Route \<Rightarrow> route_OnTimer e t a
     | Push \<Rightarrow> push_OnTimer e t a | File \<Rightarrow> file_OnTimer e t a)"

lemma runs_plain_OnTimer:
  assumes at: "at_reg e idle kb r st" and h: "map_of (snd (kb p)) h = Some a" and p: "p \<in> {Db, Login, File}"
  shows "runs (on_bk p (serv_OnTimer clear (heartbeat e) (e_now e) t a) st) (closed_one e p h kb r)"
proof -
  note bk = at_reg_bk [OF at]
  obtain b out where b: "serv_OnTimer clear (heartbeat e) (e_now e) t a (bk p st) = Inr (b, out)" "bk_inv (fst (kb p)) b" "bk_closed h a (bk p st) b"
    using bk_closed_OnTimer [OF bk(1), of p h a clear "heartbeat e" "e_now e" t] h bk(2) [of p] by auto
  have len: "length (b_server_list b) = length (b_server_list (bk p st))" using b(3) by (simp add: bk_closed_def)
  have "masters_owned (g_master_rs_conn st) (g_master_push_conn st) (put_bk p b st)" using bk(3) p by (auto simp: masters_owned_def)
  from at_reg_put_bk [OF at b(2) len this, of "ms_trace st @ out"]
  have "at_reg e idle (kb(p := (fst (kb p), b_conn_map b))) r ((put_bk p b st)\<lparr>ms_trace := ms_trace st @ out\<rparr>)"
    by (simp add: put_bk_same_masters)
  then have "closed_one e p h kb r ((put_bk p b st)\<lparr>ms_trace := ms_trace st @ out\<rparr>)"
    by (rule closed_oneI) (use b(3) bk(2) [of p] in \<open>simp add: bk_closed_def\<close>)
  then show ?thesis by (simp add: on_bk_run [where f = "serv_OnTimer clear (heartbeat e) (e_now e) t a", OF b(1)])
qed

lemma runs_serv_OnTimer_of:
  assumes at: "at_reg e idle kb r st" and live: "reg_live r" and h: "map_of (snd (kb p)) h = Some a"
  shows "runs (serv_OnTimer_of e p t a st) (closed_one e p h kb r)"
proof -
  note bk = at_reg_bk [OF at]
  have la: "live a (b_heap (bk p st))" using bk_invD(4) [OF bk(1), of p h a] h bk(2) [of p] by (auto simp: handle_ok_def deref_live)
  then obtain c where c: "deref a (b_heap (bk p st)) = Inr c" using live_deref by blast
  note rest = at_reg_rest [OF at live]
  have two: "runs (bindR (if b then send st else Inr st) (\<lambda>st1. if b' then serv_Close_of e p a st1 else Inr st1)) (closed_one e p h kb r)"
    if "at_rest e st st \<Longrightarrow> okR (at_rest e st) (send st)" "no_throw (send st)" for b b' send
  proof (rule runs_bind)
    show "runs (if b then send st else Inr st) (at_reg e idle kb r)" using runs_calm [where f = send, OF at live that] at by simp
  next
    fix st1
    assume st1: "at_reg e idle kb r st1"
    show "runs (if b' then serv_Close_of e p a st1 else Inr st1) (closed_one e p h kb r)"
      using runs_serv_Close_of [OF st1 live h] closed_one_refl [OF st1] by simp
  qed
  show ?thesis
  proof (cases p)
    case Route
    have "runs (bindR (if b then to_route e a d st else Inr st) (\<lambda>st1. if b' then serv_Close_of e p a st1 else Inr st1)) (closed_one e p h kb r)" for b b' d
      by (rule two [where send = "to_route e a d"]) (use la Route in \<open>auto intro: calm_to_bk no_throw_intros\<close>)
    note run = this [unfolded serv_Close_of_def Route part.case]
    have "deref a (b_heap (ms_route st)) = Inr c" using c Route by simp
    then show ?thesis unfolding serv_OnTimer_of_def Route part.case route_OnTimer_def by (simp only: bindR_simps run)
  next
    case Push
    have nt: "no_throw (to_push e a d st)" for d unfolding to_push_def by (rule no_throw_intros)+
    have "runs (bindR (if b then to_push e a d st else Inr st) (\<lambda>st1. if b' then serv_Close_of e p a st1 else Inr st1)) (closed_one e p h kb r)" for b b' d
      by (rule two [where send = "to_push e a d"]) (use la Push nt in \<open>auto intro: calm_to_bk\<close>)
    note run = this [unfolded serv_Close_of_def Push part.case]
    have "deref a (b_heap (ms_push st)) = Inr c" using c Push by simp
    then show ?thesis unfolding serv_OnTimer_of_def Push part.case push_OnTimer_def by (simp only: bindR_simps run)
  next
    case Db
    then show ?thesis using runs_plain_OnTimer [OF at h, of False] by (simp add: serv_OnTimer_of_def db_OnTimer_def)
  next
    case Login
    then show ?thesis using runs_plain_OnTimer [OF at h, of False] by (simp add: serv_OnTimer_of_def login_OnTimer_def)
  next
    case File
    then show ?thesis using runs_plain_OnTimer [OF at h, of True] by (simp add: serv_OnTimer_of_def file_OnTimer_def)
  qed
qed

text \<open>The loop of a timer over the connections that were there when it began. Two of the loops skip connections that are not open.\<close>

definition timer_one :: "env \<Rightarrow> part \<Rightarrow> u64 \<Rightarrow> nat \<Rightarrow> msg_op" where
  "timer_one e p t a st =
     (if p \<in> {Db, Push} then bindR (deref a (b_heap (bk p st))) (\<lambda>c. if sv_open c then serv_OnTimer_of e p t a st else Inr st)
      else serv_OnTimer_of e p t a st)"

fun serv_timer_loop :: "env \<Rightarrow> part \<Rightarrow> u64 \<Rightarrow> conn_map \<Rightarrow> msg_op" where
  "serv_timer_loop e p t [] st = Inr st"
| "serv_timer_loop e p t (q # qs) st = bindR (timer_one e p t (snd q) st) (serv_timer_loop e p t qs)"

lemma runs_timer_one:
  assumes at: "at_reg e idle kb r st" and live: "reg_live r" and h: "map_of (snd (kb p)) h = Some a"
  shows "runs (timer_one e p t a st) (closed_one e p h kb r)"
proof -
  note bk = at_reg_bk [OF at]
  obtain c where "deref a (b_heap (bk p st)) = Inr c"
    using bk_invD(4) [OF bk(1), of p h a] h bk(2) [of p] by (auto simp: handle_ok_def)
  then show ?thesis using runs_serv_OnTimer_of [OF at live h] closed_one_refl [OF at] by (auto simp: timer_one_def)
qed

lemma runs_serv_timer_loop:
  assumes "at_reg e idle kb r st" "reg_live r" "\<forall>q\<in>set qs. map_of (snd (kb p)) (fst q) = Some (snd q)" "distinct (map fst qs)"
  shows "runs (serv_timer_loop e p t qs st) (\<lambda>st'. \<exists>M. at_reg e idle (kb(p := (fst (kb p), M))) r st')"
  using assms
proof (induction qs arbitrary: kb st)
  case Nil
  then show ?case using closed_one_refl [of e kb r st p] unfolding closed_one_def serv_timer_loop.simps runs_Inr by blast
next
  case (Cons q qs)
  have h: "map_of (snd (kb p)) (fst q) = Some (snd q)" using Cons.prems(3) by simp
  show ?case unfolding serv_timer_loop.simps
  proof (rule runs_bind [OF runs_timer_one [OF Cons.prems(1,2) h]])
    fix st1
    assume "closed_one e p (fst q) kb r st1"
    then obtain M where M: "at_reg e idle (kb(p := (fst (kb p), M))) r st1" "\<And>g. g \<noteq> fst q \<Longrightarrow> map_of M g = map_of (snd (kb p)) g"
      unfolding closed_one_def by blast
    have "\<forall>x\<in>set qs. map_of (snd ((kb(p := (fst (kb p), M))) p)) (fst x) = Some (snd x)"
    proof
      fix x
      assume x: "x \<in> set qs"
      then have "fst x \<noteq> fst q" using Cons.prems(4) by (auto simp: rev_image_eqI)
      then show "map_of (snd ((kb(p := (fst (kb p), M))) p)) (fst x) = Some (snd x)" using M(2) Cons.prems(3) x by simp
    qed
    moreover have "distinct (map fst qs)" using Cons.prems(4) by simp
    ultimately show "runs (serv_timer_loop e p t qs st1) (\<lambda>st'. \<exists>M. at_reg e idle (kb(p := (fst (kb p), M))) r st')"
      using Cons.IH [OF M(1) Cons.prems(2)] by (simp only: fun_upd_same fun_upd_upd fst_conv)
  qed
qed

text \<open>The five timers, with the attempts to reconnect that follow the loop.\<close>

definition serv_timer_callback_of :: "env \<Rightarrow> part \<Rightarrow> (nat \<Rightarrow> u32) \<Rightarrow> msg_op" where
  "serv_timer_callback_of e p connect = (case p of Db \<Rightarrow> db_server_conn_timer_callback e connect
     | Login \<Rightarrow> login_server_conn_timer_callback e connect | Route \<Rightarrow> route_server_conn_timer_callback e connect
     | Push \<Rightarrow> push_server_conn_timer_callback e connect | File \<Rightarrow> file_server_conn_timer_callback e connect)"

lemma timer_loops:
  "db_timer_loop e t qs = serv_timer_loop e Db t qs" "login_timer_loop e t qs = serv_timer_loop e Login t qs"
  "route_timer_loop e t qs = serv_timer_loop e Route t qs" "push_timer_loop e t qs = serv_timer_loop e Push t qs"
  "file_timer_loop e t qs = serv_timer_loop e File t qs"
  by (induction qs) (rule ext, simp add: timer_one_def serv_OnTimer_of_def bindR_assoc cong: if_cong)+

lemma serv_timer_callback_of_eq:
  "serv_timer_callback_of e p connect st = bindR (serv_timer_loop e p (e_now e) (b_conn_map (bk p st)) st)
     (on_bk p (\<lambda>b. bindR (serv_check_reconnect connect (e_now e) b) (\<lambda>b. Inr (b, []))))"
  by (cases p) (simp_all add: serv_timer_callback_of_def db_server_conn_timer_callback_def login_server_conn_timer_callback_def
      route_server_conn_timer_callback_def push_server_conn_timer_callback_def file_server_conn_timer_callback_def timer_loops)

lemma runs_serv_timer_callback_of:
  assumes at: "at_reg e idle kb r st" and live: "reg_live r" and kb: "fst (kb p) = idle"
  shows "runs (serv_timer_callback_of e p connect st) (\<lambda>st'. \<exists>M. at_reg e idle (kb(p := (idle, M))) r st')"
proof -
  note bk = at_reg_bk [OF at]
  have ok: "distinct (map fst (snd (kb p)))" using bk_invD(2) [OF bk(1), of p] bk(2) [of p] by (simp add: hm_ok_def)
  then have all: "\<forall>q\<in>set (snd (kb p)). map_of (snd (kb p)) (fst q) = Some (snd q)" by (auto simp: map_of_eq_Some_iff)
  show ?thesis unfolding serv_timer_callback_of_eq bk(2)
  proof (rule runs_bind [OF runs_serv_timer_loop [OF at live all ok]])
    fix st1
    assume "\<exists>M. at_reg e idle (kb(p := (fst (kb p), M))) r st1"
    then obtain M where at1: "at_reg e idle (kb(p := (idle, M))) r st1" by (auto simp: kb)
    let ?f = "\<lambda>b. bindR (serv_check_reconnect connect (e_now e) b) (\<lambda>b. Inr (b, []))"
    have "bk_inv idle (bk p st1)" using at_reg_bk(1) [OF at1, of p] by simp
    then obtain b where b: "serv_check_reconnect connect (e_now e) (bk p st1) = Inr b" "bk_inv idle b"
      "length (b_server_list b) = length (b_server_list (bk p st1))" "\<And>x. owned (bk p st1) x \<Longrightarrow> owned b x"
      using bk_inv_check_reconnect by blast
    have f: "?f (bk p st1) = Inr (b, [])" using b(1) by simp
    have "runs (on_bk p ?f st1) (at_reg e idle (kb(p := (idle, b_conn_map b))) r)"
      using runs_on_bk [where f = ?f, OF at1 f b(2,3,4)] by simp
    then show "runs (on_bk p ?f st1) (\<lambda>st'. \<exists>M. at_reg e idle (kb(p := (idle, M))) r st')" by (rule runs_mono) blast
  qed
qed

section \<open>Reads from a back end\<close>

definition push_OnRead_msg :: "env \<Rightarrow> (pdu_header \<times> bytes) list \<Rightarrow> bool \<Rightarrow> nat \<Rightarrow> msg_op" where
  "push_OnRead_msg e fs bad p st =
     bindR (on_push (serv_touch (e_now e) p) st) (read_pdus push_HandlePdu (push_Close p) fs bad)"

definition serv_HandlePdu_of :: "env \<Rightarrow> part \<Rightarrow> nat \<Rightarrow> pdu_header \<Rightarrow> bytes \<Rightarrow> msg_op" where
  "serv_HandlePdu_of e p a = (case p of Db \<Rightarrow> db_HandlePdu e a | Login \<Rightarrow> login_HandlePdu | Route \<Rightarrow> route_HandlePdu e
     | Push \<Rightarrow> push_HandlePdu | File \<Rightarrow> file_HandlePdu e a)"

definition serv_OnRead_of :: "env \<Rightarrow> part \<Rightarrow> (pdu_header \<times> bytes) list \<Rightarrow> bool \<Rightarrow> nat \<Rightarrow> msg_op" where
  "serv_OnRead_of e p fs bad a = (case p of Db \<Rightarrow> db_OnRead e fs bad a | Login \<Rightarrow> login_OnRead_msg e fs bad a
     | Route \<Rightarrow> route_OnRead_msg e fs bad a | Push \<Rightarrow> push_OnRead_msg e fs bad a | File \<Rightarrow> file_OnRead_msg e fs bad a)"

lemma serv_OnRead_of_eq:
  "serv_OnRead_of e p fs bad a st =
     bindR (on_bk p (serv_touch (e_now e) a) st) (read_pdus (serv_HandlePdu_of e p a) (serv_Close_of e p a) fs bad)"
  by (cases p) (simp_all add: serv_OnRead_of_def serv_HandlePdu_of_def serv_Close_of_def db_OnRead_def login_OnRead_msg_def
      route_OnRead_msg_def push_OnRead_msg_def file_OnRead_msg_def)

text \<open>
  What is relied on of the other servers: PDUs are at least as long as a header and shorter than 2 GB, attachments that come
  back are ones the message server wrote, and the database answers a login with the id of the login name.
\<close>

definition serv_pdu_ok :: "(string \<Rightarrow> u32) \<Rightarrow> env \<Rightarrow> part \<Rightarrow> pdu_header \<times> bytes \<Rightarrow> bool" where
  "serv_pdu_ok idof e p f \<longleftrightarrow> p \<in> {Login, Push} \<or> 16 \<le> length (snd f) \<and> short (snd f)
     \<and> (p = Db \<longrightarrow>
          (h_command_id (fst f) = CID_GROUP_INFO_RESPONSE \<longrightarrow> info_in_range e (snd f))
        \<and> (h_command_id (fst f) = CID_OTHER_VALIDATE_RSP \<longrightarrow> (\<forall>msg. pb_par (pb_ValidateRsp (e_server e)) (drop 16 (snd f)) = (True, msg)
             \<longrightarrow> vr_result_code msg = 0 \<longrightarrow> validates idof (vr_user_name msg) (ui_user_id (vr_user_info msg)))))
     \<and> (p = Route \<longrightarrow> h_command_id (fst f) = CID_BUDDY_LIST_USERS_STATUS_RESPONSE \<longrightarrow> stat_in_range e (snd f))"

lemma runs_serv_touch:
  assumes at: "at_reg e kc kb r st" and live: "reg_live r" and a: "live a (b_heap (bk p st))"
  shows "runs (on_bk p (serv_touch now a) st) (at_reg e kc kb r)"
proof (rule runs_calm [OF at live])
  obtain c where c: "deref a (b_heap (bk p st)) = Inr c" using a live_deref by blast
  have "same_heap serv_core (b_heap (bk p st)) (set_obj a (c\<lparr>sv_last_recv_tick := now\<rparr>) (b_heap (bk p st)))"
    using c by (intro same_heap_set_obj) (simp_all add: serv_core_def)
  then have "\<exists>b' out. serv_touch now a (bk p st) = Inr (b', out) \<and> same_bk (bk p st) b'"
    using c by (simp add: serv_touch_def same_bk_def)
  then show "okR (at_rest e st) (on_bk p (serv_touch now a) st)" if "at_rest e st st"
    using calm_on_bk [OF that, where f = "serv_touch now a"] by (cases p) simp_all
  have "no_throw (serv_touch now a b)" for b unfolding serv_touch_def by (rule no_throw_intros)+
  then show "no_throw (on_bk p (serv_touch now a) st)" by (cases p) (simp_all add: no_throw_intros)
qed

lemma runs_HandleStopReceivePacket:
  assumes at: "at_reg e kc kb r st" and own: "owned (ms_db st) d"
  shows "runs (HandleStopReceivePacket d st) (at_reg e kc kb r)"
proof -
  let ?f = "\<lambda>b. bindR (deref d (b_heap b)) (\<lambda>c. if sv_serv_idx c < length (b_server_list b)
       then Inr (b\<lparr>b_heap := set_obj d (c\<lparr>sv_open := False\<rparr>) (b_heap b)\<rparr>, []) else Inl MemFault)"
  note bk = at_reg_bk [OF at]
  have inv: "bk_inv (fst (kb Db)) (ms_db st)" using bk(1) [of Db] by simp
  obtain c where c: "deref d (b_heap (ms_db st)) = Inr c" using owned_live [OF inv own] live_deref by blast
  note idx = owned_idx [OF inv c own]
  let ?b = "(ms_db st)\<lparr>b_heap := set_obj d (c\<lparr>sv_open := False\<rparr>) (b_heap (ms_db st))\<rparr>"
  have b: "bk_inv (fst (kb Db)) ?b" "owned ?b x = owned (ms_db st) x" for x
    using bk_inv_set_obj [OF inv c, of "c\<lparr>sv_open := False\<rparr>" "b_server_list (ms_db st)"] by simp_all
  have f: "?f (bk Db st) = Inr (?b, [])" using c idx by simp
  have "kb(Db := (fst (kb Db), b_conn_map ?b)) = kb" using bk(2) [of Db] by (simp add: fun_upd_idem_iff prod_eq_iff)
  then have "runs (on_bk Db ?f st) (at_reg e kc kb r)" using runs_on_bk [where f = ?f, OF at f b(1)] b(2) by simp
  then show ?thesis by (simp add: HandleStopReceivePacket_def)
qed

lemma okR_serv_HandlePdu_of:
  assumes at: "at_reg e idle kb r st" and inv: "reg_inv idof r" and h: "map_of (snd (kb p)) h = Some a"
    and cs: "codecs_short e" and f: "serv_pdu_ok idof e p (hdr, img)"
  shows "okR (follows idof e idle kb r) (serv_HandlePdu_of e p a hdr img st)"
proof -
  note rest = at_reg_rest [OF at reg_inv_live [OF inv]]
  note bk = at_reg_bk [OF at]
  have own: "owned (bk p st) a" using bk_invD(4) [OF bk(1), of p h a] h bk(2) [of p] handle_ok_owned by simp
  have la: "live a (b_heap (bk p st))" using owned_live [OF bk(1) own] .
  have calm: "okR (follows idof e idle kb r) m" if "okR (at_rest e st) m" for m
    using that by (rule okR_mono) (rule follows_refl [OF at_rest_at_reg [OF _ at]])
  show ?thesis
  proof (cases p)
    case Db
    consider "h_command_id hdr = CID_OTHER_VALIDATE_RSP" | "h_command_id hdr = CID_OTHER_STOP_RECV_PACKET"
      | "h_command_id hdr \<notin> {CID_OTHER_VALIDATE_RSP, CID_OTHER_STOP_RECV_PACKET}" by blast
    then show ?thesis
    proof cases
      case 1
      then have "db_HandlePdu e a hdr img st = HandleValidateResponse e hdr img st"
        by (simp add: db_HandlePdu_def run_handler_def db_handlers_def)
      then show ?thesis
        using okR_HandleValidateResponse [OF at inv, of img hdr] f cs Db 1
        by (simp add: serv_HandlePdu_of_def serv_pdu_ok_def codecs_short_def)
    next
      case 2
      then have "db_HandlePdu e a hdr img st = HandleStopReceivePacket a st"
        by (simp add: db_HandlePdu_def run_handler_def db_handlers_def)
      moreover have "runs (HandleStopReceivePacket a st) (follows idof e idle kb r)"
        by (rule runs_mono [OF runs_HandleStopReceivePacket [OF at]]) (use own Db in \<open>auto intro: follows_refl\<close>)
      ultimately show ?thesis using Db runs_okR by (simp add: serv_HandlePdu_of_def)
    next
      case 3
      then show ?thesis using calm [OF calm_db_HandlePdu [OF rest]] f cs la Db by (simp add: serv_HandlePdu_of_def serv_pdu_ok_def)
    qed
  next
    case Route
    then show ?thesis using calm [OF calm_route_HandlePdu [OF rest]] f cs by (simp add: serv_HandlePdu_of_def serv_pdu_ok_def)
  next
    case File
    then show ?thesis using calm [OF calm_file_HandlePdu [OF rest]] f cs la by (simp add: serv_HandlePdu_of_def serv_pdu_ok_def)
  qed (use follows_refl [OF at] in \<open>simp_all add: serv_HandlePdu_of_def login_HandlePdu_def push_HandlePdu_def\<close>)
qed

lemma serv_run_pdus:
  assumes "at_reg e idle kb r st" "reg_inv idof r" "map_of (snd (kb p)) h = Some a" "codecs_short e" "\<forall>f\<in>set fs. serv_pdu_ok idof e p f"
  shows "case run_pdus (serv_HandlePdu_of e p a) fs st of (st', ex) \<Rightarrow> follows idof e idle kb r st' \<and> (\<forall>x. ex = Some x \<longrightarrow> thrown x)"
  using assms(1,2,5)
proof (induction fs arbitrary: r st)
  case (Cons f fs)
  have "serv_pdu_ok idof e p (fst f, snd f)" using Cons.prems(3) by simp
  from okR_serv_HandlePdu_of [OF Cons.prems(1,2) assms(3,4) this]
  have ok: "okR (follows idof e idle kb r) (serv_HandlePdu_of e p a (fst f) (snd f) st)" .
  show ?case
  proof (cases "serv_HandlePdu_of e p a (fst f) (snd f) st")
    case (Inl ex)
    then show ?thesis using ok follows_refl [OF Cons.prems(1)] by simp
  next
    case (Inr st1)
    then have st1: "follows idof e idle kb r st1" using ok by simp
    have "case run_pdus (serv_HandlePdu_of e p a) fs st1 of (st', ex) \<Rightarrow> follows idof e idle kb (registry_of st1) st' \<and> (\<forall>x. ex = Some x \<longrightarrow> thrown x)"
      by (rule Cons.IH [OF follows_at [OF st1] follows_inv [OF st1 Cons.prems(2)]]) (use Cons.prems(3) in simp)
    then show ?thesis using Inr st1 by (auto simp: follows_def split: prod.splits)
  qed
qed (simp add: follows_refl)

lemma runs_serv_OnRead_of:
  assumes at: "at_reg e idle kb r st" and inv: "reg_inv idof r" and h: "map_of (snd (kb p)) h = Some a"
    and cs: "codecs_short e" and fs: "\<forall>f\<in>set fs. serv_pdu_ok idof e p f"
  shows "runs (serv_OnRead_of e p fs bad a st) (served idof e p h kb r)"
  unfolding serv_OnRead_of_eq
proof (rule runs_bind [OF runs_serv_touch [OF at reg_inv_live [OF inv]]])
  show "live a (b_heap (bk p st))"
    using bk_invD(4) [OF at_reg_bk(1) [OF at], of p h a] h at_reg_bk(2) [OF at, of p] by (auto simp: handle_ok_def deref_live)
next
  fix st1
  assume at1: "at_reg e idle kb r st1"
  obtain st2 ex where run: "run_pdus (serv_HandlePdu_of e p a) fs st1 = (st2, ex)" by fastforce
  with serv_run_pdus [OF at1 inv h cs fs] have st2: "follows idof e idle kb r st2" "\<And>x. ex = Some x \<Longrightarrow> thrown x" by auto
  have "runs (serv_Close_of e p a st2) (closed_one e p h kb (registry_of st2))"
    by (rule runs_serv_Close_of [OF follows_at [OF st2(1)] reg_inv_live [OF follows_inv [OF st2(1) inv]] h])
  then have "runs (serv_Close_of e p a st2) (served idof e p h kb r)"
    by (rule runs_mono) (use st2(1) in \<open>auto simp: served_def follows_def\<close>)
  then show "runs (read_pdus (serv_HandlePdu_of e p a) (serv_Close_of e p a) fs bad st1) (served idof e p h kb r)"
    using st2 served_follows [OF st2(1)] by (cases ex) (simp_all add: read_pdus_def run)
qed

end
