(* ===== verification/MsgServer.thy ===== *)
theory MsgServer
  imports MsgPeers
begin

text \<open>
  The message server as a whole: its start, the events it reacts to, and the proof that every event of well-behaved peers is handled
  without a fault, keeps the invariant and makes the registry do steps of its specification.
\<close>

section \<open>Start\<close>

text \<open>
  The part of \<open>main\<close> after the configuration has been read: every database server gets \<open>concur\<close> entries, and the connections
  are opened. \<open>None\<close> is the exit when fewer than two database servers are configured.
\<close>

definition concurrent_servers :: "u32 \<Rightarrow> serv_info_t list \<Rightarrow> serv_info_t list" where
  "concurrent_servers concur ss =
     map (\<lambda>i. \<lparr>server_ip = server_ip (ss ! (i div unat concur)), server_port = server_port (ss ! (i div unat concur)),
               idle_cnt = 0, reconnect_cnt = 0, si_serv_conn = None\<rparr>) [0..<unat (of_nat (length ss) * concur)]"

definition no_backend :: backend where
  "no_backend = \<lparr>b_server_list = [], b_conn_map = [], b_heap = empty_heap\<rparr>"

definition empty_server :: msg_server where
  "empty_server = \<lparr>g_msg_conn_map = [], ms_conns = empty_heap, ms_users = empty_heap, m_im_user_map = [], m_im_user_map_by_name = [],
     ms_db = no_backend, ms_login = no_backend, ms_route = no_backend, ms_push = no_backend, ms_file = no_backend,
     g_db_server_login_count = 0, g_master_rs_conn = None, g_master_push_conn = None, g_down_msg_total_cnt = 0, g_down_msg_miss_cnt = 0,
     g_last_stat_tick = 0, ms_rand_calls = 0, ms_trace = []\<rparr>"

definition init_msg_conn :: "env \<Rightarrow> msg_server \<Rightarrow> msg_server" where
  "init_msg_conn e st = st\<lparr>g_last_stat_tick := e_now e\<rparr>"

definition msg_main :: "env \<Rightarrow> (part \<Rightarrow> nat \<Rightarrow> u32) \<Rightarrow> (part \<Rightarrow> serv_info_t list) \<Rightarrow> u32 \<Rightarrow> msg_server option res" where
  "msg_main e connect servers concur =
     (if length (servers Db) < 2 then Inr None
      else bindR (init_file_serv_conn e (connect File) (servers File) (init_msg_conn e empty_server)) (\<lambda>st1.
           bindR (init_db_serv_conn e (connect Db) (concurrent_servers concur (servers Db)) (unat concur) st1) (\<lambda>st2.
           bindR (init_login_serv_conn e (connect Login) (servers Login) st2) (\<lambda>st3.
           bindR (init_route_serv_conn e (connect Route) (servers Route) st3) (\<lambda>st4.
           bindR (init_push_serv_conn e (connect Push) (servers Push) st4) (\<lambda>st5. Inr (Some st5)))))))"

section \<open>Events\<close>

type_synonym frames = "(pdu_header \<times> bytes) list"

text \<open>The methods that \<open>imconn_callback\<close> calls; \<open>OnWrite\<close> is the one of \<open>CImConn\<close> and works on the connection's own buffer only.\<close>

fun client_on :: "env \<Rightarrow> frames \<Rightarrow> bool \<Rightarrow> netlib_msg \<Rightarrow> nat \<Rightarrow> msg_op" where
  "client_on e fs bad NETLIB_MSG_READ a st = msg_OnRead e fs bad a st"
| "client_on e fs bad NETLIB_MSG_CLOSE a st = OnClose e a st"
| "client_on e fs bad _ a st = Inr st"

fun serv_on :: "env \<Rightarrow> part \<Rightarrow> frames \<Rightarrow> bool \<Rightarrow> netlib_msg \<Rightarrow> nat \<Rightarrow> msg_op" where
  "serv_on e p fs bad NETLIB_MSG_CONFIRM a st = serv_OnConfirm_of e p a st"
| "serv_on e p fs bad NETLIB_MSG_READ a st = serv_OnRead_of e p fs bad a st"
| "serv_on e p fs bad NETLIB_MSG_CLOSE a st = serv_Close_of e p a st"
| "serv_on e p fs bad _ a st = Inr st"

definition serv_dispatch :: "env \<Rightarrow> part \<Rightarrow> frames \<Rightarrow> bool \<Rightarrow> netlib_msg \<Rightarrow> u32 \<Rightarrow> msg_op" where
  "serv_dispatch e p fs bad msg handle st =
     imconn_callback (\<lambda>a. on_bk p (serv_add_ref a)) (\<lambda>a. on_bk p (serv_release a)) (serv_on e p fs bad) (Some (b_conn_map (bk p st))) msg handle st"

datatype msg_event =
    Accepted u32
  | ClientMsg netlib_msg u32 frames bool
  | ServMsg part netlib_msg u32 frames bool
  | ClientTick
  | ServTick part "nat \<Rightarrow> u32"
  | SigUsr1

fun msg_step :: "env \<Rightarrow> msg_event \<Rightarrow> msg_op" where
  "msg_step e (Accepted handle) st = msg_serv_callback e handle st"
| "msg_step e (ClientMsg msg handle fs bad) st = client_dispatch (client_on e fs bad) msg handle st"
| "msg_step e (ServMsg p msg handle fs bad) st = serv_dispatch e p fs bad msg handle st"
| "msg_step e ClientTick st = msg_conn_timer_callback e st"
| "msg_step e (ServTick p connect) st = serv_timer_callback_of e p connect st"
| "msg_step e SigUsr1 st = Inr (signal_handler_usr1 st)"

section \<open>Well-behaved peers\<close>

text \<open>
  What is relied on: the sockets library gives a new connection a handle that is not in use, \<open>rand()\<close> reaches every entry, protocol buffers are
  limited to 2 GB, and the PDUs are as \<open>client_read_ok\<close> and \<open>serv_pdu_ok\<close> say.
\<close>

definition good_msg_event :: "(string \<Rightarrow> u32) \<Rightarrow> env \<Rightarrow> msg_server \<Rightarrow> msg_event \<Rightarrow> bool" where
  "good_msg_event idof e st ev \<longleftrightarrow> fair e st \<and> codecs_short e \<and>
     (case ev of
        Accepted handle \<Rightarrow> handle \<noteq> NETLIB_INVALID_HANDLE \<and> map_of (g_msg_conn_map st) handle = None
      | ClientMsg msg handle fs bad \<Rightarrow> msg = NETLIB_MSG_READ \<longrightarrow> client_read_ok e st fs bad
      | ServMsg p msg handle fs bad \<Rightarrow> msg = NETLIB_MSG_READ \<longrightarrow> (\<forall>f\<in>set fs. serv_pdu_ok idof e p f)
      | _ \<Rightarrow> True)"

definition msg_inv :: "(string \<Rightarrow> u32) \<Rightarrow> msg_server \<Rightarrow> bool" where
  "msg_inv idof st \<longleftrightarrow> reg_inv idof (registry_of st) \<and> boxes st \<and> counted idle st \<and> backs (\<lambda>p. (idle, b_conn_map (bk p st))) st"

lemma msg_inv_at:
  assumes "msg_inv idof st" "fair e st"
  shows "at_reg e idle (\<lambda>p. (idle, b_conn_map (bk p st))) (registry_of st) st"
  using assms by (simp add: msg_inv_def at_reg_def)

lemma at_msg_inv:
  assumes at: "at_reg e idle kb (registry_of st) st" and inv: "reg_inv idof (registry_of st)" and kb: "\<And>p. fst (kb p) = idle"
  shows "msg_inv idof st"
proof -
  have "kb = (\<lambda>p. (idle, b_conn_map (bk p st)))" using kb at_reg_bk(2) [OF at] by (auto simp: prod_eq_iff)
  then show ?thesis using at_regD [OF at] inv by (simp add: msg_inv_def)
qed

section \<open>Callbacks\<close>

lemma rg_conn_live: "live a (ms_conns st) \<longleftrightarrow> rg_conn (registry_of st) a \<noteq> None"
  by (simp add: view_live [symmetric, of _ _ conn_view])

interpretation clients: conn_server "\<lambda>k st. follows idof e k kb r st" ms_conns conn_add_ref conn_release
  "\<lambda>st st'. registry_of st' = registry_of st \<and> (\<forall>p. bk p st' = bk p st)" for idof e kb r
proof unfold_locales
  fix st :: msg_server and a
  assume st: "follows idof e idle kb r st" and a: "live a (ms_conns st)"
  have "idle(a := idle a + 1) = held a" by simp
  then have "runs (conn_add_ref a st) (at_reg e (held a) kb (registry_of st))"
    using runs_conn_add_ref [OF follows_at [OF st]] a rg_conn_live by metis
  then obtain st' where st': "conn_add_ref a st = Inr st'" "at_reg e (held a) kb (registry_of st) st'" by (auto simp: runs_iff)
  then show "\<exists>st'. conn_add_ref a st = Inr st' \<and> follows idof e (held a) kb r st' \<and> registry_of st' = registry_of st
      \<and> (\<forall>p. bk p st' = bk p st)"
    using st at_regD(1) [OF st'(2)] by (auto simp: follows_def conn_add_ref_def bindR_Inr_iff)
next
  fix st :: msg_server and a
  assume st: "follows idof e (held a) kb r st" and a: "live a (ms_conns st)"
  let ?r = "registry_of st"
  have c: "rg_conn ?r a \<noteq> None" using a by (simp only: rg_conn_live not_False_eq_True)
  have "(held a)(a := held a a - 1) = idle" by auto
  with runs_conn_release [OF follows_at [OF st] c] obtain st' where st': "conn_release a st = Inr st'"
    "at_reg e idle kb (if a \<notin> ran (rg_handles ?r) then ?r\<lparr>rg_conn := (rg_conn ?r)(a := None)\<rparr> else ?r) st'"
    by (auto simp: runs_iff)
  have "(reg_step idof)\<^sup>*\<^sup>* ?r (if a \<notin> ran (rg_handles ?r) then ?r\<lparr>rg_conn := (rg_conn ?r)(a := None)\<rparr> else ?r)"
    using reg_step.free [of ?r a idof] by (auto simp: ran_def)
  then show "\<exists>st'. conn_release a st = Inr st' \<and> follows idof e idle kb r st'"
    using st st' followsI [OF st'(2)] by (auto simp: follows_def intro: rtranclp_trans)
qed

interpretation peers: conn_server "\<lambda>k st. \<exists>M. follows idof e idle (kb(p := (k, M))) r st" "\<lambda>st. b_heap (bk p st)"
  "\<lambda>a. on_bk p (serv_add_ref a)" "\<lambda>a. on_bk p (serv_release a)" "\<lambda>st st'. b_conn_map (bk p st') = b_conn_map (bk p st)"
  for idof e kb p r
proof unfold_locales
  fix st :: msg_server and a
  assume "\<exists>M. follows idof e idle (kb(p := (idle, M))) r st" and a: "live a (b_heap (bk p st))"
  then obtain M where st: "follows idof e idle (kb(p := (idle, M))) r st" by blast
  note at = follows_at [OF st]
  have inv: "bk_inv idle (bk p st)" and M: "b_conn_map (bk p st) = M" using at_reg_bk(1) [OF at, of p] at_reg_bk(2) [OF at, of p] by simp_all
  obtain b where b: "serv_add_ref a (bk p st) = Inr (b, [])" "bk_inv (held a) b" "b_conn_map b = b_conn_map (bk p st)"
    "b_server_list b = b_server_list (bk p st)" using bk_inv_hold [OF inv a] by auto
  have "runs (on_bk p (serv_add_ref a) st) (at_reg e idle (kb(p := (idle, M), p := (held a, b_conn_map b))) (registry_of st))"
    by (rule runs_on_bk [where f = "serv_add_ref a", OF at b(1,2)]) (use b(4) in \<open>simp_all add: owned_def\<close>)
  moreover have "b_conn_map (bk p st') = b_conn_map (bk p st)" if "on_bk p (serv_add_ref a) st = Inr st'" for st'
    using that on_bk_run [where f = "serv_add_ref a", OF b(1)] b(3) by auto
  ultimately obtain st' where st': "on_bk p (serv_add_ref a) st = Inr st'" "b_conn_map (bk p st') = b_conn_map (bk p st)"
    "at_reg e idle (kb(p := (held a, b_conn_map b))) (registry_of st) st'" unfolding runs_iff fun_upd_upd by blast
  have "follows idof e idle (kb(p := (held a, b_conn_map b))) r st'" using st st'(3) at_regD(1) [OF st'(3)] by (simp add: follows_def)
  then show "\<exists>st'. on_bk p (serv_add_ref a) st = Inr st' \<and> (\<exists>M. follows idof e idle (kb(p := (held a, M))) r st')
      \<and> b_conn_map (bk p st') = b_conn_map (bk p st)"
    using st'(1,2) by blast
next
  fix st :: msg_server and a
  assume "\<exists>M. follows idof e idle (kb(p := (held a, M))) r st" and a: "live a (b_heap (bk p st))"
  then obtain M where st: "follows idof e idle (kb(p := (held a, M))) r st" by blast
  note at = follows_at [OF st]
  have inv: "bk_inv (held a) (bk p st)" using at_reg_bk(1) [OF at, of p] at_reg_bk(2) [OF at, of p] by simp
  have "(held a)(a := held a a - 1) = idle" by auto
  then obtain b where b: "serv_release a (bk p st) = Inr (b, [])" "bk_inv idle b" "b_server_list b = b_server_list (bk p st)"
    using bk_inv_drop [OF inv a] by auto
  have "runs (on_bk p (serv_release a) st) (at_reg e idle ((kb(p := (held a, M)))(p := (idle, b_conn_map b))) (registry_of st))"
    by (rule runs_on_bk [where f = "serv_release a", OF at b(1,2)]) (use b(3) in \<open>simp_all add: owned_def\<close>)
  then obtain st' where st': "on_bk p (serv_release a) st = Inr st'"
    "at_reg e idle (kb(p := (idle, b_conn_map b))) (registry_of st) st'" unfolding runs_iff fun_upd_upd by blast
  have "follows idof e idle (kb(p := (idle, b_conn_map b))) r st'" using st st'(2) at_regD(1) [OF st'(2)] by (simp add: follows_def)
  then show "\<exists>st'. on_bk p (serv_release a) st = Inr st' \<and> (\<exists>M. follows idof e idle (kb(p := (idle, M))) r st')"
    using st'(1) by blast
qed

lemma callback_other: "imconn_callback add release on data NETLIB_MSG_OTHER h st = imconn_callback add release (\<lambda>_ _. Inr) data NETLIB_MSG_WRITE h st"
  by (simp add: imconn_callback_def cong: option.case_cong)

lemma servers_open_bk:
  assumes "\<And>p. bk p st' = bk p st"
  shows "servers_open st' = servers_open st"
  using assms [of Db] assms [of File] by (simp add: servers_open_def)

lemma held_conn_live:
  assumes "at_reg e (held a) kb r st"
  shows "live a (ms_conns st)"
proof -
  have "refs a (ms_conns st) = held a a + (if in_conn_map st a then 1 else 0)"
    using at_regD(3) [OF assms] unfolding counted_def by blast
  then show ?thesis by (intro refs_live) simp
qed

lemma runs_client_on:
  assumes at: "at_reg e (held a) kb r st" and inv: "reg_inv idof r" and h: "rg_handles r h = Some a"
    and cs: "codecs_short e" and fs: "msg = NETLIB_MSG_READ \<Longrightarrow> client_read_ok e st fs bad"
  shows "\<exists>st'. client_on e fs bad msg a st = Inr st' \<and> follows idof e (held a) kb r st' \<and> live a (ms_conns st')"
proof -
  have k: "0 \<le> held a a" by simp
  have "runs (client_on e fs bad msg a st) (follows idof e (held a) kb r)"
  proof (cases msg)
    case NETLIB_MSG_READ
    then show ?thesis using runs_msg_OnRead [OF at inv h k cs fs] by (simp only: client_on.simps)
  next
    case NETLIB_MSG_CLOSE
    then show ?thesis using follows_Close [OF at inv h k] by (simp only: client_on.simps OnClose_def)
  qed (use follows_refl [OF at] in \<open>simp_all only: client_on.simps runs_Inr\<close>)
  then show ?thesis using held_conn_live [OF follows_at] unfolding runs_iff by blast
qed

lemma runs_serv_on:
  assumes st: "follows idof e idle (kb(p := (held a, M))) r st" and inv: "reg_inv idof r" and h: "map_of M h = Some a"
    and cs: "codecs_short e" and fs: "msg = NETLIB_MSG_READ \<Longrightarrow> \<forall>f\<in>set fs. serv_pdu_ok idof e p f"
  shows "\<exists>st'. serv_on e p fs bad msg a st = Inr st' \<and> (\<exists>M. follows idof e idle (kb(p := (held a, M))) r st') \<and> live a (b_heap (bk p st'))"
proof -
  let ?r = "registry_of st" and ?kb = "kb(p := (held a, M))"
  note at = follows_at [OF st]
  note inv' = follows_inv [OF st inv]
  have h': "map_of (snd (?kb p)) h = Some a" using h by simp
  have one: "served idof e p h ?kb ?r st'" if "closed_one e p h ?kb ?r st'" for st' using served_closed_one [OF that] by blast
  have "runs (serv_on e p fs bad msg a st) (served idof e p h ?kb ?r)"
  proof (cases msg)
    case NETLIB_MSG_CONFIRM
    have "runs (serv_OnConfirm_of e p a st) (served idof e p h ?kb ?r)"
      by (rule runs_mono [OF runs_serv_OnConfirm_of [OF at reg_inv_live [OF inv'] h']]) (rule served_follows [OF follows_refl])
    then show ?thesis using NETLIB_MSG_CONFIRM by (simp only: serv_on.simps)
  next
    case NETLIB_MSG_READ
    then show ?thesis using runs_serv_OnRead_of [OF at inv' h' cs fs] by (simp only: serv_on.simps)
  next
    case NETLIB_MSG_CLOSE
    have "runs (serv_Close_of e p a st) (served idof e p h ?kb ?r)"
      by (rule runs_mono [OF runs_serv_Close_of [OF at reg_inv_live [OF inv'] h'] one])
    then show ?thesis using NETLIB_MSG_CLOSE by (simp only: serv_on.simps)
  qed (use served_follows [OF follows_refl [OF at]] in \<open>simp_all only: serv_on.simps runs_Inr\<close>)
  then obtain st' r' M' where st': "serv_on e p fs bad msg a st = Inr st'" "at_reg e idle (kb(p := (held a, M'))) r' st'"
    "(reg_step idof)\<^sup>*\<^sup>* ?r r'" by (auto simp: runs_iff served_def closed_one_def)
  have "follows idof e idle (kb(p := (held a, M'))) r st'"
    using followsI [OF st'(2)] st st'(3) by (auto simp: follows_def intro: rtranclp_trans)
  moreover have "live a (b_heap (bk p st'))" using at_reg_bk(1) [OF st'(2), of p] by (intro bk_inv_held [of "held a"]) simp_all
  ultimately show ?thesis using st'(1) by blast
qed

section \<open>One event\<close>

lemma msg_step_sound:
  assumes inv: "msg_inv idof st" and good: "good_msg_event idof e st ev"
  shows "\<exists>st'. msg_step e ev st = Inr st' \<and> msg_inv idof st' \<and> (reg_step idof)\<^sup>*\<^sup>* (registry_of st) (registry_of st')"
proof -
  let ?r = "registry_of st" and ?kb = "\<lambda>p. (idle, b_conn_map (bk p st))"
  have fair: "fair e st" and cs: "codecs_short e" using good by (simp_all add: good_msg_event_def)
  have at: "at_reg e idle ?kb ?r st" using msg_inv_at [OF inv fair] .
  have reg: "reg_inv idof ?r" using inv by (simp add: msg_inv_def)
  have fol: "msg_inv idof st' \<and> (reg_step idof)\<^sup>*\<^sup>* ?r (registry_of st')"
    if "follows idof e idle kb ?r st'" "\<And>p. fst (kb p) = idle" for st' kb
    using at_msg_inv [OF follows_at [OF that(1)] follows_inv [OF that(1) reg] that(2)] that(1) by (simp add: follows_def)
  have ok: ?thesis if "runs (msg_step e ev st) (follows idof e idle ?kb ?r)"
    using that fol [of ?kb] by (auto simp: runs_iff)
  show ?thesis
  proof (cases ev)
    case (Accepted h)
    have free: "rg_handles ?r h = None" "h \<noteq> NETLIB_INVALID_HANDLE" using good Accepted by (simp_all add: good_msg_event_def)
    have "heap_ok (ms_conns st)" using at_regD(2) [OF at] by (simp add: boxes_def)
    then have "rg_conn ?r (hp_next (ms_conns st)) = None" using view_fresh by simp
    from reg_step.accept [OF free(1) this, of idof]
    have "runs (msg_serv_callback e h st) (follows idof e idle ?kb ?r)"
      by (intro runs_mono [OF runs_msg_serv_callback [OF at free]]) (auto intro: followsI)
    then show ?thesis using Accepted ok by simp
  next
    case (ClientMsg msg h fs bad)
    have read: "msg = NETLIB_MSG_READ \<Longrightarrow> client_read_ok e st fs bad" using good ClientMsg by (simp add: good_msg_event_def)
    have run: "\<exists>st'. imconn_callback conn_add_ref conn_release on (Some (g_msg_conn_map st)) m h st = Inr st' \<and> follows idof e idle ?kb ?r st'"
      if "m \<noteq> NETLIB_MSG_OTHER" and on: "\<And>a st1. at_reg e (held a) ?kb ?r st1 \<Longrightarrow> rg_handles ?r h = Some a \<Longrightarrow> (\<And>p. bk p st1 = bk p st) \<Longrightarrow>
        \<exists>st2. on m a st1 = Inr st2 \<and> follows idof e (held a) ?kb ?r st2 \<and> live a (ms_conns st2)" for m on
    proof (rule clients.callback_inv [OF follows_refl [OF at] that(1)])
      fix mp a
      assume "Some (g_msg_conn_map st) = Some mp" "map_of mp h = Some a"
      then show "live a (ms_conns st)" using reg_invD(1) [OF reg, of h a] by (auto simp: rg_conn_live conn_ok_def)
    next
      fix mp a st1
      assume "Some (g_msg_conn_map st) = Some mp" "map_of mp h = Some a" "follows idof e (held a) ?kb ?r st1"
        "registry_of st1 = ?r \<and> (\<forall>p. bk p st1 = bk p st)"
      then show "\<exists>st2. on m a st1 = Inr st2 \<and> follows idof e (held a) ?kb ?r st2 \<and> live a (ms_conns st2)"
        using on [of a st1] by (auto simp: follows_def)
    qed
    have "\<exists>st'. client_dispatch (client_on e fs bad) msg h st = Inr st' \<and> follows idof e idle ?kb ?r st'"
    proof (cases "msg = NETLIB_MSG_OTHER")
      case True
      show ?thesis unfolding client_dispatch_def True callback_other
        by (rule run) (auto intro: follows_refl held_conn_live)
    next
      case False
      have "client_read_ok e st1 fs bad" if "\<And>p. bk p st1 = bk p st" "msg = NETLIB_MSG_READ" for st1
        using read [OF that(2)] servers_open_bk [OF that(1)] by (simp add: client_read_ok_def quiet_pdu_def)
      then show ?thesis unfolding client_dispatch_def
        using False by (intro run runs_client_on [OF _ reg _ cs]) auto
    qed
    then show ?thesis using ClientMsg ok by (auto simp: runs_iff)
  next
    case (ServMsg p msg h fs bad)
    have read: "msg = NETLIB_MSG_READ \<Longrightarrow> \<forall>f\<in>set fs. serv_pdu_ok idof e p f" using good ServMsg by (simp add: good_msg_event_def)
    note bk = at_reg_bk [OF at]
    have start: "\<exists>M. follows idof e idle (?kb(p := (idle, M))) ?r st"
      by (rule exI [of _ "b_conn_map (bk p st)"]) (use follows_refl [OF at] in \<open>simp add: fun_upd_idem\<close>)
    have run: "\<exists>st'. imconn_callback (\<lambda>a. on_bk p (serv_add_ref a)) (\<lambda>a. on_bk p (serv_release a)) on (Some (b_conn_map (bk p st))) m h st = Inr st'
        \<and> (\<exists>M. follows idof e idle (?kb(p := (idle, M))) ?r st')"
      if "m \<noteq> NETLIB_MSG_OTHER" and on: "\<And>a M st1. follows idof e idle (?kb(p := (held a, M))) ?r st1 \<Longrightarrow> map_of M h = Some a \<Longrightarrow>
        \<exists>st2. on m a st1 = Inr st2 \<and> (\<exists>M. follows idof e idle (?kb(p := (held a, M))) ?r st2) \<and> live a (b_heap (bk p st2))" for m on
    proof (rule peers.callback_inv [OF start that(1)])
      fix mp a
      assume "Some (b_conn_map (bk p st)) = Some mp" "map_of mp h = Some a"
      then show "live a (b_heap (bk p st))" using bk_invD(4) [OF bk(1), of p h a] by (auto simp: handle_ok_def deref_live)
    next
      fix mp a st1
      assume a: "Some (b_conn_map (bk p st)) = Some mp" "map_of mp h = Some a"
        "\<exists>M. follows idof e idle (?kb(p := (held a, M))) ?r st1" "b_conn_map (bk p st1) = b_conn_map (bk p st)"
      then obtain M where M: "follows idof e idle (?kb(p := (held a, M))) ?r st1" by blast
      have "b_conn_map (bk p st1) = M" using at_reg_bk(2) [OF follows_at [OF M], of p] by simp
      then show "\<exists>st2. on m a st1 = Inr st2 \<and> (\<exists>M. follows idof e idle (?kb(p := (held a, M))) ?r st2) \<and> live a (b_heap (bk p st2))"
        using on [OF M] a by simp
    qed
    have "\<exists>st'. serv_dispatch e p fs bad msg h st = Inr st' \<and> (\<exists>M. follows idof e idle (?kb(p := (idle, M))) ?r st')"
    proof (cases "msg = NETLIB_MSG_OTHER")
      case True
      show ?thesis unfolding serv_dispatch_def True callback_other
      proof (rule run)
        fix a M st1
        assume M: "follows idof e idle (?kb(p := (held a, M))) ?r st1"
        have "live a (b_heap (bk p st1))" using at_reg_bk(1) [OF follows_at [OF M], of p] by (intro bk_inv_held [of "held a"]) simp_all
        then show "\<exists>st2. Inr st1 = Inr st2 \<and> (\<exists>M. follows idof e idle (?kb(p := (held a, M))) ?r st2) \<and> live a (b_heap (bk p st2))"
          using M by blast
      qed simp
    next
      case False
      show ?thesis unfolding serv_dispatch_def
        by (rule run [OF False]) (rule runs_serv_on [OF _ reg _ cs read])
    qed
    then obtain st' M where "serv_dispatch e p fs bad msg h st = Inr st'" "follows idof e idle (?kb(p := (idle, M))) ?r st'" by blast
    then show ?thesis using fol [of "?kb(p := (idle, M))" st'] ServMsg by simp
  next
    case ClientTick
    then show ?thesis using ok runs_msg_conn_timer_callback [OF at reg] by simp
  next
    case (ServTick p connect)
    obtain st' M where st': "serv_timer_callback_of e p connect st = Inr st'" "at_reg e idle (?kb(p := (idle, M))) ?r st'"
      using runs_serv_timer_callback_of [OF at reg_inv_live [OF reg], of p connect] by (auto simp: runs_iff)
    then show ?thesis using fol [OF follows_refl [OF st'(2)]] ServTick by simp
  next
    case SigUsr1
    have "calm st (signal_handler_usr1 st)" unfolding signal_handler_usr1_def by (simp add: calm_def steady_def)
    then show ?thesis using ok follows_refl [OF calm_at_reg [OF _ at]] SigUsr1 by simp
  qed
qed

section \<open>Start and reachable states\<close>

lemma unat_of_nat_le: "unat (of_nat n :: u32) \<le> n"
  by (simp add: unat_of_nat)

lemma bk_fresh_config: "\<forall>s\<in>set ss. si_serv_conn s = None \<Longrightarrow> bk_fresh (no_backend\<lparr>b_server_list := ss\<rparr>)"
  by (simp add: bk_fresh_def no_backend_def)

text \<open>The configuration: no server has a connection yet.\<close>

definition configured :: "(part \<Rightarrow> serv_info_t list) \<Rightarrow> bool" where
  "configured servers \<longleftrightarrow> (\<forall>p. \<forall>s\<in>set (servers p). si_serv_conn s = None)"

lemma login_range: "n div c div 2 * c \<le> (n :: nat)"
proof -
  have "n div c div 2 * c \<le> n div c * c" by (intro mult_right_mono) simp_all
  also have "\<dots> \<le> n" by simp
  finally show ?thesis .
qed

lemma msg_main_inv:
  assumes "configured servers" "2 \<le> length (servers Db)" "concur \<noteq> 0"
  shows "\<exists>st. msg_main e connect servers concur = Inr (Some st) \<and> msg_inv idof st"
proof -
  let ?dbs = "concurrent_servers concur (servers Db)"
  have none: "\<forall>s\<in>set (servers p). si_serv_conn s = None" "\<forall>s\<in>set ?dbs. si_serv_conn s = None" for p
    using assms(1) by (auto simp: configured_def concurrent_servers_def)
  have init: "\<exists>b. serv_init c (e_now e) (no_backend\<lparr>b_server_list := ss\<rparr>) = Inr b \<and> bk_inv idle b \<and> length (b_server_list b) = length ss"
    if "\<forall>s\<in>set ss. si_serv_conn s = None" for c ss
    using bk_inv_init [OF bk_fresh_config [OF that], of c "e_now e"] by simp
  obtain bf where bf: "serv_init (connect File) (e_now e) (no_backend\<lparr>b_server_list := servers File\<rparr>) = Inr bf" "bk_inv idle bf"
    using init [OF none(1) [of File]] by blast
  obtain bd where bd: "serv_init (connect Db) (e_now e) (no_backend\<lparr>b_server_list := ?dbs\<rparr>) = Inr bd" "bk_inv idle bd"
    "length (b_server_list bd) = length ?dbs" using init [OF none(2)] by blast
  obtain bl where bl: "serv_init (connect Login) (e_now e) (no_backend\<lparr>b_server_list := servers Login\<rparr>) = Inr bl" "bk_inv idle bl"
    using init [OF none(1) [of Login]] by blast
  obtain br where br: "serv_init (connect Route) (e_now e) (no_backend\<lparr>b_server_list := servers Route\<rparr>) = Inr br" "bk_inv idle br"
    using init [OF none(1) [of Route]] by blast
  obtain bp where bp: "serv_init (connect Push) (e_now e) (no_backend\<lparr>b_server_list := servers Push\<rparr>) = Inr bp" "bk_inv idle bp"
    using init [OF none(1) [of Push]] by blast
  have c0: "unat concur \<noteq> 0" using assms(3) by (simp add: unat_eq_0)
  let ?n = "(length ?dbs div unat concur div 2) * unat concur"
  let ?st = "empty_server\<lparr>g_last_stat_tick := e_now e, ms_file := bf, ms_db := bd, g_db_server_login_count := ?n,
    ms_login := bl, ms_route := br, ms_push := bp\<rparr>"
  have run: "msg_main e connect servers concur = Inr (Some ?st)"
    using assms(2) bf(1) bd(1) bl(1) br(1) bp(1) c0
    by (simp add: msg_main_def init_msg_conn_def init_file_serv_conn_def init_db_serv_conn_def init_login_serv_conn_def
        init_route_serv_conn_def init_push_serv_conn_def empty_server_def)
  have "registry_of ?st = \<lparr>rg_handles = Map.empty, rg_conn = Map.empty, rg_user = Map.empty, rg_by_id = Map.empty, rg_by_name = Map.empty\<rparr>"
    by (auto simp: registry_of_def empty_server_def view_def deref_def empty_heap_def)
  then have "reg_inv idof (registry_of ?st)" by (simp add: reg_inv_empty)
  moreover have "boxes ?st" by (simp add: boxes_def empty_server_def hm_ok_def om_ok_def deref_def, simp add: empty_heap_def)
  moreover have "counted idle ?st" by (simp add: counted_def refs_def in_conn_map_def empty_server_def empty_heap_def)
  moreover have "bk_inv idle (bk p ?st)" for p using bf(2) bd(2) bl(2) br(2) bp(2) by (cases p) simp_all
  then have "backs (\<lambda>p. (idle, b_conn_map (bk p ?st))) ?st"
    using bd(3) login_range [of "length ?dbs" "unat concur"] by (simp add: backs_def empty_server_def)
  ultimately show ?thesis using run by (auto simp: msg_inv_def)
qed

text \<open>What the server can get to with the events of well-behaved peers.\<close>

inductive msg_reachable :: "(string \<Rightarrow> u32) \<Rightarrow> msg_server \<Rightarrow> bool" for idof where
  start: "configured servers \<Longrightarrow> msg_main e connect servers concur = Inr (Some st) \<Longrightarrow> msg_reachable idof st"
| step: "msg_reachable idof st \<Longrightarrow> good_msg_event idof e st ev \<Longrightarrow> msg_step e ev st = Inr st' \<Longrightarrow> msg_reachable idof st'"

lemma msg_main_SomeD:
  assumes "msg_main e connect servers concur = Inr (Some st)"
  shows "2 \<le> length (servers Db)" "concur \<noteq> 0"
proof -
  show "2 \<le> length (servers Db)" using assms by (auto simp: msg_main_def split: if_splits)
  then show "concur \<noteq> 0" using assms by (auto simp: msg_main_def init_db_serv_conn_def bindR_Inr_iff)
qed

lemma reachable_inv: "msg_reachable idof st \<Longrightarrow> msg_inv idof st"
proof (induction rule: msg_reachable.induct)
  case (start servers e connect concur st)
  then show ?case using msg_main_inv [OF start(1) msg_main_SomeD [OF start(2)], of e connect idof] by auto
next
  case (step st e ev st')
  then show ?case using msg_step_sound [OF step(4,2)] by auto
qed

text \<open>Runs that are given as lists of events, for concrete examples.\<close>

fun msg_run :: "env \<Rightarrow> msg_event list \<Rightarrow> msg_op" where
  "msg_run e [] st = Inr st"
| "msg_run e (ev # evs) st = bindR (msg_step e ev st) (msg_run e evs)"

fun good_msg_run :: "(string \<Rightarrow> u32) \<Rightarrow> env \<Rightarrow> msg_event list \<Rightarrow> msg_server \<Rightarrow> bool" where
  "good_msg_run idof e [] st \<longleftrightarrow> True"
| "good_msg_run idof e (ev # evs) st \<longleftrightarrow>
     good_msg_event idof e st ev \<and> (case msg_step e ev st of Inl _ \<Rightarrow> True | Inr st' \<Rightarrow> good_msg_run idof e evs st')"

lemma run_reachable: "msg_reachable idof st \<Longrightarrow> good_msg_run idof e evs st \<Longrightarrow> msg_run e evs st = Inr st' \<Longrightarrow> msg_reachable idof st'"
proof (induction evs arbitrary: st)
  case (Cons ev evs)
  then obtain st1 where "msg_step e ev st = Inr st1" "msg_run e evs st1 = Inr st'" by (auto simp: bindR_Inr_iff)
  then show ?case using Cons msg_reachable.step [of idof st e ev st1] by simp
qed simp

end
