(* ===== verification/MsgDemo.thy ===== *)
theory MsgDemo
  imports MsgServer
begin

text \<open>
  A small configuration of the message server for concrete examples: two database servers, one login and one route server, codecs that
  parse one login request, one answer of the database and one message, and draws that reach both database entries.
\<close>

section \<open>Codecs\<close>

definition demo_login :: login_pb where
  "demo_login = \<lparr>pb_LoginReq = no_pb, pb_LoginRes = no_pb, pb_LogoutRsp = no_pb, pb_KickUser = no_pb, pb_DeviceTokenReq = no_pb,
     pb_DeviceTokenRsp = no_pb, pb_KickPCClientReq = no_pb, pb_KickPCClientRsp = no_pb, pb_PushShieldReq = no_pb, pb_PushShieldRsp = no_pb,
     pb_QueryPushShieldReq = no_pb, pb_QueryPushShieldRsp = no_pb, pb_RelationListREQ = no_pb\<rparr>"

definition demo_message :: message_pb where
  "demo_message = \<lparr>pb_MsgData = no_pb, pb_MsgDataAck = no_pb, pb_MsgDataReadAck = no_pb, pb_MsgDataReadNotify = no_pb, pb_ClientTimeRsp = no_pb,
     pb_UnreadMsgCntReq = no_pb, pb_UnreadMsgCntRsp = no_pb, pb_GetMsgListReq = no_pb, pb_GetMsgListRsp = no_pb, pb_GetLatestMsgIdReq = no_pb,
     pb_GetLatestMsgIdRsp = no_pb, pb_GetMsgByIdReq = no_pb, pb_GetMsgByIdRsp = no_pb, pb_P2PCmdMsg = no_pb\<rparr>"

definition demo_buddy :: buddy_pb where
  "demo_buddy = \<lparr>pb_RecentContactSessionReq = no_pb, pb_RecentContactSessionRsp = no_pb, pb_UsersInfoReq = no_pb, pb_UsersInfoRsp = no_pb, pb_RemoveSessionReq = no_pb,
     pb_RemoveSessionRsp = no_pb, pb_RemoveSessionNotify = no_pb, pb_AllUserReq = no_pb, pb_AllUserRsp = no_pb, pb_BuddyUsersStatReq = no_pb,
     pb_BuddyUsersStatRsp = no_pb, pb_ChangeAvatarReq = no_pb, pb_ChangeAvatarRsp = no_pb, pb_DepartmentReq = no_pb, pb_DepartmentRsp = no_pb,
     pb_ChangeSignInfoReq = no_pb, pb_ChangeSignInfoRsp = no_pb, pb_SignInfoChangedNotify = no_pb, pb_BuddyUserStatNotify = no_pb, pb_BuddyPCLoginStatusNotify = no_pb\<rparr>"

definition demo_group :: group_pb where
  "demo_group = \<lparr>pb_NormalGroupListReq = no_pb, pb_NormalGroupListRsp = no_pb, pb_GroupInfoListReq = no_pb, pb_GroupInfoListRsp = no_pb, pb_GroupCreateReq = no_pb,
     pb_GroupCreateRsp = no_pb, pb_GroupChangeMemberReq = no_pb, pb_GroupChangeMemberRsp = no_pb, pb_GroupChangeMemberNotify = no_pb, pb_GroupShieldReq = no_pb,
     pb_GroupShieldRsp = no_pb\<rparr>"

definition demo_file :: file_pb where
  "demo_file = \<lparr>pb_FileReq = no_pb, pb_FileRsp = no_pb, pb_FileNotify = no_pb, pb_FileHasOfflineReq = no_pb, pb_FileHasOfflineRsp = no_pb,
     pb_FileAddOfflineReq = no_pb, pb_FileDelOfflineReq = no_pb, pb_InfoNotify = no_pb\<rparr>"

definition demo_server :: server_pb where
  "demo_server = \<lparr>pb_SrvHeartBeat = no_pb, pb_ValidateReq = no_pb, pb_ValidateRsp = no_pb, pb_ServerKickUser = no_pb, pb_SrvUserCntUpdate = no_pb,
     pb_SrvUserStatusUpdate = no_pb, pb_SrvOnlineUserInfo = no_pb, pb_SrvRoleSet = no_pb, pb_SrvMsgServInfo = no_pb, pb_ServerPCLoginStatusNotify = no_pb,
     pb_GetDeviceTokenReq = no_pb, pb_GetDeviceTokenRsp = no_pb, pb_PushToUserReq = no_pb, pb_GroupGetShieldReq = no_pb, pb_GroupGetShieldRsp = no_pb,
     pb_FileTransferReq = no_pb, pb_FileTransferRsp = no_pb, pb_FileServerIPReq = no_pb, pb_FileServerIPRsp = no_pb\<rparr>"

definition demo_attach :: "byte \<Rightarrow> bytes" where
  "demo_attach h = enc32 0 @ enc32 (ucast h) @ enc32 0"

definition demo_env :: env where
  "demo_env = \<lparr>e_now = 1000, e_time = 7, e_fresh = (\<lambda>_. 0), e_draws = (\<lambda>_. [0, 1]), e_junk = 0, e_decrypt = (\<lambda>_. None), e_json = (\<lambda>_ _ _. []),
     e_self = \<lparr>ip1 = ''1.1.1.1'', ip2 = ''2.2.2.2'', si_port = 8000, si_max_conn_cnt = 100, si_cur_conn_cnt = 0, host_name = ''ms''\<rparr>,
     e_login = demo_login\<lparr>pb_LoginReq := \<lparr>pb_ser = (\<lambda>_. []), pb_par = (\<lambda>bs.
         (bs = [1] \<or> bs = [2], \<lparr>lr_user_name = (if bs = [1] then ''ann'' else ''bob''), lr_password = ''pw'', lr_online_status = 1,
           lr_client_type = CLIENT_TYPE_WINDOWS, lr_client_version = ''v1''\<rparr>))\<rparr>\<rparr>,
     e_message = demo_message\<lparr>pb_MsgData := \<lparr>pb_ser = (\<lambda>m. [ucast (md_from_user_id m), ucast (md_to_session_id m), ucast (md_msg_id m)] @ md_msg_data m),
         pb_par = (\<lambda>bs. (length bs = 5, \<lparr>md_from_user_id = ucast (bs ! 0), md_to_session_id = ucast (bs ! 1), md_msg_id = ucast (bs ! 2),
           md_create_time = 0, md_msg_type = MSG_TYPE_SINGLE_TEXT, md_msg_data = [bs ! 3], md_attach_data = Some (demo_attach (bs ! 4))\<rparr>))\<rparr>\<rparr>,
     e_buddy = demo_buddy, e_group = demo_group, e_file = demo_file,
     e_server = demo_server\<lparr>pb_ValidateRsp := \<lparr>pb_ser = (\<lambda>_. []), pb_par = (\<lambda>bs.
         (length bs = 2 \<and> (bs ! 0 = 1 \<or> bs ! 0 = 2), \<lparr>vr_user_name = (if bs ! 0 = 1 then ''ann'' else ''bob''), vr_result_code = 0, vr_result_string = [],
           vr_user_info = \<lparr>ui_user_id = ucast (bs ! 0), ui_user_nick_name = [], ui_rest = []\<rparr>, vr_attach_data = Some (demo_attach (bs ! 1))\<rparr>))\<rparr>\<rparr>\<rparr>"

section \<open>A run\<close>

definition demo_frame :: "u16 \<Rightarrow> bytes \<Rightarrow> pdu_header \<times> bytes" where
  "demo_frame cid body = (let img = wire_pdu SID_OTHER cid 0 body in (parse_header img, img))"

definition demo_serv :: "serv_info_t" where
  "demo_serv = \<lparr>server_ip = ''9.9.9.9'', server_port = 1, idle_cnt = 0, reconnect_cnt = 0, si_serv_conn = None\<rparr>"

definition demo_servers :: "part \<Rightarrow> serv_info_t list" where
  "demo_servers p = (case p of Db \<Rightarrow> [demo_serv, demo_serv] | Login \<Rightarrow> [demo_serv] | Route \<Rightarrow> [demo_serv] | _ \<Rightarrow> [])"

definition demo_connect :: "part \<Rightarrow> nat \<Rightarrow> u32" where
  "demo_connect p i = (case p of Db \<Rightarrow> 100 + of_nat i | Login \<Rightarrow> 110 | Route \<Rightarrow> 120 | _ \<Rightarrow> 130)"

definition demo_start :: msg_server where
  "demo_start = (case msg_main demo_env demo_connect demo_servers 1 of Inr (Some st) \<Rightarrow> st | _ \<Rightarrow> empty_server)"

definition demo_id :: "string \<Rightarrow> u32" where
  "demo_id name = (if name = ''ann'' then 1 else 2)"

text \<open>The database and route connections are confirmed, \<open>ann\<close> logs in on handle 5 and \<open>bob\<close> on handle 6.\<close>

definition demo_logins :: "msg_event list" where
  "demo_logins = [ServMsg Db NETLIB_MSG_CONFIRM 100 [] False, ServMsg Db NETLIB_MSG_CONFIRM 101 [] False, ServMsg Route NETLIB_MSG_CONFIRM 120 [] False,
     ServMsg Login NETLIB_MSG_CONFIRM 110 [] False,
     Accepted 5, ClientMsg NETLIB_MSG_READ 5 [demo_frame CID_LOGIN_REQ_USERLOGIN [1]] False,
     ServMsg Db NETLIB_MSG_READ 100 [demo_frame CID_OTHER_VALIDATE_RSP [1, 5]] False,
     Accepted 6, ClientMsg NETLIB_MSG_READ 6 [demo_frame CID_LOGIN_REQ_USERLOGIN [2]] False,
     ServMsg Db NETLIB_MSG_READ 100 [demo_frame CID_OTHER_VALIDATE_RSP [2, 6]] False]"

lemma demo_codecs_short: "codecs_short demo_env"
  by (auto simp: codecs_short_def short_ser_def short_field_def demo_env_def demo_login_def demo_message_def demo_buddy_def demo_group_def
      demo_file_def demo_server_def no_pb_def demo_attach_def)

lemma demo_fair:
  assumes "length (b_server_list (ms_db st)) \<le> 2"
  shows "fair demo_env st"
proof -
  have "i mod n = i \<and> i \<in> {0, 1}" if "n \<le> 2" "i < n" for i n :: nat using that by auto
  then have "\<exists>r\<in>{0, 1}. r mod n = i" if "n \<le> 2" "i < n" for i n :: nat using that by blast
  then show ?thesis using assms by (simp add: fair_def demo_env_def)
qed

lemma demo_main: "msg_main demo_env demo_connect demo_servers 1 = Inr (Some demo_start)"
proof -
  have "case msg_main demo_env demo_connect demo_servers 1 of Inr (Some _) \<Rightarrow> True | _ \<Rightarrow> False" by code_simp
  then show ?thesis by (auto simp: demo_start_def split: sum.splits option.splits)
qed

text \<open>A computable condition under which an event of the demo is one of well-behaved peers.\<close>

fun demo_ok :: "msg_event \<Rightarrow> msg_server \<Rightarrow> bool" where
  "demo_ok (Accepted h) st \<longleftrightarrow> h \<noteq> NETLIB_INVALID_HANDLE \<and> map_of (g_msg_conn_map st) h = None"
| "demo_ok (ClientMsg msg h fs bad) st \<longleftrightarrow> msg = NETLIB_MSG_READ \<longrightarrow> \<not> bad \<and> (case fs of
     [f] \<Rightarrow> 16 \<le> length (snd f) \<and> h_command_id (fst f) \<in> set [CID_LOGIN_REQ_USERLOGIN, CID_LOGIN_REQ_LOGINOUT, CID_MSG_DATA] | _ \<Rightarrow> False)"
| "demo_ok (ServMsg p msg h fs bad) st \<longleftrightarrow> msg = NETLIB_MSG_READ \<longrightarrow> list_all (\<lambda>f. p = Db \<and> 16 \<le> length (snd f) \<and> length (snd f) \<le> 100
     \<and> h_command_id (fst f) \<in> set [CID_OTHER_VALIDATE_RSP, CID_MSG_DATA]) fs"
| "demo_ok ev st \<longleftrightarrow> True"

lemma demo_ok_good:
  assumes "length (b_server_list (ms_db st)) \<le> 2" "demo_ok ev st"
  shows "good_msg_event demo_id demo_env st ev"
proof (cases ev)
  case (ClientMsg msg h fs bad)
  have "lr_user_name m \<noteq> []" if "pb_par (pb_LoginReq (e_login demo_env)) bs = (True, m)" for bs m
    using that by (auto simp: demo_env_def)
  then have "client_read_ok demo_env st fs bad" if "msg = NETLIB_MSG_READ"
    using assms(2) that ClientMsg by (auto simp: client_read_ok_def quiet_pdu_def session_pdu_def split: list.splits)
  then show ?thesis using demo_codecs_short demo_fair [OF assms(1)] ClientMsg by (simp add: good_msg_event_def)
next
  case (ServMsg p msg h fs bad)
  have "validates demo_id (vr_user_name m) (ui_user_id (vr_user_info m))" if "pb_par (pb_ValidateRsp (e_server demo_env)) bs = (True, m)" for bs m
    using that by (auto simp: demo_env_def demo_id_def validates_def)
  then have "\<forall>f\<in>set fs. serv_pdu_ok demo_id demo_env p f" if "msg = NETLIB_MSG_READ"
    using assms(2) that ServMsg by (auto simp: serv_pdu_ok_def list_all_iff)
  then show ?thesis using demo_codecs_short demo_fair [OF assms(1)] ServMsg by (simp add: good_msg_event_def)
qed (use assms demo_codecs_short demo_fair in \<open>simp_all add: good_msg_event_def\<close>)

fun demo_ok_run :: "msg_event list \<Rightarrow> msg_server \<Rightarrow> bool" where
  "demo_ok_run [] st \<longleftrightarrow> True"
| "demo_ok_run (ev # evs) st \<longleftrightarrow> length (b_server_list (ms_db st)) \<le> 2 \<and> demo_ok ev st \<and>
     (case msg_step demo_env ev st of Inl _ \<Rightarrow> True | Inr st' \<Rightarrow> demo_ok_run evs st')"

lemma demo_ok_run_good: "demo_ok_run evs st \<Longrightarrow> good_msg_run demo_id demo_env evs st"
  by (induction evs arbitrary: st) (auto intro: demo_ok_good split: sum.splits)

lemma demo_reachable: "demo_ok_run evs demo_start \<Longrightarrow> msg_run demo_env evs demo_start = Inr st \<Longrightarrow> msg_reachable demo_id st"
  by (rule run_reachable [OF msg_reachable.start [OF _ demo_main] demo_ok_run_good])
     (auto simp: configured_def demo_servers_def demo_serv_def split: part.splits)

text \<open>The state after both logins.\<close>

definition demo_online :: msg_server where
  "demo_online = (case msg_run demo_env demo_logins demo_start of Inr st \<Rightarrow> st | _ \<Rightarrow> demo_start)"

lemma demo_online_facts:
  "demo_ok_run demo_logins demo_start" "\<not> (case msg_run demo_env demo_logins demo_start of Inl _ \<Rightarrow> True | Inr _ \<Rightarrow> False)"
  "length (b_server_list (ms_db demo_online)) \<le> 2" "g_msg_conn_map demo_online = [(6, 1), (5, 0)]" "m_im_user_map demo_online = [(1, 0), (2, 1)]"
  "map (\<lambda>p. (fst p, mc_open (snd (snd p)))) (hp_objs (ms_conns demo_online)) = [(1, True), (0, True)]"
  by code_simp+

lemma demo_online_reachable: "msg_reachable demo_id demo_online"
  using demo_reachable [OF demo_online_facts(1)] demo_online_facts(2) by (auto simp: demo_online_def split: sum.splits)

lemma demo_online_fair: "fair demo_env demo_online"
  by (rule demo_fair [OF demo_online_facts(3)])

lemma demo_online_good: "demo_ok ev demo_online \<Longrightarrow> good_msg_event demo_id demo_env demo_online ev"
  by (rule demo_ok_good [OF demo_online_facts(3)])

end
