(* ===== verification/MsgProps.thy ===== *)
theory MsgProps
  imports MsgDemo
begin

text \<open>
  What the invariant of the message server means for its sessions: safety and refinement of every event, the link between an
  authenticated connection and its user, and what closing a connection does.
\<close>

lemma at_reachable:
  assumes "msg_reachable idof st" "fair e st"
  shows "at_reg e idle (\<lambda>p. (idle, b_conn_map (bk p st))) (registry_of st) st"
  using msg_inv_at [OF reachable_inv [OF assms(1)] assms(2)] .

lemma reachable_reg_inv: "msg_reachable idof st \<Longrightarrow> reg_inv idof (registry_of st)"
  using reachable_inv by (simp add: msg_inv_def)

text \<open>
  C3: Safety of the message server. In every state that it reaches from its start by events of well-behaved peers (fresh handles, a fair
  \<open>rand()\<close>, protocol buffers below 2 GB, a login or logout at the end of a read), every further such event
  is handled completely: no freed object is touched, no search for a connection runs forever, and the state it leads to is reachable again.
\<close>

theorem msg_server_safe:
  assumes "msg_reachable idof st" "good_msg_event idof e st ev"
  shows "\<exists>st'. msg_step e ev st = Inr st' \<and> msg_reachable idof st'"
  using msg_step_sound [OF reachable_inv [OF assms(1)] assms(2)] msg_reachable.step [OF assms] by blast

theorem msg_server_safe_witness:
  "map fst (m_im_user_map demo_online) = [1, 2] \<and> (\<exists>st. msg_step demo_env (ClientMsg NETLIB_MSG_CLOSE 5 [] False) demo_online = Inr st)"
proof -
  have "good_msg_event demo_id demo_env demo_online (ClientMsg NETLIB_MSG_CLOSE 5 [] False)" by (rule demo_online_good) simp
  from msg_server_safe [OF demo_online_reachable this] show ?thesis using demo_online_facts by auto
qed

text \<open>
  C4: Refinement. Every event makes the sessions and users of the message server do steps of the abstract registry, in which a connection is
  accepted, waits with the user of its login name, is admitted to the user of its id, is closed, and is freed.
\<close>

theorem msg_server_refines:
  assumes "msg_reachable idof st" "good_msg_event idof e st ev" "msg_step e ev st = Inr st'"
  shows "(reg_step idof)\<^sup>*\<^sup>* (registry_of st) (registry_of st')"
  using msg_step_sound [OF reachable_inv [OF assms(1)] assms(2)] assms(3) by auto

theorem msg_server_refines_witness:
  "\<exists>st. msg_step demo_env (Accepted 7) demo_online = Inr st \<and> map_of (g_msg_conn_map st) 7 \<noteq> None
    \<and> (reg_step demo_id)\<^sup>*\<^sup>* (registry_of demo_online) (registry_of st)"
proof -
  have "case msg_step demo_env (Accepted 7) demo_online of Inl _ \<Rightarrow> False | Inr st \<Rightarrow> map_of (g_msg_conn_map st) 7 \<noteq> None" by code_simp
  then obtain st where st: "msg_step demo_env (Accepted 7) demo_online = Inr st" "map_of (g_msg_conn_map st) 7 \<noteq> None"
    by (auto split: sum.splits)
  have "good_msg_event demo_id demo_env demo_online (Accepted 7)" by (rule demo_online_good) (simp add: demo_online_facts)
  then show ?thesis using msg_server_refines [OF demo_online_reachable _ st(1)] st by blast
qed

text \<open>
  C5: Sessions. Every connection in the map of handles is a live object with that handle, which only the map refers to. When it is open, it has a
  login name, its user id is in the map of users, and the user there is the one the database names for the login name, with this connection under its
  handle; before that its user id is 0.
\<close>

theorem session_invariant:
  assumes "msg_reachable idof st" "map_of (g_msg_conn_map st) h = Some a"
  shows "\<exists>c. deref a (ms_conns st) = Inr c \<and> mc_handle c = h \<and> refs a (ms_conns st) = 1 \<and>
    (if mc_open c
     then mc_login_name c \<noteq> [] \<and> (\<exists>u x. map_of (m_im_user_map st) (mc_user_id c) = Some u \<and> deref u (ms_users st) = Inr x
       \<and> iu_user_id x = mc_user_id c \<and> mc_user_id c = idof (iu_login_name x) \<and> map_of (iu_conn_map x) h = Some a)
     else mc_user_id c = 0)"
proof -
  note inv = reachable_inv [OF assms(1)]
  have reg: "reg_inv idof (registry_of st)" and cnt: "counted idle st" using inv by (simp_all add: msg_inv_def)
  have "in_conn_map st a" using assms(2) by (auto simp: in_conn_map_def ran_def dest: map_of_SomeD)
  then have "refs a (ms_conns st) = 1" using cnt by (simp add: counted_def)
  moreover have "conn_ok (registry_of st) h a" using reg_invD(1) [OF reg] assms(2) by simp
  ultimately show ?thesis
  proof (elim conn_okE)
    fix c
    assume "rg_conn (registry_of st) a = Some c" "ci_handle c = h" "\<not> ci_open c" "ci_uid c = 0"
    then show ?thesis using \<open>refs a (ms_conns st) = 1\<close> by (auto elim!: view_SomeE simp: conn_view_def)
  next
    fix c u p
    assume 2: "rg_conn (registry_of st) a = Some c" "ci_handle c = h" "ci_open c" "ci_name c \<noteq> []"
      "rg_by_id (registry_of st) (ci_uid c) = Some u" "rg_user (registry_of st) u = Some p" "pe_conns p h = Some a"
    have id: "ci_uid c \<noteq> 0" "pe_id p = ci_uid c" using reg_invD(3) [OF reg 2(5)] 2(6) by auto
    moreover have "Registry.user_ok idof (registry_of st) u p" using reg_invD(2) [OF reg 2(6)] .
    ultimately have "pe_id p = idof (pe_name p)" using user_okD(4) by metis
    moreover from 2(1) obtain c' where c': "deref a (ms_conns st) = Inr c'" "c = conn_view c'" by (auto elim!: view_SomeE)
    moreover from 2(6) obtain x where "deref u (ms_users st) = Inr x" "p = user_view x" by (auto elim!: view_SomeE)
    ultimately show ?thesis using 2 id(2) \<open>refs a (ms_conns st) = 1\<close>
      by (intro exI [of _ c']) (auto simp: conn_view_def user_view_def)
  qed
qed

theorem session_invariant_witness:
  "\<exists>c u x. deref 0 (ms_conns demo_online) = Inr c \<and> mc_open c \<and> map_of (m_im_user_map demo_online) (mc_user_id c) = Some u
    \<and> deref u (ms_users demo_online) = Inr x \<and> map_of (iu_conn_map x) 5 = Some 0"
proof -
  have "case deref 0 (ms_conns demo_online) of Inl _ \<Rightarrow> False | Inr c \<Rightarrow> mc_open c" by code_simp
  moreover have "map_of (g_msg_conn_map demo_online) 5 = Some 0" by (simp add: demo_online_facts)
  ultimately show ?thesis using session_invariant [OF demo_online_reachable, of 5 0] by (auto split: sum.splits)
qed

end
