(* ===== verification/MsgSessions.thy ===== *)
theory MsgSessions
  imports MsgProps
begin

text \<open>
  How a session ends: what closing a connection does to the registry, and that a client that does not get authenticated in time is closed by the timer.
\<close>

section \<open>Closing\<close>

text \<open>
  C6: \<open>CMsgConn::Close\<close> on a registered connection implements the closing of the registry: the handle is forgotten, the connection leaves
  the user of its id and the user of its login name, a user without connections goes, and the object is freed, since no
  one else holds a reference.
\<close>

theorem close_refines:
  assumes "msg_reachable idof st" "fair e st" "map_of (g_msg_conn_map st) h = Some a"
  shows "\<exists>st'. Close e a st = Inr st' \<and> deref a (ms_conns st') = Inl MemFault
    \<and> registry_of st' = (reg_close a (registry_of st))\<lparr>rg_conn := (rg_conn (registry_of st))(a := None)\<rparr>"
proof -
  note at = at_reachable [OF assms(1,2)]
  have "rg_handles (registry_of st) h = Some a" using assms(3) by simp
  from runs_Close [OF at reachable_reg_inv [OF assms(1)] this] obtain st' where
    st': "Close e a st = Inr st'" "at_reg e idle (\<lambda>p. (idle, b_conn_map (bk p st))) (conn_freed idle a (reg_close a (registry_of st))) st'"
    by (auto simp: runs_iff)
  have "rg_conn (reg_close a r) = rg_conn r" for r :: "(u32, char, u32) registry"
    by (simp add: reg_close_def reg_leave_name_def split: option.split)
  then have reg: "registry_of st' = (reg_close a (registry_of st))\<lparr>rg_conn := (rg_conn (registry_of st))(a := None)\<rparr>"
    using at_regD(1) [OF st'(2)] by (simp add: conn_freed_def)
  then have "\<not> live a (ms_conns st')" by (simp add: rg_conn_live)
  then show ?thesis using st'(1) reg by (cases "map_of (hp_objs (ms_conns st')) a") (auto simp: live_def deref_def)
qed

theorem close_refines_witness:
  "\<exists>st. Close demo_env 0 demo_online = Inr st \<and> deref 0 (ms_conns st) = Inl MemFault \<and> map_of (m_im_user_map st) 1 = None"
proof -
  have h: "map_of (g_msg_conn_map demo_online) 5 = Some 0" by (simp add: demo_online_facts)
  have "case Close demo_env 0 demo_online of Inl _ \<Rightarrow> False | Inr st \<Rightarrow> map_of (m_im_user_map st) 1 = None" by code_simp
  then show ?thesis using close_refines [OF demo_online_reachable demo_online_fair h] by (auto split: sum.splits)
qed

section \<open>Operations that do not touch the connections\<close>

named_theorems conns_kept

lemma on_bk_conns [conns_kept]:
  "on_db f st = Inr st' \<Longrightarrow> ms_conns st' = ms_conns st" "on_login f st = Inr st' \<Longrightarrow> ms_conns st' = ms_conns st"
  "on_route f st = Inr st' \<Longrightarrow> ms_conns st' = ms_conns st" "on_user u g st = Inr st' \<Longrightarrow> ms_conns st' = ms_conns st"
  by (auto simp: on_db_def on_login_def on_route_def on_user_def bindR_Inr_iff)

lemma to_conns [conns_kept]:
  "to_db e d data st = Inr st' \<Longrightarrow> ms_conns st' = ms_conns st" "to_route e d data st = Inr st' \<Longrightarrow> ms_conns st' = ms_conns st"
  by (auto simp: to_db_def to_route_def conns_kept)

lemma draw_conns [conns_kept]:
  "draw_db e lo hi st = Inr r \<Longrightarrow> ms_conns (snd r) = ms_conns st"
  unfolding draw_db_def bindR_Inr_iff by (elim exE conjE) (auto split: loop_result.split_asm)

lemma get_db_conns [conns_kept]: "get_db_serv_conn e st = Inr r \<Longrightarrow> ms_conns (snd r) = ms_conns st"
  by (fastforce simp: get_db_serv_conn_def bindR_Inr_iff split: if_splits dest: draw_conns)

lemma status_conns [conns_kept]: "SendUserStatusUpdate e a s st = Inr st' \<Longrightarrow> ms_conns st' = ms_conns st"
  by (auto simp: SendUserStatusUpdate_def send_status_def send_to_all_login_server_def send_to_all_route_server_def bindR_Inr_iff conns_kept
      split: if_splits option.splits)

lemma remove_conns [conns_kept]: "remove_if_empty u st = Inr st' \<Longrightarrow> ms_conns st' = ms_conns st"
  by (auto simp: remove_if_empty_def RemoveImUser_def RemoveImUserById_def RemoveImUserByLoginName_def delete_user_def bindR_Inr_iff split: if_splits option.splits)

lemma leave_by_id_conns [conns_kept]: "leave_by_id e a st = Inr st' \<Longrightarrow> ms_conns st' = ms_conns st"
  by (auto simp: leave_by_id_def bindR_Inr_iff split: option.splits dest!: remove_conns status_conns on_bk_conns(4))

lemma leave_by_name_conns [conns_kept]: "leave_by_name a st = Inr st' \<Longrightarrow> ms_conns st' = ms_conns st"
  by (auto simp: leave_by_name_def bindR_Inr_iff split: option.splits dest!: remove_conns on_bk_conns(4))

lemma notify_offline_conns [conns_kept]: "notify_offline e a st = Inr st' \<Longrightarrow> ms_conns st' = ms_conns st"
  by (auto simp: notify_offline_def with_conn_def bindR_Inr_iff split: option.splits dest!: get_db_conns to_conns(1))

lemma close_socket_conns [conns_kept]: "close_socket a st = Inr st' \<Longrightarrow> ms_conns st' = ms_conns st"
  by (auto simp: close_socket_def bindR_Inr_iff)

lemma release_others: "release_ref b h = Inr h' \<Longrightarrow> a \<noteq> b \<Longrightarrow> deref a h' = deref a h"
  by (cases "ReleaseRef (fst (the (map_of (hp_objs h) b)))")
     (auto simp: release_ref_def deref_def map_of_hm_assign map_of_map_erase split: option.splits if_splits)

lemma Close_others: "Close e b st = Inr st' \<Longrightarrow> a \<noteq> b \<Longrightarrow> deref a (ms_conns st') = deref a (ms_conns st)"
  by (auto simp: Close_def conn_release_def bindR_Inr_iff release_others
      dest!: close_socket_conns leave_by_id_conns leave_by_name_conns notify_offline_conns)

lemma OnTimer_others:
  assumes "OnTimer e t b st = Inr st'" "a \<noteq> b"
  shows "deref a (ms_conns st') = deref a (ms_conns st)"
  using assms(1) by (auto simp: OnTimer_def on_conn_def bindR_Inr_iff Let_def deref_set_obj assms(2) split: if_splits prod.splits
      dest!: Close_others [OF _ assms(2)])

section \<open>Time-outs\<close>

text \<open>The two reasons for which \<open>OnTimer\<close> closes a connection.\<close>

definition timed_out :: "u64 \<Rightarrow> msg_conn \<Rightarrow> bool" where
  "timed_out t c \<longleftrightarrow> t > mc_last_recv_tick c + (if CHECK_CLIENT_TYPE_MOBILE (mc_client_type c) then MOBILE_CLIENT_TIMEOUT else CLIENT_TIMEOUT)
     \<or> \<not> mc_open c \<and> t > mc_login_time c + TIMEOUT_WATI_LOGIN_RESPONSE"

lemma OnTimer_decides:
  assumes at: "at_reg e kc kb r st" and inv: "reg_inv idof r" and h: "rg_handles r h = Some a" and kc: "0 \<le> kc a"
    and c: "deref a (ms_conns st) = Inr c" and run: "OnTimer e t a st = Inr st'"
  shows "map_of (g_msg_conn_map st') h = (if timed_out t c then None else Some a)"
proof -
  let ?c = "c\<lparr>mc_msg_cnt_per_sec := 0\<rparr>"
  let ?st = "st\<lparr>ms_conns := set_obj a ?c (ms_conns st)\<rparr>"
  obtain ci where rc: "rg_conn r a = Some ci" "ci_handle ci = h" using reg_invD(1) [OF inv h] by (auto elim: conn_okE)
  have "upd_conn a (\<lambda>c. c) r = r" by (simp add: upd_conn_def option.map_ident fun_upd_idem)
  moreover have "runs (on_conn a (\<lambda>c. c\<lparr>mc_msg_cnt_per_sec := 0\<rparr>) st) (at_reg e kc kb (upd_conn a (\<lambda>c. c) r))"
    by (rule runs_on_conn [OF at]) (simp_all add: rc conn_view_def)
  ultimately have at1: "at_reg e kc kb r ?st" using c(1) by (simp add: on_conn_def)
  show ?thesis
  proof (cases "timed_out t c")
    case True
    have "Close e a ?st = Inr st'" using run c True by (auto simp: OnTimer_def on_conn_def deref_set_obj Let_def timed_out_def split: if_splits)
    then have "at_reg e kc kb (conn_freed kc a (reg_close a r)) st'" using runs_Close [OF at1 inv h kc] by simp
    moreover have "rg_handles (conn_freed kc a (reg_close a r)) = (rg_handles r)(h := None)"
      using rg_handles_close [OF rc(1)] rc(2) by (simp add: conn_freed_def)
    ultimately show ?thesis using at_reg_maps(1) True by fastforce
  next
    case False
    then have "g_msg_conn_map st' = g_msg_conn_map st" using run c
      by (auto simp: OnTimer_def on_conn_def deref_set_obj Let_def timed_out_def split: if_splits prod.splits)
    then show ?thesis using False at_reg_maps(1) [OF at] h by simp
  qed
qed

lemma timer_loop_decides:
  assumes "at_reg e kc kb r st" "reg_inv idof r" "\<And>a. kc a = 0" "\<forall>p\<in>set ps. rg_handles r (fst p) = Some (snd p)" "distinct (map fst ps)"
    and "(h, a) \<in> set ps" "deref a (ms_conns st) = Inr c" "timer_loop e t ps st = Inr st'"
  shows "map_of (g_msg_conn_map st') h = (if timed_out t c then None else Some a)"
  using assms(1,2,4-8)
proof (induction ps arbitrary: r st)
  case (Cons p ps)
  have p: "rg_handles r (fst p) = Some (snd p)" "0 \<le> kc (snd p)" and h: "rg_handles r h = Some a" using Cons.prems(3,5) assms(3) by auto
  obtain st1 where st1: "OnTimer e t (snd p) st = Inr st1" "timer_loop e t ps st1 = Inr st'" using Cons.prems(7) by (auto simp: bindR_Inr_iff)
  have fol: "follows idof e kc kb r st1" and others: "\<And>g. g \<noteq> fst p \<Longrightarrow> map_of (g_msg_conn_map st1) g = rg_handles r g"
    using runs_OnTimer [OF Cons.prems(1,2) p, of t] st1(1) by simp_all
  have ne: "fst q \<noteq> fst p" if "q \<in> set ps" for q using Cons.prems(4) that by (auto simp: rev_image_eqI)
  then have rest: "\<forall>q\<in>set ps. rg_handles (registry_of st1) (fst q) = Some (snd q)" using Cons.prems(3) others by simp
  note at1 = follows_at [OF fol] and inv1 = follows_inv [OF fol Cons.prems(2)]
  show ?case
  proof (cases "p = (h, a)")
    case True
    have "runs (timer_loop e t ps st1) (\<lambda>st'. follows idof e kc kb (registry_of st1) st'
        \<and> (\<forall>g. g \<notin> fst ` set ps \<longrightarrow> map_of (g_msg_conn_map st') g = rg_handles (registry_of st1) g))"
      by (rule runs_timer_loop [OF at1 inv1 assms(3) rest]) (use Cons.prems(4) in simp)
    moreover have "h \<notin> fst ` set ps" using ne True by auto
    ultimately show ?thesis using st1(2) OnTimer_decides [OF Cons.prems(1,2) h _ Cons.prems(6), of t st1] st1(1) True assms(3) by auto
  next
    case False
    then have "(h, a) \<in> set ps" using Cons.prems(5) by auto
    moreover from this have "snd p \<noteq> a"
      using ne reg_invD(1) [OF Cons.prems(2) p(1)] reg_invD(1) [OF Cons.prems(2) h] by (fastforce simp: conn_ok_def)
    ultimately show ?thesis
      using Cons.IH [OF at1 inv1 rest _ _ _ st1(2)] Cons.prems(4,6) OnTimer_others [OF st1(1), of a] by simp
  qed
qed simp

text \<open>
  C37: Time-outs. The timer closes exactly the clients that have been silent for too long and those that have not been authenticated 15 seconds after they
  connected; the other ones stay. A client that never gets authenticated is thus disconnected at the first timer event after that time.
\<close>

theorem timer_closes_expired:
  assumes "msg_reachable idof st" "fair e st" "map_of (g_msg_conn_map st) h = Some a" "deref a (ms_conns st) = Inr c"
  shows "\<exists>st'. msg_conn_timer_callback e st = Inr st' \<and> map_of (g_msg_conn_map st') h = (if timed_out (e_now e) c then None else Some a)"
proof -
  note at = at_reachable [OF assms(1,2)] and inv = reachable_reg_inv [OF assms(1)]
  obtain st' where st': "msg_conn_timer_callback e st = Inr st'"
    using runs_msg_conn_timer_callback [OF at inv] by (auto simp: runs_iff)
  then obtain st1 where st1: "timer_loop e (e_now e) (g_msg_conn_map st) st = Inr st1" "g_msg_conn_map st' = g_msg_conn_map st1"
    by (auto simp: msg_conn_timer_callback_def bindR_Inr_iff)
  have ok: "distinct (map fst (g_msg_conn_map st))" using at_regD(2) [OF at] by (simp add: boxes_def hm_ok_def)
  then have "\<forall>p\<in>set (g_msg_conn_map st). rg_handles (registry_of st) (fst p) = Some (snd p)" by auto
  from timer_loop_decides [OF at inv refl this ok map_of_SomeD [OF assms(3)] assms(4) st1(1)] show ?thesis using st' st1(2) by simp
qed

theorem timer_closes_expired_witness:
  "\<exists>st st'. msg_step demo_env (Accepted 7) demo_online = Inr st \<and> map_of (g_msg_conn_map st) 7 \<noteq> None
    \<and> msg_conn_timer_callback (demo_env\<lparr>e_now := 17000\<rparr>) st = Inr st' \<and> map_of (g_msg_conn_map st') 7 = None"
proof -
  let ?e = "demo_env\<lparr>e_now := 17000\<rparr>"
  have "case msg_step demo_env (Accepted 7) demo_online of Inl _ \<Rightarrow> False | Inr st \<Rightarrow> map_of (g_msg_conn_map st) 7 = Some 2
    \<and> length (b_server_list (ms_db st)) \<le> 2 \<and> (case deref 2 (ms_conns st) of Inl _ \<Rightarrow> False | Inr c \<Rightarrow> \<not> mc_open c \<and> mc_login_time c = 1000)"
    by code_simp
  then obtain st c where st: "msg_step demo_env (Accepted 7) demo_online = Inr st" "map_of (g_msg_conn_map st) 7 = Some 2"
    "length (b_server_list (ms_db st)) \<le> 2" "deref 2 (ms_conns st) = Inr c" "\<not> mc_open c" "mc_login_time c = 1000"
    by (auto split: sum.splits)
  have "good_msg_event demo_id demo_env demo_online (Accepted 7)" by (rule demo_online_good) (simp add: demo_online_facts)
  note reach = msg_reachable.step [OF demo_online_reachable this st(1)]
  have fair: "fair ?e st" using demo_fair [OF st(3)] by (simp add: fair_def)
  have out: "timed_out 17000 c" using st(5,6) by (simp add: timed_out_def)
  from timer_closes_expired [OF reach fair st(2,4)] show ?thesis using st(1,2) out by auto
qed

end
