(* ===== verification/MsgTraffic.thy ===== *)
theory MsgTraffic
  imports MsgSessions
begin

text \<open>
  The traffic of the message server: how a database connection is chosen for a request, what becomes of a message a client sends, who gets a
  broadcast, how unacknowledged messages expire, and which route connection is the master.
\<close>

section \<open>Choosing a database connection\<close>

lemma open_set_un: "open_set b (xs @ ys) = open_set b xs \<union> open_set b ys"
  by (auto simp: open_set_def)

lemma draw_db_spec:
  assumes live: "conns_live (ms_db st) (b_server_list (ms_db st))" and fair: "fair e st"
    and range: "lo \<le> hi" "hi \<le> length (b_server_list (ms_db st))"
  shows "\<exists>d. draw_db e lo hi st = Inr (d, st\<lparr>ms_rand_calls := Suc (ms_rand_calls st)\<rparr>)
    \<and> (case d of None \<Rightarrow> open_set (ms_db st) (drop lo (take hi (b_server_list (ms_db st)))) = {}
       | Some a \<Rightarrow> a \<in> open_set (ms_db st) (drop lo (take hi (b_server_list (ms_db st)))))"
proof -
  let ?ss = "drop lo (take hi (b_server_list (ms_db st)))" and ?rs = "e_draws e (ms_rand_calls st)"
  have "\<exists>r\<in>set ?rs. \<exists>a. si_serv_conn (?ss ! (r mod length ?ss)) = Some a \<and> is_open (ms_db st) a" if "open_set (ms_db st) ?ss \<noteq> {}"
    using that fair fair_draw [of e st _ "ms_db st" ?ss] by auto
  with conn_in_range_spec [OF live range, where rands = ?rs] show ?thesis
    by (cases "get_db_server_conn_in_range ?rs lo hi (ms_db st)") (auto simp: draw_db_def split: loop_result.splits option.splits)
qed

definition db_choice :: "msg_server \<Rightarrow> nat option \<Rightarrow> bool" where
  "db_choice st d \<longleftrightarrow> (case d of None \<Rightarrow> open_set (ms_db st) (b_server_list (ms_db st)) = {}
     | Some a \<Rightarrow> a \<in> open_set (ms_db st) (b_server_list (ms_db st)))"

lemma open_set_split: "lo \<le> length ss \<Longrightarrow> open_set b ss = open_set b (take lo ss) \<union> open_set b (drop lo ss)"
  by (metis append_take_drop_id open_set_un)

lemma get_db_spec:
  assumes "conns_live (ms_db st) (b_server_list (ms_db st))" "fair e st" "g_db_server_login_count st \<le> length (b_server_list (ms_db st))"
  shows "\<exists>d n. get_db_serv_conn e st = Inr (d, st\<lparr>ms_rand_calls := n\<rparr>) \<and> db_choice st d"
    and "\<exists>d n. get_db_serv_conn_for_login e st = Inr (d, st\<lparr>ms_rand_calls := n\<rparr>) \<and> db_choice st d"
proof -
  let ?n = "g_db_server_login_count st" and ?ss = "b_server_list (ms_db st)"
  let ?st1 = "st\<lparr>ms_rand_calls := Suc (ms_rand_calls st)\<rparr>"
  have "conns_live (ms_db ?st1) (b_server_list (ms_db ?st1))" "fair e ?st1" using assms(1,2) by (simp_all add: fair_def)
  note second = draw_db_spec [OF this] and first = draw_db_spec [OF assms(1,2)]
  note all = open_set_split [OF assms(3), of "ms_db st"]
  obtain d1 where d1: "draw_db e ?n (length ?ss) st = Inr (d1, ?st1)"
    "case d1 of None \<Rightarrow> open_set (ms_db st) (drop ?n ?ss) = {} | Some a \<Rightarrow> a \<in> open_set (ms_db st) (drop ?n ?ss)"
    using first [of ?n "length ?ss"] assms(3) by (auto cong: option.case_cong)
  obtain d2 where d2: "draw_db e 0 ?n ?st1 = Inr (d2, ?st1\<lparr>ms_rand_calls := Suc (Suc (ms_rand_calls st))\<rparr>)"
    "case d2 of None \<Rightarrow> open_set (ms_db st) (take ?n ?ss) = {} | Some a \<Rightarrow> a \<in> open_set (ms_db st) (take ?n ?ss)"
    using second [of 0 ?n] assms(3) by (auto cong: option.case_cong)
  show "\<exists>d n. get_db_serv_conn e st = Inr (d, st\<lparr>ms_rand_calls := n\<rparr>) \<and> db_choice st d"
  proof (cases d1)
    case None
    then have "get_db_serv_conn e st = Inr (d2, st\<lparr>ms_rand_calls := Suc (Suc (ms_rand_calls st))\<rparr>)" using d1(1) d2(1) by (simp add: get_db_serv_conn_def)
    moreover have "db_choice st d2" using d1(2) d2(2) all None by (cases d2) (auto simp: db_choice_def)
    ultimately show ?thesis by blast
  next
    case (Some a)
    then have "get_db_serv_conn e st = Inr (d1, ?st1)" using d1(1) by (simp add: get_db_serv_conn_def)
    moreover have "db_choice st d1" using d1(2) all Some by (simp add: db_choice_def)
    ultimately show ?thesis by blast
  qed
  obtain d3 where d3: "draw_db e 0 ?n st = Inr (d3, ?st1)"
    "case d3 of None \<Rightarrow> open_set (ms_db st) (take ?n ?ss) = {} | Some a \<Rightarrow> a \<in> open_set (ms_db st) (take ?n ?ss)"
    using first [of 0 ?n] assms(3) by (auto cong: option.case_cong)
  obtain d4 where d4: "draw_db e ?n (length ?ss) ?st1 = Inr (d4, ?st1\<lparr>ms_rand_calls := Suc (Suc (ms_rand_calls st))\<rparr>)"
    "case d4 of None \<Rightarrow> open_set (ms_db st) (drop ?n ?ss) = {} | Some a \<Rightarrow> a \<in> open_set (ms_db st) (drop ?n ?ss)"
    using second [of ?n "length ?ss"] assms(3) by (auto cong: option.case_cong)
  show "\<exists>d n. get_db_serv_conn_for_login e st = Inr (d, st\<lparr>ms_rand_calls := n\<rparr>) \<and> db_choice st d"
  proof (cases d3)
    case None
    then have "get_db_serv_conn_for_login e st = Inr (d4, st\<lparr>ms_rand_calls := Suc (Suc (ms_rand_calls st))\<rparr>)"
      using d3(1) d4(1) by (simp add: get_db_serv_conn_for_login_def)
    moreover have "db_choice st d4" using d3(2) d4(2) all None by (cases d4) (auto simp: db_choice_def)
    ultimately show ?thesis by blast
  next
    case (Some a)
    then have "get_db_serv_conn_for_login e st = Inr (d3, ?st1)" using d3(1) by (simp add: get_db_serv_conn_for_login_def)
    moreover have "db_choice st d3" using d3(2) all Some by (simp add: db_choice_def)
    ultimately show ?thesis by blast
  qed
qed

lemma reachable_db:
  assumes "msg_reachable idof st"
  shows "conns_live (ms_db st) (b_server_list (ms_db st))" "g_db_server_login_count st \<le> length (b_server_list (ms_db st))"
proof -
  have "backs (\<lambda>p. (idle, b_conn_map (bk p st))) st" using reachable_inv [OF assms] by (simp add: msg_inv_def)
  then show "conns_live (ms_db st) (b_server_list (ms_db st))" "g_db_server_login_count st \<le> length (b_server_list (ms_db st))"
    using bk_inv_live [of idle "ms_db st"] by (auto simp: backs_def bk_live_def dest: spec [of _ Db])
qed

text \<open>
  C38: The search for a database connection ends. The loop of \<open>get_db_server_conn_in_range\<close> draws slots at random until it finds an open connection; when
  the draws reach every slot, both searches return, with an open connection of the list whenever there is one, and with none only
  when none is open. They change nothing but the state of the random numbers.
\<close>

theorem db_search_ends:
  assumes "msg_reachable idof st" "fair e st"
  shows "(\<exists>d n. get_db_serv_conn e st = Inr (d, st\<lparr>ms_rand_calls := n\<rparr>) \<and> db_choice st d)
    \<and> (\<exists>d n. get_db_serv_conn_for_login e st = Inr (d, st\<lparr>ms_rand_calls := n\<rparr>) \<and> db_choice st d)"
  using get_db_spec [OF reachable_db(1) [OF assms(1)] assms(2) reachable_db(2) [OF assms(1)]] by blast

theorem db_search_ends_witness:
  "\<exists>d n. get_db_serv_conn demo_env demo_online = Inr (d, demo_online\<lparr>ms_rand_calls := n\<rparr>) \<and> db_choice demo_online d"
  using db_search_ends [OF demo_online_reachable demo_online_fair] by blast

section \<open>Messages of clients\<close>

lemma if_db_send:
  assumes "msg_reachable idof st" "fair e st" and st1: "ms_db st1 = ms_db st" "g_db_server_login_count st1 = g_db_server_login_count st"
  shows "\<exists>st'. if_db e (\<lambda>d. to_db e d data) st1 = Inr st' \<and> ms_conns st' = ms_conns st1 \<and>
    (\<exists>out. ms_trace st' = ms_trace st1 @ out \<and>
      (if open_set (ms_db st) (b_server_list (ms_db st)) = {} then out = []
       else \<exists>d\<in>open_set (ms_db st) (b_server_list (ms_db st)). \<exists>cd. deref d (b_heap (ms_db st)) = Inr cd \<and> out = [NetSend (sv_handle cd) data]))"
proof -
  have "conns_live (ms_db st1) (b_server_list (ms_db st1))" "fair e st1" "g_db_server_login_count st1 \<le> length (b_server_list (ms_db st1))"
    using assms(2) reachable_db [OF assms(1)] st1 by (simp_all add: fair_def)
  from get_db_spec(1) [OF this] obtain d n where d: "get_db_serv_conn e st1 = Inr (d, st1\<lparr>ms_rand_calls := n\<rparr>)" "db_choice st1 d" by blast
  show ?thesis
  proof (cases d)
    case None
    then show ?thesis using d st1 by (simp add: with_conn_def db_choice_def)
  next
    case (Some a)
    then have a: "a \<in> open_set (ms_db st) (b_server_list (ms_db st))" using d(2) st1 by (simp add: db_choice_def)
    then obtain cd where "deref a (b_heap (ms_db st)) = Inr cd" by (auto simp: open_set_def is_open_def)
    then show ?thesis using d(1) Some a st1 by (auto simp: with_conn_def to_db_def on_db_def serv_SendPdu_def)
  qed
qed

text \<open>
  C30: Messages. A message that a client sends is dropped without effect when it is empty, when the client has already sent 20 messages since the last tick
  of the timer, or when it addresses its own sender; otherwise it is counted, and it goes to exactly one open database connection (to none only when none is open), with the
  authenticated user id of the connection as the sender, whatever the client wrote there, and the time of the server.
\<close>

theorem message_forwarded_as_sender:
  assumes "msg_reachable idof st" "fair e st" "deref a (ms_conns st) = Inr c" "16 \<le> length img"
    and "pb_par (pb_MsgData (e_message e)) (drop 16 img) = (True, msg)"
  shows "\<exists>st'. HandleClientMsgData e a hdr img st = Inr st' \<and>
    (if md_msg_data msg = [] \<or> 20 \<le> mc_msg_cnt_per_sec c \<or> md_from_user_id msg = md_to_session_id msg \<and> CHECK_MSG_TYPE_SINGLE (md_msg_type msg)
     then st' = st
     else deref a (ms_conns st') = Inr (c\<lparr>mc_msg_cnt_per_sec := mc_msg_cnt_per_sec c + 1\<rparr>) \<and>
       (\<exists>out. ms_trace st' = ms_trace st @ out \<and>
         (if open_set (ms_db st) (b_server_list (ms_db st)) = {} then out = []
          else \<exists>d\<in>open_set (ms_db st) (b_server_list (ms_db st)). \<exists>cd. deref d (b_heap (ms_db st)) = Inr cd \<and>
            out = [NetSend (sv_handle cd) (rebuilt hdr (pb_ser (pb_MsgData (e_message e))
              (msg\<lparr>md_from_user_id := mc_user_id c, md_create_time := e_time e,
                   md_attach_data := Some (enc32 ATTACH_TYPE_HANDLE @ enc32 (mc_handle c) @ enc32 0)\<rparr>)))])))"
proof -
  let ?c = "c\<lparr>mc_msg_cnt_per_sec := mc_msg_cnt_per_sec c + 1\<rparr>"
  let ?st = "st\<lparr>ms_conns := set_obj a ?c (ms_conns st)\<rparr>"
  have body: "body_of img = Inr (drop 16 img)" using assms(4) by (simp add: body_of_def)
  let ?data = "rebuilt hdr (pb_ser (pb_MsgData (e_message e)) (msg\<lparr>md_from_user_id := mc_user_id c,
      md_create_time := e_time e, md_attach_data := Some (enc32 ATTACH_TYPE_HANDLE @ enc32 (mc_handle c) @ enc32 0)\<rparr>))"
  have "ms_db ?st = ms_db st" "g_db_server_login_count ?st = g_db_server_login_count st" by simp_all
  from if_db_send [OF assms(1,2) this, of ?data] obtain st' where "if_db e (\<lambda>d. to_db e d ?data) ?st = Inr st'" "ms_conns st' = ms_conns ?st"
    "\<exists>out. ms_trace st' = ms_trace ?st @ out \<and>
      (if open_set (ms_db st) (b_server_list (ms_db st)) = {} then out = []
       else \<exists>d\<in>open_set (ms_db st) (b_server_list (ms_db st)). \<exists>cd. deref d (b_heap (ms_db st)) = Inr cd \<and> out = [NetSend (sv_handle cd) ?data])"
    by blast
  moreover have "live a (ms_conns st)" using assms(3) by (rule deref_live)
  ultimately show ?thesis using assms(3,5) body
    by (auto simp: HandleClientMsgData_def parsed_def on_conn_def deref_set_obj)
qed

theorem message_forwarded_as_sender_witness:
  "\<exists>st d cd. HandleClientMsgData demo_env 0 (parse_header []) (replicate 16 0 @ [9, 2, 0, 77, 0]) demo_online = Inr st
    \<and> deref d (b_heap (ms_db demo_online)) = Inr cd
    \<and> ms_trace st = ms_trace demo_online @ [NetSend (sv_handle cd) (rebuilt (parse_header []) [1, 2, 0, 77])]"
proof -
  let ?img = "replicate 16 0 @ [9, 2, 0, 77, 0] :: bytes"
  obtain msg where msg: "pb_par (pb_MsgData (e_message demo_env)) (drop 16 ?img) = (True, msg)" "md_from_user_id msg = 9" "md_to_session_id msg = 2"
    "md_msg_id msg = 0" "md_msg_data msg = [77]" by (simp add: demo_env_def)
  have "case deref 0 (ms_conns demo_online) of Inl _ \<Rightarrow> False | Inr c \<Rightarrow> mc_user_id c = 1 \<and> mc_msg_cnt_per_sec c = 0" by code_simp
  then obtain c where c: "deref 0 (ms_conns demo_online) = Inr c" "mc_user_id c = 1" "mc_msg_cnt_per_sec c = 0" by (auto split: sum.splits)
  have "list_ex (\<lambda>s. case si_serv_conn s of None \<Rightarrow> False | Some a \<Rightarrow> (case deref a (b_heap (ms_db demo_online)) of Inl _ \<Rightarrow> False | Inr cd \<Rightarrow> sv_open cd))
      (b_server_list (ms_db demo_online))" by code_simp
  then have "open_set (ms_db demo_online) (b_server_list (ms_db demo_online)) \<noteq> {}"
    unfolding list_ex_iff by (fastforce simp: open_set_def is_open_def split: option.split_asm sum.split_asm)
  moreover have "pb_ser (pb_MsgData (e_message demo_env)) (msg\<lparr>md_from_user_id := 1, md_create_time := t, md_attach_data := x\<rparr>) = [1, 2, 0, 77]" for t x
    using msg(3-5) by (simp add: demo_env_def)
  ultimately show ?thesis
    using message_forwarded_as_sender [OF demo_online_reachable demo_online_fair c(1) _ msg(1), of "parse_header []"] msg(2,3,5) c(2,3)
    by (auto simp del: ex_simps) blast
qed

section \<open>Broadcasts\<close>

text \<open>The connections of a user, under their handles.\<close>

lemma user_conns:
  assumes "msg_reachable idof st" "deref u (ms_users st) = Inr x"
  shows "distinct (map fst (iu_conn_map x))"
    and "p \<in> set (iu_conn_map x) \<Longrightarrow> \<exists>c. deref (snd p) (ms_conns st) = Inr c \<and> mc_handle c = fst p \<and> mc_open c \<and> mc_user_id c = iu_user_id x"
proof -
  have om: "om_ok (iu_conn_map x)" and inv: "reg_inv idof (registry_of st)" using reachable_inv [OF assms(1)] assms(2) by (auto simp: msg_inv_def boxes_def)
  then show "distinct (map fst (iu_conn_map x))" by (simp add: om_ok_def strict_sorted_iff)
  moreover assume "p \<in> set (iu_conn_map x)"
  ultimately have p: "pe_conns (user_view x) (fst p) = Some (snd p)" by (simp add: user_view_def)
  have "rg_user (registry_of st) u = Some (user_view x)" using assms(2) by (simp add: view_def)
  then have "Registry.user_ok idof (registry_of st) u (user_view x)" by (rule reg_invD(2) [OF inv])
  then have "rg_handles (registry_of st) (fst p) = Some (snd p)" "\<exists>c. rg_conn (registry_of st) (snd p) = Some c \<and> ci_open c \<and> ci_uid c = pe_id (user_view x)"
    using p unfolding Registry.user_ok_def by blast+
  moreover from this(1) have "\<exists>c. rg_conn (registry_of st) (snd p) = Some c \<and> ci_handle c = fst p"
    using reg_invD(1) [OF inv] by (fastforce simp: conn_ok_def)
  ultimately show "\<exists>c. deref (snd p) (ms_conns st) = Inr c \<and> mc_handle c = fst p \<and> mc_open c \<and> mc_user_id c = iu_user_id x"
    by (auto elim!: view_SomeE simp: conn_view_def user_view_def)
qed

definition client_type_at :: "msg_server \<Rightarrow> nat \<Rightarrow> u32" where
  "client_type_at st a = (case deref a (ms_conns st) of Inl _ \<Rightarrow> 0 | Inr c \<Rightarrow> mc_client_type c)"

lemma broadcast_conns_trace:
  assumes "\<forall>p\<in>set ps. \<exists>c. deref (snd p) (ms_conns st) = Inr c \<and> mc_handle c = fst p"
  shows "\<exists>st'. broadcast_conns e (\<lambda>c. sel (mc_client_type c)) (\<lambda>_. Inr) data frm ps st = Inr st'
    \<and> ms_trace st' = ms_trace st @ [NetSend h data. (h, a) \<leftarrow> ps, frm \<noteq> Some a \<and> sel (client_type_at st a)]"
  using assms
proof (induction ps arbitrary: st)
  case (Cons p ps)
  obtain h a where p: "p = (h, a)" by fastforce
  obtain c where c: "deref a (ms_conns st) = Inr c" "mc_handle c = h" using Cons.prems p by auto
  show ?case
  proof (cases "frm \<noteq> Some a \<and> sel (mc_client_type c)")
    case True
    let ?st = "st\<lparr>ms_conns := set_obj a (c\<lparr>mc_last_send_tick := e_now e\<rparr>) (ms_conns st), ms_trace := ms_trace st @ [NetSend h data]\<rparr>"
    have same: "client_type_at ?st = client_type_at st" using c deref_live [OF c(1)] by (auto simp: client_type_at_def deref_set_obj fun_eq_iff)
    have "\<forall>p\<in>set ps. \<exists>c. deref (snd p) (ms_conns ?st) = Inr c \<and> mc_handle c = fst p"
      using Cons.prems c deref_live [OF c(1)] by (auto simp: deref_set_obj)
    from Cons.IH [OF this] show ?thesis using True c p same by (simp add: to_client_def client_type_at_def)
  next
    case False
    have "\<forall>p\<in>set ps. \<exists>c. deref (snd p) (ms_conns st) = Inr c \<and> mc_handle c = fst p" using Cons.prems by simp
    from Cons.IH [OF this] show ?thesis using False c p by (auto simp: client_type_at_def)
  qed
qed simp

text \<open>
  C31: Broadcasts. A PDU for a user is sent exactly once to each of the user's authenticated connections other than the one it came from, and to
  no other connection, in the order of the handles; the variants for desktop and mobile clients send to those of the kind.
\<close>

theorem broadcast_reaches_user:
  assumes "msg_reachable idof st" "deref u (ms_users st) = Inr x"
  shows "distinct (map fst (iu_conn_map x))
    \<and> (\<forall>p\<in>set (iu_conn_map x). map_of (g_msg_conn_map st) (fst p) = Some (snd p))
    \<and> (\<exists>st'. BroadcastPdu e u data frm st = Inr st' \<and> ms_trace st' = ms_trace st @ [NetSend h data. (h, a) \<leftarrow> iu_conn_map x, frm \<noteq> Some a])
    \<and> (\<exists>st'. BroadcastPduWithOutMobile e u data frm st = Inr st'
        \<and> ms_trace st' = ms_trace st @ [NetSend h data. (h, a) \<leftarrow> iu_conn_map x, frm \<noteq> Some a \<and> CHECK_CLIENT_TYPE_PC (client_type_at st a)])
    \<and> (\<exists>st'. BroadcastPduToMobile e u data frm st = Inr st'
        \<and> ms_trace st' = ms_trace st @ [NetSend h data. (h, a) \<leftarrow> iu_conn_map x, frm \<noteq> Some a \<and> CHECK_CLIENT_TYPE_MOBILE (client_type_at st a)])"
proof -
  have "\<forall>p\<in>set (iu_conn_map x). \<exists>c. deref (snd p) (ms_conns st) = Inr c \<and> mc_handle c = fst p" using user_conns(2) [OF assms] by blast
  note run = broadcast_conns_trace [OF this]
  have inv: "reg_inv idof (registry_of st)" using reachable_reg_inv [OF assms(1)] .
  have "rg_user (registry_of st) u = Some (user_view x)" using assms(2) by (simp add: view_def)
  then have "Registry.user_ok idof (registry_of st) u (user_view x)" by (rule reg_invD(2) [OF inv])
  then have "\<forall>p\<in>set (iu_conn_map x). map_of (g_msg_conn_map st) (fst p) = Some (snd p)"
    using user_conns(1) [OF assms] by (auto simp: Registry.user_ok_def user_view_def)
  then show ?thesis
    using user_conns(1) [OF assms] run [where sel = "\<lambda>_. True"] run [where sel = CHECK_CLIENT_TYPE_PC] run [where sel = CHECK_CLIENT_TYPE_MOBILE] assms(2)
    by (simp add: BroadcastPdu_def BroadcastPduWithOutMobile_def BroadcastPduToMobile_def broadcast_def)
qed

theorem broadcast_reaches_user_witness:
  "\<exists>st. BroadcastPdu demo_env 0 [1, 2] None demo_online = Inr st \<and> ms_trace st = ms_trace demo_online @ [NetSend 5 [1, 2]]"
proof -
  have "case deref 0 (ms_users demo_online) of Inl _ \<Rightarrow> False | Inr x \<Rightarrow> iu_conn_map x = [(5, 0)]" by code_simp
  then obtain x where "deref 0 (ms_users demo_online) = Inr x" "iu_conn_map x = [(5, 0)]" by (auto split: sum.splits)
  then show ?thesis using broadcast_reaches_user [OF demo_online_reachable, of 0 x demo_env "[1, 2]" None] by auto
qed

section \<open>Messages without an acknowledgement\<close>

text \<open>
  The loop of the timer over the messages that wait for an acknowledgement stops at the first one that has not expired. The list is in the order of the
  clock, so this removes and counts exactly the expired messages, provided the clock is not within 15 seconds of its end.
\<close>

theorem expire_acks_filter:
  assumes "sorted (map ak_timestamp ms)" "\<forall>m\<in>set ms. unat (ak_timestamp m) + 15000 < 2 ^ 64"
  shows "expire_acks t ms = (length (filter (\<lambda>m. ak_timestamp m + 15000 \<le> t) ms), filter (\<lambda>m. t < ak_timestamp m + 15000) ms)"
  using assms
proof (induction ms)
  case (Cons m ms)
  have "ak_timestamp m + 15000 \<le> ak_timestamp n + 15000" if "n \<in> set ms" for n
  proof -
    have "unat (ak_timestamp m) \<le> unat (ak_timestamp n)" using Cons.prems(1) that by (simp add: word_le_nat_alt)
    moreover have "unat (ak_timestamp k + 15000) = unat (ak_timestamp k) + 15000" if "k \<in> {m, n}" for k
      using Cons.prems(2) that \<open>n \<in> set ms\<close> by (subst unat_add_lem [THEN iffD1]) auto
    ultimately show ?thesis by (simp add: word_le_nat_alt)
  qed
  then have "filter (\<lambda>m. t < ak_timestamp m + 15000) ms = ms \<and> filter (\<lambda>m. ak_timestamp m + 15000 \<le> t) ms = []" if "t < ak_timestamp m + 15000"
    using that by (fastforce simp: filter_empty_conv filter_id_conv)
  then show ?case using Cons by (auto simp: not_le)
qed simp

theorem expire_acks_filter_witness:
  "expire_acks 20000 [\<lparr>ak_msg_id = 1, ak_from_id = 2, ak_timestamp = 1000\<rparr>, \<lparr>ak_msg_id = 2, ak_from_id = 2, ak_timestamp = 9000\<rparr>]
    = (1, [\<lparr>ak_msg_id = 2, ak_from_id = 2, ak_timestamp = 9000\<rparr>])"
  using expire_acks_filter [of "[\<lparr>ak_msg_id = 1, ak_from_id = 2, ak_timestamp = 1000\<rparr>, \<lparr>ak_msg_id = 2, ak_from_id = 2, ak_timestamp = 9000\<rparr>]" 20000]
  by simp

section \<open>The master among the route connections\<close>

lemma oldest_open_min:
  assumes "conns_live b ss" "\<forall>a. best = Some a \<longrightarrow> (\<exists>c. deref a (b_heap b) = Inr c \<and> sv_connect_time c = t)" "best = None \<longrightarrow> t = - 1"
  shows "\<exists>m. oldest_open b ss best t = Inr m \<and> (\<forall>a. m = Some a \<longrightarrow> (best = Some a \<or> a \<in> open_set b ss) \<and> (\<exists>c. deref a (b_heap b) = Inr c \<and> sv_connect_time c \<le> t
      \<and> (\<forall>d cd. d \<in> open_set b ss \<longrightarrow> deref d (b_heap b) = Inr cd \<longrightarrow> sv_connect_time c \<le> sv_connect_time cd)))
    \<and> (m = None \<longrightarrow> best = None \<and> (\<forall>d cd. d \<in> open_set b ss \<longrightarrow> deref d (b_heap b) = Inr cd \<longrightarrow> sv_connect_time cd = - 1))"
  using assms
proof (induction ss arbitrary: best t)
  case Nil
  then show ?case by (auto simp: open_set_def)
next
  case (Cons s ss)
  have live: "conns_live b ss" using Cons.prems(1) by simp
  have os: "open_set b (s # ss) = (case si_serv_conn s of Some a \<Rightarrow> if is_open b a then insert a (open_set b ss) else open_set b ss | None \<Rightarrow> open_set b ss)"
    by (auto simp: open_set_def split: option.split)
  show ?case
  proof (cases "\<exists>a. si_serv_conn s = Some a \<and> is_open b a")
    case False
    then have "oldest_open b (s # ss) best t = oldest_open b ss best t" "open_set b (s # ss) = open_set b ss"
      using Cons.prems(1) os by (auto simp: open_conn_spec split: option.split)
    then show ?thesis using Cons.IH [OF live Cons.prems(2,3)] by simp
  next
    case True
    then obtain a c where a: "si_serv_conn s = Some a" "is_open b a" "deref a (b_heap b) = Inr c" by (auto simp: is_open_def)
    have os': "open_set b (s # ss) = insert a (open_set b ss)" using os a by simp
    show ?thesis
    proof (cases "sv_connect_time c < t")
      case less: True
      then have run: "oldest_open b (s # ss) best t = oldest_open b ss (Some a) (sv_connect_time c)"
        using Cons.prems(1) a by (simp add: open_conn_spec)
      from Cons.IH [OF live, of "Some a" "sv_connect_time c"] obtain m where m: "oldest_open b ss (Some a) (sv_connect_time c) = Inr (Some m)"
        "Some a = Some m \<or> m \<in> open_set b ss" "\<exists>cm. deref m (b_heap b) = Inr cm \<and> sv_connect_time cm \<le> sv_connect_time c
          \<and> (\<forall>d cd. d \<in> open_set b ss \<longrightarrow> deref d (b_heap b) = Inr cd \<longrightarrow> sv_connect_time cm \<le> sv_connect_time cd)" using a(3) by auto
      then show ?thesis unfolding run os' using less a(3) by auto
    next
      case ge: False
      then have run: "oldest_open b (s # ss) best t = oldest_open b ss best t" using Cons.prems(1) a by (simp add: open_conn_spec)
      from Cons.IH [OF live Cons.prems(2,3)] obtain m where m: "oldest_open b ss best t = Inr m"
        "\<forall>a. m = Some a \<longrightarrow> (best = Some a \<or> a \<in> open_set b ss) \<and> (\<exists>c. deref a (b_heap b) = Inr c \<and> sv_connect_time c \<le> t
          \<and> (\<forall>d cd. d \<in> open_set b ss \<longrightarrow> deref d (b_heap b) = Inr cd \<longrightarrow> sv_connect_time c \<le> sv_connect_time cd))"
        "m = None \<longrightarrow> best = None \<and> (\<forall>d cd. d \<in> open_set b ss \<longrightarrow> deref d (b_heap b) = Inr cd \<longrightarrow> sv_connect_time cd = - 1)" by blast
      have tc: "t \<le> sv_connect_time c" using ge by simp
      have none: "sv_connect_time c = - 1" if "m = None"
        using that m(3) Cons.prems(3) tc by (metis word_order.extremum_unique)
      show ?thesis unfolding run os' using m a(3) tc none by (cases m) (fastforce intro: order_trans)+
    qed
  qed
qed

text \<open>
  The master. \<open>update_master_route_serv_conn\<close> makes the open route connection that was connected first the master; when it finds none, no route connection
  is open (a connection time of \<open>2 ^ 64 - 1\<close> aside).
\<close>

theorem master_is_oldest:
  assumes "msg_reachable idof st" "fair e st"
  shows "\<exists>st'. update_master_route_serv_conn e st = Inr st' \<and> (case g_master_rs_conn st' of
      None \<Rightarrow> \<forall>d cd. d \<in> open_set (ms_route st) (b_server_list (ms_route st)) \<longrightarrow> deref d (b_heap (ms_route st)) = Inr cd \<longrightarrow> sv_connect_time cd = - 1
    | Some a \<Rightarrow> a \<in> open_set (ms_route st) (b_server_list (ms_route st)) \<and> (\<exists>c. deref a (b_heap (ms_route st)) = Inr c
        \<and> (\<forall>d cd. d \<in> open_set (ms_route st) (b_server_list (ms_route st)) \<longrightarrow> deref d (b_heap (ms_route st)) = Inr cd
          \<longrightarrow> sv_connect_time c \<le> sv_connect_time cd)))"
proof -
  let ?b = "ms_route st"
  have "backs (\<lambda>p. (idle, b_conn_map (bk p st))) st" using reachable_inv [OF assms(1)] by (simp add: msg_inv_def)
  then have live: "conns_live ?b (b_server_list ?b)" using bk_inv_live [of idle ?b] by (auto simp: backs_def bk_live_def dest: spec [of _ Route])
  obtain m where m: "oldest_open ?b (b_server_list ?b) None (- 1) = Inr m"
    "\<forall>a. m = Some a \<longrightarrow> a \<in> open_set ?b (b_server_list ?b) \<and> (\<exists>c. deref a (b_heap ?b) = Inr c \<and>
        (\<forall>d cd. d \<in> open_set ?b (b_server_list ?b) \<longrightarrow> deref d (b_heap ?b) = Inr cd \<longrightarrow> sv_connect_time c \<le> sv_connect_time cd))"
    "m = None \<longrightarrow> (\<forall>d cd. d \<in> open_set ?b (b_server_list ?b) \<longrightarrow> deref d (b_heap ?b) = Inr cd \<longrightarrow> sv_connect_time cd = - 1)"
    using oldest_open_min [OF live, of None "- 1"] by auto
  have send: "\<exists>st'. if_route e data (st\<lparr>g_master_rs_conn := m\<rparr>) = Inr st' \<and> g_master_rs_conn st' = m" for data
  proof (cases m)
    case (Some a)
    then obtain c where "deref a (b_heap ?b) = Inr c" using m(2) by blast
    then show ?thesis using Some by (simp add: if_route_def get_route_serv_conn_def to_route_def on_route_def serv_SendPdu_def)
  qed (simp add: if_route_def get_route_serv_conn_def)
  then obtain st' where "update_master_route_serv_conn e st = Inr st'" "g_master_rs_conn st' = m"
    using m(1) by (auto simp: update_master_route_serv_conn_def Let_def)
  then show ?thesis using m(2,3) by (intro exI [of _ st']) (simp split: option.split)
qed

theorem master_is_oldest_witness:
  "\<exists>st. update_master_route_serv_conn demo_env demo_online = Inr st \<and> g_master_rs_conn st \<noteq> None"
proof -
  have "list_ex (\<lambda>s. case si_serv_conn s of None \<Rightarrow> False | Some a \<Rightarrow> (case deref a (b_heap (ms_route demo_online)) of Inl _ \<Rightarrow> False
      | Inr cd \<Rightarrow> sv_open cd \<and> sv_connect_time cd \<noteq> - 1)) (b_server_list (ms_route demo_online))" by code_simp
  then obtain d cd where "d \<in> open_set (ms_route demo_online) (b_server_list (ms_route demo_online))"
    "deref d (b_heap (ms_route demo_online)) = Inr cd" "sv_connect_time cd \<noteq> - 1"
    unfolding list_ex_iff by (fastforce simp: open_set_def is_open_def split: option.split_asm sum.split_asm)
  then show ?thesis using master_is_oldest [OF demo_online_reachable demo_online_fair] by (fastforce split: option.splits)
qed

section \<open>Where well-behaved clients are needed\<close>

text \<open>
  A logout frees the connection, and the loop over the PDUs of one read goes on with it: two logouts in one read (or any PDU after a logout) make the server
  use a freed connection. A single client can do this.
\<close>

theorem double_logout_faults:
  "msg_reachable demo_id demo_online \<and> msg_step demo_env (ClientMsg NETLIB_MSG_READ 5 [demo_frame CID_LOGIN_REQ_LOGINOUT [],
     demo_frame CID_LOGIN_REQ_LOGINOUT []] False) demo_online = Inl MemFault"
proof
  show "msg_reachable demo_id demo_online" by (rule demo_online_reachable)
  have "case msg_step demo_env (ClientMsg NETLIB_MSG_READ 5 [demo_frame CID_LOGIN_REQ_LOGINOUT [],
     demo_frame CID_LOGIN_REQ_LOGINOUT []] False) demo_online of Inl x \<Rightarrow> x = MemFault | Inr _ \<Rightarrow> False" by code_simp
  then show "msg_step demo_env (ClientMsg NETLIB_MSG_READ 5 [demo_frame CID_LOGIN_REQ_LOGINOUT [],
     demo_frame CID_LOGIN_REQ_LOGINOUT []] False) demo_online = Inl MemFault" by (auto split: sum.splits)
qed

end
