(* ===== verification/FileDisk.thy ===== *)
theory FileDisk
  imports ServerBase
begin

text \<open>
  What the file server uses of the C library: strings that end at a NUL, \<open>atoi\<close> and files that are opened for reading or in the mode
  \<open>ab+\<close>, read, written at their end, removed and closed. A directory maps paths to files, so a file that is removed while it is open lives on.
\<close>

section \<open>Strings\<close>

definition NUL :: char where "NUL = CHR 0x00"

text \<open>The string a \<open>char*\<close> points to: up to the first NUL.\<close>

definition c_str :: "string \<Rightarrow> string" where
  "c_str s = takeWhile (\<lambda>c. c \<noteq> NUL) s"

definition is_digit :: "char \<Rightarrow> bool" where
  "is_digit c \<longleftrightarrow> 48 \<le> (of_char c :: nat) \<and> (of_char c :: nat) \<le> 57"

definition digits_value :: "string \<Rightarrow> nat" where
  "digits_value s = foldl (\<lambda>n c. 10 * n + (of_char c - 48)) 0 s"

definition is_space :: "char \<Rightarrow> bool" where
  "is_space c \<longleftrightarrow> (of_char c :: nat) = 32 \<or> 9 \<le> (of_char c :: nat) \<and> (of_char c :: nat) \<le> 13"

text \<open>\<open>(uint32_t)atoi(s)\<close>: white space, a sign, digits; the value is a \<open>long\<close> of 64 bits that is cut to 32.\<close>

definition string2int :: "string \<Rightarrow> u32" where
  "string2int s =
     (let s1 = dropWhile is_space s;
          neg = (s1 \<noteq> [] \<and> hd s1 = CHR ''-'');
          s2 = (if s1 \<noteq> [] \<and> hd s1 \<in> set ''+-'' then tl s1 else s1);
          v = int (digits_value (takeWhile is_digit s2))
      in of_int (if neg then max (- v) (- (2 ^ 63)) else min v (2 ^ 63 - 1)))"

section \<open>Files\<close>

record disk =
  dk_names :: "(string, nat) assoc"
  dk_files :: "(nat, bytes) assoc"
  dk_next :: nat

definition empty_disk :: disk where
  "empty_disk = \<lparr>dk_names = [], dk_files = [], dk_next = 0\<rparr>"

text \<open>An open file: which one, and where the next read starts.\<close>

record file_handle =
  fh_file :: nat
  fh_pos :: nat

definition file_data :: "nat \<Rightarrow> disk \<Rightarrow> bytes" where
  "file_data i dk = (case map_of (dk_files dk) i of None \<Rightarrow> [] | Some d \<Rightarrow> d)"

definition fopen_rb :: "string \<Rightarrow> disk \<Rightarrow> file_handle option" where
  "fopen_rb path dk = map_option (\<lambda>i. \<lparr>fh_file = i, fh_pos = 0\<rparr>) (map_of (dk_names dk) path)"

definition fopen_ab :: "string \<Rightarrow> disk \<Rightarrow> file_handle \<times> disk" where
  "fopen_ab path dk =
     (case map_of (dk_names dk) path of
        Some i \<Rightarrow> (\<lparr>fh_file = i, fh_pos = 0\<rparr>, dk)
      | None \<Rightarrow> (\<lparr>fh_file = dk_next dk, fh_pos = 0\<rparr>, dk\<lparr>dk_names := hm_assign path (dk_next dk) (dk_names dk),
          dk_files := hm_assign (dk_next dk) [] (dk_files dk), dk_next := dk_next dk + 1\<rparr>))"

text \<open>A write in append mode goes to the end of the file.\<close>

definition fappend :: "file_handle \<Rightarrow> bytes \<Rightarrow> disk \<Rightarrow> file_handle \<times> disk" where
  "fappend h data dk =
     (let d = file_data (fh_file h) dk @ data
      in (h\<lparr>fh_pos := length d\<rparr>, dk\<lparr>dk_files := hm_assign (fh_file h) d (dk_files dk)\<rparr>))"

definition fread :: "nat \<Rightarrow> file_handle \<Rightarrow> disk \<Rightarrow> bytes \<times> file_handle" where
  "fread n h dk =
     (let d = take n (drop (fh_pos h) (file_data (fh_file h) dk)) in (d, h\<lparr>fh_pos := fh_pos h + length d\<rparr>))"

definition remove_file :: "string \<Rightarrow> disk \<Rightarrow> disk" where
  "remove_file path dk = dk\<lparr>dk_names := map_erase path (dk_names dk)\<rparr>"

section \<open>Facts about strings\<close>

lemma of_char_char_of_digit: "n < 10 \<Longrightarrow> (of_char (char_of (48 + n) :: char) :: nat) = 48 + n"
  by simp

lemma is_digit_char_of: "(n :: nat) < 10 \<Longrightarrow> is_digit (char_of (48 + n))"
  by (simp add: is_digit_def)

lemma decimal_all: "list_all is_digit (decimal n)"
proof (induction n rule: decimal.induct)
  case (1 n)
  then show ?case by (subst decimal.simps) (auto simp: is_digit_char_of)
qed

lemma digits_value_append: "digits_value (xs @ [c]) = 10 * digits_value xs + (of_char c - 48)"
  by (simp add: digits_value_def)

lemma digits_value_decimal: "digits_value (decimal n) = n"
proof (induction n rule: decimal.induct)
  case (1 n)
  then show ?case by (subst decimal.simps) (auto simp: digits_value_append, simp add: digits_value_def)
qed

lemma decimal_ne: "decimal n \<noteq> []"
  by (subst decimal.simps) simp

lemma length_decimal: "n < 10 ^ k \<Longrightarrow> 0 < k \<Longrightarrow> length (decimal n) \<le> k"
proof (induction n arbitrary: k rule: decimal.induct)
  case (1 n)
  show ?case
  proof (cases "n < 10")
    case False
    then obtain j where k: "k = Suc j" "0 < j" using "1.prems" by (cases k; cases "k - 1") auto
    then have "n div 10 < 10 ^ j" using "1.prems" by (simp add: less_mult_imp_div_less)
    then show ?thesis using "1.IH" [OF False _ k(2)] False k(1) by (subst decimal.simps) simp
  qed (use "1.prems" in \<open>subst decimal.simps, simp\<close>)
qed

lemma is_digit_not: "is_digit c \<Longrightarrow> \<not> is_space c \<and> c \<noteq> CHR ''-'' \<and> c \<noteq> CHR ''+'' \<and> c \<noteq> NUL"
  by (auto simp: is_digit_def is_space_def NUL_def)

text \<open>\<open>atoi\<close> undoes \<open>%u\<close>.\<close>

lemma string2int_decimal: "string2int (decimal (unat w)) = (w :: u32)"
proof -
  let ?s = "decimal (unat w)"
  obtain c cs where s: "?s = c # cs" using decimal_ne by (cases ?s) auto
  have all: "list_all is_digit ?s" by (rule decimal_all)
  then have c: "is_digit c" using s by simp
  have "dropWhile is_space ?s = ?s" "hd ?s \<notin> {CHR ''-'', CHR ''+''}" using is_digit_not [OF c] s by simp_all
  moreover have "takeWhile is_digit ?s = ?s" using all by (simp add: list_all_iff)
  then have "digits_value (takeWhile is_digit ?s) = unat w" by (simp add: digits_value_decimal del: takeWhile_eq_all_conv)
  moreover have "uint w < 2 ^ 32" using unsigned_less [of w, where 'a = int] by simp
  ultimately show ?thesis by (simp add: string2int_def Let_def digits_value_decimal min_def)
qed

lemma c_str_digits: "list_all is_digit s \<Longrightarrow> c_str s = s"
  using is_digit_not by (fastforce simp: c_str_def takeWhile_eq_all_conv list_all_iff)

lemma c_str_id: "NUL \<notin> set s \<Longrightarrow> c_str s = s"
  by (auto simp: c_str_def takeWhile_eq_all_conv)

section \<open>Facts about files\<close>

lemma file_data_fappend: "file_data i (snd (fappend h data dk)) = (if i = fh_file h then file_data i dk @ data else file_data i dk)"
  by (simp add: fappend_def Let_def file_data_def map_of_hm_assign)

lemma fappend_simps [simp]:
  "dk_names (snd (fappend h data dk)) = dk_names dk" "fh_file (fst (fappend h data dk)) = fh_file h"
  "dk_next (snd (fappend h data dk)) = dk_next dk"
  by (simp_all add: fappend_def Let_def)

lemma fread_all:
  assumes "fh_pos h + n \<le> length (file_data (fh_file h) dk)"
  shows "fread n h dk = (take n (drop (fh_pos h) (file_data (fh_file h) dk)), h\<lparr>fh_pos := fh_pos h + n\<rparr>)"
  using assms by (simp add: fread_def Let_def min_def)

end
