(* ===== verification/TransferTask.thy ===== *)
theory TransferTask
  imports FileDisk Messages
begin

text \<open>
  The tasks of the file server (\<open>file_server/transfer_task.h\<close>, \<open>transfer_task.cpp\<close>): the header of a stored file, online tasks that pass
  data from the sender to the receiver, and offline tasks that store an upload in segments and serve downloads from it.
\<close>

section \<open>Environment\<close>

text \<open>
  The clock, the directory of the stored files, whether \<open>mkdir\<close> and \<open>fopen\<close> succeed on a path, MD5 of OpenSSL, \<open>sprintf\<close> with a format that
  is not a constant, and what \<open>uuid_generate\<close> returns next; the
  timeout of tasks and the addresses for clients from the configuration (\<open>config_util.h\<close>).
\<close>

record file_env =
  fe_time :: nat
  fe_tick :: u64
  fe_dir :: string
  fe_mkdir :: "string \<Rightarrow> bool"
  fe_fopen :: "string \<Rightarrow> bool"
  fe_md5 :: "bytes \<Rightarrow> bytes"
  fe_sprintf :: "string \<Rightarrow> nat \<Rightarrow> string"
  fe_uuid :: string
  fe_task_timeout :: u32
  fe_peer_addrs :: "(string \<times> u32) list"

abbreviation (input) BUFSIZ :: nat where "BUFSIZ \<equiv> 8192"
abbreviation (input) SEGMENT_SIZE :: u32 where "SEGMENT_SIZE \<equiv> 32768"
abbreviation (input) CLIENT_REALTIME_SENDER :: u32 where "CLIENT_REALTIME_SENDER \<equiv> 1"
abbreviation (input) CLIENT_REALTIME_RECVER :: u32 where "CLIENT_REALTIME_RECVER \<equiv> 2"
abbreviation (input) CLIENT_OFFLINE_UPLOAD :: u32 where "CLIENT_OFFLINE_UPLOAD \<equiv> 3"
abbreviation (input) CLIENT_OFFLINE_DOWNLOAD :: u32 where "CLIENT_OFFLINE_DOWNLOAD \<equiv> 4"
abbreviation (input) CLIENT_OFFLINE_DOWNLOAD_MOBILE :: u32 where "CLIENT_OFFLINE_DOWNLOAD_MOBILE \<equiv> 5"

section \<open>Paths\<close>

definition file_path :: "file_env \<Rightarrow> string \<Rightarrow> string" where
  "file_path e task_id = take (BUFSIZ - 1) (fe_dir e @ ''/'' @ c_str (take 2 task_id) @ ''/'' @ c_str task_id)"

definition OpenByRead :: "file_env \<Rightarrow> string \<Rightarrow> disk \<Rightarrow> file_handle option" where
  "OpenByRead e task_id dk =
     (if length task_id \<ge> 2 \<and> fe_fopen e (file_path e task_id) then fopen_rb (file_path e task_id) dk else None)"

definition OpenByWrite :: "file_env \<Rightarrow> string \<Rightarrow> disk \<Rightarrow> (file_handle option \<times> disk) res" where
  "OpenByWrite e task_id dk =
     (if length task_id < 2 then Inr (None, dk)
      else let dir = take (BUFSIZ - 1) (fe_dir e @ ''/'' @ c_str (take 2 task_id))
           in if \<not> fe_mkdir e dir then Inr (None, dk)
              else let path = dir @ ''/'' @ c_str task_id
                   in if length path \<ge> BUFSIZ then Inl MemFault
                      else if \<not> fe_fopen e path then Inr (None, dk)
                      else let (h, dk1) = fopen_ab path dk in Inr (Some h, dk1))"

section \<open>Tasks\<close>

datatype TransferTaskState =
    kTransferTaskStateInvalid
  | kTransferTaskStateReady
  | kTransferTaskStateWaitingSender
  | kTransferTaskStateWaitingReceiver
  | kTransferTaskStateWaitingTransfer
  | kTransferTaskStateTransfering
  | kTransferTaskStateTransferDone
  | kTransferTaskStateWaitingUpload
  | kTransferTaskStateUploading
  | kTransferTaskStateUploadEnd
  | kTransferTaskStateWaitingDownload
  | kTransferTaskStateDownloading
  | kTransferTaskStateDownloadEnd
  | kTransferTaskStateError

fun state_num :: "TransferTaskState \<Rightarrow> nat" where
  "state_num kTransferTaskStateInvalid = 0"
| "state_num kTransferTaskStateReady = 1"
| "state_num kTransferTaskStateWaitingSender = 2"
| "state_num kTransferTaskStateWaitingReceiver = 3"
| "state_num kTransferTaskStateWaitingTransfer = 4"
| "state_num kTransferTaskStateTransfering = 5"
| "state_num kTransferTaskStateTransferDone = 6"
| "state_num kTransferTaskStateWaitingUpload = 7"
| "state_num kTransferTaskStateUploading = 8"
| "state_num kTransferTaskStateUploadEnd = 9"
| "state_num kTransferTaskStateWaitingDownload = 10"
| "state_num kTransferTaskStateDownloading = 11"
| "state_num kTransferTaskStateDownloadEnd = 12"
| "state_num kTransferTaskStateError = 13"

text \<open>The fields of \<open>OfflineTransferTask\<close>; the indices are \<open>int\<close>s that only grow and are compared for equality.\<close>

record offline_part =
  ot_fp :: "file_handle option"
  ot_fp_mobile :: "file_handle option"
  ot_transfered_idx :: u32
  ot_sengment_size :: u32
  ot_transfered_idx_mobile :: u32
  ot_sengment_size_mobile :: u32

text \<open>The subclass of a task: an online task has the sequence number for its next answer.\<close>

datatype task_kind = OnlineTransferTask u32 | OfflineTransferTask offline_part

record transfer_task =
  tt_task_id :: string
  tt_from_user_id :: u32
  tt_to_user_id :: u32
  tt_file_name :: string
  tt_file_md5 :: string
  tt_file_size :: u32
  tt_create_time :: nat
  tt_state :: TransferTaskState
  tt_state_mobile :: TransferTaskState
  tt_from_conn :: "nat option"
  tt_to_conn :: "nat option"
  tt_to_conn_mobile :: "nat option"
  tt_kind :: task_kind

definition BaseTransferTask :: "file_env \<Rightarrow> string \<Rightarrow> u32 \<Rightarrow> u32 \<Rightarrow> string \<Rightarrow> u32 \<Rightarrow> string \<Rightarrow> task_kind \<Rightarrow> transfer_task" where
  "BaseTransferTask e task_id from_user_id to_user_id file_name file_size file_md5 kind =
     \<lparr>tt_task_id = task_id, tt_from_user_id = from_user_id, tt_to_user_id = to_user_id, tt_file_name = file_name, tt_file_md5 = file_md5,
      tt_file_size = file_size, tt_create_time = fe_time e, tt_state = kTransferTaskStateReady, tt_state_mobile = kTransferTaskStateReady,
      tt_from_conn = None, tt_to_conn = None, tt_to_conn_mobile = None, tt_kind = kind\<rparr>"

definition SetMaxSegmentSize :: "u32 \<Rightarrow> u32" where
  "SetMaxSegmentSize file_size = (if file_size mod SEGMENT_SIZE \<noteq> 0 then file_size div SEGMENT_SIZE + 1 else file_size div SEGMENT_SIZE)"

definition new_online :: "file_env \<Rightarrow> string \<Rightarrow> u32 \<Rightarrow> u32 \<Rightarrow> string \<Rightarrow> u32 \<Rightarrow> string \<Rightarrow> transfer_task" where
  "new_online e task_id from_user_id to_user_id file_name file_size file_md5 =
     BaseTransferTask e task_id from_user_id to_user_id file_name file_size file_md5 (OnlineTransferTask 0)"

definition new_offline :: "file_env \<Rightarrow> string \<Rightarrow> u32 \<Rightarrow> u32 \<Rightarrow> string \<Rightarrow> u32 \<Rightarrow> string \<Rightarrow> transfer_task" where
  "new_offline e task_id from_user_id to_user_id file_name file_size file_md5 =
     BaseTransferTask e task_id from_user_id to_user_id file_name file_size file_md5
       (OfflineTransferTask \<lparr>ot_fp = None, ot_fp_mobile = None, ot_transfered_idx = 0, ot_sengment_size = SetMaxSegmentSize file_size,
          ot_transfered_idx_mobile = 0, ot_sengment_size_mobile = SetMaxSegmentSize file_size\<rparr>)"

definition GetTransMode :: "transfer_task \<Rightarrow> u32" where
  "GetTransMode t = (case tt_kind t of OnlineTransferTask _ \<Rightarrow> FILE_TYPE_ONLINE | OfflineTransferTask _ \<Rightarrow> FILE_TYPE_OFFLINE)"

definition GetOpponentConn :: "u32 \<Rightarrow> transfer_task \<Rightarrow> nat option" where
  "GetOpponentConn user_id t = (if user_id = tt_from_user_id t then tt_to_conn t else tt_from_conn t)"

definition SetConnByUserID :: "u32 \<Rightarrow> nat option \<Rightarrow> u32 \<Rightarrow> transfer_task \<Rightarrow> transfer_task" where
  "SetConnByUserID user_id conn mode t =
     (if mode = CLIENT_OFFLINE_DOWNLOAD_MOBILE \<and> tt_to_user_id t = user_id then t\<lparr>tt_to_conn_mobile := conn\<rparr>
      else if tt_from_user_id t = user_id then t\<lparr>tt_from_conn := conn\<rparr>
      else if tt_to_user_id t = user_id then t\<lparr>tt_to_conn := conn\<rparr>
      else t)"

definition CheckFromUserID :: "u32 \<Rightarrow> transfer_task \<Rightarrow> bool" where
  "CheckFromUserID user_id t \<longleftrightarrow> tt_from_user_id t = user_id"

definition CheckToUserID :: "u32 \<Rightarrow> transfer_task \<Rightarrow> bool" where
  "CheckToUserID user_id t \<longleftrightarrow> tt_to_user_id t = user_id"

text \<open>The last operand of the disjunction is a constant of the enumeration, not a comparison with it.\<close>

definition IsWaitTranfering :: "transfer_task \<Rightarrow> bool" where
  "IsWaitTranfering t \<longleftrightarrow> tt_state t = kTransferTaskStateWaitingTransfer \<or> tt_state t = kTransferTaskStateWaitingUpload
     \<or> state_num kTransferTaskStateWaitingDownload \<noteq> 0"

definition SetLastUpdateTime :: "file_env \<Rightarrow> transfer_task \<Rightarrow> transfer_task" where
  "SetLastUpdateTime e t = t\<lparr>tt_create_time := fe_time e\<rparr>"

section \<open>Online tasks\<close>

definition online_CheckByUserIDAndFileRole :: "u32 \<Rightarrow> u32 \<Rightarrow> transfer_task \<Rightarrow> bool" where
  "online_CheckByUserIDAndFileRole user_id file_role t =
     (if file_role = CLIENT_REALTIME_SENDER then CheckFromUserID user_id t
      else if file_role = CLIENT_REALTIME_RECVER then CheckToUserID user_id t
      else False)"

text \<open>A login in a later state is refused, but the value that is returned is still the one of the first check.\<close>

definition online_ChangePullState :: "file_env \<Rightarrow> u32 \<Rightarrow> u32 \<Rightarrow> transfer_task \<Rightarrow> bool \<times> transfer_task" where
  "online_ChangePullState e user_id file_role t =
     (if \<not> online_CheckByUserIDAndFileRole user_id file_role t then (False, t)
      else if tt_state t \<noteq> kTransferTaskStateReady \<and> tt_state t \<noteq> kTransferTaskStateWaitingSender \<and> tt_state t \<noteq> kTransferTaskStateWaitingReceiver
      then (True, t)
      else if tt_state t = kTransferTaskStateReady then
        (True, SetLastUpdateTime e (t\<lparr>tt_state := (if file_role = CLIENT_REALTIME_SENDER then kTransferTaskStateWaitingReceiver
                                                   else kTransferTaskStateWaitingSender)\<rparr>))
      else if tt_state t = kTransferTaskStateWaitingReceiver \<and> file_role \<noteq> CLIENT_REALTIME_RECVER then (True, t)
      else if tt_state t = kTransferTaskStateWaitingSender \<and> file_role \<noteq> CLIENT_REALTIME_SENDER then (True, t)
      else (True, SetLastUpdateTime e (t\<lparr>tt_state := kTransferTaskStateWaitingTransfer\<rparr>)))"

definition online_DoRecvData :: "file_env \<Rightarrow> u32 \<Rightarrow> transfer_task \<Rightarrow> int \<times> transfer_task" where
  "online_DoRecvData e user_id t =
     (if \<not> CheckFromUserID user_id t then (- 1, t)
      else if tt_state t \<noteq> kTransferTaskStateWaitingTransfer \<and> tt_state t \<noteq> kTransferTaskStateTransfering then (- 1, t)
      else (0, SetLastUpdateTime e (if tt_state t = kTransferTaskStateWaitingTransfer then t\<lparr>tt_state := kTransferTaskStateTransfering\<rparr> else t)))"

definition online_DoPullFileRequest :: "file_env \<Rightarrow> transfer_task \<Rightarrow> int \<times> transfer_task" where
  "online_DoPullFileRequest e t =
     (if tt_state t \<noteq> kTransferTaskStateWaitingTransfer \<and> tt_state t \<noteq> kTransferTaskStateTransfering then (- 1, t)
      else (0, SetLastUpdateTime e (if tt_state t = kTransferTaskStateWaitingTransfer then t\<lparr>tt_state := kTransferTaskStateTransfering\<rparr> else t)))"

end
