(* ===== verification/OfflineTask.thy ===== *)
theory OfflineTask
  imports TransferTask
begin

text \<open>
  Offline tasks (\<open>OfflineTransferTask\<close> and \<open>OfflineFileHeader\<close> of \<open>file_server/transfer_task.h\<close>, \<open>transfer_task.cpp\<close>, and \<open>FileMd5.cpp\<close>): the file header, the
  upload of segments into a file, the check of its MD5, the downloads, and the reloading of a task from its file.
\<close>

section \<open>The header of a stored file\<close>

text \<open>A field of \<open>n\<close> bytes that was cleared and then got a string of at most \<open>n\<close> characters.\<close>

definition header_field :: "nat \<Rightarrow> string \<Rightarrow> bytes" where
  "header_field n s = map of_char s @ replicate (n - length s) 0"

text \<open>
  \<open>strncpy\<close> of at most 128 characters; \<open>sprintf\<close> with \<open>%u\<close> and \<open>%ld\<close>; \<open>sprintf\<close> with the MD5 as the format, which writes past the end of the structure
  when the result has 64 characters or more.
\<close>

definition OfflineFileHeader :: "file_env \<Rightarrow> transfer_task \<Rightarrow> bytes res" where
  "OfflineFileHeader e t =
     (let md5 = fe_sprintf e (c_str (tt_file_md5 t)) (min 512 (length (c_str (tt_file_md5 t))))
      in if length md5 \<ge> 64 then Inl MemFault
         else Inr (header_field 128 (take 128 (c_str (tt_task_id t))) @ header_field 64 (decimal (unat (tt_from_user_id t)))
           @ header_field 64 (decimal (unat (tt_to_user_id t))) @ header_field 128 (decimal (fe_time e)) @ header_field 512 []
           @ header_field 64 (decimal (unat (tt_file_size t))) @ header_field 64 md5))"

text \<open>A field is read as a C string from its offset, up to the first NUL of the structure, in whichever field that is.\<close>

definition header_string :: "nat \<Rightarrow> bytes \<Rightarrow> string res" where
  "header_string off hdr =
     (if 0 \<in> set (drop off hdr) then Inr (map (\<lambda>b. char_of (unat b)) (takeWhile (\<lambda>b. b \<noteq> 0) (drop off hdr))) else Inl MemFault)"

definition get_task_id :: "bytes \<Rightarrow> string res" where "get_task_id = header_string 0"
definition get_from_user_id :: "bytes \<Rightarrow> u32 res" where "get_from_user_id hdr = bindR (header_string 128 hdr) (\<lambda>s. Inr (string2int s))"
definition get_to_user_id :: "bytes \<Rightarrow> u32 res" where "get_to_user_id hdr = bindR (header_string 192 hdr) (\<lambda>s. Inr (string2int s))"
definition get_file_name :: "bytes \<Rightarrow> string res" where "get_file_name = header_string 384"
definition get_file_size :: "bytes \<Rightarrow> u32 res" where "get_file_size hdr = bindR (header_string 896 hdr) (\<lambda>s. Inr (string2int s))"
definition get_file_md5 :: "bytes \<Rightarrow> string res" where "get_file_md5 = header_string 960"

abbreviation (input) HEADER_SIZE :: nat where "HEADER_SIZE \<equiv> 1024"

definition LoadFromDisk :: "file_env \<Rightarrow> string \<Rightarrow> disk \<Rightarrow> transfer_task option res" where
  "LoadFromDisk e task_id dk =
     (case OpenByRead e task_id dk of
        None \<Rightarrow> Inr None
      | Some h \<Rightarrow>
          let (hdr, h1) = fread HEADER_SIZE h dk
          in if length hdr \<noteq> HEADER_SIZE then Inr None
             else bindR (get_file_size hdr) (\<lambda>size.
                  if length (file_data (fh_file h) dk) - HEADER_SIZE \<noteq> unat size then Inr None
                  else bindR (get_task_id hdr) (\<lambda>task_id.
                       bindR (get_from_user_id hdr) (\<lambda>from_id.
                       bindR (get_to_user_id hdr) (\<lambda>to_id.
                       bindR (get_file_name hdr) (\<lambda>name.
                       bindR (get_file_md5 hdr) (\<lambda>md5.
                         Inr (Some ((new_offline e task_id from_id to_id name size md5)\<lparr>tt_state := kTransferTaskStateWaitingDownload\<rparr>)))))))))"

section \<open>MD5\<close>

abbreviation (input) READ_DATA_SIZE :: nat where "READ_DATA_SIZE \<equiv> 1024"

text \<open>The loop of \<open>Compute_file_md5\<close> up to the first short read; \<open>acc\<close> is what \<open>MD5_Update\<close> has got.\<close>

function md5_read :: "file_handle \<Rightarrow> disk \<Rightarrow> bytes \<Rightarrow> bytes \<times> file_handle" where
  "md5_read h dk acc =
     (let (d, h1) = fread READ_DATA_SIZE h dk
      in if length d < READ_DATA_SIZE then (acc @ d, h1) else md5_read h1 dk (acc @ d))"
  by pat_completeness auto
termination
  by (relation "measure (\<lambda>(h, dk, acc). length (file_data (fh_file h) dk) - fh_pos h)") (auto simp: fread_def Let_def split: if_splits)

declare md5_read.simps [simp del]

definition Compute_file_md5 :: "file_env \<Rightarrow> file_handle \<Rightarrow> disk \<Rightarrow> string \<times> file_handle" where
  "Compute_file_md5 e h dk = (let (data, h1) = md5_read h dk [] in (hex_string (fe_md5 e data), h1))"

section \<open>State changes\<close>

definition offline_CheckByUserIDAndFileRole :: "u32 \<Rightarrow> u32 \<Rightarrow> transfer_task \<Rightarrow> bool" where
  "offline_CheckByUserIDAndFileRole user_id file_role t =
     (if file_role = CLIENT_OFFLINE_UPLOAD then CheckFromUserID user_id t
      else if file_role = CLIENT_OFFLINE_DOWNLOAD \<or> file_role = CLIENT_OFFLINE_DOWNLOAD_MOBILE then CheckToUserID user_id t
      else False)"

definition offline_ChangePullState :: "file_env \<Rightarrow> u32 \<Rightarrow> u32 \<Rightarrow> offline_part \<Rightarrow> transfer_task \<Rightarrow> bool \<times> transfer_task" where
  "offline_ChangePullState e user_id file_role ot t =
     (if \<not> offline_CheckByUserIDAndFileRole user_id file_role t then (False, t)
      else if tt_state t = kTransferTaskStateReady then
        (if file_role = CLIENT_OFFLINE_UPLOAD then (True, SetLastUpdateTime e (t\<lparr>tt_state := kTransferTaskStateWaitingUpload\<rparr>)) else (True, t))
      else if file_role = CLIENT_OFFLINE_DOWNLOAD then
        (True, SetLastUpdateTime e (t\<lparr>tt_state := kTransferTaskStateWaitingDownload, tt_kind := OfflineTransferTask (ot\<lparr>ot_transfered_idx := 0\<rparr>)\<rparr>))
      else if file_role = CLIENT_OFFLINE_DOWNLOAD_MOBILE then
        (True, SetLastUpdateTime e (t\<lparr>tt_state_mobile := kTransferTaskStateWaitingDownload\<rparr>))
      else (True, t))"

definition GetNextSegmentBlockSize :: "u32 \<Rightarrow> u32 \<Rightarrow> offline_part \<Rightarrow> u32" where
  "GetNextSegmentBlockSize mode file_size ot =
     (let block_size = (if mode = FILE_TYPE_OFFLINE_MOBILE \<and> ot_transfered_idx_mobile ot + 1 = ot_sengment_size_mobile ot
                        then file_size - ot_transfered_idx_mobile ot * SEGMENT_SIZE else SEGMENT_SIZE)
      in if ot_transfered_idx ot + 1 = ot_sengment_size ot then file_size - ot_transfered_idx ot * SEGMENT_SIZE else block_size)"

definition offline_GetNextOffset :: "offline_part \<Rightarrow> u32" where
  "offline_GetNextOffset ot = SEGMENT_SIZE * ot_transfered_idx ot"

section \<open>Uploads\<close>

text \<open>
  \<open>DoRecvData\<close> in its three parts: opening the file and writing the header for the first segment, writing the segment (of the size that is expected,
  whatever the size of the data), and the check of the whole file after the last one. \<open>None\<close> stands for leaving with \<open>-1\<close>.
\<close>

definition begin_upload :: "file_env \<Rightarrow> transfer_task \<Rightarrow> offline_part \<Rightarrow> disk \<Rightarrow> (bool \<times> TransferTaskState \<times> offline_part \<times> disk) res" where
  "begin_upload e t ot dk =
     (if tt_state t \<noteq> kTransferTaskStateWaitingUpload then Inr (True, tt_state t, ot, dk)
      else bindR (case ot_fp ot of
                    Some h \<Rightarrow> Inr (Some h, dk)
                  | None \<Rightarrow> OpenByWrite e (tt_task_id t) dk) (\<lambda>(fp, dk1).
           case fp of
             None \<Rightarrow> Inr (False, tt_state t, ot\<lparr>ot_fp := None\<rparr>, dk1)
           | Some h \<Rightarrow> bindR (OfflineFileHeader e t) (\<lambda>hdr.
               let (h1, dk2) = fappend h hdr dk1
               in Inr (True, kTransferTaskStateUploading, ot\<lparr>ot_fp := Some h1\<rparr>, dk2))))"

definition end_upload :: "file_env \<Rightarrow> transfer_task \<Rightarrow> TransferTaskState \<Rightarrow> offline_part \<Rightarrow> file_handle \<Rightarrow> disk \<Rightarrow> int \<times> TransferTaskState \<times> offline_part \<times> disk" where
  "end_upload e t st ot h dk =
     (let (md5_str, h1) = Compute_file_md5 e (h\<lparr>fh_pos := HEADER_SIZE\<rparr>) dk
      in if md5_str = c_str (tt_file_md5 t) then (1, kTransferTaskStateUploadEnd, ot\<lparr>ot_fp := None\<rparr>, dk)
         else (- 1, st, ot\<lparr>ot_fp := Some h1\<rparr>, remove_file (file_path e (tt_task_id t)) dk))"

definition offline_DoRecvData :: "file_env \<Rightarrow> u32 \<Rightarrow> u32 \<Rightarrow> bytes \<Rightarrow> offline_part \<Rightarrow> transfer_task \<Rightarrow> disk \<Rightarrow> (int \<times> transfer_task \<times> disk) res" where
  "offline_DoRecvData e user_id offset data ot t dk =
     (if \<not> CheckFromUserID user_id t then Inr (- 1, t, dk)
      else if tt_state t \<noteq> kTransferTaskStateWaitingUpload \<and> tt_state t \<noteq> kTransferTaskStateUploading then Inr (- 1, t, dk)
      else if offset \<noteq> ot_transfered_idx ot * SEGMENT_SIZE then Inr (- 1, t, dk)
      else let data_size = unat (GetNextSegmentBlockSize (- 1) (tt_file_size t) ot)
           in bindR (begin_upload e t ot dk) (\<lambda>(ok, st, ot1, dk1).
              case (if ok then ot_fp ot1 else None) of
                None \<Rightarrow> Inr (- 1, t\<lparr>tt_state := st, tt_kind := OfflineTransferTask ot1\<rparr>, dk1)
              | Some h \<Rightarrow>
                  if length data < data_size then Inl MemFault
                  else let (h1, dk2) = fappend h (take data_size data) dk1;
                           ot2 = ot1\<lparr>ot_fp := Some h1, ot_transfered_idx := ot_transfered_idx ot1 + 1\<rparr>;
                           (rv, st3, ot3, dk3) = (if ot_transfered_idx ot2 = ot_sengment_size ot2 then end_upload e t st ot2 h1 dk2
                                                  else (0, st, ot2, dk2))
                       in Inr (rv, SetLastUpdateTime e (t\<lparr>tt_state := st3, tt_kind := OfflineTransferTask ot3\<rparr>), dk3)))"

section \<open>Downloads\<close>

text \<open>
  A download opens the file for its first segment and skips the header. The desktop and the mobile client have their own file, index and state; \<open>begin_download\<close> does
  this for one of them and returns whether it may go on, the file and the index.
\<close>

definition begin_download :: "file_env \<Rightarrow> string \<Rightarrow> TransferTaskState \<Rightarrow> file_handle option \<Rightarrow> u32 \<Rightarrow> disk \<Rightarrow> TransferTaskState \<times> file_handle option \<times> u32" where
  "begin_download e task_id st fp idx dk =
     (if st \<noteq> kTransferTaskStateWaitingDownload then (st, fp, idx)
      else case OpenByRead e task_id dk of
             None \<Rightarrow> (st, None, 0)
           | Some h \<Rightarrow> let (hdr, h1) = fread HEADER_SIZE h dk
                        in if length hdr \<noteq> HEADER_SIZE then (st, None, 0) else (kTransferTaskStateDownloading, Some h1, 0))"

text \<open>The end of a request: the mobile client's file is closed after its last segment, the desktop's whenever its index is at the end.\<close>

definition end_download :: "u32 \<Rightarrow> offline_part \<Rightarrow> transfer_task \<Rightarrow> (int \<times> transfer_task) res" where
  "end_download mode ot t =
     (if mode = FILE_TYPE_OFFLINE_MOBILE \<and> ot_transfered_idx_mobile ot = ot_sengment_size_mobile ot
      then Inr (1, t\<lparr>tt_state_mobile := kTransferTaskStateDownloadEnd,
                     tt_kind := OfflineTransferTask (ot\<lparr>ot_fp_mobile := None, ot_transfered_idx_mobile := 0\<rparr>)\<rparr>)
      else if ot_transfered_idx ot = ot_sengment_size ot
      then (if ot_fp ot = None then Inl MemFault
            else Inr (1, t\<lparr>tt_state := kTransferTaskStateDownloadEnd, tt_kind := OfflineTransferTask (ot\<lparr>ot_fp := None, ot_transfered_idx := 0\<rparr>)\<rparr>))
      else Inr (0, t\<lparr>tt_kind := OfflineTransferTask ot\<rparr>))"

definition offline_DoPullFileRequest :: "file_env \<Rightarrow> u32 \<Rightarrow> u32 \<Rightarrow> offline_part \<Rightarrow> transfer_task \<Rightarrow> disk \<Rightarrow> (int \<times> bytes \<times> transfer_task) res" where
  "offline_DoPullFileRequest e offset mode ot t dk =
     (let mobile = (mode = FILE_TYPE_OFFLINE_MOBILE);
          st0 = (if mobile then tt_state_mobile t else tt_state t)
      in if st0 \<noteq> kTransferTaskStateWaitingDownload \<and> st0 \<noteq> kTransferTaskStateDownloading then Inr (- 1, [], t)
         else let (st, fp, idx) = (if mobile then begin_download e (tt_task_id t) st0 (ot_fp_mobile ot) (ot_transfered_idx_mobile ot) dk
                                   else begin_download e (tt_task_id t) st0 (ot_fp ot) (ot_transfered_idx ot) dk);
                  ot1 = (if mobile then ot\<lparr>ot_fp_mobile := fp, ot_transfered_idx_mobile := idx\<rparr> else ot\<lparr>ot_fp := fp, ot_transfered_idx := idx\<rparr>);
                  t1 = (if mobile then t\<lparr>tt_state_mobile := st\<rparr> else t\<lparr>tt_state := st\<rparr>)
              in case fp of
                   None \<Rightarrow> Inr (- 1, [], t1\<lparr>tt_kind := OfflineTransferTask ot1\<rparr>)
                 | Some h \<Rightarrow>
                     if offset \<noteq> idx * SEGMENT_SIZE then Inr (- 1, [], t1\<lparr>tt_kind := OfflineTransferTask ot1\<rparr>)
                     else let data_size = unat (GetNextSegmentBlockSize mode (tt_file_size t) ot1);
                              (data, h1) = fread data_size h dk;
                              ot2 = (if mobile then ot1\<lparr>ot_fp_mobile := Some h1\<rparr> else ot1\<lparr>ot_fp := Some h1\<rparr>)
                          in if length data \<noteq> data_size then Inr (- 1, [], t1\<lparr>tt_kind := OfflineTransferTask ot2\<rparr>)
                             else let ot3 = (if mobile then ot2\<lparr>ot_transfered_idx_mobile := idx + 1\<rparr> else ot2\<lparr>ot_transfered_idx := idx + 1\<rparr>)
                                  in bindR (end_download mode ot3 (SetLastUpdateTime e t1)) (\<lambda>(rv, t2). Inr (rv, data, t2)))"

section \<open>Dispatch on the class\<close>

definition ChangePullState :: "file_env \<Rightarrow> u32 \<Rightarrow> u32 \<Rightarrow> transfer_task \<Rightarrow> bool \<times> transfer_task" where
  "ChangePullState e user_id file_role t =
     (case tt_kind t of
        OnlineTransferTask _ \<Rightarrow> online_ChangePullState e user_id file_role t
      | OfflineTransferTask ot \<Rightarrow> offline_ChangePullState e user_id file_role ot t)"

definition DoRecvData :: "file_env \<Rightarrow> u32 \<Rightarrow> u32 \<Rightarrow> bytes \<Rightarrow> transfer_task \<Rightarrow> disk \<Rightarrow> (int \<times> transfer_task \<times> disk) res" where
  "DoRecvData e user_id offset data t dk =
     (case tt_kind t of
        OnlineTransferTask _ \<Rightarrow> (let (rv, t1) = online_DoRecvData e user_id t in Inr (rv, t1, dk))
      | OfflineTransferTask ot \<Rightarrow> offline_DoRecvData e user_id offset data ot t dk)"

definition DoPullFileRequest :: "file_env \<Rightarrow> u32 \<Rightarrow> u32 \<Rightarrow> transfer_task \<Rightarrow> disk \<Rightarrow> (int \<times> bytes \<times> transfer_task) res" where
  "DoPullFileRequest e offset mode t dk =
     (case tt_kind t of
        OnlineTransferTask _ \<Rightarrow> (let (rv, t1) = online_DoPullFileRequest e t in Inr (rv, [], t1))
      | OfflineTransferTask ot \<Rightarrow> offline_DoPullFileRequest e offset mode ot t dk)"

text \<open>The base class returns \<open>-1\<close> as an unsigned number.\<close>

definition GetNextOffset :: "transfer_task \<Rightarrow> u32" where
  "GetNextOffset t = (case tt_kind t of OnlineTransferTask _ \<Rightarrow> - 1 | OfflineTransferTask ot \<Rightarrow> offline_GetNextOffset ot)"

end
