(* ===== verification/FileServer.thy ===== *)
theory FileServer
  imports OfflineTask
begin

text \<open>
  The file server (\<open>file_server/file_client_conn.cpp\<close>, \<open>file_msg_server_conn.cpp\<close>, \<open>transfer_task_manager.cpp\<close>): message servers create tasks,
  clients log in to them and move data. Connections and tasks are objects in heaps that refer to each other by address; the disk and the trace of
  network calls are part of the state. The table of tasks is only used by key and by a loop whose steps do not depend on their order.
\<close>

section \<open>Messages\<close>

record IMFileLoginReq =
  fl_user_id :: u32
  fl_task_id :: string
  fl_file_role :: u32

record IMFileState =
  fs_state :: u32
  fs_ttype :: u32
  fs_task_id :: string
  fs_user_id :: u32

record IMFilePullDataReq =
  pq_task_id :: string
  pq_user_id :: u32
  pq_trans_mode :: u32
  pq_offset :: u32
  pq_data_size :: u32

record IMFilePullDataRsp =
  pr_result_code :: u32
  pr_task_id :: string
  pr_user_id :: u32
  pr_offset :: u32
  pr_file_data :: bytes

text \<open>The answer to a login has a result code and the identifier of the task.\<close>

record fs_codec =
  pb_FileLoginReq :: "IMFileLoginReq pb"
  pb_FileLoginRsp :: "(u32 \<times> string) pb"
  pb_FileState :: "IMFileState pb"
  pb_PullDataReq :: "IMFilePullDataReq pb"
  pb_PullDataRsp :: "IMFilePullDataRsp pb"
  pb_DownloadNotify :: "OfflineFileInfo list pb"
  pb_TransferReq :: "IMFileTransferReq pb"
  pb_TransferRsp :: "IMFileTransferRsp pb"
  pb_ServerIPRsp :: "(string \<times> u32) list pb"

abbreviation (input) FILE_UPLOAD :: u32 where "FILE_UPLOAD \<equiv> 1"
abbreviation (input) FILE_DOWNLOAD :: u32 where "FILE_DOWNLOAD \<equiv> 2"

section \<open>State\<close>

record file_client_conn =
  fc_handle :: u32
  fc_last_send_tick :: u64
  fc_last_recv_tick :: u64
  fc_auth :: bool
  fc_modetag :: u32
  fc_user_id :: u32
  fc_transfer_task :: "nat option"

text \<open>The flag \<open>connected_\<close> of a message server's connection is never set.\<close>

record file_msg_conn =
  fm_handle :: u32
  fm_last_send_tick :: u64
  fm_last_recv_tick :: u64

datatype fs_conn_type = FS_CLIENT | FS_MSG_SERVER

record file_server =
  g_file_client_conn_map :: conn_map
  g_file_msg_server_conn_map :: conn_map
  fs_clients :: "file_client_conn heap"
  fs_msgs :: "file_msg_conn heap"
  transfer_tasks :: "(string, nat) assoc"
  fs_tasks :: "transfer_task heap"
  fs_disk :: disk
  fs_callback :: "(u32, fs_conn_type) assoc"
  fs_trace :: "net_out list"

type_synonym fs_op = "file_server \<Rightarrow> file_server res"

definition file_init :: "disk \<Rightarrow> file_server" where
  "file_init dk = \<lparr>g_file_client_conn_map = [], g_file_msg_server_conn_map = [], fs_clients = empty_heap, fs_msgs = empty_heap,
     transfer_tasks = [], fs_tasks = empty_heap, fs_disk = dk, fs_callback = [], fs_trace = []\<rparr>"

definition client_at :: "nat \<Rightarrow> file_server \<Rightarrow> file_client_conn res" where
  "client_at a st = deref a (fs_clients st)"

definition set_client :: "nat \<Rightarrow> file_client_conn \<Rightarrow> file_server \<Rightarrow> file_server" where
  "set_client a c st = st\<lparr>fs_clients := set_obj a c (fs_clients st)\<rparr>"

definition task_at :: "nat \<Rightarrow> file_server \<Rightarrow> transfer_task res" where
  "task_at x st = deref x (fs_tasks st)"

definition set_task :: "nat \<Rightarrow> transfer_task \<Rightarrow> file_server \<Rightarrow> file_server" where
  "set_task x t st = st\<lparr>fs_tasks := set_obj x t (fs_tasks st)\<rparr>"

definition fs_close_socket :: "u32 \<Rightarrow> file_server \<Rightarrow> file_server" where
  "fs_close_socket h st = st\<lparr>fs_callback := map_erase h (fs_callback st), fs_trace := fs_trace st @ [NetClose h]\<rparr>"

text \<open>\<open>SendPdu\<close> of a client's and of a message server's connection.\<close>

definition client_SendPdu :: "file_env \<Rightarrow> nat \<Rightarrow> bytes \<Rightarrow> fs_op" where
  "client_SendPdu e a p st =
     bindR (client_at a st) (\<lambda>c.
       Inr (set_client a (c\<lparr>fc_last_send_tick := fe_tick e\<rparr>) (st\<lparr>fs_trace := fs_trace st @ [NetSend (fc_handle c) p]\<rparr>)))"

definition msg_SendPdu :: "file_env \<Rightarrow> nat \<Rightarrow> bytes \<Rightarrow> fs_op" where
  "msg_SendPdu e a p st =
     bindR (deref a (fs_msgs st)) (\<lambda>c.
       Inr (st\<lparr>fs_msgs := set_obj a (c\<lparr>fm_last_send_tick := fe_tick e\<rparr>) (fs_msgs st),
               fs_trace := fs_trace st @ [NetSend (fm_handle c) p]\<rparr>))"

text \<open>\<open>SetSeqNum\<close> on the bytes of a received PDU.\<close>

definition with_seq :: "u16 \<Rightarrow> bytes \<Rightarrow> bytes" where
  "with_seq seq img = take 12 img @ enc16 seq @ drop 14 img"

section \<open>TransferTaskManager\<close>

definition add_task :: "string \<Rightarrow> transfer_task \<Rightarrow> file_server \<Rightarrow> nat option \<times> file_server" where
  "add_task task_id t st =
     (let (x, h) = new_obj t (fs_tasks st)
      in (Some x, st\<lparr>fs_tasks := h, transfer_tasks := hm_insert task_id x (transfer_tasks st)\<rparr>))"

definition NewTransferTask :: "file_env \<Rightarrow> u32 \<Rightarrow> string \<Rightarrow> u32 \<Rightarrow> u32 \<Rightarrow> string \<Rightarrow> u32 \<Rightarrow> string \<Rightarrow> file_server \<Rightarrow> nat option \<times> file_server" where
  "NewTransferTask e trans_mode task_id from_user_id to_user_id file_name file_size file_md5 st =
     (case map_of (transfer_tasks st) task_id of
        Some _ \<Rightarrow> (None, st)
      | None \<Rightarrow>
          if trans_mode = FILE_TYPE_ONLINE then add_task task_id (new_online e task_id from_user_id to_user_id file_name file_size file_md5) st
          else if trans_mode = FILE_TYPE_OFFLINE
          then add_task task_id (new_offline e task_id from_user_id to_user_id file_name file_size file_md5) st
          else (None, st))"

text \<open>The overload that loads a task from disk: an entry that the table has already stays, and the new task is used all the same.\<close>

definition NewTransferTask_disk :: "file_env \<Rightarrow> string \<Rightarrow> file_server \<Rightarrow> (nat option \<times> file_server) res" where
  "NewTransferTask_disk e task_id st =
     bindR (LoadFromDisk e task_id (fs_disk st)) (\<lambda>t.
       Inr (case t of None \<Rightarrow> (None, st) | Some t \<Rightarrow> add_task task_id t st))"

definition FindByTaskID :: "string \<Rightarrow> file_server \<Rightarrow> nat option" where
  "FindByTaskID task_id st = map_of (transfer_tasks st) task_id"

definition delete_task :: "string \<Rightarrow> nat \<Rightarrow> fs_op" where
  "delete_task task_id x st =
     bindR (delete_obj x (fs_tasks st)) (\<lambda>h. Inr (st\<lparr>fs_tasks := h, transfer_tasks := map_erase task_id (transfer_tasks st)\<rparr>))"

definition DeleteTransferTaskByConnClose :: "string \<Rightarrow> fs_op" where
  "DeleteTransferTaskByConnClose task_id st =
     (case map_of (transfer_tasks st) task_id of
        None \<Rightarrow> Inr st
      | Some x \<Rightarrow>
          bindR (task_at x st) (\<lambda>t.
            if GetTransMode t = FILE_TYPE_ONLINE
            then (if tt_from_conn t = None \<and> tt_to_conn t = None then delete_task task_id x st else Inr st)
            else if tt_state t \<noteq> kTransferTaskStateWaitingUpload then delete_task task_id x st
            else Inr st))"

definition DeleteTransferTask :: "string \<Rightarrow> fs_op" where
  "DeleteTransferTask task_id st =
     (case map_of (transfer_tasks st) task_id of None \<Rightarrow> Inr st | Some x \<Rightarrow> delete_task task_id x st)"

definition ClearTransferTask :: "nat option \<Rightarrow> fs_op" where
  "ClearTransferTask conn st =
     (case conn of
        None \<Rightarrow> Inr st
      | Some a \<Rightarrow> bindR (client_at a st) (\<lambda>c. Inr (set_client a (c\<lparr>fc_user_id := 0, fc_transfer_task := None\<rparr>) st)))"

fun task_timer_loop :: "file_env \<Rightarrow> (string, nat) assoc \<Rightarrow> fs_op" where
  "task_timer_loop e [] st = Inr st"
| "task_timer_loop e ((task_id, x) # its) st =
     bindR (bindR (task_at x st) (\<lambda>t.
              if tt_state t \<noteq> kTransferTaskStateWaitingUpload \<and> tt_state t = kTransferTaskStateTransferDone
                \<and> int (fe_time e) - int (tt_create_time t) > int (unat (fe_task_timeout e))
              then bindR (ClearTransferTask (tt_from_conn t) st) (\<lambda>st1.
                   bindR (ClearTransferTask (tt_to_conn t) st1) (delete_task task_id x))
              else Inr st))
       (task_timer_loop e its)"

definition FileTaskTimerCallback :: "file_env \<Rightarrow> fs_op" where
  "FileTaskTimerCallback e st = task_timer_loop e (transfer_tasks st) st"

end
