(* ===== verification/FileClientConn.thy ===== *)
theory FileClientConn
  imports FileServer
begin

text \<open>
  The connections of clients to the file server (\<open>file_server/file_client_conn.cpp\<close>): login to a task, data requests and responses, notifications of the
  transfer's state, and the closing of a connection, which takes the task away from other connections and may delete it.
\<close>

section \<open>Closing\<close>

text \<open>The loop of \<open>Close\<close> over the other connections that hold the same task, or no task like this one; a mobile client's keeps it.\<close>

fun detach_others :: "nat \<Rightarrow> nat option \<Rightarrow> conn_map \<Rightarrow> fs_op" where
  "detach_others a task [] st = Inr st"
| "detach_others a task (it # its) st =
     bindR (client_at (snd it) st) (\<lambda>c.
       detach_others a task its
         (if snd it \<noteq> a \<and> fc_transfer_task c = task \<and> fc_modetag c \<noteq> CLIENT_OFFLINE_DOWNLOAD_MOBILE
          then set_client (snd it) (c\<lparr>fc_transfer_task := None\<rparr>) st else st))"

definition release_task :: "u32 \<Rightarrow> u32 \<Rightarrow> nat \<Rightarrow> fs_op" where
  "release_task user_id modetag x st =
     bindR (task_at x st) (\<lambda>t.
       let t1 = (if state_num (tt_state t) \<ge> state_num kTransferTaskStateUploadEnd then t\<lparr>tt_state := kTransferTaskStateWaitingDownload\<rparr> else t);
           t2 = SetConnByUserID user_id None modetag t1;
           st1 = set_task x t2 st
       in if tt_to_conn t2 = None \<and> tt_to_conn_mobile t2 = None then DeleteTransferTaskByConnClose (tt_task_id t2) st1 else Inr st1)"

definition client_Close :: "nat \<Rightarrow> fs_op" where
  "client_Close a st =
     bindR (client_at a st) (\<lambda>c.
     bindR (detach_others a (fc_transfer_task c) (g_file_client_conn_map st) st) (\<lambda>st1.
     bindR (case fc_transfer_task c of None \<Rightarrow> Inr st1 | Some x \<Rightarrow> release_task (fc_user_id c) (fc_modetag c) x st1) (\<lambda>st2.
       let st3 = set_client a (c\<lparr>fc_transfer_task := None, fc_auth := False\<rparr>) st2;
           st4 = (if fc_handle c \<noteq> NETLIB_INVALID_HANDLE
                  then (fs_close_socket (fc_handle c) st3)\<lparr>g_file_client_conn_map := map_erase (fc_handle c) (g_file_client_conn_map st3)\<rparr>
                  else st3)
       in bindR (release_ref a (fs_clients st4)) (\<lambda>h. Inr (st4\<lparr>fs_clients := h\<rparr>)))))"

definition client_OnConnect :: "nat \<Rightarrow> u32 \<Rightarrow> fs_op" where
  "client_OnConnect a handle st =
     bindR (client_at a st) (\<lambda>c.
       Inr ((set_client a (c\<lparr>fc_handle := handle\<rparr>) st)\<lparr>g_file_client_conn_map := hm_insert handle a (g_file_client_conn_map st),
              fs_callback := hm_assign handle FS_CLIENT (fs_callback st)\<rparr>))"

definition client_OnClose :: "nat \<Rightarrow> fs_op" where
  "client_OnClose a st = client_Close a st"

definition client_OnTimer :: "u64 \<Rightarrow> nat \<Rightarrow> fs_op" where
  "client_OnTimer curr_tick a st =
     bindR (client_at a st) (\<lambda>c. if curr_tick > fc_last_recv_tick c + CLIENT_TIMEOUT then client_Close a st else Inr st)"

section \<open>Sending to clients\<close>

definition StatesNotify :: "file_env \<Rightarrow> fs_codec \<Rightarrow> u32 \<Rightarrow> u32 \<Rightarrow> string \<Rightarrow> u32 \<Rightarrow> nat \<Rightarrow> fs_op" where
  "StatesNotify e pb state ttype task_id user_id conn st =
     client_SendPdu e conn (wire_pdu SID_FILE CID_FILE_STATE 0
       (pb_ser (pb_FileState pb) \<lparr>fs_state = state, fs_ttype = ttype, fs_task_id = task_id, fs_user_id = user_id\<rparr>)) st"

definition send_pull_req :: "file_env \<Rightarrow> fs_codec \<Rightarrow> nat \<Rightarrow> string \<Rightarrow> u32 \<Rightarrow> u32 \<Rightarrow> u32 \<Rightarrow> u32 \<Rightarrow> fs_op" where
  "send_pull_req e pb a task_id user_id mode offset data_size st =
     client_SendPdu e a (wire_pdu SID_FILE CID_FILE_PULL_DATA_REQ 0
       (pb_ser (pb_PullDataReq pb) \<lparr>pq_task_id = task_id, pq_user_id = user_id, pq_trans_mode = mode, pq_offset = offset, pq_data_size = data_size\<rparr>)) st"

text \<open>A call on a pointer that is tested first.\<close>

definition if_conn :: "nat option \<Rightarrow> (nat \<Rightarrow> fs_op) \<Rightarrow> fs_op" where
  "if_conn conn f st = (case conn of None \<Rightarrow> Inr st | Some a \<Rightarrow> f a st)"

text \<open>\<open>Send_to_msgserver\<close> uses the first entry of the map, whether or not there is one.\<close>

definition Send_to_msgserver :: "file_env \<Rightarrow> bytes \<Rightarrow> fs_op" where
  "Send_to_msgserver e p st = (case g_file_msg_server_conn_map st of [] \<Rightarrow> Inl MemFault | it # _ \<Rightarrow> msg_SendPdu e (snd it) p st)"

section \<open>Login\<close>

text \<open>Looking for the task; a download may load it from disk. \<open>None\<close> stands for leaving the block with \<open>rv\<close> false.\<close>

definition find_task :: "file_env \<Rightarrow> string \<Rightarrow> u32 \<Rightarrow> file_server \<Rightarrow> (nat option \<times> file_server) res" where
  "find_task e task_id mode st =
     (case FindByTaskID task_id st of
        Some x \<Rightarrow> Inr (Some x, st)
      | None \<Rightarrow> if mode = CLIENT_OFFLINE_DOWNLOAD \<or> mode = CLIENT_OFFLINE_DOWNLOAD_MOBILE then NewTransferTask_disk e task_id st else Inr (None, st))"

definition login_to_task :: "file_env \<Rightarrow> nat \<Rightarrow> u32 \<Rightarrow> u32 \<Rightarrow> nat \<Rightarrow> file_server \<Rightarrow> (bool \<times> file_server) res" where
  "login_to_task e a user_id mode x st =
     bindR (task_at x st) (\<lambda>t.
       let (rv, t1) = ChangePullState e user_id mode t
       in if \<not> rv then Inr (False, set_task x t1 st)
          else bindR (client_at a st) (\<lambda>c.
            let c1 = c\<lparr>fc_modetag := (if mode = CLIENT_OFFLINE_DOWNLOAD_MOBILE then CLIENT_OFFLINE_DOWNLOAD_MOBILE else fc_modetag c),
                       fc_auth := True, fc_transfer_task := Some x, fc_user_id := user_id\<rparr>
            in Inr (True, set_task x (SetConnByUserID user_id (Some a) mode t1) (set_client a c1 st))))"

text \<open>What follows a successful login: the parties of an online transfer are ready, or the upload is asked for its first segment.\<close>

definition after_login :: "file_env \<Rightarrow> fs_codec \<Rightarrow> nat \<Rightarrow> u32 \<Rightarrow> string \<Rightarrow> nat \<Rightarrow> fs_op" where
  "after_login e pb a user_id task_id x st =
     bindR (task_at x st) (\<lambda>t.
       case tt_kind t of
         OnlineTransferTask _ \<Rightarrow>
           if tt_state t = kTransferTaskStateWaitingTransfer then
             (case tt_to_conn t of
                Some conn \<Rightarrow> StatesNotify e pb CLIENT_FILE_PEER_READY FILE_UPLOAD task_id (tt_from_user_id t) conn st
              | None \<Rightarrow> client_Close a st)
           else Inr st
       | OfflineTransferTask ot \<Rightarrow>
           if tt_state t = kTransferTaskStateWaitingUpload
           then send_pull_req e pb a task_id user_id FILE_TYPE_OFFLINE 0 (GetNextSegmentBlockSize (- 1) (tt_file_size t) ot) st
           else Inr st)"

definition HandleClientFileLoginReq :: "file_env \<Rightarrow> fs_codec \<Rightarrow> pdu_header \<Rightarrow> bytes \<Rightarrow> nat \<Rightarrow> fs_op" where
  "HandleClientFileLoginReq e pb hdr img a st =
     parsed (pb_FileLoginReq pb) img (\<lambda>msg.
       bindR (find_task e (fl_task_id msg) (fl_file_role msg) st) (\<lambda>(task, st1).
       bindR (case task of None \<Rightarrow> Inr (False, st1) | Some x \<Rightarrow> login_to_task e a (fl_user_id msg) (fl_file_role msg) x st1) (\<lambda>(rv, st2).
       bindR (client_SendPdu e a (wire_pdu SID_FILE CID_FILE_LOGIN_RES (h_seq_num hdr)
                (pb_ser (pb_FileLoginRsp pb) (if rv then 0 else 1, fl_task_id msg))) st2) (\<lambda>st3.
         case task of
           Some x \<Rightarrow> if rv then after_login e pb a (fl_user_id msg) (fl_task_id msg) x st3 else client_Close a st3
         | None \<Rightarrow> client_Close a st3)))) st"

section \<open>States\<close>

definition HandleClientFileStates :: "fs_codec \<Rightarrow> file_env \<Rightarrow> bytes \<Rightarrow> nat \<Rightarrow> fs_op" where
  "HandleClientFileStates pb e img a st =
     bindR (client_at a st) (\<lambda>c.
       case fc_transfer_task c of
         None \<Rightarrow> Inr st
       | Some x \<Rightarrow>
           if \<not> fc_auth c then Inr st
           else parsed (pb_FileState pb) img (\<lambda>msg.
             bindR (bindR (task_at x st) (\<lambda>t.
                      if fs_user_id msg \<noteq> fc_user_id c \<or> tt_task_id t \<noteq> fs_task_id msg then Inr st
                      else if fs_state msg \<in> {CLIENT_FILE_CANCEL, CLIENT_FILE_DONE, CLIENT_FILE_REFUSE}
                      then if_conn (GetOpponentConn (fs_user_id msg) t) (\<lambda>b. client_SendPdu e b img) st
                      else Inr st)) (client_Close a)) st)"

section \<open>Pulling data\<close>

text \<open>
  A connection that lost its task tries to load it from disk, and then uses it even if that failed. The answer
  is built before the checks; its data comes from \<open>DoPullFileRequest\<close>.
\<close>

definition pull_task :: "file_env \<Rightarrow> IMFilePullDataReq \<Rightarrow> nat \<Rightarrow> file_server \<Rightarrow> (nat \<times> file_server) res" where
  "pull_task e msg a st =
     bindR (client_at a st) (\<lambda>c.
       case fc_transfer_task c of
         Some x \<Rightarrow> Inr (x, st)
       | None \<Rightarrow>
           bindR (NewTransferTask_disk e (pq_task_id msg) st) (\<lambda>(task, st1).
             case task of
               None \<Rightarrow> Inl MemFault
             | Some x \<Rightarrow>
                 bindR (task_at x st1) (\<lambda>t.
                   Inr (x, set_task x (snd (ChangePullState e (pq_user_id msg) CLIENT_OFFLINE_DOWNLOAD t))
                             (set_client a (c\<lparr>fc_transfer_task := Some x\<rparr>) st1)))))"

text \<open>After the first segment the database is told, by way of a message server, that the download has started.\<close>

definition notify_download :: "file_env \<Rightarrow> fs_codec \<Rightarrow> transfer_task \<Rightarrow> string \<Rightarrow> fs_op" where
  "notify_download e pb t task_id st =
     (if GetNextOffset t = 32768
      then Send_to_msgserver e (wire_pdu SID_OTHER CID_FILE_Notify_dbserver 0
             (pb_ser (pb_DownloadNotify pb) [\<lparr>of_from_user_id = tt_to_user_id t, of_task_id = task_id, of_file_name = tt_file_name t,
                of_file_size = tt_file_size t, of_file_md5 = tt_file_md5 t, of_status = 3\<rparr>])) st
      else Inr st)"

definition answer_pull :: "file_env \<Rightarrow> fs_codec \<Rightarrow> pdu_header \<Rightarrow> bytes \<Rightarrow> IMFilePullDataReq \<Rightarrow> nat \<Rightarrow> nat \<Rightarrow> transfer_task \<Rightarrow> int \<Rightarrow> bytes \<Rightarrow> fs_op" where
  "answer_pull e pb hdr img msg a x t rv data st =
     (case tt_kind t of
        OnlineTransferTask _ \<Rightarrow>
          if_conn (GetOpponentConn (pq_user_id msg) t) (\<lambda>b. client_SendPdu e b img)
            (set_task x (t\<lparr>tt_kind := OnlineTransferTask (ucast (h_seq_num hdr))\<rparr>) st)
      | OfflineTransferTask _ \<Rightarrow>
          bindR (client_SendPdu e a (wire_pdu SID_FILE CID_FILE_PULL_DATA_RSP (h_seq_num hdr)
                   (pb_ser (pb_PullDataRsp pb) \<lparr>pr_result_code = 0, pr_task_id = pq_task_id msg, pr_user_id = pq_user_id msg,
                      pr_offset = pq_offset msg, pr_file_data = data\<rparr>)) st) (\<lambda>st1.
            if rv = 1 then StatesNotify e pb CLIENT_FILE_DONE FILE_DOWNLOAD (pq_task_id msg) (tt_from_user_id t) a st1 else Inr st1))"

definition HandleClientFilePullFileReq :: "file_env \<Rightarrow> fs_codec \<Rightarrow> pdu_header \<Rightarrow> bytes \<Rightarrow> nat \<Rightarrow> fs_op" where
  "HandleClientFilePullFileReq e pb hdr img a st =
     bindR (client_at a st) (\<lambda>c.
       if \<not> fc_auth c then Inr st
       else parsed (pb_PullDataReq pb) img (\<lambda>msg.
         bindR (pull_task e msg a st) (\<lambda>(x, st1).
           bindR (task_at x st1) (\<lambda>t.
             if pq_user_id msg \<noteq> fc_user_id c \<or> tt_task_id t \<noteq> pq_task_id msg \<or> \<not> CheckToUserID (pq_user_id msg) t then Inr st1
             else bindR (DoPullFileRequest e (pq_offset msg) (pq_trans_mode msg) t (fs_disk st1)) (\<lambda>(rv, data, t1).
                  bindR (notify_download e pb t1 (pq_task_id msg) (set_task x t1 st1)) (\<lambda>st2.
                    if rv = - 1 then Inr st2 else answer_pull e pb hdr img msg a x t1 rv data st2))))) st)"

section \<open>Receiving data\<close>

definition answer_data :: "file_env \<Rightarrow> fs_codec \<Rightarrow> bytes \<Rightarrow> IMFilePullDataRsp \<Rightarrow> nat \<Rightarrow> transfer_task \<Rightarrow> int \<Rightarrow> fs_op" where
  "answer_data e pb img msg a t rv st =
     (case tt_kind t of
        OnlineTransferTask seq \<Rightarrow> if_conn (tt_to_conn t) (\<lambda>b. client_SendPdu e b (with_seq (ucast seq) img)) st
      | OfflineTransferTask ot \<Rightarrow>
          if rv = 1 then StatesNotify e pb CLIENT_FILE_DONE FILE_UPLOAD (pr_task_id msg) (pr_user_id msg) a st
          else send_pull_req e pb a (pr_task_id msg) (pr_user_id msg) (GetTransMode t) (offline_GetNextOffset ot)
                 (GetNextSegmentBlockSize (- 1) (tt_file_size t) ot) st)"

definition HandleClientFilePullFileRsp :: "file_env \<Rightarrow> fs_codec \<Rightarrow> bytes \<Rightarrow> nat \<Rightarrow> fs_op" where
  "HandleClientFilePullFileRsp e pb img a st =
     bindR (client_at a st) (\<lambda>c.
       case fc_transfer_task c of
         None \<Rightarrow> Inr st
       | Some x \<Rightarrow>
           if \<not> fc_auth c then Inr st
           else parsed (pb_PullDataRsp pb) img (\<lambda>msg.
             bindR (task_at x st) (\<lambda>t.
               if pr_user_id msg \<noteq> fc_user_id c \<or> tt_task_id t \<noteq> pr_task_id msg then Inr st
               else bindR (DoRecvData e (pr_user_id msg) (pr_offset msg) (pr_file_data msg) t (fs_disk st)) (\<lambda>(rv, t1, dk).
                 let st1 = set_task x t1 (st\<lparr>fs_disk := dk\<rparr>)
                 in if rv = - 1 then Inr st1 else answer_data e pb img msg a t1 rv st1))) st)"

section \<open>Dispatch\<close>

definition client_HandlePdu :: "file_env \<Rightarrow> fs_codec \<Rightarrow> pdu_header \<Rightarrow> bytes \<Rightarrow> nat \<Rightarrow> fs_op" where
  "client_HandlePdu e pb hdr img a =
     (if h_command_id hdr = CID_OTHER_HEARTBEAT then client_SendPdu e a img
      else if h_command_id hdr = CID_FILE_LOGIN_REQ then HandleClientFileLoginReq e pb hdr img a
      else if h_command_id hdr = CID_FILE_STATE then HandleClientFileStates pb e img a
      else if h_command_id hdr = CID_FILE_PULL_DATA_REQ then HandleClientFilePullFileReq e pb hdr img a
      else if h_command_id hdr = CID_FILE_PULL_DATA_RSP then HandleClientFilePullFileRsp e pb img a
      else Inr)"

fun client_frames :: "file_env \<Rightarrow> fs_codec \<Rightarrow> nat \<Rightarrow> (pdu_header \<times> bytes) list \<Rightarrow> fs_op" where
  "client_frames e pb a [] st = Inr st"
| "client_frames e pb a (f # fs) st =
     bindR (client_HandlePdu e pb (fst f) (snd f) a st) (\<lambda>st1. bindR (client_at a st1) (\<lambda>_. client_frames e pb a fs st1))"

definition client_OnRead :: "file_env \<Rightarrow> fs_codec \<Rightarrow> (pdu_header \<times> bytes) list \<Rightarrow> bool \<Rightarrow> nat \<Rightarrow> fs_op" where
  "client_OnRead e pb fs bad a st =
     bindR (client_at a st) (\<lambda>c.
     bindR (client_frames e pb a fs (set_client a (c\<lparr>fc_last_recv_tick := fe_tick e\<rparr>) st)) (\<lambda>st1.
       if bad then client_OnClose a st1 else Inr st1))"

fun client_timer_loop :: "u64 \<Rightarrow> conn_map \<Rightarrow> fs_op" where
  "client_timer_loop cur_time [] st = Inr st"
| "client_timer_loop cur_time (it # its) st = bindR (client_OnTimer cur_time (snd it) st) (client_timer_loop cur_time its)"

definition FileClientConnTimerCallback :: "u64 \<Rightarrow> fs_op" where
  "FileClientConnTimerCallback cur_time st = client_timer_loop cur_time (g_file_client_conn_map st) st"

text \<open>\<open>FileClientConnCallback\<close>\<close>

definition accept_client :: "file_env \<Rightarrow> u32 \<Rightarrow> fs_op" where
  "accept_client e handle st =
     (let (a, h) = new_obj \<lparr>fc_handle = NETLIB_INVALID_HANDLE, fc_last_send_tick = fe_tick e, fc_last_recv_tick = fe_tick e,
                            fc_auth = False, fc_modetag = 0, fc_user_id = 0, fc_transfer_task = None\<rparr> (fs_clients st)
      in client_OnConnect a handle (st\<lparr>fs_clients := h\<rparr>))"

end
