(* ===== verification/FileMsgServerConn.thy ===== *)
theory FileMsgServerConn
  imports FileClientConn
begin

text \<open>
  The connections of message servers to the file server (\<open>file_server/file_msg_server_conn.cpp\<close>), and the events of the whole server.
\<close>

section \<open>Connections of message servers\<close>

definition msg_Close :: "nat \<Rightarrow> fs_op" where
  "msg_Close a st =
     bindR (deref a (fs_msgs st)) (\<lambda>c.
       let st1 = (if fm_handle c \<noteq> NETLIB_INVALID_HANDLE
                  then (fs_close_socket (fm_handle c) st)\<lparr>g_file_msg_server_conn_map := map_erase (fm_handle c) (g_file_msg_server_conn_map st)\<rparr>
                  else st)
       in bindR (release_ref a (fs_msgs st1)) (\<lambda>h. Inr (st1\<lparr>fs_msgs := h\<rparr>)))"

definition msg_OnConnect :: "nat \<Rightarrow> u32 \<Rightarrow> fs_op" where
  "msg_OnConnect a handle st =
     bindR (deref a (fs_msgs st)) (\<lambda>c.
       Inr (st\<lparr>fs_msgs := set_obj a (c\<lparr>fm_handle := handle\<rparr>) (fs_msgs st),
               g_file_msg_server_conn_map := hm_insert handle a (g_file_msg_server_conn_map st),
               fs_callback := hm_assign handle FS_MSG_SERVER (fs_callback st)\<rparr>))"

definition msg_OnTimer :: "u64 \<Rightarrow> nat \<Rightarrow> fs_op" where
  "msg_OnTimer curr_tick a st =
     bindR (deref a (fs_msgs st)) (\<lambda>c. if curr_tick > fm_last_recv_tick c + SERVER_TIMEOUT then msg_Close a st else Inr st)"

text \<open>A new task for a transfer; the size of the file is cut to 32 bits, and a request that is refused costs the message server its connection.\<close>

definition HandleMsgFileTransferReq :: "file_env \<Rightarrow> fs_codec \<Rightarrow> pdu_header \<Rightarrow> bytes \<Rightarrow> nat \<Rightarrow> fs_op" where
  "HandleMsgFileTransferReq e pb hdr img a st =
     parsed (pb_TransferReq pb) img (\<lambda>msg.
       let (task, st1) = (if fe_uuid e = [] then (None, st)
                          else NewTransferTask e (ft_trans_mode msg) (fe_uuid e) (ft_from_user_id msg) (ft_to_user_id msg)
                                 (ft_file_name msg) (ucast (ft_file_size msg)) (ft_file_md5 msg) st)
       in bindR (msg_SendPdu e a (wire_pdu SID_OTHER CID_OTHER_FILE_TRANSFER_RSP (h_seq_num hdr)
                   (pb_ser (pb_TransferRsp pb)
                     \<lparr>fp_result_code = (if task = None then 1 else 0), fp_from_user_id = ft_from_user_id msg, fp_to_user_id = ft_to_user_id msg,
                      fp_file_name = ft_file_name msg, fp_file_size = ucast (ft_file_size msg),
                      fp_task_id = (if task = None then [] else fe_uuid e), fp_trans_mode = ft_trans_mode msg,
                      fp_attach_data = Some (opt_bytes (ft_attach_data msg))\<rparr>)) st1) (\<lambda>st2.
            if task = None then msg_Close a st2 else Inr st2)) st"

definition HandleGetServerAddressReq :: "file_env \<Rightarrow> fs_codec \<Rightarrow> pdu_header \<Rightarrow> nat \<Rightarrow> fs_op" where
  "HandleGetServerAddressReq e pb hdr a st =
     msg_SendPdu e a (wire_pdu SID_OTHER CID_OTHER_FILE_SERVER_IP_RSP (h_seq_num hdr) (pb_ser (pb_ServerIPRsp pb) (fe_peer_addrs e))) st"

definition msg_HandlePdu :: "file_env \<Rightarrow> fs_codec \<Rightarrow> pdu_header \<Rightarrow> bytes \<Rightarrow> nat \<Rightarrow> fs_op" where
  "msg_HandlePdu e pb hdr img a =
     (if h_command_id hdr = CID_OTHER_HEARTBEAT then msg_SendPdu e a img
      else if h_command_id hdr = CID_OTHER_FILE_TRANSFER_REQ then HandleMsgFileTransferReq e pb hdr img a
      else if h_command_id hdr = CID_OTHER_FILE_SERVER_IP_REQ then HandleGetServerAddressReq e pb hdr a
      else Inr)"

fun msg_frames :: "file_env \<Rightarrow> fs_codec \<Rightarrow> nat \<Rightarrow> (pdu_header \<times> bytes) list \<Rightarrow> fs_op" where
  "msg_frames e pb a [] st = Inr st"
| "msg_frames e pb a (f # fs) st =
     bindR (msg_HandlePdu e pb (fst f) (snd f) a st) (\<lambda>st1. bindR (deref a (fs_msgs st1)) (\<lambda>_. msg_frames e pb a fs st1))"

definition msg_server_OnRead :: "file_env \<Rightarrow> fs_codec \<Rightarrow> (pdu_header \<times> bytes) list \<Rightarrow> bool \<Rightarrow> nat \<Rightarrow> fs_op" where
  "msg_server_OnRead e pb fs bad a st =
     bindR (deref a (fs_msgs st)) (\<lambda>c.
     bindR (msg_frames e pb a fs (st\<lparr>fs_msgs := set_obj a (c\<lparr>fm_last_recv_tick := fe_tick e\<rparr>) (fs_msgs st)\<rparr>)) (\<lambda>st1.
       if bad then msg_Close a st1 else Inr st1))"

fun msg_timer_loop :: "u64 \<Rightarrow> conn_map \<Rightarrow> fs_op" where
  "msg_timer_loop cur_time [] st = Inr st"
| "msg_timer_loop cur_time (it # its) st = bindR (msg_OnTimer cur_time (snd it) st) (msg_timer_loop cur_time its)"

definition FileMsgServerConnTimerCallback :: "u64 \<Rightarrow> fs_op" where
  "FileMsgServerConnTimerCallback cur_time st = msg_timer_loop cur_time (g_file_msg_server_conn_map st) st"

definition accept_msg_server :: "file_env \<Rightarrow> u32 \<Rightarrow> fs_op" where
  "accept_msg_server e handle st =
     (let (a, h) = new_obj \<lparr>fm_handle = NETLIB_INVALID_HANDLE, fm_last_send_tick = fe_tick e, fm_last_recv_tick = fe_tick e\<rparr> (fs_msgs st)
      in msg_OnConnect a handle (st\<lparr>fs_msgs := h\<rparr>))"

section \<open>Events\<close>

definition fs_add :: "fs_conn_type \<Rightarrow> nat \<Rightarrow> fs_op" where
  "fs_add t a st =
     (case t of
        FS_CLIENT \<Rightarrow> bindR (add_ref a (fs_clients st)) (\<lambda>h. Inr (st\<lparr>fs_clients := h\<rparr>))
      | FS_MSG_SERVER \<Rightarrow> bindR (add_ref a (fs_msgs st)) (\<lambda>h. Inr (st\<lparr>fs_msgs := h\<rparr>)))"

definition fs_release :: "fs_conn_type \<Rightarrow> nat \<Rightarrow> fs_op" where
  "fs_release t a st =
     (case t of
        FS_CLIENT \<Rightarrow> bindR (release_ref a (fs_clients st)) (\<lambda>h. Inr (st\<lparr>fs_clients := h\<rparr>))
      | FS_MSG_SERVER \<Rightarrow> bindR (release_ref a (fs_msgs st)) (\<lambda>h. Inr (st\<lparr>fs_msgs := h\<rparr>)))"

text \<open>The callback data of a socket decides which map is searched and whose method runs.\<close>

definition fs_dispatch :: "(nat \<Rightarrow> fs_op) \<Rightarrow> (nat \<Rightarrow> fs_op) \<Rightarrow> netlib_msg \<Rightarrow> u32 \<Rightarrow> fs_op" where
  "fs_dispatch on_client on_msg ev h st =
     (case map_of (fs_callback st) h of
        None \<Rightarrow> Inr st
      | Some FS_CLIENT \<Rightarrow>
          imconn_callback (fs_add FS_CLIENT) (fs_release FS_CLIENT) (\<lambda>_. on_client) (Some (g_file_client_conn_map st)) ev h st
      | Some FS_MSG_SERVER \<Rightarrow>
          imconn_callback (fs_add FS_MSG_SERVER) (fs_release FS_MSG_SERVER) (\<lambda>_. on_msg) (Some (g_file_msg_server_conn_map st)) ev h st)"

datatype file_event =
    ClientConnects u32
  | MsgServerConnects u32
  | SocketReadable u32 "(pdu_header \<times> bytes) list" bool
  | SocketClosed u32
  | ClientTimer
  | TaskTimer
  | MsgServerTimer

fun file_step :: "fs_codec \<Rightarrow> file_env \<Rightarrow> file_event \<Rightarrow> fs_op" where
  "file_step pb e (ClientConnects h) st = accept_client e h st"
| "file_step pb e (MsgServerConnects h) st = accept_msg_server e h st"
| "file_step pb e (SocketReadable h fs bad) st = fs_dispatch (client_OnRead e pb fs bad) (msg_server_OnRead e pb fs bad) NETLIB_MSG_READ h st"
| "file_step pb e (SocketClosed h) st = fs_dispatch client_OnClose msg_Close NETLIB_MSG_CLOSE h st"
| "file_step pb e ClientTimer st = FileClientConnTimerCallback (fe_tick e) st"
| "file_step pb e TaskTimer st = FileTaskTimerCallback e st"
| "file_step pb e MsgServerTimer st = FileMsgServerConnTimerCallback (fe_tick e) st"

text \<open>The states that the server reaches; a run stops at a fault.\<close>

inductive file_reachable :: "fs_codec \<Rightarrow> disk \<Rightarrow> file_server \<Rightarrow> bool" for pb dk where
  file_start: "file_reachable pb dk (file_init dk)"
| file_next: "file_reachable pb dk st \<Longrightarrow> file_step pb e ev st = Inr st' \<Longrightarrow> file_reachable pb dk st'"

end
