(* ===== verification/FileTyped.thy ===== *)
theory FileTyped
  imports FileMsgServerConn
begin

text \<open>
  An invariant of the file server: the table of tasks refers to live tasks, each task is in a state of its class, and the files of a task
  are open exactly when its state needs them. No task is ever done in the sense of the task timer, so the timer leaves the server as it is.
\<close>

section \<open>Results that satisfy a predicate\<close>

definition allR :: "('a \<Rightarrow> bool) \<Rightarrow> 'e + 'a \<Rightarrow> bool" where
  "allR P r = (case r of Inl _ \<Rightarrow> True | Inr y \<Rightarrow> P y)"

lemma allR_simps [simp]: "allR P (Inl e)" "allR P (Inr y) = P y"
  by (simp_all add: allR_def)

lemma allR_bind: "allR Q m \<Longrightarrow> (\<And>x. Q x \<Longrightarrow> allR P (f x)) \<Longrightarrow> allR P (bindR m f)"
  by (cases m) (simp_all add: bindR_def)

lemma allR_any: "(\<And>x. m = Inr x \<Longrightarrow> allR P (f x)) \<Longrightarrow> allR P (bindR m f)"
  by (cases m) (simp_all add: bindR_def)

lemma allR_D: "allR P r \<Longrightarrow> r = Inr y \<Longrightarrow> P y"
  by simp

section \<open>Tasks\<close>

definition mobile_typed :: "transfer_task \<Rightarrow> offline_part \<Rightarrow> bool" where
  "mobile_typed t ot \<longleftrightarrow>
     tt_state_mobile t \<in> {kTransferTaskStateReady, kTransferTaskStateWaitingDownload, kTransferTaskStateDownloading, kTransferTaskStateDownloadEnd}
     \<and> (tt_state_mobile t = kTransferTaskStateDownloading \<longrightarrow> ot_fp_mobile ot \<noteq> None)"

definition desktop_typed :: "transfer_task \<Rightarrow> offline_part \<Rightarrow> bool" where
  "desktop_typed t ot \<longleftrightarrow>
     tt_state t \<in> {kTransferTaskStateReady, kTransferTaskStateWaitingUpload, kTransferTaskStateUploading, kTransferTaskStateUploadEnd,
       kTransferTaskStateWaitingDownload, kTransferTaskStateDownloading, kTransferTaskStateDownloadEnd}
     \<and> (tt_state t \<in> {kTransferTaskStateUploading, kTransferTaskStateDownloading} \<longrightarrow> ot_fp ot \<noteq> None)
     \<and> (tt_state t \<in> {kTransferTaskStateReady, kTransferTaskStateWaitingUpload} \<longrightarrow> ot_fp ot = None)"

definition task_typed :: "transfer_task \<Rightarrow> bool" where
  "task_typed t \<longleftrightarrow>
     (case tt_kind t of
        OnlineTransferTask _ \<Rightarrow> tt_state t \<in> {kTransferTaskStateReady, kTransferTaskStateWaitingSender, kTransferTaskStateWaitingReceiver,
          kTransferTaskStateWaitingTransfer, kTransferTaskStateTransfering}
      | OfflineTransferTask ot \<Rightarrow> desktop_typed t ot \<and> mobile_typed t ot)"

lemmas typed_defs = task_typed_def desktop_typed_def mobile_typed_def

lemma typed_new: "task_typed (new_online e i f u n s m)" "task_typed (new_offline e i f u n s m)"
  by (simp_all add: typed_defs new_online_def new_offline_def BaseTransferTask_def)

lemma typed_loaded: "allR (\<lambda>t. case t of None \<Rightarrow> True | Some t \<Rightarrow> task_typed t) (LoadFromDisk e i dk)"
  unfolding LoadFromDisk_def
  by (auto simp: typed_defs new_offline_def BaseTransferTask_def Let_def split: option.splits prod.splits intro!: allR_any)

lemma typed_SetConn [simp]: "task_typed (SetConnByUserID u c m t) = task_typed t" "tt_state (SetConnByUserID u c m t) = tt_state t"
  by (cases "tt_kind t"; simp add: typed_defs SetConnByUserID_def)+

lemma typed_closed: "task_typed t \<Longrightarrow> state_num (tt_state t) \<ge> 9 \<Longrightarrow> task_typed (t\<lparr>tt_state := kTransferTaskStateWaitingDownload\<rparr>)"
  by (auto simp: typed_defs split: task_kind.splits)

lemma typed_ChangePullState: "task_typed t \<Longrightarrow> task_typed (snd (ChangePullState e u r t))"
  by (cases "tt_kind t") (auto simp: ChangePullState_def online_ChangePullState_def offline_ChangePullState_def SetLastUpdateTime_def typed_defs)

lemma typed_DoRecvData:
  assumes "task_typed t"
  shows "allR (\<lambda>(rv, t1, dk1). task_typed t1) (DoRecvData e u off data t dk)"
proof (cases "tt_kind t")
  case (OnlineTransferTask s)
  then show ?thesis using assms by (auto simp: DoRecvData_def online_DoRecvData_def SetLastUpdateTime_def typed_defs)
next
  case (OfflineTransferTask ot)
  then have t: "desktop_typed t ot" "mobile_typed t ot" using assms by (simp_all add: task_typed_def)
  show ?thesis
  proof (cases "tt_state t = kTransferTaskStateWaitingUpload \<or> tt_state t = kTransferTaskStateUploading")
    case True
    then have b: "allR (\<lambda>(ok, st, ot1, dk1). ot_fp_mobile ot1 = ot_fp_mobile ot
        \<and> (if ok then st = kTransferTaskStateUploading \<and> ot_fp ot1 \<noteq> None else st = tt_state t \<and> ot_fp ot1 = None \<and> st = kTransferTaskStateWaitingUpload))
        (begin_upload e t ot dk)"
      using t by (auto simp: begin_upload_def desktop_typed_def split: option.splits prod.splits intro!: allR_any)
    show ?thesis using t
      by (auto simp: DoRecvData_def OfflineTransferTask offline_DoRecvData_def end_upload_def SetLastUpdateTime_def typed_defs Let_def
          split: option.splits prod.splits if_splits intro!: allR_bind [OF b])
  qed (use assms in \<open>simp add: DoRecvData_def OfflineTransferTask offline_DoRecvData_def\<close>)
qed

lemma typed_DoPull:
  assumes "task_typed t"
  shows "allR (\<lambda>(rv, data, t1). task_typed t1) (DoPullFileRequest e off mode t dk)"
proof (cases "tt_kind t")
  case (OnlineTransferTask s)
  then show ?thesis using assms by (auto simp: DoPullFileRequest_def online_DoPullFileRequest_def SetLastUpdateTime_def typed_defs)
next
  case (OfflineTransferTask ot)
  show ?thesis
  proof (cases "mode = FILE_TYPE_OFFLINE_MOBILE")
    case True
    obtain st fp idx where b: "begin_download e (tt_task_id t) (tt_state_mobile t) (ot_fp_mobile ot) (ot_transfered_idx_mobile ot) dk = (st, fp, idx)"
      by (metis surj_pair)
    then have "(fp \<noteq> None \<longrightarrow> st = kTransferTaskStateDownloading) \<and> (fp = None \<longrightarrow> st = kTransferTaskStateWaitingDownload)"
      if "tt_state_mobile t = kTransferTaskStateWaitingDownload \<or> tt_state_mobile t = kTransferTaskStateDownloading"
      using that assms by (auto simp: begin_download_def OfflineTransferTask typed_defs Let_def split: if_splits option.splits prod.splits)
    then show ?thesis using assms b True
      by (auto simp: DoPullFileRequest_def OfflineTransferTask offline_DoPullFileRequest_def end_download_def SetLastUpdateTime_def typed_defs Let_def
          split: option.splits prod.splits)
  next
    case False
    obtain st fp idx where b: "begin_download e (tt_task_id t) (tt_state t) (ot_fp ot) (ot_transfered_idx ot) dk = (st, fp, idx)"
      by (metis surj_pair)
    then have "(fp \<noteq> None \<longrightarrow> st = kTransferTaskStateDownloading) \<and> (fp = None \<longrightarrow> st = kTransferTaskStateWaitingDownload)"
      if "tt_state t = kTransferTaskStateWaitingDownload \<or> tt_state t = kTransferTaskStateDownloading"
      using that assms by (auto simp: begin_download_def OfflineTransferTask typed_defs Let_def split: if_splits option.splits prod.splits)
    then show ?thesis using assms b False
      by (auto simp: DoPullFileRequest_def OfflineTransferTask offline_DoPullFileRequest_def end_download_def SetLastUpdateTime_def typed_defs Let_def
          split: option.splits prod.splits)
  qed
qed

end
