(* ===== verification/FileInv.thy ===== *)
theory FileInv
  imports FileTyped
begin

text \<open>
  The invariant of the file server's tasks is kept by every event, so it holds in all states that the server reaches.
\<close>

section \<open>The server\<close>

definition file_ok :: "file_server \<Rightarrow> bool" where
  "file_ok st \<longleftrightarrow> heap_ok (fs_tasks st) \<and> hm_ok (transfer_tasks st)
     \<and> (\<forall>i j x. map_of (transfer_tasks st) i = Some x \<longrightarrow> live x (fs_tasks st) \<and> (map_of (transfer_tasks st) j = Some x \<longrightarrow> i = j))
     \<and> (\<forall>x t. task_at x st = Inr t \<longrightarrow> task_typed t)"

lemma file_ok_init: "file_ok (file_init dk)"
  using heap_ok_empty by (simp add: file_ok_def file_init_def hm_ok_def task_at_def deref_def) (simp add: empty_heap_def)

text \<open>Only the tasks matter.\<close>

lemma file_ok_cong: "fs_tasks st' = fs_tasks st \<Longrightarrow> transfer_tasks st' = transfer_tasks st \<Longrightarrow> file_ok st' = file_ok st"
  by (simp add: file_ok_def task_at_def)

lemma file_ok_simps [simp]:
  "file_ok (st\<lparr>fs_disk := dk\<rparr>) = file_ok st" "file_ok (st\<lparr>fs_trace := tr\<rparr>) = file_ok st"
  "file_ok (st\<lparr>fs_clients := h\<rparr>) = file_ok st" "file_ok (st\<lparr>fs_msgs := m\<rparr>) = file_ok st"
  "file_ok (st\<lparr>fs_callback := cb\<rparr>) = file_ok st" "file_ok (st\<lparr>g_file_client_conn_map := cm\<rparr>) = file_ok st"
  "file_ok (st\<lparr>g_file_msg_server_conn_map := mm\<rparr>) = file_ok st" "file_ok (set_client a c st) = file_ok st"
  "file_ok (fs_close_socket k st) = file_ok st"
  by (rule file_ok_cong; simp add: set_client_def fs_close_socket_def)+

lemma fs_live_set_obj [simp]: "live b (set_obj a x h) = live b h"
  by (auto simp: live_def set_obj_def map_of_hm_assign split: option.splits)

lemma file_ok_set_task: "file_ok st \<Longrightarrow> task_typed t \<Longrightarrow> file_ok (set_task x t st)"
  by (auto simp: file_ok_def set_task_def task_at_def heap_ok_set_obj deref_set_obj)

lemma task_at_typed: "file_ok st \<Longrightarrow> task_at x st = Inr t \<Longrightarrow> task_typed t"
  by (simp add: file_ok_def)

lemma allR_task: "file_ok st \<Longrightarrow> (\<And>t. task_typed t \<Longrightarrow> allR P (f t)) \<Longrightarrow> allR P (bindR (task_at x st) f)"
  by (intro allR_any) (simp add: task_at_typed)

lemma file_ok_add_task:
  assumes "file_ok st" "task_typed t"
  shows "file_ok (snd (add_task i t st))"
proof -
  have h: "heap_ok (fs_tasks st)" using assms(1) by (simp add: file_ok_def)
  let ?x = "hp_next (fs_tasks st)" and ?st = "snd (add_task i t st)"
  have st: "fs_tasks ?st = snd (new_obj t (fs_tasks st))" "transfer_tasks ?st = hm_insert i ?x (transfer_tasks st)"
    by (simp_all add: add_task_def new_obj_def)
  have fresh: "map_of (transfer_tasks st) j \<noteq> Some ?x" for j
    using assms(1) heap_okD(1) [OF h] by (fastforce simp: file_ok_def live_def)
  have liv: "live y (fs_tasks ?st)" if "live y (fs_tasks st) \<or> y = ?x" for y
    using that by (auto simp: st live_def new_obj_def)
  have "task_at y ?st = Inr t' \<Longrightarrow> task_typed t'" for y t'
    using assms heap_ok_new(2) [OF h, of t] deref_new_other(1) [of y "fs_tasks st" t]
    by (cases "y = ?x") (auto simp: file_ok_def task_at_def st)
  moreover have "map_of (transfer_tasks ?st) = (if i \<in> keys (transfer_tasks st) then map_of (transfer_tasks st) else (map_of (transfer_tasks st))(i \<mapsto> ?x))"
    using assms(1) by (simp add: st hm.find_insert file_ok_def)
  moreover have "hm_ok (transfer_tasks ?st)" using assms(1) by (simp add: st hm.ok_insert file_ok_def)
  ultimately show ?thesis using assms(1) liv fresh heap_ok_new(1) [OF h, of t] unfolding file_ok_def st
    by (auto split: if_splits)
qed

lemma file_ok_delete:
  assumes "file_ok st" "map_of (transfer_tasks st) i = Some x"
  shows "allR file_ok (delete_task i x st)"
proof -
  have h: "heap_ok (fs_tasks st)" "live x (fs_tasks st)" using assms by (auto simp: file_ok_def)
  obtain h' where d: "delete_obj x (fs_tasks st) = Inr h'" "heap_ok h'" "\<And>b. deref b h' = (if b = x then Inl MemFault else deref b (fs_tasks st))"
    using delete_obj_spec [OF h] by blast
  have "live b h'" if "live b (fs_tasks st)" "b \<noteq> x" for b using live_deref [OF that(1)] d(3) [of b] that(2) deref_live by fastforce
  moreover have "live b (fs_tasks st)" "b \<noteq> x" if "j \<noteq> i" "map_of (transfer_tasks st) j = Some b" for b j
    using assms that by (auto simp: file_ok_def)
  ultimately have "live b h'" if "j \<noteq> i" "map_of (transfer_tasks st) j = Some b" for b j using that by blast
  then show ?thesis using assms d by (simp add: delete_task_def file_ok_def hm.ok_erase map_of_map_erase task_at_def)
qed


section \<open>Operations\<close>

lemma allR_client: "(\<And>c. allR P (f c)) \<Longrightarrow> allR P (bindR (client_at a st) f)"
  by (rule allR_any)

lemma allR_deref: "(\<And>c. allR P (f c)) \<Longrightarrow> allR P (bindR (deref a h) f)"
  by (rule allR_any)

lemma ok_client_Send: "file_ok st \<Longrightarrow> allR file_ok (client_SendPdu e a p st)"
  by (auto simp: client_SendPdu_def intro!: allR_any)

lemma ok_msg_Send: "file_ok st \<Longrightarrow> allR file_ok (msg_SendPdu e a p st)"
  by (auto simp: msg_SendPdu_def intro!: allR_any)

lemma ok_Notify: "file_ok st \<Longrightarrow> allR file_ok (StatesNotify e pb s ty i u c st)"
  by (simp add: StatesNotify_def ok_client_Send)

lemma ok_send_pull: "file_ok st \<Longrightarrow> allR file_ok (send_pull_req e pb a i u m off n st)"
  by (simp add: send_pull_req_def ok_client_Send)

lemma ok_if_conn: "file_ok st \<Longrightarrow> (\<And>a. allR file_ok (f a st)) \<Longrightarrow> allR file_ok (if_conn c f st)"
  by (simp add: if_conn_def split: option.split)

lemma ok_new_disk: "file_ok st \<Longrightarrow> allR (\<lambda>(x, st'). file_ok st') (NewTransferTask_disk e i st)"
  unfolding NewTransferTask_disk_def
proof (rule allR_bind [OF typed_loaded])
  fix t assume "file_ok st" "case t of None \<Rightarrow> True | Some t \<Rightarrow> task_typed t"
  then show "allR (\<lambda>(x, st'). file_ok st') (Inr (case t of None \<Rightarrow> (None, st) | Some t \<Rightarrow> add_task i t st))"
    using file_ok_add_task [of st _ i] by (cases t) (simp_all add: case_prod_beta)
qed

lemma ok_new: "file_ok st \<Longrightarrow> file_ok (snd (NewTransferTask e m i f u n s md st))"
  by (simp add: NewTransferTask_def file_ok_add_task typed_new split: option.split)

lemma ok_delete_by_close: "file_ok st \<Longrightarrow> allR file_ok (DeleteTransferTaskByConnClose i st)"
  by (auto simp: DeleteTransferTaskByConnClose_def file_ok_delete split: option.split intro!: allR_any)

lemma ok_detach: "file_ok st \<Longrightarrow> allR file_ok (detach_others a task its st)"
  by (induction a task its st rule: detach_others.induct) (auto intro!: allR_any)

lemma ok_release_task: "file_ok st \<Longrightarrow> allR file_ok (release_task u m x st)"
  unfolding release_task_def by (rule allR_task) (auto simp: Let_def typed_closed file_ok_set_task intro!: ok_delete_by_close)

lemma ok_Close: "file_ok st \<Longrightarrow> allR file_ok (client_Close a st)"
  unfolding client_Close_def
  by (intro allR_any allR_bind [OF ok_detach] allR_bind [where Q = file_ok])
    (auto simp: ok_release_task Let_def intro!: allR_any split: option.split)

lemma ok_after_login: "file_ok st \<Longrightarrow> allR file_ok (after_login e pb a u i x st)"
  by (auto simp: after_login_def ok_Notify ok_Close ok_send_pull split: task_kind.split option.split intro!: allR_any)

lemma ok_login_to_task: "file_ok st \<Longrightarrow> allR (\<lambda>(rv, st'). file_ok st') (login_to_task e a u m x st)"
  unfolding login_to_task_def
  by (rule allR_task) (auto simp: case_prod_beta typed_ChangePullState file_ok_set_task Let_def intro!: allR_any)

lemma ok_find_task: "file_ok st \<Longrightarrow> allR (\<lambda>(x, st'). file_ok st') (find_task e i m st)"
  by (simp add: find_task_def ok_new_disk split: option.split)

lemma ok_parsed: "file_ok st \<Longrightarrow> (\<And>m. allR file_ok (f m)) \<Longrightarrow> allR file_ok (parsed p img f st)"
  by (auto simp: parsed_def split: prod.split intro!: allR_any)

lemma ok_login: "file_ok st \<Longrightarrow> allR file_ok (HandleClientFileLoginReq e pb hdr img a st)"
  unfolding HandleClientFileLoginReq_def
  by (intro ok_parsed allR_bind [OF ok_find_task])
    (auto intro!: allR_bind [where Q = "\<lambda>(rv, st'). file_ok st'"] allR_bind [where Q = file_ok] ok_login_to_task ok_client_Send ok_after_login ok_Close
      split: option.split)

lemma ok_states: "file_ok st \<Longrightarrow> allR file_ok (HandleClientFileStates pb e img a st)"
  unfolding HandleClientFileStates_def
  by (auto intro!: allR_client ok_parsed allR_bind [where Q = file_ok] allR_task ok_Close ok_if_conn ok_client_Send split: option.split)

lemma ok_pull_task: "file_ok st \<Longrightarrow> allR (\<lambda>(x, st'). file_ok st') (pull_task e msg a st)"
  unfolding pull_task_def
  by (auto intro!: allR_client allR_bind [OF ok_new_disk] simp: file_ok_set_task typed_ChangePullState split: option.split)
    (rule allR_task, auto simp: file_ok_set_task typed_ChangePullState)

lemma ok_notify: "file_ok st \<Longrightarrow> allR file_ok (notify_download e pb t i st)"
  by (auto simp: notify_download_def Send_to_msgserver_def ok_msg_Send split: list.split)

lemma ok_answer_pull: "file_ok st \<Longrightarrow> task_typed t \<Longrightarrow> allR file_ok (answer_pull e pb hdr img msg a x t rv data st)"
  unfolding answer_pull_def
  by (auto intro!: ok_if_conn ok_client_Send allR_bind [OF ok_client_Send] ok_Notify file_ok_set_task simp: task_typed_def split: task_kind.splits)

lemma ok_pull: "file_ok st \<Longrightarrow> allR file_ok (HandleClientFilePullFileReq e pb hdr img a st)"
  unfolding HandleClientFilePullFileReq_def
  by (auto intro!: allR_client ok_parsed allR_bind [OF ok_pull_task] allR_task allR_bind [OF typed_DoPull] allR_bind [OF ok_notify] ok_answer_pull
      simp: file_ok_set_task)

lemma ok_data: "file_ok st \<Longrightarrow> allR file_ok (HandleClientFilePullFileRsp e pb img a st)"
  unfolding HandleClientFilePullFileRsp_def answer_data_def
  by (auto intro!: allR_client ok_parsed allR_task allR_bind [OF typed_DoRecvData] ok_if_conn ok_client_Send ok_Notify ok_send_pull
      simp: file_ok_set_task Let_def split: option.split task_kind.split)


lemma ok_client_Handle: "file_ok st \<Longrightarrow> allR file_ok (client_HandlePdu e pb hdr img a st)"
  by (simp add: client_HandlePdu_def ok_client_Send ok_login ok_states ok_pull ok_data)

lemma ok_client_frames: "file_ok st \<Longrightarrow> allR file_ok (client_frames e pb a fs st)"
  by (induction e pb a fs st rule: client_frames.induct) (auto intro!: allR_bind [OF ok_client_Handle] allR_client)

lemma ok_client_Read: "file_ok st \<Longrightarrow> allR file_ok (client_OnRead e pb fs bad a st)"
  unfolding client_OnRead_def client_OnClose_def by (auto intro!: allR_client allR_bind [OF ok_client_frames] ok_Close)

lemma ok_client_loop: "file_ok st \<Longrightarrow> allR file_ok (client_timer_loop tk its st)"
  by (induction tk its st rule: client_timer_loop.induct)
    (auto simp: client_OnTimer_def intro!: allR_client allR_bind [where Q = file_ok] ok_Close)

lemma ok_msg_Close: "file_ok st \<Longrightarrow> allR file_ok (msg_Close a st)"
  by (auto simp: msg_Close_def Let_def intro!: allR_any)

lemma ok_transfer: "file_ok st \<Longrightarrow> allR file_ok (HandleMsgFileTransferReq e pb hdr img a st)"
  unfolding HandleMsgFileTransferReq_def
  by (auto simp: Let_def ok_new case_prod_beta intro!: ok_parsed allR_bind [where Q = file_ok] ok_msg_Send ok_msg_Close)

lemma ok_msg_Handle: "file_ok st \<Longrightarrow> allR file_ok (msg_HandlePdu e pb hdr img a st)"
  by (simp add: msg_HandlePdu_def ok_msg_Send ok_transfer HandleGetServerAddressReq_def)

lemma ok_msg_frames: "file_ok st \<Longrightarrow> allR file_ok (msg_frames e pb a fs st)"
  by (induction e pb a fs st rule: msg_frames.induct) (auto intro!: allR_bind [OF ok_msg_Handle] allR_deref)

lemma ok_msg_Read:
  assumes "file_ok st"
  shows "allR file_ok (msg_server_OnRead e pb fs bad a st)"
  unfolding msg_server_OnRead_def by (rule allR_any, rule allR_bind [OF ok_msg_frames]) (use assms in \<open>auto intro: ok_msg_Close\<close>)

lemma ok_msg_loop: "file_ok st \<Longrightarrow> allR file_ok (msg_timer_loop tk its st)"
proof (induction tk its st rule: msg_timer_loop.induct)
  case (2 tk it its st)
  have "allR file_ok (msg_OnTimer tk (snd it) st)" unfolding msg_OnTimer_def
    by (rule allR_any) (use 2(2) in \<open>simp add: ok_msg_Close\<close>)
  then show ?case using 2(1) by (auto intro: allR_bind)
qed simp

lemma ok_callback:
  assumes "\<And>a st. file_ok st \<Longrightarrow> allR file_ok (on a st)" "file_ok st"
  shows "allR file_ok (imconn_callback (fs_add t) (fs_release t) (\<lambda>_. on) m ev h st)"
proof -
  have add: "allR file_ok (fs_add t a st)" "allR file_ok (fs_release t a st)" if "file_ok st" for a st
    using that by (auto simp: fs_add_def fs_release_def split: fs_conn_type.split intro!: allR_any)
  have find: "allR (\<lambda>(x, st'). file_ok st') (FindImConn (fs_add t) mm h st)" for mm
    using assms(2) by (auto simp: FindImConn_def split: option.split intro!: allR_bind [OF add(1)])
  show ?thesis using assms(2) unfolding imconn_callback_def
    by (auto split: option.split intro!: allR_bind [OF find] allR_bind [where Q = file_ok] assms(1) add(2))
qed

lemma task_timer_idle:
  assumes "file_ok st" "\<forall>p\<in>set its. p \<in> set (transfer_tasks st)"
  shows "task_timer_loop e its st = Inr st"
  using assms(2)
proof (induction its)
  case (Cons p its)
  obtain i x where p: "p = (i, x)" by (cases p)
  then have "map_of (transfer_tasks st) i = Some x" using Cons.prems assms(1) by (auto simp: file_ok_def hm.set_eq_graph)
  then have "live x (fs_tasks st)" using assms(1) by (auto simp: file_ok_def)
  then obtain t where t: "task_at x st = Inr t" using live_deref by (auto simp: task_at_def)
  then have "tt_state t \<noteq> kTransferTaskStateTransferDone" using task_at_typed [OF assms(1) t] by (auto simp: typed_defs split: task_kind.splits)
  then show ?case using Cons t by (simp add: p)
qed simp

lemma ok_step: "file_ok st \<Longrightarrow> allR file_ok (file_step pb e ev st)"
proof (cases ev)
  case (SocketReadable h fs bad)
  moreover assume "file_ok st"
  ultimately show ?thesis
    by (auto simp: fs_dispatch_def split: option.split fs_conn_type.split intro!: ok_callback ok_client_Read ok_msg_Read)
next
  case (SocketClosed h)
  moreover assume "file_ok st"
  ultimately show ?thesis
    by (auto simp: fs_dispatch_def client_OnClose_def split: option.split fs_conn_type.split intro!: ok_callback ok_Close ok_msg_Close)
next
  case TaskTimer
  moreover assume "file_ok st"
  ultimately show ?thesis by (simp add: FileTaskTimerCallback_def task_timer_idle)
qed (auto simp: accept_client_def client_OnConnect_def accept_msg_server_def msg_OnConnect_def FileClientConnTimerCallback_def
    FileMsgServerConnTimerCallback_def case_prod_beta ok_client_loop ok_msg_loop intro!: allR_any)

lemma reachable_ok: "file_reachable pb dk st \<Longrightarrow> file_ok st"
proof (induction rule: file_reachable.induct)
  case file_start
  show ?case by (rule file_ok_init)
next
  case (file_next st e ev st')
  show ?case by (rule allR_D [OF ok_step [OF file_next.IH] file_next.hyps(2)])
qed

end
