(* ===== verification/OfflineRuns.thy ===== *)
theory OfflineRuns
  imports OfflineTask
begin

text \<open>
  What offline tasks achieve over a whole transfer: the segments of a file that are uploaded in order are stored behind a header and checked by MD5, and the
  downloads, from the same task or from one that was loaded from disk after a restart, give back exactly the content.
\<close>

section \<open>Segments\<close>

abbreviation SEG :: nat where "SEG \<equiv> 32768"

definition segment :: "bytes \<Rightarrow> nat \<Rightarrow> bytes" where
  "segment dat k = take SEG (drop (k * SEG) dat)"

definition num_segments :: "nat \<Rightarrow> nat" where
  "num_segments n = (n + (SEG - 1)) div SEG"

definition segments :: "bytes \<Rightarrow> bytes list" where
  "segments dat = map (segment dat) [0..<num_segments (length dat)]"

lemma take_segment: "take (k * SEG) dat @ segment dat k = take (Suc k * SEG) dat"
  by (simp add: segment_def take_add [symmetric] add.commute)

lemma concat_segments_upto: "concat (map (segment dat) [0..<n]) = take (n * SEG) dat"
  by (induction n) (simp_all add: take_segment del: mult_Suc)

lemma num_segments_bounds: "n \<le> num_segments n * SEG" "k < num_segments n \<longleftrightarrow> k * SEG < n"
  by (simp_all add: num_segments_def) (simp add: less_eq_div_iff_mult_less_eq flip: Suc_le_eq, linarith?)

lemma concat_segments: "concat (segments dat) = dat"
  using num_segments_bounds(1) [of "length dat"] by (simp add: segments_def concat_segments_upto)

lemma length_segment:
  assumes "k < num_segments (length dat)"
  shows "length (segment dat k) = (if Suc k = num_segments (length dat) then length dat - k * SEG else SEG)"
proof -
  let ?n = "num_segments (length dat)"
  have "length (segment dat k) = min SEG (length dat - k * SEG)" by (simp add: segment_def min.commute)
  moreover have "length dat \<le> ?n * SEG" by (rule num_segments_bounds)
  moreover have "Suc k * SEG < length dat" if "Suc k \<noteq> ?n" using assms that num_segments_bounds(2) [of "Suc k" "length dat"] by simp
  ultimately show ?thesis by (cases "Suc k = ?n") (auto simp: min_def)
qed

lemma unat_small: "n < 4294967296 \<Longrightarrow> unat (of_nat n :: u32) = n"
  using unat_of_nat_u32 [of n] by simp

lemma SetMaxSegmentSize_num:
  assumes "n < 2 ^ 31"
  shows "SetMaxSegmentSize (of_nat n) = of_nat (num_segments n)"
proof -
  have u: "unat (of_nat n :: u32) = n" using assms by (simp add: unat_small)
  have q: "n div SEG < 4294967296" using assms by (simp add: div_le_dividend [THEN le_less_trans])
  have r: "n mod SEG < 4294967296" by (rule less_trans [OF mod_less_divisor]) simp_all
  have d: "(of_nat n :: u32) div SEGMENT_SIZE = of_nat (n div SEG)" by (simp only: word_unat_eq_iff unat_div u unat_small [OF q]) simp
  have m: "(of_nat n :: u32) mod SEGMENT_SIZE = of_nat (n mod SEG)" by (simp only: word_unat_eq_iff unat_mod u unat_small [OF r]) simp
  have z: "of_nat (n mod SEG) = (0 :: u32) \<longleftrightarrow> n mod SEG = 0" by (simp add: word_unat_eq_iff unat_small)
  have "num_segments n = (if n mod SEG \<noteq> 0 then n div SEG + 1 else n div SEG)"
  proof -
    let ?r = "n mod SEG"
    have "n + (SEG - 1) = (?r + 32767) + n div SEG * SEG" by simp
    then have "num_segments n = (?r + 32767) div SEG + n div SEG" unfolding num_segments_def by (simp only: div_mult_self1)
    moreover have "(?r + 32767) div SEG = (if ?r \<noteq> 0 then 1 else 0)" by (auto intro: div_nat_eqI)
    ultimately show ?thesis by simp
  qed
  then show ?thesis by (simp add: SetMaxSegmentSize_def d m z)
qed

lemma block_size:
  assumes "k < num_segments (length dat)" "length dat < 2 ^ 31" "ot_transfered_idx ot = of_nat k"
    "ot_sengment_size ot = of_nat (num_segments (length dat))" "mode \<noteq> FILE_TYPE_OFFLINE_MOBILE"
  shows "unat (GetNextSegmentBlockSize mode (of_nat (length dat)) ot) = length (segment dat k)"
proof -
  let ?n = "num_segments (length dat)"
  have n: "?n \<le> 65536" using assms(2) by (simp add: num_segments_def)
  have eq: "of_nat k + 1 = (of_nat ?n :: u32) \<longleftrightarrow> Suc k = ?n"
    using n assms(1) unat_small [of "Suc k"] unat_small [of ?n] by (auto simp: word_unat_eq_iff add.commute)
  have "k * SEG < length dat" using assms(1) by (simp add: num_segments_bounds)
  then have "of_nat (length dat) - of_nat k * SEGMENT_SIZE = (of_nat (length dat - k * SEG) :: u32)" by (simp add: of_nat_diff)
  moreover have "length dat - k * SEG < 4294967296" using assms(2) by simp
  ultimately have "unat (of_nat (length dat) - of_nat k * SEGMENT_SIZE) = length dat - k * SEG" using unat_small by metis
  then show ?thesis using length_segment [OF assms(1)] eq assms(3-5) by (simp add: GetNextSegmentBlockSize_def Let_def)
qed

section \<open>A file that can be stored\<close>

text \<open>
  The conditions on a task and its surroundings: the identifier and the path fit their buffers, directory and file can be opened, and the MD5 is
  a plain string that fits the header (\<open>sprintf\<close> copies a format without \<open>%\<close>).
\<close>

definition storable :: "file_env \<Rightarrow> transfer_task \<Rightarrow> bool" where
  "storable e t \<longleftrightarrow> 2 \<le> length (tt_task_id t) \<and> length (tt_task_id t) < 128 \<and> NUL \<notin> set (tt_task_id t)
     \<and> length (fe_dir e) + length (tt_task_id t) + 4 < BUFSIZ
     \<and> fe_mkdir e (fe_dir e @ ''/'' @ take 2 (tt_task_id t)) \<and> fe_fopen e (file_path e (tt_task_id t))
     \<and> length (tt_file_md5 t) < 64 \<and> NUL \<notin> set (tt_file_md5 t) \<and> CHR ''%'' \<notin> set (tt_file_md5 t)
     \<and> (\<forall>p n. CHR ''%'' \<notin> set p \<longrightarrow> fe_sprintf e p n = p) \<and> fe_time e < 10 ^ 20"

lemma file_path_full:
  assumes "storable e t"
  shows "file_path e (tt_task_id t) = fe_dir e @ ''/'' @ take 2 (tt_task_id t) @ ''/'' @ tt_task_id t"
proof -
  have "c_str (tt_task_id t) = tt_task_id t" "c_str (take 2 (tt_task_id t)) = take 2 (tt_task_id t)"
    using assms by (auto simp: storable_def intro!: c_str_id dest: in_set_takeD)
  moreover have "length (fe_dir e @ ''/'' @ take 2 (tt_task_id t) @ ''/'' @ tt_task_id t) \<le> BUFSIZ - 1"
    using assms unfolding storable_def by (auto simp: min_def)
  ultimately show ?thesis by (simp only: file_path_def take_all)
qed

lemma OpenByWrite_new:
  assumes "storable e t" "map_of (dk_names dk) (file_path e (tt_task_id t)) = None"
  shows "OpenByWrite e (tt_task_id t) dk = Inr (Some \<lparr>fh_file = dk_next dk, fh_pos = 0\<rparr>,
    dk\<lparr>dk_names := hm_assign (file_path e (tt_task_id t)) (dk_next dk) (dk_names dk),
       dk_files := hm_assign (dk_next dk) [] (dk_files dk), dk_next := dk_next dk + 1\<rparr>)"
proof -
  have c: "c_str (tt_task_id t) = tt_task_id t" "c_str (take 2 (tt_task_id t)) = take 2 (tt_task_id t)"
    using assms(1) by (auto simp: storable_def intro!: c_str_id dest: in_set_takeD)
  have "length (fe_dir e @ ''/'' @ take 2 (tt_task_id t)) \<le> BUFSIZ - 1" using assms(1) unfolding storable_def by (auto simp: min_def)
  then have "take (BUFSIZ - 1) (fe_dir e @ ''/'' @ take 2 (tt_task_id t)) = fe_dir e @ ''/'' @ take 2 (tt_task_id t)" by (rule take_all)
  then show ?thesis using assms file_path_full [OF assms(1)] unfolding OpenByWrite_def
    by (simp add: c Let_def storable_def fopen_ab_def)
qed

lemma length_header_field: "length s \<le> n \<Longrightarrow> length (header_field n s) = n"
  by (simp add: header_field_def)

definition header_of :: "file_env \<Rightarrow> transfer_task \<Rightarrow> bytes" where
  "header_of e t = header_field 128 (tt_task_id t) @ header_field 64 (decimal (unat (tt_from_user_id t)))
     @ header_field 64 (decimal (unat (tt_to_user_id t))) @ header_field 128 (decimal (fe_time e)) @ header_field 512 []
     @ header_field 64 (decimal (unat (tt_file_size t))) @ header_field 64 (tt_file_md5 t)"

lemma length_decimal_u32: "length (decimal (unat (w :: u32))) < 64"
proof -
  have "unat w < 10 ^ 10" using unat_lt_u32 [of w] by simp
  then show ?thesis using length_decimal [of "unat w" 10] by simp
qed

lemma OfflineFileHeader_storable:
  assumes "storable e t"
  shows "OfflineFileHeader e t = Inr (header_of e t)" "length (header_of e t) = HEADER_SIZE"
proof -
  have "c_str (tt_task_id t) = tt_task_id t" "c_str (tt_file_md5 t) = tt_file_md5 t"
    using assms by (auto simp: storable_def intro!: c_str_id)
  then show "OfflineFileHeader e t = Inr (header_of e t)" using assms by (simp add: OfflineFileHeader_def header_of_def storable_def Let_def)
  have "length (decimal (fe_time e)) < 128" using assms length_decimal [of "fe_time e" 20] by (simp add: storable_def)
  then show "length (header_of e t) = HEADER_SIZE"
    using assms by (simp add: header_of_def storable_def length_header_field length_decimal_u32 less_imp_le)
qed

section \<open>Uploading\<close>

text \<open>\<open>k\<close> segments have been stored; \<open>t0\<close> is the task at the start.\<close>

definition uploading :: "file_env \<Rightarrow> transfer_task \<Rightarrow> bytes \<Rightarrow> nat \<Rightarrow> transfer_task \<Rightarrow> disk \<Rightarrow> bool" where
  "uploading e t0 dat k t dk \<longleftrightarrow>
     (\<exists>ot. tt_kind t = OfflineTransferTask ot \<and> ot_transfered_idx ot = of_nat k \<and> ot_sengment_size ot = of_nat (num_segments (length dat))
       \<and> ot_sengment_size_mobile ot = of_nat (num_segments (length dat)) \<and> t = t0\<lparr>tt_create_time := tt_create_time t, tt_state := tt_state t, tt_kind := tt_kind t\<rparr>
       \<and> (if k = 0 then tt_state t = kTransferTaskStateWaitingUpload \<and> ot_fp ot = None \<and> map_of (dk_names dk) (file_path e (tt_task_id t0)) = None
          else tt_state t = kTransferTaskStateUploading \<and> (\<exists>h. ot_fp ot = Some h \<and> map_of (dk_names dk) (file_path e (tt_task_id t0)) = Some (fh_file h)
            \<and> file_data (fh_file h) dk = header_of e t0 @ take (k * SEG) dat)))"

text \<open>All segments have been stored and the MD5 is the one of the task.\<close>

definition stored :: "file_env \<Rightarrow> transfer_task \<Rightarrow> bytes \<Rightarrow> disk \<Rightarrow> bool" where
  "stored e t0 dat dk \<longleftrightarrow> (\<exists>i. map_of (dk_names dk) (file_path e (tt_task_id t0)) = Some i \<and> file_data i dk = header_of e t0 @ dat)"

lemma md5_read_all:
  "md5_read h dk acc = (acc @ drop (fh_pos h) (file_data (fh_file h) dk), h\<lparr>fh_pos := max (fh_pos h) (length (file_data (fh_file h) dk))\<rparr>)"
proof (induction h dk acc rule: md5_read.induct)
  case (1 h dk acc)
  let ?d = "file_data (fh_file h) dk"
  show ?case
  proof (cases "length ?d < fh_pos h + READ_DATA_SIZE")
    case True
    then show ?thesis by (subst md5_read.simps) (auto simp: fread_def Let_def max_def)
  next
    case False
    have "fread READ_DATA_SIZE h dk = (take READ_DATA_SIZE (drop (fh_pos h) ?d), h\<lparr>fh_pos := fh_pos h + READ_DATA_SIZE\<rparr>)"
      using False by (intro fread_all) simp
    moreover from this have "md5_read (h\<lparr>fh_pos := fh_pos h + READ_DATA_SIZE\<rparr>) dk (acc @ take READ_DATA_SIZE (drop (fh_pos h) ?d)) =
        ((acc @ take READ_DATA_SIZE (drop (fh_pos h) ?d)) @ drop (fh_pos h + READ_DATA_SIZE) ?d,
         h\<lparr>fh_pos := max (fh_pos h + READ_DATA_SIZE) (length ?d)\<rparr>)"
      using "1.IH" [OF refl] False by (simp add: Let_def)
    moreover have "take READ_DATA_SIZE (drop (fh_pos h) ?d) @ drop (fh_pos h + READ_DATA_SIZE) ?d = drop (fh_pos h) ?d"
      by (metis add.commute append_take_drop_id drop_drop)
    ultimately show ?thesis using False by (subst md5_read.simps) (simp add: max_def)
  qed
qed

lemma file_data_new: "file_data (dk_next dk) (dk\<lparr>dk_names := m, dk_files := hm_assign (dk_next dk) d (dk_files dk), dk_next := n\<rparr>) = d"
  by (simp add: file_data_def map_of_hm_assign)

lemma begin_upload_ok:
  assumes ok: "storable e t0" and u: "uploading e t0 dat k t dk" "tt_kind t = OfflineTransferTask ot"
  shows "\<exists>h dk1. begin_upload e t ot dk = Inr (True, kTransferTaskStateUploading, ot\<lparr>ot_fp := Some h\<rparr>, dk1)
    \<and> map_of (dk_names dk1) (file_path e (tt_task_id t0)) = Some (fh_file h) \<and> file_data (fh_file h) dk1 = header_of e t0 @ take (k * SEG) dat"
proof (cases "k = 0")
  case True
  obtain c s x where t: "t = t0\<lparr>tt_create_time := c, tt_state := s, tt_kind := x\<rparr>" and st: "tt_state t = kTransferTaskStateWaitingUpload" "ot_fp ot = None"
    "map_of (dk_names dk) (file_path e (tt_task_id t0)) = None" using u True unfolding uploading_def by auto
  have ok': "storable e t" and id: "tt_task_id t = tt_task_id t0" and hdr: "header_of e t = header_of e t0"
    using ok unfolding t by (simp_all add: storable_def header_of_def)
  let ?h = "\<lparr>fh_file = dk_next dk, fh_pos = 0\<rparr>"
  let ?dk = "dk\<lparr>dk_names := hm_assign (file_path e (tt_task_id t0)) (dk_next dk) (dk_names dk), dk_files := hm_assign (dk_next dk) [] (dk_files dk), dk_next := dk_next dk + 1\<rparr>"
  obtain h1 dk2 where app: "fappend ?h (header_of e t0) ?dk = (h1, dk2)" by fastforce
  have "OpenByWrite e (tt_task_id t) dk = Inr (Some ?h, ?dk)" using OpenByWrite_new [OF ok'] st(3) id by simp
  then have "begin_upload e t ot dk = Inr (True, kTransferTaskStateUploading, ot\<lparr>ot_fp := Some h1\<rparr>, dk2)"
    using st OfflineFileHeader_storable(1) [OF ok'] app hdr by (simp add: begin_upload_def)
  moreover have "h1 = fst (fappend ?h (header_of e t0) ?dk)" "dk2 = snd (fappend ?h (header_of e t0) ?dk)" by (simp_all only: app fst_conv snd_conv)
  then have "fh_file h1 = dk_next dk" "dk_names dk2 = dk_names ?dk" "file_data (dk_next dk) dk2 = header_of e t0"
    by (simp_all only: fappend_simps file_data_fappend) (simp_all add: file_data_new)
  ultimately show ?thesis using True by (auto simp: map_of_hm_assign)
next
  case False
  then obtain h where h: "tt_state t = kTransferTaskStateUploading" "ot_fp ot = Some h"
    "map_of (dk_names dk) (file_path e (tt_task_id t0)) = Some (fh_file h)" "file_data (fh_file h) dk = header_of e t0 @ take (k * SEG) dat"
    using u unfolding uploading_def by auto
  then have "ot = ot\<lparr>ot_fp := Some h\<rparr>" by simp
  then show ?thesis using h by (intro exI [of _ h] exI [of _ dk]) (simp add: begin_upload_def)
qed

text \<open>The task at the end of an upload.\<close>

definition upload_done :: "transfer_task \<Rightarrow> bytes \<Rightarrow> transfer_task \<Rightarrow> bool" where
  "upload_done t0 dat t \<longleftrightarrow> t = t0\<lparr>tt_create_time := tt_create_time t, tt_state := kTransferTaskStateUploadEnd, tt_kind := tt_kind t\<rparr>
     \<and> (\<exists>ot. tt_kind t = OfflineTransferTask ot \<and> ot_fp ot = None \<and> ot_transfered_idx ot = of_nat (num_segments (length dat))
       \<and> ot_sengment_size ot = of_nat (num_segments (length dat)) \<and> ot_sengment_size_mobile ot = of_nat (num_segments (length dat)))"

lemma end_upload_result:
  assumes "length (header_of e t0) = HEADER_SIZE" "file_data (fh_file h) dk = header_of e t0 @ dat"
    "map_of (dk_names dk) (file_path e (tt_task_id t)) = Some (fh_file h)"
  shows "\<exists>h'. end_upload e t st ot h dk = (if hex_string (fe_md5 e dat) = c_str (tt_file_md5 t) then (1, kTransferTaskStateUploadEnd, ot\<lparr>ot_fp := None\<rparr>, dk)
    else (- 1, st, ot\<lparr>ot_fp := Some h'\<rparr>, remove_file (file_path e (tt_task_id t)) dk))"
  using assms by (auto simp: end_upload_def Compute_file_md5_def md5_read_all)

lemma upload_step:
  assumes ok: "storable e t0" "tt_file_size t0 = of_nat (length dat)" "length dat < 2 ^ 31"
    and u: "uploading e t0 dat k t dk" and k: "k < num_segments (length dat)"
  shows "\<exists>rv t' dk'. DoRecvData e (tt_from_user_id t0) (of_nat k * SEGMENT_SIZE) (segment dat k) t dk = Inr (rv, t', dk') \<and>
    (if Suc k < num_segments (length dat) then rv = 0 \<and> uploading e t0 dat (Suc k) t' dk'
     else if hex_string (fe_md5 e dat) = tt_file_md5 t0 then rv = 1 \<and> upload_done t0 dat t' \<and> stored e t0 dat dk'
     else rv = - 1 \<and> map_of (dk_names dk') (file_path e (tt_task_id t0)) = None)"
proof -
  let ?n = "num_segments (length dat)" and ?path = "file_path e (tt_task_id t0)"
  obtain ot where ot: "tt_kind t = OfflineTransferTask ot" "ot_transfered_idx ot = of_nat k" "ot_sengment_size ot = of_nat ?n"
    "ot_sengment_size_mobile ot = of_nat ?n" "tt_state t = kTransferTaskStateWaitingUpload \<or> tt_state t = kTransferTaskStateUploading"
    using u unfolding uploading_def by (auto split: if_splits)
  obtain c s x where t: "t = t0\<lparr>tt_create_time := c, tt_state := s, tt_kind := x\<rparr>" using u unfolding uploading_def by auto
  obtain h dk1 where b: "begin_upload e t ot dk = Inr (True, kTransferTaskStateUploading, ot\<lparr>ot_fp := Some h\<rparr>, dk1)"
    "map_of (dk_names dk1) ?path = Some (fh_file h)" "file_data (fh_file h) dk1 = header_of e t0 @ take (k * SEG) dat"
    using begin_upload_ok [OF ok(1) u ot(1)] by blast
  have size: "unat (GetNextSegmentBlockSize (- 1) (tt_file_size t) ot) = length (segment dat k)"
    using block_size [OF k ok(3) ot(2,3), of "- 1"] ok(2) by (simp add: t)
  obtain h2 dk2 where app: "fappend h (segment dat k) dk1 = (h2, dk2)" by fastforce
  have f: "fh_file h2 = fh_file h" "map_of (dk_names dk2) ?path = Some (fh_file h2)"
    "file_data (fh_file h2) dk2 = header_of e t0 @ take (Suc k * SEG) dat"
    using fappend_simps [of h "segment dat k" dk1] file_data_fappend [of "fh_file h" h "segment dat k" dk1] app b(2,3) take_segment [of k dat]
    by (simp_all del: fappend_simps mult_Suc)
  let ?ot = "ot\<lparr>ot_fp := Some h2, ot_transfered_idx := of_nat (Suc k)\<rparr>"
  have n: "?n \<le> 65536" using ok(3) by (simp add: num_segments_def)
  have eq: "of_nat (Suc k) = (of_nat ?n :: u32) \<longleftrightarrow> Suc k = ?n" using n k unat_small [of "Suc k"] unat_small [of ?n] by (auto simp: word_unat_eq_iff simp del: of_nat_Suc)
  have run: "DoRecvData e (tt_from_user_id t0) (of_nat k * SEGMENT_SIZE) (segment dat k) t dk =
      (let (rv, st3, ot3, dk3) = (if Suc k = ?n then end_upload e t kTransferTaskStateUploading ?ot h2 dk2 else (0, kTransferTaskStateUploading, ?ot, dk2))
       in Inr (rv, SetLastUpdateTime e (t\<lparr>tt_state := st3, tt_kind := OfflineTransferTask ot3\<rparr>), dk3))"
    using ot b(1) size app eq by (auto simp: DoRecvData_def offline_DoRecvData_def CheckFromUserID_def t Let_def add.commute)
  show ?thesis
  proof (cases "Suc k = ?n")
    case False
    have "uploading e t0 dat (Suc k) (SetLastUpdateTime e (t\<lparr>tt_state := kTransferTaskStateUploading, tt_kind := OfflineTransferTask ?ot\<rparr>)) dk2"
      unfolding uploading_def using f ot(3,4) by (auto simp: SetLastUpdateTime_def t)
    then show ?thesis using run False k by simp
  next
    case True
    have "take (Suc k * SEG) dat = dat" using num_segments_bounds(1) [of "length dat"] by (simp add: True)
    then have fd: "file_data (fh_file h2) dk2 = header_of e t0 @ dat" using f(3) by simp
    have id: "tt_task_id t = tt_task_id t0" "c_str (tt_file_md5 t) = tt_file_md5 t0"
      using ok(1) by (auto simp: t storable_def intro!: c_str_id)
    obtain h' where e: "end_upload e t kTransferTaskStateUploading ?ot h2 dk2 = (if hex_string (fe_md5 e dat) = tt_file_md5 t0
        then (1, kTransferTaskStateUploadEnd, ?ot\<lparr>ot_fp := None\<rparr>, dk2)
        else (- 1, kTransferTaskStateUploading, ?ot\<lparr>ot_fp := Some h'\<rparr>, remove_file ?path dk2))"
      using end_upload_result [OF OfflineFileHeader_storable(2) [OF ok(1)] fd, of t] f(2) id by metis
    show ?thesis
    proof (cases "hex_string (fe_md5 e dat) = tt_file_md5 t0")
      case md: True
      then show ?thesis using run e True f(2) fd ot(3,4) by (auto simp: upload_done_def stored_def SetLastUpdateTime_def t)
    next
      case md: False
      then show ?thesis using run e True by (auto simp: remove_file_def map_of_map_erase)
    qed
  qed
qed

section \<open>A whole upload\<close>

text \<open>The calls of \<open>DoRecvData\<close> for the segments that a client sends, each with its offset; the results are collected.\<close>

fun recv_all :: "file_env \<Rightarrow> u32 \<Rightarrow> (u32 \<times> bytes) list \<Rightarrow> transfer_task \<Rightarrow> disk \<Rightarrow> (int list \<times> transfer_task \<times> disk) res" where
  "recv_all e user_id [] t dk = Inr ([], t, dk)"
| "recv_all e user_id ((offset, data) # xs) t dk =
     bindR (DoRecvData e user_id offset data t dk) (\<lambda>(rv, t1, dk1).
     bindR (recv_all e user_id xs t1 dk1) (\<lambda>(rvs, t2, dk2). Inr (rv # rvs, t2, dk2)))"

definition offset_segments :: "bytes \<Rightarrow> (u32 \<times> bytes) list" where
  "offset_segments dat = map (\<lambda>k. (of_nat k * SEGMENT_SIZE, segment dat k)) [0..<num_segments (length dat)]"

lemma upload_from:
  assumes ok: "storable e t0" "tt_file_size t0 = of_nat (length dat)" "length dat < 2 ^ 31"
    and n: "n = num_segments (length dat)" and u: "uploading e t0 dat k t dk" and k: "k < n"
  shows "\<exists>rv t' dk'. recv_all e (tt_from_user_id t0) (map (\<lambda>k. (of_nat k * SEGMENT_SIZE, segment dat k)) [k..<n]) t dk
      = Inr (replicate (n - Suc k) 0 @ [rv], t', dk') \<and>
    (if hex_string (fe_md5 e dat) = tt_file_md5 t0 then rv = 1 \<and> upload_done t0 dat t' \<and> stored e t0 dat dk'
     else rv = - 1 \<and> map_of (dk_names dk') (file_path e (tt_task_id t0)) = None)"
  using k u
proof (induction "n - Suc k" arbitrary: k t dk)
  case 0
  then have "[k..<n] = [k]" "\<not> Suc k < n" by (auto simp: upt_rec)
  with upload_step [OF ok 0(3)] 0 n show ?case by (fastforce split: if_splits)
next
  case (Suc m)
  then have l: "[k..<n] = k # [Suc k..<n]" "Suc k < n" "n - Suc k = Suc (n - Suc (Suc k))" by (auto simp: upt_rec)
  obtain t' dk' where s: "DoRecvData e (tt_from_user_id t0) (of_nat k * SEGMENT_SIZE) (segment dat k) t dk = Inr (0, t', dk')"
    "uploading e t0 dat (Suc k) t' dk'" using upload_step [OF ok Suc(4)] Suc(3) l(2) n by auto
  have "m = n - Suc (Suc k)" using Suc(2) by simp
  with Suc(1) l(2) s(2) obtain rv t2 dk2 where
    r: "recv_all e (tt_from_user_id t0) (map (\<lambda>k. (of_nat k * SEGMENT_SIZE, segment dat k)) [Suc k..<n]) t' dk'
      = Inr (replicate (n - Suc (Suc k)) 0 @ [rv], t2, dk2)"
    and q: "if hex_string (fe_md5 e dat) = tt_file_md5 t0 then rv = 1 \<and> upload_done t0 dat t2 \<and> stored e t0 dat dk2
      else rv = - 1 \<and> map_of (dk_names dk2) (file_path e (tt_task_id t0)) = None" by blast
  show ?case by (intro exI [of _ rv] exI [of _ t2] exI [of _ dk2] conjI [OF _ q]) (simp add: l(1,3) r s(1))
qed

text \<open>Conditions on an upload that is about to start: a task that its sender has logged in to, no file under its path, and a content of the announced size.\<close>

definition upload_ready :: "file_env \<Rightarrow> bytes \<Rightarrow> transfer_task \<Rightarrow> disk \<Rightarrow> bool" where
  "upload_ready e dat t dk \<longleftrightarrow> storable e t \<and> dat \<noteq> [] \<and> length dat < 2 ^ 31 \<and> tt_file_size t = of_nat (length dat)
     \<and> tt_state t = kTransferTaskStateWaitingUpload \<and> map_of (dk_names dk) (file_path e (tt_task_id t)) = None
     \<and> (case tt_kind t of OnlineTransferTask _ \<Rightarrow> False
        | OfflineTransferTask ot \<Rightarrow> ot_fp ot = None \<and> ot_transfered_idx ot = 0 \<and> ot_sengment_size ot = SetMaxSegmentSize (tt_file_size t)
            \<and> ot_sengment_size_mobile ot = SetMaxSegmentSize (tt_file_size t))"

lemma num_segments_pos: "dat \<noteq> [] \<Longrightarrow> 0 < num_segments (length dat)"
  using num_segments_bounds(2) [of 0 "length dat"] by simp

lemma upload_ready_uploading:
  assumes "upload_ready e dat t dk"
  shows "uploading e t dat 0 t dk"
  using assms SetMaxSegmentSize_num [of "length dat"] by (cases "tt_kind t") (auto simp: upload_ready_def uploading_def)

lemma upload_all:
  assumes r: "upload_ready e dat t dk"
  shows "\<exists>rv t' dk'. recv_all e (tt_from_user_id t) (offset_segments dat) t dk
      = Inr (replicate (num_segments (length dat) - 1) 0 @ [rv], t', dk') \<and>
    (if hex_string (fe_md5 e dat) = tt_file_md5 t then rv = 1 \<and> upload_done t dat t' \<and> stored e t dat dk'
     else rv = - 1 \<and> map_of (dk_names dk') (file_path e (tt_task_id t)) = None)"
proof -
  have ok: "storable e t" "tt_file_size t = of_nat (length dat)" "length dat < 2 ^ 31" "dat \<noteq> []" using r by (simp_all add: upload_ready_def)
  from upload_from [OF ok(1-3) refl upload_ready_uploading [OF r] num_segments_pos [OF ok(4)]]
  show ?thesis by (simp add: offset_segments_def)
qed

section \<open>A whole download\<close>

fun pull_all :: "file_env \<Rightarrow> u32 \<Rightarrow> u32 list \<Rightarrow> transfer_task \<Rightarrow> disk \<Rightarrow> ((int \<times> bytes) list \<times> transfer_task) res" where
  "pull_all e mode [] t dk = Inr ([], t)"
| "pull_all e mode (offset # xs) t dk =
     bindR (DoPullFileRequest e offset mode t dk) (\<lambda>(rv, data, t1).
     bindR (pull_all e mode xs t1 dk) (\<lambda>(rs, t2). Inr ((rv, data) # rs, t2)))"

definition segment_offsets :: "bytes \<Rightarrow> u32 list" where
  "segment_offsets dat = map (\<lambda>k. of_nat k * SEGMENT_SIZE) [0..<num_segments (length dat)]"

definition download_results :: "bytes \<Rightarrow> (int \<times> bytes) list" where
  "download_results dat = map (\<lambda>k. (if Suc k = num_segments (length dat) then 1 else 0, segment dat k)) [0..<num_segments (length dat)]"

text \<open>File \<open>i\<close> of the disk has the content of the task behind a header; \<open>k\<close> segments have been sent.\<close>

definition on_disk :: "file_env \<Rightarrow> string \<Rightarrow> nat \<Rightarrow> bytes \<Rightarrow> disk \<Rightarrow> bool" where
  "on_disk e task_id i dat dk \<longleftrightarrow> 2 \<le> length task_id \<and> fe_fopen e (file_path e task_id) \<and> map_of (dk_names dk) (file_path e task_id) = Some i
     \<and> (\<exists>hdr. length hdr = HEADER_SIZE \<and> file_data i dk = hdr @ dat) \<and> length dat < 2 ^ 31"

definition downloading :: "nat \<Rightarrow> bytes \<Rightarrow> nat \<Rightarrow> transfer_task \<Rightarrow> bool" where
  "downloading i dat k t \<longleftrightarrow> tt_file_size t = of_nat (length dat) \<and>
     (case tt_kind t of OnlineTransferTask _ \<Rightarrow> False
      | OfflineTransferTask ot \<Rightarrow> ot_sengment_size ot = of_nat (num_segments (length dat)) \<and>
          (if k = 0 then tt_state t = kTransferTaskStateWaitingDownload
           else tt_state t = kTransferTaskStateDownloading \<and> ot_transfered_idx ot = of_nat k
             \<and> ot_fp ot = Some \<lparr>fh_file = i, fh_pos = HEADER_SIZE + k * SEG\<rparr>))"

lemma begin_download_ok:
  assumes d: "on_disk e (tt_task_id t) i dat dk" and w: "downloading i dat k t" "tt_kind t = OfflineTransferTask ot"
  shows "begin_download e (tt_task_id t) (tt_state t) (ot_fp ot) (ot_transfered_idx ot) dk =
    (kTransferTaskStateDownloading, Some \<lparr>fh_file = i, fh_pos = HEADER_SIZE + k * SEG\<rparr>, of_nat k)"
proof (cases "k = 0")
  case True
  obtain hdr where hdr: "length hdr = HEADER_SIZE" "file_data i dk = hdr @ dat" using d by (auto simp: on_disk_def)
  have "fread HEADER_SIZE \<lparr>fh_file = i, fh_pos = 0\<rparr> dk = (hdr, \<lparr>fh_file = i, fh_pos = HEADER_SIZE\<rparr>)"
    using fread_all [of "\<lparr>fh_file = i, fh_pos = 0\<rparr>" HEADER_SIZE dk] hdr by simp
  then show ?thesis using True d w hdr(1) by (simp add: begin_download_def downloading_def OpenByRead_def fopen_rb_def on_disk_def)
qed (use w in \<open>simp add: begin_download_def downloading_def\<close>)

lemma download_step:
  assumes d: "on_disk e (tt_task_id t) i dat dk" and w: "downloading i dat k t" and k: "k < num_segments (length dat)"
    and m: "mode \<noteq> FILE_TYPE_OFFLINE_MOBILE"
  shows "\<exists>t'. DoPullFileRequest e (of_nat k * SEGMENT_SIZE) mode t dk
      = Inr (if Suc k = num_segments (length dat) then 1 else 0, segment dat k, t') \<and> tt_task_id t' = tt_task_id t
    \<and> (if Suc k = num_segments (length dat) then tt_state t' = kTransferTaskStateDownloadEnd else downloading i dat (Suc k) t')"
proof -
  let ?n = "num_segments (length dat)" and ?h = "\<lparr>fh_file = i, fh_pos = HEADER_SIZE + k * SEG\<rparr>"
  obtain ot where ot: "tt_kind t = OfflineTransferTask ot" "ot_sengment_size ot = of_nat ?n" using w by (auto simp: downloading_def split: task_kind.splits)
  have st: "(tt_state t \<noteq> kTransferTaskStateWaitingDownload \<and> tt_state t \<noteq> kTransferTaskStateDownloading) = False"
    using w by (auto simp: downloading_def split: task_kind.splits if_splits)
  obtain hdr where hdr: "length hdr = HEADER_SIZE" "file_data i dk = hdr @ dat" using d by (auto simp: on_disk_def)
  let ?ot = "ot\<lparr>ot_fp := Some ?h, ot_transfered_idx := of_nat k\<rparr>"
  have len: "length dat < 2 ^ 31" using d by (simp add: on_disk_def)
  have size: "unat (GetNextSegmentBlockSize mode (tt_file_size t) ?ot) = length (segment dat k)"
    using block_size [OF k len _ _ m, of ?ot] ot(2) w by (simp add: downloading_def)
  have "k * SEG + length (segment dat k) \<le> length dat" using length_segment [OF k] num_segments_bounds(2) [of "Suc k" "length dat"]
      num_segments_bounds(2) [of k "length dat"] k by auto
  then have "fread (length (segment dat k)) ?h dk = (take (length (segment dat k)) (drop (HEADER_SIZE + k * SEG) (hdr @ dat)),
      ?h\<lparr>fh_pos := HEADER_SIZE + k * SEG + length (segment dat k)\<rparr>)" using hdr by (subst fread_all) simp_all
  moreover have "take (length (segment dat k)) (drop (HEADER_SIZE + k * SEG) (hdr @ dat)) = segment dat k"
    by (simp add: hdr(1) segment_def min_def)
  ultimately have rd: "fread (length (segment dat k)) ?h dk = (segment dat k, ?h\<lparr>fh_pos := HEADER_SIZE + k * SEG + length (segment dat k)\<rparr>)" by simp
  have n: "?n \<le> 65536" using len by (simp add: num_segments_def)
  have eq: "of_nat k + 1 = (of_nat ?n :: u32) \<longleftrightarrow> Suc k = ?n" using n k unat_small [of "Suc k"] unat_small [of ?n] by (auto simp: word_unat_eq_iff add.commute)
  have full: "Suc k \<noteq> ?n \<Longrightarrow> length (segment dat k) = SEG" using length_segment [OF k] by simp
  note start = begin_download_ok [OF d w ot(1)]
  let ?ot3 = "?ot\<lparr>ot_fp := Some (?h\<lparr>fh_pos := HEADER_SIZE + k * SEG + length (segment dat k)\<rparr>), ot_transfered_idx := of_nat k + 1\<rparr>"
  have run: "DoPullFileRequest e (of_nat k * SEGMENT_SIZE) mode t dk =
      bindR (end_download mode ?ot3 (SetLastUpdateTime e (t\<lparr>tt_state := kTransferTaskStateDownloading\<rparr>))) (\<lambda>(rv, t2). Inr (rv, segment dat k, t2))"
    by (simp add: st DoPullFileRequest_def ot offline_DoPullFileRequest_def m start Let_def size rd)
  show ?thesis
  proof (cases "Suc k = ?n")
    case True
    then show ?thesis using run eq m ot(2) by (simp add: end_download_def SetLastUpdateTime_def)
  next
    case False
    then show ?thesis using run eq m ot(2) full w by (simp add: end_download_def SetLastUpdateTime_def downloading_def add.commute)
  qed
qed

end
