(* ===== verification/OfflineProps.thy ===== *)
theory OfflineProps
  imports OfflineRuns
begin

text \<open>
  The round trips of a stored file: what its sender uploaded is what every later download gives back, from the task itself and from one that is
  rebuilt from the file's header; what happens to a file with a wrong MD5, and to a mobile client that downloads after an upload.
\<close>

section \<open>Downloads as a whole\<close>

lemma download_from:
  assumes d: "on_disk e (tt_task_id t) i dat dk" and w: "downloading i dat k t" and k: "k < n" and n: "n = num_segments (length dat)"
    and m: "mode \<noteq> FILE_TYPE_OFFLINE_MOBILE"
  shows "\<exists>t'. pull_all e mode (map (\<lambda>k. of_nat k * SEGMENT_SIZE) [k..<n]) t dk
      = Inr (map (\<lambda>k. (if Suc k = n then 1 else 0, segment dat k)) [k..<n], t') \<and> tt_state t' = kTransferTaskStateDownloadEnd"
  using d w k
proof (induction "n - Suc k" arbitrary: k t)
  case 0
  then have "[k..<n] = [k]" "Suc k = n" by (auto simp: upt_rec)
  with download_step [OF 0(2,3) _ m] n show ?case by auto
next
  case (Suc l)
  then have u: "[k..<n] = k # [Suc k..<n]" "Suc k < n" by (auto simp: upt_rec)
  obtain t' where s: "DoPullFileRequest e (of_nat k * SEGMENT_SIZE) mode t dk = Inr (0, segment dat k, t')" "tt_task_id t' = tt_task_id t"
    "downloading i dat (Suc k) t'" using download_step [OF Suc(3,4) _ m] Suc(5) u(2) n by auto
  have "l = n - Suc (Suc k)" using Suc(2) by simp
  with Suc(1) [of "Suc k" t'] Suc(3) s(2,3) u(2) obtain t2 where
    "pull_all e mode (map (\<lambda>k. of_nat k * SEGMENT_SIZE) [Suc k..<n]) t' dk
      = Inr (map (\<lambda>k. (if Suc k = n then 1 else 0, segment dat k)) [Suc k..<n], t2)" "tt_state t2 = kTransferTaskStateDownloadEnd" by auto
  then show ?case using u s(1) by simp
qed

lemma download_all:
  assumes d: "on_disk e (tt_task_id t) i dat dk" and w: "downloading i dat 0 t" and ne: "dat \<noteq> []" and m: "mode \<noteq> FILE_TYPE_OFFLINE_MOBILE"
  shows "\<exists>t'. pull_all e mode (segment_offsets dat) t dk = Inr (download_results dat, t') \<and> tt_state t' = kTransferTaskStateDownloadEnd"
  using download_from [OF d w num_segments_pos [OF ne] refl m] by (simp add: segment_offsets_def download_results_def)

lemma download_results_data: "concat (map snd (download_results dat)) = dat"
  using concat_segments [of dat] by (simp add: download_results_def segments_def comp_def)

lemma stored_on_disk:
  assumes "storable e t" "stored e t dat dk" "length dat < 2 ^ 31"
  obtains i where "on_disk e (tt_task_id t) i dat dk"
  using assms OfflineFileHeader_storable(2) [OF assms(1)] unfolding stored_def on_disk_def storable_def by blast

lemma upload_done_download:
  assumes "upload_done t0 dat t" "tt_file_size t0 = of_nat (length dat)"
  shows "\<exists>t'. ChangePullState e (tt_to_user_id t0) CLIENT_OFFLINE_DOWNLOAD t = (True, t') \<and> tt_task_id t' = tt_task_id t0 \<and> downloading i dat 0 t'"
proof -
  obtain c k where "t = t0\<lparr>tt_create_time := c, tt_state := kTransferTaskStateUploadEnd, tt_kind := k\<rparr>" using assms(1) by (auto simp: upload_done_def)
  then show ?thesis using assms by (auto simp: upload_done_def ChangePullState_def offline_ChangePullState_def SetLastUpdateTime_def downloading_def
      offline_CheckByUserIDAndFileRole_def CheckToUserID_def)
qed

section \<open>The header of a stored file is read back\<close>

lemma unat_of_char: "unat (of_char c :: 8 word) = of_char c"
proof -
  have n: "(of_char c :: nat) < 2 ^ 8" by simp
  have "(of_char c :: 8 word) = of_nat (of_char c)" by (rule of_nat_of_char [symmetric])
  moreover have "unat (of_nat (of_char c) :: 8 word) = take_bit 8 (of_char c :: nat)" by (simp only: unsigned_of_nat) simp
  ultimately have "unat (of_char c :: 8 word) = take_bit 8 (of_char c :: nat)" by (rule trans [OF arg_cong])
  then show ?thesis using n by (simp only: take_bit_nat_eq_self)
qed

lemma char_of_u8: "char_of (unat (of_char c :: 8 word)) = c"
  by (simp add: unat_of_char)

lemma of_char_of_NUL: "(of_char NUL :: nat) = 0"
  by (simp add: NUL_def)

lemma of_char_u8_0: "(of_char c :: 8 word) = 0 \<longleftrightarrow> c = NUL"
proof
  assume "(of_char c :: 8 word) = 0"
  then have "of_char c = (0 :: nat)" using unat_of_char [of c] by (simp only: unsigned_0)
  then show "c = NUL" by (intro of_char_eqI [where 'a = nat]) (simp only: of_char_of_NUL)
qed (simp add: NUL_def)

lemma header_string_field:
  assumes "length s < n" "NUL \<notin> set s" "off = length pre"
  shows "header_string off (pre @ header_field n s @ post) = Inr s"
proof -
  have "takeWhile (\<lambda>b. b \<noteq> 0) (header_field n s @ post) = map of_char s"
    using assms by (auto simp: header_field_def takeWhile_append of_char_u8_0 Suc_diff_Suc [symmetric])
  moreover have "0 \<in> set (header_field n s)" using assms(1) by (simp add: header_field_def)
  ultimately show ?thesis using assms(3) by (simp add: header_string_def char_of_u8 comp_def)
qed

lemma header_fields:
  assumes "storable e t"
  shows "get_task_id (header_of e t) = Inr (tt_task_id t)" "get_from_user_id (header_of e t) = Inr (tt_from_user_id t)"
    "get_to_user_id (header_of e t) = Inr (tt_to_user_id t)" "get_file_name (header_of e t) = Inr []"
    "get_file_size (header_of e t) = Inr (tt_file_size t)" "get_file_md5 (header_of e t) = Inr (tt_file_md5 t)"
proof -
  let ?a = "header_field 128 (tt_task_id t)" and ?b = "header_field 64 (decimal (unat (tt_from_user_id t)))"
    and ?c = "header_field 64 (decimal (unat (tt_to_user_id t)))" and ?d = "header_field 128 (decimal (fe_time e))"
    and ?f = "header_field 64 (decimal (unat (tt_file_size t)))" and ?g = "header_field 64 (tt_file_md5 t)"
  have time: "length (decimal (fe_time e)) \<le> 20" using assms length_decimal [of "fe_time e" 20] by (simp add: storable_def)
  have len: "length ?a = 128" "length ?b = 64" "length ?c = 64" "length ?d = 128" "length (header_field 512 []) = 512" "length ?f = 64"
    using assms time by (simp_all add: length_header_field length_decimal_u32 less_imp_le storable_def)
  have nul: "NUL \<notin> set (decimal n)" for n using decimal_all [of n] is_digit_not by (auto simp: list_all_iff)
  note field = header_string_field [OF length_decimal_u32 nul]
  show "get_task_id (header_of e t) = Inr (tt_task_id t)"
    using assms header_string_field [of "tt_task_id t" 128 0 "[]"] by (simp add: get_task_id_def header_of_def storable_def)
  have "header_string 128 (header_of e t) = Inr (decimal (unat (tt_from_user_id t)))"
    using field [of 128 ?a] len by (simp add: header_of_def)
  then show "get_from_user_id (header_of e t) = Inr (tt_from_user_id t)" by (simp add: get_from_user_id_def string2int_decimal)
  have "header_string 192 (header_of e t) = Inr (decimal (unat (tt_to_user_id t)))"
    using field [of 192 "?a @ ?b"] len by (simp add: header_of_def)
  then show "get_to_user_id (header_of e t) = Inr (tt_to_user_id t)" by (simp add: get_to_user_id_def string2int_decimal)
  show "get_file_name (header_of e t) = Inr []"
    using header_string_field [of "[]" 512 384 "?a @ ?b @ ?c @ ?d"] len by (simp add: get_file_name_def header_of_def)
  have "header_string 896 (header_of e t) = Inr (decimal (unat (tt_file_size t)))"
    using field [of 896 "?a @ ?b @ ?c @ ?d @ header_field 512 []"] len by (simp add: header_of_def)
  then show "get_file_size (header_of e t) = Inr (tt_file_size t)" by (simp add: get_file_size_def string2int_decimal)
  show "get_file_md5 (header_of e t) = Inr (tt_file_md5 t)"
    using assms header_string_field [of "tt_file_md5 t" 64 960 "?a @ ?b @ ?c @ ?d @ header_field 512 [] @ ?f" "[]"] len
    by (simp add: get_file_md5_def header_of_def storable_def)
qed

text \<open>The task that a restarted server builds for a file: what the header says, without the file's name.\<close>

definition reloaded :: "file_env \<Rightarrow> transfer_task \<Rightarrow> transfer_task" where
  "reloaded e t = (new_offline e (tt_task_id t) (tt_from_user_id t) (tt_to_user_id t) [] (tt_file_size t) (tt_file_md5 t))
     \<lparr>tt_state := kTransferTaskStateWaitingDownload\<rparr>"

lemma LoadFromDisk_stored:
  assumes ok: "storable e t" "tt_file_size t = of_nat (length dat)" "length dat < 2 ^ 31" "stored e t dat dk"
    and e: "fe_dir e1 = fe_dir e" "fe_fopen e1 (file_path e (tt_task_id t))"
  shows "LoadFromDisk e1 (tt_task_id t) dk = Inr (Some (reloaded e1 t))"
proof -
  obtain i where i: "map_of (dk_names dk) (file_path e (tt_task_id t)) = Some i" "file_data i dk = header_of e t @ dat" using ok(4) by (auto simp: stored_def)
  have p: "file_path e1 x = file_path e x" for x by (simp add: file_path_def e(1))
  have l: "length (header_of e t) = HEADER_SIZE" by (rule OfflineFileHeader_storable(2) [OF ok(1)])
  have "fread HEADER_SIZE \<lparr>fh_file = i, fh_pos = 0\<rparr> dk = (header_of e t, \<lparr>fh_file = i, fh_pos = HEADER_SIZE\<rparr>)"
    using fread_all [of "\<lparr>fh_file = i, fh_pos = 0\<rparr>" HEADER_SIZE dk] i(2) l by simp
  moreover have "OpenByRead e1 (tt_task_id t) dk = Some \<lparr>fh_file = i, fh_pos = 0\<rparr>"
    using ok(1) e i(1) by (simp add: OpenByRead_def p fopen_rb_def storable_def)
  moreover have "length dat = unat (tt_file_size t)" using ok(2,3) by (simp add: unat_small)
  ultimately show ?thesis using header_fields [OF ok(1)] i(2) l by (simp add: LoadFromDisk_def reloaded_def)
qed

lemma reloaded_download:
  assumes "tt_file_size t = of_nat (length dat)" "length dat < 2 ^ 31"
  shows "downloading i dat 0 (reloaded e t)"
  using assms SetMaxSegmentSize_num [of "length dat"] by (simp add: downloading_def reloaded_def new_offline_def BaseTransferTask_def)

section \<open>A mobile download after an upload\<close>

lemma mobile_pull_fault:
  assumes u: "upload_done t0 dat t" "1 < num_segments (length dat)" "tt_task_id t0 = id0" and d: "on_disk e id0 i dat dk"
  shows "DoPullFileRequest e 0 FILE_TYPE_OFFLINE_MOBILE (snd (ChangePullState e (tt_to_user_id t0) CLIENT_OFFLINE_DOWNLOAD_MOBILE t)) dk = Inl MemFault"
proof -
  let ?n = "num_segments (length dat)"
  obtain c k where t: "t = t0\<lparr>tt_create_time := c, tt_state := kTransferTaskStateUploadEnd, tt_kind := k\<rparr>" using u(1) by (auto simp: upload_done_def)
  obtain ot where ot: "k = OfflineTransferTask ot" "ot_fp ot = None" "ot_transfered_idx ot = of_nat ?n" "ot_sengment_size ot = of_nat ?n"
    "ot_sengment_size_mobile ot = of_nat ?n" using u(1) by (auto simp: upload_done_def t)
  obtain hdr where hdr: "length hdr = HEADER_SIZE" "file_data i dk = hdr @ dat" using d by (auto simp: on_disk_def)
  have "length dat < 2 ^ 31" using d by (simp add: on_disk_def)
  then have n: "?n \<le> 65536" by (simp add: num_segments_def)
  have one: "(of_nat ?n :: u32) \<noteq> 1" using u(2) n unat_small [of ?n] by auto
  have len: "SEG < length dat" using num_segments_bounds(2) [of 1 "length dat"] u(2) by simp
  have open0: "OpenByRead e id0 dk = Some \<lparr>fh_file = i, fh_pos = 0\<rparr>" using d by (simp add: OpenByRead_def fopen_rb_def on_disk_def)
  have rd0: "fread HEADER_SIZE \<lparr>fh_file = i, fh_pos = 0\<rparr> dk = (hdr, \<lparr>fh_file = i, fh_pos = HEADER_SIZE\<rparr>)"
    using fread_all [of "\<lparr>fh_file = i, fh_pos = 0\<rparr>" HEADER_SIZE dk] hdr by simp
  have rd1: "fread SEG \<lparr>fh_file = i, fh_pos = HEADER_SIZE\<rparr> dk = (take SEG dat, \<lparr>fh_file = i, fh_pos = HEADER_SIZE + SEG\<rparr>)"
    using fread_all [of "\<lparr>fh_file = i, fh_pos = HEADER_SIZE\<rparr>" SEG dk] hdr len by simp
  show ?thesis using u(3) len one
    by (simp add: ChangePullState_def t ot offline_ChangePullState_def offline_CheckByUserIDAndFileRole_def CheckToUserID_def SetLastUpdateTime_def
        DoPullFileRequest_def offline_DoPullFileRequest_def begin_download_def open0 rd0 hdr(1) GetNextSegmentBlockSize_def Let_def rd1 min_def end_download_def)
qed

section \<open>Properties\<close>

text \<open>C15: an upload of all segments in order is answered with 0 for every segment and 1 for the last one when the MD5 is the announced one, and a
  receiver that logs in to the task and asks for all segments then gets exactly the uploaded content.\<close>

theorem upload_download_roundtrip:
  assumes "upload_ready e dat t dk" "hex_string (fe_md5 e dat) = tt_file_md5 t"
  shows "\<exists>t1 dk1 t2. recv_all e (tt_from_user_id t) (offset_segments dat) t dk = Inr (replicate (num_segments (length dat) - 1) 0 @ [1], t1, dk1)
    \<and> pull_all e FILE_TYPE_OFFLINE (segment_offsets dat) (snd (ChangePullState e (tt_to_user_id t) CLIENT_OFFLINE_DOWNLOAD t1)) dk1
        = Inr (download_results dat, t2) \<and> concat (map snd (download_results dat)) = dat \<and> tt_state t2 = kTransferTaskStateDownloadEnd"
proof -
  have r: "storable e t" "dat \<noteq> []" "length dat < 2 ^ 31" "tt_file_size t = of_nat (length dat)" using assms(1) by (simp_all add: upload_ready_def)
  obtain t1 dk1 where u: "recv_all e (tt_from_user_id t) (offset_segments dat) t dk = Inr (replicate (num_segments (length dat) - 1) 0 @ [1], t1, dk1)"
    "upload_done t dat t1" "stored e t dat dk1" using upload_all [OF assms(1)] assms(2) by auto
  obtain i where d: "on_disk e (tt_task_id t) i dat dk1" using stored_on_disk [OF r(1) u(3) r(3)] .
  obtain t' where c: "ChangePullState e (tt_to_user_id t) CLIENT_OFFLINE_DOWNLOAD t1 = (True, t')" "tt_task_id t' = tt_task_id t"
    "downloading i dat 0 t'" using upload_done_download [OF u(2) r(4)] by blast
  with d download_all [of e t' i dat dk1 FILE_TYPE_OFFLINE] c r(2) obtain t2 where
    "pull_all e FILE_TYPE_OFFLINE (segment_offsets dat) t' dk1 = Inr (download_results dat, t2)" "tt_state t2 = kTransferTaskStateDownloadEnd" by auto
  then show ?thesis using u(1) c(1) download_results_data by auto
qed

text \<open>C16: after a restart of the server, at any later time and with the same directory, the task that is rebuilt from the file has the same users, size and MD5
  but an empty name, and the receiver gets exactly the uploaded content.\<close>

theorem restart_roundtrip:
  assumes "upload_ready e dat t dk" "hex_string (fe_md5 e dat) = tt_file_md5 t" "fe_dir e1 = fe_dir e" "fe_fopen e1 (file_path e (tt_task_id t))"
  shows "\<exists>rvs t1 dk1 t2. recv_all e (tt_from_user_id t) (offset_segments dat) t dk = Inr (rvs, t1, dk1)
    \<and> LoadFromDisk e1 (tt_task_id t) dk1 = Inr (Some (reloaded e1 t))
    \<and> pull_all e1 FILE_TYPE_OFFLINE (segment_offsets dat) (reloaded e1 t) dk1 = Inr (download_results dat, t2)
    \<and> concat (map snd (download_results dat)) = dat"
proof -
  have r: "storable e t" "dat \<noteq> []" "length dat < 2 ^ 31" "tt_file_size t = of_nat (length dat)" using assms(1) by (simp_all add: upload_ready_def)
  obtain t1 dk1 where u: "recv_all e (tt_from_user_id t) (offset_segments dat) t dk = Inr (replicate (num_segments (length dat) - 1) 0 @ [1], t1, dk1)"
    "stored e t dat dk1" using upload_all [OF assms(1)] assms(2) by auto
  obtain i where "on_disk e (tt_task_id t) i dat dk1" using stored_on_disk [OF r(1) u(2) r(3)] .
  then have "on_disk e1 (tt_task_id (reloaded e1 t)) i dat dk1"
    using assms(3,4) by (simp add: on_disk_def file_path_def reloaded_def new_offline_def BaseTransferTask_def)
  from download_all [OF this reloaded_download [OF r(4,3)] r(2), of FILE_TYPE_OFFLINE] LoadFromDisk_stored [OF r(1,4,3) u(2) assms(3,4)] u(1)
  show ?thesis using download_results_data by auto
qed

text \<open>C19: when the content does not have the announced MD5, the last segment is refused, the file is removed, and no later login can load the task.\<close>

theorem wrong_md5_removed:
  assumes "upload_ready e dat t dk" "hex_string (fe_md5 e dat) \<noteq> tt_file_md5 t" "fe_dir e1 = fe_dir e"
  shows "\<exists>t1 dk1. recv_all e (tt_from_user_id t) (offset_segments dat) t dk = Inr (replicate (num_segments (length dat) - 1) 0 @ [- 1], t1, dk1)
    \<and> LoadFromDisk e1 (tt_task_id t) dk1 = Inr None"
proof -
  obtain t1 dk1 where u: "recv_all e (tt_from_user_id t) (offset_segments dat) t dk = Inr (replicate (num_segments (length dat) - 1) 0 @ [- 1], t1, dk1)"
    "map_of (dk_names dk1) (file_path e (tt_task_id t)) = None" using upload_all [OF assms(1)] assms(2) by auto
  have "file_path e1 (tt_task_id t) = file_path e (tt_task_id t)" using assms(3) by (simp add: file_path_def)
  then have "LoadFromDisk e1 (tt_task_id t) dk1 = Inr None" using u(2) by (simp add: LoadFromDisk_def OpenByRead_def fopen_rb_def)
  then show ?thesis using u(1) by auto
qed

text \<open>a mobile receiver whose first request comes while the task still is in memory after the upload of a file of several segments makes the
  server close a file that is not open.\<close>

theorem mobile_pull_after_upload_faults:
  assumes "upload_ready e dat t dk" "hex_string (fe_md5 e dat) = tt_file_md5 t" "1 < num_segments (length dat)"
  shows "\<exists>rvs t1 dk1. recv_all e (tt_from_user_id t) (offset_segments dat) t dk = Inr (rvs, t1, dk1)
    \<and> DoPullFileRequest e 0 FILE_TYPE_OFFLINE_MOBILE (snd (ChangePullState e (tt_to_user_id t) CLIENT_OFFLINE_DOWNLOAD_MOBILE t1)) dk1 = Inl MemFault"
proof -
  have r: "storable e t" "length dat < 2 ^ 31" using assms(1) by (simp_all add: upload_ready_def)
  obtain t1 dk1 where u: "recv_all e (tt_from_user_id t) (offset_segments dat) t dk = Inr (replicate (num_segments (length dat) - 1) 0 @ [1], t1, dk1)"
    "upload_done t dat t1" "stored e t dat dk1" using upload_all [OF assms(1)] assms(2) by auto
  obtain i where "on_disk e (tt_task_id t) i dat dk1" using stored_on_disk [OF r(1) u(3) r(2)] .
  from mobile_pull_fault [OF u(2) assms(3) refl this] u(1) show ?thesis by auto
qed

section \<open>Witnesses\<close>

definition demo_fenv :: file_env where
  "demo_fenv = \<lparr>fe_time = 100, fe_tick = 1000, fe_dir = ''offline_file'', fe_mkdir = \<lambda>_. True, fe_fopen = \<lambda>_. True,
     fe_md5 = (\<lambda>dat. [171, of_nat (length dat)] @ replicate 14 0), fe_sprintf = (\<lambda>fmt _. fmt), fe_uuid = ''4f1c'', fe_task_timeout = 3600, fe_peer_addrs = []\<rparr>"

text \<open>The MD5 that this hashing gives in hexadecimal, and a task of user 7 for user 9 that its sender has logged in to.\<close>

definition demo_sum :: "string \<Rightarrow> string" where
  "demo_sum d = ''ab'' @ d @ replicate 28 CHR ''0''"

definition demo_upload :: "bytes \<Rightarrow> string \<Rightarrow> transfer_task" where
  "demo_upload dat md5 = snd (ChangePullState demo_fenv 7 CLIENT_OFFLINE_UPLOAD (new_offline demo_fenv ''4f1c'' 7 9 ''a.txt'' (of_nat (length dat)) md5))"

lemma demo_upload_ready:
  assumes "length dat < 2 ^ 31" "dat \<noteq> []" "NUL \<notin> set md5" "CHR ''%'' \<notin> set md5" "length md5 < 64"
  shows "upload_ready demo_fenv dat (demo_upload dat md5) empty_disk"
  using assms by (simp add: upload_ready_def storable_def demo_fenv_def demo_upload_def ChangePullState_def new_offline_def BaseTransferTask_def
      offline_ChangePullState_def offline_CheckByUserIDAndFileRole_def CheckFromUserID_def SetLastUpdateTime_def NUL_def empty_disk_def)

lemma demo_hex: "hex_string ([171, 3] @ replicate 14 0) = ''ab03'' @ replicate 28 CHR ''0''"
  "hex_string ([171, 40000] @ replicate 14 0) = ''ab40'' @ replicate 28 CHR ''0''"
  by code_simp+

lemma demo_md5: "fe_md5 demo_fenv dat = [171, of_nat (length dat)] @ replicate 14 0" "tt_file_md5 (demo_upload dat md5) = md5" "fe_fopen demo_fenv path"
  by (simp_all add: demo_fenv_def demo_upload_def ChangePullState_def new_offline_def BaseTransferTask_def
      offline_ChangePullState_def offline_CheckByUserIDAndFileRole_def CheckFromUserID_def SetLastUpdateTime_def)

lemma upload_download_roundtrip_witness:
  "\<exists>t1 dk1 t2. recv_all demo_fenv (tt_from_user_id (demo_upload [5, 0, 7] (demo_sum ''03''))) (offset_segments [5, 0, 7]) (demo_upload [5, 0, 7] (demo_sum ''03'')) empty_disk
      = Inr (replicate (num_segments (length [5, 0, 7 :: 8 word]) - 1) 0 @ [1], t1, dk1)
    \<and> pull_all demo_fenv FILE_TYPE_OFFLINE (segment_offsets [5, 0, 7])
        (snd (ChangePullState demo_fenv (tt_to_user_id (demo_upload [5, 0, 7] (demo_sum ''03''))) CLIENT_OFFLINE_DOWNLOAD t1)) dk1
        = Inr (download_results [5, 0, 7], t2) \<and> concat (map snd (download_results [5, 0, 7])) = [5, 0, 7]
    \<and> tt_state t2 = kTransferTaskStateDownloadEnd"
  by (rule upload_download_roundtrip) (use demo_upload_ready [of "[5, 0, 7]" "demo_sum ''03''"] in \<open>simp_all add: NUL_def demo_md5 demo_hex [simplified] demo_sum_def\<close>)

lemma restart_roundtrip_witness:
  "\<exists>rvs t1 dk1 t2. recv_all demo_fenv (tt_from_user_id (demo_upload [5, 0, 7] (demo_sum ''03''))) (offset_segments [5, 0, 7]) (demo_upload [5, 0, 7] (demo_sum ''03'')) empty_disk
      = Inr (rvs, t1, dk1)
    \<and> LoadFromDisk (demo_fenv\<lparr>fe_time := 200\<rparr>) (tt_task_id (demo_upload [5, 0, 7] (demo_sum ''03''))) dk1
        = Inr (Some (reloaded (demo_fenv\<lparr>fe_time := 200\<rparr>) (demo_upload [5, 0, 7] (demo_sum ''03''))))
    \<and> pull_all (demo_fenv\<lparr>fe_time := 200\<rparr>) FILE_TYPE_OFFLINE (segment_offsets [5, 0, 7])
        (reloaded (demo_fenv\<lparr>fe_time := 200\<rparr>) (demo_upload [5, 0, 7] (demo_sum ''03''))) dk1 = Inr (download_results [5, 0, 7], t2)
    \<and> concat (map snd (download_results [5, 0, 7])) = [5, 0, 7]"
  by (rule restart_roundtrip) (use demo_upload_ready [of "[5, 0, 7]" "demo_sum ''03''"] in \<open>simp_all add: NUL_def demo_md5 demo_hex [simplified] demo_sum_def\<close>)

lemma wrong_md5_removed_witness:
  "\<exists>t1 dk1. recv_all demo_fenv (tt_from_user_id (demo_upload [5, 0, 7] (demo_sum ''04''))) (offset_segments [5, 0, 7]) (demo_upload [5, 0, 7] (demo_sum ''04'')) empty_disk
      = Inr (replicate (num_segments (length [5, 0, 7 :: 8 word]) - 1) 0 @ [- 1], t1, dk1)
    \<and> LoadFromDisk demo_fenv (tt_task_id (demo_upload [5, 0, 7] (demo_sum ''04''))) dk1 = Inr None"
  by (rule wrong_md5_removed) (use demo_upload_ready [of "[5, 0, 7]" "demo_sum ''04''"] in \<open>simp_all add: NUL_def demo_md5 demo_hex [simplified] demo_sum_def\<close>)

lemma mobile_pull_after_upload_faults_witness:
  "\<exists>rvs t1 dk1. recv_all demo_fenv (tt_from_user_id (demo_upload (replicate 40000 0) (demo_sum ''40''))) (offset_segments (replicate 40000 0)) (demo_upload (replicate 40000 0) (demo_sum ''40'')) empty_disk
      = Inr (rvs, t1, dk1)
    \<and> DoPullFileRequest demo_fenv 0 FILE_TYPE_OFFLINE_MOBILE
        (snd (ChangePullState demo_fenv (tt_to_user_id (demo_upload (replicate 40000 0) (demo_sum ''40''))) CLIENT_OFFLINE_DOWNLOAD_MOBILE t1)) dk1 = Inl MemFault"
  by (rule mobile_pull_after_upload_faults)
    (use demo_upload_ready [of "replicate 40000 0" "demo_sum ''40''"] in \<open>simp_all add: NUL_def demo_md5 demo_hex [simplified] demo_sum_def num_segments_def\<close>)

end
