(* ===== verification/FileProps.thy ===== *)
theory FileProps
  imports FileInv OfflineProps
begin

text \<open>
  The file server's properties: its tasks are well typed in all states, an online task passes data exactly after both sides have logged in, and the connection
  that stays behind when the other one of a task is closed can bring the server down.
\<close>

section \<open>Online tasks\<close>

datatype task_op = Login u32 u32 | Data u32 u32 bytes | Pull u32 u32

definition task_op :: "file_env \<Rightarrow> task_op \<Rightarrow> transfer_task \<Rightarrow> disk \<Rightarrow> (int \<times> transfer_task \<times> disk) res" where
  "task_op e op t dk =
     (case op of
        Login user_id role \<Rightarrow> (let (rv, t1) = ChangePullState e user_id role t in Inr (if rv then 0 else - 1, t1, dk))
      | Data user_id offset data \<Rightarrow> DoRecvData e user_id offset data t dk
      | Pull offset mode \<Rightarrow> bindR (DoPullFileRequest e offset mode t dk) (\<lambda>(rv, _, t1). Inr (rv, t1, dk)))"

fun task_ops :: "(file_env \<times> task_op) list \<Rightarrow> transfer_task \<Rightarrow> disk \<Rightarrow> (int list \<times> transfer_task \<times> disk) res" where
  "task_ops [] t dk = Inr ([], t, dk)"
| "task_ops ((e, op) # ops) t dk =
     bindR (task_op e op t dk) (\<lambda>(rv, t1, dk1). bindR (task_ops ops t1 dk1) (\<lambda>(rvs, t2, dk2). Inr (rv # rvs, t2, dk2)))"

text \<open>The abstract transfer between the users \<open>f\<close> and \<open>u\<close>: who has logged in so far decides every answer.\<close>

fun online_spec :: "u32 \<Rightarrow> u32 \<Rightarrow> bool \<Rightarrow> bool \<Rightarrow> task_op list \<Rightarrow> int list" where
  "online_spec f u s r [] = []"
| "online_spec f u s r (Login user_id role # ops) =
     (let s1 = (user_id = f \<and> role = CLIENT_REALTIME_SENDER); r1 = (user_id = u \<and> role = CLIENT_REALTIME_RECVER)
      in (if s1 \<or> r1 then 0 else - 1) # online_spec f u (s \<or> s1) (r \<or> r1) ops)"
| "online_spec f u s r (Data user_id offset data # ops) = (if user_id = f \<and> s \<and> r then 0 else - 1) # online_spec f u s r ops"
| "online_spec f u s r (Pull offset mode # ops) = (if s \<and> r then 0 else - 1) # online_spec f u s r ops"

text \<open>The simulation relation.\<close>

definition online_rel :: "u32 \<Rightarrow> u32 \<Rightarrow> bool \<Rightarrow> bool \<Rightarrow> transfer_task \<Rightarrow> bool" where
  "online_rel f u s r t \<longleftrightarrow> tt_from_user_id t = f \<and> tt_to_user_id t = u \<and> (\<exists>n. tt_kind t = OnlineTransferTask n)
     \<and> (if s \<and> r then tt_state t = kTransferTaskStateWaitingTransfer \<or> tt_state t = kTransferTaskStateTransfering
        else if s then tt_state t = kTransferTaskStateWaitingReceiver
        else if r then tt_state t = kTransferTaskStateWaitingSender
        else tt_state t = kTransferTaskStateReady)"

lemma online_login:
  assumes "online_rel f u s r t"
  shows "fst (ChangePullState e user_id role t) = (user_id = f \<and> role = CLIENT_REALTIME_SENDER \<or> user_id = u \<and> role = CLIENT_REALTIME_RECVER)"
    "online_rel f u (s \<or> user_id = f \<and> role = CLIENT_REALTIME_SENDER) (r \<or> user_id = u \<and> role = CLIENT_REALTIME_RECVER)
       (snd (ChangePullState e user_id role t))"
  using assms by (auto simp: online_rel_def ChangePullState_def online_ChangePullState_def online_CheckByUserIDAndFileRole_def CheckFromUserID_def
      CheckToUserID_def SetLastUpdateTime_def split: if_splits)

lemma online_data:
  assumes "online_rel f u s r t"
  shows "\<exists>t'. DoRecvData e user_id offset data t dk = Inr (if user_id = f \<and> s \<and> r then 0 else - 1, t', dk) \<and> online_rel f u s r t'"
    "\<exists>t'. DoPullFileRequest e offset mode t dk = Inr (if s \<and> r then 0 else - 1, [], t') \<and> online_rel f u s r t'"
  using assms by (auto simp: online_rel_def DoRecvData_def online_DoRecvData_def DoPullFileRequest_def online_DoPullFileRequest_def CheckFromUserID_def
      SetLastUpdateTime_def split: if_splits)

lemma online_runs:
  assumes "online_rel f u s r t"
  shows "\<exists>t'. task_ops ops t dk = Inr (online_spec f u s r (map snd ops), t', dk)"
  using assms
proof (induction ops t dk arbitrary: s r rule: task_ops.induct)
  case (2 e op ops t dk)
  show ?case
  proof (cases op)
    case (Login user_id role)
    obtain rv t1 where c: "ChangePullState e user_id role t = (rv, t1)" by fastforce
    note rel = online_login [OF 2(2), where e = e and user_id = user_id and role = role, unfolded c fst_conv snd_conv]
    have step: "task_op e (Login user_id role) t dk = Inr (if rv then 0 else - 1, t1, dk)" by (simp add: task_op_def c)
    from 2(1) [OF rel(2), of dk] show ?thesis using rel(1) by (auto simp: step Login Let_def)
  next
    case (Data user_id offset data)
    obtain t1 where d: "DoRecvData e user_id offset data t dk = Inr (if user_id = f \<and> s \<and> r then 0 else - 1, t1, dk)" "online_rel f u s r t1"
      using online_data(1) [OF 2(2)] by blast
    then have step: "task_op e (Data user_id offset data) t dk = Inr (if user_id = f \<and> s \<and> r then 0 else - 1, t1, dk)" by (simp add: task_op_def)
    from 2(1) [OF d(2), of dk] show ?thesis by (auto simp: step Data)
  next
    case (Pull offset mode)
    obtain t1 where d: "DoPullFileRequest e offset mode t dk = Inr (if s \<and> r then 0 else - 1, [], t1)" "online_rel f u s r t1"
      using online_data(2) [OF 2(2)] by blast
    then have step: "task_op e (Pull offset mode) t dk = Inr (if s \<and> r then 0 else - 1, t1, dk)" by (simp add: task_op_def)
    from 2(1) [OF d(2), of dk] show ?thesis by (auto simp: step Pull)
  qed
qed simp

text \<open>C18: an online task answers every sequence of logins, data and requests like the abstract transfer: a login is accepted exactly from the sender in the
  sender's role and the receiver in the receiver's, data is passed on exactly when it comes from the sender and both have logged in, in either order and
  any number of times, and a request exactly when both have. It never fails and never touches the disk.\<close>

theorem online_transfer_refines:
  "\<exists>t'. task_ops ops (new_online e task_id f u name n md5) dk = Inr (online_spec f u False False (map snd ops), t', dk)"
  by (rule online_runs) (simp add: online_rel_def new_online_def BaseTransferTask_def)


section \<open>A transfer whose other side leaves\<close>

text \<open>What \<open>Close\<close> of a connection leaves of another one.\<close>

lemma detach_others_client:
  assumes "detach_others b task its st = Inr st'" "client_at a st = Inr c" "a \<noteq> b"
  shows "\<exists>c'. client_at a st' = Inr c' \<and> (c' = c \<or> c' = c\<lparr>fc_transfer_task := None\<rparr>) \<and> fs_disk st' = fs_disk st
    \<and> (a \<in> snd ` set its \<and> fc_transfer_task c = task \<and> fc_modetag c \<noteq> CLIENT_OFFLINE_DOWNLOAD_MOBILE \<longrightarrow> fc_transfer_task c' = None)"
  using assms
proof (induction b task its st arbitrary: c rule: detach_others.induct)
  case (2 b task it its st)
  obtain d where d: "client_at (snd it) st = Inr d" using 2(2) by (cases "client_at (snd it) st") auto
  have liv: "live (snd it) (fs_clients st)" using d by (auto simp: client_at_def deref_live)
  define cut where "cut \<longleftrightarrow> snd it \<noteq> b \<and> fc_transfer_task d = task \<and> fc_modetag d \<noteq> CLIENT_OFFLINE_DOWNLOAD_MOBILE"
  let ?st1 = "if cut then set_client (snd it) (d\<lparr>fc_transfer_task := None\<rparr>) st else st"
  let ?c1 = "if cut \<and> a = snd it then c\<lparr>fc_transfer_task := None\<rparr> else c"
  have run: "detach_others b task its ?st1 = Inr st'" using 2(2) d by (simp add: cut_def)
  have at: "client_at a ?st1 = Inr ?c1" using 2(3) d liv by (auto simp: client_at_def set_client_def deref_set_obj)
  have dk: "fs_disk ?st1 = fs_disk st" by (simp add: set_client_def)
  have "a = snd it \<Longrightarrow> d = c" using d 2(3) by simp
  with 2(1) [of d ?c1] run at dk 2(4) d show ?case unfolding cut_def by (cases "a = snd it") (auto split: if_splits)
qed simp


lemma release_task_clients:
  "allR (\<lambda>st'. fs_clients st' = fs_clients st \<and> fs_disk st' = fs_disk st) (release_task u m x st)"
  unfolding release_task_def
  by (rule allR_any) (auto simp: Let_def DeleteTransferTaskByConnClose_def delete_task_def set_task_def split: option.split intro!: allR_any)

lemma release_ref_other: "release_ref b h = Inr h' \<Longrightarrow> a \<noteq> b \<Longrightarrow> deref a h' = deref a h"
  by (auto simp: release_ref_def deref_def map_of_hm_assign map_of_map_erase split: option.splits prod.splits if_splits)

lemma Close_leaves:
  assumes "client_Close b st = Inr st'" "client_at a st = Inr c" "client_at b st = Inr d" "a \<noteq> b"
    "map_of (g_file_client_conn_map st) h = Some a" "fc_transfer_task c = fc_transfer_task d" "fc_modetag c \<noteq> CLIENT_OFFLINE_DOWNLOAD_MOBILE"
  shows "client_at a st' = Inr (c\<lparr>fc_transfer_task := None\<rparr>)" "fs_disk st' = fs_disk st"
proof -
  let ?task = "fc_transfer_task d"
  obtain st1 where s1: "detach_others b ?task (g_file_client_conn_map st) st = Inr st1"
    using assms(1,3) by (auto simp: client_Close_def bindR_Inr_iff)
  have "a \<in> snd ` set (g_file_client_conn_map st)" using assms(5) by (force dest: map_of_SomeD)
  then obtain c' where c': "client_at a st1 = Inr c'" "c' = c \<or> c' = c\<lparr>fc_transfer_task := None\<rparr>" "fs_disk st1 = fs_disk st" "fc_transfer_task c' = None"
    using detach_others_client [OF s1 assms(2,4)] assms(6,7) by blast
  obtain st2 where s2: "(case ?task of None \<Rightarrow> Inr st1 | Some x \<Rightarrow> release_task (fc_user_id d) (fc_modetag d) x st1) = Inr st2"
    using assms(1,3) s1 by (auto simp: client_Close_def bindR_Inr_iff)
  then have st2: "fs_clients st2 = fs_clients st1" "fs_disk st2 = fs_disk st1"
    using release_task_clients [of st1 "fc_user_id d" "fc_modetag d"] by (auto split: option.splits dest: allR_D)
  have "client_at a st' = client_at a st2 \<and> fs_disk st' = fs_disk st2"
    using assms(1,3,4) s1 s2 by (auto simp: client_Close_def bindR_Inr_iff Let_def client_at_def set_client_def fs_close_socket_def deref_set_obj
        dest: release_ref_other split: if_splits)
  moreover have "c' = c\<lparr>fc_transfer_task := None\<rparr>" using c'(2,4) by auto
  ultimately show "client_at a st' = Inr (c\<lparr>fc_transfer_task := None\<rparr>)" "fs_disk st' = fs_disk st"
    using c' st2 by (simp_all add: client_at_def)
qed

text \<open>when one of two connections to a task is closed, the next data request of the other one, for a task that has no file, is a call
  through a null pointer: the closing has taken the task from the connection, which still counts as logged in.\<close>

theorem partner_close_faults:
  assumes "client_at a st = Inr c" "client_at b st = Inr d" "a \<noteq> b" "map_of (g_file_client_conn_map st) h = Some a"
    and same: "fc_transfer_task c = fc_transfer_task d" "fc_modetag c \<noteq> CLIENT_OFFLINE_DOWNLOAD_MOBILE" "fc_auth c"
    and close: "client_Close b st = Inr st'"
    and pdu: "16 \<le> length img" "pb_par (pb_PullDataReq pb) (drop 16 img) = (True, msg)" "LoadFromDisk e (pq_task_id msg) (fs_disk st) = Inr None"
  shows "HandleClientFilePullFileReq e pb hdr img a st' = Inl MemFault"
  using Close_leaves [OF close assms(1-4) same(1,2)] same(3) pdu
  by (simp add: HandleClientFilePullFileReq_def parsed_accepts pull_task_def NewTransferTask_disk_def)

text \<open>C17: in every state that the file server reaches, every task in the table is alive, it is in a state of its class, and its files are open when its state
  says so and not before; none is done in the sense of the task timer, so that the timer removes nothing.\<close>

theorem file_tasks_typed:
  assumes "file_reachable pb dk st"
  shows "(\<forall>i x. map_of (transfer_tasks st) i = Some x \<longrightarrow> (\<exists>t. task_at x st = Inr t \<and> task_typed t)) \<and> FileTaskTimerCallback e st = Inr st"
proof (intro conjI allI impI)
  note ok = reachable_ok [OF assms]
  show "FileTaskTimerCallback e st = Inr st" by (simp add: FileTaskTimerCallback_def task_timer_idle [OF ok])
  fix i x assume "map_of (transfer_tasks st) i = Some x"
  then have "live x (fs_tasks st)" using ok by (auto simp: file_ok_def)
  then obtain t where "task_at x st = Inr t" using live_deref by (auto simp: task_at_def)
  then show "\<exists>t. task_at x st = Inr t \<and> task_typed t" using task_at_typed [OF ok] by blast
qed

section \<open>A run\<close>

text \<open>A codec that reads a user and a role from the first two bytes of a login, and fixed messages otherwise.\<close>

definition demo_codec :: fs_codec where
  "demo_codec = \<lparr>pb_FileLoginReq = \<lparr>pb_ser = (\<lambda>_. []), pb_par = (\<lambda>b. (True, \<lparr>fl_user_id = ucast (b ! 0), fl_task_id = ''4f1c'', fl_file_role = ucast (b ! 1)\<rparr>))\<rparr>,
     pb_FileLoginRsp = no_pb, pb_FileState = no_pb,
     pb_PullDataReq = \<lparr>pb_ser = (\<lambda>_. []), pb_par = (\<lambda>b. (True, \<lparr>pq_task_id = ''4f1c'', pq_user_id = 9, pq_trans_mode = 1, pq_offset = 0, pq_data_size = 0\<rparr>))\<rparr>,
     pb_PullDataRsp = no_pb, pb_DownloadNotify = no_pb,
     pb_TransferReq = \<lparr>pb_ser = (\<lambda>_. []), pb_par = (\<lambda>b. (True, \<lparr>ft_from_user_id = 7, ft_to_user_id = 9, ft_file_name = ''a.txt'', ft_file_size = 3,
       ft_trans_mode = 1, ft_file_md5 = ''ab03'', ft_attach_data = None\<rparr>))\<rparr>,
     pb_TransferRsp = no_pb, pb_ServerIPRsp = no_pb\<rparr>"

definition demo_file_frame :: "u16 \<Rightarrow> bytes \<Rightarrow> pdu_header \<times> bytes" where
  "demo_file_frame cid body = (\<lparr>h_length = 18, h_version = 1, h_flag = 0, h_service_id = 5, h_command_id = cid, h_seq_num = 1, h_reversed = 0\<rparr>, replicate 16 0 @ body)"

fun file_run :: "fs_codec \<Rightarrow> file_env \<Rightarrow> file_event list \<Rightarrow> fs_op" where
  "file_run pb e [] st = Inr st"
| "file_run pb e (ev # evs) st = bindR (file_step pb e ev st) (file_run pb e evs)"

lemma file_run_reachable: "file_run pb e evs st = Inr st' \<Longrightarrow> file_reachable pb dk st \<Longrightarrow> file_reachable pb dk st'"
  by (induction evs arbitrary: st) (auto simp: bindR_Inr_iff intro: file_next)

text \<open>User 7 offers a file to user 9 online, and both log in.\<close>

definition demo_files :: "file_server res" where
  "demo_files = file_run demo_codec demo_fenv
     [MsgServerConnects 1, SocketReadable 1 [demo_file_frame CID_OTHER_FILE_TRANSFER_REQ []] False, ClientConnects 2, ClientConnects 3,
      SocketReadable 2 [demo_file_frame CID_FILE_LOGIN_REQ [7, 1]] False, SocketReadable 3 [demo_file_frame CID_FILE_LOGIN_REQ [9, 2]] False] (file_init empty_disk)"

definition demo_st :: file_server where
  "demo_st = (case demo_files of Inr st \<Rightarrow> st | Inl _ \<Rightarrow> file_init empty_disk)"

definition demo_closed :: file_server where
  "demo_closed = (case client_Close 0 demo_st of Inr st \<Rightarrow> st | Inl _ \<Rightarrow> demo_st)"

lemma demo_runs: "\<not> isl demo_files" "\<not> isl (client_Close 0 demo_st)"
  by code_simp+

lemma not_isl_Inr: "\<not> isl r \<Longrightarrow> r = Inr (case r of Inr x \<Rightarrow> x | Inl _ \<Rightarrow> y)"
  by (cases r) simp_all

lemma demo_files_reachable: "file_reachable demo_codec empty_disk demo_st"
proof -
  have run: "demo_files = Inr demo_st" unfolding demo_st_def using demo_runs(1) by (rule not_isl_Inr)
  show ?thesis by (rule file_run_reachable [OF run [unfolded demo_files_def] file_start])
qed

lemma demo_table: "transfer_tasks demo_st = [(''4f1c'', 0)]"
  by code_simp

lemma demo_conns:
  "client_at 1 demo_st = Inr \<lparr>fc_handle = 3, fc_last_send_tick = 1000, fc_last_recv_tick = 1000, fc_auth = True, fc_modetag = 0,
     fc_user_id = 9, fc_transfer_task = Some 0\<rparr>"
  "client_at 0 demo_st = Inr \<lparr>fc_handle = 2, fc_last_send_tick = 1000, fc_last_recv_tick = 1000, fc_auth = True, fc_modetag = 0,
     fc_user_id = 7, fc_transfer_task = Some 0\<rparr>"
  "map_of (g_file_client_conn_map demo_st) 3 = Some 1" "LoadFromDisk demo_fenv ''4f1c'' (fs_disk demo_st) = Inr None"
  by code_simp+

lemma file_tasks_typed_witness:
  "(\<exists>t. task_at 0 demo_st = Inr t \<and> task_typed t) \<and> FileTaskTimerCallback demo_fenv demo_st = Inr demo_st"
  using file_tasks_typed [OF demo_files_reachable, of demo_fenv] demo_table by (auto split: if_splits)

lemma partner_close_faults_witness:
  "HandleClientFilePullFileReq demo_fenv demo_codec (fst (demo_file_frame CID_FILE_PULL_DATA_REQ [])) (snd (demo_file_frame CID_FILE_PULL_DATA_REQ [])) 1 demo_closed
    = Inl MemFault"
proof (rule partner_close_faults [OF demo_conns(1,2) _ demo_conns(3)])
  show "client_Close 0 demo_st = Inr demo_closed" unfolding demo_closed_def using demo_runs(2) by (rule not_isl_Inr)
  show "LoadFromDisk demo_fenv (pq_task_id (snd (pb_par (pb_PullDataReq demo_codec) []))) (fs_disk demo_st) = Inr None"
    using demo_conns(4) by (simp add: demo_codec_def)
qed (simp_all add: demo_file_frame_def demo_codec_def)

end
