(* ===== verification/NetSocket.thy ===== *)
theory NetSocket
  imports ServerBase
begin

text \<open>
  The network library below the connections (\<open>base/BaseSocket.cpp\<close>, \<open>base/netlib.cpp\<close>): counted socket objects, found by handle in a map, whose
  callbacks run the servers. The operating system is a parameter: what each of its calls returns, as functions on a state of its own. So are the callbacks:
  a callback is named by a function and its user data, and \<open>call\<close> says what it does to the whole state, of which the server's is a part.
\<close>

section \<open>The operating system\<close>

datatype connect_outcome = ConnectDone | ConnectInProgress | ConnectError
datatype send_outcome = Sent nat | SendBlocks | SendError

text \<open>The flags of an event of \<open>epoll\<close> that the loop looks at; \<open>ev_failed\<close> is any of \<open>EPOLLPRI\<close>, \<open>EPOLLERR\<close> and \<open>EPOLLHUP\<close>.\<close>

record epoll_event =
  ev_fd :: u32
  ev_rdhup :: bool
  ev_in :: bool
  ev_out :: bool
  ev_failed :: bool

record 'o os =
  os_socket :: "'o \<Rightarrow> u32 option \<times> 'o"
  os_bind :: "u32 \<Rightarrow> string \<Rightarrow> u16 \<Rightarrow> 'o \<Rightarrow> bool \<times> 'o"
  os_listen :: "u32 \<Rightarrow> 'o \<Rightarrow> bool \<times> 'o"
  os_connect :: "u32 \<Rightarrow> string \<Rightarrow> u16 \<Rightarrow> 'o \<Rightarrow> connect_outcome \<times> 'o"
  os_accept :: "u32 \<Rightarrow> 'o \<Rightarrow> (u32 \<times> u32 \<times> u16) option \<times> 'o"
  os_send :: "u32 \<Rightarrow> bytes \<Rightarrow> 'o \<Rightarrow> send_outcome \<times> 'o"
  os_recv :: "u32 \<Rightarrow> nat \<Rightarrow> 'o \<Rightarrow> (int \<times> bytes) \<times> 'o"
  os_avail :: "u32 \<Rightarrow> 'o \<Rightarrow> nat option \<times> 'o"
  os_so_error :: "u32 \<Rightarrow> 'o \<Rightarrow> bool \<times> 'o"
  os_epoll_add :: "u32 \<Rightarrow> 'o \<Rightarrow> 'o"
  os_epoll_del :: "u32 \<Rightarrow> 'o \<Rightarrow> 'o"
  os_closesocket :: "u32 \<Rightarrow> 'o \<Rightarrow> 'o"
  os_tick :: "'o \<Rightarrow> u64 \<times> 'o"
  os_epoll_wait :: "'o \<Rightarrow> epoll_event list \<times> 'o"

section \<open>State\<close>

datatype socket_state = SOCKET_STATE_IDLE | SOCKET_STATE_LISTENING | SOCKET_STATE_CONNECTING | SOCKET_STATE_CONNECTED | SOCKET_STATE_CLOSING

text \<open>The messages of a callback.\<close>

datatype callback_msg = MSG_CONNECT | MSG_CONFIRM | MSG_READ | MSG_WRITE | MSG_CLOSE | MSG_TIMER | MSG_LOOP

text \<open>The constructor leaves the callback unset.\<close>

record ('c, 'd) base_socket =
  so_remote_ip :: string
  so_remote_port :: u16
  so_local_ip :: string
  so_local_port :: u16
  so_callback :: "'c option"
  so_callback_data :: "'d option"
  so_state :: socket_state
  so_socket :: u32

definition CBaseSocket :: "('c, 'd) base_socket" where
  "CBaseSocket = \<lparr>so_remote_ip = [], so_remote_port = 0, so_local_ip = [], so_local_port = 0, so_callback = None, so_callback_data = None,
     so_state = SOCKET_STATE_IDLE, so_socket = NETLIB_INVALID_HANDLE\<rparr>"

record ('c, 'd) timer_item =
  ti_callback :: 'c
  ti_user_data :: 'd
  ti_interval :: u64
  ti_next_tick :: u64

text \<open>Timers and loop items have addresses, so that an iterator into their list is the address of an item.\<close>

record ('c, 'd, 'o, 's) net =
  g_socket_map :: "(u32, nat) assoc"
  nt_socks :: "('c, 'd) base_socket heap"
  m_timer_list :: "(nat \<times> ('c, 'd) timer_item) list"
  m_loop_list :: "(nat \<times> 'c \<times> 'd) list"
  nt_item_next :: nat
  nt_running :: bool
  nt_os :: 'o
  nt_app :: 's

type_synonym ('c, 'd, 'o, 's) net_op = "('c, 'd, 'o, 's) net \<Rightarrow> ('c, 'd, 'o, 's) net res"
type_synonym ('c, 'd, 'o, 's) call = "'c \<Rightarrow> 'd option \<Rightarrow> callback_msg \<Rightarrow> u32 \<Rightarrow> ('c, 'd, 'o, 's) net_op"

definition net_init :: "'o \<Rightarrow> 's \<Rightarrow> ('c, 'd, 'o, 's) net" where
  "net_init o0 app = \<lparr>g_socket_map = [], nt_socks = empty_heap, m_timer_list = [], m_loop_list = [], nt_item_next = 0, nt_running = False,
     nt_os = o0, nt_app = app\<rparr>"

text \<open>A call of the operating system.\<close>

definition sys :: "('o \<Rightarrow> 'r \<times> 'o) \<Rightarrow> ('c, 'd, 'o, 's) net \<Rightarrow> 'r \<times> ('c, 'd, 'o, 's) net" where
  "sys f st = (let (r, o1) = f (nt_os st) in (r, st\<lparr>nt_os := o1\<rparr>))"

definition sys_do :: "('o \<Rightarrow> 'o) \<Rightarrow> ('c, 'd, 'o, 's) net \<Rightarrow> ('c, 'd, 'o, 's) net" where
  "sys_do f st = st\<lparr>nt_os := f (nt_os st)\<rparr>"

definition sock_at :: "nat \<Rightarrow> ('c, 'd, 'o, 's) net \<Rightarrow> ('c, 'd) base_socket res" where
  "sock_at a st = deref a (nt_socks st)"

definition set_sock :: "nat \<Rightarrow> ('c, 'd) base_socket \<Rightarrow> ('c, 'd, 'o, 's) net \<Rightarrow> ('c, 'd, 'o, 's) net" where
  "set_sock a x st = st\<lparr>nt_socks := set_obj a x (nt_socks st)\<rparr>"

definition sock_release :: "nat \<Rightarrow> ('c, 'd, 'o, 's) net_op" where
  "sock_release a st = bindR (release_ref a (nt_socks st)) (\<lambda>h. Inr (st\<lparr>nt_socks := h\<rparr>))"

section \<open>The map of sockets\<close>

definition AddBaseSocket :: "nat \<Rightarrow> ('c, 'd, 'o, 's) net_op" where
  "AddBaseSocket a st = bindR (sock_at a st) (\<lambda>x. Inr (st\<lparr>g_socket_map := hm_insert (so_socket x) a (g_socket_map st)\<rparr>))"

definition RemoveBaseSocket :: "nat \<Rightarrow> ('c, 'd, 'o, 's) net_op" where
  "RemoveBaseSocket a st = bindR (sock_at a st) (\<lambda>x. Inr (st\<lparr>g_socket_map := map_erase (so_socket x) (g_socket_map st)\<rparr>))"

definition FindBaseSocket :: "u32 \<Rightarrow> ('c, 'd, 'o, 's) net \<Rightarrow> (nat option \<times> ('c, 'd, 'o, 's) net) res" where
  "FindBaseSocket fd st =
     (case map_of (g_socket_map st) fd of
        None \<Rightarrow> Inr (None, st)
      | Some a \<Rightarrow> bindR (add_ref a (nt_socks st)) (\<lambda>h. Inr (Some a, st\<lparr>nt_socks := h\<rparr>)))"

section \<open>CBaseSocket\<close>

definition sock_Listen :: "'o os \<Rightarrow> nat \<Rightarrow> string \<Rightarrow> u16 \<Rightarrow> 'c \<Rightarrow> 'd option \<Rightarrow> ('c, 'd, 'o, 's) net \<Rightarrow> (bool \<times> ('c, 'd, 'o, 's) net) res" where
  "sock_Listen os a server_ip port callback callback_data st =
     bindR (sock_at a st) (\<lambda>x.
       let x1 = x\<lparr>so_local_ip := server_ip, so_local_port := port, so_callback := Some callback, so_callback_data := callback_data\<rparr>;
           (fd, st1) = sys (os_socket os) st
       in case fd of
            None \<Rightarrow> Inr (False, set_sock a (x1\<lparr>so_socket := NETLIB_INVALID_HANDLE\<rparr>) st1)
          | Some fd \<Rightarrow>
              let st2 = set_sock a (x1\<lparr>so_socket := fd\<rparr>) st1;
                  (bound, st3) = sys (os_bind os fd server_ip port) st2
              in if \<not> bound then Inr (False, sys_do (os_closesocket os fd) st3)
                 else let (listening, st4) = sys (os_listen os fd) st3
                      in if \<not> listening then Inr (False, sys_do (os_closesocket os fd) st4)
                         else bindR (AddBaseSocket a (set_sock a (x1\<lparr>so_socket := fd, so_state := SOCKET_STATE_LISTENING\<rparr>) st4)) (\<lambda>st5.
                              Inr (True, sys_do (os_epoll_add os fd) st5)))"

definition sock_Connect :: "'o os \<Rightarrow> nat \<Rightarrow> string \<Rightarrow> u16 \<Rightarrow> 'c \<Rightarrow> 'd option \<Rightarrow> ('c, 'd, 'o, 's) net \<Rightarrow> (u32 \<times> ('c, 'd, 'o, 's) net) res" where
  "sock_Connect os a server_ip port callback callback_data st =
     bindR (sock_at a st) (\<lambda>x.
       let x1 = x\<lparr>so_remote_ip := server_ip, so_remote_port := port, so_callback := Some callback, so_callback_data := callback_data\<rparr>;
           (fd, st1) = sys (os_socket os) st
       in case fd of
            None \<Rightarrow> Inr (NETLIB_INVALID_HANDLE, set_sock a (x1\<lparr>so_socket := NETLIB_INVALID_HANDLE\<rparr>) st1)
          | Some fd \<Rightarrow>
              let (r, st2) = sys (os_connect os fd server_ip port) (set_sock a (x1\<lparr>so_socket := fd\<rparr>) st1)
              in if r = ConnectError then Inr (NETLIB_INVALID_HANDLE, sys_do (os_closesocket os fd) st2)
                 else bindR (AddBaseSocket a (set_sock a (x1\<lparr>so_socket := fd, so_state := SOCKET_STATE_CONNECTING\<rparr>) st2)) (\<lambda>st3.
                      Inr (fd, sys_do (os_epoll_add os fd) st3)))"

definition sock_Send :: "'o os \<Rightarrow> nat \<Rightarrow> bytes \<Rightarrow> ('c, 'd, 'o, 's) net \<Rightarrow> (int \<times> ('c, 'd, 'o, 's) net) res" where
  "sock_Send os a buf st =
     bindR (sock_at a st) (\<lambda>x.
       if so_state x \<noteq> SOCKET_STATE_CONNECTED then Inr (- 1, st)
       else let (r, st1) = sys (os_send os (so_socket x) buf) st
            in Inr (case r of Sent n \<Rightarrow> int n | SendBlocks \<Rightarrow> 0 | SendError \<Rightarrow> - 1, st1))"

definition sock_Recv :: "'o os \<Rightarrow> nat \<Rightarrow> nat \<Rightarrow> ('c, 'd, 'o, 's) net \<Rightarrow> ((int \<times> bytes) \<times> ('c, 'd, 'o, 's) net) res" where
  "sock_Recv os a len st = bindR (sock_at a st) (\<lambda>x. Inr (sys (os_recv os (so_socket x) len) st))"

definition sock_Close :: "'o os \<Rightarrow> nat \<Rightarrow> ('c, 'd, 'o, 's) net_op" where
  "sock_Close os a st =
     bindR (sock_at a st) (\<lambda>x.
     bindR (RemoveBaseSocket a (sys_do (os_epoll_del os (so_socket x)) st)) (\<lambda>st1.
       sock_release a (sys_do (os_closesocket os (so_socket x)) st1)))"

text \<open>The call of a socket's callback with its own handle; one that was never set is a jump to nowhere.\<close>

definition fire :: "('c, 'd, 'o, 's) call \<Rightarrow> nat \<Rightarrow> callback_msg \<Rightarrow> ('c, 'd, 'o, 's) net_op" where
  "fire call a msg st =
     bindR (sock_at a st) (\<lambda>x.
       case so_callback x of
         None \<Rightarrow> Inl MemFault
       | Some c \<Rightarrow> call c (so_callback_data x) msg (so_socket x) st)"

definition dotted :: "u32 \<Rightarrow> string" where
  "dotted ip = decimal (unat (drop_bit 24 ip)) @ ''.'' @ decimal (unat (drop_bit 16 ip AND 255)) @ ''.'' @ decimal (unat (drop_bit 8 ip AND 255))
     @ ''.'' @ decimal (unat (ip AND 255))"

text \<open>
  One round of the loop in \<open>_AcceptNewSocket\<close>: a new socket object with the listening socket's callback, which is told about the connection. The object
  of the listening socket is read again in every round; \<open>n\<close> bounds the number of rounds.
\<close>

fun AcceptNewSocket :: "nat \<Rightarrow> 'o os \<Rightarrow> ('c, 'd, 'o, 's) call \<Rightarrow> nat \<Rightarrow> ('c, 'd, 'o, 's) net_op" where
  "AcceptNewSocket 0 os call a st = Inl NotReturned"
| "AcceptNewSocket (Suc n) os call a st =
     bindR (sock_at a st) (\<lambda>l.
       let (new, st1) = sys (os_accept os (so_socket l)) st
       in case new of
            None \<Rightarrow> Inr st1
          | Some (fd, ip, port) \<Rightarrow>
              let x = CBaseSocket\<lparr>so_socket := fd, so_callback := so_callback l, so_callback_data := so_callback_data l,
                        so_state := SOCKET_STATE_CONNECTED, so_remote_ip := dotted ip, so_remote_port := port\<rparr>;
                  (b, h) = new_obj x (nt_socks st1)
              in bindR (AddBaseSocket b (st1\<lparr>nt_socks := h\<rparr>)) (\<lambda>st2.
                   let st3 = sys_do (os_epoll_add os fd) st2
                   in case so_callback l of
                        None \<Rightarrow> Inl MemFault
                      | Some c \<Rightarrow> bindR (call c (so_callback_data l) MSG_CONNECT fd st3) (AcceptNewSocket n os call a)))"

definition sock_OnRead :: "nat \<Rightarrow> 'o os \<Rightarrow> ('c, 'd, 'o, 's) call \<Rightarrow> nat \<Rightarrow> ('c, 'd, 'o, 's) net_op" where
  "sock_OnRead n os call a st =
     bindR (sock_at a st) (\<lambda>x.
       if so_state x = SOCKET_STATE_LISTENING then AcceptNewSocket n os call a st
       else let (avail, st1) = sys (os_avail os (so_socket x)) st
            in if avail = None \<or> avail = Some 0 then fire call a MSG_CLOSE st1 else fire call a MSG_READ st1)"

definition sock_OnWrite :: "'o os \<Rightarrow> ('c, 'd, 'o, 's) call \<Rightarrow> nat \<Rightarrow> ('c, 'd, 'o, 's) net_op" where
  "sock_OnWrite os call a st =
     bindR (sock_at a st) (\<lambda>x.
       if so_state x = SOCKET_STATE_CONNECTING then
         let (error, st1) = sys (os_so_error os (so_socket x)) st
         in if error then fire call a MSG_CLOSE st1
            else fire call a MSG_CONFIRM (set_sock a (x\<lparr>so_state := SOCKET_STATE_CONNECTED\<rparr>) st1)
       else fire call a MSG_WRITE st)"

definition sock_OnClose :: "('c, 'd, 'o, 's) call \<Rightarrow> nat \<Rightarrow> ('c, 'd, 'o, 's) net_op" where
  "sock_OnClose call a st =
     bindR (sock_at a st) (\<lambda>x. fire call a MSG_CLOSE (set_sock a (x\<lparr>so_state := SOCKET_STATE_CLOSING\<rparr>) st))"

section \<open>netlib\<close>

definition netlib_listen :: "'o os \<Rightarrow> string \<Rightarrow> u16 \<Rightarrow> 'c \<Rightarrow> 'd option \<Rightarrow> ('c, 'd, 'o, 's) net \<Rightarrow> (bool \<times> ('c, 'd, 'o, 's) net) res" where
  "netlib_listen os server_ip port callback callback_data st =
     (let (a, h) = new_obj CBaseSocket (nt_socks st)
      in bindR (sock_Listen os a server_ip port callback callback_data (st\<lparr>nt_socks := h\<rparr>)) (\<lambda>(ok, st1).
           if ok then Inr (True, st1)
           else bindR (delete_obj a (nt_socks st1)) (\<lambda>h1. Inr (False, st1\<lparr>nt_socks := h1\<rparr>))))"

definition netlib_connect :: "'o os \<Rightarrow> string \<Rightarrow> u16 \<Rightarrow> 'c \<Rightarrow> 'd option \<Rightarrow> ('c, 'd, 'o, 's) net \<Rightarrow> (u32 \<times> ('c, 'd, 'o, 's) net) res" where
  "netlib_connect os server_ip port callback callback_data st =
     (let (a, h) = new_obj CBaseSocket (nt_socks st)
      in bindR (sock_Connect os a server_ip port callback callback_data (st\<lparr>nt_socks := h\<rparr>)) (\<lambda>(handle, st1).
           if handle \<noteq> NETLIB_INVALID_HANDLE then Inr (handle, st1)
           else bindR (delete_obj a (nt_socks st1)) (\<lambda>h1. Inr (handle, st1\<lparr>nt_socks := h1\<rparr>))))"

text \<open>An operation on the socket of a handle, held by a reference meanwhile; \<open>none\<close> is the result when there is no socket.\<close>

definition with_socket :: "u32 \<Rightarrow> 'r \<Rightarrow> (nat \<Rightarrow> ('c, 'd, 'o, 's) net \<Rightarrow> ('r \<times> ('c, 'd, 'o, 's) net) res) \<Rightarrow>
    ('c, 'd, 'o, 's) net \<Rightarrow> ('r \<times> ('c, 'd, 'o, 's) net) res" where
  "with_socket handle none f st =
     bindR (FindBaseSocket handle st) (\<lambda>(p, st1).
       case p of
         None \<Rightarrow> Inr (none, st1)
       | Some a \<Rightarrow> bindR (f a st1) (\<lambda>(r, st2). bindR (sock_release a st2) (\<lambda>st3. Inr (r, st3))))"

definition netlib_send :: "'o os \<Rightarrow> u32 \<Rightarrow> bytes \<Rightarrow> ('c, 'd, 'o, 's) net \<Rightarrow> (int \<times> ('c, 'd, 'o, 's) net) res" where
  "netlib_send os handle buf = with_socket handle (- 1) (\<lambda>a. sock_Send os a buf)"

definition netlib_recv :: "'o os \<Rightarrow> u32 \<Rightarrow> nat \<Rightarrow> ('c, 'd, 'o, 's) net \<Rightarrow> ((int \<times> bytes) \<times> ('c, 'd, 'o, 's) net) res" where
  "netlib_recv os handle len = with_socket handle (- 1, []) (\<lambda>a. sock_Recv os a len)"

definition netlib_close_handle :: "'o os \<Rightarrow> u32 \<Rightarrow> ('c, 'd, 'o, 's) net \<Rightarrow> (int \<times> ('c, 'd, 'o, 's) net) res" where
  "netlib_close_handle os handle = with_socket handle (- 1) (\<lambda>a st. bindR (sock_Close os a st) (\<lambda>st1. Inr (0, st1)))"

text \<open>The options; a getter or a buffer size comes with a pointer that may be null.\<close>

datatype ('c, 'd) net_option =
    OPT_SET_CALLBACK 'c
  | OPT_SET_CALLBACK_DATA "'d option"
  | OPT_GET_REMOTE_IP bool
  | OPT_GET_REMOTE_PORT bool
  | OPT_GET_LOCAL_IP bool
  | OPT_GET_LOCAL_PORT bool
  | OPT_SET_BUF_SIZE bool

datatype option_value = NoValue | IpValue string | PortValue u16

fun has_optval :: "('c, 'd) net_option \<Rightarrow> bool" where
  "has_optval (OPT_SET_CALLBACK _) = True"
| "has_optval (OPT_SET_CALLBACK_DATA _) = True"
| "has_optval (OPT_GET_REMOTE_IP p) = p"
| "has_optval (OPT_GET_REMOTE_PORT p) = p"
| "has_optval (OPT_GET_LOCAL_IP p) = p"
| "has_optval (OPT_GET_LOCAL_PORT p) = p"
| "has_optval (OPT_SET_BUF_SIZE p) = p"

fun apply_option :: "('c, 'd) net_option \<Rightarrow> ('c, 'd) base_socket \<Rightarrow> option_value \<times> ('c, 'd) base_socket" where
  "apply_option (OPT_SET_CALLBACK c) x = (NoValue, x\<lparr>so_callback := Some c\<rparr>)"
| "apply_option (OPT_SET_CALLBACK_DATA d) x = (NoValue, x\<lparr>so_callback_data := d\<rparr>)"
| "apply_option (OPT_GET_REMOTE_IP _) x = (IpValue (so_remote_ip x), x)"
| "apply_option (OPT_GET_REMOTE_PORT _) x = (PortValue (so_remote_port x), x)"
| "apply_option (OPT_GET_LOCAL_IP _) x = (IpValue (so_local_ip x), x)"
| "apply_option (OPT_GET_LOCAL_PORT _) x = (PortValue (so_local_port x), x)"
| "apply_option (OPT_SET_BUF_SIZE _) x = (NoValue, x)"

text \<open>The return for a null pointer comes after the socket has been found, and keeps the reference to it.\<close>

definition netlib_option :: "u32 \<Rightarrow> ('c, 'd) net_option \<Rightarrow> ('c, 'd, 'o, 's) net \<Rightarrow> ((bool \<times> option_value) \<times> ('c, 'd, 'o, 's) net) res" where
  "netlib_option handle opt st =
     bindR (FindBaseSocket handle st) (\<lambda>(p, st1).
       case p of
         None \<Rightarrow> Inr ((False, NoValue), st1)
       | Some a \<Rightarrow>
           if \<not> has_optval opt then Inr ((False, NoValue), st1)
           else bindR (sock_at a st1) (\<lambda>x.
             let (v, x1) = apply_option opt x
             in bindR (sock_release a (set_sock a x1 st1)) (\<lambda>st2. Inr ((True, v), st2))))"

end
