(* ===== verification/NetLoop.thy ===== *)
theory NetLoop
  imports NetSocket
begin

text \<open>
  The event loop (\<open>base/EventDispatch.cpp\<close>, as compiled for Linux): events of \<open>epoll\<close> are passed to the sockets, then timers that are due and the loop
  items are called. Both lists are walked with an iterator while callbacks may change them.
\<close>

section \<open>Timers\<close>

fun update_timer :: "'c \<Rightarrow> 'd \<Rightarrow> u64 \<Rightarrow> u64 \<Rightarrow> (nat \<times> ('c, 'd) timer_item) list \<Rightarrow> (nat \<times> ('c, 'd) timer_item) list option" where
  "update_timer c d interval next [] = None"
| "update_timer c d interval next ((i, t) # its) =
     (if ti_callback t = c \<and> ti_user_data t = d then Some ((i, t\<lparr>ti_interval := interval, ti_next_tick := next\<rparr>) # its)
      else map_option ((#) (i, t)) (update_timer c d interval next its))"

definition AddTimer :: "'o os \<Rightarrow> 'c \<Rightarrow> 'd \<Rightarrow> u64 \<Rightarrow> ('c, 'd, 'o, 's) net \<Rightarrow> ('c, 'd, 'o, 's) net" where
  "AddTimer os c d interval st =
     (let (now, st1) = sys (os_tick os) st
      in case update_timer c d interval (now + interval) (m_timer_list st1) of
           Some its \<Rightarrow> st1\<lparr>m_timer_list := its\<rparr>
         | None \<Rightarrow> st1\<lparr>m_timer_list := m_timer_list st1 @ [(nt_item_next st1, \<lparr>ti_callback = c, ti_user_data = d, ti_interval = interval,
                      ti_next_tick = now + interval\<rparr>)], nt_item_next := nt_item_next st1 + 1\<rparr>)"

fun remove_timer :: "'c \<Rightarrow> 'd \<Rightarrow> (nat \<times> ('c, 'd) timer_item) list \<Rightarrow> (nat \<times> ('c, 'd) timer_item) list" where
  "remove_timer c d [] = []"
| "remove_timer c d ((i, t) # its) = (if ti_callback t = c \<and> ti_user_data t = d then its else (i, t) # remove_timer c d its)"

definition RemoveTimer :: "'c \<Rightarrow> 'd \<Rightarrow> ('c, 'd, 'o, 's) net \<Rightarrow> ('c, 'd, 'o, 's) net" where
  "RemoveTimer c d st = st\<lparr>m_timer_list := remove_timer c d (m_timer_list st)\<rparr>"

text \<open>The iterator after item \<open>i\<close>; \<open>None\<close> is the end of the list.\<close>

fun item_after :: "nat \<Rightarrow> (nat \<times> 'x) list \<Rightarrow> nat option" where
  "item_after i [] = None"
| "item_after i ((j, _) # its) = (if i = j then (case its of [] \<Rightarrow> None | (k, _) # _ \<Rightarrow> Some k) else item_after i its)"

definition first_item :: "(nat \<times> 'x) list \<Rightarrow> nat option" where
  "first_item its = (case its of [] \<Rightarrow> None | (i, _) # _ \<Rightarrow> Some i)"

text \<open>
  The loop of \<open>_CheckTimer\<close> from an iterator on: it is moved on before the callback runs, which protects against the removal of the item itself, but
  not of the next one. \<open>n\<close> bounds the number of items that are visited, since callbacks may append to the list.
\<close>

fun check_timers :: "nat \<Rightarrow> ('c, 'd, 'o, 's) call \<Rightarrow> u64 \<Rightarrow> nat option \<Rightarrow> ('c, 'd, 'o, 's) net_op" where
  "check_timers n call curr_tick None st = Inr st"
| "check_timers 0 call curr_tick (Some i) st = Inl NotReturned"
| "check_timers (Suc n) call curr_tick (Some i) st =
     (case map_of (m_timer_list st) i of
        None \<Rightarrow> Inl MemFault
      | Some t \<Rightarrow>
          let it = item_after i (m_timer_list st)
          in if curr_tick \<ge> ti_next_tick t
             then bindR (call (ti_callback t) (Some (ti_user_data t)) MSG_TIMER 0
                           (st\<lparr>m_timer_list := hm_assign i (t\<lparr>ti_next_tick := ti_next_tick t + ti_interval t\<rparr>) (m_timer_list st)\<rparr>))
                    (check_timers n call curr_tick it)
             else check_timers n call curr_tick it st)"

definition CheckTimer :: "nat \<Rightarrow> 'o os \<Rightarrow> ('c, 'd, 'o, 's) call \<Rightarrow> ('c, 'd, 'o, 's) net_op" where
  "CheckTimer n os call st =
     (let (curr_tick, st1) = sys (os_tick os) st in check_timers n call curr_tick (first_item (m_timer_list st1)) st1)"

section \<open>Loop items\<close>

definition AddLoop :: "'c \<Rightarrow> 'd \<Rightarrow> ('c, 'd, 'o, 's) net \<Rightarrow> ('c, 'd, 'o, 's) net" where
  "AddLoop c d st = st\<lparr>m_loop_list := m_loop_list st @ [(nt_item_next st, c, d)], nt_item_next := nt_item_next st + 1\<rparr>"

text \<open>The loop of \<open>_CheckLoop\<close>; here the iterator is moved on after the callback, and nothing ever removes an item.\<close>

fun check_loop :: "nat \<Rightarrow> ('c, 'd, 'o, 's) call \<Rightarrow> nat option \<Rightarrow> ('c, 'd, 'o, 's) net_op" where
  "check_loop n call None st = Inr st"
| "check_loop 0 call (Some i) st = Inl NotReturned"
| "check_loop (Suc n) call (Some i) st =
     (case map_of (m_loop_list st) i of
        None \<Rightarrow> Inl MemFault
      | Some (c, d) \<Rightarrow> bindR (call c (Some d) MSG_LOOP 0 st) (\<lambda>st1. check_loop n call (item_after i (m_loop_list st1)) st1))"

definition CheckLoop :: "nat \<Rightarrow> ('c, 'd, 'o, 's) call \<Rightarrow> ('c, 'd, 'o, 's) net_op" where
  "CheckLoop n call st = check_loop n call (first_item (m_loop_list st)) st"

section \<open>Events\<close>

definition event_calls :: "nat \<Rightarrow> 'o os \<Rightarrow> ('c, 'd, 'o, 's) call \<Rightarrow> epoll_event \<Rightarrow> nat \<Rightarrow> ('c, 'd, 'o, 's) net_op" where
  "event_calls n os call ev a st =
     bindR (if ev_rdhup ev then sock_OnClose call a st else Inr st) (\<lambda>st1.
     bindR (if ev_in ev then sock_OnRead n os call a st1 else Inr st1) (\<lambda>st2.
     bindR (if ev_out ev then sock_OnWrite os call a st2 else Inr st2) (\<lambda>st3.
       if ev_failed ev then sock_OnClose call a st3 else Inr st3)))"

definition dispatch_event :: "nat \<Rightarrow> 'o os \<Rightarrow> ('c, 'd, 'o, 's) call \<Rightarrow> epoll_event \<Rightarrow> ('c, 'd, 'o, 's) net_op" where
  "dispatch_event n os call ev st =
     bindR (FindBaseSocket (ev_fd ev) st) (\<lambda>(p, st1).
       case p of
         None \<Rightarrow> Inr st1
       | Some a \<Rightarrow> bindR (event_calls n os call ev a st1) (sock_release a))"

fun dispatch_events :: "nat \<Rightarrow> 'o os \<Rightarrow> ('c, 'd, 'o, 's) call \<Rightarrow> epoll_event list \<Rightarrow> ('c, 'd, 'o, 's) net_op" where
  "dispatch_events n os call [] st = Inr st"
| "dispatch_events n os call (ev # evs) st = bindR (dispatch_event n os call ev st) (dispatch_events n os call evs)"

definition dispatch_round :: "nat \<Rightarrow> 'o os \<Rightarrow> ('c, 'd, 'o, 's) call \<Rightarrow> ('c, 'd, 'o, 's) net_op" where
  "dispatch_round n os call st =
     (let (evs, st0) = sys (os_epoll_wait os) st
      in bindR (dispatch_events n os call evs st0) (\<lambda>st1. bindR (CheckTimer n os call st1) (CheckLoop n call)))"

text \<open>The first \<open>m\<close> rounds of the loop, or fewer when a callback stops it.\<close>

fun dispatch_rounds :: "nat \<Rightarrow> nat \<Rightarrow> 'o os \<Rightarrow> ('c, 'd, 'o, 's) call \<Rightarrow> ('c, 'd, 'o, 's) net_op" where
  "dispatch_rounds 0 n os call st = Inr st"
| "dispatch_rounds (Suc m) n os call st =
     (if nt_running st then bindR (dispatch_round n os call st) (dispatch_rounds m n os call) else Inr st)"

definition StartDispatch :: "nat \<Rightarrow> nat \<Rightarrow> 'o os \<Rightarrow> ('c, 'd, 'o, 's) call \<Rightarrow> ('c, 'd, 'o, 's) net_op" where
  "StartDispatch m n os call st =
     (if nt_running st then Inr st
      else bindR (dispatch_rounds m n os call (st\<lparr>nt_running := True\<rparr>)) (\<lambda>st1. if nt_running st1 then Inl NotReturned else Inr st1))"

definition StopDispatch :: "('c, 'd, 'o, 's) net \<Rightarrow> ('c, 'd, 'o, 's) net" where
  "StopDispatch st = st\<lparr>nt_running := False\<rparr>"

end
