(* ===== verification/NetInv.thy ===== *)
theory NetInv
  imports NetLoop
begin

text \<open>
  The invariant of the network library: the map refers to live socket objects by their handles, every object is counted once for the map and once for each
  running call that holds it, and the handles in the map are open in the operating system. With callbacks that keep it, no round of the event loop
  touches a deleted socket object.
\<close>

section \<open>The operating system\<close>

text \<open>
  What POSIX promises: a new descriptor is none of those that are open, \<open>closesocket\<close> closes its argument, and nothing else opens or closes any.
  \<open>pending\<close> counts the connections that wait to be accepted; new ones are seen by \<open>epoll_wait\<close>, and there are never more than the
  \<open>backlog\<close> of \<open>listen\<close>.
\<close>

definition os_quiet :: "('o \<Rightarrow> u32 set) \<Rightarrow> ('o \<Rightarrow> nat) \<Rightarrow> 'o \<Rightarrow> 'o \<Rightarrow> bool" where
  "os_quiet opened pending o1 o2 \<longleftrightarrow> opened o2 = opened o1 \<and> pending o2 \<le> pending o1"

definition opens :: "('o \<Rightarrow> u32 set) \<Rightarrow> ('o \<Rightarrow> nat) \<Rightarrow> 'o \<Rightarrow> u32 option \<Rightarrow> 'o \<Rightarrow> bool" where
  "opens opened pending o1 r o2 \<longleftrightarrow>
     (case r of
        None \<Rightarrow> os_quiet opened pending o1 o2
      | Some fd \<Rightarrow> fd \<notin> opened o1 \<and> fd \<noteq> NETLIB_INVALID_HANDLE \<and> opened o2 = insert fd (opened o1) \<and> pending o2 \<le> pending o1)"

definition good_os :: "'o os \<Rightarrow> ('o \<Rightarrow> u32 set) \<Rightarrow> ('o \<Rightarrow> nat) \<Rightarrow> nat \<Rightarrow> bool" where
  "good_os os opened pending backlog \<longleftrightarrow>
     (\<forall>o1. opened (snd (os_epoll_wait os o1)) = opened o1 \<and> pending (snd (os_epoll_wait os o1)) \<le> backlog)
     \<and> (\<forall>o1 r o2. os_socket os o1 = (r, o2) \<longrightarrow> opens opened pending o1 r o2)
     \<and> (\<forall>l o1 r o2. os_accept os l o1 = (r, o2) \<longrightarrow> opens opened pending o1 (map_option fst r) o2 \<and> (r \<noteq> None \<longrightarrow> pending o2 < pending o1))
     \<and> (\<forall>fd o1. opened (os_closesocket os fd o1) = opened o1 - {fd} \<and> pending (os_closesocket os fd o1) \<le> pending o1)
     \<and> (\<forall>fd o1. os_quiet opened pending o1 (os_epoll_add os fd o1) \<and> os_quiet opened pending o1 (os_epoll_del os fd o1)
          \<and> os_quiet opened pending o1 (snd (os_listen os fd o1)) \<and> os_quiet opened pending o1 (snd (os_avail os fd o1))
          \<and> os_quiet opened pending o1 (snd (os_so_error os fd o1)) \<and> os_quiet opened pending o1 (snd (os_tick os o1)))
     \<and> (\<forall>fd ip port o1. os_quiet opened pending o1 (snd (os_bind os fd ip port o1)) \<and> os_quiet opened pending o1 (snd (os_connect os fd ip port o1)))
     \<and> (\<forall>fd buf len o1. os_quiet opened pending o1 (snd (os_send os fd buf o1)) \<and> os_quiet opened pending o1 (snd (os_recv os fd len o1)))"

section \<open>The invariant\<close>

definition registered_sock :: "('c, 'd, 'o, 's) net \<Rightarrow> nat \<Rightarrow> bool" where
  "registered_sock st a \<longleftrightarrow> (\<exists>fd. map_of (g_socket_map st) fd = Some a)"

definition net_inv :: "('o \<Rightarrow> u32 set) \<Rightarrow> (nat \<Rightarrow> int) \<Rightarrow> ('c, 'd, 'o, 's) net \<Rightarrow> bool" where
  "net_inv opened k st \<longleftrightarrow> heap_ok (nt_socks st) \<and> hm_ok (g_socket_map st)
     \<and> (\<forall>fd a. map_of (g_socket_map st) fd = Some a \<longrightarrow> fd \<in> opened (nt_os st) \<and> (\<exists>x. sock_at a st = Inr x \<and> so_socket x = fd))
     \<and> (\<forall>a x. sock_at a st = Inr x \<longrightarrow> so_callback x \<noteq> None \<and> refs a (nt_socks st) = (if registered_sock st a then 1 else 0) + k a)
     \<and> (\<forall>a. \<not> live a (nt_socks st) \<longrightarrow> k a = 0) \<and> (\<forall>a. 0 \<le> k a)"

text \<open>What a callback has to keep besides: the items of the lists, and the connections that wait.\<close>

definition same_items :: "('o \<Rightarrow> nat) \<Rightarrow> ('c, 'd, 'o, 's) net \<Rightarrow> ('c, 'd, 'o, 's) net \<Rightarrow> bool" where
  "same_items pending st st' \<longleftrightarrow> map fst (m_timer_list st') = map fst (m_timer_list st) \<and> map fst (m_loop_list st') = map fst (m_loop_list st)
     \<and> pending (nt_os st') \<le> pending (nt_os st)"

lemma same_items_refl [simp]: "same_items p st st"
  by (simp add: same_items_def)

lemma same_items_trans: "same_items p st st1 \<Longrightarrow> same_items p st1 st2 \<Longrightarrow> same_items p st st2"
  by (simp add: same_items_def)

text \<open>An operation that returns, keeping both.\<close>

definition net_ok :: "('o \<Rightarrow> u32 set) \<Rightarrow> ('o \<Rightarrow> nat) \<Rightarrow> (nat \<Rightarrow> int) \<Rightarrow> ('c, 'd, 'o, 's) net \<Rightarrow> ('c, 'd, 'o, 's) net res \<Rightarrow> bool" where
  "net_ok opened pending k st r \<longleftrightarrow> (\<exists>st'. r = Inr st' \<and> net_inv opened k st' \<and> same_items pending st st')"

definition good_call :: "('o \<Rightarrow> u32 set) \<Rightarrow> ('o \<Rightarrow> nat) \<Rightarrow> ('c, 'd, 'o, 's) call \<Rightarrow> bool" where
  "good_call opened pending call \<longleftrightarrow> (\<forall>k c d m h st. net_inv opened k st \<longrightarrow> net_ok opened pending k st (call c d m h st))"

lemma net_okI: "r = Inr st' \<Longrightarrow> net_inv opened k st' \<Longrightarrow> same_items pending st st' \<Longrightarrow> net_ok opened pending k st r"
  by (auto simp: net_ok_def)

lemma net_ok_bind:
  assumes "net_ok opened pending k1 st m" "\<And>st1. net_inv opened k1 st1 \<Longrightarrow> same_items pending st st1 \<Longrightarrow> net_ok opened pending k st1 (f st1)"
  shows "net_ok opened pending k st (bindR m f)"
proof -
  obtain st1 where s1: "m = Inr st1" "net_inv opened k1 st1" "same_items pending st st1" using assms(1) by (auto simp: net_ok_def)
  obtain st2 where s2: "f st1 = Inr st2" "net_inv opened k st2" "same_items pending st1 st2" using assms(2) [OF s1(2,3)] by (auto simp: net_ok_def)
  show ?thesis by (rule net_okI [OF _ s2(2) same_items_trans [OF s1(3) s2(3)]]) (simp add: s1(1) s2(1))
qed

lemma net_invI:
  assumes "heap_ok (nt_socks st)" "hm_ok (g_socket_map st)"
    "\<And>fd a. map_of (g_socket_map st) fd = Some a \<Longrightarrow> fd \<in> opened (nt_os st) \<and> (\<exists>x. sock_at a st = Inr x \<and> so_socket x = fd)"
    "\<And>a x. sock_at a st = Inr x \<Longrightarrow> so_callback x \<noteq> None"
    "\<And>a x. sock_at a st = Inr x \<Longrightarrow> refs a (nt_socks st) = (if registered_sock st a then 1 else 0) + k a"
    "\<And>a. \<not> live a (nt_socks st) \<Longrightarrow> k a = 0" "\<And>a. 0 \<le> k a"
  shows "net_inv opened k st"
  using assms unfolding net_inv_def by blast

lemma net_invD:
  assumes "net_inv opened k st"
  shows "heap_ok (nt_socks st)" "hm_ok (g_socket_map st)"
    "map_of (g_socket_map st) fd = Some a \<Longrightarrow> fd \<in> opened (nt_os st) \<and> (\<exists>x. sock_at a st = Inr x \<and> so_socket x = fd)"
    "sock_at a st = Inr x \<Longrightarrow> so_callback x \<noteq> None"
    "sock_at a st = Inr x \<Longrightarrow> refs a (nt_socks st) = (if registered_sock st a then 1 else 0) + k a"
    "\<not> live a (nt_socks st) \<Longrightarrow> k a = 0" "0 \<le> k a"
  using assms unfolding net_inv_def by blast+

lemma sock_at_live: "live a (nt_socks st) \<longleftrightarrow> (\<exists>x. sock_at a st = Inr x)"
  using live_deref [of a "nt_socks st"] by (auto simp: sock_at_def deref_live)

lemma net_held:
  assumes "net_inv opened k st" "0 < k a"
  obtains x where "sock_at a st = Inr x"
  using net_invD(6) [OF assms(1), of a] assms(2) sock_at_live [of a st] by force

text \<open>Only the objects, the map and the open descriptors matter.\<close>

lemma net_inv_cong:
  assumes "nt_socks st' = nt_socks st" "g_socket_map st' = g_socket_map st" "opened (nt_os st') = opened (nt_os st)"
  shows "net_inv opened k st' = net_inv opened k st"
  using assms by (simp add: net_inv_def sock_at_def registered_sock_def)

lemma net_inv_set_sock:
  assumes "net_inv opened k st" "sock_at a st = Inr x" "so_socket y = so_socket x" "so_callback y \<noteq> None"
  shows "net_inv opened k (set_sock a y st)"
proof -
  have "live a (nt_socks st)" using assms(2) by (auto simp: sock_at_def deref_live)
  then have at: "sock_at b (set_sock a y st) = (if b = a then Inr y else sock_at b st)" for b
    by (simp add: sock_at_def set_sock_def deref_set_obj)
  have lv: "live b (set_obj a y (nt_socks st)) = live b (nt_socks st)" for b
    by (auto simp: live_def set_obj_def map_of_hm_assign split: option.splits)
  note d = net_invD [OF assms(1)]
  show ?thesis
  proof (rule net_invI)
    fix fd b assume "map_of (g_socket_map (set_sock a y st)) fd = Some b"
    then show "fd \<in> opened (nt_os (set_sock a y st)) \<and> (\<exists>x. sock_at b (set_sock a y st) = Inr x \<and> so_socket x = fd)"
      using d(3) [of fd b] assms(2,3) unfolding at by (auto simp: set_sock_def)
  next
    fix b z assume "sock_at b (set_sock a y st) = Inr z"
    then show "so_callback z \<noteq> None" "refs b (nt_socks (set_sock a y st)) = (if registered_sock (set_sock a y st) b then 1 else 0) + k b"
      using d(4) [of b z] d(5) [of b] assms(2,4) unfolding at by (auto simp: set_sock_def registered_sock_def split: if_splits)
  qed (use d in \<open>auto simp: set_sock_def heap_ok_set_obj lv\<close>)
qed

lemma same_items_sys:
  "pending (snd (f (nt_os st))) \<le> pending (nt_os st) \<Longrightarrow> same_items pending st (snd (sys f st))"
  "pending (g (nt_os st)) \<le> pending (nt_os st) \<Longrightarrow> same_items pending st (sys_do g st)"
  by (simp_all add: same_items_def sys_def sys_do_def case_prod_beta)

text \<open>Calls of the operating system that open and close nothing.\<close>

lemma net_ok_sys:
  assumes "net_inv opened k st" "os_quiet opened pending (nt_os st) (snd (f (nt_os st)))" "sys f st = (r, st1)"
  shows "net_inv opened k st1" "same_items pending st st1" "nt_socks st1 = nt_socks st"
proof -
  have st1: "st1 = st\<lparr>nt_os := snd (f (nt_os st))\<rparr>" using assms(3) by (auto simp: sys_def split: prod.splits)
  show "net_inv opened k st1" using assms(1,2) net_inv_cong [of st1 st opened k] by (simp add: st1 os_quiet_def)
  show "same_items pending st st1" "nt_socks st1 = nt_socks st" using assms(2) by (simp_all add: st1 os_quiet_def same_items_def)
qed

section \<open>References\<close>

lemma net_inv_hold:
  assumes inv: "net_inv opened k st" and a: "live a (nt_socks st)"
  shows "\<exists>h. add_ref a (nt_socks st) = Inr h \<and> net_inv opened (k(a := k a + 1)) (st\<lparr>nt_socks := h\<rparr>)"
proof -
  obtain h where h: "add_ref a (nt_socks st) = Inr h" "heap_ok h" "\<And>b. deref b h = deref b (nt_socks st)"
    "\<And>b. refs b h = refs b (nt_socks st) + (if b = a then 1 else 0)"
    using add_ref_spec [OF net_invD(1) [OF inv] a] by auto
  have lv: "live b h = live b (nt_socks st)" for b using h(3) [of b] by (auto simp: deref_def live_def split: option.splits)
  note d = net_invD [OF inv]
  have "net_inv opened (k(a := k a + 1)) (st\<lparr>nt_socks := h\<rparr>)"
  proof (rule net_invI)
    show "(k(a := k a + 1)) b = 0" if "\<not> live b (nt_socks (st\<lparr>nt_socks := h\<rparr>))" for b using that a d(6) [of b] by (auto simp: lv)
    show "0 \<le> (k(a := k a + 1)) b" for b using d(7) [of a] d(7) [of b] by simp
    show "refs b (nt_socks (st\<lparr>nt_socks := h\<rparr>)) = (if registered_sock (st\<lparr>nt_socks := h\<rparr>) b then 1 else 0) + (k(a := k a + 1)) b"
      if "sock_at b (st\<lparr>nt_socks := h\<rparr>) = Inr x" for b x
      using that d(5) [of b x] h(3,4) by (simp add: sock_at_def registered_sock_def)
  qed (use d h in \<open>auto simp: sock_at_def\<close>)
  then show ?thesis using h(1) by blast
qed

lemma net_inv_drop:
  assumes inv: "net_inv opened k st" and k: "0 < k a"
  shows "net_ok opened pending (k(a := k a - 1)) st (sock_release a st)"
proof -
  obtain x where x: "sock_at a st = Inr x" using net_held [OF inv k] .
  then have a: "live a (nt_socks st)" by (auto simp: sock_at_def deref_live)
  obtain h where h: "release_ref a (nt_socks st) = Inr h" "heap_ok h"
    "\<And>b. deref b h = (if b = a \<and> refs a (nt_socks st) = 1 then Inl MemFault else deref b (nt_socks st))"
    "\<And>b. refs b h = refs b (nt_socks st) - (if b = a then 1 else 0)"
    using release_ref_spec [OF net_invD(1) [OF inv] a] by auto
  let ?st = "st\<lparr>nt_socks := h\<rparr>"
  note d = net_invD [OF inv]
  have at: "sock_at b ?st = (if b = a \<and> refs a (nt_socks st) = 1 then Inl MemFault else sock_at b st)" for b by (simp add: sock_at_def h(3))
  have r: "refs a (nt_socks st) = (if registered_sock st a then 1 else 0) + k a" by (rule d(5) [OF x])
  then have gone: "refs a (nt_socks st) = 1 \<Longrightarrow> \<not> registered_sock st a \<and> k a = 1" using k by (auto split: if_splits)
  have "net_inv opened (k(a := k a - 1)) ?st"
  proof (rule net_invI)
    fix fd b assume "map_of (g_socket_map ?st) fd = Some b"
    then show "fd \<in> opened (nt_os ?st) \<and> (\<exists>x. sock_at b ?st = Inr x \<and> so_socket x = fd)"
      using d(3) [of fd b] gone unfolding at by (auto simp: registered_sock_def)
  next
    fix b assume "\<not> live b (nt_socks ?st)"
    then have "\<not> (\<exists>x. sock_at b ?st = Inr x)" using sock_at_live [of b ?st] by blast
    then have "b = a \<and> refs a (nt_socks st) = 1 \<or> \<not> live b (nt_socks st)" unfolding at sock_at_live by (auto split: if_splits)
    then show "(k(a := k a - 1)) b = 0" using d(6) [of b] gone a by auto
  next
    show "0 \<le> (k(a := k a - 1)) b" for b using d(7) [of b] k by simp
  qed (use d h r in \<open>auto simp: at registered_sock_def split: if_splits\<close>)
  then show ?thesis using h(1) by (intro net_okI) (auto simp: sock_release_def same_items_def)
qed


text \<open>A new object for a descriptor that was not open.\<close>

lemma net_inv_new:
  assumes inv: "net_inv opened k st" and fd: "fd \<notin> opened (nt_os st)" "opened o2 = insert fd (opened (nt_os st))"
    and x: "so_callback x \<noteq> None" "so_socket x = fd" and b: "new_obj x (nt_socks st) = (b, h)"
  shows "\<exists>st'. AddBaseSocket b (st\<lparr>nt_os := o2, nt_socks := h\<rparr>) = Inr st' \<and> net_inv opened k st'
    \<and> st' = st\<lparr>nt_os := o2, nt_socks := h, g_socket_map := g_socket_map st'\<rparr>"
proof -
  note d = net_invD [OF inv]
  have b': "b = hp_next (nt_socks st)" "h = snd (new_obj x (nt_socks st))" using b by (auto simp: new_obj_def)
  let ?st = "st\<lparr>nt_os := o2, nt_socks := h, g_socket_map := hm_insert fd b (g_socket_map st)\<rparr>"
  have fresh: "sock_at a st = Inr y \<Longrightarrow> a \<noteq> b" for a y using deref_fresh [OF d(1)] by (auto simp: sock_at_def b')
  have at: "sock_at a ?st = (if a = b then Inr x else sock_at a st)" "refs a h = (if a = b then 1 else refs a (nt_socks st))" for a
    using heap_ok_new(2,3) [OF d(1), of x] deref_new_other [of a "nt_socks st" x] by (simp_all add: sock_at_def b')
  have out: "fd \<notin> keys (g_socket_map st)" using d(3) [of fd] fd(1) unfolding hm.keys_eq_dom by blast
  have find: "map_of (g_socket_map ?st) = (map_of (g_socket_map st))(fd \<mapsto> b)" using out by (simp add: hm.find_insert [OF d(2)])
  have reg: "registered_sock ?st a \<longleftrightarrow> a = b \<or> registered_sock st a" for a
    using out unfolding registered_sock_def find by (auto simp: hm.keys_eq_dom)
  have nreg: "\<not> registered_sock st b" using d(3) fresh by (fastforce simp: registered_sock_def)
  have kb: "k b = 0" using d(6) [of b] sock_at_live [of b st] fresh by blast
  have "net_inv opened k ?st"
  proof (rule net_invI)
    fix f a assume "map_of (g_socket_map ?st) f = Some a"
    then show "f \<in> opened (nt_os ?st) \<and> (\<exists>y. sock_at a ?st = Inr y \<and> so_socket y = f)"
      using d(3) [of f a] fresh x fd(2) unfolding find at by (auto split: if_splits)
  next
    fix a y assume "sock_at a ?st = Inr y"
    then show "so_callback y \<noteq> None" "refs a (nt_socks ?st) = (if registered_sock ?st a then 1 else 0) + k a"
      using d(4,5) [of a y] x(1) nreg kb unfolding at reg by (auto simp: at(2) split: if_splits)
  next
    fix a assume "\<not> live a (nt_socks ?st)"
    then show "k a = 0" using d(6) [of a] sock_at_live [of a ?st] sock_at_live [of a st] unfolding at by (auto split: if_splits)
  qed (use d heap_ok_new(1) [OF d(1), of x] hm.ok_insert [OF d(2)] in \<open>simp_all add: b'\<close>)
  moreover have "AddBaseSocket b (st\<lparr>nt_os := o2, nt_socks := h\<rparr>) = Inr ?st"
    using at(1) [of b] x(2) by (simp add: AddBaseSocket_def sock_at_def)
  ultimately show ?thesis by simp
qed

text \<open>An object that was made for an attempt that failed is deleted without a trace.\<close>

lemma net_inv_discard:
  assumes inv: "net_inv opened k st" and b: "new_obj x (nt_socks st) = (b, h)" and o2: "opened o2 = opened (nt_os st)"
  shows "\<exists>h'. delete_obj b (set_obj b y h) = Inr h' \<and> net_inv opened k (st\<lparr>nt_os := o2, nt_socks := h'\<rparr>)"
proof -
  note d = net_invD [OF inv]
  have b': "b = hp_next (nt_socks st)" "h = snd (new_obj x (nt_socks st))" using b by (auto simp: new_obj_def)
  have h: "heap_ok h" "deref b h = Inr x" using heap_ok_new [OF d(1), of x] by (simp_all add: b')
  then have l: "live b h" by (auto dest: deref_live)
  then have l2: "live b (set_obj b y h)" by (auto simp: live_def set_obj_def map_of_hm_assign)
  obtain h' where h': "delete_obj b (set_obj b y h) = Inr h'" "heap_ok h'" "\<And>a. deref a h' = (if a = b then Inl MemFault else deref a (set_obj b y h))"
    using delete_obj_spec [OF heap_ok_set_obj [OF h(1)] l2] by blast
  have fresh: "sock_at a st = Inr z \<Longrightarrow> a \<noteq> b" for a z using deref_fresh [OF d(1)] by (auto simp: sock_at_def b')
  have dead: "deref b (nt_socks st) = Inl MemFault"
  proof (cases "map_of (hp_objs (nt_socks st)) b")
    case (Some p)
    then have "sock_at b st = Inr (snd p)" by (simp add: sock_at_def deref_def)
    then show ?thesis using fresh by blast
  qed (simp add: deref_def)
  have at: "sock_at a (st\<lparr>nt_os := o2, nt_socks := h'\<rparr>) = sock_at a st" for a
    using h'(3) [of a] deref_new_other(1) [of a "nt_socks st" x] dead by (auto simp: sock_at_def deref_set_obj b')
  have rf: "refs a h' = refs a (nt_socks st)" if "sock_at a st = Inr z" for a z
  proof -
    have "a \<noteq> b" using fresh [OF that] .
    moreover have "refs a h' = refs a (set_obj b y h)" using h'(1) calculation by (auto simp: delete_obj_def refs_def map_of_map_erase split: if_splits)
    ultimately show ?thesis using deref_new_other(2) [of a "nt_socks st" x] by (simp add: b')
  qed
  have "net_inv opened k (st\<lparr>nt_os := o2, nt_socks := h'\<rparr>)"
  proof (rule net_invI)
    fix a assume "\<not> live a (nt_socks (st\<lparr>nt_os := o2, nt_socks := h'\<rparr>))"
    then show "k a = 0" using d(6) [of a] sock_at_live [of a "st\<lparr>nt_os := o2, nt_socks := h'\<rparr>"] sock_at_live [of a st] unfolding at by simp
  qed (use d h'(2) rf in \<open>auto simp: at o2 registered_sock_def\<close>)
  then show ?thesis using h'(1) by blast
qed

end
