(* ===== verification/NetSafe.thy ===== *)
theory NetSafe
  imports NetInv
begin

text \<open>
  Every operation of the network library keeps its invariant, and with it every round of the event loop.
\<close>

section \<open>Operations of netlib\<close>

lemma net_inv_unregister:
  assumes inv: "net_inv opened k st" and fd: "map_of (g_socket_map st) fd = Some a" and o2: "opened o2 = opened (nt_os st) - {fd}"
  shows "net_inv opened (k(a := k a + 1)) (st\<lparr>g_socket_map := map_erase fd (g_socket_map st), nt_os := o2\<rparr>)"
proof -
  note d = net_invD [OF inv]
  obtain x where x: "sock_at a st = Inr x" "so_socket x = fd" using d(3) [OF fd] by blast
  have only: "map_of (g_socket_map st) f = Some a \<Longrightarrow> f = fd" for f using d(3) [of f a] x by auto
  let ?st = "st\<lparr>g_socket_map := map_erase fd (g_socket_map st), nt_os := o2\<rparr>"
  have at: "sock_at b ?st = sock_at b st" for b by (simp add: sock_at_def)
  have reg: "registered_sock ?st b \<longleftrightarrow> registered_sock st b \<and> b \<noteq> a" for b
  proof -
    have "registered_sock ?st b \<longleftrightarrow> (\<exists>f. f \<noteq> fd \<and> map_of (g_socket_map st) f = Some b)"
      by (auto simp: registered_sock_def map_of_map_erase)
    then show ?thesis using only fd unfolding registered_sock_def by (metis option.inject)
  qed
  have rega: "registered_sock st a" unfolding registered_sock_def using fd by blast
  show ?thesis
  proof (rule net_invI)
    fix b assume "\<not> live b (nt_socks ?st)"
    then show "(k(a := k a + 1)) b = 0" using d(6) [of b] x(1) sock_at_live [of a st] by auto
  next
    show "0 \<le> (k(a := k a + 1)) b" for b using d(7) [of b] d(7) [of a] by simp
  next
    fix b y assume "sock_at b ?st = Inr y"
    then show "refs b (nt_socks ?st) = (if registered_sock ?st b then 1 else 0) + (k(a := k a + 1)) b"
      using d(5) [of b y] rega by (simp add: at reg)
  qed (use d o2 in \<open>auto simp: at hm.ok_erase map_of_map_erase split: if_splits\<close>)
qed

text \<open>\<open>map_sum id snd\<close> takes the state of a result with a value.\<close>

abbreviation state_of :: "('r \<times> 'n) res \<Rightarrow> 'n res" where
  "state_of \<equiv> map_sum id snd"

lemma state_of_simps: "state_of (Inr (r, st)) = Inr st" "state_of (Inl e) = Inl e"
  by simp_all

lemma ok_FindBaseSocket:
  assumes "net_inv opened k st" "map_of (g_socket_map st) fd = Some a"
  shows "\<exists>st1. FindBaseSocket fd st = Inr (Some a, st1) \<and> net_inv opened (k(a := k a + 1)) st1 \<and> same_items pending st st1
    \<and> g_socket_map st1 = g_socket_map st \<and> nt_os st1 = nt_os st"
proof -
  have "live a (nt_socks st)" using net_invD(3) [OF assms] sock_at_live by blast
  then obtain h where "add_ref a (nt_socks st) = Inr h" "net_inv opened (k(a := k a + 1)) (st\<lparr>nt_socks := h\<rparr>)"
    using net_inv_hold [OF assms(1)] by blast
  then show ?thesis using assms(2) by (simp add: FindBaseSocket_def same_items_def)
qed

lemma ok_release_hold:
  assumes "net_inv opened (k(a := k a + 1)) st" "0 \<le> k a"
  shows "net_ok opened pending k st (sock_release a st)"
  using net_inv_drop [OF assms(1), where a = a and pending = pending] assms(2) by simp

lemma ok_with_socket:
  assumes inv: "net_inv opened k st"
    and f: "\<And>a st1. net_inv opened (k(a := k a + 1)) st1 \<Longrightarrow> map_of (g_socket_map st1) handle = Some a \<Longrightarrow>
      net_ok opened pending (k(a := k a + 1)) st1 (state_of (f a st1))"
  shows "net_ok opened pending k st (state_of (with_socket handle none f st))"
proof (cases "map_of (g_socket_map st) handle")
  case None
  then show ?thesis using inv by (intro net_okI [where st' = st]) (simp_all add: with_socket_def FindBaseSocket_def)
next
  case (Some a)
  obtain st1 where s1: "FindBaseSocket handle st = Inr (Some a, st1)" "net_inv opened (k(a := k a + 1)) st1" "same_items pending st st1"
    "g_socket_map st1 = g_socket_map st" using ok_FindBaseSocket [OF inv Some] by blast
  obtain r st2 where s2: "f a st1 = Inr (r, st2)" "net_inv opened (k(a := k a + 1)) st2" "same_items pending st1 st2"
    using f [OF s1(2)] Some s1(4) by (cases "f a st1") (auto simp: net_ok_def)
  obtain st3 where s3: "sock_release a st2 = Inr st3" "net_inv opened k st3" "same_items pending st2 st3"
    using ok_release_hold [OF s2(2) net_invD(7) [OF inv], of pending] by (auto simp: net_ok_def)
  have "state_of (with_socket handle none f st) = Inr st3" using s1(1) s2(1) s3(1) by (simp add: with_socket_def)
  then show ?thesis using s3(2) same_items_trans [OF s1(3) same_items_trans [OF s2(3) s3(3)]] by (rule net_okI)
qed

lemma quiet:
  assumes "good_os os opened pending backlog"
  shows "os_quiet opened pending o1 (os_epoll_add os fd o1)" "os_quiet opened pending o1 (os_epoll_del os fd o1)"
    "os_quiet opened pending o1 (snd (os_avail os fd o1))" "os_quiet opened pending o1 (snd (os_so_error os fd o1))"
    "os_quiet opened pending o1 (snd (os_send os fd buf o1))" "os_quiet opened pending o1 (snd (os_recv os fd len o1))"
    "os_quiet opened pending o1 (snd (os_tick os o1))" "os_quiet opened pending o1 (snd (os_listen os fd o1))"
    "os_quiet opened pending o1 (snd (os_bind os fd ip port o1))" "os_quiet opened pending o1 (snd (os_connect os fd ip port o1))"
    "opened (os_closesocket os fd o1) = opened o1 - {fd}" "pending (os_closesocket os fd o1) \<le> pending o1"
  using assms unfolding good_os_def by blast+

lemma ok_netlib_close:
  assumes os: "good_os os opened pending backlog" and inv: "net_inv opened k st"
  shows "net_ok opened pending k st (state_of (netlib_close_handle os handle st))"
  unfolding netlib_close_handle_def
proof (rule ok_with_socket [OF inv])
  fix a st1 assume s1: "net_inv opened (k(a := k a + 1)) st1" "map_of (g_socket_map st1) handle = Some a"
  let ?k = "k(a := k a + 1)"
  obtain x where x: "sock_at a st1 = Inr x" "so_socket x = handle" using net_invD(3) [OF s1] by blast
  let ?o = "os_closesocket os handle (os_epoll_del os handle (nt_os st1))"
  let ?st = "st1\<lparr>g_socket_map := map_erase handle (g_socket_map st1), nt_os := ?o\<rparr>"
  have "opened ?o = opened (nt_os st1) - {handle}" "pending ?o \<le> pending (nt_os st1)"
    using quiet(2) [OF os, of "nt_os st1" handle] quiet(11,12) [OF os, of handle "os_epoll_del os handle (nt_os st1)"] by (auto simp: os_quiet_def)
  then have inv2: "net_inv opened (?k(a := ?k a + 1)) ?st" and items: "same_items pending st1 ?st"
    using net_inv_unregister [OF s1] by (auto simp: same_items_def)
  have "net_ok opened pending ?k ?st (sock_release a ?st)" using ok_release_hold [OF inv2] net_invD(7) [OF s1(1), of a] by simp
  then obtain st2 where s2: "sock_release a ?st = Inr st2" "net_inv opened ?k st2" "same_items pending ?st st2" by (auto simp: net_ok_def)
  have "sock_Close os a st1 = sock_release a ?st" using x by (simp add: sock_Close_def RemoveBaseSocket_def sock_at_def sys_do_def)
  then show "net_ok opened pending ?k st1 (state_of (bindR (sock_Close os a st1) (\<lambda>st1. Inr (0, st1))))"
    using s2 same_items_trans [OF items s2(3)] by (intro net_okI) simp_all
qed

lemma ok_netlib_send:
  assumes os: "good_os os opened pending backlog" and inv: "net_inv opened k st"
  shows "net_ok opened pending k st (state_of (netlib_send os handle buf st))"
  unfolding netlib_send_def
proof (rule ok_with_socket [OF inv])
  fix a st1 assume s1: "net_inv opened (k(a := k a + 1)) st1" "map_of (g_socket_map st1) handle = Some a"
  obtain x where x: "sock_at a st1 = Inr x" using net_invD(3) [OF s1] by blast
  obtain r st2 where "sys (os_send os (so_socket x) buf) st1 = (r, st2)" by fastforce
  with net_ok_sys [OF s1(1) quiet(5) [OF os] this] s1 x show "net_ok opened pending (k(a := k a + 1)) st1 (state_of (sock_Send os a buf st1))"
    by (auto simp: sock_Send_def net_ok_def)
qed

lemma ok_netlib_recv:
  assumes os: "good_os os opened pending backlog" and inv: "net_inv opened k st"
  shows "net_ok opened pending k st (state_of (netlib_recv os handle len st))"
  unfolding netlib_recv_def
proof (rule ok_with_socket [OF inv])
  fix a st1 assume s1: "net_inv opened (k(a := k a + 1)) st1" "map_of (g_socket_map st1) handle = Some a"
  obtain x where x: "sock_at a st1 = Inr x" using net_invD(3) [OF s1] by blast
  obtain r st2 where "sys (os_recv os (so_socket x) len) st1 = (r, st2)" by fastforce
  with net_ok_sys [OF s1(1) quiet(6) [OF os] this] s1 x show "net_ok opened pending (k(a := k a + 1)) st1 (state_of (sock_Recv os a len st1))"
    by (auto simp: sock_Recv_def net_ok_def)
qed

text \<open>An option with a value; without one the reference would stay.\<close>

lemma apply_option_keeps: "so_socket (snd (apply_option opt x)) = so_socket x" "so_callback x \<noteq> None \<Longrightarrow> so_callback (snd (apply_option opt x)) \<noteq> None"
  by (cases opt; simp)+

lemma ok_netlib_option:
  assumes inv: "net_inv opened k st" and v: "has_optval opt"
  shows "net_ok opened pending k st (state_of (netlib_option handle opt st))"
proof (cases "map_of (g_socket_map st) handle")
  case None
  then show ?thesis using inv by (intro net_okI [where st' = st]) (simp_all add: netlib_option_def FindBaseSocket_def)
next
  case (Some a)
  obtain st1 where s1: "FindBaseSocket handle st = Inr (Some a, st1)" "net_inv opened (k(a := k a + 1)) st1" "same_items pending st st1"
    "g_socket_map st1 = g_socket_map st" using ok_FindBaseSocket [OF inv Some] by blast
  obtain x where x: "sock_at a st1 = Inr x" using net_invD(3) [OF s1(2)] Some s1(4) by auto
  obtain v y where y: "apply_option opt x = (v, y)" by fastforce
  have "net_inv opened (k(a := k a + 1)) (set_sock a y st1)"
    using net_inv_set_sock [OF s1(2) x, of y] apply_option_keeps(1) [of opt x] apply_option_keeps(2) [of x opt] net_invD(4) [OF s1(2) x] y by simp
  then obtain st2 where s2: "sock_release a (set_sock a y st1) = Inr st2" "net_inv opened k st2" "same_items pending (set_sock a y st1) st2"
    using ok_release_hold [where k = k and a = a and pending = pending, OF _ net_invD(7) [OF inv]] by (auto simp: net_ok_def)
  have items: "same_items pending st1 (set_sock a y st1)" by (simp add: same_items_def set_sock_def)
  have "state_of (netlib_option handle opt st) = Inr st2" using s1(1) x y s2(1) v by (simp add: netlib_option_def)
  then show ?thesis using s2(2) same_items_trans [OF s1(3) same_items_trans [OF items s2(3)]] by (rule net_okI)
qed

end
