(* ===== verification/NetDispatch.thy ===== *)
theory NetDispatch
  imports NetSafe
begin

text \<open>
  Sockets are made, and events passed to them, without ever touching a deleted object: the rounds of the event loop keep the invariant of the network
  library as long as the callbacks do.
\<close>

section \<open>New sockets\<close>

lemma set_obj_new:
  assumes "heap_ok h"
  shows "set_obj (hp_next h) y (snd (new_obj x h)) = snd (new_obj y h)"
proof -
  have "hp_next h \<notin> fst ` set (hp_objs h)" using assms by (force simp: heap_ok_def)
  then show ?thesis by (simp add: set_obj_def new_obj_def)
qed

lemma quiet_open:
  assumes "good_os os opened pending backlog"
  shows "os_socket os o1 = (None, o2) \<Longrightarrow> os_quiet opened pending o1 o2"
    "os_socket os o1 = (Some fd, o2) \<Longrightarrow>
      fd \<notin> opened o1 \<and> fd \<noteq> NETLIB_INVALID_HANDLE \<and> opened o2 = insert fd (opened o1) \<and> pending o2 \<le> pending o1"
    "os_accept os l o1 = (None, o2) \<Longrightarrow> os_quiet opened pending o1 o2"
    "os_accept os l o1 = (Some (fd, r), o2) \<Longrightarrow>
      fd \<notin> opened o1 \<and> fd \<noteq> NETLIB_INVALID_HANDLE \<and> opened o2 = insert fd (opened o1) \<and> pending o2 < pending o1"
    "opened (snd (os_epoll_wait os o1)) = opened o1" "pending (snd (os_epoll_wait os o1)) \<le> backlog"
  using assms unfolding good_os_def by (fastforce simp: opens_def)+

section \<open>Callbacks\<close>

lemma ok_fire:
  assumes "good_call opened pending call" and inv: "net_inv opened k st" and "0 < k a"
  shows "net_ok opened pending k st (fire call a msg st)"
proof -
  obtain x where x: "sock_at a st = Inr x" using net_held [OF inv assms(3)] .
  obtain c where "so_callback x = Some c" using net_invD(4) [OF inv x] by blast
  then show ?thesis using assms(1) inv x by (simp add: fire_def good_call_def)
qed

lemma ok_set_fire:
  assumes "good_call opened pending call" "net_inv opened k st" "0 < k a" "sock_at a st = Inr x" "so_socket y = so_socket x"
    "so_callback y = so_callback x"
  shows "net_ok opened pending k st (fire call a msg (set_sock a y st))"
proof -
  have "net_inv opened k (set_sock a y st)" using net_inv_set_sock [OF assms(2,4,5)] net_invD(4) [OF assms(2,4)] assms(6) by simp
  from ok_fire [OF assms(1) this assms(3), of msg] show ?thesis by (simp add: net_ok_def same_items_def set_sock_def)
qed

lemma net_ok_after:
  "same_items pending st st1 \<Longrightarrow> net_ok opened pending k st1 r \<Longrightarrow> net_ok opened pending k st r"
  by (auto simp: net_ok_def intro: same_items_trans)

lemma ok_OnClose:
  assumes "good_call opened pending call" "net_inv opened k st" "0 < k a"
  shows "net_ok opened pending k st (sock_OnClose call a st)"
proof -
  obtain x where "sock_at a st = Inr x" using net_held [OF assms(2,3)] .
  then show ?thesis using ok_set_fire [OF assms] by (simp add: sock_OnClose_def)
qed

lemma ok_OnWrite:
  assumes os: "good_os os opened pending backlog" and call: "good_call opened pending call" and inv: "net_inv opened k st" and a: "0 < k a"
  shows "net_ok opened pending k st (sock_OnWrite os call a st)"
proof -
  obtain x where x: "sock_at a st = Inr x" using net_held [OF inv a] .
  obtain e st1 where s1: "sys (os_so_error os (so_socket x)) st = (e, st1)" by fastforce
  note k1 = net_ok_sys [OF inv quiet(4) [OF os] s1]
  have x1: "sock_at a st1 = Inr x" using x k1(3) by (simp add: sock_at_def)
  show ?thesis
    using net_ok_after [OF k1(2) ok_fire [OF call k1(1) a]] net_ok_after [OF k1(2) ok_set_fire [OF call k1(1) a x1]] ok_fire [OF call inv a]
    by (simp add: sock_OnWrite_def x s1)
qed

lemma ok_AcceptNewSocket:
  assumes os: "good_os os opened pending backlog" and call: "good_call opened pending call" and a: "0 < k a"
  shows "net_inv opened k st \<Longrightarrow> pending (nt_os st) < n \<Longrightarrow> net_ok opened pending k st (AcceptNewSocket n os call a st)"
proof (induction n arbitrary: st)
  case (Suc n)
  note inv = Suc.prems(1)
  obtain l where l: "sock_at a st = Inr l" using net_held [OF inv a] .
  obtain c where c: "so_callback l = Some c" using net_invD(4) [OF inv l] by blast
  obtain new o2 where acc: "os_accept os (so_socket l) (nt_os st) = (new, o2)" by fastforce
  show ?case
  proof (cases new)
    case None
    have "os_quiet opened pending (nt_os st) o2" using quiet_open(3) [OF os] acc None by blast
    then show ?thesis using inv net_inv_cong [of "st\<lparr>nt_os := o2\<rparr>" st opened k] acc None l
      by (intro net_okI [where st' = "st\<lparr>nt_os := o2\<rparr>"]) (simp_all add: sys_def os_quiet_def same_items_def)
  next
    case (Some p)
    obtain fd ip port where p: "p = (fd, ip, port)" by (cases p)
    have o2: "fd \<notin> opened (nt_os st)" "opened o2 = insert fd (opened (nt_os st))" "pending o2 < pending (nt_os st)"
      using quiet_open(4) [OF os] acc Some p by blast+
    let ?x = "CBaseSocket\<lparr>so_socket := fd, so_callback := so_callback l, so_callback_data := so_callback_data l,
      so_state := SOCKET_STATE_CONNECTED, so_remote_ip := dotted ip, so_remote_port := port\<rparr>"
    obtain b h where b: "new_obj ?x (nt_socks st) = (b, h)" by fastforce
    obtain st2 where s2: "AddBaseSocket b (st\<lparr>nt_os := o2, nt_socks := h\<rparr>) = Inr st2" "net_inv opened k st2"
      "st2 = st\<lparr>nt_os := o2, nt_socks := h, g_socket_map := g_socket_map st2\<rparr>"
      using net_inv_new [OF inv o2(1,2) _ _ b] c by auto
    let ?st3 = "sys_do (os_epoll_add os fd) st2"
    have q: "os_quiet opened pending (nt_os st2) (os_epoll_add os fd (nt_os st2))" by (rule quiet(1) [OF os])
    have inv3: "net_inv opened k ?st3" using s2(2) q net_inv_cong [of ?st3 st2 opened k] by (simp add: sys_do_def os_quiet_def)
    have fields: "m_timer_list st2 = m_timer_list st" "m_loop_list st2 = m_loop_list st" "nt_os st2 = o2"
      using s2(3) by (metis net.select_convs net.surjective net.update_convs)+
    have items: "same_items pending st ?st3" using q fields o2(3) by (simp add: same_items_def sys_do_def os_quiet_def)
    have called: "net_ok opened pending k st (call c (so_callback_data l) MSG_CONNECT fd ?st3)"
      using call inv3 net_ok_after [OF items] unfolding good_call_def by blast
    have less: "pending (nt_os st4) < n" if "same_items pending ?st3 st4" for st4
      using that q fields(3) o2(3) Suc.prems(2) by (simp add: same_items_def sys_do_def os_quiet_def)
    obtain st4 where s4: "call c (so_callback_data l) MSG_CONNECT fd ?st3 = Inr st4" "net_inv opened k st4" "same_items pending ?st3 st4"
      using call inv3 unfolding good_call_def net_ok_def by blast
    have "AcceptNewSocket (Suc n) os call a st = AcceptNewSocket n os call a st4"
      using l acc Some p b s2(1) c s4(1) by (simp add: sys_def)
    then show ?thesis using net_ok_after [OF same_items_trans [OF items s4(3)] Suc.IH [OF s4(2) less [OF s4(3)]]] by simp
  qed
qed simp


lemma ok_OnRead:
  assumes os: "good_os os opened pending backlog" and call: "good_call opened pending call" and inv: "net_inv opened k st" and a: "0 < k a"
    and n: "pending (nt_os st) < n"
  shows "net_ok opened pending k st (sock_OnRead n os call a st)"
proof -
  obtain x where x: "sock_at a st = Inr x" using net_held [OF inv a] .
  obtain avail st1 where s1: "sys (os_avail os (so_socket x)) st = (avail, st1)" by fastforce
  note k1 = net_ok_sys [OF inv quiet(3) [OF os] s1]
  show ?thesis
    using net_ok_after [OF k1(2) ok_fire [OF call k1(1) a]] ok_AcceptNewSocket [OF os call a inv n] by (simp add: sock_OnRead_def x s1)
qed

section \<open>Events\<close>

lemma net_ok_when: "net_inv opened k st \<Longrightarrow> net_ok opened pending k st r \<Longrightarrow> net_ok opened pending k st (if b then r else Inr st)"
  by (auto intro: net_okI)

lemma ok_event_calls:
  assumes os: "good_os os opened pending backlog" and call: "good_call opened pending call" and inv: "net_inv opened k st" and a: "0 < k a"
    and n: "pending (nt_os st) < n"
  shows "net_ok opened pending k st (event_calls n os call ev a st)"
  unfolding event_calls_def
proof (rule net_ok_bind [OF net_ok_when [OF inv ok_OnClose [OF call inv a]]])
  fix st1 assume s1: "net_inv opened k st1" "same_items pending st st1"
  have n1: "pending (nt_os st1) < n" using s1(2) n by (simp add: same_items_def)
  show "net_ok opened pending k st1 (bindR (if ev_in ev then sock_OnRead n os call a st1 else Inr st1) (\<lambda>st2.
      bindR (if ev_out ev then sock_OnWrite os call a st2 else Inr st2) (\<lambda>st3. if ev_failed ev then sock_OnClose call a st3 else Inr st3)))"
  proof (rule net_ok_bind [OF net_ok_when [OF s1(1) ok_OnRead [OF os call s1(1) a n1]]])
    fix st2 assume s2: "net_inv opened k st2" and "same_items pending st1 st2"
    show "net_ok opened pending k st2 (bindR (if ev_out ev then sock_OnWrite os call a st2 else Inr st2) (\<lambda>st3.
        if ev_failed ev then sock_OnClose call a st3 else Inr st3))"
      by (rule net_ok_bind [OF net_ok_when [OF s2 ok_OnWrite [OF os call s2 a]]]) (auto intro: net_okI ok_OnClose [OF call] a)
  qed
qed

lemma ok_dispatch_event:
  assumes os: "good_os os opened pending backlog" and call: "good_call opened pending call" and inv: "net_inv opened k st"
    and n: "pending (nt_os st) < n"
  shows "net_ok opened pending k st (dispatch_event n os call ev st)"
proof (cases "map_of (g_socket_map st) (ev_fd ev)")
  case None
  then show ?thesis using inv by (intro net_okI [where st' = st]) (simp_all add: dispatch_event_def FindBaseSocket_def)
next
  case (Some a)
  let ?k = "k(a := k a + 1)"
  obtain st1 where s1: "FindBaseSocket (ev_fd ev) st = Inr (Some a, st1)" "net_inv opened ?k st1" "same_items pending st st1"
    using ok_FindBaseSocket [OF inv Some] by blast
  have a: "0 < ?k a" using net_invD(7) [OF inv, of a] by simp
  have n1: "pending (nt_os st1) < n" using s1(3) n by (simp add: same_items_def)
  have "net_ok opened pending k st1 (bindR (event_calls n os call ev a st1) (sock_release a))"
    by (rule net_ok_bind [OF ok_event_calls [OF os call s1(2) a n1]]) (rule ok_release_hold [OF _ net_invD(7) [OF inv]])
  then show ?thesis using net_ok_after [OF s1(3)] by (simp add: dispatch_event_def s1(1))
qed

lemma ok_dispatch_events:
  assumes os: "good_os os opened pending backlog" and call: "good_call opened pending call"
  shows "net_inv opened k st \<Longrightarrow> pending (nt_os st) < n \<Longrightarrow> net_ok opened pending k st (dispatch_events n os call evs st)"
proof (induction evs arbitrary: st)
  case (Cons ev evs)
  show ?case unfolding dispatch_events.simps
    by (rule net_ok_bind [OF ok_dispatch_event [OF os call Cons.prems]]) (use Cons in \<open>auto simp: same_items_def\<close>)
qed (auto intro: net_okI)

section \<open>Timers and loop items\<close>

lemma item_after_ids: "map fst its = pre @ i # suf \<Longrightarrow> i \<notin> set pre \<Longrightarrow> item_after i its = (case suf of [] \<Rightarrow> None | j # _ \<Rightarrow> Some j)"
proof (induction pre arbitrary: its)
  case Nil
  then obtain x its' where "its = (i, x) # its'" "map fst its' = suf" by (cases its) auto
  then show ?case by (cases its') auto
next
  case (Cons j pre)
  then obtain x its' where "its = (j, x) # its'" "map fst its' = pre @ i # suf" by (cases its) auto
  then show ?case using Cons by simp
qed

lemma item_found: "i \<in> set (map fst its) \<Longrightarrow> \<exists>t. map_of its i = Some t"
  by (auto simp: map_of_eq_None_iff simp flip: not_None_eq)

lemma map_fst_hm_assign: "i \<in> set (map fst its) \<Longrightarrow> map fst (hm_assign i t its) = map fst its"
  by (induction its) auto

abbreviation first_id :: "nat list \<Rightarrow> nat option" where
  "first_id ids \<equiv> (case ids of [] \<Rightarrow> None | j # _ \<Rightarrow> Some j)"

lemma first_item_id: "first_item its = first_id (map fst its)"
  by (auto simp: first_item_def split: list.split)

lemma ok_check_timers:
  assumes call: "good_call opened pending call"
  shows "net_inv opened k st \<Longrightarrow> map fst (m_timer_list st) = pre @ suf \<Longrightarrow> distinct (pre @ suf) \<Longrightarrow> length suf \<le> n \<Longrightarrow>
    net_ok opened pending k st (check_timers n call now (first_id suf) st)"
proof (induction suf arbitrary: pre st n)
  case (Cons i suf)
  note inv = Cons.prems(1) and ids = Cons.prems(2)
  obtain m where n: "n = Suc m" "length suf \<le> m" using Cons.prems(4) by (cases n) auto
  obtain t where t: "map_of (m_timer_list st) i = Some t" using item_found [of i "m_timer_list st"] ids by (auto simp del: set_map)
  have it: "item_after i (m_timer_list st) = first_id suf" using item_after_ids [OF ids] Cons.prems(3) by simp
  let ?st = "st\<lparr>m_timer_list := hm_assign i (t\<lparr>ti_next_tick := ti_next_tick t + ti_interval t\<rparr>) (m_timer_list st)\<rparr>"
  have inv1: "net_inv opened k ?st" using inv net_inv_cong [of ?st st opened k] by simp
  have "map fst (m_timer_list ?st) = map fst (m_timer_list st)" using ids by (simp add: map_fst_hm_assign)
  then have items: "same_items pending st ?st" by (simp add: same_items_def)
  have rest: "net_ok opened pending k st1 (check_timers m call now (first_id suf) st1)" if "net_inv opened k st1" "same_items pending st st1" for st1
    using Cons.IH [of st1 "pre @ [i]" m] that n(2) ids Cons.prems(3) by (simp add: same_items_def)
  have "net_ok opened pending k ?st (bindR (call (ti_callback t) (Some (ti_user_data t)) MSG_TIMER 0 ?st) (check_timers m call now (first_id suf)))"
    by (rule net_ok_bind [where ?k1.0 = k]) (use call inv1 rest same_items_trans [OF items] in \<open>auto simp: good_call_def simp del: check_timers.simps\<close>)
  then show ?case using n(1) t it rest [OF inv] net_ok_after [OF items] by (simp add: Let_def)
qed (auto intro: net_okI)

lemma ok_check_loop:
  assumes call: "good_call opened pending call"
  shows "net_inv opened k st \<Longrightarrow> map fst (m_loop_list st) = pre @ suf \<Longrightarrow> distinct (pre @ suf) \<Longrightarrow> length suf \<le> n \<Longrightarrow>
    net_ok opened pending k st (check_loop n call (first_id suf) st)"
proof (induction suf arbitrary: pre st n)
  case (Cons i suf)
  note inv = Cons.prems(1) and ids = Cons.prems(2)
  obtain m where n: "n = Suc m" "length suf \<le> m" using Cons.prems(4) by (cases n) auto
  obtain c d where t: "map_of (m_loop_list st) i = Some (c, d)" using item_found [of i "m_loop_list st"] ids by (auto simp del: set_map)
  have "net_ok opened pending k st (bindR (call c (Some d) MSG_LOOP 0 st) (\<lambda>st1. check_loop m call (item_after i (m_loop_list st1)) st1))"
  proof (rule net_ok_bind [where ?k1.0 = k])
    fix st1 assume s1: "net_inv opened k st1" "same_items pending st st1"
    then have ids1: "map fst (m_loop_list st1) = pre @ i # suf" using ids by (simp add: same_items_def)
    have "item_after i (m_loop_list st1) = first_id suf" using item_after_ids [OF ids1] Cons.prems(3) by simp
    then show "net_ok opened pending k st1 (check_loop m call (item_after i (m_loop_list st1)) st1)"
      using Cons.IH [of st1 "pre @ [i]" m] s1(1) n(2) ids1 Cons.prems(3) by simp
  qed (use call inv in \<open>auto simp: good_call_def\<close>)
  then show ?case using n(1) t by simp
qed (auto intro: net_okI)

section \<open>Rounds\<close>

definition net_items_ok :: "nat \<Rightarrow> ('c, 'd, 'o, 's) net \<Rightarrow> bool" where
  "net_items_ok n st \<longleftrightarrow> distinct (map fst (m_timer_list st)) \<and> distinct (map fst (m_loop_list st))
     \<and> length (m_timer_list st) \<le> n \<and> length (m_loop_list st) \<le> n"

lemma net_items_ok_same:
  assumes "same_items pending st st1"
  shows "net_items_ok n st1 = net_items_ok n st"
proof -
  have "map fst (m_timer_list st1) = map fst (m_timer_list st)" "map fst (m_loop_list st1) = map fst (m_loop_list st)"
    using assms by (auto simp: same_items_def)
  then show ?thesis by (metis net_items_ok_def length_map)
qed

lemma ok_CheckTimer:
  assumes os: "good_os os opened pending backlog" and call: "good_call opened pending call" and inv: "net_inv opened k st" and n: "net_items_ok n st"
  shows "net_ok opened pending k st (CheckTimer n os call st)"
proof -
  obtain now st1 where s1: "sys (os_tick os) st = (now, st1)" by fastforce
  note k1 = net_ok_sys [OF inv quiet(7) [OF os] s1]
  have n1: "net_items_ok n st1" using n net_items_ok_same [OF k1(2)] by simp
  show ?thesis
    using net_ok_after [OF k1(2) ok_check_timers [OF call k1(1), of "[]" "map fst (m_timer_list st1)" n]] n1
    by (simp add: CheckTimer_def s1 first_item_id net_items_ok_def)
qed

text \<open>A round returns with the invariant; the connections that wait may have become more.\<close>

lemma dispatch_round_keeps:
  assumes os: "good_os os opened pending backlog" and call: "good_call opened pending call" and inv: "net_inv opened k st"
    and n: "net_items_ok n st" "backlog < n"
  shows "\<exists>st'. dispatch_round n os call st = Inr st' \<and> net_inv opened k st' \<and> net_items_ok n st'"
proof -
  obtain evs st0 where s0: "sys (os_epoll_wait os) st = (evs, st0)" by fastforce
  then have st0: "st0 = st\<lparr>nt_os := snd (os_epoll_wait os (nt_os st))\<rparr>" by (auto simp: sys_def split: prod.splits)
  have inv0: "net_inv opened k st0" using inv net_inv_cong [of st0 st opened k] quiet_open(5) [OF os] by (simp add: st0)
  have p0: "pending (nt_os st0) < n" using quiet_open(6) [OF os, of "nt_os st"] n(2) by (simp add: st0)
  have n0: "net_items_ok n st0" using n(1) by (simp add: st0 net_items_ok_def)
  have "net_ok opened pending k st0 (bindR (dispatch_events n os call evs st0) (\<lambda>st1. bindR (CheckTimer n os call st1) (CheckLoop n call)))"
  proof (rule net_ok_bind [OF ok_dispatch_events [OF os call inv0 p0]])
    fix st1 assume s1: "net_inv opened k st1" "same_items pending st0 st1"
    have n1: "net_items_ok n st1" using n0 net_items_ok_same [OF s1(2)] by simp
    show "net_ok opened pending k st1 (bindR (CheckTimer n os call st1) (CheckLoop n call))"
    proof (rule net_ok_bind [OF ok_CheckTimer [OF os call s1(1) n1]])
      fix st2 assume s2: "net_inv opened k st2" "same_items pending st1 st2"
      have n2: "net_items_ok n st2" using n1 net_items_ok_same [OF s2(2)] by simp
      then show "net_ok opened pending k st2 (CheckLoop n call st2)"
        using ok_check_loop [OF call s2(1), of "[]" "map fst (m_loop_list st2)" n] by (simp add: CheckLoop_def first_item_id net_items_ok_def)
    qed
  qed
  then obtain st' where "dispatch_round n os call st = Inr st'" "net_inv opened k st'" "same_items pending st0 st'"
    by (auto simp: net_ok_def dispatch_round_def s0)
  then show ?thesis using net_items_ok_same n0 by blast
qed

lemma dispatch_rounds_keep:
  assumes os: "good_os os opened pending backlog" and call: "good_call opened pending call" and b: "backlog < n"
  shows "net_inv opened k st \<Longrightarrow> net_items_ok n st \<Longrightarrow>
    \<exists>st'. dispatch_rounds m n os call st = Inr st' \<and> net_inv opened k st' \<and> net_items_ok n st'"
proof (induction m arbitrary: st)
  case (Suc m)
  show ?case using dispatch_round_keeps [OF os call Suc.prems b] Suc by (cases "nt_running st") auto
qed simp

end
