(* ===== verification/NetNew.thy ===== *)
theory NetNew
  imports NetDispatch
begin

text \<open>
  Sockets that listen or connect: an attempt that fails leaves neither an object nor a descriptor behind, one that succeeds a registered socket.
\<close>

lemma sys_eq: "sys f st = (fst (f (nt_os st)), st\<lparr>nt_os := snd (f (nt_os st))\<rparr>)"
  by (simp add: sys_def case_prod_beta)

lemma new_obj_eq: "new_obj x h = (hp_next h, snd (new_obj x h))"
  by (simp add: new_obj_def)

lemma os_after_socks: "st\<lparr>nt_os := o1, nt_socks := h\<rparr> = st\<lparr>nt_socks := h, nt_os := o1\<rparr>"
  by simp

lemma fst_new_obj: "fst (new_obj x h) = hp_next h"
  by (simp add: new_obj_def)

lemma deref_new: "heap_ok h \<Longrightarrow> deref (hp_next h) (snd (new_obj x h)) = Inr x"
  using heap_ok_new(2) [of h x] by simp

text \<open>The object of an attempt that failed.\<close>

lemma discard_new:
  assumes inv: "net_inv opened k st" and o2: "opened o2 = opened (nt_os st)" "pending o2 \<le> pending (nt_os st)"
  shows "\<exists>h'. delete_obj (hp_next (nt_socks st)) (snd (new_obj y (nt_socks st))) = Inr h'
    \<and> net_ok opened pending k st (Inr (st\<lparr>nt_socks := h', nt_os := o2\<rparr>))"
proof -
  obtain h' where h': "delete_obj (hp_next (nt_socks st)) (snd (new_obj y (nt_socks st))) = Inr h'"
    "net_inv opened k (st\<lparr>nt_os := o2, nt_socks := h'\<rparr>)"
    using net_inv_discard [OF inv new_obj_eq o2(1), of y y] by (auto simp: set_obj_new [OF net_invD(1) [OF inv]])
  have "net_inv opened k (st\<lparr>nt_socks := h', nt_os := o2\<rparr>)"
    using h'(2) net_inv_cong [of "st\<lparr>nt_os := o2, nt_socks := h'\<rparr>" "st\<lparr>nt_socks := h', nt_os := o2\<rparr>"] by simp
  then show ?thesis using h'(1) o2(2) by (auto simp: same_items_def intro: net_okI)
qed

text \<open>A descriptor that was opened and closed again meanwhile.\<close>

definition reopened :: "('o \<Rightarrow> u32 set) \<Rightarrow> ('o \<Rightarrow> nat) \<Rightarrow> 'o \<Rightarrow> u32 \<Rightarrow> 'o \<Rightarrow> bool" where
  "reopened opened pending o0 fd o1 \<longleftrightarrow>
     fd \<notin> opened o0 \<and> fd \<noteq> NETLIB_INVALID_HANDLE \<and> opened o1 = insert fd (opened o0) \<and> pending o1 \<le> pending o0"

lemma reopened_quiet: "reopened opened pending o0 fd o1 \<Longrightarrow> os_quiet opened pending o1 o2 \<Longrightarrow> reopened opened pending o0 fd o2"
  by (auto simp: reopened_def os_quiet_def)

lemma reopened_close:
  assumes "good_os os opened pending backlog" "reopened opened pending o0 fd o1"
  shows "opened (os_closesocket os fd o1) = opened o0" "pending (os_closesocket os fd o1) \<le> pending o0"
  using quiet(11,12) [OF assms(1), of fd o1] assms(2) by (auto simp: reopened_def)

lemma os_socket_cases:
  assumes "good_os os opened pending backlog"
  obtains o1 where "os_socket os o0 = (None, o1)" "os_quiet opened pending o0 o1"
  | fd o1 where "os_socket os o0 = (Some fd, o1)" "reopened opened pending o0 fd o1"
proof (cases "os_socket os o0")
  case (Pair r o1)
  show ?thesis
  proof (cases r)
    case None
    then show ?thesis using that(1) quiet_open(1) [OF assms] Pair by blast
  next
    case (Some fd)
    then show ?thesis using that(2) quiet_open(2) [OF assms, of o0 fd o1] Pair by (simp add: reopened_def)
  qed
qed

text \<open>The registration of an object that a successful attempt has filled in.\<close>

lemma register_new:
  assumes os: "good_os os opened pending backlog" and inv: "net_inv opened k st" and o1: "reopened opened pending (nt_os st) fd o1"
    and y: "so_callback y \<noteq> None" "so_socket y = fd"
  shows "\<exists>st'. AddBaseSocket (hp_next (nt_socks st)) (st\<lparr>nt_socks := snd (new_obj y (nt_socks st)), nt_os := o1\<rparr>) = Inr st'
    \<and> net_ok opened pending k st (Inr (sys_do (os_epoll_add os fd) st')) \<and> map_of (g_socket_map st') fd = Some (hp_next (nt_socks st))"
proof -
  obtain st' where st': "AddBaseSocket (hp_next (nt_socks st)) (st\<lparr>nt_os := o1, nt_socks := snd (new_obj y (nt_socks st))\<rparr>) = Inr st'"
    "net_inv opened k st'" "st' = st\<lparr>nt_os := o1, nt_socks := snd (new_obj y (nt_socks st)), g_socket_map := g_socket_map st'\<rparr>"
    using net_inv_new [OF inv _ _ y new_obj_eq] o1 unfolding reopened_def by blast
  have q: "os_quiet opened pending o1 (os_epoll_add os fd o1)" by (rule quiet(1) [OF os])
  let ?st = "sys_do (os_epoll_add os fd) st'"
  have fields: "m_timer_list st' = m_timer_list st" "m_loop_list st' = m_loop_list st" "nt_os st' = o1"
    by (subst st'(3), simp)+
  have "net_inv opened k ?st" using st'(2) q fields net_inv_cong [of ?st st' opened k] by (simp add: sys_do_def os_quiet_def)
  moreover have "same_items pending st ?st" using q fields o1 by (simp add: same_items_def sys_do_def os_quiet_def reopened_def)
  moreover have "fd \<notin> keys (g_socket_map st)" using net_invD(3) [OF inv, of fd] o1 unfolding hm.keys_eq_dom by (auto simp: reopened_def)
  then have "map_of (g_socket_map st') fd = Some (hp_next (nt_socks st))"
    using st'(1) y(2) deref_new [OF net_invD(1) [OF inv], of y] hm.find_insert [OF net_invD(2) [OF inv], of fd]
    by (auto simp: AddBaseSocket_def sock_at_def)
  ultimately show ?thesis using st'(1) by (auto simp flip: os_after_socks intro: net_okI)
qed

lemma ok_netlib_connect:
  assumes os: "good_os os opened pending backlog" and inv: "net_inv opened k st"
  shows "net_ok opened pending k st (state_of (netlib_connect os ip port c d st))"
proof -
  note hp = net_invD(1) [OF inv]
  let ?x = "CBaseSocket\<lparr>so_remote_ip := ip, so_remote_port := port, so_callback := Some c, so_callback_data := d\<rparr>"
  show ?thesis
  proof (cases rule: os_socket_cases [OF os, of "nt_os st"])
    case (1 o1)
    then show ?thesis
      using discard_new [OF inv, of o1 pending "?x\<lparr>so_socket := NETLIB_INVALID_HANDLE\<rparr>"]
      by (auto simp: netlib_connect_def fst_new_obj Let_def case_prod_beta sock_Connect_def sock_at_def set_sock_def deref_new [OF hp] set_obj_new [OF hp]
            sys_eq os_quiet_def os_after_socks)
  next
    case (2 fd o1)
    let ?r = "os_connect os fd ip port o1"
    have r: "reopened opened pending (nt_os st) fd (snd ?r)" by (rule reopened_quiet [OF 2(2) quiet(10) [OF os]])
    have fd: "fd \<noteq> NETLIB_INVALID_HANDLE" using r by (simp add: reopened_def)
    show ?thesis
    proof (cases "fst ?r = ConnectError")
      case True
      then show ?thesis
        using discard_new [OF inv reopened_close [OF os r], of "?x\<lparr>so_socket := fd\<rparr>"] 2(1)
        by (auto simp: netlib_connect_def fst_new_obj Let_def case_prod_beta sock_Connect_def sock_at_def set_sock_def deref_new [OF hp] set_obj_new [OF hp]
            sys_eq sys_do_def os_after_socks)
    next
      case False
      then show ?thesis
        using register_new [OF os inv r, of "?x\<lparr>so_socket := fd, so_state := SOCKET_STATE_CONNECTING\<rparr>"] 2(1) fd
        by (auto simp: netlib_connect_def fst_new_obj Let_def case_prod_beta sock_Connect_def sock_at_def set_sock_def deref_new [OF hp] set_obj_new [OF hp]
            sys_eq os_after_socks)
    qed
  qed
qed

lemma ok_netlib_listen:
  assumes os: "good_os os opened pending backlog" and inv: "net_inv opened k st"
  shows "net_ok opened pending k st (state_of (netlib_listen os ip port c d st))"
proof -
  note hp = net_invD(1) [OF inv]
  let ?x = "CBaseSocket\<lparr>so_local_ip := ip, so_local_port := port, so_callback := Some c, so_callback_data := d\<rparr>"
  show ?thesis
  proof (cases rule: os_socket_cases [OF os, of "nt_os st"])
    case (1 o1)
    then show ?thesis
      using discard_new [OF inv, of o1 pending "?x\<lparr>so_socket := NETLIB_INVALID_HANDLE\<rparr>"]
      by (auto simp: netlib_listen_def fst_new_obj Let_def case_prod_beta sock_Listen_def sock_at_def set_sock_def deref_new [OF hp] set_obj_new [OF hp]
            sys_eq os_quiet_def os_after_socks)
  next
    case (2 fd o1)
    let ?b = "os_bind os fd ip port o1"
    let ?l = "os_listen os fd (snd ?b)"
    have b: "reopened opened pending (nt_os st) fd (snd ?b)" by (rule reopened_quiet [OF 2(2) quiet(9) [OF os]])
    have l: "reopened opened pending (nt_os st) fd (snd ?l)" by (rule reopened_quiet [OF b quiet(8) [OF os]])
    consider "\<not> fst ?b" | "fst ?b" "\<not> fst ?l" | "fst ?b" "fst ?l" by blast
    then show ?thesis
    proof cases
      case 1
      then show ?thesis
        using discard_new [OF inv reopened_close [OF os b], of "?x\<lparr>so_socket := fd\<rparr>"] 2(1)
        by (auto simp: netlib_listen_def fst_new_obj Let_def case_prod_beta sock_Listen_def sock_at_def set_sock_def deref_new [OF hp] set_obj_new [OF hp]
            sys_eq sys_do_def os_after_socks)
    next
      case bound: 2
      then show ?thesis
        using discard_new [OF inv reopened_close [OF os l], of "?x\<lparr>so_socket := fd\<rparr>"] 2(1)
        by (auto simp: netlib_listen_def fst_new_obj Let_def case_prod_beta sock_Listen_def sock_at_def set_sock_def deref_new [OF hp] set_obj_new [OF hp]
            sys_eq sys_do_def os_after_socks)
    next
      case 3
      then show ?thesis
        using register_new [OF os inv l, of "?x\<lparr>so_socket := fd, so_state := SOCKET_STATE_LISTENING\<rparr>"] 2(1)
        by (auto simp: netlib_listen_def fst_new_obj Let_def case_prod_beta sock_Listen_def sock_at_def set_sock_def deref_new [OF hp] set_obj_new [OF hp]
            sys_eq os_after_socks)
    qed
  qed
qed

end
