(* ===== verification/NetTimers.thy ===== *)
theory NetTimers
  imports NetDispatch
begin

text \<open>
  The timers of the event loop against a plain description: a check calls every timer that is due once, in the order of the list, and moves its deadline
  by one interval. It says what \<open>_CheckTimer\<close> does as long as the callbacks leave the list alone.
\<close>

section \<open>Registration\<close>

definition timer_of :: "'c \<Rightarrow> 'd \<Rightarrow> (nat \<times> ('c, 'd) timer_item) list \<Rightarrow> (nat \<times> ('c, 'd) timer_item) list" where
  "timer_of c d its = filter (\<lambda>(i, t). ti_callback t = c \<and> ti_user_data t = d) its"

lemma update_timer_None: "update_timer c d interval next its = None \<longleftrightarrow> timer_of c d its = []"
  by (induction its) (auto simp: timer_of_def)

lemma update_timer_Some:
  "update_timer c d interval next its = Some its' \<Longrightarrow> map fst its' = map fst its \<and>
     (\<exists>i t rest. timer_of c d its = (i, t) # rest \<and> timer_of c d its' = (i, t\<lparr>ti_interval := interval, ti_next_tick := next\<rparr>) # rest)"
  by (induction its arbitrary: its') (fastforce simp: timer_of_def split: if_splits)+

lemma remove_timer_timer_of: "timer_of c d (remove_timer c d its) = tl (timer_of c d its)"
  by (induction its) (auto simp: timer_of_def split: if_splits)

lemma remove_timer_others: "(c', d') \<noteq> (c, d) \<Longrightarrow> timer_of c' d' (remove_timer c d its) = timer_of c' d' its"
  by (induction its) (auto simp: timer_of_def split: if_splits)

lemma update_timer_others:
  "(c', d') \<noteq> (c, d) \<Longrightarrow> update_timer c d interval next its = Some its' \<Longrightarrow> timer_of c' d' its' = timer_of c' d' its"
  by (induction its arbitrary: its') (auto simp: timer_of_def split: if_splits)

text \<open>No two items have the same callback and user data.\<close>

definition timers_unique :: "(nat \<times> ('c, 'd) timer_item) list \<Rightarrow> bool" where
  "timers_unique its \<longleftrightarrow> distinct (map fst its) \<and> (\<forall>c d. length (timer_of c d its) \<le> 1)"

section \<open>A check\<close>

definition due :: "u64 \<Rightarrow> ('c, 'd) timer_item \<Rightarrow> bool" where
  "due now t \<longleftrightarrow> ti_next_tick t \<le> now"

definition advanced :: "u64 \<Rightarrow> ('c, 'd) timer_item \<Rightarrow> ('c, 'd) timer_item" where
  "advanced now t = (if due now t then t\<lparr>ti_next_tick := ti_next_tick t + ti_interval t\<rparr> else t)"

text \<open>The deadline of an item is moved before its callback runs.\<close>

fun run_due :: "('c, 'd, 'o, 's) call \<Rightarrow> u64 \<Rightarrow> (nat \<times> ('c, 'd) timer_item) list \<Rightarrow> ('c, 'd, 'o, 's) net_op" where
  "run_due call now [] st = Inr st"
| "run_due call now ((i, t) # its) st =
     (if due now t
      then bindR (call (ti_callback t) (Some (ti_user_data t)) MSG_TIMER 0 (st\<lparr>m_timer_list := hm_assign i (advanced now t) (m_timer_list st)\<rparr>))
             (run_due call now its)
      else run_due call now its st)"

definition calm_timers :: "('c, 'd, 'o, 's) call \<Rightarrow> bool" where
  "calm_timers call \<longleftrightarrow> (\<forall>c d h st st'. call c d MSG_TIMER h st = Inr st' \<longrightarrow> m_timer_list st' = m_timer_list st)"

lemma hm_assign_append: "i \<notin> set (map fst pre) \<Longrightarrow> hm_assign i y (pre @ (i, x) # suf) = pre @ (i, y) # suf"
  by (induction pre) auto

lemma bindR_cong: "(\<And>y. m = Inr y \<Longrightarrow> f y = g y) \<Longrightarrow> bindR m f = bindR m g"
  by (cases m) simp_all

lemma check_timers_run_due:
  assumes calm: "calm_timers call"
  shows "m_timer_list st = pre @ suf \<Longrightarrow> distinct (map fst (pre @ suf)) \<Longrightarrow> length suf \<le> n \<Longrightarrow>
    check_timers n call now (first_item suf) st = run_due call now suf st"
proof (induction suf arbitrary: pre st n)
  case Nil
  then show ?case by (simp add: first_item_def)
next
  case (Cons p suf)
  obtain i t where p: "p = (i, t)" by (cases p)
  obtain m where n: "n = Suc m" "length suf \<le> m" using Cons.prems(3) by (cases n) auto
  have found: "map_of (m_timer_list st) i = Some t" using Cons.prems(1,2) p by (force simp: map_of_append map_add_def split: option.splits dest: map_of_SomeD)
  have it: "item_after i (m_timer_list st) = first_item suf"
    using item_after_ids [of "m_timer_list st" "map fst pre" i "map fst suf"] Cons.prems(1,2) p by (auto simp: first_item_id)
  have rest: "check_timers m call now (first_item suf) st1 = run_due call now suf st1" if "m_timer_list st1 = pre @ (i, t1) # suf" for st1 t1
    using Cons.IH [of st1 "pre @ [(i, t1)]" m] that n(2) Cons.prems(2) p by simp
  show ?case
  proof (cases "due now t")
    case True
    let ?st = "st\<lparr>m_timer_list := hm_assign i (advanced now t) (m_timer_list st)\<rparr>"
    have adv: "advanced now t = t\<lparr>ti_next_tick := ti_next_tick t + ti_interval t\<rparr>" using True by (simp add: advanced_def)
    have st: "m_timer_list ?st = pre @ (i, advanced now t) # suf" using hm_assign_append [of i pre] Cons.prems(1,2) p by auto
    have "bindR (call (ti_callback t) (Some (ti_user_data t)) MSG_TIMER 0 ?st) (check_timers m call now (first_item suf))
        = bindR (call (ti_callback t) (Some (ti_user_data t)) MSG_TIMER 0 ?st) (run_due call now suf)"
      using calm st rest by (intro bindR_cong) (simp add: calm_timers_def)
    then show ?thesis using True n(1) p found it adv by (simp add: first_item_def due_def)
  next
    case False
    then show ?thesis using rest [of st t] n(1) p found it Cons.prems(1) by (simp add: first_item_def due_def)
  qed
qed

text \<open>The timers after a check.\<close>

lemma run_due_timers:
  assumes calm: "calm_timers call"
  shows "m_timer_list st = pre @ suf \<Longrightarrow> distinct (map fst (pre @ suf)) \<Longrightarrow> run_due call now suf st = Inr st' \<Longrightarrow>
    m_timer_list st' = pre @ map (map_prod id (advanced now)) suf"
proof (induction suf arbitrary: pre st)
  case (Cons p suf)
  obtain i t where p: "p = (i, t)" by (cases p)
  show ?case
  proof (cases "due now t")
    case True
    let ?st = "st\<lparr>m_timer_list := hm_assign i (advanced now t) (m_timer_list st)\<rparr>"
    obtain st1 where s1: "call (ti_callback t) (Some (ti_user_data t)) MSG_TIMER 0 ?st = Inr st1" "run_due call now suf st1 = Inr st'"
      using Cons.prems(3) True p by (auto simp: result_simps)
    have "m_timer_list st1 = m_timer_list ?st" using calm s1(1) unfolding calm_timers_def by blast
    also have "\<dots> = (pre @ [(i, advanced now t)]) @ suf" using hm_assign_append [of i pre] Cons.prems(1,2) p by auto
    finally show ?thesis using Cons.IH [of st1 "pre @ [(i, advanced now t)]"] s1(2) Cons.prems(2) p by simp
  next
    case False
    then show ?thesis using Cons.IH [of st "pre @ [(i, t)]"] Cons.prems p by (simp add: advanced_def)
  qed
qed simp

section \<open>Many checks\<close>

fun clock_ticks :: "'o os \<Rightarrow> nat \<Rightarrow> 'o \<Rightarrow> u64 list" where
  "clock_ticks os 0 o1 = []"
| "clock_ticks os (Suc k) o1 = fst (os_tick os o1) # clock_ticks os k (snd (os_tick os o1))"

fun timer_checks :: "nat \<Rightarrow> 'o os \<Rightarrow> ('c, 'd, 'o, 's) call \<Rightarrow> nat \<Rightarrow> ('c, 'd, 'o, 's) net_op" where
  "timer_checks n os call 0 st = Inr st"
| "timer_checks n os call (Suc k) st = bindR (CheckTimer n os call st) (timer_checks n os call k)"

text \<open>A callback that only notes that it was called.\<close>

definition note_timer :: "('c, 'd, 'o, ('c \<times> 'd option) list) call" where
  "note_timer c d msg h st = Inr (st\<lparr>nt_app := nt_app st @ [(c, d)]\<rparr>)"

abbreviation timer_key :: "('c, 'd) timer_item \<Rightarrow> 'c \<times> 'd option" where
  "timer_key t \<equiv> (ti_callback t, Some (ti_user_data t))"

lemma calm_note_timer: "calm_timers note_timer"
  by (auto simp: calm_timers_def note_timer_def)

lemma run_due_noted:
  "\<exists>st'. run_due note_timer now its st = Inr st' \<and> nt_app st' = nt_app st @ map (timer_key \<circ> snd) (filter (due now \<circ> snd) its)
     \<and> nt_os st' = nt_os st"
proof (induction its arbitrary: st)
  case (Cons p its)
  obtain i t where p: "p = (i, t)" by (cases p)
  let ?st = "st\<lparr>m_timer_list := hm_assign i (advanced now t) (m_timer_list st), nt_app := nt_app st @ [timer_key t]\<rparr>"
  show ?case using Cons.IH [of st] Cons.IH [of ?st] p by (auto simp: note_timer_def)
qed simp

lemma CheckTimer_noted:
  assumes "distinct (map fst (m_timer_list st))" "length (m_timer_list st) \<le> n"
  shows "\<exists>st'. CheckTimer n os note_timer st = Inr st'
    \<and> m_timer_list st' = map (map_prod id (advanced (fst (os_tick os (nt_os st))))) (m_timer_list st)
    \<and> nt_app st' = nt_app st @ map (timer_key \<circ> snd) (filter (due (fst (os_tick os (nt_os st))) \<circ> snd) (m_timer_list st))
    \<and> nt_os st' = snd (os_tick os (nt_os st))"
proof -
  obtain now o1 where o1: "os_tick os (nt_os st) = (now, o1)" by fastforce
  let ?st = "st\<lparr>nt_os := o1\<rparr>"
  obtain st' where st': "run_due note_timer now (m_timer_list st) ?st = Inr st'"
    "nt_app st' = nt_app st @ map (timer_key \<circ> snd) (filter (due now \<circ> snd) (m_timer_list st))" "nt_os st' = o1"
    using run_due_noted [of now "m_timer_list st" ?st] by auto
  have "CheckTimer n os note_timer st = Inr st'"
    using check_timers_run_due [OF calm_note_timer, of ?st "[]" "m_timer_list st" n now] assms st'(1) by (simp add: CheckTimer_def sys_def o1)
  moreover have "m_timer_list st' = map (map_prod id (advanced now)) (m_timer_list st)"
    using run_due_timers [OF calm_note_timer, of ?st "[]" "m_timer_list st" now st'] assms(1) st'(1) by simp
  ultimately show ?thesis using st'(2,3) o1 by simp
qed

text \<open>The calls of one timer among all.\<close>

lemma count_due:
  assumes "length (timer_of c d its) \<le> 1" "(i, t) \<in> set its" "ti_callback t = c" "ti_user_data t = d"
  shows "count_list (map (timer_key \<circ> snd) (filter (due now \<circ> snd) its)) (c, Some d) = (if due now t then 1 else 0)"
proof -
  have "count_list (map (timer_key \<circ> snd) (filter (due now \<circ> snd) its)) (c, Some d) = length (filter (due now \<circ> snd) (timer_of c d its))"
    unfolding timer_of_def by (induction its) auto
  moreover have "(i, t) \<in> set (timer_of c d its)" using assms(2-4) by (auto simp: timer_of_def)
  then have "timer_of c d its = [(i, t)]" using assms(1) by (cases "timer_of c d its") auto
  ultimately show ?thesis by simp
qed

text \<open>A timer's deadlines, and checks that come at most one interval apart.\<close>

definition deadline :: "('c, 'd) timer_item \<Rightarrow> nat \<Rightarrow> nat" where
  "deadline t j = unat (ti_next_tick t) + j * unat (ti_interval t)"

fun timely :: "nat \<Rightarrow> nat \<Rightarrow> u64 list \<Rightarrow> bool" where
  "timely before interval [] = True"
| "timely before interval (now # ticks) \<longleftrightarrow>
     before \<le> unat now \<and> unat now \<le> before + interval \<and> unat now + interval < 2 ^ 64 \<and> timely (unat now) interval ticks"

lemma advanced_deadline:
  assumes "due now t" "unat now + unat (ti_interval t) < 2 ^ 64"
  shows "unat (ti_next_tick (advanced now t)) = unat (ti_next_tick t) + unat (ti_interval t)"
proof -
  have "unat (ti_next_tick t) \<le> unat now" using assms(1) by (simp add: due_def word_le_nat_alt)
  then have "unat (ti_next_tick t) + unat (ti_interval t) < 2 ^ LENGTH(64)" using assms(2) by simp
  then show ?thesis using assms(1) by (simp add: advanced_def unat_add_lem [THEN iffD1])
qed


lemma advanced_simps [simp]:
  "ti_interval (advanced now t) = ti_interval t" "ti_callback (advanced now t) = ti_callback t" "ti_user_data (advanced now t) = ti_user_data t"
  by (simp_all add: advanced_def)

lemma timers_unique_advanced: "timers_unique its \<Longrightarrow> timers_unique (map (map_prod id (advanced now)) its)"
proof -
  have "timer_of c d (map (map_prod id (advanced now)) its) = map (map_prod id (advanced now)) (timer_of c d its)" for c d
    unfolding timer_of_def by (induction its) auto
  then show "timers_unique its \<Longrightarrow> ?thesis" by (simp add: timers_unique_def comp_def)
qed

lemma timely_last: "timely before interval ticks \<Longrightarrow> before \<le> last (before # map unat ticks)"
proof (induction ticks arbitrary: before)
  case (Cons now ticks)
  then have "unat now \<le> last (unat now # map unat ticks)" by simp
  then show ?case using Cons.prems by (auto split: if_splits)
qed simp

lemma timer_checks_count:
  assumes "timers_unique (m_timer_list st)" "length (m_timer_list st) \<le> n" "(i, t) \<in> set (m_timer_list st)"
    "timely before (unat (ti_interval t)) (clock_ticks os k (nt_os st))" "before < unat (ti_next_tick t)"
  shows "\<exists>st' m. timer_checks n os note_timer k st = Inr st' \<and> count_list (nt_app st') (timer_key t) = count_list (nt_app st) (timer_key t) + m
    \<and> (\<forall>j. deadline t j \<le> last (before # map unat (clock_ticks os k (nt_os st))) \<longleftrightarrow> j < m)"
  using assms
proof (induction k arbitrary: st t before)
  case 0
  then have "\<not> deadline t j \<le> before" for j by (simp add: deadline_def)
  then show ?case by auto
next
  case (Suc k)
  let ?now = "fst (os_tick os (nt_os st))" and ?o1 = "snd (os_tick os (nt_os st))"
  let ?f = "if due ?now t then 1 else 0 :: nat" and ?t = "advanced ?now t"
  have now: "before \<le> unat ?now" "unat ?now \<le> before + unat (ti_interval t)" "unat ?now + unat (ti_interval t) < 2 ^ 64"
    "timely (unat ?now) (unat (ti_interval t)) (clock_ticks os k ?o1)" using Suc.prems(4) by simp_all
  obtain st1 where s1: "CheckTimer n os note_timer st = Inr st1" "m_timer_list st1 = map (map_prod id (advanced ?now)) (m_timer_list st)"
    "nt_app st1 = nt_app st @ map (timer_key \<circ> snd) (filter (due ?now \<circ> snd) (m_timer_list st))" "nt_os st1 = ?o1"
    using CheckTimer_noted [of st n os] Suc.prems(1,2) by (auto simp: timers_unique_def)
  have "count_list (map (timer_key \<circ> snd) (filter (due ?now \<circ> snd) (m_timer_list st))) (timer_key t) = ?f"
    using count_due [OF _ Suc.prems(3) refl refl] Suc.prems(1) by (simp add: timers_unique_def)
  then have fired: "count_list (nt_app st1) (timer_key t) = count_list (nt_app st) (timer_key t) + ?f" using s1(3) by simp
  have nxt: "unat (ti_next_tick ?t) = unat (ti_next_tick t) + ?f * unat (ti_interval t)"
    using advanced_deadline [OF _ now(3)] by (auto simp: advanced_def)
  have later: "unat ?now < unat (ti_next_tick ?t)" using nxt now(2) Suc.prems(5) by (auto simp: due_def word_le_nat_alt)
  have "(i, ?t) \<in> set (m_timer_list st1)" using Suc.prems(3) s1(2) by force
  then obtain st' m where st': "timer_checks n os note_timer k st1 = Inr st'"
    "count_list (nt_app st') (timer_key ?t) = count_list (nt_app st1) (timer_key ?t) + m"
    "\<And>j. deadline ?t j \<le> last (unat ?now # map unat (clock_ticks os k ?o1)) \<longleftrightarrow> j < m"
    using Suc.IH [of st1 ?t "unat ?now"] timers_unique_advanced [OF Suc.prems(1), of ?now] Suc.prems(2) now(4) later s1(2,4) by auto
  have shift: "deadline ?t j = deadline t (j + ?f)" for j using nxt by (simp add: deadline_def algebra_simps)
  have all: "deadline t j \<le> last (before # map unat (clock_ticks os (Suc k) (nt_os st))) \<longleftrightarrow> j < ?f + m" for j
  proof (cases "due ?now t \<and> j = 0")
    case True
    then have "deadline t j \<le> unat ?now" by (simp add: deadline_def due_def word_le_nat_alt)
    also have "\<dots> \<le> last (unat ?now # map unat (clock_ticks os k ?o1))" by (rule timely_last [OF now(4)])
    finally show ?thesis using True by simp
  next
    case False
    then have "deadline t j = deadline ?t (j - ?f)" "j - ?f < m \<longleftrightarrow> j < ?f + m" using shift [of "j - ?f"] by auto
    then show ?thesis using st'(3) [of "j - ?f"] by simp
  qed
  have "timer_checks n os note_timer (Suc k) st = Inr st'" using s1(1) st'(1) by simp
  moreover have "count_list (nt_app st') (timer_key t) = count_list (nt_app st) (timer_key t) + (?f + m)" using st'(2) fired by simp
  ultimately show ?case using all by blast
qed

end
