(* ===== verification/NetProps.thy ===== *)
theory NetProps
  imports NetNew NetTimers
begin

text \<open>The properties of the network library, with an operating system and callbacks that show how their hypotheses are met.\<close>

section \<open>A small operating system\<close>

text \<open>Descriptors are numbered; what \<open>epoll_wait\<close> returns, and how many connections have come in by then, is written in a script.\<close>

record demo_state =
  do_open :: "u32 list"
  do_next :: u32
  do_waiting :: nat
  do_script :: "(epoll_event list \<times> nat) list"
  do_clock :: u64

definition demo_open :: "demo_state \<Rightarrow> u32 option \<times> demo_state" where
  "demo_open o1 =
     (if do_next o1 \<in> set (do_open o1) \<or> do_next o1 = NETLIB_INVALID_HANDLE then (None, o1)
      else (Some (do_next o1), o1\<lparr>do_open := do_next o1 # do_open o1, do_next := do_next o1 + 1\<rparr>))"

definition demo_os :: "demo_state os" where
  "demo_os = \<lparr>os_socket = demo_open,
     os_bind = (\<lambda>fd ip port o1. (True, o1)),
     os_listen = (\<lambda>fd o1. (True, o1)),
     os_connect = (\<lambda>fd ip port o1. (ConnectInProgress, o1)),
     os_accept = (\<lambda>l o1. if do_waiting o1 = 0 then (None, o1)
       else case demo_open o1 of (None, o2) \<Rightarrow> (None, o2) | (Some fd, o2) \<Rightarrow> (Some (fd, 2130706433, 4000), o2\<lparr>do_waiting := do_waiting o2 - 1\<rparr>)),
     os_send = (\<lambda>fd buf o1. (Sent (length buf), o1)),
     os_recv = (\<lambda>fd len o1. ((1, [65]), o1)),
     os_avail = (\<lambda>fd o1. (Some 1, o1)),
     os_so_error = (\<lambda>fd o1. (False, o1)),
     os_epoll_add = (\<lambda>fd o1. o1),
     os_epoll_del = (\<lambda>fd o1. o1),
     os_closesocket = (\<lambda>fd o1. o1\<lparr>do_open := removeAll fd (do_open o1)\<rparr>),
     os_tick = (\<lambda>o1. (do_clock o1, o1\<lparr>do_clock := do_clock o1 + 5\<rparr>)),
     os_epoll_wait = (\<lambda>o1. case do_script o1 of [] \<Rightarrow> ([], o1\<lparr>do_waiting := 0\<rparr>)
       | (evs, came) # rest \<Rightarrow> (evs, o1\<lparr>do_script := rest, do_waiting := min 3 came\<rparr>))\<rparr>"

definition demo_start :: "(epoll_event list \<times> nat) list \<Rightarrow> demo_state" where
  "demo_start script = \<lparr>do_open = [], do_next = 3, do_waiting = 0, do_script = script, do_clock = 100\<rparr>"

lemma demo_open_opens: "demo_open o1 = (r, o2) \<Longrightarrow> opens (set \<circ> do_open) do_waiting o1 r o2"
  by (auto simp: demo_open_def opens_def os_quiet_def split: if_splits)

lemma demo_os_good: "good_os demo_os (set \<circ> do_open) do_waiting 3"
proof -
  have accept: "opens (set \<circ> do_open) do_waiting o1 (map_option fst r) o2 \<and> (r \<noteq> None \<longrightarrow> do_waiting o2 < do_waiting o1)"
    if "os_accept demo_os l o1 = (r, o2)" for l o1 r o2
    using that by (auto simp: demo_os_def demo_open_def opens_def os_quiet_def split: if_splits)
  show ?thesis
    unfolding good_os_def using accept
    by (auto simp: demo_os_def os_quiet_def demo_open_opens split: list.split)
qed

text \<open>A server that echoes what it reads.\<close>

datatype demo_callback = Acceptor | Peer

type_synonym demo_net = "(demo_callback, unit, demo_state, (callback_msg \<times> u32) list) net"

fun demo_call :: "(demo_callback, unit, demo_state, (callback_msg \<times> u32) list) call" where
  "demo_call Acceptor d MSG_CONNECT h st = state_of (netlib_option h (OPT_SET_CALLBACK Peer) st)"
| "demo_call Peer d MSG_READ h st = bindR (netlib_recv demo_os h 16 st) (\<lambda>(r, st1). state_of (netlib_send demo_os h (snd r) st1))"
| "demo_call Peer d MSG_CLOSE h st = state_of (netlib_close_handle demo_os h st)"
| "demo_call c d msg h st = Inr (st\<lparr>nt_app := nt_app st @ [(msg, h)]\<rparr>)"

lemma demo_call_good: "good_call (set \<circ> do_open) do_waiting demo_call"
  unfolding good_call_def
proof (intro allI impI)
  fix k c d m h st assume inv: "net_inv (set \<circ> do_open) k (st :: demo_net)"
  have noted: "net_ok (set \<circ> do_open) do_waiting k st (Inr (st\<lparr>nt_app := l\<rparr>))" for l
    using inv net_inv_cong [of "st\<lparr>nt_app := l\<rparr>" st] by (intro net_okI [OF refl]) (simp_all add: same_items_def)
  have echo: "net_ok (set \<circ> do_open) do_waiting k st (demo_call Peer d MSG_READ h st)"
  proof -
    obtain r st1 where s1: "netlib_recv demo_os h 16 st = Inr (r, st1)" "net_inv (set \<circ> do_open) k st1" "same_items do_waiting st st1"
      using ok_netlib_recv [OF demo_os_good inv, of h 16] by (cases "netlib_recv demo_os h 16 st") (auto simp: net_ok_def)
    show ?thesis using net_ok_after [OF s1(3) ok_netlib_send [OF demo_os_good s1(2)]] by (simp add: s1(1))
  qed
  show "net_ok (set \<circ> do_open) do_waiting k st (demo_call c d m h st)"
    using noted echo ok_netlib_option [OF inv, of "OPT_SET_CALLBACK Peer" do_waiting h] ok_netlib_close [OF demo_os_good inv, of h]
    by (cases "(c, d, m, h, st)" rule: demo_call.cases) simp_all
qed

lemma net_inv_init: "net_inv opened (\<lambda>_. 0) (net_init o0 app)"
  by (rule net_invI) (simp_all add: net_init_def sock_at_def deref_def empty_heap_def heap_ok_empty [unfolded empty_heap_def] hm_ok_def)

section \<open>Properties\<close>

text \<open>The return of \<open>netlib_option\<close> for a null pointer keeps a reference, so the socket object stays for ever.\<close>

lemma null_option_leaks:
  assumes "net_inv opened k st" "map_of (g_socket_map st) h = Some a" "\<not> has_optval opt"
  shows "\<exists>st'. netlib_option h opt st = Inr ((False, NoValue), st') \<and> net_inv opened (k(a := k a + 1)) st'"
proof -
  obtain st1 where "FindBaseSocket h st = Inr (Some a, st1)" "net_inv opened (k(a := k a + 1)) st1"
    using ok_FindBaseSocket [OF assms(1,2), of "\<lambda>_. 0"] by blast
  then show ?thesis using assms(3) by (simp add: netlib_option_def)
qed

text \<open>C10: Every operation of the network library on sockets returns on every branch, and keeps the invariant: the map refers to live objects by the handle they
  carry, their descriptors are open, and each is counted once for the map and once for each caller that holds it. So a failed attempt leaves no
  object behind, and a socket that is closed while others hold it lives until they release it. The one exception is named: \<open>netlib_option\<close> of a socket, for an
  option that needs a pointer and is given none, reports an error and leaves one more reference to the object than anyone will release.\<close>

theorem netlib_operations_keep:
  assumes "good_os os opened pending backlog" "net_inv opened k st"
  shows "net_ok opened pending k st (state_of (netlib_listen os ip port c d st))
    \<and> net_ok opened pending k st (state_of (netlib_connect os ip port c d st))
    \<and> net_ok opened pending k st (state_of (netlib_send os h buf st))
    \<and> net_ok opened pending k st (state_of (netlib_recv os h len st))
    \<and> net_ok opened pending k st (state_of (netlib_close_handle os h st))
    \<and> (case map_of (g_socket_map st) h of
         None \<Rightarrow> netlib_option h opt st = Inr ((False, NoValue), st)
       | Some a \<Rightarrow>
           if has_optval opt then net_ok opened pending k st (state_of (netlib_option h opt st))
           else \<exists>st'. netlib_option h opt st = Inr ((False, NoValue), st') \<and> net_inv opened (k(a := k a + 1)) st')"
proof -
  have "netlib_option h opt st = Inr ((False, NoValue), st)" if "map_of (g_socket_map st) h = None"
    using that by (simp add: netlib_option_def FindBaseSocket_def)
  then show ?thesis
    using ok_netlib_option [OF assms(2)] null_option_leaks [OF assms(2)]
    by (intro conjI ok_netlib_listen [OF assms] ok_netlib_connect [OF assms] ok_netlib_send [OF assms]
        ok_netlib_recv [OF assms] ok_netlib_close [OF assms]) (simp split: option.split)
qed

definition demo_net :: "(epoll_event list \<times> nat) list \<Rightarrow> demo_net" where
  "demo_net script = net_init (demo_start script) []"

lemma demo_net_inv: "net_inv (set \<circ> do_open) (\<lambda>_. 0) (demo_net script)"
  unfolding demo_net_def by (rule net_inv_init)

theorem netlib_operations_keep_witness:
  "\<exists>st. netlib_connect demo_os ''10.0.0.1'' 80 Peer None (demo_net []) = Inr (3, st) \<and> map_of (g_socket_map st) 3 = Some 0
     \<and> net_ok (set \<circ> do_open) do_waiting (\<lambda>_. 0) (demo_net []) (state_of (netlib_connect demo_os ''10.0.0.1'' 80 Peer None (demo_net [])))"
proof -
  have "net_ok (set \<circ> do_open) do_waiting (\<lambda>_. 0) (demo_net []) (state_of (netlib_connect demo_os ''10.0.0.1'' 80 Peer None (demo_net [])))"
    by (rule netlib_operations_keep [OF demo_os_good demo_net_inv, THEN conjunct2, THEN conjunct1])
  moreover have "map_sum id (\<lambda>(h, st). (h, map_of (g_socket_map st) 3)) (netlib_connect demo_os ''10.0.0.1'' 80 Peer None (demo_net [])) = Inr (3, Some 0)"
    by code_simp
  ultimately show ?thesis by (cases "netlib_connect demo_os ''10.0.0.1'' 80 Peer None (demo_net [])") auto
qed

text \<open>C9: However many rounds the event loop runs, whatever events the system reports and whatever connections come in, no deleted socket object is
  touched, every handler and every loop over timers and accepted connections ends, and the invariant holds again: with callbacks that keep it, since
  the loop holds the object of an event while its handlers run, even when one of them closes the socket.\<close>

theorem event_loop_safe:
  assumes "good_os os opened pending backlog" "good_call opened pending call" "backlog < n" "net_inv opened k st" "net_items_ok n st"
  shows "\<exists>st'. dispatch_rounds m n os call st = Inr st' \<and> net_inv opened k st' \<and> net_items_ok n st'"
  by (rule dispatch_rounds_keep [OF assms])

text \<open>A listening socket accepts two peers in one round; the second round has data for one, and an error for the other.\<close>

definition demo_listening :: "(epoll_event list \<times> nat) list \<Rightarrow> demo_net res" where
  "demo_listening script = map_sum id (\<lambda>(ok, st). st\<lparr>nt_running := True\<rparr>) (netlib_listen demo_os ''0.0.0.0'' 8008 Acceptor None (demo_net script))"

definition demo_script :: "(epoll_event list \<times> nat) list" where
  "demo_script = [([\<lparr>ev_fd = 3, ev_rdhup = False, ev_in = True, ev_out = False, ev_failed = False\<rparr>], 2),
     ([\<lparr>ev_fd = 4, ev_rdhup = False, ev_in = True, ev_out = False, ev_failed = False\<rparr>,
       \<lparr>ev_fd = 5, ev_rdhup = False, ev_in = True, ev_out = True, ev_failed = True\<rparr>], 0)]"

theorem event_loop_safe_witness:
  "\<exists>st st'. demo_listening demo_script = Inr st \<and> dispatch_rounds 2 4 demo_os demo_call st = Inr st' \<and> net_inv (set \<circ> do_open) (\<lambda>_. 0) st'
     \<and> g_socket_map st' = [(4, 1), (3, 0)] \<and> nt_app st' = [(MSG_WRITE, 5)]"
proof -
  obtain st where st: "demo_listening demo_script = Inr st" "net_inv (set \<circ> do_open) (\<lambda>_. 0) st" "net_items_ok 4 st"
  proof -
    obtain ok st0 where s0: "netlib_listen demo_os ''0.0.0.0'' 8008 Acceptor None (demo_net demo_script) = Inr (ok, st0)"
      "net_inv (set \<circ> do_open) (\<lambda>_. 0) st0" "same_items do_waiting (demo_net demo_script) st0"
      using ok_netlib_listen [OF demo_os_good demo_net_inv [of demo_script], where ip = "''0.0.0.0''" and port = 8008 and c = Acceptor and d = None]
      by (cases "netlib_listen demo_os ''0.0.0.0'' 8008 Acceptor None (demo_net demo_script)") (auto simp: net_ok_def)
    have "net_items_ok 4 (demo_net demo_script)" by (simp add: net_items_ok_def demo_net_def net_init_def)
    then show ?thesis using that [of "st0\<lparr>nt_running := True\<rparr>"] s0 net_items_ok_same [OF s0(3), of 4] net_inv_cong [of "st0\<lparr>nt_running := True\<rparr>" st0]
      by (simp add: demo_listening_def net_items_ok_def)
  qed
  obtain st' where st': "dispatch_rounds 2 4 demo_os demo_call st = Inr st'" "net_inv (set \<circ> do_open) (\<lambda>_. 0) st'"
    using event_loop_safe [OF demo_os_good demo_call_good _ st(2,3), of 2] by auto
  have "map_sum id (\<lambda>st'. (g_socket_map st', nt_app st')) (bindR (demo_listening demo_script) (dispatch_rounds 2 4 demo_os demo_call))
      = Inr ([(4, 1), (3, 0)], [(MSG_WRITE, 5)])"
    by code_simp
  then show ?thesis using st(1) st' by auto
qed


text \<open>C21: A timer is called exactly once for each of its deadlines that has passed, the multiples of its interval after the first: never early, and none
  is lost or repeated, as long as the checks of the loop come at most one interval apart and the clock stays below its wrap-around.\<close>

theorem timer_called_once_per_deadline:
  assumes "timers_unique (m_timer_list st)" "length (m_timer_list st) \<le> n" "(i, t) \<in> set (m_timer_list st)" "nt_app st = []"
    "timely before (unat (ti_interval t)) (clock_ticks os k (nt_os st))" "before < unat (ti_next_tick t)"
  shows "\<exists>st'. timer_checks n os note_timer k st = Inr st'
    \<and> (\<forall>j. deadline t j \<le> last (before # map unat (clock_ticks os k (nt_os st))) \<longleftrightarrow> j < count_list (nt_app st') (timer_key t))"
  using timer_checks_count [OF assms(1-3,5,6)] assms(4) by fastforce

definition demo_timer :: "demo_callback \<Rightarrow> u64 \<Rightarrow> u64 \<Rightarrow> (demo_callback, unit) timer_item" where
  "demo_timer c interval next = \<lparr>ti_callback = c, ti_user_data = (), ti_interval = interval, ti_next_tick = next\<rparr>"

definition demo_timers :: "(demo_callback, unit, demo_state, (demo_callback \<times> unit option) list) net" where
  "demo_timers = (net_init (demo_start []) [])\<lparr>m_timer_list := [(0, demo_timer Acceptor 10 110), (1, demo_timer Peer 20 115)]\<rparr>"

theorem timer_called_once_per_deadline_witness:
  "\<exists>st'. timer_checks 2 demo_os note_timer 5 demo_timers = Inr st' \<and> count_list (nt_app st') (Acceptor, Some ()) = 2
    \<and> (\<forall>j. deadline (demo_timer Acceptor 10 110) j \<le> 120 \<longleftrightarrow> j < count_list (nt_app st') (Acceptor, Some ()))"
proof -
  have ticks: "clock_ticks demo_os 5 (nt_os demo_timers) = [100, 105, 110, 115, 120]" by code_simp
  have u: "timers_unique (m_timer_list demo_timers)" by (auto simp: timers_unique_def demo_timers_def timer_of_def demo_timer_def)
  obtain st' where st': "timer_checks 2 demo_os note_timer 5 demo_timers = Inr st'"
    "\<forall>j. deadline (demo_timer Acceptor 10 110) j \<le> 120 \<longleftrightarrow> j < count_list (nt_app st') (Acceptor, Some ())"
    using timer_called_once_per_deadline [OF u, of 2 0 "demo_timer Acceptor 10 110" 100 demo_os 5] ticks
    by (auto simp: demo_timers_def demo_timer_def net_init_def)
  have "map_sum id (\<lambda>st'. count_list (nt_app st') (Acceptor, Some ())) (timer_checks 2 demo_os note_timer 5 demo_timers) = Inr 2" by code_simp
  then show ?thesis using st' by simp
qed

text \<open>The check of the timers moves its iterator on before it runs a callback. That makes it safe for a callback to remove its own timer, as the
  comment there says; but a callback that removes the timer after its own leaves the iterator at a deleted item, which the check then reads.\<close>

theorem removing_next_timer_faults:
  assumes "m_timer_list st = (i, t) # (j, u) # its" "timers_unique (m_timer_list st)" "due now t" "2 \<le> n"
    "call (ti_callback t) (Some (ti_user_data t)) MSG_TIMER 0 = (\<lambda>st. Inr (RemoveTimer (ti_callback u) (ti_user_data u) st))"
  shows "check_timers n call now (first_item (m_timer_list st)) st = Inl MemFault"
proof -
  obtain m where n: "n = Suc (Suc m)" using assms(4) by (metis Suc_le_D numeral_2_eq_2 Suc_le_mono)
  have ij: "i \<noteq> j" "j \<notin> keys its" using assms(1,2) by (auto simp: timers_unique_def)
  have "\<not> (ti_callback t = ti_callback u \<and> ti_user_data t = ti_user_data u)"
  proof
    assume "ti_callback t = ti_callback u \<and> ti_user_data t = ti_user_data u"
    then have "2 \<le> length (timer_of (ti_callback u) (ti_user_data u) (m_timer_list st))" using assms(1) by (simp add: timer_of_def)
    then show False using assms(2) unfolding timers_unique_def by (metis Suc_1 not_less_eq_eq)
  qed
  then have "map_of (remove_timer (ti_callback u) (ti_user_data u) (hm_assign i (t\<lparr>ti_next_tick := ti_next_tick t + ti_interval t\<rparr>) (m_timer_list st))) j = None"
    using assms(1) ij by (auto simp: map_of_eq_None_iff)
  then show ?thesis using assms(1,3,5) n ij by (simp add: first_item_def due_def RemoveTimer_def)
qed

fun demo_removing :: "(demo_callback, unit, demo_state, (demo_callback \<times> unit option) list) call" where
  "demo_removing Acceptor d msg h st = Inr (RemoveTimer Peer () st)"
| "demo_removing Peer d msg h st = Inr st"

theorem removing_next_timer_faults_witness: "check_timers 2 demo_removing 110 (first_item (m_timer_list demo_timers)) demo_timers = Inl MemFault"
proof (rule removing_next_timer_faults)
  show "m_timer_list demo_timers = (0, demo_timer Acceptor 10 110) # (1, demo_timer Peer 20 115) # []" by (simp add: demo_timers_def)
  show "timers_unique (m_timer_list demo_timers)" by (auto simp: timers_unique_def demo_timers_def timer_of_def demo_timer_def)
  show "due 110 (demo_timer Acceptor 10 110)" by (simp add: due_def demo_timer_def)
  show "demo_removing (ti_callback (demo_timer Acceptor 10 110)) (Some (ti_user_data (demo_timer Acceptor 10 110))) MSG_TIMER 0
      = (\<lambda>st. Inr (RemoveTimer (ti_callback (demo_timer Peer 20 115)) (ti_user_data (demo_timer Peer 20 115)) st))"
    by (rule ext) (simp add: demo_timer_def)
qed simp

lemma removing_own_timer:
  assumes "m_timer_list st = (i, t) # its" "distinct (map fst (m_timer_list st))" "due now t"
    "call (ti_callback t) (Some (ti_user_data t)) MSG_TIMER 0 = (\<lambda>st. Inr (RemoveTimer (ti_callback t) (ti_user_data t) st))"
  shows "check_timers (Suc n) call now (first_item (m_timer_list st)) st = check_timers n call now (first_item its) (st\<lparr>m_timer_list := its\<rparr>)"
  using assms by (cases its) (auto simp: first_item_def due_def RemoveTimer_def)

end
