(* ===== verification/Base64.thy ===== *)
theory Base64
  imports ByteStream
begin

text \<open>
  Base64 (\<open>base/Base64.cpp\<close>): both directions as the loops of the code, over a 32-bit accumulator that is never cleared and of which only the bits
  that have not been written yet count. Decoding inverts encoding.
\<close>

section \<open>Tables\<close>

definition b64_table :: bytes where
  "b64_table = map of_char ''ABCDEFGHIJKLMNOPQRSTUVWXYZabcdefghijklmnopqrstuvwxyz0123456789+/''"

definition reverse_table :: "u32 list" where
  "reverse_table =
    [64, 64, 64, 64, 64, 64, 64, 64, 64, 64, 64, 64, 64, 64, 64, 64,
     64, 64, 64, 64, 64, 64, 64, 64, 64, 64, 64, 64, 64, 64, 64, 64,
     64, 64, 64, 64, 64, 64, 64, 64, 64, 64, 64, 62, 64, 64, 64, 63,
     52, 53, 54, 55, 56, 57, 58, 59, 60, 61, 64, 64, 64, 64, 64, 64,
     64,  0,  1,  2,  3,  4,  5,  6,  7,  8,  9, 10, 11, 12, 13, 14,
     15, 16, 17, 18, 19, 20, 21, 22, 23, 24, 25, 64, 64, 64, 64, 64,
     64, 26, 27, 28, 29, 30, 31, 32, 33, 34, 35, 36, 37, 38, 39, 40,
     41, 42, 43, 44, 45, 46, 47, 48, 49, 50, 51, 64, 64, 64, 64, 64]"

definition b64_pad :: byte where
  "b64_pad = of_char CHR ''=''"

section \<open>Encoding\<close>

text \<open>The inner loop: characters for the collected bits, six at a time, and how many bits remain.\<close>

fun b64_emit :: "nat \<Rightarrow> u32 \<Rightarrow> bytes \<times> nat" where
  "b64_emit bits acc =
     (if 6 \<le> bits
      then let (cs, rest) = b64_emit (bits - 6) acc in (b64_table ! unat (drop_bit (bits - 6) acc AND 0x3F) # cs, rest)
      else ([], bits))"

declare b64_emit.simps [simp del]

fun encode_loop :: "bytes \<Rightarrow> u32 \<Rightarrow> nat \<Rightarrow> bytes \<times> u32 \<times> nat" where
  "encode_loop [] acc bits = ([], acc, bits)"
| "encode_loop (c # cs) acc bits =
     (let acc1 = push_bit 8 acc OR ucast c;
          (out, bits1) = b64_emit (bits + 8) acc1;
          (outs, r) = encode_loop cs acc1 bits1
      in (out @ outs, r))"

text \<open>The characters that are written over the string of padding characters, the last one for the bits that are left over.\<close>

definition encode_chars :: "bytes \<Rightarrow> u32 \<Rightarrow> bytes" where
  "encode_chars data acc =
     (let (out, acc1, bits) = encode_loop data acc 0
      in if 0 < bits then out @ [b64_table ! unat (push_bit (6 - bits) acc1 AND 0x3F)] else out)"

text \<open>A string that is too long gives an empty one; a write behind the end of the result would be a fault.\<close>

definition base64_encode :: "bytes \<Rightarrow> bytes res" where
  "base64_encode bindata =
     (if int (length bindata) > (2 ^ 64 - 1) div 4 * 3 then Inr []
      else memcpy_at (replicate ((length bindata + 2) div 3 * 4) b64_pad) 0 (encode_chars bindata 0))"

section \<open>Decoding\<close>

definition b64_space :: "byte \<Rightarrow> bool" where
  "b64_space c \<longleftrightarrow> 9 \<le> c \<and> c \<le> 13 \<or> c = 32"

text \<open>A character above 127 is negative as a \<open>char\<close>. \<open>None\<close> is the early return of the empty string.\<close>

fun decode_loop :: "bytes \<Rightarrow> u32 \<Rightarrow> nat \<Rightarrow> bytes option" where
  "decode_loop [] acc bits = Some []"
| "decode_loop (c # cs) acc bits =
     (if b64_space c \<or> c = b64_pad then decode_loop cs acc bits
      else if 127 < c \<or> 63 < reverse_table ! unat c then None
      else let acc1 = push_bit 6 acc OR reverse_table ! unat c
           in if 8 \<le> bits + 6
              then map_option ((#) (ucast (drop_bit (bits + 6 - 8) acc1 AND 0xFF))) (decode_loop cs acc1 (bits + 6 - 8))
              else decode_loop cs acc1 (bits + 6))"

definition base64_decode :: "bytes \<Rightarrow> bytes" where
  "base64_decode ascdata = (case decode_loop ascdata 0 0 of None \<Rightarrow> [] | Some s \<Rightarrow> s)"

section \<open>The tables are inverse\<close>

lemma b64_bytes: "b64_table =
    [65, 66, 67, 68, 69, 70, 71, 72, 73, 74, 75, 76, 77, 78, 79, 80, 81, 82, 83, 84, 85, 86, 87, 88, 89, 90,
     97, 98, 99, 100, 101, 102, 103, 104, 105, 106, 107, 108, 109, 110, 111, 112, 113, 114, 115, 116, 117, 118, 119, 120, 121, 122,
     48, 49, 50, 51, 52, 53, 54, 55, 56, 57, 43, 47]"
  by (simp add: b64_table_def of_char_def)

lemma b64_tables:
  "\<forall>s\<in>set [0..<64]. \<not> b64_space (b64_table ! s) \<and> b64_table ! s \<noteq> b64_pad \<and> b64_table ! s \<le> 127 \<and> reverse_table ! unat (b64_table ! s) = of_nat s"
  by (simp add: b64_bytes reverse_table_def b64_pad_def b64_space_def upt_rec of_char_def)

lemma sextet: "unat (w AND 0x3F :: u32) < 64"
proof -
  have "w AND 0x3F \<le> 0x3F" by (rule word_and_le1)
  then show ?thesis by (simp add: word_le_nat_alt)
qed

lemma decode_sextet:
  "decode_loop (b64_table ! unat (w AND 0x3F) # cs) acc bits =
     (let acc1 = push_bit 6 acc OR (w AND 0x3F)
      in if 8 \<le> bits + 6
         then map_option ((#) (ucast (drop_bit (bits + 6 - 8) acc1 AND 0xFF))) (decode_loop cs acc1 (bits + 6 - 8))
         else decode_loop cs acc1 (bits + 6))"
proof -
  let ?c = "b64_table ! unat (w AND 0x3F)"
  have "unat (w AND 0x3F) \<in> set [0..<64]" using sextet [of w] by simp
  with b64_tables have "\<not> b64_space ?c \<and> ?c \<noteq> b64_pad \<and> ?c \<le> 127 \<and> reverse_table ! unat ?c = of_nat (unat (w AND 0x3F))" by blast
  moreover have "of_nat (unat (w AND 0x3F)) = w AND 0x3F" by simp
  moreover have "w AND 0x3F \<le> 63" by (rule word_and_le1)
  ultimately show ?thesis by (simp add: Let_def flip: not_le)
qed

lemma decode_pads: "decode_loop (replicate n b64_pad) acc bits = Some []"
  by (induction n) auto

section \<open>Round trip\<close>

lemma emit_8: "b64_emit 8 acc = ([b64_table ! unat (drop_bit 2 acc AND 0x3F)], 2)"
  by (simp add: b64_emit.simps)

lemma emit_10: "b64_emit 10 acc = ([b64_table ! unat (drop_bit 4 acc AND 0x3F)], 4)"
  by (simp add: b64_emit.simps)

lemma emit_12: "b64_emit 12 acc = ([b64_table ! unat (drop_bit 6 acc AND 0x3F), b64_table ! unat (acc AND 0x3F)], 0)"
  by (simp add: b64_emit.simps)

lemma encode_chars_3:
  "encode_chars (a # b # c # cs) acc =
     (let acc1 = push_bit 8 acc OR ucast a; acc2 = push_bit 8 acc1 OR ucast b; acc3 = push_bit 8 acc2 OR ucast c
      in b64_table ! unat (drop_bit 2 acc1 AND 0x3F) # b64_table ! unat (drop_bit 4 acc2 AND 0x3F) # b64_table ! unat (drop_bit 6 acc3 AND 0x3F)
         # b64_table ! unat (acc3 AND 0x3F) # encode_chars cs acc3)"
  by (simp add: encode_chars_def Let_def emit_8 emit_10 emit_12 case_prod_beta)

lemma encode_chars_2:
  "encode_chars [a, b] acc =
     (let acc1 = push_bit 8 acc OR ucast a; acc2 = push_bit 8 acc1 OR ucast b
      in [b64_table ! unat (drop_bit 2 acc1 AND 0x3F), b64_table ! unat (drop_bit 4 acc2 AND 0x3F), b64_table ! unat (push_bit 2 acc2 AND 0x3F)])"
  by (simp add: encode_chars_def Let_def emit_8 emit_10 case_prod_beta)

lemma encode_chars_1:
  "encode_chars [a] acc =
     (let acc1 = push_bit 8 acc OR ucast a in [b64_table ! unat (drop_bit 2 acc1 AND 0x3F), b64_table ! unat (push_bit 4 acc1 AND 0x3F)])"
  by (simp add: encode_chars_def Let_def emit_8 case_prod_beta)

lemma encode_chars_0: "encode_chars [] acc = []"
  by (simp add: encode_chars_def)

text \<open>The bits of an octet that come from the first of two sextets and from the second.\<close>

lemma and_3F: "(w :: u32) AND 0x3F = take_bit 6 w"
proof -
  have "(0x3F :: u32) = mask 6" by (simp add: mask_eq_decr_exp)
  then show ?thesis by (simp only: take_bit_eq_mask [symmetric])
qed

lemma byte_eqI:
  assumes "\<And>n. n < k \<Longrightarrow> bit a n = bit b n" "\<And>n. n + k < 8 \<Longrightarrow> bit a (n + k) = bit b (n + k)"
  shows "a = (b :: byte)"
proof (rule bit_word_eqI)
  fix n assume "n < LENGTH(8)"
  then show "bit a n = bit b n" using assms(1) [of n] assms(2) [of "n - k"] by (cases "n < k") simp_all
qed

lemma bit_byte_high: "\<not> bit (b :: byte) (8 + n)" "\<not> bit (b :: byte) (n + 8)"
  using bit_imp_le_length [of b "8 + n"] bit_imp_le_length [of b "n + 8"] by auto

lemma octet_1: "ucast (drop_bit 4 (push_bit 6 (push_bit 6 acc' OR (drop_bit 2 (push_bit 8 acc OR ucast a) AND 0x3F))
    OR (drop_bit 4 (push_bit 8 (push_bit 8 acc OR ucast a) OR ucast (b :: byte)) AND 0x3F)) AND 0xFF :: u32) = (a :: byte)"
  unfolding and_3F and_FF by (rule byte_eqI [where k = 2]) (auto simp: bit_simps bit_byte_high add.commute)

lemma octet_2: "ucast (drop_bit 2 (push_bit 6 (push_bit 6 x OR (drop_bit 4 (push_bit 8 acc OR ucast b) AND 0x3F))
    OR (drop_bit 6 (push_bit 8 (push_bit 8 acc OR ucast b) OR ucast (c :: byte)) AND 0x3F)) AND 0xFF :: u32) = (b :: byte)"
  unfolding and_3F and_FF by (rule byte_eqI [where k = 4]) (auto simp: bit_simps bit_byte_high add.commute)

lemma octet_3: "ucast ((push_bit 6 (push_bit 6 x OR (drop_bit 6 (push_bit 8 acc OR ucast c) AND 0x3F))
    OR ((push_bit 8 acc OR ucast c) AND 0x3F)) AND 0xFF :: u32) = (c :: byte)"
  unfolding and_3F and_FF by (rule byte_eqI [where k = 6]) (auto simp: bit_simps bit_byte_high add.commute)

text \<open>The octets before the padding.\<close>

lemma octet_1_last: "ucast (drop_bit 4 (push_bit 6 (push_bit 6 acc' OR (drop_bit 2 (push_bit 8 acc OR ucast a) AND 0x3F))
    OR (push_bit 4 (push_bit 8 acc OR ucast a) AND 0x3F)) AND 0xFF :: u32) = (a :: byte)"
  unfolding and_3F and_FF by (rule byte_eqI [where k = 2]) (auto simp: bit_simps bit_byte_high add.commute)

lemma octet_2_last: "ucast (drop_bit 2 (push_bit 6 (push_bit 6 x OR (drop_bit 4 (push_bit 8 acc OR ucast b) AND 0x3F))
    OR (push_bit 2 (push_bit 8 acc OR ucast b) AND 0x3F)) AND 0xFF :: u32) = (b :: byte)"
  unfolding and_3F and_FF by (rule byte_eqI [where k = 4]) (auto simp: bit_simps bit_byte_high add.commute)

text \<open>Three octets at a time, four characters back; the simplifier is kept away from the accumulators.\<close>

lemma decode_steps:
  "decode_loop (b64_table ! unat (w AND 0x3F) # cs) acc 0 = decode_loop cs (push_bit 6 acc OR (w AND 0x3F)) 6"
  "decode_loop (b64_table ! unat (w AND 0x3F) # cs) acc 6 =
     map_option ((#) (ucast (drop_bit 4 (push_bit 6 acc OR (w AND 0x3F)) AND 0xFF))) (decode_loop cs (push_bit 6 acc OR (w AND 0x3F)) 4)"
  "decode_loop (b64_table ! unat (w AND 0x3F) # cs) acc 4 =
     map_option ((#) (ucast (drop_bit 2 (push_bit 6 acc OR (w AND 0x3F)) AND 0xFF))) (decode_loop cs (push_bit 6 acc OR (w AND 0x3F)) 2)"
  "decode_loop (b64_table ! unat (w AND 0x3F) # cs) acc 2 =
     map_option ((#) (ucast ((push_bit 6 acc OR (w AND 0x3F)) AND 0xFF))) (decode_loop cs (push_bit 6 acc OR (w AND 0x3F)) 0)"
  by (simp_all only: decode_sextet Let_def, simp_all)

fun triples :: "'a list \<Rightarrow> nat" where
  "triples (a # b # c # xs) = Suc (triples xs)"
| "triples xs = 0"

lemma decode_encode_chars: "decode_loop (encode_chars data acc @ replicate n b64_pad) acc' 0 = Some data"
proof (induction data arbitrary: acc acc' rule: triples.induct)
  case (1 a b c xs)
  then show ?case by (simp only: encode_chars_3 Let_def append_Cons decode_steps octet_1 octet_2 octet_3 option.map)
qed (simp_all only: encode_chars_0 encode_chars_1 encode_chars_2 Let_def append_Cons append_Nil decode_steps decode_pads octet_1 octet_1_last
      octet_2_last option.map)

lemma length_encode_chars:
  "length (encode_chars data acc) \<le> (length data + 2) div 3 * 4 \<and> (length data + 2) div 3 * 4 \<le> length (encode_chars data acc) + 2"
proof (induction data arbitrary: acc rule: triples.induct)
  case (1 a b c xs)
  have "(length (a # b # c # xs) + 2) div 3 = Suc ((length xs + 2) div 3)" by simp
  then show ?case using 1 [of "push_bit 8 (push_bit 8 (push_bit 8 acc OR ucast a) OR ucast b) OR ucast c"]
    by (simp only: encode_chars_3 Let_def list.size) simp
qed (simp_all add: encode_chars_0 encode_chars_1 encode_chars_2 Let_def)

text \<open>The assertions at the end of \<open>base64_encode\<close> hold, and nothing is written behind the end of the result.\<close>

lemma base64_encode_Inr:
  assumes "int (length data) \<le> (2 ^ 64 - 1) div 4 * 3"
  shows "base64_encode data = Inr (encode_chars data 0 @ replicate ((length data + 2) div 3 * 4 - length (encode_chars data 0)) b64_pad)"
  using assms length_encode_chars [of data 0] by (simp add: base64_encode_def)

lemma base64_encode_length: "int (length data) \<le> (2 ^ 64 - 1) div 4 * 3 \<Longrightarrow> base64_encode data = Inr s \<Longrightarrow> length s = (length data + 2) div 3 * 4"
  using length_encode_chars [of data 0] by (auto simp: base64_encode_Inr)

theorem base64_roundtrip:
  assumes "int (length data) \<le> (2 ^ 64 - 1) div 4 * 3"
  shows "\<exists>s. base64_encode data = Inr s \<and> length s = (length data + 2) div 3 * 4 \<and> base64_decode s = data"
  using base64_encode_Inr [OF assms] base64_encode_length [OF assms]
  by (simp add: base64_decode_def decode_encode_chars)

end
