(* ===== verification/EncDec.thy ===== *)
theory EncDec
  imports Base64
begin

text \<open>
  Encryption of message contents (\<open>base/EncDec.cpp\<close> on the servers, \<open>libsecurity/src/security.cpp\<close> in the clients): the length is written behind the
  padded content, the blocks are encrypted one by one, and the result is written in Base64. AES itself is OpenSSL's and a parameter.
\<close>

section \<open>AES\<close>

text \<open>Encryption and decryption of a block of 16 bytes with a key of 32.\<close>

record aes =
  aes_enc :: "bytes \<Rightarrow> bytes \<Rightarrow> bytes"
  aes_dec :: "bytes \<Rightarrow> bytes \<Rightarrow> bytes"

definition good_aes :: "aes \<Rightarrow> bool" where
  "good_aes a \<longleftrightarrow> (\<forall>key b. length b = 16 \<longrightarrow> length (aes_enc a key b) = 16 \<and> aes_dec a key (aes_enc a key b) = b)"

text \<open>The constructor reads 32 bytes of \<open>c_str()\<close>, which ends with a zero byte; a shorter key is read beyond its end.\<close>

definition CAes :: "bytes \<Rightarrow> bytes res" where
  "CAes strKey = slice (strKey @ [0]) 0 32"

definition each_block :: "(bytes \<Rightarrow> bytes) \<Rightarrow> nat \<Rightarrow> bytes \<Rightarrow> bytes" where
  "each_block f n p = concat (map (\<lambda>i. f (take 16 (drop (i * 16) p))) [0..<n])"

section \<open>Encryption\<close>

definition block_count :: "u32 \<Rightarrow> u32" where
  "block_count nInLen =
     (let nRemain = nInLen mod 16; nBlocks = (nInLen + 15) div 16
      in if nRemain > 12 \<or> nRemain = 0 then nBlocks + 1 else nBlocks)"

text \<open>The result is the return value and the string that is handed out.\<close>

definition Encrypt :: "aes \<Rightarrow> bytes \<Rightarrow> bytes option \<Rightarrow> u32 \<Rightarrow> (int \<times> bytes) res" where
  "Encrypt a key pInData nInLen =
     (case pInData of
        None \<Rightarrow> Inr (- 1, [])
      | Some inp \<Rightarrow>
          if nInLen \<le> 0 then Inr (- 1, [])
          else
            let nBlocks = block_count nInLen; nEncryptLen = nBlocks * 16
            in bindR (slice inp 0 (unat nInLen)) (\<lambda>src.
               bindR (memcpy_at (replicate (unat nEncryptLen) 0) 0 src) (\<lambda>pData.
               bindR (WriteUint32 pData (unat (nEncryptLen - 4)) nInLen) (\<lambda>pData1.
               bindR (base64_encode (each_block (aes_enc a key) (unat nBlocks) pData1)) (\<lambda>strDec.
                 let nOutLen = of_nat (length strDec) :: u32
                 in if nOutLen + 1 = 0 then Inl MemFault else Inr (0, take (unat nOutLen) strDec))))))"

section \<open>Decryption\<close>

definition Decrypt :: "aes \<Rightarrow> bytes \<Rightarrow> bytes option \<Rightarrow> u32 \<Rightarrow> (int \<times> bytes) res" where
  "Decrypt a key pInData nInLen =
     (case pInData of
        None \<Rightarrow> Inr (- 1, [])
      | Some inp \<Rightarrow>
          if nInLen \<le> 0 then Inr (- 1, [])
          else bindR (slice inp 0 (unat nInLen)) (\<lambda>strInData.
            let strResult = base64_decode strInData; nLen = of_nat (length strResult) :: u32
            in if nLen = 0 then Inr (- 2, [])
               else if nLen mod 16 \<noteq> 0 then Inr (- 3, [])
               else
                 let pTmp = each_block (aes_dec a key) (unat (nLen div 16)) strResult
                 in bindR (ReadUint32 pTmp (unat (nLen - 4))) (\<lambda>nOutLen.
                      if nOutLen > nLen then Inr (- 4, []) else Inr (0, take (unat nOutLen) pTmp))))"

text \<open>The library of the clients has the same code with a key of its own.\<close>

definition client_key :: bytes where
  "client_key = map of_char ''12345678901234567890123456789012''"

definition EncryptMsg :: "aes \<Rightarrow> bytes option \<Rightarrow> u32 \<Rightarrow> (int \<times> bytes) res" where
  "EncryptMsg a = Encrypt a client_key"

definition DecryptMsg :: "aes \<Rightarrow> bytes option \<Rightarrow> u32 \<Rightarrow> (int \<times> bytes) res" where
  "DecryptMsg a = Decrypt a client_key"

section \<open>Blocks\<close>

lemma each_block_append: "length b = 16 \<Longrightarrow> each_block f (Suc n) (b @ p) = f b @ each_block f n p"
proof -
  assume b: "length b = 16"
  have "[0..<Suc n] = 0 # map Suc [0..<n]" by (simp add: map_Suc_upt upt_conv_Cons del: upt_Suc)
  then show ?thesis using b by (simp add: each_block_def comp_def del: upt_Suc)
qed

lemma each_block_0: "each_block f 0 p = []"
  by (simp add: each_block_def)

lemma length_each_block:
  assumes f: "\<And>b. length b = 16 \<Longrightarrow> length (f b) = 16"
  shows "length p = 16 * n \<Longrightarrow> length (each_block f n p) = 16 * n"
proof (induction n arbitrary: p)
  case (Suc n)
  then have "p = take 16 p @ drop 16 p" "length (take 16 p) = 16" by simp_all
  then show ?case using each_block_append [of "take 16 p" f n "drop 16 p"] Suc f [of "take 16 p"] by simp
qed (simp add: each_block_0)

lemma each_block_inverse:
  assumes f: "\<And>b. length b = 16 \<Longrightarrow> length (f b) = 16 \<and> g (f b) = b"
  shows "length p = 16 * n \<Longrightarrow> each_block g n (each_block f n p) = p"
proof (induction n arbitrary: p)
  case (Suc n)
  then have p: "p = take 16 p @ drop 16 p" "length (take 16 p) = 16" "length (drop 16 p) = 16 * n" by simp_all
  then show ?case
    using each_block_append [of "take 16 p" f n "drop 16 p"] each_block_append [of "f (take 16 p)" g n] Suc.IH [OF p(3)] f [OF p(2)] by simp
qed (simp add: each_block_0)

section \<open>The number of blocks\<close>

text \<open>There is always room for the content and for its length behind it, unless the number of bytes wraps around.\<close>

lemma unat_div_16: "unat (x div 16 :: u32) = unat x div 16" "unat (x mod 16 :: u32) = unat x mod 16"
  by (simp_all add: unat_div unat_mod)

lemma div_16_up: "(m + 15) div 16 = m div 16 + (if m mod 16 = 0 then 0 else 1)" for m :: nat
proof -
  have "m + 15 = 16 * (m div 16) + (m mod 16 + 15)" by simp
  then have "(m + 15) div 16 = m div 16 + (m mod 16 + 15) div 16" by (metis div_mult_self4 zero_neq_numeral)
  moreover have "m mod 16 < 16" by simp
  then have "(m mod 16 + 15) div 16 = (if m mod 16 = 0 then 0 else 1)" by (simp add: div_nat_eqI)
  ultimately show ?thesis by simp
qed

lemma block_count_room:
  assumes "0 < unat n" "unat n + 32 < 2 ^ 32"
  shows "unat (block_count n * 16) = unat (block_count n) * 16" "unat n + 4 \<le> unat (block_count n) * 16" "unat (block_count n) * 16 \<le> unat n + 32"
proof -
  have n15: "unat (n + 15) = unat n + 15" using assms(2) by (subst unat_add_u32) simp_all
  have r: "nRemain > 12 \<longleftrightarrow> 12 < unat nRemain" "nRemain = 0 \<longleftrightarrow> unat nRemain = 0" for nRemain :: u32
    by (simp_all add: word_less_nat_alt unat_eq_zero)
  have b: "unat (block_count n) = (unat n + 15) div 16 + (if 12 < unat n mod 16 \<or> unat n mod 16 = 0 then 1 else 0)"
  proof -
    have "unat ((n + 15) div 16 + 1) = (unat n + 15) div 16 + 1"
      by (subst unat_add_u32) (use assms(2) in \<open>simp_all add: unat_div_16 n15\<close>)
    then show ?thesis by (simp add: block_count_def Let_def r unat_div_16 n15)
  qed
  have rounded: "m + 4 \<le> (q + (if r = 0 then 0 else 1) + (if 12 < r \<or> r = 0 then 1 else 0)) * 16
      \<and> (q + (if r = 0 then 0 else 1) + (if 12 < r \<or> r = 0 then 1 else 0)) * 16 \<le> m + 32" if "m = 16 * q + r" "r < 16" for m q r :: nat
    using that by auto
  show room: "unat n + 4 \<le> unat (block_count n) * 16" "unat (block_count n) * 16 \<le> unat n + 32"
    using rounded [of "unat n" "unat n div 16" "unat n mod 16"] unfolding b div_16_up by simp_all
  show "unat (block_count n * 16) = unat (block_count n) * 16" using room(2) assms(2) by (simp add: unat_word_ariths)
qed


section \<open>Round trip\<close>

text \<open>The plain text as it is encrypted: content, zeros, length.\<close>

definition padded :: "bytes \<Rightarrow> bytes" where
  "padded d = (let n = of_nat (length d); size = unat (block_count n * 16) in d @ replicate (size - 4 - length d) 0 @ enc32 n)"

lemma padded_props:
  assumes "0 < length d" "length d + 32 < 2 ^ 32"
  shows "length (padded d) = unat (block_count (of_nat (length d)) * 16)" "take (length d) (padded d) = d"
    "be32 (drop (length (padded d) - 4) (padded d)) = of_nat (length d)"
    "memcpy_at (replicate (unat (block_count (of_nat (length d)) * 16)) 0) 0 d
       = Inr (d @ replicate (unat (block_count (of_nat (length d)) * 16) - length d) 0)"
    "WriteUint32 (d @ replicate (unat (block_count (of_nat (length d)) * 16) - length d) 0) (unat (block_count (of_nat (length d)) * 16 - 4)) (of_nat (length d))
       = Inr (padded d)"
proof -
  let ?n = "of_nat (length d) :: u32"
  have n: "unat ?n = length d" using assms(2) by (intro unat_of_nat_u32) simp
  note room = block_count_room [of ?n, unfolded n, OF assms]
  let ?s = "unat (block_count ?n * 16)"
  have s: "length d + 4 \<le> ?s" using room by simp
  show len: "length (padded d) = ?s" using s by (simp add: padded_def Let_def)
  show "take (length d) (padded d) = d" by (simp add: padded_def Let_def)
  have "drop (length (padded d) - 4) (padded d) = enc32 ?n" using s unfolding len by (simp add: padded_def Let_def)
  then show "be32 (drop (length (padded d) - 4) (padded d)) = ?n" by simp
  show "memcpy_at (replicate ?s 0) 0 d = Inr (d @ replicate (?s - length d) 0)" using s by simp
  have four: "unat (block_count ?n * 16 - 4) = ?s - 4" using s by (subst unat_sub_u32) simp_all
  have "d @ replicate (?s - length d) 0 = (d @ replicate (?s - 4 - length d) 0) @ replicate 4 0"
    using s by (simp flip: replicate_add)
  then show "WriteUint32 (d @ replicate (?s - length d) 0) (unat (block_count ?n * 16 - 4)) ?n = Inr (padded d)"
    using s memcpy_at_append_mid [of "d @ replicate (?s - 4 - length d) 0" "?s - 4" "replicate 4 0" "enc32 ?n" "[]"]
    by (simp add: WriteUint32_def four padded_def Let_def)
qed

lemma encrypt_then_decrypt:
  assumes a: "good_aes a" and d: "0 < length d" "length d + 64 \<le> 3 * 2 ^ 30"
  shows "\<exists>s. Encrypt a key (Some d) (of_nat (length d)) = Inr (0, s) \<and> Decrypt a key (Some s) (of_nat (length s)) = Inr (0, d)"
proof -
  let ?n = "of_nat (length d) :: u32"
  have n: "unat ?n = length d" using d(2) by (intro unat_of_nat_u32) simp
  have d32: "length d + 32 < 2 ^ 32" using d(2) by simp
  let ?k = "unat (block_count ?n)"
  note room = block_count_room [of ?n, unfolded n, OF d(1) d32]
  note p = padded_props [OF d(1) d32]
  have lp: "length (padded d) = 16 * ?k" using p(1) room(1) by simp
  let ?e = "each_block (aes_enc a key) ?k (padded d)"
  have le: "length ?e = 16 * ?k" by (rule length_each_block [OF _ lp]) (use a in \<open>auto simp: good_aes_def\<close>)
  have inv: "each_block (aes_dec a key) ?k ?e = padded d" by (rule each_block_inverse [OF _ lp]) (use a in \<open>auto simp: good_aes_def\<close>)
  have small: "16 * ?k + 32 \<le> 3 * 2 ^ 30" using room(3) d(2) by simp
  have "int (length ?e) \<le> int (3 * 2 ^ 30)" using small le by (simp only: of_nat_le_iff)
  also have "\<dots> \<le> (2 ^ 64 - 1) div 4 * 3" by simp
  finally have "int (length ?e) \<le> (2 ^ 64 - 1) div 4 * 3" .
  from base64_roundtrip [OF this] obtain s where s: "base64_encode ?e = Inr s" "length s = (16 * ?k + 2) div 3 * 4" "base64_decode s = ?e"
    by (auto simp: le)
  have ls: "length s < 2 ^ 32 - 1" "0 < length s" using s(2) small room(2) d(1) by auto
  then have us: "unat (of_nat (length s) :: u32) = length s" by (intro unat_of_nat_u32) simp
  have "(of_nat (length s) :: u32) + 1 \<noteq> 0"
  proof -
    have "unat ((of_nat (length s) :: u32) + 1) = length s + 1" by (subst unat_add_u32) (use ls us in simp_all)
    then show ?thesis by (metis Suc_eq_plus1 nat.distinct(1) unat_0)
  qed
  moreover have "\<not> ?n \<le> 0" using d(1) n by (simp add: word_le_nat_alt)
  ultimately have enc: "Encrypt a key (Some d) ?n = Inr (0, s)"
    using p(4,5) s(1) us by (simp add: Encrypt_def Let_def n)
  have k: "unat (of_nat (16 * ?k) :: u32) = 16 * ?k" by (rule unat_of_nat_u32) (use small in simp)
  have len: "(of_nat (16 * ?k) :: u32) mod 16 = 0" "unat ((of_nat (16 * ?k) :: u32) div 16) = ?k" "(of_nat (16 * ?k) :: u32) \<noteq> 0"
    using k room(2) d(1) by (simp_all add: unat_div_16 flip: unat_eq_zero)
  have four: "unat ((of_nat (16 * ?k) :: u32) - 4) = 16 * ?k - 4" using k room(2) by (subst unat_sub_u32) simp_all
  have rd: "ReadUint32 (padded d) (16 * ?k - 4) = Inr ?n" using p(3) lp room(2) by (simp add: ReadUint32_def)
  have "\<not> (of_nat (length s) :: u32) \<le> 0" using ls(2) us by (simp add: word_le_nat_alt)
  moreover have "\<not> ?n > of_nat (16 * ?k)" using room(2) by (simp only: word_less_nat_alt n k)
  ultimately have "Decrypt a key (Some s) (of_nat (length s)) = Inr (0, d)"
    using p(2) us s(3) le inv len four rd by (simp add: Decrypt_def Let_def n)
  then show ?thesis using enc by blast
qed


text \<open>C23: What \<open>CAes::Encrypt\<close> makes of any content of up to about 3 GB, \<open>Decrypt\<close> with the same key turns back into exactly that content, whatever
  its length modulo the block size: padding, the length field, the blocks and Base64 undo each other.\<close>

theorem encrypt_decrypt_roundtrip:
  assumes "good_aes a" "0 < length d" "length d + 64 \<le> 3 * 2 ^ 30"
  shows "\<exists>s. Encrypt a key (Some d) (of_nat (length d)) = Inr (0, s) \<and> Decrypt a key (Some s) (of_nat (length s)) = Inr (0, d)"
  by (rule encrypt_then_decrypt [OF assms])

text \<open>A block cipher for examples, which is of course no secret.\<close>

definition demo_aes :: aes where
  "demo_aes = \<lparr>aes_enc = (\<lambda>key b. map (\<lambda>x. x XOR hd key) (rev b)), aes_dec = (\<lambda>key b. map (\<lambda>x. x XOR hd key) (rev b))\<rparr>"

lemma good_demo_aes: "good_aes demo_aes"
  by (simp add: good_aes_def demo_aes_def rev_map comp_def xor.assoc)

theorem encrypt_decrypt_roundtrip_witness:
  "good_aes demo_aes \<and> (\<exists>s. Encrypt demo_aes client_key (Some [104, 101, 108, 108, 111]) 5 = Inr (0, s)
     \<and> Decrypt demo_aes client_key (Some s) (of_nat (length s)) = Inr (0, [104, 101, 108, 108, 111]))"
  using good_demo_aes encrypt_decrypt_roundtrip [OF good_demo_aes, of "[104, 101, 108, 108, 111]" client_key] by simp

text \<open>So a server whose configured key begins with the clients' one reads what clients send, and the other way round.\<close>

lemma client_server_messages:
  assumes "good_aes a" "CAes strKey = Inr client_key" "0 < length d" "length d + 64 \<le> 3 * 2 ^ 30"
  shows "\<exists>key s. CAes strKey = Inr key \<and> EncryptMsg a (Some d) (of_nat (length d)) = Inr (0, s) \<and> Decrypt a key (Some s) (of_nat (length s)) = Inr (0, d)
    \<and> Encrypt a key (Some d) (of_nat (length d)) = Inr (0, s) \<and> DecryptMsg a (Some s) (of_nat (length s)) = Inr (0, d)"
proof -
  obtain s where "Encrypt a client_key (Some d) (of_nat (length d)) = Inr (0, s)" "Decrypt a client_key (Some s) (of_nat (length s)) = Inr (0, d)"
    using encrypt_then_decrypt [OF assms(1,3,4), of client_key] by blast
  then show ?thesis using assms(2) by (auto simp: EncryptMsg_def DecryptMsg_def)
qed

section \<open>Lengths near the maximum\<close>

text \<open>With the last lengths that 32 bits can hold the size of the padded buffer wraps around to almost nothing, and the copy runs over it.\<close>

lemma encrypt_length_wraps:
  assumes "2 ^ 32 - 19 \<le> unat n" "unat n \<le> length inp"
  shows "Encrypt a key (Some inp) n = Inl MemFault"
proof -
  define k where "k = 2 ^ 32 - unat n"
  have "(of_nat k :: u32) = of_nat (2 ^ 32) - of_nat (unat n)" unfolding k_def by (rule of_nat_diff) (use unat_lt_u32 [of n] in simp)
  also have "(of_nat (2 ^ 32) :: u32) = 0" by simp
  finally have n: "n = - of_nat k" by simp
  have "1 \<le> k" "k \<le> 19" using assms(1) unat_lt_u32 [of n] by (simp_all add: k_def)
  then have "k \<in> {1, 2, 3, 4, 5, 6, 7, 8, 9, 10, 11, 12, 13, 14, 15, 16, 17, 18, 19}" by simp arith
  then have "unat (block_count n * 16) \<le> 16" unfolding n by (elim insertE emptyE) (simp_all add: block_count_def Let_def)
  moreover have "16 < unat n" "\<not> n \<le> 0" using assms(1) by (simp_all add: word_le_nat_alt)
  ultimately show ?thesis using assms(2) by (simp add: Encrypt_def Let_def memcpy_at_def slice_def)
qed

end
