(* ===== verification/ConfigFile.thy ===== *)
theory ConfigFile
  imports Prelude "HOL-Library.List_Lexorder" "HOL-Library.Char_ord"
begin

text \<open>
  Configuration files (\<open>base/ConfigFileReader.cpp\<close>): lines of a key, \<open>=\<close> and a value, with comments from \<open>#\<close> on, read through a buffer of 256 bytes
  and written through one of 128. The file is a string; whether it can be opened for writing and how much the disk still holds are parameters.
\<close>

section \<open>C strings\<close>

abbreviation newline :: char where
  "newline \<equiv> CHR 0x0A"

definition line_str :: "string \<Rightarrow> string" where
  "line_str = takeWhile (\<lambda>c. c \<noteq> CHR 0x00)"

definition blank :: "char \<Rightarrow> bool" where
  "blank c \<longleftrightarrow> c = CHR '' '' \<or> c = CHR 0x09"

text \<open>\<open>fgets\<close> with a buffer of \<open>n + 1\<close> bytes: what it reads and what is left of the file.\<close>

fun fgets_line :: "nat \<Rightarrow> string \<Rightarrow> string \<times> string" where
  "fgets_line 0 s = ([], s)"
| "fgets_line (Suc n) [] = ([], [])"
| "fgets_line (Suc n) (c # s) = (if c = newline then ([c], s) else (let (l, r) = fgets_line n s in (c # l, r)))"

lemma fgets_line_append: "fgets_line n s = (l, r) \<Longrightarrow> s = l @ r"
  by (induction n s arbitrary: l r rule: fgets_line.induct) (auto split: if_splits prod.splits)

lemma fgets_line_progress: "fgets_line (Suc n) (c # s) = (l, r) \<Longrightarrow> l \<noteq> []"
  by (auto split: if_splits prod.splits)

section \<open>The reader\<close>

record config_reader =
  cf_load_ok :: bool
  cf_config_map :: "(string, string) assoc"

text \<open>A string without its leading and trailing blanks; \<open>None\<close> is the null pointer for a string of blanks.\<close>

definition TrimSpace :: "string \<Rightarrow> string option" where
  "TrimSpace name =
     (let start_pos = dropWhile blank name
      in if start_pos = [] then None else Some (rev (dropWhile blank (rev start_pos))))"

text \<open>The first definition of a key counts.\<close>

definition ParseLine :: "string \<Rightarrow> (string, string) assoc \<Rightarrow> (string, string) assoc" where
  "ParseLine line m =
     (let key = takeWhile (\<lambda>c. c \<noteq> CHR ''='') line
      in if key = line then m
         else case (TrimSpace key, TrimSpace (drop (length key + 1) line)) of
                (Some k, Some v) \<Rightarrow> om_insert k v m
              | _ \<Rightarrow> m)"

text \<open>What the loop does with a line in its buffer; one that starts with a zero byte makes it write in front of the buffer.\<close>

definition load_line :: "string \<Rightarrow> (string, string) assoc \<Rightarrow> (string, string) assoc res" where
  "load_line buf m =
     (let s = line_str buf
      in if s = [] then Inl MemFault
         else let s1 = (if last s = newline then butlast s else s); s2 = takeWhile (\<lambda>c. c \<noteq> CHR ''#'') s1
              in Inr (if s2 = [] then m else ParseLine s2 m))"

function load_lines :: "string \<Rightarrow> (string, string) assoc \<Rightarrow> (string, string) assoc res" where
  "load_lines [] m = Inr m"
| "load_lines (c # s) m = (let (l, r) = fgets_line 255 (c # s) in bindR (load_line l m) (load_lines r))"
  by pat_completeness auto
termination
proof (relation "measure (\<lambda>(s, _). length s)")
  fix c s m x l r
  assume "x = fgets_line 255 (c # s)" "(l, r) = x"
  then have "fgets_line (Suc 254) (c # s) = (l, r)" by simp
  from fgets_line_append [OF this] fgets_line_progress [OF this] have "length (c # s) = length l + length r" "l \<noteq> []" by (metis length_append)+
  then show "\<And>y. ((r, y), (c # s, m)) \<in> measure (\<lambda>(s, _). length s)" by (cases l) simp_all
qed simp

text \<open>The constructor does not initialise the flag; \<open>uninit\<close> is what it happens to be. \<open>None\<close> is a file that cannot be opened.\<close>

definition CConfigFileReader :: "bool \<Rightarrow> string option \<Rightarrow> config_reader res" where
  "CConfigFileReader uninit file =
     (case file of
        None \<Rightarrow> Inr \<lparr>cf_load_ok = uninit, cf_config_map = []\<rparr>
      | Some s \<Rightarrow> bindR (load_lines s []) (\<lambda>m. Inr \<lparr>cf_load_ok = True, cf_config_map = m\<rparr>))"

definition GetConfigName :: "string \<Rightarrow> config_reader \<Rightarrow> string option" where
  "GetConfigName name cf = (if \<not> cf_load_ok cf then None else map_of (cf_config_map cf) name)"

section \<open>Writing\<close>

text \<open>A pair as \<open>snprintf\<close> formats it into 128 bytes.\<close>

definition pair_line :: "string \<times> string \<Rightarrow> string" where
  "pair_line p = take 127 (fst p @ ''='' @ snd p @ [newline])"

text \<open>
  The loop over the map: the return value and what has been written, with \<open>room\<close> bytes left on the disk. The stream has a buffer: that the disk is full shows at the
  \<open>fwrite\<close> that empties it, or, when it is \<open>late\<close>, only at \<open>fclose\<close>, whose result is not looked at.
\<close>

fun write_pairs :: "bool \<Rightarrow> nat \<Rightarrow> (string, string) assoc \<Rightarrow> int \<times> string" where
  "write_pairs late room [] = (0, [])"
| "write_pairs late room (p # m) =
     (let l = pair_line p
      in if room < length l \<and> \<not> late then (- 1, take room l)
         else let (ret, s) = write_pairs late (room - length l) m in (ret, take room l @ s))"

definition WriteFile :: "bool \<Rightarrow> bool \<Rightarrow> nat \<Rightarrow> config_reader \<Rightarrow> string option \<Rightarrow> int \<times> string option" where
  "WriteFile openable late room cf file =
     (if \<not> openable then (- 1, file) else let (ret, s) = write_pairs late room (cf_config_map cf) in (ret, Some s))"

definition SetConfigValue :: "bool \<Rightarrow> bool \<Rightarrow> nat \<Rightarrow> string \<Rightarrow> string \<Rightarrow> config_reader \<Rightarrow> string option \<Rightarrow> int \<times> config_reader \<times> string option" where
  "SetConfigValue openable late room name value cf file =
     (if \<not> cf_load_ok cf then (- 1, cf, file)
      else let cf1 = cf\<lparr>cf_config_map := om_assign name value (cf_config_map cf)\<rparr>;
               (ret, file1) = WriteFile openable late room cf1 file
           in (ret, cf1, file1))"

section \<open>What a reader reads back\<close>

text \<open>Keys and values that survive: trimmed, not empty, without the characters that have a meaning, and short enough together.\<close>

definition plain :: "string \<Rightarrow> bool" where
  "plain s \<longleftrightarrow> s \<noteq> [] \<and> \<not> blank (hd s) \<and> \<not> blank (last s) \<and> CHR 0x00 \<notin> set s \<and> newline \<notin> set s \<and> CHR ''#'' \<notin> set s"

definition storable :: "string \<times> string \<Rightarrow> bool" where
  "storable p \<longleftrightarrow> plain (fst p) \<and> plain (snd p) \<and> CHR ''='' \<notin> set (fst p) \<and> length (fst p) + length (snd p) \<le> 125"

lemma TrimSpace_plain: "plain s \<Longrightarrow> TrimSpace s = Some s"
proof -
  assume s: "plain s"
  then have "dropWhile blank s = s" by (cases s) (simp_all add: plain_def)
  moreover have "dropWhile blank (rev s) = rev s" using s by (cases s rule: rev_cases) (simp_all add: plain_def)
  ultimately show ?thesis using s by (simp add: TrimSpace_def plain_def)
qed

lemma takeWhile_stop: "c \<notin> set s \<Longrightarrow> takeWhile (\<lambda>x. x \<noteq> c) (s @ c # t) = s"
  by (induction s) auto

lemma takeWhile_absent: "c \<notin> set s \<Longrightarrow> takeWhile (\<lambda>x. x \<noteq> c) s = s"
  by (induction s) auto

lemma ParseLine_storable: "storable (k, v) \<Longrightarrow> ParseLine (k @ ''='' @ v) m = om_insert k v m"
  by (simp add: ParseLine_def storable_def takeWhile_stop TrimSpace_plain)

lemma fgets_line_newline: "newline \<notin> set l \<Longrightarrow> length l < n \<Longrightarrow> fgets_line n (l @ newline # s) = (l @ [newline], s)"
proof (induction l arbitrary: n)
  case Nil
  then show ?case by (cases n) auto
next
  case (Cons c l)
  then show ?case by (cases n) auto
qed

lemma load_line_storable: "storable (k, v) \<Longrightarrow> load_line (k @ ''='' @ v @ [newline]) m = Inr (om_insert k v m)"
proof -
  assume s: "storable (k, v)"
  then have clean: "CHR 0x00 \<notin> set (k @ ''='' @ v @ [newline])" "CHR ''#'' \<notin> set (k @ ''='' @ v)" by (auto simp: storable_def plain_def)
  have "last (k @ ''='' @ v @ [newline]) = newline" "butlast (k @ ''='' @ v @ [newline]) = k @ ''='' @ v"
    using butlast_snoc [of "k @ ''='' @ v" newline] by simp_all
  then show ?thesis using clean ParseLine_storable [OF s, of m]
    by (simp add: load_line_def line_str_def takeWhile_absent Let_def del: butlast_append)
qed

lemma load_lines_pair:
  assumes "storable p"
  shows "load_lines (pair_line p @ s) m = load_lines s (om_insert (fst p) (snd p) m)"
proof -
  obtain k v where p: "p = (k, v)" by (cases p)
  have "length (k @ ''='' @ v @ [newline]) \<le> 127" using assms by (simp add: p storable_def)
  then have line: "pair_line p = (k @ ''='' @ v) @ [newline]" unfolding pair_line_def p fst_conv snd_conv by (simp only: take_all append_assoc)
  have len: "length (k @ ''='' @ v) < 255" "newline \<notin> set (k @ ''='' @ v)" using assms by (auto simp: p storable_def plain_def)
  obtain c t where ct: "pair_line p @ s = c # t" using line by (cases "pair_line p @ s") auto
  have "fgets_line 255 (c # t) = ((k @ ''='' @ v) @ [newline], s)" using fgets_line_newline [OF len(2,1), of s] ct line by simp
  then show ?thesis using ct load_line_storable [of k v m] assms p by simp
qed

lemma om_insert_last:
  assumes "\<forall>x\<in>keys m. x < k"
  shows "om_insert k v m = m @ [(k, v)]"
proof -
  have "k \<notin> keys m" using assms by (metis less_irrefl)
  moreover have "om_assign k v m = m @ [(k, v)]" using assms by (induction m) (auto dest: order.asym)
  ultimately show ?thesis by (simp add: om_insert_def)
qed

lemma load_written:
  assumes "\<forall>p\<in>set m. storable p" "length (concat (map pair_line m)) \<le> room"
  shows "write_pairs late room m = (0, concat (map pair_line m))"
  using assms by (induction m arbitrary: room) (simp_all add: Let_def)

lemma load_lines_written: "\<forall>p\<in>set m. storable p \<Longrightarrow> om_ok (m0 @ m) \<Longrightarrow> load_lines (concat (map pair_line m)) m0 = Inr (m0 @ m)"
proof (induction m arbitrary: m0)
  case (Cons p m)
  obtain k v where p: "p = (k, v)" by (cases p)
  have "\<forall>x\<in>keys m0. x < k" using Cons.prems(2) by (auto simp: om_ok_def p sorted_wrt_append)
  then have "om_insert k v m0 = m0 @ [p]" by (simp add: om_insert_last p)
  then show ?case using Cons.IH [of "m0 @ [p]"] Cons.prems load_lines_pair [of p] by (simp add: p)
qed simp


lemma ParseLine_om_ok: "om_ok m \<Longrightarrow> om_ok (ParseLine line m)"
  by (auto simp: ParseLine_def Let_def om.ok_insert split: option.split)

text \<open>The map of a reader is in order.\<close>

lemma load_lines_om_ok: "load_lines s m = Inr m' \<Longrightarrow> om_ok m \<Longrightarrow> om_ok m'"
proof (induction s m rule: load_lines.induct)
  case (2 c s m)
  obtain l r where lr: "fgets_line 255 (c # s) = (l, r)" by fastforce
  obtain m1 where m1: "load_line l m = Inr m1" "load_lines r m1 = Inr m'" using 2(2) lr by (auto simp: result_simps)
  have "om_ok m1" using m1(1) 2(3) ParseLine_om_ok by (auto simp: load_line_def Let_def split: if_splits)
  then show ?case using 2(1) [OF refl, of l r m1] lr m1(2) by simp
qed simp

text \<open>C32: A value that \<open>SetConfigValue\<close> reports as stored is there after a restart: a reader of the file that was written has exactly the map of the
  one that wrote it, with the new value for its key and the old ones for the others. It holds for trimmed keys and values without special characters
  that fit the buffer together, when the disk has room.\<close>

theorem config_survives_restart:
  assumes "cf_load_ok cf" "om_ok (cf_config_map cf)" "\<forall>p\<in>set (cf_config_map cf). storable p" "storable (name, value)"
    "length (concat (map pair_line (om_assign name value (cf_config_map cf)))) \<le> room"
  shows "\<exists>cf' s. SetConfigValue True late room name value cf file = (0, cf', Some s) \<and> CConfigFileReader uninit (Some s) = Inr cf'
    \<and> (\<forall>key. GetConfigName key cf' = (if key = name then Some value else GetConfigName key cf))"
proof -
  let ?m = "om_assign name value (cf_config_map cf)"
  have m: "\<forall>p\<in>set ?m. storable p" using assms(2-4) by (simp add: om.set_assign)
  have "SetConfigValue True late room name value cf file = (0, cf\<lparr>cf_config_map := ?m\<rparr>, Some (concat (map pair_line ?m)))"
    using load_written [OF m assms(5)] assms(1) by (simp add: SetConfigValue_def WriteFile_def Let_def)
  moreover have "CConfigFileReader uninit (Some (concat (map pair_line ?m))) = Inr (cf\<lparr>cf_config_map := ?m\<rparr>)"
    using load_lines_written [OF m, of "[]"] om_ok_assign [OF assms(2)] assms(1) by (simp add: CConfigFileReader_def)
  ultimately show ?thesis using assms(1,2) by (auto simp: GetConfigName_def om.find_assign)
qed

theorem config_survives_restart_witness:
  "\<exists>cf' s. SetConfigValue True False 100 ''FileCnt'' ''7'' \<lparr>cf_load_ok = True, cf_config_map = [(''ListenPort'', ''8600'')]\<rparr> None = (0, cf', Some s)
     \<and> CConfigFileReader False (Some s) = Inr cf' \<and> GetConfigName ''FileCnt'' cf' = Some ''7'' \<and> GetConfigName ''ListenPort'' cf' = Some ''8600''"
proof -
  let ?cf = "\<lparr>cf_load_ok = True, cf_config_map = [(''ListenPort'', ''8600'')]\<rparr>"
  have "length (concat (map pair_line (om_assign ''FileCnt'' ''7'' (cf_config_map ?cf)))) \<le> 100" by code_simp
  moreover have "\<forall>p\<in>set (cf_config_map ?cf). storable p" "storable (''FileCnt'', ''7'')" by (simp_all add: storable_def plain_def blank_def)
  ultimately show ?thesis
    using config_survives_restart [of ?cf "''FileCnt''" "''7''" 100 False None False] by (fastforce simp: om_ok_def GetConfigName_def)
qed

text \<open>A pair that does not fit the buffer loses its end and the line break, and takes the next line with it.\<close>

lemma long_pair_swallows_next:
  "map_sum id cf_config_map (CConfigFileReader False (snd (snd (SetConfigValue True False 1000 ''a'' (replicate 126 CHR ''x'')
       \<lparr>cf_load_ok = True, cf_config_map = [(''b'', ''1'')]\<rparr> None))))
   = Inr [(''a'', replicate 125 CHR ''x'' @ ''b=1'')]"
  by code_simp

text \<open>A full disk leaves a part of the new file, and nothing of the old one; when it is noticed late, the value is even reported as stored.\<close>

lemma full_disk_loses_config:
  "SetConfigValue True False 0 name v \<lparr>cf_load_ok = True, cf_config_map = m\<rparr> (Some s) = (- 1, \<lparr>cf_load_ok = True, cf_config_map = om_assign name v m\<rparr>, Some [])"
  "SetConfigValue True True 0 name v \<lparr>cf_load_ok = True, cf_config_map = m\<rparr> (Some s) = (0, \<lparr>cf_load_ok = True, cf_config_map = om_assign name v m\<rparr>, Some [])"
proof -
  have "0 < length (pair_line p)" for p by (simp add: pair_line_def)
  moreover have "om_assign name v m \<noteq> []" by (cases m) auto
  ultimately show "SetConfigValue True False 0 name v \<lparr>cf_load_ok = True, cf_config_map = m\<rparr> (Some s) = (- 1, \<lparr>cf_load_ok = True, cf_config_map = om_assign name v m\<rparr>, Some [])"
    by (cases "om_assign name v m") (simp_all add: SetConfigValue_def WriteFile_def Let_def)
  have "write_pairs True 0 ps = (0, [])" for ps by (induction ps) (simp_all add: Let_def)
  then show "SetConfigValue True True 0 name v \<lparr>cf_load_ok = True, cf_config_map = m\<rparr> (Some s) = (0, \<lparr>cf_load_ok = True, cf_config_map = om_assign name v m\<rparr>, Some [])"
    by (simp add: SetConfigValue_def WriteFile_def Let_def)
qed

text \<open>After a load that failed the flag is whatever was in memory.\<close>

lemma missing_config_looks_loaded: "map_sum id (GetConfigName key) (CConfigFileReader True None) = Inr None \<and> map_sum id cf_load_ok (CConfigFileReader True None) = Inr True"
  by (simp add: CConfigFileReader_def GetConfigName_def)

end
