(* ===== verification/WorkerThread.thy ===== *)
theory WorkerThread
  imports Prelude
begin

text \<open>
  A worker thread and the threads that give it tasks (\<open>base/ThreadPool.cpp\<close>, \<open>CThreadNotify\<close> of \<open>base/Thread.h\<close>), step by step: every step is one
  access to the mutex, the condition variable or the list. \<open>pthread_cond_wait\<close> releases the mutex and blocks in one step, may wake up without a reason,
  and takes the mutex again before it returns. The worker implements a queue from which each task is run once, in order, and no wake-up is lost.
\<close>

section \<open>State\<close>

text \<open>Where the worker stands in \<open>Execute\<close>, and a producer in \<open>PushTask\<close>.\<close>

datatype 't worker_pc = AtLock | AtTest | AtWait | Woken | AtRun 't

datatype 't producer_pc = PIdle | PLocked 't | PPushed | PSignalled

datatype mutex_owner = Worker | Producer nat

text \<open>\<open>wk_pushed\<close> and \<open>wk_done\<close> record what has happened.\<close>

record 't worker =
  wk_task_list :: "'t list"
  wk_task_cnt :: u32
  wk_mutex :: "mutex_owner option"
  wk_pc :: "'t worker_pc"
  wk_producers :: "nat \<Rightarrow> 't producer_pc"
  wk_pushed :: "'t list"
  wk_done :: "'t list"

definition CWorkerThread :: "'t worker" where
  "CWorkerThread = \<lparr>wk_task_list = [], wk_task_cnt = 0, wk_mutex = None, wk_pc = AtLock, wk_producers = (\<lambda>_. PIdle), wk_pushed = [], wk_done = []\<rparr>"

section \<open>Steps\<close>

text \<open>One step of \<open>Execute\<close>; \<open>None\<close> when the thread is blocked.\<close>

definition Execute_step :: "'t worker \<Rightarrow> 't worker option" where
  "Execute_step w =
     (case wk_pc w of
        AtLock \<Rightarrow> if wk_mutex w = None then Some (w\<lparr>wk_mutex := Some Worker, wk_pc := AtTest\<rparr>) else None
      | AtTest \<Rightarrow>
          (case wk_task_list w of
             [] \<Rightarrow> Some (w\<lparr>wk_mutex := None, wk_pc := AtWait\<rparr>)
           | t # ts \<Rightarrow> Some (w\<lparr>wk_task_list := ts, wk_mutex := None, wk_pc := AtRun t\<rparr>))
      | AtWait \<Rightarrow> None
      | Woken \<Rightarrow> if wk_mutex w = None then Some (w\<lparr>wk_mutex := Some Worker, wk_pc := AtTest\<rparr>) else None
      | AtRun t \<Rightarrow> Some (w\<lparr>wk_done := wk_done w @ [t], wk_task_cnt := wk_task_cnt w + 1, wk_pc := AtLock\<rparr>))"

definition spurious_wakeup :: "'t worker \<Rightarrow> 't worker option" where
  "spurious_wakeup w = (if wk_pc w = AtWait then Some (w\<lparr>wk_pc := Woken\<rparr>) else None)"

text \<open>One step of \<open>PushTask\<close> by producer \<open>p\<close>, which begins with task \<open>t\<close> when it was idle. The signal wakes the worker only if it waits.\<close>

definition PushTask_step :: "nat \<Rightarrow> 't \<Rightarrow> 't worker \<Rightarrow> 't worker option" where
  "PushTask_step p t w =
     (case wk_producers w p of
        PIdle \<Rightarrow>
          if wk_mutex w = None then Some (w\<lparr>wk_mutex := Some (Producer p), wk_producers := (wk_producers w)(p := PLocked t)\<rparr>) else None
      | PLocked x \<Rightarrow>
          Some (w\<lparr>wk_task_list := wk_task_list w @ [x], wk_pushed := wk_pushed w @ [x], wk_producers := (wk_producers w)(p := PPushed)\<rparr>)
      | PPushed \<Rightarrow>
          Some (w\<lparr>wk_pc := (if wk_pc w = AtWait then Woken else wk_pc w), wk_producers := (wk_producers w)(p := PSignalled)\<rparr>)
      | PSignalled \<Rightarrow> Some (w\<lparr>wk_mutex := None, wk_producers := (wk_producers w)(p := PIdle)\<rparr>))"

inductive worker_step :: "'t worker \<Rightarrow> 't worker \<Rightarrow> bool" where
  execute: "Execute_step w = Some w' \<Longrightarrow> worker_step w w'"
| spurious: "spurious_wakeup w = Some w' \<Longrightarrow> worker_step w w'"
| push: "PushTask_step p t w = Some w' \<Longrightarrow> worker_step w w'"

inductive worker_reachable :: "'t worker \<Rightarrow> bool" where
  init: "worker_reachable CWorkerThread"
| step: "worker_reachable w \<Longrightarrow> worker_step w w' \<Longrightarrow> worker_reachable w'"

inductive_cases worker_stepE: "worker_step w w'"

section \<open>Invariant\<close>

definition running :: "'t worker \<Rightarrow> 't list" where
  "running w = (case wk_pc w of AtRun t \<Rightarrow> [t] | _ \<Rightarrow> [])"

definition worker_inv :: "'t worker \<Rightarrow> bool" where
  "worker_inv w \<longleftrightarrow> wk_pushed w = wk_done w @ running w @ wk_task_list w
     \<and> (wk_mutex w = Some Worker \<longleftrightarrow> wk_pc w = AtTest)
     \<and> (\<forall>p. wk_mutex w = Some (Producer p) \<longleftrightarrow> wk_producers w p \<noteq> PIdle)
     \<and> (wk_pc w = AtWait \<and> wk_task_list w \<noteq> [] \<longrightarrow> (\<exists>p. wk_producers w p = PPushed))"

lemma worker_inv_init: "worker_inv CWorkerThread"
  by (simp add: worker_inv_def CWorkerThread_def running_def)

lemma Execute_step_inv: "worker_inv w \<Longrightarrow> Execute_step w = Some w' \<Longrightarrow> worker_inv w'"
  by (auto simp: worker_inv_def Execute_step_def running_def split: worker_pc.splits list.splits if_splits)

lemma spurious_inv: "worker_inv w \<Longrightarrow> spurious_wakeup w = Some w' \<Longrightarrow> worker_inv w'"
  by (auto simp: worker_inv_def spurious_wakeup_def running_def split: if_splits)

text \<open>Only the owner of the mutex is busy.\<close>

lemma one_producer:
  assumes "worker_inv w" "wk_producers w p \<noteq> PIdle"
  shows "wk_mutex w = Some (Producer p)" "wk_producers w = (\<lambda>_. PIdle)(p := wk_producers w p)" "wk_pc w \<noteq> AtTest"
proof -
  show m: "wk_mutex w = Some (Producer p)" "wk_pc w \<noteq> AtTest" using assms by (auto simp: worker_inv_def)
  show "wk_producers w = (\<lambda>_. PIdle)(p := wk_producers w p)"
  proof
    fix q
    have "wk_mutex w = Some (Producer q) \<longleftrightarrow> wk_producers w q \<noteq> PIdle" using assms(1) by (simp add: worker_inv_def)
    then show "wk_producers w q = ((\<lambda>_. PIdle)(p := wk_producers w p)) q" using m(1) by auto
  qed
qed

lemma PushTask_step_inv:
  assumes inv: "worker_inv w" and step: "PushTask_step p t w = Some w'"
  shows "worker_inv w'"
proof (cases "wk_producers w p = PIdle")
  case True
  then have "wk_mutex w = None" "w' = w\<lparr>wk_mutex := Some (Producer p), wk_producers := (wk_producers w)(p := PLocked t)\<rparr>"
    using step by (auto simp: PushTask_step_def split: if_splits)
  then show ?thesis using inv True by (auto simp: worker_inv_def running_def)
next
  case False
  obtain x where x: "wk_producers w = (\<lambda>_. PIdle)(p := x)" "x \<noteq> PIdle" using one_producer(2) [OF inv False] False by metis
  have facts: "wk_pushed w = wk_done w @ running w @ wk_task_list w" "wk_mutex w = Some (Producer p)" "wk_pc w \<noteq> AtTest"
    "wk_pc w = AtWait \<Longrightarrow> wk_task_list w \<noteq> [] \<Longrightarrow> x = PPushed"
    using inv one_producer(1,3) [OF inv False] x by (auto simp: worker_inv_def split: if_splits)
  show ?thesis
    using step facts x(2)
    by (cases x) (auto simp: PushTask_step_def x(1) worker_inv_def running_def split: worker_pc.splits if_splits)
qed

lemma worker_reachable_inv: "worker_reachable w \<Longrightarrow> worker_inv w"
proof (induction rule: worker_reachable.induct)
  case (step w w')
  note inv = step.IH
  show ?case
    using step.hyps(2) Execute_step_inv [OF inv] spurious_inv [OF inv] PushTask_step_inv [OF inv] by (auto elim: worker_stepE)
qed (rule worker_inv_init)


text \<open>C25: A worker runs each task that was pushed exactly once and in the order of the pushes, whatever the interleaving with any number of producers;
  the mutex excludes them from the list while the worker looks at it; and no wake-up is lost: a worker that waits while there is a task is
  about to be signalled.\<close>

theorem worker_runs_tasks_in_order:
  assumes "worker_reachable w"
  shows "wk_pushed w = wk_done w @ running w @ wk_task_list w
    \<and> (wk_pc w = AtTest \<longrightarrow> (\<forall>p. wk_producers w p = PIdle))
    \<and> (wk_pc w = AtWait \<and> wk_task_list w \<noteq> [] \<longrightarrow> (\<exists>p. wk_producers w p = PPushed))"
proof -
  have inv: "worker_inv w" by (rule worker_reachable_inv [OF assms])
  have "wk_producers w p = PIdle" if "wk_pc w = AtTest" for p using one_producer(3) [OF inv] that by blast
  then show ?thesis using inv unfolding worker_inv_def by blast
qed

section \<open>Draining\<close>

fun run_worker :: "nat \<Rightarrow> 't worker \<Rightarrow> 't worker" where
  "run_worker 0 w = w"
| "run_worker (Suc n) w = (case Execute_step w of None \<Rightarrow> w | Some w' \<Rightarrow> run_worker n w')"

text \<open>How many steps it takes until the worker waits with an empty list.\<close>

definition steps_left :: "'t worker \<Rightarrow> nat" where
  "steps_left w = 3 * length (wk_task_list w) + (case wk_pc w of AtLock \<Rightarrow> 2 | AtTest \<Rightarrow> 1 | AtWait \<Rightarrow> 0 | Woken \<Rightarrow> 2 | AtRun _ \<Rightarrow> 3)"

lemma Execute_step_progress:
  assumes inv: "worker_inv w" and idle: "\<forall>p. wk_producers w p = PIdle" and more: "0 < steps_left w"
  shows "\<exists>w'. Execute_step w = Some w' \<and> steps_left w' < steps_left w \<and> worker_inv w' \<and> (\<forall>p. wk_producers w' p = PIdle) \<and> wk_pushed w' = wk_pushed w"
proof -
  have m: "wk_mutex w \<noteq> Some (Producer p)" "wk_mutex w = Some Worker \<longleftrightarrow> wk_pc w = AtTest" for p using inv idle by (auto simp: worker_inv_def)
  have free: "wk_pc w \<noteq> AtTest \<Longrightarrow> wk_mutex w = None" using m by (cases "wk_mutex w") (auto, metis mutex_owner.exhaust)
  have wait: "wk_pc w = AtWait \<Longrightarrow> wk_task_list w = []" using inv idle by (auto simp: worker_inv_def)
  obtain w' where w': "Execute_step w = Some w'" "steps_left w' < steps_left w" "wk_producers w' = wk_producers w" "wk_pushed w' = wk_pushed w"
    using free wait more by (cases "wk_pc w"; cases "wk_task_list w") (auto simp: Execute_step_def steps_left_def)
  then show ?thesis using Execute_step_inv [OF inv w'(1)] idle by auto
qed

lemma run_worker_drains:
  assumes "worker_inv w" "\<forall>p. wk_producers w p = PIdle" "steps_left w \<le> n"
  shows "wk_pc (run_worker n w) = AtWait \<and> wk_task_list (run_worker n w) = [] \<and> wk_done (run_worker n w) = wk_pushed w"
  using assms
proof (induction n arbitrary: w)
  case 0
  then have "wk_pc w = AtWait" "wk_task_list w = []" by (auto simp: steps_left_def split: worker_pc.splits)
  then show ?case using 0(1) by (simp add: worker_inv_def running_def)
next
  case (Suc n)
  show ?case
  proof (cases "steps_left w = 0")
    case True
    then have "wk_pc w = AtWait" "wk_task_list w = []" by (auto simp: steps_left_def split: worker_pc.splits)
    then show ?thesis using Suc.prems(1) by (simp add: worker_inv_def running_def Execute_step_def)
  next
    case False
    then obtain w' where w': "Execute_step w = Some w'" "steps_left w' < steps_left w" "worker_inv w'" "\<forall>p. wk_producers w' p = PIdle" "wk_pushed w' = wk_pushed w"
      using Execute_step_progress [OF Suc.prems(1,2)] by auto
    then show ?thesis using Suc.IH [of w'] Suc.prems(3) by simp
  qed
qed

text \<open>C28: Once the producers have returned from \<open>PushTask\<close>, the worker alone gets all its tasks done: after a number of its own steps that is bounded
  by the length of the list it has run everything that was ever pushed, in order, and waits.\<close>

theorem worker_gets_done:
  assumes "worker_reachable w" "\<forall>p. wk_producers w p = PIdle" "3 * length (wk_task_list w) + 3 \<le> n"
  shows "wk_done (run_worker n w) = wk_pushed w \<and> wk_task_list (run_worker n w) = [] \<and> wk_pc (run_worker n w) = AtWait"
proof -
  have "steps_left w \<le> n" using assms(3) by (auto simp: steps_left_def split: worker_pc.splits)
  then show ?thesis using run_worker_drains [OF worker_reachable_inv [OF assms(1)] assms(2)] by blast
qed

text \<open>Two pushes while the worker waits, with the steps of the second one in between.\<close>

fun worker_run :: "(nat \<times> 't) option list \<Rightarrow> 't worker \<Rightarrow> 't worker option" where
  "worker_run [] w = Some w"
| "worker_run (None # es) w = Option.bind (Execute_step w) (worker_run es)"
| "worker_run (Some (p, t) # es) w = Option.bind (PushTask_step p t w) (worker_run es)"

lemma worker_run_reachable: "worker_run es w = Some w' \<Longrightarrow> worker_reachable w \<Longrightarrow> worker_reachable w'"
  by (induction es w rule: worker_run.induct)
     (auto split: bind_splits intro: worker_reachable.step worker_step.intros)

definition demo_worker_run :: "(nat \<times> nat) option list" where
  "demo_worker_run = [None, None, Some (1, 10), Some (1, 10), Some (1, 10), Some (1, 10), Some (2, 20), Some (2, 20), Some (2, 20), Some (2, 20), None, None]"

theorem worker_runs_tasks_in_order_witness:
  "\<exists>w. worker_run demo_worker_run CWorkerThread = Some w \<and> wk_pushed w = [10, 20] \<and> wk_pushed w = wk_done w @ running w @ wk_task_list w"
proof -
  have run: "map_option (\<lambda>w. (wk_pushed w, wk_pc w)) (worker_run demo_worker_run CWorkerThread) = Some ([10, 20], AtRun 10)" by code_simp
  then obtain w where w: "worker_run demo_worker_run CWorkerThread = Some w" "wk_pushed w = [10, 20]" by auto
  then show ?thesis using worker_runs_tasks_in_order [OF worker_run_reachable [OF w(1) worker_reachable.init]] by blast
qed

theorem worker_gets_done_witness:
  "\<exists>w. worker_run demo_worker_run CWorkerThread = Some w \<and> wk_done (run_worker 6 w) = [10, 20]"
proof -
  have run: "map_option (\<lambda>w. (wk_pushed w, wk_task_list w, wk_producers w 1, wk_producers w 2)) (worker_run demo_worker_run CWorkerThread) = Some ([10, 20], [20], PIdle, PIdle)"
    by code_simp
  then obtain w where w: "worker_run demo_worker_run CWorkerThread = Some w" "wk_pushed w = [10, 20]" "wk_task_list w = [20]" by auto
  have reach: "worker_reachable w" by (rule worker_run_reachable [OF w(1) worker_reachable.init])
  have mutex: "map_option wk_mutex (worker_run demo_worker_run CWorkerThread) = Some None" by code_simp
  have "\<forall>p. wk_producers w p = PIdle" using worker_reachable_inv [OF reach] mutex w(1) by (simp add: worker_inv_def)
  then show ?thesis using worker_gets_done [OF reach, of 6] w by auto
qed

end
