(* ===== verification/ProxyConn.thy ===== *)
theory ProxyConn
  imports ServerBase
begin

text \<open>
  The database proxy's connections and threads (\<open>db_proxy_server/ProxyConn.cpp\<close>, \<open>ProxyTask.cpp\<close>, \<open>HandlerMap.cpp\<close>): the main thread turns requests
  into tasks for a pool of worker threads, which answer them through a list that the main thread sends from. A connection is named by an identifier of its own
  meanwhile, since its socket handle may be reused. What a handler does with the database is a parameter; the queues are those of \<open>WorkerThread\<close>, one step for each
  task, under whose mutex the list is accessed.
\<close>

section \<open>Handlers\<close>

datatype db_handler =
    doLogin | doPushShield | doQueryPushShield | doQueryVisibleRange | getRecentSession | deleteRecentSession | getUserInfo | getChangedUser
  | getChgedDepart | changeUserSignInfo | sendMessage | getMessage | getUnreadMsgCounter | clearUnreadMsgCounter | getMessageById | getLatestMsgId
  | setDevicesToken | getDevicesToken | setGroupPush | getGroupPush | getNormalGroupList | db_getGroupInfo | createGroup | modifyMember
  | hasOfflineFile | addOfflineFile | delOfflineFile | changeFileStatus | notifyClientAck

definition handler_table :: "(u32 \<times> db_handler) list" where
  "handler_table =
    [(ucast CID_OTHER_VALIDATE_REQ, doLogin), (ucast CID_LOGIN_REQ_PUSH_SHIELD, doPushShield),
     (ucast CID_LOGIN_REQ_QUERY_PUSH_SHIELD, doQueryPushShield), (ucast CID_LOGIN_REQ_VISIBLE_RANGE, doQueryVisibleRange),
     (ucast CID_BUDDY_LIST_RECENT_CONTACT_SESSION_REQUEST, getRecentSession), (ucast CID_BUDDY_LIST_REMOVE_SESSION_REQ, deleteRecentSession),
     (ucast CID_BUDDY_LIST_USER_INFO_REQUEST, getUserInfo), (ucast CID_BUDDY_LIST_ALL_USER_REQUEST, getChangedUser),
     (ucast CID_BUDDY_LIST_DEPARTMENT_REQUEST, getChgedDepart), (ucast CID_BUDDY_LIST_CHANGE_SIGN_INFO_REQUEST, changeUserSignInfo),
     (ucast CID_MSG_DATA, sendMessage), (ucast CID_MSG_LIST_REQUEST, getMessage), (ucast CID_MSG_UNREAD_CNT_REQUEST, getUnreadMsgCounter),
     (ucast CID_MSG_READ_ACK, clearUnreadMsgCounter), (ucast CID_MSG_GET_BY_MSG_ID_REQ, getMessageById),
     (ucast CID_MSG_GET_LATEST_MSG_ID_REQ, getLatestMsgId), (ucast CID_LOGIN_REQ_DEVICETOKEN, setDevicesToken),
     (ucast CID_OTHER_GET_DEVICE_TOKEN_REQ, getDevicesToken), (ucast CID_GROUP_SHIELD_GROUP_REQUEST, setGroupPush),
     (ucast CID_OTHER_GET_SHIELD_REQ, getGroupPush), (ucast CID_GROUP_NORMAL_LIST_REQUEST, getNormalGroupList),
     (ucast CID_GROUP_INFO_REQUEST, db_getGroupInfo), (ucast CID_GROUP_CREATE_REQUEST, createGroup),
     (ucast CID_GROUP_CHANGE_MEMBER_REQUEST, modifyMember), (ucast CID_FILE_HAS_OFFLINE_REQ, hasOfflineFile),
     (ucast CID_FILE_ADD_OFFLINE_REQ, addOfflineFile), (ucast CID_FILE_DEL_OFFLINE_REQ, delOfflineFile),
     (ucast CID_FILE_Notify_dbserver, changeFileStatus), (ucast CID_FILE_Notify_Ack, notifyClientAck)]"

definition CHandlerMap_Init :: "(u32, db_handler) assoc" where
  "CHandlerMap_Init = fold (\<lambda>(c, h). om_insert c h) handler_table []"

definition GetHandler :: "u32 \<Rightarrow> db_handler option" where
  "GetHandler pdu_type = map_of CHandlerMap_Init pdu_type"

text \<open>No command is entered twice, so each has the handler that is written beside it.\<close>

lemma GetHandler_table [code]: "GetHandler c = map_of handler_table c"
proof -
  have gen: "om_ok m \<and> distinct (map fst xs) \<and> keys xs \<inter> keys m = {} \<Longrightarrow> map_of (fold (\<lambda>(c, h). om_insert c h) xs m) c = (map_of m ++ map_of xs) c"
    for xs and m :: "(u32, db_handler) assoc"
  proof (induction xs arbitrary: m)
    case (Cons x xs)
    obtain d h where x: "x = (d, h)" by (cases x)
    have d: "d \<notin> keys m" "d \<notin> keys xs" using Cons.prems x by auto
    have "map_of (fold (\<lambda>(c, h). om_insert c h) xs (om_insert d h m)) c = (map_of (om_insert d h m) ++ map_of xs) c"
      using Cons.IH [of "om_insert d h m"] Cons.prems d by (simp add: x om.ok_insert om.keys_insert)
    moreover have "map_of (om_insert d h m) = (map_of m)(d \<mapsto> h)" using Cons.prems d(1) by (simp add: om.find_insert)
    moreover have "d \<notin> dom (map_of xs)" using d(2) by (simp add: dom_map_of_conv_image_fst)
    ultimately show ?case by (auto simp: x map_add_def domIff split: option.splits)
  qed simp
  have "distinct (map fst handler_table)" by code_simp
  then show ?thesis using gen [of "[]" handler_table] by (simp add: GetHandler_def CHandlerMap_Init_def om_ok_def)
qed

section \<open>State\<close>

record proxy_conn =
  pc_handle :: u32
  pc_uuid :: u32
  pc_last_send_tick :: u64
  pc_last_recv_tick :: u64

record proxy_task =
  pt_conn_uuid :: u32
  pt_pdu_handler :: "db_handler option"
  pt_pdu :: "bytes option"

text \<open>A response whose PDU is null asks for the connection to be closed. A running task is the responses that it has still to add.\<close>

type_synonym response_pdu = "u32 \<times> bytes option"

record 'd proxy =
  g_proxy_conn_map :: conn_map
  g_uuid_conn_map :: conn_map
  px_heap :: "proxy_conn heap"
  s_uuid_alloctor :: u32
  s_response_pdu_list :: "response_pdu list"
  px_task_lists :: "proxy_task list list"
  px_running :: "response_pdu list option list"
  px_db :: 'd
  px_exit_timer :: bool
  px_sockets :: "u32 list"
  px_trace :: "net_out list"

type_synonym 'd proxy_op = "'d proxy \<Rightarrow> 'd proxy res"

text \<open>What a handler answers to a request, and what it makes of the database.\<close>

type_synonym 'd handlers = "db_handler \<Rightarrow> bytes \<Rightarrow> 'd \<Rightarrow> bytes list \<times> 'd"

definition init_proxy_conn :: "nat \<Rightarrow> 'd \<Rightarrow> 'd proxy" where
  "init_proxy_conn thread_num db = \<lparr>g_proxy_conn_map = [], g_uuid_conn_map = [], px_heap = empty_heap, s_uuid_alloctor = 0, s_response_pdu_list = [],
     px_task_lists = replicate thread_num [], px_running = replicate thread_num None, px_db = db, px_exit_timer = False, px_sockets = [], px_trace = []\<rparr>"

section \<open>Connections\<close>

definition get_proxy_conn_by_uuid :: "u32 \<Rightarrow> 'd proxy \<Rightarrow> nat option" where
  "get_proxy_conn_by_uuid uuid st = map_of (g_uuid_conn_map st) uuid"

text \<open>The constructor takes the next identifier, and skips zero.\<close>

definition CProxyConn :: "u64 \<Rightarrow> 'd proxy \<Rightarrow> nat \<times> 'd proxy" where
  "CProxyConn now st =
     (let u = s_uuid_alloctor st + 1; uuid = (if u = 0 then u + 1 else u);
          (a, h) = new_obj \<lparr>pc_handle = NETLIB_INVALID_HANDLE, pc_uuid = uuid, pc_last_send_tick = now, pc_last_recv_tick = now\<rparr> (px_heap st)
      in (a, st\<lparr>s_uuid_alloctor := uuid, px_heap := h, g_uuid_conn_map := hm_insert uuid a (g_uuid_conn_map st)\<rparr>))"

definition proxy_OnConnect :: "nat \<Rightarrow> u32 \<Rightarrow> 'd proxy_op" where
  "proxy_OnConnect a handle st =
     bindR (deref a (px_heap st)) (\<lambda>c.
       Inr (st\<lparr>px_heap := set_obj a (c\<lparr>pc_handle := handle\<rparr>) (px_heap st), g_proxy_conn_map := hm_insert handle a (g_proxy_conn_map st),
               px_sockets := handle # px_sockets st\<rparr>))"

definition proxy_serv_callback :: "u64 \<Rightarrow> u32 \<Rightarrow> 'd proxy_op" where
  "proxy_serv_callback now handle st = (let (a, st1) = CProxyConn now st in proxy_OnConnect a handle st1)"

definition proxy_SendPdu :: "u64 \<Rightarrow> nat \<Rightarrow> bytes \<Rightarrow> 'd proxy_op" where
  "proxy_SendPdu now a data st =
     bindR (deref a (px_heap st)) (\<lambda>c.
       Inr (st\<lparr>px_heap := set_obj a (c\<lparr>pc_last_send_tick := now\<rparr>) (px_heap st), px_trace := px_trace st @ [NetSend (pc_handle c) data]\<rparr>))"

definition proxy_Close :: "nat \<Rightarrow> 'd proxy_op" where
  "proxy_Close a st =
     bindR (deref a (px_heap st)) (\<lambda>c.
       let st1 = (if pc_handle c \<noteq> NETLIB_INVALID_HANDLE then
                    st\<lparr>px_sockets := removeAll (pc_handle c) (px_sockets st), px_trace := px_trace st @ [NetClose (pc_handle c)],
                       g_proxy_conn_map := map_erase (pc_handle c) (g_proxy_conn_map st),
                       g_uuid_conn_map := map_erase (pc_uuid c) (g_uuid_conn_map st)\<rparr>
                  else st)
       in bindR (release_ref a (px_heap st1)) (\<lambda>h. Inr (st1\<lparr>px_heap := h\<rparr>)))"

definition proxy_OnTimer :: "unit pb \<Rightarrow> u64 \<Rightarrow> u64 \<Rightarrow> nat \<Rightarrow> 'd proxy_op" where
  "proxy_OnTimer pb now curr_tick a st =
     bindR (deref a (px_heap st)) (\<lambda>c.
     bindR (if curr_tick > pc_last_send_tick c + SERVER_HEARTBEAT_INTERVAL then
              proxy_SendPdu now a (wire_pdu SID_OTHER CID_OTHER_HEARTBEAT 0 (pb_ser pb ())) st
            else Inr st) (\<lambda>st1.
       if curr_tick > pc_last_recv_tick c + SERVER_TIMEOUT then proxy_Close a st1 else Inr st1))"

section \<open>Requests\<close>

text \<open>\<open>draw\<close> is what \<open>random()\<close> returns; with no worker the remainder is a division by zero.\<close>

definition pool_AddTask :: "nat \<Rightarrow> proxy_task \<Rightarrow> 'd proxy_op" where
  "pool_AddTask draw t st =
     (let size = length (px_task_lists st); i = draw mod size
      in if size = 0 then Inl MemFault
         else Inr (st\<lparr>px_task_lists := (px_task_lists st)[i := px_task_lists st ! i @ [t]]\<rparr>))"

definition HandlePduBuf :: "nat \<Rightarrow> nat \<Rightarrow> pdu_header \<Rightarrow> bytes \<Rightarrow> 'd proxy_op" where
  "HandlePduBuf draw a hdr img st =
     bindR (deref a (px_heap st)) (\<lambda>c.
       if h_command_id hdr = CID_OTHER_HEARTBEAT then Inr st
       else case GetHandler (ucast (h_command_id hdr)) of
              None \<Rightarrow> Inr st
            | Some handler \<Rightarrow> pool_AddTask draw \<lparr>pt_conn_uuid = pc_uuid c, pt_pdu_handler = Some handler, pt_pdu = Some img\<rparr> st)"

type_synonym proxy_frame = "nat \<times> pdu_header \<times> bytes"

fun proxy_frames :: "nat \<Rightarrow> proxy_frame list \<Rightarrow> 'd proxy_op" where
  "proxy_frames a [] st = Inr st"
| "proxy_frames a ((draw, hdr, img) # fs) st = bindR (HandlePduBuf draw a hdr img st) (proxy_frames a fs)"

definition proxy_OnRead :: "u64 \<Rightarrow> proxy_frame list \<Rightarrow> bool \<Rightarrow> nat \<Rightarrow> 'd proxy_op" where
  "proxy_OnRead now fs bad a st =
     bindR (deref a (px_heap st)) (\<lambda>c.
     bindR (proxy_frames a fs (st\<lparr>px_heap := set_obj a (c\<lparr>pc_last_recv_tick := now\<rparr>) (px_heap st)\<rparr>)) (\<lambda>st1.
       if bad then proxy_Close a st1 else Inr st1))"

section \<open>Worker threads\<close>

text \<open>\<open>CProxyTask::run\<close>: the responses that the task adds.\<close>

definition ProxyTask_run :: "'d handlers \<Rightarrow> proxy_task \<Rightarrow> 'd \<Rightarrow> response_pdu list \<times> 'd" where
  "ProxyTask_run handlers t db =
     (case pt_pdu t of
        None \<Rightarrow> ([(pt_conn_uuid t, None)], db)
      | Some pdu \<Rightarrow>
          (case pt_pdu_handler t of
             None \<Rightarrow> ([], db)
           | Some handler \<Rightarrow> let (rs, db1) = handlers handler pdu db in (map (\<lambda>d. (pt_conn_uuid t, Some d)) rs, db1)))"

text \<open>Worker \<open>i\<close> takes its next task and begins to run it; it adds the next response of the task it runs, or is done with it.\<close>

definition worker_take :: "'d handlers \<Rightarrow> nat \<Rightarrow> 'd proxy \<Rightarrow> 'd proxy" where
  "worker_take handlers i st =
     (if i < length (px_task_lists st) \<and> i < length (px_running st) \<and> px_running st ! i = None
      then case px_task_lists st ! i of
             [] \<Rightarrow> st
           | t # ts \<Rightarrow>
               let (rs, db1) = ProxyTask_run handlers t (px_db st)
               in st\<lparr>px_task_lists := (px_task_lists st)[i := ts], px_running := (px_running st)[i := Some rs], px_db := db1\<rparr>
      else st)"

definition AddResponsePdu :: "u32 \<Rightarrow> bytes option \<Rightarrow> 'd proxy \<Rightarrow> 'd proxy" where
  "AddResponsePdu conn_uuid pdu st = st\<lparr>s_response_pdu_list := s_response_pdu_list st @ [(conn_uuid, pdu)]\<rparr>"

definition worker_respond :: "nat \<Rightarrow> 'd proxy \<Rightarrow> 'd proxy" where
  "worker_respond i st =
     (if i < length (px_running st)
      then case px_running st ! i of
             None \<Rightarrow> st
           | Some [] \<Rightarrow> st\<lparr>px_running := (px_running st)[i := None]\<rparr>
           | Some ((u, d) # rs) \<Rightarrow> AddResponsePdu u d (st\<lparr>px_running := (px_running st)[i := Some rs]\<rparr>)
      else st)"

section \<open>Responses\<close>

definition send_response :: "u64 \<Rightarrow> response_pdu \<Rightarrow> 'd proxy_op" where
  "send_response now r st =
     (case get_proxy_conn_by_uuid (fst r) st of
        None \<Rightarrow> Inr st
      | Some a \<Rightarrow> (case snd r of Some d \<Rightarrow> proxy_SendPdu now a d st | None \<Rightarrow> proxy_Close a st))"

text \<open>\<open>n\<close> iterations of the loop, or fewer when the list is empty; workers may add responses between two iterations.\<close>

fun SendResponsePduList :: "nat \<Rightarrow> u64 \<Rightarrow> 'd proxy_op" where
  "SendResponsePduList 0 now st = Inr st"
| "SendResponsePduList (Suc n) now st =
     (case s_response_pdu_list st of
        [] \<Rightarrow> Inr st
      | r # rs \<Rightarrow> bindR (send_response now r (st\<lparr>s_response_pdu_list := rs\<rparr>)) (SendResponsePduList n now))"

section \<open>Events\<close>

definition px_add_ref :: "nat \<Rightarrow> 'd proxy_op" where
  "px_add_ref a st = bindR (add_ref a (px_heap st)) (\<lambda>h. Inr (st\<lparr>px_heap := h\<rparr>))"

definition px_release_ref :: "nat \<Rightarrow> 'd proxy_op" where
  "px_release_ref a st = bindR (release_ref a (px_heap st)) (\<lambda>h. Inr (st\<lparr>px_heap := h\<rparr>))"

definition proxy_dispatch :: "(nat \<Rightarrow> 'd proxy_op) \<Rightarrow> netlib_msg \<Rightarrow> u32 \<Rightarrow> 'd proxy_op" where
  "proxy_dispatch m msg h st =
     imconn_callback px_add_ref px_release_ref (\<lambda>_. m) (if h \<in> set (px_sockets st) then Some (g_proxy_conn_map st) else None) msg h st"

fun proxy_timer_loop :: "unit pb \<Rightarrow> u64 \<Rightarrow> u64 \<Rightarrow> conn_map \<Rightarrow> 'd proxy_op" where
  "proxy_timer_loop pb now cur_time [] st = Inr st"
| "proxy_timer_loop pb now cur_time (it # its) st = bindR (proxy_OnTimer pb now cur_time (snd it) st) (proxy_timer_loop pb now cur_time its)"

definition proxy_timer_callback :: "unit pb \<Rightarrow> u64 \<Rightarrow> u64 \<Rightarrow> 'd proxy_op" where
  "proxy_timer_callback pb now cur_time st = proxy_timer_loop pb now cur_time (g_proxy_conn_map st) st"

text \<open>The handler of \<open>SIGTERM\<close>: every connection is told to stop, and a timer is set that ends the process.\<close>

fun notify_all :: "u64 \<Rightarrow> bytes \<Rightarrow> conn_map \<Rightarrow> 'd proxy_op" where
  "notify_all now data [] st = Inr st"
| "notify_all now data (it # its) st = bindR (proxy_SendPdu now (snd it) data st) (notify_all now data its)"

definition sig_handler :: "u32 pb \<Rightarrow> u64 \<Rightarrow> 'd proxy_op" where
  "sig_handler pb now st =
     bindR (notify_all now (wire_pdu SID_OTHER CID_OTHER_STOP_RECV_PACKET 0 (pb_ser pb 0)) (g_proxy_conn_map st) st) (\<lambda>st1.
       Inr (st1\<lparr>px_exit_timer := True\<rparr>))"

datatype proxy_event =
    PConnected u32
  | PReadable u32 "proxy_frame list" bool
  | PHungUp u32
  | PTimer u64
  | PLoop nat
  | PTake nat
  | PRespond nat
  | PSigterm

record 'd proxy_env =
  pe_handlers :: "'d handlers"
  pe_HeartBeat :: "unit pb"
  pe_Stop :: "u32 pb"

fun proxy_step :: "'d proxy_env \<Rightarrow> u64 \<Rightarrow> proxy_event \<Rightarrow> 'd proxy_op" where
  "proxy_step e now (PConnected h) st = proxy_serv_callback now h st"
| "proxy_step e now (PReadable h fs bad) st = proxy_dispatch (proxy_OnRead now fs bad) NETLIB_MSG_READ h st"
| "proxy_step e now (PHungUp h) st = proxy_dispatch proxy_Close NETLIB_MSG_CLOSE h st"
| "proxy_step e now (PTimer t) st = proxy_timer_callback (pe_HeartBeat e) now t st"
| "proxy_step e now (PLoop n) st = SendResponsePduList n now st"
| "proxy_step e now (PTake i) st = Inr (worker_take (pe_handlers e) i st)"
| "proxy_step e now (PRespond i) st = Inr (worker_respond i st)"
| "proxy_step e now PSigterm st = sig_handler (pe_Stop e) now st"

end
