(* ===== verification/ProxyInv.thy ===== *)
theory ProxyInv
  imports ProxyConn
begin

text \<open>
  The invariant of the database proxy: the two maps name the same live connections, by socket and by identifier, and no identifier is in use, in a queue, a running
  task or a response, that has not been given out yet. Every event keeps it.
\<close>

section \<open>The invariant\<close>

definition proxy_registered :: "(nat \<Rightarrow> int) \<Rightarrow> 'd proxy \<Rightarrow> u32 \<Rightarrow> nat \<Rightarrow> bool" where
  "proxy_registered k st h a \<longleftrightarrow> h \<noteq> NETLIB_INVALID_HANDLE \<and> h \<in> set (px_sockets st) \<and> refs a (px_heap st) = 1 + k a
     \<and> (\<exists>c. deref a (px_heap st) = Inr c \<and> pc_handle c = h \<and> map_of (g_uuid_conn_map st) (pc_uuid c) = Some a)"

definition task_uuids :: "'d proxy \<Rightarrow> u32 set" where
  "task_uuids st = {pt_conn_uuid t | t ts. t \<in> set ts \<and> ts \<in> set (px_task_lists st)}"

definition running_uuids :: "'d proxy \<Rightarrow> u32 set" where
  "running_uuids st = {fst r | r rs. r \<in> set rs \<and> Some rs \<in> set (px_running st)}"

definition pending_uuids :: "'d proxy \<Rightarrow> u32 set" where
  "pending_uuids st = task_uuids st \<union> running_uuids st \<union> fst ` set (s_response_pdu_list st)"

definition given_out :: "'d proxy \<Rightarrow> u32 \<Rightarrow> bool" where
  "given_out st u \<longleftrightarrow> u \<noteq> 0 \<and> u \<le> s_uuid_alloctor st"

definition proxy_inv :: "(nat \<Rightarrow> int) \<Rightarrow> 'd proxy \<Rightarrow> bool" where
  "proxy_inv k st \<longleftrightarrow> heap_ok (px_heap st) \<and> hm_ok (g_proxy_conn_map st) \<and> hm_ok (g_uuid_conn_map st)
     \<and> (\<forall>h a. map_of (g_proxy_conn_map st) h = Some a \<longrightarrow> proxy_registered k st h a)
     \<and> (\<forall>u a. map_of (g_uuid_conn_map st) u = Some a \<longrightarrow>
          (\<exists>c. deref a (px_heap st) = Inr c \<and> pc_uuid c = u \<and> map_of (g_proxy_conn_map st) (pc_handle c) = Some a))
     \<and> (\<forall>u\<in>keys (g_uuid_conn_map st) \<union> pending_uuids st. given_out st u)
     \<and> px_task_lists st \<noteq> [] \<and> length (px_running st) = length (px_task_lists st)"

lemma proxy_invD:
  assumes "proxy_inv k st"
  shows "heap_ok (px_heap st)" "hm_ok (g_proxy_conn_map st)" "hm_ok (g_uuid_conn_map st)"
    "\<And>h a. map_of (g_proxy_conn_map st) h = Some a \<Longrightarrow> proxy_registered k st h a"
    "\<And>u a. map_of (g_uuid_conn_map st) u = Some a \<Longrightarrow>
       \<exists>c. deref a (px_heap st) = Inr c \<and> pc_uuid c = u \<and> map_of (g_proxy_conn_map st) (pc_handle c) = Some a"
    "\<And>u. u \<in> keys (g_uuid_conn_map st) \<or> u \<in> pending_uuids st \<Longrightarrow> given_out st u"
    "px_task_lists st \<noteq> []" "length (px_running st) = length (px_task_lists st)"
  using assms by (auto simp: proxy_inv_def)

lemma proxy_registered_live: "proxy_registered k st h a \<Longrightarrow> live a (px_heap st)"
  by (auto simp: proxy_registered_def dest: deref_live)

text \<open>A registered connection.\<close>

lemma proxy_conn_at:
  assumes "proxy_inv k st" "map_of (g_proxy_conn_map st) h = Some a"
  obtains c where "deref a (px_heap st) = Inr c" "pc_handle c = h" "map_of (g_uuid_conn_map st) (pc_uuid c) = Some a" "h \<noteq> NETLIB_INVALID_HANDLE"
    "refs a (px_heap st) = 1 + k a"
  using proxy_invD(4) [OF assms] by (auto simp: proxy_registered_def)

text \<open>What the parts of the state that are not connections may do.\<close>

lemma proxy_inv_queues:
  assumes inv: "proxy_inv k st"
    and eqs: "px_heap st' = px_heap st" "g_proxy_conn_map st' = g_proxy_conn_map st" "g_uuid_conn_map st' = g_uuid_conn_map st"
      "s_uuid_alloctor st' = s_uuid_alloctor st" "px_sockets st' = px_sockets st"
    and pend: "\<And>u. u \<in> pending_uuids st' \<Longrightarrow> u \<in> pending_uuids st \<or> u \<in> keys (g_uuid_conn_map st)"
    and len: "length (px_task_lists st') = length (px_task_lists st)" "length (px_running st') = length (px_running st)"
  shows "proxy_inv k st'"
proof -
  have ne: "px_task_lists st' \<noteq> []" using proxy_invD(7) [OF inv] len(1) by (metis length_0_conv)
  have "given_out st' u" if "u \<in> keys (g_uuid_conn_map st') \<union> pending_uuids st'" for u
    using proxy_invD(6) [OF inv, of u] pend [of u] that eqs(3,4) by (auto simp: given_out_def)
  then show ?thesis using inv ne len unfolding proxy_inv_def proxy_registered_def eqs by simp
qed

text \<open>Ticks and the trace.\<close>

definition proxy_frame :: "'d proxy \<Rightarrow> 'd proxy \<Rightarrow> bool" where
  "proxy_frame st st' \<longleftrightarrow> g_proxy_conn_map st' = g_proxy_conn_map st \<and> g_uuid_conn_map st' = g_uuid_conn_map st
     \<and> s_uuid_alloctor st' = s_uuid_alloctor st
     \<and> (\<forall>a. map_sum id (\<lambda>c. (pc_handle c, pc_uuid c)) (deref a (px_heap st')) = map_sum id (\<lambda>c. (pc_handle c, pc_uuid c)) (deref a (px_heap st)))"

lemma proxy_frame_refl [simp]: "proxy_frame st st"
  by (simp add: proxy_frame_def)

lemma proxy_frame_trans [trans]: "proxy_frame st st1 \<Longrightarrow> proxy_frame st1 st2 \<Longrightarrow> proxy_frame st st2"
  by (simp add: proxy_frame_def)

lemma proxy_inv_set_obj:
  assumes inv: "proxy_inv k st" and d: "deref a (px_heap st) = Inr c" and same: "pc_handle c' = pc_handle c" "pc_uuid c' = pc_uuid c"
  shows "proxy_inv k (st\<lparr>px_heap := set_obj a c' (px_heap st), px_trace := t\<rparr>)"
    and "proxy_frame st (st\<lparr>px_heap := set_obj a c' (px_heap st), px_trace := t\<rparr>)"
proof -
  let ?st = "st\<lparr>px_heap := set_obj a c' (px_heap st), px_trace := t\<rparr>"
  have at: "deref b (px_heap ?st) = (if b = a then Inr c' else deref b (px_heap st))" for b using deref_live [OF d] by (simp add: deref_set_obj)
  have reg: "proxy_registered k ?st h b" if "proxy_registered k st h b" for h b
    using that d same by (auto simp: proxy_registered_def at [simplified])
  have uuid: "\<exists>x. deref b (px_heap ?st) = Inr x \<and> pc_uuid x = u \<and> map_of (g_proxy_conn_map ?st) (pc_handle x) = Some b"
    if "map_of (g_uuid_conn_map st) u = Some b" for u b
    using proxy_invD(5) [OF inv that] d same by (cases "b = a") (auto simp: at [simplified])
  show "proxy_inv k ?st"
    using inv reg uuid proxy_invD(6) [OF inv]
    by (simp add: proxy_inv_def heap_ok_set_obj pending_uuids_def task_uuids_def running_uuids_def given_out_def)
  show "proxy_frame st ?st" using d same by (simp add: proxy_frame_def at [simplified])
qed

lemma proxy_SendPdu_spec:
  assumes inv: "proxy_inv k st" and d: "deref a (px_heap st) = Inr c"
  shows "\<exists>st'. proxy_SendPdu now a data st = Inr st' \<and> proxy_inv k st' \<and> proxy_frame st st' \<and> px_trace st' = px_trace st @ [NetSend (pc_handle c) data]"
  using proxy_inv_set_obj [OF inv d, of "c\<lparr>pc_last_send_tick := now\<rparr>"] d by (simp add: proxy_SendPdu_def)

lemma proxy_Close_inv:
  assumes inv: "proxy_inv k st" and m: "map_of (g_proxy_conn_map st) h = Some a" and k: "0 \<le> k a"
  shows "\<exists>st' c. proxy_Close a st = Inr st' \<and> proxy_inv k st' \<and> deref a (px_heap st) = Inr c \<and> pc_handle c = h
    \<and> g_proxy_conn_map st' = map_erase h (g_proxy_conn_map st) \<and> g_uuid_conn_map st' = map_erase (pc_uuid c) (g_uuid_conn_map st)
    \<and> px_trace st' = px_trace st @ [NetClose h] \<and> deref a (px_heap st') = (if k a = 0 then Inl MemFault else deref a (px_heap st))"
proof -
  note I = proxy_invD [OF inv]
  obtain c where c: "deref a (px_heap st) = Inr c" "pc_handle c = h" "map_of (g_uuid_conn_map st) (pc_uuid c) = Some a"
    and h: "h \<noteq> NETLIB_INVALID_HANDLE" "refs a (px_heap st) = 1 + k a" using proxy_conn_at [OF inv m] .
  obtain hp where hp: "release_ref a (px_heap st) = Inr hp" "heap_ok hp"
    "\<forall>b. deref b hp = (if b = a \<and> refs a (px_heap st) = 1 then Inl MemFault else deref b (px_heap st))"
    "\<forall>b. refs b hp = refs b (px_heap st) - (if b = a then 1 else 0)"
    using release_ref_spec [OF I(1) deref_live [OF c(1)]] by blast
  let ?conns = "map_erase h (g_proxy_conn_map st)" and ?uuids = "map_erase (pc_uuid c) (g_uuid_conn_map st)"
  let ?st = "st\<lparr>px_sockets := removeAll h (px_sockets st), px_trace := px_trace st @ [NetClose h], g_proxy_conn_map := ?conns,
    g_uuid_conn_map := ?uuids, px_heap := hp\<rparr>"
  have close: "proxy_Close a st = Inr ?st" using c h hp(1) by (simp add: proxy_Close_def Let_def)
  have reg: "proxy_registered k ?st h' b" if "map_of ?conns h' = Some b" for h' b
  proof -
    have h': "h' \<noteq> h" "map_of (g_proxy_conn_map st) h' = Some b" using that by (auto simp: map_of_map_erase split: if_splits)
    obtain x where x: "deref b (px_heap st) = Inr x" "pc_handle x = h'" "map_of (g_uuid_conn_map st) (pc_uuid x) = Some b"
      "h' \<noteq> NETLIB_INVALID_HANDLE" "refs b (px_heap st) = 1 + k b" using proxy_conn_at [OF inv h'(2)] .
    have "b \<noteq> a" using x(1,2) c h'(1) by auto
    moreover have "pc_uuid x \<noteq> pc_uuid c" using x(3) c(3) calculation by auto
    moreover have "h' \<in> set (px_sockets st)" using I(4) [OF h'(2)] by (simp add: proxy_registered_def)
    ultimately show ?thesis using x h'(1) hp(3,4) by (simp add: proxy_registered_def map_of_map_erase)
  qed
  have uuid: "\<exists>x. deref b hp = Inr x \<and> pc_uuid x = u \<and> map_of ?conns (pc_handle x) = Some b" if "map_of ?uuids u = Some b" for u b
  proof -
    have u: "u \<noteq> pc_uuid c" "map_of (g_uuid_conn_map st) u = Some b" using that by (auto simp: map_of_map_erase split: if_splits)
    obtain x where x: "deref b (px_heap st) = Inr x" "pc_uuid x = u" "map_of (g_proxy_conn_map st) (pc_handle x) = Some b" using I(5) [OF u(2)] by blast
    have "b \<noteq> a" using x(1,2) c(1) u(1) by auto
    moreover have "pc_handle x \<noteq> h" using x(3) m calculation by auto
    ultimately show ?thesis using x hp(3) by (simp add: map_of_map_erase)
  qed
  have "given_out ?st u" if "u \<in> keys ?uuids \<union> pending_uuids ?st" for u
  proof -
    have "pending_uuids ?st = pending_uuids st" by (simp add: pending_uuids_def task_uuids_def running_uuids_def)
    then have "given_out st u" using that I(6) [of u] hm.keys_erase [OF I(3), of "pc_uuid c"] by blast
    then show ?thesis by (simp add: given_out_def)
  qed
  then have "proxy_inv k ?st"
    using I(2,3,7,8) hp(2) reg uuid by (simp add: proxy_inv_def hm.ok_erase)
  then show ?thesis using close c hp(3) h(2) by (intro exI [of _ ?st] exI [of _ c]) auto
qed

section \<open>Requests and workers\<close>

lemma set_nth_update: "x \<in> set (xs[i := y]) \<Longrightarrow> x = y \<or> x \<in> set xs"
  using set_update_subset_insert [of xs i y] by auto

lemma pool_AddTask_inv:
  assumes inv: "proxy_inv k st" and u: "pt_conn_uuid t \<in> keys (g_uuid_conn_map st)"
  shows "\<exists>st'. pool_AddTask draw t st = Inr st' \<and> proxy_inv k st' \<and> proxy_frame st st'"
proof -
  let ?i = "draw mod length (px_task_lists st)"
  let ?st = "st\<lparr>px_task_lists := (px_task_lists st)[?i := px_task_lists st ! ?i @ [t]]\<rparr>"
  have i: "?i < length (px_task_lists st)" using proxy_invD(7) [OF inv] by simp
  have tasks: "task_uuids ?st \<subseteq> task_uuids st \<union> {pt_conn_uuid t}"
  proof
    fix v assume "v \<in> task_uuids ?st"
    then obtain x xs where x: "v = pt_conn_uuid x" "x \<in> set xs" "xs = px_task_lists st ! ?i @ [t] \<or> xs \<in> set (px_task_lists st)"
      by (auto simp: task_uuids_def dest!: set_nth_update)
    then have "x = t \<or> (\<exists>ys. x \<in> set ys \<and> ys \<in> set (px_task_lists st))" using nth_mem [OF i] by auto
    then show "v \<in> task_uuids st \<union> {pt_conn_uuid t}" unfolding task_uuids_def using x(1) by blast
  qed
  moreover have "running_uuids ?st = running_uuids st" by (simp add: running_uuids_def)
  ultimately have "proxy_inv k ?st"
    using u by (intro proxy_inv_queues [OF inv]) (auto simp: pending_uuids_def)
  then show ?thesis using proxy_invD(7) [OF inv] by (simp add: pool_AddTask_def Let_def proxy_frame_def)
qed

lemma HandlePduBuf_inv:
  assumes inv: "proxy_inv k st" and m: "map_of (g_proxy_conn_map st) h = Some a"
  shows "\<exists>st'. HandlePduBuf draw a hdr img st = Inr st' \<and> proxy_inv k st' \<and> proxy_frame st st'"
proof -
  obtain c where c: "deref a (px_heap st) = Inr c" "map_of (g_uuid_conn_map st) (pc_uuid c) = Some a" using proxy_conn_at [OF inv m] .
  have "pc_uuid c \<in> keys (g_uuid_conn_map st)" using c(2) by (auto simp: hm.keys_eq_dom)
  then show ?thesis
    using c(1) inv pool_AddTask_inv [OF inv] by (auto simp: HandlePduBuf_def split: option.split)
qed

lemma proxy_frames_inv:
  assumes "proxy_inv k st" "map_of (g_proxy_conn_map st) h = Some a"
  shows "\<exists>st'. proxy_frames a fs st = Inr st' \<and> proxy_inv k st' \<and> proxy_frame st st'"
  using assms
proof (induction fs arbitrary: st)
  case (Cons f fs)
  obtain draw hdr img where f: "f = (draw, hdr, img)" by (cases f)
  obtain st1 where s1: "HandlePduBuf draw a hdr img st = Inr st1" "proxy_inv k st1" "proxy_frame st st1"
    using HandlePduBuf_inv [OF Cons.prems] by blast
  then have "map_of (g_proxy_conn_map st1) h = Some a" using Cons.prems(2) by (simp add: proxy_frame_def)
  from Cons.IH [OF s1(2) this] show ?case using s1 f proxy_frame_trans [OF s1(3)] by auto
qed simp

lemma proxy_OnRead_inv:
  assumes inv: "proxy_inv k st" and m: "map_of (g_proxy_conn_map st) h = Some a" and k: "k a = 1"
  shows "\<exists>st'. proxy_OnRead now fs bad a st = Inr st' \<and> proxy_inv k st' \<and> live a (px_heap st')"
proof -
  obtain c where c: "deref a (px_heap st) = Inr c" using proxy_conn_at [OF inv m] .
  let ?st = "st\<lparr>px_heap := set_obj a (c\<lparr>pc_last_recv_tick := now\<rparr>) (px_heap st)\<rparr>"
  have "proxy_inv k ?st" using proxy_inv_set_obj(1) [OF inv c, of "c\<lparr>pc_last_recv_tick := now\<rparr>" "px_trace st"] by simp
  then obtain st1 where s1: "proxy_frames a fs ?st = Inr st1" "proxy_inv k st1" "proxy_frame ?st st1" using proxy_frames_inv [of k ?st h a fs] m by auto
  have m1: "map_of (g_proxy_conn_map st1) h = Some a" using s1(3) m by (simp add: proxy_frame_def)
  obtain st2 where s2: "proxy_Close a st1 = Inr st2" "proxy_inv k st2" "deref a (px_heap st2) = deref a (px_heap st1)"
    using proxy_Close_inv [OF s1(2) m1] k by auto
  obtain c1 where "deref a (px_heap st1) = Inr c1" using proxy_conn_at [OF s1(2) m1] .
  then have "live a (px_heap st1)" "live a (px_heap st2)" using s2(3) deref_live [of a "px_heap st1"] deref_live [of a "px_heap st2"] by simp_all
  then show ?thesis using c s1(1,2) s2(1,2) by (cases bad) (simp_all add: proxy_OnRead_def)
qed

lemma ProxyTask_run_uuids: "r \<in> set (fst (ProxyTask_run hs t db)) \<Longrightarrow> fst r = pt_conn_uuid t"
  by (auto simp: ProxyTask_run_def case_prod_beta Let_def split: option.splits)

lemma worker_take_inv:
  assumes inv: "proxy_inv k st"
  shows "proxy_inv k (worker_take hs i st)"
proof (cases "i < length (px_task_lists st) \<and> px_running st ! i = None \<and> px_task_lists st ! i \<noteq> []")
  case True
  then obtain t ts where t: "px_task_lists st ! i = t # ts" by (cases "px_task_lists st ! i") auto
  obtain rs db1 where run: "ProxyTask_run hs t (px_db st) = (rs, db1)" by fastforce
  let ?st = "st\<lparr>px_task_lists := (px_task_lists st)[i := ts], px_running := (px_running st)[i := Some rs], px_db := db1\<rparr>"
  have mem: "t # ts \<in> set (px_task_lists st)" using True t nth_mem [of i "px_task_lists st"] by simp
  then have tm: "pt_conn_uuid t \<in> task_uuids st" by (force simp: task_uuids_def)
  have tasks: "task_uuids ?st \<subseteq> task_uuids st"
  proof
    fix u assume "u \<in> task_uuids ?st"
    then obtain x xs where x: "u = pt_conn_uuid x" "x \<in> set xs" "xs = ts \<or> xs \<in> set (px_task_lists st)"
      by (auto simp: task_uuids_def dest!: set_nth_update)
    then have "\<exists>ys. x \<in> set ys \<and> ys \<in> set (px_task_lists st)" using mem by (metis list.set_intros(2))
    then show "u \<in> task_uuids st" unfolding task_uuids_def using x(1) by blast
  qed
  have running: "running_uuids ?st \<subseteq> running_uuids st \<union> {pt_conn_uuid t}"
    using ProxyTask_run_uuids [of _ hs t "px_db st"] run by (auto simp: running_uuids_def dest!: set_nth_update)
  have "proxy_inv k ?st"
    by (rule proxy_inv_queues [OF inv]) (use tasks running tm in \<open>auto simp: pending_uuids_def\<close>)
  then show ?thesis using True t run proxy_invD(8) [OF inv] by (simp add: worker_take_def)
next
  case False
  then have "worker_take hs i st = st" by (auto simp: worker_take_def split: list.split)
  then show ?thesis using inv by simp
qed

lemma worker_respond_inv:
  assumes inv: "proxy_inv k st"
  shows "proxy_inv k (worker_respond i st)"
proof (cases "i < length (px_running st)")
  case i: True
  show ?thesis
  proof (cases "px_running st ! i")
    case None
    then show ?thesis using inv i by (simp add: worker_respond_def)
  next
    case (Some rs)
    then have mem: "Some rs \<in> set (px_running st)" using nth_mem [OF i] by simp
    show ?thesis
    proof (cases rs)
      case Nil
      have "running_uuids (st\<lparr>px_running := (px_running st)[i := None]\<rparr>) \<subseteq> running_uuids st"
        by (auto simp: running_uuids_def dest!: set_nth_update)
      then have "proxy_inv k (st\<lparr>px_running := (px_running st)[i := None]\<rparr>)"
        by (intro proxy_inv_queues [OF inv]) (auto simp: pending_uuids_def task_uuids_def)
      then show ?thesis using Some Nil i by (simp add: worker_respond_def)
    next
      case (Cons r rs')
      obtain u d where r: "r = (u, d)" by (cases r)
      let ?st = "AddResponsePdu u d (st\<lparr>px_running := (px_running st)[i := Some rs']\<rparr>)"
      have u: "u \<in> running_uuids st" using mem Cons r by (force simp: running_uuids_def)
      have "running_uuids ?st \<subseteq> running_uuids st"
      proof
        fix v assume "v \<in> running_uuids ?st"
        then obtain x xs where x: "v = fst x" "x \<in> set xs" "xs = rs' \<or> Some xs \<in> set (px_running st)"
          by (auto simp: running_uuids_def AddResponsePdu_def dest!: set_nth_update)
        then have "\<exists>ys. x \<in> set ys \<and> Some ys \<in> set (px_running st)" using mem Cons by (metis list.set_intros(2))
        then show "v \<in> running_uuids st" unfolding running_uuids_def using x(1) by blast
      qed
      then have "proxy_inv k ?st"
        using u by (intro proxy_inv_queues [OF inv]) (auto simp: pending_uuids_def task_uuids_def AddResponsePdu_def)
      then show ?thesis using Some Cons r i by (simp add: worker_respond_def)
    qed
  qed
qed (use inv in \<open>simp add: worker_respond_def\<close>)

section \<open>Callbacks\<close>

interpretation proxy_callbacks: conn_server proxy_inv px_heap px_add_ref px_release_ref proxy_frame
proof
  fix st :: "'a proxy" and a
  assume inv: "proxy_inv idle st" and l: "live a (px_heap st)"
  obtain hp where hp: "add_ref a (px_heap st) = Inr hp" "heap_ok hp" "\<forall>b. deref b hp = deref b (px_heap st)"
    "\<forall>b. refs b hp = refs b (px_heap st) + (if b = a then 1 else 0)"
    using add_ref_spec [OF proxy_invD(1) [OF inv] l] by blast
  have "proxy_inv (held a) (st\<lparr>px_heap := hp\<rparr>)"
    using inv hp(2-4) by (simp add: proxy_inv_def proxy_registered_def pending_uuids_def task_uuids_def running_uuids_def given_out_def)
  then show "\<exists>st'. px_add_ref a st = Inr st' \<and> proxy_inv (held a) st' \<and> proxy_frame st st'"
    using hp by (simp add: px_add_ref_def proxy_frame_def)
next
  fix st :: "'a proxy" and a
  assume inv: "proxy_inv (held a) st" and l: "live a (px_heap st)"
  note I = proxy_invD [OF inv]
  obtain hp where hp: "release_ref a (px_heap st) = Inr hp" "heap_ok hp"
    "\<forall>b. deref b hp = (if b = a \<and> refs a (px_heap st) = 1 then Inl MemFault else deref b (px_heap st))"
    "\<forall>b. refs b hp = refs b (px_heap st) - (if b = a then 1 else 0)"
    using release_ref_spec [OF I(1) l] by blast
  let ?st = "st\<lparr>px_heap := hp\<rparr>"
  have reg: "proxy_registered idle ?st h b" if "proxy_registered (held a) st h b" for h b
    using that hp(3,4) by (auto simp: proxy_registered_def split: if_splits)
  have uuid: "\<exists>c. deref b hp = Inr c \<and> pc_uuid c = u \<and> map_of (g_proxy_conn_map st) (pc_handle c) = Some b"
    if "map_of (g_uuid_conn_map st) u = Some b" for u b
  proof -
    obtain c where c: "deref b (px_heap st) = Inr c" "pc_uuid c = u" "map_of (g_proxy_conn_map st) (pc_handle c) = Some b" using I(5) [OF \<open>_ = Some b\<close>] by blast
    moreover have "refs b (px_heap st) = 1 + held a b" using I(4) [OF c(3)] by (simp add: proxy_registered_def)
    ultimately show ?thesis using hp(3) by auto
  qed
  have "proxy_inv idle ?st"
    using I hp(2) reg uuid by (simp add: proxy_inv_def pending_uuids_def task_uuids_def running_uuids_def given_out_def)
  then show "\<exists>st'. px_release_ref a st = Inr st' \<and> proxy_inv idle st'" using hp by (simp add: px_release_ref_def)
qed

lemma proxy_dispatch_inv:
  assumes inv: "proxy_inv idle st" and msg: "msg \<noteq> NETLIB_MSG_OTHER"
    and run: "\<And>a st1. proxy_inv (held a) st1 \<Longrightarrow> map_of (g_proxy_conn_map st1) h = Some a \<Longrightarrow>
      \<exists>st2. method a st1 = Inr st2 \<and> proxy_inv (held a) st2 \<and> live a (px_heap st2)"
  shows "\<exists>st'. proxy_dispatch method msg h st = Inr st' \<and> proxy_inv idle st'"
  unfolding proxy_dispatch_def
  using proxy_registered_live [OF proxy_invD(4) [OF inv]]
  by (intro proxy_callbacks.callback_inv [OF inv msg] run) (auto simp: proxy_frame_def split: if_splits)

section \<open>Timer, signal and responses\<close>

lemma proxy_OnTimer_inv:
  assumes inv: "proxy_inv idle st" and m: "map_of (g_proxy_conn_map st) h = Some a"
  shows "\<exists>st'. proxy_OnTimer pb now t a st = Inr st' \<and> proxy_inv idle st'
    \<and> (\<forall>h'. h' \<noteq> h \<longrightarrow> map_of (g_proxy_conn_map st') h' = map_of (g_proxy_conn_map st) h')"
proof -
  obtain c where c: "deref a (px_heap st) = Inr c" using proxy_conn_at [OF inv m] .
  let ?beat = "wire_pdu SID_OTHER CID_OTHER_HEARTBEAT 0 (pb_ser pb ())"
  obtain st1 where s1: "proxy_SendPdu now a ?beat st = Inr st1" "proxy_inv idle st1" "g_proxy_conn_map st1 = g_proxy_conn_map st"
    using proxy_SendPdu_spec [OF inv c, of now ?beat] by (auto simp: proxy_frame_def)
  define st2 where "st2 = (if t > pc_last_send_tick c + SERVER_HEARTBEAT_INTERVAL then st1 else st)"
  have s2: "proxy_inv idle st2" "g_proxy_conn_map st2 = g_proxy_conn_map st" using s1 inv by (simp_all add: st2_def)
  have eq: "proxy_OnTimer pb now t a st = (if t > pc_last_recv_tick c + SERVER_TIMEOUT then proxy_Close a st2 else Inr st2)"
    using c s1(1) by (simp add: proxy_OnTimer_def st2_def)
  obtain st3 where "proxy_Close a st2 = Inr st3" "proxy_inv idle st3" "g_proxy_conn_map st3 = map_erase h (g_proxy_conn_map st2)"
    using proxy_Close_inv [OF s2(1), of h a] s2(2) m by auto
  then show ?thesis using eq s2 by (simp add: map_of_map_erase)
qed

lemma proxy_timer_loop_inv:
  assumes "proxy_inv idle st" "distinct (map fst its)" "\<forall>(h, a)\<in>set its. map_of (g_proxy_conn_map st) h = Some a"
  shows "\<exists>st'. proxy_timer_loop pb now t its st = Inr st' \<and> proxy_inv idle st'"
  using assms
proof (induction its arbitrary: st)
  case (Cons it its)
  obtain h a where it: "it = (h, a)" by (cases it)
  then obtain st1 where s1: "proxy_OnTimer pb now t a st = Inr st1" "proxy_inv idle st1"
    "\<forall>h'. h' \<noteq> h \<longrightarrow> map_of (g_proxy_conn_map st1) h' = map_of (g_proxy_conn_map st) h'"
    using proxy_OnTimer_inv [OF Cons.prems(1), of h a pb now t] Cons.prems(3) by auto
  have "\<forall>(h, a)\<in>set its. map_of (g_proxy_conn_map st1) h = Some a" using s1(3) Cons.prems(2,3) it by force
  then show ?case using Cons.IH [OF s1(2)] s1(1) Cons.prems(2) it by simp
qed simp

lemma notify_all_inv:
  assumes "proxy_inv k st" "\<forall>(h, a)\<in>set its. map_of (g_proxy_conn_map st) h = Some a"
  shows "\<exists>st'. notify_all now d its st = Inr st' \<and> proxy_inv k st'
    \<and> px_trace st' = px_trace st @ map (\<lambda>it. NetSend (fst it) d) its"
  using assms
proof (induction its arbitrary: st)
  case (Cons it its)
  obtain h a where it: "it = (h, a)" by (cases it)
  then have m: "map_of (g_proxy_conn_map st) h = Some a" using Cons.prems(2) by simp
  obtain c where c: "deref a (px_heap st) = Inr c" "pc_handle c = h" using proxy_conn_at [OF Cons.prems(1) m] .
  obtain st1 where s1: "proxy_SendPdu now a d st = Inr st1" "proxy_inv k st1" "proxy_frame st st1" "px_trace st1 = px_trace st @ [NetSend h d]"
    using proxy_SendPdu_spec [OF Cons.prems(1) c(1), of now d] c(2) by auto
  have "\<forall>(h, a)\<in>set its. map_of (g_proxy_conn_map st1) h = Some a" using s1(3) Cons.prems(2) by (simp add: proxy_frame_def)
  from Cons.IH [OF s1(2) this] show ?case using s1 it by auto
qed simp

lemma send_response_inv:
  assumes inv: "proxy_inv idle st"
  shows "\<exists>st'. send_response now r st = Inr st' \<and> proxy_inv idle st' \<and> s_response_pdu_list st' = s_response_pdu_list st"
proof (cases "map_of (g_uuid_conn_map st) (fst r)")
  case None
  then show ?thesis using inv by (simp add: send_response_def get_proxy_conn_by_uuid_def)
next
  case (Some a)
  then obtain c where c: "deref a (px_heap st) = Inr c" "map_of (g_proxy_conn_map st) (pc_handle c) = Some a" using proxy_invD(5) [OF inv] by blast
  have "\<exists>st'. proxy_SendPdu now a d st = Inr st' \<and> proxy_inv idle st' \<and> s_response_pdu_list st' = s_response_pdu_list st" for d
    using proxy_SendPdu_spec [OF inv c(1), of now d] c(1) by (auto simp: proxy_SendPdu_def)
  moreover have "s_response_pdu_list st' = s_response_pdu_list st" if "proxy_Close a st = Inr st'" for st'
    using that c(1) by (auto simp: proxy_Close_def Let_def bindR_Inr_iff)
  moreover obtain st' where "proxy_Close a st = Inr st'" "proxy_inv idle st'" using proxy_Close_inv [OF inv c(2)] by auto
  ultimately show ?thesis using Some by (simp add: send_response_def get_proxy_conn_by_uuid_def split: option.split)
qed

lemma drop_response_inv:
  assumes inv: "proxy_inv k st" and l: "s_response_pdu_list st = r # rs"
  shows "proxy_inv k (st\<lparr>s_response_pdu_list := rs\<rparr>)"
  by (rule proxy_inv_queues [OF inv]) (auto simp: pending_uuids_def task_uuids_def running_uuids_def l)

lemma SendResponsePduList_inv:
  "proxy_inv idle st \<Longrightarrow> \<exists>st'. SendResponsePduList n now st = Inr st' \<and> proxy_inv idle st' \<and> s_response_pdu_list st' = drop n (s_response_pdu_list st)"
proof (induction n arbitrary: st)
  case (Suc n)
  show ?case
  proof (cases "s_response_pdu_list st")
    case (Cons r rs)
    obtain st1 where "send_response now r (st\<lparr>s_response_pdu_list := rs\<rparr>) = Inr st1" "proxy_inv idle st1" "s_response_pdu_list st1 = rs"
      using send_response_inv [OF drop_response_inv [OF Suc.prems Cons], of now r] by auto
    then show ?thesis using Suc.IH [of st1] Cons by simp
  qed (use Suc.prems in simp)
qed simp

section \<open>Events\<close>

text \<open>A new identifier is larger than all that were given out, until the counter wraps around.\<close>

lemma proxy_connect_inv:
  assumes inv: "proxy_inv idle st" and new: "h \<notin> set (px_sockets st)" "h \<noteq> NETLIB_INVALID_HANDLE" and more: "s_uuid_alloctor st + 1 \<noteq> 0"
  shows "\<exists>st'. proxy_serv_callback now h st = Inr st' \<and> proxy_inv idle st' \<and> s_uuid_alloctor st' = s_uuid_alloctor st + 1
    \<and> map_of (g_uuid_conn_map st') (s_uuid_alloctor st + 1) = Some (hp_next (px_heap st))
    \<and> map_of (g_proxy_conn_map st') h = Some (hp_next (px_heap st)) \<and> pending_uuids st' = pending_uuids st"
proof -
  note I = proxy_invD [OF inv]
  let ?u = "s_uuid_alloctor st + 1" and ?n = "hp_next (px_heap st)"
  let ?x = "\<lparr>pc_handle = NETLIB_INVALID_HANDLE, pc_uuid = ?u, pc_last_send_tick = now, pc_last_recv_tick = now\<rparr>"
  let ?y = "?x\<lparr>pc_handle := h\<rparr>"
  define hp where "hp = snd (new_obj ?x (px_heap st))"
  define hp' where "hp' = set_obj ?n ?y hp"
  note N = heap_ok_new [OF I(1), of ?x, folded hp_def]
  have hp': "heap_ok hp'" "deref ?n hp' = Inr ?y" "refs ?n hp' = 1"
    "\<And>b. b \<noteq> ?n \<Longrightarrow> deref b hp' = deref b (px_heap st) \<and> refs b hp' = refs b (px_heap st)"
    using N deref_live [OF N(2)] deref_new_other [of _ "px_heap st" ?x, folded hp_def]
    by (auto simp: hp'_def deref_set_obj heap_ok_set_obj)
  let ?st = "st\<lparr>s_uuid_alloctor := ?u, px_heap := hp', g_uuid_conn_map := hm_insert ?u ?n (g_uuid_conn_map st),
    g_proxy_conn_map := hm_insert h ?n (g_proxy_conn_map st), px_sockets := h # px_sockets st\<rparr>"
  have "new_obj ?x (px_heap st) = (?n, hp)" by (simp add: hp_def new_obj_def)
  then have call: "proxy_serv_callback now h st = Inr ?st"
    using N(2) more by (simp add: proxy_serv_callback_def CProxyConn_def proxy_OnConnect_def hp'_def Let_def)
  have older: "v < ?u" if "given_out st v" for v
    using that more unatSuc [of "s_uuid_alloctor st"] by (simp add: given_out_def word_le_nat_alt word_less_nat_alt add.commute)
  have pend: "pending_uuids ?st = pending_uuids st" by (simp add: pending_uuids_def task_uuids_def running_uuids_def)
  have uk: "?u \<notin> keys (g_uuid_conn_map st)" using I(6) [of ?u] older by blast
  have hk: "h \<notin> keys (g_proxy_conn_map st)" using I(4) new(1) by (auto simp: hm.keys_eq_dom proxy_registered_def)
  have findu: "map_of (hm_insert ?u ?n (g_uuid_conn_map st)) = (map_of (g_uuid_conn_map st))(?u \<mapsto> ?n)" using uk by (simp add: hm.find_insert [OF I(3)])
  have findh: "map_of (hm_insert h ?n (g_proxy_conn_map st)) = (map_of (g_proxy_conn_map st))(h \<mapsto> ?n)" using hk by (simp add: hm.find_insert [OF I(2)])
  have reg: "proxy_registered idle ?st h' b" if b: "map_of (hm_insert h ?n (g_proxy_conn_map st)) h' = Some b" for h' b
  proof (cases "h' = h")
    case True
    then have "b = ?n" using b by (simp add: findh)
    moreover have "proxy_registered idle ?st h ?n" using hp'(2,3) new(2) by (simp add: proxy_registered_def findu)
    ultimately show ?thesis using True by simp
  next
    case False
    then have r: "proxy_registered idle st h' b" using b I(4) by (simp add: findh)
    then have "b \<noteq> ?n" using deref_fresh [OF I(1)] by (auto simp: proxy_registered_def)
    moreover obtain c where "deref b (px_heap st) = Inr c" "pc_handle c = h'" "map_of (g_uuid_conn_map st) (pc_uuid c) = Some b"
      using r by (auto simp: proxy_registered_def)
    moreover have "pc_uuid c \<noteq> ?u" using uk calculation(4) by (auto simp: hm.keys_eq_dom)
    ultimately show ?thesis using r hp'(4) by (simp add: proxy_registered_def findu)
  qed
  have uuid: "\<exists>c. deref b hp' = Inr c \<and> pc_uuid c = u \<and> map_of (hm_insert h ?n (g_proxy_conn_map st)) (pc_handle c) = Some b"
    if b: "map_of (hm_insert ?u ?n (g_uuid_conn_map st)) u = Some b" for u b
  proof (cases "u = ?u")
    case True
    then have "b = ?n" using b by (simp add: findu)
    then show ?thesis using True hp'(2) by (simp add: findh)
  next
    case False
    then obtain c where c: "deref b (px_heap st) = Inr c" "pc_uuid c = u" "map_of (g_proxy_conn_map st) (pc_handle c) = Some b"
      using I(5) [of u b] b by (auto simp: findu)
    then have "b \<noteq> ?n" "pc_handle c \<noteq> h" using deref_fresh [OF I(1)] hk by (auto simp: hm.keys_eq_dom)
    then show ?thesis using c hp'(4) by (simp add: findh)
  qed
  have given: "given_out ?st v" if "v \<in> keys (hm_insert ?u ?n (g_uuid_conn_map st)) \<union> pending_uuids ?st" for v
  proof -
    have "v = ?u \<or> given_out st v" using that I(6) [of v] unfolding pend by (auto simp: hm.keys_insert [OF I(3)])
    then show ?thesis using older [of v] more by (auto simp: given_out_def)
  qed
  have "proxy_inv idle ?st"
    using I(2,3,7,8) hp'(1) reg uuid given by (simp add: proxy_inv_def hm.ok_insert)
  then show ?thesis using call pend by (simp add: findu findh)
qed

definition good_proxy_event :: "'d proxy \<Rightarrow> proxy_event \<Rightarrow> bool" where
  "good_proxy_event st e =
     (case e of PConnected h \<Rightarrow> h \<notin> set (px_sockets st) \<and> h \<noteq> NETLIB_INVALID_HANDLE \<and> s_uuid_alloctor st + 1 \<noteq> 0 | _ \<Rightarrow> True)"

lemma proxy_step_inv:
  assumes inv: "proxy_inv idle st" and good: "good_proxy_event st e"
  shows "\<exists>st'. proxy_step env now e st = Inr st' \<and> proxy_inv idle st'"
proof (cases e)
  case (PConnected h)
  then show ?thesis using proxy_connect_inv [OF inv, of h now] good by (auto simp: good_proxy_event_def)
next
  case (PReadable h fs bad)
  then show ?thesis using proxy_dispatch_inv [OF inv _ proxy_OnRead_inv, of NETLIB_MSG_READ] by simp
next
  case (PHungUp h)
  have "\<exists>st2. proxy_Close a st1 = Inr st2 \<and> proxy_inv (held a) st2 \<and> live a (px_heap st2)"
    if i: "proxy_inv (held a) st1" and m: "map_of (g_proxy_conn_map st1) h = Some a" for a and st1 :: "'a proxy"
    using proxy_Close_inv [OF i m] by (auto dest: deref_live)
  then show ?thesis using PHungUp proxy_dispatch_inv [OF inv, of NETLIB_MSG_CLOSE h proxy_Close] by simp
next
  case (PTimer t)
  note I = proxy_invD [OF inv]
  have "\<forall>(h, a)\<in>set (g_proxy_conn_map st). map_of (g_proxy_conn_map st) h = Some a" using hm.set_eq_graph [OF I(2)] by auto
  then show ?thesis using proxy_timer_loop_inv [OF inv hm.ok_distinct [OF I(2)]] PTimer by (simp add: proxy_timer_callback_def)
next
  case (PLoop n)
  then show ?thesis using SendResponsePduList_inv [OF inv, of n now] by auto
next
  case (PTake i)
  then show ?thesis using worker_take_inv [OF inv] by simp
next
  case (PRespond i)
  then show ?thesis using worker_respond_inv [OF inv] by simp
next
  case PSigterm
  note I = proxy_invD [OF inv]
  have "\<forall>(h, a)\<in>set (g_proxy_conn_map st). map_of (g_proxy_conn_map st) h = Some a" using hm.set_eq_graph [OF I(2)] by auto
  then obtain st1 where s1: "notify_all now (wire_pdu SID_OTHER CID_OTHER_STOP_RECV_PACKET 0 (pb_ser (pe_Stop env) 0)) (g_proxy_conn_map st) st = Inr st1"
    "proxy_inv idle st1" using notify_all_inv [OF inv] by blast
  have "proxy_inv idle (st1\<lparr>px_exit_timer := True\<rparr>)"
    by (rule proxy_inv_queues [OF s1(2)]) (auto simp: pending_uuids_def task_uuids_def running_uuids_def)
  then show ?thesis using PSigterm s1(1) by (simp add: sig_handler_def)
qed

inductive proxy_reachable :: "'d proxy_env \<Rightarrow> nat \<Rightarrow> 'd \<Rightarrow> 'd proxy \<Rightarrow> bool" for env n db where
  init: "proxy_reachable env n db (init_proxy_conn n db)"
| step: "proxy_reachable env n db st \<Longrightarrow> good_proxy_event st e \<Longrightarrow> proxy_step env now e st = Inr st' \<Longrightarrow> proxy_reachable env n db st'"

lemma proxy_inv_init: "0 < n \<Longrightarrow> proxy_inv idle (init_proxy_conn n db)"
  by (auto simp: proxy_inv_def init_proxy_conn_def hm_ok_def pending_uuids_def task_uuids_def running_uuids_def)

lemma proxy_reachable_inv: "proxy_reachable env n db st \<Longrightarrow> 0 < n \<Longrightarrow> proxy_inv idle st"
proof (induction rule: proxy_reachable.induct)
  case (step st e now st')
  then show ?case using proxy_step_inv [of st e env now] by auto
qed (rule proxy_inv_init)

fun proxy_run :: "'d proxy_env \<Rightarrow> (u64 \<times> proxy_event) list \<Rightarrow> 'd proxy_op" where
  "proxy_run env [] st = Inr st"
| "proxy_run env (e # es) st = bindR (proxy_step env (fst e) (snd e) st) (proxy_run env es)"

fun good_proxy_run :: "'d proxy_env \<Rightarrow> (u64 \<times> proxy_event) list \<Rightarrow> 'd proxy \<Rightarrow> bool" where
  "good_proxy_run env [] st \<longleftrightarrow> True"
| "good_proxy_run env (e # es) st \<longleftrightarrow> good_proxy_event st (snd e) \<and>
     (case proxy_step env (fst e) (snd e) st of Inl _ \<Rightarrow> False | Inr st' \<Rightarrow> good_proxy_run env es st')"

lemma good_proxy_run_reachable:
  "good_proxy_run env es st \<Longrightarrow> proxy_reachable env n db st \<Longrightarrow> proxy_run env es st = Inr st' \<Longrightarrow> proxy_reachable env n db st'"
proof (induction es arbitrary: st)
  case (Cons e es)
  then obtain st1 where "proxy_step env (fst e) (snd e) st = Inr st1" by (auto split: sum.splits)
  then show ?case using Cons proxy_reachable.step [OF Cons.prems(2)] by simp blast
qed simp

end
