(* ===== verification/ProxyProps.thy ===== *)
theory ProxyProps
  imports ProxyInv
begin

text \<open>
  What the database proxy promises: no event fails, a response is sent to the connection that its request came from or dropped, and a connection that reuses a socket never
  gets an answer meant for the one before.
\<close>

section \<open>Where responses go\<close>

definition handle_of :: "'d proxy \<Rightarrow> u32 \<Rightarrow> u32 option" where
  "handle_of st u =
     (case map_of (g_uuid_conn_map st) u of
        None \<Rightarrow> None
      | Some a \<Rightarrow> (case deref a (px_heap st) of Inl _ \<Rightarrow> None | Inr c \<Rightarrow> Some (pc_handle c)))"

text \<open>What a list of responses amounts to, where \<open>m\<close> gives the socket of each open connection.\<close>

fun answers :: "(u32 \<Rightarrow> u32 option) \<Rightarrow> response_pdu list \<Rightarrow> net_out list" where
  "answers m [] = []"
| "answers m ((u, Some d) # rs) = (case m u of None \<Rightarrow> answers m rs | Some h \<Rightarrow> NetSend h d # answers m rs)"
| "answers m ((u, None) # rs) = (case m u of None \<Rightarrow> answers m rs | Some h \<Rightarrow> NetClose h # answers (m(u := None)) rs)"

lemma handle_of_frame:
  assumes "proxy_frame st st'"
  shows "handle_of st' = handle_of st"
proof
  fix u
  have "map_sum id (\<lambda>c. (pc_handle c, pc_uuid c)) (deref a (px_heap st')) = map_sum id (\<lambda>c. (pc_handle c, pc_uuid c)) (deref a (px_heap st))" for a
    using assms by (simp add: proxy_frame_def)
  then have "(case deref a (px_heap st') of Inl _ \<Rightarrow> None | Inr c \<Rightarrow> Some (pc_handle c)) = (case deref a (px_heap st) of Inl _ \<Rightarrow> None | Inr c \<Rightarrow> Some (pc_handle c))" for a
    by (elim meta_allE [of _ a]) (cases "deref a (px_heap st')"; cases "deref a (px_heap st)"; simp)
  then show "handle_of st' u = handle_of st u" using assms by (simp add: handle_of_def proxy_frame_def split: option.split)
qed

lemma handle_of_drop [simp]: "handle_of (st\<lparr>s_response_pdu_list := rs\<rparr>) = handle_of st"
  by (simp add: handle_of_def fun_eq_iff split: option.split)

lemma send_response_trace:
  assumes inv: "proxy_inv idle st"
  shows "\<exists>st'. send_response now r st = Inr st' \<and> proxy_inv idle st' \<and> s_response_pdu_list st' = s_response_pdu_list st
    \<and> px_trace st' @ answers (handle_of st') rs = px_trace st @ answers (handle_of st) (r # rs)"
proof -
  obtain st' where s: "send_response now r st = Inr st'" "proxy_inv idle st'" "s_response_pdu_list st' = s_response_pdu_list st" using send_response_inv [OF inv] by blast
  obtain u p where r: "r = (u, p)" by (cases r)
  have "px_trace st' @ answers (handle_of st') rs = px_trace st @ answers (handle_of st) (r # rs)"
  proof (cases "map_of (g_uuid_conn_map st) u")
    case None
    then show ?thesis using s r by (cases p) (auto simp: send_response_def get_proxy_conn_by_uuid_def handle_of_def)
  next
    case (Some a)
    then obtain c where c: "deref a (px_heap st) = Inr c" "pc_uuid c = u" "map_of (g_proxy_conn_map st) (pc_handle c) = Some a"
      using proxy_invD(5) [OF inv] by blast
    have h: "handle_of st u = Some (pc_handle c)" using Some c(1) by (simp add: handle_of_def)
    show ?thesis
    proof (cases p)
      case None
      obtain st1 x where x: "proxy_Close a st = Inr st1" "deref a (px_heap st) = Inr x" "g_uuid_conn_map st1 = map_erase (pc_uuid x) (g_uuid_conn_map st)"
        "px_trace st1 = px_trace st @ [NetClose (pc_handle c)]" "deref a (px_heap st1) = Inl MemFault"
        using proxy_Close_inv [OF inv c(3)] by auto
      have "st1 = st'" using s(1) r None Some x(1) by (simp add: send_response_def get_proxy_conn_by_uuid_def)
      moreover have "handle_of st1 v = (if v = u then None else handle_of st v)" for v
      proof -
        have "deref b (px_heap st1) = deref b (px_heap st)" if "b \<noteq> a" for b
          using x(1) that c(1) proxy_invD(1) [OF inv] release_ref_spec [OF proxy_invD(1) [OF inv] deref_live [OF c(1)]]
          by (auto simp: proxy_Close_def Let_def bindR_Inr_iff split: if_splits)
        moreover have "map_of (g_uuid_conn_map st) v \<noteq> Some a" if "v \<noteq> u" using proxy_invD(5) [OF inv, of v a] c that by auto
        ultimately show ?thesis using x(2,3) c by (auto simp: handle_of_def map_of_map_erase split: option.splits)
      qed
      then have "handle_of st1 = (handle_of st)(u := None)" by (auto simp: fun_eq_iff)
      ultimately show ?thesis using h r None x(4) by simp
    next
      case (Some d)
      obtain st1 where x: "proxy_SendPdu now a d st = Inr st1" "proxy_frame st st1" "px_trace st1 = px_trace st @ [NetSend (pc_handle c) d]"
        using proxy_SendPdu_spec [OF inv c(1)] by blast
      have "st1 = st'" using s(1) r Some \<open>map_of _ u = Some a\<close> x(1) by (simp add: send_response_def get_proxy_conn_by_uuid_def)
      then show ?thesis using h r Some x(3) handle_of_frame [OF x(2)] by simp
    qed
  qed
  then show ?thesis using s by blast
qed

lemma SendResponsePduList_trace:
  "proxy_inv idle st \<Longrightarrow> \<exists>st'. SendResponsePduList n now st = Inr st' \<and> s_response_pdu_list st' = drop n (s_response_pdu_list st)
    \<and> px_trace st' = px_trace st @ answers (handle_of st) (take n (s_response_pdu_list st))"
proof (induction n arbitrary: st)
  case (Suc n)
  show ?case
  proof (cases "s_response_pdu_list st")
    case (Cons r rs)
    let ?st = "st\<lparr>s_response_pdu_list := rs\<rparr>"
    obtain st1 where s1: "send_response now r ?st = Inr st1" "proxy_inv idle st1" "s_response_pdu_list st1 = rs"
      "px_trace st1 @ answers (handle_of st1) (take n rs) = px_trace st @ answers (handle_of st) (r # take n rs)"
      using send_response_trace [OF drop_response_inv [OF Suc.prems Cons], of now r "take n rs"] by auto
    then show ?thesis using Suc.IH [of st1] Cons by auto
  qed (use Suc.prems in simp)
qed simp

section \<open>Properties\<close>

definition demo_proxy_env :: "unit proxy_env" where
  "demo_proxy_env = \<lparr>pe_handlers = (\<lambda>h pdu db. ([pdu], db)), pe_HeartBeat = \<lparr>pb_ser = (\<lambda>_. []), pb_par = (\<lambda>_. (True, ()))\<rparr>,
     pe_Stop = \<lparr>pb_ser = (\<lambda>_. [0]), pb_par = (\<lambda>_. (True, 0))\<rparr>\<rparr>"

definition demo_request :: "nat \<Rightarrow> 8 word \<Rightarrow> proxy_frame" where
  "demo_request draw b = (draw, \<lparr>h_length = 17, h_version = 1, h_flag = 0, h_service_id = 3, h_command_id = CID_MSG_DATA, h_seq_num = 1, h_reversed = 0\<rparr>, [b])"

text \<open>Two workers; two requests of a connection wait in their queues, and the second worker answers first.\<close>

definition demo_proxy_events :: "(u64 \<times> proxy_event) list" where
  "demo_proxy_events = [(1, PConnected 5), (2, PReadable 5 [demo_request 0 7, demo_request 1 8] False), (3, PTake 1), (3, PRespond 1), (4, PTake 0), (4, PRespond 0)]"

lemma demo_proxy_good: "good_proxy_run demo_proxy_env demo_proxy_events (init_proxy_conn 2 ())"
  by code_simp

lemma good_proxy_run_returns: "good_proxy_run env es st \<Longrightarrow> \<exists>st'. proxy_run env es st = Inr st'"
  by (induction es arbitrary: st) (auto split: sum.splits)

definition demo_proxy :: "unit proxy" where
  "demo_proxy = (case proxy_run demo_proxy_env demo_proxy_events (init_proxy_conn 2 ()) of Inl _ \<Rightarrow> init_proxy_conn 2 () | Inr st \<Rightarrow> st)"

text \<open>Both responses wait, the second request's first.\<close>

lemma demo_proxy_state: "s_response_pdu_list demo_proxy = [(1, Some [8]), (1, Some [7])] \<and> px_trace demo_proxy = [] \<and> handle_of demo_proxy 1 = Some 5
    \<and> good_proxy_event demo_proxy (PConnected 6)"
  by code_simp

lemma demo_proxy_reachable: "proxy_reachable demo_proxy_env 2 () demo_proxy"
proof -
  obtain st where "proxy_run demo_proxy_env demo_proxy_events (init_proxy_conn 2 ()) = Inr st"
    using good_proxy_run_returns [OF demo_proxy_good] by blast
  then show ?thesis using good_proxy_run_reachable [OF demo_proxy_good proxy_reachable.init] by (simp add: demo_proxy_def)
qed

text \<open>
  C11: Safety of the database proxy. In every state that it reaches with at least one worker, whatever the workers do between the events of the main thread, every event
  is processed without touching a deleted connection or a missing worker, and its two maps go on to name the same connections. The system gives no number of an open socket
  to a new one, and the identifiers have not wrapped around, which takes \<open>2 ^ 32\<close> connections.
\<close>

theorem proxy_server_safe:
  assumes "proxy_reachable env n db st" "0 < n" "good_proxy_event st e"
  shows "\<exists>st'. proxy_step env now e st = Inr st'
    \<and> (\<forall>u a. map_of (g_uuid_conn_map st') u = Some a \<longrightarrow>
         (\<exists>c. deref a (px_heap st') = Inr c \<and> pc_uuid c = u \<and> map_of (g_proxy_conn_map st') (pc_handle c) = Some a))
    \<and> (\<forall>h a. map_of (g_proxy_conn_map st') h = Some a \<longrightarrow>
         (\<exists>c. deref a (px_heap st') = Inr c \<and> pc_handle c = h \<and> map_of (g_uuid_conn_map st') (pc_uuid c) = Some a))"
proof -
  obtain st' where st': "proxy_step env now e st = Inr st'" "proxy_inv idle st'"
    using proxy_step_inv [OF proxy_reachable_inv [OF assms(1,2)] assms(3)] by blast
  then show ?thesis using proxy_invD(5) [OF st'(2)] by (intro exI [of _ st']) (auto elim: proxy_conn_at [OF st'(2)])
qed

theorem proxy_server_safe_witness: "\<exists>st'. proxy_step demo_proxy_env 5 (PHungUp 5) demo_proxy = Inr st'"
  using proxy_server_safe [OF demo_proxy_reachable, of "PHungUp 5" 5] by (auto simp: good_proxy_event_def)

text \<open>
  C12: Responses. A round of the loop sends the first \<open>n\<close> responses in the order they were added, each to the socket of the connection whose identifier it carries if
  that connection is still open, and to nobody otherwise; a null response closes its connection, and later responses for it are dropped.
\<close>

theorem responses_reach_their_connection:
  assumes "proxy_reachable env w db st" "0 < w"
  shows "\<exists>st'. proxy_step env now (PLoop n) st = Inr st' \<and> s_response_pdu_list st' = drop n (s_response_pdu_list st)
    \<and> px_trace st' = px_trace st @ answers (handle_of st) (take n (s_response_pdu_list st))"
  using SendResponsePduList_trace [OF proxy_reachable_inv [OF assms]] by simp

theorem responses_reach_their_connection_witness:
  "\<exists>st'. proxy_step demo_proxy_env 5 (PLoop 2) demo_proxy = Inr st' \<and> px_trace st' = [NetSend 5 [8], NetSend 5 [7]]"
proof -
  have "px_trace demo_proxy @ answers (handle_of demo_proxy) (take 2 (s_response_pdu_list demo_proxy)) = [NetSend 5 [8], NetSend 5 [7]]"
    by (simp add: demo_proxy_state)
  then show ?thesis using responses_reach_their_connection [OF demo_proxy_reachable, of 5 2] by auto
qed

text \<open>
  C13: No crosstalk. A new connection, also one on a socket number that was used before, has an identifier that no open connection, queued task, running task or unsent
  response has, until \<open>2 ^ 32\<close> connections have been made: no answer for an earlier connection is ever sent to it.
\<close>

theorem proxy_no_crosstalk:
  assumes "proxy_reachable env n db st" "0 < n" "good_proxy_event st (PConnected h)"
  shows "\<exists>st' a c. proxy_step env now (PConnected h) st = Inr st' \<and> map_of (g_proxy_conn_map st') h = Some a \<and> deref a (px_heap st') = Inr c
    \<and> pc_uuid c \<notin> keys (g_uuid_conn_map st) \<and> pc_uuid c \<notin> pending_uuids st \<and> pending_uuids st' = pending_uuids st"
proof -
  note inv = proxy_reachable_inv [OF assms(1,2)]
  let ?u = "s_uuid_alloctor st + 1"
  have more: "?u \<noteq> 0" using assms(3) by (simp add: good_proxy_event_def)
  obtain st' a where st': "proxy_serv_callback now h st = Inr st'" "proxy_inv idle st'" "map_of (g_uuid_conn_map st') ?u = Some a"
    "map_of (g_proxy_conn_map st') h = Some a" "pending_uuids st' = pending_uuids st"
    using proxy_connect_inv [OF inv, of h now] assms(3) by (auto simp: good_proxy_event_def)
  obtain c where c: "deref a (px_heap st') = Inr c" "pc_uuid c = ?u" using proxy_invD(5) [OF st'(2,3)] by blast
  have "\<not> given_out st ?u" using more unatSuc [of "s_uuid_alloctor st"] by (simp add: given_out_def word_le_nat_alt add.commute)
  then have "?u \<notin> keys (g_uuid_conn_map st)" "?u \<notin> pending_uuids st" using proxy_invD(6) [OF inv] by blast+
  then show ?thesis using st' c by auto
qed

theorem proxy_no_crosstalk_witness:
  "\<exists>st' a c. proxy_step demo_proxy_env 5 (PConnected 6) demo_proxy = Inr st' \<and> map_of (g_proxy_conn_map st') 6 = Some a \<and> deref a (px_heap st') = Inr c
    \<and> pc_uuid c \<notin> pending_uuids demo_proxy"
  using proxy_no_crosstalk [OF demo_proxy_reachable, of 6 5] demo_proxy_state by auto

text \<open>The order of the answers is not that of the requests: requests of one connection go to different workers.\<close>

lemma answers_out_of_order:
  "demo_proxy_events ! 1 = (2, PReadable 5 [demo_request 0 7, demo_request 1 8] False) \<and> s_response_pdu_list demo_proxy = [(1, Some [8]), (1, Some [7])]"
  by (simp add: demo_proxy_state demo_proxy_events_def)

text \<open>After the counter has wrapped around, identifiers are given out a second time while the first connection may be open.\<close>

lemma identifiers_wrap_around:
  assumes "s_uuid_alloctor st = - 1"
  shows "s_uuid_alloctor (snd (CProxyConn now st)) = 1"
  using assms by (simp add: CProxyConn_def Let_def split: prod.split)

text \<open>Without a worker the first request divides by zero.\<close>

lemma no_worker_faults: "px_task_lists st = [] \<Longrightarrow> pool_AddTask draw t st = Inl MemFault"
  by (simp add: pool_AddTask_def)

end
