(* ===== verification/Md5.thy ===== *)
theory Md5
  imports ByteStream
begin

text \<open>
  The two implementations of MD5: \<open>md5\<close> of \<open>base/TokenValidator.cpp\<close>, which pads the message and runs one loop per block, and the one of the client library
  (\<open>libsecurity/src/md5.cpp\<close>), which takes the message in pieces and has its 64 steps written out.
\<close>

section \<open>The server\<close>

definition md5_k :: "u32 list" where
  "md5_k =
    [0xD76AA478, 0xE8C7B756, 0x242070DB, 0xC1BDCEEE, 0xF57C0FAF, 0x4787C62A, 0xA8304613, 0xFD469501,
     0x698098D8, 0x8B44F7AF, 0xFFFF5BB1, 0x895CD7BE, 0x6B901122, 0xFD987193, 0xA679438E, 0x49B40821,
     0xF61E2562, 0xC040B340, 0x265E5A51, 0xE9B6C7AA, 0xD62F105D, 0x02441453, 0xD8A1E681, 0xE7D3FBC8,
     0x21E1CDE6, 0xC33707D6, 0xF4D50D87, 0x455A14ED, 0xA9E3E905, 0xFCEFA3F8, 0x676F02D9, 0x8D2A4C8A,
     0xFFFA3942, 0x8771F681, 0x6D9D6122, 0xFDE5380C, 0xA4BEEA44, 0x4BDECFA9, 0xF6BB4B60, 0xBEBFBC70,
     0x289B7EC6, 0xEAA127FA, 0xD4EF3085, 0x04881D05, 0xD9D4D039, 0xE6DB99E5, 0x1FA27CF8, 0xC4AC5665,
     0xF4292244, 0x432AFF97, 0xAB9423A7, 0xFC93A039, 0x655B59C3, 0x8F0CCC92, 0xFFEFF47D, 0x85845DD1,
     0x6FA87E4F, 0xFE2CE6E0, 0xA3014314, 0x4E0811A1, 0xF7537E82, 0xBD3AF235, 0x2AD7D2BB, 0xEB86D391]"

definition md5_r :: "nat list" where
  "md5_r =
    [7, 12, 17, 22, 7, 12, 17, 22, 7, 12, 17, 22, 7, 12, 17, 22,
     5,  9, 14, 20, 5,  9, 14, 20, 5,  9, 14, 20, 5,  9, 14, 20,
     4, 11, 16, 23, 4, 11, 16, 23, 4, 11, 16, 23, 4, 11, 16, 23,
     6, 10, 15, 21, 6, 10, 15, 21, 6, 10, 15, 21, 6, 10, 15, 21]"

definition LEFTROTATE :: "u32 \<Rightarrow> nat \<Rightarrow> u32" where
  "LEFTROTATE x c = push_bit c x OR drop_bit (32 - c) x"

definition to_bytes :: "u32 \<Rightarrow> bytes" where
  "to_bytes v = [ucast v, ucast (drop_bit 8 v), ucast (drop_bit 16 v), ucast (drop_bit 24 v)]"

definition to_int32 :: "bytes \<Rightarrow> u32" where
  "to_int32 b = ucast (b ! 0) OR push_bit 8 (ucast (b ! 1)) OR push_bit 16 (ucast (b ! 2)) OR push_bit 24 (ucast (b ! 3))"

text \<open>One step of the main loop, where \<open>w\<close> are the words of the block.\<close>

fun md5_main_step :: "u32 list \<Rightarrow> nat \<Rightarrow> u32 \<times> u32 \<times> u32 \<times> u32 \<Rightarrow> u32 \<times> u32 \<times> u32 \<times> u32" where
  "md5_main_step w i (a, b, c, d) =
     (let (f, g) =
        (if i < 16 then ((b AND c) OR (NOT b AND d), i)
         else if i < 32 then ((d AND b) OR (NOT d AND c), (5 * i + 1) mod 16)
         else if i < 48 then (b XOR c XOR d, (3 * i + 5) mod 16)
         else (c XOR (b OR NOT d), (7 * i) mod 16))
      in (d, b + LEFTROTATE (a + f + md5_k ! i + w ! g) (md5_r ! i), b, c))"

definition md5_chunk :: "bytes \<Rightarrow> u32 \<times> u32 \<times> u32 \<times> u32 \<Rightarrow> u32 \<times> u32 \<times> u32 \<times> u32" where
  "md5_chunk chunk h =
     (let w = map (\<lambda>i. to_int32 (drop (4 * i) chunk)) [0..<16];
          (h0, h1, h2, h3) = h;
          (a, b, c, d) = fold (md5_main_step w) [0..<64] h
      in (h0 + a, h1 + b, h2 + c, h3 + d))"

text \<open>The loops that find the padded length and that go through the blocks.\<close>

function md5_new_len :: "nat \<Rightarrow> nat" where
  "md5_new_len n = (if n mod 64 = 56 then n else md5_new_len (n + 1))"
  by auto

function md5_offsets :: "bytes \<Rightarrow> nat \<Rightarrow> nat \<Rightarrow> u32 \<times> u32 \<times> u32 \<times> u32 \<Rightarrow> u32 \<times> u32 \<times> u32 \<times> u32" where
  "md5_offsets msg new_len offset h = (if offset < new_len then md5_offsets msg new_len (offset + 64) (md5_chunk (drop offset msg) h) else h)"
  by auto
termination by (relation "measure (\<lambda>(_, n, k, _). n - k)") auto

text \<open>The distance to the next length that is 56 modulo 64.\<close>

termination md5_new_len
proof (relation "measure (\<lambda>n. (120 - n mod 64) mod 64)")
  fix n :: nat
  define r where "r = n mod 64"
  assume "n mod 64 \<noteq> 56"
  then have r: "r < 64" "r \<noteq> 56" by (simp_all add: r_def)
  have step: "(n + 1) mod 64 = (if r = 63 then 0 else r + 1)" by (simp add: mod_Suc r_def)
  have dist: "(120 - x) mod 64 = (if x \<le> 56 then 56 - x else 120 - x)" if "x < 64" for x :: nat
    using that by (cases "x \<le> 56") (simp_all add: mod_if)
  show "(n + 1, n) \<in> measure (\<lambda>n. (120 - n mod 64) mod 64)"
    using r unfolding in_measure step r_def [symmetric] by (auto simp: dist split: if_splits)
qed simp

declare md5_new_len.simps [simp del] md5_offsets.simps [simp del]

definition md5_init :: "u32 \<times> u32 \<times> u32 \<times> u32" where
  "md5_init = (0x67452301, 0xEFCDAB89, 0x98BADCFE, 0x10325476)"

definition md5 :: "bytes \<Rightarrow> bytes" where
  "md5 initial_msg =
     (let initial_len = of_nat (length initial_msg) :: u64;
          new_len = md5_new_len (length initial_msg + 1);
          msg = initial_msg @ [0x80] @ replicate (new_len - (length initial_msg + 1)) 0
                @ to_bytes (ucast (initial_len * 8)) @ to_bytes (ucast (drop_bit 29 initial_len));
          (h0, h1, h2, h3) = md5_offsets msg new_len 0 md5_init
      in to_bytes h0 @ to_bytes h1 @ to_bytes h2 @ to_bytes h3)"

section \<open>The client library\<close>

definition md5_F :: "u32 \<Rightarrow> u32 \<Rightarrow> u32 \<Rightarrow> u32" where "md5_F x y z = (x AND y) OR (NOT x AND z)"
definition md5_G :: "u32 \<Rightarrow> u32 \<Rightarrow> u32 \<Rightarrow> u32" where "md5_G x y z = (x AND z) OR (y AND NOT z)"
definition md5_H :: "u32 \<Rightarrow> u32 \<Rightarrow> u32 \<Rightarrow> u32" where "md5_H x y z = x XOR y XOR z"
definition md5_I :: "u32 \<Rightarrow> u32 \<Rightarrow> u32 \<Rightarrow> u32" where "md5_I x y z = y XOR (x OR NOT z)"

definition ROTATE_LEFT :: "u32 \<Rightarrow> nat \<Rightarrow> u32" where
  "ROTATE_LEFT x n = push_bit n x OR drop_bit (32 - n) x"

text \<open>The macros: which function a step uses, and what it does to the variable that it names first; the four variables are a list.\<close>

datatype md5_macro = FF | GG | HH | II

fun macro_fun :: "md5_macro \<Rightarrow> u32 \<Rightarrow> u32 \<Rightarrow> u32 \<Rightarrow> u32" where
  "macro_fun FF = md5_F"
| "macro_fun GG = md5_G"
| "macro_fun HH = md5_H"
| "macro_fun II = md5_I"

type_synonym md5_step = "md5_macro \<times> (nat \<times> nat \<times> nat \<times> nat) \<times> nat \<times> nat \<times> u32"

fun macro_step :: "u32 list \<Rightarrow> md5_step \<Rightarrow> u32 list \<Rightarrow> u32 list" where
  "macro_step x (m, (a, b, c, d), k, s, ac) v =
     v[a := ROTATE_LEFT (v ! a + (macro_fun m (v ! b) (v ! c) (v ! d) + x ! k + ac)) s + v ! b]"

definition md5_steps :: "md5_step list" where
  "md5_steps =
    [(FF, (0, 1, 2, 3), 0, 7, 0xD76AA478), (FF, (3, 0, 1, 2), 1, 12, 0xE8C7B756),
     (FF, (2, 3, 0, 1), 2, 17, 0x242070DB), (FF, (1, 2, 3, 0), 3, 22, 0xC1BDCEEE),
     (FF, (0, 1, 2, 3), 4, 7, 0xF57C0FAF), (FF, (3, 0, 1, 2), 5, 12, 0x4787C62A),
     (FF, (2, 3, 0, 1), 6, 17, 0xA8304613), (FF, (1, 2, 3, 0), 7, 22, 0xFD469501),
     (FF, (0, 1, 2, 3), 8, 7, 0x698098D8), (FF, (3, 0, 1, 2), 9, 12, 0x8B44F7AF),
     (FF, (2, 3, 0, 1), 10, 17, 0xFFFF5BB1), (FF, (1, 2, 3, 0), 11, 22, 0x895CD7BE),
     (FF, (0, 1, 2, 3), 12, 7, 0x6B901122), (FF, (3, 0, 1, 2), 13, 12, 0xFD987193),
     (FF, (2, 3, 0, 1), 14, 17, 0xA679438E), (FF, (1, 2, 3, 0), 15, 22, 0x49B40821),
     (GG, (0, 1, 2, 3), 1, 5, 0xF61E2562), (GG, (3, 0, 1, 2), 6, 9, 0xC040B340),
     (GG, (2, 3, 0, 1), 11, 14, 0x265E5A51), (GG, (1, 2, 3, 0), 0, 20, 0xE9B6C7AA),
     (GG, (0, 1, 2, 3), 5, 5, 0xD62F105D), (GG, (3, 0, 1, 2), 10, 9, 0x2441453),
     (GG, (2, 3, 0, 1), 15, 14, 0xD8A1E681), (GG, (1, 2, 3, 0), 4, 20, 0xE7D3FBC8),
     (GG, (0, 1, 2, 3), 9, 5, 0x21E1CDE6), (GG, (3, 0, 1, 2), 14, 9, 0xC33707D6),
     (GG, (2, 3, 0, 1), 3, 14, 0xF4D50D87), (GG, (1, 2, 3, 0), 8, 20, 0x455A14ED),
     (GG, (0, 1, 2, 3), 13, 5, 0xA9E3E905), (GG, (3, 0, 1, 2), 2, 9, 0xFCEFA3F8),
     (GG, (2, 3, 0, 1), 7, 14, 0x676F02D9), (GG, (1, 2, 3, 0), 12, 20, 0x8D2A4C8A),
     (HH, (0, 1, 2, 3), 5, 4, 0xFFFA3942), (HH, (3, 0, 1, 2), 8, 11, 0x8771F681),
     (HH, (2, 3, 0, 1), 11, 16, 0x6D9D6122), (HH, (1, 2, 3, 0), 14, 23, 0xFDE5380C),
     (HH, (0, 1, 2, 3), 1, 4, 0xA4BEEA44), (HH, (3, 0, 1, 2), 4, 11, 0x4BDECFA9),
     (HH, (2, 3, 0, 1), 7, 16, 0xF6BB4B60), (HH, (1, 2, 3, 0), 10, 23, 0xBEBFBC70),
     (HH, (0, 1, 2, 3), 13, 4, 0x289B7EC6), (HH, (3, 0, 1, 2), 0, 11, 0xEAA127FA),
     (HH, (2, 3, 0, 1), 3, 16, 0xD4EF3085), (HH, (1, 2, 3, 0), 6, 23, 0x4881D05),
     (HH, (0, 1, 2, 3), 9, 4, 0xD9D4D039), (HH, (3, 0, 1, 2), 12, 11, 0xE6DB99E5),
     (HH, (2, 3, 0, 1), 15, 16, 0x1FA27CF8), (HH, (1, 2, 3, 0), 2, 23, 0xC4AC5665),
     (II, (0, 1, 2, 3), 0, 6, 0xF4292244), (II, (3, 0, 1, 2), 7, 10, 0x432AFF97),
     (II, (2, 3, 0, 1), 14, 15, 0xAB9423A7), (II, (1, 2, 3, 0), 5, 21, 0xFC93A039),
     (II, (0, 1, 2, 3), 12, 6, 0x655B59C3), (II, (3, 0, 1, 2), 3, 10, 0x8F0CCC92),
     (II, (2, 3, 0, 1), 10, 15, 0xFFEFF47D), (II, (1, 2, 3, 0), 1, 21, 0x85845DD1),
     (II, (0, 1, 2, 3), 8, 6, 0x6FA87E4F), (II, (3, 0, 1, 2), 15, 10, 0xFE2CE6E0),
     (II, (2, 3, 0, 1), 6, 15, 0xA3014314), (II, (1, 2, 3, 0), 13, 21, 0x4E0811A1),
     (II, (0, 1, 2, 3), 4, 6, 0xF7537E82), (II, (3, 0, 1, 2), 11, 10, 0xBD3AF235),
     (II, (2, 3, 0, 1), 2, 15, 0x2AD7D2BB), (II, (1, 2, 3, 0), 9, 21, 0xEB86D391)]"

definition encode_word :: "u32 \<Rightarrow> bytes" where
  "encode_word w = [ucast (w AND 0xFF), ucast (drop_bit 8 w AND 0xFF), ucast (drop_bit 16 w AND 0xFF), ucast (drop_bit 24 w AND 0xFF)]"

definition MD5_Encode :: "u32 list \<Rightarrow> bytes" where
  "MD5_Encode input = concat (map encode_word input)"

definition MD5_Decode :: "bytes \<Rightarrow> u32 list" where
  "MD5_Decode input =
     map (\<lambda>i. ucast (input ! (4 * i)) OR push_bit 8 (ucast (input ! (4 * i + 1))) OR push_bit 16 (ucast (input ! (4 * i + 2))) OR push_bit 24 (ucast (input ! (4 * i + 3))))
       [0..<16]"

definition MD5_Transform :: "u32 list \<Rightarrow> bytes \<Rightarrow> u32 list" where
  "MD5_Transform state block =
     (let v = fold (macro_step (MD5_Decode block)) md5_steps state
      in [state ! 0 + v ! 0, state ! 1 + v ! 1, state ! 2 + v ! 2, state ! 3 + v ! 3])"

record MD5Context =
  md_state :: "u32 list"
  md_count :: "u32 \<times> u32"
  md_buffer :: bytes

definition PADDING :: bytes where
  "PADDING = 0x80 # replicate 63 0"

text \<open>\<open>junk\<close> is what the buffer holds before it is written.\<close>

definition MD5_Init :: "bytes \<Rightarrow> MD5Context" where
  "MD5_Init junk = \<lparr>md_state = [0x67452301, 0xEFCDAB89, 0x98BADCFE, 0x10325476], md_count = (0, 0), md_buffer = junk\<rparr>"

text \<open>The loop over the whole blocks of the input; the index is a 32-bit number, and a block that is not there cannot be read.\<close>

function update_loop :: "bytes \<Rightarrow> nat \<Rightarrow> u32 list \<Rightarrow> (nat \<times> u32 list) res" where
  "update_loop buf i st =
     (if (of_nat i + 63 :: u32) < of_nat (length buf)
      then if i + 64 \<le> length buf then update_loop buf (i + 64) (MD5_Transform st (take 64 (drop i buf))) else Inl MemFault
      else Inr (i, st))"
  by auto
termination by (relation "measure (\<lambda>(buf, i, _). length buf - i)") auto

declare update_loop.simps [simp del]

definition MD5_Update :: "MD5Context \<Rightarrow> bytes \<Rightarrow> MD5Context res" where
  "MD5_Update ctx buf =
     (let len = of_nat (length buf) :: u32;
          index = unat (drop_bit 3 (fst (md_count ctx)) AND 0x3F);
          count0 = fst (md_count ctx) + push_bit 3 len;
          count1 = (if count0 < push_bit 3 len then snd (md_count ctx) + 1 else snd (md_count ctx)) + drop_bit 29 len;
          partLen = 64 - index
      in if partLen \<le> unat len
         then bindR (slice buf 0 partLen) (\<lambda>p.
              bindR (memcpy_at (md_buffer ctx) index p) (\<lambda>buffer.
              bindR (update_loop buf partLen (MD5_Transform (md_state ctx) buffer)) (\<lambda>(i, state).
              bindR (slice buf i (length buf - i)) (\<lambda>rest.
              bindR (memcpy_at buffer 0 rest) (\<lambda>buffer1.
                Inr \<lparr>md_state = state, md_count = (count0, count1), md_buffer = buffer1\<rparr>)))))
         else bindR (memcpy_at (md_buffer ctx) index buf) (\<lambda>buffer.
                Inr \<lparr>md_state = md_state ctx, md_count = (count0, count1), md_buffer = buffer\<rparr>))"

definition MD5_Final :: "MD5Context \<Rightarrow> bytes res" where
  "MD5_Final ctx =
     (let bits = MD5_Encode [fst (md_count ctx), snd (md_count ctx)];
          index = unat (drop_bit 3 (fst (md_count ctx)) AND 0x3F);
          padLen = (if index < 56 then 56 - index else 120 - index)
      in bindR (slice PADDING 0 padLen) (\<lambda>pad.
         bindR (MD5_Update ctx pad) (\<lambda>ctx1.
         bindR (MD5_Update ctx1 bits) (\<lambda>ctx2. Inr (MD5_Encode (md_state ctx2))))))"

definition hex_byte :: "byte \<Rightarrow> string" where
  "hex_byte b = [hex_digit (unat (drop_bit 4 (b AND 0xF0))), hex_digit (unat (b AND 0x0F))]"

definition MD5_Calculate :: "bytes \<Rightarrow> bytes \<Rightarrow> string res" where
  "MD5_Calculate junk pContent =
     bindR (MD5_Update (MD5_Init junk) pContent) (\<lambda>ctx. bindR (MD5_Final ctx) (\<lambda>digest. Inr (concat (map hex_byte digest))))"

end
