(* ===== verification/Md5Props.thy ===== *)
theory Md5Props
  imports Md5
begin

text \<open>
  Both implementations of MD5 compute the same function: the 64 steps that are written out are the loop of the other one, and taking a message in pieces is taking
  it at once.
\<close>

section \<open>One block\<close>

text \<open>Which variables a step names, and the condition under which a step that is written out is step \<open>i\<close> of the loop.\<close>

definition step_vars :: "nat \<Rightarrow> nat \<times> nat \<times> nat \<times> nat" where
  "step_vars i = (if i mod 4 = 0 then (0, 1, 2, 3) else if i mod 4 = 1 then (3, 0, 1, 2) else if i mod 4 = 2 then (2, 3, 0, 1) else (1, 2, 3, 0))"

fun is_step :: "nat \<Rightarrow> md5_step \<Rightarrow> bool" where
  "is_step i (m, vars, k, s, ac) \<longleftrightarrow>
     vars = step_vars i \<and> s = md5_r ! i \<and> ac = md5_k ! i
     \<and> (m, k) = (if i < 16 then (FF, i) else if i < 32 then (GG, (5 * i + 1) mod 16) else if i < 48 then (HH, (3 * i + 5) mod 16) else (II, (7 * i) mod 16))"

lemma all_steps: "length md5_steps = 64" "list_all (\<lambda>(i, s). is_step i s) (zip [0..<64] md5_steps)"
  by code_simp+

lemma is_step_nth: "i < 64 \<Longrightarrow> is_step i (md5_steps ! i)"
  using all_steps by (auto simp: list_all_length)

fun view :: "nat \<times> nat \<times> nat \<times> nat \<Rightarrow> u32 list \<Rightarrow> u32 \<times> u32 \<times> u32 \<times> u32" where
  "view (a, b, c, d) v = (v ! a, v ! b, v ! c, v ! d)"

lemma length_macro_step [simp]: "length (macro_step x s v) = length v"
  by (cases "(x, s, v)" rule: macro_step.cases) simp

lemma step_vars_Suc: "step_vars (Suc i) = (let (a, b, c, d) = step_vars i in (d, a, b, c))"
proof -
  have "i mod 4 < 4" by simp
  then have "i mod 4 = 0 \<or> i mod 4 = 1 \<or> i mod 4 = 2 \<or> i mod 4 = 3" by linarith
  then show ?thesis by (auto simp: step_vars_def mod_Suc)
qed

lemma one_step:
  assumes "is_step i s" "length v = 4" "i < 64"
  shows "view (step_vars (Suc i)) (macro_step x s v) = md5_main_step x i (view (step_vars i) v)"
proof -
  obtain m vars k r ac where s: "s = (m, vars, k, r, ac)" by (cases s)
  obtain a b c d where vars: "step_vars i = (a, b, c, d)" by (cases "step_vars i")
  have dist: "a < 4" "a \<noteq> b" "a \<noteq> c" "a \<noteq> d" using vars by (auto simp: step_vars_def split: if_splits)
  show ?thesis
    using assms(1,2) dist vars
    by (auto simp: s step_vars_Suc md5_F_def md5_G_def md5_H_def md5_I_def ROTATE_LEFT_def LEFTROTATE_def Let_def ac_simps and.commute split: if_splits)
qed

lemma steps_agree:
  "n \<le> 64 \<Longrightarrow> length v = 4 \<Longrightarrow> view (step_vars n) (fold (macro_step x) (take n md5_steps) v) = fold (md5_main_step x) [0..<n] (view (step_vars 0) v)
     \<and> length (fold (macro_step x) (take n md5_steps) v) = 4"
proof (induction n)
  case (Suc n)
  then have "take (Suc n) md5_steps = take n md5_steps @ [md5_steps ! n]" by (simp add: take_Suc_conv_app_nth all_steps(1))
  then show ?case using Suc one_step [OF is_step_nth [of n]] by simp
qed simp

fun regs :: "u32 \<times> u32 \<times> u32 \<times> u32 \<Rightarrow> u32 list" where
  "regs (a, b, c, d) = [a, b, c, d]"

lemma MD5_Decode_words: "64 \<le> length m \<Longrightarrow> MD5_Decode (take 64 m) = map (\<lambda>i. to_int32 (drop (4 * i) m)) [0..<16]"
  by (simp add: MD5_Decode_def to_int32_def)

lemma transform_is_chunk:
  assumes "64 \<le> length m"
  shows "MD5_Transform (regs h) (take 64 m) = regs (md5_chunk m h)"
proof -
  obtain h0 h1 h2 h3 where h: "h = (h0, h1, h2, h3)" by (cases h)
  let ?x = "MD5_Decode (take 64 m)" and ?v = "fold (macro_step (MD5_Decode (take 64 m))) md5_steps (regs h)"
  obtain a b c d where f: "fold (md5_main_step ?x) [0..<64] h = (a, b, c, d)" by (cases "fold (md5_main_step ?x) [0..<64] h")
  have "view (step_vars 64) ?v = fold (md5_main_step ?x) [0..<64] (view (step_vars 0) (regs h))"
    using steps_agree [of 64 "regs h" ?x] all_steps(1) by (simp add: h)
  then have v: "?v ! 0 = a" "?v ! 1 = b" "?v ! 2 = c" "?v ! 3 = d" using f by (simp_all add: step_vars_def h)
  have "md5_chunk m h = (h0 + a, h1 + b, h2 + c, h3 + d)" using f MD5_Decode_words [OF assms] by (simp add: md5_chunk_def h)
  then show ?thesis using v by (simp add: MD5_Transform_def h)
qed

section \<open>All blocks\<close>

function absorb :: "u32 list \<Rightarrow> bytes \<Rightarrow> u32 list" where
  "absorb st m = (if length m < 64 then st else absorb (MD5_Transform st (take 64 m)) (drop 64 m))"
  by auto
termination by (relation "measure (\<lambda>(_, m). length m)") auto

declare absorb.simps [simp del]

lemma absorb_short [simp]: "length m < 64 \<Longrightarrow> absorb st m = st"
  by (simp add: absorb.simps)

lemma absorb_append: "length a mod 64 = 0 \<Longrightarrow> absorb st (a @ b) = absorb (absorb st a) b"
proof (induction st a rule: absorb.induct)
  case (1 st a)
  show ?case
  proof (cases "length a < 64")
    case True
    then have "a = []" using 1(2) by simp
    then show ?thesis by simp
  next
    case False
    moreover from this have "length (drop 64 a) mod 64 = 0" using 1(2) by (simp add: le_mod_geq)
    ultimately show ?thesis using 1(1) by (simp add: absorb.simps [of st "a @ b"] absorb.simps [of st a])
  qed
qed

lemma absorb_one: "length a = 64 \<Longrightarrow> absorb st a = MD5_Transform st a"
  by (simp add: absorb.simps)

text \<open>The part of a message that fills no block.\<close>

definition tail :: "bytes \<Rightarrow> bytes" where
  "tail m = drop (64 * (length m div 64)) m"

lemma length_tail [simp]: "length (tail m) = length m mod 64"
  by (simp add: tail_def minus_mult_div_eq_mod)

lemma absorb_more: "absorb st (m @ b) = absorb (absorb st m) (tail m @ b)" and absorb_head: "absorb st (take (64 * (length m div 64)) m) = absorb st m"
proof -
  let ?h = "take (64 * (length m div 64)) m"
  have l: "length ?h mod 64 = 0" by (simp add: min_absorb2)
  have m: "m = ?h @ tail m" by (simp add: tail_def)
  show h: "absorb st ?h = absorb st m" using absorb_append [OF l, of st "tail m"] m by simp
  have "absorb st (m @ b) = absorb st (?h @ (tail m @ b))" using m by (metis append.assoc)
  then show "absorb st (m @ b) = absorb (absorb st m) (tail m @ b)" using absorb_append [OF l] h by simp
qed

lemma tail_append: "tail (m @ b) = tail (tail m @ b)"
proof -
  have "length m + length b = 64 * (length m div 64) + (length m mod 64 + length b)" by simp
  then have d: "(length m + length b) div 64 = length m div 64 + (length m mod 64 + length b) div 64"
    using div_mult_self4 [of 64 "length m div 64" "length m mod 64 + length b"] by (simp only: zero_neq_numeral not_False_eq_True)
  let ?k = "64 * (length m div 64)" and ?j = "64 * ((length m mod 64 + length b) div 64)"
  have "tail (m @ b) = drop (?k + ?j) (m @ b)" by (simp only: tail_def length_append d distrib_left)
  also have "\<dots> = drop ?j (drop ?k (m @ b))" by (simp only: drop_drop add.commute)
  also have "drop ?k (m @ b) = tail m @ b" by (simp add: tail_def)
  also have "drop ?j (tail m @ b) = tail (tail m @ b)" by (simp only: tail_def [of "tail m @ b"] length_append length_tail)
  finally show ?thesis .
qed

section \<open>Taking a message in pieces\<close>

definition md5_count :: "nat \<Rightarrow> u32 \<times> u32" where
  "md5_count n = (of_nat (8 * n), of_nat (8 * n div 2 ^ 32))"

definition absorbed :: "MD5Context \<Rightarrow> bytes \<Rightarrow> bool" where
  "absorbed ctx m \<longleftrightarrow> length (md_buffer ctx) = 64 \<and> md_state ctx = absorb (regs md5_init) m
     \<and> take (length m mod 64) (md_buffer ctx) = tail m \<and> md_count ctx = md5_count (length m)"

lemma absorbed_init: "length junk = 64 \<Longrightarrow> absorbed (MD5_Init junk) []"
  by (simp add: absorbed_def MD5_Init_def md5_init_def md5_count_def tail_def)

lemma count_index: "unat (drop_bit 3 (fst (md5_count n)) AND 0x3F) = n mod 64"
proof -
  have m: "(0x3F :: u32) = mask 6" by (simp add: mask_eq_exp_minus_1)
  have "unat (drop_bit 3 (of_nat (8 * n)) AND 0x3F :: u32) = take_bit 6 (drop_bit 3 (take_bit 32 (8 * n)))"
    unfolding m take_bit_eq_mask [symmetric] by (simp add: unsigned_take_bit_eq unsigned_drop_bit_eq unsigned_of_nat del: of_nat_mult)
  also have "\<dots> = take_bit 6 (take_bit 29 (drop_bit 3 (8 * n)))" by (simp add: drop_bit_take_bit)
  also have "\<dots> = take_bit 6 (drop_bit 3 (8 * n))" by simp
  also have "\<dots> = n mod 64" by (simp add: drop_bit_eq_div take_bit_eq_mod)
  finally show ?thesis by (simp add: md5_count_def)
qed

lemma div_add_carry:
  fixes x y M :: nat
  assumes "0 < M"
  shows "(x + y) div M = x div M + y div M + (if (x + y) mod M < y mod M then 1 else 0)"
proof -
  define p q where "p = x mod M" and "q = y mod M"
  have b: "p < M" "q < M" using assms by (simp_all add: p_def q_def)
  have e: "(x + y) div M = x div M + y div M + (p + q) div M" unfolding p_def q_def by (rule div_add1_eq)
  have m: "(x + y) mod M = (p + q) mod M" by (simp add: p_def q_def mod_add_eq)
  show ?thesis
  proof (cases "p + q < M")
    case True
    then show ?thesis using e m by (simp add: q_def [symmetric])
  next
    case False
    then have "(p + q) div M = 1" "(p + q) mod M = p + q - M" using add_strict_mono [OF b] b by (simp_all add: le_mod_geq le_div_geq)
    then show ?thesis using e m b False by (simp add: q_def [symmetric])
  qed
qed

lemma count_add:
  assumes k: "k < 2 ^ 32"
  shows "(fst (md5_count n) + push_bit 3 (of_nat k),
      (if fst (md5_count n) + push_bit 3 (of_nat k) < push_bit 3 (of_nat k) then snd (md5_count n) + 1 else snd (md5_count n)) + drop_bit 29 (of_nat k))
    = md5_count (n + k)"
proof -
  have p: "push_bit 3 (of_nat k :: u32) = of_nat (8 * k)" by (simp add: push_bit_eq_mult)
  have s: "of_nat (8 * n) + of_nat (8 * k) = (of_nat (8 * n + 8 * k) :: u32)" by simp
  have d: "drop_bit 29 (of_nat k :: u32) = of_nat (8 * k div 2 ^ 32)"
  proof (rule word_unat_eq_iff [THEN iffD2])
    have "8 * k div 2 ^ 32 = k div 2 ^ 29" using div_mult_mult1 [of 8 k "2 ^ 29"] by simp
    moreover have "k div 2 ^ 29 < 2 ^ 32" using k by (meson div_le_dividend le_less_trans)
    ultimately show "unat (drop_bit 29 (of_nat k :: u32)) = unat (of_nat (8 * k div 2 ^ 32) :: u32)"
      using k by (simp only: unsigned_drop_bit_eq unsigned_of_nat) (simp add: take_bit_nat_eq_self drop_bit_eq_div)
  qed
  have c: "(of_nat (8 * n + 8 * k) :: u32) < of_nat (8 * k) \<longleftrightarrow> (8 * n + 8 * k) mod 2 ^ 32 < 8 * k mod 2 ^ 32"
    by (simp only: word_less_nat_alt unat_of_nat) simp
  have e: "(8 * n + 8 * k) div 2 ^ 32 = 8 * n div 2 ^ 32 + 8 * k div 2 ^ 32 + (if (8 * n + 8 * k) mod 2 ^ 32 < 8 * k mod 2 ^ 32 then 1 else 0)"
    by (rule div_add_carry) simp
  have "(if (of_nat (8 * n + 8 * k) :: u32) < of_nat (8 * k) then of_nat (8 * n div 2 ^ 32) + 1 else of_nat (8 * n div 2 ^ 32)) + of_nat (8 * k div 2 ^ 32)
    = (of_nat ((8 * n + 8 * k) div 2 ^ 32) :: u32)" unfolding c e by simp
  then show ?thesis unfolding md5_count_def fst_conv snd_conv p s d distrib_left by simp
qed

lemma update_loop_spec:
  assumes "length buf + 64 \<le> 2 ^ 32" "i \<le> length buf"
  shows "update_loop buf i st = Inr (length buf - (length buf - i) mod 64, absorb st (drop i buf))"
  using assms(2)
proof (induction "length buf - i" arbitrary: i st rule: less_induct)
  case less
  have w: "(of_nat i + 63 :: u32) < of_nat (length buf) \<longleftrightarrow> i + 63 < length buf"
  proof -
    have "(of_nat i + 63 :: u32) = of_nat (i + 63)" by simp
    then show ?thesis using assms(1) less.prems by (simp only: of_nat_word_less_iff) (simp add: take_bit_nat_eq_self)
  qed
  show ?case
  proof (cases "i + 63 < length buf")
    case True
    then have "update_loop buf i st = update_loop buf (i + 64) (MD5_Transform st (take 64 (drop i buf)))"
      using w by (simp add: update_loop.simps [of buf i st])
    also have "\<dots> = Inr (length buf - (length buf - (i + 64)) mod 64, absorb (MD5_Transform st (take 64 (drop i buf))) (drop (i + 64) buf))"
      using less.hyps [of "i + 64"] True by simp
    also have "(length buf - (i + 64)) mod 64 = (length buf - i) mod 64" using le_mod_geq [of 64 "length buf - i"] True by simp
    also have "absorb (MD5_Transform st (take 64 (drop i buf))) (drop (i + 64) buf) = absorb st (drop i buf)"
    proof -
      have "\<not> length (drop i buf) < 64" using True by simp
      then show ?thesis by (simp only: absorb.simps [of st "drop i buf"] if_False drop_drop add.commute)
    qed
    finally show ?thesis .
  next
    case False
    then show ?thesis using w less.prems by (simp add: update_loop.simps [of buf i st])
  qed
qed

text \<open>An update appends to the message that has been absorbed.\<close>

lemma absorbed_index: "absorbed ctx m \<Longrightarrow> unat (drop_bit 3 (fst (md_count ctx)) AND 0x3F) = length m mod 64"
  by (simp add: absorbed_def count_index)

lemma absorbed_buffer: "absorbed ctx m \<Longrightarrow> take (length m mod 64) (md_buffer ctx) = tail m"
  by (simp add: absorbed_def)

lemma MD5_Update_absorbs:
  assumes abs: "absorbed ctx m" and len: "length buf + 64 \<le> 2 ^ 32"
  shows "\<exists>ctx'. MD5_Update ctx buf = Inr ctx' \<and> absorbed ctx' (m @ buf)"
proof -
  let ?i = "length m mod 64"
  define part where "part = 64 - ?i"
  have i: "?i < 64" "?i + part = 64" by (simp_all add: part_def)
  have k: "length buf < 2 ^ 32" using len by simp
  have u: "unat (of_nat (length buf) :: u32) = length buf" using k by (simp add: unsigned_of_nat take_bit_nat_eq_self)
  have bl: "length (md_buffer ctx) = 64" and st: "md_state ctx = absorb (regs md5_init) m" and c: "md_count ctx = md5_count (length m)"
    using abs by (simp_all add: absorbed_def)
  note cnt = count_add [OF k, of "length m", folded c]
  show ?thesis
  proof (cases "part \<le> length buf")
    case False
    let ?b = "tail m @ buf @ drop (?i + length buf) (md_buffer ctx)"
    let ?ctx = "\<lparr>md_state = md_state ctx, md_count = md5_count (length m + length buf), md_buffer = ?b\<rparr>"
    have short: "?i + length buf < 64" using False i by simp
    then have "memcpy_at (md_buffer ctx) ?i buf = Inr ?b" using bl absorbed_buffer [OF abs] by simp
    then have "MD5_Update ctx buf = Inr ?ctx" using False u by (simp add: MD5_Update_def Let_def absorbed_index [OF abs] part_def cnt [symmetric])
    moreover have "absorbed ?ctx (m @ buf)"
    proof -
      have "(length m + length buf) mod 64 = ?i + length buf" using short by (metis mod_add_left_eq mod_less)
      moreover have "tail (m @ buf) = tail m @ buf" using short by (simp add: tail_append [of m buf] tail_def [of "tail m @ buf"])
      moreover have "length ?b = 64" using short bl by simp
      moreover have "absorb (regs md5_init) (m @ buf) = absorb (regs md5_init) m" using short absorb_more [of _ m buf] by simp
      ultimately show ?thesis using st by (simp add: absorbed_def)
    qed
    ultimately show ?thesis by blast
  next
    case True
    let ?b = "tail m @ take part buf" and ?rest = "drop part buf"
    let ?n = "(length buf - part) mod 64"
    let ?r = "drop (length buf - ?n) buf"
    have lb: "length ?b = 64" using True i by simp
    have s1: "MD5_Transform (md_state ctx) ?b = absorb (regs md5_init) (m @ take part buf)"
      using absorb_more [of "regs md5_init" m "take part buf"] absorb_one [OF lb] st by simp
    have s2: "absorb (absorb (regs md5_init) (m @ take part buf)) ?rest = absorb (regs md5_init) (m @ buf)"
    proof -
      have "(length m + part) mod 64 = 0" using i(2) by (metis mod_add_left_eq mod_self)
      then have "length (m @ take part buf) mod 64 = 0" using True by simp
      from absorb_append [OF this, of _ ?rest] show ?thesis by simp
    qed
    have n: "?n \<le> length buf" "?n < 64" by (meson diff_le_self le_trans mod_less_eq_dividend, simp)
    have r: "length ?r = ?n" using n by simp
    define b2 where "b2 = ?r @ drop ?n ?b"
    have b2: "length b2 = 64" "take ?n b2 = ?r"
      unfolding b2_def length_append [of ?r "drop ?n ?b"] length_drop [of ?n ?b] lb r using n(2) r by simp_all
    let ?ctx = "\<lparr>md_state = absorb (regs md5_init) (m @ buf), md_count = md5_count (length m + length buf), md_buffer = b2\<rparr>"
    have "memcpy_at (md_buffer ctx) ?i (take part buf) = Inr ?b" using bl absorbed_buffer [OF abs] True i by simp
    moreover have "slice buf 0 part = Inr (take part buf)" using True by simp
    moreover have "update_loop buf part (MD5_Transform (md_state ctx) ?b) = Inr (length buf - ?n, absorb (regs md5_init) (m @ buf))"
      using update_loop_spec [OF len True] s1 s2 by simp
    moreover have "slice buf (length buf - ?n) (length buf - (length buf - ?n)) = Inr ?r" using n by simp
    moreover have "memcpy_at ?b 0 ?r = Inr b2" using lb n r by (simp add: memcpy_at_def b2_def)
    ultimately have "MD5_Update ctx buf = Inr ?ctx"
      using True u by (simp add: MD5_Update_def Let_def absorbed_index [OF abs] part_def [symmetric] cnt [symmetric] del: slice_Inr memcpy_at_Inr)
    moreover have "absorbed ?ctx (m @ buf)"
    proof -
      have m: "(length m + length buf) mod 64 = ?n"
      proof -
        have "(length m + length buf) mod 64 = (?i + part + (length buf - part)) mod 64" using True by (simp add: mod_add_left_eq)
        then show ?thesis using i(2) by simp
      qed
      have "tail (m @ buf) = ?r"
      proof -
        have "64 * ((length m + length buf) div 64) = length m + (length buf - ?n)" using m n(1) minus_mod_eq_mult_div [of "length m + length buf" 64] by simp
        then show ?thesis by (simp add: tail_def)
      qed
      then show ?thesis using m b2 by (simp add: absorbed_def)
    qed
    ultimately show ?thesis by blast
  qed
qed

section \<open>Padding\<close>

lemma encode_word_bytes: "encode_word = to_bytes"
proof
  fix w
  have "(0xFF :: u32) = mask 8" by (simp add: mask_eq_exp_minus_1)
  moreover have "ucast (x AND mask 8) = (ucast x :: byte)" for x :: u32 by (rule bit_word_eqI) (simp add: bit_simps)
  ultimately show "encode_word w = to_bytes w" by (simp add: encode_word_def to_bytes_def)
qed

lemma MD5_Encode_bytes: "MD5_Encode [] = []" "MD5_Encode (w # ws) = to_bytes w @ MD5_Encode ws"
  by (simp_all add: MD5_Encode_def encode_word_bytes)

lemma length_to_bytes [simp]: "length (to_bytes w) = 4"
  by (simp add: to_bytes_def)

lemma md5_new_len_eq: "md5_new_len n = n + (120 - n mod 64) mod 64"
proof (induction n rule: md5_new_len.induct)
  case (1 n)
  show ?case
  proof (cases "n mod 64 = 56")
    case True
    then show ?thesis by (simp add: md5_new_len.simps [of n])
  next
    case False
    define r where "r = n mod 64"
    have r: "r < 64" "r \<noteq> 56" using False by (simp_all add: r_def)
    have step: "(n + 1) mod 64 = (if r = 63 then 0 else r + 1)" by (simp add: mod_Suc r_def)
    have dist: "(120 - x) mod 64 = (if x \<le> 56 then 56 - x else 120 - x)" if "x < 64" for x :: nat
      using that by (cases "x \<le> 56") (simp_all add: mod_if)
    have "1 + (120 - (n + 1) mod 64) mod 64 = (120 - n mod 64) mod 64"
      using r unfolding step r_def [symmetric] by (auto simp: dist split: if_splits)
    then show ?thesis using 1 False by (simp add: md5_new_len.simps [of n])
  qed
qed

text \<open>How many bytes of padding there are in front of the length, and the padded message.\<close>

definition pad_len :: "nat \<Rightarrow> nat" where
  "pad_len n = (if n mod 64 < 56 then 56 - n mod 64 else 120 - n mod 64)"

definition padded_message :: "bytes \<Rightarrow> bytes" where
  "padded_message m = m @ take (pad_len (length m)) PADDING @ to_bytes (fst (md5_count (length m))) @ to_bytes (snd (md5_count (length m)))"

lemma pad_len_bounds: "0 < pad_len n" "pad_len n \<le> 64" "(n + pad_len n) mod 64 = 56"
proof -
  have "n mod 64 < 64" by simp
  then show "0 < pad_len n" "pad_len n \<le> 64" by (auto simp: pad_len_def)
  have "(n + pad_len n) mod 64 = (n mod 64 + pad_len n) mod 64" by (simp add: mod_add_left_eq)
  also have "n mod 64 + pad_len n = (if n mod 64 < 56 then 56 else 120)" using \<open>n mod 64 < 64\<close> by (simp add: pad_len_def)
  finally show "(n + pad_len n) mod 64 = 56" by (simp split: if_splits)
qed

lemma new_len_pad: "md5_new_len (n + 1) = n + pad_len n"
proof -
  define r where "r = n mod 64"
  have r: "r < 64" by (simp add: r_def)
  have step: "(n + 1) mod 64 = (if r = 63 then 0 else r + 1)" by (simp add: mod_Suc r_def)
  have "1 + (120 - (n + 1) mod 64) mod 64 = pad_len n"
    using r unfolding step pad_len_def r_def [symmetric] by (auto simp: mod_if split: if_splits)
  then show ?thesis by (simp add: md5_new_len_eq)
qed

lemma take_PADDING: "0 < k \<Longrightarrow> k \<le> 64 \<Longrightarrow> take k PADDING = 0x80 # replicate (k - 1) 0"
  by (cases k) (simp_all add: PADDING_def min_def)

lemma count_words:
  "ucast (of_nat n * 8 :: u64) = fst (md5_count n)" "ucast (drop_bit 29 (of_nat n :: u64)) = snd (md5_count n)"
proof -
  have "(of_nat n * 8 :: u64) = of_nat (8 * n)" by simp
  then show "ucast (of_nat n * 8 :: u64) = fst (md5_count n)"
    unfolding md5_count_def fst_conv by (simp only:) (rule word_unat_eq_iff [THEN iffD2], simp add: unsigned_ucast_eq unsigned_of_nat del: of_nat_mult)
  have "drop_bit 29 (take_bit 64 n) = take_bit 35 (drop_bit 29 n)" by (simp add: drop_bit_take_bit)
  moreover have "8 * n div 2 ^ 32 = drop_bit 29 n" using div_mult_mult1 [of 8 n "2 ^ 29"] by (simp add: drop_bit_eq_div)
  ultimately show "ucast (drop_bit 29 (of_nat n :: u64)) = snd (md5_count n)"
    unfolding md5_count_def snd_conv by (simp only:) (rule word_unat_eq_iff [THEN iffD2], simp add: unsigned_ucast_eq unsigned_of_nat unsigned_drop_bit_eq)
qed

lemma md5_offsets_absorb:
  "offset mod 64 = 0 \<Longrightarrow> offset \<le> length msg \<Longrightarrow> length msg = new_len + 8 \<Longrightarrow> new_len mod 64 = 56 \<Longrightarrow>
   regs (md5_offsets msg new_len offset h) = absorb (regs h) (drop offset msg)"
proof (induction msg new_len offset h rule: md5_offsets.induct)
  case (1 msg new_len offset h)
  have l: "(length msg) mod 64 = 0" using 1(4,5) by presburger
  show ?case
  proof (cases "offset < new_len")
    case True
    have "(length msg - offset) mod 64 = 0" using l 1(2,3) by (simp add: mod_eq_0_iff_dvd)
    then have le: "offset + 64 \<le> length msg" using True 1(4) by (cases "length msg - offset < 64") simp_all
    have "regs (md5_offsets msg new_len offset h) = absorb (regs (md5_chunk (drop offset msg) h)) (drop (offset + 64) msg)"
      using 1(1) [OF True] True 1(2,4,5) le by (simp add: md5_offsets.simps [of msg new_len offset])
    also have "\<dots> = absorb (MD5_Transform (regs h) (take 64 (drop offset msg))) (drop 64 (drop offset msg))"
      using transform_is_chunk [of "drop offset msg" h] le by (simp add: add.commute)
    also have "\<dots> = absorb (regs h) (drop offset msg)"
    proof -
      have "\<not> length (drop offset msg) < 64" using le by simp
      then show ?thesis by (simp only: absorb.simps [of _ "drop offset msg"] if_False)
    qed
    finally show ?thesis .
  next
    case False
    then show ?thesis using 1(3,4) by (simp add: md5_offsets.simps [of msg new_len offset])
  qed
qed

lemma md5_absorbs: "md5 m = MD5_Encode (absorb (regs md5_init) (padded_message m))"
proof -
  let ?n = "length m" and ?new = "md5_new_len (length m + 1)"
  let ?msg = "m @ [0x80] @ replicate (?new - (?n + 1)) 0 @ to_bytes (ucast (of_nat ?n * 8 :: u64)) @ to_bytes (ucast (drop_bit 29 (of_nat ?n :: u64)))"
  note P = pad_len_bounds [of ?n]
  have msg: "?msg = padded_message m"
    using take_PADDING [OF P(1,2)] new_len_pad [of ?n] by (simp add: padded_message_def count_words)
  have len: "length ?msg = ?new + 8" using P(1) new_len_pad [of ?n] by simp
  obtain h0 h1 h2 h3 where h: "md5_offsets ?msg ?new 0 md5_init = (h0, h1, h2, h3)" by (cases "md5_offsets ?msg ?new 0 md5_init")
  have "[h0, h1, h2, h3] = absorb (regs md5_init) (padded_message m)"
    using md5_offsets_absorb [OF _ _ len, of 0 md5_init] P(3) new_len_pad [of ?n] h msg by simp
  then show ?thesis using h by (simp add: md5_def Let_def MD5_Encode_bytes flip: \<open>_ = absorb _ _\<close>)
qed

lemma MD5_Final_absorbs:
  assumes abs: "absorbed ctx m"
  shows "MD5_Final ctx = Inr (MD5_Encode (absorb (regs md5_init) (padded_message m)))"
proof -
  let ?pad = "take (pad_len (length m)) PADDING" and ?bits = "MD5_Encode [fst (md_count ctx), snd (md_count ctx)]"
  have c: "md_count ctx = md5_count (length m)" using abs by (simp add: absorbed_def)
  have pad: "slice PADDING 0 (pad_len (length m)) = Inr ?pad" using pad_len_bounds(2) [of "length m"] by (simp add: PADDING_def)
  have "length ?pad + 64 \<le> 2 ^ 32" by (simp add: PADDING_def)
  then obtain c1 where c1: "MD5_Update ctx ?pad = Inr c1" "absorbed c1 (m @ ?pad)" using MD5_Update_absorbs [OF abs] by blast
  have "length ?bits + 64 \<le> 2 ^ 32" by (simp add: MD5_Encode_bytes)
  then obtain c2 where c2: "MD5_Update c1 ?bits = Inr c2" "absorbed c2 ((m @ ?pad) @ ?bits)" using MD5_Update_absorbs [OF c1(2)] by blast
  have "md_state c2 = absorb (regs md5_init) (padded_message m)"
    using c2(2) by (simp add: absorbed_def padded_message_def c MD5_Encode_bytes)
  then show ?thesis using c1(1) c2(1) pad by (simp add: MD5_Final_def Let_def absorbed_index [OF abs] pad_len_def [symmetric])
qed

section \<open>Properties\<close>

fun update_all :: "MD5Context \<Rightarrow> bytes list \<Rightarrow> MD5Context res" where
  "update_all ctx [] = Inr ctx"
| "update_all ctx (b # bs) = bindR (MD5_Update ctx b) (\<lambda>ctx1. update_all ctx1 bs)"

lemma update_all_absorbs:
  "absorbed ctx m \<Longrightarrow> \<forall>b\<in>set bs. length b + 64 \<le> 2 ^ 32 \<Longrightarrow> \<exists>ctx'. update_all ctx bs = Inr ctx' \<and> absorbed ctx' (m @ concat bs)"
proof (induction bs arbitrary: ctx m)
  case (Cons b bs)
  then obtain c1 where "MD5_Update ctx b = Inr c1" "absorbed c1 (m @ b)" using MD5_Update_absorbs [OF Cons.prems(1), of b] by auto
  then show ?case using Cons.IH [of c1 "m @ b"] Cons.prems(2) by simp
qed simp

text \<open>
  C22: The two implementations of MD5 agree: a message that the client library takes in any pieces of less than 4 GB each has the digest that the server computes
  from the whole message, whatever its length and its division into pieces; no step writes outside the 64-byte buffer.
\<close>

theorem md5_implementations_agree:
  assumes "length junk = 64" "\<forall>b\<in>set bs. length b + 64 \<le> 2 ^ 32"
  shows "bindR (update_all (MD5_Init junk) bs) MD5_Final = Inr (md5 (concat bs))"
  using update_all_absorbs [OF absorbed_init [OF assms(1)] assms(2)] MD5_Final_absorbs md5_absorbs by fastforce

theorem md5_implementations_agree_witness:
  "bindR (update_all (MD5_Init (replicate 64 7)) [[97], [], [98, 99]]) MD5_Final = Inr (md5 [97, 98, 99])"
  using md5_implementations_agree [of "replicate 64 7" "[[97], [], [98, 99]]"] by simp

text \<open>The string that the client library makes of it.\<close>

lemma MD5_Calculate_md5: "length junk = 64 \<Longrightarrow> length c + 64 \<le> 2 ^ 32 \<Longrightarrow> MD5_Calculate junk c = Inr (concat (map hex_byte (md5 c)))"
  using md5_implementations_agree [of junk "[c]"] by (simp add: MD5_Calculate_def) (auto simp: bindR_def split: sum.splits)

text \<open>The first and third test vector of RFC 1321.\<close>

lemma md5_test_empty: "hex_string (md5 []) = ''d41d8cd98f00b204e9800998ecf8427e''"
  by code_simp

lemma md5_test_abc: "hex_string (md5 (map of_char ''abc'')) = ''900150983cd24fb0d6963f7d28e17f72''"
  by code_simp

end
