(* ===== verification/Token.thy ===== *)
theory Token
  imports Md5Props
begin

text \<open>
  Login tokens (\<open>base/TokenValidator.cpp\<close>): the digest of a secret, the user and the current hour, mixed. A token is accepted in its hour and the hours around it.
\<close>

section \<open>Definitions\<close>

definition AUTH_ENCRYPT_KEY :: string where
  "AUTH_ENCRYPT_KEY = ''Mgj!@#123''"

text \<open>\<open>%0nd\<close> of an \<open>int\<close>, and the year, month, day and hour that \<open>localtime\<close> gives.\<close>

definition zero_pad :: "nat \<Rightarrow> string \<Rightarrow> string" where
  "zero_pad n s = replicate (n - length s) CHR ''0'' @ s"

definition fmt_d :: "nat \<Rightarrow> int \<Rightarrow> string" where
  "fmt_d n x = (if x < 0 then CHR ''-'' # zero_pad (n - 1) (decimal (nat (- x))) else zero_pad n (decimal (nat x)))"

type_synonym localtime = "int \<Rightarrow> int \<times> int \<times> int \<times> int"

definition t_buf :: "localtime \<Rightarrow> int \<Rightarrow> string" where
  "t_buf lt currTime =
     (case lt currTime of (year, mon, mday, hour) \<Rightarrow>
        take 127 (fmt_d 4 (year + 1900) @ ''-'' @ fmt_d 2 (mon + 1) @ ''-'' @ fmt_d 2 mday @ ''-'' @ fmt_d 2 hour))"

definition token_text :: "u32 \<Rightarrow> string \<Rightarrow> string" where
  "token_text uid t = take 255 (AUTH_ENCRYPT_KEY @ ''_'' @ decimal (unat uid) @ ''_'' @ t @ ''_'' @ AUTH_ENCRYPT_KEY)"

text \<open>The loops that reverse the 32 digits and exchange them in pairs.\<close>

definition swap_at :: "nat \<Rightarrow> nat \<Rightarrow> 'a list \<Rightarrow> 'a list" where
  "swap_at i j s = s[i := s ! j, j := s ! i]"

definition reverse_buf :: "string \<Rightarrow> string" where
  "reverse_buf s = fold (\<lambda>i. swap_at i (31 - i)) [0..<16] s"

definition switch_buf :: "string \<Rightarrow> string" where
  "switch_buf s = fold (\<lambda>i. swap_at (2 * i) (2 * i + 1)) [0..<16] s"

definition genToken :: "localtime \<Rightarrow> int \<Rightarrow> u32 \<Rightarrow> int \<Rightarrow> string" where
  "genToken lt now uid time_offset =
     switch_buf (reverse_buf (hex_string (md5 (map of_char (token_text uid (t_buf lt (now + time_offset)))))))"

text \<open>The clock is read once for each of the three tokens.\<close>

definition IsTokenValid :: "localtime \<Rightarrow> int \<times> int \<times> int \<Rightarrow> u32 \<Rightarrow> string \<Rightarrow> bool" where
  "IsTokenValid lt clock user_id token =
     (case clock of (now1, now2, now3) \<Rightarrow>
        let token1 = genToken lt now1 user_id (- 3600); token2 = genToken lt now2 user_id 0; token3 = genToken lt now3 user_id 3600
        in token = token1 \<or> token = token2 \<or> token = token3)"

section \<open>The two loops\<close>

lemma length_32: "length s = 32 \<Longrightarrow> \<exists>f. s = map f [0..<32]"
  by (rule exI [of _ "nth s"]) (simp add: list_eq_iff_nth_eq)

lemma reverse_buf_rev: "length s = 32 \<Longrightarrow> reverse_buf s = rev s"
  by (drule length_32) (auto simp: reverse_buf_def swap_at_def upt_rec numeral_eq_Suc)

fun swap_pairs :: "'a list \<Rightarrow> 'a list" where
  "swap_pairs (a # b # s) = b # a # swap_pairs s"
| "swap_pairs s = s"

lemma switch_buf_pairs: "length s = 32 \<Longrightarrow> switch_buf s = swap_pairs s"
  by (drule length_32) (auto simp: switch_buf_def swap_at_def upt_rec numeral_eq_Suc)

lemma swap_pairs_twice [simp]: "swap_pairs (swap_pairs s) = s" "length (swap_pairs s) = length s"
  by (induction s rule: swap_pairs.induct) auto

lemma length_MD5_Transform [simp]: "length (MD5_Transform st b) = 4"
  by (simp add: MD5_Transform_def Let_def)

lemma length_absorb [simp]: "length st = 4 \<Longrightarrow> length (absorb st m) = 4"
  by (induction st m rule: absorb.induct) (subst absorb.simps, simp)

lemma length_md5 [simp]: "length (md5 m) = 16"
proof -
  have "length (MD5_Encode ws) = 4 * length ws" for ws by (induction ws) (simp_all add: MD5_Encode_def encode_word_def)
  then show ?thesis by (simp add: md5_absorbs md5_init_def)
qed

lemma length_hex_string [simp]: "length (hex_string bs) = 2 * length bs"
  by (induction bs) (simp_all add: hex_string_def)

text \<open>Mixing the digits loses nothing: a token is 32 hexadecimal digits that give the digest back.\<close>

lemma token_unmixed: "rev (swap_pairs (genToken lt now uid off)) = hex_string (md5 (map of_char (token_text uid (t_buf lt (now + off)))))"
  by (simp add: genToken_def switch_buf_pairs reverse_buf_rev)

lemma token_length: "length (genToken lt now uid off) = 32"
  by (simp add: genToken_def switch_buf_pairs reverse_buf_rev)

section \<open>Properties\<close>

text \<open>\<open>localtime\<close> in a zone that is \<open>off\<close> seconds from UTC and does not change its clocks: the hour is that of the shifted time.\<close>

definition fixed_zone :: "int \<Rightarrow> localtime \<Rightarrow> bool" where
  "fixed_zone off lt \<longleftrightarrow> (\<forall>t t'. (t + off) div 3600 = (t' + off) div 3600 \<longrightarrow> lt t = lt t')"

lemma same_hour:
  assumes "fixed_zone off lt" "(t + off) div 3600 = (t' + off) div 3600"
  shows "t_buf lt t = t_buf lt t'"
proof -
  have "lt t = lt t'" using assms unfolding fixed_zone_def by blast
  then show ?thesis by (simp only: t_buf_def)
qed

text \<open>
  C33: Tokens. A token that was generated at most an hour ago, or by a clock that is at most an hour ahead, is valid for its user, provided the hour does not change
  while it is checked.
\<close>

theorem token_valid_for_an_hour:
  assumes zone: "fixed_zone off lt" and near: "\<bar>now - t0\<bar> \<le> 3600"
    and clock: "(now1 + off) div 3600 = (now + off) div 3600" "(now2 + off) div 3600 = (now + off) div 3600" "(now3 + off) div 3600 = (now + off) div 3600"
  shows "IsTokenValid lt (now1, now2, now3) uid (genToken lt t0 uid 0)"
proof -
  have h: "(t + 3600 + off) div 3600 = (t + off) div 3600 + 1" "(t - 3600 + off) div 3600 = (t + off) div 3600 - 1" for t :: int
    using div_mult_self3 [of 3600 1 "t + off"] div_mult_self3 [of 3600 "- 1" "t + off"] by (simp_all add: algebra_simps)
  let ?h = "(t0 + off) div 3600" and ?n = "(now + off) div 3600"
  have "(now + off - 3600) div 3600 \<le> ?h" "?h \<le> (now + off + 3600) div 3600" using near by (auto intro!: zdiv_mono1)
  then have "?n - 1 \<le> ?h" "?h \<le> ?n + 1" using h [of now] by (simp_all add: algebra_simps)
  moreover have "x - 1 \<le> y \<Longrightarrow> y \<le> x + 1 \<Longrightarrow> y = x - 1 \<or> y = x \<or> y = x + 1" for x y :: int by arith
  ultimately have "?h = ?n - 1 \<or> ?h = ?n \<or> ?h = ?n + 1" by blast
  moreover have "?h = ?n - 1 \<Longrightarrow> t_buf lt t0 = t_buf lt (now1 - 3600)" using clock(1) h(2) [of now1] by (intro same_hour [OF zone]) simp
  moreover have "?h = ?n \<Longrightarrow> t_buf lt t0 = t_buf lt now2" using clock(2) by (intro same_hour [OF zone]) simp
  moreover have "?h = ?n + 1 \<Longrightarrow> t_buf lt t0 = t_buf lt (now3 + 3600)" using clock(3) h(1) [of now3] by (intro same_hour [OF zone]) simp
  ultimately have "t_buf lt t0 = t_buf lt (now1 - 3600) \<or> t_buf lt t0 = t_buf lt now2 \<or> t_buf lt t0 = t_buf lt (now3 + 3600)" by blast
  then show ?thesis by (auto simp: IsTokenValid_def genToken_def Let_def)
qed

definition demo_localtime :: localtime where
  "demo_localtime t = (70, 0, 1 + t div 86400, t div 3600 mod 24)"

lemma demo_zone: "fixed_zone 0 demo_localtime"
proof -
  have "t div 86400 = t div 3600 div 24" for t :: int by (simp add: div_mult2_eq [symmetric] zdiv_zmult2_eq [symmetric])
  then show ?thesis by (simp add: fixed_zone_def demo_localtime_def)
qed

theorem token_valid_for_an_hour_witness: "IsTokenValid demo_localtime (7300, 7300, 7301) 9 (genToken demo_localtime 3700 9 0)"
  by (rule token_valid_for_an_hour [OF demo_zone, of 7300]) simp_all

text \<open>
  Each of the three tokens reads the clock again. When the hour changes between the first two readings, the token of the hour that has just ended is compared with
  none of them: the texts they are made of are all different.
\<close>

lemma token_of_last_hour_not_tried:
  "t_buf demo_localtime 7199 \<notin> {t_buf demo_localtime (7199 - 3600), t_buf demo_localtime 7200, t_buf demo_localtime (7200 + 3600)}"
  by code_simp

end
