(* ===== verification/ConnPool.thy ===== *)
theory ConnPool
  imports ByteStream "HOL-Library.Multiset"
begin

text \<open>
  The pools of database and cache connections (\<open>CDBPool\<close> in \<open>db_proxy_server/DBPool.cpp\<close> and \<open>CachePool\<close> in \<open>CachePool.cpp\<close>, which have the same code): worker threads
  take a connection, or make one, or wait for one, and give it back. As in \<open>WorkerThread\<close> every step is one access under the mutex; the connections are numbered.
  A pool does not check who gives a connection back: any thread may do so, at any time and repeatedly. Which properties need callers that give back only what
  they have, and once, is said there; \<open>CGroupModel::removeRepeatUser\<close> of the program is not such a caller.
\<close>

section \<open>State\<close>

text \<open>
  Where a thread stands: in neither function, in \<open>GetDBConn\<close> or in \<open>RelDBConn\<close>; with the connection that it carries there. \<open>th_conns\<close> are those that it has taken
  and not given back itself.
\<close>

datatype pool_pc = Outside | GetTest | GetWait | GetWoken | GetDone nat | RelTest nat | RelSignal | RelUnlock

record pool_thread =
  th_pc :: pool_pc
  th_conns :: "nat list"

record conn_pool =
  cp_free_list :: "nat list"
  cp_cur_conn_cnt :: int
  cp_max_conn_cnt :: int
  cp_mutex :: "nat option"
  cp_threads :: "pool_thread list"
  cp_next :: nat

abbreviation (input) MIN_DB_CONN_CNT :: nat where "MIN_DB_CONN_CNT \<equiv> 2"

definition CDBPool :: "int \<Rightarrow> nat \<Rightarrow> conn_pool" where
  "CDBPool max_conn_cnt threads =
     \<lparr>cp_free_list = [], cp_cur_conn_cnt = int MIN_DB_CONN_CNT, cp_max_conn_cnt = max_conn_cnt, cp_mutex = None,
      cp_threads = replicate threads \<lparr>th_pc = Outside, th_conns = []\<rparr>, cp_next = 0\<rparr>"

text \<open>\<open>Init\<close>: the results of connecting to the server, one for each connection; the first that is not zero ends it.\<close>

fun pool_Init :: "int list \<Rightarrow> conn_pool \<Rightarrow> int \<times> conn_pool" where
  "pool_Init [] st = (0, st)"
| "pool_Init (ret # rets) st =
     (if ret \<noteq> 0 then (ret, st) else pool_Init rets (st\<lparr>cp_free_list := cp_free_list st @ [cp_next st], cp_next := cp_next st + 1\<rparr>))"

section \<open>Steps\<close>

definition set_thread :: "nat \<Rightarrow> pool_pc \<Rightarrow> nat list \<Rightarrow> conn_pool \<Rightarrow> conn_pool" where
  "set_thread p pc conns st = st\<lparr>cp_threads := (cp_threads st)[p := \<lparr>th_pc = pc, th_conns = conns\<rparr>]\<rparr>"

text \<open>
  A step of thread \<open>p\<close> in \<open>GetDBConn\<close>, which it begins when it is outside; \<open>None\<close> when it is blocked. \<open>ret\<close> is what the \<open>Init\<close> of a new connection returns.
\<close>

definition GetDBConn_step :: "int \<Rightarrow> nat \<Rightarrow> conn_pool \<Rightarrow> conn_pool option" where
  "GetDBConn_step ret p st =
     (let cs = th_conns (cp_threads st ! p)
      in case th_pc (cp_threads st ! p) of
           Outside \<Rightarrow> if cp_mutex st = None then Some (set_thread p GetTest cs (st\<lparr>cp_mutex := Some p\<rparr>)) else None
         | GetTest \<Rightarrow>
             (case cp_free_list st of
                c # rest \<Rightarrow> Some (set_thread p (GetDone c) cs (st\<lparr>cp_free_list := rest\<rparr>))
              | [] \<Rightarrow>
                  if cp_cur_conn_cnt st \<ge> cp_max_conn_cnt st then Some (set_thread p GetWait cs (st\<lparr>cp_mutex := None\<rparr>))
                  else if ret \<noteq> 0 then Some (set_thread p Outside cs (st\<lparr>cp_mutex := None\<rparr>))
                  else Some (st\<lparr>cp_free_list := [cp_next st], cp_next := cp_next st + 1, cp_cur_conn_cnt := cp_cur_conn_cnt st + 1\<rparr>))
         | GetWoken \<Rightarrow> if cp_mutex st = None then Some (set_thread p GetTest cs (st\<lparr>cp_mutex := Some p\<rparr>)) else None
         | GetDone c \<Rightarrow> Some (set_thread p Outside (c # cs) (st\<lparr>cp_mutex := None\<rparr>))
         | _ \<Rightarrow> None)"

definition pool_wakeup :: "nat \<Rightarrow> conn_pool \<Rightarrow> conn_pool option" where
  "pool_wakeup p st =
     (if th_pc (cp_threads st ! p) = GetWait then Some (set_thread p GetWoken (th_conns (cp_threads st ! p)) st) else None)"

text \<open>A step in \<open>RelDBConn\<close> of connection \<open>c\<close>, whoever has it; \<open>q\<close> is the waiting thread that a signal wakes, if there is one.\<close>

definition waiting :: "conn_pool \<Rightarrow> bool" where
  "waiting st \<longleftrightarrow> (\<exists>t\<in>set (cp_threads st). th_pc t = GetWait)"

definition RelDBConn_step :: "nat \<Rightarrow> nat \<Rightarrow> nat \<Rightarrow> conn_pool \<Rightarrow> conn_pool option" where
  "RelDBConn_step c q p st =
     (let cs = th_conns (cp_threads st ! p)
      in case th_pc (cp_threads st ! p) of
           Outside \<Rightarrow>
             if cp_mutex st = None then Some (set_thread p (RelTest c) (remove1 c cs) (st\<lparr>cp_mutex := Some p\<rparr>)) else None
         | RelTest c' \<Rightarrow>
             Some (set_thread p RelSignal cs (st\<lparr>cp_free_list := (if c' \<in> set (cp_free_list st) then cp_free_list st else cp_free_list st @ [c'])\<rparr>))
         | RelSignal \<Rightarrow>
             if waiting st
             then if q < length (cp_threads st) then map_option (set_thread p RelUnlock cs) (pool_wakeup q st) else None
             else Some (set_thread p RelUnlock cs st)
         | RelUnlock \<Rightarrow> Some (set_thread p Outside cs (st\<lparr>cp_mutex := None\<rparr>))
         | _ \<Rightarrow> None)"

text \<open>
  The steps of all threads. A connection that is given back is one of this pool, which is how the managers find the pool; the first argument says whether the thread
  that gives it back has it.
\<close>

inductive pool_step :: "bool \<Rightarrow> conn_pool \<Rightarrow> conn_pool \<Rightarrow> bool" where
  get: "p < length (cp_threads st) \<Longrightarrow> GetDBConn_step ret p st = Some st' \<Longrightarrow> pool_step True st st'"
| rel: "p < length (cp_threads st) \<Longrightarrow> c < cp_next st \<Longrightarrow> RelDBConn_step c q p st = Some st' \<Longrightarrow>
    pool_step (th_pc (cp_threads st ! p) = Outside \<longrightarrow> c \<in> set (th_conns (cp_threads st ! p))) st st'"
| spurious: "p < length (cp_threads st) \<Longrightarrow> pool_wakeup p st = Some st' \<Longrightarrow> pool_step True st st'"

text \<open>The second argument says whether so far every connection was given back by a thread that had it.\<close>

inductive pool_reachable :: "int \<Rightarrow> bool \<Rightarrow> conn_pool \<Rightarrow> bool" for max_conn_cnt where
  init: "pool_Init (replicate MIN_DB_CONN_CNT 0) (CDBPool max_conn_cnt threads) = (0, st) \<Longrightarrow> pool_reachable max_conn_cnt True st"
| step: "pool_reachable max_conn_cnt own st \<Longrightarrow> pool_step own1 st st' \<Longrightarrow> pool_reachable max_conn_cnt (own \<and> own1) st'"

section \<open>The invariant\<close>

text \<open>The connections that a thread has, and all connections.\<close>

fun carried :: "pool_pc \<Rightarrow> nat list" where
  "carried (GetDone c) = [c]"
| "carried (RelTest c) = [c]"
| "carried _ = []"

definition thread_conns :: "pool_thread \<Rightarrow> nat multiset" where
  "thread_conns t = mset (carried (th_pc t)) + mset (th_conns t)"

definition in_use :: "conn_pool \<Rightarrow> nat multiset" where
  "in_use st = sum_list (map thread_conns (cp_threads st))"

text \<open>The threads that hold the mutex, and those that have still to look at the list or to wake another one.\<close>

fun inside :: "pool_pc \<Rightarrow> bool" where
  "inside Outside = False"
| "inside GetWait = False"
| "inside GetWoken = False"
| "inside _ = True"

definition alert :: "pool_thread \<Rightarrow> nat" where
  "alert t = (if th_pc t = GetTest \<or> th_pc t = GetWoken \<or> th_pc t = RelSignal then 1 else 0)"

definition alerts :: "conn_pool \<Rightarrow> nat" where
  "alerts st = sum_list (map alert (cp_threads st))"

definition pool_inv :: "conn_pool \<Rightarrow> bool" where
  "pool_inv st \<longleftrightarrow>
     (\<forall>p<length (cp_threads st). inside (th_pc (cp_threads st ! p)) \<longleftrightarrow> cp_mutex st = Some p)
     \<and> (\<forall>p. cp_mutex st = Some p \<longrightarrow> p < length (cp_threads st))
     \<and> distinct (cp_free_list st) \<and> set (cp_free_list st) \<union> set_mset (in_use st) = {..<cp_next st} \<and> cp_cur_conn_cnt st = int (cp_next st)
     \<and> cp_cur_conn_cnt st \<le> max (cp_max_conn_cnt st) (int MIN_DB_CONN_CNT)
     \<and> (waiting st \<longrightarrow> cp_max_conn_cnt st \<le> cp_cur_conn_cnt st \<and> length (cp_free_list st) \<le> alerts st)"

text \<open>Every connection is in one place: this is what callers keep that give back only what they have.\<close>

definition pool_excl :: "conn_pool \<Rightarrow> bool" where
  "pool_excl st \<longleftrightarrow> mset (cp_free_list st) + in_use st = mset [0..<cp_next st]"

lemma sum_list_map_update:
  fixes f :: "'a \<Rightarrow> 'b :: comm_monoid_add"
  shows "i < length xs \<Longrightarrow> sum_list (map f (xs[i := y])) + f (xs ! i) = sum_list (map f xs) + f y"
proof (induction xs arbitrary: i)
  case (Cons x xs)
  then show ?case by (cases i) (simp_all add: ac_simps)
qed simp

lemma sum_list_member_subset:
  fixes f :: "'a \<Rightarrow> 'b multiset"
  assumes "t \<in> set ts"
  shows "f t \<subseteq># sum_list (map f ts)"
  using split_list [OF assms] by (auto simp: subset_mset.add_increasing subset_mset.add_increasing2)

lemma set_thread_simps [simp]:
  "cp_free_list (set_thread p pc cs st) = cp_free_list st" "cp_cur_conn_cnt (set_thread p pc cs st) = cp_cur_conn_cnt st"
  "cp_max_conn_cnt (set_thread p pc cs st) = cp_max_conn_cnt st" "cp_mutex (set_thread p pc cs st) = cp_mutex st" "cp_next (set_thread p pc cs st) = cp_next st"
  "cp_threads (set_thread p pc cs st) = (cp_threads st)[p := \<lparr>th_pc = pc, th_conns = cs\<rparr>]"
  by (simp_all add: set_thread_def)

text \<open>What one thread's move does to the sums.\<close>

lemma in_use_set_thread:
  "p < length (cp_threads st) \<Longrightarrow> in_use (set_thread p pc cs st) + thread_conns (cp_threads st ! p) = in_use st + thread_conns \<lparr>th_pc = pc, th_conns = cs\<rparr>"
  by (simp add: in_use_def sum_list_map_update)

lemma alerts_set_thread:
  "p < length (cp_threads st) \<Longrightarrow> alerts (set_thread p pc cs st) + alert (cp_threads st ! p) = alerts st + alert \<lparr>th_pc = pc, th_conns = cs\<rparr>"
  by (simp add: alerts_def sum_list_map_update)

lemma waiting_set_thread: "waiting (set_thread p pc cs st) \<Longrightarrow> pc = GetWait \<or> waiting st"
  by (auto simp: waiting_def dest!: subsetD [OF set_update_subset_insert])

lemma alert_le: "p < length (cp_threads st) \<Longrightarrow> alert (cp_threads st ! p) \<le> alerts st"
  unfolding alerts_def by (rule member_le_sum_list) (auto intro: nth_mem)

text \<open>The moves of a thread that keep the invariant.\<close>

lemma pool_inv_move:
  assumes inv: "pool_inv st" and p: "p < length (cp_threads st)"
    and eq: "st' = set_thread p pc cs (st\<lparr>cp_free_list := F, cp_mutex := M\<rparr>)"
    and mutex: "M = cp_mutex st \<and> inside pc = inside (th_pc (cp_threads st ! p)) \<or> M = Some p \<and> cp_mutex st = None \<and> inside pc
      \<or> M = None \<and> cp_mutex st = Some p \<and> \<not> inside pc"
    and F: "distinct F"
    and conns: "set (cp_free_list st) \<union> set_mset (thread_conns (cp_threads st ! p)) \<subseteq> set F \<union> set_mset (thread_conns \<lparr>th_pc = pc, th_conns = cs\<rparr>)"
      "set F \<union> set_mset (thread_conns \<lparr>th_pc = pc, th_conns = cs\<rparr>) \<subseteq> {..<cp_next st}"
    and wait: "waiting st' \<Longrightarrow> cp_max_conn_cnt st \<le> cp_cur_conn_cnt st
      \<and> length F + alert (cp_threads st ! p) \<le> alerts st + alert \<lparr>th_pc = pc, th_conns = cs\<rparr>"
  shows "pool_inv st'"
proof -
  let ?old = "thread_conns (cp_threads st ! p)" and ?new = "thread_conns \<lparr>th_pc = pc, th_conns = cs\<rparr>"
  have i: "inside (th_pc (cp_threads st ! q)) \<longleftrightarrow> cp_mutex st = Some q" if "q < length (cp_threads st)" for q
    using inv that by (simp add: pool_inv_def)
  have m: "cp_mutex st = Some q \<Longrightarrow> q < length (cp_threads st)" for q using inv by (simp add: pool_inv_def)
  have u: "in_use st' + ?old = in_use st + ?new"
    using in_use_set_thread [OF p, of pc cs] by (simp add: eq in_use_def)
  have a: "alerts st' + alert (cp_threads st ! p) = alerts st + alert \<lparr>th_pc = pc, th_conns = cs\<rparr>"
    using alerts_set_thread [OF p, of pc cs] by (simp add: eq alerts_def)
  have all: "set (cp_free_list st) \<union> set_mset (in_use st) = {..<cp_next st}" using inv by (simp add: pool_inv_def)
  have su: "set_mset (in_use st') \<union> set_mset ?old = set_mset (in_use st) \<union> set_mset ?new" using arg_cong [OF u, of set_mset] by simp
  have "?new \<subseteq># in_use st'"
    unfolding in_use_def eq using p by (intro sum_list_member_subset) (auto simp: set_update_memI)
  then have new: "set_mset ?new \<subseteq> set_mset (in_use st')" by (rule set_mset_mono)
  have "set F \<union> set_mset (in_use st') = {..<cp_next st}" using su new conns all by blast
  moreover have "inside (th_pc (cp_threads st' ! q)) \<longleftrightarrow> cp_mutex st' = Some q" if "q < length (cp_threads st')" for q
    using that mutex i [of q] i [OF p] p by (cases "q = p") (auto simp: eq)
  moreover have "cp_mutex st' = Some q \<Longrightarrow> q < length (cp_threads st')" for q using mutex m p by (auto simp: eq)
  moreover have "waiting st' \<Longrightarrow> length F \<le> alerts st'" using wait a by linarith
  ultimately show ?thesis using inv wait F by (auto simp: pool_inv_def eq)
qed

lemma pool_excl_move:
  assumes excl: "pool_excl st" and p: "p < length (cp_threads st)"
    and eq: "st' = set_thread p pc cs (st\<lparr>cp_free_list := F, cp_mutex := M\<rparr>)"
    and conns: "mset F + thread_conns \<lparr>th_pc = pc, th_conns = cs\<rparr> = mset (cp_free_list st) + thread_conns (cp_threads st ! p)"
  shows "pool_excl st'"
proof -
  let ?old = "thread_conns (cp_threads st ! p)" and ?new = "thread_conns \<lparr>th_pc = pc, th_conns = cs\<rparr>"
  have u: "in_use st' + ?old = in_use st + ?new"
    using in_use_set_thread [OF p, of pc cs] by (simp add: eq in_use_def)
  have "(mset F + in_use st') + (?old + ?new) = (mset (cp_free_list st) + in_use st) + (?old + ?new)"
    using u conns by (metis (no_types, lifting) add.assoc add.commute)
  then show ?thesis using excl by (simp add: pool_excl_def eq)
qed

lemma pool_inv_waiting: "pool_inv st \<Longrightarrow> waiting st \<Longrightarrow> cp_max_conn_cnt st \<le> cp_cur_conn_cnt st \<and> length (cp_free_list st) \<le> alerts st"
  by (simp add: pool_inv_def)

lemma pool_inv_inside: "pool_inv st \<Longrightarrow> p < length (cp_threads st) \<Longrightarrow> inside (th_pc (cp_threads st ! p)) \<longleftrightarrow> cp_mutex st = Some p"
  by (simp add: pool_inv_def)

lemma waiting_update: "waiting (set_thread p pc cs (st\<lparr>cp_free_list := F, cp_mutex := M\<rparr>)) \<Longrightarrow> pc = GetWait \<or> waiting st"
  by (auto simp: waiting_def dest!: subsetD [OF set_update_subset_insert])

abbreviation keeps_pool :: "conn_pool \<Rightarrow> conn_pool \<Rightarrow> bool" where
  "keeps_pool st st' \<equiv> pool_inv st' \<and> (pool_excl st \<longrightarrow> pool_excl st')"

lemma pool_inv_conns:
  assumes "pool_inv st" "p < length (cp_threads st)"
  shows "distinct (cp_free_list st)" "set (cp_free_list st) \<union> set_mset (thread_conns (cp_threads st ! p)) \<subseteq> {..<cp_next st}"
proof -
  have "set_mset (thread_conns (cp_threads st ! p)) \<subseteq> set_mset (in_use st)"
    unfolding in_use_def using assms(2) by (intro set_mset_mono sum_list_member_subset) simp
  then show "set (cp_free_list st) \<union> set_mset (thread_conns (cp_threads st ! p)) \<subseteq> {..<cp_next st}" "distinct (cp_free_list st)"
    using assms(1) by (auto simp: pool_inv_def)
qed

text \<open>A move that only passes connections between the list and the thread, and one that is not the start of waiting.\<close>

lemma pool_move:
  assumes inv: "pool_inv st" and p: "p < length (cp_threads st)"
    and eq: "st' = set_thread p pc cs (st\<lparr>cp_free_list := F, cp_mutex := M\<rparr>)"
    and mutex: "M = cp_mutex st \<and> inside pc = inside (th_pc (cp_threads st ! p)) \<or> M = Some p \<and> cp_mutex st = None \<and> inside pc
      \<or> M = None \<and> cp_mutex st = Some p \<and> \<not> inside pc"
    and F: "distinct F"
    and conns: "mset F + thread_conns \<lparr>th_pc = pc, th_conns = cs\<rparr> = mset (cp_free_list st) + thread_conns (cp_threads st ! p)"
    and wait: "waiting st' \<Longrightarrow> cp_max_conn_cnt st \<le> cp_cur_conn_cnt st
      \<and> length F + alert (cp_threads st ! p) \<le> alerts st + alert \<lparr>th_pc = pc, th_conns = cs\<rparr>"
  shows "keeps_pool st st'"
proof
  have "set F \<union> set_mset (thread_conns \<lparr>th_pc = pc, th_conns = cs\<rparr>) = set (cp_free_list st) \<union> set_mset (thread_conns (cp_threads st ! p))"
    using arg_cong [OF conns, of set_mset] by simp
  then show "pool_inv st'" using pool_inv_conns(2) [OF inv p] by (intro pool_inv_move [OF inv p eq mutex F _ _ wait]) simp_all
  show "pool_excl st \<longrightarrow> pool_excl st'" using pool_excl_move [OF _ p eq conns] by blast
qed

text \<open>What the moves that do not start waiting owe.\<close>

lemma quiet_move:
  assumes inv: "pool_inv st" and p: "p < length (cp_threads st)"
    and eq: "st' = set_thread p pc cs (st\<lparr>cp_free_list := F, cp_mutex := M\<rparr>)" and pc: "pc \<noteq> GetWait"
  shows "M = None \<and> inside (th_pc (cp_threads st ! p)) \<and> \<not> inside pc \<Longrightarrow> M = None \<and> cp_mutex st = Some p \<and> \<not> inside pc"
    and "(waiting st \<Longrightarrow> length F + alert (cp_threads st ! p) \<le> length (cp_free_list st) + alert \<lparr>th_pc = pc, th_conns = cs\<rparr>) \<Longrightarrow> waiting st' \<Longrightarrow>
      cp_max_conn_cnt st \<le> cp_cur_conn_cnt st \<and> length F + alert (cp_threads st ! p) \<le> alerts st + alert \<lparr>th_pc = pc, th_conns = cs\<rparr>"
proof -
  show "M = None \<and> inside (th_pc (cp_threads st ! p)) \<and> \<not> inside pc \<Longrightarrow> M = None \<and> cp_mutex st = Some p \<and> \<not> inside pc"
    using pool_inv_inside [OF inv p] by blast
  assume w: "waiting st \<Longrightarrow> length F + alert (cp_threads st ! p) \<le> length (cp_free_list st) + alert \<lparr>th_pc = pc, th_conns = cs\<rparr>" and "waiting st'"
  then have "waiting st" using waiting_update pc unfolding eq by blast
  then show "cp_max_conn_cnt st \<le> cp_cur_conn_cnt st \<and> length F + alert (cp_threads st ! p) \<le> alerts st + alert \<lparr>th_pc = pc, th_conns = cs\<rparr>"
    using w pool_inv_waiting [OF inv] by fastforce
qed

lemma pool_move':
  assumes inv: "pool_inv st" and p: "p < length (cp_threads st)"
    and eq: "st' = set_thread p pc cs (st\<lparr>cp_free_list := F, cp_mutex := M\<rparr>)" and pc: "pc \<noteq> GetWait"
    and mutex: "M = cp_mutex st \<and> inside pc = inside (th_pc (cp_threads st ! p)) \<or> M = Some p \<and> cp_mutex st = None \<and> inside pc
      \<or> M = None \<and> inside (th_pc (cp_threads st ! p)) \<and> \<not> inside pc"
    and F: "distinct F"
    and conns: "mset F + thread_conns \<lparr>th_pc = pc, th_conns = cs\<rparr> = mset (cp_free_list st) + thread_conns (cp_threads st ! p)"
    and wait: "waiting st \<Longrightarrow> length F + alert (cp_threads st ! p) \<le> length (cp_free_list st) + alert \<lparr>th_pc = pc, th_conns = cs\<rparr>"
  shows "keeps_pool st st'"
  using mutex quiet_move(1) [OF inv p eq pc] by (intro pool_move [OF inv p eq _ F conns] quiet_move(2) [OF inv p eq pc wait]) blast+

lemma GetDBConn_step_inv:
  assumes inv: "pool_inv st" and p: "p < length (cp_threads st)" and s: "GetDBConn_step ret p st = Some st'"
  shows "keeps_pool st st'"
proof -
  let ?t = "cp_threads st ! p"
  note W = pool_inv_waiting [OF inv] and I = pool_inv_inside [OF inv p] and M = pool_move [OF inv p] and M' = pool_move' [OF inv p]
    and d = pool_inv_conns(1) [OF inv p]
  show ?thesis
  proof (cases "th_pc ?t")
    case Outside
    then have "cp_mutex st = None" and st': "st' = set_thread p GetTest (th_conns ?t) (st\<lparr>cp_free_list := cp_free_list st, cp_mutex := Some p\<rparr>)"
      using s by (auto simp: GetDBConn_step_def Let_def split: if_splits)
    then show ?thesis by (intro M' [OF st']) (simp_all add: thread_conns_def alert_def Outside d)
  next
    case GetTest
    show ?thesis
    proof (cases "cp_free_list st")
      case (Cons c rest)
      then have st': "st' = set_thread p (GetDone c) (th_conns ?t) (st\<lparr>cp_free_list := rest, cp_mutex := cp_mutex st\<rparr>)"
        using s GetTest by (simp add: GetDBConn_step_def Let_def)
      show ?thesis by (rule M' [OF st']) (use d in \<open>simp_all add: thread_conns_def alert_def GetTest Cons\<close>)
    next
      case Nil
      show ?thesis
      proof (cases "cp_cur_conn_cnt st \<ge> cp_max_conn_cnt st")
        case True
        then have "st' = set_thread p GetWait (th_conns ?t) (st\<lparr>cp_mutex := None\<rparr>)" using s GetTest Nil by (simp add: GetDBConn_step_def Let_def)
        then have st': "st' = set_thread p GetWait (th_conns ?t) (st\<lparr>cp_free_list := cp_free_list st, cp_mutex := None\<rparr>)" by simp
        show ?thesis by (rule M [OF st']) (use I alert_le [OF p] in \<open>simp_all add: thread_conns_def alert_def GetTest Nil True\<close>)
      next
        case False
        then have nw: "\<not> waiting st" using W by auto
        show ?thesis
        proof (cases "ret = 0")
          case True
          then have st': "st' = st\<lparr>cp_free_list := [cp_next st], cp_next := cp_next st + 1, cp_cur_conn_cnt := cp_cur_conn_cnt st + 1\<rparr>"
            using s GetTest Nil False by (simp add: GetDBConn_step_def Let_def)
          have "pool_inv st'" using inv nw Nil False by (auto simp: st' pool_inv_def waiting_def in_use_def)
          moreover have "pool_excl st \<longrightarrow> pool_excl st'" using Nil by (simp add: st' pool_excl_def in_use_def)
          ultimately show ?thesis by blast
        next
          case ret: False
          then have "st' = set_thread p Outside (th_conns ?t) (st\<lparr>cp_mutex := None\<rparr>)" using s GetTest Nil False by (simp add: GetDBConn_step_def Let_def)
          then have st': "st' = set_thread p Outside (th_conns ?t) (st\<lparr>cp_free_list := cp_free_list st, cp_mutex := None\<rparr>)" by simp
          show ?thesis by (rule M' [OF st']) (simp_all add: thread_conns_def alert_def GetTest Nil nw)
        qed
      qed
    qed
  next
    case GetWoken
    then have "cp_mutex st = None" and st': "st' = set_thread p GetTest (th_conns ?t) (st\<lparr>cp_free_list := cp_free_list st, cp_mutex := Some p\<rparr>)"
      using s by (auto simp: GetDBConn_step_def Let_def split: if_splits)
    then show ?thesis by (intro M' [OF st']) (simp_all add: thread_conns_def alert_def GetWoken d)
  next
    case (GetDone c)
    then have st': "st' = set_thread p Outside (c # th_conns ?t) (st\<lparr>cp_free_list := cp_free_list st, cp_mutex := None\<rparr>)"
      using s by (simp add: GetDBConn_step_def Let_def)
    show ?thesis by (rule M' [OF st']) (simp_all add: thread_conns_def alert_def GetDone d)
  qed (use s in \<open>simp_all add: GetDBConn_step_def Let_def\<close>)
qed

lemma pool_wakeup_inv:
  assumes inv: "pool_inv st" and p: "p < length (cp_threads st)" and s: "pool_wakeup p st = Some st'"
  shows "keeps_pool st st'" "alerts st' = Suc (alerts st)"
proof -
  let ?t = "cp_threads st ! p"
  have w: "th_pc ?t = GetWait" and st': "st' = set_thread p GetWoken (th_conns ?t) (st\<lparr>cp_free_list := cp_free_list st, cp_mutex := cp_mutex st\<rparr>)"
    using s by (auto simp: pool_wakeup_def split: if_splits)
  show "keeps_pool st st'" by (rule pool_move' [OF inv p st']) (simp_all add: thread_conns_def alert_def w pool_inv_conns(1) [OF inv p])
  show "alerts st' = Suc (alerts st)" using alerts_set_thread [OF p, of GetWoken "th_conns ?t"] w by (simp add: st' alert_def)
qed

text \<open>Giving a connection back: a thread that has it only passes it on, and any other leaves it with those that have it.\<close>

lemma RelDBConn_begin:
  assumes inv: "pool_inv st" and p: "p < length (cp_threads st)" and o: "th_pc (cp_threads st ! p) = Outside" and c: "c < cp_next st"
    and s: "RelDBConn_step c q p st = Some st'"
  shows "pool_inv st' \<and> (c \<in> set (th_conns (cp_threads st ! p)) \<longrightarrow> pool_excl st \<longrightarrow> pool_excl st')"
proof -
  let ?t = "cp_threads st ! p"
  have m: "cp_mutex st = None"
    and st': "st' = set_thread p (RelTest c) (remove1 c (th_conns ?t)) (st\<lparr>cp_free_list := cp_free_list st, cp_mutex := Some p\<rparr>)"
    using s o by (auto simp: RelDBConn_step_def Let_def split: if_splits)
  note d = pool_inv_conns [OF inv p]
  have "pool_inv st'"
  proof (rule pool_inv_move [OF inv p st' _ d(1)])
    show "set (cp_free_list st) \<union> set_mset (thread_conns ?t) \<subseteq> set (cp_free_list st) \<union> set_mset (thread_conns \<lparr>th_pc = RelTest c, th_conns = remove1 c (th_conns ?t)\<rparr>)"
      by (auto simp: thread_conns_def o in_diff_count)
    show "set (cp_free_list st) \<union> set_mset (thread_conns \<lparr>th_pc = RelTest c, th_conns = remove1 c (th_conns ?t)\<rparr>) \<subseteq> {..<cp_next st}"
      using d(2) c by (auto simp: thread_conns_def o dest!: in_diffD)
    show "waiting st' \<Longrightarrow> cp_max_conn_cnt st \<le> cp_cur_conn_cnt st
        \<and> length (cp_free_list st) + alert ?t \<le> alerts st + alert \<lparr>th_pc = RelTest c, th_conns = remove1 c (th_conns ?t)\<rparr>"
      by (rule quiet_move(2) [OF inv p st']) (simp_all add: alert_def o)
  qed (simp add: m)
  moreover have "pool_excl st'" if "c \<in> set (th_conns ?t)" "pool_excl st"
    using that by (intro pool_excl_move [OF that(2) p st']) (simp add: thread_conns_def o)
  ultimately show ?thesis by blast
qed

lemma free_not_carried:
  assumes excl: "pool_excl st" and p: "p < length (cp_threads st)" and c: "c \<in> set (cp_free_list st)"
  shows "c \<notin># thread_conns (cp_threads st ! p)"
proof
  assume "c \<in># thread_conns (cp_threads st ! p)"
  moreover have "thread_conns (cp_threads st ! p) \<subseteq># in_use st" unfolding in_use_def using p by (intro sum_list_member_subset) simp
  ultimately have "c \<in># in_use st" by (rule mset_subset_eqD [rotated])
  then have "1 \<le> count (in_use st) c" "1 \<le> count (mset (cp_free_list st)) c" using c by (simp_all add: Suc_le_eq)
  moreover have "count (mset (cp_free_list st)) c + count (in_use st) c = count (mset [0..<cp_next st]) c"
    using excl unfolding pool_excl_def by (metis count_union)
  moreover have "count (mset [0..<cp_next st]) c \<le> 1" using distinct_count_atmost_1 [of "[0..<cp_next st]"] by (simp split: if_splits)
  ultimately show False by linarith
qed

lemma RelDBConn_go_on:
  assumes inv: "pool_inv st" and p: "p < length (cp_threads st)" and o: "th_pc (cp_threads st ! p) \<noteq> Outside"
    and s: "RelDBConn_step c q p st = Some st'"
  shows "keeps_pool st st'"
proof -
  let ?t = "cp_threads st ! p"
  note M' = pool_move' [OF inv p] and d = pool_inv_conns [OF inv p]
  show ?thesis
  proof (cases "th_pc ?t")
    case (RelTest c')
    show ?thesis
    proof (cases "c' \<in> set (cp_free_list st)")
      case True
      then have st': "st' = set_thread p RelSignal (th_conns ?t) (st\<lparr>cp_free_list := cp_free_list st, cp_mutex := cp_mutex st\<rparr>)"
        using s RelTest by (simp add: RelDBConn_step_def Let_def)
      have "pool_inv st'"
      proof (rule pool_inv_move [OF inv p st' _ d(1)])
        show "waiting st' \<Longrightarrow> cp_max_conn_cnt st \<le> cp_cur_conn_cnt st
            \<and> length (cp_free_list st) + alert ?t \<le> alerts st + alert \<lparr>th_pc = RelSignal, th_conns = th_conns ?t\<rparr>"
          by (rule quiet_move(2) [OF inv p st']) (simp_all add: alert_def RelTest)
      qed (use d(2) True in \<open>auto simp: thread_conns_def RelTest\<close>)
      moreover have "\<not> pool_excl st" using free_not_carried [OF _ p True] by (auto simp: thread_conns_def RelTest)
      ultimately show ?thesis by blast
    next
      case False
      then have st': "st' = set_thread p RelSignal (th_conns ?t) (st\<lparr>cp_free_list := cp_free_list st @ [c'], cp_mutex := cp_mutex st\<rparr>)"
        using s RelTest by (simp add: RelDBConn_step_def Let_def)
      show ?thesis by (rule M' [OF st']) (use d(1) False in \<open>simp_all add: thread_conns_def alert_def RelTest\<close>)
    qed
  next
    case RelSignal
    show ?thesis
    proof (cases "waiting st")
      case False
      then have st': "st' = set_thread p RelUnlock (th_conns ?t) (st\<lparr>cp_free_list := cp_free_list st, cp_mutex := cp_mutex st\<rparr>)"
        using s RelSignal by (simp add: RelDBConn_step_def Let_def)
      show ?thesis by (rule M' [OF st']) (simp_all add: thread_conns_def alert_def RelSignal False d(1))
    next
      case True
      then obtain st1 where q: "q < length (cp_threads st)" and s1: "pool_wakeup q st = Some st1" and "st' = set_thread p RelUnlock (th_conns ?t) st1"
        using s RelSignal by (auto simp: RelDBConn_step_def Let_def split: if_splits)
      then have st': "st' = set_thread p RelUnlock (th_conns ?t) (st1\<lparr>cp_free_list := cp_free_list st1, cp_mutex := cp_mutex st1\<rparr>)" by simp
      note w = pool_wakeup_inv [OF inv q s1]
      have same: "cp_threads st1 ! p = ?t" "p < length (cp_threads st1)" "cp_free_list st1 = cp_free_list st"
        "cp_max_conn_cnt st1 = cp_max_conn_cnt st" "cp_cur_conn_cnt st1 = cp_cur_conn_cnt st"
      proof -
        have "q \<noteq> p" using s1 RelSignal by (auto simp: pool_wakeup_def)
        then show "cp_threads st1 ! p = ?t" "p < length (cp_threads st1)" "cp_free_list st1 = cp_free_list st"
          "cp_max_conn_cnt st1 = cp_max_conn_cnt st" "cp_cur_conn_cnt st1 = cp_cur_conn_cnt st"
          using s1 p by (auto simp: pool_wakeup_def nth_list_update split: if_splits)
      qed
      have "keeps_pool st1 st'"
        by (rule pool_move [OF conjunct1 [OF w(1)] same(2) st'])
           (use same(1) d(1) pool_inv_waiting [OF inv True] w(2) in \<open>simp_all add: thread_conns_def alert_def RelSignal same(3-5)\<close>)
      then show ?thesis using w(1) by blast
    qed
  next
    case RelUnlock
    then have st': "st' = set_thread p Outside (th_conns ?t) (st\<lparr>cp_free_list := cp_free_list st, cp_mutex := None\<rparr>)"
      using s by (simp add: RelDBConn_step_def Let_def)
    show ?thesis by (rule M' [OF st']) (simp_all add: thread_conns_def alert_def RelUnlock d(1))
  qed (use s o in \<open>simp_all add: RelDBConn_step_def Let_def\<close>)
qed

lemma pool_step_inv:
  assumes "pool_step own st st'" "pool_inv st"
  shows "pool_inv st'" "own \<Longrightarrow> pool_excl st \<Longrightarrow> pool_excl st'" "cp_max_conn_cnt st' = cp_max_conn_cnt st"
proof -
  have "pool_inv st' \<and> (own \<longrightarrow> pool_excl st \<longrightarrow> pool_excl st')"
    using assms(1)
  proof cases
    case (rel p c q)
    then show ?thesis using RelDBConn_begin [OF assms(2) rel(2) _ rel(3,4)] RelDBConn_go_on [OF assms(2) rel(2) _ rel(4)] by blast
  qed (use assms(2) GetDBConn_step_inv pool_wakeup_inv(1) in blast)+
  then show "pool_inv st'" "own \<Longrightarrow> pool_excl st \<Longrightarrow> pool_excl st'" by blast+
  show "cp_max_conn_cnt st' = cp_max_conn_cnt st" using assms(1)
    by (cases rule: pool_step.cases)
       (auto simp: GetDBConn_step_def RelDBConn_step_def pool_wakeup_def Let_def split: pool_pc.splits list.splits if_splits)
qed

lemma pool_started: "pool_Init (replicate MIN_DB_CONN_CNT 0) (CDBPool m n) = (0, st) \<Longrightarrow> st = (CDBPool m n)\<lparr>cp_free_list := [0, 1], cp_next := 2\<rparr>"
  by (simp add: CDBPool_def numeral_2_eq_2)

lemma pool_inv_start: "pool_inv ((CDBPool m n)\<lparr>cp_free_list := [0, 1], cp_next := 2\<rparr>)" "pool_excl ((CDBPool m n)\<lparr>cp_free_list := [0, 1], cp_next := 2\<rparr>)"
proof -
  have "mset [0..<2] = {#0, 1 :: nat#}" by (simp add: upt_rec)
  moreover have "sum_list (map thread_conns (replicate n \<lparr>th_pc = Outside, th_conns = []\<rparr>)) = {#}"
    by (induction n) (simp_all add: thread_conns_def)
  ultimately show "pool_inv ((CDBPool m n)\<lparr>cp_free_list := [0, 1], cp_next := 2\<rparr>)" "pool_excl ((CDBPool m n)\<lparr>cp_free_list := [0, 1], cp_next := 2\<rparr>)"
    by (auto simp add: pool_inv_def pool_excl_def CDBPool_def waiting_def in_use_def simp del: map_replicate)
qed

lemma pool_reachable_inv: "pool_reachable m own st \<Longrightarrow> pool_inv st \<and> (own \<longrightarrow> pool_excl st) \<and> cp_max_conn_cnt st = m"
proof (induction rule: pool_reachable.induct)
  case (init threads st)
  then show ?case using pool_inv_start [where m = m and n = threads] pool_started [OF init] by (simp add: CDBPool_def)
next
  case (step own st own1 st')
  then show ?case using pool_step_inv [OF step.hyps(2)] by blast
qed

section \<open>Properties\<close>

text \<open>Runs of given steps, for examples.\<close>

datatype pool_act = Get nat int | Rel nat nat nat

fun pool_run :: "pool_act list \<Rightarrow> conn_pool \<Rightarrow> conn_pool option" where
  "pool_run [] st = Some st"
| "pool_run (a # as) st =
     Option.bind (case a of Get p ret \<Rightarrow> if p < length (cp_threads st) then GetDBConn_step ret p st else None
                          | Rel p c q \<Rightarrow> if p < length (cp_threads st) \<and> c < cp_next st then RelDBConn_step c q p st else None) (pool_run as)"

fun is_Get :: "pool_act \<Rightarrow> bool" where
  "is_Get (Get _ _) = True"
| "is_Get _ = False"

lemma pool_run_reachable:
  "pool_run as st = Some st' \<Longrightarrow> pool_reachable m own st \<Longrightarrow> \<exists>own'. pool_reachable m own' st' \<and> (own \<longrightarrow> list_all is_Get as \<longrightarrow> own')"
proof (induction as arbitrary: st own)
  case (Cons a as)
  then obtain st1 own1 where st1: "pool_step own1 st st1" "pool_run as st1 = Some st'" "is_Get a \<longrightarrow> own1"
    by (cases a) (auto simp: bind_eq_Some_conv split: if_splits dest: pool_step.intros)
  then show ?case using Cons.IH [OF st1(2) pool_reachable.step [OF Cons.prems(2) st1(1)]] by auto
qed auto

definition demo_pool :: "nat \<Rightarrow> conn_pool" where
  "demo_pool n = snd (pool_Init (replicate MIN_DB_CONN_CNT 0) (CDBPool 2 n))"

lemma demo_pool_reachable: "pool_reachable 2 True (demo_pool n)"
  by (rule pool_reachable.init [of _ n]) (simp add: demo_pool_def CDBPool_def numeral_2_eq_2)

text \<open>Three threads; the third finds no connection and waits.\<close>

definition demo_pool_run :: "pool_act list" where
  "demo_pool_run = [Get 0 0, Get 0 0, Get 0 0, Get 1 0, Get 1 0, Get 1 0, Get 2 0, Get 2 0]"

definition demo_full_pool :: conn_pool where
  "demo_full_pool = the (pool_run demo_pool_run (demo_pool 3))"

lemma demo_full_state: "pool_run demo_pool_run (demo_pool 3) = Some demo_full_pool" "map th_conns (cp_threads demo_full_pool) = [[0], [1], []]"
  "map th_pc (cp_threads demo_full_pool) = [Outside, Outside, GetWait]" "cp_free_list demo_full_pool = []"
  by code_simp+

lemma demo_full_reachable: "pool_reachable 2 True demo_full_pool"
proof -
  have "list_all is_Get demo_pool_run" by (simp add: demo_pool_run_def)
  then obtain own where "pool_reachable 2 own demo_full_pool" "own" using pool_run_reachable [OF demo_full_state(1) demo_pool_reachable] by blast
  then show ?thesis by simp
qed

lemma count_in_use: "count (in_use st) c = (\<Sum>i<length (cp_threads st). count (thread_conns (cp_threads st ! i)) c)"
proof -
  have "count (sum_list (map f ts)) c = sum_list (map (\<lambda>t. count (f t) c) ts)" for f :: "pool_thread \<Rightarrow> nat multiset" and ts
    by (induction ts) simp_all
  then show ?thesis by (simp add: in_use_def sum_list_sum_nth lessThan_atLeast0)
qed

lemma in_use_once:
  assumes excl: "pool_excl st"
  shows "count (mset (cp_free_list st)) c + count (in_use st) c \<le> 1"
proof -
  have "count (mset (cp_free_list st)) c + count (in_use st) c = count (mset [0..<cp_next st]) c"
    using excl unfolding pool_excl_def by (metis count_union)
  also have "\<dots> \<le> 1" using distinct_count_atmost_1 [of "[0..<cp_next st]"] by (simp split: if_splits)
  finally show ?thesis .
qed

lemma count_thread_le: "p < length (cp_threads st) \<Longrightarrow> count (mset (th_conns (cp_threads st ! p))) c \<le> count (in_use st) c"
  unfolding count_in_use by (rule order_trans [OF _ member_le_sum [of p]]) (simp_all add: thread_conns_def)

lemma count_two_threads:
  assumes "p < length (cp_threads st)" "q < length (cp_threads st)" "p \<noteq> q"
  shows "count (mset (th_conns (cp_threads st ! p))) c + count (mset (th_conns (cp_threads st ! q))) c \<le> count (in_use st) c"
proof -
  have "(\<Sum>i\<in>{p, q}. count (thread_conns (cp_threads st ! i)) c) \<le> count (in_use st) c"
    unfolding count_in_use using assms by (intro sum_mono2) auto
  then show ?thesis using assms(3) by (simp add: thread_conns_def)
qed

text \<open>No connection with two threads, with one thread twice, or with a thread and free.\<close>

definition exclusive :: "conn_pool \<Rightarrow> bool" where
  "exclusive st \<longleftrightarrow> (\<forall>p<length (cp_threads st). distinct (th_conns (cp_threads st ! p)) \<and> set (th_conns (cp_threads st ! p)) \<inter> set (cp_free_list st) = {}
      \<and> (\<forall>q<length (cp_threads st). q \<noteq> p \<longrightarrow> set (th_conns (cp_threads st ! p)) \<inter> set (th_conns (cp_threads st ! q)) = {}))"

lemma excl_exclusive:
  assumes excl: "pool_excl st"
  shows "exclusive st"
  unfolding exclusive_def
proof (intro allI impI conjI)
  note once = in_use_once [OF excl]
  fix p assume p: "p < length (cp_threads st)"
  have le: "count (mset (cp_free_list st)) c + count (mset (th_conns (cp_threads st ! p))) c \<le> 1" for c
    using once [of c] count_thread_le [OF p, of c] by linarith
  show "distinct (th_conns (cp_threads st ! p))"
    unfolding distinct_count_atmost_1 using le by (metis add_leE count_mset_0_iff le_antisym less_one not_le)
  show "set (th_conns (cp_threads st ! p)) \<inter> set (cp_free_list st) = {}"
  proof (intro equals0I)
    fix c assume "c \<in> set (th_conns (cp_threads st ! p)) \<inter> set (cp_free_list st)"
    then have "1 \<le> count (mset (th_conns (cp_threads st ! p))) c" "1 \<le> count (mset (cp_free_list st)) c" by (simp_all add: Suc_le_eq)
    then show False using le [of c] by linarith
  qed
  fix q assume q: "q < length (cp_threads st)" "q \<noteq> p"
  show "set (th_conns (cp_threads st ! p)) \<inter> set (th_conns (cp_threads st ! q)) = {}"
  proof (intro equals0I)
    fix c assume "c \<in> set (th_conns (cp_threads st ! p)) \<inter> set (th_conns (cp_threads st ! q))"
    then have "1 \<le> count (mset (th_conns (cp_threads st ! p))) c" "1 \<le> count (mset (th_conns (cp_threads st ! q))) c" by (simp_all add: Suc_le_eq)
    then show False using once [of c] count_two_threads [OF p q(1), of c] q(2) by linarith
  qed
qed

text \<open>
  C26: What a pool guarantees, however the threads interleave, whichever connections cannot be made, and whoever gives connections back, even repeatedly: no
  connection is in the list of free ones twice, every connection is in the list or with a thread, and there are never more than the configured number, or two. And if every
  connection was given back by a thread that had it, then no connection is with two threads or with one thread twice, and none that a thread has is free. Without
  that discipline of the callers the last part fails, as \<open>repeated_release_shares\<close> shows.
\<close>

theorem pool_connections_exclusive:
  assumes "pool_reachable m own st"
  shows "distinct (cp_free_list st) \<and> set (cp_free_list st) \<union> set_mset (in_use st) = {..<cp_next st} \<and> int (cp_next st) \<le> max m 2
    \<and> (own \<longrightarrow> exclusive st)"
  using pool_reachable_inv [OF assms] excl_exclusive [of st] by (auto simp: pool_inv_def)

theorem pool_connections_exclusive_witness:
  "set (th_conns (cp_threads demo_full_pool ! 0)) \<inter> set (th_conns (cp_threads demo_full_pool ! 1)) = {}"
proof -
  have "length (cp_threads demo_full_pool) = 3" using arg_cong [OF demo_full_state(2), of length] by simp
  then show ?thesis using pool_connections_exclusive [OF demo_full_reachable] by (simp add: exclusive_def)
qed

text \<open>
  What \<open>removeRepeatUser\<close> does: it takes one connection and gives it back once for every user. Between the two, another thread takes it, and then a third one: both have
  connection 0.
\<close>

lemma repeated_release_shares:
  "map_option (\<lambda>st. map th_conns (cp_threads st))
     (pool_run [Get 0 0, Get 0 0, Get 0 0, Get 1 0, Get 1 0, Get 1 0, Rel 0 0 0, Rel 0 0 0, Rel 0 0 0, Rel 0 0 0,
                Get 2 0, Get 2 0, Get 2 0, Rel 0 0 0, Rel 0 0 0, Rel 0 0 0, Rel 0 0 0, Get 3 0, Get 3 0, Get 3 0] (demo_pool 4))
   = Some [[], [1], [0], [0]]"
  by code_simp

lemma alert_thread:
  assumes "alerts st \<noteq> 0"
  shows "\<exists>p<length (cp_threads st). th_pc (cp_threads st ! p) \<in> {GetTest, GetWoken, RelSignal}"
proof -
  obtain t where "t \<in> set (cp_threads st)" "alert t \<noteq> 0" using assms by (auto simp: alerts_def)
  then show ?thesis by (auto simp: alert_def in_set_conv_nth split: if_splits)
qed

text \<open>
  C27: No lost wake-up, whoever gives connections back. As long as a thread waits and a connection is free, some thread that is in one of the functions can go on. So when
  all threads are outside or wait, one that waits does so because no connection is free: each of them was taken by some thread that has not given it back, and no more
  may be made.
\<close>

theorem pool_waits_only_when_exhausted:
  assumes "pool_reachable m own st" "waiting st"
  shows "(cp_free_list st \<noteq> [] \<longrightarrow> (\<exists>p st'. p < length (cp_threads st) \<and> th_pc (cp_threads st ! p) \<notin> {Outside, GetWait}
      \<and> (GetDBConn_step 0 p st = Some st' \<or> (\<exists>c q. RelDBConn_step c q p st = Some st'))))
    \<and> ((\<forall>t\<in>set (cp_threads st). th_pc t \<in> {Outside, GetWait}) \<longrightarrow>
        cp_free_list st = [] \<and> set_mset (in_use st) = {..<cp_next st} \<and> m \<le> int (cp_next st))"
proof (intro conjI impI)
  have inv: "pool_inv st" using pool_reachable_inv [OF assms(1)] by simp
  note w = pool_inv_waiting [OF inv assms(2)]
  assume "cp_free_list st \<noteq> []"
  then have "alerts st \<noteq> 0" using w by (cases "cp_free_list st") auto
  then obtain p where p: "p < length (cp_threads st)" "th_pc (cp_threads st ! p) \<in> {GetTest, GetWoken, RelSignal}" using alert_thread by blast
  obtain c rest where free: "cp_free_list st = c # rest" using \<open>cp_free_list st \<noteq> []\<close> by (cases "cp_free_list st") auto
  obtain t where "t \<in> set (cp_threads st)" "th_pc t = GetWait" using assms(2) by (auto simp: waiting_def)
  then obtain q where q: "q < length (cp_threads st)" "th_pc (cp_threads st ! q) = GetWait" by (auto simp: in_set_conv_nth)
  show "\<exists>p st'. p < length (cp_threads st) \<and> th_pc (cp_threads st ! p) \<notin> {Outside, GetWait}
      \<and> (GetDBConn_step 0 p st = Some st' \<or> (\<exists>c q. RelDBConn_step c q p st = Some st'))"
  proof (cases "cp_mutex st")
    case None
    then have "th_pc (cp_threads st ! p) = GetWoken" using p pool_inv_inside [OF inv p(1)] by auto
    then show ?thesis using p(1) None
      by (intro exI [of _ p] exI [of _ "set_thread p GetTest (th_conns (cp_threads st ! p)) (st\<lparr>cp_mutex := Some p\<rparr>)"]) (simp add: GetDBConn_step_def Let_def)
  next
    case (Some r)
    then have r: "r < length (cp_threads st)" "inside (th_pc (cp_threads st ! r))" using inv by (auto simp: pool_inv_def)
    then show ?thesis
      using assms(2) free q
      by (intro exI [of _ r]) (cases "th_pc (cp_threads st ! r)"; auto simp: GetDBConn_step_def RelDBConn_step_def pool_wakeup_def Let_def intro!: exI [of _ q])
  qed
next
  have inv: "pool_inv st" and m: "cp_max_conn_cnt st = m" using pool_reachable_inv [OF assms(1)] by simp_all
  note w = pool_inv_waiting [OF inv assms(2)]
  assume quiet: "\<forall>t\<in>set (cp_threads st). th_pc t \<in> {Outside, GetWait}"
  then have "alerts st = 0" by (auto simp: alerts_def sum_list_eq_0_iff alert_def)
  then show free: "cp_free_list st = []" using w by simp
  then show "set_mset (in_use st) = {..<cp_next st}" using inv by (simp add: pool_inv_def)
  show "m \<le> int (cp_next st)" using w m inv by (simp add: pool_inv_def)
qed

theorem pool_waits_only_when_exhausted_witness: "set_mset (in_use demo_full_pool) = {..<cp_next demo_full_pool} \<and> 2 \<le> int (cp_next demo_full_pool)"
proof -
  have "th_pc ` set (cp_threads demo_full_pool) = {Outside, GetWait}" using arg_cong [OF demo_full_state(3), of set] by simp
  then have "GetWait \<in> th_pc ` set (cp_threads demo_full_pool)" "\<forall>t\<in>set (cp_threads demo_full_pool). th_pc t \<in> {Outside, GetWait}" by auto
  then have "waiting demo_full_pool" "\<forall>t\<in>set (cp_threads demo_full_pool). th_pc t \<in> {Outside, GetWait}" by (auto simp: waiting_def)
  then show ?thesis using pool_waits_only_when_exhausted [OF demo_full_reachable] by blast
qed

text \<open>A thread that asks for a second connection of a pool may wait for the connection that it has itself.\<close>

lemma nested_get_waits:
  "map th_pc (cp_threads (the (pool_run [Get 0 0, Get 0 0, Get 0 0, Get 0 0, Get 0 0, Get 0 0, Get 0 0, Get 0 0] (demo_pool 1)))) = [GetWait]"
  by code_simp

end
