(* ===== verification/TextUtil.thy ===== *)
theory TextUtil
  imports ByteStream
begin

text \<open>
  The text functions of \<open>base/util.cpp\<close>: splitting at a separator, URL encoding, filling in an SQL statement, searching.
\<close>

section \<open>Splitting\<close>

text \<open>The loop that makes the items; \<open>cur\<close> is the text between \<open>start\<close> and \<open>pos\<close>. A separator at the start of an item is taken as part of it.\<close>

fun explode_loop :: "char \<Rightarrow> string \<Rightarrow> string \<Rightarrow> string list" where
  "explode_loop sep cur [] = (if cur = [] then [] else [cur])"
| "explode_loop sep cur (c # s) = (if cur \<noteq> [] \<and> c = sep then cur # explode_loop sep [] s else explode_loop sep (cur @ [c]) s)"

text \<open>The array has one item more than there are separators; an item that the loop does not reach is an uninitialised pointer, \<open>None\<close>. The counters of
  the code have 32 bits; a text has fewer than \<open>2 ^ 31\<close> separators here.\<close>

definition m_item_cnt :: "char \<Rightarrow> string \<Rightarrow> nat" where
  "m_item_cnt sep str = 1 + length (filter ((=) sep) str)"

definition CStrExplode :: "char \<Rightarrow> string \<Rightarrow> string option list" where
  "CStrExplode sep str = (let items = explode_loop sep [] str in map Some items @ replicate (m_item_cnt sep str - length items) None)"

text \<open>The destructor deletes every item.\<close>

definition delete_items :: "string option list \<Rightarrow> unit res" where
  "delete_items items = (if None \<in> set items then Inl MemFault else Inr ())"

definition isTelcome :: "string option \<Rightarrow> bool res" where
  "isTelcome pIp =
     (case pIp of
        None \<Rightarrow> Inr False
      | Some ip \<Rightarrow> bindR (delete_items (CStrExplode CHR ''.'' ip)) (\<lambda>_. Inr (m_item_cnt CHR ''.'' ip = 4)))"

section \<open>URLs\<close>

definition b_isdigit :: "byte \<Rightarrow> bool" where "b_isdigit x \<longleftrightarrow> 48 \<le> x \<and> x \<le> 57"

definition b_isalnum :: "byte \<Rightarrow> bool" where
  "b_isalnum x \<longleftrightarrow> b_isdigit x \<or> 65 \<le> x \<and> x \<le> 90 \<or> 97 \<le> x \<and> x \<le> 122"

definition toHex :: "byte \<Rightarrow> byte" where "toHex x = (if x > 9 then x - 10 + 65 else x + 48)"

definition fromHex :: "byte \<Rightarrow> byte" where "fromHex x = (if b_isdigit x then x - 48 else x - 65 + 10)"

definition URLEncode :: "bytes \<Rightarrow> bytes" where
  "URLEncode sIn = concat (map (\<lambda>c. if b_isalnum c then [c] else [37, toHex (drop_bit 4 c), toHex (c mod 16)]) sIn)"

text \<open>The character behind the last one of a string is zero; what comes after it cannot be read.\<close>

definition hex_pair :: "byte \<Rightarrow> byte \<Rightarrow> byte" where
  "hex_pair a b = push_bit 4 (fromHex a) OR fromHex b"

fun URLDecode :: "bytes \<Rightarrow> bytes res" where
  "URLDecode [] = Inr []"
| "URLDecode (c # s) =
     (if c = 37
      then case s of
             [] \<Rightarrow> Inl MemFault
           | [a] \<Rightarrow> Inr [hex_pair a 0]
           | a # b # s1 \<Rightarrow> bindR (URLDecode s1) (\<lambda>r. Inr (hex_pair a b # r))
      else bindR (URLDecode s) (\<lambda>r. Inr ((if c = 43 then 32 else c) # r)))"

section \<open>Statements\<close>

text \<open>The first question mark from a position on is replaced, and the position moves behind what was put there.\<close>

definition find_mark :: "string \<Rightarrow> nat \<Rightarrow> nat option" where
  "find_mark str pos = (let n = length (takeWhile ((\<noteq>) CHR ''?'') (drop pos str)) in if pos + n < length str then Some (pos + n) else None)"

definition replace_text :: "string \<Rightarrow> string \<Rightarrow> u32 \<Rightarrow> string \<times> u32" where
  "replace_text str v begin_pos =
     (case find_mark str (unat begin_pos) of
        None \<Rightarrow> (str, begin_pos)
      | Some pos \<Rightarrow> (take pos str @ v @ drop (pos + 1) str, of_nat (pos + length v)))"

definition replace_mark :: "string \<Rightarrow> string \<Rightarrow> u32 \<Rightarrow> string \<times> u32" where
  "replace_mark str new_value begin_pos = replace_text str (CHR 0x27 # new_value @ [CHR 0x27]) begin_pos"

definition replace_mark_int :: "string \<Rightarrow> u32 \<Rightarrow> u32 \<Rightarrow> string \<times> u32" where
  "replace_mark_int str new_value begin_pos = replace_text str (decimal (unat new_value)) begin_pos"

definition replaceStr :: "char \<Rightarrow> char \<Rightarrow> string \<Rightarrow> string" where
  "replaceStr oldChar newChar pSrc = map (\<lambda>c. if c = oldChar then newChar else c) pSrc"

section \<open>Searching\<close>

definition match_at :: "bytes \<Rightarrow> bytes \<Rightarrow> nat \<Rightarrow> bool" where
  "match_at src sub i \<longleftrightarrow> take (length sub) (drop i src) = sub"

text \<open>The two loops: upwards from \<open>i\<close> while it is below \<open>n\<close>, and downwards to zero.\<close>

function find_up :: "bytes \<Rightarrow> bytes \<Rightarrow> nat \<Rightarrow> nat \<Rightarrow> nat option" where
  "find_up src sub i n = (if i < n then if match_at src sub i then Some i else find_up src sub (i + 1) n else None)"
  by auto
termination by (relation "measure (\<lambda>(_, _, i, n). n - i)") auto

declare find_up.simps [simp del]

fun find_down :: "bytes \<Rightarrow> bytes \<Rightarrow> nat \<Rightarrow> nat option" where
  "find_down src sub 0 = (if match_at src sub 0 then Some 0 else None)"
| "find_down src sub (Suc i) = (if match_at src sub (Suc i) then Some (Suc i) else find_down src sub i)"

text \<open>The offset that is returned, for texts that are not null and a pattern with its length given (zero would mean a terminated string).\<close>

definition memfind :: "bytes \<Rightarrow> bytes \<Rightarrow> bool \<Rightarrow> nat option" where
  "memfind src sub flag =
     (if length src = 0 \<or> length src < length sub then None
      else if length src = length sub then if src = sub then Some 0 else None
      else if flag then find_up src sub 0 (length src - length sub)
      else find_down src sub (length src - length sub))"

section \<open>Splitting and joining\<close>

text \<open>Fields without separators, none of them empty, and the text that joins them.\<close>

fun join :: "char \<Rightarrow> string list \<Rightarrow> string" where
  "join sep [] = []"
| "join sep [f] = f"
| "join sep (f # fs) = f @ sep # join sep fs"

definition field_list :: "char \<Rightarrow> string list \<Rightarrow> bool" where
  "field_list sep fs \<longleftrightarrow> fs \<noteq> [] \<and> (\<forall>f\<in>set fs. f \<noteq> [] \<and> sep \<notin> set f)"

lemma join_Cons: "fs \<noteq> [] \<Longrightarrow> join sep (f # fs) = f @ sep # join sep fs"
  by (cases fs) simp_all

lemma explode_field: "sep \<notin> set f \<Longrightarrow> explode_loop sep cur (f @ s) = explode_loop sep (cur @ f) s"
  by (induction f arbitrary: cur) auto

lemma explode_join: "field_list sep fs \<Longrightarrow> explode_loop sep [] (join sep fs) = fs"
proof (induction fs)
  case (Cons f fs)
  then have f: "f \<noteq> []" "sep \<notin> set f" by (auto simp: field_list_def)
  show ?case
  proof (cases "fs = []")
    case True
    then show ?thesis using f explode_field [of sep f "[]" "[]"] by simp
  next
    case False
    then have "field_list sep fs" using Cons.prems by (simp add: field_list_def)
    then show ?thesis using Cons.IH False f explode_field [of sep f "[]" "sep # join sep fs"] by (simp add: join_Cons)
  qed
qed (simp add: field_list_def)

lemma filter_absent: "sep \<notin> set f \<Longrightarrow> filter ((=) sep) f = []"
  by (auto simp: filter_empty_conv)

lemma item_cnt_join: "field_list sep fs \<Longrightarrow> m_item_cnt sep (join sep fs) = length fs"
proof (induction fs)
  case (Cons f fs)
  then have f: "sep \<notin> set f" by (auto simp: field_list_def)
  show ?case
  proof (cases "fs = []")
    case False
    then have "field_list sep fs" using Cons.prems by (simp add: field_list_def)
    then show ?thesis using Cons.IH False f by (simp add: join_Cons m_item_cnt_def filter_absent)
  qed (use f in \<open>simp add: m_item_cnt_def filter_absent\<close>)
qed (simp add: field_list_def)

text \<open>No more items are made than there is room for, and as many only if the text is a join of fields.\<close>

lemma explode_count:
  "length (explode_loop sep cur s) \<le> 1 + length (filter ((=) sep) s)
    \<and> (length (explode_loop sep cur s) = 1 + length (filter ((=) sep) s) \<longrightarrow> sep \<notin> set cur \<longrightarrow> (\<exists>fs. field_list sep fs \<and> cur @ s = join sep fs))"
proof (induction s arbitrary: cur)
  case Nil
  then show ?case by (auto simp: field_list_def intro!: exI [of _ "[cur]"])
next
  case (Cons c s)
  show ?case
  proof (cases "cur \<noteq> [] \<and> c = sep")
    case True
    show ?thesis
    proof (intro conjI impI)
      assume "length (explode_loop sep cur (c # s)) = 1 + length (filter ((=) sep) (c # s))" and cur: "sep \<notin> set cur"
      then obtain fs where "field_list sep fs" "s = join sep fs" using True Cons.IH [of "[]"] by auto
      then have "field_list sep (cur # fs)" "cur @ c # s = join sep (cur # fs)" using True cur by (auto simp: field_list_def join_Cons)
      then show "\<exists>fs. field_list sep fs \<and> cur @ c # s = join sep fs" by blast
    qed (use True Cons.IH [of "[]"] in simp)
  next
    case False
    then show ?thesis
    proof (cases "c = sep")
      case True
      then have "length (explode_loop sep cur (c # s)) < 1 + length (filter ((=) sep) (c # s))" using False Cons.IH [of "cur @ [c]"] by simp
      then show ?thesis by simp
    next
      case neq: False
      then show ?thesis using False Cons.IH [of "cur @ [c]"] by auto
    qed
  qed
qed

section \<open>Properties\<close>

text \<open>
  C24: Splitting. Fields that are not empty and do not contain the separator are exactly the items of the text that joins them. Every other text, one with an empty
  field at its start or end or between two separators, or the empty one, leaves an item uninitialised, and the destructor deletes a wild pointer. Texts have fewer than \<open>2 ^ 31\<close> separators.
\<close>

theorem explode_exactly_fields:
  "(\<forall>fs. field_list sep fs \<longrightarrow> CStrExplode sep (join sep fs) = map Some fs)
    \<and> (delete_items (CStrExplode sep str) = Inl MemFault \<longleftrightarrow> \<not> (\<exists>fs. field_list sep fs \<and> str = join sep fs))"
proof (intro conjI allI impI)
  show good: "CStrExplode sep (join sep fs) = map Some fs" if "field_list sep fs" for fs
    using that by (simp add: CStrExplode_def explode_join item_cnt_join)
  show "delete_items (CStrExplode sep str) = Inl MemFault \<longleftrightarrow> \<not> (\<exists>fs. field_list sep fs \<and> str = join sep fs)"
  proof
    assume bad: "delete_items (CStrExplode sep str) = Inl MemFault"
    show "\<not> (\<exists>fs. field_list sep fs \<and> str = join sep fs)"
    proof
      assume "\<exists>fs. field_list sep fs \<and> str = join sep fs"
      then obtain fs where "field_list sep fs" "str = join sep fs" by blast
      then show False using bad good by (auto simp: delete_items_def)
    qed
  next
    assume none: "\<not> (\<exists>fs. field_list sep fs \<and> str = join sep fs)"
    then have "length (explode_loop sep [] str) < m_item_cnt sep str"
      using explode_count [of sep "[]" str] by (auto simp: m_item_cnt_def)
    then show "delete_items (CStrExplode sep str) = Inl MemFault" by (simp add: delete_items_def CStrExplode_def Let_def)
  qed
qed

theorem explode_exactly_fields_witness:
  "CStrExplode CHR '';'' ''10.0.0.1;10.0.0.2'' = [Some ''10.0.0.1'', Some ''10.0.0.2'']"
  using explode_exactly_fields [of "CHR '';''" "[]"] by (auto simp: field_list_def dest!: spec [of _ "[''10.0.0.1'', ''10.0.0.2'']"])

lemma trailing_separator: "CStrExplode CHR '';'' ''10.0.0.1;'' = [Some ''10.0.0.1'', None]" "CStrExplode CHR '';'' [] = [None]"
  "CStrExplode CHR '';'' '';10.0.0.1'' = [Some '';10.0.0.1'', None]"
  by code_simp+

text \<open>Every dotted address is one of this provider's, so the login server gives everyone the same of its two addresses.\<close>

lemma every_address_telcome:
  assumes "field_list CHR ''.'' [a, b, c, d]"
  shows "isTelcome (Some (join CHR ''.'' [a, b, c, d])) = Inr True"
proof -
  have "delete_items (CStrExplode CHR ''.'' (join CHR ''.'' [a, b, c, d])) = Inr ()"
    using assms by (simp add: CStrExplode_def explode_join [OF assms, simplified] item_cnt_join [OF assms, simplified] delete_items_def)
  then show ?thesis using item_cnt_join [OF assms] by (simp add: isTelcome_def del: join.simps)
qed

lemma hex_digits_all: "list_all (\<lambda>n. fromHex (toHex (of_nat n)) = of_nat n) [0..<16]"
  by code_simp

lemma fromHex_toHex: "unat x < 16 \<Longrightarrow> fromHex (toHex x) = x"
proof -
  assume "unat x < 16"
  then have "unat x \<in> set [0..<16]" by simp
  then have "fromHex (toHex (of_nat (unat x))) = of_nat (unat x)" using hex_digits_all unfolding list_all_iff by blast
  then show ?thesis by simp
qed

lemma hex_pair_toHex: "hex_pair (toHex (drop_bit 4 c)) (toHex (c mod 16)) = c"
proof -
  have m: "c mod 16 = take_bit 4 c" by (simp add: take_bit_eq_mod)
  have "unat (drop_bit 4 c) < 16" "unat (take_bit 4 c) < 16"
    using unsigned_less [of c, where ?'a = nat] by (simp_all add: unsigned_drop_bit_eq unsigned_take_bit_eq) (simp_all add: drop_bit_eq_div take_bit_eq_mod)
  then have "hex_pair (toHex (drop_bit 4 c)) (toHex (c mod 16)) = push_bit 4 (drop_bit 4 c) OR take_bit 4 c"
    unfolding m by (simp add: hex_pair_def fromHex_toHex)
  also have "\<dots> = c" by (rule bit_word_eqI) (auto simp: bit_simps)
  finally show ?thesis .
qed

text \<open>
  C34: URL encoding loses nothing: every string of bytes decodes from its encoding.
\<close>

theorem url_roundtrip: "URLDecode (URLEncode s) = Inr s"
proof (induction s)
  case (Cons c s)
  have "c \<noteq> 37" "c \<noteq> 43" if "b_isalnum c" using that by (auto simp: b_isalnum_def b_isdigit_def)
  then show ?case using Cons.IH by (simp add: URLEncode_def hex_pair_toHex)
qed (simp add: URLEncode_def)

text \<open>Decoding an escape that is cut off reads behind the end of the string.\<close>

lemma cut_escape_faults: "URLDecode [37] = Inl MemFault"
  by simp

section \<open>Statements\<close>

text \<open>Statements are filled in from left to right, each value as it is written into the text.\<close>

fun fill_marks :: "string \<Rightarrow> string list \<Rightarrow> u32 \<Rightarrow> string \<times> u32" where
  "fill_marks str [] pos = (str, pos)"
| "fill_marks str (v # vs) pos = (let (str1, pos1) = replace_mark str v pos in fill_marks str1 vs pos1)"

text \<open>What it should give: the parts of the statement between the marks, alternating with the quoted values.\<close>

fun interleave :: "string list \<Rightarrow> string list \<Rightarrow> string" where
  "interleave (p # ps) (v # vs) = p @ CHR 0x27 # v @ CHR 0x27 # interleave ps vs"
| "interleave ps vs = join CHR ''?'' ps"

lemma find_mark_part: "CHR ''?'' \<notin> set p \<Longrightarrow> find_mark (done @ p @ CHR ''?'' # rest) (length done) = Some (length done + length p)"
proof -
  assume "CHR ''?'' \<notin> set p"
  then have "takeWhile ((\<noteq>) CHR ''?'') (p @ CHR ''?'' # rest) = p" by (induction p) auto
  then show ?thesis by (simp add: find_mark_def Let_def)
qed

lemma fill_marks_interleave:
  assumes "length ps = Suc (length vs)" "\<forall>p\<in>set ps. CHR ''?'' \<notin> set p"
    and "length done + length (interleave ps vs) < 2 ^ 32"
  shows "fst (fill_marks (done @ join CHR ''?'' ps) vs (of_nat (length done))) = done @ interleave ps vs"
  using assms
proof (induction vs arbitrary: ps "done")
  case Nil
  then obtain p where "ps = [p]" by (cases ps) auto
  then show ?case by simp
next
  case (Cons v vs)
  obtain p ps' where ps: "ps = p # ps'" and len: "length ps' = Suc (length vs)" using Cons.prems(1) by (cases ps) auto
  then have ne: "ps' \<noteq> []" by auto
  have i: "interleave ps (v # vs) = p @ CHR 0x27 # v @ CHR 0x27 # interleave ps' vs" by (simp add: ps)
  let ?done = "done @ p @ CHR 0x27 # v @ [CHR 0x27]"
  have u: "unat (of_nat (length done) :: u32) = length done" using Cons.prems(3) by (simp add: unsigned_of_nat take_bit_nat_eq_self)
  have j: "done @ join CHR ''?'' ps = done @ p @ CHR ''?'' # join CHR ''?'' ps'" using ps ne by (simp add: join_Cons)
  have "find_mark (done @ join CHR ''?'' ps) (length done) = Some (length done + length p)"
    unfolding j using Cons.prems(2) ps by (intro find_mark_part) simp
  then have "replace_mark (done @ join CHR ''?'' ps) v (of_nat (length done)) = (?done @ join CHR ''?'' ps', of_nat (length ?done))"
    unfolding replace_mark_def replace_text_def u j by simp
  then have "fst (fill_marks (done @ join CHR ''?'' ps) (v # vs) (of_nat (length done))) = fst (fill_marks (?done @ join CHR ''?'' ps') vs (of_nat (length ?done)))"
    by simp
  also have "\<dots> = ?done @ interleave ps' vs" using Cons.prems ps i by (intro Cons.IH) auto
  finally show ?case using i by simp
qed

text \<open>
  C35: Statements. However many values are filled in, and whether or not they contain question marks themselves, each goes to the mark it is meant for. The values are
  strings, and the statement that results is shorter than \<open>2 ^ 32\<close> bytes, as \<open>begin_pos\<close> has 32 bits.
\<close>

theorem statement_filled_in_order:
  assumes "length ps = Suc (length vs)" "\<forall>p\<in>set ps. CHR ''?'' \<notin> set p" "length (interleave ps vs) < 2 ^ 32"
  shows "fst (fill_marks (join CHR ''?'' ps) vs 0) = interleave ps vs"
  using fill_marks_interleave [OF assms(1,2), of "[]"] assms(3) by simp

theorem statement_filled_in_order_witness:
  "fst (fill_marks ''a=? and b=?'' [''x?'', ''y''] 0) = ''a='' @ CHR 0x27 # ''x?'' @ CHR 0x27 # '' and b='' @ CHR 0x27 # ''y'' @ [CHR 0x27]"
  using statement_filled_in_order [of "[''a='', '' and b='', []]" "[''x?'', ''y'']"] by simp

text \<open>Nothing is escaped: a value may end the literal and go on as part of the statement.\<close>

lemma value_leaves_literal:
  "fst (replace_mark ''name=?'' (CHR 0x27 # '' or '' @ CHR 0x27 # ''1'') 0) = ''name='' @ [CHR 0x27, CHR 0x27] @ '' or '' @ [CHR 0x27] @ ''1'' @ [CHR 0x27]"
  by code_simp

section \<open>Searching\<close>

lemma find_up_spec:
  "find_up src sub i n = (if \<exists>j. i \<le> j \<and> j < n \<and> match_at src sub j then Some (LEAST j. i \<le> j \<and> match_at src sub j) else None)"
proof (induction src sub i n rule: find_up.induct)
  case (1 src sub i n)
  show ?case
  proof (cases "i < n \<and> \<not> match_at src sub i")
    case True
    then have eq: "(i \<le> j \<and> match_at src sub j) \<longleftrightarrow> (i + 1 \<le> j \<and> match_at src sub j)" for j by (cases "i = j") auto
    then have "(\<exists>j. i \<le> j \<and> j < n \<and> match_at src sub j) \<longleftrightarrow> (\<exists>j. i + 1 \<le> j \<and> j < n \<and> match_at src sub j)" by blast
    then show ?thesis using 1 True by (subst find_up.simps) (simp only: eq if_True if_False simp_thms)
  next
    case False
    then show ?thesis by (subst find_up.simps) (auto intro!: Least_equality [symmetric])
  qed
qed

text \<open>Searching upwards finds the first occurrence, unless it is the one at the very end of the text, which is never looked at.\<close>

lemma memfind_first:
  assumes "sub \<noteq> []" "length sub < length src"
  shows "memfind src sub True =
    (if \<exists>j. j < length src - length sub \<and> match_at src sub j then Some (LEAST j. match_at src sub j) else None)"
  using assms find_up_spec [of src sub 0 "length src - length sub"] by (simp add: memfind_def)

lemma memfind_misses_the_end: "memfind [1, 2, 3] [2, 3] True = None" "memfind [1, 2, 3] [2, 3] False = Some 1"
  by (simp_all add: memfind_def find_up.simps match_at_def numeral_eq_Suc)

end
