(* ===== verification/PoolManager.thy ===== *)
theory PoolManager
  imports ConnPool ConfigFile TextUtil FileDisk
begin

text \<open>
  The managers of the pools (\<open>CDBManager\<close> in \<open>db_proxy_server/DBPool.cpp\<close>, \<open>CacheManager\<close> in \<open>CachePool.cpp\<close>): one pool for each name that the configuration lists.
  A pool is here what it is made with; \<open>ConnPool\<close> has its operations.
\<close>

section \<open>Definitions\<close>

record db_pool_conf =
  dp_host :: string
  dp_port :: u16
  dp_username :: string
  dp_password :: string
  dp_dbname :: string
  dp_max_conn_cnt :: int

record cache_pool_conf =
  ch_host :: string
  ch_port :: int
  ch_db :: int
  ch_max_conn_cnt :: int

definition atoi :: "string \<Rightarrow> int" where
  "atoi s = sint (string2int s)"

text \<open>\<open>snprintf\<close> of a key into 64 bytes.\<close>

definition pool_key :: "string \<Rightarrow> string \<Rightarrow> string" where
  "pool_key pool_name sfx = take 63 (pool_name @ sfx)"

definition db_pool_conf_of :: "config_reader \<Rightarrow> string \<Rightarrow> db_pool_conf option" where
  "db_pool_conf_of cf pool_name =
     (let get = (\<lambda>sfx. GetConfigName (pool_key pool_name sfx) cf)
      in case (get ''_host'', get ''_port'', get ''_dbname'', get ''_username'', get ''_password'', get ''_maxconncnt'') of
           (Some host, Some port, Some dbname, Some username, Some password, Some maxconncnt) \<Rightarrow>
             Some \<lparr>dp_host = host, dp_port = of_int (atoi port), dp_username = username, dp_password = password, dp_dbname = dbname, dp_max_conn_cnt = atoi maxconncnt\<rparr>
         | _ \<Rightarrow> None)"

definition cache_pool_conf_of :: "config_reader \<Rightarrow> string \<Rightarrow> cache_pool_conf option" where
  "cache_pool_conf_of cf pool_name =
     (let get = (\<lambda>sfx. GetConfigName (pool_key pool_name sfx) cf)
      in case (get ''_host'', get ''_port'', get ''_db'', get ''_maxconncnt'') of
           (Some host, Some port, Some db, Some maxconncnt) \<Rightarrow>
             Some \<lparr>ch_host = host, ch_port = atoi port, ch_db = atoi db, ch_max_conn_cnt = atoi maxconncnt\<rparr>
         | _ \<Rightarrow> None)"

text \<open>The loop over the names; \<open>up\<close> says whether the first connections to a server can be made.\<close>

fun init_pools :: "(string \<Rightarrow> 'p option) \<Rightarrow> ('p \<Rightarrow> bool) \<Rightarrow> string option list \<Rightarrow> (string, 'p) assoc \<Rightarrow> (int \<times> (string, 'p) assoc) res" where
  "init_pools conf up [] m = Inr (0, m)"
| "init_pools conf up (item # items) m =
     (case item of
        None \<Rightarrow> Inl MemFault
      | Some pool_name \<Rightarrow>
          (case conf pool_name of
             None \<Rightarrow> Inr (2, m)
           | Some p \<Rightarrow> if \<not> up p then Inr (3, m) else init_pools conf up items (om_insert pool_name p m)))"

definition manager_Init :: "string \<Rightarrow> (config_reader \<Rightarrow> string \<Rightarrow> 'p option) \<Rightarrow> ('p \<Rightarrow> bool) \<Rightarrow> config_reader \<Rightarrow> (int \<times> (string, 'p) assoc) res" where
  "manager_Init instances conf up cf =
     (case GetConfigName instances cf of
        None \<Rightarrow> Inr (1, [])
      | Some names \<Rightarrow>
          bindR (init_pools (conf cf) up (CStrExplode CHR '','' names) []) (\<lambda>r.
          bindR (delete_items (CStrExplode CHR '','' names)) (\<lambda>_. Inr r)))"

definition CDBManager_Init :: "(db_pool_conf \<Rightarrow> bool) \<Rightarrow> config_reader \<Rightarrow> (int \<times> (string, db_pool_conf) assoc) res" where
  "CDBManager_Init = manager_Init ''DBInstances'' db_pool_conf_of"

definition CacheManager_Init :: "(cache_pool_conf \<Rightarrow> bool) \<Rightarrow> config_reader \<Rightarrow> (int \<times> (string, cache_pool_conf) assoc) res" where
  "CacheManager_Init = manager_Init ''CacheInstances'' cache_pool_conf_of"

text \<open>\<open>getInstance\<close> and the choice of a pool by its name.\<close>

definition manager_getInstance :: "(int \<times> (string, 'p) assoc) res \<Rightarrow> (string, 'p) assoc option res" where
  "manager_getInstance r = bindR r (\<lambda>(code, m). Inr (if code \<noteq> 0 then None else Some m))"

definition manager_pool :: "(string, 'p) assoc \<Rightarrow> string \<Rightarrow> 'p option" where
  "manager_pool m pool_name = map_of m pool_name"

section \<open>Properties\<close>

lemma init_pools_all:
  assumes "\<forall>n\<in>set ns. \<exists>p. conf n = Some p \<and> up p"
  shows "om_ok m \<Longrightarrow> \<exists>m'. init_pools conf up (map Some ns) m = Inr (0, m') \<and> om_ok m'
    \<and> (\<forall>n. map_of m' n = (case map_of m n of Some p \<Rightarrow> Some p | None \<Rightarrow> if n \<in> set ns then conf n else None))"
  using assms
proof (induction ns arbitrary: m)
  case (Cons n ns)
  then obtain p where p: "conf n = Some p" "up p" by auto
  have ok: "om_ok (om_insert n p m)" using Cons.prems(1) by (rule om.ok_insert)
  obtain m' where m': "init_pools conf up (map Some ns) (om_insert n p m) = Inr (0, m')" "om_ok m'"
    "\<forall>k. map_of m' k = (case map_of (om_insert n p m) k of Some p \<Rightarrow> Some p | None \<Rightarrow> if k \<in> set ns then conf k else None)"
    using Cons.IH [OF ok] Cons.prems(2) by auto
  have f: "map_of (om_insert n p m) k = (case map_of m k of Some x \<Rightarrow> Some x | None \<Rightarrow> if k = n then Some p else None)" for k
    using om.find_insert [OF Cons.prems(1), of n p] by (auto simp: om.keys_eq_dom split: option.split)
  show ?case using m' p by (auto simp: f split: option.split)
qed (auto split: option.split)

lemma manager_Init_all:
  assumes "GetConfigName instances cf = Some (join CHR '','' ns)" "field_list CHR '','' ns" "\<forall>n\<in>set ns. \<exists>p. conf cf n = Some p \<and> up p"
  shows "\<exists>m. manager_Init instances conf up cf = Inr (0, m) \<and> (\<forall>n. map_of m n = (if n \<in> set ns then conf cf n else None))"
proof -
  have items: "CStrExplode CHR '','' (join CHR '','' ns) = map Some ns" using assms(2) by (simp add: CStrExplode_def explode_join item_cnt_join)
  obtain m where "init_pools (conf cf) up (map Some ns) [] = Inr (0, m)" "\<forall>n. map_of m n = (if n \<in> set ns then conf cf n else None)"
    using init_pools_all [OF assms(3), of "[]"] by (auto simp: om_ok_def)
  then show ?thesis using assms(1) items by (simp add: manager_Init_def delete_items_def image_iff)
qed

text \<open>Anything that is missing or cannot be reached ends the start, and then there is no manager.\<close>

lemma init_pools_stops:
  assumes "n \<in> set ns" "\<forall>p. conf n = Some p \<longrightarrow> \<not> up p"
  shows "\<exists>code m'. init_pools conf up (map Some ns) m = Inr (code, m') \<and> code \<noteq> 0"
  using assms(1)
proof (induction ns arbitrary: m)
  case (Cons k ns)
  show ?case
  proof (cases "n = k")
    case False
    then have "n \<in> set ns" using Cons.prems by simp
    from Cons.IH [OF this] show ?thesis by (simp split: option.split)
  qed (use assms(2) in \<open>simp split: option.split\<close>)
qed simp

lemma manager_Init_stops:
  assumes "GetConfigName instances cf = Some (join CHR '','' ns)" "field_list CHR '','' ns" "n \<in> set ns" "\<forall>p. conf cf n = Some p \<longrightarrow> \<not> up p"
  shows "manager_getInstance (manager_Init instances conf up cf) = Inr None"
proof -
  have items: "CStrExplode CHR '','' (join CHR '','' ns) = map Some ns" using assms(2) by (simp add: CStrExplode_def explode_join item_cnt_join)
  obtain code m where "init_pools (conf cf) up (map Some ns) [] = Inr (code, m)" "code \<noteq> 0"
    using init_pools_stops [of n ns "conf cf" up] assms(3,4) by blast
  then show ?thesis using assms(1) items by (simp add: manager_Init_def manager_getInstance_def delete_items_def image_iff)
qed

text \<open>What the file has to say of a name for a pool to be made with the values of \<open>p\<close>.\<close>

definition configured_as :: "config_reader \<Rightarrow> string \<Rightarrow> db_pool_conf \<Rightarrow> bool" where
  "configured_as cf n p \<longleftrightarrow>
     GetConfigName (n @ ''_host'') cf = Some (dp_host p)
     \<and> (\<exists>port. GetConfigName (n @ ''_port'') cf = Some port \<and> dp_port p = of_int (atoi port))
     \<and> GetConfigName (n @ ''_dbname'') cf = Some (dp_dbname p)
     \<and> GetConfigName (n @ ''_username'') cf = Some (dp_username p)
     \<and> GetConfigName (n @ ''_password'') cf = Some (dp_password p)
     \<and> (\<exists>cnt. GetConfigName (n @ ''_maxconncnt'') cf = Some cnt \<and> dp_max_conn_cnt p = atoi cnt)"

text \<open>The longest suffix has 11 characters, so that a name of 52 gives keys that are not cut off.\<close>

lemma db_pool_conf_of_configured:
  assumes "length n \<le> 52"
  shows "db_pool_conf_of cf n = Some p \<longleftrightarrow> configured_as cf n p"
proof -
  have "length sfx \<le> 11 \<Longrightarrow> pool_key n sfx = n @ sfx" for sfx using assms by (simp add: pool_key_def)
  then show ?thesis by (cases p) (auto simp: db_pool_conf_of_def configured_as_def Let_def split: option.splits)
qed

text \<open>
  C36: Configured pools. The configuration lists names, none of them empty or longer than 52 characters. When each name has all six values and its server can be reached,
  the manager starts, and it has exactly the pools that are listed, each with the host, port, database, user, password and limit that the file has under the name and
  \<open>_host\<close>, \<open>_port\<close>, \<open>_dbname\<close>, \<open>_username\<close>, \<open>_password\<close> and \<open>_maxconncnt\<close>. When a value of one name is missing, or a server cannot be reached, there is no
  manager.
\<close>

theorem db_manager_has_configured_pools:
  assumes "GetConfigName ''DBInstances'' cf = Some (join CHR '','' ns)" "field_list CHR '','' ns" "\<forall>n\<in>set ns. length n \<le> 52"
  shows "if \<forall>n\<in>set ns. \<exists>p. configured_as cf n p \<and> up p
    then \<exists>m. manager_getInstance (CDBManager_Init up cf) = Inr (Some m) \<and> (\<forall>n. n \<notin> set ns \<longrightarrow> manager_pool m n = None)
      \<and> (\<forall>n\<in>set ns. \<exists>p. manager_pool m n = Some p \<and> configured_as cf n p)
    else manager_getInstance (CDBManager_Init up cf) = Inr None"
proof (cases "\<forall>n\<in>set ns. \<exists>p. configured_as cf n p \<and> up p")
  case True
  then have "\<forall>n\<in>set ns. \<exists>p. db_pool_conf_of cf n = Some p \<and> up p" using db_pool_conf_of_configured assms(3) by blast
  then obtain m where "manager_Init ''DBInstances'' db_pool_conf_of up cf = Inr (0, m)"
    "\<forall>n. map_of m n = (if n \<in> set ns then db_pool_conf_of cf n else None)"
    using manager_Init_all [OF assms(1,2)] by blast
  moreover have "\<forall>n\<in>set ns. \<exists>p. db_pool_conf_of cf n = Some p \<and> configured_as cf n p" using True db_pool_conf_of_configured assms(3) by blast
  ultimately show ?thesis using True by (simp add: CDBManager_Init_def manager_getInstance_def manager_pool_def)
next
  case False
  then obtain n where n: "n \<in> set ns" "\<forall>p. db_pool_conf_of cf n = Some p \<longrightarrow> \<not> up p" using db_pool_conf_of_configured assms(3) by blast
  show ?thesis using manager_Init_stops [where conf = db_pool_conf_of, OF assms(1,2) n] unfolding CDBManager_Init_def if_not_P [OF False] .
qed

definition demo_db_conf :: config_reader where
  "demo_db_conf = \<lparr>cf_load_ok = True, cf_config_map =
     [(''DBInstances'', ''tt_m''), (''tt_m_dbname'', ''tt''), (''tt_m_host'', ''10.0.0.5''), (''tt_m_maxconncnt'', ''16''), (''tt_m_password'', ''x''),
      (''tt_m_port'', ''3306''), (''tt_m_username'', ''root'')]\<rparr>"

definition demo_db_pool :: db_pool_conf where
  "demo_db_pool = \<lparr>dp_host = ''10.0.0.5'', dp_port = 3306, dp_username = ''root'', dp_password = ''x'', dp_dbname = ''tt'', dp_max_conn_cnt = 16\<rparr>"

lemma demo_configured: "configured_as demo_db_conf ''tt_m'' p \<longleftrightarrow> p = demo_db_pool"
proof -
  have "map (\<lambda>k. GetConfigName (''tt_m'' @ k) demo_db_conf) [''_host'', ''_port'', ''_dbname'', ''_username'', ''_password'', ''_maxconncnt'']
      = [Some ''10.0.0.5'', Some ''3306'', Some ''tt'', Some ''root'', Some ''x'', Some ''16'']"
    "atoi ''3306'' = 3306" "atoi ''16'' = 16" by code_simp+
  then show ?thesis by (cases p) (auto simp: configured_as_def demo_db_pool_def)
qed

theorem db_manager_has_configured_pools_witness:
  "\<exists>m. manager_getInstance (CDBManager_Init (\<lambda>_. True) demo_db_conf) = Inr (Some m) \<and> manager_pool m ''tt_m'' = Some demo_db_pool
    \<and> manager_pool m ''tt_s'' = None"
proof -
  have "GetConfigName ''DBInstances'' demo_db_conf = Some (join CHR '','' [''tt_m''])" by code_simp
  moreover have "field_list CHR '','' [''tt_m'']" by (simp add: field_list_def)
  ultimately show ?thesis
    using db_manager_has_configured_pools [of demo_db_conf "[''tt_m'']" "\<lambda>_. True"] by (fastforce simp: demo_configured)
qed

text \<open>The first name whose values are not all there ends the start.\<close>

lemma missing_value_stops:
  assumes "GetConfigName instances cf = Some (join CHR '','' (ns @ n # ns'))" "field_list CHR '','' (ns @ n # ns')"
    and "\<forall>k\<in>set ns. \<exists>p. conf cf k = Some p \<and> up p" "conf cf n = None"
  shows "\<exists>m. manager_Init instances conf up cf = Inr (2, m)" "manager_getInstance (manager_Init instances conf up cf) = Inr None"
proof -
  have items: "CStrExplode CHR '','' (join CHR '','' (ns @ n # ns')) = map Some (ns @ n # ns')"
    using assms(2) by (simp add: CStrExplode_def explode_join item_cnt_join)
  have "\<exists>m'. init_pools (conf cf) up (map Some (ns @ n # ns')) m = Inr (2, m')" for m
    using assms(3,4) by (induction ns arbitrary: m) auto
  then obtain m' where "init_pools (conf cf) up (map Some (ns @ n # ns')) [] = Inr (2, m')" by blast
  then show r: "\<exists>m. manager_Init instances conf up cf = Inr (2, m)"
    using assms(1) items by (auto simp: manager_Init_def delete_items_def image_iff)
  then show "manager_getInstance (manager_Init instances conf up cf) = Inr None" by (auto simp: manager_getInstance_def)
qed

end
