(* ===== verification/Spec2Isabelle.thy ===== *)
theory Spec2Isabelle
  imports LoginServer RouteServer AttachData ServInfo MsgTraffic FileProps NetProps EncDec ConfigFile WorkerThread ProxyProps Token PoolManager
begin

text \<open>
  A verification library for the servers of TeamTalk, an instant messaging system in C++.

  \<^bold>\<open>The program.\<close> Clients ask the login server (\<open>login_server/\<close>) for a message server and log in there (\<open>msg_server/\<close>). A message server keeps its
  users and their connections, checks logins and stores messages through the database proxies (\<open>db_proxy_server/\<close>), exchanges presence and messages with the
  other message servers through the route servers (\<open>route_server/\<close>), reports its load to the login servers, hands notifications to the push server
  (\<open>push_server/\<close>), and lets clients exchange files through the file servers (\<open>file_server/\<close>). All of them are single-threaded event loops over the network
  library in \<open>base/\<close>, speak PDUs (a 16-byte header and a protocol buffer), and keep reference-counted connection objects in maps by socket handle.

  \<^bold>\<open>Conventions.\<close> A machine integer is a word of its width. A function that may throw, corrupt memory or not return gives a sum (\<open>Inl\<close> a \<open>CPduException\<close>,
  \<open>MemFault\<close> or \<open>NotReturned\<close>; \<open>bindR\<close> sequences). An object is an address in a heap with reference counts (\<open>ServerBase\<close>); a use after the last release is
  a \<open>MemFault\<close>. A \<open>hash_map\<close> is an association list in no particular order, a \<open>std::map\<close> one with increasing keys. What a server sends and closes is a
  trace. The code that \<open>protoc\<close> generates is a codec per message type, a parameter whose documented law is that what is serialised parses back.

  \<^bold>\<open>Theories, from the bottom up.\<close>
  \<^item> \<open>Prelude\<close>: words, results, buffers with checked access, containers (a locale \<open>finite_map_container\<close> with the laws of \<open>find\<close>, \<open>insert\<close>,
    \<open>operator[]\<close> and \<open>erase\<close>, interpreted for both kinds of map).
  \<^item> \<open>SimpleBuffer\<close> (\<open>CSimpleBuffer\<close> of \<open>base/UtilPdu.cpp\<close>), \<open>ByteStream\<close> (\<open>CByteStream\<close>), \<open>ImPdu\<close> (\<open>base/ImPduBase.cpp\<close>), \<open>ImConn\<close> (\<open>base/imconn.cpp\<close>) and
    \<open>ImLink\<close>: from bytes to connections, up to two connections back to back. \<open>Protocol\<close> has the identifiers of \<open>pb/IM.BaseDefine.proto\<close>.
  \<^item> \<open>ServerBase\<close>: \<open>CRefObject\<close>, object heaps, \<open>imconn_callback\<close>; its locale \<open>conn_server\<close> is what the dispatch of socket events needs of a server and gives
    the preservation of the server's invariant by every event; the servers interpret it.
  \<^item> \<open>LoginServer\<close> (\<open>login_server/LoginConn.cpp\<close>) and \<open>UserInfo\<close>, \<open>RouteServer\<close> (\<open>route_server/RouteConn.cpp\<close>): whole servers with their events, invariants and safety.
  \<^item> \<open>AttachData\<close> (\<open>msg_server/AttachData.cpp\<close>, ids in URLs), \<open>ServInfo\<close> (\<open>base/ServInfo.h\<close>, connections to back ends) and \<open>Messages\<close> (the messages as records).
  \<^item> The message server: \<open>MsgState\<close> and \<open>ImUser\<close> (state, users), \<open>GroupChat\<close>, \<open>FileHandler\<close>, \<open>MsgConn\<close> (clients), \<open>DBServConn\<close>, \<open>RouteServConn\<close> (with the login,
    push and file server connections), \<open>MsgServer\<close> (start and events).
  \<^item> Its proof: \<open>Registry\<close> is the abstract specification of who is connected as whom; \<open>MsgCalm\<close> and \<open>MsgHandlers\<close> show that most handlers only send;
    \<open>Backends\<close>, \<open>BackTimers\<close>, \<open>MsgBacks\<close>, \<open>MsgPeers\<close> treat the other servers; \<open>MsgRefine\<close>, \<open>MsgLife\<close>, \<open>MsgRequests\<close> show that the life of a connection refines the
    registry; \<open>MsgProps\<close>, \<open>MsgSessions\<close>, \<open>MsgTraffic\<close> state the results and \<open>MsgDemo\<close> the configuration in which their examples run.
  \<^item> The file server: \<open>FileDisk\<close> (files and strings of the C library), \<open>TransferTask\<close> and \<open>OfflineTask\<close> (\<open>file_server/transfer_task.cpp\<close>, \<open>FileMd5.cpp\<close>),
    \<open>FileServer\<close> (\<open>transfer_task_manager.cpp\<close>), \<open>FileClientConn\<close> (\<open>file_client_conn.cpp\<close>), \<open>FileMsgServerConn\<close> (\<open>file_msg_server_conn.cpp\<close> and the events);
    \<open>OfflineRuns\<close> and \<open>OfflineProps\<close> (whole uploads and downloads), \<open>FileTyped\<close>, \<open>FileInv\<close> and \<open>FileProps\<close> (invariant, online transfers, faults).
  \<^item> The network library under all of them: \<open>NetSocket\<close> (\<open>base/BaseSocket.cpp\<close>, \<open>base/netlib.cpp\<close>), \<open>NetDispatch\<close> and \<open>NetLoop\<close> (\<open>base/EventDispatch.cpp\<close>: events,
    timers, rounds of the loop); \<open>NetInv\<close>, \<open>NetNew\<close>, \<open>NetSafe\<close>, \<open>NetTimers\<close> and \<open>NetProps\<close> have its invariant and results.
  \<^item> Encodings: \<open>Base64\<close>, \<open>EncDec\<close> (\<open>CAes\<close> of \<open>base/EncDec.cpp\<close> and the client library \<open>libsecurity\<close>), \<open>Md5\<close> and \<open>Md5Props\<close> (two implementations of MD5),
    \<open>Token\<close> (\<open>base/TokenValidator.cpp\<close>), \<open>TextUtil\<close> (\<open>base/util.cpp\<close>), \<open>ConfigFile\<close> (\<open>base/ConfigFileReader.cpp\<close>).
  \<^item> The database proxy and its threads: \<open>WorkerThread\<close> (\<open>base/ThreadPool.cpp\<close>), \<open>ConnPool\<close> and \<open>PoolManager\<close> (\<open>db_proxy_server/DBPool.cpp\<close>, \<open>CachePool.cpp\<close>),
    \<open>ProxyConn\<close>, \<open>ProxyInv\<close> and \<open>ProxyProps\<close> (\<open>ProxyConn.cpp\<close>, \<open>ProxyTask.cpp\<close>: connections, tasks and responses).

  \<^bold>\<open>State.\<close> Each server is a record of the globals of its source file: \<open>login_server\<close>, \<open>route_server\<close>, \<open>msg_server\<close>, \<open>file_server\<close> and \<open>proxy\<close>, with one field per
  map, one heap per class, the callback data per socket and the trace. A step function (\<open>login_step\<close>, \<open>route_step\<close>, \<open>msg_step\<close>, \<open>file_step\<close>) runs the callback of
  one event: a connection, a readable, closed or confirmed socket, a timer. An event that makes a socket readable carries the PDUs that \<open>CImConn::OnRead\<close>
  finds; that theory shows which ones those are. The network library is the record \<open>net\<close>, over an operating system whose answers are a parameter with documented laws and
  with the application's callbacks as another. Threads (\<open>worker\<close>, \<open>conn_pool\<close>) are program counters in a record, and each of their steps is one access under the mutex.

  \<^bold>\<open>What is shown.\<close>
  \<^item> Transport: PDUs arrive unchanged, in order and completely whatever the socket does with the bytes; round trips of buffers, PDUs, attachments and ids; where
    a length near the maximum defeats a check.
  \<^item> Safety of the login, route and message server: no event of well-behaved peers touches freed memory, from any reachable state, and what the events
    of an ill-behaved one do (two requests or two logouts in one read).
  \<^item> The message server refines the registry: a connection is registered, pending for a login name or authenticated for the user that the database named;
    closing and the timer do what the specification says.
  \<^item> Choices and traffic: the least loaded message server, the least used or any open database connection, the oldest route connection, reconnection with
    back-off, who gets a message.
  \<^item> Files: an uploaded file is downloaded unchanged, also after a restart; a wrong MD5 removes it; online data flows exactly when both sides have logged in; every
    reachable task is in a state of its class.
  \<^item> Network library: every operation keeps the counts of references, no round of the event loop touches a deleted socket object, and a timer is called once per deadline.
  \<^item> Encodings: decryption and URL decoding undo their encodings, the two MD5 agree, tokens are valid for an hour, which texts split without a fault, statements are filled in
    from left to right, a configuration that was written is read back.
  \<^item> Threads: a worker runs its tasks in order and loses no wake-up; a connection pool hands no connection out twice to callers that give back what they have, and what is
    left of that when they do not; pools have the configured values; the database proxy touches no deleted connection and answers reach the connection that asked.

  \<^bold>\<open>Bounds and fuel.\<close> There is no fuel in the transport and server models: loops over lists are structural, \<open>md5_read\<close> has a measure. The searches
  that draw random slots until one is open take the draws as a list and give \<open>NotReturned\<close> when it ends; \<open>db_search_ends\<close> shows that draws reaching every slot
  suffice. Buffers are limited by \<open>growable\<close> (sizes that the code's 32-bit arithmetic can handle), files by 2 GB, where the segment index times the segment
  size leaves the range of \<open>int\<close>. Ticks are 64-bit words and wrap. The loops of the network library over waiting connections and over timers have a step bound: more than the
  backlog of a listening socket, and at least the number of timers and loop handlers; \<open>event_loop_safe\<close> shows that this is enough. A round of the database proxy sends as
  many responses as are queued. MD5 and statements are for lengths below \<open>2 ^ 32\<close>, splitting for fewer than \<open>2 ^ 31\<close> fields, encryption for the lengths that its
  property names.

  \<^bold>\<open>Not modelled.\<close> Logging and the calls of the operating system themselves; the block cipher and the digests of OpenSSL, which are parameters; what the database proxy asks of MySQL
  and Redis (\<open>db_proxy_server/business/\<close>, the methods of \<open>CDBConn\<close> and \<open>CacheConn\<close>), which is little logic of its own around statements; the HTTP side of the
  login server, the HTTP message server, the small file storage and their parser; the push server, which talks to Apple over SSL; programs for tests, monitoring and cleaning up;
  vendored libraries and generated code. \<open>GetHostname\<close>, \<open>uuid_generate\<close>, time and random numbers are parameters.
\<close>

end
